(* ===== verification/Prelude.thy ===== *)
theory Prelude
  imports Complex_Main "HOL-Library.AList" "HOL-Library.Char_ord"
begin

text \<open>
  Shared vocabulary of the development: Python strings, dictionaries, results and the
  lemmas about them that the component theories use.

  \<^item> \<open>ustr\<close> is a Python \<open>str\<close>: the list of its code points, so \<open>length\<close> is Python's
    \<open>len\<close> and text outside ASCII is represented exactly. \<open>lit\<close> embeds an ASCII literal.
  \<^item> \<open>('k, 'v) dict\<close> is a Python \<open>dict\<close> as an association list in insertion order:
    \<open>AList.update\<close> keeps the place of a present key and appends a new one, as Python does.
  \<^item> A fallible operation returns \<open>'e + 'a\<close>, with \<open>Inl\<close> for the raised exception.
  \<^item> Clock readings (Python floats) are real numbers; rounding of floats is not modelled.
\<close>

named_theorems dict_simps \<open>rewriting of dictionary operations to maps\<close>
named_theorems str_simps \<open>rewriting of string operations\<close>

section \<open>Strings\<close>

type_synonym ustr = "nat list"

definition lit :: "string \<Rightarrow> ustr" where
  "lit s = map of_char s"

lemma lit_Nil [simp]: "lit [] = []"
  by (simp add: lit_def)

lemma lit_Cons [str_simps]: "lit (c # s) = of_char c # lit s"
  by (simp add: lit_def)

lemma length_lit [simp]: "length (lit s) = length s"
  by (simp add: lit_def)

lemma lit_eq_iff [simp]: "lit s = lit t \<longleftrightarrow> s = t"
  by (simp add: lit_def inj_map_eq_map inj_def)

lemma lit_eq_Nil [simp]: "lit s = [] \<longleftrightarrow> s = []"
  by (simp add: lit_def)

text \<open>The code points for which \<open>str.isspace\<close> holds, which are those \<open>str.strip()\<close> removes.\<close>

definition py_space :: "nat \<Rightarrow> bool" where
  "py_space c \<longleftrightarrow> (9 \<le> c \<and> c \<le> 13) \<or> (28 \<le> c \<and> c \<le> 32) \<or> c = 133 \<or> c = 160 \<or> c = 5760 \<or>
     (8192 \<le> c \<and> c \<le> 8202) \<or> c = 8232 \<or> c = 8233 \<or> c = 8239 \<or> c = 8287 \<or> c = 12288"

definition lstrip :: "ustr \<Rightarrow> ustr" where
  "lstrip s = dropWhile py_space s"

definition rstrip :: "ustr \<Rightarrow> ustr" where
  "rstrip s = rev (dropWhile py_space (rev s))"

definition strip :: "ustr \<Rightarrow> ustr" where
  "strip s = rstrip (lstrip s)"

definition starts_with :: "ustr \<Rightarrow> ustr \<Rightarrow> bool" where
  "starts_with p s \<longleftrightarrow> take (length p) s = p"

text \<open>Substring test, Python's \<open>needle in text\<close>.\<close>

fun has_sub :: "ustr \<Rightarrow> ustr \<Rightarrow> bool" where
  "has_sub n [] = (n = [])"
| "has_sub n (c # cs) = (starts_with n (c # cs) \<or> has_sub n cs)"

text \<open>\<open>sep.join(parts)\<close>.\<close>

fun py_join :: "ustr \<Rightarrow> ustr list \<Rightarrow> ustr" where
  "py_join sep [] = []"
| "py_join sep [p] = p"
| "py_join sep (p # q # ps) = p @ sep @ py_join sep (q # ps)"

text \<open>
  \<open>text.split(sep)\<close> for a non-empty separator: scan from the left, cutting at every
  non-overlapping occurrence. The second argument collects the current part, reversed.
\<close>

function split_sub :: "ustr \<Rightarrow> ustr \<Rightarrow> ustr \<Rightarrow> ustr list" where
  "split_sub sep acc [] = [rev acc]"
| "split_sub sep acc (c # cs) =
     (if sep \<noteq> [] \<and> starts_with sep (c # cs)
      then rev acc # split_sub sep [] (drop (length sep) (c # cs))
      else split_sub sep (c # acc) cs)"
  by pat_completeness auto
termination
  by (relation "measure (\<lambda>(sep, acc, s). length s)") auto

definition py_split :: "ustr \<Rightarrow> ustr \<Rightarrow> ustr list" where
  "py_split sep s = split_sub sep [] s"

text \<open>Decimal rendering of a natural number, \<open>str(n)\<close>, and its inverse on digits.\<close>

fun dec :: "nat \<Rightarrow> ustr" where
  "dec n = (if n < 10 then [48 + n] else dec (n div 10) @ [48 + n mod 10])"

declare dec.simps [simp del]

definition py_digit :: "nat \<Rightarrow> bool" where
  "py_digit c \<longleftrightarrow> 48 \<le> c \<and> c \<le> 57"

definition undec :: "ustr \<Rightarrow> nat" where
  "undec s = fold (\<lambda>c n. 10 * n + (c - 48)) s 0"

text \<open>\<open>str(i)\<close> of a Python integer.\<close>

definition dec_int :: "int \<Rightarrow> ustr" where
  "dec_int i = (if i < 0 then 45 # dec (nat (- i)) else dec (nat i))"

text \<open>Lower-casing of the ASCII letters, the part of \<open>str.lower\<close> that concrete runs use.\<close>

definition ascii_lower :: "ustr \<Rightarrow> ustr" where
  "ascii_lower s = map (\<lambda>c. if 65 \<le> c \<and> c \<le> 90 then c + 32 else c) s"

subsection \<open>Lemmas on strings\<close>

lemma dropWhile_dropWhile: "dropWhile P (dropWhile P xs) = dropWhile P xs"
  by (induction xs) auto

lemma hd_dropWhile_False: "dropWhile P xs \<noteq> [] \<Longrightarrow> \<not> P (hd (dropWhile P xs))"
  by (rule hd_dropWhile)

lemma lstrip_rstrip_id:
  assumes "s = [] \<or> \<not> py_space (hd s)"
  shows "lstrip s = s"
  using assms by (cases s) (auto simp: lstrip_def)

lemma rstrip_id:
  assumes "s = [] \<or> \<not> py_space (last s)"
  shows "rstrip s = s"
  using assms by (cases s rule: rev_cases) (auto simp: rstrip_def)

lemma rstrip_idem: "rstrip (rstrip s) = rstrip s"
  by (simp add: rstrip_def dropWhile_dropWhile)

lemma rstrip_prefix: "\<exists>t. s = rstrip s @ t \<and> (\<forall>c \<in> set t. py_space c)"
proof -
  have "rev s = takeWhile py_space (rev s) @ dropWhile py_space (rev s)" by simp
  then have "s = rstrip s @ rev (takeWhile py_space (rev s))"
    unfolding rstrip_def by (metis rev_append rev_rev_ident)
  moreover have "\<forall>c \<in> set (rev (takeWhile py_space (rev s))). py_space c"
    by (auto dest: set_takeWhileD)
  ultimately show ?thesis by blast
qed

lemma hd_rstrip: "rstrip s \<noteq> [] \<Longrightarrow> hd (rstrip s) = hd s"
  using rstrip_prefix [of s] by (metis hd_append2)

lemma last_rstrip: "rstrip s \<noteq> [] \<Longrightarrow> \<not> py_space (last (rstrip s))"
  by (simp add: rstrip_def last_rev hd_dropWhile)

lemma last_strip: "strip s \<noteq> [] \<Longrightarrow> \<not> py_space (last (strip s))"
  by (simp add: strip_def last_rstrip)

lemma hd_strip: "strip s \<noteq> [] \<Longrightarrow> \<not> py_space (hd (strip s))"
proof -
  assume ne: "strip s \<noteq> []"
  then have "lstrip s \<noteq> []" by (auto simp: strip_def rstrip_def)
  moreover from ne have "hd (strip s) = hd (lstrip s)"
    unfolding strip_def by (rule hd_rstrip)
  ultimately show ?thesis by (simp add: lstrip_def hd_dropWhile)
qed

text \<open>A string that starts and ends with visible characters is its own \<open>strip\<close>.\<close>

lemma strip_id: "s = [] \<or> \<not> py_space (hd s) \<and> \<not> py_space (last s) \<Longrightarrow> strip s = s"
  by (auto simp: strip_def lstrip_rstrip_id rstrip_id)

lemma strip_idem [simp]: "strip (strip s) = strip s"
  by (rule strip_id) (use hd_strip last_strip in blast)

lemma strip_Nil [simp]: "strip [] = []"
  by (simp add: strip_def lstrip_def rstrip_def)

lemma strip_eq_Nil_iff: "strip s = [] \<longleftrightarrow> (\<forall>c \<in> set s. py_space c)"
proof -
  have "strip s = [] \<longleftrightarrow> (\<forall>c \<in> set (lstrip s). py_space c)"
    by (simp add: strip_def rstrip_def dropWhile_eq_Nil_conv)
  also have "\<dots> \<longleftrightarrow> lstrip s = []"
    unfolding lstrip_def by (metis dropWhile_dropWhile dropWhile_eq_Nil_conv list.set_intros(1)
      empty_iff empty_set)
  also have "\<dots> \<longleftrightarrow> (\<forall>c \<in> set s. py_space c)"
    by (simp add: lstrip_def dropWhile_eq_Nil_conv)
  finally show ?thesis .
qed

lemma length_strip_le: "length (strip s) \<le> length s"
proof -
  have "length (rstrip t) \<le> length t" for t
    by (simp add: rstrip_def) (metis length_dropWhile_le length_rev)
  then show ?thesis
    unfolding strip_def lstrip_def by (meson le_trans length_dropWhile_le)
qed

lemma starts_with_append [simp]: "starts_with p (p @ s)"
  by (simp add: starts_with_def)

lemma starts_with_Nil [simp]: "starts_with [] s"
  by (simp add: starts_with_def)

lemma starts_with_iff: "starts_with p s \<longleftrightarrow> (\<exists>t. s = p @ t)"
  by (metis append_take_drop_id starts_with_append starts_with_def)

lemma has_sub_iff: "has_sub n s \<longleftrightarrow> (\<exists>a b. s = a @ n @ b)"
proof (induction s)
  case Nil
  then show ?case by auto
next
  case (Cons c cs)
  show ?case
  proof
    assume "has_sub n (c # cs)"
    then consider t where "c # cs = [] @ n @ t" | a b where "cs = a @ n @ b"
      using Cons.IH by (auto simp: starts_with_iff)
    then show "\<exists>a b. c # cs = a @ n @ b"
      by cases (blast, metis append_Cons)
  next
    assume "\<exists>a b. c # cs = a @ n @ b"
    then obtain a b where "c # cs = a @ n @ b" by blast
    then show "has_sub n (c # cs)"
    proof (cases a)
      case Nil
      with \<open>c # cs = a @ n @ b\<close> have "starts_with n (c # cs)"
        unfolding starts_with_iff by auto
      then show ?thesis by simp
    next
      case (Cons _ a')
      with \<open>c # cs = a @ n @ b\<close> Cons.IH have "has_sub n cs" by auto
      then show ?thesis by simp
    qed
  qed
qed

lemma dec_nonempty [simp]: "dec n \<noteq> []"
  by (subst dec.simps) simp

lemma dec_digits: "c \<in> set (dec n) \<Longrightarrow> py_digit c"
proof (induction n rule: dec.induct)
  case (1 n)
  show ?case
  proof (cases "n < 10")
    case True
    with "1.prems" show ?thesis by (simp add: dec.simps [of n] py_digit_def)
  next
    case False
    with "1.prems" have "c \<in> set (dec (n div 10)) \<or> c = 48 + n mod 10"
      by (auto simp: dec.simps [of n])
    then show ?thesis
    proof
      assume "c \<in> set (dec (n div 10))"
      then show ?thesis by (rule "1.IH" [OF False])
    next
      assume "c = 48 + n mod 10"
      moreover have "n mod 10 < 10" by simp
      ultimately show ?thesis by (auto simp: py_digit_def)
    qed
  qed
qed

text \<open>Reading back a rendered number gives the number: \<open>int(str(n)) = n\<close>.\<close>

lemma undec_dec [simp]: "undec (dec n) = n"
proof (induction n rule: dec.induct)
  case (1 n)
  show ?case
  proof (cases "n < 10")
    case True
    then show ?thesis by (simp add: dec.simps [of n] undec_def)
  next
    case False
    have "undec (dec n) = 10 * undec (dec (n div 10)) + n mod 10"
      using False by (simp add: dec.simps [of n] undec_def)
    then show ?thesis using "1" [OF False] by simp
  qed
qed

lemma dec_inject [simp]: "dec m = dec n \<longleftrightarrow> m = n"
  by (metis undec_dec)

lemma dec_no_char: "\<not> py_digit c \<Longrightarrow> c \<notin> set (dec n)"
  using dec_digits by blast

subsection \<open>Unique decoding\<close>

text \<open>A map into non-empty words that can be told apart in front of any rest is injective
  on concatenations.\<close>

lemma concat_map_inj:
  assumes "\<And>x y xs ys. x \<in> S \<Longrightarrow> y \<in> S \<Longrightarrow> f x @ xs = f y @ ys \<Longrightarrow> x = y \<and> xs = ys"
    and "\<And>x. x \<in> S \<Longrightarrow> f x \<noteq> []"
    and "set as \<subseteq> S" and "set bs \<subseteq> S" and "concat (map f as) = concat (map f bs)"
  shows "as = bs"
  using assms(3-5)
proof (induction as arbitrary: bs)
  case Nil
  then show ?case using assms(2) by (cases bs) auto
next
  case (Cons a as)
  then obtain b bs' where bs: "bs = b # bs'" using assms(2) by (cases bs) auto
  with Cons.prems have "f a @ concat (map f as) = f b @ concat (map f bs')" by simp
  with assms(1) Cons.prems bs have "a = b \<and> concat (map f as) = concat (map f bs')"
    by (metis insert_subset list.simps(15))
  with Cons bs show ?case by auto
qed

text \<open>Text without the separator in front of the separator is determined.\<close>

lemma before_sep_eq:
  assumes "c \<notin> set a" and "c \<notin> set b" and "a @ c # x = b @ c # y"
  shows "a = b \<and> x = y"
proof -
  have "takeWhile (\<lambda>d. d \<noteq> c) (u @ c # z) = u" if "c \<notin> set u" for u z
    using that by (induction u) auto
  then have "takeWhile (\<lambda>d. d \<noteq> c) (a @ c # x) = a" "takeWhile (\<lambda>d. d \<noteq> c) (b @ c # y) = b"
    using assms(1,2) by blast+
  with assms(3) show ?thesis by auto
qed

section \<open>Lists\<close>

lemma sorted_constant: "\<forall>x \<in> set xs. f x = k \<Longrightarrow> sorted (map f xs)"
  by (induction xs) auto

section \<open>Dictionaries\<close>

type_synonym ('k, 'v) dict = "('k \<times> 'v) list"

definition dict_setdefault :: "'k \<Rightarrow> 'v \<Rightarrow> ('k, 'v) dict \<Rightarrow> ('k, 'v) dict" where
  "dict_setdefault k v d = (case map_of d k of None \<Rightarrow> AList.update k v d | Some _ \<Rightarrow> d)"

definition dict_get :: "('k, 'v) dict \<Rightarrow> 'k \<Rightarrow> 'v \<Rightarrow> 'v" where
  "dict_get d k v = (case map_of d k of None \<Rightarrow> v | Some x \<Rightarrow> x)"

definition dict_wf :: "('k, 'v) dict \<Rightarrow> bool" where
  "dict_wf d \<longleftrightarrow> distinct (map fst d)"

lemma map_of_update [dict_simps]: "map_of (AList.update k v d) = (map_of d)(k \<mapsto> v)"
  by (rule update_conv')

lemma map_of_delete [dict_simps]: "map_of (AList.delete k d) = (map_of d)(k := None)"
  by (rule delete_conv')

lemma map_of_setdefault [dict_simps]:
  "map_of (dict_setdefault k v d) =
     (case map_of d k of None \<Rightarrow> (map_of d)(k \<mapsto> v) | Some _ \<Rightarrow> map_of d)"
  by (simp add: dict_setdefault_def update_conv' split: option.split)

lemma dict_get_update [dict_simps]:
  "dict_get (AList.update k v d) j w = (if k = j then v else dict_get d j w)"
  by (auto simp: dict_get_def update_conv')

lemma dict_get_setdefault [dict_simps]:
  "dict_get (dict_setdefault k v d) j v = dict_get d j v"
  by (auto simp: dict_get_def dict_setdefault_def update_conv' split: option.split)

lemma dict_wf_empty [simp]: "dict_wf []"
  by (simp add: dict_wf_def)

lemma dict_wf_update [simp]: "dict_wf d \<Longrightarrow> dict_wf (AList.update k v d)"
  unfolding dict_wf_def by (rule distinct_update)

lemma dict_wf_delete [simp]: "dict_wf d \<Longrightarrow> dict_wf (AList.delete k d)"
  unfolding dict_wf_def by (rule distinct_delete)

lemma dict_wf_setdefault [simp]: "dict_wf d \<Longrightarrow> dict_wf (dict_setdefault k v d)"
  by (simp add: dict_setdefault_def split: option.split)

lemma keys_update [dict_simps]: "fst ` set (AList.update k v d) = insert k (fst ` set d)"
  by (metis dom_map_of_conv_image_fst dom_fun_upd option.distinct(1) update_conv')

lemma keys_delete [dict_simps]: "fst ` set (AList.delete k d) = fst ` set d - {k}"
  by (metis delete_keys set_map set_removeAll)

section \<open>Results\<close>

definition bindr :: "'e + 'a \<Rightarrow> ('a \<Rightarrow> 'e + 'b) \<Rightarrow> 'e + 'b" where
  "bindr r f = (case r of Inl e \<Rightarrow> Inl e | Inr x \<Rightarrow> f x)"

lemma bindr_simps [simp]: "bindr (Inl e) f = Inl e" "bindr (Inr x) f = f x"
  by (simp_all add: bindr_def)

lemma bindr_eq_Inr: "bindr r f = Inr y \<longleftrightarrow> (\<exists>x. r = Inr x \<and> f x = Inr y)"
  by (cases r) auto

section \<open>Effectful programs\<close>

text \<open>
  An operation that changes a state and may raise is a function from the state to its
  outcome and the state afterwards: the changes made before an exception are kept, as in
  Python. \<open>Cancelled\<close> is \<open>asyncio.CancelledError\<close>, which the code always lets through;
  \<open>Raised n\<close> is any other exception, with the name of its type.
\<close>

datatype exn = Cancelled | Raised ustr

type_synonym ('e, 's, 'a) eprog = "'s \<Rightarrow> ('e + 'a) \<times> 's"

type_synonym ('s, 'a) prog = "(exn, 's, 'a) eprog"

definition retp :: "'a \<Rightarrow> ('e, 's, 'a) eprog" where
  "retp x s = (Inr x, s)"

definition raisep :: "'e \<Rightarrow> ('e, 's, 'a) eprog" where
  "raisep e s = (Inl e, s)"

definition bindp :: "('e, 's, 'a) eprog \<Rightarrow> ('a \<Rightarrow> ('e, 's, 'b) eprog) \<Rightarrow> ('e, 's, 'b) eprog" where
  "bindp m f s = (case m s of (Inl e, s') \<Rightarrow> (Inl e, s') | (Inr x, s') \<Rightarrow> f x s')"

text \<open>
  \<open>try m except CancelledError: raise except Exception: h\<close>.
\<close>

definition catchp :: "('s, 'a) prog \<Rightarrow> (ustr \<Rightarrow> ('s, 'a) prog) \<Rightarrow> ('s, 'a) prog" where
  "catchp m h s = (case m s of
     (Inl Cancelled, s') \<Rightarrow> (Inl Cancelled, s')
   | (Inl (Raised n), s') \<Rightarrow> h n s'
   | (Inr x, s') \<Rightarrow> (Inr x, s'))"

text \<open>A total operation that returns a value and a new state, as a program that never raises.\<close>

definition liftp :: "('s \<Rightarrow> 'a \<times> 's) \<Rightarrow> ('e, 's, 'a) eprog" where
  "liftp m s = (Inr (fst (m s)), snd (m s))"

text \<open>Reading the state, and \<open>int((now - started) * 1000)\<close> for a monotonic clock.\<close>

definition getp :: "('s \<Rightarrow> 'a) \<Rightarrow> ('e, 's, 'a) eprog" where
  "getp f s = (Inr (f s), s)"

definition elapsed_ms :: "real \<Rightarrow> real \<Rightarrow> int" where
  "elapsed_ms started now = \<lfloor>(now - started) * 1000\<rfloor>"

lemma retp_apply [simp]: "retp x s = (Inr x, s)"
  by (simp add: retp_def)

lemma raisep_apply [simp]: "raisep e s = (Inl e, s)"
  by (simp add: raisep_def)

lemma bindp_Inr: "m s = (Inr x, s') \<Longrightarrow> bindp m f s = f x s'"
  by (simp add: bindp_def)

lemma bindp_Inl: "m s = (Inl e, s') \<Longrightarrow> bindp m f s = (Inl e, s')"
  by (simp add: bindp_def)

lemma bindp_retp [simp]: "bindp (retp x) f = f x"
  by (rule ext) (simp add: bindp_def)

lemma bindp_cases [consumes 1, case_names raises returned]:
  assumes "bindp m f s = (r, t)"
  obtains (raised) e where "m s = (Inl e, t)" "r = Inl e"
    | (returned) x s' where "m s = (Inr x, s')" "f x s' = (r, t)"
  using assms by (auto simp: bindp_def split: prod.splits sum.splits)

subsection \<open>What a program does to its state\<close>

text \<open>
  \<open>moves R m\<close>: whatever the outcome of \<open>m\<close>, the state before and after are related by
  \<open>R\<close>. For a reflexive and transitive \<open>R\<close> the combinators keep it, so that the frame of a
  long program follows from the frames of its calls.
\<close>

named_theorems moves_intro \<open>introduction rules for the relation between states\<close>

definition moves :: "('s \<Rightarrow> 's \<Rightarrow> bool) \<Rightarrow> ('e, 's, 'a) eprog \<Rightarrow> bool" where
  "moves R m \<longleftrightarrow> (\<forall>s. R s (snd (m s)))"

lemma movesD: "moves R m \<Longrightarrow> m s = (r, s') \<Longrightarrow> R s s'"
  unfolding moves_def by (metis snd_conv)

lemma movesI: "(\<And>s r s'. m s = (r, s') \<Longrightarrow> R s s') \<Longrightarrow> moves R m"
  unfolding moves_def by (metis prod.collapse)

lemma moves_retp [moves_intro]: "reflp R \<Longrightarrow> moves R (retp x)"
  by (simp add: moves_def reflpD)

lemma moves_raisep [moves_intro]: "reflp R \<Longrightarrow> moves R (raisep e)"
  by (simp add: moves_def reflpD)

lemma moves_bindp [moves_intro]:
  "transp R \<Longrightarrow> moves R m \<Longrightarrow> (\<And>x. moves R (f x)) \<Longrightarrow> moves R (bindp m f)"
  by (rule movesI, erule bindp_cases) (auto dest: movesD transpD)

lemma moves_catchp [moves_intro]:
  "transp R \<Longrightarrow> moves R m \<Longrightarrow> (\<And>n. moves R (h n)) \<Longrightarrow> moves R (catchp m h)"
  by (rule movesI)
    (auto simp: catchp_def split: prod.splits sum.splits exn.splits dest: movesD transpD)

lemma moves_if [moves_intro]: "(b \<Longrightarrow> moves R m) \<Longrightarrow> (\<not> b \<Longrightarrow> moves R n) \<Longrightarrow> moves R (if b then m else n)"
  by simp

lemma moves_liftp: "(\<And>s. R s (snd (m s))) \<Longrightarrow> moves R (liftp m)"
  by (simp add: moves_def liftp_def)

lemma moves_getp [moves_intro]: "reflp R \<Longrightarrow> moves R (getp f)"
  by (simp add: moves_def getp_def reflpD)

lemma moves_option [moves_intro]:
  "(x = None \<Longrightarrow> moves R m) \<Longrightarrow> (\<And>y. x = Some y \<Longrightarrow> moves R (f y)) \<Longrightarrow> moves R (case x of None \<Rightarrow> m | Some y \<Rightarrow> f y)"
  by (cases x) auto

subsection \<open>Frames and contracts\<close>

definition same_view :: "('s \<Rightarrow> 'v) \<Rightarrow> 's \<Rightarrow> 's \<Rightarrow> bool" where
  "same_view v s s' \<longleftrightarrow> v s' = v s"

lemma same_view_refl [simp]: "reflp (same_view v)"
  by (simp add: reflp_def same_view_def)

lemma same_view_trans [simp]: "transp (same_view v)"
  by (simp add: transp_def same_view_def)

text \<open>\<open>answers v Q m\<close>: the view before, the outcome and the view after satisfy \<open>Q\<close>.\<close>

definition answers :: "('s \<Rightarrow> 'v) \<Rightarrow> ('v \<Rightarrow> 'e + 'a \<Rightarrow> 'v \<Rightarrow> bool) \<Rightarrow> ('e, 's, 'a) eprog \<Rightarrow> bool" where
  "answers v Q m \<longleftrightarrow> (\<forall>s r s'. m s = (r, s') \<longrightarrow> Q (v s) r (v s'))"

lemma answersD: "answers v Q m \<Longrightarrow> m s = (r, s') \<Longrightarrow> Q (v s) r (v s')"
  unfolding answers_def by blast

lemma answers_bindp:
  assumes "moves (same_view v) m" and "\<And>x. answers v Q (f x)" and "\<And>a e. Q a (Inl e) a"
  shows "answers v Q (bindp m f)"
  unfolding answers_def
proof (intro allI impI)
  fix s r s'
  assume "bindp m f s = (r, s')"
  then show "Q (v s) r (v s')"
  proof (cases rule: bindp_cases)
    case (raises e)
    then show ?thesis using movesD [OF assms(1)] assms(3) by (metis same_view_def)
  next
    case (returned x s1)
    then show ?thesis using movesD [OF assms(1)] answersD [OF assms(2)] by (metis same_view_def)
  qed
qed

lemma answers_moves: "moves (same_view v) m \<Longrightarrow> (\<And>a r. Q a r a) \<Longrightarrow> answers v Q m"
  unfolding answers_def by (metis movesD same_view_def)

subsection \<open>What a program answers\<close>

text \<open>\<open>yields P m\<close>: \<open>m\<close> returns a value with \<open>P\<close>, unless it is cancelled; it never raises.\<close>

named_theorems yields_intro \<open>introduction rules for the answers of a program\<close>

definition yields :: "('a \<Rightarrow> bool) \<Rightarrow> ('s, 'a) prog \<Rightarrow> bool" where
  "yields P m \<longleftrightarrow> (\<forall>s. case fst (m s) of Inl e \<Rightarrow> e = Cancelled | Inr x \<Rightarrow> P x)"

lemma yieldsD: "yields P m \<Longrightarrow> fst (m s) = Inl Cancelled \<or> (\<exists>x. fst (m s) = Inr x \<and> P x)"
  unfolding yields_def by (drule spec [of _ s]) (auto split: sum.splits)

lemma yields_weaken: "yields P m \<Longrightarrow> (\<And>x. P x \<Longrightarrow> Q x) \<Longrightarrow> yields Q m"
  unfolding yields_def by (metis (mono_tags, lifting) old.sum.simps(5,6) sum.exhaust)

lemma yields_retp [yields_intro]: "P x \<Longrightarrow> yields P (retp x)"
  by (simp add: yields_def)

lemma yields_bindp:
  assumes "yields Q m" and "\<And>x. Q x \<Longrightarrow> yields P (f x)"
  shows "yields P (bindp m f)"
  unfolding yields_def
proof
  fix s
  obtain r s' where m: "m s = (r, s')" by fastforce
  show "case fst (bindp m f s) of Inl e \<Rightarrow> e = Cancelled | Inr x \<Rightarrow> P x"
  proof (cases r)
    case (Inl e)
    then show ?thesis
      using m assms(1) [unfolded yields_def, rule_format, of s] by (simp add: bindp_def)
  next
    case (Inr x)
    then have "Q x" using m assms(1) [unfolded yields_def, rule_format, of s] by simp
    then show ?thesis
      using m Inr assms(2) [of x, unfolded yields_def, rule_format, of s'] by (simp add: bindp_def)
  qed
qed

lemma yields_catchp [yields_intro]:
  assumes "\<And>s x s'. m s = (Inr x, s') \<Longrightarrow> P x" and "\<And>n. yields P (h n)"
  shows "yields P (catchp m h)"
  unfolding yields_def
proof
  fix s
  obtain r s' where m: "m s = (r, s')" by fastforce
  show "case fst (catchp m h s) of Inl e \<Rightarrow> e = Cancelled | Inr x \<Rightarrow> P x"
  proof (cases r)
    case (Inl e)
    show ?thesis
    proof (cases e)
      case Cancelled
      then show ?thesis using m Inl by (simp add: catchp_def)
    next
      case (Raised n)
      then show ?thesis
        using m Inl assms(2) [of n, unfolded yields_def, rule_format, of s'] by (simp add: catchp_def)
    qed
  next
    case (Inr x)
    then show ?thesis using m assms(1) by (simp add: catchp_def)
  qed
qed

lemma yields_if [yields_intro]: "(b \<Longrightarrow> yields P m) \<Longrightarrow> (\<not> b \<Longrightarrow> yields P n) \<Longrightarrow> yields P (if b then m else n)"
  by simp

end
