(* ===== verification/StreamApi.thy ===== *)
theory StreamApi
  imports Prelude
begin

text \<open>
  The interfaces of \<open>src/mybot/infrastructure/streams.py\<close> and its clients: the protocol
  \<open>StreamBackend\<close> as a record of operations, and the contracts a client relies on as
  locales. \<open>stream_backend\<close> is what the consumer needs of a transport; \<open>counter_backend\<close>
  is what the token budget and the guards need of the expiring counters.
\<close>

section \<open>The operations of a transport\<close>

record 's stream_ops =
  so_add :: "ustr \<Rightarrow> ustr \<Rightarrow> nat \<Rightarrow> ('s, ustr) prog"
  so_ensure_group :: "ustr \<Rightarrow> ustr \<Rightarrow> ('s, unit) prog"
  so_read_new :: "ustr \<Rightarrow> ustr \<Rightarrow> ustr \<Rightarrow> nat \<Rightarrow> ('s, (ustr \<times> ustr) list) prog"
  so_claim_stale :: "ustr \<Rightarrow> ustr \<Rightarrow> ustr \<Rightarrow> real \<Rightarrow> nat \<Rightarrow> ('s, (ustr \<times> ustr) list) prog"
  so_delivery_count :: "ustr \<Rightarrow> ustr \<Rightarrow> ustr \<Rightarrow> ('s, int) prog"
  so_ack :: "ustr \<Rightarrow> ustr \<Rightarrow> ustr \<Rightarrow> ('s, unit) prog"
  so_acquire_once :: "ustr \<Rightarrow> int \<Rightarrow> ('s, bool) prog"
  so_has_once :: "ustr \<Rightarrow> ('s, bool) prog"

section \<open>The contract of a transport\<close>

text \<open>
  Four views of the transport's state: the ids a group still owes an acknowledgement, the
  ids a stream holds, the payloads a stream holds, and the once-keys in force. Operations
  may raise; the laws then only say that nothing was acknowledged. A claim may drop a
  pending id, but only one that was trimmed from the stream.
\<close>

locale stream_backend =
  fixes B :: "'s stream_ops"
    and pend :: "'s \<Rightarrow> ustr \<Rightarrow> ustr \<Rightarrow> ustr set"
    and held :: "'s \<Rightarrow> ustr \<Rightarrow> ustr set"
    and stored :: "'s \<Rightarrow> ustr \<Rightarrow> ustr set"
    and finished :: "'s \<Rightarrow> ustr set"
  assumes add_frame: "so_add B st p k s = (r, s') \<Longrightarrow> pend s' = pend s \<and> finished s' = finished s"
    and add_stored: "so_add B st p k s = (Inr i, s') \<Longrightarrow> 0 < k \<Longrightarrow> p \<in> stored s' st"
    and has_once_pure: "so_has_once B key s = (rb, s') \<Longrightarrow> s' = s"
    and has_once_value: "so_has_once B key s = (Inr v, s') \<Longrightarrow> v = (key \<in> finished s)"
    and acquire_frame: "so_acquire_once B key ttl s = (rb, s') \<Longrightarrow> pend s' = pend s"
    and acquire_finished:
      "so_acquire_once B key ttl s = (Inr v, s') \<Longrightarrow> 0 < ttl \<Longrightarrow> key \<in> finished s'"
    and ack_removes: "so_ack B st g i s = (Inr u, s') \<Longrightarrow>
      pend s' st' g' = (if st' = st \<and> g' = g then pend s st g - {i} else pend s st' g')"
    and ack_raises: "so_ack B st g i s = (Inl e, s') \<Longrightarrow> pend s' = pend s"
    and ack_frame: "so_ack B st g i s = (ru, s') \<Longrightarrow>
      stored s' = stored s \<and> finished s' = finished s"
    and ensure_frame: "so_ensure_group B st g s = (ru, s') \<Longrightarrow> pend s' = pend s \<and> held s' = held s"
    and claim_keeps: "so_claim_stale B st g con idle k s = (rl, s') \<Longrightarrow>
      i \<in> pend s st' g' \<Longrightarrow> i \<in> held s st' \<Longrightarrow> i \<in> pend s' st' g'"
    and read_keeps: "so_read_new B st g con k s = (rl, s') \<Longrightarrow> pend s st' g' \<subseteq> pend s' st' g'"
    and count_frame: "so_delivery_count B st g i s = (rn, s') \<Longrightarrow> pend s' = pend s"

section \<open>The contract of the expiring counters\<close>

text \<open>
  \<open>total s k\<close> is what the counter \<open>k\<close> stands at now (0 when it was never set or has
  expired). With a positive lifetime an increment returns the new total and touches no
  other counter.
\<close>

locale counter_backend =
  fixes incr :: "ustr \<Rightarrow> int \<Rightarrow> int \<Rightarrow> 's \<Rightarrow> int \<times> 's"
    and total :: "'s \<Rightarrow> ustr \<Rightarrow> int"
  assumes incr_value: "0 < ttl \<Longrightarrow> incr k a ttl s = (v, s') \<Longrightarrow> v = total s k + a"
    and incr_total: "0 < ttl \<Longrightarrow> incr k a ttl s = (v, s') \<Longrightarrow>
      total s' j = (if j = k then total s k + a else total s j)"
begin

lemma incr_snd_total: "0 < ttl \<Longrightarrow> total (snd (incr k a ttl s)) k = total s k + a"
  using incr_total [of ttl k a s] by (cases "incr k a ttl s") auto

lemma incr_snd_other: "0 < ttl \<Longrightarrow> j \<noteq> k \<Longrightarrow> total (snd (incr k a ttl s)) j = total s j"
  using incr_total [of ttl k a s] by (cases "incr k a ttl s") auto

text \<open>Reading a counter is incrementing it by 0: the value is the total and nothing moves.\<close>

lemma read_total: "0 < ttl \<Longrightarrow> fst (incr k 0 ttl s) = total s k"
  using incr_value [of ttl k 0 s] by (cases "incr k 0 ttl s") auto

lemma read_frame: "0 < ttl \<Longrightarrow> total (snd (incr k 0 ttl s)) = total s"
  using incr_total [of ttl k 0 s] by (cases "incr k 0 ttl s") (auto simp: fun_eq_iff)

end

end
