(* ===== verification/StreamBackend.thy ===== *)
theory StreamBackend
  imports StreamApi "HOL-Library.List_Lexorder"
begin

text \<open>
  The in-memory stream backend, \<open>MemoryStreamBackend\<close> of
  \<open>src/mybot/infrastructure/streams.py\<close>: streams with consumer groups, pending entries,
  once-keys and expiring counters. Every field of the Python object is a field of the
  record \<open>mem_backend\<close>; the injected clock is the field \<open>mb_now\<close>, advanced by the
  environment only, so the readings inside one operation are equal. The record is
  extensible: a caller's own state can ride along in \<open>more\<close>.
\<close>

section \<open>State\<close>

record pending_entry =
  pe_consumer :: ustr
  pe_count :: int
  pe_since :: real

record group_state =
  next_index :: nat
  pending :: "(ustr, pending_entry) dict"

record mem_backend =
  mb_streams :: "(ustr, (nat \<times> ustr) list) dict"
  mb_sequence :: "(ustr, nat) dict"
  mb_groups :: "(ustr \<times> ustr, group_state) dict"
  mb_once :: "(ustr, real) dict"
  mb_counters :: "(ustr, int \<times> real) dict"
  mb_now :: real

definition new_group :: group_state where
  "new_group = \<lparr>next_index = 0, pending = []\<rparr>"

definition mem_init :: mem_backend where
  "mem_init = \<lparr>mb_streams = [], mb_sequence = [], mb_groups = [], mb_once = [],
     mb_counters = [], mb_now = 0\<rparr>"

text \<open>Entry ids are \<open>f"{sequence}-0"\<close>.\<close>

definition entry_id :: "nat \<Rightarrow> ustr" where
  "entry_id n = dec n @ lit ''-0''"

abbreviation stream_of :: "'w mem_backend_scheme \<Rightarrow> ustr \<Rightarrow> (nat \<times> ustr) list" where
  "stream_of b s \<equiv> dict_get (mb_streams b) s []"

abbreviation group_of :: "'w mem_backend_scheme \<Rightarrow> ustr \<Rightarrow> ustr \<Rightarrow> group_state" where
  "group_of b s g \<equiv> dict_get (mb_groups b) (s, g) new_group"

section \<open>Operations\<close>

text \<open>\<open>while len(entries) > maxlen: entries.pop(0)\<close>.\<close>

fun trim :: "nat \<Rightarrow> 'a list \<Rightarrow> 'a list" where
  "trim n [] = []"
| "trim n (x # xs) = (if length (x # xs) > n then trim n xs else x # xs)"

definition mem_add ::
  "ustr \<Rightarrow> ustr \<Rightarrow> nat \<Rightarrow> 'w mem_backend_scheme \<Rightarrow> ustr \<times> 'w mem_backend_scheme" where
  "mem_add stream payload maxlen b =
     (let sequence = dict_get (mb_sequence b) stream 0 + 1;
          entries = stream_of b stream @ [(sequence, payload)]
      in (entry_id sequence,
          b\<lparr>mb_sequence := AList.update stream sequence (mb_sequence b),
            mb_streams := AList.update stream (trim maxlen entries) (mb_streams b)\<rparr>))"

definition mem_ensure_group ::
  "ustr \<Rightarrow> ustr \<Rightarrow> 'w mem_backend_scheme \<Rightarrow> 'w mem_backend_scheme" where
  "mem_ensure_group stream grp b =
     b\<lparr>mb_groups := dict_setdefault (stream, grp) new_group (mb_groups b),
       mb_streams := dict_setdefault stream [] (mb_streams b)\<rparr>"

text \<open>\<open>self._groups.setdefault((stream, grp), _GroupState())\<close> followed by a write back.\<close>

definition put_group ::
  "ustr \<Rightarrow> ustr \<Rightarrow> group_state \<Rightarrow> 'w mem_backend_scheme \<Rightarrow> 'w mem_backend_scheme" where
  "put_group stream grp st b =
     b\<lparr>mb_groups := AList.update (stream, grp) st (mb_groups b)\<rparr>"

fun read_loop ::
  "nat \<Rightarrow> ustr \<Rightarrow> real \<Rightarrow> (nat \<times> ustr) list \<Rightarrow> group_state \<Rightarrow> (ustr \<times> ustr) list
     \<Rightarrow> (ustr \<times> ustr) list \<times> group_state" where
  "read_loop count consumer now [] st delivered = (delivered, st)"
| "read_loop count consumer now ((sequence, payload) # rest) st delivered =
     (if sequence \<le> next_index st \<or> length delivered \<ge> count
      then read_loop count consumer now rest st delivered
      else read_loop count consumer now rest
             (st\<lparr>pending := AList.update (entry_id sequence)
                    \<lparr>pe_consumer = consumer, pe_count = 1, pe_since = now\<rparr> (pending st),
                 next_index := sequence\<rparr>)
             (delivered @ [(entry_id sequence, payload)]))"

definition mem_read_new ::
  "ustr \<Rightarrow> ustr \<Rightarrow> ustr \<Rightarrow> nat \<Rightarrow> 'w mem_backend_scheme
     \<Rightarrow> (ustr \<times> ustr) list \<times> 'w mem_backend_scheme" where
  "mem_read_new stream grp consumer count b =
     (let (delivered, st) =
        read_loop count consumer (mb_now b) (stream_of b stream) (group_of b stream grp) []
      in (delivered, put_group stream grp st b))"

fun claim_loop ::
  "nat \<Rightarrow> ustr \<Rightarrow> real \<Rightarrow> real \<Rightarrow> (ustr, ustr) dict \<Rightarrow> (ustr \<times> pending_entry) list
     \<Rightarrow> (ustr, pending_entry) dict \<Rightarrow> (ustr \<times> ustr) list
     \<Rightarrow> (ustr \<times> ustr) list \<times> (ustr, pending_entry) dict" where
  "claim_loop count consumer now idle payloads [] pend claimed = (claimed, pend)"
| "claim_loop count consumer now idle payloads ((eid, pe) # rest) pend claimed =
     (if length claimed \<ge> count then (claimed, pend)
      else if (now - pe_since pe) * 1000 < idle
      then claim_loop count consumer now idle payloads rest pend claimed
      else (case map_of payloads eid of
              None \<Rightarrow> claim_loop count consumer now idle payloads rest
                        (AList.delete eid pend) claimed
            | Some payload \<Rightarrow> claim_loop count consumer now idle payloads rest
                (AList.update eid (pe\<lparr>pe_consumer := consumer, pe_count := pe_count pe + 1,
                                      pe_since := now\<rparr>) pend)
                (claimed @ [(eid, payload)])))"

text \<open>\<open>sorted(state.pending.items())\<close>: the ids are unique, so the order is that of the ids.\<close>

definition sorted_items :: "(ustr, pending_entry) dict \<Rightarrow> (ustr \<times> pending_entry) list" where
  "sorted_items d = sort_key fst d"

text \<open>The dict comprehension \<open>{f"{sequence}-0": payload for ...}\<close>.\<close>

definition payload_table :: "(nat \<times> ustr) list \<Rightarrow> (ustr, ustr) dict" where
  "payload_table rows = fold (\<lambda>(n, p) d. AList.update (entry_id n) p d) rows []"

definition mem_claim_stale ::
  "ustr \<Rightarrow> ustr \<Rightarrow> ustr \<Rightarrow> real \<Rightarrow> nat \<Rightarrow> 'w mem_backend_scheme
     \<Rightarrow> (ustr \<times> ustr) list \<times> 'w mem_backend_scheme" where
  "mem_claim_stale stream grp consumer min_idle_ms count b =
     (let st = group_of b stream grp;
          (claimed, pend) = claim_loop count consumer (mb_now b) min_idle_ms
             (payload_table (stream_of b stream)) (sorted_items (pending st)) (pending st) []
      in (claimed, put_group stream grp (st\<lparr>pending := pend\<rparr>) b))"

definition mem_delivery_count ::
  "ustr \<Rightarrow> ustr \<Rightarrow> ustr \<Rightarrow> 'w mem_backend_scheme \<Rightarrow> int \<times> 'w mem_backend_scheme" where
  "mem_delivery_count stream grp eid b =
     (let st = group_of b stream grp
      in ((case map_of (pending st) eid of None \<Rightarrow> 0 | Some pe \<Rightarrow> pe_count pe),
          put_group stream grp st b))"

definition mem_ack ::
  "ustr \<Rightarrow> ustr \<Rightarrow> ustr \<Rightarrow> 'w mem_backend_scheme \<Rightarrow> 'w mem_backend_scheme" where
  "mem_ack stream grp eid b =
     (let st = group_of b stream grp
      in put_group stream grp (st\<lparr>pending := AList.delete eid (pending st)\<rparr>) b)"

definition mem_acquire_once ::
  "ustr \<Rightarrow> int \<Rightarrow> 'w mem_backend_scheme \<Rightarrow> bool \<times> 'w mem_backend_scheme" where
  "mem_acquire_once key ttl_seconds b =
     (case map_of (mb_once b) key of
        Some expiry \<Rightarrow>
          if expiry > mb_now b then (False, b)
          else (True, b\<lparr>mb_once := AList.update key (mb_now b + of_int ttl_seconds) (mb_once b)\<rparr>)
      | None \<Rightarrow>
          (True, b\<lparr>mb_once := AList.update key (mb_now b + of_int ttl_seconds) (mb_once b)\<rparr>))"

definition mem_has_once :: "ustr \<Rightarrow> 'w mem_backend_scheme \<Rightarrow> bool" where
  "mem_has_once key b =
     (case map_of (mb_once b) key of None \<Rightarrow> False | Some expiry \<Rightarrow> expiry > mb_now b)"

definition mem_increment ::
  "ustr \<Rightarrow> int \<Rightarrow> int \<Rightarrow> 'w mem_backend_scheme \<Rightarrow> int \<times> 'w mem_backend_scheme" where
  "mem_increment key amount ttl_seconds b =
     (let now = mb_now b;
          (v0, e0) = dict_get (mb_counters b) key (0, 0);
          (v1, expiry) = (if e0 \<le> now then (0, now + of_int ttl_seconds) else (v0, e0));
          v = v1 + amount
      in (v, b\<lparr>mb_counters := AList.update key (v, expiry) (mb_counters b)\<rparr>))"

text \<open>\<open>rows[-count:]\<close>; for \<open>count = 0\<close> Python's slice \<open>rows[-0:]\<close> is the whole list.\<close>

definition mem_entries :: "ustr \<Rightarrow> nat \<Rightarrow> 'w mem_backend_scheme \<Rightarrow> (ustr \<times> ustr) list" where
  "mem_entries stream count b =
     (let rows = stream_of b stream
      in map (\<lambda>(n, p). (entry_id n, p))
           (if count = 0 then rows else drop (length rows - count) rows))"

text \<open>
  \<open>int(entry_id.partition("-")[0])\<close>, for the ids the backends give out (decimal digits
  before the dash); any other head is a \<open>ValueError\<close>.
\<close>

definition id_number :: "ustr \<Rightarrow> nat option" where
  "id_number eid =
     (let h = takeWhile (\<lambda>c. c \<noteq> 45) eid
      in if h \<noteq> [] \<and> list_all py_digit h then Some (undec h) else None)"

definition mem_replay_dead_letter ::
  "ustr \<Rightarrow> ustr \<Rightarrow> ustr \<Rightarrow> nat \<Rightarrow> ustr option \<Rightarrow> ('w mem_backend_scheme, ustr) prog" where
  "mem_replay_dead_letter dead_stream eid source_stream maxlen dedupe_key b =
     (case id_number eid of
        None \<Rightarrow> (Inl (Raised (lit ''ValueError'')), b)
      | Some target \<Rightarrow>
          (case find (\<lambda>item. fst item = target) (stream_of b dead_stream) of
             None \<Rightarrow> (Inl (Raised (lit ''KeyError'')), b)
           | Some row \<Rightarrow>
               let b1 = (case dedupe_key of None \<Rightarrow> b
                         | Some k \<Rightarrow> b\<lparr>mb_once := AList.delete k (mb_once b)\<rparr>);
                   (new_id, b2) = mem_add source_stream (snd row) maxlen b1
               in (Inr new_id,
                   b2\<lparr>mb_streams := AList.update dead_stream
                        (filter (\<lambda>item. fst item \<noteq> target) (stream_of b2 dead_stream))
                        (mb_streams b2)\<rparr>)))"

definition mem_stream_len :: "ustr \<Rightarrow> 'w mem_backend_scheme \<Rightarrow> nat" where
  "mem_stream_len stream b = length (stream_of b stream)"

definition mem_pending_count ::
  "ustr \<Rightarrow> ustr \<Rightarrow> 'w mem_backend_scheme \<Rightarrow> nat \<times> 'w mem_backend_scheme" where
  "mem_pending_count stream grp b =
     (let st = group_of b stream grp
      in (length (pending st), put_group stream grp st b))"

text \<open>The environment's step: time passes.\<close>

definition mem_tick :: "real \<Rightarrow> 'w mem_backend_scheme \<Rightarrow> 'w mem_backend_scheme" where
  "mem_tick d b = b\<lparr>mb_now := mb_now b + d\<rparr>"

section \<open>Basic facts\<close>

lemma entry_id_inject [simp]: "entry_id m = entry_id n \<longleftrightarrow> m = n"
  by (simp add: entry_id_def)

lemma inj_entry_id: "inj entry_id"
  by (rule injI) simp

lemma id_number_entry_id [simp]: "id_number (entry_id n) = Some n"
proof -
  have "takeWhile (\<lambda>c. c \<noteq> 45) (dec n @ lit ''-0'') = dec n"
    using dec_no_char [of 45 n]
    by (subst takeWhile_append2) (auto simp: py_digit_def str_simps)
  then show ?thesis
    by (simp add: id_number_def entry_id_def list_all_iff dec_digits)
qed

lemma trim_eq_drop: "trim n xs = drop (length xs - n) xs"
  by (induction xs) (auto simp: Suc_diff_le)

lemma length_trim: "length (trim n xs) = min n (length xs)"
  by (simp add: trim_eq_drop)

lemma trim_snoc: "0 < n \<Longrightarrow> trim n (xs @ [x]) = trim (n - 1) xs @ [x]"
  by (simp add: trim_eq_drop)

lemma set_trim_subset: "set (trim n xs) \<subseteq> set xs"
  by (simp add: trim_eq_drop set_drop_subset)

lemma sorted_wrt_trim: "sorted_wrt r xs \<Longrightarrow> sorted_wrt r (trim n xs)"
  by (simp add: trim_eq_drop sorted_wrt_drop)

lemma map_trim: "map f (trim n xs) = trim n (map f xs)"
  by (simp add: trim_eq_drop drop_map)

lemma group_of_put [simp]:
  "group_of (put_group s g st b) s' g' = (if s = s' \<and> g = g' then st else group_of b s' g')"
  by (auto simp: put_group_def dict_get_update)

lemma put_group_frame [simp]:
  "mb_streams (put_group s g st b) = mb_streams b"
  "mb_sequence (put_group s g st b) = mb_sequence b"
  "mb_once (put_group s g st b) = mb_once b"
  "mb_counters (put_group s g st b) = mb_counters b"
  "mb_now (put_group s g st b) = mb_now b"
  "mem_backend.more (put_group s g st b) = mem_backend.more b"
  by (simp_all add: put_group_def)

section \<open>What a read delivers\<close>

definition fresh_rows :: "nat \<Rightarrow> nat \<Rightarrow> (nat \<times> ustr) list \<Rightarrow> (nat \<times> ustr) list" where
  "fresh_rows count after rows = take count (filter (\<lambda>(n, p). after < n) rows)"

lemma read_loop_full:
  "count \<le> length dl \<Longrightarrow> read_loop count con now rows st dl = (dl, st)"
  by (induction rows) auto

lemma filter_gt_sorted:
  assumes "sorted_wrt (<) (map fst ((n, p) # rows))" and "k \<le> (n :: nat)"
  shows "filter (\<lambda>(m, q). k < m) rows = rows" "filter (\<lambda>(m, q). n < m) rows = rows"
proof -
  have gt: "n < fst x" if "x \<in> set rows" for x using assms(1) that by auto
  have *: "k < fst x \<and> n < fst x" if "x \<in> set rows" for x
    using assms(2) gt [OF that] by simp
  show "filter (\<lambda>(m, q). k < m) rows = rows" "filter (\<lambda>(m, q). n < m) rows = rows"
    using * by (auto intro!: filter_True)
qed

text \<open>
  On a stream with increasing sequence numbers the loop delivers exactly the first
  \<open>count\<close> rows after the group's cursor, each becomes pending, and the cursor ends at
  the last one.
\<close>

lemma read_loop_spec:
  assumes "sorted_wrt (<) (map fst rows)"
    and "read_loop count con now rows st dl = (dl', st')"
    and "new = fresh_rows (count - length dl) (next_index st) rows"
  shows "dl' = dl @ map (\<lambda>(n, p). (entry_id n, p)) new \<and>
         next_index st' = (if new = [] then next_index st else fst (last new)) \<and>
         (\<forall>k. map_of (pending st') k =
           (if k \<in> entry_id ` fst ` set new
            then Some \<lparr>pe_consumer = con, pe_count = 1, pe_since = now\<rparr>
            else map_of (pending st) k)) \<and>
         (dict_wf (pending st) \<longrightarrow> dict_wf (pending st'))"
  using assms
proof (induction rows arbitrary: st dl dl' st' new)
  case Nil
  then show ?case by (auto simp: fresh_rows_def)
next
  case (Cons row rows)
  obtain n p where row: "row = (n, p)" by fastforce
  show ?case
  proof (cases "n \<le> next_index st \<or> count \<le> length dl")
    case True
    have new: "new = fresh_rows (count - length dl) (next_index st) rows"
      using True Cons.prems(3) by (auto simp: row fresh_rows_def)
    show ?thesis
      using Cons.IH [OF _ _ new, of dl' st'] Cons.prems True by (simp add: row)
  next
    case False
    let ?pe = "\<lparr>pe_consumer = con, pe_count = 1, pe_since = now\<rparr>"
    let ?st = "st\<lparr>pending := AList.update (entry_id n) ?pe (pending st), next_index := n\<rparr>"
    let ?new = "fresh_rows (count - length (dl @ [(entry_id n, p)])) (next_index ?st) rows"
    from False Cons.prems have r:
      "read_loop count con now rows ?st (dl @ [(entry_id n, p)]) = (dl', st')"
      by (simp add: row)
    have fil: "filter (\<lambda>(m, q). next_index st < m) rows = rows"
        "filter (\<lambda>(m, q). n < m) rows = rows"
      using filter_gt_sorted [of n p rows "next_index st"] Cons.prems(1) False by (auto simp: row)
    have new: "new = (n, p) # ?new"
      using False Cons.prems(3) fil
      by (simp add: row fresh_rows_def Suc_diff_Suc take_Cons')
    have "sorted_wrt (<) (map fst rows)" using Cons.prems(1) by simp
    from Cons.IH [OF this r refl] show ?thesis
      unfolding new by (simp add: dict_simps)
  qed
qed

section \<open>The backend invariant\<close>

text \<open>
  Sequence numbers increase along a stream and never pass the stream's counter; a group's
  cursor never passes it either (so an entry added later is always after the cursor); and
  a group's pending ids are distinct and were all delivered before.
\<close>

definition stream_inv :: "'w mem_backend_scheme \<Rightarrow> ustr \<Rightarrow> bool" where
  "stream_inv b s \<longleftrightarrow> sorted_wrt (<) (map fst (stream_of b s)) \<and>
     (\<forall>n \<in> fst ` set (stream_of b s). n \<le> dict_get (mb_sequence b) s 0)"

definition group_inv :: "'w mem_backend_scheme \<Rightarrow> ustr \<Rightarrow> ustr \<Rightarrow> bool" where
  "group_inv b s g \<longleftrightarrow>
     next_index (group_of b s g) \<le> dict_get (mb_sequence b) s 0 \<and>
     dict_wf (pending (group_of b s g)) \<and>
     fst ` set (pending (group_of b s g)) \<subseteq> entry_id ` {..next_index (group_of b s g)}"

definition mem_inv :: "'w mem_backend_scheme \<Rightarrow> bool" where
  "mem_inv b \<longleftrightarrow> (\<forall>s. stream_inv b s) \<and> (\<forall>s g. group_inv b s g)"

lemma mem_inv_sorted: "mem_inv b \<Longrightarrow> sorted_wrt (<) (map fst (stream_of b s))"
  by (simp add: mem_inv_def stream_inv_def)

lemma mem_inv_pending_wf: "mem_inv b \<Longrightarrow> dict_wf (pending (group_of b s g))"
  by (simp add: mem_inv_def group_inv_def)

lemma mem_inv_pending_ids: "mem_inv b \<Longrightarrow> fst ` set (pending (group_of b s g)) \<subseteq> range entry_id"
  unfolding mem_inv_def group_inv_def by (meson image_mono subset_UNIV subset_trans)

lemma mem_inv_init: "mem_inv mem_init"
  by (simp add: mem_inv_def stream_inv_def group_inv_def mem_init_def dict_get_def new_group_def)

lemma stream_inv_append:
  assumes "stream_inv b s" and "n = dict_get (mb_sequence b) s 0 + 1"
  shows "sorted_wrt (<) (map fst (trim k (stream_of b s @ [(n, p)])))"
    and "\<forall>m \<in> fst ` set (trim k (stream_of b s @ [(n, p)])). m \<le> n"
proof -
  have "sorted_wrt (<) (map fst (stream_of b s @ [(n, p)]))"
    using assms by (fastforce simp: stream_inv_def sorted_wrt_append)
  then show "sorted_wrt (<) (map fst (trim k (stream_of b s @ [(n, p)])))"
    by (simp only: map_trim sorted_wrt_trim)
  have "\<forall>m \<in> fst ` set (stream_of b s @ [(n, p)]). m \<le> n"
    using assms by (fastforce simp: stream_inv_def)
  then show "\<forall>m \<in> fst ` set (trim k (stream_of b s @ [(n, p)])). m \<le> n"
    using set_trim_subset by fastforce
qed

lemma mem_inv_add:
  assumes "mem_inv b" shows "mem_inv (snd (mem_add s p k b))"
proof -
  let ?n = "dict_get (mb_sequence b) s 0 + 1" and ?b = "snd (mem_add s p k b)"
  have st: "stream_of ?b t = (if t = s then trim k (stream_of b s @ [(?n, p)]) else stream_of b t)"
    and sq: "dict_get (mb_sequence ?b) t 0 = (if t = s then ?n else dict_get (mb_sequence b) t 0)"
    and gr: "group_of ?b t g = group_of b t g" for t g
    by (auto simp: mem_add_def Let_def dict_get_update)
  have "stream_inv ?b t" for t
  proof (cases "t = s")
    case True
    then show ?thesis
      using stream_inv_append [of b s ?n k p] assms
      unfolding stream_inv_def [of ?b] st sq by (simp add: mem_inv_def)
  next
    case False
    then show ?thesis
      using assms unfolding stream_inv_def [of ?b] st sq by (simp add: mem_inv_def stream_inv_def)
  qed
  moreover have "group_inv ?b t g" for t g
    using assms unfolding group_inv_def [of ?b] gr sq
    by (cases "t = s") (auto simp: mem_inv_def group_inv_def intro: le_SucI)
  ultimately show ?thesis by (simp add: mem_inv_def)
qed

text \<open>The invariant only sees the streams, the counters of the streams and the groups.\<close>

lemma mem_inv_cong:
  assumes "mem_inv b"
    and "\<And>s. stream_of b' s = stream_of b s"
    and "\<And>s. dict_get (mb_sequence b') s 0 = dict_get (mb_sequence b) s 0"
    and "\<And>s g. group_of b' s g = group_of b s g"
  shows "mem_inv b'"
  using assms(1) by (simp add: mem_inv_def stream_inv_def group_inv_def assms(2-4))

lemma mem_inv_ensure: "mem_inv b \<Longrightarrow> mem_inv (mem_ensure_group s g b)"
  by (rule mem_inv_cong) (simp_all add: mem_ensure_group_def dict_get_setdefault)

lemma mem_inv_put_group:
  assumes "mem_inv b"
    and "next_index st \<le> dict_get (mb_sequence b) s 0" and "dict_wf (pending st)"
    and "fst ` set (pending st) \<subseteq> entry_id ` {..next_index st}"
  shows "mem_inv (put_group s g st b)"
  using assms by (auto simp: mem_inv_def stream_inv_def group_inv_def)

text \<open>A read keeps the invariant, and delivers only entries after the group's cursor.\<close>

lemma read_new_spec:
  assumes "mem_inv b" and "mem_read_new s g con k b = (dl, b')"
    and "new = fresh_rows k (next_index (group_of b s g)) (stream_of b s)"
  shows "dl = map (\<lambda>(n, p). (entry_id n, p)) new"
    and "next_index (group_of b' s g)
           = (if new = [] then next_index (group_of b s g) else fst (last new))"
    and "map_of (pending (group_of b' s g)) eid
           = (if eid \<in> entry_id ` fst ` set new
              then Some \<lparr>pe_consumer = con, pe_count = 1, pe_since = mb_now b\<rparr>
              else map_of (pending (group_of b s g)) eid)"
    and "dict_wf (pending (group_of b' s g))"
    and "\<exists>st. b' = put_group s g st b"
proof -
  from assms(2) obtain st where
    r: "read_loop k con (mb_now b) (stream_of b s) (group_of b s g) [] = (dl, st)"
    and b': "b' = put_group s g st b"
    by (auto simp: mem_read_new_def split: prod.splits)
  have srt: "sorted_wrt (<) (map fst (stream_of b s))"
    and wf: "dict_wf (pending (group_of b s g))"
    using assms(1) by (simp_all add: mem_inv_def stream_inv_def group_inv_def)
  have new: "new = fresh_rows (k - length ([] :: (ustr \<times> ustr) list))
      (next_index (group_of b s g)) (stream_of b s)"
    using assms(3) by simp
  note spec = read_loop_spec [OF srt r new]
  from spec wf b' show "dl = map (\<lambda>(n, p). (entry_id n, p)) new"
    "next_index (group_of b' s g)
       = (if new = [] then next_index (group_of b s g) else fst (last new))"
    "map_of (pending (group_of b' s g)) eid
       = (if eid \<in> entry_id ` fst ` set new
          then Some \<lparr>pe_consumer = con, pe_count = 1, pe_since = mb_now b\<rparr>
          else map_of (pending (group_of b s g)) eid)"
    "dict_wf (pending (group_of b' s g))"
    "\<exists>st. b' = put_group s g st b"
    by auto
qed

lemma fresh_rows_sorted:
  assumes "sorted_wrt (<) (map fst rows)"
  shows "sorted_wrt (<) (map fst (fresh_rows k m rows))"
proof -
  have "sorted_wrt (\<lambda>x y. fst x < fst y) rows" using assms by (simp add: sorted_wrt_map)
  then have "sorted_wrt (\<lambda>x y. fst x < fst y) (fresh_rows k m rows)"
    unfolding fresh_rows_def by (intro sorted_wrt_take sorted_wrt_filter)
  then show ?thesis by (simp add: sorted_wrt_map)
qed

lemma fresh_rows_in: "row \<in> set (fresh_rows k m rows) \<Longrightarrow> row \<in> set rows \<and> m < fst row"
  unfolding fresh_rows_def by (drule in_set_takeD) auto

lemma sorted_le_last:
  assumes "sorted_wrt (<) (map fst (xs :: (nat \<times> 'a) list))" and "x \<in> set xs"
  shows "fst x \<le> fst (last xs)"
  using assms by (induction xs) (auto simp: less_imp_le)

lemma mem_inv_read:
  assumes inv: "mem_inv b" and r: "mem_read_new s g con k b = (dl, b')"
  shows "mem_inv b'"
proof -
  define new where "new = fresh_rows k (next_index (group_of b s g)) (stream_of b s)"
  note spec = read_new_spec [OF inv r new_def]
  from spec(5) obtain st where b': "b' = put_group s g st b" by blast
  have grp: "group_inv b s g" and str: "stream_inv b s" using inv by (simp_all add: mem_inv_def)
  have le: "fst x \<le> next_index st" if "x \<in> set new" for x
    using spec(2) that sorted_le_last [OF fresh_rows_sorted] str
    unfolding b' new_def by (auto simp: stream_inv_def)
  have up: "next_index (group_of b s g) \<le> next_index st"
  proof (cases "new = []")
    case True
    then show ?thesis using spec(2) b' by simp
  next
    case False
    then have "last new \<in> set new" by simp
    then show ?thesis using le fresh_rows_in unfolding new_def by (meson less_imp_le le_trans)
  qed
  have "next_index st \<le> dict_get (mb_sequence b) s 0"
  proof (cases "new = []")
    case True
    then show ?thesis using spec(2) b' grp by (simp add: group_inv_def)
  next
    case False
    then have "last new \<in> set (stream_of b s)"
      unfolding new_def by (meson fresh_rows_in last_in_set)
    then show ?thesis using spec(2) b' str False by (auto simp: stream_inv_def)
  qed
  moreover have "dict_wf (pending st)" using spec(4) b' by simp
  moreover have "fst ` set (pending st) \<subseteq> entry_id ` {..next_index st}"
  proof
    fix eid assume "eid \<in> fst ` set (pending st)"
    then have "map_of (pending st) eid \<noteq> None" by (simp add: map_of_eq_None_iff)
    then have "eid \<in> entry_id ` fst ` set new \<or> eid \<in> fst ` set (pending (group_of b s g))"
      using spec(3) [of eid] b'
      by (cases "eid \<in> entry_id ` fst ` set new") (simp, metis group_of_put map_of_eq_None_iff)
    then show "eid \<in> entry_id ` {..next_index st}"
      using le grp up unfolding group_inv_def by (auto intro: le_trans)
  qed
  ultimately show ?thesis unfolding b' by (rule mem_inv_put_group [OF inv])
qed

section \<open>What a claim does\<close>

lemma claim_loop_frame:
  "eid \<notin> fst ` set items \<Longrightarrow>
   map_of (snd (claim_loop k con now idle tbl items pend cl)) eid = map_of pend eid"
  by (induction k con now idle tbl items pend cl rule: claim_loop.induct)
     (auto simp: dict_simps split: option.split)

lemma claim_loop_wf:
  "dict_wf pend \<Longrightarrow> dict_wf (snd (claim_loop k con now idle tbl items pend cl))"
  by (induction k con now idle tbl items pend cl rule: claim_loop.induct)
     (auto split: option.split)

lemma claim_loop_length:
  "length cl \<le> k \<Longrightarrow> length (fst (claim_loop k con now idle tbl items pend cl)) \<le> k"
  by (induction k con now idle tbl items pend cl rule: claim_loop.induct)
     (auto split: option.split)

text \<open>An entry whose payload is still in the stream stays pending through a claim.\<close>

lemma claim_loop_keeps:
  "map_of tbl eid \<noteq> None \<Longrightarrow> map_of pend eid \<noteq> None \<Longrightarrow>
   map_of (snd (claim_loop k con now idle tbl items pend cl)) eid \<noteq> None"
proof (induction k con now idle tbl items pend cl rule: claim_loop.induct)
  case (2 k con now idle tbl e pe rest pend cl)
  then show ?case by (cases "e = eid") (auto simp: dict_simps split: option.split)
qed simp

lemma claim_loop_keys:
  assumes "fst ` set items \<subseteq> fst ` set pend"
  shows "fst ` set (snd (claim_loop k con now idle tbl items pend cl)) \<subseteq> fst ` set pend"
proof
  fix eid
  assume "eid \<in> fst ` set (snd (claim_loop k con now idle tbl items pend cl))"
  then have "map_of (snd (claim_loop k con now idle tbl items pend cl)) eid \<noteq> None"
    by (simp add: map_of_eq_None_iff)
  then show "eid \<in> fst ` set pend"
    using assms claim_loop_frame [of eid items k con now idle tbl pend cl]
    by (metis map_of_eq_None_iff subsetD)
qed

text \<open>
  Every newly claimed entry was in the list, idle for long enough, still in the stream;
  afterwards it belongs to the claiming consumer with its delivery count raised by one.
\<close>

lemma claim_loop_claimed:
  assumes "distinct (map fst items)"
    and "(eid, payload) \<in> set (fst (claim_loop k con now idle tbl items pend cl))"
  shows "(eid, payload) \<in> set cl \<or>
    (\<exists>pe. (eid, pe) \<in> set items \<and> idle \<le> (now - pe_since pe) * 1000 \<and>
       map_of tbl eid = Some payload \<and>
       map_of (snd (claim_loop k con now idle tbl items pend cl)) eid
         = Some (pe\<lparr>pe_consumer := con, pe_count := pe_count pe + 1, pe_since := now\<rparr>))"
  using assms
proof (induction k con now idle tbl items pend cl rule: claim_loop.induct)
  case (2 k con now idle tbl e pe rest pend cl)
  have dist: "distinct (map fst rest)" and nin: "e \<notin> fst ` set rest" using 2(4) by simp_all
  consider (full) "k \<le> length cl" | (young) "\<not> k \<le> length cl" "(now - pe_since pe) * 1000 < idle"
    | (gone) "\<not> k \<le> length cl" "\<not> (now - pe_since pe) * 1000 < idle" "map_of tbl e = None"
    | (taken) p where "\<not> k \<le> length cl" "\<not> (now - pe_since pe) * 1000 < idle"
        "map_of tbl e = Some p"
    by (cases "map_of tbl e") auto
  then show ?case
  proof cases
    case full
    then show ?thesis using 2(5) by simp
  next
    case young
    then show ?thesis using 2(1) [OF young dist] 2(5) by auto
  next
    case gone
    then show ?thesis using 2(2) [OF gone dist] 2(5) by auto
  next
    case (taken p)
    note p = taken(3)
    let ?pend = "AList.update e (pe\<lparr>pe_consumer := con, pe_count := pe_count pe + 1,
      pe_since := now\<rparr>) pend"
    have eq: "claim_loop k con now idle tbl ((e, pe) # rest) pend cl
        = claim_loop k con now idle tbl rest ?pend (cl @ [(e, p)])"
      using taken by simp
    have IH: "(eid, payload) \<in> set (cl @ [(e, p)]) \<or>
      (\<exists>pe. (eid, pe) \<in> set rest \<and> idle \<le> (now - pe_since pe) * 1000 \<and>
       map_of tbl eid = Some payload \<and>
       map_of (snd (claim_loop k con now idle tbl rest ?pend (cl @ [(e, p)]))) eid
         = Some (pe\<lparr>pe_consumer := con, pe_count := pe_count pe + 1, pe_since := now\<rparr>))"
      using 2(3) [OF taken dist] 2(5) unfolding eq by blast
    then show ?thesis
    proof
      assume "(eid, payload) \<in> set (cl @ [(e, p)])"
      then show ?thesis
        unfolding eq using claim_loop_frame [OF nin] p taken by (auto simp: dict_simps)
    next
      assume "\<exists>pe. (eid, pe) \<in> set rest \<and> idle \<le> (now - pe_since pe) * 1000 \<and>
       map_of tbl eid = Some payload \<and>
       map_of (snd (claim_loop k con now idle tbl rest ?pend (cl @ [(e, p)]))) eid
         = Some (pe\<lparr>pe_consumer := con, pe_count := pe_count pe + 1, pe_since := now\<rparr>)"
      then show ?thesis unfolding eq by auto
    qed
  qed
qed simp

lemma sorted_items_keys [simp]: "set (sorted_items d) = set d"
  by (simp add: sorted_items_def)

lemma distinct_sorted_items: "dict_wf d \<Longrightarrow> distinct (map fst (sorted_items d))"
  by (simp add: dict_wf_def sorted_items_def distinct_map)

lemma payload_table_lookup:
  "map_of (payload_table rows) (entry_id n) \<noteq> None \<longleftrightarrow> n \<in> fst ` set rows"
proof -
  have "map_of (fold (\<lambda>(n, p) d. AList.update (entry_id n) p d) rows d) (entry_id n) \<noteq> None
      \<longleftrightarrow> n \<in> fst ` set rows \<or> map_of d (entry_id n) \<noteq> None" for d
  proof (induction rows arbitrary: d)
    case (Cons row rows)
    obtain m p where row: "row = (m, p)" by fastforce
    show ?case using Cons.IH [of "AList.update (entry_id m) p d"]
      by (auto simp: row dict_simps)
  qed simp
  then show ?thesis by (simp add: payload_table_def)
qed

lemma claim_stale_group:
  assumes "mem_claim_stale s g con idle k b = (cl, b')"
  obtains pend where
    "claim_loop k con (mb_now b) idle (payload_table (stream_of b s))
       (sorted_items (pending (group_of b s g))) (pending (group_of b s g)) [] = (cl, pend)"
    "b' = put_group s g ((group_of b s g)\<lparr>pending := pend\<rparr>) b"
  using assms by (auto simp: mem_claim_stale_def Let_def split: prod.splits)

text \<open>Once-keys, counters and the clock are outside the invariant.\<close>

lemma mem_inv_frame [simp]:
  "mem_inv (b\<lparr>mb_once := x\<rparr>) = mem_inv b"
  "mem_inv (b\<lparr>mb_counters := y\<rparr>) = mem_inv b"
  "mem_inv (b\<lparr>mb_now := z\<rparr>) = mem_inv b"
  by (simp_all add: mem_inv_def stream_inv_def group_inv_def)

lemma mem_inv_put_subset:
  assumes "mem_inv b" and "dict_wf d" and "fst ` set d \<subseteq> fst ` set (pending (group_of b s g))"
  shows "mem_inv (put_group s g ((group_of b s g)\<lparr>pending := d\<rparr>) b)"
proof (rule mem_inv_put_group [OF assms(1)])
  have g: "group_inv b s g" using assms(1) by (simp add: mem_inv_def)
  then have "fst ` set (pending (group_of b s g)) \<subseteq> entry_id ` {..next_index (group_of b s g)}"
    by (simp add: group_inv_def)
  from order_trans [OF assms(3) this]
  show "fst ` set (pending ((group_of b s g)\<lparr>pending := d\<rparr>))
      \<subseteq> entry_id ` {..next_index ((group_of b s g)\<lparr>pending := d\<rparr>)}"
    by simp
  show "next_index ((group_of b s g)\<lparr>pending := d\<rparr>) \<le> dict_get (mb_sequence b) s 0"
    using g by (simp add: group_inv_def)
  show "dict_wf (pending ((group_of b s g)\<lparr>pending := d\<rparr>))" using assms(2) by simp
qed

lemma mem_inv_claim:
  assumes inv: "mem_inv b" and c: "mem_claim_stale s g con idle k b = (cl, b')"
  shows "mem_inv b'"
proof -
  from c obtain pend where
    loop: "claim_loop k con (mb_now b) idle (payload_table (stream_of b s))
       (sorted_items (pending (group_of b s g))) (pending (group_of b s g)) [] = (cl, pend)"
    and b': "b' = put_group s g ((group_of b s g)\<lparr>pending := pend\<rparr>) b"
    by (rule claim_stale_group)
  have grp: "group_inv b s g" using inv by (simp add: mem_inv_def)
  have "dict_wf pend"
    using claim_loop_wf [of "pending (group_of b s g)"] grp loop
    by (metis group_inv_def snd_conv)
  moreover have "fst ` set pend \<subseteq> fst ` set (pending (group_of b s g))"
    using claim_loop_keys [of "sorted_items (pending (group_of b s g))"
        "pending (group_of b s g)"] loop by (metis order_refl snd_conv sorted_items_keys)
  ultimately show ?thesis
    unfolding b' by (rule mem_inv_put_subset [OF inv])
qed

lemma mem_inv_count: "mem_inv b \<Longrightarrow> mem_inv (snd (mem_delivery_count s g i b))"
  unfolding mem_delivery_count_def Let_def snd_conv
  by (rule mem_inv_put_group) (auto simp: mem_inv_def group_inv_def)

lemma mem_inv_ack: "mem_inv b \<Longrightarrow> mem_inv (mem_ack s g i b)"
  unfolding mem_ack_def Let_def
  by (rule mem_inv_put_subset) (auto simp: keys_delete mem_inv_def group_inv_def)

lemma mem_inv_once: "mem_inv b \<Longrightarrow> mem_inv (snd (mem_acquire_once key ttl b))"
  by (simp add: mem_acquire_once_def split: option.split)

lemma mem_inv_increment: "mem_inv b \<Longrightarrow> mem_inv (snd (mem_increment key a ttl b))"
  by (simp add: mem_increment_def Let_def split: prod.split)

lemma mem_inv_tick: "mem_inv b \<Longrightarrow> mem_inv (mem_tick d b)"
  by (simp add: mem_tick_def)

lemma mem_inv_filter_stream:
  assumes "mem_inv b"
  shows "mem_inv (b\<lparr>mb_streams := AList.update s (filter P (stream_of b s)) (mb_streams b)\<rparr>)"
proof -
  have "sorted_wrt (<) (map fst (filter P (stream_of b s)))"
    using assms sorted_wrt_filter [of "\<lambda>x y. fst x < fst y" "stream_of b s" P]
    by (simp add: mem_inv_def stream_inv_def sorted_wrt_map)
  then show ?thesis
    using assms by (auto simp: mem_inv_def stream_inv_def group_inv_def dict_get_update)
qed

lemma mem_inv_replay: "mem_inv b \<Longrightarrow> mem_inv (snd (mem_replay_dead_letter d i s k key b))"
proof (cases "id_number i")
  case (Some n)
  assume inv: "mem_inv b"
  show ?thesis
  proof (cases "find (\<lambda>item. fst item = n) (stream_of b d)")
    case None
    with Some inv show ?thesis by (simp add: mem_replay_dead_letter_def)
  next
    case row: (Some row)
    define b1 where "b1 = (case key of None \<Rightarrow> b | Some k \<Rightarrow> b\<lparr>mb_once := AList.delete k (mb_once b)\<rparr>)"
    have "mem_inv b1" using inv by (simp add: b1_def split: option.split)
    then have "mem_inv (snd (mem_add s (snd row) k b1))" by (rule mem_inv_add)
    from mem_inv_filter_stream [OF this, of d] show ?thesis
      unfolding mem_replay_dead_letter_def
      by (simp add: Some row b1_def [symmetric] Let_def case_prod_unfold)
  qed
qed (simp add: mem_replay_dead_letter_def)

section \<open>Runs of the backend\<close>

text \<open>
  Any interleaving of calls by any number of consumers is a list of operations. A step
  reports the entries it handed out as new, as (stream, group, entry id).
\<close>

datatype mem_op =
    OpAdd ustr ustr nat
  | OpEnsure ustr ustr
  | OpRead ustr ustr ustr nat
  | OpClaim ustr ustr ustr real nat
  | OpCount ustr ustr ustr
  | OpAck ustr ustr ustr
  | OpOnce ustr int
  | OpIncrement ustr int int
  | OpReplay ustr ustr ustr nat "ustr option"
  | OpTick real

fun mem_step ::
  "mem_op \<Rightarrow> 'w mem_backend_scheme \<Rightarrow> (ustr \<times> ustr \<times> ustr) list \<times> 'w mem_backend_scheme" where
  "mem_step (OpAdd s p k) b = ([], snd (mem_add s p k b))"
| "mem_step (OpEnsure s g) b = ([], mem_ensure_group s g b)"
| "mem_step (OpRead s g con k) b =
     (let (dl, b') = mem_read_new s g con k b in (map (\<lambda>(i, p). (s, g, i)) dl, b'))"
| "mem_step (OpClaim s g con idle k) b = ([], snd (mem_claim_stale s g con idle k b))"
| "mem_step (OpCount s g i) b = ([], snd (mem_delivery_count s g i b))"
| "mem_step (OpAck s g i) b = ([], mem_ack s g i b)"
| "mem_step (OpOnce key ttl) b = ([], snd (mem_acquire_once key ttl b))"
| "mem_step (OpIncrement key a ttl) b = ([], snd (mem_increment key a ttl b))"
| "mem_step (OpReplay d i s k key) b = ([], snd (mem_replay_dead_letter d i s k key b))"
| "mem_step (OpTick d) b = ([], mem_tick d b)"

fun mem_run ::
  "mem_op list \<Rightarrow> 'w mem_backend_scheme \<Rightarrow> (ustr \<times> ustr \<times> ustr) list \<times> 'w mem_backend_scheme" where
  "mem_run [] b = ([], b)"
| "mem_run (op # ops) b =
     (let (ev, b') = mem_step op b; (evs, b'') = mem_run ops b' in (ev @ evs, b''))"

lemmas mem_inv_ops = mem_inv_add mem_inv_ensure mem_inv_count mem_inv_ack mem_inv_once
  mem_inv_increment mem_inv_replay mem_inv_tick
  mem_inv_read [OF _ prod.collapse [symmetric]] mem_inv_claim [OF _ prod.collapse [symmetric]]

lemma mem_step_inv: "mem_inv b \<Longrightarrow> mem_inv (snd (mem_step op b))"
  by (cases op) (simp_all add: mem_inv_ops case_prod_unfold Let_def)

lemma mem_run_inv: "mem_inv b \<Longrightarrow> mem_inv (snd (mem_run ops b))"
  by (induction ops arbitrary: b) (simp_all add: mem_step_inv case_prod_unfold Let_def)

section \<open>How long a once-key lasts\<close>

text \<open>
  The time that passes in a run, and the operations that remove a once-key: only a replay
  that names it.
\<close>

fun elapsed :: "mem_op list \<Rightarrow> real" where
  "elapsed [] = 0"
| "elapsed (OpTick d # ops) = d + elapsed ops"
| "elapsed (_ # ops) = elapsed ops"

fun leaves_key :: "ustr \<Rightarrow> mem_op \<Rightarrow> bool" where
  "leaves_key k (OpReplay d i s n key) = (key \<noteq> Some k)"
| "leaves_key k (OpTick d) = (0 \<le> d)"
| "leaves_key k _ = True"

lemma elapsed_nonneg: "\<forall>op \<in> set ops. leaves_key k op \<Longrightarrow> 0 \<le> elapsed ops"
  by (induction ops rule: elapsed.induct) auto

lemma step_keeps_key:
  assumes "leaves_key k op" and "map_of (mb_once b) k = Some expiry"
    and "mb_now b + elapsed [op] < expiry"
  shows "map_of (mb_once (snd (mem_step op b))) k = Some expiry \<and>
    mb_now (snd (mem_step op b)) = mb_now b + elapsed [op]"
  using assms
  by (cases op)
     (auto simp: mem_add_def mem_ensure_group_def mem_claim_stale_def mem_delivery_count_def
       mem_ack_def mem_acquire_once_def mem_increment_def mem_tick_def mem_read_new_def
       mem_replay_dead_letter_def Let_def dict_simps split: prod.split option.split)

text \<open>A once-key stays in force until its lifetime is over, whatever is done meanwhile.\<close>

lemma run_keeps_key:
  assumes "\<forall>op \<in> set ops. leaves_key k op" and "map_of (mb_once b) k = Some expiry"
    and "mb_now b + elapsed ops < expiry"
  shows "mem_has_once k (snd (mem_run ops b))"
  using assms
proof (induction ops arbitrary: b)
  case Nil
  then show ?case by (simp add: mem_has_once_def)
next
  case (Cons op ops)
  have split: "elapsed (op # ops) = elapsed [op] + elapsed ops" by (cases op) simp_all
  have "0 \<le> elapsed ops" using Cons.prems(1) elapsed_nonneg by auto
  then have "mb_now b + elapsed [op] < expiry" using Cons.prems(3) split by simp
  from step_keeps_key [OF _ Cons.prems(2) this] Cons.prems(1)
  have st: "map_of (mb_once (snd (mem_step op b))) k = Some expiry"
    "mb_now (snd (mem_step op b)) = mb_now b + elapsed [op]" by simp_all
  have "mem_has_once k (snd (mem_run ops (snd (mem_step op b))))"
    using Cons.IH [OF _ st(1)] Cons.prems st(2) split by simp
  then show ?case by (simp add: case_prod_unfold Let_def)
qed

section \<open>The backend as a transport\<close>

definition mem_ops :: "'w mem_backend_scheme stream_ops" where
  "mem_ops = \<lparr>
     so_add = (\<lambda>s p k. liftp (mem_add s p k)),
     so_ensure_group = (\<lambda>s g. liftp (\<lambda>b. ((), mem_ensure_group s g b))),
     so_read_new = (\<lambda>s g con k. liftp (mem_read_new s g con k)),
     so_claim_stale = (\<lambda>s g con idle k. liftp (mem_claim_stale s g con idle k)),
     so_delivery_count = (\<lambda>s g i. liftp (mem_delivery_count s g i)),
     so_ack = (\<lambda>s g i. liftp (\<lambda>b. ((), mem_ack s g i b))),
     so_acquire_once = (\<lambda>key ttl. liftp (mem_acquire_once key ttl)),
     so_has_once = (\<lambda>key. liftp (\<lambda>b. (mem_has_once key b, b)))\<rparr>"

definition mem_pend :: "'w mem_backend_scheme \<Rightarrow> ustr \<Rightarrow> ustr \<Rightarrow> ustr set" where
  "mem_pend b s g = fst ` set (pending (group_of b s g))"

definition mem_held :: "'w mem_backend_scheme \<Rightarrow> ustr \<Rightarrow> ustr set" where
  "mem_held b s = entry_id ` fst ` set (stream_of b s)"

definition mem_stored :: "'w mem_backend_scheme \<Rightarrow> ustr \<Rightarrow> ustr set" where
  "mem_stored b s = snd ` set (stream_of b s)"

definition mem_finished :: "'w mem_backend_scheme \<Rightarrow> ustr set" where
  "mem_finished b = {key. mem_has_once key b}"

definition mem_total :: "'w mem_backend_scheme \<Rightarrow> ustr \<Rightarrow> int" where
  "mem_total b key = (case map_of (mb_counters b) key of
     None \<Rightarrow> 0 | Some (v, expiry) \<Rightarrow> if expiry \<le> mb_now b then 0 else v)"

lemma mem_add_frame:
  "mem_pend (snd (mem_add s p k b)) = mem_pend b"
  "mem_has_once key (snd (mem_add s p k b)) = mem_has_once key b"
  "0 < k \<Longrightarrow> p \<in> mem_stored (snd (mem_add s p k b)) s"
  by (auto simp: fun_eq_iff mem_pend_def mem_finished_def mem_has_once_def mem_stored_def
      mem_add_def Let_def dict_get_update trim_snoc split: option.splits)

lemma mem_ack_effect:
  "mem_pend (mem_ack s g i b) s' g'
     = (if s' = s \<and> g' = g then mem_pend b s g - {i} else mem_pend b s' g')"
  "mem_stored (mem_ack s g i b) = mem_stored b"
  "mem_has_once key (mem_ack s g i b) = mem_has_once key b"
  by (auto simp: fun_eq_iff mem_pend_def mem_stored_def mem_finished_def mem_has_once_def
      mem_ack_def Let_def keys_delete split: option.splits)

lemma mem_acquire_effect:
  "mem_pend (snd (mem_acquire_once key ttl b)) = mem_pend b"
  "0 < ttl \<Longrightarrow> mem_has_once key (snd (mem_acquire_once key ttl b))"
  by (auto simp: fun_eq_iff mem_pend_def mem_finished_def mem_has_once_def mem_acquire_once_def
      dict_simps split: option.split)

lemma mem_claim_keeps:
  assumes "i \<in> mem_pend b s' g'" and "i \<in> mem_held b s'"
  shows "i \<in> mem_pend (snd (mem_claim_stale s g con idle k b)) s' g'"
proof (cases "s' = s \<and> g' = g")
  case True
  obtain cl b' where c: "mem_claim_stale s g con idle k b = (cl, b')" by fastforce
  then obtain pd where
    loop: "claim_loop k con (mb_now b) idle (payload_table (stream_of b s))
       (sorted_items (pending (group_of b s g))) (pending (group_of b s g)) [] = (cl, pd)"
    and b': "b' = put_group s g ((group_of b s g)\<lparr>pending := pd\<rparr>) b"
    by (rule claim_stale_group)
  from assms(2) True have "map_of (payload_table (stream_of b s)) i \<noteq> None"
    unfolding mem_held_def by (metis imageE payload_table_lookup)
  moreover from assms(1) True have "map_of (pending (group_of b s g)) i \<noteq> None"
    by (simp add: mem_pend_def map_of_eq_None_iff)
  ultimately have "map_of pd i \<noteq> None"
    using claim_loop_keeps [of "payload_table (stream_of b s)" i "pending (group_of b s g)"] loop
    by (metis snd_conv)
  then show ?thesis using True c b' by (simp add: mem_pend_def map_of_eq_None_iff)
next
  case False
  then show ?thesis
    using assms(1) by (auto simp: mem_claim_stale_def mem_pend_def Let_def split: prod.split)
qed

lemma read_loop_keys:
  "fst ` set (pending st) \<subseteq> fst ` set (pending (snd (read_loop k con now rows st dl)))"
proof (induction k con now rows st dl rule: read_loop.induct)
  case (2 k con now n p rest st dl)
  show ?case
  proof (cases "n \<le> next_index st \<or> k \<le> length dl")
    case True
    then show ?thesis using 2(1) by simp
  next
    case False
    show ?thesis using 2(2) [OF False] False by (simp add: keys_update)
  qed
qed simp

lemma mem_read_keeps:
  "mem_pend b s' g' \<subseteq> mem_pend (snd (mem_read_new s g con k b)) s' g'"
  using read_loop_keys [of "group_of b s g" k con "mb_now b" "stream_of b s" "[]"]
  by (auto simp: mem_read_new_def mem_pend_def case_prod_unfold Let_def)

lemma mem_ensure_frame:
  "mem_pend (mem_ensure_group s g b) = mem_pend b"
  "mem_held (mem_ensure_group s g b) = mem_held b"
  by (auto simp: fun_eq_iff mem_pend_def mem_held_def mem_ensure_group_def dict_get_setdefault)

lemma mem_count_frame: "mem_pend (snd (mem_delivery_count s g i b)) = mem_pend b"
  by (auto simp: fun_eq_iff mem_pend_def mem_delivery_count_def Let_def)

interpretation mem: stream_backend mem_ops mem_pend mem_held mem_stored mem_finished
  by unfold_locales
     (auto intro: mem_read_keeps [THEN subsetD] simp: mem_ops_def liftp_def mem_add_frame mem_ack_effect mem_acquire_effect
       mem_finished_def mem_ensure_frame mem_count_frame mem_claim_keeps)

interpretation mem_counter: counter_backend mem_increment mem_total
  by unfold_locales
     (auto simp: mem_increment_def mem_total_def dict_get_def dict_simps Let_def
       split: option.splits if_splits prod.splits)

section \<open>Properties\<close>

text \<open>A group's cursor never moves back, whatever happens.\<close>

lemma cursor_mono:
  assumes "mem_inv b"
  shows "next_index (group_of b s g) \<le> next_index (group_of (snd (mem_step op b)) s g)"
proof (cases op)
  case (OpRead s' g' con k)
  obtain dl b' where r: "mem_read_new s' g' con k b = (dl, b')" by fastforce
  define new where "new = fresh_rows k (next_index (group_of b s' g')) (stream_of b s')"
  note spec = read_new_spec [OF assms r new_def]
  have "next_index (group_of b s' g') \<le> next_index (group_of b' s' g')"
  proof (cases "new = []")
    case True
    then show ?thesis using spec(2) by simp
  next
    case False
    then have "last new \<in> set new" by simp
    then show ?thesis using spec(2) False fresh_rows_in unfolding new_def by fastforce
  qed
  then show ?thesis using spec(5) r by (auto simp: OpRead)
next
  case (OpReplay d i s' k key)
  then show ?thesis
    by (auto simp: mem_replay_dead_letter_def mem_add_def Let_def split: option.split)
qed (auto simp: mem_add_def mem_ensure_group_def mem_claim_stale_def mem_delivery_count_def
    mem_ack_def mem_acquire_once_def mem_increment_def mem_tick_def Let_def dict_get_setdefault
    split: prod.split option.split)

text \<open>The entries a run hands out as new lie after the cursor it started from.\<close>

lemma step_events_after:
  assumes "mem_inv b" and "(s, g, i) \<in> set (fst (mem_step op b))"
  shows "\<exists>n. i = entry_id n \<and> next_index (group_of b s g) < n \<and>
           n \<le> next_index (group_of (snd (mem_step op b)) s g)"
  using assms(2)
proof (cases op)
  case (OpRead s' g' con k)
  obtain dl b' where r: "mem_read_new s' g' con k b = (dl, b')" by fastforce
  define new where "new = fresh_rows k (next_index (group_of b s' g')) (stream_of b s')"
  note spec = read_new_spec [OF assms(1) r new_def]
  from assms(2) r spec(1) obtain n p where np: "(n, p) \<in> set new" "i = entry_id n" "s' = s" "g' = g"
    by (auto simp: OpRead)
  then have "new \<noteq> []" by auto
  have "sorted_wrt (<) (map fst new)"
    using assms(1) unfolding new_def mem_inv_def stream_inv_def by (blast intro: fresh_rows_sorted)
  from sorted_le_last [OF this np(1)] np fresh_rows_in [of "(n, p)"] spec(2) \<open>new \<noteq> []\<close> r
  show ?thesis unfolding new_def by (auto simp: OpRead)
qed auto

lemma run_events_after:
  assumes "mem_inv b" and "(s, g, i) \<in> set (fst (mem_run ops b))"
  shows "\<exists>n. i = entry_id n \<and> next_index (group_of b s g) < n"
  using assms
proof (induction ops arbitrary: b)
  case (Cons op ops)
  let ?b = "snd (mem_step op b)"
  from Cons.prems(2) consider "(s, g, i) \<in> set (fst (mem_step op b))"
    | "(s, g, i) \<in> set (fst (mem_run ops ?b))"
    by (auto simp: case_prod_unfold Let_def)
  then show ?case
  proof cases
    case 1
    then show ?thesis using step_events_after [OF Cons.prems(1)] by blast
  next
    case 2
    from Cons.IH [OF mem_step_inv [OF Cons.prems(1)] 2] obtain n
      where "i = entry_id n" "next_index (group_of ?b s g) < n" by blast
    with cursor_mono [OF Cons.prems(1), of s g op] show ?thesis by (intro exI [of _ n]) simp
  qed
qed simp

lemma step_events_distinct: "mem_inv b \<Longrightarrow> distinct (fst (mem_step op b))"
proof (cases op)
  case (OpRead s g con k)
  assume inv: "mem_inv b"
  obtain dl b' where r: "mem_read_new s g con k b = (dl, b')" by fastforce
  define new where "new = fresh_rows k (next_index (group_of b s g)) (stream_of b s)"
  have "sorted_wrt (<) (map fst new)"
    using inv unfolding new_def mem_inv_def stream_inv_def by (blast intro: fresh_rows_sorted)
  then have "distinct (map fst new)" by (simp add: strict_sorted_iff)
  then have "distinct (map (\<lambda>x. (s, g, entry_id x)) (map fst new))"
    by (simp add: distinct_map inj_on_def)
  then show ?thesis
    using read_new_spec(1) [OF inv r new_def] r by (simp add: OpRead comp_def case_prod_unfold)
qed simp_all

lemma run_events_distinct: "mem_inv b \<Longrightarrow> distinct (fst (mem_run ops b))"
proof (induction ops arbitrary: b)
  case (Cons op ops)
  let ?b = "snd (mem_step op b)"
  have inv: "mem_inv ?b" using Cons.prems by (rule mem_step_inv)
  have "set (fst (mem_step op b)) \<inter> set (fst (mem_run ops ?b)) = {}"
  proof (rule ccontr)
    assume "set (fst (mem_step op b)) \<inter> set (fst (mem_run ops ?b)) \<noteq> {}"
    then obtain s g i where "(s, g, i) \<in> set (fst (mem_step op b))"
      and "(s, g, i) \<in> set (fst (mem_run ops ?b))" by auto
    then show False
      using step_events_after [OF Cons.prems] run_events_after [OF inv] by fastforce
  qed
  then show ?case
    using Cons.IH [OF inv] step_events_distinct [OF Cons.prems]
    by (simp add: case_prod_unfold Let_def)
qed simp

section \<open>Properties\<close>

text \<open>
  C14: for any interleaving of publishing, reading, claiming, acknowledging and replaying by
  any number of consumers, no entry is ever handed to a consumer group as new twice.
\<close>

theorem fresh_delivery_once: "distinct (fst (mem_run ops mem_init))"
  by (rule run_events_distinct [OF mem_inv_init])

text \<open>
  a claim of stale entries returns at most \<open>count\<close> of them; each was pending, idle for
  the minimum time and still in the stream, and now belongs to the claiming consumer with
  its delivery count one higher; and no pending entry that is still in the stream is lost.
\<close>

theorem claim_stale_safe:
  assumes "mem_inv b" and "mem_claim_stale s g con idle k b = (cl, b')"
  shows "length cl \<le> k \<and>
    (\<forall>(i, p) \<in> set cl. \<exists>pe. (i, pe) \<in> set (pending (group_of b s g)) \<and>
       idle \<le> (mb_now b - pe_since pe) * 1000 \<and> i \<in> mem_held b s \<and>
       map_of (pending (group_of b' s g)) i =
         Some \<lparr>pe_consumer = con, pe_count = pe_count pe + 1, pe_since = mb_now b\<rparr>) \<and>
    mem_pend b s g \<inter> mem_held b s \<subseteq> mem_pend b' s g"
proof -
  from assms(2) obtain pd where
    loop: "claim_loop k con (mb_now b) idle (payload_table (stream_of b s))
       (sorted_items (pending (group_of b s g))) (pending (group_of b s g)) [] = (cl, pd)"
    and b': "b' = put_group s g ((group_of b s g)\<lparr>pending := pd\<rparr>) b"
    by (rule claim_stale_group)
  have len: "length cl \<le> k" using claim_loop_length [of "[]" k] loop by (metis fst_conv le0 list.size(3))
  have dist: "distinct (map fst (sorted_items (pending (group_of b s g))))"
    using assms(1) by (intro distinct_sorted_items mem_inv_pending_wf)
  note keys = mem_inv_pending_ids [OF assms(1), of s g]
  have claimed: "\<forall>(i, p) \<in> set cl. \<exists>pe. (i, pe) \<in> set (pending (group_of b s g)) \<and>
           idle \<le> (mb_now b - pe_since pe) * 1000 \<and> i \<in> mem_held b s \<and>
           map_of (pending (group_of b' s g)) i =
             Some \<lparr>pe_consumer = con, pe_count = pe_count pe + 1, pe_since = mb_now b\<rparr>"
  proof (clarify)
    fix i p assume ip: "(i, p) \<in> set cl"
    from claim_loop_claimed [OF dist, of i p k con "mb_now b" idle "payload_table (stream_of b s)"
        "pending (group_of b s g)" "[]"] loop ip
    obtain pe where pe: "(i, pe) \<in> set (pending (group_of b s g))"
        "idle \<le> (mb_now b - pe_since pe) * 1000"
        "map_of (payload_table (stream_of b s)) i = Some p"
        "map_of pd i = Some (pe\<lparr>pe_consumer := con, pe_count := pe_count pe + 1,
           pe_since := mb_now b\<rparr>)"
      by auto
    from pe(1) keys obtain n where n: "i = entry_id n" by force
    from pe(3) n have "i \<in> mem_held b s"
      using payload_table_lookup [of "stream_of b s" n] by (auto simp: mem_held_def)
    with pe b' show "\<exists>pe. (i, pe) \<in> set (pending (group_of b s g)) \<and>
           idle \<le> (mb_now b - pe_since pe) * 1000 \<and> i \<in> mem_held b s \<and>
           map_of (pending (group_of b' s g)) i =
             Some \<lparr>pe_consumer = con, pe_count = pe_count pe + 1, pe_since = mb_now b\<rparr>"
      by (intro exI [of _ pe]) (cases pe, simp)
  qed
  have "mem_pend b s g \<inter> mem_held b s \<subseteq> mem_pend b' s g"
    using mem_claim_keeps [of _ b s g s g con idle k] assms(2) by auto
  with len claimed show ?thesis by blast
qed

text \<open>
  The claim order is that of the ids as strings, so a tenth entry is claimed before the
  second one.
\<close>

lemma stale_claim_order:
  "sorted_items [(entry_id 2, x), (entry_id 10, y)] = [(entry_id 10, y), (entry_id 2, x)]"
  by (simp add: sorted_items_def entry_id_def dec.simps str_simps)

definition demo_backend :: mem_backend where
  "demo_backend = snd (mem_run [OpAdd (lit ''s'') [112] 10, OpRead (lit ''s'') (lit ''g'') (lit ''c'') 5,
     OpAdd (lit ''d'') [113] 10, OpOnce (lit ''k'') 60, OpTick 2] mem_init)"

lemma demo_inv: "mem_inv demo_backend"
  unfolding demo_backend_def by (rule mem_run_inv [OF mem_inv_init])

lemmas backend_defs = mem_init_def mem_add_def mem_read_new_def mem_acquire_once_def mem_tick_def
  mem_claim_stale_def put_group_def dict_get_def new_group_def Let_def sorted_items_def
  payload_table_def mem_pend_def mem_held_def mem_has_once_def

theorem claim_stale_safe_witness:
  "(let (cl, b') = mem_claim_stale (lit ''s'') (lit ''g'') (lit ''w'') 1000 4 demo_backend
    in length cl \<le> 4 \<and> cl = [(entry_id 1, [112])] \<and> entry_id 1 \<in> mem_pend b' (lit ''s'') (lit ''g''))"
proof -
  obtain cl b' where c:
    "mem_claim_stale (lit ''s'') (lit ''g'') (lit ''w'') 1000 4 demo_backend = (cl, b')" by fastforce
  have cl: "cl = [(entry_id 1, [112])]"
    using c by (auto simp: demo_backend_def backend_defs str_simps)
  have "entry_id 1 \<in> mem_pend demo_backend (lit ''s'') (lit ''g'') \<inter> mem_held demo_backend (lit ''s'')"
    by (simp add: demo_backend_def backend_defs str_simps)
  with claim_stale_safe [OF demo_inv c] c cl show ?thesis by auto
qed

lemma find_row:
  "distinct (map fst rows) \<Longrightarrow> (n, p) \<in> set rows \<Longrightarrow>
   find (\<lambda>item. fst item = n) rows = Some (n, p) \<and>
   filter (\<lambda>item. fst item \<noteq> n) rows = filter (\<lambda>row. row \<noteq> (n, p)) rows"
proof (induction rows)
  case (Cons row rows)
  show ?case
  proof (cases "row = (n, p)")
    case True
    then have "\<forall>r \<in> set rows. fst r \<noteq> n" using Cons.prems(1) by force
    then have "filter (\<lambda>item. fst item \<noteq> n) rows = rows"
      and "filter (\<lambda>row. row \<noteq> (n, p)) rows = rows"
      by (auto simp: filter_id_conv)
    then show ?thesis using True by simp
  next
    case False
    then have "(n, p) \<in> set rows" using Cons.prems(2) by auto
    moreover from this have "fst row \<noteq> n"
      using Cons.prems(1) rev_image_eqI [of "(n, p)" "set rows" n fst] by auto
    ultimately show ?thesis using Cons.IH Cons.prems(1) False by auto
  qed
qed simp

text \<open>
  replaying a dead letter moves it: its payload is appended to the source stream under
  a fresh id, exactly that row leaves the dead-letter stream, and the completed key is
  cleared, so the consumer will not discard the entry as a duplicate.
\<close>

theorem replay_moves_entry:
  assumes "(n, payload) \<in> set (stream_of b dead)" and "mem_inv b" and "dead \<noteq> src" and "0 < k"
    and "mem_replay_dead_letter dead (entry_id n) src k (Some key) b = (r, b')"
  shows "r = Inr (entry_id (dict_get (mb_sequence b) src 0 + 1)) \<and>
    stream_of b' src = trim (k - 1) (stream_of b src) @ [(dict_get (mb_sequence b) src 0 + 1, payload)] \<and>
    stream_of b' dead = filter (\<lambda>row. row \<noteq> (n, payload)) (stream_of b dead) \<and>
    \<not> mem_has_once key b'"
proof -
  have "sorted_wrt (<) (map fst (stream_of b dead))" using assms(2) by (rule mem_inv_sorted)
  then have "distinct (map fst (stream_of b dead))" by (simp add: strict_sorted_iff)
  from find_row [OF this assms(1)] assms(5) assms(3,4) show ?thesis
    by (auto simp: mem_replay_dead_letter_def mem_add_def Let_def dict_get_update trim_snoc
        mem_has_once_def dict_simps)
qed

theorem replay_moves_entry_witness:
  "(let (r, b') = mem_replay_dead_letter (lit ''d'') (entry_id 1) (lit ''s'') 10 (Some (lit ''k'')) demo_backend
    in r = Inr (entry_id 2) \<and> stream_of b' (lit ''s'') = [(1, [112]), (2, [113])] \<and>
       stream_of b' (lit ''d'') = [] \<and> \<not> mem_has_once (lit ''k'') b')"
proof -
  obtain r b' where c: "mem_replay_dead_letter (lit ''d'') (entry_id 1) (lit ''s'') 10
      (Some (lit ''k'')) demo_backend = (r, b')" by fastforce
  have "(1, [113]) \<in> set (stream_of demo_backend (lit ''d''))" "lit ''d'' \<noteq> lit ''s''"
    by (simp_all add: demo_backend_def backend_defs str_simps)
  from replay_moves_entry [OF this(1) demo_inv this(2) _ c] c show ?thesis
    by (simp add: demo_backend_def backend_defs str_simps trim_eq_drop)
qed

end
