(* ===== verification/StreamConsumer.thy ===== *)
theory StreamConsumer
  imports StreamBackend
begin

text \<open>
  The consumer-group reader \<open>StreamConsumer\<close> of \<open>src/mybot/infrastructure/streams.py\<close>:
  explicit acknowledgements, dedupe keys and dead-lettering over any transport. Its
  operations are programs over the transport's state; the handler is a program over the
  same state (it may publish to other streams, and keeps its own state in the record's
  extension) and receives the delivery attempt, which the code passes in a context
  variable. Logging, spans and sleeping are left out: they change no modelled state.
\<close>

section \<open>Configuration and steps\<close>

record consumer_config =
  cc_stream :: ustr
  cc_group :: ustr
  cc_consumer :: ustr
  cc_dead_letter_stream :: ustr
  cc_max_attempts :: int
  cc_dedupe_ttl_seconds :: int
  cc_dedupe_prefix :: ustr
  cc_claim_min_idle_ms :: real
  cc_read_count :: nat
  cc_dead_letter_maxlen :: nat

type_synonym 's handler = "int \<Rightarrow> ustr \<Rightarrow> ('s, unit) prog"
type_synonym dedupe_key = "ustr \<Rightarrow> exn + ustr option"

definition dead_letter ::
  "consumer_config \<Rightarrow> 's stream_ops \<Rightarrow> ustr \<Rightarrow> ustr \<Rightarrow> ('s, unit) prog" where
  "dead_letter cfg B eid payload =
     bindp (so_add B (cc_dead_letter_stream cfg) payload (cc_dead_letter_maxlen cfg))
       (\<lambda>_. so_ack B (cc_stream cfg) (cc_group cfg) eid)"

definition completed_key :: "consumer_config \<Rightarrow> ustr \<Rightarrow> ustr" where
  "completed_key cfg key = cc_dedupe_prefix cfg @ lit '':'' @ key"

text \<open>
  The part of \<open>_handle\<close> after the dedupe check: run the handler, and on success set the
  completed key and acknowledge. A failing handler leaves the entry pending.
\<close>

definition run_handler ::
  "consumer_config \<Rightarrow> 's stream_ops \<Rightarrow> ustr \<Rightarrow> ustr \<Rightarrow> 's handler \<Rightarrow> ustr option \<Rightarrow> int
     \<Rightarrow> ('s, int) prog" where
  "run_handler cfg B eid payload handler key attempts =
     bindp (catchp (bindp (handler attempts payload) (\<lambda>_. retp True)) (\<lambda>_. retp False))
       (\<lambda>ok. if \<not> ok then retp 0
             else bindp (case key of
                           None \<Rightarrow> retp True
                         | Some k \<Rightarrow> so_acquire_once B k (cc_dedupe_ttl_seconds cfg))
                    (\<lambda>_. bindp (so_ack B (cc_stream cfg) (cc_group cfg) eid) (\<lambda>_. retp 1)))"

text \<open>\<open>_handle\<close>: returns 1 when the handler ran to completion, 0 otherwise.\<close>

definition handle_entry ::
  "consumer_config \<Rightarrow> 's stream_ops \<Rightarrow> ustr \<Rightarrow> ustr \<Rightarrow> 's handler \<Rightarrow> dedupe_key option \<Rightarrow> int
     \<Rightarrow> ('s, int) prog" where
  "handle_entry cfg B eid payload handler dedupe attempts =
     (case dedupe of
        None \<Rightarrow> run_handler cfg B eid payload handler None attempts
      | Some f \<Rightarrow>
          (case f payload of
             Inl Cancelled \<Rightarrow> raisep Cancelled
           | Inl (Raised _) \<Rightarrow> bindp (dead_letter cfg B eid payload) (\<lambda>_. retp 0)
           | Inr None \<Rightarrow> run_handler cfg B eid payload handler None attempts
           | Inr (Some key) \<Rightarrow>
               bindp (so_has_once B (completed_key cfg key))
                 (\<lambda>seen. if seen
                    then bindp (so_ack B (cc_stream cfg) (cc_group cfg) eid) (\<lambda>_. retp 0)
                    else run_handler cfg B eid payload handler
                           (Some (completed_key cfg key)) attempts)))"

fun stale_loop ::
  "consumer_config \<Rightarrow> 's stream_ops \<Rightarrow> 's handler \<Rightarrow> dedupe_key option
     \<Rightarrow> (ustr \<times> ustr) list \<Rightarrow> int \<Rightarrow> ('s, int) prog" where
  "stale_loop cfg B handler dedupe [] handled = retp handled"
| "stale_loop cfg B handler dedupe ((eid, payload) # rest) handled =
     bindp (so_delivery_count B (cc_stream cfg) (cc_group cfg) eid)
       (\<lambda>attempts. if attempts > cc_max_attempts cfg
          then bindp (dead_letter cfg B eid payload)
                 (\<lambda>_. stale_loop cfg B handler dedupe rest handled)
          else bindp (handle_entry cfg B eid payload handler dedupe attempts)
                 (\<lambda>n. stale_loop cfg B handler dedupe rest (handled + n)))"

fun fresh_loop ::
  "consumer_config \<Rightarrow> 's stream_ops \<Rightarrow> 's handler \<Rightarrow> dedupe_key option
     \<Rightarrow> (ustr \<times> ustr) list \<Rightarrow> int \<Rightarrow> ('s, int) prog" where
  "fresh_loop cfg B handler dedupe [] handled = retp handled"
| "fresh_loop cfg B handler dedupe ((eid, payload) # rest) handled =
     bindp (handle_entry cfg B eid payload handler dedupe 1)
       (\<lambda>n. fresh_loop cfg B handler dedupe rest (handled + n))"

text \<open>
  The consumer's own state is the flag \<open>_group_ready\<close>, paired with the transport's state.
  \<open>onto\<close> runs a program of the transport in the pair.
\<close>

definition onto :: "('s, 'a) prog \<Rightarrow> (bool \<times> 's, 'a) prog" where
  "onto m rs = (let (r, s') = m (snd rs) in (r, (fst rs, s')))"

definition ensure_group :: "consumer_config \<Rightarrow> 's stream_ops \<Rightarrow> (bool \<times> 's, unit) prog" where
  "ensure_group cfg B rs =
     (if fst rs then (Inr (), rs)
      else bindp (onto (so_ensure_group B (cc_stream cfg) (cc_group cfg)))
             (\<lambda>_ rs'. (Inr (), (True, snd rs'))) rs)"

definition process_available ::
  "consumer_config \<Rightarrow> 's stream_ops \<Rightarrow> 's handler \<Rightarrow> dedupe_key option
     \<Rightarrow> (bool \<times> 's, int) prog" where
  "process_available cfg B handler dedupe =
     bindp (ensure_group cfg B) (\<lambda>_. onto
       (bindp (so_claim_stale B (cc_stream cfg) (cc_group cfg) (cc_consumer cfg)
                 (cc_claim_min_idle_ms cfg) (cc_read_count cfg))
          (\<lambda>stale. bindp (stale_loop cfg B handler dedupe stale 0)
             (\<lambda>handled. bindp (so_read_new B (cc_stream cfg) (cc_group cfg) (cc_consumer cfg)
                                (cc_read_count cfg))
                (\<lambda>fresh. fresh_loop cfg B handler dedupe fresh handled)))))"

text \<open>
  \<open>run\<close>: consume until the stop event is set. Between two iterations the environment acts
  (time passes, producers publish, the stop event may be set): \<open>env\<close>. The loop has no
  bound, so the model has fuel; \<open>None\<close> is a loop that is still running.
\<close>

fun consumer_run ::
  "nat \<Rightarrow> consumer_config \<Rightarrow> 's stream_ops \<Rightarrow> 's handler \<Rightarrow> dedupe_key option
     \<Rightarrow> ('s \<Rightarrow> bool) \<Rightarrow> ('s \<Rightarrow> 's) \<Rightarrow> bool \<times> 's \<Rightarrow> ((exn + unit) \<times> (bool \<times> 's)) option" where
  "consumer_run 0 cfg B handler dedupe stop env rs = None"
| "consumer_run (Suc fuel) cfg B handler dedupe stop env rs =
     (if stop (snd rs) then Some (Inr (), rs)
      else (case process_available cfg B handler dedupe rs of
              (Inl Cancelled, rs') \<Rightarrow> Some (Inl Cancelled, rs')
            | (_, rs') \<Rightarrow>
                consumer_run fuel cfg B handler dedupe stop env (fst rs', env (snd rs'))))"

section \<open>The visits of a pass\<close>

text \<open>
  The entries a pass works on, in order, each with its payload, its delivery count, the
  transport's state when its turn comes and the state the pass goes on from after it. These
  ghost functions follow the loops above.
\<close>

type_synonym 's visit = "ustr \<times> ustr \<times> int \<times> 's \<times> 's"

fun stale_visits ::
  "consumer_config \<Rightarrow> 's stream_ops \<Rightarrow> 's handler \<Rightarrow> dedupe_key option
     \<Rightarrow> (ustr \<times> ustr) list \<Rightarrow> 's \<Rightarrow> 's visit list" where
  "stale_visits cfg B handler dedupe [] s = []"
| "stale_visits cfg B handler dedupe ((eid, payload) # rest) s =
     (case so_delivery_count B (cc_stream cfg) (cc_group cfg) eid s of
        (Inl e, s1) \<Rightarrow> []
      | (Inr attempts, s1) \<Rightarrow>
          (let step = (if attempts > cc_max_attempts cfg
                       then bindp (dead_letter cfg B eid payload) (\<lambda>_. retp 0) s1
                       else handle_entry cfg B eid payload handler dedupe attempts s1)
           in (eid, payload, attempts, s1, snd step) #
              (case fst step of
                 Inl e \<Rightarrow> []
               | Inr n \<Rightarrow> stale_visits cfg B handler dedupe rest (snd step))))"

fun fresh_visits ::
  "consumer_config \<Rightarrow> 's stream_ops \<Rightarrow> 's handler \<Rightarrow> dedupe_key option
     \<Rightarrow> (ustr \<times> ustr) list \<Rightarrow> 's \<Rightarrow> 's visit list" where
  "fresh_visits cfg B handler dedupe [] s = []"
| "fresh_visits cfg B handler dedupe ((eid, payload) # rest) s =
     (let step = handle_entry cfg B eid payload handler dedupe 1 s
      in (eid, payload, 1, s, snd step) #
         (case fst step of
            Inl e \<Rightarrow> []
          | Inr n \<Rightarrow> fresh_visits cfg B handler dedupe rest (snd step)))"

definition pass_visits ::
  "consumer_config \<Rightarrow> 's stream_ops \<Rightarrow> 's handler \<Rightarrow> dedupe_key option
     \<Rightarrow> bool \<times> 's \<Rightarrow> 's visit list" where
  "pass_visits cfg B handler dedupe rs =
     (case ensure_group cfg B rs of
        (Inl e, _) \<Rightarrow> []
      | (Inr _, rs1) \<Rightarrow>
          (case so_claim_stale B (cc_stream cfg) (cc_group cfg) (cc_consumer cfg)
                  (cc_claim_min_idle_ms cfg) (cc_read_count cfg) (snd rs1) of
             (Inl e, _) \<Rightarrow> []
           | (Inr stale, s2) \<Rightarrow>
               stale_visits cfg B handler dedupe stale s2 @
               (case stale_loop cfg B handler dedupe stale 0 s2 of
                  (Inl e, _) \<Rightarrow> []
                | (Inr handled, s3) \<Rightarrow>
                    (case so_read_new B (cc_stream cfg) (cc_group cfg) (cc_consumer cfg)
                            (cc_read_count cfg) s3 of
                       (Inl e, _) \<Rightarrow> []
                     | (Inr fresh, s4) \<Rightarrow> fresh_visits cfg B handler dedupe fresh s4))))"

text \<open>
  What a visit did when it settled its entry, over its actual states before (\<open>s\<close>) and after
  (\<open>s'\<close>): either the handler returned normally in \<open>h\<close>, the completed key (if the payload has
  one, which was not in force) was taken and the entry acknowledged; or the completed key was
  in force and the entry was acknowledged only; or the payload was added to the dead-letter
  stream, where it is, before the acknowledgement, and the entry had used up its attempts or
  its dedupe key could not be computed. \<open>fin\<close> and \<open>sto\<close> are the transport's views.
\<close>

definition visit_key :: "dedupe_key option \<Rightarrow> ustr \<Rightarrow> exn + ustr option" where
  "visit_key dedupe payload = (case dedupe of None \<Rightarrow> Inr None | Some f \<Rightarrow> f payload)"

definition settles ::
  "('s \<Rightarrow> ustr set) \<Rightarrow> ('s \<Rightarrow> ustr \<Rightarrow> ustr set) \<Rightarrow> consumer_config \<Rightarrow> 's stream_ops \<Rightarrow> 's handler
     \<Rightarrow> dedupe_key option \<Rightarrow> 's visit \<Rightarrow> bool" where
  "settles fin sto cfg B handler dedupe v =
     (case v of (eid, payload, a, s, s') \<Rightarrow>
        (\<exists>key h s1. visit_key dedupe payload = Inr key \<and> handler a payload s = (Inr (), h) \<and>
           (case key of
              None \<Rightarrow> s1 = h
            | Some k \<Rightarrow> completed_key cfg k \<notin> fin s \<and>
                (\<exists>v. so_acquire_once B (completed_key cfg k) (cc_dedupe_ttl_seconds cfg) h = (Inr v, s1))) \<and>
           so_ack B (cc_stream cfg) (cc_group cfg) eid s1 = (Inr (), s')) \<or>
        (\<exists>k. visit_key dedupe payload = Inr (Some k) \<and> completed_key cfg k \<in> fin s \<and>
           so_ack B (cc_stream cfg) (cc_group cfg) eid s = (Inr (), s')) \<or>
        ((cc_max_attempts cfg < a \<or> (\<exists>e. visit_key dedupe payload = Inl (Raised e))) \<and>
         (\<exists>x s1. so_add B (cc_dead_letter_stream cfg) payload (cc_dead_letter_maxlen cfg) s = (Inr x, s1) \<and>
            so_ack B (cc_stream cfg) (cc_group cfg) eid s1 = (Inr (), s')) \<and>
         payload \<in> sto s' (cc_dead_letter_stream cfg)))"

section \<open>Where the states of a pass lie\<close>

text \<open>
  Every relation that the transport's operations and the handler keep links the state at the
  start of a pass to that before a visit, to that after it, and to that at the end.
\<close>

definition transport_keeps :: "('s \<Rightarrow> 's \<Rightarrow> bool) \<Rightarrow> 's stream_ops \<Rightarrow> bool" where
  "transport_keeps R B \<longleftrightarrow> reflp R \<and> transp R \<and>
     (\<forall>st p k. moves R (so_add B st p k)) \<and> (\<forall>st g. moves R (so_ensure_group B st g)) \<and>
     (\<forall>st g c k. moves R (so_read_new B st g c k)) \<and>
     (\<forall>st g c d k. moves R (so_claim_stale B st g c d k)) \<and>
     (\<forall>st g i. moves R (so_delivery_count B st g i)) \<and> (\<forall>st g i. moves R (so_ack B st g i)) \<and>
     (\<forall>k t. moves R (so_acquire_once B k t)) \<and> (\<forall>k. moves R (so_has_once B k))"

lemma transport_keepsD:
  assumes "transport_keeps R B"
  shows "reflp R" "transp R" "moves R (so_add B st p k)" "moves R (so_ensure_group B st g)"
    "moves R (so_read_new B st g c k)" "moves R (so_claim_stale B st g c d k)"
    "moves R (so_delivery_count B st g i)" "moves R (so_ack B st g i)"
    "moves R (so_acquire_once B key t)" "moves R (so_has_once B key)"
  using assms by (simp_all add: transport_keeps_def)

lemma dead_letter_moves: "transport_keeps R B \<Longrightarrow> moves R (dead_letter cfg B eid payload)"
  unfolding dead_letter_def by (intro moves_intro transport_keepsD)

lemma handle_entry_moves:
  assumes R: "transport_keeps R B" and h: "\<And>a p. moves R (handler a p)"
  shows "moves R (handle_entry cfg B eid payload handler dedupe a)"
proof -
  note intros = moves_intro transport_keepsD [OF R] dead_letter_moves [OF R] h
  have run: "moves R (run_handler cfg B eid payload handler key a)" for key
    unfolding run_handler_def by (cases key) (auto intro!: intros)
  show ?thesis
    unfolding handle_entry_def
    by (auto intro!: intros run split: option.split sum.split exn.split)
qed

lemma fresh_loop_moves:
  assumes R: "transport_keeps R B" and h: "\<And>a p. moves R (handler a p)"
  shows "moves R (fresh_loop cfg B handler dedupe es n)"
  by (induction es arbitrary: n)
     (auto intro!: moves_intro transport_keepsD [OF R] handle_entry_moves [OF R] h)

lemma stale_loop_moves:
  assumes R: "transport_keeps R B" and h: "\<And>a p. moves R (handler a p)"
  shows "moves R (stale_loop cfg B handler dedupe es n)"
  by (induction es arbitrary: n)
     (auto intro!: moves_intro transport_keepsD [OF R] handle_entry_moves [OF R] dead_letter_moves [OF R] h)

lemma fresh_visits_between:
  assumes R: "transport_keeps R B" and h: "\<And>a p. moves R (handler a p)"
    and "fresh_loop cfg B handler dedupe es n s0 = (r, s9)"
    and "(i, p, a, s, s') \<in> set (fresh_visits cfg B handler dedupe es s0)"
  shows "R s0 s \<and> R s s' \<and> R s' s9"
  using assms(3,4)
proof (induction es arbitrary: n s0)
  case (Cons e es)
  obtain eid q where e: "e = (eid, q)" by fastforce
  obtain r1 s1 where st: "handle_entry cfg B eid q handler dedupe 1 s0 = (r1, s1)" by (meson surj_pair)
  note R1 = movesD [OF handle_entry_moves [OF R h] st]
  have refl: "R x x" for x using transport_keepsD(1) [OF R] by (rule reflpD)
  have trans: "R x y \<Longrightarrow> R y z \<Longrightarrow> R x z" for x y z using transport_keepsD(2) [OF R] by (rule transpD)
  show ?case
  proof (cases r1)
    case (Inl x)
    then have "s9 = s1" using Cons.prems(1) st by (simp add: e bindp_def)
    then show ?thesis using Cons.prems(2) st Inl R1 refl by (auto simp: e Let_def)
  next
    case (Inr k)
    then have run: "fresh_loop cfg B handler dedupe es (n + k) s1 = (r, s9)"
      using Cons.prems(1) st by (simp add: e bindp_def)
    note R2 = movesD [OF fresh_loop_moves [OF R h] run]
    from Cons.prems(2) st Inr consider "s = s0" "s' = s1"
      | "(i, p, a, s, s') \<in> set (fresh_visits cfg B handler dedupe es s1)" by (auto simp: e Let_def)
    then show ?thesis
    proof cases
      case 1
      then show ?thesis using R1 R2 refl by simp
    next
      case 2
      from Cons.IH [OF run 2] show ?thesis using R1 trans by blast
    qed
  qed
qed simp

lemma stale_visits_between:
  assumes R: "transport_keeps R B" and h: "\<And>a p. moves R (handler a p)"
    and "stale_loop cfg B handler dedupe es n s0 = (r, s9)"
    and "(i, p, a, s, s') \<in> set (stale_visits cfg B handler dedupe es s0)"
  shows "R s0 s \<and> R s s' \<and> R s' s9"
  using assms(3,4)
proof (induction es arbitrary: n s0)
  case (Cons e es)
  obtain eid q where e: "e = (eid, q)" by fastforce
  obtain c s1 where c: "so_delivery_count B (cc_stream cfg) (cc_group cfg) eid s0 = (c, s1)" by (meson surj_pair)
  have refl: "R x x" for x using transport_keepsD(1) [OF R] by (rule reflpD)
  have trans: "R x y \<Longrightarrow> R y z \<Longrightarrow> R x z" for x y z using transport_keepsD(2) [OF R] by (rule transpD)
  note R0 = movesD [OF transport_keepsD(7) [OF R] c]
  show ?case
  proof (cases c)
    case (Inl x)
    then show ?thesis using Cons.prems(2) c by (simp add: e)
  next
    case (Inr k)
    let ?step = "if k > cc_max_attempts cfg then bindp (dead_letter cfg B eid q) (\<lambda>_. retp 0)
      else handle_entry cfg B eid q handler dedupe k"
    obtain r2 s2 where st: "?step s1 = (r2, s2)" by (meson surj_pair)
    have "moves R ?step"
      by (auto intro!: moves_intro transport_keepsD [OF R] handle_entry_moves [OF R] dead_letter_moves [OF R] h)
    from movesD [OF this st] have R1: "R s1 s2" .
    have rest: "bindp ?step (\<lambda>m. stale_loop cfg B handler dedupe es (n + m)) s1 = (r, s9)"
      using Cons.prems(1) c Inr
      by (cases "k > cc_max_attempts cfg") (auto simp: e bindp_def split: prod.splits sum.splits)
    show ?thesis
    proof (cases r2)
      case (Inl x)
      then have "s9 = s2" using rest st by (simp add: bindp_def)
      then show ?thesis using Cons.prems(2) c st Inr Inl R0 R1 refl by (auto simp: e Let_def split: if_splits)
    next
      case (Inr m)
      then have run: "stale_loop cfg B handler dedupe es (n + m) s2 = (r, s9)"
        using rest st by (simp add: bindp_def)
      note R2 = movesD [OF stale_loop_moves [OF R h] run]
      from Cons.prems(2) c st Inr \<open>c = Inr k\<close> consider "s = s1" "s' = s2"
        | "(i, p, a, s, s') \<in> set (stale_visits cfg B handler dedupe es s2)"
        by (auto simp: e Let_def split: if_splits)
      then show ?thesis
      proof cases
        case 1
        then show ?thesis using R0 R1 R2 by simp
      next
        case 2
        from Cons.IH [OF run 2] show ?thesis using R0 R1 trans by blast
      qed
    qed
  qed
qed simp

lemma pass_visits_between:
  assumes R: "transport_keeps R B" and h: "\<And>a p. moves R (handler a p)"
    and run: "process_available cfg B handler dedupe rs = (r, rs')"
    and v: "(i, p, a, s, s') \<in> set (pass_visits cfg B handler dedupe rs)"
  shows "R (snd rs) s \<and> R s s' \<and> R s' (snd rs')"
proof -
  have trans: "R x y \<Longrightarrow> R y z \<Longrightarrow> R x z" for x y z using transport_keepsD(2) [OF R] by (rule transpD)
  obtain q rs1 where e: "ensure_group cfg B rs = (q, rs1)" by (meson surj_pair)
  have R1: "R (snd rs) (snd rs1)"
    using e transport_keepsD(1) [OF R] movesD [OF transport_keepsD(4) [OF R]]
    by (auto simp: ensure_group_def onto_def bindp_def Let_def reflpD split: if_splits prod.splits sum.splits)
  obtain u where q: "q = Inr u" using v e by (cases q) (auto simp: pass_visits_def)
  obtain c s2 where c: "so_claim_stale B (cc_stream cfg) (cc_group cfg) (cc_consumer cfg)
      (cc_claim_min_idle_ms cfg) (cc_read_count cfg) (snd rs1) = (c, s2)" by (meson surj_pair)
  note R2 = movesD [OF transport_keepsD(6) [OF R] c]
  obtain stale where cs: "c = Inr stale" using v e q c by (cases c) (auto simp: pass_visits_def)
  obtain hd s3 where st: "stale_loop cfg B handler dedupe stale 0 s2 = (hd, s3)" by (meson surj_pair)
  note R3 = movesD [OF stale_loop_moves [OF R h] st]
  have tail: "(case hd of Inl x \<Rightarrow> (Inl x, s3) | Inr handled \<Rightarrow>
      bindp (so_read_new B (cc_stream cfg) (cc_group cfg) (cc_consumer cfg) (cc_read_count cfg))
        (\<lambda>fresh. fresh_loop cfg B handler dedupe fresh handled) s3) = (r, snd rs')"
    using run e q c cs st
    by (auto simp: process_available_def bindp_def onto_def Let_def split: sum.splits prod.splits)
  have R4: "R s3 (snd rs')"
    using tail movesD [OF moves_bindp [OF transport_keepsD(2) [OF R] transport_keepsD(5) [OF R]
        fresh_loop_moves [OF R h]]] transport_keepsD(1) [OF R]
    by (cases hd) (auto simp: reflpD)
  obtain fr s4 where rd: "so_read_new B (cc_stream cfg) (cc_group cfg) (cc_consumer cfg)
      (cc_read_count cfg) s3 = (fr, s4)" by (meson surj_pair)
  from v e q c cs st rd consider "(i, p, a, s, s') \<in> set (stale_visits cfg B handler dedupe stale s2)"
    | handled fresh where "hd = Inr handled" "fr = Inr fresh"
        "(i, p, a, s, s') \<in> set (fresh_visits cfg B handler dedupe fresh s4)"
    by (cases hd; cases fr) (auto simp: pass_visits_def)
  then show ?thesis
  proof cases
    case 1
    from stale_visits_between [OF R h st 1] show ?thesis using R1 R2 R4 trans by blast
  next
    case 2
    have "fresh_loop cfg B handler dedupe fresh handled s4 = (r, snd rs')"
      using tail 2(1,2) rd by (simp add: bindp_def)
    from fresh_visits_between [OF R h this 2(3)] movesD [OF transport_keepsD(5) [OF R] rd]
    show ?thesis using R1 R2 R3 trans by blast
  qed
qed

section \<open>What one entry can lead to\<close>

text \<open>
  A handler respects the group when running it never acknowledges this group's entries;
  the handlers of the code only publish and change their own state.
\<close>

definition keeps_owed :: "('s \<Rightarrow> ustr set) \<Rightarrow> 's handler \<Rightarrow> bool" where
  "keeps_owed owed handler \<longleftrightarrow>
     (\<forall>a p s. owed s \<subseteq> owed (snd (handler a p s)))"

context stream_backend
begin

abbreviation owed :: "consumer_config \<Rightarrow> 's \<Rightarrow> ustr set" where
  "owed cfg s \<equiv> pend s (cc_stream cfg) (cc_group cfg)"

lemma dead_letter_reason:
  assumes "dead_letter cfg B eid payload s = (r, s')"
    and "i \<in> owed cfg s" and "i \<notin> owed cfg s'" and "0 < cc_dead_letter_maxlen cfg"
  shows "i = eid \<and> r = Inr () \<and> payload \<in> stored s' (cc_dead_letter_stream cfg) \<and>
    (\<exists>x s1. so_add B (cc_dead_letter_stream cfg) payload (cc_dead_letter_maxlen cfg) s = (Inr x, s1) \<and>
       so_ack B (cc_stream cfg) (cc_group cfg) eid s1 = (Inr (), s'))"
proof -
  from assms(1) show ?thesis
    unfolding dead_letter_def
  proof (cases rule: bindp_cases)
    case (raises e)
    then show ?thesis using add_frame assms(2,3) by metis
  next
    case (returned x s1)
    have p1: "pend s1 = pend s" using add_frame returned(1) by metis
    have st: "payload \<in> stored s1 (cc_dead_letter_stream cfg)"
      using add_stored returned(1) assms(4) by metis
    show ?thesis
    proof (cases r)
      case (Inl e)
      then show ?thesis using ack_raises returned(2) p1 assms(2,3) by metis
    next
      case (Inr u)
      then have "owed cfg s' = owed cfg s1 - {eid}" using ack_removes returned(2) by metis
      then show ?thesis using ack_frame returned st p1 assms(2,3) Inr by auto
    qed
  qed
qed

text \<open>
  Running the handler acknowledges only its own entry, and only when the handler returned
  normally; then the completed key, if any, is taken before the acknowledgement.
\<close>

lemma run_handler_reason:
  assumes run: "run_handler cfg B eid payload handler key a s = (r, s')"
    and owed: "i \<in> owed cfg s" "i \<notin> owed cfg s'"
    and resp: "keeps_owed (owed cfg) handler"
  shows "i = eid \<and> r = Inr 1 \<and> (\<exists>h s1. handler a payload s = (Inr (), h) \<and>
    (case key of None \<Rightarrow> s1 = h
     | Some k \<Rightarrow> \<exists>v. so_acquire_once B k (cc_dedupe_ttl_seconds cfg) h = (Inr v, s1)) \<and>
    so_ack B (cc_stream cfg) (cc_group cfg) eid s1 = (Inr (), s'))"
proof -
  obtain h s1 where h: "handler a payload s = (h, s1)" by fastforce
  have kept: "i \<in> owed cfg s1"
    using resp owed(1) h unfolding keeps_owed_def by (metis snd_conv subsetD)
  show ?thesis
  proof (cases h)
    case (Inl e)
    then have "s' = s1"
      using run h by (cases e) (auto simp: run_handler_def bindp_def catchp_def)
    with kept owed(2) show ?thesis by simp
  next
    case (Inr u)
    let ?acq = "case key of None \<Rightarrow> retp True
      | Some k \<Rightarrow> so_acquire_once B k (cc_dedupe_ttl_seconds cfg)"
    have run': "bindp ?acq (\<lambda>_. bindp (so_ack B (cc_stream cfg) (cc_group cfg) eid)
        (\<lambda>_. retp 1)) s1 = (r, s')"
      using run h Inr by (simp add: run_handler_def bindp_def catchp_def)
    have acq: "pend s2 = pend s1" if "?acq s1 = (q, s2)" for q s2
      using that acquire_frame by (auto split: option.splits)
    from run' show ?thesis
    proof (cases rule: bindp_cases)
      case (raises e)
      then show ?thesis using acq kept owed(2) by auto
    next
      case (returned x s2)
      from returned(2) show ?thesis
      proof (cases rule: bindp_cases)
        case (raises e)
        then show ?thesis using ack_raises acq [OF returned(1)] kept owed(2) by metis
      next
        case ack: (returned y s3)
        from ack(2) have rs': "r = Inr 1" "s' = s3" by auto
        have "owed cfg s' = owed cfg s2 - {eid}"
          using ack_removes [OF ack(1)] rs' by simp
        moreover have "i \<in> owed cfg s2" using acq [OF returned(1)] kept by simp
        ultimately have "i = eid" using owed(2) by simp
        moreover have "handler a payload s = (Inr (), s1)" using h Inr by simp
        moreover have "case key of None \<Rightarrow> s2 = s1
          | Some k \<Rightarrow> \<exists>v. so_acquire_once B k (cc_dedupe_ttl_seconds cfg) s1 = (Inr v, s2)"
          using returned(1) by (cases key) auto
        ultimately show ?thesis using ack(1) rs' by auto
      qed
    qed
  qed
qed

text \<open>
  Handling an entry acknowledges nothing else, and the entry itself only by a step that
  settles it.
\<close>

lemma handle_entry_settles:
  assumes run: "handle_entry cfg B eid payload handler dedupe a s = (r, s')"
    and owed: "i \<in> owed cfg s" "i \<notin> owed cfg s'"
    and keeps: "keeps_owed (owed cfg) handler" and len: "0 < cc_dead_letter_maxlen cfg"
  shows "i = eid \<and> settles finished stored cfg B handler dedupe (eid, payload, a, s, s')"
proof -
  have plain: ?thesis if "visit_key dedupe payload = Inr None"
    and "run_handler cfg B eid payload handler None a s = (r, s')"
    using run_handler_reason [OF that(2) owed keeps] that(1) unfolding settles_def by auto
  show ?thesis
  proof (cases dedupe)
    case None
    with run show ?thesis by (intro plain) (simp_all add: handle_entry_def visit_key_def)
  next
    case (Some f)
    consider "f payload = Inl Cancelled" | e where "f payload = Inl (Raised e)"
      | "f payload = Inr None" | key where "f payload = Inr (Some key)"
      by (metis exn.exhaust not_None_eq old.sum.exhaust)
    then show ?thesis
    proof cases
      case 1
      then show ?thesis using run Some owed by (simp add: handle_entry_def)
    next
      case (2 e)
      then have "bindp (dead_letter cfg B eid payload) (\<lambda>_. retp 0) s = (r, s')"
        using run Some by (simp add: handle_entry_def)
      then obtain q where "dead_letter cfg B eid payload s = (q, s')"
        by (cases rule: bindp_cases) auto
      with dead_letter_reason [OF this owed len] 2 Some show ?thesis
        unfolding settles_def by (auto simp: visit_key_def)
    next
      case 3
      with run Some show ?thesis by (intro plain) (simp_all add: handle_entry_def visit_key_def)
    next
      case (4 key)
      then have vk: "visit_key dedupe payload = Inr (Some key)" using Some by (simp add: visit_key_def)
      from 4 have "bindp (so_has_once B (completed_key cfg key))
          (\<lambda>seen. if seen
             then bindp (so_ack B (cc_stream cfg) (cc_group cfg) eid) (\<lambda>_. retp 0)
             else run_handler cfg B eid payload handler (Some (completed_key cfg key)) a) s = (r, s')"
        using run Some by (simp add: handle_entry_def)
      then show ?thesis
      proof (cases rule: bindp_cases)
        case (raises e)
        then show ?thesis using has_once_pure owed by metis
      next
        case once: (returned seen s1)
        have s1: "s1 = s" and seen: "seen = (completed_key cfg key \<in> finished s)"
          using has_once_pure has_once_value once(1) by metis+
        show ?thesis
        proof (cases seen)
          case True
          then have "bindp (so_ack B (cc_stream cfg) (cc_group cfg) eid) (\<lambda>_. retp 0) s = (r, s')"
            using once(2) s1 by simp
          then show ?thesis
          proof (cases rule: bindp_cases)
            case (raises e)
            then show ?thesis using ack_raises owed by metis
          next
            case (returned u s2)
            then have ack: "so_ack B (cc_stream cfg) (cc_group cfg) eid s = (Inr (), s')" by simp
            then have "owed cfg s' = owed cfg s - {eid}" using ack_removes by metis
            then show ?thesis using owed ack True seen vk unfolding settles_def by auto
          qed
        next
          case False
          then have "run_handler cfg B eid payload handler (Some (completed_key cfg key)) a s = (r, s')"
            using once(2) s1 by simp
          from run_handler_reason [OF this owed keeps] vk False seen show ?thesis
            unfolding settles_def by fastforce
        qed
      qed
    qed
  qed
qed

lemma dead_letter_settles:
  assumes "bindp (dead_letter cfg B eid payload) (\<lambda>_. retp n) s = (r, s')"
    and "i \<in> owed cfg s" "i \<notin> owed cfg s'" and "0 < cc_dead_letter_maxlen cfg"
    and "cc_max_attempts cfg < a"
  shows "i = eid \<and> settles finished stored cfg B handler dedupe (eid, payload, a, s, s')"
proof -
  from assms(1) obtain q where q: "dead_letter cfg B eid payload s = (q, s')"
    by (cases rule: bindp_cases) auto
  from dead_letter_reason [OF this assms(2-4)] assms(5) show ?thesis unfolding settles_def by auto
qed

lemma fresh_loop_settles:
  assumes "keeps_owed (owed cfg) handler" and "0 < cc_dead_letter_maxlen cfg"
    and "fresh_loop cfg B handler dedupe es n s = (r, s')"
    and "i \<in> owed cfg s" "i \<notin> owed cfg s'"
  shows "\<exists>v \<in> set (fresh_visits cfg B handler dedupe es s).
    fst v = i \<and> settles finished stored cfg B handler dedupe v"
  using assms(3-5)
proof (induction es arbitrary: n s)
  case (Cons e es)
  obtain eid p where e: "e = (eid, p)" by fastforce
  from Cons.prems(1) [unfolded e fresh_loop.simps] show ?case
  proof (cases rule: bindp_cases)
    case (raises x)
    from handle_entry_settles [OF raises(1) Cons.prems(2,3) assms(1,2)] raises(1) show ?thesis
      by (auto simp: e Let_def)
  next
    case (returned m s1)
    show ?thesis
    proof (cases "i \<in> owed cfg s1")
      case True
      from Cons.IH [OF returned(2) True Cons.prems(3)] returned(1) show ?thesis
        by (auto simp: e Let_def)
    next
      case False
      from handle_entry_settles [OF returned(1) Cons.prems(2) False assms(1,2)] returned(1)
      show ?thesis by (auto simp: e Let_def)
    qed
  qed
qed simp

lemma stale_loop_settles:
  assumes "keeps_owed (owed cfg) handler" and "0 < cc_dead_letter_maxlen cfg"
    and "stale_loop cfg B handler dedupe es n s = (r, s')"
    and "i \<in> owed cfg s" "i \<notin> owed cfg s'"
  shows "\<exists>v \<in> set (stale_visits cfg B handler dedupe es s).
    fst v = i \<and> settles finished stored cfg B handler dedupe v"
  using assms(3-5)
proof (induction es arbitrary: n s)
  case (Cons e es)
  obtain eid p where e: "e = (eid, p)" by fastforce
  from Cons.prems(1) [unfolded e stale_loop.simps] show ?case
  proof (cases rule: bindp_cases)
    case (raises x)
    then show ?thesis using count_frame Cons.prems(2,3) by metis
  next
    case cnt: (returned a s0)
    have o: "i \<in> owed cfg s0" using count_frame [OF cnt(1)] Cons.prems(2) by simp
    let ?m = "if a > cc_max_attempts cfg then bindp (dead_letter cfg B eid p) (\<lambda>_. retp 0)
      else handle_entry cfg B eid p handler dedupe a"
    have step: "i = eid \<and> settles finished stored cfg B handler dedupe (eid, p, a, s0, s1)"
      if "?m s0 = (q, s1)" "i \<notin> owed cfg s1" for q s1
    proof (cases "a > cc_max_attempts cfg")
      case True
      with that(1) have "bindp (dead_letter cfg B eid p) (\<lambda>_. retp 0) s0 = (q, s1)" by simp
      from dead_letter_settles [OF this o that(2) assms(2) True] show ?thesis .
    next
      case False
      with that(1) have "handle_entry cfg B eid p handler dedupe a s0 = (q, s1)" by simp
      from handle_entry_settles [OF this o that(2) assms(1,2)] show ?thesis .
    qed
    have "bindp ?m (\<lambda>k. stale_loop cfg B handler dedupe es (n + k)) s0 = (r, s')"
    proof (cases "a > cc_max_attempts cfg")
      case True
      then show ?thesis using cnt(2) by (auto simp: bindp_def split: prod.splits sum.splits)
    next
      case False
      then show ?thesis using cnt(2) by simp
    qed
    then show ?thesis
    proof (cases rule: bindp_cases)
      case (raises x)
      from step [OF raises(1) Cons.prems(3)] raises(1) cnt(1) show ?thesis
        by (auto simp: e Let_def split: if_splits)
    next
      case (returned k s1)
      show ?thesis
      proof (cases "i \<in> owed cfg s1")
        case True
        from Cons.IH [OF returned(2) True Cons.prems(3)] returned(1) cnt(1)
        show ?thesis by (auto simp: e Let_def split: if_splits)
      next
        case False
        from step [OF returned(1) False] returned(1) cnt(1) show ?thesis
          by (auto simp: e Let_def split: if_splits)
      qed
    qed
  qed
qed simp

text \<open>
  A whole pass: an entry that was owed and still in the stream, and is no longer owed
  afterwards, was settled by one of the pass's visits.
\<close>

lemma process_available_settles:
  assumes keeps: "keeps_owed (owed cfg) handler" and len: "0 < cc_dead_letter_maxlen cfg"
    and run: "process_available cfg B handler dedupe rs = (r, rs')"
    and owed: "i \<in> owed cfg (snd rs)" "i \<notin> owed cfg (snd rs')"
    and held: "i \<in> held (snd rs) (cc_stream cfg)"
  shows "\<exists>v \<in> set (pass_visits cfg B handler dedupe rs).
    fst v = i \<and> settles finished stored cfg B handler dedupe v"
proof -
  have ens: "i \<in> owed cfg (snd rs1) \<and> i \<in> held (snd rs1) (cc_stream cfg)"
    if "ensure_group cfg B rs = (q, rs1)" for q rs1
    using that owed(1) held ensure_frame
    by (auto simp: ensure_group_def onto_def bindp_def Let_def split: if_splits prod.splits sum.splits)
  from run show ?thesis
    unfolding process_available_def
  proof (cases rule: bindp_cases)
    case (raises e)
    then show ?thesis using ens owed(2) by blast
  next
    case e: (returned u rs1)
    let ?body = "bindp (so_claim_stale B (cc_stream cfg) (cc_group cfg) (cc_consumer cfg)
                 (cc_claim_min_idle_ms cfg) (cc_read_count cfg))
          (\<lambda>stale. bindp (stale_loop cfg B handler dedupe stale 0)
             (\<lambda>handled. bindp (so_read_new B (cc_stream cfg) (cc_group cfg) (cc_consumer cfg)
                                (cc_read_count cfg))
                (\<lambda>fresh. fresh_loop cfg B handler dedupe fresh handled)))"
    from e(2) have "?body (snd rs1) = (r, snd rs')"
      by (auto simp: onto_def Let_def split: prod.splits)
    then show ?thesis
    proof (cases rule: bindp_cases)
      case (raises x)
      then show ?thesis using claim_keeps ens [OF e(1)] owed(2) by metis
    next
      case c: (returned stale s2)
      have o2: "i \<in> owed cfg s2" using claim_keeps [OF c(1)] ens [OF e(1)] by blast
      from c(2) show ?thesis
      proof (cases rule: bindp_cases)
        case (raises x)
        from stale_loop_settles [OF keeps len raises(1) o2 owed(2)] e(1) c(1) show ?thesis
          by (auto simp: pass_visits_def)
      next
        case st: (returned handled s3)
        show ?thesis
        proof (cases "i \<in> owed cfg s3")
          case False
          from stale_loop_settles [OF keeps len st(1) o2 False] e(1) c(1) show ?thesis
            by (auto simp: pass_visits_def)
        next
          case o3: True
          from st(2) show ?thesis
          proof (cases rule: bindp_cases)
            case (raises x)
            then show ?thesis using read_keeps o3 owed(2) by blast
          next
            case rd: (returned fresh s4)
            have "i \<in> owed cfg s4" using read_keeps [OF rd(1)] o3 by blast
            from fresh_loop_settles [OF keeps len rd(2) this owed(2)] e(1) c(1) st(1) rd(1)
            show ?thesis by (auto simp: pass_visits_def)
          qed
        qed
      qed
    qed
  qed
qed

text \<open>
  Deduplication: a redelivered entry whose completed key is in force never reaches the
  handler, and a handled entry puts its key in force.
\<close>

lemma handle_entry_duplicate:
  assumes "dedupe = Some f" and "f payload = Inr (Some key)" and "completed_key cfg key \<in> finished s"
  shows "handle_entry cfg B eid payload handler dedupe a s
       = handle_entry cfg B eid payload handler' dedupe a s"
proof -
  obtain q s1 where q: "so_has_once B (completed_key cfg key) s = (q, s1)" by fastforce
  then show ?thesis
    using has_once_value [of "completed_key cfg key" s] assms
    by (cases q) (auto simp: handle_entry_def bindp_def)
qed

lemma handle_entry_marks:
  assumes "handle_entry cfg B eid payload handler (Some f) a s = (Inr 1, s')"
    and "f payload = Inr (Some key)" and "0 < cc_dedupe_ttl_seconds cfg"
  shows "completed_key cfg key \<in> finished s'"
proof -
  let ?k = "completed_key cfg key"
  from assms(1,2) have "bindp (so_has_once B ?k)
      (\<lambda>seen. if seen
         then bindp (so_ack B (cc_stream cfg) (cc_group cfg) eid) (\<lambda>_. retp 0)
         else run_handler cfg B eid payload handler (Some ?k) a) s = (Inr 1, s')"
    by (simp add: handle_entry_def)
  then obtain seen s1 where "(if seen
         then bindp (so_ack B (cc_stream cfg) (cc_group cfg) eid) (\<lambda>_. retp 0)
         else run_handler cfg B eid payload handler (Some ?k) a) s1 = (Inr 1, s')"
    by (cases rule: bindp_cases) auto
  then have run: "run_handler cfg B eid payload handler (Some ?k) a s1 = (Inr 1, s')"
    by (auto simp: bindp_def split: if_splits prod.splits sum.splits)
  obtain h s2 where h: "handler a payload s1 = (h, s2)" by fastforce
  have "h = Inr ()"
    using run h by (cases h; cases "projl h") (auto simp: run_handler_def bindp_def catchp_def)
  with run h have "bindp (so_acquire_once B ?k (cc_dedupe_ttl_seconds cfg))
      (\<lambda>_. bindp (so_ack B (cc_stream cfg) (cc_group cfg) eid) (\<lambda>_. retp (1 :: int))) s2 = (Inr 1, s')"
    by (simp add: run_handler_def bindp_def catchp_def)
  then obtain v s3 where acq: "so_acquire_once B ?k (cc_dedupe_ttl_seconds cfg) s2 = (Inr v, s3)"
    and rest: "bindp (so_ack B (cc_stream cfg) (cc_group cfg) eid) (\<lambda>_. retp (1 :: int)) s3 = (Inr 1, s')"
    by (cases rule: bindp_cases) auto
  from rest obtain u where "so_ack B (cc_stream cfg) (cc_group cfg) eid s3 = (u, s')"
    by (cases rule: bindp_cases) auto
  then show ?thesis using ack_frame acquire_finished [OF acq assms(3)] by metis
qed

end

text \<open>
  The loop ends on cancellation or on the stop event only: an iteration that raised any
  other exception is followed by the next one.
\<close>

lemma consumer_run_continues:
  assumes "\<not> stop (snd rs)" and "process_available cfg B handler dedupe rs = (r, rs')"
    and "r \<noteq> Inl Cancelled"
  shows "consumer_run (Suc fuel) cfg B handler dedupe stop env rs
       = consumer_run fuel cfg B handler dedupe stop env (fst rs', env (snd rs'))"
  using assms by (auto split: sum.split exn.split)

text \<open>
  A handled entry leaves its completed key with the full lifetime, counted from the end of
  its handler.
\<close>

lemma handled_key_expiry:
  assumes "handle_entry cfg mem_ops eid payload handler (Some f) a s = (Inr 1, s')"
    and "f payload = Inr (Some key)"
    and "\<not> mem_has_once (completed_key cfg key) (snd (handler a payload s))"
  shows "map_of (mb_once s') (completed_key cfg key)
    = Some (mb_now s' + of_int (cc_dedupe_ttl_seconds cfg))"
proof -
  let ?k = "completed_key cfg key"
  obtain h t where h: "handler a payload s = (h, t)" by fastforce
  have fresh: "\<not> mem_has_once ?k s"
    using assms(1,2) by (auto simp: handle_entry_def bindp_def mem_ops_def liftp_def)
  then have run: "run_handler cfg mem_ops eid payload handler (Some ?k) a s = (Inr 1, s')"
    using assms(1,2) by (simp add: handle_entry_def bindp_def mem_ops_def liftp_def)
  have ok: "h = Inr ()"
    using run h by (cases h; cases "projl h") (auto simp: run_handler_def bindp_def catchp_def)
  have "s' = mem_ack (cc_stream cfg) (cc_group cfg) eid (snd (mem_acquire_once ?k (cc_dedupe_ttl_seconds cfg) t))"
    using run h ok by (simp add: run_handler_def bindp_def catchp_def mem_ops_def liftp_def case_prod_unfold)
  moreover have "\<not> mem_has_once ?k t" using assms(3) h by simp
  ultimately show ?thesis
    by (auto simp: mem_acquire_once_def mem_has_once_def mem_ack_def Let_def dict_simps split: option.splits)
qed

section \<open>A poisoned entry\<close>

text \<open>
  A handler that always raises, counting its runs in the record's extension, and rounds of
  \<open>process_available\<close> between which \<open>dt\<close> seconds pass.
\<close>

record counted = mem_backend +
  hits :: nat

definition counted_init :: counted where
  "counted_init = \<lparr>mb_streams = [], mb_sequence = [], mb_groups = [], mb_once = [],
     mb_counters = [], mb_now = 0, hits = 0\<rparr>"

definition poison_handler :: "counted handler" where
  "poison_handler a p s = (Inl (Raised (lit ''ValueError'')), s\<lparr>hits := Suc (hits s)\<rparr>)"

definition counting_handler :: "counted handler" where
  "counting_handler a p s = (Inr (), s\<lparr>hits := Suc (hits s)\<rparr>)"

fun rounds ::
  "consumer_config \<Rightarrow> counted handler \<Rightarrow> dedupe_key option \<Rightarrow> real \<Rightarrow> nat
     \<Rightarrow> bool \<times> counted \<Rightarrow> bool \<times> counted" where
  "rounds cfg handler dedupe dt 0 rs = rs"
| "rounds cfg handler dedupe dt (Suc n) rs =
     (case process_available cfg mem_ops handler dedupe rs of
        (_, rs') \<Rightarrow> rounds cfg handler dedupe dt n (fst rs', mem_tick dt (snd rs')))"

text \<open>The state after \<open>k\<close> failed deliveries of the one entry, the last at \<open>since\<close>.\<close>

definition poison_state :: "consumer_config \<Rightarrow> ustr \<Rightarrow> nat \<Rightarrow> real \<Rightarrow> real \<Rightarrow> counted" where
  "poison_state cfg p k since now =
     \<lparr>mb_streams = [(cc_stream cfg, [(1, p)])], mb_sequence = [(cc_stream cfg, 1)],
      mb_groups = [((cc_stream cfg, cc_group cfg),
        \<lparr>next_index = 1,
         pending = [(entry_id 1,
           \<lparr>pe_consumer = cc_consumer cfg, pe_count = int k, pe_since = since\<rparr>)]\<rparr>)],
      mb_once = [], mb_counters = [], mb_now = now, hits = k\<rparr>"

lemmas pass_defs = process_available_def ensure_group_def onto_def bindp_def mem_ops_def
  liftp_def mem_claim_stale_def dict_get_def Let_def sorted_items_def payload_table_def
  put_group_def mem_delivery_count_def handle_entry_def run_handler_def catchp_def
  mem_has_once_def mem_read_new_def dead_letter_def mem_add_def mem_ack_def
  mem_ensure_group_def dict_setdefault_def new_group_def mem_acquire_once_def

lemma poison_first:
  assumes "0 < cc_read_count cfg" and "f p = Inr (Some key)"
  shows "process_available cfg mem_ops poison_handler (Some f)
      (False, snd (mem_add (cc_stream cfg) p 1 counted_init))
    = (Inr 0, (True, poison_state cfg p 1 0 0))"
  using assms
  by (simp add: pass_defs poison_state_def counted_init_def poison_handler_def)

lemma poison_retry:
  assumes "cc_claim_min_idle_ms cfg \<le> (now - since) * 1000" and "0 < cc_read_count cfg"
    and "int k < cc_max_attempts cfg" and "f p = Inr (Some key)"
  shows "process_available cfg mem_ops poison_handler (Some f) (True, poison_state cfg p k since now)
    = (Inr 0, (True, poison_state cfg p (Suc k) now now))"
  using assms by (simp add: pass_defs poison_state_def poison_handler_def)

lemma poison_rounds:
  assumes "cc_claim_min_idle_ms cfg \<le> dt * 1000" and "0 < cc_read_count cfg"
    and "f p = Inr (Some key)" and "int (k + n) \<le> cc_max_attempts cfg"
  shows "\<exists>now. rounds cfg poison_handler (Some f) dt n (True, poison_state cfg p k since (since + dt))
    = (True, poison_state cfg p (k + n) now (now + dt))"
  using assms(4)
proof (induction n arbitrary: k since)
  case (Suc n)
  have "process_available cfg mem_ops poison_handler (Some f)
      (True, poison_state cfg p k since (since + dt))
    = (Inr 0, (True, poison_state cfg p (Suc k) (since + dt) (since + dt)))"
    using Suc.prems assms by (intro poison_retry) auto
  moreover have "mem_tick dt (poison_state cfg p (Suc k) t t) = poison_state cfg p (Suc k) t (t + dt)" for t
    by (simp add: mem_tick_def poison_state_def)
  ultimately show ?case using Suc.IH [of "Suc k" "since + dt"] Suc.prems by simp
qed auto

lemma poison_last:
  assumes "cc_claim_min_idle_ms cfg \<le> dt * 1000" and "0 < cc_read_count cfg"
    and "int k = cc_max_attempts cfg" and "cc_dead_letter_stream cfg \<noteq> cc_stream cfg"
    and "0 < cc_dead_letter_maxlen cfg"
  shows "\<exists>s. rounds cfg poison_handler (Some f) dt 1 (True, poison_state cfg p k since (since + dt))
      = (True, s) \<and> hits s = k \<and> stream_of s (cc_dead_letter_stream cfg) = [(1, p)] \<and>
      mem_pend s (cc_stream cfg) (cc_group cfg) = {}"
  using assms
  by (simp add: pass_defs poison_state_def mem_tick_def mem_pend_def)

section \<open>Properties\<close>

text \<open>
  C2: on the in-memory transport a pass of the consumer never loses an entry: an entry that
  was pending and still in the stream, and is no longer pending after the pass, was visited
  in it, and this visit, from its actual state before to its actual state after, ran the
  handler to its normal end before it took the completed key and acknowledged; or found the
  completed key in force and only acknowledged; or added the payload to the dead-letter
  stream before it acknowledged, for an entry past its last attempt or one whose dedupe key
  cannot be computed.
\<close>

theorem consumer_settles:
  assumes "keeps_owed (\<lambda>s. mem_pend s (cc_stream cfg) (cc_group cfg)) handler"
    and "0 < cc_dead_letter_maxlen cfg"
    and "process_available cfg mem_ops handler dedupe rs = (r, rs')"
    and "i \<in> mem_pend (snd rs) (cc_stream cfg) (cc_group cfg)"
    and "i \<notin> mem_pend (snd rs') (cc_stream cfg) (cc_group cfg)"
    and "i \<in> mem_held (snd rs) (cc_stream cfg)"
  shows "\<exists>v \<in> set (pass_visits cfg mem_ops handler dedupe rs).
    fst v = i \<and> settles mem_finished mem_stored cfg mem_ops handler dedupe v"
  by (rule mem.process_available_settles [OF assms])

definition demo_config :: consumer_config where
  "demo_config = \<lparr>cc_stream = lit ''s'', cc_group = lit ''g'', cc_consumer = lit ''c'',
     cc_dead_letter_stream = lit ''d'', cc_max_attempts = 2, cc_dedupe_ttl_seconds = 60,
     cc_dedupe_prefix = lit ''k'', cc_claim_min_idle_ms = 1000, cc_read_count = 4,
     cc_dead_letter_maxlen = 5\<rparr>"

lemma counting_handler_keeps: "keeps_owed (\<lambda>s. mem_pend s st g) counting_handler"
  by (simp add: keeps_owed_def counting_handler_def mem_pend_def)

lemma demo_pass:
  "process_available demo_config mem_ops counting_handler None
     (True, poison_state demo_config [112] 1 0 1)
   = (Inr 1, (True, (poison_state demo_config [112] 1 0 1)
       \<lparr>mb_groups := [((lit ''s'', lit ''g''), \<lparr>next_index = 1, pending = []\<rparr>)], hits := 2\<rparr>))"
  by (simp add: pass_defs poison_state_def demo_config_def counting_handler_def)

theorem consumer_settles_witness:
  "\<exists>v \<in> set (pass_visits demo_config mem_ops counting_handler None
       (True, poison_state demo_config [112] 1 0 1)).
    fst v = entry_id 1 \<and>
    settles mem_finished mem_stored demo_config mem_ops counting_handler None v"
  by (rule consumer_settles [OF counting_handler_keeps _ demo_pass])
     (simp_all add: demo_config_def poison_state_def mem_pend_def mem_held_def dict_get_def)

text \<open>
  C17: after the handler completed on an entry with a dedupe key, a redelivery of the same
  payload at any time within the key's lifetime never runs a handler again: whatever the
  transport is asked to do in between (publishing, reading, claiming, acknowledging, taking
  this or any other once-key, counting, replaying under another key), as long as less than
  the lifetime passes and no replay clears this key, the redelivered entry is only
  acknowledged. The handler itself is asked not to take the consumer's completed key.
\<close>

theorem redelivery_is_skipped:
  assumes "handle_entry cfg mem_ops eid payload handler (Some f) a s = (Inr 1, s')"
    and "f payload = Inr (Some key)"
    and "\<not> mem_has_once (completed_key cfg key) (snd (handler a payload s))"
    and "\<forall>op \<in> set ops. leaves_key (completed_key cfg key) op"
    and "elapsed ops < of_int (cc_dedupe_ttl_seconds cfg)"
  shows "handle_entry cfg mem_ops eid' payload handler' (Some f) a' (snd (mem_run ops s'))
       = (Inr 0, mem_ack (cc_stream cfg) (cc_group cfg) eid' (snd (mem_run ops s')))"
proof -
  have "mem_has_once (completed_key cfg key) (snd (mem_run ops s'))"
    by (rule run_keeps_key [OF assms(4) handled_key_expiry [OF assms(1-3)]]) (use assms(5) in simp)
  then show ?thesis
    using assms(2) by (simp add: handle_entry_def bindp_def mem_ops_def liftp_def)
qed

theorem redelivery_is_skipped_witness:
  "\<exists>s' ops. ops = [OpTick 30, OpOnce (lit ''other'') 5, OpAdd (lit ''s'') [113] 9, OpTick 29] \<and>
     handle_entry demo_config mem_ops (entry_id 1) [112] counting_handler
          (Some (\<lambda>p. Inr (Some p))) 1 (poison_state demo_config [112] 1 0 1) = (Inr 1, s') \<and>
     handle_entry demo_config mem_ops (entry_id 7) [112] poison_handler
          (Some (\<lambda>p. Inr (Some p))) 3 (snd (mem_run ops s'))
       = (Inr 0, mem_ack (lit ''s'') (lit ''g'') (entry_id 7) (snd (mem_run ops s')))"
proof -
  let ?ops = "[OpTick 30, OpOnce (lit ''other'') 5, OpAdd (lit ''s'') [113] 9, OpTick 29]"
  obtain s' where s': "handle_entry demo_config mem_ops (entry_id 1) [112] counting_handler
      (Some (\<lambda>p. Inr (Some p))) 1 (poison_state demo_config [112] 1 0 1) = (Inr 1, s')"
    by (simp add: pass_defs poison_state_def demo_config_def counting_handler_def)
  have "handle_entry demo_config mem_ops (entry_id 7) [112] poison_handler
          (Some (\<lambda>p. Inr (Some p))) 3 (snd (mem_run ?ops s'))
       = (Inr 0, mem_ack (cc_stream demo_config) (cc_group demo_config) (entry_id 7) (snd (mem_run ?ops s')))"
    by (rule redelivery_is_skipped [OF s', of "[112]"])
       (simp_all add: demo_config_def poison_state_def counting_handler_def mem_has_once_def)
  then have "handle_entry demo_config mem_ops (entry_id 7) [112] poison_handler
          (Some (\<lambda>p. Inr (Some p))) 3 (snd (mem_run ?ops s'))
       = (Inr 0, mem_ack (lit ''s'') (lit ''g'') (entry_id 7) (snd (mem_run ?ops s')))"
    by (simp only: demo_config_def consumer_config.simps)
  with s' show ?thesis by blast
qed

text \<open>
  C16: an entry whose handler always raises is retried and then dead-lettered: after
  \<open>max_attempts + 1\<close> passes, spaced by at least the idle time, the handler has run exactly
  \<open>max_attempts\<close> times, the payload is on the dead-letter stream and nothing is pending.
\<close>

theorem poison_is_dead_lettered:
  assumes "cc_claim_min_idle_ms cfg \<le> dt * 1000" and "0 < cc_read_count cfg"
    and "f p = Inr (Some key)" and "1 \<le> cc_max_attempts cfg"
    and "cc_dead_letter_stream cfg \<noteq> cc_stream cfg" and "0 < cc_dead_letter_maxlen cfg"
  shows "\<exists>s. rounds cfg poison_handler (Some f) dt (Suc (nat (cc_max_attempts cfg)))
        (False, snd (mem_add (cc_stream cfg) p 1 counted_init)) = (True, s) \<and>
      hits s = nat (cc_max_attempts cfg) \<and>
      stream_of s (cc_dead_letter_stream cfg) = [(1, p)] \<and>
      mem_pend s (cc_stream cfg) (cc_group cfg) = {}"
proof -
  let ?m = "nat (cc_max_attempts cfg)"
  have split: "rounds cfg h d dt (m + n) rs = rounds cfg h d dt n (rounds cfg h d dt m rs)"
    for h d m n rs by (induction m arbitrary: rs) (auto split: prod.split)
  have first: "rounds cfg poison_handler (Some f) dt 1
      (False, snd (mem_add (cc_stream cfg) p 1 counted_init))
    = (True, poison_state cfg p 1 0 (0 + dt))"
    using poison_first [of cfg f p key] assms by (simp add: mem_tick_def poison_state_def)
  obtain now where mid: "rounds cfg poison_handler (Some f) dt (?m - 1)
      (True, poison_state cfg p 1 0 (0 + dt)) = (True, poison_state cfg p (1 + (?m - 1)) now (now + dt))"
    using poison_rounds [of cfg dt f p key 1 "?m - 1" 0] assms by auto
  have eq: "Suc ?m = 1 + ((?m - 1) + 1)" and m: "1 + (?m - 1) = ?m" using assms(4) by auto
  have "rounds cfg poison_handler (Some f) dt (Suc ?m)
      (False, snd (mem_add (cc_stream cfg) p 1 counted_init))
    = rounds cfg poison_handler (Some f) dt 1 (True, poison_state cfg p ?m now (now + dt))"
    unfolding eq split first mid m ..
  moreover have "int ?m = cc_max_attempts cfg" using assms(4) by simp
  ultimately show ?thesis
    using poison_last [of cfg dt ?m f p now] assms(1,2,5,6) by simp
qed

theorem poison_is_dead_lettered_witness:
  "\<exists>s. rounds demo_config poison_handler (Some (\<lambda>p. Inr (Some p))) 1 3
        (False, snd (mem_add (lit ''s'') [112] 1 counted_init)) = (True, s) \<and>
      hits s = 2 \<and> stream_of s (lit ''d'') = [(1, [112])] \<and> mem_pend s (lit ''s'') (lit ''g'') = {}"
  using poison_is_dead_lettered [of demo_config 1 "\<lambda>p. Inr (Some p)" "[112]" "[112]"]
  by (simp add: demo_config_def str_simps numeral_3_eq_3)

end
