(* ===== verification/Budget.thy ===== *)
theory Budget
  imports StreamBackend
begin

text \<open>
  The daily token budget \<open>src/mybot/infrastructure/budget.py\<close>, over any counter backend. A
  backend may raise (\<open>counter_port\<close>); the total counters of the in-memory backend are such a
  port, and so are counters that are down from time to time. A turn asks the budget when it
  starts and charges it later, with the model's work and other turns in between, so the
  ceilings are soft: the main result is how far a day's total can overshoot.
\<close>

definition counter_ttl_seconds :: int where
  "counter_ttl_seconds = 172800"

record token_budget =
  tb_global_daily_ceiling :: int
  tb_conversation_daily_ceiling :: int
  tb_key_prefix :: ustr

definition global_key :: "token_budget \<Rightarrow> ustr \<Rightarrow> ustr" where
  "global_key tb today = tb_key_prefix tb @ lit '':'' @ today @ lit '':global''"

definition budget_conversation_key :: "token_budget \<Rightarrow> ustr \<Rightarrow> ustr \<Rightarrow> ustr" where
  "budget_conversation_key tb key today =
     tb_key_prefix tb @ lit '':'' @ today @ lit '':conversation:'' @ key"

type_synonym 's counter_incr = "ustr \<Rightarrow> int \<Rightarrow> int \<Rightarrow> 's \<Rightarrow> int \<times> 's"

text \<open>A counter behind the network: the increment may raise.\<close>

type_synonym 's counter_port = "ustr \<Rightarrow> int \<Rightarrow> int \<Rightarrow> ('s, int) prog"

text \<open>\<open>spent >= ceiling\<close> for one of the two counters; a ceiling of 0 disables it.\<close>

definition under_ceiling :: "'s counter_port \<Rightarrow> int \<Rightarrow> ustr \<Rightarrow> ('s, bool) prog" where
  "under_ceiling incr cap key =
     (if cap > 0 then bindp (incr key 0 counter_ttl_seconds) (\<lambda>spent. retp (\<not> spent \<ge> cap))
      else retp True)"

definition budget_allows :: "'s counter_port \<Rightarrow> token_budget \<Rightarrow> ustr \<Rightarrow> ustr \<Rightarrow> ('s, bool) prog" where
  "budget_allows incr tb key today =
     bindp (under_ceiling incr (tb_global_daily_ceiling tb) (global_key tb today)) (\<lambda>below.
       if \<not> below then retp False
       else under_ceiling incr (tb_conversation_daily_ceiling tb) (budget_conversation_key tb key today))"

definition budget_consume :: "'s counter_port \<Rightarrow> token_budget \<Rightarrow> ustr \<Rightarrow> int \<Rightarrow> ustr \<Rightarrow> ('s, unit) prog" where
  "budget_consume incr tb key tokens today =
     (if tokens \<le> 0 then retp ()
      else bindp (incr (global_key tb today) tokens counter_ttl_seconds) (\<lambda>_.
           bindp (incr (budget_conversation_key tb key today) tokens counter_ttl_seconds) (\<lambda>_.
             retp ())))"

text \<open>
  The turns of one day on one store, interleaved: a turn starts by asking the budget and is
  in flight when it was let through; a turn in flight charges what its model calls cost (the
  reply's tokens, and those of the memory work around it), possibly more than once; a turn
  ends. \<open>flight\<close> holds the turns in flight, each with its conversation and what it has
  charged or tried to charge. A start whose question or a charge whose counter raises is one
  of these actions too.
\<close>

datatype budget_turn =
    Start_turn ustr
  | Charge_turn nat int
  | End_turn nat

fun turn_action_step ::
  "'s counter_port \<Rightarrow> token_budget \<Rightarrow> ustr \<Rightarrow> budget_turn \<Rightarrow> 's \<times> (ustr \<times> int) list \<Rightarrow> 's \<times> (ustr \<times> int) list" where
  "turn_action_step incr tb today (Start_turn key) (s, flight) =
     (case budget_allows incr tb key today s of
        (Inr True, s') \<Rightarrow> (s', flight @ [(key, 0)])
      | (_, s') \<Rightarrow> (s', flight))"
| "turn_action_step incr tb today (Charge_turn i tokens) (s, flight) =
     (if i < length flight
      then (snd (budget_consume incr tb (fst (flight ! i)) tokens today s),
            flight[i := (fst (flight ! i), snd (flight ! i) + max 0 tokens)])
      else (s, flight))"
| "turn_action_step incr tb today (End_turn i) (s, flight) = (s, take i flight @ drop (Suc i) flight)"

text \<open>
  In every state of a run no more than \<open>n\<close> turns of the conversations \<open>P\<close> are in flight, and
  no turn in flight has charged more than \<open>m\<close>.
\<close>

definition flight_within :: "(ustr \<Rightarrow> bool) \<Rightarrow> nat \<Rightarrow> int \<Rightarrow> (ustr \<times> int) list \<Rightarrow> bool" where
  "flight_within P n m flight \<longleftrightarrow>
     length (filter (\<lambda>t. P (fst t)) flight) \<le> n \<and> (\<forall>t \<in> set flight. 0 \<le> snd t \<and> snd t \<le> m)"

fun turns_within ::
  "'s counter_port \<Rightarrow> token_budget \<Rightarrow> ustr \<Rightarrow> (ustr \<Rightarrow> bool) \<Rightarrow> nat \<Rightarrow> int \<Rightarrow> budget_turn list
     \<Rightarrow> 's \<times> (ustr \<times> int) list \<Rightarrow> bool" where
  "turns_within incr tb today P n m [] st \<longleftrightarrow> flight_within P n m (snd st)"
| "turns_within incr tb today P n m (a # acts) st \<longleftrightarrow> flight_within P n m (snd st) \<and>
     turns_within incr tb today P n m acts (turn_action_step incr tb today a st)"

text \<open>A counter that is down in some states, over the in-memory one.\<close>

definition flaky_increment :: "('w mem_backend_scheme \<Rightarrow> bool) \<Rightarrow> 'w mem_backend_scheme counter_port" where
  "flaky_increment down key amount ttl s =
     (if down s then (Inl (Raised (lit ''ConnectionError'')), s)
      else liftp (mem_increment key amount ttl) s)"

lemma sum_list_map_update:
  fixes f :: "'a \<Rightarrow> int"
  shows "i < length xs \<Longrightarrow> sum_list (map f (xs[i := x])) = sum_list (map f xs) - f (xs ! i) + f x"
  by (induction xs arbitrary: i) (auto split: nat.split)

section \<open>The contract of a counter that may raise\<close>

text \<open>
  An increment that returns adds to its counter alone and returns the new total; one that
  raises has changed no counter.
\<close>

locale counting_port =
  fixes incr :: "'s counter_port"
    and total :: "'s \<Rightarrow> ustr \<Rightarrow> int"
  assumes port_value: "0 < ttl \<Longrightarrow> incr k a ttl s = (Inr v, s') \<Longrightarrow>
      v = total s k + a \<and> total s' = (total s)(k := total s k + a)"
    and port_raises: "incr k a ttl s = (Inl e, s') \<Longrightarrow> total s' = total s"

text \<open>Counters that never raise are such a port.\<close>

sublocale counter_backend \<subseteq> port: counting_port "\<lambda>k a ttl. liftp (incr k a ttl)" total
proof unfold_locales
  show "v = total s k + a \<and> total s' = (total s)(k := total s k + a)"
    if "0 < ttl" "liftp (incr k a ttl) s = (Inr v, s')" for ttl k a s v s'
  proof -
    have "incr k a ttl s = (v, s')" using that(2) by (auto simp: liftp_def split: prod.splits)
    with incr_value [OF that(1) this] incr_total [OF that(1) this] show ?thesis by auto
  qed
  show "total s' = total s" if "liftp (incr k a ttl) s = (Inl e, s')" for ttl k a s e s'
    using that by (simp add: liftp_def split: prod.splits)
qed

interpretation flaky: counting_port "flaky_increment down" mem_total for down
  by unfold_locales
     (auto simp: flaky_increment_def dest: mem_counter.port.port_value mem_counter.port.port_raises
       split: if_splits)

lemma counter_ttl_pos [simp]: "0 < counter_ttl_seconds"
  by (simp add: counter_ttl_seconds_def)

lemma global_not_conversation [simp]:
  assumes "58 \<notin> set today" "58 \<notin> set today'"
  shows "global_key tb today \<noteq> budget_conversation_key tb key today'"
proof
  assume "global_key tb today = budget_conversation_key tb key today'"
  then have "today @ 58 # lit ''global'' = today' @ 58 # lit ''conversation:'' @ key"
    by (simp add: global_key_def budget_conversation_key_def str_simps)
  from before_sep_eq [OF assms this] show False by (simp add: str_simps)
qed

lemmas conversation_not_global [simp] = global_not_conversation [symmetric]

lemma conversation_key_inject [simp]:
  assumes "58 \<notin> set today" "58 \<notin> set today'"
  shows "budget_conversation_key tb key today = budget_conversation_key tb key' today'
     \<longleftrightarrow> key = key' \<and> today = today'"
proof
  assume "budget_conversation_key tb key today = budget_conversation_key tb key' today'"
  then have "today @ 58 # lit ''conversation:'' @ key = today' @ 58 # lit ''conversation:'' @ key'"
    by (simp add: budget_conversation_key_def str_simps)
  from before_sep_eq [OF assms this] show "key = key' \<and> today = today'" by (simp add: str_simps)
qed simp

context counting_port
begin

lemma under_ceiling_answer:
  assumes "under_ceiling incr c k s = (r, s')"
  shows "total s' = total s"
    and "r = Inr v \<Longrightarrow> v \<longleftrightarrow> (0 < c \<longrightarrow> total s k < c)"
  using assms port_value [of counter_ttl_seconds k 0 s] port_raises [of k 0 counter_ttl_seconds s]
  by (auto simp: under_ceiling_def bindp_def split: if_splits prod.splits sum.splits)

lemma budget_allows_answer:
  assumes "budget_allows incr tb key today s = (r, s')"
  shows "total s' = total s"
    and "r = Inr v \<Longrightarrow> v \<longleftrightarrow>
      (0 < tb_global_daily_ceiling tb \<longrightarrow> total s (global_key tb today) < tb_global_daily_ceiling tb) \<and>
      (0 < tb_conversation_daily_ceiling tb \<longrightarrow>
         total s (budget_conversation_key tb key today) < tb_conversation_daily_ceiling tb)"
proof -
  from assms have "total s' = total s \<and> (\<forall>v. r = Inr v \<longrightarrow> v =
      ((0 < tb_global_daily_ceiling tb \<longrightarrow> total s (global_key tb today) < tb_global_daily_ceiling tb) \<and>
       (0 < tb_conversation_daily_ceiling tb \<longrightarrow>
          total s (budget_conversation_key tb key today) < tb_conversation_daily_ceiling tb)))"
    unfolding budget_allows_def
  proof (cases rule: bindp_cases)
    case (raises e)
    then show ?thesis using under_ceiling_answer(1) by auto
  next
    case (returned below s1)
    note u1 = under_ceiling_answer(1) [OF returned(1)] under_ceiling_answer(2) [OF returned(1) refl]
    show ?thesis
    proof (cases below)
      case False
      then show ?thesis using returned(2) u1 by auto
    next
      case True
      then have "under_ceiling incr (tb_conversation_daily_ceiling tb) (budget_conversation_key tb key today) s1 = (r, s')"
        using returned(2) by simp
      from under_ceiling_answer [OF this] u1 True show ?thesis by auto
    qed
  qed
  then show "total s' = total s" "r = Inr v \<Longrightarrow> v \<longleftrightarrow>
      (0 < tb_global_daily_ceiling tb \<longrightarrow> total s (global_key tb today) < tb_global_daily_ceiling tb) \<and>
      (0 < tb_conversation_daily_ceiling tb \<longrightarrow>
         total s (budget_conversation_key tb key today) < tb_conversation_daily_ceiling tb)"
    by blast+
qed

text \<open>
  A charge adds its tokens to the two counters of its day; one that raises has added them to
  the global counter at most.
\<close>

lemma budget_consume_answer:
  assumes "58 \<notin> set today" and "budget_consume incr tb key tokens today s = (r, s')"
  shows "r = Inr () \<Longrightarrow> total s' k = total s k +
      (if k = global_key tb today \<or> k = budget_conversation_key tb key today then max 0 tokens else 0)"
    and "total s k \<le> total s' k"
    and "total s' k \<le> total s k +
      (if k = global_key tb today \<or> k = budget_conversation_key tb key today then max 0 tokens else 0)"
proof -
  let ?add = "\<lambda>k. if k = global_key tb today \<or> k = budget_conversation_key tb key today then max 0 tokens else 0"
  have "(r = Inr () \<longrightarrow> total s' k = total s k + ?add k) \<and> total s k \<le> total s' k \<and> total s' k \<le> total s k + ?add k"
  proof (cases "tokens \<le> 0")
    case True
    then show ?thesis using assms(2) by (auto simp: budget_consume_def)
  next
    case False
    then have "bindp (incr (global_key tb today) tokens counter_ttl_seconds) (\<lambda>_.
        bindp (incr (budget_conversation_key tb key today) tokens counter_ttl_seconds) (\<lambda>_. retp ())) s = (r, s')"
      using assms(2) by (simp add: budget_consume_def)
    then show ?thesis
    proof (cases rule: bindp_cases)
      case (raises e)
      then show ?thesis using port_raises False by fastforce
    next
      case (returned v s1)
      from port_value [OF _ returned(1)]
      have t1: "total s1 = (total s)(global_key tb today := total s (global_key tb today) + tokens)" by simp
      from returned(2) show ?thesis
      proof (cases rule: bindp_cases)
        case (raises e)
        then have "total s' = total s1" using port_raises by blast
        then show ?thesis using raises(2) t1 False by auto
      next
        case fin: (returned u s2)
        from port_value [OF _ fin(1)] fin(2) have
          "total s' = (total s1)(budget_conversation_key tb key today := total s1 (budget_conversation_key tb key today) + tokens)"
          by simp
        then show ?thesis using t1 False assms(1) by auto
      qed
    qed
  qed
  then show "r = Inr () \<Longrightarrow> total s' k = total s k + ?add k"
    "total s k \<le> total s' k" "total s' k \<le> total s k + ?add k" by blast+
qed

text \<open>
  The invariant of a day, for a counter that the turns of the conversations \<open>P\<close> charge: what
  it stands at, plus what those in flight may still charge, is below the ceiling plus \<open>n\<close>
  turns.
\<close>

definition reserve :: "(ustr \<Rightarrow> bool) \<Rightarrow> int \<Rightarrow> ustr \<times> int \<Rightarrow> int" where
  "reserve P m t = (if P (fst t) then m - snd t else 0)"

lemma reserve_le:
  assumes "flight_within P n m flight" and "0 \<le> m"
  shows "sum_list (map (reserve P m) flight) \<le> int n * m"
    and "0 \<le> sum_list (map (reserve P m) flight)"
proof -
  have "sum_list (map (reserve P m) flight) \<le> int (length (filter (\<lambda>t. P (fst t)) flight)) * m"
    using assms(1) by (induction flight) (auto simp: flight_within_def reserve_def algebra_simps)
  also have "\<dots> \<le> int n * m"
    using assms by (intro mult_right_mono) (auto simp: flight_within_def)
  finally show "sum_list (map (reserve P m) flight) \<le> int n * m" .
  show "0 \<le> sum_list (map (reserve P m) flight)"
    using assms(1) by (induction flight) (auto simp: flight_within_def reserve_def split: if_splits)
qed

lemma action_keeps_headroom:
  assumes day: "58 \<notin> set today"
    and asked: "\<And>key s s'. P key \<Longrightarrow> budget_allows incr tb key today s = (Inr True, s') \<Longrightarrow> total s cnt < cap"
    and other: "\<And>key. \<not> P key \<Longrightarrow> cnt \<noteq> global_key tb today \<and> cnt \<noteq> budget_conversation_key tb key today"
    and m: "0 \<le> m"
    and inv: "total s cnt + sum_list (map (reserve P m) flight) < cap + int n * m"
    and within_now: "flight_within P n m flight"
    and step: "turn_action_step incr tb today a (s, flight) = (s', flight')"
    and within_next: "flight_within P n m flight'"
  shows "total s' cnt + sum_list (map (reserve P m) flight') < cap + int n * m"
proof (cases a)
  case (Start_turn key)
  obtain r s1 where ask: "budget_allows incr tb key today s = (r, s1)" by (meson surj_pair)
  have fr: "total s1 = total s" using budget_allows_answer(1) [OF ask] .
  show ?thesis
  proof (cases "r = Inr True")
    case False
    then have "s' = s1 \<and> flight' = flight" using step Start_turn ask by (auto split: sum.splits bool.splits)
    then show ?thesis using inv fr by simp
  next
    case True
    then have st: "s' = s1" "flight' = flight @ [(key, 0)]" using step Start_turn ask by simp_all
    show ?thesis
    proof (cases "P key")
      case False
      then show ?thesis using st inv fr by (simp add: reserve_def)
    next
      case P: True
      have "total s cnt < cap" using asked [OF P] ask True by simp
      then show ?thesis using reserve_le(1) [OF within_next m] st fr by simp
    qed
  qed
next
  case (Charge_turn i tokens)
  show ?thesis
  proof (cases "i < length flight")
    case False
    then show ?thesis using step Charge_turn inv by simp
  next
    case True
    obtain key c where fi: "flight ! i = (key, c)" by (meson surj_pair)
    obtain r s1 where run: "budget_consume incr tb key tokens today s = (r, s1)" by (meson surj_pair)
    have st: "s' = s1" "flight' = flight[i := (key, c + max 0 tokens)]"
      using step Charge_turn True fi run by simp_all
    have sum: "sum_list (map (reserve P m) flight') =
        sum_list (map (reserve P m) flight) - reserve P m (key, c) + reserve P m (key, c + max 0 tokens)"
      using sum_list_map_update [OF True] fi st by simp
    have "total s1 cnt \<le> total s cnt + (if P key then max 0 tokens else 0)"
      using budget_consume_answer(3) [OF day run, of cnt] other [of key] by (auto split: if_splits)
    then show ?thesis using inv sum st by (auto simp: reserve_def split: if_splits)
  qed
next
  case (End_turn i)
  then have st: "s' = s" "flight' = take i flight @ drop (Suc i) flight" using step by simp_all
  have "sum_list (map (reserve P m) flight') \<le> sum_list (map (reserve P m) flight)"
  proof (cases "i < length flight")
    case False
    then show ?thesis using st by simp
  next
    case True
    then have "flight ! i \<in> set flight" by simp
    then have "0 \<le> reserve P m (flight ! i)"
      using within_now by (simp add: flight_within_def reserve_def)
    moreover have "sum_list (map (reserve P m) flight) =
        sum_list (map (reserve P m) flight') + reserve P m (flight ! i)"
      using arg_cong [OF id_take_nth_drop [OF True], of "\<lambda>xs. sum_list (map (reserve P m) xs)"] st by simp
    ultimately show ?thesis by simp
  qed
  then show ?thesis using st inv by simp
qed

lemma run_keeps_headroom:
  assumes day: "58 \<notin> set today"
    and asked: "\<And>key s s'. P key \<Longrightarrow> budget_allows incr tb key today s = (Inr True, s') \<Longrightarrow> total s cnt < cap"
    and other: "\<And>key. \<not> P key \<Longrightarrow> cnt \<noteq> global_key tb today \<and> cnt \<noteq> budget_conversation_key tb key today"
    and m: "0 \<le> m"
    and "total (fst st) cnt + sum_list (map (reserve P m) (snd st)) < cap + int n * m"
    and "turns_within incr tb today P n m acts st"
  shows "total (fst (fold (turn_action_step incr tb today) acts st)) cnt < cap + int n * m"
  using assms(5,6)
proof (induction acts arbitrary: st)
  case Nil
  then show ?case using reserve_le(2) [OF _ m, of P n "snd st"] by simp
next
  case (Cons a acts)
  obtain s flight where st: "st = (s, flight)" by fastforce
  obtain s' flight' where nx: "turn_action_step incr tb today a (s, flight) = (s', flight')" by (meson surj_pair)
  have w: "flight_within P n m flight" "turns_within incr tb today P n m acts (s', flight')"
    using Cons.prems(2) st nx by simp_all
  then have "flight_within P n m flight'" by (cases acts) simp_all
  from action_keeps_headroom [OF day asked other m _ w(1) nx this] Cons.prems(1) st
  have "total s' cnt + sum_list (map (reserve P m) flight') < cap + int n * m" by simp
  then show ?case using Cons.IH [of "(s', flight')"] w(2) st nx by simp
qed

lemma global_overshoot:
  assumes "58 \<notin> set today" and "0 \<le> m" and "0 < tb_global_daily_ceiling tb"
    and "total s (global_key tb today) < tb_global_daily_ceiling tb"
    and "turns_within incr tb today (\<lambda>c. True) n m acts (s, flight)"
  shows "total (fst (fold (turn_action_step incr tb today) acts (s, flight))) (global_key tb today)
    < tb_global_daily_ceiling tb + int n * m"
proof -
  have "flight_within (\<lambda>c. True) n m flight" using assms(5) by (cases acts) simp_all
  from reserve_le(1) [OF this assms(2)] show ?thesis
    using assms budget_allows_answer(2)
    by (intro run_keeps_headroom [where P = "\<lambda>c. True"]) fastforce+
qed

lemma conversation_overshoot:
  assumes "58 \<notin> set today" and "0 \<le> m" and "0 < tb_conversation_daily_ceiling tb"
    and "total s (budget_conversation_key tb key today) < tb_conversation_daily_ceiling tb"
    and "turns_within incr tb today (\<lambda>c. c = key) k m acts (s, flight)"
  shows "total (fst (fold (turn_action_step incr tb today) acts (s, flight))) (budget_conversation_key tb key today)
    < tb_conversation_daily_ceiling tb + int k * m"
proof -
  have "flight_within (\<lambda>c. c = key) k m flight" using assms(5) by (cases acts) simp_all
  from reserve_le(1) [OF this assms(2)] show ?thesis
    using assms budget_allows_answer(2)
    by (intro run_keeps_headroom [where P = "\<lambda>c. c = key"]) fastforce+
qed

end

section \<open>Properties\<close>

text \<open>
  C39: the daily ceilings are soft by the turns in flight. Whatever turns of a day start,
  charge and end in whatever order, on counters that may be down at any moment: a day that
  begins below its ceilings never takes the global total to the ceiling plus \<open>n\<close> times the
  cost \<open>m\<close> of the dearest turn, \<open>n\<close> being the number of turns in flight at a time, and never
  a conversation's total to its ceiling plus \<open>k\<close> times \<open>m\<close>, for \<open>k\<close> turns of it in flight. A
  day's name has no colon.
\<close>

theorem budget_overshoots_by_turns_in_flight:
  assumes "58 \<notin> set today" and "0 \<le> m"
    and "0 < tb_global_daily_ceiling tb" and "0 < tb_conversation_daily_ceiling tb"
    and "mem_total b (global_key tb today) < tb_global_daily_ceiling tb"
    and "mem_total b (budget_conversation_key tb key today) < tb_conversation_daily_ceiling tb"
    and "turns_within (flaky_increment down) tb today (\<lambda>c. True) n m acts (b, flight)"
    and "turns_within (flaky_increment down) tb today (\<lambda>c. c = key) k m acts (b, flight)"
  shows "let b' = fst (fold (turn_action_step (flaky_increment down) tb today) acts (b, flight))
    in mem_total b' (global_key tb today) < tb_global_daily_ceiling tb + int n * m \<and>
       mem_total b' (budget_conversation_key tb key today) < tb_conversation_daily_ceiling tb + int k * m"
  unfolding Let_def
  using flaky.global_overshoot [OF assms(1,2,3,5,7)] flaky.conversation_overshoot [OF assms(1,2,4,6,8)]
  by blast

definition demo_budget :: token_budget where
  "demo_budget = \<lparr>tb_global_daily_ceiling = 100, tb_conversation_daily_ceiling = 50,
     tb_key_prefix = lit ''t''\<rparr>"

text \<open>
  Two turns of one conversation start before either has charged, so both are let through and
  the conversation ends at 80 of its 50 tokens; the third is refused.
\<close>

definition demo_day :: "budget_turn list" where
  "demo_day = [Start_turn (lit ''a''), Start_turn (lit ''a''), Charge_turn 0 40, Charge_turn 1 40,
     End_turn 0, Start_turn (lit ''a'')]"

definition demo_global :: ustr where
  "demo_global = global_key demo_budget (lit ''d'')"

definition demo_conversation :: ustr where
  "demo_conversation = budget_conversation_key demo_budget (lit ''a'') (lit ''d'')"

abbreviation demo_counter :: "mem_backend counter_port" where
  "demo_counter \<equiv> flaky_increment (\<lambda>b. False)"

lemma demo_keys_differ: "demo_global \<noteq> demo_conversation" "demo_conversation \<noteq> demo_global"
  by (simp_all add: demo_global_def demo_conversation_def str_simps)

lemma demo_counter_apply: "demo_counter k a t b = (Inr (fst (mem_increment k a t b)), snd (mem_increment k a t b))"
  by (simp add: flaky_increment_def liftp_def split: prod.split)

lemma demo_asks:
  "budget_allows demo_counter demo_budget (lit ''a'') (lit ''d'') =
     bindp (demo_counter demo_global 0 172800) (\<lambda>x. if 100 \<le> x then retp False
       else bindp (demo_counter demo_conversation 0 172800) (\<lambda>y. retp (\<not> 50 \<le> y)))"
  by (rule ext) (simp add: budget_allows_def under_ceiling_def demo_budget_def demo_global_def demo_conversation_def
      counter_ttl_seconds_def bindp_def split: prod.split sum.split)

lemma demo_charges:
  "0 < n \<Longrightarrow> budget_consume demo_counter demo_budget (lit ''a'') n (lit ''d'') =
     bindp (demo_counter demo_global n 172800) (\<lambda>_.
       bindp (demo_counter demo_conversation n 172800) (\<lambda>_. retp ()))"
  by (simp add: budget_consume_def demo_global_def demo_conversation_def counter_ttl_seconds_def)

lemmas demo_day_simps = demo_day_def demo_asks demo_charges bindp_def demo_counter_apply mem_increment_def
  mem_init_def dict_get_def demo_keys_differ Let_def mem_total_def

theorem budget_overshoots_by_turns_in_flight_witness:
  "let b' = fst (fold (turn_action_step demo_counter demo_budget (lit ''d'')) demo_day (mem_init, []))
   in mem_total b' (global_key demo_budget (lit ''d'')) < 180 \<and>
      mem_total b' (budget_conversation_key demo_budget (lit ''a'') (lit ''d'')) < 130 \<and>
      mem_total b' (budget_conversation_key demo_budget (lit ''a'') (lit ''d'')) = 80"
proof -
  have w: "turns_within demo_counter demo_budget (lit ''d'') P 2 40 demo_day (mem_init, [])" for P
    by (simp add: demo_day_simps flight_within_def)
  have "mem_total (fst (fold (turn_action_step demo_counter demo_budget (lit ''d'')) demo_day (mem_init, [])))
      demo_conversation = 80"
    by (simp add: demo_day_simps)
  with budget_overshoots_by_turns_in_flight [OF _ _ _ _ _ _ w w, of "lit ''a''"] show ?thesis
    by (simp add: demo_budget_def str_simps mem_total_def mem_init_def Let_def demo_conversation_def)
qed

text \<open>
  asking the budget moves no counter and answers yes exactly when neither enabled ceiling is
  reached; a charge that returns adds its tokens to the two counters of its day and to no
  other.
\<close>

theorem budget_accounting:
  assumes "58 \<notin> set today"
    and "budget_allows (flaky_increment down) tb key today b = (Inr v, b1)"
    and "budget_consume (flaky_increment down) tb key tokens today b1 = (Inr (), b2)"
  shows "v = ((0 < tb_global_daily_ceiling tb \<longrightarrow>
          mem_total b (global_key tb today) < tb_global_daily_ceiling tb) \<and>
       (0 < tb_conversation_daily_ceiling tb \<longrightarrow>
          mem_total b (budget_conversation_key tb key today) < tb_conversation_daily_ceiling tb))
    \<and> mem_total b1 = mem_total b
    \<and> mem_total b2 k = mem_total b k +
        (if k = global_key tb today \<or> k = budget_conversation_key tb key today
         then max 0 tokens else 0)"
  using flaky.budget_allows_answer(1) [OF assms(2)] flaky.budget_allows_answer(2) [OF assms(2) refl]
    flaky.budget_consume_answer(1) [OF assms(1,3) refl, of k] by simp

theorem budget_accounting_witness:
  "\<exists>b1 b2. budget_allows demo_counter demo_budget (lit ''a'') (lit ''d'') mem_init = (Inr True, b1) \<and>
     budget_consume demo_counter demo_budget (lit ''a'') 7 (lit ''d'') b1 = (Inr (), b2) \<and>
     mem_total b2 (global_key demo_budget (lit ''d'')) = 7"
proof -
  obtain b1 where b1: "budget_allows demo_counter demo_budget (lit ''a'') (lit ''d'') mem_init = (Inr True, b1)"
    by (simp add: demo_day_simps)
  obtain b2 where b2: "budget_consume demo_counter demo_budget (lit ''a'') 7 (lit ''d'') b1 = (Inr (), b2)"
    by (simp add: demo_charges bindp_def demo_counter_apply)
  from budget_accounting [OF _ b1 b2, of "global_key demo_budget (lit ''d'')"] b1 b2 show ?thesis
    by (auto simp: str_simps mem_total_def mem_init_def)
qed

end
