(* ===== verification/Contracts.thy ===== *)
theory Contracts
  imports Prelude
begin

text \<open>
  The public contracts of \<open>src/mybot/contracts\<close> that the other components share: JSON
  values with their frozen form (\<open>json.py\<close>), messages and capabilities (\<open>messages.py\<close>),
  conversation keys and turn decisions (\<open>conversation.py\<close>), reply plans (\<open>replies.py\<close>)
  and tools (\<open>tools.py\<close>). The pydantic models reject invalid values when they are built;
  \<open>nonempty_str\<close> is their \<open>NonEmptyStr\<close> and the predicates \<open>valid_...\<close> are what a built
  value satisfies. The main results: freezing and thawing JSON is a round trip, and
  different conversations have different stable keys.
\<close>

section \<open>Validated strings\<close>

text \<open>\<open>NonEmptyStr\<close>: whitespace is stripped, then at least one character must remain.\<close>

definition validate_str :: "ustr \<Rightarrow> ustr option" where
  "validate_str s = (let t = strip s in if t = [] then None else Some t)"

definition nonempty_str :: "ustr \<Rightarrow> bool" where
  "nonempty_str s \<longleftrightarrow> validate_str s = Some s"

definition valid_opt :: "ustr option \<Rightarrow> bool" where
  "valid_opt x \<longleftrightarrow> (case x of None \<Rightarrow> True | Some s \<Rightarrow> nonempty_str s)"

lemma nonempty_str_iff: "nonempty_str s \<longleftrightarrow> s \<noteq> [] \<and> strip s = s"
  by (auto simp: nonempty_str_def validate_str_def Let_def)

lemma validate_str_Some: "validate_str s = Some t \<Longrightarrow> nonempty_str t"
  by (auto simp: nonempty_str_def validate_str_def Let_def split: if_splits)

section \<open>JSON\<close>

datatype json =
    JNull
  | JBool bool
  | JInt int
  | JFloat real
  | JStr ustr
  | JArr "json list"
  | JObj "(ustr \<times> json) list"

text \<open>A frozen object is a read-only mapping, a frozen list a tuple.\<close>

datatype frozen =
    FNull
  | FBool bool
  | FInt int
  | FFloat real
  | FStr ustr
  | FTuple "frozen list"
  | FObj "(ustr \<times> frozen) list"

fun freeze_json :: "json \<Rightarrow> frozen" where
  "freeze_json JNull = FNull"
| "freeze_json (JBool b) = FBool b"
| "freeze_json (JInt i) = FInt i"
| "freeze_json (JFloat r) = FFloat r"
| "freeze_json (JStr s) = FStr s"
| "freeze_json (JArr vs) = FTuple (map freeze_json vs)"
| "freeze_json (JObj kvs) = FObj (map (\<lambda>(k, v). (k, freeze_json v)) kvs)"

fun thaw_json :: "frozen \<Rightarrow> json" where
  "thaw_json FNull = JNull"
| "thaw_json (FBool b) = JBool b"
| "thaw_json (FInt i) = JInt i"
| "thaw_json (FFloat r) = JFloat r"
| "thaw_json (FStr s) = JStr s"
| "thaw_json (FTuple vs) = JArr (map thaw_json vs)"
| "thaw_json (FObj kvs) = JObj (map (\<lambda>(k, v). (k, thaw_json v)) kvs)"

definition freeze_json_object :: "(ustr, json) dict \<Rightarrow> (ustr, frozen) dict" where
  "freeze_json_object kvs = map (\<lambda>(k, v). (k, freeze_json v)) kvs"

definition thaw_json_object :: "(ustr, frozen) dict \<Rightarrow> (ustr, json) dict" where
  "thaw_json_object kvs = map (\<lambda>(k, v). (k, thaw_json v)) kvs"

lemma thaw_freeze [simp]: "thaw_json (freeze_json v) = v"
  by (induction v) (auto intro!: map_idI)

lemma freeze_thaw [simp]: "freeze_json (thaw_json f) = f"
  by (induction f) (auto intro!: map_idI)

lemma thaw_freeze_object [simp]: "thaw_json_object (freeze_json_object kvs) = kvs"
  by (simp add: thaw_json_object_def freeze_json_object_def map_idI comp_def case_prod_unfold)

lemma freeze_object_lookup:
  "map_of (freeze_json_object kvs) k = map_option freeze_json (map_of kvs k)"
  by (simp add: freeze_json_object_def map_of_map)

section \<open>Messages\<close>

datatype platform = QQ | TELEGRAM | SANDBOX
datatype chat_kind = DIRECT | GROUP | CHANNEL

fun platform_value :: "platform \<Rightarrow> ustr" where
  "platform_value QQ = lit ''QQ''"
| "platform_value TELEGRAM = lit ''TELEGRAM''"
| "platform_value SANDBOX = lit ''SANDBOX''"

fun chat_kind_value :: "chat_kind \<Rightarrow> ustr" where
  "chat_kind_value DIRECT = lit ''DIRECT''"
| "chat_kind_value GROUP = lit ''GROUP''"
| "chat_kind_value CHANNEL = lit ''CHANNEL''"

text \<open>Segments: text; url, alt text; name, url, MIME type; message id, label; target id,
  display name; id, name; url, MIME type, duration in milliseconds.\<close>

datatype segment =
    TextSegment ustr
  | ImageSegment ustr "ustr option"
  | FileSegment ustr ustr "ustr option"
  | ReferenceSegment ustr "ustr option"
  | AtSegment ustr "ustr option"
  | StickerSegment ustr "ustr option"
  | VoiceSegment ustr "ustr option" "int option"

fun valid_segment :: "segment \<Rightarrow> bool" where
  "valid_segment (TextSegment t) = nonempty_str t"
| "valid_segment (ImageSegment u a) = (nonempty_str u \<and> valid_opt a)"
| "valid_segment (FileSegment n u m) = (nonempty_str n \<and> nonempty_str u \<and> valid_opt m)"
| "valid_segment (ReferenceSegment i l) = (nonempty_str i \<and> valid_opt l)"
| "valid_segment (AtSegment i n) = (nonempty_str i \<and> valid_opt n)"
| "valid_segment (StickerSegment i n) = (nonempty_str i \<and> valid_opt n)"
| "valid_segment (VoiceSegment u m d) = (nonempty_str u \<and> valid_opt m \<and>
     (case d of None \<Rightarrow> True | Some ms \<Rightarrow> 0 \<le> ms \<and> ms \<le> 86400000))"

text \<open>The timestamp is a UTC instant, in microseconds; other zones are rejected.\<close>

record envelope =
  env_id :: ustr
  env_connection_id :: ustr
  env_platform :: platform
  env_chat_kind :: chat_kind
  env_chat_id :: ustr
  env_thread_id :: "ustr option"
  env_sender_identity_id :: ustr
  env_occurred_at :: int
  env_segments :: "segment list"
  env_reply_to_message_id :: "ustr option"
  env_raw_ref :: "frozen option"
  env_trace_id :: ustr
  env_ephemeral :: bool

definition valid_envelope :: "envelope \<Rightarrow> bool" where
  "valid_envelope e \<longleftrightarrow>
     nonempty_str (env_id e) \<and> nonempty_str (env_connection_id e) \<and>
     nonempty_str (env_chat_id e) \<and> valid_opt (env_thread_id e) \<and>
     nonempty_str (env_sender_identity_id e) \<and> env_segments e \<noteq> [] \<and>
     list_all valid_segment (env_segments e) \<and> valid_opt (env_reply_to_message_id e) \<and>
     nonempty_str (env_trace_id e)"

record capabilities =
  cap_editing :: bool
  cap_replies :: bool
  cap_typing :: bool
  cap_proactive_messages :: bool
  cap_combined_media_text :: bool
  cap_threads :: bool
  cap_reactions :: bool
  cap_images :: bool
  cap_mentions :: bool
  cap_stickers :: bool
  cap_voice_messages :: bool

section \<open>Conversation keys\<close>

record conversation_key =
  ck_connection_id :: ustr
  ck_chat_kind :: chat_kind
  ck_chat_id :: ustr
  ck_thread_id :: "ustr option"

text \<open>\<open>urllib.parse.quote(s, safe="")\<close>: UTF-8, with every byte outside the unreserved
  characters written as a percent escape with upper-case hexadecimal digits.\<close>

definition utf8 :: "nat \<Rightarrow> nat list" where
  "utf8 c =
     (if c < 128 then [c]
      else if c < 2048 then [192 + c div 64, 128 + c mod 64]
      else if c < 65536 then [224 + c div 4096, 128 + c div 64 mod 64, 128 + c mod 64]
      else [240 + c div 262144, 128 + c div 4096 mod 64, 128 + c div 64 mod 64, 128 + c mod 64])"

definition unreserved :: "nat \<Rightarrow> bool" where
  "unreserved c \<longleftrightarrow> (48 \<le> c \<and> c \<le> 57) \<or> (65 \<le> c \<and> c \<le> 90) \<or> (97 \<le> c \<and> c \<le> 122) \<or>
     c = 95 \<or> c = 46 \<or> c = 45 \<or> c = 126"

definition hex_digit :: "nat \<Rightarrow> nat" where
  "hex_digit d = (if d < 10 then 48 + d else 55 + d)"

definition quote_byte :: "nat \<Rightarrow> ustr" where
  "quote_byte b = (if unreserved b then [b] else [37, hex_digit (b div 16), hex_digit (b mod 16)])"

definition quote :: "ustr \<Rightarrow> ustr" where
  "quote s = concat (map quote_byte (concat (map utf8 s)))"

definition stable_key :: "conversation_key \<Rightarrow> ustr" where
  "stable_key k =
     (let parts = [lit ''v1'', quote (ck_connection_id k), chat_kind_value (ck_chat_kind k),
                   quote (ck_chat_id k)]
      in case ck_thread_id k of
           None \<Rightarrow> py_join (lit '':'') (parts @ [lit ''0''])
         | Some t \<Rightarrow> py_join (lit '':'') (parts @ [lit ''1'', quote t]))"

definition conversation_of :: "envelope \<Rightarrow> conversation_key" where
  "conversation_of e = \<lparr>ck_connection_id = env_connection_id e, ck_chat_kind = env_chat_kind e,
     ck_chat_id = env_chat_id e, ck_thread_id = env_thread_id e\<rparr>"

section \<open>Turn decisions\<close>

datatype turn_action = IGNORE | DIRECT_REPLY | AGENT
datatype turn_trigger = DIRECT_MESSAGE | MENTION | REPLY | COMMAND | PROACTIVE | POLICY

record turn_decision =
  td_action :: turn_action
  td_reason :: ustr
  td_confidence :: real
  td_trigger :: turn_trigger

section \<open>Reply plans\<close>

record citation =
  cit_label :: ustr
  cit_uri :: ustr

record typing_profile =
  tp_enabled :: bool
  tp_initial_delay_ms :: int
  tp_chars_per_second :: real

record reply_plan =
  rp_text_segments :: "ustr list"
  rp_media_segments :: "segment list"
  rp_citations :: "citation list"
  rp_meme_intent :: "ustr option"
  rp_typing :: typing_profile

definition typing_default :: "bool \<Rightarrow> typing_profile" where
  "typing_default enabled =
     \<lparr>tp_enabled = enabled, tp_initial_delay_ms = 0, tp_chars_per_second = 18\<rparr>"

fun reply_media :: "segment \<Rightarrow> bool" where
  "reply_media (ImageSegment u a) = True"
| "reply_media (StickerSegment i n) = True"
| "reply_media (VoiceSegment u m d) = True"
| "reply_media _ = False"

text \<open>What the constructor checks of its arguments: it strips each text and then wants
  between one and three non-empty ones.\<close>

definition mk_reply_plan ::
  "ustr list \<Rightarrow> segment list \<Rightarrow> citation list \<Rightarrow> ustr option \<Rightarrow> typing_profile
     \<Rightarrow> exn + reply_plan" where
  "mk_reply_plan texts media cites meme typing =
     (if 1 \<le> length texts \<and> length texts \<le> 3 \<and> (\<forall>t \<in> set texts. strip t \<noteq> []) \<and>
         (\<forall>m \<in> set media. reply_media m) \<and> (case meme of None \<Rightarrow> True | Some t \<Rightarrow> strip t \<noteq> [])
      then Inr \<lparr>rp_text_segments = map strip texts, rp_media_segments = media,
                rp_citations = cites, rp_meme_intent = map_option strip meme, rp_typing = typing\<rparr>
      else Inl (Raised (lit ''ValidationError'')))"

section \<open>Tools\<close>

datatype tool_risk = NONE | LOW | MEDIUM | HIGH | CRITICAL

record tool_spec =
  ts_id :: ustr
  ts_description :: ustr
  ts_input_schema :: "(ustr, frozen) dict"
  ts_read_only :: bool
  ts_idempotent :: bool
  ts_risk :: tool_risk
  ts_capabilities :: "ustr list"
  ts_approval_required :: bool

record tool_context =
  tc_invocation_id :: ustr
  tc_conversation :: conversation_key
  tc_actor_identity_id :: ustr
  tc_granted_capabilities :: "ustr list"
  tc_correlation_id :: ustr

record tool_error =
  te_code :: ustr
  te_message :: ustr
  te_retryable :: bool
  te_details :: "(ustr, frozen) dict"

record tool_result =
  tr_ok :: bool
  tr_data :: "(ustr, frozen) dict option"
  tr_error :: "tool_error option"

text \<open>\<open>validate_outcome\<close>: success has data and no error, failure an error and no data.\<close>

definition valid_outcome :: "tool_result \<Rightarrow> bool" where
  "valid_outcome r \<longleftrightarrow>
     \<not> (tr_ok r \<and> (tr_data r = None \<or> tr_error r \<noteq> None)) \<and>
     \<not> (\<not> tr_ok r \<and> (tr_data r \<noteq> None \<or> tr_error r = None))"

definition tool_success :: "(ustr, json) dict \<Rightarrow> tool_result" where
  "tool_success d = \<lparr>tr_ok = True, tr_data = Some (freeze_json_object d), tr_error = None\<rparr>"

definition tool_failure :: "tool_error \<Rightarrow> tool_result" where
  "tool_failure e = \<lparr>tr_ok = False, tr_data = None, tr_error = Some e\<rparr>"

lemma valid_outcome_success [simp]: "valid_outcome (tool_success d)"
  by (simp add: valid_outcome_def tool_success_def)

lemma valid_outcome_failure [simp]: "valid_outcome (tool_failure e)"
  by (simp add: valid_outcome_def tool_failure_def)

section \<open>Stable keys are injective\<close>

definition valid_text :: "ustr \<Rightarrow> bool" where
  "valid_text s \<longleftrightarrow> (\<forall>c \<in> set s. c < 1114112)"

fun undo_utf8 :: "nat list \<Rightarrow> nat" where
  "undo_utf8 [a] = a"
| "undo_utf8 [a, b] = (a - 192) * 64 + (b - 128)"
| "undo_utf8 [a, b, c] = (a - 224) * 4096 + (b - 128) * 64 + (c - 128)"
| "undo_utf8 [a, b, c, d] = (a - 240) * 262144 + (b - 128) * 4096 + (c - 128) * 64 + (d - 128)"
| "undo_utf8 _ = 0"

lemma undo_utf8: "undo_utf8 (utf8 c) = c"
proof -
  have d: "c div 4096 = c div 64 div 64" "c div 262144 = c div 64 div 64 div 64"
    by (simp_all add: div_mult2_eq [symmetric])
  have e: "c div 64 * 64 + c mod 64 = c" "c div 64 div 64 * 64 + c div 64 mod 64 = c div 64"
    "c div 64 div 64 div 64 * 64 + c div 64 div 64 mod 64 = c div 64 div 64"
    by simp_all
  have "c div 4096 * 4096 + c div 64 mod 64 * 64 + c mod 64 = c"
    unfolding d using e(1,2) by linarith
  moreover have "c div 262144 * 262144 + c div 4096 mod 64 * 4096 + c div 64 mod 64 * 64 + c mod 64 = c"
    unfolding d using e by linarith
  ultimately show ?thesis by (auto simp: utf8_def)
qed

text \<open>The length of an encoding is determined by its first byte.\<close>

lemma utf8_length:
  assumes "c < 1114112" "d < 1114112" and "hd (utf8 c) = hd (utf8 d)"
  shows "length (utf8 c) = length (utf8 d)"
proof -
  have "c < 2048 \<Longrightarrow> c div 64 < 32" "c < 65536 \<Longrightarrow> c div 4096 < 16"
    "d < 2048 \<Longrightarrow> d div 64 < 32" "d < 65536 \<Longrightarrow> d div 4096 < 16" by auto
  then show ?thesis using assms by (auto simp: utf8_def split: if_splits)
qed

lemma utf8_not_Nil [simp]: "utf8 c \<noteq> []"
  by (simp add: utf8_def)

lemma utf8_append_eq:
  assumes "c < 1114112" "d < 1114112" and "utf8 c @ xs = utf8 d @ ys"
  shows "c = d \<and> xs = ys"
proof -
  have "hd (utf8 c) = hd (utf8 d)" using assms(3) by (metis hd_append2 utf8_not_Nil)
  from utf8_length [OF assms(1,2) this] assms(3) have "utf8 c = utf8 d" "xs = ys" by simp_all
  then show ?thesis by (metis undo_utf8)
qed

lemma utf8_bytes: "c < 1114112 \<Longrightarrow> b \<in> set (utf8 c) \<Longrightarrow> b < 256"
proof -
  have "x mod 64 < 64" for x :: nat by simp
  moreover assume "c < 1114112" "b \<in> set (utf8 c)"
  ultimately show ?thesis
    by (auto simp: utf8_def split: if_splits)
qed

lemma hex_digit_inj: "a < 16 \<Longrightarrow> b < 16 \<Longrightarrow> hex_digit a = hex_digit b \<Longrightarrow> a = b"
  by (auto simp: hex_digit_def split: if_splits)

lemma quote_byte_not_Nil [simp]: "quote_byte b \<noteq> []"
  by (simp add: quote_byte_def)

lemma quote_byte_append_eq:
  assumes "b < 256" "c < 256" and "quote_byte b @ xs = quote_byte c @ ys"
  shows "b = c \<and> xs = ys"
proof (cases "unreserved b \<or> unreserved c")
  case True
  then show ?thesis using assms(3) by (auto simp: quote_byte_def unreserved_def split: if_splits)
next
  case False
  then have "hex_digit (b div 16) = hex_digit (c div 16)" "hex_digit (b mod 16) = hex_digit (c mod 16)"
    and rest: "xs = ys" using assms(3) by (simp_all add: quote_byte_def)
  then have "b div 16 = c div 16" "b mod 16 = c mod 16"
    using assms(1,2) by (auto intro!: hex_digit_inj)
  then show ?thesis using rest by (metis mult_div_mod_eq)
qed

lemma quote_inject:
  assumes "valid_text s" "valid_text t" and "quote s = quote t"
  shows "s = t"
proof -
  have bytes: "set (concat (map utf8 u)) \<subseteq> {..<256}" if "valid_text u" for u
    using that utf8_bytes by (auto simp: valid_text_def)
  have "concat (map quote_byte (concat (map utf8 s))) = concat (map quote_byte (concat (map utf8 t)))"
    using assms(3) by (simp add: quote_def)
  then have eq: "concat (map utf8 s) = concat (map utf8 t)"
  proof (rule concat_map_inj [of "{..<256}" quote_byte, rotated 4])
    show "set (concat (map utf8 s)) \<subseteq> {..<256}" "set (concat (map utf8 t)) \<subseteq> {..<256}"
      using bytes assms(1,2) by blast+
    show "b = c \<and> xs = ys"
      if "b \<in> {..<256}" "c \<in> {..<256}" "quote_byte b @ xs = quote_byte c @ ys" for b c xs ys
      using that by (intro quote_byte_append_eq) simp_all
  qed simp
  then show ?thesis
  proof (rule concat_map_inj [of "{..<1114112}" utf8, rotated 4])
    show "set s \<subseteq> {..<1114112}" "set t \<subseteq> {..<1114112}"
      using assms(1,2) by (auto simp: valid_text_def)
    show "b = c \<and> xs = ys"
      if "b \<in> {..<1114112}" "c \<in> {..<1114112}" "utf8 b @ xs = utf8 c @ ys" for b c xs ys
      using that by (intro utf8_append_eq) simp_all
  qed simp
qed

lemma quote_byte_no_colon: "b < 256 \<Longrightarrow> 58 \<notin> set (quote_byte b)"
  by (auto simp: quote_byte_def hex_digit_def unreserved_def)

lemma quote_no_colon: "valid_text s \<Longrightarrow> 58 \<notin> set (quote s)"
  using quote_byte_no_colon utf8_bytes by (fastforce simp: quote_def valid_text_def)

lemma chat_kind_no_colon: "58 \<notin> set (chat_kind_value k)"
  by (cases k) (auto simp: str_simps)

lemma chat_kind_value_inject [simp]: "chat_kind_value a = chat_kind_value b \<longleftrightarrow> a = b"
  by (cases a; cases b) (auto simp: str_simps)

text \<open>Code points are below 0x110000 in every Python string.\<close>

definition valid_key :: "conversation_key \<Rightarrow> bool" where
  "valid_key k \<longleftrightarrow> valid_text (ck_connection_id k) \<and> valid_text (ck_chat_id k) \<and>
     (case ck_thread_id k of None \<Rightarrow> True | Some t \<Rightarrow> valid_text t)"

lemma stable_key_unique:
  assumes "valid_key k" and "valid_key k'" and "stable_key k = stable_key k'"
  shows "k = k'"
proof -
  let ?rest = "\<lambda>k. case ck_thread_id k of None \<Rightarrow> [48] | Some t \<Rightarrow> 49 # 58 # quote t"
  have form: "stable_key k = [118, 49, 58] @ (quote (ck_connection_id k) @ 58 #
      (chat_kind_value (ck_chat_kind k) @ 58 # (quote (ck_chat_id k) @ 58 # ?rest k)))" for k
    by (simp add: stable_key_def Let_def str_simps split: option.split)
  have q: "58 \<notin> set (quote (ck_connection_id k))" "58 \<notin> set (quote (ck_connection_id k'))"
    "58 \<notin> set (quote (ck_chat_id k))" "58 \<notin> set (quote (ck_chat_id k'))"
    using assms(1,2) by (auto simp: valid_key_def quote_no_colon)
  from assms(3) have "quote (ck_connection_id k) @ 58 #
      (chat_kind_value (ck_chat_kind k) @ 58 # (quote (ck_chat_id k) @ 58 # ?rest k))
    = quote (ck_connection_id k') @ 58 #
      (chat_kind_value (ck_chat_kind k') @ 58 # (quote (ck_chat_id k') @ 58 # ?rest k'))"
    unfolding form by simp
  note e1 = before_sep_eq [OF q(1,2) this]
  note e2 = before_sep_eq [OF chat_kind_no_colon chat_kind_no_colon conjunct2 [OF e1]]
  note e3 = before_sep_eq [OF q(3,4) conjunct2 [OF e2]]
  have "ck_connection_id k = ck_connection_id k'" "ck_chat_id k = ck_chat_id k'"
    "ck_chat_kind k = ck_chat_kind k'"
    using e1 e2 e3 assms(1,2) by (auto simp: valid_key_def intro!: quote_inject)
  moreover have "ck_thread_id k = ck_thread_id k'"
    using conjunct2 [OF e3] assms(1,2)
    by (auto simp: valid_key_def intro!: quote_inject split: option.splits)
  ultimately show ?thesis by simp
qed

section \<open>Properties\<close>

text \<open>
  freezing a JSON value and thawing it again gives the value back, and the other way
  round, so nothing is lost when a value crosses a contract.
\<close>

theorem json_round_trip: "thaw_json (freeze_json v) = v \<and> freeze_json (thaw_json w) = w"
  by simp

text \<open>
  the stable key determines the conversation: two conversation keys with the same
  stable key agree in connection, chat kind, chat and thread (a missing thread is told from
  every present one).
\<close>

theorem stable_key_injective:
  assumes "valid_key k" and "valid_key k'" and "stable_key k = stable_key k'"
  shows "k = k'"
  using assms by (rule stable_key_unique)

definition demo_key :: "ustr option \<Rightarrow> conversation_key" where
  "demo_key t = \<lparr>ck_connection_id = lit ''tg:1'', ck_chat_kind = GROUP, ck_chat_id = [228, 8364],
     ck_thread_id = t\<rparr>"

theorem stable_key_injective_witness:
  "stable_key (demo_key None) \<noteq> stable_key (demo_key (Some (lit ''0'')))"
proof
  assume "stable_key (demo_key None) = stable_key (demo_key (Some (lit ''0'')))"
  from stable_key_injective [OF _ _ this] show False
    by (simp add: valid_key_def demo_key_def valid_text_def str_simps)
qed

end
