(* ===== verification/Payload.thy ===== *)
theory Payload
  imports Contracts
begin

text \<open>
  The defensive accessors of \<open>src/mybot/adapters/payload.py\<close> over decoded JSON, and the
  identity helpers of \<open>identity.py\<close>. A payload is the decoded JSON document, so a mapping
  is a \<open>JObj\<close> (its keys are strings already) and a non-string sequence a \<open>JArr\<close>.
\<close>

fun as_string_mapping :: "json \<Rightarrow> (ustr, json) dict option" where
  "as_string_mapping (JObj kvs) = Some kvs"
| "as_string_mapping _ = None"

text \<open>\<open>payload.get(key)\<close>, where a missing key reads as \<open>None\<close>.\<close>

definition payload_get :: "(ustr, json) dict \<Rightarrow> ustr \<Rightarrow> json" where
  "payload_get d k = dict_get d k JNull"

definition get_mapping :: "(ustr, json) dict \<Rightarrow> ustr \<Rightarrow> (ustr, json) dict option" where
  "get_mapping d k = as_string_mapping (payload_get d k)"

definition get_sequence :: "(ustr, json) dict \<Rightarrow> ustr \<Rightarrow> json list" where
  "get_sequence d k = (case payload_get d k of JArr vs \<Rightarrow> vs | _ \<Rightarrow> [])"

definition get_str :: "(ustr, json) dict \<Rightarrow> ustr \<Rightarrow> ustr option" where
  "get_str d k = (case payload_get d k of JStr s \<Rightarrow> Some s | _ \<Rightarrow> None)"

definition get_int :: "(ustr, json) dict \<Rightarrow> ustr \<Rightarrow> int option" where
  "get_int d k = (case payload_get d k of JBool b \<Rightarrow> None | JInt i \<Rightarrow> Some i | _ \<Rightarrow> None)"

definition get_id :: "(ustr, json) dict \<Rightarrow> ustr \<Rightarrow> ustr option" where
  "get_id d k = (case payload_get d k of
       JBool b \<Rightarrow> None
     | JInt i \<Rightarrow> Some (dec_int i)
     | JStr s \<Rightarrow> if strip s \<noteq> [] then Some (strip s) else None
     | _ \<Rightarrow> None)"

text \<open>A decoded document is plain JSON already, so the coercion rebuilds it unchanged.\<close>

fun as_json_value :: "json \<Rightarrow> json" where
  "as_json_value (JObj kvs) = JObj (map (\<lambda>(k, v). (k, as_json_value v)) kvs)"
| "as_json_value (JArr vs) = JArr (map as_json_value vs)"
| "as_json_value v = v"

lemma as_json_value_id [simp]: "as_json_value v = v"
  by (induction v rule: as_json_value.induct) (auto intro!: map_idI)

definition qq_identity :: "ustr \<Rightarrow> ustr" where
  "qq_identity u = lit ''qq:'' @ u"

definition telegram_identity :: "ustr \<Rightarrow> ustr" where
  "telegram_identity u = lit ''telegram:'' @ u"

definition qq_envelope_id :: "ustr \<Rightarrow> ustr \<Rightarrow> ustr" where
  "qq_envelope_id c i = lit ''qq:'' @ c @ lit '':'' @ i"

definition telegram_envelope_id :: "ustr \<Rightarrow> ustr \<Rightarrow> ustr \<Rightarrow> ustr" where
  "telegram_envelope_id c chat i = lit ''telegram:'' @ c @ lit '':'' @ chat @ lit '':'' @ i"

text \<open>A mapping's value at a missing key is no string, number, mapping or sequence.\<close>

lemma get_missing [simp]:
  "map_of d k = None \<Longrightarrow> get_str d k = None"
  "map_of d k = None \<Longrightarrow> get_int d k = None"
  "map_of d k = None \<Longrightarrow> get_id d k = None"
  "map_of d k = None \<Longrightarrow> get_mapping d k = None"
  "map_of d k = None \<Longrightarrow> get_sequence d k = []"
  by (simp_all add: get_str_def get_int_def get_id_def get_mapping_def get_sequence_def
      payload_get_def dict_get_def)

lemma get_id_nonempty: "get_id d k = Some s \<Longrightarrow> s \<noteq> []"
  by (auto simp: get_id_def dec_int_def split: json.splits if_splits)

end
