(* ===== verification/Llm.thy ===== *)
theory Llm
  imports Payload
begin

text \<open>
  The chat-completion client \<open>src/mybot/infrastructure/llm.py\<close>: the message types, their
  wire form, the retry loop and the reading of a response. The HTTP client is a parameter:
  one POST either fails in transport, is cancelled, or yields a status and a body (\<open>None\<close>
  for a body that is not JSON). Sleeping between attempts changes no modelled state.
\<close>

record tool_call =
  tlc_id :: ustr
  tlc_name :: ustr
  tlc_arguments :: ustr

datatype content_part = TextContentPart ustr | ImageContentPart ustr ustr

text \<open>An image part has its URL and the detail level.\<close>

datatype chat_content = ContentText ustr | ContentParts "content_part list"

record chat_message =
  cm_role :: ustr
  cm_content :: "chat_content option"
  cm_tool_calls :: "tool_call list"
  cm_tool_call_id :: "ustr option"
  cm_name :: "ustr option"

text \<open>The message types strip every string they are given, the message text included.\<close>

fun clean_content :: "chat_content \<Rightarrow> chat_content" where
  "clean_content (ContentText t) = ContentText (strip t)"
| "clean_content (ContentParts ps) = ContentParts ps"

definition plain_message :: "ustr \<Rightarrow> chat_content \<Rightarrow> chat_message" where
  "plain_message role content = \<lparr>cm_role = role, cm_content = Some (clean_content content), cm_tool_calls = [],
     cm_tool_call_id = None, cm_name = None\<rparr>"

record llm_reply =
  lr_text :: ustr
  lr_model :: ustr
  lr_prompt_tokens :: int
  lr_completion_tokens :: int
  lr_tool_calls :: "tool_call list"
  lr_finish_reason :: ustr

text \<open>\<open>LlmError\<close> with its message and \<open>retryable\<close>; any other exception.\<close>

datatype llm_exn = LlmError ustr bool | LlmOther exn

section \<open>Wire form\<close>

fun part_json :: "content_part \<Rightarrow> json" where
  "part_json (TextContentPart t) =
     JObj [(lit ''type'', JStr (lit ''text'')), (lit ''text'', JStr t)]"
| "part_json (ImageContentPart u d) =
     JObj [(lit ''type'', JStr (lit ''image_url'')),
           (lit ''image_url'', JObj [(lit ''url'', JStr u), (lit ''detail'', JStr d)])]"

text \<open>
  A message with tool calls puts its content into the request as it is: text or null. A
  tuple of parts there is not converted, and the JSON encoder then refuses the request.
\<close>

definition call_json :: "tool_call \<Rightarrow> json" where
  "call_json call = JObj
     [(lit ''id'', JStr (tlc_id call)), (lit ''type'', JStr (lit ''function'')),
      (lit ''function'', JObj [(lit ''name'', JStr (tlc_name call)),
                               (lit ''arguments'', JStr (tlc_arguments call))])]"

definition serialize_message :: "chat_message \<Rightarrow> exn + (ustr, json) dict" where
  "serialize_message msg =
     (if cm_tool_calls msg \<noteq> []
      then (let wire = (\<lambda>content. Inr
                  [(lit ''role'', JStr (cm_role msg)), (lit ''content'', content),
                   (lit ''tool_calls'', JArr (map call_json (cm_tool_calls msg)))])
            in case cm_content msg of
                 None \<Rightarrow> wire JNull
               | Some (ContentText t) \<Rightarrow> wire (JStr t)
               | Some (ContentParts ps) \<Rightarrow> Inl (Raised (lit ''TypeError'')))
      else Inr ([(lit ''role'', JStr (cm_role msg)),
            (lit ''content'', case cm_content msg of
                 Some (ContentParts ps) \<Rightarrow> JArr (map part_json ps)
               | Some (ContentText t) \<Rightarrow> JStr t
               | None \<Rightarrow> JStr [])]
           @ (case cm_tool_call_id msg of None \<Rightarrow> [] | Some i \<Rightarrow> [(lit ''tool_call_id'', JStr i)])
           @ (case cm_name msg of None \<Rightarrow> [] | Some n \<Rightarrow> [(lit ''name'', JStr n)])))"

section \<open>Reading a response\<close>

text \<open>\<open>get_str(...) or default\<close>: an empty string is falsy as well.\<close>

definition str_or :: "ustr option \<Rightarrow> ustr \<Rightarrow> ustr" where
  "str_or x d = (case x of None \<Rightarrow> d | Some s \<Rightarrow> if s = [] then d else s)"

definition int_or :: "int option \<Rightarrow> int \<Rightarrow> int" where
  "int_or x d = (case x of None \<Rightarrow> d | Some i \<Rightarrow> if i = 0 then d else i)"

definition dict_or :: "('k, 'v) dict option \<Rightarrow> ('k, 'v) dict" where
  "dict_or x = (case x of None \<Rightarrow> [] | Some d \<Rightarrow> d)"

text \<open>
  \<open>_parse_tool_calls\<close>. Building a \<open>ToolCall\<close> validates its id and name, so an id or name
  that is blank raises pydantic's \<open>ValidationError\<close>.
\<close>

fun parse_tool_calls :: "json list \<Rightarrow> exn + tool_call list" where
  "parse_tool_calls [] = Inr []"
| "parse_tool_calls (raw # rest) =
     (case as_string_mapping raw of
        None \<Rightarrow> parse_tool_calls rest
      | Some call \<Rightarrow>
          let func = dict_or (get_mapping call (lit ''function''))
          in (case (get_str call (lit ''id''), get_str func (lit ''name'')) of
                (Some i, Some n) \<Rightarrow>
                  (case (validate_str i, validate_str n) of
                     (Some i', Some n') \<Rightarrow>
                       bindr (parse_tool_calls rest) (\<lambda>calls.
                         Inr (\<lparr>tlc_id = i', tlc_name = n',
                               tlc_arguments = strip (str_or (get_str func (lit ''arguments'')) [])\<rparr>
                              # calls))
                   | _ \<Rightarrow> Inl (Raised (lit ''ValidationError'')))
              | _ \<Rightarrow> parse_tool_calls rest))"

definition message_tool_calls :: "(ustr, json) dict \<Rightarrow> exn + tool_call list" where
  "message_tool_calls msg = (case payload_get msg (lit ''tool_calls'') of
       JArr calls \<Rightarrow> parse_tool_calls calls
     | _ \<Rightarrow> Inr [])"

definition no_content_error :: llm_exn where
  "no_content_error = LlmError (lit ''chat completion contained no message content'') False"

definition parse_reply :: "ustr \<Rightarrow> json \<Rightarrow> llm_exn + llm_reply" where
  "parse_reply model body =
     (let payload = dict_or (as_string_mapping body);
          first = (case payload_get payload (lit ''choices'') of
                     JArr (c # _) \<Rightarrow> as_string_mapping c | _ \<Rightarrow> None);
          message = (case first of None \<Rightarrow> None | Some f \<Rightarrow> get_mapping f (lit ''message''));
          text = (case message of None \<Rightarrow> [] | Some msg \<Rightarrow> strip (str_or (get_str msg (lit ''content'')) []));
          calls = (case message of None \<Rightarrow> Inr [] | Some msg \<Rightarrow> message_tool_calls msg);
          finish = (case first of None \<Rightarrow> lit ''stop''
                    | Some f \<Rightarrow> str_or (get_str f (lit ''finish_reason'')) (lit ''stop''))
      in case calls of
           Inl e \<Rightarrow> Inl (LlmOther e)
         | Inr tool_calls \<Rightarrow>
             if text = [] \<and> tool_calls = [] then Inl no_content_error
             else (let usage = dict_or (get_mapping payload (lit ''usage''))
                   in Inr \<lparr>lr_text = text,
                           lr_model = str_or (get_str payload (lit ''model'')) model,
                           lr_prompt_tokens = int_or (get_int usage (lit ''prompt_tokens'')) 0,
                           lr_completion_tokens = int_or (get_int usage (lit ''completion_tokens'')) 0,
                           lr_tool_calls = tool_calls, lr_finish_reason = finish\<rparr>))"

section \<open>The retry loop\<close>

datatype http_outcome =
    HttpCancelled
  | HttpError ustr
  | HttpOther ustr
  | HttpResponse int "json option"

text \<open>A failed transport (an \<open>httpx.HTTPError\<close>, with its type's name), another exception
  of the call, or a response.\<close>

definition retryable_status :: "int \<Rightarrow> bool" where
  "retryable_status st \<longleftrightarrow> st = 429 \<or> st = 500 \<or> st = 502 \<or> st = 503 \<or> st = 504"

fun complete_loop ::
  "('s \<Rightarrow> http_outcome \<times> 's) \<Rightarrow> ustr \<Rightarrow> nat \<Rightarrow> llm_exn \<Rightarrow> 's \<Rightarrow> (llm_exn + llm_reply) \<times> 's" where
  "complete_loop post model 0 last_error s = (Inl last_error, s)"
| "complete_loop post model (Suc attempts) last_error s =
     (case post s of
        (HttpCancelled, s') \<Rightarrow> (Inl (LlmOther Cancelled), s')
      | (HttpError name, s') \<Rightarrow> complete_loop post model attempts
          (LlmError (lit ''chat completion transport failure: '' @ name) True) s'
      | (HttpOther name, s') \<Rightarrow> (Inl (LlmOther (Raised name)), s')
      | (HttpResponse status body, s') \<Rightarrow>
          if retryable_status status
          then complete_loop post model attempts
                 (LlmError (lit ''chat completion returned HTTP '' @ dec_int status) True) s'
          else if status \<ge> 400
          then (Inl (LlmError (lit ''chat completion rejected with HTTP '' @ dec_int status) False), s')
          else (case body of
                  None \<Rightarrow> (Inl (LlmOther (Raised (lit ''JSONDecodeError''))), s')
                | Some b \<Rightarrow> (parse_reply model b, s')))"

text \<open>\<open>LlmClient.complete\<close> with \<open>max_retries\<close>: \<open>range(max_retries + 1)\<close> attempts.\<close>

definition llm_complete ::
  "('s \<Rightarrow> http_outcome \<times> 's) \<Rightarrow> ustr \<Rightarrow> int \<Rightarrow> 's \<Rightarrow> (llm_exn + llm_reply) \<times> 's" where
  "llm_complete post model max_retries s =
     complete_loop post model (nat (max_retries + 1))
       (LlmError (lit ''chat completion was never attempted'') True) s"

section \<open>Lemmas\<close>

lemma parse_tool_calls_valid:
  "parse_tool_calls raws = Inr calls \<Longrightarrow> c \<in> set calls \<Longrightarrow>
   nonempty_str (tlc_id c) \<and> nonempty_str (tlc_name c)"
proof (induction raws arbitrary: calls)
  case (Cons raw rest)
  then show ?case
    by (auto simp: Let_def bindr_eq_Inr split: option.splits prod.splits)
      (use validate_str_Some in blast)+
qed simp

text \<open>A request log: one entry per POST.\<close>

definition scripted_post :: "(http_outcome list \<times> nat) \<Rightarrow> http_outcome \<times> (http_outcome list \<times> nat)" where
  "scripted_post s = (case s of
       ([], n) \<Rightarrow> (HttpError (lit ''ConnectError''), ([], Suc n))
     | (out # outs, n) \<Rightarrow> (out, (outs, Suc n)))"

text \<open>An outcome after which the loop tries again.\<close>

fun retryable_outcome :: "http_outcome \<Rightarrow> bool" where
  "retryable_outcome (HttpError name) = True"
| "retryable_outcome (HttpResponse status body) = retryable_status status"
| "retryable_outcome _ = False"

lemma complete_loop_retries:
  assumes "\<forall>x \<in> set os. retryable_outcome x"
  shows "\<exists>e. (retry_err = e \<or> (\<exists>msg. e = LlmError msg True)) \<and>
    complete_loop scripted_post model (length os + k) retry_err (os @ rest, n)
    = complete_loop scripted_post model k e (rest, n + length os)"
  using assms
proof (induction os arbitrary: retry_err n)
  case (Cons x os)
  then obtain msg where step: "complete_loop scripted_post model (length (x # os) + k) retry_err ((x # os) @ rest, n)
      = complete_loop scripted_post model (length os + k) (LlmError msg True) (os @ rest, Suc n)"
    by (cases x) (auto simp: scripted_post_def)
  from Cons.IH [of "LlmError msg True" "Suc n"] Cons.prems show ?case unfolding step by auto
qed auto

text \<open>A plain response body, for concrete runs.\<close>

definition text_body :: json where
  "text_body = JObj [(lit ''choices'', JArr [JObj [(lit ''message'', JObj [(lit ''content'', JStr (lit ''done''))])]])]"

lemma text_reply: "parse_reply m text_body = Inr \<lparr>lr_text = lit ''done'', lr_model = m, lr_prompt_tokens = 0,
   lr_completion_tokens = 0, lr_tool_calls = [], lr_finish_reason = lit ''stop''\<rparr>"
  by (simp add: parse_reply_def text_body_def Let_def dict_or_def payload_get_def dict_get_def
    get_mapping_def get_str_def str_or_def message_tool_calls_def str_simps strip_id py_space_def
    int_or_def get_int_def)

section \<open>Properties\<close>

text \<open>
  against a scripted server the client posts once per attempt until an outcome that is
  not worth retrying, and its answer is what that outcome means, provided the retries
  suffice: a good response is parsed, and earlier failures leave no trace.
\<close>

theorem llm_complete_first_final:
  assumes "\<forall>x \<in> set os. retryable_outcome x" and "int (length os) \<le> max_retries"
    and "status < 400"
  shows "llm_complete scripted_post model max_retries (os @ HttpResponse status (Some body) # rest, 0)
       = (parse_reply model body, (rest, Suc (length os)))"
proof -
  have "length os < nat (max_retries + 1)" using assms(2) by linarith
  then obtain k where k: "nat (max_retries + 1) = length os + Suc k"
    by (metis add_Suc_right less_iff_Suc_add)
  have "\<not> retryable_status status" using assms(3) by (auto simp: retryable_status_def)
  with complete_loop_retries [OF assms(1), of _ model "Suc k" "HttpResponse status (Some body) # rest" 0]
    assms(3) show ?thesis
    by (auto simp: llm_complete_def k scripted_post_def)
qed

theorem llm_complete_first_final_witness:
  "llm_complete scripted_post (lit ''m'') 2
     ([HttpError (lit ''ReadTimeout''), HttpResponse 503 None] @
      HttpResponse 200 (Some JNull) # [], 0) = (Inl no_content_error, ([], 3))"
proof -
  have p: "parse_reply m JNull = Inl no_content_error" for m
    by (simp add: parse_reply_def Let_def dict_or_def payload_get_def dict_get_def)
  show ?thesis
    using llm_complete_first_final [of "[HttpError (lit ''ReadTimeout''), HttpResponse 503 None]"
        2 200 "lit ''m''" JNull "[]"]
    by (simp add: retryable_status_def p)
qed

end
