(* ===== verification/Prompt.thy ===== *)
theory Prompt
  imports Llm
begin

text \<open>
  Prompt assembly, \<open>src/mybot/engine/prompt.py\<close>: token estimates, the readable form of an
  envelope, and the window of history that fits the token budget. Token counts are
  integers; \<open>math.ceil(cjk / 1.5)\<close> is the exact ceiling of two thirds (a float quotient of
  small integers rounds to neither side of an integer).
\<close>

section \<open>Token estimates\<close>

text \<open>The code points whose Unicode name starts with HIRAGANA, KATAKANA or HANGUL.\<close>

definition kana_or_hangul :: "nat \<Rightarrow> bool" where
  "kana_or_hangul c \<longleftrightarrow> (\<exists>r \<in> set [(4352, 4607), (12334, 12335), (12353, 12438), (12443, 12543),
     (12593, 12686), (12784, 12799), (43360, 43388), (44032, 55203), (55216, 55238),
     (55243, 55291), (110576, 110579), (110581, 110587), (110589, 110590), (110592, 110593),
     (110879, 110882), (110898, 110898), (110928, 110930), (110933, 110933), (110948, 110951)]. fst r \<le> c \<and> c \<le> snd r)"

definition is_cjk :: "nat \<Rightarrow> bool" where
  "is_cjk c \<longleftrightarrow> (13312 \<le> c \<and> c \<le> 19903) \<or> (19968 \<le> c \<and> c \<le> 40959) \<or>
     (63744 \<le> c \<and> c \<le> 64255) \<or> kana_or_hangul c"

text \<open>The counting loop, over the two counters \<open>cjk\<close> and \<open>latin\<close>.\<close>

fun count_chars :: "ustr \<Rightarrow> int \<Rightarrow> int \<Rightarrow> int \<times> int" where
  "count_chars [] cjk latin = (cjk, latin)"
| "count_chars (c # cs) cjk latin =
     (if is_cjk c then count_chars cs (cjk + 1) latin
      else if \<not> py_space c then count_chars cs cjk (latin + 1)
      else count_chars cs cjk latin)"

definition estimate_tokens :: "ustr \<Rightarrow> int" where
  "estimate_tokens t =
     (let (cjk, latin) = count_chars t 0 0 in max 1 ((2 * cjk + 2) div 3 + (latin + 3) div 4))"

section \<open>The readable form of an envelope\<close>

definition newline :: ustr where
  "newline = [10]"

text \<open>Chinese words of the rendered references: image, quote, file, quoted message,
  sticker, voice message, non-text message.\<close>

definition w_image :: ustr where "w_image = [22270, 29255]"

definition w_quote :: ustr where "w_quote = [24341, 29992]"

definition w_file :: ustr where "w_file = [25991, 20214]"

definition w_quoted :: ustr where "w_quoted = [24341, 29992, 28040, 24687]"

definition w_sticker :: ustr where "w_sticker = [34920, 24773]"

definition w_voice :: ustr where "w_voice = [35821, 38899, 28040, 24687]"

definition w_nontext :: ustr where "w_nontext = [38750, 25991, 26412, 28040, 24687]"

definition bracket :: "ustr \<Rightarrow> ustr" where
  "bracket t = lit ''['' @ t @ lit '']''"

text \<open>\<open>value or default\<close> of an optional string.\<close>

definition or_str :: "ustr option \<Rightarrow> ustr \<Rightarrow> ustr" where
  "or_str x d = (case x of None \<Rightarrow> d | Some s \<Rightarrow> if s = [] then d else s)"

fun segment_reference :: "segment \<Rightarrow> ustr" where
  "segment_reference (FileSegment n u m) = bracket (w_file @ lit '': '' @ n)"
| "segment_reference (ReferenceSegment i l) = bracket (w_quoted @ lit '': '' @ or_str l i)"
| "segment_reference (AtSegment i n) = bracket (lit ''@'' @ or_str n i)"
| "segment_reference (StickerSegment i n) = bracket (w_sticker @ lit '': '' @ or_str n i)"
| "segment_reference _ = bracket w_voice"

fun segment_texts :: "segment list \<Rightarrow> ustr list" where
  "segment_texts [] = []"
| "segment_texts (TextSegment t # segs) = t # segment_texts segs"
| "segment_texts (_ # segs) = segment_texts segs"

definition envelope_text :: "envelope \<Rightarrow> ustr" where
  "envelope_text e = strip (py_join newline (segment_texts (env_segments e)))"

record envelope_prompt =
  ep_summary :: ustr
  ep_content :: chat_content

text \<open>The locals of \<open>envelope_prompt\<close>: summary parts, content parts, pending text.\<close>

record render_state =
  rs_summary :: "ustr list"
  rs_content :: "content_part list"
  rs_pending :: "ustr list"

definition flush_text :: "render_state \<Rightarrow> render_state" where
  "flush_text r =
     (if rs_pending r = [] then r
      else (let text = strip (py_join newline (rs_pending r)); r1 = r\<lparr>rs_pending := []\<rparr>
            in if text \<noteq> [] then r1\<lparr>rs_content := rs_content r1 @ [TextContentPart text]\<rparr> else r1))"

definition add_line :: "ustr \<Rightarrow> ustr \<Rightarrow> render_state \<Rightarrow> render_state" where
  "add_line summary pending r =
     r\<lparr>rs_summary := rs_summary r @ [summary], rs_pending := rs_pending r @ [pending]\<rparr>"

fun render_segment :: "bool \<Rightarrow> segment \<Rightarrow> render_state \<Rightarrow> render_state" where
  "render_segment include_images (TextSegment t) r = add_line t t r"
| "render_segment include_images (ImageSegment url alt_text) r =
     (let label = or_str alt_text w_image;
          short = bracket (w_image @ lit '': '' @ label)
      in if include_images
         then (let r1 = flush_text (r\<lparr>rs_summary := rs_summary r @ [short]\<rparr>)
               in r1\<lparr>rs_content := rs_content r1 @ [ImageContentPart url (lit ''auto'')]\<rparr>)
         else (let reference = (if starts_with (lit ''tg-file://'') url
                                then lit ''Telegram '' @ w_image else url)
               in add_line short
                    (bracket (w_image @ lit '': '' @ label @ lit ''; '' @ w_quote @ lit '': '' @ reference)) r))"
| "render_segment include_images seg r =
     (let readable = segment_reference seg
      in if readable \<noteq> [] then add_line readable readable r else r)"

definition mk_envelope_prompt :: "envelope \<Rightarrow> bool \<Rightarrow> envelope_prompt" where
  "mk_envelope_prompt e include_images =
     (let r = flush_text (fold (render_segment include_images) (env_segments e)
                \<lparr>rs_summary = [], rs_content = [], rs_pending = []\<rparr>);
          text = strip (py_join newline (rs_summary r));
          summary = (if text = [] then bracket w_nontext else text)
      in \<lparr>ep_summary = summary,
          ep_content = (case rs_content r of
              [] \<Rightarrow> ContentText summary
            | [TextContentPart t] \<Rightarrow> ContentText t
            | parts \<Rightarrow> ContentParts parts)\<rparr>)"

section \<open>The history window\<close>

record history_entry =
  he_direction :: ustr
  he_sender :: ustr
  he_text :: ustr
  he_source_id :: "ustr option"

record history_partition =
  hp_kept :: "history_entry list"
  hp_dropped :: "history_entry list"

definition reply_rules :: ustr where
  "reply_rules = lit ''Reply in plain text without markdown headings or bullet lists. '' @
     lit ''Keep replies short: at most three short paragraphs.''"

definition system_content :: "ustr \<Rightarrow> platform \<Rightarrow> chat_kind \<Rightarrow> ustr" where
  "system_content system_prompt plat kind = system_prompt @ newline @ newline @
     lit ''You are chatting on '' @ platform_value plat @ lit '' in a '' @
     ascii_lower (chat_kind_value kind) @ lit '' chat. '' @ reply_rules"

definition outbound :: "history_entry \<Rightarrow> bool" where
  "outbound h \<longleftrightarrow> he_direction h = lit ''outbound''"

definition sender_line :: "ustr \<Rightarrow> ustr \<Rightarrow> ustr" where
  "sender_line sender t = sender @ lit '': '' @ t"

fun partition_loop ::
  "bool \<Rightarrow> int option \<Rightarrow> int \<Rightarrow> history_entry list \<Rightarrow> history_entry list \<Rightarrow> history_partition" where
  "partition_loop grouped max_messages remaining kept [] = \<lparr>hp_kept = kept, hp_dropped = []\<rparr>"
| "partition_loop grouped max_messages remaining kept (entry # rest) =
     (if (case max_messages of None \<Rightarrow> False | Some k \<Rightarrow> int (length kept) \<ge> k)
      then \<lparr>hp_kept = kept, hp_dropped = entry # rest\<rparr>
      else (let content = (if outbound entry \<or> \<not> grouped then he_text entry
                           else sender_line (he_sender entry) (he_text entry));
                cost = estimate_tokens content
            in if cost > remaining then \<lparr>hp_kept = kept, hp_dropped = entry # rest\<rparr>
               else partition_loop grouped max_messages (remaining - cost) (kept @ [entry]) rest))"

definition partition_history ::
  "ustr \<Rightarrow> platform \<Rightarrow> chat_kind \<Rightarrow> history_entry list \<Rightarrow> ustr \<Rightarrow> int \<Rightarrow> int option
     \<Rightarrow> history_partition" where
  "partition_history system_prompt plat kind history inbound_text token_budget max_messages =
     partition_loop (kind \<noteq> DIRECT) max_messages
       (token_budget - estimate_tokens (system_content system_prompt plat kind)
          - estimate_tokens inbound_text) [] history"

text \<open>Building a text part strips its text.\<close>

fun prefix_content :: "chat_content \<Rightarrow> ustr \<Rightarrow> chat_content" where
  "prefix_content (ContentText t) sender = ContentText (sender_line sender t)"
| "prefix_content (ContentParts (TextContentPart t # parts)) sender =
     ContentParts (TextContentPart (strip (sender_line sender t)) # parts)"
| "prefix_content (ContentParts parts) sender =
     ContentParts (TextContentPart (strip (sender @ lit '':'')) # parts)"

definition history_message :: "bool \<Rightarrow> history_entry \<Rightarrow> chat_message" where
  "history_message grouped h =
     (if outbound h then plain_message (lit ''assistant'') (ContentText (he_text h))
      else plain_message (lit ''user'') (ContentText
             (if grouped then sender_line (he_sender h) (he_text h) else he_text h)))"

definition assemble_messages ::
  "ustr \<Rightarrow> platform \<Rightarrow> chat_kind \<Rightarrow> history_entry list \<Rightarrow> ustr \<Rightarrow> ustr \<Rightarrow> int
     \<Rightarrow> chat_content option \<Rightarrow> chat_message list" where
  "assemble_messages system_prompt plat kind history inbound_sender inbound_text token_budget
     inbound_content =
     (let grouped = (kind \<noteq> DIRECT);
          raw_inbound = (case inbound_content of Some c \<Rightarrow> c | None \<Rightarrow> ContentText inbound_text);
          rendered_inbound = (if grouped then prefix_content raw_inbound inbound_sender else raw_inbound);
          partition = partition_history system_prompt plat kind history inbound_text token_budget None;
          window = map (history_message grouped) (hp_kept partition)
      in plain_message (lit ''system'') (ContentText (system_content system_prompt plat kind))
         # rev window @ [plain_message (lit ''user'') rendered_inbound])"

section \<open>Lemmas\<close>

lemma estimate_pos: "1 \<le> estimate_tokens t"
  by (simp add: estimate_tokens_def case_prod_unfold Let_def)

text \<open>Surrounding whitespace costs nothing, so the stripping of message texts does not
  change what they cost.\<close>

lemma is_cjk_range: "is_cjk c \<Longrightarrow> (4352 \<le> c \<and> c \<le> 4607) \<or> 12334 \<le> c"
  unfolding is_cjk_def kana_or_hangul_def by (simp, elim disjE) simp_all

lemma space_not_cjk: "py_space c \<Longrightarrow> \<not> is_cjk c"
proof
  assume "is_cjk c" then have "(4352 \<le> c \<and> c \<le> 4607) \<or> 12334 \<le> c" by (rule is_cjk_range)
  moreover assume "py_space c"
  then have "c \<le> 160 \<or> (5760 \<le> c \<and> c \<le> 12288)"
    unfolding py_space_def by (elim disjE) simp_all
  ultimately show False by linarith
qed

lemma count_chars_append:
  "count_chars (s @ t) a b = count_chars t (fst (count_chars s a b)) (snd (count_chars s a b))"
  by (induction s arbitrary: a b) auto

lemma count_chars_spaces: "\<forall>c \<in> set s. py_space c \<Longrightarrow> count_chars s a b = (a, b)"
  by (induction s) (auto simp: space_not_cjk)

lemma estimate_strip [simp]: "estimate_tokens (strip t) = estimate_tokens t"
proof -
  have l: "count_chars (lstrip s) a b = count_chars s a b" for s a b
  proof -
    have "count_chars (takeWhile py_space s @ lstrip s) a b = count_chars (lstrip s) a b"
      unfolding count_chars_append
      by (subst (1 2) count_chars_spaces) (auto dest: set_takeWhileD)
    then show ?thesis by (simp add: lstrip_def)
  qed
  have "count_chars (rstrip s) a b = count_chars s a b" for s a b
  proof -
    obtain u where u: "s = rstrip s @ u" "\<forall>c \<in> set u. py_space c"
      using rstrip_prefix by blast
    have "count_chars (rstrip s @ u) a b = count_chars (rstrip s) a b"
      unfolding count_chars_append by (simp add: count_chars_spaces u(2))
    with u(1) show ?thesis by (metis (no_types))
  qed
  then show ?thesis by (simp add: estimate_tokens_def strip_def l)
qed

definition entry_cost :: "bool \<Rightarrow> history_entry \<Rightarrow> int" where
  "entry_cost grouped h = estimate_tokens
     (if outbound h \<or> \<not> grouped then he_text h else sender_line (he_sender h) (he_text h))"

abbreviation total_cost :: "bool \<Rightarrow> history_entry list \<Rightarrow> int" where
  "total_cost grouped hs \<equiv> sum_list (map (entry_cost grouped) hs)"

text \<open>What the loop has done when it stops after \<open>k\<close> entries, and why it stopped.\<close>

lemma partition_loop_spec:
  "\<exists>k \<le> length hs. partition_loop g m r kept hs = \<lparr>hp_kept = kept @ take k hs, hp_dropped = drop k hs\<rparr>
     \<and> (k = 0 \<or> total_cost g (take k hs) \<le> r)
     \<and> (\<forall>mm. m = Some mm \<longrightarrow> k = 0 \<or> int (length kept + k) \<le> mm)
     \<and> (k < length hs \<longrightarrow> (\<exists>mm. m = Some mm \<and> mm \<le> int (length kept + k))
          \<or> total_cost g (take (Suc k) hs) > r)"
proof (induction hs arbitrary: r kept)
  case (Cons h hs)
  let ?full = "case m of None \<Rightarrow> False | Some k \<Rightarrow> int (length kept) \<ge> k"
  show ?case
  proof (cases "?full \<or> entry_cost g h > r")
    case True
    then show ?thesis
      by (intro exI [of _ 0]) (auto simp: entry_cost_def Let_def split: option.splits)
  next
    case False
    then have step: "partition_loop g m r kept (h # hs)
        = partition_loop g m (r - entry_cost g h) (kept @ [h]) hs"
      by (auto simp: entry_cost_def Let_def split: option.splits)
    from Cons.IH [of "r - entry_cost g h" "kept @ [h]"] obtain k where k: "k \<le> length hs"
      "partition_loop g m (r - entry_cost g h) (kept @ [h]) hs
        = \<lparr>hp_kept = (kept @ [h]) @ take k hs, hp_dropped = drop k hs\<rparr>"
      "k = 0 \<or> total_cost g (take k hs) \<le> r - entry_cost g h"
      "\<forall>mm. m = Some mm \<longrightarrow> k = 0 \<or> int (length (kept @ [h]) + k) \<le> mm"
      "k < length hs \<longrightarrow> (\<exists>mm. m = Some mm \<and> mm \<le> int (length (kept @ [h]) + k))
          \<or> total_cost g (take (Suc k) hs) > r - entry_cost g h" by blast
    show ?thesis
      unfolding step using k False
      by (intro exI [of _ "Suc k"]) (auto simp: split: option.splits)
  qed
qed simp

lemma partition_history_appends:
  "hp_kept (partition_history sp p c hs t b m) @ hp_dropped (partition_history sp p c hs t b m) = hs"
  using partition_loop_spec [of hs "c \<noteq> DIRECT" m _ "[]"]
  unfolding partition_history_def by (metis append_Nil append_take_drop_id history_partition.select_convs)

text \<open>The tokens of a text message.\<close>

definition message_tokens :: "chat_message \<Rightarrow> int" where
  "message_tokens msg = (case cm_content msg of Some (ContentText t) \<Rightarrow> estimate_tokens t | _ \<Rightarrow> 0)"

lemma message_tokens_history: "message_tokens (history_message g h) = entry_cost g h"
  by (auto simp: message_tokens_def history_message_def entry_cost_def plain_message_def)

lemma message_tokens_system: "message_tokens (plain_message role (ContentText t)) = estimate_tokens t"
  by (simp add: message_tokens_def plain_message_def)

text \<open>The images a list of content parts shows, in order.\<close>

fun part_images :: "content_part list \<Rightarrow> ustr list" where
  "part_images [] = []"
| "part_images (ImageContentPart u d # ps) = u # part_images ps"
| "part_images (_ # ps) = part_images ps"

fun segment_images :: "segment list \<Rightarrow> ustr list" where
  "segment_images [] = []"
| "segment_images (ImageSegment u a # segs) = u # segment_images segs"
| "segment_images (_ # segs) = segment_images segs"

lemma part_images_append [simp]: "part_images (ps @ qs) = part_images ps @ part_images qs"
  by (induction ps rule: part_images.induct) auto

lemma part_images_flush [simp]: "part_images (rs_content (flush_text r)) = part_images (rs_content r)"
  by (simp add: flush_text_def Let_def)

lemma fold_images:
  "part_images (rs_content (fold (render_segment True) segs r))
     = part_images (rs_content r) @ segment_images segs"
  by (induction segs arbitrary: r rule: segment_images.induct)
    (simp_all add: add_line_def Let_def)

lemma fold_no_images:
  "rs_content (fold (render_segment False) segs r) = rs_content r"
proof (induction segs arbitrary: r)
  case (Cons seg segs)
  then show ?case by (cases seg) (simp_all add: add_line_def Let_def)
qed simp

definition content_images :: "chat_content \<Rightarrow> ustr list" where
  "content_images c = (case c of ContentText t \<Rightarrow> [] | ContentParts ps \<Rightarrow> part_images ps)"

lemma prompt_images:
  "content_images (ep_content (mk_envelope_prompt e True)) = segment_images (env_segments e) \<and>
   (\<exists>t. ep_content (mk_envelope_prompt e False) = ContentText t)"
proof
  let ?r = "flush_text (fold (render_segment True) (env_segments e)
                \<lparr>rs_summary = [], rs_content = [], rs_pending = []\<rparr>)"
  have "part_images (rs_content ?r) = segment_images (env_segments e)"
    by (simp add: fold_images)
  moreover have "content_images (case ps of [] \<Rightarrow> ContentText u | [TextContentPart t] \<Rightarrow> ContentText t
      | parts \<Rightarrow> ContentParts parts) = part_images ps" for ps u
    by (simp add: content_images_def split: list.splits content_part.splits)
  ultimately show "content_images (ep_content (mk_envelope_prompt e True)) = segment_images (env_segments e)"
    by (simp add: mk_envelope_prompt_def Let_def)
  let ?q = "fold (render_segment False) (env_segments e)
                \<lparr>rs_summary = [], rs_content = [], rs_pending = []\<rparr>"
  have "rs_content ?q = []" by (simp add: fold_no_images)
  then have "rs_content (flush_text ?q) = [] \<or> (\<exists>t. rs_content (flush_text ?q) = [TextContentPart t])"
    by (simp add: flush_text_def Let_def)
  then show "\<exists>t. ep_content (mk_envelope_prompt e False) = ContentText t"
    by (auto simp: mk_envelope_prompt_def Let_def)
qed

section \<open>Properties\<close>

text \<open>
  the partition of the history is exact and greedy. Kept and dropped entries together
  are the history in order, the kept ones fit what the system prompt and the inbound text
  leave of the budget (and the message limit), and when something is dropped then the next
  entry would have broken the budget or the limit was reached.
\<close>

theorem partition_is_greedy:
  "let r = budget - estimate_tokens (system_content sp plat kind) - estimate_tokens inbound;
       cost = (\<lambda>hs. sum_list (map (entry_cost (kind \<noteq> DIRECT)) hs))
   in \<exists>k \<le> length history.
        partition_history sp plat kind history inbound budget limit
          = \<lparr>hp_kept = take k history, hp_dropped = drop k history\<rparr> \<and>
        (k = 0 \<or> cost (take k history) \<le> r) \<and>
        (\<forall>n. limit = Some n \<longrightarrow> k = 0 \<or> int k \<le> n) \<and>
        (k < length history \<longrightarrow>
           (\<exists>n. limit = Some n \<and> n \<le> int k) \<or> cost (take (Suc k) history) > r)"
  using partition_loop_spec [of history "kind \<noteq> DIRECT" limit
      "budget - estimate_tokens (system_content sp plat kind) - estimate_tokens inbound" "[]"]
  by (auto simp: partition_history_def Let_def)

theorem partition_is_greedy_witness:
  "\<exists>k. partition_history [] SANDBOX DIRECT [] [] 100 (Some 5)
     = \<lparr>hp_kept = take k [], hp_dropped = drop k []\<rparr>"
  using partition_is_greedy [of 100 "[]" SANDBOX DIRECT "[]" "[]" "Some 5"]
  unfolding Let_def by blast

text \<open>
  the assembled prompt is the system message, the kept history oldest first and the
  inbound message; whenever any history is included, the system message, the history as it
  is sent and the inbound text together stay within the token budget.
\<close>

theorem assembled_prompt_fits:
  assumes "assemble_messages sp plat kind history sender inbound budget content = msgs"
    and "length msgs > 2"
  shows "\<exists>window lastm. msgs = plain_message (lit ''system'') (ContentText (system_content sp plat kind))
            # window @ [lastm]
      \<and> (\<exists>k. window = rev (map (history_message (kind \<noteq> DIRECT)) (take k history)))
      \<and> sum_list (map message_tokens (butlast msgs)) + estimate_tokens inbound \<le> budget"
proof -
  let ?g = "kind \<noteq> DIRECT"
  let ?r = "budget - estimate_tokens (system_content sp plat kind) - estimate_tokens inbound"
  obtain k where k: "partition_loop ?g None ?r [] history
      = \<lparr>hp_kept = take k history, hp_dropped = drop k history\<rparr>"
    "k = 0 \<or> total_cost ?g (take k history) \<le> ?r"
    using partition_loop_spec [of history ?g None ?r "[]"] by auto
  let ?window = "rev (map (history_message ?g) (take k history))"
  obtain lastm where m: "msgs = plain_message (lit ''system'')
      (ContentText (system_content sp plat kind)) # ?window @ [lastm]"
    using assms(1) k(1) by (auto simp: assemble_messages_def partition_history_def Let_def)
  have "k \<noteq> 0" using assms(2) m by auto
  moreover have "sum_list (map message_tokens ?window) = total_cost ?g (take k history)"
    by (simp add: message_tokens_history comp_def rev_map [symmetric])
  ultimately have "sum_list (map message_tokens (butlast msgs)) + estimate_tokens inbound \<le> budget"
    using k(2) by (simp add: m butlast_append message_tokens_system)
  with m show ?thesis by blast
qed

definition demo_history :: "history_entry list" where
  "demo_history =
     [\<lparr>he_direction = lit ''outbound'', he_sender = lit ''bot'', he_text = lit ''hi'', he_source_id = None\<rparr>]"

theorem assembled_prompt_fits_witness:
  "let sys = estimate_tokens (system_content [] SANDBOX DIRECT)
   in sum_list (map message_tokens (butlast
        (assemble_messages [] SANDBOX DIRECT demo_history [] (lit ''yo'') (sys + 2) None))) \<le> sys + 1"
proof -
  have "estimate_tokens (lit ''hi'') = 1" "estimate_tokens (lit ''yo'') = 1"
    by (simp_all add: str_simps estimate_tokens_def is_cjk_def kana_or_hangul_def py_space_def)
  then show ?thesis
    using assembled_prompt_fits [of "[]" SANDBOX DIRECT demo_history "[]" "lit ''yo''"
        "estimate_tokens (system_content [] SANDBOX DIRECT) + 2" None, OF refl]
    by (simp add: assemble_messages_def partition_history_def demo_history_def outbound_def Let_def)
qed

text \<open>
  what the model sees of an envelope: with images, exactly the images of the message
  in their order; without them plain text only.
\<close>

theorem envelope_images_preserved:
  "content_images (ep_content (mk_envelope_prompt e True)) = segment_images (env_segments e) \<and>
   (\<exists>t. ep_content (mk_envelope_prompt e False) = ContentText t)"
  by (rule prompt_images)


end
