(* ===== verification/TurnPolicy.thy ===== *)
theory TurnPolicy
  imports Prompt
begin

text \<open>
  Rule-based routing of one inbound message, \<open>src/mybot/engine/turn_policy.py\<close>. Python's
  \<open>str.lower\<close> is the parameter \<open>lower\<close>.
\<close>

text \<open>\<open>text.split(maxsplit=1)[0]\<close> of a text with a visible character.\<close>

definition first_token :: "ustr \<Rightarrow> ustr" where
  "first_token t = takeWhile (\<lambda>c. \<not> py_space c) (lstrip t)"

fun first_command :: "(ustr \<Rightarrow> ustr) \<Rightarrow> segment list \<Rightarrow> ustr option" where
  "first_command lower [] = None"
| "first_command lower (TextSegment t # segs) =
     (let text = strip t
      in if \<not> starts_with (lit ''/'') text then None
         else (let token = lower (drop 1 (first_token text))
               in if token = [] then None else Some token))"
| "first_command lower (_ # segs) = first_command lower segs"

definition extract_command :: "(ustr \<Rightarrow> ustr) \<Rightarrow> envelope \<Rightarrow> ustr option" where
  "extract_command lower e = first_command lower (env_segments e)"

definition decision :: "turn_action \<Rightarrow> ustr \<Rightarrow> turn_trigger \<Rightarrow> turn_decision" where
  "decision action reason trigger =
     \<lparr>td_action = action, td_reason = reason, td_confidence = 1, td_trigger = trigger\<rparr>"

definition replied_to_own :: "envelope \<Rightarrow> bool \<Rightarrow> ustr list \<Rightarrow> bool" where
  "replied_to_own e replies_to_self own_ids \<longleftrightarrow> replies_to_self \<or>
     (case env_reply_to_message_id e of None \<Rightarrow> False | Some i \<Rightarrow> i \<in> set own_ids)"

definition decide_turn ::
  "(ustr \<Rightarrow> ustr) \<Rightarrow> envelope \<Rightarrow> bool \<Rightarrow> bool \<Rightarrow> ustr list \<Rightarrow> turn_decision" where
  "decide_turn lower e mentions_self replies_to_self own_ids =
     (let command = extract_command lower e;
          replied = replied_to_own e replies_to_self own_ids
      in if env_chat_kind e = DIRECT
         then (case command of
                 Some c \<Rightarrow> decision DIRECT_REPLY (lit ''direct chat command /'' @ c) COMMAND
               | None \<Rightarrow> decision AGENT (lit ''direct chats are always answered by the agent'')
                           DIRECT_MESSAGE)
         else (case command of
                 Some c \<Rightarrow> decision DIRECT_REPLY (lit ''group command /'' @ c) COMMAND
               | None \<Rightarrow>
                   if mentions_self then decision AGENT (lit ''the bot was mentioned'') MENTION
                   else if replied then decision AGENT
                          (lit ''the message replies to one of the bot's messages'') REPLY
                   else decision IGNORE
                          (lit ''group message without mention, reply, or command'') POLICY))"

section \<open>Properties\<close>

lemma first_command_head:
  "first_command lower segs = Some c \<Longrightarrow>
     c \<noteq> [] \<and> (\<exists>t. segment_texts segs \<noteq> [] \<and> hd (segment_texts segs) = t \<and>
        starts_with (lit ''/'') (strip t) \<and> c = lower (drop 1 (first_token (strip t))))"
  by (induction lower segs rule: first_command.induct)
    (auto simp: Let_def split: if_splits)

text \<open>
  routing is decided by addressing evidence alone. Only the first text segment can be a
  command and a command always gets a direct reply; every other direct message goes to the
  agent; a group message goes to the agent exactly when it mentions the bot or replies to
  one of its messages, and is ignored otherwise.
\<close>

theorem routing_table:
  "let d = decide_turn lower e mentions replies own;
       command = extract_command lower e;
       addressed = (mentions \<or> replied_to_own e replies own)
   in (td_action d = DIRECT_REPLY \<longleftrightarrow> command \<noteq> None) \<and>
      (td_action d = AGENT \<longleftrightarrow> command = None \<and> (env_chat_kind e = DIRECT \<or> addressed)) \<and>
      (td_action d = IGNORE \<longleftrightarrow> command = None \<and> env_chat_kind e \<noteq> DIRECT \<and> \<not> addressed) \<and>
      (td_trigger d = COMMAND \<longleftrightarrow> td_action d = DIRECT_REPLY) \<and>
      (\<forall>c. command = Some c \<longrightarrow> c \<noteq> [] \<and>
         starts_with (lit ''/'') (strip (hd (segment_texts (env_segments e)))))"
  using first_command_head [of lower "env_segments e"]
  by (auto simp: decide_turn_def Let_def decision_def extract_command_def split: option.splits)

definition demo_envelope :: "chat_kind \<Rightarrow> segment list \<Rightarrow> envelope" where
  "demo_envelope kind segs = \<lparr>env_id = lit ''e1'', env_connection_id = lit ''c1'',
     env_platform = SANDBOX, env_chat_kind = kind, env_chat_id = lit ''chat'', env_thread_id = None,
     env_sender_identity_id = lit ''u1'', env_occurred_at = 0, env_segments = segs,
     env_reply_to_message_id = None, env_raw_ref = None, env_trace_id = lit ''t1'',
     env_ephemeral = False\<rparr>"

theorem routing_table_witness:
  "td_action (decide_turn ascii_lower (demo_envelope GROUP [TextSegment (lit ''/PING now'')])
     False False []) = DIRECT_REPLY \<and>
   td_action (decide_turn ascii_lower (demo_envelope GROUP [TextSegment (lit ''hello'')])
     False False []) = IGNORE"
proof -
  have "extract_command ascii_lower (demo_envelope GROUP [TextSegment (lit ''/PING now'')]) \<noteq> None"
    "extract_command ascii_lower (demo_envelope GROUP [TextSegment (lit ''hello'')]) = None"
    by (simp_all add: extract_command_def demo_envelope_def str_simps strip_def lstrip_def
        rstrip_def py_space_def starts_with_def first_token_def ascii_lower_def)
  moreover have "\<not> replied_to_own (demo_envelope GROUP [TextSegment (lit ''hello'')]) False []"
    "env_chat_kind (demo_envelope GROUP [TextSegment (lit ''hello'')]) \<noteq> DIRECT"
    by (simp_all add: replied_to_own_def demo_envelope_def)
  ultimately show ?thesis
    using routing_table [of ascii_lower _ False False "[]"] unfolding Let_def by meson
qed

end
