(* ===== verification/Guards.thy ===== *)
theory Guards
  imports Budget TurnPolicy
begin

text \<open>
  The abuse and cost guards \<open>src/mybot/engine/guards.py\<close>: loop safety, per-minute rate
  limits, the input cap and the group cooldown. The counters are any backend with
  \<open>increment\<close> and \<open>acquire_once\<close>; \<open>recent\<close> is the conversation's recent texts for a given
  limit, as direction and text; \<open>minute\<close> is the current minute as the code formats it.
\<close>

record inbound_event =
  ie_envelope :: envelope
  ie_mentions_self :: bool
  ie_replies_to_self :: bool
  ie_sender_is_bot :: bool

datatype verdict_kind = V_allow | V_ignore | V_refuse

record guard_verdict =
  gv_kind :: verdict_kind
  gv_reason :: ustr
  gv_refusal_text :: ustr

record turn_guards =
  tg_user_per_minute :: int
  tg_chat_per_minute :: int
  tg_group_cooldown_seconds :: real
  tg_input_max_chars :: int
  tg_loop_guard_enabled :: bool
  tg_key_prefix :: ustr

definition rate_limit_refusal :: ustr where
  "rate_limit_refusal = lit ''You're sending messages faster than I can reasonably answer '' @
     [8212] @ lit '' I'll stay quiet for a bit. Please slow down.''"

definition input_too_long_refusal :: ustr where
  "input_too_long_refusal = lit ''That message is too long for me to take in one turn. '' @
     lit ''Please split it into smaller parts.''"

definition echo_window :: nat where
  "echo_window = 5"

definition guard_allow :: guard_verdict where
  "guard_allow = \<lparr>gv_kind = V_allow, gv_reason = [], gv_refusal_text = []\<rparr>"

definition guard_ignore :: "ustr \<Rightarrow> guard_verdict" where
  "guard_ignore reason = \<lparr>gv_kind = V_ignore, gv_reason = reason, gv_refusal_text = []\<rparr>"

definition guard_refuse :: "ustr \<Rightarrow> ustr \<Rightarrow> guard_verdict" where
  "guard_refuse reason text = \<lparr>gv_kind = V_refuse, gv_reason = reason, gv_refusal_text = text\<rparr>"

definition counter_verdict ::
  "'s counter_incr \<Rightarrow> ustr \<Rightarrow> int \<Rightarrow> ustr \<Rightarrow> 's \<Rightarrow> guard_verdict option \<times> 's" where
  "counter_verdict incr key limit label s =
     (if limit \<le> 0 then (None, s)
      else (let (count, s') = incr key 1 120 s
            in if count \<le> limit then (None, s')
               else if count = limit + 1 then (Some (guard_refuse label rate_limit_refusal), s')
               else (Some (guard_ignore (label @ lit '' exceeded'')), s')))"

definition is_echo :: "(nat \<Rightarrow> (ustr \<times> ustr) list) \<Rightarrow> envelope \<Rightarrow> bool" where
  "is_echo recent e =
     (let inbound = strip (envelope_text e)
      in if inbound = [] then False
         else (let rows = recent (echo_window * 2);
                   recent_outbound = take echo_window
                     (map (\<lambda>row. strip (snd row)) (filter (\<lambda>row. fst row = lit ''outbound'') rows))
               in inbound \<in> set recent_outbound))"

definition user_key :: "turn_guards \<Rightarrow> envelope \<Rightarrow> ustr \<Rightarrow> ustr" where
  "user_key tg e minute =
     tg_key_prefix tg @ lit '':user:'' @ env_sender_identity_id e @ lit '':'' @ minute"

definition chat_key :: "turn_guards \<Rightarrow> ustr \<Rightarrow> ustr \<Rightarrow> ustr" where
  "chat_key tg skey minute = tg_key_prefix tg @ lit '':chat:'' @ skey @ lit '':'' @ minute"

definition cooldown_key :: "turn_guards \<Rightarrow> ustr \<Rightarrow> ustr" where
  "cooldown_key tg skey = tg_key_prefix tg @ lit '':cooldown:'' @ skey"

text \<open>The last stage, for turns that go to the agent.\<close>

definition agent_guard ::
  "(ustr \<Rightarrow> int \<Rightarrow> 's \<Rightarrow> bool \<times> 's) \<Rightarrow> turn_guards \<Rightarrow> envelope \<Rightarrow> ustr \<Rightarrow> 's \<Rightarrow> guard_verdict \<times> 's" where
  "agent_guard acquire tg e skey s =
     (if int (length (envelope_text e)) > tg_input_max_chars tg
      then (guard_refuse (lit ''input over the size cap'') input_too_long_refusal, s)
      else if env_chat_kind e \<noteq> DIRECT \<and> tg_group_cooldown_seconds tg > 0
      then (let (fresh, s') = acquire (cooldown_key tg skey)
                  (max 1 \<lfloor>tg_group_cooldown_seconds tg\<rfloor>) s
            in if \<not> fresh then (guard_ignore (lit ''group cooldown is active''), s')
               else (guard_allow, s'))
      else (guard_allow, s))"

definition guard_check ::
  "'s counter_incr \<Rightarrow> (ustr \<Rightarrow> int \<Rightarrow> 's \<Rightarrow> bool \<times> 's) \<Rightarrow> (nat \<Rightarrow> (ustr \<times> ustr) list) \<Rightarrow>
   turn_guards \<Rightarrow> ustr \<Rightarrow> inbound_event \<Rightarrow> turn_decision \<Rightarrow> ustr \<Rightarrow> 's \<Rightarrow> guard_verdict \<times> 's" where
  "guard_check incr acquire recent tg minute ev d skey s =
     (let e = ie_envelope ev
      in if tg_loop_guard_enabled tg \<and> ie_sender_is_bot ev
         then (guard_ignore (lit ''sender is a bot''), s)
         else if tg_loop_guard_enabled tg \<and> is_echo recent e
         then (guard_ignore (lit ''inbound text mirrors a recent reply''), s)
         else if td_trigger d = COMMAND then (guard_allow, s)
         else (let (user_verdict, s1) = counter_verdict incr (user_key tg e minute)
                      (tg_user_per_minute tg) (lit ''per-user rate limit'') s
               in case user_verdict of Some v \<Rightarrow> (v, s1)
                  | None \<Rightarrow>
                      (let (chat_verdict, s2) = counter_verdict incr (chat_key tg skey minute)
                             (tg_chat_per_minute tg) (lit ''per-chat rate limit'') s1
                       in case chat_verdict of Some v \<Rightarrow> (v, s2)
                          | None \<Rightarrow> if td_action d = AGENT then agent_guard acquire tg e skey s2
                                    else (guard_allow, s2))))"

text \<open>The same check made again and again.\<close>

fun repeat_check :: "nat \<Rightarrow> ('s \<Rightarrow> guard_verdict \<times> 's) \<Rightarrow> 's \<Rightarrow> guard_verdict list \<times> 's" where
  "repeat_check 0 check s = ([], s)"
| "repeat_check (Suc n) check s =
     (let (v, s1) = check s; (vs, s2) = repeat_check n check s1 in (v # vs, s2))"

section \<open>Lemmas from the counter contract\<close>

lemma guard_keys_differ [simp]:
  "user_key tg e minute \<noteq> chat_key tg skey minute'" "chat_key tg skey minute' \<noteq> user_key tg e minute"
  by (simp_all add: user_key_def chat_key_def str_simps)

lemma guard_kinds [simp]:
  "gv_kind guard_allow = V_allow" "gv_kind (guard_ignore r) = V_ignore" "gv_kind (guard_refuse r t) = V_refuse"
  by (simp_all add: guard_allow_def guard_ignore_def guard_refuse_def)

lemma guard_texts [simp]:
  "gv_refusal_text guard_allow = []" "gv_refusal_text (guard_ignore r) = []"
  by (simp_all add: guard_allow_def guard_ignore_def)

text \<open>A turn the checks before and after the rate limits let pass.\<close>

definition unguarded :: "(nat \<Rightarrow> (ustr \<times> ustr) list) \<Rightarrow> turn_guards \<Rightarrow> inbound_event \<Rightarrow> turn_decision \<Rightarrow> bool" where
  "unguarded recent tg ev d \<longleftrightarrow>
     \<not> (tg_loop_guard_enabled tg \<and> (ie_sender_is_bot ev \<or> is_echo recent (ie_envelope ev))) \<and>
     td_trigger d \<noteq> COMMAND \<and>
     (td_action d = AGENT \<longrightarrow> env_chat_kind (ie_envelope ev) = DIRECT \<and>
        int (length (envelope_text (ie_envelope ev))) \<le> tg_input_max_chars tg)"

text \<open>Only a refusal speaks, and a counter never says allow.\<close>

lemma counter_verdict_text:
  "fst (counter_verdict incr key limit label s) = Some v \<Longrightarrow>
     gv_kind v \<noteq> V_allow \<and> (gv_refusal_text v \<noteq> [] \<longleftrightarrow> gv_kind v = V_refuse)"
  by (auto simp: counter_verdict_def guard_refuse_def guard_ignore_def rate_limit_refusal_def
      case_prod_unfold Let_def split: if_splits)

lemma agent_guard_text:
  "gv_refusal_text (fst (agent_guard acquire tg e skey s)) \<noteq> []
     \<longleftrightarrow> gv_kind (fst (agent_guard acquire tg e skey s)) = V_refuse"
  by (simp add: agent_guard_def guard_refuse_def guard_ignore_def guard_allow_def
      input_too_long_refusal_def str_simps case_prod_unfold Let_def)

context counter_backend
begin

lemma counter_verdict_total:
  "total (snd (counter_verdict incr key limit label s)) j =
     total s j + (if j = key \<and> 0 < limit then 1 else 0)"
  using incr_snd_total [of 120 key 1 s] incr_snd_other [of 120 j key 1 s]
  by (auto simp: counter_verdict_def case_prod_unfold Let_def)

lemma counter_verdict_kind:
  assumes "0 < limit"
  shows "map_option gv_kind (fst (counter_verdict incr key limit label s)) =
     (if total s key < limit then None
      else if total s key = limit then Some V_refuse else Some V_ignore)"
  using assms incr_value [of 120 key 1 s]
  by (cases "incr key 1 120 s") (auto simp: counter_verdict_def Let_def)

lemma counter_verdict_pass:
  "limit \<le> 0 \<or> total s key < limit \<Longrightarrow> fst (counter_verdict incr key limit label s) = None"
  using counter_verdict_kind [of limit key label s]
  by (cases "0 < limit") (auto simp: counter_verdict_def)

lemma guard_check_limits:
  assumes "unguarded recent tg ev d" and "0 < tg_user_per_minute tg"
    and "tg_chat_per_minute tg \<le> 0 \<or> tg_user_per_minute tg \<le> tg_chat_per_minute tg"
    and "total s (chat_key tg skey minute) \<le> total s (user_key tg (ie_envelope ev) minute)"
    and "guard_check incr acquire recent tg minute ev d skey s = (v, s')"
  shows "gv_kind v = (if total s (user_key tg (ie_envelope ev) minute) < tg_user_per_minute tg then V_allow
      else if total s (user_key tg (ie_envelope ev) minute) = tg_user_per_minute tg then V_refuse else V_ignore)"
    and "total s' (user_key tg (ie_envelope ev) minute) = total s (user_key tg (ie_envelope ev) minute) + 1"
    and "total s' (chat_key tg skey minute) \<le> total s (chat_key tg skey minute) + 1"
proof -
  let ?u = "user_key tg (ie_envelope ev) minute" and ?c = "chat_key tg skey minute"
  obtain u s1 where u: "counter_verdict incr ?u (tg_user_per_minute tg) (lit ''per-user rate limit'') s = (u, s1)"
    by fastforce
  obtain c s2 where c: "counter_verdict incr ?c (tg_chat_per_minute tg) (lit ''per-chat rate limit'') s1 = (c, s2)"
    by fastforce
  have t1: "total s1 j = total s j + (if j = ?u then 1 else 0)" for j
    using counter_verdict_total [of ?u "tg_user_per_minute tg" "lit ''per-user rate limit''" s j]
      assms(2) by (simp add: u)
  have t2: "total s2 ?u = total s1 ?u" "total s2 ?c \<le> total s1 ?c + 1"
    using counter_verdict_total [of ?c "tg_chat_per_minute tg" "lit ''per-chat rate limit''" s1]
    by (simp_all add: c)
  have k: "map_option gv_kind u = (if total s ?u < tg_user_per_minute tg then None
      else if total s ?u = tg_user_per_minute tg then Some V_refuse else Some V_ignore)"
    using counter_verdict_kind [OF assms(2), of ?u "lit ''per-user rate limit''" s] by (simp add: u)
  have n: "c = None" if "u = None"
  proof -
    have "tg_chat_per_minute tg \<le> 0 \<or> total s1 ?c < tg_chat_per_minute tg"
      using k that assms(3,4) by (auto simp: t1 split: if_splits)
    from counter_verdict_pass [OF this, of "lit ''per-chat rate limit''"] show ?thesis by (simp add: c)
  qed
  have last: "(if td_action d = AGENT then agent_guard acquire tg (ie_envelope ev) skey s2
      else (guard_allow, s2)) = (guard_allow, s2)"
    using assms(1) by (auto simp: unguarded_def agent_guard_def)
  have run: "(v, s') = (case u of Some w \<Rightarrow> (w, s1) | None \<Rightarrow> (guard_allow, s2))"
    using assms(1,5) n by (auto simp: unguarded_def guard_check_def u c last split: option.split)
  show "gv_kind v = (if total s ?u < tg_user_per_minute tg then V_allow
      else if total s ?u = tg_user_per_minute tg then V_refuse else V_ignore)"
    "total s' ?u = total s ?u + 1" "total s' ?c \<le> total s ?c + 1"
    using run k t1 t2 by (auto split: option.splits if_splits)
qed

lemma repeated_checks:
  assumes "unguarded recent tg ev d" and "0 < tg_user_per_minute tg"
    and "tg_chat_per_minute tg \<le> 0 \<or> tg_user_per_minute tg \<le> tg_chat_per_minute tg"
    and "total s (user_key tg (ie_envelope ev) minute) = int k"
    and "total s (chat_key tg skey minute) \<le> int k"
  shows "map gv_kind (fst (repeat_check n (guard_check incr acquire recent tg minute ev d skey) s)) =
    map (\<lambda>i. if int i < tg_user_per_minute tg then V_allow
             else if int i = tg_user_per_minute tg then V_refuse else V_ignore) [k ..< k + n]"
  using assms(4,5)
proof (induction n arbitrary: s k)
  case (Suc n)
  obtain v s' where c: "guard_check incr acquire recent tg minute ev d skey s = (v, s')" by fastforce
  note lim = guard_check_limits [OF assms(1-3) _ c]
  have "map gv_kind (fst (repeat_check n (guard_check incr acquire recent tg minute ev d skey) s'))
    = map (\<lambda>i. if int i < tg_user_per_minute tg then V_allow
             else if int i = tg_user_per_minute tg then V_refuse else V_ignore) [Suc k ..< Suc k + n]"
    using lim Suc.prems by (intro Suc.IH) auto
  moreover have "[k ..< k + Suc n] = k # [Suc k ..< Suc k + n]"
    by (simp add: upt_rec)
  ultimately show ?case using lim(1) Suc.prems c by (simp add: case_prod_unfold Let_def)
qed simp

end

lemma counter_verdict_clock:
  "mb_once (snd (counter_verdict mem_increment key limit label c)) = mb_once c"
  "mb_now (snd (counter_verdict mem_increment key limit label c)) = mb_now c"
  by (simp_all add: counter_verdict_def mem_increment_def case_prod_unfold Let_def)

section \<open>Properties\<close>

text \<open>
  with a per-user limit of L, someone who sends within one minute gets the first L turns
  through, is told once to slow down, and is met with silence after that (for turns that no
  other guard stops, in a chat whose own limit is off or not below L).
\<close>

theorem rate_limit_refuses_once:
  assumes "unguarded recent tg ev d" and "0 < tg_user_per_minute tg"
    and "tg_chat_per_minute tg \<le> 0 \<or> tg_user_per_minute tg \<le> tg_chat_per_minute tg"
    and "mem_total b (user_key tg (ie_envelope ev) minute) = 0"
    and "mem_total b (chat_key tg skey minute) = 0"
  shows "map gv_kind (fst (repeat_check n
      (guard_check mem_increment mem_acquire_once recent tg minute ev d skey) b)) =
    map (\<lambda>i. if int i < tg_user_per_minute tg then V_allow
             else if int i = tg_user_per_minute tg then V_refuse else V_ignore) [0 ..< n]"
  using mem_counter.repeated_checks [of recent tg ev d b minute 0 skey n mem_acquire_once] assms by simp

definition demo_guards :: turn_guards where
  "demo_guards = \<lparr>tg_user_per_minute = 2, tg_chat_per_minute = 5, tg_group_cooldown_seconds = 3,
     tg_input_max_chars = 100, tg_loop_guard_enabled = True, tg_key_prefix = lit ''g''\<rparr>"

definition demo_event :: "chat_kind \<Rightarrow> inbound_event" where
  "demo_event kind = \<lparr>ie_envelope = demo_envelope kind [TextSegment (lit ''hey'')],
     ie_mentions_self = True, ie_replies_to_self = False, ie_sender_is_bot = False\<rparr>"

lemma demo_event_text: "envelope_text (ie_envelope (demo_event kind)) = lit ''hey''"
  by (simp add: demo_event_def demo_envelope_def envelope_text_def str_simps strip_def lstrip_def
      rstrip_def py_space_def)

lemma demo_event_bot: "\<not> ie_sender_is_bot (demo_event kind)"
  by (simp add: demo_event_def)

lemma demo_not_echo: "\<not> is_echo (\<lambda>k. []) (ie_envelope (demo_event kind))"
  by (simp add: is_echo_def Let_def)

theorem rate_limit_refuses_once_witness:
  "map gv_kind (fst (repeat_check 4 (guard_check mem_increment mem_acquire_once (\<lambda>k. []) demo_guards
      (lit ''m'') (demo_event DIRECT) (decision AGENT (lit ''r'') DIRECT_MESSAGE) (lit ''k'')) mem_init))
   = [V_allow, V_allow, V_refuse, V_ignore]"
proof -
  have u: "unguarded (\<lambda>k. []) demo_guards (demo_event DIRECT) (decision AGENT (lit ''r'') DIRECT_MESSAGE)"
    using demo_not_echo [of DIRECT] demo_event_text [of DIRECT]
    by (simp add: unguarded_def decision_def demo_guards_def)
      (simp add: demo_event_def demo_envelope_def)
  show ?thesis
    using rate_limit_refuses_once [OF u, of mem_init "lit ''m''" "lit ''k''" 4]
    by (simp add: demo_guards_def mem_total_def mem_init_def upt_rec)
qed

text \<open>
  loop safety comes first and costs nothing. A bot's message or an echo of a recent
  reply is ignored, and a command is allowed, without touching any counter; whatever the
  verdict, only a refusal carries a text for the user.
\<close>

theorem guards_loop_safety:
  "(tg_loop_guard_enabled tg \<and> (ie_sender_is_bot ev \<or> is_echo recent (ie_envelope ev)) \<longrightarrow>
      gv_kind (fst (guard_check incr acquire recent tg minute ev d skey s)) = V_ignore \<and>
      snd (guard_check incr acquire recent tg minute ev d skey s) = s) \<and>
   (td_trigger d = COMMAND \<longrightarrow> snd (guard_check incr acquire recent tg minute ev d skey s) = s) \<and>
   (gv_refusal_text (fst (guard_check incr acquire recent tg minute ev d skey s)) \<noteq> []
      \<longleftrightarrow> gv_kind (fst (guard_check incr acquire recent tg minute ev d skey s)) = V_refuse)"
proof (intro conjI impI)
  show "gv_refusal_text (fst (guard_check incr acquire recent tg minute ev d skey s)) \<noteq> []
      \<longleftrightarrow> gv_kind (fst (guard_check incr acquire recent tg minute ev d skey s)) = V_refuse"
    using agent_guard_text [of acquire tg "ie_envelope ev" skey]
    by (auto simp: guard_check_def case_prod_unfold Let_def dest: counter_verdict_text
        split: option.split)
qed (auto simp: guard_check_def Let_def)

theorem guards_loop_safety_witness:
  "gv_kind (fst (guard_check mem_increment mem_acquire_once (\<lambda>k. []) demo_guards (lit ''m'')
      (demo_event GROUP\<lparr>ie_sender_is_bot := True\<rparr>) (decision AGENT (lit ''r'') MENTION) (lit ''k'') mem_init))
   = V_ignore"
  using guards_loop_safety [of demo_guards "demo_event GROUP\<lparr>ie_sender_is_bot := True\<rparr>" "\<lambda>k. []"
      mem_increment mem_acquire_once "lit ''m''" "decision AGENT (lit ''r'') MENTION" "lit ''k''" mem_init]
  by (simp add: demo_guards_def)

text \<open>
  the group cooldown. When an agent turn of a group was let through, a further agent
  turn of that conversation is not let through while the cooldown lasts (its key is still
  taken), whoever sends it.
\<close>

theorem group_cooldown_blocks:
  assumes "guard_check mem_increment mem_acquire_once recent tg minute ev d skey b = (v, b')"
    and "gv_kind v = V_allow" and "td_trigger d \<noteq> COMMAND" and "td_action d = AGENT"
    and "env_chat_kind (ie_envelope ev) \<noteq> DIRECT" and "0 < tg_group_cooldown_seconds tg"
    and "td_trigger d2 \<noteq> COMMAND" and "td_action d2 = AGENT"
    and "env_chat_kind (ie_envelope ev2) \<noteq> DIRECT"
    and "mb_now b2 < mb_now b' + 1" and "mb_once b2 = mb_once b'"
  shows "gv_kind (fst (guard_check mem_increment mem_acquire_once recent2 tg minute2 ev2 d2 skey b2)) \<noteq> V_allow"
proof -
  have "\<exists>exp. map_of (mb_once b') (cooldown_key tg skey) = Some exp \<and> mb_now b' + 1 \<le> exp"
  proof -
    obtain c where c: "agent_guard mem_acquire_once tg (ie_envelope ev) skey c = (v, b')"
      using assms(1-4)
      by (auto simp: guard_check_def case_prod_unfold Let_def dest!: counter_verdict_text
          split: option.splits if_splits)
    then show ?thesis using assms(2,5,6)
      by (auto simp: agent_guard_def Let_def mem_acquire_once_def dict_simps
          split: option.splits prod.splits if_splits)
  qed
  then obtain exp where e: "map_of (mb_once b2) (cooldown_key tg skey) = Some exp" "mb_now b2 < exp"
    using assms(10,11) by auto
  have blocked: "gv_kind (fst (agent_guard mem_acquire_once tg (ie_envelope ev2) skey c)) \<noteq> V_allow"
    if "mb_once c = mb_once b2" "mb_now c = mb_now b2" for c
    using that e assms(6,9) by (simp add: agent_guard_def mem_acquire_once_def)
  show ?thesis
    using assms(7,8)
    by (auto simp: blocked counter_verdict_clock guard_check_def case_prod_unfold Let_def dest!: counter_verdict_text
        split: option.splits)
qed

theorem group_cooldown_blocks_witness:
  "let check = guard_check mem_increment mem_acquire_once (\<lambda>k. []) demo_guards (lit ''m'') (demo_event GROUP)
     (decision AGENT (lit ''r'') MENTION) (lit ''k'')
   in gv_kind (fst (check (snd (check mem_init)))) \<noteq> V_allow"
proof -
  let ?d = "decision AGENT (lit ''r'') MENTION"
  let ?check = "guard_check mem_increment mem_acquire_once (\<lambda>k. []) demo_guards (lit ''m'') (demo_event GROUP)
     ?d (lit ''k'')"
  have "int (length (envelope_text (ie_envelope (demo_event GROUP)))) \<le> 100"
    by (simp add: demo_event_text)
  then have "gv_kind (fst (?check mem_init)) = V_allow"
    using demo_not_echo [of GROUP] demo_event_bot [of GROUP]
    by (simp add: guard_check_def demo_guards_def decision_def counter_verdict_def mem_increment_def
        mem_init_def dict_get_def agent_guard_def mem_acquire_once_def case_prod_unfold Let_def
        user_key_def chat_key_def str_simps)
  moreover have "env_chat_kind (ie_envelope (demo_event GROUP)) \<noteq> DIRECT"
    "0 < tg_group_cooldown_seconds demo_guards" "td_trigger ?d \<noteq> COMMAND" "td_action ?d = AGENT"
    by (simp_all add: demo_event_def demo_envelope_def demo_guards_def decision_def)
  ultimately show ?thesis
    using group_cooldown_blocks [of "\<lambda>k. []" demo_guards "lit ''m''" "demo_event GROUP" ?d "lit ''k''"
        mem_init "fst (?check mem_init)" "snd (?check mem_init)" ?d "demo_event GROUP"
        "snd (?check mem_init)"]
    unfolding Let_def by simp
qed

end
