(* ===== verification/ReplyShaping.thy ===== *)
theory ReplyShaping
  imports Prompt
begin

text \<open>
  Shaping a model's text into a reply plan, \<open>src/mybot/engine/reply_shaping.py\<close>, and the
  deterministic replies of \<open>direct_replies.py\<close>. The standard library's JSON decoder is the
  parameter \<open>loads\<close> (\<open>None\<close> where it raises). The result: whatever the model wrote, the
  plan is valid and within the platform limits.
\<close>

section \<open>Lines\<close>

definition line_break :: "nat \<Rightarrow> bool" where
  "line_break c \<longleftrightarrow> (10 \<le> c \<and> c \<le> 13) \<or> (28 \<le> c \<and> c \<le> 30) \<or> c = 133 \<or> c = 8232 \<or> c = 8233"

text \<open>\<open>str.splitlines()\<close>: the current line is collected reversed; a carriage return and a
  line feed after it are one break; no empty line follows a final break.\<close>

fun split_lines :: "ustr \<Rightarrow> ustr \<Rightarrow> ustr list" where
  "split_lines acc [] = (if acc = [] then [] else [rev acc])"
| "split_lines acc (c # cs) =
     (if line_break c
      then rev acc # (case cs of
             d # ds \<Rightarrow> if c = 13 \<and> d = 10 then split_lines [] ds else split_lines [] cs
           | [] \<Rightarrow> [])
      else split_lines (c # acc) cs)"

definition splitlines :: "ustr \<Rightarrow> ustr list" where
  "splitlines t = split_lines [] t"

section \<open>Directives\<close>

definition segment_char_cap :: int where
  "segment_char_cap = 3500"

definition max_rendered_sources :: nat where
  "max_rendered_sources = 5"

definition max_media_segments :: nat where
  "max_media_segments = 4"

definition empty_reply_fallback :: ustr where
  "empty_reply_fallback = [25265, 27465, 44, 32, 36825, 27425, 27809, 33021, 32452, 32455, 22909,
     22238, 22797, 44, 32, 35831, 31245, 21518, 20877, 35797, 12290]"

text \<open>The text between a prefix and a suffix that do not overlap.\<close>

definition between :: "ustr \<Rightarrow> ustr \<Rightarrow> ustr \<Rightarrow> ustr option" where
  "between p q t =
     (if length p + length q \<le> length t \<and> take (length p) t = p \<and> drop (length t - length q) t = q
      then Some (take (length t - length p - length q) (drop (length p) t)) else None)"

text \<open>The pattern \<open>[[media:({.*})]]\<close>: the captured part starts and ends with braces, of
  which there are two, and has no line feed.\<close>

definition media_match :: "ustr \<Rightarrow> ustr option" where
  "media_match t = (case between (lit ''[[media:'') (lit '']]'') t of
       None \<Rightarrow> None
     | Some g \<Rightarrow> if length g \<ge> 2 \<and> hd g = 123 \<and> last g = 125 \<and> 10 \<notin> set g then Some g else None)"

definition meme_char :: "nat \<Rightarrow> bool" where
  "meme_char c \<longleftrightarrow> (97 \<le> c \<and> c \<le> 122) \<or> (48 \<le> c \<and> c \<le> 57) \<or> c = 95 \<or> c = 46 \<or> c = 45"

definition meme_match :: "ustr \<Rightarrow> ustr option" where
  "meme_match t = (case between (lit ''[[meme:'') (lit '']]'') t of
       None \<Rightarrow> None
     | Some g \<Rightarrow> if 1 \<le> length g \<and> length g \<le> 64 \<and> list_all meme_char g then Some g else None)"

text \<open>
  \<open>model_validate\<close> of a segment from a JSON object: the type tag, no extra field, a
  required non-empty string and an optional one that may be null.
\<close>

fun required_field :: "json option \<Rightarrow> ustr option" where
  "required_field (Some (JStr s)) = validate_str s"
| "required_field _ = None"

fun optional_field :: "json option \<Rightarrow> ustr option option" where
  "optional_field None = Some None"
| "optional_field (Some JNull) = Some None"
| "optional_field (Some (JStr s)) = map_option Some (validate_str s)"
| "optional_field _ = None"

definition only_fields :: "ustr list \<Rightarrow> (ustr, json) dict \<Rightarrow> bool" where
  "only_fields names d \<longleftrightarrow> set (map fst d) \<subseteq> set names"

definition validate_image :: "(ustr, json) dict \<Rightarrow> segment option" where
  "validate_image d =
     (if only_fields [lit ''type'', lit ''url'', lit ''alt_text''] d
      then (case (required_field (map_of d (lit ''url'')), optional_field (map_of d (lit ''alt_text''))) of
              (Some u, Some a) \<Rightarrow> Some (ImageSegment u a) | _ \<Rightarrow> None)
      else None)"

definition validate_sticker :: "(ustr, json) dict \<Rightarrow> segment option" where
  "validate_sticker d =
     (if only_fields [lit ''type'', lit ''id'', lit ''name''] d
      then (case (required_field (map_of d (lit ''id'')), optional_field (map_of d (lit ''name''))) of
              (Some i, Some n) \<Rightarrow> Some (StickerSegment i n) | _ \<Rightarrow> None)
      else None)"

definition media_url :: "ustr \<Rightarrow> bool" where
  "media_url u \<longleftrightarrow> starts_with (lit ''https://'') u \<or> starts_with (lit ''http://'') u \<or>
     starts_with (lit ''tg-file://'') u"

definition parse_media :: "(ustr \<Rightarrow> json option) \<Rightarrow> ustr \<Rightarrow> segment option" where
  "parse_media loads raw = (case loads raw of
       Some (JObj payload) \<Rightarrow>
         (let kind = map_of payload (lit ''type'')
          in if kind = Some (JStr (lit ''image''))
             then (case validate_image payload of
                     Some (ImageSegment u a) \<Rightarrow> if media_url u then Some (ImageSegment u a) else None
                   | _ \<Rightarrow> None)
             else if kind = Some (JStr (lit ''sticker'')) then validate_sticker payload
             else None)
     | _ \<Rightarrow> None)"

fun directive_loop ::
  "(ustr \<Rightarrow> json option) \<Rightarrow> ustr list \<Rightarrow> ustr list \<Rightarrow> segment list \<Rightarrow> ustr option
     \<Rightarrow> ustr list \<times> segment list \<times> ustr option" where
  "directive_loop loads [] visible media meme = (visible, media, meme)"
| "directive_loop loads (line # lines) visible media meme =
     (let stripped = strip line;
          parsed = (case media_match stripped of
              Some g \<Rightarrow> if length media < max_media_segments then parse_media loads g else None
            | None \<Rightarrow> None)
      in case parsed of
           Some seg \<Rightarrow> directive_loop loads lines visible (media @ [seg]) meme
         | None \<Rightarrow> (case meme_match stripped of
               Some intent \<Rightarrow> directive_loop loads lines visible media (Some intent)
             | None \<Rightarrow> directive_loop loads lines (visible @ [line]) media meme))"

definition extract_directives ::
  "(ustr \<Rightarrow> json option) \<Rightarrow> ustr \<Rightarrow> ustr \<times> segment list \<times> ustr option" where
  "extract_directives loads t =
     (let (visible, media, meme) = directive_loop loads (splitlines t) [] [] None
      in (strip (py_join newline visible), media, meme))"

section \<open>The plan\<close>

definition ellipsis :: ustr where
  "ellipsis = [8230]"

definition truncate_text :: "int \<Rightarrow> ustr \<Rightarrow> ustr" where
  "truncate_text reserve t =
     (let cap = max 200 (segment_char_cap - reserve)
      in if int (length t) \<le> cap then t else take (nat (cap - 1)) t @ ellipsis)"

fun source_lines :: "nat \<Rightarrow> citation list \<Rightarrow> ustr list" where
  "source_lines index [] = []"
| "source_lines index (c # cs) =
     (if cit_label c = cit_uri c then lit ''['' @ dec index @ lit ''] '' @ cit_uri c
      else lit ''['' @ dec index @ lit ''] '' @ cit_label c @ [32, 8212, 32] @ cit_uri c)
     # source_lines (index + 1) cs"

definition sources_footer :: "citation list \<Rightarrow> ustr" where
  "sources_footer cs = py_join newline ([21442, 32771, 26469, 28304, 58] # source_lines 1 cs)"

definition blank_line :: ustr where
  "blank_line = [10, 10]"

definition reply_paragraphs :: "ustr \<Rightarrow> ustr \<Rightarrow> ustr list" where
  "reply_paragraphs empty_fallback cleaned =
     (let parts = map strip (filter (\<lambda>p. strip p \<noteq> []) (py_split blank_line cleaned));
          paragraphs = (if parts = [] then [empty_fallback] else parts)
      in if length paragraphs > 3
         then [paragraphs ! 0, paragraphs ! 1, py_join blank_line (drop 2 paragraphs)]
         else paragraphs)"

definition with_footer :: "citation list \<Rightarrow> ustr list \<Rightarrow> ustr list" where
  "with_footer rendered paragraphs =
     (if rendered \<noteq> []
      then (let footer = sources_footer rendered;
                lst = truncate_text (int (length footer) + 2) (last paragraphs)
            in butlast paragraphs @ [lst @ blank_line @ footer])
      else paragraphs)"

definition shape_reply ::
  "(ustr \<Rightarrow> json option) \<Rightarrow> ustr \<Rightarrow> capabilities \<Rightarrow> citation list \<Rightarrow> ustr \<Rightarrow> exn + reply_plan" where
  "shape_reply loads t caps citations empty_fallback =
     (let (cleaned, media, meme) = extract_directives loads t;
          paragraphs = reply_paragraphs empty_fallback cleaned;
          rendered = take max_rendered_sources citations;
          segments = map (truncate_text 0) (with_footer rendered paragraphs)
      in mk_reply_plan segments media citations meme (typing_default (cap_typing caps)))"

section \<open>Direct replies\<close>

record readiness =
  rd_status :: ustr
  rd_database :: ustr
  rd_redis :: ustr

definition excerpt_limit :: nat where
  "excerpt_limit = 120"

definition known_commands :: "ustr list" where
  "known_commands = [lit ''/ping'', lit ''/status'', lit ''/forget'']"

definition status_text :: "readiness option \<Rightarrow> ustr" where
  "status_text r = (case r of
       None \<Rightarrow> [29366, 24577, 58, 32, 26242, 26102, 26080, 27861, 33719, 21462, 23601, 32490, 25253, 21578]
     | Some rd \<Rightarrow> [29366, 24577, 58, 32] @ rd_status rd @
         [32, 124, 32, 25968, 25454, 24211, 58, 32] @ rd_database rd @
         lit '' | Redis: '' @ rd_redis rd)"

definition echo_text :: "envelope \<Rightarrow> ustr" where
  "echo_text e =
     (let excerpt = (case segment_texts (env_segments e) of [] \<Rightarrow> [] | t # _ \<Rightarrow> t);
          cut = (if length excerpt > excerpt_limit
                 then take (excerpt_limit - 1) excerpt @ ellipsis else excerpt)
      in if cut \<noteq> [] then [22238, 26174, 58, 32, 34] @ cut @ [34, 32, 40, 35268, 21017, 22238, 22797, 41]
         else [24050, 25910, 21040, 32, 40, 35268, 21017, 22238, 22797, 41])"

definition build_direct_reply ::
  "envelope \<Rightarrow> ustr option \<Rightarrow> readiness option \<Rightarrow> capabilities \<Rightarrow> exn + reply_plan" where
  "build_direct_reply e command rd caps =
     (let t = (case command of
            Some c \<Rightarrow>
              if c = lit ''ping'' then lit ''pong''
              else if c = lit ''status'' then status_text rd
              else [26410, 30693, 21629, 20196, 32, 47] @ c @ [59, 32, 25903, 25345, 30340, 21629, 20196, 58, 32]
                   @ py_join (lit '', '') known_commands
          | None \<Rightarrow> echo_text e)
      in mk_reply_plan [t] [] [] None (typing_default (cap_typing caps)))"

definition forget_reply :: "int option \<Rightarrow> capabilities \<Rightarrow> exn + reply_plan" where
  "forget_reply revoked_count caps =
     (let t = (case revoked_count of
            None \<Rightarrow> [24403, 21069, 37096, 32626, 26410, 21551, 29992, 35760, 24518, 44, 32, 27809, 26377,
                     38656, 35201, 36951, 24536, 30340, 20869, 23481]
          | Some n \<Rightarrow>
              if n = 0
              then [23436, 25104, 58, 32, 27809, 26377, 25214, 21040, 20851, 20110, 20320, 30340, 24050,
                    23384, 35760, 24518]
              else [23436, 25104, 58, 32, 24050, 25764, 38144, 32] @ dec_int n
                   @ [32, 26465, 20851, 20110, 20320, 30340, 35760, 24518])
      in mk_reply_plan [t] [] [] None (typing_default (cap_typing caps)))"

section \<open>Lemmas\<close>

text \<open>A text that starts with a visible character survives stripping and cutting.\<close>

definition head_visible :: "ustr \<Rightarrow> bool" where
  "head_visible t \<longleftrightarrow> t \<noteq> [] \<and> \<not> py_space (hd t)"

lemma head_visible_strip: "head_visible t \<Longrightarrow> strip t \<noteq> []"
  by (auto simp: head_visible_def strip_eq_Nil_iff intro!: bexI [of _ "hd t"])

lemma head_visible_stripped [simp]: "strip t \<noteq> [] \<Longrightarrow> head_visible (strip t)"
  by (simp add: head_visible_def hd_strip)

lemma head_visible_append [simp]: "head_visible t \<Longrightarrow> head_visible (t @ u)"
  by (auto simp: head_visible_def)

lemma head_visible_take: "head_visible t \<Longrightarrow> 0 < k \<Longrightarrow> head_visible (take k t)"
  by (cases t) (auto simp: head_visible_def take_Cons split: nat.split)

lemma head_visible_truncate [simp]: "head_visible t \<Longrightarrow> head_visible (truncate_text r t)"
  by (simp add: truncate_text_def Let_def head_visible_take)

lemma truncate_length: "0 \<le> r \<Longrightarrow> int (length (truncate_text r t)) \<le> max 200 (3500 - r)"
  by (auto simp: truncate_text_def Let_def segment_char_cap_def ellipsis_def)

lemma truncate_id: "int (length t) \<le> 3500 - r \<Longrightarrow> truncate_text r t = t"
  by (auto simp: truncate_text_def Let_def segment_char_cap_def le_max_iff_disj)

lemma join_head_visible: "ps \<noteq> [] \<Longrightarrow> head_visible (hd ps) \<Longrightarrow> head_visible (py_join sep ps)"
  by (cases "(sep, ps)" rule: py_join.cases) auto

lemma reply_paragraphs_spec:
  assumes "head_visible fallback"
  shows "1 \<le> length (reply_paragraphs fallback t)" and "length (reply_paragraphs fallback t) \<le> 3"
    and "\<forall>p \<in> set (reply_paragraphs fallback t). head_visible p"
proof -
  let ?parts = "map strip (filter (\<lambda>p. strip p \<noteq> []) (py_split blank_line t))"
  define ps where "ps = (if ?parts = [] then [fallback] else ?parts)"
  have vis: "\<forall>p \<in> set ps. head_visible p" "ps \<noteq> []"
    using assms by (auto simp: ps_def)
  have ps: "reply_paragraphs fallback t = (if length ps > 3
         then [ps ! 0, ps ! 1, py_join blank_line (drop 2 ps)] else ps)"
    unfolding reply_paragraphs_def ps_def Let_def by (rule refl)
  have "head_visible (py_join blank_line (drop 2 ps))" if "length ps > 3"
    using that vis(1) by (intro join_head_visible) (auto simp: hd_drop_conv_nth)
  then show "\<forall>p \<in> set (reply_paragraphs fallback t). head_visible p"
    using vis by (auto simp: ps)
  show "1 \<le> length (reply_paragraphs fallback t)" "length (reply_paragraphs fallback t) \<le> 3"
    using vis(2) by (simp_all add: ps Suc_le_eq)
qed

lemma with_footer_spec:
  assumes "ps \<noteq> []" and "\<forall>p \<in> set ps. head_visible p"
  shows "length (with_footer cs ps) = length ps" and "\<forall>p \<in> set (with_footer cs ps). head_visible p"
  using assms by (auto simp: with_footer_def Let_def dest: in_set_butlastD)

definition media_ok :: "segment \<Rightarrow> bool" where
  "media_ok seg \<longleftrightarrow> valid_segment seg \<and>
     (case seg of ImageSegment u a \<Rightarrow> media_url u | StickerSegment i n \<Rightarrow> True | _ \<Rightarrow> False)"

lemma required_field_valid: "required_field x = Some s \<Longrightarrow> nonempty_str s"
  by (cases x rule: required_field.cases) (auto intro: validate_str_Some)

lemma optional_field_valid: "optional_field x = Some s \<Longrightarrow> valid_opt s"
  by (cases x rule: optional_field.cases) (auto simp: valid_opt_def intro: validate_str_Some)

lemma parse_media_ok: "parse_media loads g = Some seg \<Longrightarrow> media_ok seg"
  unfolding parse_media_def Let_def validate_image_def validate_sticker_def
  by (auto simp: media_ok_def intro!: required_field_valid optional_field_valid
      split: option.splits json.splits if_splits)

lemma meme_char_visible: "meme_char c \<Longrightarrow> \<not> py_space c"
proof -
  assume "meme_char c"
  then have "45 \<le> c" "c \<le> 122" unfolding meme_char_def by linarith+
  then show ?thesis unfolding py_space_def by simp
qed

lemma meme_match_visible: "meme_match t = Some g \<Longrightarrow> head_visible g"
  by (cases g) (auto simp: meme_match_def head_visible_def meme_char_visible
      split: option.splits if_splits)

lemma directive_loop_spec:
  assumes "directive_loop loads lines visible media meme = (v, md, mi)"
    and "length media \<le> max_media_segments" and "\<forall>m \<in> set media. media_ok m"
    and "\<forall>g. meme = Some g \<longrightarrow> head_visible g"
  shows "length md \<le> max_media_segments \<and> (\<forall>m \<in> set md. media_ok m) \<and> (\<forall>g. mi = Some g \<longrightarrow> head_visible g)"
  using assms
proof (induction loads lines visible media meme rule: directive_loop.induct)
  case (2 loads line lines visible media meme)
  define parsed where "parsed = (case media_match (strip line) of
      Some g \<Rightarrow> if length media < max_media_segments then parse_media loads g else None
    | None \<Rightarrow> None)"
  show ?case
  proof (cases parsed)
    case (Some seg)
    then have "media_ok seg" "length media < max_media_segments"
      by (auto simp: parsed_def split: option.splits if_splits dest: parse_media_ok)
    then show ?thesis
      using Some 2(4-) by (intro "2.IH"(3) [OF refl parsed_def Some])
        (simp_all add: Let_def parsed_def [symmetric])
  next
    case None
    show ?thesis
    proof (cases "meme_match (strip line)")
      case (Some g)
      then show ?thesis
        using None 2(4-) by (intro "2.IH"(2) [OF refl parsed_def None Some])
          (simp_all add: Let_def parsed_def [symmetric] meme_match_visible)
    next
      case no: None
      then show ?thesis
        using None 2(4-) by (intro "2.IH"(1) [OF refl parsed_def None no])
          (simp_all add: Let_def parsed_def [symmetric])
    qed
  qed
qed auto

lemma mk_reply_plan_ok:
  assumes "1 \<le> length ts" "length ts \<le> 3" "\<forall>t \<in> set ts. head_visible t"
    and "\<forall>m \<in> set media. media_ok m" "\<forall>g. meme = Some g \<longrightarrow> head_visible g"
  shows "mk_reply_plan ts media cites meme ty =
     Inr \<lparr>rp_text_segments = map strip ts, rp_media_segments = media, rp_citations = cites,
          rp_meme_intent = map_option strip meme, rp_typing = ty\<rparr>"
proof -
  have "reply_media m" if "media_ok m" for m
    using that by (cases m) (auto simp: media_ok_def)
  then show ?thesis
    using assms by (auto simp: mk_reply_plan_def head_visible_strip split: option.split)
qed

text \<open>The plan that shaping builds, written out.\<close>

lemma shape_reply_eq:
  assumes "nonempty_str fallback"
  obtains cleaned media meme where
    "extract_directives loads t = (cleaned, media, meme)"
    "shape_reply loads t caps cites fallback =
       Inr \<lparr>rp_text_segments = map (\<lambda>p. strip (truncate_text 0 p))
              (with_footer (take 5 cites) (reply_paragraphs fallback cleaned)),
            rp_media_segments = media, rp_citations = cites,
            rp_meme_intent = map_option strip meme, rp_typing = typing_default (cap_typing caps)\<rparr>"
    "length media \<le> 4" "\<forall>m \<in> set media. media_ok m"
proof -
  have fb: "head_visible fallback"
    using assms hd_strip [of fallback] by (auto simp: nonempty_str_iff head_visible_def)
  obtain cleaned media meme where x: "extract_directives loads t = (cleaned, media, meme)"
    by (cases "extract_directives loads t")
  then obtain v where "directive_loop loads (splitlines t) [] [] None = (v, media, meme)"
    by (auto simp: extract_directives_def split: prod.splits)
  from directive_loop_spec [OF this] have dir: "length media \<le> 4" "\<forall>m \<in> set media. media_ok m"
    "\<forall>g. meme = Some g \<longrightarrow> head_visible g"
    by (auto simp: max_media_segments_def)
  let ?ps = "reply_paragraphs fallback cleaned"
  note rp = reply_paragraphs_spec [OF fb, of cleaned]
  then have ne: "?ps \<noteq> []" by auto
  note wf = with_footer_spec [OF ne rp(3), of "take 5 cites"]
  have "mk_reply_plan (map (truncate_text 0) (with_footer (take 5 cites) ?ps)) media cites meme ty =
     Inr \<lparr>rp_text_segments = map strip (map (truncate_text 0) (with_footer (take 5 cites) ?ps)),
       rp_media_segments = media, rp_citations = cites, rp_meme_intent = map_option strip meme,
       rp_typing = ty\<rparr>" for ty
    using rp wf dir by (intro mk_reply_plan_ok) auto
  then show thesis
    using that [OF x _ dir(1,2)] x by (simp add: shape_reply_def max_rendered_sources_def comp_def)
qed

section \<open>Properties\<close>

text \<open>
  whatever text the model wrote and whatever the JSON decoder makes of it, shaping
  succeeds: one to three stripped non-empty texts of at most 3500 characters, at most four
  media segments, all of them valid images with an allowed URL scheme or stickers, and the
  citations unchanged.
\<close>

theorem shape_reply_always_valid:
  assumes "nonempty_str fallback"
  shows "\<exists>plan. shape_reply loads t caps cites fallback = Inr plan \<and>
    1 \<le> length (rp_text_segments plan) \<and> length (rp_text_segments plan) \<le> 3 \<and>
    (\<forall>p \<in> set (rp_text_segments plan). nonempty_str p \<and> length p \<le> 3500) \<and>
    length (rp_media_segments plan) \<le> 4 \<and> (\<forall>m \<in> set (rp_media_segments plan). media_ok m) \<and>
    rp_citations plan = cites"
proof -
  have fb: "head_visible fallback"
    using assms hd_strip [of fallback] by (auto simp: nonempty_str_iff head_visible_def)
  obtain cleaned media meme where eq: "shape_reply loads t caps cites fallback =
       Inr \<lparr>rp_text_segments = map (\<lambda>p. strip (truncate_text 0 p))
              (with_footer (take 5 cites) (reply_paragraphs fallback cleaned)),
            rp_media_segments = media, rp_citations = cites,
            rp_meme_intent = map_option strip meme, rp_typing = typing_default (cap_typing caps)\<rparr>"
    "length media \<le> 4" "\<forall>m \<in> set media. media_ok m"
    using shape_reply_eq [OF assms] by metis
  note rp = reply_paragraphs_spec [OF fb, of cleaned]
  then have ne: "reply_paragraphs fallback cleaned \<noteq> []" by auto
  note wf = with_footer_spec [OF ne rp(3), of "take 5 cites"]
  have "length (strip (truncate_text 0 p)) \<le> 3500" for p
    using truncate_length [of 0 p] length_strip_le [of "truncate_text 0 p"] by simp
  moreover have "nonempty_str (strip (truncate_text 0 p))" if "head_visible p" for p
    using that by (simp add: nonempty_str_iff head_visible_strip)
  ultimately show ?thesis using eq rp wf by simp
qed

definition demo_caps :: capabilities where
  "demo_caps = \<lparr>cap_editing = False, cap_replies = True, cap_typing = True,
     cap_proactive_messages = False, cap_combined_media_text = False, cap_threads = False,
     cap_reactions = False, cap_images = True, cap_mentions = False, cap_stickers = True,
     cap_voice_messages = False\<rparr>"

lemma fallback_nonempty: "nonempty_str empty_reply_fallback"
  by (simp add: nonempty_str_iff empty_reply_fallback_def strip_id py_space_def)

theorem shape_reply_always_valid_witness:
  "\<exists>plan. shape_reply (\<lambda>raw. None) [] demo_caps [] empty_reply_fallback = Inr plan \<and>
     rp_text_segments plan \<noteq> [] \<and> length (rp_media_segments plan) \<le> 4"
  using shape_reply_always_valid [OF fallback_nonempty, of "\<lambda>raw. None" "[]" demo_caps "[]"]
  by fastforce

text \<open>
  the sources footer survives the size limits. When the footer of the first five
  citations has at most 3298 characters, the last text of the plan ends with all of it,
  after a blank line, and only the model's text in front of it was cut.
\<close>

theorem sources_footer_kept:
  assumes "nonempty_str fallback" and "cites \<noteq> []" and "\<forall>c \<in> set cites. nonempty_str (cit_uri c)"
    and "length (sources_footer (take 5 cites)) \<le> 3298"
  shows "\<exists>plan u. shape_reply loads t caps cites fallback = Inr plan \<and>
    last (rp_text_segments plan) = u @ blank_line @ sources_footer (take 5 cites)"
proof -
  let ?f = "sources_footer (take 5 cites)"
  have fb: "head_visible fallback"
    using assms(1) hd_strip [of fallback] by (auto simp: nonempty_str_iff head_visible_def)
  obtain cleaned media meme where eq: "shape_reply loads t caps cites fallback =
       Inr \<lparr>rp_text_segments = map (\<lambda>p. strip (truncate_text 0 p))
              (with_footer (take 5 cites) (reply_paragraphs fallback cleaned)),
            rp_media_segments = media, rp_citations = cites,
            rp_meme_intent = map_option strip meme, rp_typing = typing_default (cap_typing caps)\<rparr>"
    using shape_reply_eq [OF assms(1)] by metis
  let ?ps = "reply_paragraphs fallback cleaned"
  let ?u = "truncate_text (int (length ?f) + 2) (last ?ps)"
  have ne: "?ps \<noteq> []" using reply_paragraphs_spec(1) [OF fb, of cleaned] by auto
  then have "head_visible (last ?ps)" using reply_paragraphs_spec(3) [OF fb, of cleaned] by (metis last_in_set)
  then have vis: "head_visible (?u @ blank_line @ ?f)" by simp
  have "last (py_join sep (x # source_lines n cs)) = last (cit_uri (last cs))
      \<and> py_join sep (x # source_lines n cs) \<noteq> []"
    if "cs \<noteq> []" "\<forall>c \<in> set cs. cit_uri c \<noteq> []" "sep \<noteq> []" for sep x n cs
    using that
  proof (induction cs arbitrary: x n)
    case (Cons c cs)
    then show ?case by (cases cs) (auto simp: last_append str_simps)
  qed simp
  from this [of "take 5 cites" newline _ 1] assms(2,3)
  have "last ?f = last (cit_uri (last (take 5 cites)))" "?f \<noteq> []"
    by (auto simp: sources_footer_def newline_def nonempty_str_iff dest: in_set_takeD)
  moreover have "\<not> py_space (last (cit_uri (last (take 5 cites))))"
  proof -
    have "last (take 5 cites) \<in> set cites"
      using assms(2) by (metis last_in_set in_set_takeD take_eq_Nil zero_neq_numeral)
    then show ?thesis using assms(3) last_strip by (metis nonempty_str_iff)
  qed
  ultimately have st: "strip (?u @ blank_line @ ?f) = ?u @ blank_line @ ?f"
    using vis by (intro strip_id) (auto simp: head_visible_def)
  have "int (length ?u) \<le> max 200 (3500 - (int (length ?f) + 2))"
    by (rule truncate_length) simp
  then have "truncate_text 0 (?u @ blank_line @ ?f) = ?u @ blank_line @ ?f"
    using assms(4) by (intro truncate_id) (auto simp: blank_line_def)
  then have "last (map (\<lambda>p. strip (truncate_text 0 p)) (with_footer (take 5 cites) ?ps))
      = ?u @ blank_line @ ?f"
    using assms(2) st by (simp add: with_footer_def Let_def)
  with eq show ?thesis by simp
qed

definition demo_citation :: citation where
  "demo_citation = \<lparr>cit_label = lit ''a'', cit_uri = lit ''u''\<rparr>"

theorem sources_footer_kept_witness:
  "\<exists>plan u. shape_reply (\<lambda>raw. None) [] demo_caps [demo_citation] empty_reply_fallback = Inr plan \<and>
     last (rp_text_segments plan) = u @ blank_line @ sources_footer [demo_citation]"
  using sources_footer_kept [OF fallback_nonempty, of "[demo_citation]" "\<lambda>raw. None" "[]" demo_caps]
  by (simp add: demo_citation_def sources_footer_def nonempty_str_iff str_simps strip_id py_space_def
      newline_def dec.simps)

text \<open>
  the deterministic replies never fail: every command, known or not, the echo of any
  envelope and the acknowledgment of a deletion give a plan with one text and no media.
\<close>

theorem direct_replies_valid:
  "(\<exists>plan t. build_direct_reply e command rd caps = Inr plan \<and> rp_text_segments plan = [t] \<and>
      nonempty_str t \<and> rp_media_segments plan = []) \<and>
   (\<exists>plan t. forget_reply revoked caps = Inr plan \<and> rp_text_segments plan = [t] \<and>
      nonempty_str t \<and> rp_media_segments plan = [])"
proof -
  have one: "\<exists>plan t'. mk_reply_plan [t] [] [] None ty = Inr plan \<and> rp_text_segments plan = [t'] \<and>
      nonempty_str t' \<and> rp_media_segments plan = []" if "head_visible t" for t ty
    using that by (simp add: mk_reply_plan_ok nonempty_str_iff head_visible_strip)
  have "head_visible (echo_text e)" "head_visible (status_text rd)" "head_visible (lit ''pong'')"
    by (auto simp: echo_text_def status_text_def Let_def head_visible_def py_space_def str_simps
        split: option.split)
  then show ?thesis
    unfolding build_direct_reply_def forget_reply_def Let_def
    by (intro conjI one) (auto simp: head_visible_def py_space_def split: option.split)
qed

end
