(* ===== verification/ToolExec.thy ===== *)
theory ToolExec
  imports Llm "HOL-Library.List_Lexorder"
begin

text \<open>
  Tool registry, execution policy and citations, \<open>src/mybot/tools/__init__.py\<close>, and the
  standing approvals of \<open>tools/approvals.py\<close>. A tool's body, the approval lookup and the
  approval request are programs over any state; the deadline of a run appears as the
  \<open>TimeoutError\<close> it raises. The result: a body runs only with its capabilities granted and,
  where demanded, with an approval.
\<close>

section \<open>The registry\<close>

type_synonym arguments = "(ustr, json) dict"

record 's tool =
  tool_spec_of :: tool_spec
  tool_run :: "tool_context \<Rightarrow> arguments \<Rightarrow> ('s, tool_result) prog"

type_synonym 's registry = "(ustr, 's tool) dict"

definition mk_registry :: "'s tool list \<Rightarrow> 's registry" where
  "mk_registry tools = fold (\<lambda>t. AList.update (ts_id (tool_spec_of t)) t) tools []"

definition registry_get :: "'s registry \<Rightarrow> ustr \<Rightarrow> 's tool option" where
  "registry_get reg tool_id = map_of reg tool_id"

definition registry_available :: "'s registry \<Rightarrow> ustr list \<Rightarrow> 's tool list" where
  "registry_available reg granted =
     filter (\<lambda>t. set (ts_capabilities (tool_spec_of t)) \<subseteq> set granted) (map snd reg)"

definition to_openai_tool :: "tool_spec \<Rightarrow> (ustr, json) dict" where
  "to_openai_tool spec =
     [(lit ''type'', JStr (lit ''function'')),
      (lit ''function'', JObj [(lit ''name'', JStr (ts_id spec)),
         (lit ''description'', JStr (ts_description spec)),
         (lit ''parameters'', JObj (thaw_json_object (ts_input_schema spec)))])]"

definition registry_openai_tools :: "'s registry \<Rightarrow> ustr list \<Rightarrow> (ustr, json) dict list" where
  "registry_openai_tools reg granted =
     map (\<lambda>t. to_openai_tool (tool_spec_of t)) (registry_available reg granted)"

section \<open>The executor\<close>

type_synonym 's approval_source = "ustr \<Rightarrow> ('s, bool) prog"
type_synonym 's approval_requests = "ustr \<Rightarrow> tool_context \<Rightarrow> arguments \<Rightarrow> ('s, ustr) prog"

text \<open>\<open>te_timeout_text\<close> is the timeout as the message prints it (format \<open>:g\<close>).\<close>

record 's tool_executor =
  tx_registry :: "'s registry"
  tx_timeout_text :: ustr
  tx_approvals :: "'s approval_source option"
  tx_requests :: "'s approval_requests option"

definition mk_fail :: "ustr \<Rightarrow> ustr \<Rightarrow> bool \<Rightarrow> tool_result" where
  "mk_fail code message retryable = tool_failure
     \<lparr>te_code = strip code, te_message = strip message, te_retryable = retryable, te_details = []\<rparr>"

definition missing_capabilities :: "tool_spec \<Rightarrow> tool_context \<Rightarrow> ustr list" where
  "missing_capabilities spec ctx = sort (remdups
     (filter (\<lambda>c. c \<notin> set (tc_granted_capabilities ctx)) (ts_capabilities spec)))"

definition approved :: "'s tool_executor \<Rightarrow> ustr \<Rightarrow> ('s, bool) prog" where
  "approved ex tool_id = (case tx_approvals ex of
       None \<Rightarrow> retp False
     | Some source \<Rightarrow> catchp (source tool_id) (\<lambda>_. retp False))"

definition request_approval ::
  "'s approval_requests \<Rightarrow> ustr \<Rightarrow> tool_context \<Rightarrow> arguments \<Rightarrow> ('s, ustr) prog" where
  "request_approval req tool_id ctx args = catchp (req tool_id ctx args) (\<lambda>_. retp (lit ''REJECTED''))"

definition run_tool ::
  "'s tool_executor \<Rightarrow> 's tool \<Rightarrow> ustr \<Rightarrow> tool_context \<Rightarrow> arguments \<Rightarrow> ('s, tool_result) prog" where
  "run_tool ex tool tool_id ctx args =
     catchp (tool_run tool ctx args) (\<lambda>name.
       if name = lit ''TimeoutError''
       then retp (mk_fail (lit ''timeout'') (tool_id @ lit '' exceeded '' @ tx_timeout_text ex @ lit ''s'') True)
       else retp (mk_fail (lit ''tool_error'') name False))"

text \<open>The policy in front of a run: \<open>None\<close> lets the run go ahead.\<close>

definition check_approval ::
  "'s tool_executor \<Rightarrow> tool_spec \<Rightarrow> ustr \<Rightarrow> tool_context \<Rightarrow> arguments \<Rightarrow> ('s, tool_result option) prog" where
  "check_approval ex spec tool_id ctx args =
     bindp (if ts_approval_required spec then bindp (approved ex tool_id) (\<lambda>ok. retp (\<not> ok))
            else retp False) (\<lambda>wanted.
     if \<not> wanted then retp None
     else (case tx_requests ex of
         None \<Rightarrow> retp (Some (mk_fail (lit ''approval_required'')
                   (lit ''this tool requires operator approval'') False))
       | Some req \<Rightarrow> bindp (request_approval req tool_id ctx args) (\<lambda>status.
           if status \<noteq> lit ''APPROVED''
           then retp (Some (if status = lit ''EXPIRED''
                  then mk_fail (lit ''approval_timeout'') (lit ''operator approval timed out'') False
                  else mk_fail (lit ''approval_rejected'') (lit ''the operator rejected this tool call'') False))
           else retp None)))"

definition execute ::
  "'s tool_executor \<Rightarrow> ustr \<Rightarrow> tool_context \<Rightarrow> arguments \<Rightarrow> ('s, tool_result) prog" where
  "execute ex tool_id ctx args = (case registry_get (tx_registry ex) tool_id of
       None \<Rightarrow> retp (mk_fail (lit ''unknown_tool'') (lit ''no tool named '' @ tool_id) False)
     | Some tool \<Rightarrow>
         (let missing = missing_capabilities (tool_spec_of tool) ctx
          in if missing \<noteq> []
             then retp (mk_fail (lit ''capability_denied'')
                    (lit ''missing required capabilities: '' @ py_join (lit '', '') missing) False)
             else bindp (check_approval ex (tool_spec_of tool) tool_id ctx args) (\<lambda>denied.
                    case denied of Some r \<Rightarrow> retp r
                    | None \<Rightarrow> run_tool ex tool tool_id ctx args)))"

section \<open>Citations\<close>

fun source_fields :: "frozen \<Rightarrow> (ustr \<times> frozen option) option" where
  "source_fields (FObj entry) = (case map_of entry (lit ''uri'') of
       Some (FStr uri) \<Rightarrow> Some (uri, map_of entry (lit ''label'')) | _ \<Rightarrow> None)"
| "source_fields _ = None"

fun citation_loop :: "frozen list \<Rightarrow> ustr list \<Rightarrow> citation list \<Rightarrow> citation list" where
  "citation_loop [] seen citations = citations"
| "citation_loop (entry # rest) seen citations =
     (case source_fields entry of
        None \<Rightarrow> citation_loop rest seen citations
      | Some (uri, label) \<Rightarrow>
          if strip uri = [] \<or> uri \<in> set seen then citation_loop rest seen citations
          else (let text = (case label of Some (FStr l) \<Rightarrow> if strip l \<noteq> [] then l else uri | _ \<Rightarrow> uri)
                in citation_loop rest (uri # seen)
                     (citations @ [\<lparr>cit_label = strip text, cit_uri = strip uri\<rparr>])))"

definition collect_citations :: "tool_result \<Rightarrow> citation list" where
  "collect_citations r =
     (if \<not> tr_ok r then []
      else (case tr_data r of None \<Rightarrow> []
        | Some d \<Rightarrow> (case map_of d (lit ''sources'') of
            Some (FTuple sources) \<Rightarrow> citation_loop sources [] [] | _ \<Rightarrow> [])))"

section \<open>Standing approvals\<close>

text \<open>The configured value is read by \<open>get\<close>; \<open>str_of\<close> is Python's \<open>str\<close> of a JSON value.\<close>

record kv_approvals =
  kv_ttl_seconds :: real
  kv_cache :: "ustr list"
  kv_fetched_at :: "real option"

definition load_approvals :: "(json \<Rightarrow> ustr) \<Rightarrow> json option \<Rightarrow> ustr list" where
  "load_approvals str_of v = (case v of Some (JArr items) \<Rightarrow> map str_of items | _ \<Rightarrow> [])"

definition kv_is_approved ::
  "(json \<Rightarrow> ustr) \<Rightarrow> exn + json option \<Rightarrow> real \<Rightarrow> ustr \<Rightarrow> (kv_approvals, bool) prog" where
  "kv_is_approved str_of fetched now tool_id kv =
     (if (case kv_fetched_at kv of None \<Rightarrow> True | Some f \<Rightarrow> now - f \<ge> kv_ttl_seconds kv)
      then (case fetched of
              Inl e \<Rightarrow> (Inl e, kv)
            | Inr v \<Rightarrow> (let cache = load_approvals str_of v
                       in (Inr (tool_id \<in> set cache),
                           kv\<lparr>kv_cache := cache, kv_fetched_at := Some now\<rparr>)))
      else (Inr (tool_id \<in> set (kv_cache kv)), kv))"

section \<open>Lemmas\<close>

lemma mk_registry_keys:
  "\<forall>(k, t) \<in> set (mk_registry tools). k = ts_id (tool_spec_of t)" "dict_wf (mk_registry tools)"
proof -
  have "(\<forall>(k, t) \<in> set d. k = ts_id (tool_spec_of t)) \<Longrightarrow> dict_wf d \<Longrightarrow>
     (\<forall>(k, t) \<in> set (fold (\<lambda>t. AList.update (ts_id (tool_spec_of t)) t) tools d). k = ts_id (tool_spec_of t))
     \<and> dict_wf (fold (\<lambda>t. AList.update (ts_id (tool_spec_of t)) t) tools d)" for d
  proof (induction tools arbitrary: d)
    case (Cons t tools)
    have "\<forall>(k, u) \<in> set (AList.update (ts_id (tool_spec_of t)) t d). k = ts_id (tool_spec_of u)"
      using Cons.prems(1) by (induction d) (auto split: if_splits)
    with Cons show ?case by simp
  qed simp
  from this [of "[]"] show "\<forall>(k, t) \<in> set (mk_registry tools). k = ts_id (tool_spec_of t)"
    "dict_wf (mk_registry tools)" by (simp_all add: mk_registry_def)
qed

lemma valid_mk_fail [simp]: "valid_outcome (mk_fail c m r)"
  by (simp add: mk_fail_def)

text \<open>The policy alone, whatever the tools' bodies are.\<close>

definition policy ::
  "'s tool_executor \<Rightarrow> ustr \<Rightarrow> tool_context \<Rightarrow> arguments \<Rightarrow> ('s, tool_result option) prog" where
  "policy ex tool_id ctx args = (case registry_get (tx_registry ex) tool_id of
       None \<Rightarrow> retp (Some (mk_fail (lit ''unknown_tool'') (lit ''no tool named '' @ tool_id) False))
     | Some tool \<Rightarrow>
         (let missing = missing_capabilities (tool_spec_of tool) ctx
          in if missing \<noteq> []
             then retp (Some (mk_fail (lit ''capability_denied'')
                    (lit ''missing required capabilities: '' @ py_join (lit '', '') missing) False))
             else check_approval ex (tool_spec_of tool) tool_id ctx args))"

lemma execute_policy:
  "execute ex tool_id ctx args = bindp (policy ex tool_id ctx args) (\<lambda>d. case d of
     Some r \<Rightarrow> retp r
   | None \<Rightarrow> run_tool ex (the (registry_get (tx_registry ex) tool_id)) tool_id ctx args)"
  by (cases "registry_get (tx_registry ex) tool_id")
    (auto simp: fun_eq_iff execute_def policy_def Let_def bindp_def
      split: option.split prod.split sum.split)

lemma missing_Nil: "missing_capabilities spec ctx = [] \<longleftrightarrow>
   set (ts_capabilities spec) \<subseteq> set (tc_granted_capabilities ctx)"
proof -
  have "set (missing_capabilities spec ctx) = set (ts_capabilities spec) - set (tc_granted_capabilities ctx)"
    by (auto simp: missing_capabilities_def)
  then show ?thesis by (metis Diff_eq_empty_iff set_empty)
qed

lemma approved_True:
  "fst (approved ex tid s) = Inr True \<Longrightarrow> \<exists>src. tx_approvals ex = Some src \<and> fst (src tid s) = Inr True"
  by (auto simp: approved_def catchp_def split: option.splits prod.splits sum.splits exn.splits)

lemma check_approval_None:
  assumes "check_approval ex spec tid ctx args s = (Inr None, s')" and "ts_approval_required spec"
  shows "(\<exists>src. tx_approvals ex = Some src \<and> fst (src tid s) = Inr True) \<or>
    (\<exists>req. tx_requests ex = Some req \<and>
       fst (req tid ctx args (snd (approved ex tid s))) = Inr (lit ''APPROVED''))"
proof (cases "fst (approved ex tid s) = Inr True")
  case True
  then show ?thesis using approved_True [OF True] by simp
next
  case False
  with assms have "tx_requests ex \<noteq> None"
    by (auto simp: check_approval_def bindp_def split: prod.splits sum.splits option.splits)
  then obtain req where req: "tx_requests ex = Some req" by blast
  with False assms have "fst (request_approval req tid ctx args (snd (approved ex tid s))) = Inr (lit ''APPROVED'')"
    by (auto simp: check_approval_def bindp_def split: prod.splits sum.splits if_splits)
  moreover have "lit ''REJECTED'' \<noteq> lit ''APPROVED''" by (simp add: str_simps)
  ultimately show ?thesis
    using req by (auto simp: request_approval_def catchp_def split: prod.splits sum.splits exn.splits)
qed

text \<open>The executor with every tool's body replaced.\<close>

definition with_body ::
  "(tool_context \<Rightarrow> arguments \<Rightarrow> ('s, tool_result) prog) \<Rightarrow> 's tool_executor \<Rightarrow> 's tool_executor" where
  "with_body body ex = ex\<lparr>tx_registry := map (\<lambda>(k, t). (k, t\<lparr>tool_run := body\<rparr>)) (tx_registry ex)\<rparr>"

lemma with_body_get: "registry_get (tx_registry (with_body body ex)) tid =
   map_option (\<lambda>t. t\<lparr>tool_run := body\<rparr>) (registry_get (tx_registry ex) tid)"
  by (simp add: with_body_def registry_get_def map_of_map)

lemma policy_with_body [simp]: "policy (with_body body ex) = policy ex"
proof -
  have "tx_requests (with_body body ex) = tx_requests ex" "approved (with_body body ex) tid = approved ex tid" for tid
    by (simp_all add: with_body_def approved_def)
  then have "check_approval (with_body body ex) spec tid ctx args = check_approval ex spec tid ctx args"
    for spec tid ctx args unfolding check_approval_def by (simp only:)
  then show ?thesis
    by (simp add: fun_eq_iff policy_def with_body_get Let_def split: option.split)
qed

text \<open>The raw URIs the citation loop has taken.\<close>

definition visible_uris :: "frozen list \<Rightarrow> ustr set" where
  "visible_uris es = {u. strip u \<noteq> [] \<and> (\<exists>e \<in> set es. \<exists>l. source_fields e = Some (u, l))}"

lemma visible_uris_Cons: "visible_uris (e # es) =
   (case source_fields e of None \<Rightarrow> {} | Some (u, l) \<Rightarrow> if strip u = [] then {} else {u}) \<union> visible_uris es"
  by (auto simp: visible_uris_def split: option.split)

lemma citation_loop_spec:
  assumes "\<forall>c \<in> set cs. nonempty_str (cit_label c) \<and> nonempty_str (cit_uri c)"
    and "map cit_uri cs = rev (map strip seen)" and "distinct seen"
  shows "\<exists>seen'. map cit_uri (citation_loop es seen cs) = rev (map strip seen') \<and> distinct seen' \<and>
      set seen' = set seen \<union> visible_uris es \<and>
      (\<forall>c \<in> set (citation_loop es seen cs). nonempty_str (cit_label c) \<and> nonempty_str (cit_uri c))"
  using assms
proof (induction es arbitrary: seen cs)
  case Nil
  then show ?case by (auto simp: visible_uris_def)
next
  case (Cons e es)
  show ?case
  proof (cases "source_fields e")
    case None
    then show ?thesis using Cons.IH [OF Cons.prems] by (simp add: visible_uris_Cons)
  next
    case (Some ul)
    obtain u l where ul: "ul = (u, l)" by fastforce
    show ?thesis
    proof (cases "strip u = [] \<or> u \<in> set seen")
      case True
      then have "set seen \<union> visible_uris (e # es) = set seen \<union> visible_uris es"
        using Some ul by (auto simp: visible_uris_Cons)
      then show ?thesis using Cons.IH [OF Cons.prems] Some ul True by simp
    next
      case False
      let ?t = "case l of Some (FStr l) \<Rightarrow> if strip l \<noteq> [] then l else u | _ \<Rightarrow> u"
      have t: "strip ?t \<noteq> []" using False by (auto split: option.split frozen.split)
      let ?cs = "cs @ [\<lparr>cit_label = strip ?t, cit_uri = strip u\<rparr>]"
      have step: "citation_loop (e # es) seen cs = citation_loop es (u # seen) ?cs"
        using Some ul False by (simp add: Let_def)
      have vis: "set seen \<union> visible_uris (e # es) = set (u # seen) \<union> visible_uris es"
        using Some ul False by (simp add: visible_uris_Cons)
      have "\<forall>c \<in> set ?cs. nonempty_str (cit_label c) \<and> nonempty_str (cit_uri c)"
        using Cons.prems(1) False t by (auto simp: nonempty_str_iff)
      moreover have "map cit_uri ?cs = rev (map strip (u # seen))" "distinct (u # seen)"
        using Cons.prems False by auto
      ultimately show ?thesis unfolding step vis by (rule Cons.IH)
    qed
  qed
qed

text \<open>A whitespace variant of a URI passes the duplicate check, and both citations then
  have the same stripped URI.\<close>

lemma citation_duplicates:
  "map cit_uri (citation_loop
     [FObj [(lit ''uri'', FStr (lit ''u''))], FObj [(lit ''uri'', FStr (lit ''u ''))]] [] [])
   = [lit ''u'', lit ''u'']"
  by (simp add: str_simps strip_def lstrip_def rstrip_def py_space_def)

section \<open>Properties\<close>

text \<open>
  a tool's body has an effect only when the policy allows it: if executing a call can
  be told apart from executing it with all bodies replaced, then the tool is registered,
  every capability it wants is granted, and if it wants an approval then the standing
  approvals or the operator's answer gave one.
\<close>

theorem body_runs_only_if_authorized:
  assumes "execute ex tid ctx args s \<noteq> execute (with_body body ex) tid ctx args s"
  shows "\<exists>tool. registry_get (tx_registry ex) tid = Some tool \<and>
    set (ts_capabilities (tool_spec_of tool)) \<subseteq> set (tc_granted_capabilities ctx) \<and>
    (ts_approval_required (tool_spec_of tool) \<longrightarrow>
       (\<exists>src. tx_approvals ex = Some src \<and> fst (src tid s) = Inr True) \<or>
       (\<exists>req. tx_requests ex = Some req \<and>
          fst (req tid ctx args (snd (approved ex tid s))) = Inr (lit ''APPROVED'')))"
proof -
  obtain s' where p: "policy ex tid ctx args s = (Inr None, s')"
    using assms unfolding execute_policy
    by (auto simp: bindp_def split: prod.splits sum.splits option.splits)
  then obtain tool where t: "registry_get (tx_registry ex) tid = Some tool"
    "missing_capabilities (tool_spec_of tool) ctx = []"
    "check_approval ex (tool_spec_of tool) tid ctx args s = (Inr None, s')"
    by (auto simp: policy_def Let_def split: option.splits if_splits)
  then show ?thesis using check_approval_None [OF t(3)] by (auto simp: missing_Nil)
qed

definition demo_spec :: tool_spec where
  "demo_spec = \<lparr>ts_id = lit ''t'', ts_description = lit ''d'', ts_input_schema = [], ts_read_only = True,
     ts_idempotent = True, ts_risk = LOW, ts_capabilities = [lit ''net''], ts_approval_required = False\<rparr>"

definition demo_tool :: "nat tool" where
  "demo_tool = \<lparr>tool_spec_of = demo_spec,
     tool_run = (\<lambda>ctx args n. (Inr (tool_success [(lit ''n'', JInt (int n))]), Suc n))\<rparr>"

definition demo_executor :: "nat tool_executor" where
  "demo_executor = \<lparr>tx_registry = mk_registry [demo_tool], tx_timeout_text = lit ''15'',
     tx_approvals = None, tx_requests = None\<rparr>"

definition demo_context :: "ustr list \<Rightarrow> tool_context" where
  "demo_context granted = \<lparr>tc_invocation_id = lit ''i'', tc_conversation = demo_key None,
     tc_actor_identity_id = lit ''u'', tc_granted_capabilities = granted, tc_correlation_id = lit ''e''\<rparr>"

lemma demo_get: "registry_get (tx_registry demo_executor) (lit ''t'') = Some demo_tool"
  by (simp add: registry_get_def demo_executor_def mk_registry_def demo_tool_def demo_spec_def)

theorem body_runs_only_if_authorized_witness:
  "set (ts_capabilities (tool_spec_of demo_tool)) \<subseteq> set (tc_granted_capabilities (demo_context [lit ''net'']))"
proof -
  have m: "missing_capabilities (tool_spec_of demo_tool) (demo_context [lit ''net'']) = []"
    by (simp add: missing_Nil demo_tool_def demo_spec_def demo_context_def)
  then have "snd (execute demo_executor (lit ''t'') (demo_context [lit ''net'']) [] 0) = 1"
    by (simp add: execute_def demo_get check_approval_def run_tool_def catchp_def bindp_def Let_def)
      (simp add: demo_tool_def demo_spec_def)
  moreover have "snd (execute (with_body (\<lambda>ctx args. retp (mk_fail [] [] False)) demo_executor) (lit ''t'')
      (demo_context [lit ''net'']) [] 0) = (0 :: nat)"
    using m by (simp add: execute_def with_body_get demo_get check_approval_def run_tool_def catchp_def bindp_def Let_def)
      (simp add: demo_tool_def demo_spec_def)
  ultimately have "execute demo_executor (lit ''t'') (demo_context [lit ''net'']) [] 0 \<noteq>
    execute (with_body (\<lambda>ctx args. retp (mk_fail [] [] False)) demo_executor) (lit ''t'')
      (demo_context [lit ''net'']) [] 0" by (auto dest: arg_cong [of _ _ snd])
  from body_runs_only_if_authorized [OF this] show ?thesis by (simp add: demo_get)
qed

text \<open>
  executing a call never raises, except that a cancellation is let through: whatever a
  body, an approval lookup or an approval request raises becomes a failure, and every result
  is well-formed (success with data or failure with an error, never both) if the bodies'
  results are.
\<close>

theorem execute_always_answers:
  assumes "\<forall>(k, t) \<in> set (tx_registry ex). \<forall>ctx args s r. fst (tool_run t ctx args s) = Inr r \<longrightarrow> valid_outcome r"
  shows "fst (execute ex tid ctx args s) = Inl Cancelled \<or>
    (\<exists>r. fst (execute ex tid ctx args s) = Inr r \<and> valid_outcome r)"
proof -
  have ap: "yields (\<lambda>_. True) (approved ex tid)"
    unfolding approved_def by (cases "tx_approvals ex") (auto intro!: yields_intro)
  have rq: "yields (\<lambda>_. True) (request_approval req tid ctx args)" for req
    unfolding request_approval_def by (auto intro!: yields_intro)
  have ck: "yields (\<lambda>r. \<forall>x. r = Some x \<longrightarrow> valid_outcome x) (check_approval ex spec tid ctx args)" for spec
    unfolding check_approval_def
    by (rule yields_bindp [where Q = "\<lambda>_. True"]; cases "tx_requests ex")
      (auto intro!: yields_intro yields_bindp [OF ap] yields_bindp [OF rq])
  have run: "yields valid_outcome (run_tool ex t tid ctx args)"
    if "registry_get (tx_registry ex) tid = Some t" for t
  proof -
    from that have "(tid, t) \<in> set (tx_registry ex)" unfolding registry_get_def by (rule map_of_SomeD)
    from bspec [OF assms this]
    have all: "\<forall>ctx args s r. fst (tool_run t ctx args s) = Inr r \<longrightarrow> valid_outcome r" by simp
    have "tool_run t ctx args u = (Inr r, u') \<Longrightarrow> valid_outcome r" for r u u'
      using all [rule_format, of ctx args u r] by simp
    then show ?thesis unfolding run_tool_def by (auto intro!: yields_intro)
  qed
  have "yields valid_outcome (execute ex tid ctx args)"
  proof (cases "registry_get (tx_registry ex) tid")
    case None
    then show ?thesis by (simp add: execute_def yields_retp)
  next
    case (Some t)
    then show ?thesis
      by (auto simp: execute_def Let_def intro!: yields_intro yields_bindp [OF ck] run [OF Some]
          split: option.split)
  qed
  then show ?thesis by (rule yieldsD)
qed

theorem execute_always_answers_witness:
  "fst (execute demo_executor (lit ''t'') (demo_context []) [] 0) = Inl Cancelled \<or>
   (\<exists>r. fst (execute demo_executor (lit ''t'') (demo_context []) [] 0) = Inr r \<and> valid_outcome r)"
  using execute_always_answers [of demo_executor "lit ''t''" "demo_context []" "[]" 0]
  by (simp add: demo_executor_def mk_registry_def demo_tool_def)

text \<open>
  what is offered can be executed: every tool offered to the model is found in the
  registry under the name it is offered by, its capabilities are all granted, and no name
  is offered twice.
\<close>

theorem offered_tools_executable:
  "distinct (map (\<lambda>t. ts_id (tool_spec_of t)) (registry_available (mk_registry tools) granted)) \<and>
   (\<forall>t \<in> set (registry_available (mk_registry tools) granted).
      registry_get (mk_registry tools) (ts_id (tool_spec_of t)) = Some t \<and>
      missing_capabilities (tool_spec_of t) (ctx\<lparr>tc_granted_capabilities := granted\<rparr>) = [])"
proof
  let ?reg = "mk_registry tools"
  note keys = mk_registry_keys [of tools]
  have ids: "map (\<lambda>t. ts_id (tool_spec_of t)) (map snd ?reg) = map fst ?reg"
    using keys(1) by auto
  then have "distinct (map (\<lambda>t. ts_id (tool_spec_of t)) (map snd ?reg))"
    by (simp only: ids keys(2) [unfolded dict_wf_def])
  then show "distinct (map (\<lambda>t. ts_id (tool_spec_of t)) (registry_available ?reg granted))"
    unfolding registry_available_def by (simp add: distinct_map_filter)
  show "\<forall>t \<in> set (registry_available ?reg granted). registry_get ?reg (ts_id (tool_spec_of t)) = Some t \<and>
      missing_capabilities (tool_spec_of t) (ctx\<lparr>tc_granted_capabilities := granted\<rparr>) = []"
    using keys by (auto simp: registry_available_def registry_get_def missing_Nil dict_wf_def)
qed

theorem offered_tools_executable_witness:
  "registry_get (mk_registry [demo_tool]) (lit ''t'') = Some demo_tool"
  using offered_tools_executable [of "[demo_tool]" "[lit ''net'']" "demo_context []"]
  by (simp add: registry_available_def mk_registry_def demo_tool_def demo_spec_def)

text \<open>
  the citations of a result are well-formed and cover its sources: every source with a
  visible URI is cited, each raw URI once and in order, and stripped. (Two raw URIs that
  differ in surrounding whitespace give two citations with the same URI.)
\<close>

theorem citations_cover_sources:
  assumes "map_of d (lit ''sources'') = Some (FTuple sources)" and "tr_ok r" and "tr_data r = Some d"
  shows "\<exists>uris. map cit_uri (collect_citations r) = map strip uris \<and> distinct uris \<and>
    set uris = visible_uris sources \<and>
    (\<forall>c \<in> set (collect_citations r). nonempty_str (cit_label c) \<and> nonempty_str (cit_uri c))"
proof -
  have cc: "collect_citations r = citation_loop sources [] []"
    using assms by (simp add: collect_citations_def)
  obtain seen where s: "map cit_uri (citation_loop sources [] []) = rev (map strip seen)" "distinct seen"
    "set seen = visible_uris sources"
    "\<forall>c \<in> set (citation_loop sources [] []). nonempty_str (cit_label c) \<and> nonempty_str (cit_uri c)"
    using citation_loop_spec [of "[]" "[]" sources] by auto
  then show ?thesis by (intro exI [of _ "rev seen"]) (simp add: cc rev_map)
qed

theorem citations_cover_sources_witness:
  "\<exists>uris. map cit_uri (collect_citations (tool_success
     [(lit ''sources'', JArr [JObj [(lit ''uri'', JStr (lit ''u''))]])])) = map strip uris \<and> distinct uris"
  using citations_cover_sources [of "freeze_json_object [(lit ''sources'', JArr [JObj [(lit ''uri'', JStr (lit ''u''))]])]"
      "[FObj [(lit ''uri'', FStr (lit ''u''))]]"
      "tool_success [(lit ''sources'', JArr [JObj [(lit ''uri'', JStr (lit ''u''))]])]"]
  by (auto simp: tool_success_def freeze_json_object_def)

text \<open>A lookup history: the cache holds what the configuration was when it was fetched.\<close>

definition kv_inv :: "(json \<Rightarrow> ustr) \<Rightarrow> (real \<Rightarrow> json option) \<Rightarrow> kv_approvals \<Rightarrow> bool" where
  "kv_inv str_of cfg kv \<longleftrightarrow>
     (\<forall>f. kv_fetched_at kv = Some f \<longrightarrow> kv_cache kv = load_approvals str_of (cfg f))"

lemma kv_inv_step:
  "kv_inv str_of cfg kv \<Longrightarrow> kv_inv str_of cfg (snd (kv_is_approved str_of (Inr (cfg now)) now tid kv))"
  "kv_ttl_seconds (snd (kv_is_approved str_of fetched now tid kv)) = kv_ttl_seconds kv"
  by (auto simp: kv_is_approved_def kv_inv_def Let_def split: sum.split)

lemma kv_inv_lookups:
  "kv_inv str_of cfg kv \<Longrightarrow>
     kv_inv str_of cfg (fold (\<lambda>(now, tid) k. snd (kv_is_approved str_of (Inr (cfg now)) now tid k)) lookups kv)
     \<and> kv_ttl_seconds (fold (\<lambda>(now, tid) k. snd (kv_is_approved str_of (Inr (cfg now)) now tid k)) lookups kv)
       = kv_ttl_seconds kv"
  by (induction lookups arbitrary: kv) (auto simp: kv_inv_step)

text \<open>
  approvals are stale by less than the cache lifetime: after any lookups, an answer is
  what the operator's configuration said at some moment less than the lifetime ago (or at
  the moment of asking), so a withdrawn approval stops working within that time.
\<close>

theorem approvals_bounded_staleness:
  assumes "0 < kv_ttl_seconds kv" and "kv_fetched_at kv = None"
    and "kv' = fold (\<lambda>(t, tid) k. snd (kv_is_approved str_of (Inr (cfg t)) t tid k)) lookups kv"
    and "fst (kv_is_approved str_of (Inr (cfg now)) now tool_id kv') = Inr ok"
  shows "\<exists>f. now - f < kv_ttl_seconds kv \<and> ok = (tool_id \<in> set (load_approvals str_of (cfg f)))"
proof -
  have "kv_inv str_of cfg kv" using assms(2) by (simp add: kv_inv_def)
  from kv_inv_lookups [OF this] have inv: "kv_inv str_of cfg kv'" "kv_ttl_seconds kv' = kv_ttl_seconds kv"
    by (simp_all add: assms(3))
  show ?thesis
  proof (cases "case kv_fetched_at kv' of None \<Rightarrow> True | Some f \<Rightarrow> now - f \<ge> kv_ttl_seconds kv'")
    case True
    then show ?thesis using assms(1,4)
      by (intro exI [of _ now]) (auto simp: kv_is_approved_def Let_def)
  next
    case False
    then obtain f where "kv_fetched_at kv' = Some f" "now - f < kv_ttl_seconds kv"
      using inv(2) by (auto split: option.splits)
    then show ?thesis using assms(4) inv False
      by (intro exI [of _ f]) (auto simp: kv_is_approved_def kv_inv_def)
  qed
qed

definition demo_kv :: kv_approvals where
  "demo_kv = \<lparr>kv_ttl_seconds = 10, kv_cache = [], kv_fetched_at = None\<rparr>"

theorem approvals_bounded_staleness_witness:
  "\<exists>f. 5 - f < kv_ttl_seconds demo_kv \<and>
     True = (lit ''t'' \<in> set (load_approvals (\<lambda>v. lit ''t'') (if f < 5 then Some (JArr [JNull]) else None)))"
  using approvals_bounded_staleness [of demo_kv _ "\<lambda>v. lit ''t''" "\<lambda>f. if f < 5 then Some (JArr [JNull]) else None"
      "[(0, lit ''t'')]" 5 "lit ''t''" True, OF _ _ refl]
  by (simp add: demo_kv_def kv_is_approved_def load_approvals_def)

end
