(* ===== verification/AgentTurns.thy ===== *)
theory AgentTurns
  imports Budget ReplyShaping ToolExec
begin

text \<open>
  One agent turn, \<open>src/mybot/engine/agent_turns.py\<close>: preparation, budget gate, the tool loop
  with its per-turn limit, and the audit row every finished turn leaves. The services the
  engine calls are the fields of \<open>agent_env\<close>: programs over an arbitrary state that may
  raise or be cancelled. The tool loop has no bound of its own in the code, so it takes
  fuel and gives \<open>None\<close> when that runs out; enough fuel is proved for models that call no
  tool when none is offered. The turn deadline appears as a cancellation (or
  \<open>TimeoutError\<close>) from any call inside the loop, with \<open>ae_expired\<close> telling it from an outside
  cancellation.
\<close>

section \<open>State and services\<close>

record invocation =
  iv_tool_id :: ustr
  iv_ok :: bool
  iv_error_code :: "ustr option"
  iv_latency_ms :: int

record tool_loop_state =
  tl_prompt_tokens :: int
  tl_completion_tokens :: int
  tl_model :: "ustr option"
  tl_calls_used :: int
  tl_invocations :: "invocation list"
  tl_citations :: "citation list"

record turn_row =
  tw_conversation_id :: ustr
  tw_decision :: turn_decision
  tw_outcome :: ustr
  tw_inbound_message_id :: "ustr option"
  tw_model :: "ustr option"
  tw_prompt_tokens :: int
  tw_completion_tokens :: int
  tw_latency_ms :: int
  tw_error :: "ustr option"

record agent_runtime =
  ar_system_prompt :: "ustr option"
  ar_granted_capabilities :: "ustr list option"
  ar_memory_enabled :: bool
  ar_memory_retrieval_limit :: "int option"
  ar_expression_examples :: int
  ar_relationship_enabled :: bool

record extraction_usage =
  us_stored :: int
  us_prompt_tokens :: int
  us_completion_tokens :: int

text \<open>A hook that the memory object may lack is an option.\<close>

record 's memory_hooks =
  mh_core :: "(envelope \<Rightarrow> ('s, ustr option) prog) option"
  mh_retrieval :: "envelope \<Rightarrow> ustr \<Rightarrow> int option \<Rightarrow> ('s, ustr option) prog"
  mh_extract :: "envelope \<Rightarrow> ustr \<Rightarrow> ('s, extraction_usage) prog"
  mh_flush :: "(envelope \<Rightarrow> history_entry list \<Rightarrow> ('s, extraction_usage) prog) option"
  mh_personality :: "(envelope \<Rightarrow> int \<Rightarrow> bool \<Rightarrow> ('s, ustr option) prog) option"

type_synonym 's completer =
  "chat_message list \<Rightarrow> (ustr, json) dict list option \<Rightarrow> (llm_exn, 's, llm_reply) eprog"

record 's tool_catalog =
  cat_openai_tools :: "ustr list \<Rightarrow> 's \<Rightarrow> (ustr, json) dict list"
  cat_refresh :: "('s, unit) prog"

text \<open>The trace sink takes trace id, conversation, stage, status, duration and attributes.\<close>

record 's agent_env =
  ae_llm :: "'s completer option"
  ae_vision_llm :: "'s completer option"
  ae_vision :: "(envelope \<Rightarrow> ('s, envelope_prompt) prog) option"
  ae_persona :: "('s, json option) prog"
  ae_history :: "ustr \<Rightarrow> int \<Rightarrow> ('s, history_entry list) prog"
  ae_record_turn :: "turn_row \<Rightarrow> ('s, ustr) prog"
  ae_record_many :: "(ustr \<Rightarrow> invocation list \<Rightarrow> ('s, unit) prog) option"
  ae_incr :: "'s counter_port"
  ae_tools :: "'s tool_catalog option"
  ae_execute :: "(ustr \<Rightarrow> tool_context \<Rightarrow> arguments \<Rightarrow> ('s, tool_result) prog) option"
  ae_memory :: "'s memory_hooks option"
  ae_skills :: "(int \<Rightarrow> ustr) option"
  ae_trace :: "(ustr \<Rightarrow> ustr \<Rightarrow> ustr \<Rightarrow> ustr \<Rightarrow> int \<Rightarrow> (ustr, json) dict \<Rightarrow> ('s, unit) prog) option"
  ae_clock :: "'s \<Rightarrow> real"
  ae_today :: "'s \<Rightarrow> ustr"
  ae_expired :: "'s \<Rightarrow> bool"
  ae_new_id :: "'s \<Rightarrow> ustr"
  ae_loads :: "ustr \<Rightarrow> json option"
  ae_dumps :: "(ustr, json) dict \<Rightarrow> ustr"

record agent_config =
  ac_budget :: "token_budget option"
  ac_default_system_prompt :: ustr
  ac_llm_model_name :: ustr
  ac_history_max_messages :: int
  ac_history_token_budget :: int
  ac_history_flush_max_messages :: int
  ac_granted_capabilities :: "ustr list"
  ac_max_tool_calls :: int
  ac_skill_prompt_max_chars :: int
  ac_not_configured_fallback :: ustr
  ac_llm_failure_fallback :: ustr
  ac_budget_fallback :: ustr
  ac_empty_reply_fallback :: ustr

definition persona_key :: ustr where
  "persona_key = lit ''agent.system_prompt''"

definition tool_result_char_cap :: nat where
  "tool_result_char_cap = 4000"

definition not_configured_fallback :: ustr where
  "not_configured_fallback = [35821, 35328, 27169, 22411, 23578, 26410, 37197, 32622, 44, 32, 35831,
     31649, 29702, 21592, 20808, 23436, 25104, 27169, 22411, 28192, 36947, 35774, 32622, 12290]"

definition llm_failure_fallback :: ustr where
  "llm_failure_fallback = [35821, 35328, 27169, 22411, 26242, 26102, 19981, 21487, 29992, 44, 32, 35831,
     31245, 21518, 20877, 35797, 12290]"

definition budget_fallback :: ustr where
  "budget_fallback = [26412, 20250, 35805, 20170, 22825, 30340, 32, 116, 111, 107, 101, 110, 32, 39044,
     31639, 24050, 29992, 23436, 44, 32, 26126, 22825, 20877, 32487, 32493, 32842, 21543, 12290]"

definition jstr_opt :: "ustr option \<Rightarrow> json" where
  "jstr_opt x = (case x of None \<Rightarrow> JNull | Some s \<Rightarrow> JStr s)"

section \<open>Tracing and audit\<close>

definition agent_trace ::
  "('s, 'z) agent_env_scheme \<Rightarrow> envelope \<Rightarrow> ustr \<Rightarrow> ustr \<Rightarrow> ustr \<Rightarrow> int \<Rightarrow> (ustr, json) dict \<Rightarrow> ('s, unit) prog" where
  "agent_trace env e cid stage status dur attrs = (case ae_trace env of
       None \<Rightarrow> retp ()
     | Some record_span \<Rightarrow> catchp (record_span (env_trace_id e) cid stage status dur attrs) (\<lambda>_. retp ()))"

text \<open>A trace with the time since \<open>started\<close>.\<close>

definition timed_trace ::
  "('s, 'z) agent_env_scheme \<Rightarrow> envelope \<Rightarrow> ustr \<Rightarrow> ustr \<Rightarrow> ustr \<Rightarrow> real \<Rightarrow> (ustr, json) dict \<Rightarrow> ('s, unit) prog" where
  "timed_trace env e cid stage status started attrs =
     bindp (getp (ae_clock env)) (\<lambda>now. agent_trace env e cid stage status (elapsed_ms started now) attrs)"

definition agent_record :: "('s, 'z) agent_env_scheme \<Rightarrow> turn_row \<Rightarrow> ('s, ustr option) prog" where
  "agent_record env row =
     catchp (bindp (ae_record_turn env row) (\<lambda>i. retp (Some i))) (\<lambda>_. retp None)"

definition plain_row :: "ustr \<Rightarrow> turn_decision \<Rightarrow> ustr \<Rightarrow> ustr option \<Rightarrow> turn_row" where
  "plain_row cid d outcome mid = \<lparr>tw_conversation_id = cid, tw_decision = d, tw_outcome = outcome,
     tw_inbound_message_id = mid, tw_model = None, tw_prompt_tokens = 0, tw_completion_tokens = 0,
     tw_latency_ms = 0, tw_error = None\<rparr>"

definition loop_row ::
  "ustr \<Rightarrow> turn_decision \<Rightarrow> ustr \<Rightarrow> ustr option \<Rightarrow> tool_loop_state \<Rightarrow> int \<Rightarrow> ustr option \<Rightarrow> turn_row" where
  "loop_row cid d outcome mid t latency err = \<lparr>tw_conversation_id = cid, tw_decision = d,
     tw_outcome = outcome, tw_inbound_message_id = mid, tw_model = tl_model t,
     tw_prompt_tokens = tl_prompt_tokens t, tw_completion_tokens = tl_completion_tokens t,
     tw_latency_ms = latency, tw_error = err\<rparr>"

definition record_invocations ::
  "('s, 'z) agent_env_scheme \<Rightarrow> ustr option \<Rightarrow> tool_loop_state \<Rightarrow> ('s, unit) prog" where
  "record_invocations env turn_id t = (case (turn_id, ae_record_many env) of
       (Some i, Some record_many) \<Rightarrow>
          if tl_invocations t = [] then retp ()
          else catchp (record_many i (tl_invocations t)) (\<lambda>_. retp ())
     | _ \<Rightarrow> retp ())"

definition consume_budget :: "('s, 'z) agent_env_scheme \<Rightarrow> agent_config \<Rightarrow> ustr \<Rightarrow> int \<Rightarrow> ustr \<Rightarrow> ('s, unit) prog" where
  "consume_budget env cfg skey tokens today = (case ac_budget cfg of
       None \<Rightarrow> retp ()
     | Some tb \<Rightarrow> budget_consume (ae_incr env) tb skey tokens today)"

definition agent_reply :: "('s, 'z) agent_env_scheme \<Rightarrow> agent_config \<Rightarrow> ustr \<Rightarrow> capabilities \<Rightarrow> citation list \<Rightarrow> ('s, reply_plan) prog" where
  "agent_reply env cfg t caps cites s =
     (shape_reply (ae_loads env) t caps cites (ac_empty_reply_fallback cfg), s)"

section \<open>Preparation of a turn\<close>

definition prepare_inbound :: "('s, 'z) agent_env_scheme \<Rightarrow> envelope \<Rightarrow> ('s, envelope_prompt) prog" where
  "prepare_inbound env e = (case ae_vision env of
       None \<Rightarrow> retp (mk_envelope_prompt e False)
     | Some prepare \<Rightarrow> catchp (prepare e) (\<lambda>_. retp (mk_envelope_prompt e False)))"

definition system_prompt :: "('s, 'z) agent_env_scheme \<Rightarrow> agent_config \<Rightarrow> ustr option \<Rightarrow> ('s, ustr) prog" where
  "system_prompt env cfg runtime_prompt =
     bindp (case runtime_prompt of
         Some p \<Rightarrow> if strip p \<noteq> [] then retp (Some (strip p)) else retp None
       | None \<Rightarrow> retp None) (\<lambda>fixed.
     bindp (case fixed of
         Some p \<Rightarrow> retp p
       | None \<Rightarrow> bindp (catchp (ae_persona env) (\<lambda>_. retp None)) (\<lambda>override.
           retp (case override of
               Some (JStr p) \<Rightarrow> if strip p \<noteq> [] then strip p else ac_default_system_prompt cfg
             | _ \<Rightarrow> ac_default_system_prompt cfg))) (\<lambda>resolved.
     case ae_skills env of
       None \<Rightarrow> retp resolved
     | Some prompt_catalog \<Rightarrow>
         (let catalog = prompt_catalog (ac_skill_prompt_max_chars cfg)
          in retp (if catalog \<noteq> [] then resolved @ blank_line @ catalog else resolved))))"

definition flush_memory_history ::
  "('s, 'z) agent_env_scheme \<Rightarrow> agent_config \<Rightarrow> envelope \<Rightarrow> ustr \<Rightarrow> ustr \<Rightarrow> history_entry list \<Rightarrow> ('s, unit) prog" where
  "flush_memory_history env cfg e cid skey dropped =
     (case (case ae_memory env of None \<Rightarrow> None | Some mem \<Rightarrow> mh_flush mem) of
        None \<Rightarrow> retp ()
      | Some flusher \<Rightarrow>
          if env_ephemeral e \<or> dropped = [] then retp ()
          else bindp (getp (ae_clock env)) (\<lambda>started.
            bindp (catchp (bindp (flusher e dropped) (\<lambda>u. retp (Some u)))
               (\<lambda>_. bindp (timed_trace env e cid (lit ''memory.flush'') (lit ''error'') started
                      [(lit ''error_code'', JStr (lit ''memory_flush_failed''))]) (\<lambda>_. retp None)))
            (\<lambda>outcome. case outcome of
                None \<Rightarrow> retp ()
              | Some u \<Rightarrow>
                 (let spent = us_prompt_tokens u + us_completion_tokens u
                  in bindp (if spent > 0 then bindp (getp (ae_today env)) (\<lambda>today.
                               consume_budget env cfg skey spent today) else retp ()) (\<lambda>_.
                     timed_trace env e cid (lit ''memory.flush'') (lit ''ok'') started
                       [(lit ''dropped_messages'', JInt (int (length dropped))),
                        (lit ''stored'', JInt (us_stored u)), (lit ''tokens'', JInt spent)])))))"

text \<open>The just stored inbound message is the newest row and is left out.\<close>

definition without_inbound :: "ustr \<Rightarrow> history_entry list \<Rightarrow> history_entry list" where
  "without_inbound inbound_text rows = (case rows of
       r # rest \<Rightarrow> if he_direction r = lit ''inbound'' \<and> he_text r = inbound_text then rest else rows
     | [] \<Rightarrow> [])"

definition history_window ::
  "('s, 'z) agent_env_scheme \<Rightarrow> agent_config \<Rightarrow> ustr \<Rightarrow> ustr \<Rightarrow> ustr \<Rightarrow> envelope \<Rightarrow> ustr \<Rightarrow> ('s, history_entry list) prog" where
  "history_window env cfg cid inbound_text sys e skey =
     bindp (ae_history env cid (ac_history_max_messages cfg + ac_history_flush_max_messages cfg + 1)) (\<lambda>rows.
     (let partition = partition_history sys (env_platform e) (env_chat_kind e)
            (without_inbound inbound_text rows) inbound_text (ac_history_token_budget cfg)
            (Some (ac_history_max_messages cfg))
      in bindp (flush_memory_history env cfg e cid skey (hp_dropped partition)) (\<lambda>_.
         retp (hp_kept partition))))"

text \<open>A memory lookup that is traced and never fails the turn.\<close>

definition guarded_block ::
  "('s, 'z) agent_env_scheme \<Rightarrow> envelope \<Rightarrow> ustr \<Rightarrow> ustr \<Rightarrow> ustr \<Rightarrow> (ustr option \<Rightarrow> (ustr, json) dict) \<Rightarrow>
   ('s, ustr option) prog \<Rightarrow> ('s, ustr option) prog" where
  "guarded_block env e cid stage failure attrs load =
     bindp (getp (ae_clock env)) (\<lambda>started.
     bindp (catchp (bindp load (\<lambda>b. retp (Some b)))
        (\<lambda>_. bindp (timed_trace env e cid stage (lit ''error'') started
               [(lit ''error_code'', JStr failure)]) (\<lambda>_. retp None)))
     (\<lambda>outcome. case outcome of
         None \<Rightarrow> retp None
       | Some block \<Rightarrow> bindp (timed_trace env e cid stage (lit ''ok'') started (attrs block)) (\<lambda>_.
           retp block)))"

definition memory_block ::
  "('s, 'z) agent_env_scheme \<Rightarrow> envelope \<Rightarrow> ustr \<Rightarrow> ustr \<Rightarrow> int option \<Rightarrow> ('s, ustr option) prog" where
  "memory_block env e inbound_text cid limit = (case ae_memory env of
       None \<Rightarrow> bindp (agent_trace env e cid (lit ''memory.retrieval'') (lit ''skipped'') 0
                 [(lit ''reason'', JStr (lit ''disabled''))]) (\<lambda>_. retp None)
     | Some mem \<Rightarrow> guarded_block env e cid (lit ''memory.retrieval'') (lit ''memory_retrieval_failed'')
         (\<lambda>b. [(lit ''recalled'', JBool (b \<noteq> None)),
               (lit ''summary'', JStr (take 2000 (or_str b [])))])
         (mh_retrieval mem e inbound_text limit))"

definition core_memory_block ::
  "('s, 'z) agent_env_scheme \<Rightarrow> envelope \<Rightarrow> ustr \<Rightarrow> ('s, ustr option) prog" where
  "core_memory_block env e cid =
     (case (case ae_memory env of None \<Rightarrow> None | Some mem \<Rightarrow> mh_core mem) of
        None \<Rightarrow> retp None
      | Some loader \<Rightarrow> guarded_block env e cid (lit ''memory.core'') (lit ''core_memory_lookup_failed'')
          (\<lambda>b. [(lit ''loaded'', JBool (b \<noteq> None))]) (loader e))"

definition personality_memory_block ::
  "('s, 'z) agent_env_scheme \<Rightarrow> envelope \<Rightarrow> ustr \<Rightarrow> int \<Rightarrow> bool \<Rightarrow> ('s, ustr option) prog" where
  "personality_memory_block env e cid examples relationship =
     (case (case ae_memory env of None \<Rightarrow> None | Some mem \<Rightarrow> mh_personality mem) of
        None \<Rightarrow> retp None
      | Some loader \<Rightarrow> guarded_block env e cid (lit ''memory.personality'')
          (lit ''personality_memory_lookup_failed'')
          (\<lambda>b. [(lit ''loaded'', JBool (b \<noteq> None))]) (loader e examples relationship))"

section \<open>The tool loop\<close>

text \<open>The loop runs on the state of the services and its own; \<open>on_env\<close> and \<open>on_llm\<close> lift the
  calls of the services, \<open>update_loop\<close> changes the loop's state.\<close>

definition on_env :: "('s, 'a) prog \<Rightarrow> (llm_exn, 's \<times> tool_loop_state, 'a) eprog" where
  "on_env m st = (case m (fst st) of
       (Inl e, s') \<Rightarrow> (Inl (LlmOther e), (s', snd st))
     | (Inr x, s') \<Rightarrow> (Inr x, (s', snd st)))"

definition on_llm :: "(llm_exn, 's, 'a) eprog \<Rightarrow> (llm_exn, 's \<times> tool_loop_state, 'a) eprog" where
  "on_llm m st = (case m (fst st) of (r, s') \<Rightarrow> (r, (s', snd st)))"

definition update_loop ::
  "(tool_loop_state \<Rightarrow> tool_loop_state) \<Rightarrow> (llm_exn, 's \<times> tool_loop_state, unit) eprog" where
  "update_loop f st = (Inr (), (fst st, f (snd st)))"

definition loop_state :: "(llm_exn, 's \<times> tool_loop_state, tool_loop_state) eprog" where
  "loop_state st = (Inr (snd st), st)"

definition parse_arguments :: "(ustr \<Rightarrow> json option) \<Rightarrow> ustr \<Rightarrow> ustr + arguments" where
  "parse_arguments loads raw =
     (if strip raw = [] then Inr []
      else (case loads raw of
          None \<Rightarrow> Inl (lit ''tool arguments were not valid JSON'')
        | Some (JObj items) \<Rightarrow> Inr items
        | Some _ \<Rightarrow> Inl (lit ''tool arguments must be a JSON object'')))"

definition error_payload :: "ustr \<Rightarrow> ustr \<Rightarrow> (ustr, json) dict" where
  "error_payload code message = [(lit ''error'', JStr code), (lit ''message'', JStr message)]"

text \<open>\<open>state.citations.extend(...)\<close> with the lazy duplicate test against the growing list.\<close>

definition extend_citations :: "citation list \<Rightarrow> citation list \<Rightarrow> citation list" where
  "extend_citations new cs =
     fold (\<lambda>c acc. if cit_uri c \<in> cit_uri ` set acc then acc else acc @ [c]) new cs"

definition tool_message :: "tool_call \<Rightarrow> ustr \<Rightarrow> chat_message" where
  "tool_message call content = \<lparr>cm_role = lit ''tool'', cm_content = Some (ContentText (strip content)),
     cm_tool_calls = [], cm_tool_call_id = Some (tlc_id call), cm_name = Some (tlc_name call)\<rparr>"

definition cap_result :: "ustr \<Rightarrow> ustr" where
  "cap_result content =
     (if length content > tool_result_char_cap then take (tool_result_char_cap - 1) content @ ellipsis
      else content)"

text \<open>The end of \<open>_execute_call\<close>, common to its three branches.\<close>

definition finish_call ::
  "('s, 'z) agent_env_scheme \<Rightarrow> tool_call \<Rightarrow> envelope \<Rightarrow> ustr \<Rightarrow> real \<Rightarrow> (ustr, json) dict \<Rightarrow> bool \<Rightarrow> ustr option
     \<Rightarrow> (llm_exn, 's \<times> tool_loop_state, chat_message) eprog" where
  "finish_call env call e cid started payload ok code =
     bindp (on_env (getp (ae_clock env))) (\<lambda>now.
     bindp (update_loop (\<lambda>t. t\<lparr>tl_calls_used := tl_calls_used t + 1,
       tl_invocations := tl_invocations t @ [\<lparr>iv_tool_id = tlc_name call, iv_ok = ok,
         iv_error_code = code, iv_latency_ms = elapsed_ms started now\<rparr>]\<rparr>)) (\<lambda>_.
     bindp (on_env (agent_trace env e cid (lit ''tool.call'') (if ok then lit ''ok'' else lit ''error'')
         (elapsed_ms started now)
         [(lit ''tool_id'', JStr (tlc_name call)), (lit ''ok'', JBool ok),
          (lit ''error_code'', jstr_opt code)])) (\<lambda>_.
     retp (tool_message call (cap_result (ae_dumps env payload))))))"

definition agent_tool_context :: "ustr \<Rightarrow> envelope \<Rightarrow> ustr list \<Rightarrow> tool_context" where
  "agent_tool_context invocation_id e granted = \<lparr>tc_invocation_id = invocation_id,
     tc_conversation = conversation_of e, tc_actor_identity_id = env_sender_identity_id e,
     tc_granted_capabilities = granted, tc_correlation_id = env_id e\<rparr>"

text \<open>What a result is turned into: data with its citations, or an error.\<close>

definition finish_result ::
  "('s, 'z) agent_env_scheme \<Rightarrow> tool_call \<Rightarrow> envelope \<Rightarrow> ustr \<Rightarrow> real \<Rightarrow> tool_result
     \<Rightarrow> (llm_exn, 's \<times> tool_loop_state, chat_message) eprog" where
  "finish_result env call e cid started r =
     (case (tr_ok r, tr_data r) of
        (True, Some d) \<Rightarrow>
          bindp (update_loop (\<lambda>t. t\<lparr>tl_citations :=
              extend_citations (collect_citations r) (tl_citations t)\<rparr>)) (\<lambda>_.
          finish_call env call e cid started (thaw_json_object d) True None)
      | _ \<Rightarrow>
          (let code = (case tr_error r of Some x \<Rightarrow> te_code x | None \<Rightarrow> lit ''tool_error'');
               message = (case tr_error r of Some x \<Rightarrow> te_message x | None \<Rightarrow> [])
           in finish_call env call e cid started (error_payload code message) (tr_ok r) (Some code)))"

definition execute_call ::
  "('s, 'z) agent_env_scheme \<Rightarrow> agent_config \<Rightarrow>
   (ustr \<Rightarrow> tool_context \<Rightarrow> arguments \<Rightarrow> ('s, tool_result) prog) \<Rightarrow> tool_call \<Rightarrow> envelope \<Rightarrow> ustr \<Rightarrow>
   ustr list \<Rightarrow> (llm_exn, 's \<times> tool_loop_state, chat_message) eprog" where
  "execute_call env cfg exec call e cid granted =
     bindp (on_env (getp (ae_clock env))) (\<lambda>started.
     bindp loop_state (\<lambda>t.
     case parse_arguments (ae_loads env) (tlc_arguments call) of
       Inl message \<Rightarrow> finish_call env call e cid started
           (error_payload (lit ''invalid_arguments'') message) False (Some (lit ''invalid_arguments''))
     | Inr args \<Rightarrow>
         if tl_calls_used t \<ge> ac_max_tool_calls cfg
         then finish_call env call e cid started
           (error_payload (lit ''tool_limit'') (lit ''the per-turn tool call limit was reached; answer now''))
           False (Some (lit ''tool_limit''))
         else
           bindp (on_env (getp (ae_new_id env))) (\<lambda>i.
           bindp (on_env (exec (tlc_name call) (agent_tool_context i e granted) args)) (\<lambda>r.
           finish_result env call e cid started r))))"

fun call_loop ::
  "('s, 'z) agent_env_scheme \<Rightarrow> agent_config \<Rightarrow>
   (ustr \<Rightarrow> tool_context \<Rightarrow> arguments \<Rightarrow> ('s, tool_result) prog) \<Rightarrow> envelope \<Rightarrow> ustr \<Rightarrow> ustr list \<Rightarrow>
   tool_call list \<Rightarrow> chat_message list \<Rightarrow> (llm_exn, 's \<times> tool_loop_state, chat_message list) eprog" where
  "call_loop env cfg exec e cid granted [] messages = retp messages"
| "call_loop env cfg exec e cid granted (call # calls) messages =
     bindp (execute_call env cfg exec call e cid granted) (\<lambda>msg.
       call_loop env cfg exec e cid granted calls (messages @ [msg]))"

definition offer_tools ::
  "('s, 'z) agent_env_scheme \<Rightarrow> agent_config \<Rightarrow> ustr list \<Rightarrow>
   (llm_exn, 's \<times> tool_loop_state, (ustr, json) dict list option) eprog" where
  "offer_tools env cfg granted st = (Inr (case (ae_tools env, ae_execute env) of
       (Some cat, Some exec) \<Rightarrow>
         if tl_calls_used (snd st) < ac_max_tool_calls cfg
         then (let tools = cat_openai_tools cat granted (fst st)
               in if tools = [] then None else Some tools)
         else None
     | _ \<Rightarrow> None), st)"

text \<open>One request to the model, traced either way, its tokens counted.\<close>

definition llm_round ::
  "('s, 'z) agent_env_scheme \<Rightarrow> agent_config \<Rightarrow> envelope \<Rightarrow> ustr \<Rightarrow> ustr list \<Rightarrow> 's completer \<Rightarrow> chat_message list
     \<Rightarrow> (llm_exn, 's \<times> tool_loop_state, llm_reply) eprog" where
  "llm_round env cfg e cid granted llm messages =
     bindp (offer_tools env cfg granted) (\<lambda>offer.
     bindp (on_env (getp (ae_clock env))) (\<lambda>started.
     bindp (\<lambda>st. case on_llm (llm messages offer) st of
         (Inl (LlmError msg retryable), st') \<Rightarrow>
            bindp (on_env (timed_trace env e cid (lit ''llm.complete'') (lit ''error'') started
              [(lit ''error_code'', JStr (lit ''LlmError'')), (lit ''retryable'', JBool retryable)]))
              (\<lambda>_. raisep (LlmError msg retryable)) st'
       | other \<Rightarrow> other) (\<lambda>reply.
     bindp (on_env (timed_trace env e cid (lit ''llm.complete'') (lit ''ok'') started
         [(lit ''model'', JStr (lr_model reply)), (lit ''prompt_tokens'', JInt (lr_prompt_tokens reply)),
          (lit ''completion_tokens'', JInt (lr_completion_tokens reply)),
          (lit ''tool_calls'', JInt (int (length (lr_tool_calls reply))))])) (\<lambda>_.
     bindp (update_loop (\<lambda>t. t\<lparr>tl_prompt_tokens := tl_prompt_tokens t + lr_prompt_tokens reply,
         tl_completion_tokens := tl_completion_tokens t + lr_completion_tokens reply,
         tl_model := Some (lr_model reply)\<rparr>)) (\<lambda>_.
     retp reply)))))"

definition assistant_message :: "llm_reply \<Rightarrow> chat_message" where
  "assistant_message reply = \<lparr>cm_role = lit ''assistant'',
     cm_content = (if lr_text reply = [] then None else Some (ContentText (strip (lr_text reply)))),
     cm_tool_calls = lr_tool_calls reply, cm_tool_call_id = None, cm_name = None\<rparr>"

fun tool_loop ::
  "('s, 'z) agent_env_scheme \<Rightarrow> agent_config \<Rightarrow> envelope \<Rightarrow> ustr \<Rightarrow> ustr list \<Rightarrow> 's completer \<Rightarrow> nat \<Rightarrow>
   chat_message list \<Rightarrow> 's \<times> tool_loop_state \<Rightarrow> ((llm_exn + ustr) \<times> ('s \<times> tool_loop_state)) option" where
  "tool_loop env cfg e cid granted llm 0 messages st = None"
| "tool_loop env cfg e cid granted llm (Suc fuel) messages st =
     (case llm_round env cfg e cid granted llm messages st of
        (Inl x, st1) \<Rightarrow> Some (Inl x, st1)
      | (Inr reply, st1) \<Rightarrow>
         (case (lr_tool_calls reply, ae_execute env) of
            (call # calls, Some exec) \<Rightarrow>
              (case call_loop env cfg exec e cid granted (call # calls)
                      (messages @ [assistant_message reply]) st1 of
                 (Inl x, st2) \<Rightarrow> Some (Inl x, st2)
               | (Inr messages2, st2) \<Rightarrow> tool_loop env cfg e cid granted llm fuel messages2 st2)
          | _ \<Rightarrow> Some (Inr (lr_text reply), st1)))"

section \<open>The turn\<close>

definition finish_error ::
  "('s, 'z) agent_env_scheme \<Rightarrow> agent_config \<Rightarrow> ustr \<Rightarrow> turn_decision \<Rightarrow> ustr option \<Rightarrow> tool_loop_state \<Rightarrow> real \<Rightarrow>
   capabilities \<Rightarrow> ustr \<Rightarrow> ('s, reply_plan) prog" where
  "finish_error env cfg cid d mid t started caps err =
     bindp (getp (ae_clock env)) (\<lambda>now.
     bindp (agent_record env (loop_row cid d (lit ''error'') mid t (elapsed_ms started now) (Some err))) (\<lambda>i.
     bindp (record_invocations env i t) (\<lambda>_.
     agent_reply env cfg (ac_llm_failure_fallback cfg) caps [])))"

definition finish_reply ::
  "('s, 'z) agent_env_scheme \<Rightarrow> agent_config \<Rightarrow> ustr \<Rightarrow> ustr \<Rightarrow> turn_decision \<Rightarrow> ustr option \<Rightarrow> tool_loop_state \<Rightarrow>
   real \<Rightarrow> ustr \<Rightarrow> capabilities \<Rightarrow> ustr \<Rightarrow> ('s, reply_plan) prog" where
  "finish_reply env cfg cid skey d mid t started today caps final_text =
     bindp (getp (ae_clock env)) (\<lambda>now.
     bindp (agent_record env (loop_row cid d (lit ''replied'') mid t (elapsed_ms started now) None)) (\<lambda>i.
     bindp (record_invocations env i t) (\<lambda>_.
     bindp (consume_budget env cfg skey (tl_prompt_tokens t + tl_completion_tokens t) today) (\<lambda>_.
     agent_reply env cfg final_text caps (tl_citations t)))))"

definition insert_system :: "ustr option \<Rightarrow> chat_message list \<Rightarrow> chat_message list" where
  "insert_system block messages = (case block of
       None \<Rightarrow> messages
     | Some b \<Rightarrow> take 1 messages @ [plain_message (lit ''system'') (ContentText b)] @ drop 1 messages)"

text \<open>What the tool loop needs, once the turn is prepared.\<close>

record 's turn_job =
  tj_messages :: "chat_message list"
  tj_granted :: "ustr list"
  tj_llm :: "'s completer"
  tj_today :: ustr

definition turn_messages ::
  "('s, 'z) agent_env_scheme \<Rightarrow> agent_config \<Rightarrow> agent_runtime option \<Rightarrow> ustr \<Rightarrow> envelope \<Rightarrow> envelope_prompt \<Rightarrow>
   ustr \<Rightarrow> history_entry list \<Rightarrow> ('s, chat_message list) prog" where
  "turn_messages env cfg runtime cid e prepared sys history =
     (let inbound_text = ep_summary prepared;
          messages = assemble_messages sys (env_platform e) (env_chat_kind e) history
            (env_sender_identity_id e) inbound_text (ac_history_token_budget cfg)
            (Some (ep_content prepared));
          memory_enabled = (case runtime of None \<Rightarrow> True | Some r \<Rightarrow> ar_memory_enabled r);
          no_memory = (env_ephemeral e \<or> \<not> memory_enabled)
      in bindp (if no_memory then retp None
                else memory_block env e inbound_text cid
                  (case runtime of None \<Rightarrow> None | Some r \<Rightarrow> ar_memory_retrieval_limit r)) (\<lambda>mem.
         bindp (if no_memory then retp None else core_memory_block env e cid) (\<lambda>core.
         bindp (case runtime of
             None \<Rightarrow> retp None
           | Some r \<Rightarrow>
               if no_memory \<or> (ar_expression_examples r \<le> 0 \<and> \<not> ar_relationship_enabled r) then retp None
               else personality_memory_block env e cid (ar_expression_examples r)
                      (ar_relationship_enabled r)) (\<lambda>personality.
         retp (insert_system core (insert_system personality (insert_system mem messages)))))))"

definition initial_loop_state :: "agent_config \<Rightarrow> tool_loop_state" where
  "initial_loop_state cfg = \<lparr>tl_prompt_tokens = 0, tl_completion_tokens = 0,
     tl_model = Some (ac_llm_model_name cfg), tl_calls_used = 0, tl_invocations = [], tl_citations = []\<rparr>"

definition budget_gate :: "('s, 'z) agent_env_scheme \<Rightarrow> agent_config \<Rightarrow> ustr \<Rightarrow> ustr \<Rightarrow> ('s, bool) prog" where
  "budget_gate env cfg skey today = (case ac_budget cfg of
       None \<Rightarrow> retp True
     | Some tb \<Rightarrow> budget_allows (ae_incr env) tb skey today)"

text \<open>With a model at hand: the budget gate, then prompt, memory and tools for the loop. The
  result is a plan when the turn ends here, else the job.\<close>

definition open_gated ::
  "('s, 'z) agent_env_scheme \<Rightarrow> agent_config \<Rightarrow> agent_runtime option \<Rightarrow> ustr \<Rightarrow> ustr \<Rightarrow> envelope \<Rightarrow>
   turn_decision \<Rightarrow> ustr option \<Rightarrow> capabilities \<Rightarrow> envelope_prompt \<Rightarrow> 's completer \<Rightarrow>
   ('s, reply_plan + 's turn_job) prog" where
  "open_gated env cfg runtime cid skey e d mid caps prepared llm =
     bindp (getp (ae_today env)) (\<lambda>today.
     bindp (budget_gate env cfg skey today) (\<lambda>allowed.
     if \<not> allowed
     then bindp (agent_record env (plain_row cid d (lit ''budget_exceeded'') mid)) (\<lambda>_.
          bindp (agent_reply env cfg (ac_budget_fallback cfg) caps []) (\<lambda>plan. retp (Inl plan)))
     else
       bindp (system_prompt env cfg
           (case runtime of None \<Rightarrow> None | Some r \<Rightarrow> ar_system_prompt r)) (\<lambda>sys.
       bindp (history_window env cfg cid (ep_summary prepared) sys e skey) (\<lambda>history.
       bindp (turn_messages env cfg runtime cid e prepared sys history) (\<lambda>messages.
       bindp (case ae_tools env of
           None \<Rightarrow> retp () | Some cat \<Rightarrow> catchp (cat_refresh cat) (\<lambda>_. retp ())) (\<lambda>_.
       retp (Inr \<lparr>tj_messages = messages,
         tj_granted = (case runtime of
             None \<Rightarrow> ac_granted_capabilities cfg
           | Some r \<Rightarrow> (case ar_granted_capabilities r of
                None \<Rightarrow> ac_granted_capabilities cfg | Some g \<Rightarrow> g)),
         tj_llm = llm, tj_today = today\<rparr>)))))))"

text \<open>\<open>run_turn\<close> up to the loop.\<close>

definition open_turn ::
  "('s, 'z) agent_env_scheme \<Rightarrow> agent_config \<Rightarrow> agent_runtime option \<Rightarrow> ustr \<Rightarrow> ustr \<Rightarrow> envelope \<Rightarrow>
   turn_decision \<Rightarrow> ustr option \<Rightarrow> capabilities \<Rightarrow> ('s, reply_plan + 's turn_job) prog" where
  "open_turn env cfg runtime cid skey e d mid caps =
     bindp (getp (ae_clock env)) (\<lambda>started.
     bindp (prepare_inbound env e) (\<lambda>prepared.
     (let multimodal = (case ep_content prepared of ContentText t \<Rightarrow> False | ContentParts ps \<Rightarrow> True);
          turn_llm = (if multimodal \<and> ae_vision_llm env \<noteq> None then ae_vision_llm env else ae_llm env)
      in bindp (timed_trace env e cid (lit ''vision.prepare'') (lit ''ok'') started
           [(lit ''mode'', JStr (if multimodal then lit ''multimodal'' else lit ''text''))]) (\<lambda>_.
      case turn_llm of
        None \<Rightarrow>
          bindp (agent_record env (plain_row cid d (lit ''fallback'') mid)) (\<lambda>_.
          bindp (agent_reply env cfg (ac_not_configured_fallback cfg) caps []) (\<lambda>plan. retp (Inl plan)))
      | Some llm \<Rightarrow> open_gated env cfg runtime cid skey e d mid caps prepared llm))))"

text \<open>\<open>run_turn\<close> after the loop, by what the loop ended with.\<close>

definition close_turn ::
  "('s, 'z) agent_env_scheme \<Rightarrow> agent_config \<Rightarrow> ustr \<Rightarrow> ustr \<Rightarrow> turn_decision \<Rightarrow> ustr option \<Rightarrow> capabilities \<Rightarrow>
   ustr \<Rightarrow> real \<Rightarrow> llm_exn + ustr \<Rightarrow> tool_loop_state \<Rightarrow> ('s, reply_plan) prog" where
  "close_turn env cfg cid skey d mid caps today started result t s = (case result of
       Inr final_text \<Rightarrow> finish_reply env cfg cid skey d mid t started today caps final_text s
     | Inl (LlmError msg _) \<Rightarrow> finish_error env cfg cid d mid t started caps msg s
     | Inl (LlmOther Cancelled) \<Rightarrow>
         if ae_expired env s
         then finish_error env cfg cid d mid t started caps (lit ''turn_deadline_exceeded'') s
         else (Inl Cancelled, s)
     | Inl (LlmOther (Raised n)) \<Rightarrow>
         if n = lit ''TimeoutError''
         then finish_error env cfg cid d mid t started caps (lit ''turn_deadline_exceeded'') s
         else (Inl (Raised n), s))"

definition run_turn ::
  "('s, 'z) agent_env_scheme \<Rightarrow> agent_config \<Rightarrow> nat \<Rightarrow> ustr \<Rightarrow> ustr \<Rightarrow> envelope \<Rightarrow> turn_decision \<Rightarrow> ustr option \<Rightarrow>
   capabilities \<Rightarrow> agent_runtime option \<Rightarrow> 's \<Rightarrow> ((exn + reply_plan) \<times> 's) option" where
  "run_turn env cfg fuel cid skey e d mid caps runtime s =
     (case open_turn env cfg runtime cid skey e d mid caps s of
        (Inl x, s1) \<Rightarrow> Some (Inl x, s1)
      | (Inr (Inl plan), s1) \<Rightarrow> Some (Inr plan, s1)
      | (Inr (Inr job), s1) \<Rightarrow>
          (case tool_loop env cfg e cid (tj_granted job) (tj_llm job) fuel (tj_messages job)
                  (s1, initial_loop_state cfg) of
             None \<Rightarrow> None
           | Some (result, (s2, t)) \<Rightarrow>
               Some (close_turn env cfg cid skey d mid caps (tj_today job) (ae_clock env s1) result t s2)))"

text \<open>\<open>after_reply\<close>: memory extraction after the delivery.\<close>

definition after_reply ::
  "('s, 'z) agent_env_scheme \<Rightarrow> agent_config \<Rightarrow> envelope \<Rightarrow> ustr \<Rightarrow> ustr \<Rightarrow> agent_runtime option \<Rightarrow> ('s, unit) prog" where
  "after_reply env cfg e skey reply_text runtime = (case ae_memory env of
       None \<Rightarrow> retp ()
     | Some mem \<Rightarrow>
         if env_ephemeral e \<or> ae_llm env = None \<or>
            (case runtime of None \<Rightarrow> False | Some r \<Rightarrow> \<not> ar_memory_enabled r)
         then retp ()
         else bindp (catchp (bindp (mh_extract mem e reply_text) (\<lambda>u. retp (Some u))) (\<lambda>_. retp None))
           (\<lambda>outcome. case outcome of
               None \<Rightarrow> retp ()
             | Some u \<Rightarrow>
                (let spent = us_prompt_tokens u + us_completion_tokens u
                 in if spent > 0 then bindp (getp (ae_today env)) (\<lambda>today.
                        consume_budget env cfg skey spent today)
                    else retp ())))"

end
