(* ===== verification/AgentHost.thy ===== *)
theory AgentHost
  imports AgentTurns TurnPolicy
begin

text \<open>
  What an agent turn does to the world around it. The locale \<open>agent_host\<close> is the contract of
  the services a turn calls: only the executor runs tools, at most one per call, and only the
  turn store is handed audit rows, which it keeps or refuses. From it follow the bound on tool
  runs and the audit row of every finished turn. The host \<open>host_env\<close> puts the development's
  own components together (the chat client on a scripted server, the tool executor, the
  in-memory counters, a turn table) and interprets the contract. Its model may be missing, its
  deadline may expire and a call may be cancelled at any request, its counters may be down and
  its turn store may refuse rows.
\<close>

lemma moves_reply: "reflp R \<Longrightarrow> moves R (agent_reply env cfg t caps cites)"
  by (simp add: moves_def agent_reply_def reflpD)

section \<open>The contract of the services\<close>

locale agent_host =
  fixes env :: "'s agent_env" and runs :: "'s \<Rightarrow> nat"
    and rows :: "'s \<Rightarrow> turn_row list \<times> turn_row list"
    and keeps :: "turn_row \<Rightarrow> bool"
  assumes llm_frame: "ae_llm env = Some llm \<Longrightarrow> moves (same_view (\<lambda>s. (runs s, rows s))) (llm ms os)"
    and vision_llm_frame:
      "ae_vision_llm env = Some llm \<Longrightarrow> moves (same_view (\<lambda>s. (runs s, rows s))) (llm ms os)"
    and vision_frame:
      "ae_vision env = Some prep \<Longrightarrow> moves (same_view (\<lambda>s. (runs s, rows s))) (prep e)"
    and persona_frame: "moves (same_view (\<lambda>s. (runs s, rows s))) (ae_persona env)"
    and history_frame: "moves (same_view (\<lambda>s. (runs s, rows s))) (ae_history env cid k)"
    and record_hands: "ae_record_turn env row s = (q, s') \<Longrightarrow> runs s' = runs s \<and>
      rows s' = (fst (rows s) @ [row], snd (rows s) @ (if keeps row then [row] else []))"
    and many_frame:
      "ae_record_many env = Some many \<Longrightarrow> moves (same_view (\<lambda>s. (runs s, rows s))) (many tid ivs)"
    and incr_frame: "moves (same_view (\<lambda>s. (runs s, rows s))) (ae_incr env key amount ttl)"
    and refresh_frame:
      "ae_tools env = Some cat \<Longrightarrow> moves (same_view (\<lambda>s. (runs s, rows s))) (cat_refresh cat)"
    and execute_once: "ae_execute env = Some exec \<Longrightarrow>
      moves (\<lambda>s s'. runs s' \<le> runs s + 1 \<and> rows s' = rows s) (exec name ctx args)"
    and memory_frame: "ae_memory env = Some mem \<Longrightarrow>
      (\<forall>load. mh_core mem = Some load \<longrightarrow> moves (same_view (\<lambda>s. (runs s, rows s))) (load e)) \<and>
      moves (same_view (\<lambda>s. (runs s, rows s))) (mh_retrieval mem e t l) \<and>
      (\<forall>fl. mh_flush mem = Some fl \<longrightarrow> moves (same_view (\<lambda>s. (runs s, rows s))) (fl e hs)) \<and>
      (\<forall>pl. mh_personality mem = Some pl \<longrightarrow> moves (same_view (\<lambda>s. (runs s, rows s))) (pl e j b))"
    and trace_frame: "ae_trace env = Some tr \<Longrightarrow>
      moves (same_view (\<lambda>s. (runs s, rows s))) (tr tid c st sta d attrs)"
begin

abbreviation quiet :: "('e, 's, 'a) eprog \<Rightarrow> bool" where
  "quiet \<equiv> moves (same_view (\<lambda>s. (runs s, rows s)))"

lemma quiet_trace [moves_intro]: "quiet (agent_trace env e cid stage status dur attrs)"
  unfolding agent_trace_def by (intro moves_intro trace_frame) simp_all

lemma quiet_timed [moves_intro]: "quiet (timed_trace env e cid stage status started attrs)"
  unfolding timed_trace_def by (intro moves_intro) simp_all

lemma quiet_consume [moves_intro]: "quiet (consume_budget env cfg skey tokens today)"
  unfolding consume_budget_def budget_consume_def by (intro moves_intro incr_frame) simp_all

lemma quiet_gate [moves_intro]: "quiet (budget_gate env cfg skey today)"
  unfolding budget_gate_def budget_allows_def under_ceiling_def
  by (intro moves_intro incr_frame) simp_all

lemma quiet_invocations [moves_intro]: "quiet (record_invocations env i t)"
proof (cases "i = None \<or> ae_record_many env = None \<or> tl_invocations t = []")
  case True
  then have "record_invocations env i t = retp ()"
    by (cases i; cases "ae_record_many env") (simp_all add: record_invocations_def)
  then show ?thesis by (simp only: moves_retp same_view_refl)
next
  case False
  then obtain j many where "i = Some j" "ae_record_many env = Some many" by auto
  moreover from this(2) have "quiet (many j (tl_invocations t))" by (rule many_frame)
  ultimately show ?thesis
    using False unfolding record_invocations_def
    by (simp only: prod.case option.case if_False) (intro moves_intro, simp_all)
qed

lemma quiet_prepare [moves_intro]: "quiet (prepare_inbound env e)"
  unfolding prepare_inbound_def by (intro moves_intro vision_frame) simp_all

lemma quiet_system_prompt [moves_intro]: "quiet (system_prompt env cfg p)"
  unfolding system_prompt_def Let_def
  by (intro moves_intro persona_frame) simp_all

lemma quiet_flush [moves_intro]: "quiet (flush_memory_history env cfg e cid skey dropped)"
proof (cases "ae_memory env")
  case (Some mem)
  then show ?thesis
    unfolding flush_memory_history_def Let_def
    by (cases "mh_flush mem") (auto intro!: moves_intro simp: memory_frame [OF Some])
qed (auto simp: flush_memory_history_def intro!: moves_intro)

lemma quiet_history [moves_intro]: "quiet (history_window env cfg cid t sys e skey)"
  unfolding history_window_def Let_def by (intro moves_intro history_frame) simp_all

lemma quiet_guarded: "quiet load \<Longrightarrow> quiet (guarded_block env e cid stage failure attrs load)"
  unfolding guarded_block_def by (intro moves_intro) simp_all

lemma quiet_memory [moves_intro]: "quiet (memory_block env e t cid l)"
proof (cases "ae_memory env")
  case (Some mem)
  then show ?thesis by (simp add: memory_block_def quiet_guarded memory_frame [OF Some])
qed (auto simp: memory_block_def intro!: moves_intro)

lemma quiet_core [moves_intro]: "quiet (core_memory_block env e cid)"
proof (cases "ae_memory env")
  case (Some mem)
  then show ?thesis
    by (cases "mh_core mem") (auto simp: core_memory_block_def memory_frame [OF Some] intro!: moves_intro quiet_guarded)
qed (auto simp: core_memory_block_def intro!: moves_intro)

lemma quiet_personality [moves_intro]: "quiet (personality_memory_block env e cid j b)"
proof (cases "ae_memory env")
  case (Some mem)
  then show ?thesis
    by (cases "mh_personality mem")
      (auto simp: personality_memory_block_def memory_frame [OF Some] intro!: moves_intro quiet_guarded)
qed (auto simp: personality_memory_block_def intro!: moves_intro)

lemma quiet_messages [moves_intro]: "quiet (turn_messages env cfg runtime cid e prepared sys history)"
  unfolding turn_messages_def Let_def by (intro moves_intro) simp_all

end

section \<open>The loop never runs more tools than its limit\<close>

text \<open>What is left of the limit, as a number of runs.\<close>

definition calls_left :: "int \<Rightarrow> tool_loop_state \<Rightarrow> nat" where
  "calls_left limit t = nat (limit - tl_calls_used t)"

text \<open>
  \<open>in_limit\<close>: tool runs plus calls left do not grow while a program goes on, and when it
  raises, the runs are at most what was allowed at its start.
\<close>

definition in_limit :: "int \<Rightarrow> ('s \<Rightarrow> nat) \<Rightarrow> ('s \<Rightarrow> 'r) \<Rightarrow> (llm_exn, 's \<times> tool_loop_state, 'a) eprog \<Rightarrow> bool" where
  "in_limit limit runs rows m \<longleftrightarrow> (\<forall>s t r s' t'. m (s, t) = (r, (s', t')) \<longrightarrow>
     rows s' = rows s \<and>
     (case r of Inr x \<Rightarrow> runs s' + calls_left limit t' \<le> runs s + calls_left limit t
              | Inl e \<Rightarrow> runs s' \<le> runs s + calls_left limit t))"

lemma in_limitD:
  "in_limit limit runs rows m \<Longrightarrow> m (s, t) = (r, (s', t')) \<Longrightarrow> rows s' = rows s \<and>
     (case r of Inr x \<Rightarrow> runs s' + calls_left limit t' \<le> runs s + calls_left limit t
              | Inl e \<Rightarrow> runs s' \<le> runs s + calls_left limit t)"
  unfolding in_limit_def by blast

lemma in_limit_bindp:
  assumes "in_limit limit runs rows m" and "\<And>x. in_limit limit runs rows (f x)"
  shows "in_limit limit runs rows (bindp m f)"
  unfolding in_limit_def
proof (intro allI impI)
  fix s t r s' t'
  assume "bindp m f (s, t) = (r, s', t')"
  then show "rows s' = rows s \<and>
     (case r of Inr x \<Rightarrow> runs s' + calls_left limit t' \<le> runs s + calls_left limit t
              | Inl e \<Rightarrow> runs s' \<le> runs s + calls_left limit t)"
  proof (cases rule: bindp_cases)
    case (raises e)
    then show ?thesis using in_limitD [OF assms(1)] by fastforce
  next
    case (returned x st1)
    obtain s1 t1 where st1: "st1 = (s1, t1)" by fastforce
    have m: "rows s1 = rows s" "runs s1 + calls_left limit t1 \<le> runs s + calls_left limit t"
      using in_limitD [OF assms(1), of s t "Inr x" s1 t1] returned(1) st1 by auto
    have f: "rows s' = rows s1 \<and> (case r of
        Inr x \<Rightarrow> runs s' + calls_left limit t' \<le> runs s1 + calls_left limit t1
      | Inl e \<Rightarrow> runs s' \<le> runs s1 + calls_left limit t1)"
      using in_limitD [OF assms(2), of x s1 t1 r s' t'] returned(2) st1 by simp
    show ?thesis using m f by (auto split: sum.splits)
  qed
qed

lemma in_limit_on_env: "moves (same_view (\<lambda>s. (runs s, rows s))) m \<Longrightarrow> in_limit limit runs rows (on_env m)"
  unfolding in_limit_def on_env_def
  by (auto simp: same_view_def dest!: movesD split: prod.splits sum.splits)

lemma moves_on_env: "moves (same_view v) m \<Longrightarrow> moves (same_view (\<lambda>st. v (fst st))) (on_env m)"
  by (rule movesI) (auto simp: on_env_def same_view_def dest!: movesD split: prod.splits sum.splits)

lemma moves_update: "moves (same_view (\<lambda>st. v (fst st))) (update_loop f)"
  by (simp add: moves_def update_loop_def same_view_def)

lemma in_limit_update: "(\<And>t. tl_calls_used t \<le> tl_calls_used (f t)) \<Longrightarrow> in_limit limit runs rows (update_loop f)"
  unfolding in_limit_def update_loop_def calls_left_def by (auto intro!: nat_mono)

lemma in_limit_retp: "in_limit limit runs rows (retp x)"
  by (simp add: in_limit_def)

lemma in_limit_loop_state: "in_limit limit runs rows loop_state"
  by (simp add: in_limit_def loop_state_def)

lemma in_limit_offer: "in_limit limit runs rows (offer_tools env cfg granted)"
  by (auto simp: in_limit_def offer_tools_def)

lemmas in_limit_intro = in_limit_bindp in_limit_retp in_limit_update in_limit_loop_state in_limit_offer in_limit_on_env

text \<open>Lifted programs do not touch the loop's state.\<close>

lemma on_env_loop: "on_env m st = (r, st') \<Longrightarrow> snd st' = snd st"
  by (auto simp: on_env_def split: prod.splits sum.splits)

lemma finish_call_used:
  assumes "finish_call env call e cid started payload ok code st = (r, st')"
  shows "tl_calls_used (snd st') = tl_calls_used (snd st) + 1 \<or>
    (\<exists>x. r = Inl x) \<and> tl_calls_used (snd st') = tl_calls_used (snd st)"
  using assms unfolding finish_call_def
  by (auto elim!: bindp_cases simp: update_loop_def dest!: on_env_loop)

context agent_host
begin

lemma in_limit_finish: "in_limit limit runs rows (finish_call env call e cid started payload ok code)"
  unfolding finish_call_def
  by (intro in_limit_bindp in_limit_on_env in_limit_update in_limit_retp moves_intro) simp_all

lemma quiet_finish:
  assumes "finish_call env call e cid started payload ok code (s, t) = (r, (s', t'))"
  shows "runs s' = runs s \<and> rows s' = rows s"
proof -
  define R where "R = same_view (\<lambda>st :: 's \<times> tool_loop_state. (runs (fst st), rows (fst st)))"
  have R: "reflp R" "transp R" by (simp_all add: R_def)
  have env: "quiet m \<Longrightarrow> moves R (on_env m)" for m :: "('s, unit) prog"
    using moves_on_env [of "\<lambda>s. (runs s, rows s)" m] by (simp add: R_def)
  have upd: "moves R (update_loop f)" for f
    using moves_update [of "\<lambda>s. (runs s, rows s)" f] by (simp add: R_def)
  have "quiet (getp (ae_clock env))" by (simp add: moves_getp)
  then have "moves R (on_env (getp (ae_clock env)))"
    using moves_on_env [of "\<lambda>s. (runs s, rows s)"] by (simp add: R_def)
  then have "moves R (finish_call env call e cid started payload ok code)"
    unfolding finish_call_def
    by (rule moves_bindp [OF R(2)]) (rule moves_bindp [OF R(2) upd] moves_bindp [OF R(2) env] quiet_trace moves_retp R(1))+
  from movesD [OF this assms] show ?thesis by (simp add: R_def same_view_def)
qed

text \<open>A result uses up one of the calls left and runs nothing.\<close>

lemma finish_result_gain:
  assumes "finish_result env call e cid started r (s, t) = (res, (s', t'))"
  shows "runs s' = runs s \<and> rows s' = rows s \<and>
    (tl_calls_used t' = tl_calls_used t + 1 \<or> (\<exists>x. res = Inl x))"
proof (cases "tr_ok r \<and> tr_data r \<noteq> None")
  case True
  then obtain d where "tr_ok r" "tr_data r = Some d" by auto
  with assms obtain t1 where "finish_call env call e cid started (thaw_json_object d) True None (s, t1) = (res, (s', t'))"
    "tl_calls_used t1 = tl_calls_used t"
    by (auto simp: finish_result_def bindp_def update_loop_def)
  with quiet_finish [OF this(1)] finish_call_used [OF this(1)] show ?thesis by auto
next
  case False
  then obtain pay ok code where "finish_call env call e cid started pay ok code (s, t) = (res, (s', t'))"
    using assms by (auto simp: finish_result_def Let_def split: bool.splits option.splits)
  from quiet_finish [OF this] finish_call_used [OF this] show ?thesis by auto
qed

text \<open>A call that is let through runs at most one tool.\<close>

lemma execute_branch:
  assumes "ae_execute env = Some exec" and "tl_calls_used t < limit"
    and "bindp (on_env (exec name ctx args)) (\<lambda>r. finish_result env call e cid started r) (s, t)
         = (res, (s', t'))"
  shows "rows s' = rows s \<and> (case res of
      Inr x \<Rightarrow> runs s' + calls_left limit t' \<le> runs s + calls_left limit t
    | Inl x \<Rightarrow> runs s' \<le> runs s + calls_left limit t)"
  using assms(3)
proof (cases rule: bindp_cases)
  case (raises x)
  then have "runs s' \<le> runs s + 1" "rows s' = rows s"
    using movesD [OF execute_once [OF assms(1)]]
    by (auto simp: on_env_def split: prod.splits sum.splits)
  then show ?thesis using raises assms(2) by (auto simp: calls_left_def)
next
  case (returned r st1)
  obtain s1 t1 where st1: "st1 = (s1, t1)" by fastforce
  from returned(1) st1 have s1: "runs s1 \<le> runs s + 1" "rows s1 = rows s" "t1 = t"
    using movesD [OF execute_once [OF assms(1)]]
    by (auto simp: on_env_def split: prod.splits sum.splits)
  from returned(2) st1 s1(3) have "finish_result env call e cid started r (s1, t) = (res, (s', t'))" by simp
  from finish_result_gain [OF this] s1 assms(2) show ?thesis
    by (auto simp: calls_left_def split: sum.splits)
qed

lemma in_limit_execute_call:
  assumes "ae_execute env = Some exec"
  shows "in_limit (ac_max_tool_calls cfg) runs rows (execute_call env cfg exec call e cid granted)"
proof -
  let ?limit = "ac_max_tool_calls cfg"
  have "rows s' = rows s \<and> (case res of
      Inr x \<Rightarrow> runs s' + calls_left ?limit t' \<le> runs s + calls_left ?limit t
    | Inl x \<Rightarrow> runs s' \<le> runs s + calls_left ?limit t)"
    if run: "execute_call env cfg exec call e cid granted (s, t) = (res, (s', t'))" for s t res s' t'
  proof (cases "(\<exists>m. parse_arguments (ae_loads env) (tlc_arguments call) = Inl m) \<or> tl_calls_used t \<ge> ?limit")
    case True
    then obtain pay ok code where
      "finish_call env call e cid (ae_clock env s) pay ok code (s, t) = (res, (s', t'))"
      using run by (auto simp: execute_call_def bindp_def on_env_def getp_def loop_state_def split: sum.splits)
    then show ?thesis by (rule in_limitD [OF in_limit_finish])
  next
    case False
    then obtain args where "parse_arguments (ae_loads env) (tlc_arguments call) = Inr args"
      by (cases "parse_arguments (ae_loads env) (tlc_arguments call)") auto
    with run False have "bindp (on_env (exec (tlc_name call) (agent_tool_context (ae_new_id env s) e granted) args))
        (\<lambda>r. finish_result env call e cid (ae_clock env s) r) (s, t) = (res, (s', t'))"
      by (simp add: execute_call_def bindp_def [of "on_env (getp _)"] bindp_def [of loop_state]
          on_env_def [of "getp _"] getp_def loop_state_def)
    from execute_branch [OF assms _ this, of ?limit] False show ?thesis by simp
  qed
  then show ?thesis unfolding in_limit_def by blast
qed

lemma in_limit_call_loop:
  assumes "ae_execute env = Some exec"
  shows "in_limit (ac_max_tool_calls cfg) runs rows (call_loop env cfg exec e cid granted calls messages)"
  by (induction calls arbitrary: messages)
    (auto intro!: in_limit_retp in_limit_bindp in_limit_execute_call assms)

lemma in_limit_llm_round:
  assumes "\<And>ms os. quiet (llm ms os)"
  shows "in_limit limit runs rows (llm_round env cfg e cid granted llm messages)"
proof -
  have "in_limit limit runs rows (\<lambda>st. case on_llm (llm messages offer) st of
         (Inl (LlmError msg retryable), st') \<Rightarrow>
            bindp (on_env (timed_trace env e cid (lit ''llm.complete'') (lit ''error'') started
              [(lit ''error_code'', JStr (lit ''LlmError'')), (lit ''retryable'', JBool retryable)]))
              (\<lambda>_. raisep (LlmError msg retryable)) st'
       | other \<Rightarrow> other)" for offer started
    unfolding in_limit_def
  proof (intro allI impI)
    fix s t r s' t'
    assume a: "(case on_llm (llm messages offer) (s, t) of
         (Inl (LlmError msg retryable), st') \<Rightarrow>
            bindp (on_env (timed_trace env e cid (lit ''llm.complete'') (lit ''error'') started
              [(lit ''error_code'', JStr (lit ''LlmError'')), (lit ''retryable'', JBool retryable)]))
              (\<lambda>_. raisep (LlmError msg retryable)) st'
       | other \<Rightarrow> other) = (r, s', t')"
    obtain x s1 where x: "llm messages offer s = (x, s1)" by fastforce
    then have s1: "runs s1 = runs s" "rows s1 = rows s"
      using movesD [OF assms] by (auto simp: same_view_def)
    show "rows s' = rows s \<and>
     (case r of Inr x \<Rightarrow> runs s' + calls_left limit t' \<le> runs s + calls_left limit t
              | Inl e \<Rightarrow> runs s' \<le> runs s + calls_left limit t)"
      using a x s1
      by (auto simp: on_llm_def on_env_def bindp_def same_view_def dest!: movesD [OF quiet_timed]
          split: sum.splits llm_exn.splits prod.splits)
  qed
  then show ?thesis
    unfolding llm_round_def
    by (intro in_limit_bindp in_limit_offer in_limit_on_env in_limit_update in_limit_retp moves_intro) simp_all
qed

lemma tool_loop_bound:
  assumes "\<And>ms os. quiet (llm ms os)"
    and "tool_loop env cfg e cid granted llm fuel messages (s, t) = Some (r, (s', t'))"
  shows "rows s' = rows s \<and> runs s' \<le> runs s + calls_left (ac_max_tool_calls cfg) t"
  using assms(2)
proof (induction fuel arbitrary: messages s t)
  case (Suc fuel)
  let ?left = "calls_left (ac_max_tool_calls cfg)"
  obtain x s1 t1 where rd: "llm_round env cfg e cid granted llm messages (s, t) = (x, (s1, t1))"
    by (metis prod.exhaust)
  note w1 = in_limitD [OF in_limit_llm_round [OF assms(1)] rd, of "ac_max_tool_calls cfg"]
  show ?case
  proof (cases "\<exists>reply call calls exec. x = Inr reply \<and> lr_tool_calls reply = call # calls \<and> ae_execute env = Some exec")
    case False
    then have "s' = s1"
      using Suc.prems rd by (auto split: sum.splits list.splits option.splits)
    with w1 show ?thesis by (auto split: sum.splits)
  next
    case True
    then obtain reply call calls exec where x: "x = Inr reply" "lr_tool_calls reply = call # calls"
      and ex: "ae_execute env = Some exec" by blast
    obtain y s2 t2 where cl: "call_loop env cfg exec e cid granted (call # calls)
        (messages @ [assistant_message reply]) (s1, t1) = (y, (s2, t2))" by (metis prod.exhaust)
    note w2 = in_limitD [OF in_limit_call_loop [OF ex] cl]
    show ?thesis
    proof (cases y)
      case (Inl z)
      then have "s' = s2" using Suc.prems rd x ex cl by simp
      with w1 w2 x Inl show ?thesis by auto
    next
      case (Inr messages2)
      then have "tool_loop env cfg e cid granted llm fuel messages2 (s2, t2) = Some (r, (s', t'))"
        using Suc.prems rd x ex cl by simp
      from Suc.IH [OF this] w1 w2 x Inr show ?thesis by auto
    qed
  qed
qed simp

end

section \<open>Every finished turn hands one row to the store\<close>

text \<open>The rows of a turn: its conversation, decision and message, and an outcome.\<close>

definition turn_outcomes :: "ustr set" where
  "turn_outcomes = {lit ''replied'', lit ''fallback'', lit ''budget_exceeded'', lit ''error''}"

definition row_of_turn :: "ustr \<Rightarrow> turn_decision \<Rightarrow> ustr option \<Rightarrow> turn_row \<Rightarrow> bool" where
  "row_of_turn cid d mid row \<longleftrightarrow> tw_conversation_id row = cid \<and> tw_decision row = d \<and>
     tw_inbound_message_id row = mid \<and> tw_outcome row \<in> turn_outcomes"

text \<open>
  The row of a turn that went through its loop, and the plan it answers with: a reply, or
  the failure text with an error.
\<close>

definition row_of_loop ::
  "('s, 'z) agent_env_scheme \<Rightarrow> agent_config \<Rightarrow> ustr \<Rightarrow> turn_decision \<Rightarrow> ustr option \<Rightarrow> capabilities
     \<Rightarrow> reply_plan \<Rightarrow> turn_row \<Rightarrow> bool" where
  "row_of_loop env cfg cid d mid caps plan row \<longleftrightarrow> row_of_turn cid d mid row \<and>
     (tw_outcome row = lit ''replied'' \<and> tw_error row = None \<or>
      tw_outcome row = lit ''error'' \<and> tw_error row \<noteq> None \<and>
      shape_reply (ae_loads env) (ac_llm_failure_fallback cfg) caps [] (ac_empty_reply_fallback cfg) = Inr plan)"

text \<open>The view after a program that answers: no tool ran, and one row fit for the answer was
  handed to the store, which kept it unless it refuses such rows.\<close>

definition row_audited ::
  "(turn_row \<Rightarrow> bool) \<Rightarrow> ('a \<Rightarrow> turn_row \<Rightarrow> bool) \<Rightarrow> nat \<times> turn_row list \<times> turn_row list \<Rightarrow> 'e + 'a
     \<Rightarrow> nat \<times> turn_row list \<times> turn_row list \<Rightarrow> bool" where
  "row_audited keeps fit a r b \<longleftrightarrow> fst b = fst a \<and> (\<forall>x. r = Inr x \<longrightarrow>
     (\<exists>row. fit x row \<and> snd b = (fst (snd a) @ [row], snd (snd a) @ (if keeps row then [row] else []))))"

lemma row_audited_refl: "row_audited keeps fit a (Inl e) a"
  by (simp add: row_audited_def)

lemma outcomes [simp]:
  "lit ''replied'' \<in> turn_outcomes" "lit ''fallback'' \<in> turn_outcomes"
  "lit ''budget_exceeded'' \<in> turn_outcomes" "lit ''error'' \<in> turn_outcomes"
  by (simp_all add: turn_outcomes_def)

context agent_host
begin

abbreviation view :: "'s \<Rightarrow> nat \<times> turn_row list \<times> turn_row list" where
  "view s \<equiv> (runs s, rows s)"

lemma audit_record:
  assumes "\<And>i. quiet (m i)" and "\<And>i s x s'. m i s = (Inr x, s') \<Longrightarrow> fit x row"
  shows "answers view (row_audited keeps fit) (bindp (agent_record env row) m)"
  unfolding answers_def
proof (intro allI impI)
  fix s r s'
  have handed: "runs s1 = runs s \<and>
      rows s1 = (fst (rows s) @ [row], snd (rows s) @ (if keeps row then [row] else []))"
    if "agent_record env row s = (q, s1)" for q s1
    using that record_hands
    by (auto simp: agent_record_def catchp_def bindp_def split: prod.splits sum.splits exn.splits)
  assume "bindp (agent_record env row) m s = (r, s')"
  then show "row_audited keeps fit (view s) r (view s')"
  proof (cases rule: bindp_cases)
    case (raises e)
    then show ?thesis using handed by (auto simp: row_audited_def)
  next
    case (returned i s1)
    have "view s' = view s1" using returned(2) movesD [OF assms(1)] by (auto simp: same_view_def)
    then show ?thesis using handed [OF returned(1)] returned(2) assms(2) by (auto simp: row_audited_def)
  qed
qed

text \<open>Before the loop: either the turn is over and audited, or nothing was recorded.\<close>

definition opened ::
  "ustr \<Rightarrow> turn_decision \<Rightarrow> ustr option \<Rightarrow> nat \<times> turn_row list \<times> turn_row list \<Rightarrow> exn + reply_plan + 's turn_job
     \<Rightarrow> nat \<times> turn_row list \<times> turn_row list \<Rightarrow> bool" where
  "opened cid d mid a r b \<longleftrightarrow> fst b = fst a \<and> (case r of
       Inl e \<Rightarrow> True
     | Inr (Inl plan) \<Rightarrow> row_audited keeps (\<lambda>_. row_of_turn cid d mid) a (Inr plan :: exn + reply_plan) b
     | Inr (Inr job) \<Rightarrow> snd b = snd a \<and>
         (ae_llm env = Some (tj_llm job) \<or> ae_vision_llm env = Some (tj_llm job)))"

lemma opened_refl: "opened cid d mid a (Inl e) a"
  by (simp add: opened_def)

lemma opened_early:
  assumes "row_of_turn cid d mid row"
  shows "answers view (opened cid d mid) (bindp (agent_record env row) (\<lambda>_.
     bindp (agent_reply env cfg t caps []) (\<lambda>plan. retp (Inl plan))))"
  unfolding answers_def
proof (intro allI impI)
  fix s r s'
  let ?m = "bindp (agent_record env row) (\<lambda>_. bindp (agent_reply env cfg t caps []) (\<lambda>plan.
    retp (Inl plan :: reply_plan + 's turn_job)))"
  assume run: "?m s = (r, s')"
  have "quiet (bindp (agent_reply env cfg t caps []) (\<lambda>plan. retp (Inl plan :: reply_plan + 's turn_job)))"
    by (intro moves_bindp moves_reply moves_retp) simp_all
  from answersD [OF audit_record [OF this, where fit = "\<lambda>_. row_of_turn cid d mid"] run] assms
  have a: "row_audited keeps (\<lambda>_. row_of_turn cid d mid) (view s) r (view s')" by blast
  have "\<exists>plan. y = Inl plan" if "r = Inr y" for y
    using run that by (auto elim!: bindp_cases)
  with a show "opened cid d mid (view s) r (view s')"
    by (cases r) (auto simp: opened_def row_audited_def)
qed

lemma open_gated_opened:
  assumes "ae_llm env = Some llm \<or> ae_vision_llm env = Some llm"
  shows "answers view (opened cid d mid) (open_gated env cfg runtime cid skey e d mid caps prepared llm)"
proof -
  have early: "answers view (opened cid d mid) (bindp (agent_record env (plain_row cid d (lit ''budget_exceeded'') mid)) (\<lambda>_.
      bindp (agent_reply env cfg (ac_budget_fallback cfg) caps []) (\<lambda>plan. retp (Inl plan))))"
    by (rule opened_early) (simp add: plain_row_def row_of_turn_def)
  have refresh: "quiet (case ae_tools env of None \<Rightarrow> retp () | Some cat \<Rightarrow> catchp (cat_refresh cat) (\<lambda>_. retp ()))"
  proof (cases "ae_tools env")
    case None
    show ?thesis unfolding None option.case by (rule moves_retp) simp
  next
    case (Some cat)
    show ?thesis
      unfolding Some option.case by (intro moves_catchp refresh_frame [OF Some] moves_retp) simp_all
  qed
  have job: "answers view (opened cid d mid) (retp (Inr job))" if "tj_llm job = llm" for job
    using that assms by (auto simp: answers_def opened_def)
  show ?thesis
    unfolding open_gated_def
    by (intro answers_bindp moves_getp quiet_gate opened_refl same_view_refl)
      (auto intro!: early answers_bindp quiet_system_prompt quiet_history quiet_messages refresh
        opened_refl job simp del: retp_apply)
qed

lemma open_turn_opened: "answers view (opened cid d mid) (open_turn env cfg runtime cid skey e d mid caps)"
proof -
  have early: "answers view (opened cid d mid) (bindp (agent_record env (plain_row cid d (lit ''fallback'') mid)) (\<lambda>_.
      bindp (agent_reply env cfg (ac_not_configured_fallback cfg) caps []) (\<lambda>plan. retp (Inl plan))))"
    by (rule opened_early) (simp add: plain_row_def row_of_turn_def)
  have choice: "answers view (opened cid d mid) (case x of None \<Rightarrow>
        bindp (agent_record env (plain_row cid d (lit ''fallback'') mid)) (\<lambda>_.
        bindp (agent_reply env cfg (ac_not_configured_fallback cfg) caps []) (\<lambda>plan. retp (Inl plan)))
      | Some llm \<Rightarrow> open_gated env cfg runtime cid skey e d mid caps prepared llm)"
    if "x = ae_llm env \<or> x = ae_vision_llm env" for x prepared
    using that by (cases x) (auto intro!: early open_gated_opened simp del: retp_apply)
  show ?thesis
    unfolding open_turn_def Let_def
    by (intro answers_bindp moves_getp quiet_prepare quiet_timed opened_refl choice same_view_refl) auto
qed

lemma quiet_reply [moves_intro]: "quiet (agent_reply env cfg t caps cites)"
  by (rule moves_reply) simp

lemma finish_reply_audited:
  "answers view (row_audited keeps (row_of_loop env cfg cid d mid caps))
     (finish_reply env cfg cid skey d mid t started today caps txt)"
  unfolding finish_reply_def
  by (intro answers_bindp audit_record moves_bindp moves_getp quiet_invocations quiet_consume quiet_reply row_audited_refl)
    (simp_all add: loop_row_def row_of_loop_def row_of_turn_def)

lemma finish_error_audited:
  "answers view (row_audited keeps (row_of_loop env cfg cid d mid caps))
     (finish_error env cfg cid d mid t started caps err)"
  unfolding finish_error_def
  by (intro answers_bindp audit_record moves_bindp moves_getp quiet_invocations quiet_reply row_audited_refl)
    (auto simp: loop_row_def row_of_loop_def row_of_turn_def agent_reply_def elim!: bindp_cases)

lemma close_turn_audited:
  "answers view (row_audited keeps (row_of_loop env cfg cid d mid caps))
     (close_turn env cfg cid skey d mid caps today started result t)"
  unfolding answers_def close_turn_def
  using answersD [OF finish_reply_audited] answersD [OF finish_error_audited]
  by (auto simp: row_audited_refl split: sum.splits llm_exn.splits exn.splits if_splits)

text \<open>A turn as a whole: the bound on its tool runs, and its one row.\<close>

lemma run_turn_spec:
  assumes "run_turn env cfg fuel cid skey e d mid caps runtime s = Some (r, s')"
  shows "runs s' \<le> runs s + nat (ac_max_tool_calls cfg)"
    and "r = Inr plan \<Longrightarrow> \<exists>row. row_of_turn cid d mid row \<and>
      rows s' = (fst (rows s) @ [row], snd (rows s) @ (if keeps row then [row] else []))"
    and "open_turn env cfg runtime cid skey e d mid caps s = (Inr (Inr job), s1) \<Longrightarrow> r = Inr plan \<Longrightarrow>
      \<exists>row. row_of_loop env cfg cid d mid caps plan row \<and>
      rows s' = (fst (rows s) @ [row], snd (rows s) @ (if keeps row then [row] else []))"
proof -
  let ?handed = "\<lambda>row. rows s' = (fst (rows s) @ [row], snd (rows s) @ (if keeps row then [row] else []))"
  obtain x s1' where op: "open_turn env cfg runtime cid skey e d mid caps s = (x, s1')" by fastforce
  note o1 = answersD [OF open_turn_opened op]
  have "runs s' \<le> runs s + nat (ac_max_tool_calls cfg) \<and> (\<forall>plan. r = Inr plan \<longrightarrow>
      (\<exists>row. (case x of Inr (Inr job) \<Rightarrow> row_of_loop env cfg cid d mid caps plan row
              | _ \<Rightarrow> row_of_turn cid d mid row) \<and> ?handed row))"
  proof (cases "\<exists>job. x = Inr (Inr job)")
    case False
    then have x: "s' = s1'" "\<And>plan. r = Inr plan \<Longrightarrow> x = Inr (Inl plan)"
      using assms op by (auto simp: run_turn_def split: sum.splits)
    have "\<exists>row. row_of_turn cid d mid row \<and> ?handed row" if "r = Inr plan" for plan
      using o1 x(1) x(2) [OF that] by (simp add: opened_def row_audited_def)
    then show ?thesis using o1 x by (auto simp: opened_def)
  next
    case True
    then obtain job where x: "x = Inr (Inr job)" by blast
    then obtain result s2 t where loop: "tool_loop env cfg e cid (tj_granted job) (tj_llm job) fuel (tj_messages job)
        (s1', initial_loop_state cfg) = Some (result, (s2, t))"
      and close: "close_turn env cfg cid skey d mid caps (tj_today job) (ae_clock env s1') result t s2 = (r, s')"
      using assms op by (auto simp: run_turn_def split: option.splits)
    from o1 x have s1: "runs s1' = runs s" "rows s1' = rows s"
      and llm: "\<And>ms os. quiet (tj_llm job ms os)"
      by (auto simp: opened_def intro: llm_frame vision_llm_frame)
    from tool_loop_bound [OF llm loop] have "rows s2 = rows s" "runs s2 \<le> runs s + nat (ac_max_tool_calls cfg)"
      by (simp_all add: s1 calls_left_def initial_loop_state_def)
    with answersD [OF close_turn_audited close] x show ?thesis by (auto simp: row_audited_def)
  qed
  then have "runs s' \<le> runs s + nat (ac_max_tool_calls cfg)"
    and fit: "r = Inr plan \<Longrightarrow> \<exists>row. (case x of Inr (Inr job) \<Rightarrow> row_of_loop env cfg cid d mid caps plan row
              | _ \<Rightarrow> row_of_turn cid d mid row) \<and> ?handed row" for plan by blast+
  then show "runs s' \<le> runs s + nat (ac_max_tool_calls cfg)" by blast
  show "\<exists>row. row_of_turn cid d mid row \<and> ?handed row" if "r = Inr plan"
  proof -
    from fit [OF that] obtain row where f: "case x of Inr (Inr job) \<Rightarrow> row_of_loop env cfg cid d mid caps plan row
              | _ \<Rightarrow> row_of_turn cid d mid row" "?handed row" by blast
    from f(1) have "row_of_turn cid d mid row" by (auto simp: row_of_loop_def split: sum.splits)
    with f(2) show ?thesis by blast
  qed
  show "\<exists>row. row_of_loop env cfg cid d mid caps plan row \<and> ?handed row"
    if "open_turn env cfg runtime cid skey e d mid caps s = (Inr (Inr job), s1)" "r = Inr plan"
    using fit [OF that(2)] that(1) op by simp
qed

end

section \<open>A host made of the development's own components\<close>

text \<open>The world: the in-memory backend with its clock, the turn table, the rows the turn store
  was handed, the tools that were run, the script of the chat server, and the conversation's
  history.\<close>

record host_world =
  hw_backend :: mem_backend
  hw_rows :: "turn_row list"
  hw_handed :: "turn_row list"
  hw_runs :: "ustr list"
  hw_script :: "http_outcome list \<times> nat"
  hw_history :: "history_entry list"

text \<open>
  A tool is its declaration and what its body answers. The chat client, when there is one, has
  a model name and a number of retries. The faults: \<open>ho_cut\<close> tells in which states a request
  to the model is cut off, \<open>ho_expired\<close> in which the turn's deadline is over (so a cut there is
  the deadline's), \<open>ho_down\<close> in which the counters cannot be reached, \<open>ho_refuses\<close> the exception
  with which the turn store refuses a row.
\<close>

record host =
  ho_tools :: "(tool_spec \<times> (arguments \<Rightarrow> exn + tool_result)) list"
  ho_model :: "ustr option"
  ho_max_retries :: int
  ho_persona :: "json option"
  ho_today :: ustr
  ho_loads :: "ustr \<Rightarrow> json option"
  ho_dumps :: "(ustr, json) dict \<Rightarrow> ustr"
  ho_cut :: "host_world \<Rightarrow> bool"
  ho_expired :: "host_world \<Rightarrow> bool"
  ho_down :: "host_world \<Rightarrow> bool"
  ho_refuses :: "turn_row \<Rightarrow> ustr option"

definition host_tool :: "tool_spec \<times> (arguments \<Rightarrow> exn + tool_result) \<Rightarrow> host_world tool" where
  "host_tool p = \<lparr>tool_spec_of = fst p, tool_run = (\<lambda>ctx args w.
     (snd p args, w\<lparr>hw_runs := hw_runs w @ [ts_id (fst p)]\<rparr>))\<rparr>"

definition host_executor :: "host \<Rightarrow> host_world tool_executor" where
  "host_executor h = \<lparr>tx_registry = mk_registry (map host_tool (ho_tools h)),
     tx_timeout_text = lit ''15'', tx_approvals = None, tx_requests = None\<rparr>"

definition host_llm :: "host \<Rightarrow> ustr \<Rightarrow> host_world completer" where
  "host_llm h model ms os w =
     (if ho_cut h w then (Inl (LlmOther Cancelled), w)
      else (case llm_complete scripted_post model (ho_max_retries h) (hw_script w) of
              (r, script) \<Rightarrow> (r, w\<lparr>hw_script := script\<rparr>)))"

definition host_incr :: "host \<Rightarrow> host_world counter_port" where
  "host_incr h key amount ttl w =
     (if ho_down h w then (Inl (Raised (lit ''ConnectionError'')), w)
      else (case mem_increment key amount ttl (hw_backend w) of
              (v, b) \<Rightarrow> (Inr v, w\<lparr>hw_backend := b\<rparr>)))"

definition host_record :: "host \<Rightarrow> turn_row \<Rightarrow> (host_world, ustr) prog" where
  "host_record h row w = (let w1 = w\<lparr>hw_handed := hw_handed w @ [row]\<rparr> in
     case ho_refuses h row of
       Some err \<Rightarrow> (Inl (Raised err), w1)
     | None \<Rightarrow> (Inr (dec (length (hw_rows w))), w1\<lparr>hw_rows := hw_rows w @ [row]\<rparr>))"

definition host_env :: "host \<Rightarrow> host_world agent_env" where
  "host_env h = \<lparr>
     ae_llm = map_option (host_llm h) (ho_model h), ae_vision_llm = None, ae_vision = None,
     ae_persona = retp (ho_persona h),
     ae_history = (\<lambda>cid k. getp (\<lambda>w. take (nat k) (hw_history w))),
     ae_record_turn = host_record h,
     ae_record_many = None, ae_incr = host_incr h,
     ae_tools = Some \<lparr>cat_openai_tools = (\<lambda>granted w. registry_openai_tools (tx_registry (host_executor h)) granted),
                      cat_refresh = retp ()\<rparr>,
     ae_execute = Some (execute (host_executor h)),
     ae_memory = None, ae_skills = None, ae_trace = None,
     ae_clock = (\<lambda>w. mb_now (hw_backend w)), ae_today = (\<lambda>w. ho_today h), ae_expired = ho_expired h,
     ae_new_id = (\<lambda>w. dec (length (hw_runs w))), ae_loads = ho_loads h, ae_dumps = ho_dumps h\<rparr>"

lemma host_registry: "registry_get (tx_registry (host_executor h)) tid = Some tool \<Longrightarrow> \<exists>p. tool = host_tool p"
proof -
  have "\<forall>(k, t) \<in> set (fold (\<lambda>t. AList.update (ts_id (tool_spec_of t)) t) (map host_tool ps) d).
      \<exists>p. t = host_tool p" if "\<forall>(k, t) \<in> set d. \<exists>p. t = host_tool p" for ps d
    using that
  proof (induction ps arbitrary: d)
    case (Cons p ps)
    have "\<forall>(k, t) \<in> set (AList.update (ts_id (tool_spec_of (host_tool p))) (host_tool p) d). \<exists>p. t = host_tool p"
      using Cons.prems by (cases p, induction d) (auto split: if_splits)
    from Cons.IH [OF this] show ?case by simp
  qed simp
  from this [of "[]"] have "\<forall>(k, t) \<in> set (tx_registry (host_executor h)). \<exists>p. t = host_tool p"
    by (simp add: host_executor_def mk_registry_def)
  moreover assume "registry_get (tx_registry (host_executor h)) tid = Some tool"
  then have "(tid, tool) \<in> set (tx_registry (host_executor h))"
    unfolding registry_get_def by (rule map_of_SomeD)
  ultimately show ?thesis by fastforce
qed

lemma host_executes_once:
  "moves (\<lambda>w w'. length (hw_runs w') \<le> length (hw_runs w) + 1 \<and>
       (hw_handed w', hw_rows w') = (hw_handed w, hw_rows w))
     (execute (host_executor h) name ctx args)"
proof (rule movesI)
  fix w r w'
  assume x: "execute (host_executor h) name ctx args w = (r, w')"
  have pol: "snd (policy (host_executor h) name ctx args w) = w"
    by (auto simp: policy_def check_approval_def approved_def host_executor_def bindp_def Let_def
        split: option.split)
  show "length (hw_runs w') \<le> length (hw_runs w) + 1 \<and> (hw_handed w', hw_rows w') = (hw_handed w, hw_rows w)"
  proof (cases "fst (policy (host_executor h) name ctx args w) = Inr None")
    case False
    then have "w' = w"
      using x pol by (auto simp: execute_policy bindp_def split: prod.splits sum.splits option.splits)
    then show ?thesis by simp
  next
    case True
    then obtain tool where tool: "registry_get (tx_registry (host_executor h)) name = Some tool"
      by (auto simp: policy_def split: option.splits)
    then obtain p where p: "tool = host_tool p" using host_registry by blast
    have "run_tool (host_executor h) (host_tool p) name ctx args w = (r, w')"
      using x True pol tool p unfolding execute_policy
      by (cases "policy (host_executor h) name ctx args w") (simp add: bindp_def)
    then have "hw_runs w' = hw_runs w @ [ts_id (fst p)]" "hw_rows w' = hw_rows w" "hw_handed w' = hw_handed w"
      by (auto simp: run_tool_def catchp_def host_tool_def split: sum.splits exn.splits if_splits)
    then show ?thesis by simp
  qed
qed

interpretation host: agent_host "host_env h" "\<lambda>w. length (hw_runs w)" "\<lambda>w. (hw_handed w, hw_rows w)"
    "\<lambda>row. ho_refuses h row = None" for h
proof unfold_locales
  show "moves (\<lambda>s s'. length (hw_runs s') \<le> length (hw_runs s) + 1 \<and>
      (hw_handed s', hw_rows s') = (hw_handed s, hw_rows s)) (exec name ctx args)"
    if "ae_execute (host_env h) = Some exec" for exec name ctx args
    using that host_executes_once [of h name ctx args] by (auto simp: host_env_def)
qed (auto simp: host_env_def same_view_def moves_def host_llm_def host_incr_def host_record_def getp_def
    case_prod_unfold Let_def split: prod.splits option.splits if_splits)

section \<open>A concrete turn\<close>

text \<open>The model calls one tool, then answers.\<close>

lemma after_getp [simp]: "bindp (getp f) k s = k (f s) s"
  by (simp add: bindp_def getp_def)

lemma after_retp: "bindp (retp x) k s = k x s"
  by (simp add: bindp_def)

lemma after_clock [simp]: "bindp (bindp (getp f) (\<lambda>x. retp ())) k s = k () s"
  by (simp add: bindp_def getp_def)

text \<open>What an early end of a turn answers and hands to the store.\<close>

definition handed_row :: "host \<Rightarrow> turn_row \<Rightarrow> host_world \<Rightarrow> host_world" where
  "handed_row h row w = w\<lparr>hw_handed := hw_handed w @ [row],
     hw_rows := hw_rows w @ (if ho_refuses h row = None then [row] else [])\<rparr>"

lemma handed_row_simps [simp]:
  "hw_handed (handed_row h row w) = hw_handed w @ [row]"
  "hw_rows (handed_row h row w) = hw_rows w @ (if ho_refuses h row = None then [row] else [])"
  "hw_runs (handed_row h row w) = hw_runs w" "hw_script (handed_row h row w) = hw_script w"
  by (simp_all add: handed_row_def)

lemma host_record_world: "\<exists>i. agent_record (host_env h) row w = (Inr i, handed_row h row w)"
  by (simp add: agent_record_def catchp_def bindp_def host_env_def host_record_def handed_row_def Let_def
      split: option.split)

lemma host_early:
  assumes "nonempty_str (ac_empty_reply_fallback cfg)"
  shows "\<exists>plan. shape_reply (ho_loads h) t caps [] (ac_empty_reply_fallback cfg) = Inr plan \<and>
    bindp (agent_record (host_env h) row) (\<lambda>_. bindp (agent_reply (host_env h) cfg t caps []) (\<lambda>plan. retp (Inl plan))) w
      = (Inr (Inl plan), handed_row h row w)"
proof -
  obtain plan where "shape_reply (ho_loads h) t caps [] (ac_empty_reply_fallback cfg) = Inr plan"
    using shape_reply_eq [OF assms] by metis
  moreover have "ae_loads (host_env h) = ho_loads h" by (simp add: host_env_def)
  moreover obtain i where "agent_record (host_env h) row w = (Inr i, handed_row h row w)"
    using host_record_world by blast
  ultimately show ?thesis by (simp add: bindp_def agent_reply_def)
qed

text \<open>How a turn of the host opens: no model, counters down, no budget left, or a job.\<close>

lemma host_open:
  assumes "ho_model h = Some model"
    and "budget_gate (host_env h) cfg skey (ho_today h) w = (Inr True, w1)"
  shows "\<exists>job. open_turn (host_env h) cfg runtime cid skey e d mid caps w = (Inr (Inr job), w1) \<and>
    tj_granted job = (case runtime of None \<Rightarrow> ac_granted_capabilities cfg
      | Some r \<Rightarrow> (case ar_granted_capabilities r of None \<Rightarrow> ac_granted_capabilities cfg | Some g \<Rightarrow> g)) \<and>
    tj_llm job = host_llm h model"
proof -
  have gate: "bindp (budget_gate (host_env h) cfg skey (ho_today h)) f w = f True w1"
    for f :: "bool \<Rightarrow> (host_world, reply_plan + host_world turn_job) prog"
    using assms(2) by (simp add: bindp_def)
  have env: "ae_llm (host_env h) = Some (host_llm h model)" "ae_vision_llm (host_env h) = None"
    "ae_vision (host_env h) = None" "ae_trace (host_env h) = None" "ae_memory (host_env h) = None"
    "ae_skills (host_env h) = None" "ae_today (host_env h) = (\<lambda>w. ho_today h)"
    "ae_persona (host_env h) = retp (ho_persona h)"
    "ae_history (host_env h) = (\<lambda>cid k. getp (\<lambda>w. take (nat k) (hw_history w)))"
    by (simp_all add: host_env_def assms(1))
  have pb: "personality_memory_block (host_env h) e cid j b = retp None" for j b
    by (simp add: personality_memory_block_def env)
  have msgs: "\<exists>ms. turn_messages (host_env h) cfg runtime cid e prepared sys hist w1 = (Inr ms, w1)" for prepared sys hist
    by (cases runtime) (auto simp: turn_messages_def memory_block_def core_memory_block_def pb env agent_trace_def
        bindp_def Let_def)
  have sys: "\<exists>p. system_prompt (host_env h) cfg rp w1 = (Inr p, w1)" for rp
    by (auto simp: system_prompt_def env catchp_def bindp_def split: option.split json.split)
  have hist: "\<exists>hs. history_window (host_env h) cfg cid t sy e skey w1 = (Inr hs, w1)" for t sy
    by (auto simp: history_window_def flush_memory_history_def env getp_def bindp_def Let_def)
  have gated: "\<exists>job. open_gated (host_env h) cfg runtime cid skey e d mid caps prepared (host_llm h model) w = (Inr (Inr job), w1) \<and>
    tj_granted job = (case runtime of None \<Rightarrow> ac_granted_capabilities cfg
      | Some r \<Rightarrow> (case ar_granted_capabilities r of None \<Rightarrow> ac_granted_capabilities cfg | Some g \<Rightarrow> g)) \<and>
    tj_llm job = host_llm h model" for prepared
  proof -
    obtain p where "system_prompt (host_env h) cfg (case runtime of None \<Rightarrow> None | Some r \<Rightarrow> ar_system_prompt r) w1
        = (Inr p, w1)" using sys by blast
    then have p: "bindp (system_prompt (host_env h) cfg (case runtime of None \<Rightarrow> None | Some r \<Rightarrow> ar_system_prompt r)) f w1 = f p w1"
      for f :: "ustr \<Rightarrow> (host_world, reply_plan + host_world turn_job) prog" by (simp add: bindp_def)
    obtain hs where "history_window (host_env h) cfg cid (ep_summary prepared) p e skey w1 = (Inr hs, w1)" using hist by blast
    then have hs: "bindp (history_window (host_env h) cfg cid (ep_summary prepared) p e skey) f w1 = f hs w1"
      for f :: "history_entry list \<Rightarrow> (host_world, reply_plan + host_world turn_job) prog" by (simp add: bindp_def)
    obtain ms where "turn_messages (host_env h) cfg runtime cid e prepared p hs w1 = (Inr ms, w1)" using msgs by blast
    then have ms: "bindp (turn_messages (host_env h) cfg runtime cid e prepared p hs) f w1 = f ms w1"
      for f :: "chat_message list \<Rightarrow> (host_world, reply_plan + host_world turn_job) prog" by (simp add: bindp_def)
    have tools: "bindp (case ae_tools (host_env h) of None \<Rightarrow> retp () | Some cat \<Rightarrow> catchp (cat_refresh cat) (\<lambda>_. retp ())) f w1 = f () w1"
      for f :: "unit \<Rightarrow> (host_world, reply_plan + host_world turn_job) prog"
      by (simp add: host_env_def catchp_def bindp_def)
    show ?thesis by (simp add: open_gated_def env gate p hs ms tools)
  qed
  then show ?thesis
    by (simp add: open_turn_def Let_def prepare_inbound_def timed_trace_def agent_trace_def env after_retp)
qed


lemma host_open_gated:
  assumes "ho_model h = Some model"
  shows "open_turn (host_env h) cfg runtime cid skey e d mid caps w =
    open_gated (host_env h) cfg runtime cid skey e d mid caps (mk_envelope_prompt e False) (host_llm h model) w"
proof -
  have env: "ae_llm (host_env h) = Some (host_llm h model)" "ae_vision_llm (host_env h) = None"
    "ae_vision (host_env h) = None" "ae_trace (host_env h) = None" by (simp_all add: host_env_def assms)
  show ?thesis
    by (simp add: open_turn_def Let_def prepare_inbound_def timed_trace_def agent_trace_def env
        after_retp)
qed

lemma host_open_refused:
  assumes "ho_model h = Some model" and "nonempty_str (ac_empty_reply_fallback cfg)"
    and "budget_gate (host_env h) cfg skey (ho_today h) w = (Inr False, w1)"
  shows "\<exists>plan. shape_reply (ho_loads h) (ac_budget_fallback cfg) caps [] (ac_empty_reply_fallback cfg) = Inr plan \<and>
    open_turn (host_env h) cfg runtime cid skey e d mid caps w
      = (Inr (Inl plan), handed_row h (plain_row cid d (lit ''budget_exceeded'') mid) w1)"
proof -
  have "ae_today (host_env h) = (\<lambda>w. ho_today h)" by (simp add: host_env_def)
  moreover have "bindp (budget_gate (host_env h) cfg skey (ho_today h)) f w = f False w1"
    for f :: "bool \<Rightarrow> (host_world, reply_plan + host_world turn_job) prog"
    using assms(3) by (simp add: bindp_def)
  ultimately show ?thesis
    using host_early [OF assms(2), of h "ac_budget_fallback cfg" caps "plain_row cid d (lit ''budget_exceeded'') mid" w1]
    by (simp add: host_open_gated [OF assms(1)] open_gated_def)
qed


text \<open>The counters raise only one thing, and touch neither rows nor tools nor the script.\<close>

lemma host_incr_frame: "host_incr h key a ttl w = (r, w') \<Longrightarrow>
   hw_handed w' = hw_handed w \<and> hw_rows w' = hw_rows w \<and> hw_runs w' = hw_runs w \<and> hw_script w' = hw_script w \<and>
   (\<forall>x. r = Inl x \<longrightarrow> x = Raised (lit ''ConnectionError''))"
  by (auto simp: host_incr_def split: if_splits prod.splits)

lemma host_gate_frame:
  assumes "budget_gate (host_env h) cfg skey today w = (r, w')"
  shows "hw_handed w' = hw_handed w \<and> hw_rows w' = hw_rows w \<and> hw_runs w' = hw_runs w \<and> hw_script w' = hw_script w"
    and "r = Inl x \<Longrightarrow> x = Raised (lit ''ConnectionError'') \<and> ac_budget cfg \<noteq> None"
proof -
  have incr: "ae_incr (host_env h) = host_incr h" by (simp add: host_env_def)
  have under: "hw_handed w' = hw_handed w \<and> hw_rows w' = hw_rows w \<and> hw_runs w' = hw_runs w \<and> hw_script w' = hw_script w \<and>
     (\<forall>x. r = Inl x \<longrightarrow> x = Raised (lit ''ConnectionError''))"
    if "under_ceiling (host_incr h) c k w = (r, w')" for c k w r w'
    using that host_incr_frame
    by (auto simp: under_ceiling_def elim!: bindp_cases split: if_splits)
  have "hw_handed w' = hw_handed w \<and> hw_rows w' = hw_rows w \<and> hw_runs w' = hw_runs w \<and> hw_script w' = hw_script w \<and>
     (\<forall>x. r = Inl x \<longrightarrow> x = Raised (lit ''ConnectionError'') \<and> ac_budget cfg \<noteq> None)"
  proof (cases "ac_budget cfg")
    case None
    then show ?thesis using assms by (auto simp: budget_gate_def)
  next
    case (Some tb)
    then have "budget_allows (host_incr h) tb skey today w = (r, w')" using assms incr by (simp add: budget_gate_def)
    then show ?thesis
      unfolding budget_allows_def
      by (cases rule: bindp_cases) (use under Some in \<open>auto split: if_splits dest: under\<close>)
  qed
  then show "hw_handed w' = hw_handed w \<and> hw_rows w' = hw_rows w \<and> hw_runs w' = hw_runs w \<and> hw_script w' = hw_script w"
    "r = Inl x \<Longrightarrow> x = Raised (lit ''ConnectionError'') \<and> ac_budget cfg \<noteq> None" by blast+
qed



definition call_body :: json where
  "call_body = JObj [(lit ''choices'', JArr [JObj [(lit ''message'', JObj [(lit ''tool_calls'',
     JArr [JObj [(lit ''id'', JStr (lit ''i'')), (lit ''function'', JObj [(lit ''name'', JStr (lit ''t''))])]])])]])]"

lemma call_reply: "parse_reply m call_body = Inr \<lparr>lr_text = [], lr_model = m, lr_prompt_tokens = 0,
   lr_completion_tokens = 0, lr_tool_calls = [\<lparr>tlc_id = lit ''i'', tlc_name = lit ''t'', tlc_arguments = []\<rparr>],
   lr_finish_reason = lit ''stop''\<rparr>"
  by (simp add: parse_reply_def call_body_def Let_def dict_or_def payload_get_def dict_get_def
    get_mapping_def get_str_def str_or_def message_tool_calls_def validate_str_def str_simps strip_id py_space_def
    int_or_def get_int_def)

definition demo_host :: host where
  "demo_host = \<lparr>ho_tools = [(demo_spec, \<lambda>args. Inr (tool_success []))], ho_model = Some (lit ''m''),
     ho_max_retries = 0, ho_persona = None, ho_today = lit ''d'', ho_loads = (\<lambda>t. None),
     ho_dumps = (\<lambda>d. []), ho_cut = (\<lambda>w. False), ho_expired = (\<lambda>w. False), ho_down = (\<lambda>w. False),
     ho_refuses = (\<lambda>row. None)\<rparr>"

definition demo_config :: agent_config where
  "demo_config = \<lparr>ac_budget = None, ac_default_system_prompt = lit ''p'', ac_llm_model_name = lit ''m'',
     ac_history_max_messages = 4, ac_history_token_budget = 100, ac_history_flush_max_messages = 2,
     ac_granted_capabilities = [lit ''net''], ac_max_tool_calls = 1, ac_skill_prompt_max_chars = 10,
     ac_not_configured_fallback = not_configured_fallback, ac_llm_failure_fallback = llm_failure_fallback,
     ac_budget_fallback = budget_fallback, ac_empty_reply_fallback = empty_reply_fallback\<rparr>"

definition demo_world :: host_world where
  "demo_world = \<lparr>hw_backend = mem_init, hw_rows = [], hw_handed = [], hw_runs = [],
     hw_script = ([HttpResponse 200 (Some call_body), HttpResponse 200 (Some text_body)], 0),
     hw_history = []\<rparr>"

definition demo_turn :: "((exn + reply_plan) \<times> host_world) option" where
  "demo_turn = run_turn (host_env demo_host) demo_config 2 (lit ''c'') (lit ''k'')
     (demo_envelope DIRECT [TextSegment (lit ''hi'')]) (decision AGENT (lit ''r'') DIRECT_MESSAGE)
     None demo_caps None demo_world"

lemma demo_llm:
  "hw_script w = (HttpResponse 200 (Some b) # rest, n) \<Longrightarrow>
   host_llm demo_host (lit ''m'') ms os w = (parse_reply (lit ''m'') b, w\<lparr>hw_script := (rest, Suc n)\<rparr>)"
  by (simp add: host_llm_def llm_complete_def demo_host_def scripted_post_def retryable_status_def)

lemma demo_exec: "execute (host_executor demo_host) (lit ''t'') (agent_tool_context i e [lit ''net'']) [] w
   = (Inr (tool_success []), w\<lparr>hw_runs := hw_runs w @ [lit ''t'']\<rparr>)"
proof -
  have g: "registry_get (tx_registry (host_executor demo_host)) (lit ''t'') = Some (host_tool (demo_spec, \<lambda>args. Inr (tool_success [])))"
    by (simp add: registry_get_def host_executor_def mk_registry_def demo_host_def host_tool_def demo_spec_def)
  have m: "missing_capabilities (tool_spec_of (host_tool (demo_spec, \<lambda>args. Inr (tool_success [])))) (agent_tool_context i e [lit ''net'']) = []"
    by (simp add: missing_Nil host_tool_def demo_spec_def agent_tool_context_def)
  show ?thesis
    by (simp add: execute_def g m Let_def check_approval_def bindp_def run_tool_def catchp_def)
      (simp add: host_tool_def demo_spec_def)
qed

lemma demo_turn_runs: "\<exists>plan w'. demo_turn = Some (Inr plan, w') \<and> hw_runs w' = [lit ''t'']"
proof -
  obtain job where job: "open_turn (host_env demo_host) demo_config None (lit ''c'') (lit ''k'')
      (demo_envelope DIRECT [TextSegment (lit ''hi'')]) (decision AGENT (lit ''r'') DIRECT_MESSAGE)
      None demo_caps demo_world = (Inr (Inr job), demo_world)"
    "tj_granted job = [lit ''net'']" "tj_llm job = host_llm demo_host (lit ''m'')"
    using host_open [of demo_host "lit ''m''" demo_config "lit ''k''" demo_world demo_world None]
    by (fastforce simp: demo_config_def demo_host_def budget_gate_def)
  define w1 where "w1 = demo_world\<lparr>hw_script := ([HttpResponse 200 (Some text_body)], 1)\<rparr>"
  define w2 where "w2 = demo_world\<lparr>hw_script := ([], 2), hw_runs := [lit ''t'']\<rparr>"
  have l1: "host_llm demo_host (lit ''m'') ms os demo_world = (parse_reply (lit ''m'') call_body, w1)" for ms os
    using demo_llm [of demo_world call_body "[HttpResponse 200 (Some text_body)]" 0 ms os]
    by (simp add: demo_world_def w1_def)
  have l2: "host_llm demo_host (lit ''m'') ms os (w1\<lparr>hw_runs := [lit ''t'']\<rparr>) = (parse_reply (lit ''m'') text_body, w2)" for ms os
    using demo_llm [of "w1\<lparr>hw_runs := [lit ''t'']\<rparr>" text_body "[]" 1 ms os]
    by (simp add: demo_world_def w1_def w2_def numeral_2_eq_2)
  have runs1: "hw_runs w1 = []" by (simp add: w1_def demo_world_def)
  have "\<exists>t. tool_loop (host_env demo_host) demo_config (demo_envelope DIRECT [TextSegment (lit ''hi'')]) (lit ''c'')
      [lit ''net''] (host_llm demo_host (lit ''m'')) 2 (tj_messages job) (demo_world, initial_loop_state demo_config)
      = Some (Inr (lit ''done''), (w2, t))"
    by (simp add: numeral_2_eq_2 llm_round_def bindp_def offer_tools_def on_env_def on_llm_def getp_def
      l1 call_reply timed_trace_def agent_trace_def update_loop_def host_env_def initial_loop_state_def
      execute_call_def loop_state_def parse_arguments_def demo_config_def demo_exec runs1 finish_result_def
      tool_success_def freeze_json_object_def finish_call_def l2 text_reply)
  then obtain t where loop: "tool_loop (host_env demo_host) demo_config
      (demo_envelope DIRECT [TextSegment (lit ''hi'')]) (lit ''c'') [lit ''net''] (host_llm demo_host (lit ''m'')) 2
      (tj_messages job) (demo_world, initial_loop_state demo_config) = Some (Inr (lit ''done''), (w2, t))" by blast
  obtain plan where "shape_reply (\<lambda>t. None) (lit ''done'') demo_caps (tl_citations t) empty_reply_fallback = Inr plan"
    using shape_reply_eq [OF fallback_nonempty] by metis
  then have "\<exists>w'. close_turn (host_env demo_host) demo_config (lit ''c'') (lit ''k'')
      (decision AGENT (lit ''r'') DIRECT_MESSAGE) None demo_caps today started (Inr (lit ''done'')) t w2 = (Inr plan, w')
      \<and> hw_runs w' = [lit ''t'']" for today started
    by (simp add: close_turn_def finish_reply_def bindp_def getp_def agent_record_def catchp_def host_env_def
        record_invocations_def consume_budget_def demo_config_def agent_reply_def demo_host_def w2_def
        host_record_def Let_def)
  then obtain w' where "close_turn (host_env demo_host) demo_config (lit ''c'') (lit ''k'')
      (decision AGENT (lit ''r'') DIRECT_MESSAGE) None demo_caps (tj_today job)
      (ae_clock (host_env demo_host) demo_world) (Inr (lit ''done'')) t w2 = (Inr plan, w')"
    "hw_runs w' = [lit ''t'']" by blast
  then show ?thesis by (simp add: demo_turn_def run_turn_def job loop)
qed

section \<open>Fuel\<close>

text \<open>A model that calls no tool when none is offered.\<close>

definition obedient :: "'s completer \<Rightarrow> bool" where
  "obedient llm \<longleftrightarrow> (\<forall>ms s reply s'. llm ms None s = (Inr reply, s') \<longrightarrow> lr_tool_calls reply = [])"

lemma execute_call_used:
  assumes "execute_call env cfg exec call e cid granted st = (Inr msg, st')"
  shows "tl_calls_used (snd st') = tl_calls_used (snd st) + 1"
proof -
  have fin: "finish_call env call e cid started pay ok code st1 = (Inr msg, st') \<Longrightarrow>
      tl_calls_used (snd st') = tl_calls_used (snd st1) + 1" for started pay ok code st1
    using finish_call_used by blast
  have res: "finish_result env call e cid started r st1 = (Inr msg, st') \<Longrightarrow>
      tl_calls_used (snd st') = tl_calls_used (snd st1) + 1" for started r st1
    by (auto simp: finish_result_def Let_def update_loop_def elim!: bindp_cases dest!: fin
        split: bool.splits option.splits)
  show ?thesis
    using assms unfolding execute_call_def
    by (auto simp: loop_state_def elim!: bindp_cases dest!: fin res on_env_loop
        split: sum.splits if_splits)
qed

lemma call_loop_used:
  "call_loop env cfg exec e cid granted calls messages st = (Inr messages', st') \<Longrightarrow>
     tl_calls_used (snd st') = tl_calls_used (snd st) + int (length calls)"
proof (induction calls arbitrary: messages st)
  case (Cons call calls)
  from Cons.prems show ?case
    by (auto elim!: bindp_cases dest!: execute_call_used Cons.IH)
qed simp

lemma on_env_getp [simp]: "on_env (getp f) st = (Inr (f (fst st)), st)"
  by (simp add: on_env_def getp_def)

lemma llm_round_Inr:
  fixes st :: "'s \<times> tool_loop_state"
  assumes "llm_round env cfg e cid granted llm messages st = (Inr reply, st')"
  shows "tl_calls_used (snd st') = tl_calls_used (snd st)"
    and "\<exists>offer s1. llm messages offer (fst st) = (Inr reply, s1) \<and>
      (tl_calls_used (snd st) \<ge> ac_max_tool_calls cfg \<longrightarrow> offer = None)"
proof -
  show "tl_calls_used (snd st') = tl_calls_used (snd st)"
    using assms unfolding llm_round_def
    by (auto simp: offer_tools_def update_loop_def on_llm_def elim!: bindp_cases dest!: on_env_loop
        split: prod.splits sum.splits llm_exn.splits option.splits if_splits)
  obtain offer where off: "offer_tools env cfg granted st = (Inr offer, st)"
    "tl_calls_used (snd st) \<ge> ac_max_tool_calls cfg \<longrightarrow> offer = None"
    by (auto simp: offer_tools_def split: option.split)
  obtain y s1 where y: "llm messages offer (fst st) = (y, s1)" by (rule prod.exhaust)
  have "y = Inr reply"
  proof -
    have "bindp (offer_tools env cfg granted) f st = f offer st" for f :: "_ \<Rightarrow> (llm_exn, 's \<times> tool_loop_state, llm_reply) eprog"
      using off(1) by (rule bindp_Inr)
    moreover have "bindp (on_env (getp g)) f st = f (g (fst st)) st" for g and f :: "_ \<Rightarrow> (llm_exn, 's \<times> tool_loop_state, llm_reply) eprog"
      by (simp add: bindp_def)
    ultimately show ?thesis
      using assms y unfolding llm_round_def
      by (auto simp: on_llm_def elim!: bindp_cases split: sum.splits llm_exn.splits)
  qed
  then show "\<exists>offer s1. llm messages offer (fst st) = (Inr reply, s1) \<and>
      (tl_calls_used (snd st) \<ge> ac_max_tool_calls cfg \<longrightarrow> offer = None)"
    using y off(2) by blast
qed

lemma obedient_loop_returns:
  assumes "obedient llm" and "nat (ac_max_tool_calls cfg - tl_calls_used (snd st)) < fuel"
  shows "tool_loop env cfg e cid granted llm fuel messages st \<noteq> None"
  using assms(2)
proof (induction fuel arbitrary: messages st)
  case (Suc fuel)
  obtain x st1 where rd: "llm_round env cfg e cid granted llm messages st = (x, st1)" by (rule prod.exhaust)
  show ?case
  proof (cases "\<exists>reply call calls exec. x = Inr reply \<and> lr_tool_calls reply = call # calls \<and> ae_execute env = Some exec")
    case False
    then show ?thesis using rd by (auto split: sum.splits list.splits option.splits)
  next
    case True
    then obtain reply call calls exec where x: "x = Inr reply" "lr_tool_calls reply = call # calls"
      and ex: "ae_execute env = Some exec" by blast
    note rd1 = llm_round_Inr [OF rd [unfolded x]]
    have lt: "tl_calls_used (snd st) < ac_max_tool_calls cfg"
      using rd1(2) assms(1) x(2) unfolding obedient_def by force
    obtain y st2 where cl: "call_loop env cfg exec e cid granted (call # calls)
        (messages @ [assistant_message reply]) st1 = (y, st2)" by (rule prod.exhaust)
    show ?thesis
    proof (cases y)
      case (Inl z)
      then show ?thesis using rd x ex cl by simp
    next
      case (Inr messages2)
      have "tl_calls_used (snd st2) \<ge> tl_calls_used (snd st) + 1"
        using call_loop_used [OF cl [unfolded Inr]] rd1(1) by simp
      then have "nat (ac_max_tool_calls cfg - tl_calls_used (snd st2)) < fuel"
        using Suc.prems lt by linarith
      from Suc.IH [OF this] show ?thesis using rd x ex cl Inr by simp
    qed
  qed
qed simp

text \<open>A model that calls a tool in every answer, offered or not, keeps the loop going for
  any number of rounds: nothing in the loop itself ends it.\<close>

definition stubborn_reply :: llm_reply where
  "stubborn_reply = \<lparr>lr_text = [], lr_model = [], lr_prompt_tokens = 1, lr_completion_tokens = 1,
     lr_tool_calls = [\<lparr>tlc_id = lit ''i'', tlc_name = lit ''t'', tlc_arguments = []\<rparr>],
     lr_finish_reason = lit ''tool_calls''\<rparr>"

lemma stubborn_loop_never_ends:
  assumes "ae_trace env = None" and "ae_execute env = Some (\<lambda>n ctx args. retp (mk_fail [] [] False))"
    and "\<And>ms os s. llm ms os s = (Inr stubborn_reply, s)"
  shows "tool_loop env cfg e cid granted llm fuel messages st = None"
proof (induction fuel arbitrary: messages st)
  case (Suc fuel)
  have fin: "\<exists>m a b. finish_call env call e cid started pay ok code st1 = (Inr m, a, b)" for call started pay ok code st1
    using assms(1) by (simp add: finish_call_def bindp_def on_env_def getp_def update_loop_def agent_trace_def)
  have call: "\<exists>m st2. execute_call env cfg (\<lambda>n ctx args. retp (mk_fail [] [] False)) c e cid granted st1
      = (Inr m, st2)" if "tlc_arguments c = []" for c st1
    using that by (auto simp: execute_call_def bindp_def on_env_def getp_def loop_state_def parse_arguments_def
        finish_result_def mk_fail_def tool_failure_def Let_def intro!: fin)
  have round: "\<exists>st1. llm_round env cfg e cid granted llm messages st = (Inr stubborn_reply, st1)"
    using assms by (simp add: llm_round_def bindp_def offer_tools_def on_env_def on_llm_def getp_def timed_trace_def
        agent_trace_def update_loop_def)
  then obtain st1 where r: "llm_round env cfg e cid granted llm messages st = (Inr stubborn_reply, st1)" by blast
  obtain m st2 where "execute_call env cfg (\<lambda>n ctx args. retp (mk_fail [] [] False))
      \<lparr>tlc_id = lit ''i'', tlc_name = lit ''t'', tlc_arguments = []\<rparr> e cid granted st1 = (Inr m, st2)"
    using call [of "\<lparr>tlc_id = lit ''i'', tlc_name = lit ''t'', tlc_arguments = []\<rparr>" st1] by auto
  then show ?case
    using Suc.IH r assms(2) by (simp add: stubborn_reply_def bindp_def)
qed simp

section \<open>Properties\<close>

text \<open>
  C9: one turn runs at most \<open>max_tool_calls\<close> tools, whatever the model asks for, however
  many calls it puts into one answer and however the turn ends.
\<close>

theorem turn_tool_runs_bounded:
  assumes "run_turn (host_env h) cfg fuel cid skey e d mid caps runtime w = Some (r, w')"
  shows "length (hw_runs w') \<le> length (hw_runs w) + nat (ac_max_tool_calls cfg)"
  using host.run_turn_spec(1) [OF assms] .

theorem turn_tool_runs_bounded_witness:
  "\<exists>w' :: host_world. length (hw_runs w') \<le> 1 \<and> hw_runs w' = [lit ''t'']"
proof -
  obtain plan w' where "demo_turn = Some (Inr plan, w')" "hw_runs w' = [lit ''t'']"
    using demo_turn_runs by blast
  moreover from turn_tool_runs_bounded [OF this(1) [unfolded demo_turn_def]]
  have "length (hw_runs w') \<le> 1" by (simp add: demo_world_def demo_config_def)
  ultimately show ?thesis by blast
qed



text \<open>
  when the day's budget is used up, the turn does not reach the model: it answers with
  the budget text, no request is posted, no tool runs, and the row says budget_exceeded.
\<close>

theorem exceeded_budget_stops_turn:
  assumes "ho_model h = Some model"
    and "budget_gate (host_env h) cfg skey (ho_today h) w = (Inr False, w1)"
    and "nonempty_str (ac_empty_reply_fallback cfg)"
  shows "\<exists>plan w'. run_turn (host_env h) cfg fuel cid skey e d mid caps runtime w = Some (Inr plan, w') \<and>
    shape_reply (ho_loads h) (ac_budget_fallback cfg) caps [] (ac_empty_reply_fallback cfg) = Inr plan \<and>
    hw_script w' = hw_script w \<and> hw_runs w' = hw_runs w \<and>
    hw_handed w' = hw_handed w @ [plain_row cid d (lit ''budget_exceeded'') mid]"
proof -
  obtain plan where "shape_reply (ho_loads h) (ac_budget_fallback cfg) caps [] (ac_empty_reply_fallback cfg) = Inr plan"
    "open_turn (host_env h) cfg runtime cid skey e d mid caps w
      = (Inr (Inl plan), handed_row h (plain_row cid d (lit ''budget_exceeded'') mid) w1)"
    using host_open_refused [OF assms(1,3,2)] by blast
  then show ?thesis using host_gate_frame(1) [OF assms(2)] by (simp add: run_turn_def)
qed

lemma demo_budget_refuses:
  "\<exists>w1. budget_gate (host_env demo_host)
     (demo_config\<lparr>ac_budget := Some \<lparr>tb_global_daily_ceiling = 1, tb_conversation_daily_ceiling = 0, tb_key_prefix = []\<rparr>\<rparr>) []
     (ho_today demo_host)
     (demo_world\<lparr>hw_backend := mem_init\<lparr>mb_counters := [(lit '':d:global'', (5, 9))], mb_now := 0\<rparr>\<rparr>) = (Inr False, w1)"
  by (simp add: budget_gate_def budget_allows_def under_ceiling_def host_incr_def mem_increment_def global_key_def demo_host_def
      dict_get_def str_simps Let_def host_env_def bindp_def)

theorem exceeded_budget_stops_turn_witness:
  "\<exists>plan w'. run_turn (host_env demo_host)
     (demo_config\<lparr>ac_budget := Some \<lparr>tb_global_daily_ceiling = 1, tb_conversation_daily_ceiling = 0, tb_key_prefix = []\<rparr>\<rparr>)
     1 [] [] (demo_envelope DIRECT []) (decision AGENT [] DIRECT_MESSAGE) None demo_caps None
     (demo_world\<lparr>hw_backend := mem_init\<lparr>mb_counters := [(lit '':d:global'', (5, 9))], mb_now := 0\<rparr>\<rparr>) = Some (Inr plan, w')"
proof -
  obtain w1 where "budget_gate (host_env demo_host)
     (demo_config\<lparr>ac_budget := Some \<lparr>tb_global_daily_ceiling = 1, tb_conversation_daily_ceiling = 0, tb_key_prefix = []\<rparr>\<rparr>) []
     (ho_today demo_host)
     (demo_world\<lparr>hw_backend := mem_init\<lparr>mb_counters := [(lit '':d:global'', (5, 9))], mb_now := 0\<rparr>\<rparr>) = (Inr False, w1)"
    using demo_budget_refuses by blast
  from exceeded_budget_stops_turn [OF _ this, of "lit ''m''" 1 "[]" "demo_envelope DIRECT []" "decision AGENT [] DIRECT_MESSAGE" None demo_caps None]
  show ?thesis by (simp add: demo_config_def demo_host_def fallback_nonempty) blast
qed

text \<open>
  a request that is cut when the turn's deadline is over does not lose the turn: it is
  answered with the failure text, and its row says so.
\<close>

lemma deadline_is_answered:
  assumes "ho_model h = Some model" and "\<And>w. ho_cut h w" and "\<And>w. ho_expired h w"
    and "budget_gate (host_env h) cfg skey (ho_today h) w = (Inr True, w1)"
    and "nonempty_str (ac_empty_reply_fallback cfg)"
  shows "\<exists>plan w' row. run_turn (host_env h) cfg (Suc fuel) cid skey e d mid caps runtime w = Some (Inr plan, w') \<and>
    hw_handed w' = hw_handed w @ [row] \<and> tw_error row = Some (lit ''turn_deadline_exceeded'')"
proof -
  from host_open [OF assms(1,4)] obtain job where
    op: "open_turn (host_env h) cfg runtime cid skey e d mid caps w = (Inr (Inr job), w1)"
    and llm: "tj_llm job = host_llm h model" by blast
  have cut: "host_llm h model ms os u = (Inl (LlmOther Cancelled), u)" for ms os u
    using assms(2) by (simp add: host_llm_def)
  have loop: "tool_loop (host_env h) cfg e cid (tj_granted job) (tj_llm job) (Suc fuel) (tj_messages job) (w1, initial_loop_state cfg)
      = Some (Inl (LlmOther Cancelled), (w1, initial_loop_state cfg))"
    by (simp add: llm llm_round_def bindp_def offer_tools_def on_env_def on_llm_def getp_def cut)
  define row where "row = loop_row cid d (lit ''error'') mid (initial_loop_state cfg)
    (elapsed_ms (ae_clock (host_env h) w1) (ae_clock (host_env h) w1)) (Some (lit ''turn_deadline_exceeded''))"
  obtain plan where plan: "shape_reply (ho_loads h) (ac_llm_failure_fallback cfg) caps [] (ac_empty_reply_fallback cfg) = Inr plan"
    using shape_reply_eq [OF assms(5)] by metis
  obtain i where rcd: "agent_record (host_env h) row w1 = (Inr i, handed_row h row w1)" using host_record_world by blast
  have "ae_expired (host_env h) w1" "ae_loads (host_env h) = ho_loads h" "ae_record_many (host_env h) = None"
    using assms(3) by (simp_all add: host_env_def)
  then have "close_turn (host_env h) cfg cid skey d mid caps (tj_today job) (ae_clock (host_env h) w1)
      (Inl (LlmOther Cancelled)) (initial_loop_state cfg) w1 = (Inr plan, handed_row h row w1)"
    using rcd plan
    by (simp add: close_turn_def finish_error_def bindp_def getp_def row_def [symmetric] agent_reply_def
        record_invocations_def split: option.split)
  then show ?thesis using op loop host_gate_frame(1) [OF assms(4)]
    by (simp add: run_turn_def) (simp add: row_def loop_row_def)
qed

text \<open>
  against models that call no tool when none is offered, a turn always comes to an end
  (with an answer or an exception): one more round than the tool limit is enough, whatever
  the services do.
\<close>

theorem obedient_turn_returns:
  assumes "\<forall>llm. ae_llm env = Some llm \<or> ae_vision_llm env = Some llm \<longrightarrow> obedient llm"
    and "nat (ac_max_tool_calls cfg) < fuel"
  shows "run_turn env cfg fuel cid skey e d mid caps runtime s \<noteq> None"
proof -
  have llm: "ae_llm env = Some (tj_llm job) \<or> ae_vision_llm env = Some (tj_llm job)"
    if "open_turn env cfg runtime cid skey e d mid caps s = (Inr (Inr job), s1)" for job s1
    using that unfolding open_turn_def open_gated_def Let_def
    by (auto elim!: bindp_cases split: option.splits if_splits)
  obtain x s1 where op: "open_turn env cfg runtime cid skey e d mid caps s = (x, s1)" by fastforce
  show ?thesis
  proof (cases "\<exists>job. x = Inr (Inr job)")
    case False
    then show ?thesis using op by (auto simp: run_turn_def split: sum.splits)
  next
    case True
    then obtain job where x: "x = Inr (Inr job)" by blast
    have "tool_loop env cfg e cid (tj_granted job) (tj_llm job) fuel (tj_messages job)
        (s1, initial_loop_state cfg) \<noteq> None"
      using assms llm op x by (intro obedient_loop_returns) (auto simp: initial_loop_state_def)
    then show ?thesis using op x by (auto simp: run_turn_def)
  qed
qed

definition silent_llm :: "host_world completer" where
  "silent_llm ms os w = (Inr (stubborn_reply\<lparr>lr_tool_calls := []\<rparr>), w)"

theorem obedient_turn_returns_witness:
  "run_turn (host_env demo_host\<lparr>ae_llm := Some silent_llm\<rparr>) demo_config 2 [] [] (demo_envelope DIRECT [])
     (decision AGENT [] DIRECT_MESSAGE) None demo_caps None demo_world \<noteq> None"
  by (rule obedient_turn_returns) (auto simp: host_env_def obedient_def silent_llm_def demo_config_def)

end
