(* ===== verification/Leases.thy ===== *)
theory Leases
  imports Prelude
begin

text \<open>
  Conversation leases, \<open>src/mybot/infrastructure/leases.py\<close>: the process-local backend with
  its clock as a field of the state, a step relation for any interleaving of workers and
  passing time, and the manager that runs work under a lease. The result: while a lease is
  in force nobody else gets, renews or drops it, and the manager never reports success for
  work whose lease was lost.
\<close>

section \<open>The backend\<close>

record lease_backend =
  lb_now :: real
  lb_leases :: "(ustr, ustr \<times> real) dict"

definition lease_acquire :: "ustr \<Rightarrow> ustr \<Rightarrow> int \<Rightarrow> lease_backend \<Rightarrow> bool \<times> lease_backend" where
  "lease_acquire key token ttl_ms b =
     (let grant = (True, b\<lparr>lb_leases := AList.update key (token, lb_now b + of_int ttl_ms / 1000) (lb_leases b)\<rparr>)
      in case map_of (lb_leases b) key of
           None \<Rightarrow> grant
         | Some (_, expiry) \<Rightarrow> if expiry > lb_now b then (False, b) else grant)"

definition lease_renew :: "ustr \<Rightarrow> ustr \<Rightarrow> int \<Rightarrow> lease_backend \<Rightarrow> bool \<times> lease_backend" where
  "lease_renew key token ttl_ms b =
     (case map_of (lb_leases b) key of
        None \<Rightarrow> (False, b)
      | Some (owner, expiry) \<Rightarrow>
          if owner \<noteq> token \<or> expiry \<le> lb_now b then (False, b)
          else (True, b\<lparr>lb_leases := AList.update key (token, lb_now b + of_int ttl_ms / 1000) (lb_leases b)\<rparr>))"

definition lease_release :: "ustr \<Rightarrow> ustr \<Rightarrow> lease_backend \<Rightarrow> bool \<times> lease_backend" where
  "lease_release key token b =
     (case map_of (lb_leases b) key of
        None \<Rightarrow> (False, b)
      | Some (owner, _) \<Rightarrow>
          if owner \<noteq> token then (False, b)
          else (True, b\<lparr>lb_leases := AList.delete key (lb_leases b)\<rparr>))"

section \<open>Any interleaving\<close>

text \<open>What can happen: a call with its answer, or time passing.\<close>

datatype lease_event =
    Acquire ustr ustr int bool
  | Renew ustr ustr int bool
  | Release ustr ustr bool
  | Tick real

inductive lease_step :: "lease_backend \<Rightarrow> lease_event \<Rightarrow> lease_backend \<Rightarrow> bool" where
  acquire: "lease_acquire key token ttl b = (ok, b') \<Longrightarrow> lease_step b (Acquire key token ttl ok) b'"
| renew: "lease_renew key token ttl b = (ok, b') \<Longrightarrow> lease_step b (Renew key token ttl ok) b'"
| release: "lease_release key token b = (ok, b') \<Longrightarrow> lease_step b (Release key token ok) b'"
| tick: "0 \<le> d \<Longrightarrow> lease_step b (Tick d) (b\<lparr>lb_now := lb_now b + d\<rparr>)"

inductive lease_trace :: "lease_backend \<Rightarrow> lease_event list \<Rightarrow> lease_backend \<Rightarrow> bool" where
  finished: "lease_trace b [] b"
| more: "lease_step b ev b' \<Longrightarrow> lease_trace b' evs b'' \<Longrightarrow> lease_trace b (ev # evs) b''"

inductive_cases lease_step_cases [elim!]:
  "lease_step b (Acquire key token ttl ok) b'"
  "lease_step b (Renew key token ttl ok) b'"
  "lease_step b (Release key token ok) b'"
  "lease_step b (Tick d) b'"

inductive_cases lease_trace_Cons: "lease_trace b (ev # evs) b'"

inductive_cases lease_trace_Nil: "lease_trace b [] b'"

text \<open>The token and key an event is about, and its answer.\<close>

fun event_by :: "lease_event \<Rightarrow> (ustr \<times> ustr) option" where
  "event_by (Acquire key token ttl ok) = Some (key, token)"
| "event_by (Renew key token ttl ok) = Some (key, token)"
| "event_by (Release key token ok) = Some (key, token)"
| "event_by (Tick d) = None"

fun event_ok :: "lease_event \<Rightarrow> bool" where
  "event_ok (Acquire key token ttl ok) = ok"
| "event_ok (Renew key token ttl ok) = ok"
| "event_ok (Release key token ok) = ok"
| "event_ok (Tick d) = False"

lemma lease_step_now: "lease_step b ev b' \<Longrightarrow> lb_now b \<le> lb_now b'"
  by (cases ev)
    (auto simp: lease_acquire_def lease_renew_def lease_release_def Let_def
      split: option.splits if_splits)

lemma lease_trace_now: "lease_trace b evs b' \<Longrightarrow> lb_now b \<le> lb_now b'"
  by (induction rule: lease_trace.induct) (auto dest: lease_step_now)

text \<open>While the lease of \<open>a\<close> is in force, a step that is not by \<open>a\<close> leaves it alone and,
  when it is about this key, is refused.\<close>

lemma foreign_step:
  assumes "lease_step b ev b'" and "map_of (lb_leases b) key = Some (a, expiry)"
    and "lb_now b < expiry" and "event_by ev \<noteq> Some (key, a)"
  shows "map_of (lb_leases b') key = Some (a, expiry) \<and>
    ((\<exists>token. event_by ev = Some (key, token)) \<longrightarrow> \<not> event_ok ev)"
  using assms
  by (cases ev)
    (auto simp: lease_acquire_def lease_renew_def lease_release_def Let_def dict_simps
      split: option.splits if_splits)

section \<open>The manager\<close>

text \<open>
  \<open>LeaseManager.run\<close> over a state that also holds the \<open>lost\<close> event. The renewer task runs
  while \<open>work\<close> runs, so its effects are part of what \<open>work\<close> does to the state; a renewer that
  finds the lease lost sets the event and cancels the owner. \<open>sleep\<close> is the pause between two
  attempts. The wait loop takes fuel: \<open>None\<close> means that the attempts went on longer.
\<close>

record 's lease_ops =
  lo_acquire :: "ustr \<Rightarrow> ustr \<Rightarrow> int \<Rightarrow> ('s, bool) prog"
  lo_renew :: "ustr \<Rightarrow> ustr \<Rightarrow> int \<Rightarrow> ('s, bool) prog"
  lo_release :: "ustr \<Rightarrow> ustr \<Rightarrow> ('s, bool) prog"
  lo_clock :: "'s \<Rightarrow> real"
  lo_sleep :: "('s, unit) prog"
  lo_lost :: "'s \<Rightarrow> bool"
  lo_set_lost :: "'s \<Rightarrow> 's"

fun lease_wait ::
  "'s lease_ops \<Rightarrow> ustr \<Rightarrow> ustr \<Rightarrow> int \<Rightarrow> real \<Rightarrow> nat \<Rightarrow> 's \<Rightarrow> ((exn + unit) \<times> 's) option" where
  "lease_wait ops key token ttl_ms deadline 0 s = None"
| "lease_wait ops key token ttl_ms deadline (Suc fuel) s =
     (case lo_acquire ops key token ttl_ms s of
        (Inl e, s1) \<Rightarrow> Some (Inl e, s1)
      | (Inr True, s1) \<Rightarrow> Some (Inr (), s1)
      | (Inr False, s1) \<Rightarrow>
          if lo_clock ops s1 \<ge> deadline then Some (Inl (Raised (lit ''TimeoutError'')), s1)
          else (case lo_sleep ops s1 of
                  (Inl e, s2) \<Rightarrow> Some (Inl e, s2)
                | (Inr _, s2) \<Rightarrow> lease_wait ops key token ttl_ms deadline fuel s2))"

text \<open>One round of the renewer: \<open>True\<close> ends it (the lease is lost).\<close>

definition renew_round :: "'s lease_ops \<Rightarrow> ustr \<Rightarrow> ustr \<Rightarrow> int \<Rightarrow> ('s, bool) prog" where
  "renew_round ops key token ttl_ms =
     bindp (catchp (lo_renew ops key token ttl_ms) (\<lambda>_. retp False)) (\<lambda>owned s.
       if \<not> owned then (Inr True, lo_set_lost ops s) else (Inr False, s))"

definition lease_lost_error :: exn where
  "lease_lost_error = Raised (lit ''LeaseLostError'')"

text \<open>The body of the \<open>try\<close>: what the work ended with, read against the \<open>lost\<close> event.\<close>

definition guarded_work :: "'s lease_ops \<Rightarrow> ('s, 'a) prog \<Rightarrow> ('s, 'a) prog" where
  "guarded_work ops work s =
     (case work s of
        (Inr x, s1) \<Rightarrow> if lo_lost ops s1 then (Inl lease_lost_error, s1) else (Inr x, s1)
      | (Inl Cancelled, s1) \<Rightarrow>
          if lo_lost ops s1 then (Inl lease_lost_error, s1) else (Inl Cancelled, s1)
      | (Inl (Raised n), s1) \<Rightarrow> (Inl (Raised n), s1))"

text \<open>The \<open>finally\<close>: release, swallowing what it raises unless it is cancelled itself.\<close>

definition finally_release :: "'s lease_ops \<Rightarrow> ustr \<Rightarrow> ustr \<Rightarrow> ('s, 'a) prog \<Rightarrow> ('s, 'a) prog" where
  "finally_release ops key token m s =
     (case m s of (r, s1) \<Rightarrow>
        (case catchp (lo_release ops key token) (\<lambda>_. retp False) s1 of
           (Inl e, s2) \<Rightarrow> (Inl e, s2)
         | (Inr _, s2) \<Rightarrow> (r, s2)))"

definition lease_run ::
  "'s lease_ops \<Rightarrow> (ustr \<Rightarrow> ustr) \<Rightarrow> int \<Rightarrow> real \<Rightarrow> ustr \<Rightarrow> ustr \<Rightarrow> ('s, 'a) prog \<Rightarrow> nat \<Rightarrow> 's
     \<Rightarrow> ((exn + 'a) \<times> 's) option" where
  "lease_run ops key_of ttl_ms wait_timeout token stable_key work fuel s =
     (let key = key_of stable_key; deadline = lo_clock ops s + wait_timeout
      in case lease_wait ops key token ttl_ms deadline fuel s of
           None \<Rightarrow> None
         | Some (Inl e, s1) \<Rightarrow> Some (Inl e, s1)
         | Some (Inr _, s1) \<Rightarrow> Some (finally_release ops key token (guarded_work ops work) s1))"

section \<open>The manager on the process-local backend\<close>

text \<open>The world of the manager: the backend, the \<open>lost\<close> event, and how long a pause takes.\<close>

record lease_world =
  lw_backend :: lease_backend
  lw_lost :: bool

definition local_leases :: "real \<Rightarrow> lease_world lease_ops" where
  "local_leases pause = \<lparr>
     lo_acquire = (\<lambda>key token ttl. liftp (\<lambda>w. case lease_acquire key token ttl (lw_backend w) of
        (ok, b) \<Rightarrow> (ok, w\<lparr>lw_backend := b\<rparr>))),
     lo_renew = (\<lambda>key token ttl. liftp (\<lambda>w. case lease_renew key token ttl (lw_backend w) of
        (ok, b) \<Rightarrow> (ok, w\<lparr>lw_backend := b\<rparr>))),
     lo_release = (\<lambda>key token. liftp (\<lambda>w. case lease_release key token (lw_backend w) of
        (ok, b) \<Rightarrow> (ok, w\<lparr>lw_backend := b\<rparr>))),
     lo_clock = (\<lambda>w. lb_now (lw_backend w)),
     lo_sleep = (\<lambda>w. (Inr (), w\<lparr>lw_backend := (lw_backend w)\<lparr>lb_now := lb_now (lw_backend w) + pause\<rparr>\<rparr>)),
     lo_lost = lw_lost, lo_set_lost = (\<lambda>w. w\<lparr>lw_lost := True\<rparr>)\<rparr>"

lemma local_sleep: "lo_sleep (local_leases p) w
    = (Inr (), w\<lparr>lw_backend := (lw_backend w)\<lparr>lb_now := lb_now (lw_backend w) + p\<rparr>\<rparr>)"
  by (simp add: local_leases_def)

lemma local_acquire: "lo_acquire (local_leases p) key token ttl w
    = (Inr (fst (lease_acquire key token ttl (lw_backend w))),
       w\<lparr>lw_backend := snd (lease_acquire key token ttl (lw_backend w))\<rparr>)"
  by (simp add: local_leases_def liftp_def case_prod_unfold)

lemma local_clock: "lo_clock (local_leases p) w = lb_now (lw_backend w)"
  by (simp add: local_leases_def)

lemma local_release: "lo_release (local_leases p) key token w
    = (Inr (fst (lease_release key token (lw_backend w))),
       w\<lparr>lw_backend := snd (lease_release key token (lw_backend w))\<rparr>)"
  by (simp add: local_leases_def liftp_def case_prod_unfold)

lemma local_lost: "lo_lost (local_leases p) w = lw_lost w"
  by (simp add: local_leases_def)

lemmas local_simps = local_acquire local_release local_clock local_sleep local_lost

lemma acquire_now [simp]: "lb_now (snd (lease_acquire key token ttl b)) = lb_now b"
  by (simp add: lease_acquire_def Let_def split: option.split)

text \<open>With a positive pause the wait loop is over after as many attempts as pauses fit before
  the deadline.\<close>

lemma local_wait_ends:
  assumes "0 < p" and "deadline - lb_now (lw_backend w) \<le> real fuel * p"
  shows "lease_wait (local_leases p) key token ttl deadline (Suc fuel) w \<noteq> None"
  using assms(2)
proof (induction fuel arbitrary: w)
  case 0
  then show ?case by (auto simp: local_acquire local_clock split: bool.split)
next
  case (Suc fuel)
  let ?w1 = "w\<lparr>lw_backend := snd (lease_acquire key token ttl (lw_backend w))\<rparr>"
  let ?w2 = "?w1\<lparr>lw_backend := (lw_backend ?w1)\<lparr>lb_now := lb_now (lw_backend ?w1) + p\<rparr>\<rparr>"
  have "deadline - lb_now (lw_backend ?w2) \<le> real fuel * p"
    using Suc.prems by (simp add: algebra_simps)
  from Suc.IH [OF this] show ?case
    by (subst lease_wait.simps(2)) (auto simp: local_simps split: bool.split)
qed

section \<open>Properties\<close>

text \<open>
  C40: a lease is exclusive. As long as the lease of \<open>a\<close> has not expired, no interleaving of
  steps by others takes it away: the entry stays, and every attempt of another token to
  acquire, renew or release this key is refused.
\<close>

theorem lease_exclusive:
  assumes "lease_trace b evs b'" and "map_of (lb_leases b) key = Some (a, expiry)"
    and "lb_now b' < expiry" and "\<forall>ev \<in> set evs. event_by ev \<noteq> Some (key, a)"
  shows "map_of (lb_leases b') key = Some (a, expiry) \<and>
    (\<forall>ev \<in> set evs. \<forall>token. event_by ev = Some (key, token) \<longrightarrow> \<not> event_ok ev)"
  using assms
proof (induction rule: lease_trace.induct)
  case (more b ev b' evs b'')
  have "lb_now b < expiry"
    using more.hyps more.prems(2) lease_step_now lease_trace_now by fastforce
  with foreign_step [OF more.hyps(1) more.prems(1)] more.prems(3)
  have "map_of (lb_leases b') key = Some (a, expiry)"
    and "\<forall>token. event_by ev = Some (key, token) \<longrightarrow> \<not> event_ok ev" by auto
  with more.IH [OF _ more.prems(2)] more.prems(3) show ?case by auto
qed simp

definition demo_lease :: lease_backend where
  "demo_lease = \<lparr>lb_now = 0, lb_leases = [(lit ''k'', (lit ''a'', 30))]\<rparr>"

theorem lease_exclusive_witness:
  "map_of (lb_leases (demo_lease\<lparr>lb_now := 5\<rparr>)) (lit ''k'') = Some (lit ''a'', 30)"
proof -
  have a: "lease_acquire (lit ''k'') (lit ''b'') 30000 (demo_lease\<lparr>lb_now := 5\<rparr>)
      = (False, demo_lease\<lparr>lb_now := 5\<rparr>)"
    by (simp add: lease_acquire_def demo_lease_def)
  have "lease_step demo_lease (Tick 5) (demo_lease\<lparr>lb_now := 5\<rparr>)"
    using lease_step.tick [of 5 demo_lease] by (simp add: demo_lease_def)
  from lease_trace.more [OF this lease_trace.more [OF lease_step.acquire [OF a] lease_trace.finished]]
  have "lease_trace demo_lease [Tick 5, Acquire (lit ''k'') (lit ''b'') 30000 False]
      (demo_lease\<lparr>lb_now := 5\<rparr>)" .
  from lease_exclusive [OF this, of "lit ''k''" "lit ''a''" 30] show ?thesis
    by (simp add: demo_lease_def str_simps)
qed

text \<open>
  running work under a lease. Whatever the services do, an answer means that the lease
  was acquired, that the work returned it and that the lease was not lost meanwhile; and
  once acquired, the lease is released after the work on every path.
\<close>

theorem lease_run_safe:
  assumes "lease_run ops key_of ttl wait token skey work fuel s = Some (r, s')"
    and "lease_wait ops (key_of skey) token ttl (lo_clock ops s + wait) fuel s = Some (Inr u, s1)"
  shows "s' = snd (catchp (lo_release ops (key_of skey) token) (\<lambda>_. retp False) (snd (work s1))) \<and>
    (\<forall>x. r = Inr x \<longrightarrow> fst (work s1) = Inr x \<and> \<not> lo_lost ops (snd (work s1)))"
proof -
  have g: "snd (guarded_work ops work s1) = snd (work s1)"
    by (auto simp: guarded_work_def split: prod.split sum.split exn.split)
  have "finally_release ops (key_of skey) token (guarded_work ops work) s1 = (r, s')"
    using assms by (simp add: lease_run_def Let_def)
  then have s': "s' = snd (catchp (lo_release ops (key_of skey) token) (\<lambda>_. retp False) (snd (work s1)))"
    and r: "\<And>x. r = Inr x \<Longrightarrow> fst (guarded_work ops work s1) = Inr x"
    using g by (auto simp: finally_release_def split: prod.splits sum.splits)
  have "fst (work s1) = Inr x \<and> \<not> lo_lost ops (snd (work s1))" if "r = Inr x" for x
    using r [OF that] by (auto simp: guarded_work_def split: prod.splits sum.splits exn.splits if_splits)
  with s' show ?thesis by blast
qed

definition demo_lease_world :: lease_world where
  "demo_lease_world = \<lparr>lw_backend = \<lparr>lb_now = 0, lb_leases = []\<rparr>, lw_lost = False\<rparr>"

theorem lease_run_safe_witness:
  "\<exists>s'. lease_run (local_leases 1) id 30000 10 (lit ''a'') (lit ''k'') (retp True) (Suc 0) demo_lease_world
     = Some (Inr True, s') \<and> map_of (lb_leases (lw_backend s')) (lit ''k'') = None"
proof -
  let ?w1 = "demo_lease_world\<lparr>lw_backend := \<lparr>lb_now = 0, lb_leases = [(lit ''k'', (lit ''a'', 30))]\<rparr>\<rparr>"
  have acq: "lease_acquire (lit ''k'') (lit ''a'') 30000 (lw_backend demo_lease_world) = (True, lw_backend ?w1)"
    by (simp add: lease_acquire_def demo_lease_world_def)
  have wait: "lease_wait (local_leases 1) (id (lit ''k'')) (lit ''a'') 30000
      (lo_clock (local_leases 1) demo_lease_world + 10) (Suc 0) demo_lease_world = Some (Inr (), ?w1)"
    using acq by (simp add: local_acquire)
  have rel: "lease_release (lit ''k'') (lit ''a'') (lw_backend ?w1) = (True, lw_backend demo_lease_world)"
    by (simp add: lease_release_def demo_lease_world_def)
  have run: "lease_run (local_leases 1) id 30000 10 (lit ''a'') (lit ''k'') (retp True) (Suc 0) demo_lease_world
      = Some (Inr True, demo_lease_world)"
    using wait rel
    by (simp del: lease_wait.simps add: lease_run_def finally_release_def guarded_work_def catchp_def local_simps)
      (simp add: demo_lease_world_def)
  have "demo_lease_world = snd (catchp (lo_release (local_leases 1) (id (lit ''k'')) (lit ''a''))
      (\<lambda>_. retp False) (snd ((retp True :: (lease_world, bool) prog) ?w1)))"
    by (rule conjunct1 [OF lease_run_safe [OF run wait]])
  moreover have "map_of (lb_leases (lw_backend (snd (catchp (lo_release (local_leases 1) (id (lit ''k'')) (lit ''a''))
      (\<lambda>_. retp False) (snd ((retp True :: (lease_world, bool) prog) ?w1)))))) (lit ''k'') = None"
  proof -
    have "snd (catchp (lo_release (local_leases 1) (id (lit ''k'')) (lit ''a''))
      (\<lambda>_. retp False) (snd ((retp True :: (lease_world, bool) prog) ?w1))) = ?w1\<lparr>lw_backend := lw_backend demo_lease_world\<rparr>"
      using rel by (simp add: catchp_def local_release)
    then show ?thesis by (simp only: lease_world.simps lease_world.update_convs) (simp add: demo_lease_world_def)
  qed
  ultimately show ?thesis using run by metis
qed

text \<open>
  waiting for a lease ends: on the process-local backend with a positive pause between
  attempts, the wait is over (granted or timed out) after at most one attempt more than
  pauses fit into the waiting time.
\<close>

theorem lease_wait_terminates:
  assumes "0 < pause" and "wait \<le> real n * pause"
  shows "lease_run (local_leases pause) key_of ttl wait token skey work (Suc n) w \<noteq> None"
  using local_wait_ends [OF assms(1), of "lb_now (lw_backend w) + wait" w n "key_of skey" token ttl] assms(2)
  by (auto simp: lease_run_def Let_def local_clock simp del: lease_wait.simps split: option.splits sum.splits)

theorem lease_wait_terminates_witness:
  "lease_run (local_leases 60) id 30000 180 (lit ''b'') (lit ''k'') (retp True) (Suc 3)
     \<lparr>lw_backend = demo_lease, lw_lost = False\<rparr> \<noteq> None"
  by (rule lease_wait_terminates [of 60 180 3]) simp_all

end
