(* ===== verification/KeywordMatcher.thy ===== *)
theory KeywordMatcher
  imports Prelude "HOL-Library.Sublist" "HOL-Library.List_Lexorder"
begin

text \<open>
  The keyword automaton of \<open>src/mybot/security/moderation.py\<close> (\<open>AhoCorasickMatcher\<close>): the
  trie of the terms, the failure links computed in breadth-first order, and the scan. The
  result is the equivalence with the obvious reference: the scan reports exactly the terms
  that occur in the text, sorted.

  \<open>str.casefold\<close> is the parameter \<open>casefold\<close>. The three loops that the code runs until a
  condition holds are \<open>partial_function\<close>s into \<open>option\<close>, so that they return is proved.
\<close>

section \<open>The automaton\<close>

record automaton =
  ac_goto :: "(nat, nat) dict list"
  ac_fail :: "nat list"
  ac_output :: "ustr set list"

definition ac_empty :: automaton where
  "ac_empty = \<lparr>ac_goto = [[]], ac_fail = [0], ac_output = [{}]\<rparr>"

definition ac_new_state :: "automaton \<Rightarrow> nat \<Rightarrow> nat \<Rightarrow> automaton" where
  "ac_new_state a st c = \<lparr>
     ac_goto = (ac_goto a)[st := AList.update c (length (ac_goto a)) (ac_goto a ! st)] @ [[]],
     ac_fail = ac_fail a @ [0],
     ac_output = ac_output a @ [{}]\<rparr>"

fun ac_walk :: "automaton \<Rightarrow> nat \<Rightarrow> ustr \<Rightarrow> nat \<times> automaton" where
  "ac_walk a st [] = (st, a)"
| "ac_walk a st (c # cs) =
     (case map_of (ac_goto a ! st) c of
        Some nxt \<Rightarrow> ac_walk a nxt cs
      | None \<Rightarrow> ac_walk (ac_new_state a st c) (length (ac_goto a)) cs)"

definition ac_add :: "(ustr \<Rightarrow> ustr) \<Rightarrow> automaton \<Rightarrow> ustr \<Rightarrow> automaton" where
  "ac_add casefold a raw =
     (let term = casefold (strip raw)
      in if term = [] then a
         else case ac_walk a 0 term of
                (st, a') \<Rightarrow> a'\<lparr>ac_output := (ac_output a')[st := insert term (ac_output a' ! st)]\<rparr>)"

text \<open>\<open>while state and character not in self._goto[state]: state = self._fail[state]\<close>.\<close>

partial_function (option) ac_fall :: "automaton \<Rightarrow> nat \<Rightarrow> nat \<Rightarrow> nat option" where
  "ac_fall a c st =
     (if st \<noteq> 0 \<and> map_of (ac_goto a ! st) c = None then ac_fall a c (ac_fail a ! st) else Some st)"

text \<open>The children of a state: enqueued, linked to their failure state, outputs merged.\<close>

fun ac_link :: "automaton \<Rightarrow> nat list \<Rightarrow> nat \<Rightarrow> (nat, nat) dict \<Rightarrow> (automaton \<times> nat list) option" where
  "ac_link a queue st [] = Some (a, queue)"
| "ac_link a queue st ((c, target) # children) =
     (case ac_fall a c (ac_fail a ! st) of
        None \<Rightarrow> None
      | Some failure \<Rightarrow>
          let f = dict_get (ac_goto a ! failure) c 0;
              a1 = a\<lparr>ac_fail := (ac_fail a)[target := f]\<rparr>;
              a2 = a1\<lparr>ac_output := (ac_output a1)[target := ac_output a1 ! target \<union> ac_output a1 ! f]\<rparr>
          in ac_link a2 (queue @ [target]) st children)"

partial_function (option) ac_bfs :: "automaton \<Rightarrow> nat list \<Rightarrow> automaton option" where
  "ac_bfs a queue =
     (case queue of
        [] \<Rightarrow> Some a
      | st # rest \<Rightarrow>
          (case ac_link a rest st (ac_goto a ! st) of
             None \<Rightarrow> None
           | Some (a', queue') \<Rightarrow> ac_bfs a' queue'))"

definition ac_build :: "(ustr \<Rightarrow> ustr) \<Rightarrow> ustr list \<Rightarrow> automaton option" where
  "ac_build casefold terms =
     (let a = foldl (ac_add casefold) ac_empty terms in ac_bfs a (map snd (ac_goto a ! 0)))"

fun ac_scan :: "automaton \<Rightarrow> nat \<Rightarrow> ustr set \<Rightarrow> ustr \<Rightarrow> ustr set option" where
  "ac_scan a st found [] = Some found"
| "ac_scan a st found (c # cs) =
     (case ac_fall a c st of
        None \<Rightarrow> None
      | Some st' \<Rightarrow>
          let nxt = dict_get (ac_goto a ! st') c 0 in ac_scan a nxt (found \<union> ac_output a ! nxt) cs)"

definition ac_find :: "(ustr \<Rightarrow> ustr) \<Rightarrow> automaton \<Rightarrow> ustr \<Rightarrow> ustr list option" where
  "ac_find casefold a txt = map_option sorted_list_of_set (ac_scan a 0 {} (casefold txt))"

section \<open>Longest suffixes\<close>

text \<open>The longest suffix of a word that lies in a prefix-closed set of words.\<close>

primrec longest :: "ustr set \<Rightarrow> ustr \<Rightarrow> ustr" where
  "longest W [] = []"
| "longest W (c # cs) = (if c # cs \<in> W then c # cs else longest W cs)"

lemma longest_suffix: "suffix (longest W w) w"
  by (induction w) (auto simp: suffix_Cons)

lemma longest_in: "[] \<in> W \<Longrightarrow> longest W w \<in> W"
  by (induction w) auto

lemma longest_self: "w \<in> W \<Longrightarrow> longest W w = w"
  by (cases w) auto

lemma longest_greatest: "v \<in> W \<Longrightarrow> suffix v w \<Longrightarrow> suffix v (longest W w)"
  by (induction w) (auto simp: suffix_Cons)

lemma longest_cases: "longest W w \<in> W \<or> longest W w = []"
  by (induction w) auto

lemma longest_unique:
  assumes "suffix v w" and "v \<in> W" and "\<And>u. u \<in> W \<Longrightarrow> suffix u w \<Longrightarrow> suffix u v"
  shows "longest W w = v"
proof (rule suffix_order.antisym)
  show "suffix v (longest W w)" by (rule longest_greatest [OF assms(2,1)])
  show "suffix (longest W w) v"
    using longest_cases [of W w] assms(3) [OF _ longest_suffix] by auto
qed

definition prefix_closed :: "ustr set \<Rightarrow> bool" where
  "prefix_closed W \<longleftrightarrow> [] \<in> W \<and> (\<forall>w c. w @ [c] \<in> W \<longrightarrow> w \<in> W)"

lemma longest_step:
  assumes "prefix_closed W"
  shows "longest W (longest W w @ [c]) = longest W (w @ [c])"
proof (rule sym, rule longest_unique)
  let ?v = "longest W (longest W w @ [c])"
  have "suffix (longest W w @ [c]) (w @ [c])" by (simp add: longest_suffix)
  then show "suffix ?v (w @ [c])" using longest_suffix suffix_order.trans by blast
  show "?v \<in> W" using assms by (simp add: prefix_closed_def longest_in)
  fix u assume u: "u \<in> W" "suffix u (w @ [c])"
  show "suffix u ?v"
  proof (cases u rule: rev_cases)
    case Nil
    then show ?thesis by simp
  next
    case (snoc u' d)
    with u have "d = c" "suffix u' w" by auto
    moreover have "u' \<in> W" using assms u(1) snoc by (auto simp: prefix_closed_def)
    ultimately have "suffix u (longest W w @ [c])" using longest_greatest snoc by simp
    with u(1) show ?thesis by (rule longest_greatest)
  qed
qed

lemma longest_drop: "w @ [c] \<notin> W \<Longrightarrow> w \<noteq> [] \<Longrightarrow> longest W (w @ [c]) = longest W (tl w @ [c])"
  by (cases w) auto


section \<open>The trie\<close>

text \<open>
  \<open>shape ws a\<close>: the automaton has a state for each word of \<open>ws\<close>, and the edges are exactly
  the extensions by one character. \<open>T\<close> is the set of terms entered so far.
\<close>

definition shape :: "ustr list \<Rightarrow> automaton \<Rightarrow> bool" where
  "shape ws a \<longleftrightarrow>
     length (ac_goto a) = length ws \<and> length (ac_fail a) = length ws \<and> length (ac_output a) = length ws \<and>
     ws \<noteq> [] \<and> ws ! 0 = [] \<and> distinct ws \<and> prefix_closed (set ws) \<and>
     (\<forall>st < length ws. dict_wf (ac_goto a ! st)) \<and>
     (\<forall>st < length ws. \<forall>c t. map_of (ac_goto a ! st) c = Some t \<longleftrightarrow> t < length ws \<and> ws ! t = ws ! st @ [c])"

definition trie :: "ustr set \<Rightarrow> ustr list \<Rightarrow> automaton \<Rightarrow> bool" where
  "trie T ws a \<longleftrightarrow> shape ws a \<and> T \<subseteq> set ws \<and> [] \<notin> T \<and>
     (\<forall>st < length ws. ac_output a ! st = {w \<in> T. w = ws ! st} \<and> ac_fail a ! st = 0)"

lemma shape_goto:
  assumes "shape ws a" and "st < length ws"
  shows "map_of (ac_goto a ! st) c = Some t \<longleftrightarrow> t < length ws \<and> ws ! t = ws ! st @ [c]"
  using assms by (simp add: shape_def)

lemma shape_goto_None:
  assumes "shape ws a" and "st < length ws"
  shows "map_of (ac_goto a ! st) c = None \<longleftrightarrow> ws ! st @ [c] \<notin> set ws"
  using shape_goto [OF assms, of c] by (metis in_set_conv_nth not_Some_eq)

lemma shape_inj: "shape ws a \<Longrightarrow> s < length ws \<Longrightarrow> t < length ws \<Longrightarrow> ws ! s = ws ! t \<longleftrightarrow> s = t"
  by (simp add: shape_def nth_eq_iff_index_eq)

lemma shape_root: "shape ws a \<Longrightarrow> 0 < length ws \<and> ws ! 0 = []"
  by (simp add: shape_def)

lemma trie_empty: "trie {} [[]] ac_empty"
  by (auto simp: trie_def shape_def ac_empty_def prefix_closed_def)

lemma shape_new_state:
  assumes sh: "shape ws a" and st: "st < length ws" and new: "ws ! st @ [c] \<notin> set ws"
  shows "shape (ws @ [ws ! st @ [c]]) (ac_new_state a st c)"
proof -
  let ?n = "length ws" and ?ws = "ws @ [ws ! st @ [c]]" and ?a = "ac_new_state a st c"
  have len: "length (ac_goto a) = ?n" using sh by (simp add: shape_def)
  have old: "map_of (ac_goto ?a ! s) d = Some t \<longleftrightarrow> t < length ?ws \<and> ?ws ! t = ?ws ! s @ [d]"
    if s: "s < length ws" for s d t
  proof -
    have "map_of (ac_goto ?a ! s) d =
        (if s = st \<and> d = c then Some ?n else map_of (ac_goto a ! s) d)"
      using s st len by (auto simp: ac_new_state_def nth_append nth_list_update dict_simps)
    moreover have "ws ! st @ [c] = ws ! s @ [d] \<longleftrightarrow> s = st \<and> d = c"
      using shape_inj [OF sh st s] by auto
    moreover have "ws ! s @ [d] \<noteq> ws ! t" if "s = st" "d = c" "t < ?n"
      using new that by (metis nth_mem)
    ultimately show ?thesis using shape_goto [OF sh s, of d t] s
      by (auto simp: nth_append less_Suc_eq)
  qed
  have leaf: "ws ! st @ [c, d] \<noteq> ws ! t" if "t < ?n" for d t
  proof
    assume "ws ! st @ [c, d] = ws ! t"
    then have "(ws ! st @ [c]) @ [d] \<in> set ws" using that by simp
    then show False using sh new unfolding shape_def prefix_closed_def by blast
  qed
  have last: "map_of (ac_goto ?a ! ?n) d = Some t \<longleftrightarrow> t < length ?ws \<and> ?ws ! t = ?ws ! ?n @ [d]" for d t
    using leaf [of t d] len by (auto simp: ac_new_state_def nth_append less_Suc_eq)
  have wf: "dict_wf (ac_goto ?a ! s)" if "s < length ?ws" for s
    using that len sh st by (auto simp: ac_new_state_def nth_append nth_list_update shape_def less_Suc_eq)
  have "\<forall>s < length ?ws. \<forall>d t. map_of (ac_goto ?a ! s) d = Some t \<longleftrightarrow> t < length ?ws \<and> ?ws ! t = ?ws ! s @ [d]"
    using old last by (metis length_append_singleton less_SucE)
  moreover have "prefix_closed (set ?ws)"
    using sh st by (auto simp: shape_def prefix_closed_def)
  moreover have "length (ac_goto ?a) = length ?ws \<and> length (ac_fail ?a) = length ?ws \<and>
      length (ac_output ?a) = length ?ws \<and> ?ws \<noteq> [] \<and> ?ws ! 0 = [] \<and> distinct ?ws"
    using sh new by (auto simp: ac_new_state_def shape_def nth_append)
  ultimately show ?thesis using wf unfolding shape_def by blast
qed

lemma trie_new_state:
  assumes tr: "trie T ws a" and st: "st < length ws" and new: "ws ! st @ [c] \<notin> set ws"
  shows "trie T (ws @ [ws ! st @ [c]]) (ac_new_state a st c)"
proof -
  have len: "length (ac_output a) = length ws" "length (ac_fail a) = length ws"
    using tr by (simp_all add: trie_def shape_def)
  have "ws ! st @ [c] \<notin> T" using new tr by (auto simp: trie_def)
  then have "\<forall>s < length (ws @ [ws ! st @ [c]]).
      ac_output (ac_new_state a st c) ! s = {w \<in> T. w = (ws @ [ws ! st @ [c]]) ! s} \<and>
      ac_fail (ac_new_state a st c) ! s = 0"
    using tr len by (auto simp: trie_def ac_new_state_def nth_append less_Suc_eq)
  then show ?thesis using shape_new_state [OF _ st new] tr by (auto simp: trie_def)
qed

lemma walk_trie:
  assumes "ac_walk a st cs = (st', a')" and "trie T ws a" and "st < length ws"
  shows "\<exists>ws'. trie T ws' a' \<and> st' < length ws' \<and> ws' ! st' = ws ! st @ cs"
  using assms
proof (induction cs arbitrary: a st ws)
  case Nil
  then show ?case by auto
next
  case (Cons c cs)
  have sh: "shape ws a" using Cons.prems by (simp add: trie_def)
  show ?case
  proof (cases "map_of (ac_goto a ! st) c")
    case None
    have len: "length (ac_goto a) = length ws" using sh by (simp add: shape_def)
    have "ws ! st @ [c] \<notin> set ws" using None shape_goto_None [OF sh Cons.prems(3)] by simp
    from Cons.IH [OF _ trie_new_state [OF Cons.prems(2,3) this], of "length ws"] None Cons.prems(1) len
    show ?thesis by (auto simp: nth_append)
  next
    case (Some t)
    then have "t < length ws" "ws ! t = ws ! st @ [c]"
      using shape_goto [OF sh Cons.prems(3)] by auto
    with Cons.IH [OF _ Cons.prems(2), of t] Some Cons.prems(1) show ?thesis by auto
  qed
qed

text \<open>The terms that count: stripped, folded, not empty.\<close>

definition ac_terms :: "(ustr \<Rightarrow> ustr) \<Rightarrow> ustr list \<Rightarrow> ustr set" where
  "ac_terms casefold terms = {t. t \<noteq> [] \<and> (\<exists>raw \<in> set terms. t = casefold (strip raw))}"

lemma shape_output [simp]:
  "length ou = length (ac_output a) \<Longrightarrow> shape ws (a\<lparr>ac_output := ou\<rparr>) = shape ws a"
  by (simp add: shape_def)

lemma add_trie:
  assumes "trie T ws a"
  shows "\<exists>ws'. trie (T \<union> ac_terms casefold [raw]) ws' (ac_add casefold a raw)"
proof (cases "casefold (strip raw) = []")
  case True
  then show ?thesis using assms by (auto simp: ac_add_def ac_terms_def)
next
  case False
  let ?t = "casefold (strip raw)"
  obtain st a' where w: "ac_walk a 0 ?t = (st, a')" by fastforce
  have "0 < length ws" "ws ! 0 = []" using assms shape_root by (auto simp: trie_def)
  with walk_trie [OF w assms] obtain ws' where ws': "trie T ws' a'" "st < length ws'" "ws' ! st = ?t"
    by auto
  have sh: "shape ws' a'" "length (ac_output a') = length ws'" using ws'(1) by (auto simp: trie_def shape_def)
  have T: "T \<union> ac_terms casefold [raw] = insert ?t T" using False by (auto simp: ac_terms_def)
  have iff: "ws' ! s = ?t \<longleftrightarrow> s = st" if "s < length ws'" for s
    using shape_inj [OF sh(1) that ws'(2)] ws'(3) by simp
  have "\<forall>s < length ws'. (ac_output a')[st := insert ?t (ac_output a' ! st)] ! s = {w \<in> insert ?t T. w = ws' ! s}"
  proof (intro allI impI)
    fix s assume s: "s < length ws'"
    have "{w \<in> insert ?t T. w = ws' ! s} = (if s = st then insert ?t {w \<in> T. w = ws' ! s} else {w \<in> T. w = ws' ! s})"
      using iff [OF s] by auto
    then show "(ac_output a')[st := insert ?t (ac_output a' ! st)] ! s = {w \<in> insert ?t T. w = ws' ! s}"
      using ws'(1,2) sh(2) s by (simp add: trie_def nth_list_update)
  qed
  moreover have "?t \<in> set ws'" using ws'(2,3) nth_mem by metis
  ultimately have "trie (insert ?t T) ws' (a'\<lparr>ac_output := (ac_output a')[st := insert ?t (ac_output a' ! st)]\<rparr>)"
    using ws'(1) False by (auto simp: trie_def)
  then show ?thesis using False w unfolding T by (auto simp: ac_add_def Let_def)
qed

lemma ac_terms_Cons: "ac_terms casefold (raw # terms) = ac_terms casefold [raw] \<union> ac_terms casefold terms"
  by (auto simp: ac_terms_def)

lemma adds_trie: "trie T ws a \<Longrightarrow> \<exists>ws'. trie (T \<union> ac_terms casefold terms) ws' (foldl (ac_add casefold) a terms)"
proof (induction terms arbitrary: T ws a)
  case Nil
  then show ?case by (auto simp: ac_terms_def)
next
  case (Cons raw terms)
  obtain ws' where "trie (T \<union> ac_terms casefold [raw]) ws' (ac_add casefold a raw)"
    using add_trie [OF Cons.prems] by blast
  from Cons.IH [OF this] show ?case
    by (metis (no_types, lifting) Un_assoc ac_terms_Cons foldl_Cons)
qed


section \<open>Failure links\<close>

text \<open>What the breadth-first pass establishes for a state.\<close>

definition linked :: "ustr set \<Rightarrow> ustr list \<Rightarrow> automaton \<Rightarrow> nat \<Rightarrow> bool" where
  "linked T ws a t \<longleftrightarrow> ac_fail a ! t < length ws \<and>
     ws ! (ac_fail a ! t) = longest (set ws) (tl (ws ! t)) \<and>
     ac_output a ! t = {w \<in> T. suffix w (ws ! t)}"

text \<open>Following the failure links finds the state of the longest suffix after one more
  character, provided that all states up to the depth of the start are linked.\<close>

lemma fall_longest:
  assumes sh: "shape ws a" and "u < length ws"
    and "\<And>t. t < length ws \<Longrightarrow> length (ws ! t) \<le> length (ws ! u) \<Longrightarrow> linked T ws a t"
  shows "\<exists>f. ac_fall a c u = Some f \<and> dict_get (ac_goto a ! f) c 0 < length ws \<and>
    ws ! dict_get (ac_goto a ! f) c 0 = longest (set ws) (ws ! u @ [c])"
  using assms(2,3)
proof (induction "length (ws ! u)" arbitrary: u rule: less_induct)
  case less
  have pc: "prefix_closed (set ws)" using sh by (simp add: shape_def)
  show ?case
  proof (cases "u \<noteq> 0 \<and> map_of (ac_goto a ! u) c = None")
    case False
    then have f: "ac_fall a c u = Some u" by (subst ac_fall.simps) auto
    show ?thesis
    proof (cases "map_of (ac_goto a ! u) c")
      case None
      then have "u = 0" using False by simp
      moreover have "ws ! u @ [c] \<notin> set ws" using None shape_goto_None [OF sh less.prems(1)] by simp
      ultimately show ?thesis using f None shape_root [OF sh] by (simp add: dict_get_def)
    next
      case (Some t)
      then have "t < length ws" "ws ! t = ws ! u @ [c]" using shape_goto [OF sh less.prems(1)] by auto
      then show ?thesis using f Some longest_self by (metis dict_get_def nth_mem option.simps(5))
    qed
  next
    case True
    have ne: "ws ! u \<noteq> []" using True shape_inj [OF sh less.prems(1), of 0] shape_root [OF sh] by auto
    have notin: "ws ! u @ [c] \<notin> set ws" using True shape_goto_None [OF sh less.prems(1)] by simp
    let ?v = "ac_fail a ! u"
    have l: "linked T ws a u" using less.prems by simp
    then have v: "?v < length ws" "ws ! ?v = longest (set ws) (tl (ws ! u))" by (auto simp: linked_def)
    have "length (ws ! ?v) \<le> length (tl (ws ! u))" unfolding v(2) by (rule suffix_length_le [OF longest_suffix])
    also have "\<dots> < length (ws ! u)" using ne by (cases "ws ! u") auto
    finally have shorter: "length (ws ! ?v) < length (ws ! u)" .
    have "\<exists>f. ac_fall a c ?v = Some f \<and> dict_get (ac_goto a ! f) c 0 < length ws \<and>
        ws ! dict_get (ac_goto a ! f) c 0 = longest (set ws) (ws ! ?v @ [c])"
      using less.hyps [OF shorter v(1)] less.prems(2) shorter by (meson le_trans less_imp_le)
    moreover have "longest (set ws) (ws ! ?v @ [c]) = longest (set ws) (ws ! u @ [c])"
      unfolding v(2) longest_step [OF pc] longest_drop [OF notin ne] ..
    moreover have "ac_fall a c u = ac_fall a c ?v"
      using True by (subst ac_fall.simps) simp
    ultimately show ?thesis by metis
  qed
qed

text \<open>The invariant of the pass: \<open>L\<close> holds the linked states, the others still have the
  outputs of the trie.\<close>

definition partly_linked :: "ustr set \<Rightarrow> ustr list \<Rightarrow> nat set \<Rightarrow> automaton \<Rightarrow> bool" where
  "partly_linked T ws L a \<longleftrightarrow> shape ws a \<and> T \<subseteq> set ws \<and> [] \<notin> T \<and> L \<subseteq> {..<length ws} \<and>
     (\<forall>t \<in> L. linked T ws a t) \<and>
     (\<forall>t \<in> {..<length ws} - L. ac_output a ! t = {w \<in> T. w = ws ! t})"

lemma suffix_split: "w \<noteq> [] \<Longrightarrow> suffix v w \<longleftrightarrow> v = w \<or> suffix v (tl w)"
  by (cases w) (auto simp: suffix_Cons)

lemma link_children:
  assumes "partly_linked T ws L a" and "st \<in> L"
    and "\<And>t. t < length ws \<Longrightarrow> length (ws ! t) \<le> length (ws ! st) \<Longrightarrow> t \<in> L"
    and "ws ! st \<noteq> []"
    and "\<forall>(c, t) \<in> set children. t < length ws \<and> ws ! t = ws ! st @ [c]"
    and "distinct (map snd children)" and "L \<inter> snd ` set children = {}"
  shows "\<exists>a'. ac_link a q st children = Some (a', q @ map snd children) \<and>
    partly_linked T ws (L \<union> snd ` set children) a' \<and> ac_goto a' = ac_goto a"
  using assms
proof (induction children arbitrary: a q L)
  case Nil
  then show ?case by simp
next
  case (Cons child children)
  obtain c t where child: "child = (c, t)" by (rule prod.exhaust)
  have t: "t < length ws" "ws ! t = ws ! st @ [c]" "t \<notin> L" using Cons.prems(5,7) child by auto
  have sh: "shape ws a" and T: "T \<subseteq> set ws" "[] \<notin> T" and L: "L \<subseteq> {..<length ws}"
    and linked: "\<And>s. s \<in> L \<Longrightarrow> linked T ws a s"
    and raw: "\<And>s. s < length ws \<Longrightarrow> s \<notin> L \<Longrightarrow> ac_output a ! s = {w \<in> T. w = ws ! s}"
    using Cons.prems(1) by (auto simp: partly_linked_def)
  have pc: "prefix_closed (set ws)" and lens: "length (ac_fail a) = length ws" "length (ac_output a) = length ws"
    using sh by (auto simp: shape_def)
  let ?u = "ac_fail a ! st"
  have u: "?u < length ws" "ws ! ?u = longest (set ws) (tl (ws ! st))"
    using linked [OF Cons.prems(2)] by (auto simp: linked_def)
  have u_le: "length (ws ! ?u) \<le> length (ws ! st)"
    unfolding u(2) by (metis longest_suffix suffix_length_le suffix_tl suffix_order.trans)
  obtain f where f: "ac_fall a c ?u = Some f"
    and g: "dict_get (ac_goto a ! f) c 0 < length ws"
      "ws ! dict_get (ac_goto a ! f) c 0 = longest (set ws) (ws ! ?u @ [c])"
    using fall_longest [OF sh u(1), of T c] linked Cons.prems(3) u_le by (meson le_trans)
  let ?g = "dict_get (ac_goto a ! f) c 0"
  have tl_t: "tl (ws ! t) = tl (ws ! st) @ [c]" using t(2) Cons.prems(4) by simp
  have gw: "ws ! ?g = longest (set ws) (tl (ws ! t))"
    unfolding g(2) u(2) longest_step [OF pc] tl_t ..
  have "length (ws ! ?g) \<le> length (ws ! st)"
    unfolding gw using longest_suffix [of "set ws" "tl (ws ! t)"] t(2) suffix_length_le by fastforce
  then have gL: "?g \<in> L" using g(1) Cons.prems(3) by blast
  have out: "ac_output a ! t \<union> ac_output a ! ?g = {w \<in> T. suffix w (ws ! t)}"
  proof -
    have "suffix w (ws ! t) \<longleftrightarrow> w = ws ! t \<or> suffix w (ws ! ?g)" if "w \<in> T" for w
      unfolding gw using that T(1) t(2) longest_greatest longest_suffix suffix_order.trans suffix_split
      by (metis snoc_eq_iff_butlast subsetD)
    then show ?thesis using raw [OF t(1,3)] linked [OF gL] by (auto simp: linked_def)
  qed
  define a1 where "a1 = a\<lparr>ac_fail := (ac_fail a)[t := ?g],
      ac_output := (ac_output a)[t := ac_output a ! t \<union> ac_output a ! ?g]\<rparr>"
  have step: "ac_link a q st (child # children) = ac_link a1 (q @ [t]) st children"
    using f by (simp add: child a1_def Let_def)
  have sh1: "shape ws a1" using sh by (simp add: shape_def a1_def)
  have same: "linked T ws a1 s = linked T ws a s" if "s \<noteq> t" for s
    using that by (simp add: linked_def a1_def)
  have new: "linked T ws a1 t"
    using g(1) gw out t(1) lens by (simp add: linked_def a1_def)
  have pl: "partly_linked T ws (insert t L) a1"
  proof -
    have "\<forall>s \<in> insert t L. linked T ws a1 s" using same new linked by (metis insertE)
    moreover have "\<forall>s \<in> {..<length ws} - insert t L. ac_output a1 ! s = {w \<in> T. w = ws ! s}"
      using raw by (simp add: a1_def)
    ultimately show ?thesis using sh1 T L t(1) by (simp add: partly_linked_def)
  qed
  from Cons.IH [OF pl, of "q @ [t]"] Cons.prems(2-7) child
  obtain a' where "ac_link a1 (q @ [t]) st children = Some (a', (q @ [t]) @ map snd children)"
    "partly_linked T ws (insert t L \<union> snd ` set children) a'" "ac_goto a' = ac_goto a1"
    by (auto simp: image_iff)
  then show ?case using step child by (auto simp: a1_def)
qed


section \<open>The breadth-first pass\<close>

text \<open>\<open>P\<close> holds the states taken from the queue so far.\<close>

definition bfs_inv :: "ustr set \<Rightarrow> ustr list \<Rightarrow> nat set \<Rightarrow> nat list \<Rightarrow> automaton \<Rightarrow> bool" where
  "bfs_inv T ws P q a \<longleftrightarrow> partly_linked T ws (insert 0 (P \<union> set q)) a \<and>
     0 \<notin> P \<union> set q \<and> distinct q \<and> P \<inter> set q = {} \<and>
     (\<forall>t < length ws. \<forall>p < length ws. \<forall>c. ws ! t = ws ! p @ [c] \<longrightarrow> (t \<in> P \<union> set q \<longleftrightarrow> p \<in> insert 0 P)) \<and>
     sorted (map (\<lambda>t. length (ws ! t)) q) \<and>
     (\<forall>y \<in> set q. length (ws ! y) \<le> length (ws ! hd q) + 1)"

lemma bfs_reached:
  assumes inv: "bfs_inv T ws P q a" and "t < length ws"
    and "\<forall>y \<in> set q. length (ws ! t) \<le> length (ws ! y)"
  shows "t \<in> insert 0 (P \<union> set q)"
  using assms(2,3)
proof (induction "length (ws ! t)" arbitrary: t rule: less_induct)
  case less
  have sh: "shape ws a" using inv by (simp add: bfs_inv_def partly_linked_def)
  show ?case
  proof (cases "ws ! t" rule: rev_cases)
    case Nil
    then show ?thesis using shape_inj [OF sh less.prems(1), of 0] shape_root [OF sh] by simp
  next
    case (snoc w c)
    have "w @ [c] \<in> set ws" using less.prems(1) snoc by (metis nth_mem)
    then have "w \<in> set ws" using sh by (auto simp: shape_def prefix_closed_def)
    then obtain p where p: "p < length ws" "ws ! p = w" by (auto simp: in_set_conv_nth)
    then have "p \<in> insert 0 (P \<union> set q)"
      using less.hyps [of p] less.prems(2) snoc by force
    moreover have "p \<notin> set q" using less.prems(2) snoc p(2) by fastforce
    ultimately have "p \<in> insert 0 P" by blast
    then show ?thesis using inv less.prems(1) p snoc unfolding bfs_inv_def by blast
  qed
qed

lemma goto_children:
  assumes "shape ws a" and "st < length ws"
  shows "(c, t) \<in> set (ac_goto a ! st) \<longleftrightarrow> t < length ws \<and> ws ! t = ws ! st @ [c]"
    and "distinct (map snd (ac_goto a ! st))"
proof -
  have wf: "distinct (map fst (ac_goto a ! st))" using assms by (simp add: shape_def dict_wf_def)
  show edge: "(c, t) \<in> set (ac_goto a ! st) \<longleftrightarrow> t < length ws \<and> ws ! t = ws ! st @ [c]" for c t
    using map_of_eq_Some_iff [OF wf] shape_goto [OF assms] by metis
  have "inj_on snd (set (ac_goto a ! st))"
    using edge by (auto simp: inj_on_def)
  moreover have "distinct (ac_goto a ! st)" using wf by (simp add: distinct_map)
  ultimately show "distinct (map snd (ac_goto a ! st))" by (simp add: distinct_map)
qed

lemma bfs_step:
  assumes inv: "bfs_inv T ws P (st # rest) a"
  shows "\<exists>a' q'. ac_link a rest st (ac_goto a ! st) = Some (a', q') \<and>
    bfs_inv T ws (insert st P) q' a' \<and> st < length ws \<and> st \<notin> P"
proof -
  let ?ch = "ac_goto a ! st" and ?L = "insert 0 (P \<union> set (st # rest))"
  have pl: "partly_linked T ws ?L a" using inv by (simp add: bfs_inv_def)
  have sh: "shape ws a" and st: "st < length ws" using pl by (auto simp: partly_linked_def)
  have ch: "(c, t) \<in> set ?ch \<longleftrightarrow> t < length ws \<and> ws ! t = ws ! st @ [c]" for c t
    using goto_children(1) [OF sh st] .
  have snd_ch: "t \<in> snd ` set ?ch \<longleftrightarrow> t < length ws \<and> (\<exists>c. ws ! t = ws ! st @ [c])" for t
    using ch by (force simp: image_iff)
  have st0: "st \<noteq> 0" "st \<notin> P" "st \<notin> set rest" using inv by (auto simp: bfs_inv_def)
  have "\<And>t. t < length ws \<Longrightarrow> length (ws ! t) \<le> length (ws ! st) \<Longrightarrow> t \<in> ?L"
    using bfs_reached [OF inv] inv by (fastforce simp: bfs_inv_def)
  moreover have "ws ! st \<noteq> []" using st0(1) shape_inj [OF sh st, of 0] shape_root [OF sh] by auto
  moreover have disj: "?L \<inter> snd ` set ?ch = {}"
  proof -
    have "t \<notin> ?L" if "t \<in> snd ` set ?ch" for t
    proof -
      obtain c where t: "t < length ws" "ws ! t = ws ! st @ [c]" using \<open>t \<in> snd ` set ?ch\<close> snd_ch by blast
      then have "t \<noteq> 0" using shape_root [OF sh] by (metis Nil_is_append_conv not_Cons_self2)
      then show ?thesis using inv t st st0 unfolding bfs_inv_def by blast
    qed
    then show ?thesis by blast
  qed
  ultimately obtain a' where link: "ac_link a rest st ?ch = Some (a', rest @ map snd ?ch)"
    and pl': "partly_linked T ws (?L \<union> snd ` set ?ch) a'"
    using link_children [OF pl, of st ?ch rest] ch goto_children(2) [OF sh st] by auto
  let ?q' = "rest @ map snd ?ch"
  have L': "insert 0 (insert st P \<union> set ?q') = ?L \<union> snd ` set ?ch" by auto
  have len_ch: "length (ws ! t) = length (ws ! st) + 1" if "t \<in> snd ` set ?ch" for t
    using that snd_ch by auto
  have len_rest: "length (ws ! st) \<le> length (ws ! y)" "length (ws ! y) \<le> length (ws ! st) + 1"
    if "y \<in> set rest" for y
    using inv that by (auto simp: bfs_inv_def)
  have parent: "t \<in> insert st P \<union> set ?q' \<longleftrightarrow> p \<in> insert 0 (insert st P)"
    if "t < length ws" "p < length ws" "ws ! t = ws ! p @ [c]" for t p c
  proof (cases "p = st")
    case True
    then show ?thesis using that snd_ch by auto
  next
    case False
    then have "t \<notin> snd ` set ?ch" using that snd_ch shape_inj [OF sh that(2) st] by auto
    moreover have "t \<in> P \<union> set (st # rest) \<longleftrightarrow> p \<in> insert 0 P"
      using inv that unfolding bfs_inv_def by blast
    ultimately show ?thesis using False by auto
  qed
  have sorted': "sorted (map (\<lambda>t. length (ws ! t)) ?q')"
  proof -
    have "sorted (map (\<lambda>t. length (ws ! t)) (map snd ?ch))"
      by (rule sorted_constant [of _ _ "length (ws ! st) + 1"]) (simp add: len_ch)
    then show ?thesis using inv len_ch len_rest(2) by (auto simp: bfs_inv_def sorted_append)
  qed
  have head: "length (ws ! y) \<le> length (ws ! hd ?q') + 1" if "y \<in> set ?q'" for y
  proof -
    have "hd ?q' \<in> set ?q'" using that by (cases ?q') auto
    then have "length (ws ! st) \<le> length (ws ! hd ?q')" using len_rest len_ch by fastforce
    moreover have "length (ws ! y) \<le> length (ws ! st) + 1" using that len_rest len_ch by fastforce
    ultimately show ?thesis by linarith
  qed
  have "distinct ?q'" "0 \<notin> insert st P \<union> set ?q'" "insert st P \<inter> set ?q' = {}"
    using inv disj st0 goto_children(2) [OF sh st] by (auto simp: bfs_inv_def)
  with pl' parent sorted' head have "bfs_inv T ws (insert st P) ?q' a'"
    unfolding bfs_inv_def L' by blast
  with link st st0(2) show ?thesis by blast
qed

lemma bfs_links_all:
  assumes "bfs_inv T ws P q a" and "P \<subseteq> {..<length ws}"
  shows "\<exists>a'. ac_bfs a q = Some a' \<and> shape ws a' \<and> (\<forall>t < length ws. linked T ws a' t)"
  using assms
proof (induction "length ws - card P" arbitrary: P q a rule: less_induct)
  case less
  show ?case
  proof (cases q)
    case Nil
    have "{..<length ws} \<subseteq> insert 0 (P \<union> set q)" using bfs_reached [OF less.prems(1)] Nil by auto
    then show ?thesis
      using less.prems(1) Nil by (subst ac_bfs.simps) (auto simp: bfs_inv_def partly_linked_def)
  next
    case (Cons st rest)
    obtain a' q' where step: "ac_link a rest st (ac_goto a ! st) = Some (a', q')"
      and inv': "bfs_inv T ws (insert st P) q' a'" and st: "st < length ws" "st \<notin> P"
      using bfs_step less.prems(1) unfolding Cons by blast
    have fin: "finite P" using less.prems(2) finite_subset by blast
    have sub: "insert st P \<subseteq> {..<length ws}" using less.prems(2) st(1) by simp
    have "card (insert st P) \<le> length ws" using card_mono [OF _ sub] by simp
    then have "length ws - card (insert st P) < length ws - card P" using fin st(2) by simp
    from less.hyps [OF this inv' sub] show ?thesis
      using step Cons by (subst ac_bfs.simps) simp
  qed
qed

lemma bfs_initial:
  assumes tr: "trie T ws a"
  shows "bfs_inv T ws {} (map snd (ac_goto a ! 0)) a"
proof -
  let ?ch = "ac_goto a ! 0"
  have sh: "shape ws a" and T: "T \<subseteq> set ws" "[] \<notin> T"
    and raw: "\<And>s. s < length ws \<Longrightarrow> ac_output a ! s = {w \<in> T. w = ws ! s} \<and> ac_fail a ! s = 0"
    using tr by (auto simp: trie_def)
  have root: "0 < length ws" "ws ! 0 = []" using shape_root [OF sh] by auto
  have snd_ch: "t \<in> snd ` set ?ch \<longleftrightarrow> t < length ws \<and> (\<exists>c. ws ! t = [c])" for t
    using goto_children(1) [OF sh root(1)] root(2) by (force simp: image_iff)
  have link0: "linked T ws a t" if "t < length ws" "length (ws ! t) \<le> 1" for t
  proof -
    have "ws ! t = [] \<or> (\<exists>c. ws ! t = [c])" using that(2) by (cases "ws ! t") auto
    then have short: "tl (ws ! t) = []" and suf: "\<And>w. suffix w (ws ! t) \<longleftrightarrow> w = [] \<or> w = ws ! t"
      by (auto simp: suffix_Cons)
    have "{w \<in> T. w = ws ! t} = {w \<in> T. suffix w (ws ! t)}" unfolding suf using T(2) by blast
    then show ?thesis using raw [OF that(1)] root short by (simp add: linked_def)
  qed
  have "partly_linked T ws (insert 0 (snd ` set ?ch)) a"
  proof -
    have "t < length ws \<and> length (ws ! t) \<le> 1" if "t \<in> insert 0 (snd ` set ?ch)" for t
      using that root snd_ch by auto
    then have "insert 0 (snd ` set ?ch) \<subseteq> {..<length ws}" and "\<forall>t \<in> insert 0 (snd ` set ?ch). linked T ws a t"
      using link0 by (meson lessThan_iff subsetI, meson)
    then show ?thesis using sh T raw unfolding partly_linked_def by simp
  qed
  moreover have "0 \<notin> snd ` set ?ch" using snd_ch root by auto
  moreover have "t \<in> snd ` set ?ch \<longleftrightarrow> p = 0" if "t < length ws" "p < length ws" "ws ! t = ws ! p @ [c]" for t p c
    using that snd_ch shape_inj [OF sh that(2) root(1)] root(2) by auto
  moreover have len1: "length (ws ! y) = 1" if "y \<in> snd ` set ?ch" for y using that snd_ch by auto
  moreover have "sorted (map (\<lambda>t. length (ws ! t)) (map snd ?ch))"
    by (rule sorted_constant [of _ _ 1]) (simp add: len1)
  moreover have "length (ws ! y) \<le> length (ws ! hd (map snd ?ch)) + 1" if "y \<in> set (map snd ?ch)" for y
    using len1 [of y] that by simp
  ultimately show ?thesis
    using goto_children(2) [OF sh root(1)] unfolding bfs_inv_def by simp
qed

lemma build_linked:
  "\<exists>a ws. ac_build casefold terms = Some a \<and> shape ws a \<and> ac_terms casefold terms \<subseteq> set ws \<and>
    (\<forall>t < length ws. linked (ac_terms casefold terms) ws a t)"
proof -
  obtain ws where tr: "trie (ac_terms casefold terms) ws (foldl (ac_add casefold) ac_empty terms)"
    using adds_trie [OF trie_empty] by fastforce
  from bfs_links_all [OF bfs_initial [OF tr]] tr show ?thesis
    unfolding ac_build_def Let_def trie_def by blast
qed

section \<open>The scan\<close>

lemma has_sub_snoc: "has_sub w (p @ [c]) \<longleftrightarrow> has_sub w p \<or> suffix w (p @ [c])"
proof
  assume "has_sub w (p @ [c])"
  then obtain x y where "p @ [c] = x @ w @ y" by (auto simp: has_sub_iff)
  then show "has_sub w p \<or> suffix w (p @ [c])"
    by (cases y rule: rev_cases) (auto simp: has_sub_iff suffix_def)
next
  assume "has_sub w p \<or> suffix w (p @ [c])"
  then show "has_sub w (p @ [c])" by (auto simp: has_sub_iff suffix_def) (metis append.right_neutral append_assoc)+
qed

lemma scan_reports:
  assumes sh: "shape ws a" and all: "\<And>t. t < length ws \<Longrightarrow> linked T ws a t" and T: "T \<subseteq> set ws"
    and "st < length ws" and "ws ! st = longest (set ws) p"
  shows "ac_scan a st {w \<in> T. has_sub w p} cs = Some {w \<in> T. has_sub w (p @ cs)}"
  using assms(4,5)
proof (induction cs arbitrary: st p)
  case Nil
  then show ?case by simp
next
  case (Cons c cs)
  have pc: "prefix_closed (set ws)" using sh by (simp add: shape_def)
  obtain f where f: "ac_fall a c st = Some f" "dict_get (ac_goto a ! f) c 0 < length ws"
      "ws ! dict_get (ac_goto a ! f) c 0 = longest (set ws) (ws ! st @ [c])"
    using fall_longest [OF sh Cons.prems(1)] all by blast
  let ?g = "dict_get (ac_goto a ! f) c 0"
  have g: "ws ! ?g = longest (set ws) (p @ [c])"
    using f(3) longest_step [OF pc] Cons.prems(2) by simp
  have "suffix w (ws ! ?g) \<longleftrightarrow> suffix w (p @ [c])" if "w \<in> T" for w
    unfolding g using that T longest_greatest longest_suffix suffix_order.trans by blast
  then have "{w \<in> T. has_sub w p} \<union> ac_output a ! ?g = {w \<in> T. has_sub w (p @ [c])}"
    using all [OF f(2)] by (auto simp: linked_def has_sub_snoc)
  then show ?case using Cons.IH [OF f(2) g] f(1) by (simp add: Let_def)
qed

lemma find_terms:
  "\<exists>a. ac_build casefold terms = Some a \<and>
     ac_find casefold a txt = Some (sorted_list_of_set {w \<in> ac_terms casefold terms. has_sub w (casefold txt)})"
proof -
  let ?T = "ac_terms casefold terms"
  obtain a ws where a: "ac_build casefold terms = Some a" "shape ws a" "?T \<subseteq> set ws"
    "\<And>t. t < length ws \<Longrightarrow> linked ?T ws a t"
    using build_linked by metis
  have none: "{w \<in> ?T. has_sub w []} = {}" by (auto simp: ac_terms_def)
  from scan_reports [OF a(2,4,3), of 0 "[]" "casefold txt"] shape_root [OF a(2)]
  have "ac_scan a 0 {} (casefold txt) = Some {w \<in> ?T. has_sub w (casefold txt)}"
    unfolding none by simp
  then show ?thesis using a(1) by (simp add: ac_find_def)
qed

lemma finite_ac_terms [simp]: "finite (ac_terms casefold terms)"
  by (rule finite_subset [of _ "(\<lambda>raw. casefold (strip raw)) ` set terms"]) (auto simp: ac_terms_def)

section \<open>Properties\<close>

text \<open>
  C18: the keyword automaton is a correct multi-pattern search. For any keyword list it is
  built (the failure-link loops end), and scanning any text (the scan ends too) yields exactly
  the non-empty normalised keywords that occur in the case-folded text as substrings, each
  once and in code point order.
\<close>

theorem matcher_finds_occurrences:
  "\<exists>a. ac_build casefold terms = Some a \<and>
     ac_find casefold a txt = Some (sorted_list_of_set
       {t. t \<noteq> [] \<and> (\<exists>raw \<in> set terms. t = casefold (strip raw)) \<and> has_sub t (casefold txt)})"
proof -
  have "{w \<in> ac_terms casefold terms. has_sub w (casefold txt)} =
      {t. t \<noteq> [] \<and> (\<exists>raw \<in> set terms. t = casefold (strip raw)) \<and> has_sub t (casefold txt)}"
    by (auto simp: ac_terms_def)
  with find_terms [of casefold terms "txt"] show ?thesis by simp
qed

end
