(* ===== verification/Moderation.thy ===== *)
theory Moderation
  imports KeywordMatcher Payload Llm
begin

text \<open>
  Content moderation, \<open>src/mybot/security/moderation.py\<close> with the contracts of
  \<open>contracts/safety.py\<close>: the request text, the three backends and the service that chains
  them with its failure policy and audit trail. Parameters: \<open>str.casefold\<close>, the hash of the
  audit, the JSON validation of pydantic, the HTTP client, the policy store and the audit sink.
  The deadline around a backend is the \<open>TimeoutError\<close> its program may raise.
\<close>

section \<open>Requests, decisions, policies\<close>

datatype moderation_point = INBOUND | OUTBOUND
datatype moderation_action = DIRECT_OUTPUT | OVERRIDDEN

fun point_value :: "moderation_point \<Rightarrow> ustr" where
  "point_value INBOUND = lit ''inbound''"
| "point_value OUTBOUND = lit ''outbound''"

record moderation_request =
  mr_point :: moderation_point
  mr_params :: "(ustr, frozen) dict"

record moderation_decision =
  md_flagged :: bool
  md_action :: moderation_action
  md_preset :: ustr
  md_backend :: ustr
  md_reason :: ustr
  md_terms :: "ustr list"

text \<open>The frozen model strips its strings.\<close>

definition mk_decision ::
  "bool \<Rightarrow> moderation_action \<Rightarrow> ustr \<Rightarrow> ustr \<Rightarrow> ustr \<Rightarrow> ustr list \<Rightarrow> moderation_decision" where
  "mk_decision flagged action preset backend reason terms = \<lparr>md_flagged = flagged, md_action = action,
     md_preset = strip preset, md_backend = strip backend, md_reason = strip reason,
     md_terms = map strip terms\<rparr>"

record point_policy =
  pp_enabled :: bool
  pp_action :: moderation_action
  pp_preset :: ustr

definition default_point :: point_policy where
  "default_point = \<lparr>pp_enabled = True, pp_action = DIRECT_OUTPUT,
     pp_preset = [20869, 23481, 35302, 21457, 20102, 23433, 20840, 31574, 30053, 44, 32, 24050, 20572,
       27490, 22788, 29702, 12290]\<rparr>"

datatype fail_mode = Fail_open | Fail_closed

record moderation_policy =
  mp_enabled :: bool
  mp_backends :: "ustr list"
  mp_fail_mode :: fail_mode
  mp_keywords :: "ustr list"
  mp_inbound :: point_policy
  mp_outbound :: point_policy

definition default_policy :: moderation_policy where
  "default_policy = \<lparr>mp_enabled = True, mp_backends = [lit ''local''], mp_fail_mode = Fail_open,
     mp_keywords = [], mp_inbound = default_point, mp_outbound = default_point\<rparr>"

definition policy_point :: "moderation_policy \<Rightarrow> moderation_point \<Rightarrow> point_policy" where
  "policy_point p pt = (if pt = INBOUND then mp_inbound p else mp_outbound p)"

text \<open>All strings of the parameters, in document order, one per line.\<close>

fun json_strings :: "json \<Rightarrow> ustr list" where
  "json_strings (JStr s) = [s]"
| "json_strings (JObj kvs) = concat (map (\<lambda>(k, v). json_strings v) kvs)"
| "json_strings (JArr vs) = concat (map json_strings vs)"
| "json_strings _ = []"

definition request_text :: "moderation_request \<Rightarrow> ustr" where
  "request_text req = py_join [10] (json_strings (JObj (thaw_json_object (mr_params req))))"

section \<open>Backends\<close>

text \<open>\<open>None\<close> would mean that the matcher never returns; it does (\<open>local_review_total\<close>).\<close>

definition local_review ::
  "(ustr \<Rightarrow> ustr) \<Rightarrow> moderation_request \<Rightarrow> moderation_policy \<Rightarrow> moderation_decision option" where
  "local_review casefold req pol =
     (case ac_build casefold (mp_keywords pol) of
        None \<Rightarrow> None
      | Some a \<Rightarrow>
          (case ac_find casefold a (request_text req) of
             None \<Rightarrow> None
           | Some matches \<Rightarrow>
               let point = policy_point pol (mr_point req)
               in Some (mk_decision (matches \<noteq> []) (pp_action point)
                    (if matches \<noteq> [] then pp_preset point else [])
                    (lit ''local'') (if matches \<noteq> [] then lit ''keyword_match'' else lit ''clear'')
                    matches)))"

type_synonym 's moderation_backend =
  "moderation_request \<Rightarrow> moderation_policy \<Rightarrow> ('s, moderation_decision) prog"

definition local_backend :: "(ustr \<Rightarrow> ustr) \<Rightarrow> 's moderation_backend" where
  "local_backend casefold req pol =
     (case local_review casefold req pol of
        None \<Rightarrow> raisep (Raised (lit ''RecursionError''))
      | Some d \<Rightarrow> retp d)"

text \<open>\<open>client.post(url, json=..., headers=...)\<close> with \<open>raise_for_status\<close> and the decoding of
  the body.\<close>

type_synonym 's json_post = "ustr \<Rightarrow> json \<Rightarrow> (ustr, ustr) dict \<Rightarrow> ('s, json) prog"

definition rstrip_slash :: "ustr \<Rightarrow> ustr" where
  "rstrip_slash s = rev (dropWhile (\<lambda>c. c = 47) (rev s))"

definition first_result :: "json \<Rightarrow> (ustr, json) dict option" where
  "first_result payload =
     (case payload_get (dict_or (as_string_mapping payload)) (lit ''results'') of
        JArr (r # _) \<Rightarrow> as_string_mapping r
      | _ \<Rightarrow> None)"

definition true_keys :: "(ustr, json) dict \<Rightarrow> ustr list" where
  "true_keys d = sort (map fst (filter (\<lambda>(k, v). v = JBool True) d))"

definition openai_review ::
  "'s json_post \<Rightarrow> ustr \<Rightarrow> ustr option \<Rightarrow> ustr \<Rightarrow> 's moderation_backend" where
  "openai_review post base_url api_key model req pol =
     bindp (post (rstrip_slash base_url @ lit ''/moderations'')
         (JObj [(lit ''model'', JStr model), (lit ''input'', JStr (request_text req))])
         (case api_key of None \<Rightarrow> [] | Some k \<Rightarrow>
            if k = [] then [] else [(lit ''Authorization'', lit ''Bearer '' @ k)])) (\<lambda>payload.
       case first_result payload of
         None \<Rightarrow> raisep (Raised (lit ''ValueError''))
       | Some first \<Rightarrow>
           let flagged = payload_get first (lit ''flagged'') = JBool True;
               matched = true_keys (dict_or (get_mapping first (lit ''categories'')));
               point = policy_point pol (mr_point req)
           in retp (mk_decision flagged (pp_action point) (if flagged then pp_preset point else [])
                (lit ''api'') (if flagged then lit ''remote_flagged'' else lit ''clear'') matched))"

text \<open>\<open>ModerationDecision.model_validate\<close> is the parameter \<open>validate\<close>.\<close>

definition plugin_review ::
  "'s json_post \<Rightarrow> (json \<Rightarrow> exn + moderation_decision) \<Rightarrow> ustr \<Rightarrow> 's moderation_backend" where
  "plugin_review post validate broker_url req pol =
     bindp (post (rstrip_slash broker_url @ lit ''/plugin-broker/moderate'')
         (JObj [(lit ''point'', JStr (point_value (mr_point req))),
                (lit ''params'', JObj (thaw_json_object (mr_params req)))]) []) (\<lambda>body.
       let payload = dict_or (as_string_mapping body);
           raw = (case as_string_mapping (payload_get payload (lit ''result'')) of
                    Some (kv # kvs) \<Rightarrow> kv # kvs | _ \<Rightarrow> payload)
       in case validate (JObj raw) of
            Inl e \<Rightarrow> raisep e
          | Inr d \<Rightarrow> retp (d\<lparr>md_backend := lit ''plugin''\<rparr>))"

section \<open>The service\<close>

record audit_context =
  ax_stable_key :: "ustr option"
  ax_message_id :: "ustr option"
  ax_trace_id :: "ustr option"

record audit_row =
  au_request :: moderation_request
  au_decision :: moderation_decision
  au_sha256 :: ustr
  au_preview :: ustr
  au_duration_ms :: int
  au_context :: audit_context
  au_error_code :: "ustr option"

record 's moderation_env =
  me_policy :: "('s, json option) prog"
  me_validate :: "json \<Rightarrow> exn + moderation_policy"
  me_backends :: "(ustr, 's moderation_backend) dict"
  me_audit :: "audit_row \<Rightarrow> ('s, unit) prog"
  me_clock :: "'s \<Rightarrow> real"
  me_sha256 :: "ustr \<Rightarrow> ustr"

definition load_policy :: "'s moderation_env \<Rightarrow> ('s, moderation_policy) prog" where
  "load_policy env = bindp (me_policy env) (\<lambda>raw.
     case raw of
       None \<Rightarrow> retp default_policy
     | Some v \<Rightarrow> (case me_validate env v of Inl e \<Rightarrow> raisep e | Inr p \<Rightarrow> retp p))"

definition failure_decision ::
  "moderation_policy \<Rightarrow> moderation_request \<Rightarrow> ustr \<Rightarrow> ustr \<Rightarrow> moderation_decision" where
  "failure_decision pol req backend error =
     (let point = policy_point pol (mr_point req); closed = mp_fail_mode pol = Fail_closed
      in mk_decision closed (pp_action point) (if closed then pp_preset point else []) backend
           (lit ''backend_error:'' @ error) [])"

definition moderation_row ::
  "'s moderation_env \<Rightarrow> audit_context \<Rightarrow> moderation_request \<Rightarrow> moderation_decision \<Rightarrow> int
     \<Rightarrow> ustr option \<Rightarrow> audit_row" where
  "moderation_row env ctx req d duration err = \<lparr>au_request = req, au_decision = d,
     au_sha256 = me_sha256 env (request_text req), au_preview = take 160 (request_text req),
     au_duration_ms = duration, au_context = ctx, au_error_code = err\<rparr>"

text \<open>What one backend says: its decision with the error code, or the failure decision.\<close>

definition consult ::
  "'s moderation_backend \<Rightarrow> moderation_policy \<Rightarrow> moderation_request \<Rightarrow> ustr
     \<Rightarrow> ('s, moderation_decision \<times> ustr option) prog" where
  "consult review pol req name =
     catchp (bindp (review req pol) (\<lambda>d. retp (d, None)))
       (\<lambda>err. retp (failure_decision pol req name err, Some err))"

definition review_one ::
  "'s moderation_env \<Rightarrow> audit_context \<Rightarrow> moderation_request \<Rightarrow> moderation_policy \<Rightarrow> ustr
     \<Rightarrow> ('s, moderation_decision) prog" where
  "review_one env ctx req pol name =
     (case map_of (me_backends env) name of
        None \<Rightarrow>
          let d = failure_decision pol req name (lit ''unavailable'')
          in bindp (me_audit env (moderation_row env ctx req d 0 (Some (lit ''backend_unavailable''))))
               (\<lambda>_. retp d)
      | Some review \<Rightarrow>
          bindp (getp (me_clock env)) (\<lambda>started.
          bindp (consult review pol req name) (\<lambda>(d, err).
          bindp (getp (me_clock env)) (\<lambda>now.
          bindp (me_audit env (moderation_row env ctx req d (elapsed_ms started now) err))
            (\<lambda>_. retp d)))))"

fun review_chain ::
  "'s moderation_env \<Rightarrow> audit_context \<Rightarrow> moderation_request \<Rightarrow> moderation_policy \<Rightarrow> ustr list
     \<Rightarrow> ('s, moderation_decision) prog" where
  "review_chain env ctx req pol [] =
     retp (mk_decision False DIRECT_OUTPUT [] (lit ''chain'') (lit ''clear'') [])"
| "review_chain env ctx req pol (name # names) =
     bindp (review_one env ctx req pol name) (\<lambda>d.
       if md_flagged d then retp d else review_chain env ctx req pol names)"

definition moderate ::
  "'s moderation_env \<Rightarrow> audit_context \<Rightarrow> moderation_request \<Rightarrow> ('s, moderation_decision) prog" where
  "moderate env ctx req =
     bindp (load_policy env) (\<lambda>pol.
       if \<not> mp_enabled pol \<or> \<not> pp_enabled (policy_point pol (mr_point req)) then
         let d = mk_decision False DIRECT_OUTPUT [] (lit ''disabled'') (lit ''disabled'') []
         in bindp (me_audit env (moderation_row env ctx req d 0 None)) (\<lambda>_. retp d)
       else review_chain env ctx req pol (mp_backends pol))"

section \<open>The audit trail\<close>

text \<open>The rows that one run leaves for \<open>n\<close> backends and the decision \<open>d\<close>.\<close>

definition trail :: "moderation_request \<Rightarrow> nat \<Rightarrow> moderation_decision \<Rightarrow> audit_row list \<Rightarrow> bool" where
  "trail req n d new \<longleftrightarrow> length new \<le> n \<and> (\<forall>row \<in> set new. au_request row = req) \<and>
     (\<forall>row \<in> set (butlast new). \<not> md_flagged (au_decision row)) \<and>
     (if md_flagged d then new \<noteq> [] \<and> au_decision (last new) = d
      else length new = n \<and> (\<forall>row \<in> set new. \<not> md_flagged (au_decision row)))"

text \<open>What the service relies on: the audit sink adds the row or raises, and nothing else
  writes to the trail.\<close>

locale audited_moderation =
  fixes env :: "'s moderation_env" and rows :: "'s \<Rightarrow> audit_row list"
  assumes policy_frame: "moves (same_view rows) (me_policy env)"
    and backend_frame:
      "map_of (me_backends env) n = Some review \<Longrightarrow> moves (same_view rows) (review req pol)"
    and audit_adds: "me_audit env row s = (Inr u, s') \<Longrightarrow> rows s' = rows s @ [row]"
begin

lemma consult_frame:
  "map_of (me_backends env) n = Some review \<Longrightarrow> moves (same_view rows) (consult review pol req n)"
  unfolding consult_def by (intro moves_intro same_view_refl same_view_trans) (rule backend_frame)

lemma review_one_row:
  assumes "review_one env ctx req pol name s = (Inr d, s')"
  shows "\<exists>row. rows s' = rows s @ [row] \<and> au_decision row = d \<and> au_request row = req"
proof (cases "map_of (me_backends env) name")
  case None
  with assms obtain row u where "me_audit env row s = (Inr u, s')" "au_decision row = d" "au_request row = req"
    by (auto simp: review_one_def Let_def moderation_row_def elim!: bindp_cases)
  then show ?thesis using audit_adds by blast
next
  case (Some review)
  from assms obtain x s1 row u where "consult review pol req name s = (Inr x, s1)"
    and "me_audit env row s1 = (Inr u, s')" "au_decision row = d" "au_request row = req"
    unfolding review_one_def Some option.case
    by (auto simp: getp_def moderation_row_def elim!: bindp_cases)
  then show ?thesis
    using audit_adds movesD [OF consult_frame [OF Some]] unfolding same_view_def by metis
qed

lemma review_chain_trail:
  assumes "review_chain env ctx req pol names s = (Inr d, s')"
  shows "\<exists>new. rows s' = rows s @ new \<and> trail req (length names) d new"
  using assms
proof (induction names arbitrary: s)
  case Nil
  then show ?case by (auto simp: mk_decision_def trail_def)
next
  case (Cons name names)
  from Cons.prems obtain d1 s1 where one: "review_one env ctx req pol name s = (Inr d1, s1)"
    and rest: "(if md_flagged d1 then retp d1 else review_chain env ctx req pol names) s1 = (Inr d, s')"
    by (auto elim: bindp_cases)
  obtain row where row: "rows s1 = rows s @ [row]" "au_decision row = d1" "au_request row = req"
    using review_one_row [OF one] by blast
  show ?case
  proof (cases "md_flagged d1")
    case True
    with rest row have "rows s' = rows s @ [row] \<and> trail req (length (name # names)) d [row]"
      by (simp add: trail_def)
    then show ?thesis by blast
  next
    case False
    with rest Cons.IH [of s1] obtain new where new: "rows s' = rows s1 @ new" "trail req (length names) d new"
      by auto
    then have "trail req (length (name # names)) d (row # new)"
      using row False by (auto simp: trail_def split: if_splits)
    with new(1) row(1) show ?thesis by (metis append_Cons append_assoc append_Nil)
  qed
qed

end


section \<open>A host\<close>

text \<open>
  The service put together: the stored policy, the three backends with the remote two on a
  server that answers after some time, and an audit table.
\<close>

record mod_world =
  mw_now :: real
  mw_rows :: "audit_row list"

record mod_host =
  mo_policy :: "json option"
  mo_validate :: "json \<Rightarrow> exn + moderation_policy"
  mo_decode :: "json \<Rightarrow> exn + moderation_decision"
  mo_casefold :: "ustr \<Rightarrow> ustr"
  mo_server :: "ustr \<Rightarrow> json \<Rightarrow> (exn + json) \<times> real"

definition host_post :: "mod_host \<Rightarrow> mod_world json_post" where
  "host_post h url body headers w =
     (case mo_server h url body of (r, d) \<Rightarrow> (r, w\<lparr>mw_now := mw_now w + d\<rparr>))"

definition moderation_host :: "mod_host \<Rightarrow> mod_world moderation_env" where
  "moderation_host h = \<lparr>
     me_policy = retp (mo_policy h),
     me_validate = mo_validate h,
     me_backends = [(lit ''local'', local_backend (mo_casefold h)),
       (lit ''api'', openai_review (host_post h) (lit ''https://api/v1'') None (lit ''omni-moderation-latest'')),
       (lit ''plugin'', plugin_review (host_post h) (mo_decode h) (lit ''http://broker''))],
     me_audit = (\<lambda>row w. (Inr (), w\<lparr>mw_rows := mw_rows w @ [row]\<rparr>)),
     me_clock = mw_now, me_sha256 = (\<lambda>s. s)\<rparr>"

lemma host_post_frame: "moves (same_view mw_rows) (host_post h url body headers)"
  by (simp add: moves_def same_view_def host_post_def split: prod.split)

lemma moves_sum:
  "(\<And>e. x = Inl e \<Longrightarrow> moves R (f e)) \<Longrightarrow> (\<And>y. x = Inr y \<Longrightarrow> moves R (g y)) \<Longrightarrow>
    moves R (case x of Inl e \<Rightarrow> f e | Inr y \<Rightarrow> g y)"
  by (cases x) auto

lemma review_frames:
  "moves (same_view mw_rows) (local_backend cf req pol)"
  "moves (same_view mw_rows) (openai_review (host_post h) url key model req pol)"
  "moves (same_view mw_rows) (plugin_review (host_post h) validate url req pol)"
  unfolding local_backend_def openai_review_def plugin_review_def Let_def
  by (intro moves_intro moves_sum host_post_frame same_view_refl same_view_trans)+

interpretation mod: audited_moderation "moderation_host h" mw_rows for h
proof
  show "moves (same_view mw_rows) (me_policy (moderation_host h))"
    by (simp add: moderation_host_def moves_retp)
  show "moves (same_view mw_rows) (review req pol)"
    if "map_of (me_backends (moderation_host h)) n = Some review" for n review req pol
    using that review_frames by (auto simp: moderation_host_def split: if_splits)
  show "mw_rows s' = mw_rows s @ [row]" if "me_audit (moderation_host h) row s = (Inr u, s')" for row s u s'
    using that by (auto simp: moderation_host_def)
qed

section \<open>Properties\<close>

text \<open>
  local moderation is exact. The keyword backend always answers, and it flags a request
  exactly when some keyword, stripped and case-folded and not empty, occurs in the
  case-folded text of the request.
\<close>

theorem local_moderation_exact:
  "\<exists>d. local_review casefold req pol = Some d \<and>
     (md_flagged d \<longleftrightarrow> (\<exists>kw \<in> set (mp_keywords pol). casefold (strip kw) \<noteq> [] \<and>
        has_sub (casefold (strip kw)) (casefold (request_text req))))"
proof -
  obtain a where a: "ac_build casefold (mp_keywords pol) = Some a" "ac_find casefold a (request_text req)
      = Some (sorted_list_of_set {w \<in> ac_terms casefold (mp_keywords pol). has_sub w (casefold (request_text req))})"
    using find_terms by blast
  have "sorted_list_of_set {w \<in> ac_terms casefold (mp_keywords pol). has_sub w (casefold (request_text req))} \<noteq> []
      \<longleftrightarrow> {w \<in> ac_terms casefold (mp_keywords pol). has_sub w (casefold (request_text req))} \<noteq> {}"
    by (subst sorted_list_of_set_eq_Nil_iff) auto
  also have "\<dots> \<longleftrightarrow> (\<exists>kw \<in> set (mp_keywords pol). casefold (strip kw) \<noteq> [] \<and>
        has_sub (casefold (strip kw)) (casefold (request_text req)))"
    by (auto simp: ac_terms_def)
  finally show ?thesis using a by (simp add: local_review_def mk_decision_def Let_def)
qed

text \<open>A backend of the policy that is not installed, or never answers.\<close>

definition backend_fails ::
  "'s moderation_env \<Rightarrow> moderation_request \<Rightarrow> moderation_policy \<Rightarrow> ustr \<Rightarrow> bool" where
  "backend_fails env req pol name \<longleftrightarrow>
     (case map_of (me_backends env) name of None \<Rightarrow> True
      | Some review \<Rightarrow> \<forall>s. \<exists>e s'. review req pol s = (Inl e, s'))"

lemma review_one_failing:
  assumes "review_one env ctx req pol name s = (Inr d, s')"
    and "backend_fails env req pol name"
  shows "md_flagged d \<longleftrightarrow> mp_fail_mode pol = Fail_closed"
proof (cases "map_of (me_backends env) name")
  case None
  with assms(1) show ?thesis
    by (auto simp: review_one_def Let_def failure_decision_def mk_decision_def elim!: bindp_cases)
next
  case (Some review)
  have fails: "\<exists>e t. review req pol s = (Inl e, t)" for s using assms(2) Some by (simp add: backend_fails_def)
  have "x = (failure_decision pol req name err, Some err)"
    if "consult review pol req name t = (Inr x, t')" and "snd x = Some err" for x t t' err
    using that fails [of t] by (auto simp: consult_def catchp_def bindp_def split: prod.splits sum.splits exn.splits)
  moreover have "snd x \<noteq> None" if "consult review pol req name t = (Inr x, t')" for x t t'
    using that fails [of t] by (auto simp: consult_def catchp_def bindp_def split: prod.splits sum.splits exn.splits)
  ultimately show ?thesis
    using assms(1) Some
    by (fastforce simp: review_one_def getp_def Let_def failure_decision_def mk_decision_def elim!: bindp_cases)
qed

lemma review_chain_failing:
  assumes "review_chain env ctx req pol names s = (Inr d, s')" and "name \<in> set names"
    and "backend_fails env req pol name"
    and "mp_fail_mode pol = Fail_closed"
  shows "md_flagged d"
  using assms(1,2)
proof (induction names arbitrary: s)
  case (Cons n names)
  from Cons.prems(1) obtain d1 s1 where one: "review_one env ctx req pol n s = (Inr d1, s1)"
    and rest: "(if md_flagged d1 then retp d1 else review_chain env ctx req pol names) s1 = (Inr d, s')"
    by (auto elim: bindp_cases)
  show ?case
  proof (cases "md_flagged d1")
    case False
    then have "n \<noteq> name" using review_one_failing [OF one] assms(3,4) by blast
    then show ?thesis using Cons.IH [of s1] Cons.prems(2) rest False by auto
  qed (use rest in auto)
qed simp

lemma review_chain_open:
  assumes "review_chain env ctx req pol names s = (Inr d, s')"
    and "\<forall>name \<in> set names. backend_fails env req pol name"
    and "mp_fail_mode pol = Fail_open"
  shows "\<not> md_flagged d"
  using assms(1,2)
proof (induction names arbitrary: s)
  case Nil
  then show ?case by (auto simp: mk_decision_def)
next
  case (Cons n names)
  from Cons.prems(1) obtain d1 s1 where one: "review_one env ctx req pol n s = (Inr d1, s1)"
    and rest: "(if md_flagged d1 then retp d1 else review_chain env ctx req pol names) s1 = (Inr d, s')"
    by (auto elim: bindp_cases)
  have "\<not> md_flagged d1" using review_one_failing [OF one] Cons.prems(2) assms(3) by auto
  then show ?case using Cons.IH [of s1] Cons.prems(2) rest by auto
qed

text \<open>
  with the failure policy \<open>closed\<close> nothing passes unreviewed: when a backend of the
  policy is missing or fails, the decision is flagged, whatever the other backends say.
\<close>

theorem fail_closed_blocks:
  assumes "moderate env ctx req s = (Inr d, s')" and "load_policy env s = (Inr pol, s1)"
    and "mp_enabled pol" and "pp_enabled (policy_point pol (mr_point req))"
    and "mp_fail_mode pol = Fail_closed" and "name \<in> set (mp_backends pol)"
    and "backend_fails env req pol name"
  shows "md_flagged d"
proof -
  have "review_chain env ctx req pol (mp_backends pol) s1 = (Inr d, s')"
    using assms(1-4) by (simp add: moderate_def bindp_def)
  from review_chain_failing [OF this assms(6,7,5)] show ?thesis .
qed

definition demo_mod_host :: mod_host where
  "demo_mod_host = \<lparr>mo_policy = Some JNull,
     mo_validate = (\<lambda>_. Inr (default_policy\<lparr>mp_backends := [lit ''api''], mp_fail_mode := Fail_closed\<rparr>)),
     mo_decode = (\<lambda>_. Inl (Raised (lit ''ValidationError''))), mo_casefold = ascii_lower,
     mo_server = (\<lambda>url body. (Inl (Raised (lit ''ConnectError'')), 2))\<rparr>"

definition demo_request :: moderation_request where
  "demo_request = \<lparr>mr_point = OUTBOUND, mr_params = [(lit ''text'', FStr (lit ''answer''))]\<rparr>"

definition demo_mod_context :: audit_context where
  "demo_mod_context = \<lparr>ax_stable_key = None, ax_message_id = None, ax_trace_id = None\<rparr>"

definition demo_mod_world :: mod_world where
  "demo_mod_world = \<lparr>mw_now = 0, mw_rows = []\<rparr>"

lemma demo_mod_policy: "load_policy (moderation_host demo_mod_host) demo_mod_world
    = (Inr (default_policy\<lparr>mp_backends := [lit ''api''], mp_fail_mode := Fail_closed\<rparr>), demo_mod_world)"
  by (simp add: load_policy_def moderation_host_def demo_mod_host_def bindp_def)

lemma demo_api_fails: "openai_review (host_post demo_mod_host) url key model req pol w
    = (Inl (Raised (lit ''ConnectError'')), w\<lparr>mw_now := mw_now w + 2\<rparr>)"
  by (simp add: openai_review_def bindp_def host_post_def demo_mod_host_def)

lemma demo_mod_backends: "map_of (me_backends (moderation_host demo_mod_host)) (lit ''api'')
    = Some (openai_review (host_post demo_mod_host) (lit ''https://api/v1'') None (lit ''omni-moderation-latest''))"
  by (simp add: moderation_host_def str_simps)

lemma demo_moderation: "\<exists>d w. moderate (moderation_host demo_mod_host) demo_mod_context demo_request demo_mod_world = (Inr d, w)"
proof -
  have "me_audit (moderation_host demo_mod_host) = (\<lambda>row w. (Inr (), w\<lparr>mw_rows := mw_rows w @ [row]\<rparr>))"
    by (simp add: moderation_host_def)
  then show ?thesis
    using demo_mod_policy
    by (simp add: moderate_def bindp_def default_policy_def default_point_def policy_point_def
        demo_request_def review_one_def demo_mod_backends consult_def catchp_def demo_api_fails getp_def
        failure_decision_def)
qed

theorem fail_closed_blocks_witness:
  "\<exists>d w. moderate (moderation_host demo_mod_host) demo_mod_context demo_request demo_mod_world = (Inr d, w)
     \<and> md_flagged d"
proof -
  obtain d w where run: "moderate (moderation_host demo_mod_host) demo_mod_context demo_request demo_mod_world = (Inr d, w)"
    using demo_moderation by blast
  have "md_flagged d"
    by (rule fail_closed_blocks [OF run demo_mod_policy, of "lit ''api''"])
      (simp_all add: default_policy_def default_point_def policy_point_def backend_fails_def demo_mod_backends demo_api_fails)
  with run show ?thesis by blast
qed

text \<open>
  with the failure policy \<open>open\<close> failures alone never block: when every backend of the
  policy is missing or fails, the decision is not flagged.
\<close>

theorem fail_open_passes:
  assumes "moderate env ctx req s = (Inr d, s')" and "load_policy env s = (Inr pol, s1)"
    and "mp_fail_mode pol = Fail_open"
    and "\<forall>name \<in> set (mp_backends pol). backend_fails env req pol name"
  shows "\<not> md_flagged d"
proof -
  have "review_chain env ctx req pol (mp_backends pol) s1 = (Inr d, s') \<or> \<not> md_flagged d"
    using assms(1,2)
    by (auto simp: moderate_def bindp_def Let_def mk_decision_def split: if_splits prod.splits sum.splits)
  then show ?thesis using review_chain_open [OF _ assms(4,3)] by blast
qed

theorem fail_open_passes_witness:
  "\<exists>d w. moderate (moderation_host (demo_mod_host\<lparr>mo_validate := \<lambda>_. Inr (default_policy\<lparr>mp_backends := [lit ''none'']\<rparr>)\<rparr>))
      demo_mod_context demo_request demo_mod_world = (Inr d, w) \<and> \<not> md_flagged d"
proof -
  let ?pol = "default_policy\<lparr>mp_backends := [lit ''none'']\<rparr>"
  let ?env = "moderation_host (demo_mod_host\<lparr>mo_validate := \<lambda>_. Inr ?pol\<rparr>)"
  have pol: "load_policy ?env demo_mod_world = (Inr ?pol, demo_mod_world)"
    by (simp add: load_policy_def moderation_host_def demo_mod_host_def bindp_def)
  have none: "map_of (me_backends ?env) (lit ''none'') = None"
    by (simp add: moderation_host_def str_simps)
  have "me_audit ?env = (\<lambda>row w. (Inr (), w\<lparr>mw_rows := mw_rows w @ [row]\<rparr>))"
    by (simp add: moderation_host_def)
  then obtain d w where run: "moderate ?env demo_mod_context demo_request demo_mod_world = (Inr d, w)"
    using pol none
    by (auto simp: moderate_def bindp_def default_policy_def default_point_def policy_point_def
        review_one_def Let_def failure_decision_def mk_decision_def)
  have "backend_fails ?env demo_request ?pol (lit ''none'')"
    unfolding backend_fails_def none by simp
  then have "\<not> md_flagged d"
    by (intro fail_open_passes [OF run pol]) (simp_all add: default_policy_def)
  with run show ?thesis by blast
qed

text \<open>
  every review is audited. A moderation leaves one row per backend consulted, all about
  this request, the rows before the last are unflagged, and the decision is flagged exactly
  when the last row is, with that row's decision.
\<close>

theorem moderation_audited:
  assumes "moderate (moderation_host h) ctx req w = (Inr d, w')"
  shows "\<exists>new. mw_rows w' = mw_rows w @ new \<and> (\<forall>row \<in> set new. au_request row = req) \<and>
    (\<forall>row \<in> set (butlast new). \<not> md_flagged (au_decision row)) \<and>
    (if md_flagged d then new \<noteq> [] \<and> au_decision (last new) = d
     else \<forall>row \<in> set new. \<not> md_flagged (au_decision row))"
proof -
  let ?env = "moderation_host h"
  from assms obtain pol w1 where pol: "load_policy ?env w = (Inr pol, w1)"
    by (auto simp: moderate_def elim: bindp_cases)
  have same: "mw_rows w1 = mw_rows w"
    using pol by (auto simp: load_policy_def moderation_host_def split: option.splits sum.splits)
  show ?thesis
  proof (cases "\<not> mp_enabled pol \<or> \<not> pp_enabled (policy_point pol (mr_point req))")
    case True
    with assms pol obtain row where "mw_rows w' = mw_rows w1 @ [row]" "au_request row = req" "au_decision row = d"
        "\<not> md_flagged d"
      by (auto simp: moderate_def bindp_def Let_def moderation_host_def moderation_row_def mk_decision_def)
    with same show ?thesis by (intro exI [of _ "[row]"]) simp
  next
    case False
    with assms pol have "review_chain ?env ctx req pol (mp_backends pol) w1 = (Inr d, w')"
      by (auto simp: moderate_def bindp_def)
    from mod.review_chain_trail [OF this] same show ?thesis by (auto simp: trail_def)
  qed
qed

theorem moderation_audited_witness:
  "\<exists>d w. moderate (moderation_host demo_mod_host) demo_mod_context demo_request demo_mod_world = (Inr d, w)
     \<and> (\<exists>new. mw_rows w = mw_rows demo_mod_world @ new)"
proof -
  obtain d w where run: "moderate (moderation_host demo_mod_host) demo_mod_context demo_request demo_mod_world = (Inr d, w)"
    using demo_moderation by blast
  with moderation_audited [OF run] show ?thesis by blast
qed

end
