(* ===== verification/Embeddings.thy ===== *)
theory Embeddings
  imports Llm
begin

text \<open>
  The embeddings client, \<open>src/mybot/infrastructure/embeddings.py\<close>: the bounded retry loop
  and the parsing of the response by index. \<open>float(text)\<close> on a JSON string is the parameter
  \<open>float_of\<close>. A response whose indices are not \<open>0 .. n - 1\<close> ends in a \<open>KeyError\<close>, which is
  not an \<open>EmbeddingError\<close>.
\<close>

datatype embed_exn = EmbeddingError ustr bool | EmbeddingOther exn

type_synonym embedding = "real list"

fun as_float :: "(ustr \<Rightarrow> real option) \<Rightarrow> json \<Rightarrow> exn + real" where
  "as_float float_of (JFloat r) = Inr r"
| "as_float float_of (JInt i) = Inr (of_int i)"
| "as_float float_of (JBool b) = Inr (if b then 1 else 0)"
| "as_float float_of (JStr s) =
     (case float_of s of None \<Rightarrow> Inl (Raised (lit ''ValueError'')) | Some r \<Rightarrow> Inr r)"
| "as_float float_of _ = Inl (Raised (lit ''TypeError''))"

fun as_floats :: "(ustr \<Rightarrow> real option) \<Rightarrow> json list \<Rightarrow> exn + real list" where
  "as_floats float_of [] = Inr []"
| "as_floats float_of (v # vs) =
     bindr (as_float float_of v) (\<lambda>r. bindr (as_floats float_of vs) (\<lambda>rs. Inr (r # rs)))"

text \<open>One entry of \<open>data\<close>: its index and numbers, when it has both.\<close>

definition indexed_entry :: "json \<Rightarrow> (int \<times> json list) option" where
  "indexed_entry raw =
     (case as_string_mapping raw of
        None \<Rightarrow> None
      | Some entry \<Rightarrow>
          (case (get_int entry (lit ''index''), payload_get entry (lit ''embedding'')) of
             (Some i, JArr vs) \<Rightarrow> Some (i, vs)
           | _ \<Rightarrow> None))"

fun index_entries ::
  "(ustr \<Rightarrow> real option) \<Rightarrow> json list \<Rightarrow> (int, embedding) dict \<Rightarrow> exn + (int, embedding) dict" where
  "index_entries float_of [] indexed = Inr indexed"
| "index_entries float_of (raw # rest) indexed =
     (case indexed_entry raw of
        None \<Rightarrow> index_entries float_of rest indexed
      | Some (i, vs) \<Rightarrow>
          bindr (as_floats float_of vs) (\<lambda>rs. index_entries float_of rest (AList.update i rs indexed)))"

text \<open>\<open>[indexed[position] for position in range(expected)]\<close>.\<close>

fun by_position :: "(int, embedding) dict \<Rightarrow> nat list \<Rightarrow> exn + embedding list" where
  "by_position indexed [] = Inr []"
| "by_position indexed (p # ps) =
     (case map_of indexed (int p) of
        None \<Rightarrow> Inl (Raised (lit ''KeyError''))
      | Some v \<Rightarrow> bindr (by_position indexed ps) (\<lambda>vs. Inr (v # vs)))"

definition as_other :: "exn + 'a \<Rightarrow> embed_exn + 'a" where
  "as_other r = (case r of Inl e \<Rightarrow> Inl (EmbeddingOther e) | Inr x \<Rightarrow> Inr x)"

definition parse_embeddings ::
  "(ustr \<Rightarrow> real option) \<Rightarrow> json \<Rightarrow> nat \<Rightarrow> embed_exn + embedding list" where
  "parse_embeddings float_of body expected =
     (case payload_get (dict_or (as_string_mapping body)) (lit ''data'') of
        JArr raws \<Rightarrow>
          bindr (as_other (index_entries float_of raws [])) (\<lambda>indexed.
            if length indexed \<noteq> expected
            then Inl (EmbeddingError (lit ''embeddings response had '' @ dec (length indexed) @
                   lit '' vectors for '' @ dec expected @ lit '' inputs'') False)
            else as_other (by_position indexed [0..<expected]))
      | _ \<Rightarrow> Inl (EmbeddingError (lit ''embeddings response had no data list'') False))"

fun embed_loop ::
  "('s \<Rightarrow> http_outcome \<times> 's) \<Rightarrow> (ustr \<Rightarrow> real option) \<Rightarrow> nat \<Rightarrow> nat \<Rightarrow> embed_exn
     \<Rightarrow> (embed_exn, 's, embedding list) eprog" where
  "embed_loop post float_of n 0 last_error s = (Inl last_error, s)"
| "embed_loop post float_of n (Suc attempts) last_error s =
     (case post s of
        (HttpCancelled, s') \<Rightarrow> (Inl (EmbeddingOther Cancelled), s')
      | (HttpError name, s') \<Rightarrow> embed_loop post float_of n attempts
          (EmbeddingError (lit ''embeddings transport failure: '' @ name) True) s'
      | (HttpOther name, s') \<Rightarrow> (Inl (EmbeddingOther (Raised name)), s')
      | (HttpResponse status body, s') \<Rightarrow>
          if retryable_status status
          then embed_loop post float_of n attempts
                 (EmbeddingError (lit ''embeddings returned HTTP '' @ dec_int status) True) s'
          else if status \<ge> 400
          then (Inl (EmbeddingError (lit ''embeddings rejected with HTTP '' @ dec_int status) False), s')
          else (case body of
                  None \<Rightarrow> (Inl (EmbeddingOther (Raised (lit ''JSONDecodeError''))), s')
                | Some b \<Rightarrow> (parse_embeddings float_of b n, s')))"

text \<open>\<open>EmbeddingClient.embed\<close>; \<open>post\<close> sends the texts.\<close>

definition embed_texts ::
  "(ustr list \<Rightarrow> 's \<Rightarrow> http_outcome \<times> 's) \<Rightarrow> (ustr \<Rightarrow> real option) \<Rightarrow> int \<Rightarrow> ustr list
     \<Rightarrow> (embed_exn, 's, embedding list) eprog" where
  "embed_texts post float_of max_retries texts s =
     (if texts = [] then (Inr [], s)
      else embed_loop (post texts) float_of (length texts) (nat (max_retries + 1))
             (EmbeddingError (lit ''embeddings were never attempted'') True) s)"

section \<open>Lemmas\<close>

lemma as_other_Inr [simp]: "as_other r = Inr x \<longleftrightarrow> r = Inr x"
  by (cases r) (auto simp: as_other_def)

lemma as_other_ok [simp]: "as_other (Inr x) = Inr x"
  by (simp add: as_other_def)

lemma by_position_nth:
  "by_position indexed ps = Inr vs \<Longrightarrow>
    length vs = length ps \<and> (\<forall>k < length ps. map_of indexed (int (ps ! k)) = Some (vs ! k))"
  by (induction ps arbitrary: vs)
    (fastforce simp: bindr_eq_Inr nth_Cons split: option.splits nat.splits)+

lemma index_entries_source:
  assumes "index_entries float_of raws d = Inr d'" and "map_of d' i = Some v"
  shows "map_of d i = Some v \<or>
    (\<exists>raw \<in> set raws. \<exists>vs. indexed_entry raw = Some (i, vs) \<and> as_floats float_of vs = Inr v)"
  using assms
proof (induction raws arbitrary: d)
  case (Cons raw raws)
  show ?case
  proof (cases "indexed_entry raw")
    case None
    with Cons show ?thesis by auto
  next
    case (Some iv)
    then obtain j vs where j: "indexed_entry raw = Some (j, vs)" by (cases iv) auto
    with Cons.prems(1) obtain rs where rs: "as_floats float_of vs = Inr rs"
      and rest: "index_entries float_of raws (AList.update j rs d) = Inr d'"
      by (auto simp: bindr_eq_Inr)
    from Cons.IH [OF rest Cons.prems(2)] j rs show ?thesis
      by (auto simp: dict_simps split: if_splits)
  qed
qed simp

lemma embed_loop_Inr:
  assumes "embed_loop post float_of n k e s = (Inr vs, s')"
  shows "\<exists>b s0 status. post s0 = (HttpResponse status (Some b), s') \<and> \<not> retryable_status status \<and>
    status < 400 \<and> parse_embeddings float_of b n = Inr vs"
  using assms
  by (induction post float_of n k e s rule: embed_loop.induct)
    (force split: prod.splits http_outcome.splits if_splits option.splits)+

section \<open>Properties\<close>

text \<open>
  embeddings keep the order of the inputs. When the client returns vectors there is one
  per text, and the vector of the \<open>k\<close>-th text is the one that the server's accepted response
  lists under index \<open>k\<close>, in whatever order it lists them.
\<close>


theorem embeddings_match_inputs:
  assumes "embed_texts post float_of max_retries texts s = (Inr vs, s')"
  shows "length vs = length texts \<and> (\<forall>k < length texts. \<exists>s0 status b raws raw ws.
    post texts s0 = (HttpResponse status (Some b), s') \<and> status < 400 \<and>
    payload_get (dict_or (as_string_mapping b)) (lit ''data'') = JArr raws \<and> raw \<in> set raws \<and>
    indexed_entry raw = Some (int k, ws) \<and> as_floats float_of ws = Inr (vs ! k))"
proof (cases "texts = []")
  case True
  with assms show ?thesis by (simp add: embed_texts_def)
next
  case False
  with assms obtain b s0 status where resp: "post texts s0 = (HttpResponse status (Some b), s')" "status < 400"
    and parse: "parse_embeddings float_of b (length texts) = Inr vs"
    using embed_loop_Inr unfolding embed_texts_def by (metis (no_types, lifting))
  from parse obtain raws indexed where
    data: "payload_get (dict_or (as_string_mapping b)) (lit ''data'') = JArr raws"
    and indexed: "index_entries float_of raws [] = Inr indexed"
    and vs: "by_position indexed [0..<length texts] = Inr vs"
    by (auto simp: parse_embeddings_def bindr_eq_Inr split: json.splits if_splits)
  from by_position_nth [OF vs] have len: "length vs = length texts"
    and at: "\<And>k. k < length texts \<Longrightarrow> map_of indexed (int k) = Some (vs ! k)" by auto
  have "\<exists>raw \<in> set raws. \<exists>ws. indexed_entry raw = Some (int k, ws) \<and> as_floats float_of ws = Inr (vs ! k)"
    if "k < length texts" for k
    using index_entries_source [OF indexed at [OF that]] by simp
  with len resp data show ?thesis by blast
qed

text \<open>A server that lists the second vector first.\<close>

definition demo_embeddings :: json where
  "demo_embeddings = JObj [(lit ''data'', JArr
     [JObj [(lit ''index'', JInt 1), (lit ''embedding'', JArr [JInt 7])],
      JObj [(lit ''index'', JInt 0), (lit ''embedding'', JArr [JInt 5])]])]"

theorem embeddings_match_inputs_witness:
  "\<exists>vs. embed_texts (\<lambda>texts n. (HttpResponse 200 (Some demo_embeddings), n + 1)) (\<lambda>_. None) 2 [[97], [98]] (0::nat)
     = (Inr vs, 1) \<and> length vs = 2"
proof -
  have run: "embed_texts (\<lambda>texts n. (HttpResponse 200 (Some demo_embeddings), n + 1)) (\<lambda>_. None) 2 [[97], [98]] (0::nat)
      = (Inr [[5], [7]], 1)"
    by (simp add: embed_texts_def numeral_eq_Suc retryable_status_def parse_embeddings_def demo_embeddings_def
        payload_get_def dict_get_def dict_or_def indexed_entry_def get_int_def str_simps upt_rec)
  from embeddings_match_inputs [OF run] run show ?thesis by auto
qed

end
