(* ===== verification/ModelRouting.thy ===== *)
theory ModelRouting
  imports AgentTurns Embeddings "HOL-Library.List_Lexorder"
begin

text \<open>
  Model channel routing, \<open>src/mybot/infrastructure/model_routing.py\<close>: which channels a call
  may use and in which order (tiers, priorities, weighted rotation, cooldowns), the failover
  loops for chat and embeddings with their attempt records, the cached configuration, and
  the cost of a call. A price is a rational number (\<open>Decimal\<close>). The state of the router is
  threaded beside the state \<open>'s\<close> of the services it calls.
\<close>

section \<open>Channels\<close>

datatype model_purpose = CHAT | MEMORY | EMBEDDING | VISION

fun purpose_value :: "model_purpose \<Rightarrow> ustr" where
  "purpose_value CHAT = lit ''chat''"
| "purpose_value MEMORY = lit ''memory''"
| "purpose_value EMBEDDING = lit ''embedding''"
| "purpose_value VISION = lit ''vision''"

record model_target =
  mt_model :: ustr
  mt_input_price :: "rat option"
  mt_output_price :: "rat option"

record model_channel =
  mc_name :: ustr
  mc_base_url :: ustr
  mc_api_key_env :: "ustr option"
  mc_priority :: int
  mc_weight :: int
  mc_tier :: ustr
  mc_enabled :: bool
  mc_model_map :: "(model_purpose, model_target) dict"

definition name_char :: "nat \<Rightarrow> bool" where
  "name_char c \<longleftrightarrow> (97 \<le> c \<and> c \<le> 122) \<or> py_digit c"

text \<open>\<open>[a-z0-9]+(?:[._-][a-z0-9]+)*\<close>; the flag tells whether a letter or digit must come next.\<close>

fun name_rest :: "bool \<Rightarrow> ustr \<Rightarrow> bool" where
  "name_rest need [] = (\<not> need)"
| "name_rest need (c # cs) =
     (if name_char c then name_rest False cs
      else \<not> need \<and> (c = 46 \<or> c = 95 \<or> c = 45) \<and> name_rest True cs)"

definition env_name :: "ustr \<Rightarrow> bool" where
  "env_name s \<longleftrightarrow> s \<noteq> [] \<and> (\<forall>c \<in> set s. (65 \<le> c \<and> c \<le> 90) \<or> c = 95 \<or> py_digit c) \<and> \<not> py_digit (hd s)"

definition valid_channel :: "model_channel \<Rightarrow> bool" where
  "valid_channel c \<longleftrightarrow> nonempty_str (mc_name c) \<and> name_rest True (mc_name c) \<and> nonempty_str (mc_base_url c) \<and>
     (case mc_api_key_env c of None \<Rightarrow> True | Some e \<Rightarrow> nonempty_str e \<and> env_name e) \<and>
     0 \<le> mc_priority c \<and> mc_priority c \<le> 10000 \<and> 1 \<le> mc_weight c \<and> mc_weight c \<le> 1000 \<and>
     nonempty_str (mc_tier c) \<and> mc_model_map c \<noteq> []"

section \<open>Candidates\<close>

definition eligible :: "model_purpose \<Rightarrow> ustr \<Rightarrow> model_channel list \<Rightarrow> model_channel list" where
  "eligible purpose tier cs =
     (let channels = filter (\<lambda>c. mc_enabled c \<and> map_of (mc_model_map c) purpose \<noteq> None) cs;
          matching = filter (\<lambda>c. mc_tier c = tier) channels;
          defaults = filter (\<lambda>c. mc_tier c = lit ''default'') channels
      in if matching \<noteq> [] then matching
         else if tier \<noteq> lit ''default'' \<and> defaults \<noteq> [] then defaults
         else channels)"

definition priority_group :: "model_channel list \<Rightarrow> int \<Rightarrow> model_channel list" where
  "priority_group cs p = sort_key mc_name (filter (\<lambda>c. mc_priority c = p) cs)"

definition weighted_pool :: "model_channel list \<Rightarrow> model_channel list" where
  "weighted_pool grp = concat (map (\<lambda>c. replicate (nat (mc_weight c)) c) grp)"

text \<open>\<open>for offset in range(len(pool)): pool[(cursor + offset) % len(pool)]\<close>.\<close>

definition rotated :: "nat \<Rightarrow> 'a list \<Rightarrow> 'a list" where
  "rotated cursor pool = map (\<lambda>offset. pool ! ((cursor + offset) mod length pool)) [0..<length pool]"

fun add_new :: "'a list \<Rightarrow> 'a list \<Rightarrow> 'a list" where
  "add_new ordered [] = ordered"
| "add_new ordered (c # cs) = add_new (if c \<in> set ordered then ordered else ordered @ [c]) cs"

fun order_groups ::
  "model_purpose \<Rightarrow> model_channel list \<Rightarrow> int list \<Rightarrow> (model_purpose, nat) dict \<Rightarrow> model_channel list
     \<Rightarrow> model_channel list \<times> (model_purpose, nat) dict" where
  "order_groups purpose cs [] cursors ordered = (ordered, cursors)"
| "order_groups purpose cs (p # ps) cursors ordered =
     (let pool = weighted_pool (priority_group cs p)
      in if pool = [] then order_groups purpose cs ps cursors ordered
         else order_groups purpose cs ps
                (AList.update purpose (dict_get cursors purpose 0 + 1) cursors)
                (add_new ordered (rotated (dict_get cursors purpose 0 mod length pool) pool)))"

definition ordered_channels ::
  "model_purpose \<Rightarrow> model_channel list \<Rightarrow> (model_purpose, nat) dict
     \<Rightarrow> model_channel list \<times> (model_purpose, nat) dict" where
  "ordered_channels purpose cs cursors =
     order_groups purpose cs (sorted_list_of_set (mc_priority ` set cs)) cursors []"

section \<open>The router\<close>

datatype attempt_status = Success | Retryable_error | Permanent_error

record call_context =
  cx_conversation :: "ustr option"
  cx_tier :: ustr
  cx_profile :: "ustr option"
  cx_persona :: "ustr option"

record model_attempt =
  at_purpose :: model_purpose
  at_channel :: ustr
  at_model :: ustr
  at_status :: attempt_status
  at_prompt_tokens :: int
  at_completion_tokens :: int
  at_latency_ms :: int
  at_context :: call_context
  at_input_price :: "rat option"
  at_output_price :: "rat option"
  at_cost_micros :: "int option"
  at_error_code :: "ustr option"

record router_state =
  rs_cached :: "model_channel list option"
  rs_expires :: real
  rs_cursors :: "(model_purpose, nat) dict"

text \<open>The services of a router; \<open>re_complete\<close> and \<open>re_embed\<close> are what the client of a channel
  does for a purpose with an API key.\<close>

record 's router_env =
  re_config :: "('s, json option) prog"
  re_validate :: "json \<Rightarrow> exn + model_channel"
  re_cooling :: "ustr \<Rightarrow> model_purpose \<Rightarrow> ('s, bool) prog"
  re_cool :: "ustr \<Rightarrow> model_purpose \<Rightarrow> int \<Rightarrow> ('s, unit) prog"
  re_record :: "model_attempt \<Rightarrow> ('s, unit) prog"
  re_clock :: "'s \<Rightarrow> real"
  re_secret :: "ustr \<Rightarrow> ustr option"
  re_complete :: "model_channel \<Rightarrow> model_purpose \<Rightarrow> ustr option \<Rightarrow> 's completer"
  re_embed :: "model_channel \<Rightarrow> model_purpose \<Rightarrow> ustr option \<Rightarrow> ustr list
    \<Rightarrow> (embed_exn, 's, embedding list) eprog"
  re_fallback :: "model_channel list"
  re_cache_ttl :: real
  re_cooldown :: int

definition latency_ms :: "real \<Rightarrow> real \<Rightarrow> int" where
  "latency_ms started finished = max 0 \<lfloor>(finished - started) * 1000\<rfloor>"

text \<open>\<open>ROUND_HALF_UP\<close>: to the nearest integer, ties away from zero.\<close>

definition half_up :: "rat \<Rightarrow> int" where
  "half_up x = (if 0 \<le> x then \<lfloor>x + 1 / 2\<rfloor> else - \<lfloor>1 / 2 - x\<rfloor>)"

definition cost_micros :: "model_target \<Rightarrow> int \<Rightarrow> int \<Rightarrow> int option" where
  "cost_micros t prompt completion =
     (if mt_input_price t = None \<and> mt_output_price t = None then None
      else Some (half_up (of_int prompt * (case mt_input_price t of None \<Rightarrow> 0 | Some p \<Rightarrow> p) +
                          of_int completion * (case mt_output_price t of None \<Rightarrow> 0 | Some p \<Rightarrow> p))))"

text \<open>A call of a service from the router, and the wrapping of its exceptions.\<close>

definition service :: "('e, 's, 'a) eprog \<Rightarrow> ('e, 's \<times> 'r, 'a) eprog" where
  "service m st = (case m (fst st) of (r, s') \<Rightarrow> (r, (s', snd st)))"

definition wrapped :: "('e \<Rightarrow> 'f) \<Rightarrow> ('e, 's, 'a) eprog \<Rightarrow> ('f, 's, 'a) eprog" where
  "wrapped w m s = (case m s of (Inl e, s') \<Rightarrow> (Inl (w e), s') | (Inr x, s') \<Rightarrow> (Inr x, s'))"

fun validate_all :: "('a \<Rightarrow> exn + 'b) \<Rightarrow> 'a list \<Rightarrow> exn + 'b list" where
  "validate_all f [] = Inr []"
| "validate_all f (x # xs) = bindr (f x) (\<lambda>y. bindr (validate_all f xs) (\<lambda>ys. Inr (y # ys)))"

definition read_channels :: "'s router_env \<Rightarrow> json option \<Rightarrow> exn + model_channel list" where
  "read_channels env raw =
     (case raw of
        None \<Rightarrow> Inr (re_fallback env)
      | Some (JArr items) \<Rightarrow> validate_all (re_validate env) items
      | Some _ \<Rightarrow> Inl (Raised (lit ''ModelRoutingError'')))"

definition channels :: "'s router_env \<Rightarrow> ('s \<times> router_state, model_channel list) prog" where
  "channels env st =
     (let now = re_clock env (fst st); r = snd st
      in case (if now < rs_expires r then rs_cached r else None) of
           Some cs \<Rightarrow> (Inr cs, st)
         | None \<Rightarrow>
             (case service (re_config env) st of
                (Inl e, st') \<Rightarrow> (Inl e, st')
              | (Inr raw, (s', r')) \<Rightarrow>
                  (case read_channels env raw of
                     Inl e \<Rightarrow> (Inl e, (s', r'))
                   | Inr cs \<Rightarrow> (Inr cs, (s', r'\<lparr>rs_cached := Some cs,
                       rs_expires := now + re_cache_ttl env\<rparr>)))))"

definition invalidate :: "router_state \<Rightarrow> router_state" where
  "invalidate r = r\<lparr>rs_cached := None, rs_expires := 0\<rparr>"

fun not_cooling ::
  "'s router_env \<Rightarrow> model_purpose \<Rightarrow> model_channel list \<Rightarrow> ('s, model_channel list) prog" where
  "not_cooling env purpose [] = retp []"
| "not_cooling env purpose (c # cs) =
     bindp (re_cooling env (mc_name c) purpose) (\<lambda>cooling.
     bindp (not_cooling env purpose cs) (\<lambda>rest. retp (if cooling then rest else c # rest)))"

definition advance ::
  "model_purpose \<Rightarrow> model_channel list \<Rightarrow> ('s \<times> router_state, model_channel list) prog" where
  "advance purpose cs st =
     (case ordered_channels purpose cs (rs_cursors (snd st)) of
        (ordered, cursors) \<Rightarrow> (Inr ordered, (fst st, (snd st)\<lparr>rs_cursors := cursors\<rparr>)))"

definition candidates ::
  "'s router_env \<Rightarrow> model_purpose \<Rightarrow> ustr \<Rightarrow> ('s \<times> router_state, model_channel list) prog" where
  "candidates env purpose tier =
     bindp (channels env) (\<lambda>cs.
     bindp (advance purpose (eligible purpose tier cs)) (\<lambda>ordered.
     service (not_cooling env purpose ordered)))"

definition api_key_of :: "'s router_env \<Rightarrow> model_channel \<Rightarrow> ustr option" where
  "api_key_of env c = (case mc_api_key_env c of None \<Rightarrow> None | Some e \<Rightarrow> re_secret env e)"

definition target_of :: "model_channel \<Rightarrow> model_purpose \<Rightarrow> model_target" where
  "target_of c purpose = the (map_of (mc_model_map c) purpose)"

definition error_attempt ::
  "model_channel \<Rightarrow> model_purpose \<Rightarrow> bool \<Rightarrow> int \<Rightarrow> call_context \<Rightarrow> ustr \<Rightarrow> model_attempt" where
  "error_attempt c purpose retryable latency cx code = (let t = target_of c purpose in
     \<lparr>at_purpose = purpose, at_channel = mc_name c, at_model = mt_model t,
      at_status = (if retryable then Retryable_error else Permanent_error),
      at_prompt_tokens = 0, at_completion_tokens = 0, at_latency_ms = latency, at_context = cx,
      at_input_price = mt_input_price t, at_output_price = mt_output_price t,
      at_cost_micros = None, at_error_code = Some code\<rparr>)"

definition success_attempt ::
  "model_channel \<Rightarrow> model_purpose \<Rightarrow> ustr \<Rightarrow> int \<Rightarrow> int \<Rightarrow> int \<Rightarrow> call_context \<Rightarrow> model_attempt" where
  "success_attempt c purpose model prompt completion latency cx = (let t = target_of c purpose in
     \<lparr>at_purpose = purpose, at_channel = mc_name c, at_model = model, at_status = Success,
      at_prompt_tokens = prompt, at_completion_tokens = completion, at_latency_ms = latency,
      at_context = cx, at_input_price = mt_input_price t, at_output_price = mt_output_price t,
      at_cost_micros = cost_micros t prompt completion, at_error_code = None\<rparr>)"

text \<open>The loop of \<open>ModelRouter.complete\<close>; the last argument is \<open>last_error\<close>.\<close>

fun complete_over ::
  "'s router_env \<Rightarrow> model_purpose \<Rightarrow> call_context \<Rightarrow> chat_message list \<Rightarrow> (ustr, json) dict list option
     \<Rightarrow> model_channel list \<Rightarrow> llm_exn \<Rightarrow> (llm_exn, 's, llm_reply) eprog" where
  "complete_over env purpose cx ms ts [] last_error = raisep last_error"
| "complete_over env purpose cx ms ts (c # cs) last_error = (\<lambda>s.
     let started = re_clock env s in
     (case re_complete env c purpose (api_key_of env c) ms ts s of
        (Inl (LlmError msg retryable), s1) \<Rightarrow>
          bindp (wrapped LlmOther (re_record env (error_attempt c purpose retryable
              (latency_ms started (re_clock env s1)) cx (lit ''LlmError'')))) (\<lambda>_.
            if \<not> retryable then raisep (LlmError msg retryable)
            else bindp (wrapped LlmOther (re_cool env (mc_name c) purpose (re_cooldown env))) (\<lambda>_.
                   complete_over env purpose cx ms ts cs (LlmError msg retryable))) s1
      | (Inl e, s1) \<Rightarrow> (Inl e, s1)
      | (Inr reply, s1) \<Rightarrow>
          bindp (wrapped LlmOther (re_record env (success_attempt c purpose (lr_model reply)
              (lr_prompt_tokens reply) (lr_completion_tokens reply)
              (latency_ms started (re_clock env s1)) cx))) (\<lambda>_. retp reply) s1))"

definition route_complete ::
  "'s router_env \<Rightarrow> model_purpose \<Rightarrow> call_context \<Rightarrow> chat_message list \<Rightarrow> (ustr, json) dict list option
     \<Rightarrow> (llm_exn, 's \<times> router_state, llm_reply) eprog" where
  "route_complete env purpose cx ms ts =
     bindp (wrapped LlmOther (candidates env purpose (cx_tier cx))) (\<lambda>cs.
       service (complete_over env purpose cx ms ts cs
         (LlmError (lit ''no available model channel for '' @ purpose_value purpose) True)))"

definition embed_tokens :: "ustr list \<Rightarrow> int" where
  "embed_tokens texts = sum_list (map (\<lambda>t. max 1 (int (length t) div 4)) texts)"

fun embed_over ::
  "'s router_env \<Rightarrow> call_context \<Rightarrow> ustr list \<Rightarrow> model_channel list \<Rightarrow> embed_exn
     \<Rightarrow> (embed_exn, 's, embedding list \<times> ustr) eprog" where
  "embed_over env cx texts [] last_error = raisep last_error"
| "embed_over env cx texts (c # cs) last_error = (\<lambda>s.
     let started = re_clock env s in
     (case re_embed env c EMBEDDING (api_key_of env c) texts s of
        (Inl (EmbeddingError msg retryable), s1) \<Rightarrow>
          bindp (wrapped EmbeddingOther (re_record env (error_attempt c EMBEDDING retryable
              (latency_ms started (re_clock env s1)) cx (lit ''EmbeddingError'')))) (\<lambda>_.
            if \<not> retryable then raisep (EmbeddingError msg retryable)
            else bindp (wrapped EmbeddingOther (re_cool env (mc_name c) EMBEDDING (re_cooldown env))) (\<lambda>_.
                   embed_over env cx texts cs (EmbeddingError msg retryable))) s1
      | (Inl e, s1) \<Rightarrow> (Inl e, s1)
      | (Inr vectors, s1) \<Rightarrow>
          bindp (wrapped EmbeddingOther (re_record env (success_attempt c EMBEDDING
              (mt_model (target_of c EMBEDDING)) (embed_tokens texts) 0
              (latency_ms started (re_clock env s1)) cx)))
            (\<lambda>_. retp (vectors, mt_model (target_of c EMBEDDING))) s1))"

definition route_embed ::
  "'s router_env \<Rightarrow> call_context \<Rightarrow> ustr list
     \<Rightarrow> (embed_exn, 's \<times> router_state, embedding list \<times> ustr) eprog" where
  "route_embed env cx texts =
     bindp (wrapped EmbeddingOther (candidates env EMBEDDING (cx_tier cx))) (\<lambda>cs.
       service (embed_over env cx texts cs
         (EmbeddingError (lit ''no available embedding channel'') True)))"

text \<open>The clients bound to a router; the conversation, tier and profile come from the context
  variables of the task.\<close>

definition routed_llm ::
  "'s router_env \<Rightarrow> ('s \<times> router_state \<Rightarrow> call_context) \<Rightarrow> model_purpose \<Rightarrow> ('s \<times> router_state) completer" where
  "routed_llm env context purpose ms ts st = route_complete env purpose (context st) ms ts st"

definition routed_embedding ::
  "'s router_env \<Rightarrow> ('s \<times> router_state \<Rightarrow> call_context) \<Rightarrow> ustr list
     \<Rightarrow> (embed_exn, 's \<times> router_state, embedding list) eprog" where
  "routed_embedding env context texts st =
     bindp (route_embed env (context st) texts) (\<lambda>(vectors, model). retp vectors) st"

text \<open>\<open>openai_client_factory\<close>: the clients of a channel make a single attempt per call; \<open>post\<close>
  sends a request for a channel and model with an API key.\<close>

definition channel_complete ::
  "(model_channel \<Rightarrow> ustr \<Rightarrow> ustr option \<Rightarrow> chat_message list \<Rightarrow> (ustr, json) dict list option
      \<Rightarrow> 's \<Rightarrow> http_outcome \<times> 's) \<Rightarrow> model_channel \<Rightarrow> model_purpose \<Rightarrow> ustr option \<Rightarrow> 's completer" where
  "channel_complete post c purpose key ms ts =
     llm_complete (post c (mt_model (target_of c purpose)) key ms ts) (mt_model (target_of c purpose)) 0"

definition channel_embed ::
  "(model_channel \<Rightarrow> ustr \<Rightarrow> ustr option \<Rightarrow> ustr list \<Rightarrow> 's \<Rightarrow> http_outcome \<times> 's)
     \<Rightarrow> (ustr \<Rightarrow> real option) \<Rightarrow> model_channel \<Rightarrow> model_purpose \<Rightarrow> ustr option \<Rightarrow> ustr list
     \<Rightarrow> (embed_exn, 's, embedding list) eprog" where
  "channel_embed post float_of c purpose key =
     embed_texts (post c (mt_model (target_of c purpose)) key) float_of 0"

section \<open>Process-local cooldowns and the fallback channels\<close>

record model_cooldowns =
  cd_now :: real
  cd_expiry :: "(ustr \<times> model_purpose, real) dict"

definition cooling :: "ustr \<Rightarrow> model_purpose \<Rightarrow> model_cooldowns \<Rightarrow> bool" where
  "cooling channel purpose cd \<longleftrightarrow> dict_get (cd_expiry cd) (channel, purpose) 0 > cd_now cd"

definition cool :: "ustr \<Rightarrow> model_purpose \<Rightarrow> int \<Rightarrow> model_cooldowns \<Rightarrow> model_cooldowns" where
  "cool channel purpose ttl cd =
     cd\<lparr>cd_expiry := AList.update (channel, purpose) (cd_now cd + of_int ttl) (cd_expiry cd)\<rparr>"

record legacy_settings =
  ls_llm_base_url :: "ustr option"
  ls_llm_model :: ustr
  ls_embedding_base_url :: "ustr option"
  ls_embedding_api_key :: "ustr option"
  ls_embedding_model :: ustr

definition plain_target :: "ustr \<Rightarrow> model_target" where
  "plain_target model = \<lparr>mt_model = model, mt_input_price = None, mt_output_price = None\<rparr>"

definition legacy_channel ::
  "ustr \<Rightarrow> ustr \<Rightarrow> ustr \<Rightarrow> (model_purpose, model_target) dict \<Rightarrow> model_channel" where
  "legacy_channel name url key targets = \<lparr>mc_name = name, mc_base_url = url, mc_api_key_env = Some key,
     mc_priority = 0, mc_weight = 1, mc_tier = lit ''default'', mc_enabled = True, mc_model_map = targets\<rparr>"

definition legacy_model_channels :: "legacy_settings \<Rightarrow> model_channel list" where
  "legacy_model_channels ls =
     (case ls_llm_base_url ls of None \<Rightarrow> [] | Some url \<Rightarrow>
        [legacy_channel (lit ''legacy-chat'') url (lit ''MYBOT_LLM_API_KEY'')
           [(CHAT, plain_target (ls_llm_model ls)), (MEMORY, plain_target (ls_llm_model ls)),
            (VISION, plain_target (ls_llm_model ls))]]) @
     (case (case ls_embedding_base_url ls of Some u \<Rightarrow> if u = [] then ls_llm_base_url ls else Some u
                                           | None \<Rightarrow> ls_llm_base_url ls) of
        None \<Rightarrow> []
      | Some url \<Rightarrow>
        [legacy_channel (lit ''legacy-embedding'') url
           (if ls_embedding_api_key ls \<noteq> None then lit ''MYBOT_EMBEDDING_API_KEY'' else lit ''MYBOT_LLM_API_KEY'')
           [(EMBEDDING, plain_target (ls_embedding_model ls))]])"


section \<open>The order of the candidates\<close>

lemma add_new_append:
  "\<exists>ys. add_new ordered xs = ordered @ ys \<and> set ys = set xs - set ordered \<and> distinct ys"
proof (induction xs arbitrary: ordered)
  case (Cons x xs)
  obtain ys where ys: "add_new (if x \<in> set ordered then ordered else ordered @ [x]) xs =
      (if x \<in> set ordered then ordered else ordered @ [x]) @ ys"
    "set ys = set xs - set (if x \<in> set ordered then ordered else ordered @ [x])" "distinct ys"
    using Cons.IH by blast
  show ?case
  proof (cases "x \<in> set ordered")
    case True
    with ys show ?thesis by (intro exI [of _ ys]) auto
  next
    case False
    with ys show ?thesis by (intro exI [of _ "x # ys"]) auto
  qed
qed simp

lemma rotated_rotate: "rotated k pool = rotate k pool"
  by (rule nth_equalityI) (simp_all add: rotated_def nth_rotate)

lemma length_filter_rotate: "length (filter P (rotate n xs)) = length (filter P xs)"
proof (induction n)
  case (Suc n)
  have "length (filter P (rotate1 ys)) = length (filter P ys)" for ys :: "'a list"
    by (cases ys) auto
  with Suc show ?case by simp
qed simp

lemma set_weighted_pool: "\<forall>c \<in> set grp. 1 \<le> mc_weight c \<Longrightarrow> set (weighted_pool grp) = set grp"
  by (auto simp: weighted_pool_def)

lemma set_priority_group [simp]: "set (priority_group cs p) = {c \<in> set cs. mc_priority c = p}"
  by (simp add: priority_group_def)

lemma order_groups_order:
  assumes "sorted ps" and "distinct ps" and "\<forall>c \<in> set cs. 1 \<le> mc_weight c"
    and "distinct ordered" and "sorted (map mc_priority ordered)"
    and "\<forall>c \<in> set ordered. \<forall>p \<in> set ps. mc_priority c < p"
  shows "distinct (fst (order_groups purpose cs ps cursors ordered)) \<and>
    set (fst (order_groups purpose cs ps cursors ordered)) = set ordered \<union> {c \<in> set cs. mc_priority c \<in> set ps} \<and>
    sorted (map mc_priority (fst (order_groups purpose cs ps cursors ordered)))"
  using assms
proof (induction ps arbitrary: cursors ordered)
  case (Cons p ps)
  let ?grp = "priority_group cs p" and ?pool = "weighted_pool (priority_group cs p)"
  have set_pool: "set ?pool = {c \<in> set cs. mc_priority c = p}"
    using Cons.prems(3) by (subst set_weighted_pool) auto
  show ?case
  proof (cases "?pool = []")
    case True
    then have "{c \<in> set cs. mc_priority c = p} = {}" using set_pool by simp
    then have "{c \<in> set cs. mc_priority c \<in> set (p # ps)} = {c \<in> set cs. mc_priority c \<in> set ps}" by auto
    moreover have "order_groups purpose cs (p # ps) cursors ordered = order_groups purpose cs ps cursors ordered"
      using True by simp
    ultimately show ?thesis using Cons.IH [of ordered cursors] Cons.prems by simp
  next
    case False
    define pool where "pool = rotated (dict_get cursors purpose 0 mod length ?pool) ?pool"
    have set_rot: "set pool = {c \<in> set cs. mc_priority c = p}"
      unfolding pool_def by (simp add: rotated_rotate set_pool)
    obtain ys where ys: "add_new ordered pool = ordered @ ys" "set ys = set pool - set ordered" "distinct ys"
      using add_new_append [of ordered pool] by blast
    have new: "c \<notin> set ordered" "mc_priority c = p" if "c \<in> set ys" for c
      using that ys(2) set_rot Cons.prems(6) by auto
    have "sorted (map mc_priority (ordered @ ys))"
      using Cons.prems(5,6) new(2) ys by (auto simp: sorted_append intro!: sorted_constant [of _ _ p] less_imp_le)
    moreover have "distinct (ordered @ ys)" using Cons.prems(4) ys new(1) by auto
    moreover have "\<forall>c \<in> set (ordered @ ys). \<forall>q \<in> set ps. mc_priority c < q"
      using Cons.prems(1,2,6) new(2) by (fastforce simp: less_le)
    moreover have "set (ordered @ ys) = set ordered \<union> {c \<in> set cs. mc_priority c = p}"
      using ys(2) set_rot Cons.prems(6) by auto
    ultimately show ?thesis
      using Cons.IH [of "ordered @ ys" "AList.update purpose (dict_get cursors purpose 0 + 1) cursors"]
        Cons.prems(1-3) False ys(1) by (auto simp: Let_def pool_def [symmetric])
  qed
qed simp

section \<open>Failover\<close>

text \<open>What the router relies on: attempts are recorded in the order of the calls.\<close>

locale model_services =
  fixes env :: "'s router_env" and log :: "'s \<Rightarrow> model_attempt list"
  assumes complete_frame: "moves (same_view log) (re_complete env c purpose key ms ts)"
    and cool_frame: "moves (same_view log) (re_cool env name purpose ttl)"
    and record_adds: "re_record env a s = (Inr u, s') \<Longrightarrow> log s' = log s @ [a]"
begin

text \<open>A call that answers: retryable failures of the channels before it, then its success.\<close>

lemma complete_over_trail:
  assumes "complete_over env purpose cx ms ts cs err s = (Inr reply, s')"
  shows "\<exists>pre c post new a. cs = pre @ c # post \<and> log s' = log s @ new @ [a] \<and>
    map at_channel new = map mc_name pre \<and> (\<forall>x \<in> set new. at_status x = Retryable_error) \<and>
    at_status a = Success \<and> at_channel a = mc_name c \<and> at_model a = lr_model reply"
  using assms
proof (induction cs arbitrary: err s)
  case (Cons c cs)
  obtain r s1 where call: "re_complete env c purpose (api_key_of env c) ms ts s = (r, s1)" by fastforce
  have same: "log s1 = log s" using movesD [OF complete_frame call] by (simp add: same_view_def)
  show ?case
  proof (cases r)
    case (Inl e)
    then obtain msg retryable where e: "e = LlmError msg retryable"
      using Cons.prems call by (cases e) (auto simp: Let_def)
    let ?a = "error_attempt c purpose retryable (latency_ms (re_clock env s) (re_clock env s1)) cx (lit ''LlmError'')"
    from Cons.prems call Inl e obtain u s2 where rec: "re_record env ?a s1 = (Inr u, s2)" and retryable
      and rest: "bindp (wrapped LlmOther (re_cool env (mc_name c) purpose (re_cooldown env)))
        (\<lambda>_. complete_over env purpose cx ms ts cs (LlmError msg retryable)) s2 = (Inr reply, s')"
      by (auto simp: Let_def wrapped_def bindp_def split: prod.splits sum.splits if_splits)
    from rest obtain v s3 where cool: "re_cool env (mc_name c) purpose (re_cooldown env) s2 = (Inr v, s3)"
      and over: "complete_over env purpose cx ms ts cs (LlmError msg retryable) s3 = (Inr reply, s')"
      by (auto simp: wrapped_def bindp_def split: prod.splits sum.splits)
    have log3: "log s3 = log s @ [?a]"
      using record_adds [OF rec] movesD [OF cool_frame cool] same by (simp add: same_view_def)
    from Cons.IH [OF over] obtain pre d post new a where
      "cs = pre @ d # post" "log s' = log s3 @ new @ [a]" "map at_channel new = map mc_name pre"
      "\<forall>x \<in> set new. at_status x = Retryable_error" "at_status a = Success" "at_channel a = mc_name d"
      "at_model a = lr_model reply" by blast
    then show ?thesis
      using log3 \<open>retryable\<close>
      by (intro exI [of _ "c # pre"] exI [of _ d] exI [of _ post] exI [of _ "?a # new"] exI [of _ a])
        (auto simp: error_attempt_def Let_def)
  next
    case (Inr reply')
    let ?a = "success_attempt c purpose (lr_model reply') (lr_prompt_tokens reply')
      (lr_completion_tokens reply') (latency_ms (re_clock env s) (re_clock env s1)) cx"
    from Cons.prems call Inr obtain u where rec: "re_record env ?a s1 = (Inr u, s')" and "reply' = reply"
      by (auto simp: Let_def wrapped_def bindp_def split: prod.splits sum.splits)
    with record_adds [OF rec] same show ?thesis
      by (intro exI [of _ "[]"] exI [of _ c] exI [of _ cs] exI [of _ ?a])
        (auto simp: success_attempt_def Let_def)
  qed
qed simp

end

section \<open>A host\<close>

text \<open>The router with process-local cooldowns and the development's clients on servers that
  answer a channel's request at a time after some delay.\<close>

record router_world =
  rw_cooldowns :: model_cooldowns
  rw_attempts :: "model_attempt list"

record router_host =
  rh_config :: "json option"
  rh_validate :: "json \<Rightarrow> exn + model_channel"
  rh_fallback :: "model_channel list"
  rh_server :: "model_channel \<Rightarrow> real \<Rightarrow> http_outcome \<times> real"

definition rw_now :: "router_world \<Rightarrow> real" where
  "rw_now w = cd_now (rw_cooldowns w)"

definition server_post :: "router_host \<Rightarrow> model_channel \<Rightarrow> router_world \<Rightarrow> http_outcome \<times> router_world" where
  "server_post h c w = (case rh_server h c (rw_now w) of (out, d) \<Rightarrow>
     (out, w\<lparr>rw_cooldowns := (rw_cooldowns w)\<lparr>cd_now := rw_now w + d\<rparr>\<rparr>))"

definition router_host_env :: "router_host \<Rightarrow> router_world router_env" where
  "router_host_env h = \<lparr>
     re_config = retp (rh_config h), re_validate = rh_validate h,
     re_cooling = (\<lambda>name purpose w. (Inr (cooling name purpose (rw_cooldowns w)), w)),
     re_cool = (\<lambda>name purpose ttl w. (Inr (), w\<lparr>rw_cooldowns := cool name purpose ttl (rw_cooldowns w)\<rparr>)),
     re_record = (\<lambda>a w. (Inr (), w\<lparr>rw_attempts := rw_attempts w @ [a]\<rparr>)),
     re_clock = rw_now, re_secret = (\<lambda>_. None),
     re_complete = channel_complete (\<lambda>c model key ms ts. server_post h c),
     re_embed = channel_embed (\<lambda>c model key texts. server_post h c) (\<lambda>_. None),
     re_fallback = rh_fallback h, re_cache_ttl = 30, re_cooldown = 60\<rparr>"

lemma router_host_simps:
  "re_config (router_host_env h) = retp (rh_config h)"
  "re_cooling (router_host_env h) name purpose w = (Inr (cooling name purpose (rw_cooldowns w)), w)"
  "re_cool (router_host_env h) name purpose ttl w = (Inr (), w\<lparr>rw_cooldowns := cool name purpose ttl (rw_cooldowns w)\<rparr>)"
  "re_record (router_host_env h) a w = (Inr (), w\<lparr>rw_attempts := rw_attempts w @ [a]\<rparr>)"
  "re_clock (router_host_env h) = rw_now"
  "re_secret (router_host_env h) name = None"
  "re_cooldown (router_host_env h) = 60"
  "re_fallback (router_host_env h) = rh_fallback h"
  "re_complete (router_host_env h) = channel_complete (\<lambda>c model key ms ts. server_post h c)"
  by (simp_all add: router_host_env_def)

text \<open>One attempt of a channel's client is one request.\<close>

lemma single_attempt: "snd (llm_complete post model 0 s) = snd (post s)"
  by (auto simp: llm_complete_def split: prod.split http_outcome.split option.split)

lemma host_complete_state:
  "snd (re_complete (router_host_env h) c purpose key ms ts w) = snd (server_post h c w)"
  by (simp add: router_host_env_def channel_complete_def single_attempt)

interpretation rt: model_services "router_host_env h" rw_attempts for h
proof
  show "moves (same_view rw_attempts) (re_complete (router_host_env h) c purpose key ms ts)" for c purpose key ms ts
    unfolding moves_def host_complete_state by (simp add: server_post_def same_view_def split: prod.split)
qed (auto simp: router_host_env_def moves_def same_view_def)

lemma host_candidates:
  assumes "candidates (router_host_env h) purpose tier (w, r) = (res, (w1, r1))"
  shows "w1 = w" and "res = Inr cs \<Longrightarrow> c \<in> set cs \<Longrightarrow> \<not> cooling (mc_name c) purpose (rw_cooldowns w)"
proof -
  have cool: "not_cooling (router_host_env h) purpose cs w =
      (Inr (filter (\<lambda>c. \<not> cooling (mc_name c) purpose (rw_cooldowns w)) cs), w)" for cs
    by (induction cs) (simp_all add: bindp_def router_host_simps)
  have "fst (snd (channels (router_host_env h) (w, r))) = w"
    by (simp add: channels_def Let_def service_def router_host_simps split: option.split sum.split)
  then obtain res2 r2 where ch: "channels (router_host_env h) (w, r) = (res2, (w, r2))"
    by (metis prod.collapse)
  have "w1 = w \<and> (\<forall>cs c. res = Inr cs \<longrightarrow> c \<in> set cs \<longrightarrow> \<not> cooling (mc_name c) purpose (rw_cooldowns w))"
  proof (cases res2)
    case (Inl e)
    then show ?thesis using assms ch by (auto simp: candidates_def bindp_def)
  next
    case (Inr chs)
    then show ?thesis
      using assms ch by (auto simp: candidates_def bindp_def advance_def service_def cool split: prod.splits)
  qed
  then show "w1 = w" and "res = Inr cs \<Longrightarrow> c \<in> set cs \<Longrightarrow> \<not> cooling (mc_name c) purpose (rw_cooldowns w)"
    by blast+
qed

text \<open>A cooldown entry is never shortened, and failed channels get one.\<close>

lemma host_over:
  assumes pos: "\<And>c t. 0 \<le> snd (rh_server h c t)"
    and "complete_over (router_host_env h) purpose cx ms ts cs err w = (res, w')"
    and "T \<le> rw_now w + 60"
  shows "rw_now w \<le> rw_now w' \<and>
    (\<forall>k. T \<le> dict_get (cd_expiry (rw_cooldowns w)) k 0 \<longrightarrow> T \<le> dict_get (cd_expiry (rw_cooldowns w')) k 0) \<and>
    (\<exists>new. rw_attempts w' = rw_attempts w @ new \<and> (\<forall>a \<in> set new. at_status a = Retryable_error \<longrightarrow>
       T \<le> dict_get (cd_expiry (rw_cooldowns w')) (at_channel a, purpose) 0))"
  using assms(2,3)
proof (induction cs arbitrary: err w)
  case (Cons c cs)
  let ?env = "router_host_env h"
  obtain r w1 where call: "re_complete ?env c purpose (api_key_of ?env c) ms ts w = (r, w1)" by fastforce
  have w1: "w1 = snd (server_post h c w)" using host_complete_state [of h c purpose] call by (metis snd_conv)
  have now: "rw_now w \<le> rw_now w1" and same: "cd_expiry (rw_cooldowns w1) = cd_expiry (rw_cooldowns w)"
      "rw_attempts w1 = rw_attempts w"
    using pos [of c "rw_now w"] unfolding w1 server_post_def by (auto simp: rw_now_def split: prod.split)
  show ?case
  proof (cases "\<exists>msg. r = Inl (LlmError msg True)")
    case False
    then have "\<exists>new. w' = w1\<lparr>rw_attempts := rw_attempts w1 @ new\<rparr> \<and> (\<forall>a \<in> set new. at_status a \<noteq> Retryable_error)"
      using Cons.prems(1) call
      by (cases r; cases "projl r")
        (auto simp: Let_def wrapped_def bindp_def router_host_simps error_attempt_def success_attempt_def
          intro: exI [of _ "[]"] split: if_splits)
    then show ?thesis using now same by (auto simp: rw_now_def)
  next
    case True
    then obtain msg where r: "r = Inl (LlmError msg True)" by blast
    let ?a = "error_attempt c purpose True (latency_ms (rw_now w) (rw_now w1)) cx (lit ''LlmError'')"
    let ?w3 = "w1\<lparr>rw_attempts := rw_attempts w1 @ [?a],
      rw_cooldowns := cool (mc_name c) purpose 60 (rw_cooldowns w1)\<rparr>"
    have over: "complete_over ?env purpose cx ms ts cs (LlmError msg True) ?w3 = (res, w')"
      using Cons.prems(1) call r by (simp add: Let_def wrapped_def bindp_def router_host_simps)
    have now3: "rw_now ?w3 = rw_now w1" by (simp add: rw_now_def cool_def)
    have T: "T \<le> rw_now ?w3 + 60" using Cons.prems(2) now now3 by simp
    have exp3: "dict_get (cd_expiry (rw_cooldowns ?w3)) k 0 =
        (if k = (mc_name c, purpose) then rw_now w1 + 60 else dict_get (cd_expiry (rw_cooldowns w)) k 0)" for k
      using same by (auto simp: cool_def dict_simps rw_now_def)
    from Cons.IH [OF over T] obtain new where ih: "rw_now ?w3 \<le> rw_now w'"
        "\<And>k. T \<le> dict_get (cd_expiry (rw_cooldowns ?w3)) k 0 \<Longrightarrow> T \<le> dict_get (cd_expiry (rw_cooldowns w')) k 0"
        "rw_attempts w' = rw_attempts ?w3 @ new"
        "\<forall>a \<in> set new. at_status a = Retryable_error \<longrightarrow> T \<le> dict_get (cd_expiry (rw_cooldowns w')) (at_channel a, purpose) 0"
      by blast
    have kept: "T \<le> dict_get (cd_expiry (rw_cooldowns w')) k 0" if "T \<le> dict_get (cd_expiry (rw_cooldowns w)) k 0" for k
      using that T ih(2) [of k] exp3 [of k] now3 by (auto split: if_splits)
    have "T \<le> dict_get (cd_expiry (rw_cooldowns w')) (mc_name c, purpose) 0"
      using ih(2) [of "(mc_name c, purpose)"] exp3 T now3 by simp
    then have "\<exists>new'. rw_attempts w' = rw_attempts w @ new' \<and> (\<forall>a \<in> set new'. at_status a = Retryable_error \<longrightarrow>
       T \<le> dict_get (cd_expiry (rw_cooldowns w')) (at_channel a, purpose) 0)"
      using ih(3,4) same by (intro exI [of _ "?a # new"]) (auto simp: error_attempt_def Let_def)
    then show ?thesis using kept now now3 ih(1) by auto
  qed
qed (auto intro: exI [of _ "[]"])

section \<open>Properties\<close>

text \<open>
  the order in which channels are tried. Whatever the rotation, each channel given
  appears exactly once and no channel comes before one of smaller priority.
\<close>

theorem candidate_order:
  assumes "\<forall>c \<in> set cs. valid_channel c"
  shows "distinct (fst (ordered_channels purpose cs cursors)) \<and>
    set (fst (ordered_channels purpose cs cursors)) = set cs \<and>
    sorted (map mc_priority (fst (ordered_channels purpose cs cursors)))"
proof -
  have "\<forall>c \<in> set cs. 1 \<le> mc_weight c" using assms by (auto simp: valid_channel_def)
  with order_groups_order [of "sorted_list_of_set (mc_priority ` set cs)" cs "[]" purpose cursors]
  show ?thesis unfolding ordered_channels_def by auto
qed

definition demo_channel :: "string \<Rightarrow> int \<Rightarrow> int \<Rightarrow> model_channel" where
  "demo_channel name priority weight = \<lparr>mc_name = lit name, mc_base_url = lit ''u'', mc_api_key_env = None,
     mc_priority = priority, mc_weight = weight, mc_tier = lit ''default'', mc_enabled = True,
     mc_model_map = [(CHAT, \<lparr>mt_model = lit ''m'', mt_input_price = Some (1 / 2), mt_output_price = None\<rparr>)]\<rparr>"

lemma demo_channel_valid:
  assumes "name \<in> {''a'', ''b'', ''c''}" and "0 \<le> p" and "p \<le> 10" and "1 \<le> w" and "w \<le> 10"
  shows "valid_channel (demo_channel name p w)"
  using assms
  by (auto simp: valid_channel_def demo_channel_def nonempty_str_iff str_simps name_char_def strip_id py_space_def)

theorem candidate_order_witness:
  "set (fst (ordered_channels CHAT [demo_channel ''b'' 1 1, demo_channel ''a'' 0 2] []))
     = {demo_channel ''b'' 1 1, demo_channel ''a'' 0 2}"
  using candidate_order [of "[demo_channel ''b'' 1 1, demo_channel ''a'' 0 2]" CHAT "[]"] demo_channel_valid
  by simp

text \<open>
  weighted rotation is fair. For channels of one priority, over any run of as many calls
  as the weights add up to, each channel is tried first exactly as often as its weight says.
\<close>

theorem rotation_fair:
  assumes "\<forall>c \<in> set cs. valid_channel c \<and> mc_priority c = p" and "distinct cs" and "c \<in> set cs"
  shows "card {k. k < length (weighted_pool (priority_group cs p)) \<and>
    hd (fst (ordered_channels purpose cs [(purpose, n + k)])) = c} = nat (mc_weight c)"
proof -
  let ?grp = "priority_group cs p" and ?pool = "weighted_pool (priority_group cs p)"
  have w: "\<forall>c \<in> set cs. 1 \<le> mc_weight c" using assms(1) by (auto simp: valid_channel_def)
  have set_pool: "set ?pool = set cs" using w assms(1) by (subst set_weighted_pool) auto
  then have ne: "?pool \<noteq> []" using assms(3) by auto
  have ps: "sorted_list_of_set (mc_priority ` set cs) = [p]"
  proof -
    have "mc_priority ` set cs = {p}" using assms(1,3) by auto
    then show ?thesis by simp
  qed
  have first: "hd (fst (ordered_channels purpose cs [(purpose, m)])) = rotate m ?pool ! 0" for m
  proof -
    let ?rot = "rotated (m mod length ?pool) ?pool"
    have "?rot = rotate m ?pool" by (simp add: rotated_rotate rotate_conv_mod [of m])
    then have rot: "fst (ordered_channels purpose cs [(purpose, m)]) = add_new [] (rotate m ?pool)"
      using ne ps by (simp add: ordered_channels_def Let_def dict_get_def)
    obtain x xs where x: "rotate m ?pool = x # xs" using ne by (cases "rotate m ?pool") auto
    have "\<exists>ys. add_new [x] xs = [x] @ ys" using add_new_append by metis
    then show ?thesis using rot x by auto
  qed
  have hd_n: "rotate (n + k) ?pool ! 0 = rotate n ?pool ! k" if "k < length ?pool" for k
    using that ne by (subst nth_rotate, simp)+ (simp add: add.commute)
  have "{k. k < length ?pool \<and> hd (fst (ordered_channels purpose cs [(purpose, n + k)])) = c}
      = {k. k < length (rotate n ?pool) \<and> rotate n ?pool ! k = c}"
    using first hd_n by auto
  also have "card \<dots> = length (filter (\<lambda>d. d = c) (rotate n ?pool))"
    by (simp add: length_filter_conv_card)
  also have "\<dots> = length (filter (\<lambda>d. d = c) ?pool)"
    by (rule length_filter_rotate)
  also have "\<dots> = nat (mc_weight c)"
  proof -
    have "length (filter (\<lambda>d. d = c) (weighted_pool grp)) = (if c \<in> set grp then nat (mc_weight c) else 0)"
      if "distinct grp" for grp
      using that by (induction grp) (auto simp: weighted_pool_def filter_replicate)
    moreover have "distinct ?grp" using assms(2) by (simp add: priority_group_def distinct_filter)
    ultimately show ?thesis using assms(1,3) by simp
  qed
  finally show ?thesis .
qed

theorem rotation_fair_witness:
  "card {k. k < 3 \<and> hd (fst (ordered_channels CHAT [demo_channel ''a'' 0 2, demo_channel ''b'' 0 1] [(CHAT, 5 + k)]))
     = demo_channel ''a'' 0 2} = 2"
proof -
  let ?cs = "[demo_channel ''a'' 0 2, demo_channel ''b'' 0 1]"
  have ne: "demo_channel ''a'' 0 2 \<noteq> demo_channel ''b'' 0 1" by (simp add: demo_channel_def str_simps)
  have len: "length (weighted_pool (priority_group ?cs 0)) = 3"
    by (simp add: weighted_pool_def priority_group_def demo_channel_def)
  have "card {k. k < length (weighted_pool (priority_group ?cs 0)) \<and>
      hd (fst (ordered_channels CHAT ?cs [(CHAT, 5 + k)])) = demo_channel ''a'' 0 2} = nat (mc_weight (demo_channel ''a'' 0 2))"
  proof (rule rotation_fair)
    show "\<forall>c \<in> set ?cs. valid_channel c \<and> mc_priority c = 0"
      using demo_channel_valid by (simp add: demo_channel_def [THEN arg_cong [where f = mc_priority]])
  qed (use ne in simp_all)
  then show ?thesis unfolding len by (simp add: demo_channel_def)
qed

text \<open>
  C20: failover. When a routed call answers, the channels before the one that answered were
  tried in candidate order and each failed retryably; every attempt left one record, the
  last one for the success, with the model that answered.
\<close>

theorem failover_trail:
  assumes "route_complete (router_host_env h) purpose cx ms ts (w, r) = (Inr reply, (w', r'))"
  shows "\<exists>cs pre c post new a. fst (candidates (router_host_env h) purpose (cx_tier cx) (w, r)) = Inr cs \<and>
    cs = pre @ c # post \<and> rw_attempts w' = rw_attempts w @ new @ [a] \<and>
    map at_channel new = map mc_name pre \<and> (\<forall>x \<in> set new. at_status x = Retryable_error) \<and>
    at_status a = Success \<and> at_channel a = mc_name c \<and> at_model a = lr_model reply"
proof -
  let ?env = "router_host_env h"
  let ?err = "LlmError (lit ''no available model channel for '' @ purpose_value purpose) True"
  from assms obtain cs w1 r1 where cand: "candidates ?env purpose (cx_tier cx) (w, r) = (Inr cs, (w1, r1))"
    and over: "complete_over ?env purpose cx ms ts cs ?err w1 = (Inr reply, w')"
    by (auto simp: route_complete_def bindp_def wrapped_def service_def split: prod.splits sum.splits)
  have "w1 = w" by (rule host_candidates(1) [OF cand])
  with cand rt.complete_over_trail [OF over] show ?thesis by simp
qed

definition demo_router_host :: router_host where
  "demo_router_host = \<lparr>rh_config = None, rh_validate = (\<lambda>_. Inl (Raised (lit ''ValidationError''))),
     rh_fallback = [demo_channel ''a'' 0 1, demo_channel ''b'' 1 1],
     rh_server = (\<lambda>c t. if mc_name c = lit ''a'' then (HttpResponse 503 None, 1)
                        else (HttpResponse 200 (Some text_body), 2))\<rparr>"

definition demo_router_world :: router_world where
  "demo_router_world = \<lparr>rw_cooldowns = \<lparr>cd_now = 0, cd_expiry = []\<rparr>, rw_attempts = []\<rparr>"

definition demo_router_state :: router_state where
  "demo_router_state = \<lparr>rs_cached = None, rs_expires = 0, rs_cursors = []\<rparr>"

definition demo_call :: call_context where
  "demo_call = \<lparr>cx_conversation = None, cx_tier = lit ''default'', cx_profile = None, cx_persona = None\<rparr>"

lemma demo_order: "fst (ordered_channels CHAT [demo_channel ''a'' 0 1, demo_channel ''b'' 1 1] [])
    = [demo_channel ''a'' 0 1, demo_channel ''b'' 1 1]"
  by (simp add: ordered_channels_def demo_channel_def Let_def priority_group_def weighted_pool_def
      rotated_def dict_get_def str_simps insert_commute)

lemma demo_routed:
  "\<exists>reply w' r'. route_complete (router_host_env demo_router_host) CHAT demo_call [] None
     (demo_router_world, demo_router_state) = (Inr reply, (w', r')) \<and>
     rw_now w' = 3 \<and> map at_channel (rw_attempts w') = [lit ''a'', lit ''b''] \<and>
     map at_status (rw_attempts w') = [Retryable_error, Success]"
proof -
  let ?cs = "[demo_channel ''a'' 0 1, demo_channel ''b'' 1 1]"
  have ch: "channels (router_host_env demo_router_host) (demo_router_world, demo_router_state)
      = (Inr ?cs, (demo_router_world, demo_router_state\<lparr>rs_cached := Some ?cs, rs_expires := 30\<rparr>))"
    by (simp add: channels_def service_def router_host_simps read_channels_def demo_router_state_def
        demo_router_host_def demo_router_world_def rw_now_def) (simp add: router_host_env_def)
  have el: "eligible CHAT (lit ''default'') ?cs = ?cs"
    by (simp add: eligible_def demo_channel_def)
  obtain cur where ord: "ordered_channels CHAT ?cs [] = (?cs, cur)"
    using demo_order by (metis prod.collapse)
  have cool: "\<not> cooling name CHAT (rw_cooldowns demo_router_world)" for name
    by (simp add: cooling_def demo_router_world_def dict_get_def)
  obtain r1 where cand: "candidates (router_host_env demo_router_host) CHAT (lit ''default'') (demo_router_world, demo_router_state)
      = (Inr ?cs, (demo_router_world, r1))"
  proof -
    have "rs_cursors (demo_router_state\<lparr>rs_cached := Some ?cs, rs_expires := 30\<rparr>) = []"
      by (simp add: demo_router_state_def)
    then have "candidates (router_host_env demo_router_host) CHAT (lit ''default'') (demo_router_world, demo_router_state)
      = (Inr ?cs, (demo_router_world, demo_router_state\<lparr>rs_cached := Some ?cs, rs_expires := 30, rs_cursors := cur\<rparr>))"
      using ord by (simp add: candidates_def bindp_def ch el advance_def service_def router_host_simps cool)
    then show thesis by (rule that)
  qed
  have names: "mc_name (demo_channel ''a'' 0 1) = lit ''a''" "mc_name (demo_channel ''b'' 1 1) \<noteq> lit ''a''"
    "mc_name (demo_channel ''b'' 1 1) = lit ''b''"
    by (simp_all add: demo_channel_def str_simps)
  have a: "server_post demo_router_host (demo_channel ''a'' 0 1) w = (HttpResponse 503 None, w\<lparr>rw_cooldowns := (rw_cooldowns w)\<lparr>cd_now := rw_now w + 1\<rparr>\<rparr>)"
    and b: "server_post demo_router_host (demo_channel ''b'' 1 1) w = (HttpResponse 200 (Some text_body), w\<lparr>rw_cooldowns := (rw_cooldowns w)\<lparr>cd_now := rw_now w + 2\<rparr>\<rparr>)" for w
    using names by (simp_all add: server_post_def demo_router_host_def)
  show ?thesis
    using cand
    by (simp add: route_complete_def demo_call_def bindp_def wrapped_def service_def router_host_simps Let_def
        channel_complete_def llm_complete_def a b retryable_status_def text_reply error_attempt_def success_attempt_def names)
      (simp add: rw_now_def cool_def demo_router_world_def)
qed

theorem failover_trail_witness:
  "\<exists>w' :: router_world. map at_channel (rw_attempts w') = [lit ''a'', lit ''b''] \<and>
     (\<exists>new a. rw_attempts w' = rw_attempts demo_router_world @ new @ [a] \<and> at_status a = Success)"
proof -
  obtain reply w' r' where run: "route_complete (router_host_env demo_router_host) CHAT demo_call [] None
      (demo_router_world, demo_router_state) = (Inr reply, (w', r'))"
    and tried: "map at_channel (rw_attempts w') = [lit ''a'', lit ''b'']"
    using demo_routed by metis
  from failover_trail [OF run] obtain new a
    where "rw_attempts w' = rw_attempts demo_router_world @ new @ [a]" "at_status a = Success" by auto
  with tried show ?thesis by (intro exI [of _ w']) simp
qed

text \<open>
  a channel that failed is left alone for the cooldown. After a routed call, a call that
  selects its channels less than the cooldown of 60 seconds after the first one started does
  not select a channel that failed retryably in it (servers that answer in no negative time).
\<close>

theorem failed_channel_cools:
  assumes "\<And>c t. 0 \<le> snd (rh_server h c t)"
    and "route_complete (router_host_env h) purpose cx ms ts (w, r) = (res, (w', r'))"
    and "a \<in> set (drop (length (rw_attempts w)) (rw_attempts w'))" and "at_status a = Retryable_error"
    and "rw_now w' < rw_now w + 60"
    and "candidates (router_host_env h) purpose tier (w', r2) = (Inr cs, st)"
  shows "\<forall>c \<in> set cs. mc_name c \<noteq> at_channel a"
proof
  fix c assume c: "c \<in> set cs"
  let ?env = "router_host_env h"
  obtain res1 w1 r1 where cand: "candidates ?env purpose (cx_tier cx) (w, r) = (res1, (w1, r1))"
    by (metis prod.collapse)
  have w1: "w1 = w" by (rule host_candidates(1) [OF cand])
  have "T \<le> dict_get (cd_expiry (rw_cooldowns w')) (at_channel a, purpose) 0" if "T \<le> rw_now w + 60" for T
  proof (cases res1)
    case (Inl e)
    then have "w' = w" using assms(2) cand w1 by (simp add: route_complete_def bindp_def wrapped_def)
    then show ?thesis using assms(3) by simp
  next
    case (Inr cs1)
    then obtain err where "complete_over ?env purpose cx ms ts cs1 err w = (res, w')"
      using assms(2) cand w1 by (auto simp: route_complete_def bindp_def wrapped_def service_def split: prod.splits)
    from host_over [OF assms(1) this that] assms(3,4) show ?thesis by auto
  qed
  then have "cooling (at_channel a) purpose (rw_cooldowns w')"
    using assms(5) by (auto simp: cooling_def rw_now_def intro: less_le_trans)
  moreover have "\<not> cooling (mc_name c) purpose (rw_cooldowns w')"
    using host_candidates(2) [of h purpose tier w' r2 "Inr cs" "fst st" "snd st" cs c] assms(6) c by simp
  ultimately show "mc_name c \<noteq> at_channel a" by metis
qed

theorem failed_channel_cools_witness:
  "\<exists>w'. rw_now w' = 3 \<and> (\<forall>cs st. candidates (router_host_env demo_router_host) CHAT (lit ''default'') (w', demo_router_state)
     = (Inr cs, st) \<longrightarrow> (\<forall>c \<in> set cs. mc_name c \<noteq> lit ''a''))"
proof -
  obtain reply w' r' where run: "route_complete (router_host_env demo_router_host) CHAT demo_call [] None
      (demo_router_world, demo_router_state) = (Inr reply, (w', r'))"
    and now: "rw_now w' = 3" and names: "map at_channel (rw_attempts w') = [lit ''a'', lit ''b'']"
    and status: "map at_status (rw_attempts w') = [Retryable_error, Success]"
    using demo_routed by metis
  obtain a b where ab: "rw_attempts w' = [a, b]" using names by (auto simp: map_eq_Cons_conv)
  have pos: "0 \<le> snd (rh_server demo_router_host c t)" for c t by (simp add: demo_router_host_def)
  have "a \<in> set (drop (length (rw_attempts demo_router_world)) (rw_attempts w'))"
    by (simp add: ab demo_router_world_def)
  from failed_channel_cools [OF pos run this] ab names status now
  have "\<forall>cs st. candidates (router_host_env demo_router_host) CHAT (lit ''default'') (w', demo_router_state)
     = (Inr cs, st) \<longrightarrow> (\<forall>c \<in> set cs. mc_name c \<noteq> lit ''a'')"
    by (simp add: demo_router_world_def rw_now_def)
  with now show ?thesis by blast
qed

text \<open>
  the recorded cost is the exact cost rounded: for prices per million tokens, the cost in
  micro-dollars differs from tokens times price by at most one half.
\<close>

theorem cost_rounded:
  assumes "cost_micros t prompt completion = Some micros"
  shows "\<bar>of_int micros - (of_int prompt * (case mt_input_price t of None \<Rightarrow> 0 | Some p \<Rightarrow> p) +
    of_int completion * (case mt_output_price t of None \<Rightarrow> 0 | Some p \<Rightarrow> p))\<bar> \<le> (1 / 2 :: rat)"
proof -
  have "\<bar>of_int (half_up x) - x\<bar> \<le> 1 / 2" for x :: rat
  proof (cases "0 \<le> x")
    case True
    have "of_int \<lfloor>x + 1 / 2\<rfloor> \<le> x + 1 / 2" "x + 1 / 2 < of_int \<lfloor>x + 1 / 2\<rfloor> + 1"
      using floor_correct [of "x + 1 / 2"] by auto
    then have "- (1 / 2) \<le> of_int \<lfloor>x + 1 / 2\<rfloor> - x" "of_int \<lfloor>x + 1 / 2\<rfloor> - x \<le> 1 / 2" by linarith+
    then show ?thesis using True unfolding half_up_def by (simp only: if_True abs_le_iff) simp
  next
    case False
    have "of_int \<lfloor>1 / 2 - x\<rfloor> \<le> 1 / 2 - x" "1 / 2 - x < of_int \<lfloor>1 / 2 - x\<rfloor> + 1"
      using floor_correct [of "1 / 2 - x"] by auto
    then have "- (1 / 2) \<le> - of_int \<lfloor>1 / 2 - x\<rfloor> - x" "- of_int \<lfloor>1 / 2 - x\<rfloor> - x \<le> 1 / 2" by linarith+
    then show ?thesis using False unfolding half_up_def by (simp only: if_False of_int_minus abs_le_iff) simp
  qed
  with assms show ?thesis by (auto simp: cost_micros_def split: if_splits)
qed

theorem cost_rounded_witness:
  "\<bar>of_int 2 - (of_int 3 * (case Some (1 / 2) of None \<Rightarrow> 0 | Some p \<Rightarrow> p) +
    of_int 7 * (case (None :: rat option) of None \<Rightarrow> 0 | Some p \<Rightarrow> p))\<bar> \<le> (1 / 2 :: rat)"
proof -
  have "cost_micros \<lparr>mt_model = lit ''m'', mt_input_price = Some (1 / 2), mt_output_price = None\<rparr> 3 7 = Some 2"
    by (simp add: cost_micros_def half_up_def)
  from cost_rounded [OF this] show ?thesis by simp
qed

text \<open>The rotation cursor of a purpose advances once per priority, not once per call: with two
  priorities it keeps its parity, so of two equal channels of the first priority one is
  always tried before the other.\<close>

lemma two_priorities_never_rotate:
  assumes "p < q" and "weighted_pool (priority_group cs p) = [a, b]" and "weighted_pool (priority_group cs q) \<noteq> []"
    and "mc_priority ` set cs = {p, q}" and "even (dict_get cursors purpose 0)"
  shows "hd (fst (ordered_channels purpose cs cursors)) = a"
    and "even (dict_get (snd (ordered_channels purpose cs cursors)) purpose 0)"
proof -
  have ps: "sorted_list_of_set {p, q} = [p, q]" using assms(1) by simp
  have len: "length (weighted_pool (priority_group cs p)) = 2" using assms(2) by simp
  have zero: "dict_get cursors purpose 0 mod Suc (Suc 0) = 0" using assms(5) by presburger
  have rot: "rotated 0 [a, b] = [a, b]" by (simp add: rotated_def numeral_2_eq_2)
  obtain ys where ys: "add_new [] [a, b] = a # ys" by (cases "b = a") auto
  have hd: "hd (add_new (a # ys) xs) = a" for xs
  proof -
    obtain zs where "add_new (a # ys) xs = (a # ys) @ zs" using add_new_append [of "a # ys" xs] by blast
    then show ?thesis by simp
  qed
  have run: "ordered_channels purpose cs cursors =
    (add_new (a # ys) (rotated ((dict_get cursors purpose 0 + 1) mod length (weighted_pool (priority_group cs q)))
       (weighted_pool (priority_group cs q))),
     AList.update purpose (dict_get cursors purpose 0 + 1 + 1) (AList.update purpose (dict_get cursors purpose 0 + 1) cursors))"
    using assms(2,3) zero rot ys
    unfolding ordered_channels_def assms(4) ps by (cases "b = a") (auto simp add: Let_def dict_simps)
  show "hd (fst (ordered_channels purpose cs cursors)) = a" using hd by (simp add: run)
  show "even (dict_get (snd (ordered_channels purpose cs cursors)) purpose 0)"
    using assms(5) by (simp add: run dict_simps)
qed

end
