(* ===== verification/PluginConfig.thy ===== *)
theory PluginConfig
  imports Payload
begin

text \<open>
  Validation of plugin configuration, \<open>src/mybot/plugins/config.py\<close>: a JSON Schema subset,
  checked with early exits that name the failing path. The result is the equivalence with
  the declarative predicate \<open>conforms\<close>. A Python \<open>bool\<close> is an \<open>int\<close>, which matters for
  the length bounds and for equality with the enum values.
\<close>

section \<open>Python values\<close>

fun json_number :: "json \<Rightarrow> real option" where
  "json_number (JInt i) = Some (of_int i)"
| "json_number (JFloat r) = Some r"
| "json_number (JBool b) = Some (if b then 1 else 0)"
| "json_number _ = None"

text \<open>\<open>isinstance(x, int)\<close>.\<close>

fun json_int :: "json \<Rightarrow> int option" where
  "json_int (JInt i) = Some i"
| "json_int (JBool b) = Some (if b then 1 else 0)"
| "json_int _ = None"

lemma size_member: "(k, v) \<in> set kvs \<Longrightarrow> size v < size (JObj kvs)"
  by (induction kvs) auto

lemma size_element: "v \<in> set vs \<Longrightarrow> size v < size (JArr vs)"
  by (induction vs) auto

text \<open>Python's \<open>==\<close> on decoded documents.\<close>

function json_eq :: "json \<Rightarrow> json \<Rightarrow> bool" where
  "json_eq a b =
     (case a of
        JNull \<Rightarrow> b = JNull
      | JStr s \<Rightarrow> b = JStr s
      | JArr vs \<Rightarrow> (case b of
            JArr ws \<Rightarrow> length vs = length ws \<and> (\<forall>(v, w) \<in> set (zip vs ws). json_eq v w)
          | _ \<Rightarrow> False)
      | JObj kvs \<Rightarrow> (case b of
            JObj lws \<Rightarrow> length kvs = length lws \<and>
              (\<forall>(k, v) \<in> set kvs. case map_of lws k of None \<Rightarrow> False | Some w \<Rightarrow> json_eq v w)
          | _ \<Rightarrow> False)
      | _ \<Rightarrow> json_number b = json_number a)"
  by pat_completeness auto
termination
  by (relation "measure (\<lambda>(a, b). size a)") (auto intro: size_element [simplified] size_member [simplified] dest: set_zip_leftD)

declare json_eq.simps [simp del]

section \<open>The checks\<close>

definition err_path :: "ustr \<Rightarrow> string \<Rightarrow> ustr + 'a" where
  "err_path path msg = Inl (path @ lit msg)"

text \<open>\<open>_matches_type\<close>, \<open>Inl\<close> for an unsupported type.\<close>

definition matches_type :: "ustr \<Rightarrow> json \<Rightarrow> ustr + bool" where
  "matches_type expected v =
     (if expected = lit ''object'' then Inr (case v of JObj _ \<Rightarrow> True | _ \<Rightarrow> False)
      else if expected = lit ''array'' then Inr (case v of JArr _ \<Rightarrow> True | _ \<Rightarrow> False)
      else if expected = lit ''string'' then Inr (case v of JStr _ \<Rightarrow> True | _ \<Rightarrow> False)
      else if expected = lit ''integer'' then Inr (case v of JInt _ \<Rightarrow> True | _ \<Rightarrow> False)
      else if expected = lit ''number'' then Inr (case v of JInt _ \<Rightarrow> True | JFloat _ \<Rightarrow> True | _ \<Rightarrow> False)
      else if expected = lit ''boolean'' then Inr (case v of JBool _ \<Rightarrow> True | _ \<Rightarrow> False)
      else if expected = lit ''null'' then Inr (v = JNull)
      else Inl (lit ''unsupported JSON Schema type '' @ expected))"

definition check_type :: "(ustr, json) dict \<Rightarrow> json \<Rightarrow> ustr \<Rightarrow> ustr + unit" where
  "check_type schema v path =
     (case map_of schema (lit ''type'') of
        Some (JStr expected) \<Rightarrow> bindr (matches_type expected v) (\<lambda>ok.
          if ok then Inr () else Inl (path @ lit '' must be '' @ expected))
      | _ \<Rightarrow> Inr ())"

definition check_enum :: "(ustr, json) dict \<Rightarrow> json \<Rightarrow> ustr \<Rightarrow> ustr + unit" where
  "check_enum schema v path =
     (case map_of schema (lit ''enum'') of
        Some (JArr vs) \<Rightarrow> if \<exists>x \<in> set vs. json_eq v x then Inr ()
                       else err_path path '' must be one of the declared enum values''
      | _ \<Rightarrow> Inr ())"

fun check_required :: "json list \<Rightarrow> (ustr, json) dict \<Rightarrow> ustr \<Rightarrow> ustr + unit" where
  "check_required [] kvs path = Inr ()"
| "check_required (JStr k # ks) kvs path =
     (if map_of kvs k = None then err_path (path @ lit ''.'' @ k) '' is required''
      else check_required ks kvs path)"
| "check_required (_ # ks) kvs path = check_required ks kvs path"

definition schema_required :: "(ustr, json) dict \<Rightarrow> json list" where
  "schema_required schema = (case map_of schema (lit ''required'') of Some (JArr ks) \<Rightarrow> ks | _ \<Rightarrow> [])"

definition schema_property :: "(ustr, json) dict \<Rightarrow> ustr \<Rightarrow> (ustr, json) dict option" where
  "schema_property schema k =
     (case map_of schema (lit ''properties'') of
        Some (JObj props) \<Rightarrow> (case map_of props k of Some (JObj sub) \<Rightarrow> Some sub | _ \<Rightarrow> None)
      | _ \<Rightarrow> None)"

definition schema_items :: "(ustr, json) dict \<Rightarrow> (ustr, json) dict option" where
  "schema_items schema = (case map_of schema (lit ''items'') of Some (JObj sub) \<Rightarrow> Some sub | _ \<Rightarrow> None)"

definition schema_closed :: "(ustr, json) dict \<Rightarrow> bool" where
  "schema_closed schema \<longleftrightarrow> map_of schema (lit ''additionalProperties'') = Some (JBool False)"

definition check_length :: "(ustr, json) dict \<Rightarrow> ustr \<Rightarrow> ustr \<Rightarrow> ustr + unit" where
  "check_length schema s path =
     (let least = Option.bind (map_of schema (lit ''minLength'')) json_int;
          most = Option.bind (map_of schema (lit ''maxLength'')) json_int
      in if (case least of None \<Rightarrow> False | Some n \<Rightarrow> int (length s) < n)
         then err_path path '' is shorter than minLength''
         else if (case most of None \<Rightarrow> False | Some n \<Rightarrow> int (length s) > n)
         then err_path path '' is longer than maxLength''
         else Inr ())"

definition check_bounds :: "(ustr, json) dict \<Rightarrow> real \<Rightarrow> ustr \<Rightarrow> ustr + unit" where
  "check_bounds schema x path =
     (let least = Option.bind (map_of schema (lit ''minimum'')) json_number;
          most = Option.bind (map_of schema (lit ''maximum'')) json_number
      in if (case least of None \<Rightarrow> False | Some n \<Rightarrow> x < n) then err_path path '' is below minimum''
         else if (case most of None \<Rightarrow> False | Some n \<Rightarrow> x > n) then err_path path '' is above maximum''
         else Inr ())"

text \<open>\<open>_validate\<close> with its loops over the properties and the elements.\<close>

fun validate_value :: "(ustr, json) dict \<Rightarrow> json \<Rightarrow> ustr \<Rightarrow> ustr + unit"
  and validate_props :: "(ustr, json) dict \<Rightarrow> (ustr, json) dict \<Rightarrow> ustr \<Rightarrow> ustr + unit"
  and validate_elems :: "(ustr, json) dict \<Rightarrow> nat \<Rightarrow> json list \<Rightarrow> ustr \<Rightarrow> ustr + unit" where
  "validate_value schema v path =
     bindr (check_type schema v path) (\<lambda>_. bindr (check_enum schema v path) (\<lambda>_.
       case v of
         JObj kvs \<Rightarrow> bindr (check_required (schema_required schema) kvs path)
                       (\<lambda>_. validate_props schema kvs path)
       | JArr vs \<Rightarrow> (case schema_items schema of None \<Rightarrow> Inr () | Some sub \<Rightarrow> validate_elems sub 0 vs path)
       | JStr s \<Rightarrow> check_length schema s path
       | JInt i \<Rightarrow> check_bounds schema (of_int i) path
       | JFloat r \<Rightarrow> check_bounds schema r path
       | _ \<Rightarrow> Inr ()))"
| "validate_props schema [] path = Inr ()"
| "validate_props schema ((k, child) # rest) path =
     bindr (case schema_property schema k of
              Some sub \<Rightarrow> validate_value sub child (path @ lit ''.'' @ k)
            | None \<Rightarrow> if schema_closed schema then err_path (path @ lit ''.'' @ k) '' is not allowed'' else Inr ())
       (\<lambda>_. validate_props schema rest path)"
| "validate_elems sub i [] path = Inr ()"
| "validate_elems sub i (child # rest) path =
     bindr (validate_value sub child (path @ lit ''['' @ dec i @ lit '']''))
       (\<lambda>_. validate_elems sub (Suc i) rest path)"

declare validate_value.simps [simp del]

definition validate_plugin_config :: "(ustr, json) dict \<Rightarrow> json \<Rightarrow> ustr + unit" where
  "validate_plugin_config schema v = validate_value schema v (lit ''config'')"

section \<open>The declarative reading\<close>

definition has_type :: "(ustr, json) dict \<Rightarrow> json \<Rightarrow> bool" where
  "has_type schema v \<longleftrightarrow> (\<forall>t. map_of schema (lit ''type'') = Some (JStr t) \<longrightarrow> matches_type t v = Inr True)"

definition in_enum :: "(ustr, json) dict \<Rightarrow> json \<Rightarrow> bool" where
  "in_enum schema v \<longleftrightarrow> (\<forall>vs. map_of schema (lit ''enum'') = Some (JArr vs) \<longrightarrow> (\<exists>x \<in> set vs. json_eq v x))"

definition at_least :: "real option \<Rightarrow> real \<Rightarrow> bool" where
  "at_least b x \<longleftrightarrow> (case b of None \<Rightarrow> True | Some n \<Rightarrow> n \<le> x)"

definition at_most :: "real option \<Rightarrow> real \<Rightarrow> bool" where
  "at_most b x \<longleftrightarrow> (case b of None \<Rightarrow> True | Some n \<Rightarrow> x \<le> n)"

inductive conforms :: "(ustr, json) dict \<Rightarrow> json \<Rightarrow> bool" where
  obj: "has_type schema (JObj kvs) \<Longrightarrow> in_enum schema (JObj kvs) \<Longrightarrow>
    \<forall>k. JStr k \<in> set (schema_required schema) \<longrightarrow> k \<in> fst ` set kvs \<Longrightarrow>
    (\<And>k child sub. (k, child) \<in> set kvs \<Longrightarrow> schema_property schema k = Some sub \<Longrightarrow> conforms sub child) \<Longrightarrow>
    (\<And>k child. (k, child) \<in> set kvs \<Longrightarrow> schema_property schema k = None \<Longrightarrow> \<not> schema_closed schema) \<Longrightarrow>
    conforms schema (JObj kvs)"
| arr: "has_type schema (JArr vs) \<Longrightarrow> in_enum schema (JArr vs) \<Longrightarrow>
    (\<And>child sub. child \<in> set vs \<Longrightarrow> schema_items schema = Some sub \<Longrightarrow> conforms sub child) \<Longrightarrow>
    conforms schema (JArr vs)"
| str: "has_type schema (JStr s) \<Longrightarrow> in_enum schema (JStr s) \<Longrightarrow>
    at_least (map_option of_int (Option.bind (map_of schema (lit ''minLength'')) json_int)) (real (length s)) \<Longrightarrow>
    at_most (map_option of_int (Option.bind (map_of schema (lit ''maxLength'')) json_int)) (real (length s)) \<Longrightarrow>
    conforms schema (JStr s)"
| num: "has_type schema v \<Longrightarrow> in_enum schema v \<Longrightarrow> v = JInt i \<and> x = of_int i \<or> v = JFloat x \<Longrightarrow>
    at_least (Option.bind (map_of schema (lit ''minimum'')) json_number) x \<Longrightarrow>
    at_most (Option.bind (map_of schema (lit ''maximum'')) json_number) x \<Longrightarrow> conforms schema v"
| atom: "has_type schema v \<Longrightarrow> in_enum schema v \<Longrightarrow> v = JNull \<or> v = JBool b \<Longrightarrow> conforms schema v"


lemma check_type_ok: "check_type schema v path = Inr () \<longleftrightarrow> has_type schema v"
  by (auto simp: check_type_def has_type_def bindr_eq_Inr split: option.splits json.splits if_splits)

lemma check_enum_ok: "check_enum schema v path = Inr () \<longleftrightarrow> in_enum schema v"
  by (auto simp: check_enum_def in_enum_def err_path_def split: option.splits json.splits)

lemma check_required_ok:
  "check_required ks kvs path = Inr () \<longleftrightarrow> (\<forall>k. JStr k \<in> set ks \<longrightarrow> k \<in> fst ` set kvs)"
  by (induction ks kvs path rule: check_required.induct)
    (auto simp: err_path_def map_of_eq_None_iff image_iff)

lemma check_length_ok: "check_length schema s path = Inr () \<longleftrightarrow>
    at_least (map_option of_int (Option.bind (map_of schema (lit ''minLength'')) json_int)) (real (length s)) \<and>
    at_most (map_option of_int (Option.bind (map_of schema (lit ''maxLength'')) json_int)) (real (length s))"
  by (auto simp: check_length_def at_least_def at_most_def err_path_def Let_def split: option.split)

lemma check_bounds_ok: "check_bounds schema x path = Inr () \<longleftrightarrow>
    at_least (Option.bind (map_of schema (lit ''minimum'')) json_number) x \<and>
    at_most (Option.bind (map_of schema (lit ''maximum'')) json_number) x"
  by (auto simp: check_bounds_def at_least_def at_most_def err_path_def Let_def split: option.split)

inductive_cases conforms_obj: "conforms schema (JObj kvs)"
inductive_cases conforms_arr: "conforms schema (JArr vs)"
inductive_cases conforms_str: "conforms schema (JStr s)"
inductive_cases conforms_int: "conforms schema (JInt i)"
inductive_cases conforms_float: "conforms schema (JFloat r)"
inductive_cases conforms_null: "conforms schema JNull"
inductive_cases conforms_bool: "conforms schema (JBool b)"

lemmas check_ok = check_type_ok check_enum_ok check_required_ok check_length_ok check_bounds_ok

lemma bindr_unit: "bindr r (\<lambda>_. q) = Inr x \<longleftrightarrow> r = Inr () \<and> q = Inr x" for r :: "'e + unit"
  by (cases r) auto

lemma bindr_return [simp]: "bindr r Inr = r"
  by (cases r) auto

lemma validate_conforms:
  "validate_value schema v path = Inr () \<longleftrightarrow> conforms schema v"
  "validate_props schema kvs path = Inr () \<longleftrightarrow>
     (\<forall>(k, child) \<in> set kvs. case schema_property schema k of Some sub \<Rightarrow> conforms sub child
        | None \<Rightarrow> \<not> schema_closed schema)"
  "validate_elems sub i vs path = Inr () \<longleftrightarrow> (\<forall>child \<in> set vs. conforms sub child)"
proof (induction schema v path and schema kvs path and sub i vs path
    rule: validate_value_validate_props_validate_elems.induct)
  case (1 schema v path)
  show ?case
  proof (cases v)
    case (JObj kvs)
    then show ?thesis
      using 1 by (auto simp: validate_value.simps bindr_unit check_ok split: option.splits
        elim!: conforms_obj intro!: conforms.obj)
  next
    case (JArr vs)
    then show ?thesis
      using 1 by (auto simp: validate_value.simps bindr_unit check_ok split: option.splits
        elim!: conforms_arr intro!: conforms.arr)
  next
    case (JStr s)
    then show ?thesis
      by (auto simp: validate_value.simps bindr_unit check_ok elim!: conforms_str intro!: conforms.str)
  next
    case (JInt i)
    then show ?thesis
      by (auto simp: validate_value.simps bindr_unit check_ok elim!: conforms_int intro: conforms.num)
  next
    case (JFloat r)
    then show ?thesis
      by (auto simp: validate_value.simps bindr_unit check_ok elim!: conforms_float intro: conforms.num)
  next
    case JNull
    then show ?thesis
      by (auto simp: validate_value.simps bindr_unit check_ok elim!: conforms_null intro: conforms.atom)
  next
    case (JBool b)
    then show ?thesis
      by (auto simp: validate_value.simps bindr_unit check_ok elim!: conforms_bool intro: conforms.atom)
  qed
qed (auto simp: bindr_unit err_path_def split: option.splits)

section \<open>Properties\<close>

text \<open>
  plugin configuration is validated against its schema: the checker with its early exits
  accepts a document exactly when it conforms to the schema, whatever the path it reports.
\<close>

theorem config_validation_exact: "validate_plugin_config schema v = Inr () \<longleftrightarrow> conforms schema v"
  by (simp add: validate_plugin_config_def validate_conforms)

end
