(* ===== verification/Broker.thy ===== *)
theory Broker
  imports PluginConfig "HOL-Library.List_Lexorder"
begin

text \<open>
  The plugin broker, \<open>src/mybot/plugins/broker.py\<close> with the manifests of
  \<open>contracts/plugins.py\<close>: registration of runners, the catalog of tools, invocations from
  their queueing to their answer, events, services with their quota.

  A runner's state is an object that a waiting poll keeps hold of even when the runner
  registers anew, so runners live in a heap (\<open>bk_heap\<close>) and the broker maps their ids to
  places in it. A pending invocation carries the state of its future: \<open>None\<close> until it is
  done. Parameters: the pydantic validation of a manifest, Python's \<open>str\<close> of a JSON value
  and of a list of strings.
\<close>

section \<open>Manifests and services\<close>

record task_spec =
  tk_id :: ustr
  tk_interval :: int

record plugin_manifest =
  pm_id :: ustr
  pm_version :: ustr
  pm_event_hooks :: "ustr list"
  pm_tools :: "tool_spec list"
  pm_tasks :: "task_spec list"
  pm_config_schema :: "(ustr, frozen) dict"
  pm_requested :: "ustr list"
  pm_requires :: "(ustr, frozen) dict"

datatype broker_fault = Http int ustr | Runtime_error ustr | Value_error

record plugin_service =
  ps_name :: ustr
  ps_version :: int
  ps_capability :: ustr
  ps_handler :: "ustr \<Rightarrow> (ustr, json) dict \<Rightarrow> broker_fault + (ustr, json) dict"

text \<open>\<open>str.isdigit\<close> holds for the decimal digits, in blocks of ten that start at these code
  points, and for digits such as superscripts that \<open>int()\<close> refuses.\<close>

definition decimal_zeros :: "nat list" where
  "decimal_zeros = [48, 1632, 1776, 1984, 2406, 2534, 2662, 2790, 2918, 3046, 3174, 3302, 3430, 3558,
     3664, 3792, 3872, 4160, 4240, 6112, 6160, 6470, 6608, 6784, 6800, 6992, 7088, 7232, 7248, 42528,
     43216, 43264, 43472, 43504, 43600, 44016, 65296, 66720, 68912, 69734, 69872, 69942, 70096, 70384,
     70736, 70864, 71248, 71360, 71472, 71904, 72016, 72784, 73040, 73120, 73552, 92768, 92864, 93008,
     120782, 120792, 120802, 120812, 120822, 123200, 123632, 124144, 125264, 130032]"

definition other_digits :: "(nat \<times> nat) list" where
  "other_digits = [(178, 179), (185, 185), (4969, 4977), (6618, 6618), (8304, 8304), (8308, 8313),
     (8320, 8329), (9312, 9320), (9332, 9340), (9352, 9360), (9450, 9450), (9461, 9469), (9471, 9471),
     (10102, 10110), (10112, 10120), (10122, 10130), (68160, 68163), (69216, 69224), (69714, 69722),
     (127232, 127242)]"

definition decimal_value :: "nat \<Rightarrow> nat option" where
  "decimal_value c = map_option (\<lambda>z. c - z) (List.find (\<lambda>z. z \<le> c \<and> c < z + 10) decimal_zeros)"

definition digit_char :: "nat \<Rightarrow> bool" where
  "digit_char c \<longleftrightarrow> decimal_value c \<noteq> None \<or> (\<exists>(a, b) \<in> set other_digits. a \<le> c \<and> c \<le> b)"

text \<open>\<open>int(s)\<close> for a string of digit characters.\<close>

fun int_of_digits :: "int \<Rightarrow> ustr \<Rightarrow> broker_fault + int" where
  "int_of_digits n [] = Inr n"
| "int_of_digits n (c # cs) =
     (case decimal_value c of None \<Rightarrow> Inl Value_error | Some d \<Rightarrow> int_of_digits (10 * n + int d) cs)"

definition supports_version :: "ustr \<Rightarrow> int \<Rightarrow> broker_fault + bool" where
  "supports_version requested available =
     (let stripped = strip requested;
          normalized = (case stripped of [] \<Rightarrow> [] | c # cs \<Rightarrow> if c = 94 then cs else stripped);
          major = takeWhile (\<lambda>c. c \<noteq> 46) normalized
      in if major = [] \<or> \<not> (\<forall>c \<in> set major. digit_char c) then Inr False
         else bindr (int_of_digits 0 major) (\<lambda>n. Inr (n = available)))"

section \<open>The state\<close>

record broker_call =
  bc_id :: ustr
  bc_tool :: ustr
  bc_arguments :: "(ustr, json) dict"
  bc_context :: "(ustr, json) dict"

record broker_runner =
  brn_id :: ustr
  brn_protocol :: int
  brn_plugins :: "(ustr, plugin_manifest) dict"
  brn_work :: "broker_call list"
  brn_events :: "(ustr, json) dict list"

record broker_tool =
  bt_plugin :: ustr
  bt_runner :: ustr
  bt_spec :: tool_spec

datatype call_outcome = Answered "(ustr, json) dict" | Disconnected

record audit_entry =
  ae_plugin :: ustr
  ae_reason :: ustr
  ae_detail :: ustr

record broker =
  bk_heap :: "broker_runner list"
  bk_runners :: "(ustr, nat) dict"
  bk_tools :: "(ustr, broker_tool) dict"
  bk_pending :: "(ustr, call_outcome option) dict"
  bk_services :: "(ustr, plugin_service) dict"
  bk_calls :: "(ustr \<times> ustr, real list) dict"
  bk_load_errors :: "(ustr, ustr) dict"
  bk_audit :: "audit_entry list"

record broker_env =
  be_grants :: "(ustr, ustr list) dict"
  be_quota :: nat
  be_validate :: "json \<Rightarrow> nat + plugin_manifest"
  be_list_str :: "ustr list \<Rightarrow> ustr"
  be_str :: "json \<Rightarrow> ustr"

definition services_dict :: "plugin_service list \<Rightarrow> (ustr, plugin_service) dict" where
  "services_dict svs = fold (\<lambda>sv. AList.update (ps_name sv) sv) svs []"

definition new_broker :: "plugin_service list \<Rightarrow> broker" where
  "new_broker svs = \<lparr>bk_heap = [], bk_runners = [], bk_tools = [], bk_pending = [],
     bk_services = services_dict svs, bk_calls = [], bk_load_errors = [], bk_audit = []\<rparr>"

definition set_services :: "plugin_service list \<Rightarrow> broker \<Rightarrow> broker" where
  "set_services svs b = b\<lparr>bk_services := services_dict svs\<rparr>"

type_synonym 'a broker_prog = "(broker_fault, broker, 'a) eprog"

definition audit :: "ustr \<Rightarrow> ustr \<Rightarrow> ustr \<Rightarrow> broker \<Rightarrow> broker" where
  "audit plugin reason detail b =
     b\<lparr>bk_audit := bk_audit b @ [\<lparr>ae_plugin = plugin, ae_reason = reason, ae_detail = detail\<rparr>]\<rparr>"

definition runner_of :: "broker \<Rightarrow> ustr \<Rightarrow> broker_runner option" where
  "runner_of b rid = map_option (\<lambda>place. bk_heap b ! place) (map_of (bk_runners b) rid)"

definition change_runner :: "nat \<Rightarrow> (broker_runner \<Rightarrow> broker_runner) \<Rightarrow> broker \<Rightarrow> broker" where
  "change_runner place f b = b\<lparr>bk_heap := (bk_heap b)[place := f (bk_heap b ! place)]\<rparr>"

section \<open>Registration\<close>

definition granted :: "broker_env \<Rightarrow> ustr \<Rightarrow> ustr list" where
  "granted env pid = dict_get (be_grants env) pid []"

definition excessive :: "broker_env \<Rightarrow> plugin_manifest \<Rightarrow> ustr set" where
  "excessive env man = set (pm_requested man) - set (granted env (pm_id man))"

text \<open>What \<open>str(required_version)\<close> is for the strings that a manifest may hold.\<close>

fun version_text :: "frozen \<Rightarrow> ustr" where
  "version_text (FStr s) = s"
| "version_text _ = []"

fun required_detail ::
  "(ustr, plugin_service) dict \<Rightarrow> plugin_manifest \<Rightarrow> (ustr, frozen) dict \<Rightarrow> broker_fault + ustr option" where
  "required_detail services man [] = Inr None"
| "required_detail services man ((name, version) # rest) =
     (let wanted = name @ lit ''@'' @ version_text version
      in case map_of services name of
           None \<Rightarrow> Inr (Some (lit ''required service '' @ wanted @ lit '' is unavailable''))
         | Some sv \<Rightarrow>
             bindr (supports_version (version_text version) (ps_version sv)) (\<lambda>ok.
               if \<not> ok then Inr (Some (lit ''required service '' @ wanted @ lit '' is incompatible with '' @
                    name @ lit ''@'' @ dec_int (ps_version sv)))
               else if ps_capability sv \<notin> set (pm_requested man)
               then Inr (Some (lit ''required service '' @ name @
                    lit '' also requires requested capability '' @ ps_capability sv))
               else required_detail services man rest))"

definition check_manifest :: "broker_env \<Rightarrow> json \<Rightarrow> plugin_manifest broker_prog" where
  "check_manifest env raw b =
     (case be_validate env raw of
        Inl n \<Rightarrow> (Inl (Http 422 (lit ''invalid plugin manifest: '' @ dec n @ lit '' errors'')), b)
      | Inr man \<Rightarrow>
          if excessive env man \<noteq> {}
          then (Inl (Http 403 (lit ''plugin '' @ pm_id man @ lit '' requests ungranted capabilities'')),
                audit (pm_id man) (lit ''capability_refused'')
                  (lit ''requested '' @ be_list_str env (sorted_list_of_set (excessive env man)) @
                   lit '' beyond grants '' @ be_list_str env (sorted_list_of_set (set (granted env (pm_id man))))) b)
          else (case required_detail (bk_services b) man (pm_requires man) of
                  Inl e \<Rightarrow> (Inl e, b)
                | Inr None \<Rightarrow> (Inr man, b)
                | Inr (Some detail) \<Rightarrow>
                    (Inl (Http 409 detail),
                     audit (pm_id man) (lit ''service_negotiation_refused'') detail
                       (b\<lparr>bk_load_errors := AList.update (pm_id man) detail (bk_load_errors b)\<rparr>))))"

fun check_manifests :: "broker_env \<Rightarrow> json list \<Rightarrow> plugin_manifest list broker_prog" where
  "check_manifests env [] = retp []"
| "check_manifests env (raw # raws) =
     bindp (check_manifest env raw) (\<lambda>man.
     bindp (check_manifests env raws) (\<lambda>mans. retp (man # mans)))"

definition foreign_tools :: "ustr \<Rightarrow> (ustr, broker_tool) dict \<Rightarrow> (ustr, broker_tool) dict" where
  "foreign_tools rid tools = filter (\<lambda>(tid, tool). bt_runner tool \<noteq> rid) tools"

definition adopt :: "ustr \<Rightarrow> plugin_manifest \<Rightarrow> broker \<Rightarrow> broker" where
  "adopt rid man b = (let place = the (map_of (bk_runners b) rid) in
     (change_runner place (\<lambda>r. r\<lparr>brn_plugins := AList.update (pm_id man) man (brn_plugins r)\<rparr>) b)\<lparr>
       bk_load_errors := AList.delete (pm_id man) (bk_load_errors b),
       bk_tools := fold (\<lambda>spec. AList.update (ts_id spec)
         \<lparr>bt_plugin = pm_id man, bt_runner = rid, bt_spec = spec\<rparr>) (pm_tools man) (bk_tools b)\<rparr>)"

definition connect :: "ustr \<Rightarrow> int \<Rightarrow> plugin_manifest list \<Rightarrow> broker \<Rightarrow> broker" where
  "connect rid protocol mans b =
     (let fresh = \<lparr>brn_id = rid, brn_protocol = protocol, brn_plugins = [], brn_work = [], brn_events = []\<rparr>;
          tools = (if map_of (bk_runners b) rid = None then bk_tools b else foreign_tools rid (bk_tools b))
      in fold (adopt rid) mans
           (b\<lparr>bk_tools := tools, bk_heap := bk_heap b @ [fresh],
              bk_runners := AList.update rid (length (bk_heap b)) (bk_runners b)\<rparr>))"

definition register :: "broker_env \<Rightarrow> ustr \<Rightarrow> json list \<Rightarrow> int \<Rightarrow> ustr list broker_prog" where
  "register env rid raws protocol =
     (if protocol \<noteq> 1 \<and> protocol \<noteq> 2
      then raisep (Http 409 (lit ''plugin protocol '' @ dec_int protocol @
             lit '' is unsupported; supported versions are [1, 2]''))
      else bindp (check_manifests env raws) (\<lambda>mans b.
             (Inr (map pm_id mans), connect rid protocol mans b)))"

text \<open>\<open>unregister\<close>: queued invocations of the runner fail.\<close>

definition fail_queued :: "broker_call list \<Rightarrow> (ustr, call_outcome option) dict \<Rightarrow> (ustr, call_outcome option) dict" where
  "fail_queued work pending = map (\<lambda>(i, fut).
     (i, if i \<in> bc_id ` set work \<and> fut = None then Some Disconnected else fut)) pending"

definition unregister :: "ustr \<Rightarrow> broker \<Rightarrow> bool \<times> broker" where
  "unregister rid b =
     (case runner_of b rid of
        None \<Rightarrow> (False, b)
      | Some state \<Rightarrow> (True, b\<lparr>bk_runners := AList.delete rid (bk_runners b),
          bk_tools := foreign_tools rid (bk_tools b),
          bk_pending := fail_queued (brn_work state) (bk_pending b)\<rparr>))"

section \<open>Invocations\<close>

text \<open>\<open>invoke\<close> up to its wait; \<open>i\<close> is the new invocation id.\<close>

definition invoke_start ::
  "ustr \<Rightarrow> ustr \<Rightarrow> (ustr, json) dict \<Rightarrow> (ustr, json) dict \<Rightarrow> ustr broker_prog" where
  "invoke_start i tid args ctx b =
     (case map_of (bk_tools b) tid of
        None \<Rightarrow> (Inl (Http 404 (lit ''no plugin tool named '' @ tid)), b)
      | Some tool \<Rightarrow>
          (case map_of (bk_runners b) (bt_runner tool) of
             None \<Rightarrow> (Inl (Http 504 (lit ''the plugin runner is not connected'')), b)
           | Some place \<Rightarrow>
               (Inr i, change_runner place
                  (\<lambda>r. r\<lparr>brn_work := brn_work r @ [\<lparr>bc_id = i, bc_tool = tid, bc_arguments = args, bc_context = ctx\<rparr>]\<rparr>)
                  (b\<lparr>bk_pending := AList.update i None (bk_pending b)\<rparr>))))"

text \<open>How the wait ends: with the future when it is done, by the timeout otherwise.\<close>

definition invoke_end :: "ustr \<Rightarrow> ustr \<Rightarrow> (ustr, json) dict broker_prog" where
  "invoke_end i tid b =
     ((case map_of (bk_pending b) i of
         Some (Some (Answered r)) \<Rightarrow> Inr r
       | Some (Some Disconnected) \<Rightarrow> Inl (Runtime_error (lit ''plugin runner disconnected''))
       | _ \<Rightarrow> Inl (Http 504 (lit ''plugin tool '' @ tid @ lit '' timed out''))),
      b\<lparr>bk_pending := AList.delete i (bk_pending b)\<rparr>)"

text \<open>\<open>work\<close>: the poll takes hold of the runner's object, waits, and drains that object.\<close>

definition work_begin :: "ustr \<Rightarrow> nat broker_prog" where
  "work_begin rid b =
     (case map_of (bk_runners b) rid of
        None \<Rightarrow> (Inl (Http 404 (lit ''unknown runner; register first'')), b)
      | Some place \<Rightarrow> (Inr place, b))"

definition work_take :: "nat \<Rightarrow> broker \<Rightarrow> (broker_call list \<times> (ustr, json) dict list) \<times> broker" where
  "work_take place b =
     ((brn_work (bk_heap b ! place), brn_events (bk_heap b ! place)),
      change_runner place (\<lambda>r. r\<lparr>brn_work := [], brn_events := []\<rparr>) b)"

definition post_result :: "ustr \<Rightarrow> (ustr, json) dict \<Rightarrow> broker \<Rightarrow> bool \<times> broker" where
  "post_result i r b =
     (case map_of (bk_pending b) i of
        Some None \<Rightarrow> (True, b\<lparr>bk_pending := AList.update i (Some (Answered r)) (bk_pending b)\<rparr>)
      | _ \<Rightarrow> (False, b))"

section \<open>Events\<close>

fun json_truthy :: "json \<Rightarrow> bool" where
  "json_truthy JNull = False"
| "json_truthy (JBool b) = b"
| "json_truthy (JInt i) = (i \<noteq> 0)"
| "json_truthy (JFloat r) = (r \<noteq> 0)"
| "json_truthy (JStr s) = (s \<noteq> [])"
| "json_truthy (JArr vs) = (vs \<noteq> [])"
| "json_truthy (JObj kvs) = (kvs \<noteq> [])"

definition json_or :: "json \<Rightarrow> json \<Rightarrow> json" where
  "json_or a b = (if json_truthy a then a else b)"

definition text_segment :: "ustr \<Rightarrow> json" where
  "text_segment t = JObj [(lit ''type'', JStr (lit ''text'')), (lit ''text'', JStr t)]"

definition legacy_segment :: "(json \<Rightarrow> ustr) \<Rightarrow> json \<Rightarrow> json" where
  "legacy_segment str raw =
     (case raw of
        JObj seg \<Rightarrow>
          (let kind = payload_get seg (lit ''type'') in
           if kind = JStr (lit ''at'') then
             text_segment (lit ''[@'' @ str (json_or (payload_get seg (lit ''display_name''))
               (json_or (payload_get seg (lit ''target_id'')) (JStr (lit ''user'')))) @ lit '']'')
           else if kind = JStr (lit ''sticker'') then
             text_segment (lit ''[sticker: '' @ str (json_or (payload_get seg (lit ''name''))
               (json_or (payload_get seg (lit ''id'')) (JStr (lit ''sticker'')))) @ lit '']'')
           else if kind = JStr (lit ''voice'') then text_segment (lit ''[voice message]'')
           else raw)
      | _ \<Rightarrow> raw)"

definition legacy_envelope :: "(json \<Rightarrow> ustr) \<Rightarrow> (ustr, json) dict \<Rightarrow> (ustr, json) dict" where
  "legacy_envelope str envl =
     (let trimmed = AList.delete (lit ''ephemeral'') (AList.delete (lit ''trace_id'') envl)
      in case payload_get trimmed (lit ''segments'') of
           JArr segs \<Rightarrow> AList.update (lit ''segments'') (JArr (map (legacy_segment str) segs)) trimmed
         | _ \<Rightarrow> trimmed)"

definition event_for_protocol ::
  "(json \<Rightarrow> ustr) \<Rightarrow> ustr \<Rightarrow> (ustr, json) dict \<Rightarrow> int \<Rightarrow> (ustr, json) dict" where
  "event_for_protocol str kind payload protocol =
     [(lit ''kind'', JStr kind), (lit ''payload'', JObj
        (if protocol \<ge> 2 then payload
         else case payload_get payload (lit ''envelope'') of
                JObj envl \<Rightarrow> AList.update (lit ''envelope'') (JObj (legacy_envelope str envl)) payload
              | _ \<Rightarrow> payload))]"

definition event_queue_limit :: nat where
  "event_queue_limit = 100"

text \<open>\<open>deque(maxlen=100).append\<close>.\<close>

definition push_event :: "(ustr, json) dict \<Rightarrow> (ustr, json) dict list \<Rightarrow> (ustr, json) dict list" where
  "push_event e q = (let q' = q @ [e] in drop (length q' - event_queue_limit) q')"

definition send_event :: "broker_env \<Rightarrow> ustr \<Rightarrow> (ustr, json) dict \<Rightarrow> nat \<Rightarrow> broker \<Rightarrow> broker" where
  "send_event env kind payload place =
     change_runner place (\<lambda>r. r\<lparr>brn_events :=
       push_event (event_for_protocol (be_str env) kind payload (brn_protocol r)) (brn_events r)\<rparr>)"

definition hooked :: "ustr \<Rightarrow> broker_runner \<Rightarrow> bool" where
  "hooked kind r \<longleftrightarrow> (\<exists>(pid, man) \<in> set (brn_plugins r). kind \<in> set (pm_event_hooks man))"

definition post_event :: "broker_env \<Rightarrow> ustr \<Rightarrow> (ustr, json) dict \<Rightarrow> broker \<Rightarrow> nat \<times> broker" where
  "post_event env kind payload b =
     (let places = filter (\<lambda>place. hooked kind (bk_heap b ! place)) (map snd (bk_runners b))
      in (length places, fold (send_event env kind payload) places b))"

definition plugin_place :: "broker \<Rightarrow> ustr \<Rightarrow> nat option" where
  "plugin_place b pid =
     List.find (\<lambda>place. map_of (brn_plugins (bk_heap b ! place)) pid \<noteq> None) (map snd (bk_runners b))"

definition post_plugin_event :: "broker_env \<Rightarrow> ustr \<Rightarrow> ustr \<Rightarrow> (ustr, json) dict \<Rightarrow> broker \<Rightarrow> nat \<times> broker" where
  "post_plugin_event env pid kind payload b =
     (case plugin_place b pid of
        None \<Rightarrow> (0, b)
      | Some place \<Rightarrow> (1, send_event env kind payload place b))"

definition manifest_of :: "broker \<Rightarrow> ustr \<Rightarrow> plugin_manifest option" where
  "manifest_of b pid = Option.bind (plugin_place b pid) (\<lambda>place. map_of (brn_plugins (bk_heap b ! place)) pid)"

definition unknown_plugin :: "ustr \<Rightarrow> broker_fault" where
  "unknown_plugin pid = Http 404 (lit ''unknown plugin '' @ pid)"

definition update_config :: "broker_env \<Rightarrow> ustr \<Rightarrow> (ustr, json) dict \<Rightarrow> nat broker_prog" where
  "update_config env pid config b =
     (case manifest_of b pid of
        None \<Rightarrow> (Inl (unknown_plugin pid), b)
      | Some man \<Rightarrow>
          (case validate_plugin_config (thaw_json_object (pm_config_schema man)) (JObj config) of
             Inl msg \<Rightarrow> (Inl (Http 422 msg), b)
           | Inr _ \<Rightarrow> liftp (post_plugin_event env pid (lit ''plugin.config.changed'')
               [(lit ''plugin_id'', JStr pid), (lit ''config'', JObj config)]) b))"

definition dispatch_task :: "broker_env \<Rightarrow> ustr \<Rightarrow> ustr \<Rightarrow> nat broker_prog" where
  "dispatch_task env pid task b =
     (case manifest_of b pid of
        None \<Rightarrow> (Inl (unknown_plugin pid), b)
      | Some man \<Rightarrow>
          if task \<notin> tk_id ` set (pm_tasks man)
          then (Inl (Http 404 (lit ''plugin '' @ pid @ lit '' has no task '' @ task)), b)
          else liftp (post_plugin_event env pid (lit ''plugin.task'')
                 [(lit ''plugin_id'', JStr pid), (lit ''task_id'', JStr task)]) b)"

section \<open>Catalogs\<close>

definition broker_tool_catalog :: "broker \<Rightarrow> (ustr \<times> tool_spec) list" where
  "broker_tool_catalog b = map (\<lambda>(tid, tool). (bt_plugin tool, bt_spec tool)) (bk_tools b)"

definition task_catalog :: "broker \<Rightarrow> (ustr \<times> ustr \<times> int) list" where
  "task_catalog b = concat (map (\<lambda>(rid, place).
     concat (map (\<lambda>(pid, man). map (\<lambda>t. (pm_id man, tk_id t, tk_interval t)) (pm_tasks man))
       (brn_plugins (bk_heap b ! place)))) (bk_runners b))"

section \<open>Services\<close>

definition service_window :: real where
  "service_window = 60"

definition consume_quota :: "broker_env \<Rightarrow> real \<Rightarrow> ustr \<Rightarrow> ustr \<Rightarrow> unit broker_prog" where
  "consume_quota env now pid service b =
     (let calls = dropWhile (\<lambda>t. now - t \<ge> service_window) (dict_get (bk_calls b) (pid, service) [])
      in if length calls \<ge> be_quota env
         then (Inl (Http 429 (lit ''service '' @ service @ lit '' quota exceeded'')),
               audit pid (lit ''service_quota_exceeded'') service
                 (b\<lparr>bk_calls := AList.update (pid, service) calls (bk_calls b)\<rparr>))
         else (Inr (), b\<lparr>bk_calls := AList.update (pid, service) (calls @ [now]) (bk_calls b)\<rparr>))"

text \<open>The checks of \<open>invoke_service\<close>, up to the capability: they change only the audit log.\<close>

definition negotiated ::
  "broker_env \<Rightarrow> ustr \<Rightarrow> ustr \<Rightarrow> ustr \<Rightarrow> ustr \<Rightarrow> plugin_service broker_prog" where
  "negotiated env rid pid service version b =
     (case Option.bind (runner_of b rid) (\<lambda>r. map_of (brn_plugins r) pid) of
        None \<Rightarrow> (Inl (Http 403 (lit ''runner does not own this plugin'')), b)
      | Some man \<Rightarrow>
          (case (map_of (pm_requires man) service, map_of (bk_services b) service) of
             (Some required, Some sv) \<Rightarrow>
               (case bindr (supports_version version (ps_version sv)) (\<lambda>ok.
                       if \<not> ok then Inr False
                       else supports_version (version_text required) (ps_version sv)) of
                  Inl e \<Rightarrow> (Inl e, b)
                | Inr False \<Rightarrow> (Inl (Http 409 (lit ''service '' @ service @ lit '' version mismatch'')), b)
                | Inr True \<Rightarrow>
                    if ps_capability sv \<notin> set (granted env pid)
                    then (Inl (Http 403 (lit ''service capability is not granted'')),
                          audit pid (lit ''service_capability_refused'') service b)
                    else (Inr sv, b))
           | _ \<Rightarrow> (Inl (Http 404 (lit ''service '' @ service @ lit '' was not negotiated'')), b)))"

definition invoke_service ::
  "broker_env \<Rightarrow> real \<Rightarrow> ustr \<Rightarrow> ustr \<Rightarrow> ustr \<Rightarrow> ustr \<Rightarrow> (ustr, json) dict \<Rightarrow> (ustr, json) dict broker_prog" where
  "invoke_service env now rid pid service version args =
     bindp (negotiated env rid pid service version) (\<lambda>sv.
     bindp (consume_quota env now pid service) (\<lambda>_ b.
       case ps_handler sv pid args of
         Inl e \<Rightarrow> (Inl e, b)
       | Inr r \<Rightarrow> (Inr r, audit pid (lit ''service_invoked'') (service @ lit ''@'' @ version) b)))"

text \<open>\<open>moderate\<close>: the tool it invokes, and how it reads the tool's result.\<close>

definition moderation_tool :: "broker \<Rightarrow> broker_fault + ustr" where
  "moderation_tool b =
     (case sort (map ts_id (filter (\<lambda>spec. lit ''moderation'' \<in> set (ts_capabilities spec))
                   (map (\<lambda>(tid, tool). bt_spec tool) (bk_tools b)))) of
        [] \<Rightarrow> Inl (Http 503 (lit ''no moderation plugin is registered''))
      | tid # _ \<Rightarrow> Inr tid)"

definition moderation_data :: "(ustr, json) dict \<Rightarrow> broker_fault + (ustr, json) dict" where
  "moderation_data r =
     (case (payload_get r (lit ''ok''), payload_get r (lit ''data'')) of
        (JBool True, JObj d) \<Rightarrow> Inr d
      | _ \<Rightarrow> Inl (Http 502 (lit ''moderation plugin returned an error'')))"

section \<open>Persistence\<close>

text \<open>The registrations kept for a restart, \<open>MemoryPluginRegistrationStore\<close>.\<close>

record plugin_registration =
  pr_runner :: ustr
  pr_protocol :: int
  pr_manifests :: "json list"

definition saved_registration ::
  "(plugin_manifest \<Rightarrow> json) \<Rightarrow> broker \<Rightarrow> ustr \<Rightarrow> plugin_registration option" where
  "saved_registration dump b rid = map_option (\<lambda>r. \<lparr>pr_runner = rid, pr_protocol = brn_protocol r,
     pr_manifests = map (\<lambda>(pid, man). dump man) (brn_plugins r)\<rparr>) (runner_of b rid)"

definition persist ::
  "(plugin_manifest \<Rightarrow> json) \<Rightarrow> broker \<Rightarrow> ustr \<Rightarrow> (ustr, plugin_registration) dict
     \<Rightarrow> (ustr, plugin_registration) dict" where
  "persist dump b rid store = (case saved_registration dump b rid of
     None \<Rightarrow> store | Some reg \<Rightarrow> AList.update rid reg store)"

definition forget :: "ustr \<Rightarrow> (ustr, plugin_registration) dict \<Rightarrow> (ustr, plugin_registration) dict" where
  "forget rid store = AList.delete rid store"

definition load_all :: "(ustr, plugin_registration) dict \<Rightarrow> plugin_registration list" where
  "load_all store = map (\<lambda>rid. the (map_of store rid)) (sort (map fst store))"

fun restore :: "broker_env \<Rightarrow> plugin_registration list \<Rightarrow> nat \<Rightarrow> nat broker_prog" where
  "restore env [] n = retp n"
| "restore env (reg # regs) n = (\<lambda>b.
     (case register env (pr_runner reg) (pr_manifests reg) (pr_protocol reg) b of
        (Inl (Http status detail), b') \<Rightarrow> restore env regs n b'
      | (Inl e, b') \<Rightarrow> (Inl e, b')
      | (Inr _, b') \<Rightarrow> restore env regs (Suc n) b'))"

end
