(* ===== verification/BrokerRuns.thy ===== *)
theory BrokerRuns
  imports Broker "HOL-Library.Multiset"
begin

text \<open>
  What holds along every run of the plugin broker: the operations as a step relation with
  labels, the invariant of the tool catalog, the hand-over of invocations to the runners at
  most once, and the quota of the services.
\<close>

section \<open>Steps\<close>

datatype broker_event =
    Ev_register ustr
  | Ev_unregister ustr
  | Ev_invoke ustr
  | Ev_end ustr
  | Ev_poll ustr
  | Ev_drain "broker_call list"
  | Ev_result ustr
  | Ev_notify
  | Ev_service real ustr ustr bool
  | Ev_services

inductive broker_step :: "broker_env \<Rightarrow> broker \<Rightarrow> broker_event \<Rightarrow> broker \<Rightarrow> bool" for env where
  register: "register env rid raws protocol b = (r, b') \<Longrightarrow> broker_step env b (Ev_register rid) b'"
| unregister: "unregister rid b = (r, b') \<Longrightarrow> broker_step env b (Ev_unregister rid) b'"
| invoke: "invoke_start i tid args ctx b = (r, b') \<Longrightarrow> broker_step env b (Ev_invoke i) b'"
| invoked: "invoke_end i tid b = (r, b') \<Longrightarrow> broker_step env b (Ev_end i) b'"
| poll: "work_begin rid b = (r, b') \<Longrightarrow> broker_step env b (Ev_poll rid) b'"
| drain: "place < length (bk_heap b) \<Longrightarrow> work_take place b = ((calls, events), b') \<Longrightarrow>
    broker_step env b (Ev_drain calls) b'"
| result: "post_result i v b = (r, b') \<Longrightarrow> broker_step env b (Ev_result i) b'"
| event: "post_event env kind payload b = (n, b') \<Longrightarrow> broker_step env b Ev_notify b'"
| plugin_event: "post_plugin_event env pid kind payload b = (n, b') \<Longrightarrow> broker_step env b Ev_notify b'"
| config: "update_config env pid config b = (n, b') \<Longrightarrow> broker_step env b Ev_notify b'"
| task: "dispatch_task env pid tid b = (n, b') \<Longrightarrow> broker_step env b Ev_notify b'"
| service: "invoke_service env now rid pid svc version args b = (v, b') \<Longrightarrow>
    charged = (\<exists>sv b1 b2. negotiated env rid pid svc version b = (Inr sv, b1) \<and>
      consume_quota env now pid svc b1 = (Inr (), b2)) \<Longrightarrow>
    broker_step env b (Ev_service now pid svc charged) b'"
| services: "broker_step env b Ev_services (set_services svs b)"

inductive broker_run :: "broker_env \<Rightarrow> broker \<Rightarrow> broker_event list \<Rightarrow> broker \<Rightarrow> bool" for env where
  start: "broker_run env b [] b"
| step: "broker_run env b evs b1 \<Longrightarrow> broker_step env b1 ev b2 \<Longrightarrow> broker_run env b (evs @ [ev]) b2"

section \<open>Frames\<close>

text \<open>The operations that only send events change nothing but the event queues.\<close>

definition notified :: "broker \<Rightarrow> broker \<Rightarrow> bool" where
  "notified b b' \<longleftrightarrow> bk_runners b' = bk_runners b \<and> bk_tools b' = bk_tools b \<and> bk_pending b' = bk_pending b \<and>
     bk_services b' = bk_services b \<and> bk_calls b' = bk_calls b \<and>
     map brn_plugins (bk_heap b') = map brn_plugins (bk_heap b) \<and>
     map brn_work (bk_heap b') = map brn_work (bk_heap b)"

lemma notified_refl [simp]: "notified b b"
  by (simp add: notified_def)

lemma notified_trans: "notified a b \<Longrightarrow> notified b c \<Longrightarrow> notified a c"
  by (simp add: notified_def)

lemma notified_audit [simp]: "notified b (audit pid reason detail b)"
  by (simp add: notified_def audit_def)

lemma map_update_same: "f y = f (xs ! i) \<Longrightarrow> map f (xs[i := y]) = map f xs"
  by (cases "i < length xs") (auto simp: map_update list_update_same_conv list_update_beyond)

lemma notified_send: "notified b (send_event env kind payload place b)"
  by (simp add: notified_def send_event_def change_runner_def map_update_same)

lemma notified_sends: "notified b (fold (send_event env kind payload) places b)"
proof (induction places arbitrary: b)
  case (Cons p places)
  then show ?case using notified_trans notified_send by (metis fold_simps(2))
qed simp

lemma notified_plugin_event: "post_plugin_event env pid kind payload b = (n, b') \<Longrightarrow> notified b b'"
  by (auto simp: post_plugin_event_def notified_send split: option.splits)

lemma notified_events:
  "post_event env kind payload b = (n, b') \<Longrightarrow> notified b b'"
  "update_config env pid config b = (r, b') \<Longrightarrow> notified b b'"
  "dispatch_task env pid tid b = (r, b') \<Longrightarrow> notified b b'"
  using notified_sends notified_plugin_event
  by (auto simp: post_event_def update_config_def dispatch_task_def Let_def liftp_def
      split: option.splits sum.splits if_splits)
    (metis prod.collapse)+


section \<open>The tool catalog\<close>

text \<open>Every tool of the catalog belongs to a plugin of a connected runner, and no plugin of a
  connected runner asked for more than it was granted.\<close>

definition owned ::
  "(ustr, nat) dict \<Rightarrow> (ustr, plugin_manifest) dict list \<Rightarrow> ustr \<Rightarrow> broker_tool \<Rightarrow> bool" where
  "owned runners plugins tid tool \<longleftrightarrow> ts_id (bt_spec tool) = tid \<and>
     (\<exists>place < length plugins. map_of runners (bt_runner tool) = Some place \<and>
        bt_plugin tool \<in> fst ` set (plugins ! place))"

definition catalog_ok ::
  "broker_env \<Rightarrow> (ustr, nat) dict \<Rightarrow> (ustr, broker_tool) dict \<Rightarrow> (ustr, plugin_manifest) dict list \<Rightarrow> bool" where
  "catalog_ok env runners tools plugins \<longleftrightarrow> dict_wf runners \<and> dict_wf tools \<and>
     (\<forall>(rid, place) \<in> set runners. place < length plugins) \<and>
     (\<forall>(tid, tool) \<in> set tools. owned runners plugins tid tool) \<and>
     (\<forall>ps \<in> set plugins. \<forall>(pid, man) \<in> set ps. pm_id man = pid \<and> excessive env man = {})"

definition catalog_inv :: "broker_env \<Rightarrow> broker \<Rightarrow> bool" where
  "catalog_inv env b \<longleftrightarrow> catalog_ok env (bk_runners b) (bk_tools b) (map brn_plugins (bk_heap b))"

lemma catalog_notified: "catalog_inv env b \<Longrightarrow> notified b b' \<Longrightarrow> catalog_inv env b'"
  by (simp add: catalog_inv_def notified_def)

lemma set_update_subset: "set (AList.update k v d) \<subseteq> insert (k, v) (set d)"
  by (induction d) auto

lemma set_delete_subset: "set (AList.delete k d) \<subseteq> set d"
  by (induction d) auto

lemma check_manifest_ok:
  "check_manifest env raw b = (r, b') \<Longrightarrow>
    bk_runners b' = bk_runners b \<and> bk_tools b' = bk_tools b \<and> bk_heap b' = bk_heap b \<and> bk_calls b' = bk_calls b \<and>
    (\<forall>man. r = Inr man \<longrightarrow> excessive env man = {})"
  by (auto simp: check_manifest_def audit_def split: sum.splits option.splits if_splits)

lemma check_manifests_ok:
  "check_manifests env raws b = (r, b') \<Longrightarrow>
    bk_runners b' = bk_runners b \<and> bk_tools b' = bk_tools b \<and> bk_heap b' = bk_heap b \<and> bk_calls b' = bk_calls b \<and>
    (\<forall>mans. r = Inr mans \<longrightarrow> (\<forall>man \<in> set mans. excessive env man = {}))"
proof (induction raws arbitrary: b r b')
  case (Cons raw raws)
  from Cons.prems show ?case
    unfolding check_manifests.simps
    by (auto elim!: bindp_cases dest!: check_manifest_ok Cons.IH)
qed simp

lemma owned_adopt:
  assumes "owned runners plugins tid tool"
  shows "owned runners (plugins[place := AList.update k man (plugins ! place)]) tid tool"
proof -
  obtain q where q: "q < length plugins" "map_of runners (bt_runner tool) = Some q"
      "bt_plugin tool \<in> fst ` set (plugins ! q)" "ts_id (bt_spec tool) = tid"
    using assms by (auto simp: owned_def)
  have "bt_plugin tool \<in> fst ` set (plugins[place := AList.update k man (plugins ! place)] ! q)"
    using q by (cases "q = place") (auto simp: keys_update)
  with q show ?thesis by (auto simp: owned_def)
qed

lemma adopt_tools:
  assumes "dict_wf tools" and "\<forall>(tid, tool) \<in> set tools. P tid tool"
    and "\<forall>spec \<in> set specs. P (ts_id spec) (g spec)"
  shows "dict_wf (fold (\<lambda>spec. AList.update (ts_id spec) (g spec)) specs tools) \<and>
    (\<forall>(tid, tool) \<in> set (fold (\<lambda>spec. AList.update (ts_id spec) (g spec)) specs tools). P tid tool)"
  using assms
proof (induction specs arbitrary: tools)
  case (Cons spec specs)
  have "\<forall>(tid, tool) \<in> set (AList.update (ts_id spec) (g spec) tools). P tid tool"
    using Cons.prems(2,3) set_update_subset [of "ts_id spec" "g spec" tools] by fastforce
  from Cons.IH [OF dict_wf_update [OF Cons.prems(1)] this] Cons.prems(3) show ?case by simp
qed simp

lemma adopt_inv:
  assumes "catalog_inv env b" and "map_of (bk_runners b) rid = Some place" and "excessive env man = {}"
  shows "catalog_inv env (adopt rid man b)" and "bk_runners (adopt rid man b) = bk_runners b"
proof -
  let ?plugins = "map brn_plugins (bk_heap b)"
  let ?new = "?plugins[place := AList.update (pm_id man) man (?plugins ! place)]"
  have ok: "catalog_ok env (bk_runners b) (bk_tools b) ?plugins" using assms(1) by (simp add: catalog_inv_def)
  have place: "place < length ?plugins"
    using ok assms(2) by (auto simp: catalog_ok_def dest!: map_of_SomeD)
  have heap: "map brn_plugins (bk_heap (adopt rid man b)) = ?new"
    using assms(2) place by (simp add: adopt_def Let_def change_runner_def map_update)
  show "bk_runners (adopt rid man b) = bk_runners b"
    by (simp add: adopt_def Let_def change_runner_def)
  moreover have "dict_wf (bk_tools (adopt rid man b)) \<and>
      (\<forall>(tid, tool) \<in> set (bk_tools (adopt rid man b)). owned (bk_runners b) ?new tid tool)"
  proof -
    have "owned (bk_runners b) ?new (ts_id spec) \<lparr>bt_plugin = pm_id man, bt_runner = rid, bt_spec = spec\<rparr>" for spec
      using assms(2) place by (auto simp: owned_def keys_update)
    moreover have "\<forall>(tid, tool) \<in> set (bk_tools b). owned (bk_runners b) ?new tid tool"
      using ok owned_adopt unfolding catalog_ok_def by fastforce
    ultimately show ?thesis
      using ok adopt_tools [of "bk_tools b" "owned (bk_runners b) ?new" "pm_tools man"
          "\<lambda>spec. \<lparr>bt_plugin = pm_id man, bt_runner = rid, bt_spec = spec\<rparr>"]
      by (simp add: adopt_def Let_def catalog_ok_def)
  qed
  moreover have "\<forall>ps \<in> set ?new. \<forall>(pid, m) \<in> set ps. pm_id m = pid \<and> excessive env m = {}"
  proof
    fix ps assume "ps \<in> set ?new"
    then have "ps \<in> set ?plugins \<or> ps = AList.update (pm_id man) man (?plugins ! place)"
      using set_update_subset_insert by fastforce
    then show "\<forall>(pid, m) \<in> set ps. pm_id m = pid \<and> excessive env m = {}"
    proof
      assume "ps \<in> set ?plugins"
      then show ?thesis using ok unfolding catalog_ok_def by blast
    next
      assume ps: "ps = AList.update (pm_id man) man (?plugins ! place)"
      have "?plugins ! place \<in> set ?plugins" using place by (rule nth_mem)
      then have "\<forall>(pid, m) \<in> set (?plugins ! place). pm_id m = pid \<and> excessive env m = {}"
        using ok unfolding catalog_ok_def by blast
      then show ?thesis
        using ps set_update_subset [of "pm_id man" man "?plugins ! place"] assms(3) by fastforce
    qed
  qed
  ultimately show "catalog_inv env (adopt rid man b)"
    using ok unfolding catalog_inv_def catalog_ok_def heap by simp
qed

lemma adopts_inv:
  "catalog_inv env b \<Longrightarrow> map_of (bk_runners b) rid = Some place \<Longrightarrow> \<forall>man \<in> set mans. excessive env man = {} \<Longrightarrow>
    catalog_inv env (fold (adopt rid) mans b)"
  by (induction mans arbitrary: b) (auto simp: adopt_inv)

lemma connect_inv:
  assumes "catalog_inv env b" and "\<forall>man \<in> set mans. excessive env man = {}"
  shows "catalog_inv env (connect rid protocol mans b)"
proof -
  define tools where "tools = (if map_of (bk_runners b) rid = None then bk_tools b else foreign_tools rid (bk_tools b))"
  let ?fresh = "\<lparr>brn_id = rid, brn_protocol = protocol, brn_plugins = [], brn_work = [], brn_events = []\<rparr>"
  let ?b = "b\<lparr>bk_tools := tools, bk_heap := bk_heap b @ [?fresh],
    bk_runners := AList.update rid (length (bk_heap b)) (bk_runners b)\<rparr>"
  have ok: "catalog_ok env (bk_runners b) (bk_tools b) (map brn_plugins (bk_heap b))"
    using assms(1) by (simp add: catalog_inv_def)
  have tools: "set tools \<subseteq> {(tid, tool) \<in> set (bk_tools b). bt_runner tool \<noteq> rid}"
  proof (cases "map_of (bk_runners b) rid")
    case None
    then show ?thesis using ok by (auto simp: tools_def catalog_ok_def owned_def)
  next
    case (Some place)
    then show ?thesis by (auto simp: tools_def foreign_tools_def)
  qed
  have wf: "dict_wf tools"
    using ok by (auto simp: tools_def foreign_tools_def catalog_ok_def dict_wf_def distinct_map_filter)
  have "owned (AList.update rid (length (bk_heap b)) (bk_runners b)) (map brn_plugins (bk_heap b) @ [[]]) tid tool"
    if "(tid, tool) \<in> set tools" for tid tool
  proof -
    have "owned (bk_runners b) (map brn_plugins (bk_heap b)) tid tool" "bt_runner tool \<noteq> rid"
      using subsetD [OF tools that] ok by (auto simp: catalog_ok_def)
    then obtain q where "q < length (bk_heap b)" "map_of (bk_runners b) (bt_runner tool) = Some q"
        "bt_plugin tool \<in> fst ` set (map brn_plugins (bk_heap b) ! q)" "ts_id (bt_spec tool) = tid"
      unfolding owned_def by (elim conjE exE) (simp del: nth_map)
    with \<open>bt_runner tool \<noteq> rid\<close> show ?thesis
      unfolding owned_def by (intro conjI exI [of _ q]) (simp_all add: dict_simps nth_append)
  qed
  moreover have "place < Suc (length (bk_heap b))"
    if "(q, place) \<in> set (AList.update rid (length (bk_heap b)) (bk_runners b))" for q place
  proof -
    have "(q, place) = (rid, length (bk_heap b)) \<or> (q, place) \<in> set (bk_runners b)"
      using that set_update_subset [of rid "length (bk_heap b)" "bk_runners b"] by blast
    then show ?thesis using ok by (auto simp: catalog_ok_def)
  qed
  ultimately have "catalog_inv env ?b"
    using ok wf by (auto simp: catalog_inv_def catalog_ok_def)
  moreover have "map_of (bk_runners ?b) rid = Some (length (bk_heap b))" by (simp add: dict_simps)
  ultimately show ?thesis
    using adopts_inv assms(2) unfolding connect_def Let_def tools_def [symmetric] by blast
qed

lemma register_inv: "register env rid raws protocol b = (r, b') \<Longrightarrow> catalog_inv env b \<Longrightarrow> catalog_inv env b'"
proof (cases "protocol \<noteq> 1 \<and> protocol \<noteq> 2")
  case False
  assume reg: "register env rid raws protocol b = (r, b')" and inv: "catalog_inv env b"
  obtain r1 b1 where check: "check_manifests env raws b = (r1, b1)" by fastforce
  have inv1: "catalog_inv env b1" using check_manifests_ok [OF check] inv by (simp add: catalog_inv_def)
  show ?thesis
  proof (cases r1)
    case (Inl e)
    then show ?thesis using reg False check inv1 by (auto simp: register_def bindp_def)
  next
    case (Inr mans)
    then show ?thesis
      using reg False check inv1 check_manifests_ok [OF check] connect_inv
      by (auto simp: register_def bindp_def)
  qed
qed (auto simp: register_def)

lemma unregister_inv: "unregister rid b = (r, b') \<Longrightarrow> catalog_inv env b \<Longrightarrow> catalog_inv env b'"
proof (cases "runner_of b rid")
  case None
  assume "unregister rid b = (r, b')" "catalog_inv env b"
  then show ?thesis using None by (simp add: unregister_def)
next
  case (Some state)
  assume un: "unregister rid b = (r, b')" and inv: "catalog_inv env b"
  have ok: "catalog_ok env (bk_runners b) (bk_tools b) (map brn_plugins (bk_heap b))"
    using inv by (simp add: catalog_inv_def)
  have "set (AList.delete rid (bk_runners b)) \<subseteq> set (bk_runners b)" by (rule set_delete_subset)
  moreover have "owned (AList.delete rid (bk_runners b)) (map brn_plugins (bk_heap b)) tid tool"
    if "(tid, tool) \<in> set (foreign_tools rid (bk_tools b))" for tid tool
    using that ok by (fastforce simp: foreign_tools_def catalog_ok_def owned_def dict_simps)
  moreover have "dict_wf (foreign_tools rid (bk_tools b))"
    using ok by (simp add: catalog_ok_def foreign_tools_def dict_wf_def distinct_map_filter)
  moreover have "dict_wf (AList.delete rid (bk_runners b))" using ok by (simp add: catalog_ok_def)
  ultimately have "catalog_ok env (AList.delete rid (bk_runners b)) (foreign_tools rid (bk_tools b)) (map brn_plugins (bk_heap b))"
    using ok unfolding catalog_ok_def by blast
  then show ?thesis using un Some by (auto simp: unregister_def catalog_inv_def)
qed

lemma invoke_start_heap: "invoke_start i tid args ctx b = (r, b') \<Longrightarrow>
    bk_runners b' = bk_runners b \<and> bk_tools b' = bk_tools b \<and> bk_calls b' = bk_calls b \<and>
    map brn_plugins (bk_heap b') = map brn_plugins (bk_heap b)"
  by (auto simp: invoke_start_def change_runner_def map_update_same split: option.splits)

lemma invoke_service_frame: "invoke_service env now rid pid svc version args b = (r, b') \<Longrightarrow>
    bk_runners b' = bk_runners b \<and> bk_tools b' = bk_tools b \<and> bk_heap b' = bk_heap b"
  by (auto simp: invoke_service_def negotiated_def consume_quota_def audit_def Let_def
      elim!: bindp_cases split: option.splits sum.splits if_splits bool.splits)

lemma broker_step_catalog: "broker_step env b ev b' \<Longrightarrow> catalog_inv env b \<Longrightarrow> catalog_inv env b'"
proof (induction rule: broker_step.induct)
  case (register rid raws protocol b r b')
  then show ?case using register_inv by blast
next
  case (unregister rid b r b')
  then show ?case using unregister_inv by blast
next
  case (invoke i tid args ctx b r b')
  then show ?case using invoke_start_heap [OF invoke.hyps] by (simp add: catalog_inv_def)
next
  case (service now rid pid svc version args b v b' charged)
  then show ?case using invoke_service_frame [OF service.hyps(1)] by (simp add: catalog_inv_def)
qed (auto simp: catalog_inv_def invoke_end_def work_begin_def work_take_def change_runner_def map_update_same
    post_result_def set_services_def dest: notified_events notified_plugin_event
    split: option.splits elim!: catalog_notified [unfolded catalog_inv_def])


lemma broker_run_catalog: "broker_run env b evs b' \<Longrightarrow> catalog_inv env b \<Longrightarrow> catalog_inv env b'"
  by (induction rule: broker_run.induct) (blast dest: broker_step_catalog)+

lemma new_broker_inv: "catalog_inv env (new_broker svs)"
  by (simp add: catalog_inv_def catalog_ok_def new_broker_def)

section \<open>Handing invocations over\<close>

definition queued :: "broker \<Rightarrow> ustr multiset" where
  "queued b = sum_list (map (\<lambda>r. mset (map bc_id (brn_work r))) (bk_heap b))"

fun handed :: "broker_event \<Rightarrow> ustr multiset" where
  "handed (Ev_drain calls) = mset (map bc_id calls)"
| "handed _ = {#}"

fun started :: "broker_event \<Rightarrow> ustr multiset" where
  "started (Ev_invoke i) = {#i#}"
| "started _ = {#}"

lemma sum_list_replace:
  "i < length xs \<Longrightarrow> sum_list (xs[i := y]) + xs ! i = sum_list xs + (y :: 'a multiset)"
proof (induction xs arbitrary: i)
  case (Cons x xs)
  then show ?case by (cases i) (auto simp: ac_simps)
qed simp

lemma queued_change:
  assumes "place < length (bk_heap b)"
  shows "queued (change_runner place f b) + mset (map bc_id (brn_work (bk_heap b ! place)))
    = queued b + mset (map bc_id (brn_work (f (bk_heap b ! place))))"
  using sum_list_replace [of place "map (\<lambda>r. mset (map bc_id (brn_work r))) (bk_heap b)"] assms
  by (simp add: queued_def change_runner_def map_update)

lemma queued_notified: "notified b b' \<Longrightarrow> queued b' = queued b"
proof -
  assume "notified b b'"
  then have "map (\<lambda>ws. mset (map bc_id ws)) (map brn_work (bk_heap b')) = map (\<lambda>ws. mset (map bc_id ws)) (map brn_work (bk_heap b))"
    by (simp add: notified_def)
  then show ?thesis by (simp add: queued_def comp_def)
qed

lemma queued_adopt: "queued (adopt rid man b) = queued b"
proof -
  let ?f = "\<lambda>r. r\<lparr>brn_plugins := AList.update (pm_id man) man (brn_plugins r)\<rparr>"
  have "map brn_work ((bk_heap b)[place := ?f (bk_heap b ! place)]) = map brn_work (bk_heap b)" for place
    by (rule map_update_same) simp
  from arg_cong [OF this, of "map (\<lambda>ws. mset (map bc_id ws))"] show ?thesis
    by (simp add: adopt_def Let_def change_runner_def queued_def comp_def)
qed

lemma queued_adopts: "queued (fold (adopt rid) mans b) = queued b"
  by (induction mans arbitrary: b) (simp_all add: queued_adopt)

lemma queued_connect: "queued (connect rid protocol mans b) = queued b"
  unfolding connect_def Let_def queued_adopts by (simp add: queued_def)

lemma queued_register: "register env rid raws protocol b = (r, b') \<Longrightarrow> queued b' = queued b"
proof -
  assume reg: "register env rid raws protocol b = (r, b')"
  obtain r1 c where check: "check_manifests env raws b = (r1, c)" by fastforce
  have "queued c = queued b" using check_manifests_ok [OF check] by (simp add: queued_def)
  with reg check show ?thesis
    by (cases r1) (auto simp: register_def bindp_def queued_connect split: if_splits)
qed

lemma broker_step_queued:
  "broker_step env b ev b' \<Longrightarrow> catalog_inv env b \<Longrightarrow>
    handed ev + queued b' \<subseteq># queued b + started ev"
proof (induction rule: broker_step.induct)
  case (register rid raws protocol b r b')
  then show ?case using queued_register by simp
next
  case (invoke i tid args ctx b r b')
  then show ?case
  proof (cases r)
    case (Inl e)
    then have "b' = b" using invoke.hyps by (auto simp: invoke_start_def split: option.splits)
    then show ?thesis by simp
  next
    case (Inr i')
    let ?call = "\<lparr>bc_id = i, bc_tool = tid, bc_arguments = args, bc_context = ctx\<rparr>"
    from invoke.hyps Inr obtain tool where tool: "map_of (bk_tools b) tid = Some tool"
      by (auto simp: invoke_start_def split: option.splits)
    with invoke.hyps Inr obtain place where place: "map_of (bk_runners b) (bt_runner tool) = Some place"
      and b': "b' = change_runner place (\<lambda>r. r\<lparr>brn_work := brn_work r @ [?call]\<rparr>) (b\<lparr>bk_pending := AList.update i None (bk_pending b)\<rparr>)"
      by (auto simp: invoke_start_def split: option.splits)
    have "place < length (bk_heap b)"
      using place invoke.prems by (auto simp: catalog_inv_def catalog_ok_def dest!: map_of_SomeD)
    then have "queued b' = queued b + {#i#}"
      using queued_change [of place "b\<lparr>bk_pending := AList.update i None (bk_pending b)\<rparr>"
          "\<lambda>r. r\<lparr>brn_work := brn_work r @ [?call]\<rparr>"]
      by (simp add: b' queued_def)
    then show ?thesis by simp
  qed
next
  case (drain place b calls events b')
  then show ?case
    using queued_change [of place b "\<lambda>r. r\<lparr>brn_work := [], brn_events := []\<rparr>"]
    by (simp add: work_take_def add.commute)
next
  case (service now rid pid svc version args b v b' charged)
  then show ?case using invoke_service_frame [OF service.hyps(1)] by (simp add: queued_def)
next
  case (unregister rid b r b')
  then show ?case by (auto simp: unregister_def queued_def split: option.splits)
next
  case (invoked i tid b r b')
  then show ?case by (auto simp: invoke_end_def queued_def)
next
  case (poll rid b r b')
  then show ?case by (auto simp: work_begin_def split: option.splits)
next
  case (result i v b r b')
  then show ?case by (auto simp: post_result_def queued_def split: option.splits)
next
  case (event kind payload b n b')
  then show ?case using queued_notified [OF notified_events(1)] by simp
next
  case (plugin_event pid kind payload b n b')
  then show ?case using queued_notified [OF notified_plugin_event] by simp
next
  case (config pid config b n b')
  then show ?case using queued_notified [OF notified_events(2)] by simp
next
  case (task pid tid b n b')
  then show ?case using queued_notified [OF notified_events(3)] by simp
next
  case (services b svs)
  then show ?case by (simp add: set_services_def queued_def)
qed

lemma broker_run_queued:
  assumes "broker_run env b evs b'" and "catalog_inv env b"
  shows "sum_list (map handed evs) + queued b' \<subseteq># queued b + sum_list (map started evs)"
  using assms
proof (induction rule: broker_run.induct)
  case (step b evs b1 ev b2)
  have "handed ev + queued b2 \<subseteq># queued b1 + started ev"
    using broker_step_queued step.hyps(2) broker_run_catalog step.hyps(1) step.prems by blast
  then have "sum_list (map handed evs) + (handed ev + queued b2) \<subseteq># sum_list (map handed evs) + (queued b1 + started ev)"
    by (rule subset_mset.add_left_mono)
  also have "\<dots> \<subseteq># queued b + sum_list (map started evs) + started ev"
    using step.IH [OF step.prems] by (simp add: add.assoc [symmetric])
  finally show ?case by (simp add: add.assoc)
qed simp

section \<open>The quota of a service\<close>

fun service_time :: "broker_event \<Rightarrow> real list" where
  "service_time (Ev_service now pid svc charged) = [now]"
| "service_time _ = []"

fun charged_at :: "ustr \<times> ustr \<Rightarrow> broker_event \<Rightarrow> real list" where
  "charged_at key (Ev_service now pid svc charged) = (if charged \<and> (pid, svc) = key then [now] else [])"
| "charged_at key _ = []"

definition calls_of :: "ustr \<times> ustr \<Rightarrow> broker \<Rightarrow> real list" where
  "calls_of key b = dict_get (bk_calls b) key []"

definition recent :: "real \<Rightarrow> real list \<Rightarrow> real list" where
  "recent now calls = dropWhile (\<lambda>t. now - t \<ge> service_window) calls"

text \<open>\<open>acc\<close> holds the times of the accepted calls, the last of them in \<open>calls\<close>.\<close>

definition quota_inv :: "nat \<Rightarrow> real \<Rightarrow> real list \<Rightarrow> real list \<Rightarrow> bool" where
  "quota_inv quota now acc calls \<longleftrightarrow>
     (\<exists>old. acc = old @ calls \<and> (\<forall>x \<in> set old. now - x \<ge> service_window)) \<and>
     (\<forall>t. length (filter (\<lambda>x. t \<le> x \<and> x < t + service_window) acc) \<le> quota)"

lemma quota_inv_later: "quota_inv quota now acc calls \<Longrightarrow> now \<le> now' \<Longrightarrow> quota_inv quota now' acc calls"
  unfolding quota_inv_def by (metis diff_right_mono order_trans)

lemma quota_inv_recent: "quota_inv quota now acc calls \<Longrightarrow> quota_inv quota now acc (recent now calls)"
proof -
  assume inv: "quota_inv quota now acc calls"
  then obtain old where old: "acc = old @ calls" "\<forall>x \<in> set old. now - x \<ge> service_window"
    by (auto simp: quota_inv_def)
  let ?gone = "takeWhile (\<lambda>t. now - t \<ge> service_window) calls"
  have "acc = (old @ ?gone) @ recent now calls" using old(1) by (simp add: recent_def)
  moreover have "\<forall>x \<in> set (old @ ?gone). now - x \<ge> service_window" using old(2) by (auto dest: set_takeWhileD)
  ultimately show ?thesis using inv unfolding quota_inv_def by blast
qed

lemma quota_inv_charge:
  assumes inv: "quota_inv quota now acc calls" and less: "length calls < quota"
  shows "quota_inv quota now (acc @ [now]) (calls @ [now])"
proof -
  obtain old where old: "acc = old @ calls" "\<forall>x \<in> set old. now - x \<ge> service_window"
    using inv by (auto simp: quota_inv_def)
  have "length (filter (\<lambda>x. t \<le> x \<and> x < t + service_window) (acc @ [now])) \<le> quota" for t
  proof (cases "t \<le> now \<and> now < t + service_window")
    case True
    have "filter (\<lambda>x. t \<le> x \<and> x < t + service_window) old = []"
      using old(2) True by (auto simp: filter_empty_conv)
    then have "length (filter (\<lambda>x. t \<le> x \<and> x < t + service_window) acc) \<le> length calls"
      using old(1) by simp
    then show ?thesis using less by simp
  next
    case False
    then show ?thesis using inv by (auto simp: quota_inv_def)
  qed
  then show ?thesis using old unfolding quota_inv_def by (intro conjI exI [of _ old]) auto
qed

lemma negotiated_calls: "negotiated env rid pid svc version b = (r, b') \<Longrightarrow> bk_calls b' = bk_calls b"
  by (auto simp: negotiated_def audit_def split: option.splits sum.splits if_splits bool.splits)

lemma consume_calls:
  assumes "consume_quota env now pid svc b = (r, b')"
  shows "calls_of key b' = (if key = (pid, svc)
      then recent now (calls_of key b) @ (if r = Inr () then [now] else []) else calls_of key b)"
    and "r = Inr () \<longleftrightarrow> length (recent now (calls_of (pid, svc) b)) < be_quota env"
  using assms
  by (auto simp: consume_quota_def calls_of_def recent_def audit_def Let_def dict_simps split: if_splits)

lemma service_calls:
  assumes "invoke_service env now rid pid svc version args b = (r, b')"
    and "charged = (\<exists>sv b1 b2. negotiated env rid pid svc version b = (Inr sv, b1) \<and>
      consume_quota env now pid svc b1 = (Inr (), b2))"
  shows "if charged then length (recent now (calls_of (pid, svc) b)) < be_quota env \<and>
      calls_of key b' = (if key = (pid, svc) then recent now (calls_of key b) @ [now] else calls_of key b)
    else calls_of key b' = calls_of key b \<or> key = (pid, svc) \<and> calls_of key b' = recent now (calls_of key b)"
proof -
  obtain r1 b1 where neg: "negotiated env rid pid svc version b = (r1, b1)" by fastforce
  have same: "calls_of k b1 = calls_of k b" for k using negotiated_calls [OF neg] by (simp add: calls_of_def)
  show ?thesis
  proof (cases r1)
    case (Inl e)
    then show ?thesis using assms neg same by (simp add: invoke_service_def bindp_def)
  next
    case (Inr sv)
    obtain r2 b2 where con: "consume_quota env now pid svc b1 = (r2, b2)" by fastforce
    have charged: "charged \<longleftrightarrow> r2 = Inr ()" using assms(2) neg Inr con by auto
    have "calls_of key b' = calls_of key b2"
      using assms(1) neg Inr con by (auto simp: invoke_service_def bindp_def calls_of_def audit_def split: sum.splits)
    then show ?thesis using consume_calls [OF con] same charged by auto
  qed
qed

lemma adopts_calls: "bk_calls (fold (adopt rid) mans b) = bk_calls b"
  by (induction mans arbitrary: b) (simp_all add: adopt_def Let_def change_runner_def)

lemma register_calls: "register env rid raws protocol b = (r, b') \<Longrightarrow> bk_calls b' = bk_calls b"
proof -
  assume reg: "register env rid raws protocol b = (r, b')"
  obtain r1 c where check: "check_manifests env raws b = (r1, c)" by fastforce
  have "bk_calls (connect rid protocol mans c) = bk_calls c" for mans
    by (simp add: connect_def Let_def adopts_calls)
  then show ?thesis
    using reg check check_manifests_ok [OF check]
    by (cases r1) (auto simp: register_def bindp_def split: if_splits)
qed

lemma notified_calls: "notified b b' \<Longrightarrow> bk_calls b' = bk_calls b"
  by (simp add: notified_def)

lemma broker_step_calls:
  "broker_step env b ev b' \<Longrightarrow> service_time ev = [] \<Longrightarrow> bk_calls b' = bk_calls b"
proof (induction rule: broker_step.induct)
  case (register rid raws protocol b r b')
  then show ?case using register_calls by blast
next
  case (invoke i tid args ctx b r b')
  then show ?case using invoke_start_heap by blast
qed (auto simp: unregister_def invoke_end_def work_begin_def work_take_def change_runner_def post_result_def
    set_services_def dest: notified_events [THEN notified_calls] notified_plugin_event [THEN notified_calls]
    split: option.splits)

lemma broker_step_quota:
  assumes "broker_step env b ev b'" and "quota_inv (be_quota env) now acc (calls_of key b)"
    and "\<forall>t \<in> set (service_time ev). now \<le> t"
  shows "quota_inv (be_quota env) (last (now # service_time ev)) (acc @ charged_at key ev) (calls_of key b')"
proof (cases "service_time ev = []")
  case True
  then have "charged_at key ev = []" by (cases ev) auto
  then show ?thesis using assms(2) broker_step_calls [OF assms(1) True] True by (simp add: calls_of_def)
next
  case False
  from assms(1) False show ?thesis
  proof (cases rule: broker_step.cases)
    case (service t rid pid svc version args v charged)
    have inv: "quota_inv (be_quota env) t acc (calls_of key b)"
      using quota_inv_later [OF assms(2)] assms(3) service(1) by simp
    from service_calls [OF service(2,3), of key] quota_inv_recent [OF inv] inv quota_inv_charge service(1)
    show ?thesis by (auto split: if_splits)
  qed auto
qed

lemma broker_run_quota:
  assumes "broker_run env b evs b'" and "sorted (concat (map service_time evs))"
    and "quota_inv (be_quota env) now [] (calls_of key b)" and "\<forall>t \<in> set (concat (map service_time evs)). now \<le> t"
  shows "quota_inv (be_quota env) (last (now # concat (map service_time evs)))
    (concat (map (charged_at key) evs)) (calls_of key b')"
  using assms
proof (induction rule: broker_run.induct)
  case (step b evs b1 ev b2)
  let ?ts = "concat (map service_time evs)"
  have inv: "quota_inv (be_quota env) (last (now # ?ts)) (concat (map (charged_at key) evs)) (calls_of key b1)"
    using step.IH step.prems by (simp add: sorted_append)
  have "last (now # ?ts) \<le> t" if "t \<in> set (service_time ev)" for t
    using step.prems that last_in_set [of "now # ?ts"] by (auto simp: sorted_append split: if_splits)
  from broker_step_quota [OF step.hyps(2) inv] this
  show ?case by (cases "service_time ev" rule: rev_cases) (auto split: if_splits)
qed simp

section \<open>Properties\<close>

text \<open>
  C25: the tool catalog is sound. After any run of the broker, a tool of the catalog belongs
  to a plugin that its connected runner registered and that asked for no capability beyond its
  grants, and invoking it always queues the invocation: the answer that the runner is not
  connected never occurs.
\<close>

theorem catalog_tools_invocable:
  assumes "broker_run env (new_broker svs) evs b" and "map_of (bk_tools b) tid = Some tool"
  shows "(\<exists>b'. invoke_start i tid args ctx b = (Inr i, b')) \<and> ts_id (bt_spec tool) = tid \<and>
    (\<exists>r man. runner_of b (bt_runner tool) = Some r \<and> map_of (brn_plugins r) (bt_plugin tool) = Some man \<and>
       set (pm_requested man) \<subseteq> set (granted env (bt_plugin tool)))"
proof -
  have "catalog_inv env b" using broker_run_catalog [OF assms(1) new_broker_inv] .
  then have ok: "catalog_ok env (bk_runners b) (bk_tools b) (map brn_plugins (bk_heap b))"
    by (simp add: catalog_inv_def)
  then have "owned (bk_runners b) (map brn_plugins (bk_heap b)) tid tool"
    using assms(2) by (auto simp: catalog_ok_def dest: map_of_SomeD)
  then obtain place where id: "ts_id (bt_spec tool) = tid" and place: "place < length (bk_heap b)"
      "map_of (bk_runners b) (bt_runner tool) = Some place"
      "bt_plugin tool \<in> fst ` set (brn_plugins (bk_heap b ! place))"
    unfolding owned_def by (elim conjE exE) simp
  obtain man where man: "map_of (brn_plugins (bk_heap b ! place)) (bt_plugin tool) = Some man"
    using place(3) by (metis map_of_eq_None_iff not_Some_eq)
  have "bk_heap b ! place \<in> set (bk_heap b)" using place(1) by (rule nth_mem)
  then have "pm_id man = bt_plugin tool \<and> excessive env man = {}"
    using ok map_of_SomeD [OF man] unfolding catalog_ok_def by fastforce
  then have "set (pm_requested man) \<subseteq> set (granted env (bt_plugin tool))" by (auto simp: excessive_def)
  moreover have "\<exists>b'. invoke_start i tid args ctx b = (Inr i, b')"
    using assms(2) place(2) by (simp add: invoke_start_def)
  ultimately show ?thesis using id place(2) man by (simp add: runner_of_def)
qed

definition demo_spec_of :: "string \<Rightarrow> tool_spec" where
  "demo_spec_of name = \<lparr>ts_id = lit name, ts_description = lit ''d'', ts_input_schema = [], ts_read_only = True,
     ts_idempotent = True, ts_risk = NONE, ts_capabilities = [], ts_approval_required = False\<rparr>"

definition demo_manifest :: plugin_manifest where
  "demo_manifest = \<lparr>pm_id = lit ''x.p'', pm_version = lit ''1.0.0'', pm_event_hooks = [], pm_tools = [demo_spec_of ''roll''],
     pm_tasks = [], pm_config_schema = [], pm_requested = [lit ''cap''], pm_requires = [(lit ''sv'', FStr (lit ''1''))]\<rparr>"

definition demo_service :: plugin_service where
  "demo_service = \<lparr>ps_name = lit ''sv'', ps_version = 1, ps_capability = lit ''cap'', ps_handler = (\<lambda>_ args. Inr args)\<rparr>"

definition demo_broker_env :: broker_env where
  "demo_broker_env = \<lparr>be_grants = [(lit ''x.p'', [lit ''cap''])], be_quota = 1, be_validate = (\<lambda>_. Inr demo_manifest),
     be_list_str = concat, be_str = (\<lambda>_. [])\<rparr>"

definition demo_registered :: broker where
  "demo_registered = snd (register demo_broker_env (lit ''r'') [JNull] 2 (new_broker [demo_service]))"

lemma supports_one: "supports_version (lit ''1'') 1 = Inr True"
  by (simp add: supports_version_def strip_id py_space_def str_simps digit_char_def decimal_value_def
      decimal_zeros_def)

lemma demo_check: "check_manifests demo_broker_env [JNull] (new_broker [demo_service]) = (Inr [demo_manifest], new_broker [demo_service])"
proof -
  have sv: "bk_services (new_broker [demo_service]) = [(lit ''sv'', demo_service)]"
    by (simp add: new_broker_def services_dict_def) (simp add: demo_service_def)
  have "excessive demo_broker_env demo_manifest = {}"
    by (simp add: excessive_def granted_def dict_get_def demo_manifest_def demo_broker_env_def)
  moreover have "required_detail [(lit ''sv'', demo_service)] demo_manifest (pm_requires demo_manifest) = Inr None"
    using supports_one by (simp add: demo_manifest_def demo_service_def)
  moreover have "be_validate demo_broker_env JNull = Inr demo_manifest" by (simp add: demo_broker_env_def)
  ultimately have "check_manifest demo_broker_env JNull (new_broker [demo_service]) = (Inr demo_manifest, new_broker [demo_service])"
    by (simp add: check_manifest_def sv)
  then show ?thesis by (simp add: bindp_def)
qed

lemma demo_register: "register demo_broker_env (lit ''r'') [JNull] 2 (new_broker [demo_service])
    = (Inr [lit ''x.p''], connect (lit ''r'') 2 [demo_manifest] (new_broker [demo_service]))"
  unfolding register_def bindp_def demo_check by (simp del: check_manifests.simps add: demo_check) (simp add: demo_manifest_def)

lemma demo_registered_eq: "demo_registered = (new_broker [demo_service])\<lparr>
    bk_runners := [(lit ''r'', 0)],
    bk_heap := [\<lparr>brn_id = lit ''r'', brn_protocol = 2, brn_plugins = [(lit ''x.p'', demo_manifest)], brn_work = [], brn_events = []\<rparr>],
    bk_tools := [(lit ''roll'', \<lparr>bt_plugin = lit ''x.p'', bt_runner = lit ''r'', bt_spec = demo_spec_of ''roll''\<rparr>)]\<rparr>"
proof -
  have ids: "pm_id demo_manifest = lit ''x.p''" "pm_tools demo_manifest = [demo_spec_of ''roll'']"
      "ts_id (demo_spec_of ''roll'') = lit ''roll''"
    by (simp_all add: demo_manifest_def demo_spec_of_def)
  show ?thesis
    unfolding demo_registered_def demo_register
    by (simp add: connect_def adopt_def change_runner_def ids new_broker_def)
qed

lemma demo_broker_run: "broker_run demo_broker_env (new_broker [demo_service]) [Ev_register (lit ''r'')] demo_registered"
  using broker_run.step [OF broker_run.start broker_step.register [OF demo_register]] by (simp add: demo_registered_def demo_register)

theorem catalog_tools_invocable_witness:
  "\<exists>b'. invoke_start (lit ''i'') (lit ''roll'') [] [] demo_registered = (Inr (lit ''i''), b')"
proof -
  have "map_of (bk_tools demo_registered) (lit ''roll'') = Some \<lparr>bt_plugin = lit ''x.p'', bt_runner = lit ''r'', bt_spec = demo_spec_of ''roll''\<rparr>"
    by (simp add: demo_registered_eq)
  from catalog_tools_invocable [OF demo_broker_run this] show ?thesis by blast
qed

text \<open>
  C26: an invocation is handed to a runner at most once. Over any run of the broker, with runners
  registering anew, disconnecting and polling in any order, every id is handed out at most as
  often as it was invoked (once, since ids are fresh).
\<close>

theorem invocations_handed_once:
  assumes "broker_run env (new_broker svs) evs b"
  shows "count (sum_list (map handed evs)) i \<le> count (sum_list (map started evs)) i"
proof -
  have "queued (new_broker svs) = {#}" by (simp add: queued_def new_broker_def)
  with broker_run_queued [OF assms new_broker_inv]
  have "sum_list (map handed evs) + queued b \<subseteq># sum_list (map started evs)" by simp
  then have "sum_list (map handed evs) \<subseteq># sum_list (map started evs)"
    by (metis mset_subset_eq_add_left subset_mset.order_trans)
  then show ?thesis by (rule mset_subset_eq_count)
qed

theorem invocations_handed_once_witness:
  "\<exists>b calls. broker_run demo_broker_env (new_broker [demo_service])
      [Ev_register (lit ''r''), Ev_invoke (lit ''i''), Ev_drain calls] b \<and>
    map bc_id calls = [lit ''i''] \<and> count (mset (map bc_id calls)) (lit ''i'') \<le> 1"
proof -
  let ?call = "\<lparr>bc_id = lit ''i'', bc_tool = lit ''roll'', bc_arguments = [], bc_context = []\<rparr>"
  obtain b1 where inv: "invoke_start (lit ''i'') (lit ''roll'') [] [] demo_registered = (Inr (lit ''i''), b1)"
    and work: "bk_heap b1 = [\<lparr>brn_id = lit ''r'', brn_protocol = 2, brn_plugins = [(lit ''x.p'', demo_manifest)],
      brn_work = [?call], brn_events = []\<rparr>]"
    by (simp add: demo_registered_eq invoke_start_def change_runner_def)
  have s1: "broker_step demo_broker_env demo_registered (Ev_invoke (lit ''i'')) b1" by (rule broker_step.invoke [OF inv])
  have take: "work_take 0 b1 = (([?call], []), snd (work_take 0 b1))"
    by (simp add: work_take_def work)
  have "broker_step demo_broker_env b1 (Ev_drain [?call]) (snd (work_take 0 b1))"
    by (rule broker_step.drain [OF _ take]) (simp add: work)
  from broker_run.step [OF broker_run.step [OF demo_broker_run s1] this]
  have run: "broker_run demo_broker_env (new_broker [demo_service])
      [Ev_register (lit ''r''), Ev_invoke (lit ''i''), Ev_drain [?call]] (snd (work_take 0 b1))" by simp
  from invocations_handed_once [OF run, of "lit ''i''"] run show ?thesis
    by (intro exI [of _ "snd (work_take 0 b1)"] exI [of _ "[?call]"]) simp
qed

text \<open>
  the quota of a service holds in every minute. Over any run of the broker whose service
  calls come in the order of time, a plugin's accepted calls of a service within any window of
  60 seconds are at most the quota.
\<close>

theorem service_quota_holds:
  assumes "broker_run env (new_broker svs) evs b" and "sorted (concat (map service_time evs))"
  shows "length (filter (\<lambda>x. t \<le> x \<and> x < t + service_window) (concat (map (charged_at (pid, svc)) evs))) \<le> be_quota env"
proof -
  obtain now where now: "\<forall>t \<in> set (concat (map service_time evs)). now \<le> t"
  proof (cases "concat (map service_time evs)")
    case Nil
    then show thesis using that [of 0] by simp
  next
    case (Cons x xs)
    then show thesis using that [of x] assms(2) by auto
  qed
  have "quota_inv (be_quota env) now [] (calls_of (pid, svc) (new_broker svs))"
    by (simp add: quota_inv_def calls_of_def new_broker_def dict_get_def)
  from broker_run_quota [OF assms this now] show ?thesis by (simp add: quota_inv_def)
qed

lemma demo_negotiated: "negotiated demo_broker_env (lit ''r'') (lit ''x.p'') (lit ''sv'') (lit ''1'') demo_registered = (Inr demo_service, demo_registered)"
  by (simp add: negotiated_def demo_registered_eq runner_of_def new_broker_def demo_manifest_def services_dict_def demo_service_def
      supports_one granted_def demo_broker_env_def dict_get_def)

theorem service_quota_holds_witness:
  "\<exists>b. broker_run demo_broker_env (new_broker [demo_service])
      [Ev_register (lit ''r''), Ev_service 5 (lit ''x.p'') (lit ''sv'') True] b \<and>
    length (filter (\<lambda>x. 0 \<le> x \<and> x < 0 + service_window) [5]) \<le> be_quota demo_broker_env"
proof -
  obtain b1 where con: "consume_quota demo_broker_env 5 (lit ''x.p'') (lit ''sv'') demo_registered = (Inr (), b1)"
    by (simp add: consume_quota_def demo_broker_env_def demo_registered_eq new_broker_def dict_get_def)
  obtain v b2 where inv: "invoke_service demo_broker_env 5 (lit ''r'') (lit ''x.p'') (lit ''sv'') (lit ''1'') [] demo_registered = (v, b2)"
    by fastforce
  have "broker_step demo_broker_env demo_registered (Ev_service 5 (lit ''x.p'') (lit ''sv'') True) b2"
    using broker_step.service [OF inv, of True] demo_negotiated con by simp
  from broker_run.step [OF demo_broker_run this]
  have run: "broker_run demo_broker_env (new_broker [demo_service])
      [Ev_register (lit ''r''), Ev_service 5 (lit ''x.p'') (lit ''sv'') True] b2" by simp
  from service_quota_holds [OF run, of 0 "lit ''x.p''" "lit ''sv''"] run show ?thesis by auto
qed

text \<open>Two facts about waiting invocations: the end of the wait leaves the queue as it is, so a
  timed-out invocation is still handed out later; and a runner that registers anew starts
  with an empty queue, while its queued invocations stay with its former object.\<close>

lemma timeout_leaves_queue: "queued (snd (invoke_end i tid b)) = queued b"
  by (simp add: invoke_end_def queued_def)

lemma connect_empties_queue:
  "map_option brn_work (runner_of (connect rid protocol [] b) rid) = Some []"
  by (simp add: connect_def runner_of_def dict_simps Let_def)

text \<open>A version text of digits that are no decimal digits raises.\<close>

lemma superscript_version_raises: "supports_version [178] 2 = Inl Value_error"
  by (simp add: supports_version_def strip_id py_space_def digit_char_def decimal_value_def decimal_zeros_def
      other_digits_def)

end
