(* ===== verification/Adapters.thy ===== *)
theory Adapters
  imports Guards Payload
begin

text \<open>
  The pure translations of the platform adapters: \<open>adapters/qq/translate.py\<close> (OneBot v11
  events and message arrays) and \<open>adapters/telegram/translate.py\<close> (Bot API updates and
  method calls). A decoded JSON document goes in, an \<open>InboundEvent\<close> with a validated
  envelope comes out; a reply plan is encoded the other way. The trace id (a fresh UUID),
  \<open>str.casefold\<close> and the fault the C library reports for a timestamp out of range are
  parameters. The main results: a translated event always carries a valid envelope of its
  platform whose addressing evidence agrees with its segments, and what is encoded for QQ
  reads back as the texts and media of the plan.
\<close>

section \<open>Building validated values\<close>

text \<open>The frozen models strip every string and then check it.\<close>

fun strip_segment :: "segment \<Rightarrow> segment" where
  "strip_segment (TextSegment t) = TextSegment (strip t)"
| "strip_segment (ImageSegment u a) = ImageSegment (strip u) (map_option strip a)"
| "strip_segment (FileSegment n u m) = FileSegment (strip n) (strip u) (map_option strip m)"
| "strip_segment (ReferenceSegment i l) = ReferenceSegment (strip i) (map_option strip l)"
| "strip_segment (AtSegment i n) = AtSegment (strip i) (map_option strip n)"
| "strip_segment (StickerSegment i n) = StickerSegment (strip i) (map_option strip n)"
| "strip_segment (VoiceSegment u m d) = VoiceSegment (strip u) (map_option strip m) d"

definition validation_error :: exn where
  "validation_error = Raised (lit ''ValidationError'')"

definition build_segment :: "segment \<Rightarrow> exn + segment" where
  "build_segment s = (if valid_segment (strip_segment s) then Inr (strip_segment s) else Inl validation_error)"

definition strip_envelope :: "envelope \<Rightarrow> envelope" where
  "strip_envelope e = e\<lparr>env_id := strip (env_id e), env_connection_id := strip (env_connection_id e),
     env_chat_id := strip (env_chat_id e), env_thread_id := map_option strip (env_thread_id e),
     env_sender_identity_id := strip (env_sender_identity_id e),
     env_reply_to_message_id := map_option strip (env_reply_to_message_id e),
     env_trace_id := strip (env_trace_id e)\<rparr>"

definition build_envelope :: "envelope \<Rightarrow> exn + envelope" where
  "build_envelope e = (if valid_envelope (strip_envelope e) then Inr (strip_envelope e) else Inl validation_error)"

text \<open>\<open>datetime.fromtimestamp(seconds, tz=UTC)\<close> in microseconds: the years 1 to 9999.\<close>

definition from_timestamp :: "(int \<Rightarrow> ustr) \<Rightarrow> int \<Rightarrow> exn + int" where
  "from_timestamp fault t =
     (if -62135596800 \<le> t \<and> t \<le> 253402300799 then Inr (t * 1000000) else Inl (Raised (fault t)))"

text \<open>\<open>a or b\<close> on optional strings and \<open>text or ""\<close>.\<close>

fun or_opt :: "ustr option \<Rightarrow> ustr option \<Rightarrow> ustr option" where
  "or_opt (Some (c # cs)) b = Some (c # cs)"
| "or_opt _ b = b"

definition or_empty :: "ustr option \<Rightarrow> ustr" where
  "or_empty x = (case x of None \<Rightarrow> [] | Some s \<Rightarrow> s)"

text \<open>The bracketed placeholders of the adapters.\<close>

definition unsupported_text :: "ustr \<Rightarrow> ustr" where
  "unsupported_text k = [91, 26242, 19981, 25903, 25345, 30340, 28040, 24687, 31867, 22411, 58, 32] @ k @ [93]"

definition meme_text :: "ustr \<Rightarrow> ustr" where
  "meme_text m = [91, 34920, 24773, 24847, 22270, 58, 32] @ m @ [93]"

fun media_fallback :: "segment \<Rightarrow> ustr" where
  "media_fallback (ImageSegment u a) = [91, 22270, 29255, 58, 32] @ (case or_opt a (Some u) of Some t \<Rightarrow> t | None \<Rightarrow> []) @ [93]"
| "media_fallback (StickerSegment i n) = [91, 34920, 24773, 58, 32] @ (case or_opt n (Some i) of Some t \<Rightarrow> t | None \<Rightarrow> []) @ [93]"
| "media_fallback _ = [91, 35821, 38899, 28040, 24687, 93]"

section \<open>QQ\<close>

definition qq_capabilities :: capabilities where
  "qq_capabilities = \<lparr>cap_editing = False, cap_replies = True, cap_typing = False,
     cap_proactive_messages = True, cap_combined_media_text = True, cap_threads = False,
     cap_reactions = False, cap_images = True, cap_mentions = True, cap_stickers = True,
     cap_voice_messages = True\<rparr>"

text \<open>The three variables the loop over the message array fills.\<close>

record qq_scan =
  qs_segments :: "segment list"
  qs_mentions_self :: bool
  qs_reply_to :: "ustr option"

definition qs_add :: "segment \<Rightarrow> qq_scan \<Rightarrow> exn + qq_scan" where
  "qs_add s q = bindr (build_segment s) (\<lambda>v. Inr (q\<lparr>qs_segments := qs_segments q @ [v]\<rparr>))"

definition qq_locator :: "(ustr, json) dict \<Rightarrow> ustr option" where
  "qq_locator data = or_opt (get_str data (lit ''url'')) (get_str data (lit ''file''))"

text \<open>\<open>if url and url.strip()\<close>: the stripped locator, when something is left of it.\<close>

definition visible :: "ustr option \<Rightarrow> ustr option" where
  "visible x = (case x of None \<Rightarrow> None | Some u \<Rightarrow> if strip u = [] then None else Some (strip u))"

definition qq_text :: "(ustr, json) dict \<Rightarrow> qq_scan \<Rightarrow> exn + qq_scan" where
  "qq_text data q = (let t = strip (or_empty (get_str data (lit ''text'')))
     in if t \<noteq> [] then qs_add (TextSegment t) q else Inr q)"

definition qq_image :: "(ustr, json) dict \<Rightarrow> qq_scan \<Rightarrow> exn + qq_scan" where
  "qq_image data q = (case visible (qq_locator data) of None \<Rightarrow> Inr q | Some u \<Rightarrow> qs_add (ImageSegment u None) q)"

definition qq_file_name :: "(ustr, json) dict \<Rightarrow> ustr" where
  "qq_file_name data = or_empty (or_opt (or_opt (get_str data (lit ''name'')) (get_str data (lit ''file'')))
     (Some (lit ''file'')))"

definition qq_file :: "(ustr, json) dict \<Rightarrow> qq_scan \<Rightarrow> exn + qq_scan" where
  "qq_file data q = (case visible (qq_locator data) of None \<Rightarrow> Inr q
     | Some u \<Rightarrow> qs_add (FileSegment (qq_file_name data) u None) q)"

definition qq_reply :: "(ustr, json) dict \<Rightarrow> qq_scan \<Rightarrow> exn + qq_scan" where
  "qq_reply data q = Inr (q\<lparr>qs_reply_to := or_opt (get_id data (lit ''id'')) (qs_reply_to q)\<rparr>)"

definition qq_at :: "int \<Rightarrow> (ustr, json) dict \<Rightarrow> qq_scan \<Rightarrow> exn + qq_scan" where
  "qq_at self_id data q =
     (let target = get_id data (lit ''qq'')
      in bindr (case target of None \<Rightarrow> Inr q | Some t \<Rightarrow> qs_add (AtSegment t None) q)
           (\<lambda>q. Inr (if target = Some (dec_int self_id) then q\<lparr>qs_mentions_self := True\<rparr> else q)))"

definition qq_face :: "(ustr, json) dict \<Rightarrow> qq_scan \<Rightarrow> exn + qq_scan" where
  "qq_face data q = (case get_id data (lit ''id'') of None \<Rightarrow> Inr q | Some i \<Rightarrow> qs_add (StickerSegment i None) q)"

definition qq_record :: "(ustr, json) dict \<Rightarrow> qq_scan \<Rightarrow> exn + qq_scan" where
  "qq_record data q = (case visible (qq_locator data) of None \<Rightarrow> Inr q | Some u \<Rightarrow> qs_add (VoiceSegment u None None) q)"

definition scan_qq_segment :: "int \<Rightarrow> json \<Rightarrow> qq_scan \<Rightarrow> exn + qq_scan" where
  "scan_qq_segment self_id raw q = (case as_string_mapping raw of None \<Rightarrow> Inr q
     | Some seg \<Rightarrow>
       (let data = (case get_mapping seg (lit ''data'') of None \<Rightarrow> [] | Some d \<Rightarrow> d)
        in case get_str seg (lit ''type'') of
             None \<Rightarrow> Inr q
           | Some ty \<Rightarrow>
               if ty = lit ''text'' then qq_text data q
               else if ty = lit ''image'' then qq_image data q
               else if ty = lit ''file'' then qq_file data q
               else if ty = lit ''reply'' then qq_reply data q
               else if ty = lit ''at'' then qq_at self_id data q
               else if ty = lit ''face'' then qq_face data q
               else if ty = lit ''record'' then qq_record data q
               else qs_add (TextSegment (unsupported_text ty)) q))"

fun scan_qq_message :: "int \<Rightarrow> json list \<Rightarrow> qq_scan \<Rightarrow> exn + qq_scan" where
  "scan_qq_message self_id [] q = Inr q"
| "scan_qq_message self_id (raw # raws) q = bindr (scan_qq_segment self_id raw q) (scan_qq_message self_id raws)"

definition qq_scan_start :: qq_scan where
  "qq_scan_start = \<lparr>qs_segments = [], qs_mentions_self = False, qs_reply_to = None\<rparr>"

text \<open>The chat of an event by its message type; \<open>None\<close> where the event is skipped.\<close>

definition qq_chat :: "(ustr, json) dict \<Rightarrow> ustr \<Rightarrow> (chat_kind \<times> ustr) option" where
  "qq_chat event user_id =
     (if get_str event (lit ''message_type'') = Some (lit ''private'') then Some (DIRECT, user_id)
      else if get_str event (lit ''message_type'') = Some (lit ''group'')
      then map_option (Pair GROUP) (get_id event (lit ''group_id''))
      else None)"

definition finish_qq_event ::
  "(int \<Rightarrow> ustr) \<Rightarrow> ustr \<Rightarrow> (ustr, json) dict \<Rightarrow> ustr \<Rightarrow> chat_kind \<times> ustr \<Rightarrow> ustr \<Rightarrow> ustr \<Rightarrow> int \<Rightarrow> qq_scan
     \<Rightarrow> exn + inbound_event option" where
  "finish_qq_event fault trace event connection_id chat message_id user_id occurred q =
     (if qs_segments q = [] then Inr None
      else bindr (from_timestamp fault occurred) (\<lambda>moment.
        bindr (build_envelope \<lparr>env_id = qq_envelope_id connection_id message_id,
            env_connection_id = connection_id, env_platform = QQ, env_chat_kind = fst chat,
            env_chat_id = snd chat, env_thread_id = None, env_sender_identity_id = qq_identity user_id,
            env_occurred_at = moment, env_segments = qs_segments q, env_reply_to_message_id = qs_reply_to q,
            env_raw_ref = Some (freeze_json (as_json_value (JObj event))), env_trace_id = trace,
            env_ephemeral = False\<rparr>) (\<lambda>e.
        Inr (Some \<lparr>ie_envelope = e, ie_mentions_self = qs_mentions_self q, ie_replies_to_self = False,
          ie_sender_is_bot = False\<rparr>))))"

definition translate_qq_event ::
  "(int \<Rightarrow> ustr) \<Rightarrow> ustr \<Rightarrow> (ustr, json) dict \<Rightarrow> ustr \<Rightarrow> int \<Rightarrow> exn + inbound_event option" where
  "translate_qq_event fault trace event connection_id self_id =
     (if get_str event (lit ''post_type'') \<noteq> Some (lit ''message'') then Inr None
      else case (get_id event (lit ''message_id''), get_id event (lit ''user_id''), get_int event (lit ''time'')) of
        (Some message_id, Some user_id, Some occurred) \<Rightarrow>
          (case qq_chat event user_id of None \<Rightarrow> Inr None
           | Some chat \<Rightarrow>
               bindr (scan_qq_message self_id (get_sequence event (lit ''message'')) qq_scan_start)
                 (finish_qq_event fault trace event connection_id chat message_id user_id occurred))
      | _ \<Rightarrow> Inr None)"

text \<open>The encoder. One OneBot segment, and the message arrays of a reply plan.\<close>

definition onebot :: "string \<Rightarrow> string \<Rightarrow> ustr \<Rightarrow> json" where
  "onebot ty key v = JObj [(lit ''type'', JStr (lit ty)), (lit ''data'', JObj [(lit key, JStr v)])]"

fun encode_qq_texts :: "ustr option \<Rightarrow> ustr list \<Rightarrow> json list list" where
  "encode_qq_texts reply_to [] = []"
| "encode_qq_texts reply_to (t # ts) =
     ((case reply_to of None \<Rightarrow> [] | Some i \<Rightarrow> [onebot ''reply'' ''id'' i]) @ [onebot ''text'' ''text'' t])
       # encode_qq_texts None ts"

definition encode_qq_media :: "capabilities \<Rightarrow> segment \<Rightarrow> json" where
  "encode_qq_media caps media = (case media of
       ImageSegment u a \<Rightarrow> if cap_images caps then onebot ''image'' ''file'' u
         else onebot ''text'' ''text'' (media_fallback media)
     | StickerSegment i n \<Rightarrow> if cap_stickers caps then onebot ''face'' ''id'' i
         else onebot ''text'' ''text'' (media_fallback media)
     | VoiceSegment u m d \<Rightarrow> if cap_voice_messages caps then onebot ''record'' ''file'' u
         else onebot ''text'' ''text'' (media_fallback media)
     | _ \<Rightarrow> onebot ''text'' ''text'' (media_fallback media))"

definition meme_sticker :: "capabilities \<Rightarrow> (ustr, ustr) dict option \<Rightarrow> ustr \<Rightarrow> ustr option" where
  "meme_sticker caps intents m =
     (case map_of (case intents of None \<Rightarrow> [] | Some d \<Rightarrow> d) m of
        None \<Rightarrow> None | Some i \<Rightarrow> if cap_stickers caps then Some i else None)"

definition encode_qq_meme :: "capabilities \<Rightarrow> (ustr, ustr) dict option \<Rightarrow> ustr option \<Rightarrow> json list" where
  "encode_qq_meme caps intents meme = (case meme of None \<Rightarrow> []
     | Some m \<Rightarrow> (case meme_sticker caps intents m of
         Some i \<Rightarrow> [onebot ''face'' ''id'' i] | None \<Rightarrow> [onebot ''text'' ''text'' (meme_text m)]))"

definition encode_qq_reply ::
  "reply_plan \<Rightarrow> capabilities \<Rightarrow> ustr option \<Rightarrow> (ustr, ustr) dict option \<Rightarrow> exn + json list list" where
  "encode_qq_reply plan caps reply_to intents =
     (let messages = encode_qq_texts reply_to (rp_text_segments plan);
          extra = map (encode_qq_media caps) (rp_media_segments plan)
                    @ encode_qq_meme caps intents (rp_meme_intent plan)
      in if messages = [] then Inl (Raised (lit ''IndexError''))
         else Inr (butlast messages @ [last messages @ extra]))"

section \<open>Telegram\<close>

definition telegram_capabilities :: capabilities where
  "telegram_capabilities = \<lparr>cap_editing = True, cap_replies = True, cap_typing = True,
     cap_proactive_messages = True, cap_combined_media_text = True, cap_threads = True,
     cap_reactions = False, cap_images = True, cap_mentions = True, cap_stickers = True,
     cap_voice_messages = True\<rparr>"

definition chat_kinds :: "(ustr, chat_kind) dict" where
  "chat_kinds = [(lit ''private'', DIRECT), (lit ''group'', GROUP), (lit ''supergroup'', GROUP),
     (lit ''channel'', CHANNEL)]"

definition unsupported_content_keys :: "ustr list" where
  "unsupported_content_keys = [lit ''audio'', lit ''video'', lit ''video_note'', lit ''animation'',
     lit ''location'', lit ''venue'', lit ''contact'', lit ''poll'', lit ''dice'']"

definition first_unsupported_key :: "(ustr, json) dict \<Rightarrow> ustr option" where
  "first_unsupported_key message = find (\<lambda>k. map_of message k \<noteq> None) unsupported_content_keys"

text \<open>\<open>xs[i:j]\<close>: a negative index counts from the end, both are clamped to the length.\<close>

definition slice_index :: "nat \<Rightarrow> int \<Rightarrow> nat" where
  "slice_index n i = (if i < 0 then nat (max 0 (i + int n)) else min n (nat i))"

definition py_slice :: "int \<Rightarrow> int \<Rightarrow> 'a list \<Rightarrow> 'a list" where
  "py_slice i j xs = (let a = slice_index (length xs) i; b = slice_index (length xs) j
     in take (b - a) (drop a xs))"

text \<open>\<open>max(xs, key=f)\<close> of a non-empty list keeps the first of the largest.\<close>

fun first_max :: "('a \<Rightarrow> int) \<Rightarrow> 'a \<Rightarrow> 'a list \<Rightarrow> 'a" where
  "first_max f best [] = best"
| "first_max f best (x # xs) = first_max f (if f x > f best then x else best) xs"

definition photo_area :: "(ustr, json) dict \<Rightarrow> int" where
  "photo_area dims = (case get_int dims (lit ''width'') of None \<Rightarrow> 0 | Some w \<Rightarrow> w)
     * (case get_int dims (lit ''height'') of None \<Rightarrow> 0 | Some h \<Rightarrow> h)"

definition tg_locator_prefix :: ustr where
  "tg_locator_prefix = lit ''tg-file://''"

definition telegram_locator :: "ustr \<Rightarrow> ustr" where
  "telegram_locator v = (if starts_with tg_locator_prefix v then drop (length tg_locator_prefix) v else v)"

text \<open>The loop over the entities returns at the first that addresses the bot.\<close>

definition entity_mentions :: "(ustr \<Rightarrow> ustr) \<Rightarrow> ustr \<Rightarrow> ustr \<Rightarrow> int \<Rightarrow> json \<Rightarrow> bool" where
  "entity_mentions casefold text bot_username self_id raw =
     (case as_string_mapping raw of None \<Rightarrow> False
      | Some entity \<Rightarrow>
         (case (get_str entity (lit ''type'') = Some (lit ''mention''), get_int entity (lit ''offset''), get_int entity (lit ''length'')) of
            (True, Some offset, Some len) \<Rightarrow>
              casefold (py_slice offset (offset + len) text) = casefold (64 # bot_username)
          | _ \<Rightarrow>
              (if get_str entity (lit ''type'') = Some (lit ''text_mention'')
               then (case get_mapping entity (lit ''user'') of None \<Rightarrow> False
                     | Some user \<Rightarrow> get_id user (lit ''id'') = Some (dec_int self_id))
               else False)))"

definition mentions_bot :: "(ustr \<Rightarrow> ustr) \<Rightarrow> ustr \<Rightarrow> (ustr, json) dict \<Rightarrow> ustr \<Rightarrow> int \<Rightarrow> bool" where
  "mentions_bot casefold text message bot_username self_id =
     list_ex (entity_mentions casefold text bot_username self_id) (get_sequence message (lit ''entities''))"

text \<open>One content key after the other; each adds at most one segment or raises.\<close>

type_synonym content_step = "(ustr, json) dict \<Rightarrow> segment list \<Rightarrow> exn + segment list"

definition seg_add :: "segment \<Rightarrow> segment list \<Rightarrow> exn + segment list" where
  "seg_add s segs = bindr (build_segment s) (\<lambda>v. Inr (segs @ [v]))"

text \<open>A non-empty \<open>file_id\<close> as the locator the platform resolves later.\<close>

definition tg_file :: "(ustr, json) dict \<Rightarrow> ustr option" where
  "tg_file d = (case get_str d (lit ''file_id'') of None \<Rightarrow> None
     | Some i \<Rightarrow> if i = [] then None else Some (tg_locator_prefix @ i))"

definition tg_text :: "string \<Rightarrow> content_step" where
  "tg_text key message segs = (let t = strip (or_empty (get_str message (lit key)))
     in if t \<noteq> [] then seg_add (TextSegment t) segs else Inr segs)"

definition tg_photo :: content_step where
  "tg_photo message segs =
     (case List.map_filter as_string_mapping (get_sequence message (lit ''photo'')) of
        [] \<Rightarrow> Inr segs
      | best # sizes \<Rightarrow> (case tg_file (first_max photo_area best sizes) of None \<Rightarrow> Inr segs
          | Some u \<Rightarrow> seg_add (ImageSegment u None) segs))"

definition tg_document :: "(ustr \<Rightarrow> ustr) \<Rightarrow> content_step" where
  "tg_document casefold message segs =
     (case get_mapping message (lit ''document'') of None \<Rightarrow> Inr segs
      | Some document \<Rightarrow> (case tg_file document of None \<Rightarrow> Inr segs
         | Some u \<Rightarrow>
            (let name = or_empty (or_opt (get_str document (lit ''file_name'')) (Some (lit ''file'')));
                 mime = get_str document (lit ''mime_type'')
             in case mime of
                  Some m \<Rightarrow> if starts_with (lit ''image/'') (casefold m)
                    then seg_add (ImageSegment u (Some name)) segs
                    else seg_add (FileSegment name u mime) segs
                | None \<Rightarrow> seg_add (FileSegment name u mime) segs)))"

definition tg_sticker :: content_step where
  "tg_sticker message segs =
     (case get_mapping message (lit ''sticker'') of None \<Rightarrow> Inr segs
      | Some sticker \<Rightarrow> (case tg_file sticker of None \<Rightarrow> Inr segs
         | Some u \<Rightarrow> seg_add (StickerSegment u (get_str sticker (lit ''emoji''))) segs))"

definition tg_voice :: content_step where
  "tg_voice message segs =
     (case get_mapping message (lit ''voice'') of None \<Rightarrow> Inr segs
      | Some voice \<Rightarrow> (case tg_file voice of None \<Rightarrow> Inr segs
         | Some u \<Rightarrow> seg_add (VoiceSegment u (get_str voice (lit ''mime_type''))
             (map_option (\<lambda>d. d * 1000) (get_int voice (lit ''duration'')))) segs))"

definition tg_content :: "(ustr \<Rightarrow> ustr) \<Rightarrow> (ustr, json) dict \<Rightarrow> exn + segment list" where
  "tg_content casefold message =
     bindr (tg_text ''text'' message []) (\<lambda>segs.
     bindr (tg_text ''caption'' message segs) (\<lambda>segs.
     bindr (tg_photo message segs) (\<lambda>segs.
     bindr (tg_document casefold message segs) (\<lambda>segs.
     bindr (tg_sticker message segs) (\<lambda>segs.
     tg_voice message segs)))))"

text \<open>A message without supported content keeps a placeholder, or is skipped.\<close>

definition tg_segments :: "(ustr \<Rightarrow> ustr) \<Rightarrow> (ustr, json) dict \<Rightarrow> exn + segment list option" where
  "tg_segments casefold message =
     bindr (tg_content casefold message) (\<lambda>segs.
       if segs \<noteq> [] then Inr (Some segs)
       else case first_unsupported_key message of None \<Rightarrow> Inr None
            | Some k \<Rightarrow> bindr (seg_add (TextSegment (unsupported_text k)) segs) (\<lambda>segs. Inr (Some segs)))"

definition tg_reply :: "(ustr, json) dict \<Rightarrow> int \<Rightarrow> ustr option \<times> bool" where
  "tg_reply message self_id =
     (case get_mapping message (lit ''reply_to_message'') of None \<Rightarrow> (None, False)
      | Some replied \<Rightarrow> (get_id replied (lit ''message_id''),
          (case get_mapping replied (lit ''from'') of None \<Rightarrow> False
           | Some u \<Rightarrow> get_id u (lit ''id'') = Some (dec_int self_id))))"

definition finish_telegram_update ::
  "(int \<Rightarrow> ustr) \<Rightarrow> ustr \<Rightarrow> (ustr \<Rightarrow> ustr) \<Rightarrow> (ustr, json) dict \<Rightarrow> ustr \<Rightarrow> int \<Rightarrow> ustr \<Rightarrow> (ustr, json) dict
     \<Rightarrow> (ustr, json) dict \<Rightarrow> chat_kind \<Rightarrow> ustr \<Rightarrow> ustr \<Rightarrow> ustr \<Rightarrow> int \<Rightarrow> segment list option \<Rightarrow> exn + inbound_event option" where
  "finish_telegram_update fault trace casefold update connection_id self_id bot_username message sender
      chat_kind chat_id sender_id message_id occurred found =
     (case found of None \<Rightarrow> Inr None
      | Some segs \<Rightarrow>
         (let mentions = mentions_bot casefold (or_empty (get_str message (lit ''text''))) message bot_username self_id;
              (reply_to, replies) = tg_reply message self_id
          in bindr (if mentions then bindr (build_segment (AtSegment (dec_int self_id) (Some bot_username)))
                                       (\<lambda>a. Inr (a # segs)) else Inr segs) (\<lambda>segs.
             bindr (from_timestamp fault occurred) (\<lambda>moment.
             bindr (build_envelope \<lparr>env_id = telegram_envelope_id connection_id chat_id message_id,
                 env_connection_id = connection_id, env_platform = TELEGRAM, env_chat_kind = chat_kind,
                 env_chat_id = chat_id, env_thread_id = None, env_sender_identity_id = telegram_identity sender_id,
                 env_occurred_at = moment, env_segments = segs, env_reply_to_message_id = reply_to,
                 env_raw_ref = Some (freeze_json (as_json_value (JObj update))), env_trace_id = trace,
                 env_ephemeral = False\<rparr>) (\<lambda>e.
             Inr (Some \<lparr>ie_envelope = e, ie_mentions_self = mentions, ie_replies_to_self = replies,
               ie_sender_is_bot = (payload_get sender (lit ''is_bot'') = JBool True)\<rparr>))))))"

definition translate_telegram_update ::
  "(int \<Rightarrow> ustr) \<Rightarrow> ustr \<Rightarrow> (ustr \<Rightarrow> ustr) \<Rightarrow> (ustr, json) dict \<Rightarrow> ustr \<Rightarrow> int \<Rightarrow> ustr
     \<Rightarrow> exn + inbound_event option" where
  "translate_telegram_update fault trace casefold update connection_id self_id bot_username =
     (case get_mapping update (lit ''message'') of None \<Rightarrow> Inr None
      | Some message \<Rightarrow>
         (case (get_mapping message (lit ''chat''), get_mapping message (lit ''from'')) of
            (Some chat, Some sender) \<Rightarrow>
              (case (map_of chat_kinds (or_empty (get_str chat (lit ''type''))), get_id chat (lit ''id''),
                     get_id sender (lit ''id''), get_id message (lit ''message_id''), get_int message (lit ''date'')) of
                 (Some kind, Some chat_id, Some sender_id, Some message_id, Some occurred) \<Rightarrow>
                   bindr (tg_segments casefold message)
                     (finish_telegram_update fault trace casefold update connection_id self_id bot_username
                        message sender kind chat_id sender_id message_id occurred)
               | _ \<Rightarrow> Inr None)
          | _ \<Rightarrow> Inr None))"

text \<open>The encoder: method and body of each Bot API call.\<close>

definition bot_call :: "string \<Rightarrow> (ustr, json) dict \<Rightarrow> json" where
  "bot_call method body = JObj [(lit ''method'', JStr (lit method)), (lit ''body'', JObj body)]"

fun encode_telegram_texts :: "ustr option \<Rightarrow> ustr list \<Rightarrow> json list" where
  "encode_telegram_texts reply_to [] = []"
| "encode_telegram_texts reply_to (t # ts) =
     bot_call ''sendMessage'' ((lit ''text'', JStr t) # (case reply_to of None \<Rightarrow> []
       | Some i \<Rightarrow> [(lit ''reply_to_message_id'', JStr i), (lit ''allow_sending_without_reply'', JBool True)]))
       # encode_telegram_texts None ts"

definition encode_telegram_media :: "capabilities \<Rightarrow> segment \<Rightarrow> json" where
  "encode_telegram_media caps media =
     (let fallback = bot_call ''sendMessage'' [(lit ''text'', JStr (media_fallback media))]
      in case media of
           ImageSegment u a \<Rightarrow> if cap_images caps then bot_call ''sendPhoto'' [(lit ''photo'', JStr (telegram_locator u))] else fallback
         | StickerSegment i n \<Rightarrow> if cap_stickers caps then bot_call ''sendSticker'' [(lit ''sticker'', JStr (telegram_locator i))] else fallback
         | VoiceSegment u m d \<Rightarrow> if cap_voice_messages caps then bot_call ''sendVoice'' [(lit ''voice'', JStr (telegram_locator u))] else fallback
         | _ \<Rightarrow> fallback)"

definition encode_telegram_meme :: "capabilities \<Rightarrow> (ustr, ustr) dict option \<Rightarrow> ustr option \<Rightarrow> json list" where
  "encode_telegram_meme caps intents meme = (case meme of None \<Rightarrow> []
     | Some m \<Rightarrow> (case meme_sticker caps intents m of
         Some i \<Rightarrow> [bot_call ''sendSticker'' [(lit ''sticker'', JStr i)]]
       | None \<Rightarrow> [bot_call ''sendMessage'' [(lit ''text'', JStr (meme_text m))]]))"

definition encode_telegram_reply ::
  "reply_plan \<Rightarrow> capabilities \<Rightarrow> ustr option \<Rightarrow> (ustr, ustr) dict option \<Rightarrow> json list" where
  "encode_telegram_reply plan caps reply_to intents =
     encode_telegram_texts reply_to (rp_text_segments plan)
       @ map (encode_telegram_media caps) (rp_media_segments plan)
       @ encode_telegram_meme caps intents (rp_meme_intent plan)"

section \<open>Validated results\<close>

lemma valid_opt_simps [simp]: "valid_opt None" "valid_opt (Some s) = nonempty_str s"
  by (simp_all add: valid_opt_def)

lemma build_segment_Inr: "build_segment s = Inr v \<Longrightarrow> v = strip_segment s \<and> valid_segment v"
  by (auto simp: build_segment_def split: if_splits)

lemma build_envelope_Inr: "build_envelope e = Inr v \<Longrightarrow> v = strip_envelope e \<and> valid_envelope v"
  by (auto simp: build_envelope_def split: if_splits)

lemma nonempty_strip: "nonempty_str s \<Longrightarrow> strip s = s"
  by (simp add: nonempty_str_iff)

lemma strip_valid_opt: "valid_opt x \<Longrightarrow> map_option strip x = x"
  by (cases x) (simp_all add: nonempty_strip)

lemma strip_segment_valid: "valid_segment s \<Longrightarrow> strip_segment s = s"
  by (cases s) (auto simp: nonempty_strip strip_valid_opt)

lemma build_segment_valid: "valid_segment s \<Longrightarrow> build_segment s = Inr s"
  by (simp add: build_segment_def strip_segment_valid)

lemma py_digit_not_space: "py_digit c \<Longrightarrow> \<not> py_space c"
  by (auto simp: py_digit_def py_space_def)

lemma strip_dec_int [simp]: "strip (dec_int i) = dec_int i"
proof (rule strip_id)
  have d: "\<not> py_space (hd (dec n))" "\<not> py_space (last (dec n))" for n
    using dec_digits [of _ n] py_digit_not_space by (metis dec_nonempty hd_in_set last_in_set)+
  show "dec_int i = [] \<or> \<not> py_space (hd (dec_int i)) \<and> \<not> py_space (last (dec_int i))"
    using d by (auto simp: dec_int_def py_space_def)
qed

lemma dec_int_not_Nil [simp]: "dec_int i \<noteq> []"
  by (simp add: dec_int_def)

lemma get_id_valid: "get_id d k = Some s \<Longrightarrow> nonempty_str s"
  by (auto simp: get_id_def nonempty_str_iff split: json.splits if_splits)

text \<open>A bracketed placeholder is a valid text whatever it holds.\<close>

lemma bracketed: "nonempty_str (91 # t @ [93])"
  unfolding nonempty_str_iff by (intro conjI strip_id) (auto simp: py_space_def)

lemma placeholder_valid [simp]:
  "nonempty_str (unsupported_text k)" "nonempty_str (meme_text k)" "nonempty_str (media_fallback s)"
proof -
  show "nonempty_str (unsupported_text k)"
    using bracketed [of "[26242, 19981, 25903, 25345, 30340, 28040, 24687, 31867, 22411, 58, 32] @ k"]
    by (simp add: unsupported_text_def)
  show "nonempty_str (meme_text k)"
    using bracketed [of "[34920, 24773, 24847, 22270, 58, 32] @ k"] by (simp add: meme_text_def)
  have f: "nonempty_str (91 # 22270 # 29255 # 58 # 32 # t @ [93])"
    "nonempty_str (91 # 34920 # 24773 # 58 # 32 # t @ [93])"
    "nonempty_str [91, 35821, 38899, 28040, 24687, 93]" for t
    using bracketed [of "[22270, 29255, 58, 32] @ t"] bracketed [of "[34920, 24773, 58, 32] @ t"]
      bracketed [of "[35821, 38899, 28040, 24687]"] by simp_all
  show "nonempty_str (media_fallback s)" by (cases s) (simp_all add: f)
qed

subsection \<open>The scan of a QQ message\<close>

definition scan_inv :: "int \<Rightarrow> qq_scan \<Rightarrow> bool" where
  "scan_inv self_id q \<longleftrightarrow> list_all valid_segment (qs_segments q) \<and> valid_opt (qs_reply_to q) \<and>
     (qs_mentions_self q \<longleftrightarrow> AtSegment (dec_int self_id) None \<in> set (qs_segments q))"

lemma qs_add_Inr:
  "qs_add s q = Inr q' \<longleftrightarrow> valid_segment (strip_segment s) \<and> q' = q\<lparr>qs_segments := qs_segments q @ [strip_segment s]\<rparr>"
  by (auto simp: qs_add_def build_segment_def)

lemma scan_inv_add:
  assumes "scan_inv self_id q" and "qs_add s q = Inr q'" and "\<nexists>t n. s = AtSegment t n"
  shows "scan_inv self_id q'"
  using assms by (cases s) (auto simp: scan_inv_def qs_add_Inr)

lemma scan_inv_at:
  assumes "scan_inv self_id q" and "qq_at self_id data q = Inr q'"
  shows "scan_inv self_id q'"
proof (cases "get_id data (lit ''qq'')")
  case None
  then show ?thesis using assms by (simp add: qq_at_def)
next
  case (Some t)
  then show ?thesis
    using assms get_id_valid [OF Some]
    by (auto simp: qq_at_def qs_add_def build_segment_valid scan_inv_def split: if_splits)
qed

lemma scan_inv_reply:
  assumes "scan_inv self_id q" and "qq_reply data q = Inr q'"
  shows "scan_inv self_id q'"
proof (cases "get_id data (lit ''id'')")
  case None
  then show ?thesis using assms by (auto simp: qq_reply_def scan_inv_def)
next
  case (Some i)
  then have i: "nonempty_str i" by (rule get_id_valid)
  then obtain c cs where "i = c # cs" by (cases i) (auto simp: nonempty_str_iff)
  with i show ?thesis using assms Some by (auto simp: qq_reply_def scan_inv_def)
qed

lemma scan_inv_contents:
  assumes "scan_inv self_id q"
  shows "qq_text data q = Inr q' \<Longrightarrow> scan_inv self_id q'" "qq_image data q = Inr q' \<Longrightarrow> scan_inv self_id q'"
    "qq_file data q = Inr q' \<Longrightarrow> scan_inv self_id q'" "qq_face data q = Inr q' \<Longrightarrow> scan_inv self_id q'"
    "qq_record data q = Inr q' \<Longrightarrow> scan_inv self_id q'"
    "qs_add (TextSegment t) q = Inr q' \<Longrightarrow> scan_inv self_id q'"
  using assms scan_inv_add [OF assms]
  by (auto simp: qq_text_def qq_image_def qq_file_def qq_face_def qq_record_def Let_def
      split: option.splits if_splits)

lemma scan_inv_segment:
  assumes "scan_inv self_id q" and "scan_qq_segment self_id raw q = Inr q'"
  shows "scan_inv self_id q'"
  using assms(2) scan_inv_contents [OF assms(1)] scan_inv_at [OF assms(1)] scan_inv_reply [OF assms(1)] assms(1)
  unfolding scan_qq_segment_def Let_def by (simp split: option.splits if_splits)

lemma scan_inv_message:
  "scan_inv self_id q \<Longrightarrow> scan_qq_message self_id raws q = Inr q' \<Longrightarrow> scan_inv self_id q'"
  by (induction raws arbitrary: q) (auto simp: bindr_eq_Inr dest: scan_inv_segment)

lemma scan_inv_start: "scan_inv self_id qq_scan_start"
  by (simp add: scan_inv_def qq_scan_start_def)

lemma nonempty_of_strip: "strip t \<noteq> [] \<Longrightarrow> nonempty_str (strip t)"
  by (simp add: nonempty_str_iff)

lemma visible_valid: "visible x = Some u \<Longrightarrow> nonempty_str u"
  by (auto simp: visible_def nonempty_of_strip split: option.splits if_splits)

lemma strip_prefixed: "\<not> py_space c \<Longrightarrow> nonempty_str s \<Longrightarrow> strip (c # p @ s) = c # p @ s"
  using last_strip [of s] by (intro strip_id) (auto simp: nonempty_str_iff)

subsection \<open>What a scan can raise\<close>

text \<open>A file segment with a locator whose name is only white space.\<close>

definition blank_file :: "json \<Rightarrow> bool" where
  "blank_file raw \<longleftrightarrow> (case as_string_mapping raw of None \<Rightarrow> False
     | Some seg \<Rightarrow> get_str seg (lit ''type'') = Some (lit ''file'') \<and>
         strip (qq_file_name (case get_mapping seg (lit ''data'') of None \<Rightarrow> [] | Some d \<Rightarrow> d)) = [])"

lemma qs_add_valid: "valid_segment s \<Longrightarrow> qs_add s q = Inr (q\<lparr>qs_segments := qs_segments q @ [s]\<rparr>)"
  by (simp add: qs_add_def build_segment_valid)

lemma contents_never_raise [simp]:
  "qq_text data q \<noteq> Inl x" "qq_image data q \<noteq> Inl x" "qq_face data q \<noteq> Inl x"
  "qq_record data q \<noteq> Inl x" "qq_reply data q \<noteq> Inl x" "qq_at self_id data q \<noteq> Inl x"
  "qs_add (TextSegment (unsupported_text ty)) q \<noteq> Inl x"
  by (simp_all add: qq_text_def qq_image_def qq_face_def qq_record_def qq_reply_def qq_at_def Let_def
      qs_add_valid nonempty_of_strip visible_valid get_id_valid split: option.split)

lemma qq_file_raises:
  assumes "qq_file data q = Inl x"
  shows "x = validation_error \<and> strip (qq_file_name data) = []"
  using assms
  using nonempty_of_strip [of "qq_file_name data"]
  by (auto simp: qq_file_def qs_add_def build_segment_def bindr_def nonempty_strip
      dest: visible_valid split: option.splits sum.splits if_splits)

lemma scan_segment_raises:
  assumes "scan_qq_segment self_id raw q = Inl x"
  shows "x = validation_error \<and> blank_file raw"
proof (cases "as_string_mapping raw")
  case None
  then show ?thesis using assms by (simp add: scan_qq_segment_def)
next
  case (Some seg)
  let ?data = "case get_mapping seg (lit ''data'') of None \<Rightarrow> [] | Some d \<Rightarrow> d"
  have "get_str seg (lit ''type'') = Some (lit ''file'') \<and> qq_file ?data q = Inl x"
    using assms Some unfolding scan_qq_segment_def Let_def
    by (cases "get_str seg (lit ''type'')") (simp_all split: if_splits)
  then show ?thesis using Some qq_file_raises [of ?data q x] by (simp add: blank_file_def)
qed

lemma scan_message_raises:
  "scan_qq_message self_id raws q = Inl x \<Longrightarrow> x = validation_error \<and> (\<exists>raw \<in> set raws. blank_file raw)"
proof (induction raws arbitrary: q)
  case (Cons raw raws)
  then show ?case by (cases "scan_qq_segment self_id raw q") (auto dest: scan_segment_raises)
qed simp

subsection \<open>What an event becomes\<close>

lemma qq_event_cases [consumes 1, case_names skipped scan built]:
  assumes "translate_qq_event fault trace event connection_id self_id = r"
  obtains (skipped) "r = Inr None"
  | (scan) x where "r = Inl x" "scan_qq_message self_id (get_sequence event (lit ''message'')) qq_scan_start = Inl x"
  | (built) message_id user_id occurred chat q where
    "get_id event (lit ''message_id'') = Some message_id" "get_id event (lit ''user_id'') = Some user_id"
    "get_int event (lit ''time'') = Some occurred" "qq_chat event user_id = Some chat"
    "scan_qq_message self_id (get_sequence event (lit ''message'')) qq_scan_start = Inr q"
    "finish_qq_event fault trace event connection_id chat message_id user_id occurred q = r"
  using assms
  by (cases "scan_qq_message self_id (get_sequence event (lit ''message'')) qq_scan_start")
    (auto simp: translate_qq_event_def split: option.splits if_splits)

lemma qq_chat_cases:
  assumes "qq_chat event user_id = Some chat" and "nonempty_str user_id"
  shows "nonempty_str (snd chat) \<and> (fst chat = DIRECT \<and> snd chat = user_id \<or>
    fst chat = GROUP \<and> get_id event (lit ''group_id'') = Some (snd chat))"
  using assms by (auto simp: qq_chat_def dest: get_id_valid split: if_splits)

lemma platform_prefixes:
  "nonempty_str u \<Longrightarrow> nonempty_str (qq_identity u)" "nonempty_str u \<Longrightarrow> nonempty_str (telegram_identity u)"
  "nonempty_str i \<Longrightarrow> nonempty_str (qq_envelope_id c i)"
  "nonempty_str i \<Longrightarrow> nonempty_str (telegram_envelope_id c chat i)"
  using strip_prefixed [of 113 u "[113, 58]"] strip_prefixed [of 116 u "[101, 108, 101, 103, 114, 97, 109, 58]"]
    strip_prefixed [of 113 i "[113, 58] @ c @ [58]"]
    strip_prefixed [of 116 i "[101, 108, 101, 103, 114, 97, 109, 58] @ c @ [58] @ chat @ [58]"]
  by (simp_all add: nonempty_str_iff qq_identity_def telegram_identity_def qq_envelope_id_def
      telegram_envelope_id_def str_simps py_space_def)

subsection \<open>Reading back what was encoded\<close>

fun qq_readable :: "capabilities \<Rightarrow> segment \<Rightarrow> segment" where
  "qq_readable caps (ImageSegment u a) = (if cap_images caps then ImageSegment u None
     else TextSegment (media_fallback (ImageSegment u a)))"
| "qq_readable caps (StickerSegment i n) = (if cap_stickers caps then StickerSegment i None
     else TextSegment (media_fallback (StickerSegment i n)))"
| "qq_readable caps (VoiceSegment u m d) = (if cap_voice_messages caps then VoiceSegment u None None
     else TextSegment (media_fallback (VoiceSegment u m d)))"
| "qq_readable caps s = TextSegment (media_fallback s)"

definition qq_meme_readable :: "capabilities \<Rightarrow> (ustr, ustr) dict option \<Rightarrow> ustr option \<Rightarrow> segment list" where
  "qq_meme_readable caps intents meme = (case meme of None \<Rightarrow> []
     | Some m \<Rightarrow> (case meme_sticker caps intents m of
         Some i \<Rightarrow> [StickerSegment i None] | None \<Rightarrow> [TextSegment (meme_text m)]))"

lemma onebot_fields [simp]:
  "as_string_mapping (onebot ty key v) = Some [(lit ''type'', JStr (lit ty)), (lit ''data'', JObj [(lit key, JStr v)])]"
  "get_str [(lit ''type'', JStr (lit ty)), d] (lit ''type'') = Some (lit ty)"
  "get_mapping [(lit ''type'', JStr t), (lit ''data'', JObj kvs)] (lit ''data'') = Some kvs"
  by (simp_all add: onebot_def get_str_def get_mapping_def payload_get_def dict_get_def)

lemma get_str_single: "get_str [(k, JStr v)] j = (if k = j then Some v else None)"
  by (simp add: get_str_def payload_get_def dict_get_def)

lemma get_id_single: "nonempty_str v \<Longrightarrow> get_id [(k, JStr v)] k = Some v"
  by (simp add: get_id_def payload_get_def dict_get_def nonempty_str_iff)

definition qs_append :: "segment list \<Rightarrow> qq_scan \<Rightarrow> qq_scan" where
  "qs_append ss q = q\<lparr>qs_segments := qs_segments q @ ss\<rparr>"

lemma qs_append_simps [simp]: "qs_append [] q = q" "qs_append ts (qs_append ss q) = qs_append (ss @ ts) q"
  by (simp_all add: qs_append_def)

lemma or_opt_nonempty: "nonempty_str s \<Longrightarrow> or_opt (Some s) b = Some s"
  by (cases s) (simp_all add: nonempty_str_iff)

lemma scan_encoded:
  assumes "nonempty_str v"
  shows "scan_qq_segment self_id (onebot ''text'' ''text'' v) q = Inr (qs_append [TextSegment v] q)"
    "scan_qq_segment self_id (onebot ''image'' ''file'' v) q = Inr (qs_append [ImageSegment v None] q)"
    "scan_qq_segment self_id (onebot ''face'' ''id'' v) q = Inr (qs_append [StickerSegment v None] q)"
    "scan_qq_segment self_id (onebot ''record'' ''file'' v) q = Inr (qs_append [VoiceSegment v None None] q)"
    "scan_qq_segment self_id (onebot ''reply'' ''id'' v) q = Inr (q\<lparr>qs_reply_to := Some v\<rparr>)"
  using assms
  by (simp_all add: scan_qq_segment_def qq_text_def qq_image_def qq_face_def qq_record_def qq_reply_def
      qq_locator_def visible_def get_str_single get_id_single or_empty_def or_opt_nonempty qs_add_valid
      qs_append_def nonempty_strip nonempty_str_iff [THEN iffD1])

lemma scan_append:
  "scan_qq_message self_id (xs @ ys) q = bindr (scan_qq_message self_id xs q) (scan_qq_message self_id ys)"
  by (induction xs arbitrary: q) (auto simp: bindr_def split: sum.split)

lemma scan_each:
  assumes "\<And>x q. x \<in> set xs \<Longrightarrow> scan_qq_segment self_id (f x) q = Inr (qs_append [g x] q)"
  shows "scan_qq_message self_id (map f xs) q = Inr (qs_append (map g xs) q)"
  using assms by (induction xs arbitrary: q) auto

lemma scan_media:
  assumes "valid_segment m"
  shows "scan_qq_segment self_id (encode_qq_media caps m) q = Inr (qs_append [qq_readable caps m] q)"
  using assms by (cases m) (simp_all add: encode_qq_media_def scan_encoded del: media_fallback.simps)

lemma scan_texts:
  assumes "list_all nonempty_str ts" and "ts \<noteq> []" and "valid_opt reply_to"
  shows "scan_qq_message self_id (concat (encode_qq_texts reply_to ts)) q
    = Inr (qs_append (map TextSegment ts) (case reply_to of None \<Rightarrow> q | Some i \<Rightarrow> q\<lparr>qs_reply_to := Some i\<rparr>))"
proof -
  have plain: "scan_qq_message self_id (concat (encode_qq_texts None us)) p = Inr (qs_append (map TextSegment us) p)"
    if "list_all nonempty_str us" for us p
    using that by (induction us arbitrary: p) (simp_all add: scan_encoded)
  obtain t us where "ts = t # us" using assms(2) by (cases ts) auto
  then show ?thesis using assms(1,3) plain by (cases reply_to) (simp_all add: scan_encoded)
qed

lemma scan_meme:
  assumes "\<And>m i. meme = Some m \<Longrightarrow> meme_sticker caps intents m = Some i \<Longrightarrow> nonempty_str i"
  shows "scan_qq_message self_id (encode_qq_meme caps intents meme) q = Inr (qs_append (qq_meme_readable caps intents meme) q)"
  using assms by (auto simp: encode_qq_meme_def qq_meme_readable_def scan_encoded split: option.split)

section \<open>Properties of the QQ adapter\<close>

text \<open>
  every event the QQ adapter translates carries a valid envelope (visible ids, at least
  one segment, each of them well-formed) of the right platform, sender and chat, and it says
  that the bot is mentioned exactly when one of its segments addresses the bot's own id.
\<close>

theorem qq_event_well_formed:
  assumes "translate_qq_event fault trace event connection_id self_id = Inr (Some ev)"
  defines "e \<equiv> ie_envelope ev"
  shows "valid_envelope e \<and> env_platform e = QQ \<and> env_connection_id e = strip connection_id \<and>
    (\<exists>user_id message_id. get_id event (lit ''user_id'') = Some user_id \<and>
       get_id event (lit ''message_id'') = Some message_id \<and>
       env_id e = qq_envelope_id connection_id message_id \<and> env_sender_identity_id e = qq_identity user_id \<and>
       (env_chat_kind e = DIRECT \<and> env_chat_id e = user_id \<or>
        env_chat_kind e = GROUP \<and> get_id event (lit ''group_id'') = Some (env_chat_id e))) \<and>
    (ie_mentions_self ev \<longleftrightarrow> AtSegment (dec_int self_id) None \<in> set (env_segments e))"
  using assms(1)
proof (cases rule: qq_event_cases)
  case (built message_id user_id occurred chat q)
  from built(6) obtain v where v: "build_envelope v = Inr e" "ie_mentions_self ev = qs_mentions_self q"
    "env_id v = qq_envelope_id connection_id message_id" "env_connection_id v = connection_id"
    "env_platform v = QQ" "env_chat_kind v = fst chat" "env_chat_id v = snd chat"
    "env_sender_identity_id v = qq_identity user_id" "env_segments v = qs_segments q"
    by (auto simp: finish_qq_event_def bindr_eq_Inr e_def split: if_splits)
  have ids: "nonempty_str message_id" "nonempty_str user_id" using built(1,2) by (auto dest: get_id_valid)
  note chat = qq_chat_cases [OF built(4) ids(2)]
  have "scan_inv self_id q" using scan_inv_message [OF scan_inv_start built(5)] .
  moreover have "e = strip_envelope v" "valid_envelope e" using build_envelope_Inr [OF v(1)] by auto
  moreover have "strip (qq_envelope_id connection_id message_id) = qq_envelope_id connection_id message_id"
    "strip (qq_identity user_id) = qq_identity user_id" "strip (snd chat) = snd chat"
    using ids chat platform_prefixes by (auto intro: nonempty_strip)
  ultimately show ?thesis using v built(1,2) chat by (auto simp: strip_envelope_def scan_inv_def)
qed auto

text \<open>
  what the QQ encoder writes, the QQ translation reads back: scanning the message arrays
  of a reply plan yields its texts and its media in order (an alternative text or a duration
  is not transmitted, an unsupported medium becomes its placeholder), then the sticker or
  placeholder of the meme, and the message replied to.
\<close>

theorem qq_round_trip:
  assumes "list_all nonempty_str (rp_text_segments plan)" and "rp_text_segments plan \<noteq> []"
    and "list_all valid_segment (rp_media_segments plan)" and "valid_opt reply_to"
    and "\<And>m i. rp_meme_intent plan = Some m \<Longrightarrow> meme_sticker caps intents m = Some i \<Longrightarrow> nonempty_str i"
  shows "\<exists>messages. encode_qq_reply plan caps reply_to intents = Inr messages \<and>
    length messages = length (rp_text_segments plan) \<and>
    scan_qq_message self_id (concat messages) qq_scan_start
      = Inr \<lparr>qs_segments = map TextSegment (rp_text_segments plan)
               @ map (qq_readable caps) (rp_media_segments plan)
               @ qq_meme_readable caps intents (rp_meme_intent plan),
             qs_mentions_self = False, qs_reply_to = reply_to\<rparr>"
proof -
  let ?texts = "encode_qq_texts reply_to (rp_text_segments plan)"
  let ?extra = "map (encode_qq_media caps) (rp_media_segments plan) @ encode_qq_meme caps intents (rp_meme_intent plan)"
  have len: "length (encode_qq_texts r ts) = length ts" for r ts
    by (induction r ts rule: encode_qq_texts.induct) auto
  have ne: "?texts \<noteq> []" using assms(2) len [of reply_to "rp_text_segments plan"] by (metis length_0_conv)
  have media: "scan_qq_message self_id (map (encode_qq_media caps) (rp_media_segments plan)) q
      = Inr (qs_append (map (qq_readable caps) (rp_media_segments plan)) q)" for q
    using assms(3) by (intro scan_each scan_media) (auto simp: list_all_iff)
  have "concat (butlast ?texts @ [last ?texts @ ?extra]) = concat (butlast ?texts @ [last ?texts]) @ ?extra"
    by simp
  also have "\<dots> = concat ?texts @ ?extra" by (simp only: append_butlast_last_id [OF ne])
  finally have flat: "concat (butlast ?texts @ [last ?texts @ ?extra]) = concat ?texts @ ?extra" .
  have "length (butlast ?texts @ [last ?texts @ ?extra]) = length (rp_text_segments plan)"
    using assms(2) by (simp add: len Suc_pred length_greater_0_conv)
  moreover have "scan_qq_message self_id (concat (butlast ?texts @ [last ?texts @ ?extra])) qq_scan_start
      = Inr \<lparr>qs_segments = map TextSegment (rp_text_segments plan)
               @ map (qq_readable caps) (rp_media_segments plan)
               @ qq_meme_readable caps intents (rp_meme_intent plan),
             qs_mentions_self = False, qs_reply_to = reply_to\<rparr>"
    unfolding flat by (simp add: scan_append scan_texts [OF assms(1,2,4)] media scan_meme [OF assms(5)])
      (simp add: qs_append_def qq_scan_start_def split: option.split)
  moreover have "encode_qq_reply plan caps reply_to intents = Inr (butlast ?texts @ [last ?texts @ ?extra])"
    using ne by (simp add: encode_qq_reply_def Let_def)
  ultimately show ?thesis by blast
qed

text \<open>
  the QQ translation raises only for a file whose name is white space, for a time
  outside the years 1 to 9999, or for a blank connection or trace id; every other event is
  translated or skipped.
\<close>

theorem qq_event_faults:
  assumes "translate_qq_event fault trace event connection_id self_id = Inl x"
  shows "x = validation_error \<and> ((\<exists>raw \<in> set (get_sequence event (lit ''message'')). blank_file raw) \<or>
      strip connection_id = [] \<or> strip trace = []) \<or>
    (\<exists>t. get_int event (lit ''time'') = Some t \<and> \<not> (-62135596800 \<le> t \<and> t \<le> 253402300799) \<and> x = Raised (fault t))"
  using assms
proof (cases rule: qq_event_cases)
  case (scan y)
  then show ?thesis using scan_message_raises by auto
next
  case (built message_id user_id occurred chat q)
  have inv: "scan_inv self_id q" using scan_inv_message [OF scan_inv_start built(5)] .
  have ids: "nonempty_str message_id" "nonempty_str user_id" using built(1,2) by (auto dest: get_id_valid)
  note chat = qq_chat_cases [OF built(4) ids(2)]
  show ?thesis
  proof (cases "from_timestamp fault occurred")
    case (Inl y)
    then have "\<not> (-62135596800 \<le> occurred \<and> occurred \<le> 253402300799) \<and> y = Raised (fault occurred)"
      by (auto simp: from_timestamp_def split: if_splits)
    moreover have "x = y" using built(6) Inl by (auto simp: finish_qq_event_def split: if_splits)
    ultimately show ?thesis using built(3) by blast
  next
    case (Inr moment)
    with built(6) obtain v where v: "build_envelope v = Inl x" "qs_segments q \<noteq> []"
      "env_id v = qq_envelope_id connection_id message_id" "env_connection_id v = connection_id"
      "env_chat_id v = snd chat" "env_thread_id v = None" "env_reply_to_message_id v = qs_reply_to q"
      "env_sender_identity_id v = qq_identity user_id" "env_segments v = qs_segments q" "env_trace_id v = trace"
      by (auto simp: finish_qq_event_def bindr_def split: if_splits sum.splits)
    then have x: "x = validation_error" "\<not> valid_envelope (strip_envelope v)"
      by (auto simp: build_envelope_def split: if_splits)
    have "strip connection_id = [] \<or> strip trace = []"
    proof (rule ccontr)
      assume "\<not> (strip connection_id = [] \<or> strip trace = [])"
      then have "nonempty_str (strip connection_id)" "nonempty_str (strip trace)"
        by (auto intro: nonempty_of_strip)
      moreover have "map_option strip (qs_reply_to q) = qs_reply_to q" "valid_opt (qs_reply_to q)"
        "list_all valid_segment (qs_segments q)" using inv by (auto simp: scan_inv_def strip_valid_opt)
      ultimately have "valid_envelope (strip_envelope v)"
        using v ids chat platform_prefixes(1) [OF ids(2)] platform_prefixes(3) [OF ids(1)]
        by (simp add: valid_envelope_def strip_envelope_def nonempty_strip)
      with x(2) show False by contradiction
    qed
    then show ?thesis using x(1) by blast
  qed
qed simp

text \<open>A private message that greets and addresses the bot, whose id is 7.\<close>

definition demo_qq_event :: "int \<Rightarrow> (ustr, json) dict" where
  "demo_qq_event t = [(lit ''post_type'', JStr (lit ''message'')), (lit ''message_type'', JStr (lit ''private'')),
     (lit ''message_id'', JInt 3), (lit ''user_id'', JInt 5), (lit ''time'', JInt t),
     (lit ''message'', JArr [onebot ''at'' ''qq'' [55], onebot ''text'' ''text'' (lit ''hey'')])]"

lemma demo_qq_scan:
  "scan_qq_message 7 (get_sequence (demo_qq_event t) (lit ''message'')) qq_scan_start
     = Inr \<lparr>qs_segments = [AtSegment [55] None, TextSegment (lit ''hey'')], qs_mentions_self = True, qs_reply_to = None\<rparr>"
proof -
  have "nonempty_str (lit ''hey'')" "nonempty_str [55]" "dec_int 7 = [55]"
    by (simp_all add: nonempty_str_iff str_simps strip_def lstrip_def rstrip_def py_space_def dec_int_def dec.simps)
  then show ?thesis
    by (simp add: demo_qq_event_def get_sequence_def payload_get_def dict_get_def scan_encoded)
      (simp add: scan_qq_segment_def qq_at_def qq_text_def or_empty_def get_str_single get_id_single
        qs_add_valid qs_append_def qq_scan_start_def nonempty_strip Let_def)
qed

lemma demo_qq_fields:
  "get_str (demo_qq_event t) (lit ''post_type'') = Some (lit ''message'')"
  "get_str (demo_qq_event t) (lit ''message_type'') = Some (lit ''private'')"
  "get_id (demo_qq_event t) (lit ''message_id'') = Some [51]"
  "get_id (demo_qq_event t) (lit ''user_id'') = Some [53]"
  "get_int (demo_qq_event t) (lit ''time'') = Some t"
  by (simp_all add: demo_qq_event_def get_str_def get_id_def get_int_def payload_get_def dict_get_def
      dec_int_def dec.simps)

lemmas demo_qq_simps = translate_qq_event_def demo_qq_fields demo_qq_scan qq_chat_def finish_qq_event_def

theorem qq_event_well_formed_witness:
  "\<exists>ev. translate_qq_event (\<lambda>t. []) [116] (demo_qq_event 9) [99] 7 = Inr (Some ev) \<and>
     valid_envelope (ie_envelope ev) \<and> env_sender_identity_id (ie_envelope ev) = qq_identity [53]"
proof -
  obtain ev where ev: "translate_qq_event (\<lambda>t. []) [116] (demo_qq_event 9) [99] 7 = Inr (Some ev)"
    by (simp add: demo_qq_simps from_timestamp_def build_envelope_def)
      (simp add: valid_envelope_def strip_envelope_def qq_identity_def qq_envelope_id_def nonempty_str_iff str_simps strip_def lstrip_def rstrip_def py_space_def)
  from qq_event_well_formed [OF ev] show ?thesis
    using ev demo_qq_fields by auto
qed

theorem qq_event_faults_witness:
  "translate_qq_event (\<lambda>t. lit ''ValueError'') [116] (demo_qq_event 253402300800) [99] 7 = Inl (Raised (lit ''ValueError''))"
proof -
  obtain x where x: "translate_qq_event (\<lambda>t. lit ''ValueError'') [116] (demo_qq_event 253402300800) [99] 7 = Inl x"
    by (simp add: demo_qq_simps from_timestamp_def)
  have "blank_file (onebot ty k v) \<Longrightarrow> ty = ''file''" for ty k v by (simp add: blank_file_def)
  then have "\<not> (\<exists>raw \<in> set (get_sequence (demo_qq_event 253402300800) (lit ''message'')). blank_file raw)"
    by (auto simp: demo_qq_event_def get_sequence_def payload_get_def dict_get_def)
  moreover have "strip [99] \<noteq> []" "strip [116] \<noteq> []" by (simp_all add: strip_eq_Nil_iff py_space_def)
  ultimately show ?thesis using qq_event_faults [OF x] x by auto
qed

definition demo_plan :: reply_plan where
  "demo_plan = \<lparr>rp_text_segments = [lit ''a'', lit ''b''], rp_media_segments = [ImageSegment (lit ''u'') (Some (lit ''x''))],
     rp_citations = [], rp_meme_intent = Some (lit ''m''), rp_typing = typing_default False\<rparr>"

theorem qq_round_trip_witness:
  "\<exists>messages. encode_qq_reply demo_plan qq_capabilities (Some [51]) None = Inr messages \<and> length messages = 2 \<and>
     scan_qq_message 7 (concat messages) qq_scan_start
       = Inr \<lparr>qs_segments = [TextSegment (lit ''a''), TextSegment (lit ''b''), ImageSegment (lit ''u'') None,
                TextSegment (meme_text (lit ''m''))], qs_mentions_self = False, qs_reply_to = Some [51]\<rparr>"
proof -
  have p: "list_all nonempty_str (rp_text_segments demo_plan)" "rp_text_segments demo_plan \<noteq> []"
    "list_all valid_segment (rp_media_segments demo_plan)" "valid_opt (Some [51])"
    by (simp_all add: demo_plan_def nonempty_str_iff str_simps strip_def lstrip_def rstrip_def py_space_def)
  have r: "map TextSegment (rp_text_segments demo_plan) @ map (qq_readable qq_capabilities) (rp_media_segments demo_plan)
      @ qq_meme_readable qq_capabilities None (rp_meme_intent demo_plan)
    = [TextSegment (lit ''a''), TextSegment (lit ''b''), ImageSegment (lit ''u'') None, TextSegment (meme_text (lit ''m''))]"
    "length (rp_text_segments demo_plan) = 2"
    by (simp_all add: demo_plan_def qq_capabilities_def qq_meme_readable_def meme_sticker_def)
  from qq_round_trip [OF p, of qq_capabilities None 7] show ?thesis
    unfolding r by (simp add: meme_sticker_def)
qed

section \<open>Properties of the Telegram adapter\<close>

text \<open>What the content of an update can become: media and files are addressed by platform
  locators, and nothing in the content is an address.\<close>

fun tg_addressed :: "segment \<Rightarrow> bool" where
  "tg_addressed (ImageSegment u a) = starts_with tg_locator_prefix u"
| "tg_addressed (FileSegment n u m) = starts_with tg_locator_prefix u"
| "tg_addressed (StickerSegment i n) = starts_with tg_locator_prefix i"
| "tg_addressed (VoiceSegment u m d) = starts_with tg_locator_prefix u"
| "tg_addressed (AtSegment t n) = False"
| "tg_addressed _ = True"

definition tg_inv :: "segment list \<Rightarrow> bool" where
  "tg_inv segs \<longleftrightarrow> list_all valid_segment segs \<and> list_all tg_addressed segs"

lemma rstrip_append:
  assumes "p \<noteq> []" and "\<not> py_space (last p)"
  shows "rstrip (p @ i) = p @ rstrip i"
proof -
  have "dropWhile py_space (rev p) = rev p"
    using assms by (simp add: dropWhile_eq_self_iff hd_rev)
  then show ?thesis by (simp add: rstrip_def dropWhile_append)
qed

lemma strip_locator: "strip (tg_locator_prefix @ i) = tg_locator_prefix @ rstrip i"
proof -
  have "lstrip (tg_locator_prefix @ i) = tg_locator_prefix @ i"
    by (intro lstrip_rstrip_id) (simp add: tg_locator_prefix_def str_simps py_space_def)
  moreover have "tg_locator_prefix \<noteq> []" "\<not> py_space (last tg_locator_prefix)"
    by (simp_all add: tg_locator_prefix_def str_simps py_space_def)
  ultimately show ?thesis by (simp add: strip_def rstrip_append)
qed

lemma tg_file_locator: "tg_file d = Some u \<Longrightarrow> starts_with tg_locator_prefix (strip u)"
  by (auto simp: tg_file_def strip_locator split: option.splits if_splits)

lemma tg_inv_add:
  assumes "tg_inv segs" and "seg_add s segs = Inr segs'" and "tg_addressed (strip_segment s)"
  shows "tg_inv segs'"
  using assms by (auto simp: seg_add_def bindr_eq_Inr tg_inv_def dest: build_segment_Inr)

lemma tg_inv_steps:
  assumes "tg_inv segs"
  shows "tg_text key message segs = Inr segs' \<Longrightarrow> tg_inv segs'" "tg_photo message segs = Inr segs' \<Longrightarrow> tg_inv segs'"
    "tg_document casefold message segs = Inr segs' \<Longrightarrow> tg_inv segs'" "tg_sticker message segs = Inr segs' \<Longrightarrow> tg_inv segs'"
    "tg_voice message segs = Inr segs' \<Longrightarrow> tg_inv segs'" "seg_add (TextSegment t) segs = Inr segs' \<Longrightarrow> tg_inv segs'"
  using assms tg_inv_add [OF assms] tg_file_locator
  by (auto simp: tg_text_def tg_photo_def tg_document_def tg_sticker_def tg_voice_def Let_def
      split: option.splits if_splits list.splits)

lemma tg_content_inv:
  assumes "tg_content casefold message = Inr segs"
  shows "tg_inv segs"
proof -
  have "tg_inv []" by (simp add: tg_inv_def)
  moreover obtain s1 s2 s3 s4 s5 where "tg_text ''text'' message [] = Inr s1" "tg_text ''caption'' message s1 = Inr s2"
    "tg_photo message s2 = Inr s3" "tg_document casefold message s3 = Inr s4" "tg_sticker message s4 = Inr s5"
    "tg_voice message s5 = Inr segs"
    using assms unfolding tg_content_def bindr_eq_Inr by blast
  ultimately show ?thesis by (metis tg_inv_steps(1-5))
qed

lemma tg_inv_segments:
  assumes "tg_segments casefold message = Inr (Some segs)"
  shows "tg_inv segs \<and> segs \<noteq> []"
proof -
  obtain found where found: "tg_content casefold message = Inr found"
    using assms by (auto simp: tg_segments_def bindr_eq_Inr)
  show ?thesis
  proof (cases "found = []")
    case False
    then show ?thesis using assms found tg_content_inv [OF found] by (auto simp: tg_segments_def)
  next
    case True
    with assms found obtain k where "seg_add (TextSegment (unsupported_text k)) [] = Inr segs"
      by (auto simp: tg_segments_def bindr_eq_Inr split: option.splits)
    then show ?thesis using tg_inv_steps(6) [of "[]"] tg_content_inv [OF found] True
      by (auto simp: seg_add_def bindr_eq_Inr)
  qed
qed

lemma telegram_update_cases:
  assumes "translate_telegram_update fault trace casefold update connection_id self_id bot_username = Inr (Some ev)"
  obtains message sender kind chat_id sender_id message_id occurred segs where
    "get_mapping update (lit ''message'') = Some message" "nonempty_str chat_id" "nonempty_str sender_id"
    "nonempty_str message_id" "tg_segments casefold message = Inr (Some segs)"
    "finish_telegram_update fault trace casefold update connection_id self_id bot_username message sender
       kind chat_id sender_id message_id occurred (Some segs) = Inr (Some ev)"
proof -
  obtain message where m: "get_mapping update (lit ''message'') = Some message"
    using assms by (auto simp: translate_telegram_update_def split: option.splits)
  obtain chat sender where c: "get_mapping message (lit ''chat'') = Some chat" "get_mapping message (lit ''from'') = Some sender"
    using assms m by (auto simp: translate_telegram_update_def split: option.splits)
  obtain kind chat_id sender_id message_id occurred where ids: "get_id chat (lit ''id'') = Some chat_id"
    "get_id sender (lit ''id'') = Some sender_id" "get_id message (lit ''message_id'') = Some message_id"
    and run: "bindr (tg_segments casefold message)
       (finish_telegram_update fault trace casefold update connection_id self_id bot_username
          message sender kind chat_id sender_id message_id occurred) = Inr (Some ev)"
    using assms m c by (auto simp: translate_telegram_update_def split: option.splits)
  from run obtain found where found: "tg_segments casefold message = Inr found"
    "finish_telegram_update fault trace casefold update connection_id self_id bot_username
       message sender kind chat_id sender_id message_id occurred found = Inr (Some ev)"
    by (auto simp: bindr_eq_Inr)
  then obtain segs where "found = Some segs" by (cases found) (auto simp: finish_telegram_update_def)
  then show thesis using that [OF m] ids found by (blast dest: get_id_valid)
qed

text \<open>
  every update the Telegram adapter translates carries a valid envelope whose segments
  are the content of the message, preceded by an address of the bot exactly when the event
  says that the bot is mentioned; media and files are addressed by platform locators only,
  never by a URL the sender could choose.
\<close>

theorem telegram_event_well_formed:
  assumes "translate_telegram_update fault trace casefold update connection_id self_id bot_username = Inr (Some ev)"
  defines "e \<equiv> ie_envelope ev"
  shows "valid_envelope e \<and> env_platform e = TELEGRAM \<and> env_connection_id e = strip connection_id \<and>
    (\<exists>message content. get_mapping update (lit ''message'') = Some message \<and>
       tg_segments casefold message = Inr (Some content) \<and> list_all tg_addressed content \<and>
       ie_mentions_self ev = mentions_bot casefold (or_empty (get_str message (lit ''text''))) message bot_username self_id \<and>
       env_segments e = (if ie_mentions_self ev then [AtSegment (dec_int self_id) (Some (strip bot_username))] else []) @ content)"
  using assms(1)
proof (rule telegram_update_cases)
  fix message sender kind chat_id sender_id message_id occurred segs
  assume m: "get_mapping update (lit ''message'') = Some message"
    and ids: "nonempty_str chat_id" "nonempty_str sender_id" "nonempty_str message_id"
    and segs: "tg_segments casefold message = Inr (Some segs)"
    and fin: "finish_telegram_update fault trace casefold update connection_id self_id bot_username message sender
       kind chat_id sender_id message_id occurred (Some segs) = Inr (Some ev)"
  let ?mentions = "mentions_bot casefold (or_empty (get_str message (lit ''text''))) message bot_username self_id"
  obtain reply_to replies where r: "tg_reply message self_id = (reply_to, replies)" by fastforce
  from fin obtain all v where v: "(if ?mentions then bindr (build_segment (AtSegment (dec_int self_id) (Some bot_username)))
        (\<lambda>a. Inr (a # segs)) else Inr segs) = Inr all" "build_envelope v = Inr e" "ie_mentions_self ev = ?mentions"
      "env_connection_id v = connection_id" "env_platform v = TELEGRAM" "env_segments v = all"
    by (auto simp: finish_telegram_update_def r bindr_eq_Inr e_def Let_def)
  have all: "all = (if ?mentions then [AtSegment (dec_int self_id) (Some (strip bot_username))] else []) @ segs"
    using v(1) by (auto simp: bindr_eq_Inr dest: build_segment_Inr split: if_splits)
  have "list_all tg_addressed segs" using tg_inv_segments [OF segs] by (simp add: tg_inv_def)
  moreover have "e = strip_envelope v" "valid_envelope e" using build_envelope_Inr [OF v(2)] by auto
  ultimately show ?thesis using m segs v all by (auto simp: strip_envelope_def)
qed

text \<open>A private text update addressed to the bot named \<open>bot\<close>; the entity counts UTF-16 units.\<close>

definition demo_update :: "ustr \<Rightarrow> int \<Rightarrow> (ustr, json) dict" where
  "demo_update t start = [(lit ''message'', JObj [(lit ''chat'', JObj [(lit ''type'', JStr (lit ''private'')), (lit ''id'', JInt 4)]),
     (lit ''from'', JObj [(lit ''id'', JInt 5)]), (lit ''message_id'', JInt 6), (lit ''date'', JInt 9), (lit ''text'', JStr t),
     (lit ''entities'', JArr [JObj [(lit ''type'', JStr (lit ''mention'')), (lit ''offset'', JInt start), (lit ''length'', JInt 4)]])])]"

lemmas json_access = get_mapping_def get_sequence_def get_str_def get_int_def get_id_def payload_get_def dict_get_def

lemma demo_update_result:
  assumes "nonempty_str t"
  shows "\<exists>ev. translate_telegram_update fault [116] ascii_lower (demo_update t start) [99] 7 (lit ''bot'') = Inr (Some ev)"
proof -
  have "valid_segment (AtSegment (dec_int 7) (Some (lit ''bot'')))" "nonempty_str [99]" "nonempty_str [116]"
    by (simp_all add: nonempty_str_iff str_simps strip_def lstrip_def rstrip_def py_space_def dec_int_def dec.simps)
  moreover have "nonempty_str (dec_int i)" for i by (simp add: nonempty_str_iff)
  moreover have "t \<noteq> []" "strip t = t" using assms by (simp_all add: nonempty_str_iff)
  ultimately show ?thesis
    using assms platform_prefixes(2,4)
    by (simp add: translate_telegram_update_def demo_update_def json_access chat_kinds_def or_empty_def)
      (simp add: tg_segments_def tg_content_def tg_text_def tg_photo_def tg_document_def tg_sticker_def tg_voice_def
        json_access or_empty_def nonempty_strip seg_add_def build_segment_valid finish_telegram_update_def tg_reply_def
        Let_def from_timestamp_def build_envelope_def strip_envelope_def valid_envelope_def)
qed

lemma demo_mentions:
  assumes "get_mapping (demo_update t start) (lit ''message'') = Some message"
  shows "mentions_bot ascii_lower (or_empty (get_str message (lit ''text''))) message (lit ''bot'') 7
    \<longleftrightarrow> ascii_lower (py_slice start (start + 4) t) = lit ''@bot''"
  using assms
  by (simp add: demo_update_def json_access mentions_bot_def or_empty_def entity_mentions_def)
    (auto simp: mentions_bot_def entity_mentions_def json_access or_empty_def str_simps ascii_lower_def)

theorem telegram_event_well_formed_witness:
  "\<exists>ev. translate_telegram_update (\<lambda>t. []) [116] ascii_lower (demo_update (lit ''@Bot hi'') 0) [99] 7 (lit ''bot'') = Inr (Some ev) \<and>
     valid_envelope (ie_envelope ev) \<and>
     hd (env_segments (ie_envelope ev)) = AtSegment (dec_int 7) (Some (lit ''bot''))"
proof -
  have t: "nonempty_str (lit ''@Bot hi'')" "strip (lit ''bot'') = lit ''bot''"
    by (simp_all add: nonempty_str_iff str_simps strip_def lstrip_def rstrip_def py_space_def)
  obtain ev where ev: "translate_telegram_update (\<lambda>t. []) [116] ascii_lower (demo_update (lit ''@Bot hi'') 0) [99] 7 (lit ''bot'') = Inr (Some ev)"
    using demo_update_result [OF t(1)] by blast
  have slice: "ascii_lower (py_slice 0 (0 + 4) (lit ''@Bot hi'')) = lit ''@bot''"
    by (simp add: py_slice_def slice_index_def Let_def str_simps ascii_lower_def)
  from telegram_event_well_formed [OF ev] demo_mentions [of "lit ''@Bot hi''" 0] slice t(2)
  show ?thesis using ev by auto
qed

text \<open>An emoji before the mention is two UTF-16 units but one code point: the entity that
  starts at unit 3 is cut one character too far to the right and the mention is missed.\<close>

lemma emoji_mention_missed:
  assumes "get_mapping (demo_update [128512, 32, 64, 98, 111, 116] 3) (lit ''message'') = Some message"
  shows "\<not> mentions_bot ascii_lower (or_empty (get_str message (lit ''text''))) message (lit ''bot'') 7"
  unfolding demo_mentions [OF assms]
  by (simp add: py_slice_def slice_index_def Let_def str_simps ascii_lower_def)

end
