(* ===== verification/Pairing.thy ===== *)
theory Pairing
  imports Contracts "HOL-Library.List_Lexorder"
begin

text \<open>
  Access to direct messages: the gate of \<open>security/pairing.py\<close> and the tables behind it,
  \<open>repositories/pairing.py\<close>. A transaction of the repository is one operation on the
  tables (an advisory lock serialises the requests of an account), the SQL of each statement
  is written out over rows. Instants are microseconds; the clock and the identifier and code
  drawn for the next request are part of the world and change between operations. The main
  results: the tables refine an abstract access list, an account never has more pending
  requests than the limit, and the gate lets a message in exactly when its policy says so.
\<close>

section \<open>The gate\<close>

record pairing_policy =
  pp_policy :: ustr
  pp_allowlist :: "ustr list"

record pairing_ticket =
  pt_id :: ustr
  pt_platform :: ustr
  pt_connection_id :: ustr
  pt_subject_identity_id :: ustr
  pt_code :: ustr
  pt_expires_at :: int

record pairing_decision =
  pd_allowed :: bool
  pd_reply_text :: "ustr option"
  pd_reason :: ustr

record 'w pairing_store =
  ps_policy :: "ustr \<Rightarrow> ustr \<Rightarrow> ('w, pairing_policy) prog"
  ps_approved :: "ustr \<Rightarrow> ustr \<Rightarrow> ustr \<Rightarrow> ('w, bool) prog"
  ps_request :: "ustr \<Rightarrow> ustr \<Rightarrow> ustr \<Rightarrow> ('w, pairing_ticket option \<times> bool) prog"

definition let_in :: pairing_decision where
  "let_in = \<lparr>pd_allowed = True, pd_reply_text = None, pd_reason = lit ''allowed''\<rparr>"

definition keep_out :: "string \<Rightarrow> pairing_decision" where
  "keep_out reason = \<lparr>pd_allowed = False, pd_reply_text = None, pd_reason = lit reason\<rparr>"

definition pairing_prompt :: "ustr \<Rightarrow> ustr" where
  "pairing_prompt code = [27492, 36134, 21495, 38656, 35201, 20808, 23436, 25104, 37197, 23545, 12290, 37197, 23545, 30721, 58, 32]
     @ code @ [32, 40, 49, 32, 23567, 26102, 20869, 26377, 25928, 41, 12290, 35831, 35753, 31649, 29702, 21592, 22312, 32, 77, 121, 66, 111, 116, 32, 25511, 21046, 21488, 20013, 25209, 20934, 27492, 35831, 27714, 12290]"

definition pairing_check :: "'w pairing_store \<Rightarrow> envelope \<Rightarrow> ('w, pairing_decision) prog" where
  "pairing_check store e =
     (if env_chat_kind e \<noteq> DIRECT then retp let_in
      else let platform = platform_value (env_platform e); conn = env_connection_id e; sender = env_sender_identity_id e
      in bindp (ps_policy store platform conn) (\<lambda>policy.
         if pp_policy policy = lit ''open'' then retp let_in
         else if pp_policy policy = lit ''allowlist''
         then retp (if sender \<in> set (pp_allowlist policy) then let_in else keep_out ''allowlist_denied'')
         else if pp_policy policy \<noteq> lit ''paired'' then retp (keep_out ''invalid_policy'')
         else bindp (ps_approved store platform conn sender) (\<lambda>approved.
           if approved then retp let_in
           else bindp (ps_request store platform conn sender) (\<lambda>(ticket, created).
             case ticket of
               Some t \<Rightarrow> retp (if created
                 then \<lparr>pd_allowed = False, pd_reply_text = Some (pairing_prompt (pt_code t)), pd_reason = lit ''pairing_required''\<rparr>
                 else keep_out ''pairing_pending'')
             | None \<Rightarrow> retp (keep_out ''pairing_pending'')))))"

section \<open>The tables\<close>

record request_row =
  rr_id :: ustr
  rr_platform :: ustr
  rr_connection_id :: ustr
  rr_subject :: ustr
  rr_code :: ustr
  rr_created_at :: int
  rr_expires_at :: int
  rr_approved_at :: "int option"
  rr_dismissed_at :: "int option"

record pairing_db =
  db_policy :: "(ustr \<times> ustr, ustr \<times> ustr list) dict"
  db_requests :: "request_row list"
  db_approvals :: "(ustr \<times> ustr \<times> ustr, int) dict"
  db_now :: int
  db_draw :: "ustr \<times> ustr"

record pairing_config =
  pc_request_ttl :: int
  pc_pending_limit :: nat

definition default_pairing :: pairing_config where
  "default_pairing = \<lparr>pc_request_ttl = 3600 * 1000000, pc_pending_limit = 3\<rparr>"

definition pairing_policy_of :: "ustr \<Rightarrow> ustr \<Rightarrow> (pairing_db, pairing_policy) prog" where
  "pairing_policy_of platform conn db = (Inr (case map_of (db_policy db) (platform, conn) of
       None \<Rightarrow> \<lparr>pp_policy = lit ''open'', pp_allowlist = []\<rparr>
     | Some (p, allow) \<Rightarrow> \<lparr>pp_policy = p, pp_allowlist = allow\<rparr>), db)"

definition set_pairing_policy :: "ustr \<Rightarrow> ustr \<Rightarrow> ustr \<Rightarrow> ustr list \<Rightarrow> (pairing_db, pairing_policy) prog" where
  "set_pairing_policy platform conn policy allowlist db =
     (if policy \<notin> {lit ''open'', lit ''paired'', lit ''allowlist''} then (Inl (Raised (lit ''ValueError'')), db)
      else let normalized = sort (remdups (filter (\<lambda>s. s \<noteq> []) (map strip allowlist)))
        in (Inr \<lparr>pp_policy = policy, pp_allowlist = normalized\<rparr>,
            db\<lparr>db_policy := AList.update (platform, conn) (policy, normalized) (db_policy db)\<rparr>))"

definition pairing_approved :: "ustr \<Rightarrow> ustr \<Rightarrow> ustr \<Rightarrow> (pairing_db, bool) prog" where
  "pairing_approved platform conn subject db =
     (Inr (map_of (db_approvals db) (platform, conn, subject) \<noteq> None), db)"

text \<open>\<open>approved_at IS NULL AND dismissed_at IS NULL AND expires_at > now\<close>.\<close>

definition undecided :: "request_row \<Rightarrow> bool" where
  "undecided r \<longleftrightarrow> rr_approved_at r = None \<and> rr_dismissed_at r = None"

definition pending_row :: "int \<Rightarrow> request_row \<Rightarrow> bool" where
  "pending_row now r \<longleftrightarrow> undecided r \<and> rr_expires_at r > now"

definition account_row :: "ustr \<Rightarrow> ustr \<Rightarrow> request_row \<Rightarrow> bool" where
  "account_row platform conn r \<longleftrightarrow> rr_platform r = platform \<and> rr_connection_id r = conn"

definition ticket_of :: "request_row \<Rightarrow> pairing_ticket" where
  "ticket_of r = \<lparr>pt_id = rr_id r, pt_platform = rr_platform r, pt_connection_id = rr_connection_id r,
     pt_subject_identity_id = rr_subject r, pt_code = rr_code r, pt_expires_at = rr_expires_at r\<rparr>"

definition new_request :: "pairing_config \<Rightarrow> ustr \<Rightarrow> ustr \<Rightarrow> ustr \<Rightarrow> pairing_db \<Rightarrow> request_row" where
  "new_request cfg platform conn subject db = \<lparr>rr_id = fst (db_draw db), rr_platform = platform,
     rr_connection_id = conn, rr_subject = subject, rr_code = snd (db_draw db), rr_created_at = db_now db,
     rr_expires_at = db_now db + pc_request_ttl cfg, rr_approved_at = None, rr_dismissed_at = None\<rparr>"

text \<open>The identifier is the primary key and the code is unique: a clash fails the insertion,
  and with it the transaction.\<close>

definition pairing_request ::
  "pairing_config \<Rightarrow> ustr \<Rightarrow> ustr \<Rightarrow> ustr \<Rightarrow> (pairing_db, pairing_ticket option \<times> bool) prog" where
  "pairing_request cfg platform conn subject db =
     (let open_rows = filter (\<lambda>r. account_row platform conn r \<and> pending_row (db_now db) r) (db_requests db)
      in case sort_key (\<lambda>r. - rr_created_at r) (filter (\<lambda>r. rr_subject r = subject) open_rows) of
           r # _ \<Rightarrow> (Inr (Some (ticket_of r), False), db)
         | [] \<Rightarrow>
             if length open_rows \<ge> pc_pending_limit cfg then (Inr (None, False), db)
             else let row = new_request cfg platform conn subject db
               in if rr_id row \<in> rr_id ` set (db_requests db) \<or> rr_code row \<in> rr_code ` set (db_requests db)
                  then (Inl (Raised (lit ''IntegrityError'')), db)
                  else (Inr (Some (ticket_of row), True), db\<lparr>db_requests := db_requests db @ [row]\<rparr>))"

definition pairing_pending :: "(pairing_db, request_row list) prog" where
  "pairing_pending db =
     (Inr (sort_key (\<lambda>r. - rr_created_at r) (filter (pending_row (db_now db)) (db_requests db))), db)"

text \<open>\<open>UPDATE ... WHERE id = :id AND ... RETURNING ...\<close> on a table with a primary key.\<close>

definition pairing_approve :: "ustr \<Rightarrow> (pairing_db, bool) prog" where
  "pairing_approve rid db =
     (case find (\<lambda>r. rr_id r = rid \<and> pending_row (db_now db) r) (db_requests db) of
        None \<Rightarrow> (Inr False, db)
      | Some row \<Rightarrow> (Inr True,
          db\<lparr>db_requests := map (\<lambda>r. if rr_id r = rid \<and> pending_row (db_now db) r
               then r\<lparr>rr_approved_at := Some (db_now db)\<rparr> else r) (db_requests db),
             db_approvals := AList.update (rr_platform row, rr_connection_id row, rr_subject row) (db_now db)
               (db_approvals db)\<rparr>))"

definition pairing_dismiss :: "ustr \<Rightarrow> (pairing_db, bool) prog" where
  "pairing_dismiss rid db =
     (Inr (\<exists>r \<in> set (db_requests db). rr_id r = rid \<and> undecided r),
      db\<lparr>db_requests := map (\<lambda>r. if rr_id r = rid \<and> undecided r
           then r\<lparr>rr_dismissed_at := Some (db_now db)\<rparr> else r) (db_requests db)\<rparr>)"

definition pairing_tables :: "pairing_config \<Rightarrow> pairing_db pairing_store" where
  "pairing_tables cfg = \<lparr>ps_policy = pairing_policy_of, ps_approved = pairing_approved,
     ps_request = pairing_request cfg\<rparr>"

section \<open>Runs\<close>

datatype pairing_op =
    Elapse int "ustr \<times> ustr"
  | Set_policy ustr ustr ustr "ustr list"
  | Check envelope
  | Approve ustr
  | Dismiss ustr

text \<open>The clock of the database never runs backwards.\<close>

fun pairing_step :: "pairing_config \<Rightarrow> pairing_op \<Rightarrow> pairing_db \<Rightarrow> pairing_db" where
  "pairing_step cfg (Elapse t draw) db = db\<lparr>db_now := max t (db_now db), db_draw := draw\<rparr>"
| "pairing_step cfg (Set_policy p c policy allow) db = snd (set_pairing_policy p c policy allow db)"
| "pairing_step cfg (Check e) db = snd (pairing_check (pairing_tables cfg) e db)"
| "pairing_step cfg (Approve rid) db = snd (pairing_approve rid db)"
| "pairing_step cfg (Dismiss rid) db = snd (pairing_dismiss rid db)"

definition pairing_run :: "pairing_config \<Rightarrow> pairing_op list \<Rightarrow> pairing_db \<Rightarrow> pairing_db" where
  "pairing_run cfg ops db = fold (pairing_step cfg) ops db"

definition empty_pairing_db :: pairing_db where
  "empty_pairing_db = \<lparr>db_policy = [], db_requests = [], db_approvals = [], db_now = 0, db_draw = ([], [])\<rparr>"

section \<open>The invariant of the tables\<close>

definition open_rows :: "ustr \<Rightarrow> ustr \<Rightarrow> int \<Rightarrow> pairing_db \<Rightarrow> request_row list" where
  "open_rows p c t db = filter (\<lambda>r. account_row p c r \<and> pending_row t r) (db_requests db)"

definition pairing_inv :: "pairing_config \<Rightarrow> pairing_db \<Rightarrow> bool" where
  "pairing_inv cfg db \<longleftrightarrow> distinct (map rr_id (db_requests db)) \<and>
     (\<forall>p c t. db_now db \<le> t \<longrightarrow> length (open_rows p c t db) \<le> pc_pending_limit cfg \<and>
        distinct (map rr_subject (open_rows p c t db)))"

lemma pairing_invD:
  assumes "pairing_inv cfg db" and "db_now db \<le> t"
  shows "length (open_rows p c t db) \<le> pc_pending_limit cfg" "distinct (map rr_subject (open_rows p c t db))"
  using assms by (auto simp: pairing_inv_def)

lemma pairing_inv_empty: "pairing_inv cfg empty_pairing_db"
  by (simp add: pairing_inv_def empty_pairing_db_def open_rows_def)

lemma later_rows:
  assumes "t \<le> t'"
  shows "open_rows p c t' db = filter (pending_row t') (open_rows p c t db)"
  using assms by (auto simp: open_rows_def pending_row_def intro!: filter_cong)

text \<open>A request that is decided leaves the pending ones and changes nothing else.\<close>

definition decide :: "(request_row \<Rightarrow> bool) \<Rightarrow> (request_row \<Rightarrow> request_row) \<Rightarrow> request_row list \<Rightarrow> request_row list" where
  "decide q g rows = map (\<lambda>r. if q r then g r else r) rows"

lemma filter_decide:
  assumes "\<And>r. q r \<Longrightarrow> \<not> P (g r)"
  shows "filter P (decide q g rows) = filter (\<lambda>r. \<not> q r) (filter P rows)"
  using assms by (induction rows) (auto simp: decide_def)

lemma ids_decide: "(\<And>r. rr_id (g r) = rr_id r) \<Longrightarrow> map rr_id (decide q g rows) = map rr_id rows"
  by (simp add: decide_def)

lemma image_decide: "(\<And>r. f (g r) = f r) \<Longrightarrow> f ` set (decide q g rows) = f ` set rows"
  by (induction rows) (auto simp: decide_def)

lemma pairing_inv_decide:
  assumes "pairing_inv cfg db" and "\<And>r. rr_id (g r) = rr_id r" and "\<And>r. \<not> undecided (g r)"
    and "db_requests db' = decide q g (db_requests db)" and "db_now db' = db_now db"
  shows "pairing_inv cfg db'"
proof -
  have "open_rows p c t db' = filter (\<lambda>r. \<not> q r) (open_rows p c t db)" for p c t
    unfolding open_rows_def assms(4) by (rule filter_decide) (simp add: pending_row_def assms(3))
  then show ?thesis
    using assms(1,2,4,5) by (auto simp: pairing_inv_def ids_decide distinct_map_filter intro: le_trans [OF length_filter_le])
qed

text \<open>The pending requests of a subject, and the four outcomes of asking for one.\<close>

definition own_rows :: "ustr \<Rightarrow> ustr \<Rightarrow> ustr \<Rightarrow> pairing_db \<Rightarrow> request_row list" where
  "own_rows p c u db = filter (\<lambda>r. rr_subject r = u) (open_rows p c (db_now db) db)"

lemma pairing_request_eq:
  "pairing_request cfg p c u db =
     (case sort_key (\<lambda>r. - rr_created_at r) (own_rows p c u db) of
        r # _ \<Rightarrow> (Inr (Some (ticket_of r), False), db)
      | [] \<Rightarrow>
          if pc_pending_limit cfg \<le> length (open_rows p c (db_now db) db) then (Inr (None, False), db)
          else if fst (db_draw db) \<in> rr_id ` set (db_requests db) \<or> snd (db_draw db) \<in> rr_code ` set (db_requests db)
          then (Inl (Raised (lit ''IntegrityError'')), db)
          else (Inr (Some (ticket_of (new_request cfg p c u db)), True),
                db\<lparr>db_requests := db_requests db @ [new_request cfg p c u db]\<rparr>))"
  unfolding pairing_request_def own_rows_def open_rows_def Let_def
  by (simp add: new_request_def split: list.split)

lemma pairing_request_cases:
  obtains (asked) r where "r \<in> set (own_rows p c u db)" "pairing_request cfg p c u db = (Inr (Some (ticket_of r), False), db)"
  | (full) "own_rows p c u db = []" "pc_pending_limit cfg \<le> length (open_rows p c (db_now db) db)"
      "pairing_request cfg p c u db = (Inr (None, False), db)"
  | (clash) "own_rows p c u db = []" "length (open_rows p c (db_now db) db) < pc_pending_limit cfg"
      "fst (db_draw db) \<in> rr_id ` set (db_requests db) \<or> snd (db_draw db) \<in> rr_code ` set (db_requests db)"
      "pairing_request cfg p c u db = (Inl (Raised (lit ''IntegrityError'')), db)"
  | (created) "own_rows p c u db = []" "length (open_rows p c (db_now db) db) < pc_pending_limit cfg"
      "fst (db_draw db) \<notin> rr_id ` set (db_requests db)" "snd (db_draw db) \<notin> rr_code ` set (db_requests db)"
      "pairing_request cfg p c u db = (Inr (Some (ticket_of (new_request cfg p c u db)), True),
          db\<lparr>db_requests := db_requests db @ [new_request cfg p c u db]\<rparr>)"
proof (cases "sort_key (\<lambda>r. - rr_created_at r) (own_rows p c u db)")
  case Nil
  then have "own_rows p c u db = []" by (metis length_0_conv length_sort)
  then show thesis
    using full clash created by (simp add: pairing_request_eq not_le split: if_splits) (metis not_le)
next
  case (Cons r rs)
  then have "r \<in> set (own_rows p c u db)" by (metis list.set_intros(1) set_sort)
  then show thesis using Cons asked by (simp add: pairing_request_eq)
qed

lemma pairing_inv_request:
  assumes "pairing_inv cfg db"
  shows "pairing_inv cfg (snd (pairing_request cfg platform conn subject db))"
proof (cases rule: pairing_request_cases [of platform conn subject db cfg])
  case created
  let ?row = "new_request cfg platform conn subject db"
  let ?db = "db\<lparr>db_requests := db_requests db @ [?row]\<rparr>"
  have db': "snd (pairing_request cfg platform conn subject db) = ?db" using created by simp
  have new: "length (open_rows p c t ?db) \<le> pc_pending_limit cfg \<and> distinct (map rr_subject (open_rows p c t ?db))"
    if t: "db_now db \<le> t" for p c t
  proof (cases "account_row p c ?row \<and> pending_row t ?row")
    case False
    then have "open_rows p c t ?db = open_rows p c t db" by (auto simp: open_rows_def)
    then show ?thesis using pairing_invD [OF assms t] by simp
  next
    case mine: True
    then have pc: "p = platform" "c = conn" by (auto simp: account_row_def new_request_def)
    have rows: "open_rows p c t ?db = open_rows p c t db @ [?row]" using mine by (simp add: open_rows_def)
    have later: "open_rows p c t db = filter (pending_row t) (open_rows p c (db_now db) db)" by (rule later_rows [OF t])
    have "length (open_rows p c t db) < pc_pending_limit cfg"
      unfolding later using created(2) pc by (metis length_filter_le order_le_less_trans)
    moreover have "rr_subject r \<noteq> subject" if "r \<in> set (open_rows p c t db)" for r
      using created(1) that unfolding later by (auto simp: own_rows_def filter_empty_conv pc)
    ultimately show ?thesis
      using pairing_invD [OF assms t, of p c] unfolding rows by (auto simp: new_request_def)
  qed
  show ?thesis
    unfolding db' using assms created(3) new by (auto simp: pairing_inv_def new_request_def)
qed (use assms in simp_all)

lemma pairing_approve_decide:
  "snd (pairing_approve rid db) = db \<or>
   (db_requests (snd (pairing_approve rid db)) = decide (\<lambda>r. rr_id r = rid \<and> pending_row (db_now db) r)
      (\<lambda>r. r\<lparr>rr_approved_at := Some (db_now db)\<rparr>) (db_requests db) \<and>
    db_now (snd (pairing_approve rid db)) = db_now db)"
  by (simp add: pairing_approve_def decide_def split: option.split)

text \<open>What the gate does to the tables: a request of the sender, or nothing.\<close>

definition asks :: "pairing_db \<Rightarrow> envelope \<Rightarrow> bool" where
  "asks db e \<longleftrightarrow> env_chat_kind e = DIRECT \<and>
     (case map_of (db_policy db) (platform_value (env_platform e), env_connection_id e) of
        None \<Rightarrow> False | Some (p, allow) \<Rightarrow> p = lit ''paired'') \<and>
     map_of (db_approvals db) (platform_value (env_platform e), env_connection_id e, env_sender_identity_id e) = None"

lemma pairing_check_db:
  "snd (pairing_check (pairing_tables cfg) e db) = (if asks db e
     then snd (pairing_request cfg (platform_value (env_platform e)) (env_connection_id e) (env_sender_identity_id e) db) else db)"
  by (auto simp: pairing_check_def pairing_tables_def pairing_policy_of_def pairing_approved_def asks_def bindp_def Let_def
      split: option.splits prod.splits sum.splits)

lemma pairing_inv_step:
  assumes "pairing_inv cfg db"
  shows "pairing_inv cfg (pairing_step cfg op db)"
proof (cases op)
  case (Elapse t draw)
  then show ?thesis using assms by (auto simp: pairing_inv_def open_rows_def)
next
  case (Set_policy p c policy allow)
  then show ?thesis using assms by (auto simp: set_pairing_policy_def Let_def pairing_inv_def open_rows_def)
next
  case (Check e)
  then show ?thesis using assms pairing_inv_request by (simp add: pairing_check_db)
next
  case (Approve rid)
  have "pairing_inv cfg (snd (pairing_approve rid db))"
    using pairing_approve_decide [of rid db]
  proof
    assume "db_requests (snd (pairing_approve rid db)) = decide (\<lambda>r. rr_id r = rid \<and> pending_row (db_now db) r)
      (\<lambda>r. r\<lparr>rr_approved_at := Some (db_now db)\<rparr>) (db_requests db) \<and> db_now (snd (pairing_approve rid db)) = db_now db"
    then show ?thesis by (intro pairing_inv_decide [OF assms]) (auto simp: undecided_def)
  qed (use assms in simp)
  then show ?thesis using Approve by simp
next
  case (Dismiss rid)
  have "pairing_inv cfg (snd (pairing_dismiss rid db))"
    by (rule pairing_inv_decide [OF assms, of "\<lambda>r. r\<lparr>rr_dismissed_at := Some (db_now db)\<rparr>" _ "\<lambda>r. rr_id r = rid \<and> undecided r"])
      (simp_all add: pairing_dismiss_def decide_def undecided_def)
  then show ?thesis using Dismiss by simp
qed

lemma pairing_inv_run: "pairing_inv cfg db \<Longrightarrow> pairing_inv cfg (pairing_run cfg ops db)"
  unfolding pairing_run_def by (induction ops arbitrary: db) (auto intro: pairing_inv_step)

section \<open>The abstract access list\<close>

text \<open>
  What the tables promise: a policy per account, the open requests by identifier, and the
  members an operator let in. Identifiers and codes, once drawn, stay used.
\<close>

record open_request =
  or_account :: "ustr \<times> ustr"
  or_subject :: ustr
  or_expiry :: int

record access_list =
  al_policy :: "ustr \<times> ustr \<Rightarrow> (ustr \<times> ustr list) option"
  al_open :: "ustr \<Rightarrow> open_request option"
  al_members :: "(ustr \<times> ustr \<times> ustr) set"
  al_used :: "ustr set \<times> ustr set"
  al_now :: int
  al_draw :: "ustr \<times> ustr"

definition live :: "access_list \<Rightarrow> ustr \<times> ustr \<Rightarrow> ustr set" where
  "live s acct = {i. \<exists>q. al_open s i = Some q \<and> or_account q = acct \<and> or_expiry q > al_now s}"

definition access_request :: "pairing_config \<Rightarrow> ustr \<times> ustr \<Rightarrow> ustr \<Rightarrow> access_list \<Rightarrow> access_list" where
  "access_request cfg acct u s =
     (if (\<exists>i \<in> live s acct. \<exists>q. al_open s i = Some q \<and> or_subject q = u) \<or>
         card (live s acct) \<ge> pc_pending_limit cfg \<or>
         fst (al_draw s) \<in> fst (al_used s) \<or> snd (al_draw s) \<in> snd (al_used s)
      then s
      else s\<lparr>al_open := (al_open s)(fst (al_draw s) \<mapsto>
               \<lparr>or_account = acct, or_subject = u, or_expiry = al_now s + pc_request_ttl cfg\<rparr>),
             al_used := (insert (fst (al_draw s)) (fst (al_used s)), insert (snd (al_draw s)) (snd (al_used s)))\<rparr>)"

definition access_step :: "pairing_config \<Rightarrow> pairing_op \<Rightarrow> access_list \<Rightarrow> access_list" where
  "access_step cfg op s = (case op of
     Elapse t draw \<Rightarrow> s\<lparr>al_now := max t (al_now s), al_draw := draw\<rparr>
   | Set_policy p c policy allow \<Rightarrow>
       if policy \<in> {lit ''open'', lit ''paired'', lit ''allowlist''}
       then s\<lparr>al_policy := (al_policy s)((p, c) \<mapsto> (policy, sort (remdups (filter (\<lambda>x. x \<noteq> []) (map strip allow)))))\<rparr>
       else s
   | Check e \<Rightarrow>
       let acct = (platform_value (env_platform e), env_connection_id e); u = env_sender_identity_id e
       in if env_chat_kind e = DIRECT \<and> (\<exists>allow. al_policy s acct = Some (lit ''paired'', allow)) \<and>
             (fst acct, snd acct, u) \<notin> al_members s
          then access_request cfg acct u s else s
   | Approve rid \<Rightarrow>
       (case al_open s rid of None \<Rightarrow> s
        | Some q \<Rightarrow> if or_expiry q > al_now s
            then s\<lparr>al_open := (al_open s)(rid := None),
                   al_members := insert (fst (or_account q), snd (or_account q), or_subject q) (al_members s)\<rparr>
            else s)
   | Dismiss rid \<Rightarrow> s\<lparr>al_open := (al_open s)(rid := None)\<rparr>)"

definition open_of :: "request_row \<Rightarrow> open_request" where
  "open_of r = \<lparr>or_account = (rr_platform r, rr_connection_id r), or_subject = rr_subject r, or_expiry = rr_expires_at r\<rparr>"

lemma open_of_simps [simp]: "or_account (open_of r) = (rr_platform r, rr_connection_id r)"
  "or_subject (open_of r) = rr_subject r" "or_expiry (open_of r) = rr_expires_at r"
  by (simp_all add: open_of_def)

fun abs_open :: "request_row list \<Rightarrow> ustr \<Rightarrow> open_request option" where
  "abs_open [] i = None"
| "abs_open (r # rows) i = (if rr_id r = i \<and> undecided r then Some (open_of r) else abs_open rows i)"

definition abs_pairing :: "pairing_db \<Rightarrow> access_list" where
  "abs_pairing db = \<lparr>al_policy = map_of (db_policy db), al_open = abs_open (db_requests db),
     al_members = fst ` set (db_approvals db), al_used = (rr_id ` set (db_requests db), rr_code ` set (db_requests db)),
     al_now = db_now db, al_draw = db_draw db\<rparr>"

lemma abs_open_Some:
  assumes "distinct (map rr_id rows)"
  shows "abs_open rows i = Some q \<longleftrightarrow> (\<exists>r \<in> set rows. rr_id r = i \<and> undecided r \<and> q = open_of r)"
  using assms by (induction rows) (auto simp: rev_image_eqI)

lemma abs_open_append:
  "rr_id r \<notin> rr_id ` set rows \<Longrightarrow> undecided r \<Longrightarrow>
     abs_open (rows @ [r]) i = (if i = rr_id r then Some (open_of r) else abs_open rows i)"
  by (induction rows) auto

lemma abs_open_decide:
  assumes "\<And>r. q r \<Longrightarrow> rr_id r = i \<and> undecided r" and "\<And>r. \<not> undecided (g r)"
    and "\<And>r. r \<in> set rows \<Longrightarrow> rr_id r = i \<Longrightarrow> undecided r \<Longrightarrow> q r"
  shows "abs_open (decide q g rows) j = (if j = i then None else abs_open rows j)"
  using assms(3)
proof (induction rows)
  case (Cons r rows)
  then have "abs_open (decide q g rows) j = (if j = i then None else abs_open rows j)" by simp
  moreover have "q r \<longleftrightarrow> rr_id r = i \<and> undecided r" using assms(1) Cons.prems by auto
  ultimately show ?case using assms(2) by (auto simp: decide_def)
qed (simp add: decide_def)

lemma live_abs:
  assumes "distinct (map rr_id (db_requests db))"
  shows "live (abs_pairing db) (p, c) = rr_id ` set (open_rows p c (db_now db) db)"
    and "card (live (abs_pairing db) (p, c)) = length (open_rows p c (db_now db) db)"
    and "(\<exists>i \<in> live (abs_pairing db) (p, c). \<exists>q. al_open (abs_pairing db) i = Some q \<and> or_subject q = u)
      \<longleftrightarrow> own_rows p c u db \<noteq> []"
proof -
  show l: "live (abs_pairing db) (p, c) = rr_id ` set (open_rows p c (db_now db) db)"
    by (auto simp: live_def abs_pairing_def abs_open_Some [OF assms] open_rows_def account_row_def pending_row_def)
  have "distinct (map rr_id (open_rows p c (db_now db) db))"
    unfolding open_rows_def by (rule distinct_map_filter [OF assms])
  then show "card (live (abs_pairing db) (p, c)) = length (open_rows p c (db_now db) db)"
    unfolding l by (metis distinct_card length_map set_map)
  have same: "r = r'" if "r \<in> set (db_requests db)" "r' \<in> set (db_requests db)" "rr_id r = rr_id r'" for r r'
    using assms that by (auto simp: distinct_map inj_on_def)
  have "(\<exists>i \<in> live (abs_pairing db) (p, c). \<exists>q. al_open (abs_pairing db) i = Some q \<and> or_subject q = u)
      \<longleftrightarrow> (\<exists>r \<in> set (open_rows p c (db_now db) db). rr_subject r = u)" (is "?l \<longleftrightarrow> ?r")
  proof
    assume ?l
    then obtain r r' where "r \<in> set (open_rows p c (db_now db) db)" "r' \<in> set (db_requests db)" "rr_id r' = rr_id r" "rr_subject r' = u"
      unfolding l by (auto simp: abs_pairing_def abs_open_Some [OF assms])
    moreover from this have "r' = r" using same by (simp add: open_rows_def)
    ultimately show ?r by blast
  next
    assume ?r
    then obtain r where r: "r \<in> set (open_rows p c (db_now db) db)" "rr_subject r = u" by blast
    then have "r \<in> set (db_requests db)" "undecided r" by (simp_all add: open_rows_def pending_row_def)
    then have "al_open (abs_pairing db) (rr_id r) = Some (open_of r)"
      by (auto simp: abs_pairing_def abs_open_Some [OF assms])
    then show ?l using r unfolding l by force
  qed
  also have "\<dots> \<longleftrightarrow> own_rows p c u db \<noteq> []" by (auto simp: own_rows_def filter_empty_conv)
  finally show "(\<exists>i \<in> live (abs_pairing db) (p, c). \<exists>q. al_open (abs_pairing db) i = Some q \<and> or_subject q = u)
      \<longleftrightarrow> own_rows p c u db \<noteq> []" .
qed

lemma abs_request:
  assumes "pairing_inv cfg db"
  shows "abs_pairing (snd (pairing_request cfg p c u db)) = access_request cfg (p, c) u (abs_pairing db)"
proof -
  have d: "distinct (map rr_id (db_requests db))" using assms by (simp add: pairing_inv_def)
  note l = live_abs(2,3) [OF d]
  show ?thesis
  proof (cases rule: pairing_request_cases [of p c u db cfg])
    case (asked r)
    then have "own_rows p c u db \<noteq> []" by auto
    then show ?thesis using asked by (simp add: access_request_def l)
  next
    case full
    then show ?thesis by (simp add: access_request_def l)
  next
    case clash
    then have "fst (al_draw (abs_pairing db)) \<in> fst (al_used (abs_pairing db)) \<or>
      snd (al_draw (abs_pairing db)) \<in> snd (al_used (abs_pairing db))" by (simp add: abs_pairing_def)
    then show ?thesis using clash by (simp add: access_request_def)
  next
    case created
    let ?row = "new_request cfg p c u db"
    have "abs_open (db_requests db @ [?row]) = (abs_open (db_requests db))(fst (db_draw db) \<mapsto>
        \<lparr>or_account = (p, c), or_subject = u, or_expiry = db_now db + pc_request_ttl cfg\<rparr>)"
      using created(3) by (auto simp: abs_open_append new_request_def undecided_def open_of_def fun_eq_iff)
    moreover have "access_request cfg (p, c) u (abs_pairing db) = (abs_pairing db)\<lparr>
        al_open := (al_open (abs_pairing db))(fst (db_draw db) \<mapsto>
          \<lparr>or_account = (p, c), or_subject = u, or_expiry = db_now db + pc_request_ttl cfg\<rparr>),
        al_used := (insert (fst (db_draw db)) (rr_id ` set (db_requests db)), insert (snd (db_draw db)) (rr_code ` set (db_requests db)))\<rparr>"
      using created(1-4) unfolding access_request_def l by (simp add: abs_pairing_def)
    ultimately show ?thesis using created(5) by (simp add: abs_pairing_def new_request_def)
  qed
qed

lemma find_request_row:
  assumes "distinct (map rr_id rows)" and "\<And>r. q r \<Longrightarrow> rr_id r = i"
  shows "find q rows = Some r \<longleftrightarrow> r \<in> set rows \<and> q r"
proof -
  have "\<exists>x. find q rows = Some x" if "r \<in> set rows" "q r"
    using that by (metis find_None_iff not_Some_eq)
  moreover have "r \<in> set rows \<and> q r" if "find q rows = Some r" for r
    using that by (metis find_Some_iff nth_mem)
  moreover have "r = x" if "r \<in> set rows" "x \<in> set rows" "q r" "q x" for x
    using assms that by (metis distinct_map inj_on_def)
  ultimately show ?thesis by metis
qed

lemma abs_approve:
  assumes "pairing_inv cfg db"
  shows "abs_pairing (snd (pairing_approve rid db)) = access_step cfg (Approve rid) (abs_pairing db)"
proof -
  have d: "distinct (map rr_id (db_requests db))" using assms by (simp add: pairing_inv_def)
  let ?q = "\<lambda>r. rr_id r = rid \<and> pending_row (db_now db) r"
  have f: "find ?q (db_requests db) = Some r \<longleftrightarrow> r \<in> set (db_requests db) \<and> ?q r" for r
    by (rule find_request_row [OF d]) simp
  show ?thesis
  proof (cases "find ?q (db_requests db)")
    case None
    then have "or_expiry q \<le> db_now db" if "abs_open (db_requests db) rid = Some q" for q
      using that by (auto simp: abs_open_Some [OF d] find_None_iff pending_row_def)
    with None show ?thesis
      by (auto simp: access_step_def pairing_approve_def abs_pairing_def not_less split: option.split)
  next
    case (Some r)
    then have r: "r \<in> set (db_requests db)" "rr_id r = rid" "undecided r" "db_now db < rr_expires_at r"
      using f [of r] by (auto simp: pending_row_def)
    then have o: "abs_open (db_requests db) rid = Some (open_of r)" by (auto simp: abs_open_Some [OF d])
    have same: "r' = r" if "r' \<in> set (db_requests db)" "rr_id r' = rid" for r'
      using d that r(1,2) by (metis distinct_map inj_on_def)
    let ?g = "\<lambda>r. r\<lparr>rr_approved_at := Some (db_now db)\<rparr>"
    have "abs_open (decide ?q ?g (db_requests db)) = (abs_open (db_requests db))(rid := None)"
    proof
      fix j
      have "?q r'" if "r' \<in> set (db_requests db)" "rr_id r' = rid" "undecided r'" for r'
        using same [OF that(1,2)] r by (simp add: pending_row_def)
      then show "abs_open (decide ?q ?g (db_requests db)) j = ((abs_open (db_requests db))(rid := None)) j"
        using abs_open_decide [of ?q rid ?g "db_requests db" j] by (simp add: pending_row_def undecided_def)
    qed
    moreover have "rr_code ` set (decide ?q ?g (db_requests db)) = rr_code ` set (db_requests db)"
      "rr_id ` set (decide ?q ?g (db_requests db)) = rr_id ` set (db_requests db)"
      by (rule image_decide, simp)+
    ultimately show ?thesis
      using Some o r(4) by (simp add: access_step_def pairing_approve_def abs_pairing_def decide_def keys_update)
  qed
qed

lemma abs_dismiss:
  assumes "pairing_inv cfg db"
  shows "abs_pairing (snd (pairing_dismiss rid db)) = access_step cfg (Dismiss rid) (abs_pairing db)"
proof -
  let ?q = "\<lambda>r. rr_id r = rid \<and> undecided r"
  let ?g = "\<lambda>r. r\<lparr>rr_dismissed_at := Some (db_now db)\<rparr>"
  have "abs_open (decide ?q ?g (db_requests db)) = (abs_open (db_requests db))(rid := None)"
    by (rule ext, subst abs_open_decide [where i = rid]) (auto simp: undecided_def)
  moreover have "rr_code ` set (decide ?q ?g (db_requests db)) = rr_code ` set (db_requests db)"
    "rr_id ` set (decide ?q ?g (db_requests db)) = rr_id ` set (db_requests db)"
    by (rule image_decide, simp)+
  ultimately show ?thesis by (simp add: access_step_def pairing_dismiss_def abs_pairing_def decide_def)
qed

lemma asks_abs:
  "asks db e \<longleftrightarrow> env_chat_kind e = DIRECT \<and>
     (\<exists>allow. al_policy (abs_pairing db) (platform_value (env_platform e), env_connection_id e) = Some (lit ''paired'', allow)) \<and>
     (platform_value (env_platform e), env_connection_id e, env_sender_identity_id e) \<notin> al_members (abs_pairing db)"
  by (auto simp: asks_def abs_pairing_def map_of_eq_None_iff [of "db_approvals db"] split: option.splits)

lemma abs_step:
  assumes "pairing_inv cfg db"
  shows "abs_pairing (pairing_step cfg op db) = access_step cfg op (abs_pairing db)"
proof (cases op)
  case (Elapse t draw)
  then show ?thesis by (simp add: access_step_def abs_pairing_def)
next
  case (Set_policy p c policy allow)
  then show ?thesis by (simp add: access_step_def abs_pairing_def set_pairing_policy_def Let_def map_of_update)
next
  case (Check e)
  have "access_step cfg (Check e) (abs_pairing db) = (if asks db e then access_request cfg
      (platform_value (env_platform e), env_connection_id e) (env_sender_identity_id e) (abs_pairing db) else abs_pairing db)"
    unfolding asks_abs by (simp add: access_step_def Let_def)
  then show ?thesis using Check by (simp add: pairing_check_db abs_request [OF assms])
qed (simp_all add: abs_approve [OF assms] abs_dismiss [OF assms])

lemma pairing_refines:
  "abs_pairing (pairing_run cfg ops empty_pairing_db) = fold (access_step cfg) ops (abs_pairing empty_pairing_db)"
proof -
  have "abs_pairing (pairing_run cfg ops db) = fold (access_step cfg) ops (abs_pairing db)" if "pairing_inv cfg db" for db
    using that by (induction ops arbitrary: db) (simp_all add: pairing_run_def abs_step pairing_inv_step)
  then show ?thesis using pairing_inv_empty by blast
qed

lemma members_change:
  assumes "m \<in> al_members (access_step cfg op s)" and "m \<notin> al_members s"
  obtains rid q where "op = Approve rid" "al_open s rid = Some q" "al_now s < or_expiry q"
    "or_account q = (fst m, fst (snd m))" "or_subject q = snd (snd m)"
proof (cases op)
  case (Approve rid)
  then show thesis using assms that by (auto simp: access_step_def split: option.splits if_splits)
qed (use assms in \<open>auto simp: access_step_def access_request_def Let_def split: if_splits\<close>)

section \<open>Properties\<close>

text \<open>
  C36: the pairing tables refine the abstract access list: after any sequence of clock ticks,
  policy changes, gate checks, approvals and dismissals the policies, the open requests and
  the members read off the tables are those the access list reaches by the same operations.
\<close>

theorem pairing_refines_access_list:
  "abs_pairing (pairing_run cfg ops empty_pairing_db) = fold (access_step cfg) ops (abs_pairing empty_pairing_db)"
  by (rule pairing_refines)

text \<open>
  strangers cannot flood an operator: after any run an account has at most the
  configured number of undecided, unexpired pairing requests, and no sender has two.
\<close>

theorem pending_requests_bounded:
  "let db = pairing_run cfg ops empty_pairing_db
   in length (open_rows p c (db_now db) db) \<le> pc_pending_limit cfg \<and>
      distinct (map rr_subject (open_rows p c (db_now db) db))"
  using pairing_invD [OF pairing_inv_run [OF pairing_inv_empty], of cfg ops] by (simp add: Let_def)

text \<open>
  C37: nobody is let in without an operator: a sender is a member of an account after a run
  only if the run approved a request that this sender had pending at that moment.
\<close>

theorem members_were_approved:
  assumes "pairing_approved p c u (pairing_run cfg ops empty_pairing_db) = (Inr True, db)"
  shows "\<exists>before rid later. ops = before @ Approve rid # later \<and>
    (\<exists>r \<in> set (open_rows p c (db_now (pairing_run cfg before empty_pairing_db)) (pairing_run cfg before empty_pairing_db)).
       rr_id r = rid \<and> rr_subject r = u)"
proof -
  have mem: "\<exists>before rid later. ops = before @ Approve rid # later \<and>
      (\<exists>q. al_open (fold (access_step cfg) before s) rid = Some q \<and> or_account q = (p, c) \<and> or_subject q = u \<and>
        al_now (fold (access_step cfg) before s) < or_expiry q)"
    if "(p, c, u) \<in> al_members (fold (access_step cfg) ops s)" "(p, c, u) \<notin> al_members s" for ops s
    using that(1)
  proof (induction ops rule: rev_induct)
    case Nil
    then show ?case using that(2) by simp
  next
    case (snoc op ops)
    show ?case
    proof (cases "(p, c, u) \<in> al_members (fold (access_step cfg) ops s)")
      case True
      from snoc.IH [OF this] obtain before rid later where "ops = before @ Approve rid # later"
        "\<exists>q. al_open (fold (access_step cfg) before s) rid = Some q \<and> or_account q = (p, c) \<and> or_subject q = u \<and>
          al_now (fold (access_step cfg) before s) < or_expiry q" by blast
      then show ?thesis by (intro exI [of _ before] exI [of _ rid] exI [of _ "later @ [op]"]) simp
    next
      case False
      let ?s = "fold (access_step cfg) ops s"
      obtain rid q where "op = Approve rid" "al_open ?s rid = Some q" "or_account q = (p, c)" "or_subject q = u"
        "al_now ?s < or_expiry q"
        using snoc.prems False by (auto elim: members_change [of "(p, c, u)" cfg op ?s])
      then show ?thesis by blast
    qed
  qed
  have "(p, c, u) \<in> al_members (abs_pairing (pairing_run cfg ops empty_pairing_db))"
    using assms by (auto simp: pairing_approved_def abs_pairing_def dest: map_of_SomeD intro: rev_image_eqI)
  then have "(p, c, u) \<in> al_members (fold (access_step cfg) ops (abs_pairing empty_pairing_db))"
    by (simp add: pairing_refines)
  moreover have "(p, c, u) \<notin> al_members (abs_pairing empty_pairing_db)"
    by (simp add: abs_pairing_def empty_pairing_db_def)
  ultimately obtain before rid later q where ops: "ops = before @ Approve rid # later"
    and q: "al_open (abs_pairing (pairing_run cfg before empty_pairing_db)) rid = Some q" "or_account q = (p, c)" "or_subject q = u"
      "al_now (abs_pairing (pairing_run cfg before empty_pairing_db)) < or_expiry q"
    unfolding pairing_refines using mem by metis
  let ?db = "pairing_run cfg before empty_pairing_db"
  have d: "distinct (map rr_id (db_requests ?db))"
    using pairing_inv_run [OF pairing_inv_empty] by (simp add: pairing_inv_def)
  obtain r where "r \<in> set (db_requests ?db)" "rr_id r = rid" "undecided r" "q = open_of r"
    using q(1) by (auto simp: abs_pairing_def abs_open_Some [OF d])
  then have "r \<in> set (open_rows p c (db_now ?db) ?db)" "rr_subject r = u"
    using q by (auto simp: open_rows_def account_row_def pending_row_def abs_pairing_def)
  then show ?thesis using ops \<open>rr_id r = rid\<close> by blast
qed

text \<open>
  the gate lets a message in exactly when its account's policy does: every group and
  channel message, every direct message on an open account, the listed senders of an
  allowlist, and the approved senders of a paired account. It answers only a sender whose
  new request it has just stored.
\<close>

theorem gate_follows_policy:
  assumes "pairing_check (pairing_tables cfg) e db = (Inr d, db')"
  defines "acct \<equiv> (platform_value (env_platform e), env_connection_id e)"
  shows "(pd_allowed d \<longleftrightarrow> env_chat_kind e \<noteq> DIRECT \<or>
      (case map_of (db_policy db) acct of
         None \<Rightarrow> True
       | Some (policy, allow) \<Rightarrow> policy = lit ''open'' \<or> policy = lit ''allowlist'' \<and> env_sender_identity_id e \<in> set allow \<or>
           policy = lit ''paired'' \<and> map_of (db_approvals db) (fst acct, snd acct, env_sender_identity_id e) \<noteq> None)) \<and>
    (pd_reply_text d \<noteq> None \<longrightarrow> (\<exists>row. db_requests db' = db_requests db @ [row] \<and>
      rr_subject row = env_sender_identity_id e \<and> pd_reply_text d = Some (pairing_prompt (rr_code row))))"
proof (rule conjI)
  let ?p = "platform_value (env_platform e)" and ?c = "env_connection_id e" and ?u = "env_sender_identity_id e"
  show "pd_allowed d \<longleftrightarrow> env_chat_kind e \<noteq> DIRECT \<or>
      (case map_of (db_policy db) acct of
         None \<Rightarrow> True
       | Some (policy, allow) \<Rightarrow> policy = lit ''open'' \<or> policy = lit ''allowlist'' \<and> ?u \<in> set allow \<or>
           policy = lit ''paired'' \<and> map_of (db_approvals db) (fst acct, snd acct, ?u) \<noteq> None)"
    using assms
    by (auto simp: pairing_check_def pairing_tables_def pairing_policy_of_def pairing_approved_def let_in_def keep_out_def
        bindp_def Let_def split: option.splits prod.splits sum.splits if_splits)
  show "pd_reply_text d \<noteq> None \<longrightarrow> (\<exists>row. db_requests db' = db_requests db @ [row] \<and>
      rr_subject row = ?u \<and> pd_reply_text d = Some (pairing_prompt (rr_code row)))"
  proof
    assume reply: "pd_reply_text d \<noteq> None"
    then obtain t where req: "pairing_request cfg ?p ?c ?u db = (Inr (Some t, True), db')"
      "pd_reply_text d = Some (pairing_prompt (pt_code t))"
      using assms
      by (auto simp: pairing_check_def pairing_tables_def pairing_policy_of_def pairing_approved_def let_in_def keep_out_def
          bindp_def Let_def split: option.splits prod.splits sum.splits if_splits)
    show "\<exists>row. db_requests db' = db_requests db @ [row] \<and> rr_subject row = ?u \<and>
        pd_reply_text d = Some (pairing_prompt (rr_code row))"
    proof (cases rule: pairing_request_cases [of ?p ?c ?u db cfg])
      case created
      then show ?thesis using req by (auto simp: ticket_of_def new_request_def)
    qed (use req in auto)
  qed
qed

text \<open>A stranger writes to a paired account, and the operator approves the request.\<close>

definition stranger :: envelope where
  "stranger = \<lparr>env_id = [1], env_connection_id = [99], env_platform = QQ, env_chat_kind = DIRECT, env_chat_id = [53],
     env_thread_id = None, env_sender_identity_id = [53], env_occurred_at = 0, env_segments = [TextSegment [104]],
     env_reply_to_message_id = None, env_raw_ref = None, env_trace_id = [116], env_ephemeral = False\<rparr>"

definition pairing_story :: "pairing_op list" where
  "pairing_story = [Set_policy (lit ''QQ'') [99] (lit ''paired'') [], Elapse 5 ([7], [8]), Check stranger, Approve [7]]"

lemma stranger_fields [simp]: "env_platform stranger = QQ" "env_connection_id stranger = [99]"
  "env_chat_kind stranger = DIRECT" "env_sender_identity_id stranger = [53]"
  by (simp_all add: stranger_def)

lemma before_approval:
  "pairing_run default_pairing [Set_policy (lit ''QQ'') [99] (lit ''paired'') [], Elapse 5 ([7], [8]), Check stranger] empty_pairing_db
   = \<lparr>db_policy = [((lit ''QQ'', [99]), (lit ''paired'', []))],
      db_requests = [\<lparr>rr_id = [7], rr_platform = lit ''QQ'', rr_connection_id = [99], rr_subject = [53], rr_code = [8],
        rr_created_at = 5, rr_expires_at = 3600000005, rr_approved_at = None, rr_dismissed_at = None\<rparr>],
      db_approvals = [], db_now = 5, db_draw = ([7], [8])\<rparr>"
  by (simp add: pairing_run_def set_pairing_policy_def empty_pairing_db_def pairing_check_db asks_def pairing_request_def
      new_request_def default_pairing_def Let_def)

theorem members_were_approved_witness:
  "\<exists>before rid later. pairing_story = before @ Approve rid # later \<and>
    (\<exists>r \<in> set (open_rows (lit ''QQ'') [99] (db_now (pairing_run default_pairing before empty_pairing_db))
        (pairing_run default_pairing before empty_pairing_db)). rr_id r = rid \<and> rr_subject r = [53])"
proof -
  have "pairing_run default_pairing pairing_story empty_pairing_db = snd (pairing_approve [7]
      (pairing_run default_pairing [Set_policy (lit ''QQ'') [99] (lit ''paired'') [], Elapse 5 ([7], [8]), Check stranger] empty_pairing_db))"
    by (simp add: pairing_run_def pairing_story_def)
  then have "pairing_approved (lit ''QQ'') [99] [53] (pairing_run default_pairing pairing_story empty_pairing_db)
      = (Inr True, pairing_run default_pairing pairing_story empty_pairing_db)"
    by (simp add: before_approval pairing_approve_def pending_row_def undecided_def pairing_approved_def)
  from members_were_approved [OF this] show ?thesis .
qed

theorem gate_follows_policy_witness:
  "\<exists>d db'. pairing_check (pairing_tables default_pairing) stranger
      (pairing_run default_pairing (butlast pairing_story) empty_pairing_db) = (Inr d, db') \<and> \<not> pd_allowed d"
proof -
  have b: "butlast pairing_story = [Set_policy (lit ''QQ'') [99] (lit ''paired'') [], Elapse 5 ([7], [8]), Check stranger]"
    by (simp add: pairing_story_def)
  obtain d db' where r: "pairing_check (pairing_tables default_pairing) stranger
      (pairing_run default_pairing (butlast pairing_story) empty_pairing_db) = (Inr d, db')"
    unfolding b before_approval
    by (simp add: pairing_check_def pairing_tables_def pairing_policy_of_def pairing_approved_def bindp_def Let_def
        pairing_request_def account_row_def pending_row_def undecided_def)
  have "map_of (db_policy (pairing_run default_pairing (butlast pairing_story) empty_pairing_db)) (lit ''QQ'', [99]) = Some (lit ''paired'', [])"
    "map_of (db_approvals (pairing_run default_pairing (butlast pairing_story) empty_pairing_db)) (lit ''QQ'', [99], [53]) = None"
    unfolding b before_approval by simp_all
  then show ?thesis using gate_follows_policy [OF r] r by auto
qed

end
