(* ===== verification/OperatorAuth.thy ===== *)
theory OperatorAuth
  imports Prelude
begin

text \<open>
  Authentication of the operator API, \<open>operator/auth.py\<close>: the in-memory sliding window of
  failures, the shared fixed window in Redis, and the guard in front of every operator
  route. The digest that names a Redis key is a parameter; a Redis counter is a value with
  an optional instant of expiry (milliseconds). The main results: the pruned buckets answer
  like the full history of failures, and no request passes without the configured token.
\<close>

section \<open>The sliding window\<close>

record auth_window =
  aw_max_failures :: int
  aw_window_seconds :: real
  aw_failures :: "(ustr, real list) dict"

text \<open>\<open>_bucket\<close>: the client's bucket is created when missing and its old front dropped.\<close>

definition auth_bucket :: "real \<Rightarrow> ustr \<Rightarrow> auth_window \<Rightarrow> real list \<times> auth_window" where
  "auth_bucket now client w =
     (let bucket = dropWhile (\<lambda>t. t < now - aw_window_seconds w) (dict_get (aw_failures w) client [])
      in (bucket, w\<lparr>aw_failures := AList.update client bucket (aw_failures w)\<rparr>))"

definition window_blocked :: "real \<Rightarrow> ustr \<Rightarrow> auth_window \<Rightarrow> bool \<times> auth_window" where
  "window_blocked now client w =
     (let (bucket, w) = auth_bucket now client w in (aw_max_failures w \<le> int (length bucket), w))"

text \<open>The clock is read twice: to prune, and for the failure itself.\<close>

definition window_record :: "real \<Rightarrow> real \<Rightarrow> ustr \<Rightarrow> auth_window \<Rightarrow> auth_window" where
  "window_record now later client w =
     (let (bucket, w) = auth_bucket now client w
      in w\<lparr>aw_failures := AList.update client (bucket @ [later]) (aw_failures w)\<rparr>)"

section \<open>The shared window\<close>

record redis_counters =
  rc_values :: "(ustr, int \<times> int option) dict"
  rc_now_ms :: int

definition counter_live :: "redis_counters \<Rightarrow> ustr \<Rightarrow> (int \<times> int option) option" where
  "counter_live r k = (case map_of (rc_values r) k of
      Some (n, Some expiry) \<Rightarrow> if rc_now_ms r < expiry then Some (n, Some expiry) else None
    | x \<Rightarrow> x)"

definition redis_incr :: "ustr \<Rightarrow> redis_counters \<Rightarrow> int \<times> redis_counters" where
  "redis_incr k r = (let (n, expiry) = (case counter_live r k of None \<Rightarrow> (0, None) | Some c \<Rightarrow> c)
     in (n + 1, r\<lparr>rc_values := AList.update k (n + 1, expiry) (rc_values r)\<rparr>))"

definition redis_pexpire :: "ustr \<Rightarrow> int \<Rightarrow> redis_counters \<Rightarrow> redis_counters" where
  "redis_pexpire k ttl r = (case counter_live r k of None \<Rightarrow> r
     | Some (n, _) \<Rightarrow> r\<lparr>rc_values := AList.update k (n, Some (rc_now_ms r + ttl)) (rc_values r)\<rparr>)"

record redis_limiter =
  rl_max_failures :: int
  rl_window_seconds :: real
  rl_prefix :: ustr

definition limiter_key :: "(ustr \<Rightarrow> ustr) \<Rightarrow> redis_limiter \<Rightarrow> ustr \<Rightarrow> ustr" where
  "limiter_key sha256 l client = rl_prefix l @ lit '':'' @ sha256 client"

definition redis_blocked :: "(ustr \<Rightarrow> ustr) \<Rightarrow> redis_limiter \<Rightarrow> ustr \<Rightarrow> redis_counters \<Rightarrow> bool" where
  "redis_blocked sha256 l client r =
     (rl_max_failures l \<le> (case counter_live r (limiter_key sha256 l client) of None \<Rightarrow> 0 | Some (n, _) \<Rightarrow> n))"

text \<open>\<open>INCR\<close> and \<open>PEXPIRE\<close> are two commands; \<open>crash\<close> says that the process stops between them.\<close>

definition redis_record :: "(ustr \<Rightarrow> ustr) \<Rightarrow> redis_limiter \<Rightarrow> bool \<Rightarrow> ustr \<Rightarrow> redis_counters \<Rightarrow> redis_counters" where
  "redis_record sha256 l crash client r =
     (let k = limiter_key sha256 l client; (n, r) = redis_incr k r
      in if n = 1 \<and> \<not> crash then redis_pexpire k \<lfloor>rl_window_seconds l * 1000\<rfloor> r else r)"

section \<open>The guard\<close>

record 's failure_limiter =
  fl_blocked :: "ustr \<Rightarrow> ('s, bool) prog"
  fl_record :: "ustr \<Rightarrow> ('s, unit) prog"

record http_request =
  hr_path :: ustr
  hr_client :: "ustr option"
  hr_authorization :: "ustr option"

record refusal =
  rf_status :: int
  rf_detail :: ustr

definition guarded_prefix :: ustr where
  "guarded_prefix = lit ''/operator''"

definition guarded_path :: "ustr \<Rightarrow> bool" where
  "guarded_path path \<longleftrightarrow> path = guarded_prefix \<or> starts_with (guarded_prefix @ lit ''/'') path"

definition remove_prefix :: "ustr \<Rightarrow> ustr \<Rightarrow> ustr" where
  "remove_prefix p s = (if starts_with p s then drop (length p) s else s)"

definition provided_token :: "http_request \<Rightarrow> ustr" where
  "provided_token rq = (case hr_authorization rq of None \<Rightarrow> []
     | Some header \<Rightarrow> if header \<noteq> [] then strip (remove_prefix (lit ''Bearer '') header) else [])"

text \<open>\<open>hmac.compare_digest\<close> on strings: a \<open>TypeError\<close> unless both are ASCII.\<close>

definition compare_digest :: "ustr \<Rightarrow> ustr \<Rightarrow> exn + bool" where
  "compare_digest a b = (if (\<forall>c \<in> set a. c < 128) \<and> (\<forall>c \<in> set b. c < 128) then Inr (a = b)
     else Inl (Raised (lit ''TypeError'')))"

definition invalid_token :: refusal where
  "invalid_token = \<lparr>rf_status = 401, rf_detail = lit ''invalid operator token''\<rparr>"

definition operator_guard :: "'s failure_limiter \<Rightarrow> ustr option \<Rightarrow> http_request \<Rightarrow> ('s, refusal option) prog" where
  "operator_guard lm token rq =
     (if \<not> guarded_path (hr_path rq) then retp None
      else let client = (case hr_client rq of None \<Rightarrow> lit ''unknown'' | Some h \<Rightarrow> h)
        in bindp (fl_blocked lm client) (\<lambda>blocked.
           if blocked then retp (Some \<lparr>rf_status = 429, rf_detail = lit ''too many failed authentication attempts''\<rparr>)
           else case token of
               None \<Rightarrow> retp (Some \<lparr>rf_status = 403, rf_detail = lit ''the operator API is disabled: MYBOT_OPERATOR_TOKEN is not set''\<rparr>)
             | Some tok \<Rightarrow>
                 if provided_token rq = [] then bindp (fl_record lm client) (\<lambda>_. retp (Some invalid_token))
                 else (case compare_digest (provided_token rq) tok of
                     Inl x \<Rightarrow> raisep x
                   | Inr True \<Rightarrow> retp None
                   | Inr False \<Rightarrow> bindp (fl_record lm client) (\<lambda>_. retp (Some invalid_token)))))"

text \<open>The in-memory limiter at a fixed instant of its clock.\<close>

definition window_limiter :: "real \<Rightarrow> auth_window failure_limiter" where
  "window_limiter now = \<lparr>fl_blocked = (\<lambda>c. liftp (window_blocked now c)),
     fl_record = (\<lambda>c. liftp (\<lambda>w. ((), window_record now now c w)))\<rparr>"

section \<open>The history of failures\<close>

text \<open>A call of the limiter with the readings of its clock.\<close>

datatype auth_op = Ask real ustr | Failure real real ustr

fun auth_step :: "auth_op \<Rightarrow> auth_window \<Rightarrow> auth_window" where
  "auth_step (Ask now client) w = snd (window_blocked now client w)"
| "auth_step (Failure now later client) w = window_record now later client w"

fun auth_times :: "auth_op \<Rightarrow> real list" where
  "auth_times (Ask now client) = [now]"
| "auth_times (Failure now later client) = [now, later]"

text \<open>Every failure of a client that was ever recorded, oldest first.\<close>

fun past_failures :: "auth_op list \<Rightarrow> ustr \<Rightarrow> real list" where
  "past_failures [] c = []"
| "past_failures (Ask now client # ops) c = past_failures ops c"
| "past_failures (Failure now later client # ops) c = (if client = c then [later] else []) @ past_failures ops c"

definition new_window :: "int \<Rightarrow> real \<Rightarrow> auth_window" where
  "new_window max_failures seconds = \<lparr>aw_max_failures = max_failures, aw_window_seconds = seconds, aw_failures = []\<rparr>"

lemma past_append: "past_failures (ops @ ops') c = past_failures ops c @ past_failures ops' c"
  by (induction ops c rule: past_failures.induct) auto

lemma past_times: "set (past_failures ops c) \<subseteq> set (concat (map auth_times ops))"
  by (induction ops c rule: past_failures.induct) auto

lemma sorted_past: "sorted (concat (map auth_times ops)) \<Longrightarrow> sorted (past_failures ops c)"
proof (induction ops c rule: past_failures.induct)
  case (3 now later client ops c)
  then show ?case using past_times [of ops c] by (auto simp: sorted_append)
qed auto

lemma drop_old: "sorted xs \<Longrightarrow> dropWhile (\<lambda>t. t < a) xs = filter (\<lambda>t. a \<le> t) xs" for a :: real
proof (induction xs)
  case (Cons x xs)
  show ?case
  proof (cases "x < a")
    case True
    then show ?thesis using Cons by simp
  next
    case False
    then have "\<forall>y \<in> set (x # xs). a \<le> y" using Cons.prems by auto
    then show ?thesis using False by (metis dropWhile.simps(2) filter_True)
  qed
qed simp

lemma drop_older: "a \<le> b \<Longrightarrow> dropWhile (\<lambda>t. t < b) (dropWhile (\<lambda>t. t < a) xs) = dropWhile (\<lambda>t. t < b) xs" for a :: real
  by (induction xs) auto

text \<open>The buckets, pruned at any time from \<open>T\<close> on, agree with the pruned history.\<close>

definition window_inv :: "auth_op list \<Rightarrow> real \<Rightarrow> auth_window \<Rightarrow> bool" where
  "window_inv ops T w \<longleftrightarrow> (\<forall>c t. T \<le> t \<longrightarrow>
     dropWhile (\<lambda>s. s < t - aw_window_seconds w) (dict_get (aw_failures w) c [])
       = dropWhile (\<lambda>s. s < t - aw_window_seconds w) (past_failures ops c))"

lemma auth_step_fields [simp]:
  "aw_window_seconds (auth_step op w) = aw_window_seconds w" "aw_max_failures (auth_step op w) = aw_max_failures w"
  by (cases op; simp add: window_blocked_def window_record_def auth_bucket_def Let_def)+

lemma drop_append_cong:
  assumes "dropWhile q xs = dropWhile q ys"
  shows "dropWhile q (xs @ zs) = dropWhile q (ys @ zs)"
  using assms by (simp add: dropWhile_append) (metis dropWhile_eq_Nil_conv)

lemma window_inv_step:
  assumes "window_inv ops T w" and "sorted (T # auth_times op)"
  shows "window_inv (ops @ [op]) (last (auth_times op)) (auth_step op w)"
proof (cases op)
  case (Ask now client)
  then show ?thesis
    using assms by (auto simp: window_inv_def window_blocked_def auth_bucket_def Let_def past_append dict_get_update drop_older)
next
  case (Failure now later client)
  have "dropWhile (\<lambda>s. s < t - aw_window_seconds w)
      (dropWhile (\<lambda>s. s < now - aw_window_seconds w) (dict_get (aw_failures w) client []) @ [later])
    = dropWhile (\<lambda>s. s < t - aw_window_seconds w) (past_failures ops client @ [later])" if "later \<le> t" for t
  proof (rule drop_append_cong)
    have "T \<le> t" "now \<le> t" using assms(2) that Failure by auto
    then show "dropWhile (\<lambda>s. s < t - aw_window_seconds w)
        (dropWhile (\<lambda>s. s < now - aw_window_seconds w) (dict_get (aw_failures w) client []))
      = dropWhile (\<lambda>s. s < t - aw_window_seconds w) (past_failures ops client)"
      using assms(1) by (simp add: window_inv_def drop_older)
  qed
  then show ?thesis
    using assms Failure
    by (auto simp: window_inv_def window_record_def auth_bucket_def Let_def past_append dict_get_update)
qed

lemma window_inv_run:
  assumes "window_inv before T w" and "sorted (T # concat (map auth_times ops))"
  shows "window_inv (before @ ops) (last (T # concat (map auth_times ops))) (fold auth_step ops w)"
  using assms
proof (induction ops arbitrary: before T w)
  case (Cons op ops)
  have times: "auth_times op \<noteq> []" by (cases op) auto
  have s: "sorted (T # auth_times op)" "sorted (last (auth_times op) # concat (map auth_times ops))"
    using Cons.prems(2) times by (auto simp: sorted_append)
  from Cons.IH [OF window_inv_step [OF Cons.prems(1) s(1)] s(2)] show ?case using times by (simp add: last_append)
qed simp

lemma window_history:
  assumes "sorted (concat (map auth_times ops) @ [t])"
  shows "fst (auth_bucket t c (fold auth_step ops (new_window n secs)))
    = filter (\<lambda>s. t - secs \<le> s) (past_failures ops c)"
proof -
  let ?w = "fold auth_step ops (new_window n secs)"
  define xs where "xs = concat (map auth_times ops)"
  define T where "T = (case xs of [] \<Rightarrow> t | x # _ \<Rightarrow> x)"
  have w: "aw_window_seconds ?w = secs"
    by (induction ops rule: rev_induct) (simp_all add: new_window_def)
  have xs: "sorted (T # xs) \<and> last (T # xs) \<le> t"
    using assms unfolding xs_def [symmetric] by (cases xs) (auto simp: T_def sorted_append)
  moreover have "window_inv [] T (new_window n secs)" by (simp add: window_inv_def new_window_def dict_get_def)
  ultimately have "window_inv ops (last (T # concat (map auth_times ops))) ?w"
    using window_inv_run [of "[]" T "new_window n secs" ops] xs by (simp add: xs_def)
  with xs have "dropWhile (\<lambda>s. s < t - secs) (dict_get (aw_failures ?w) c [])
      = dropWhile (\<lambda>s. s < t - secs) (past_failures ops c)"
    unfolding window_inv_def w xs_def [symmetric] by blast
  moreover have "sorted (past_failures ops c)" using assms by (intro sorted_past) (simp add: sorted_append)
  ultimately show ?thesis by (simp add: auth_bucket_def Let_def w drop_old)
qed

section \<open>Properties\<close>

text \<open>
  pruning loses nothing: with a clock that never runs backwards, the limiter with its
  pruned buckets blocks a client exactly when the full history of the client's failures has
  at least the allowed number within the window.
\<close>

theorem auth_window_refines_history:
  assumes "sorted (concat (map auth_times ops) @ [t])"
  shows "fst (window_blocked t c (fold auth_step ops (new_window n secs)))
    \<longleftrightarrow> n \<le> int (length (filter (\<lambda>s. t - secs \<le> s) (past_failures ops c)))"
proof -
  let ?w = "fold auth_step ops (new_window n secs)"
  have "aw_max_failures ?w = n" by (induction ops rule: rev_induct) (simp_all add: new_window_def)
  moreover have "aw_max_failures (snd (auth_bucket t c ?w)) = aw_max_failures ?w"
    by (simp add: auth_bucket_def Let_def)
  ultimately show ?thesis
    using window_history [OF assms, of c n secs]
    by (cases "auth_bucket t c ?w") (simp add: window_blocked_def)
qed

theorem auth_window_refines_history_witness:
  "fst (window_blocked 70 [97] (fold auth_step [Failure 1 2 [97], Failure 20 20 [97], Ask 30 [98]] (new_window 2 60)))
     \<longleftrightarrow> (2 :: int) \<le> 1"
  using auth_window_refines_history [of "[Failure 1 2 [97], Failure 20 20 [97], Ask 30 [98]]" 70 "[97]" 2 60] by simp

text \<open>
  C23: the operator API fails closed: a request under the guarded prefix passes only when a
  token is configured, the request carries exactly that token, and the limiter did not
  count the client as blocked.
\<close>

theorem operator_guard_needs_token:
  assumes "operator_guard lm token rq s = (Inr None, s')" and "guarded_path (hr_path rq)"
  shows "(\<exists>tok. token = Some tok \<and> tok \<noteq> [] \<and> provided_token rq = tok) \<and>
    fst (fl_blocked lm (case hr_client rq of None \<Rightarrow> lit ''unknown'' | Some h \<Rightarrow> h) s) = Inr False"
  using assms
  by (auto simp: operator_guard_def Let_def compare_digest_def elim!: bindp_cases split: if_splits option.splits sum.splits bool.splits)

definition demo_request :: http_request where
  "demo_request = \<lparr>hr_path = lit ''/operator/x'', hr_client = None, hr_authorization = Some (lit ''Bearer k'')\<rparr>"

theorem operator_guard_needs_token_witness:
  "(\<exists>tok. Some (lit ''k'') = Some tok \<and> tok \<noteq> [] \<and> provided_token demo_request = tok) \<and>
    fst (fl_blocked (window_limiter 5) (lit ''unknown'') (new_window 3 60)) = Inr False"
proof -
  have g: "guarded_path (hr_path demo_request)"
    by (simp add: demo_request_def guarded_path_def guarded_prefix_def starts_with_def str_simps)
  have p: "provided_token demo_request = lit ''k''"
    by (simp add: demo_request_def provided_token_def remove_prefix_def starts_with_def str_simps strip_def lstrip_def
        rstrip_def py_space_def)
  have c: "hr_client demo_request = None" by (simp add: demo_request_def)
  have b: "fl_blocked (window_limiter 5) (lit ''unknown'') (new_window 3 60) = (Inr False, snd (window_blocked 5 (lit ''unknown'') (new_window 3 60)))"
    by (simp add: window_limiter_def liftp_def window_blocked_def auth_bucket_def Let_def new_window_def dict_get_def)
  have "compare_digest (lit ''k'') (lit ''k'') = Inr True" by (simp add: compare_digest_def str_simps)
  then obtain s' where "operator_guard (window_limiter 5) (Some (lit ''k'')) demo_request (new_window 3 60) = (Inr None, s')"
    using g p b c by (simp add: operator_guard_def bindp_def Let_def)
  from operator_guard_needs_token [OF this g] c show ?thesis by simp
qed

text \<open>A credential outside ASCII raises a \<open>TypeError\<close> instead of counting as a failure.\<close>

lemma non_ascii_credential_raises:
  assumes "guarded_path (hr_path rq)" and "\<exists>c \<in> set (provided_token rq). \<not> c < 128"
    and "fl_blocked lm (case hr_client rq of None \<Rightarrow> lit ''unknown'' | Some h \<Rightarrow> h) s = (Inr False, s1)"
  shows "operator_guard lm (Some tok) rq s = (Inl (Raised (lit ''TypeError'')), s1)"
  using assms by (auto simp: operator_guard_def Let_def bindp_def compare_digest_def)

text \<open>A counter whose first increment is not followed by its expiry stays for ever.\<close>

lemma counter_without_expiry_stays:
  assumes "map_of (rc_values r) (limiter_key sha256 l client) = Some (n, None)" and "1 \<le> n"
  shows "counter_live (redis_record sha256 l crash client (r\<lparr>rc_now_ms := t\<rparr>)) (limiter_key sha256 l client) = Some (n + 1, None)"
  using assms
  by (auto simp: redis_record_def redis_incr_def counter_live_def Let_def map_of_update split: prod.split)

lemma crash_leaves_no_expiry:
  assumes "counter_live r (limiter_key sha256 l client) = None"
  shows "map_of (rc_values (redis_record sha256 l True client r)) (limiter_key sha256 l client) = Some (1, None)"
  using assms by (simp add: redis_record_def redis_incr_def Let_def map_of_update split: prod.split)

end
