(* ===== verification/Willingness.thy ===== *)
theory Willingness
  imports Prompt
begin

text \<open>
  Participation scoring for unaddressed group messages, \<open>engine/willingness.py\<close>, with the
  score contract of \<open>contracts/profiles.py\<close>. The activity of the conversation, the semantic
  relevance and the audit are services over a state \<open>'w\<close>; \<open>str.casefold\<close> is a parameter.
  Floats are real numbers, \<open>round(x, 4)\<close> rounds half to even. The main results: a returned
  decision agrees with its score and threshold and was audited, and the exact case in which
  the rounding of the stored threshold makes the evaluation fail.
\<close>

section \<open>Numbers\<close>

definition clamp :: "real \<Rightarrow> real" where
  "clamp x = max 0 (min 1 x)"

definition half_even :: "real \<Rightarrow> int" where
  "half_even x = (let d = x - of_int \<lfloor>x\<rfloor>
     in if d < 1 / 2 then \<lfloor>x\<rfloor> else if d > 1 / 2 then \<lfloor>x\<rfloor> + 1 else if even \<lfloor>x\<rfloor> then \<lfloor>x\<rfloor> else \<lfloor>x\<rfloor> + 1)"

definition round4 :: "real \<Rightarrow> real" where
  "round4 x = of_int (half_even (x * 10000)) / 10000"

section \<open>The contract of a score\<close>

record willingness_policy =
  wp_enabled :: bool
  wp_threshold :: real
  wp_sensitivity :: real
  wp_keywords :: "ustr list"

record willing_parts =
  wc_keyword :: real
  wc_question :: real
  wc_persona :: real
  wc_memory :: real
  wc_heat :: real
  wc_presence :: real

record willing_score =
  ws_score :: real
  ws_threshold :: real
  ws_allowed :: bool
  ws_reason :: ustr
  ws_parts :: willing_parts

definition no_parts :: willing_parts where
  "no_parts = \<lparr>wc_keyword = 0, wc_question = 0, wc_persona = 0, wc_memory = 0, wc_heat = 0, wc_presence = 0\<rparr>"

definition unit_real :: "real \<Rightarrow> bool" where
  "unit_real x \<longleftrightarrow> 0 \<le> x \<and> x \<le> 1"

definition valid_parts :: "willing_parts \<Rightarrow> bool" where
  "valid_parts c \<longleftrightarrow> unit_real (wc_keyword c) \<and> unit_real (wc_question c) \<and> unit_real (wc_persona c) \<and>
     unit_real (wc_memory c) \<and> unit_real (wc_heat c) \<and> unit_real (wc_presence c)"

text \<open>The constructor refuses a decision that does not match its own numbers.\<close>

definition valid_score :: "willing_score \<Rightarrow> bool" where
  "valid_score s \<longleftrightarrow> unit_real (ws_score s) \<and> unit_real (ws_threshold s) \<and> strip (ws_reason s) \<noteq> [] \<and>
     valid_parts (ws_parts s) \<and> (ws_allowed s \<longleftrightarrow> ws_score s \<ge> ws_threshold s)"

definition mk_score :: "willing_score \<Rightarrow> exn + willing_score" where
  "mk_score s = (if valid_score s then Inr (s\<lparr>ws_reason := strip (ws_reason s)\<rparr>) else Inl (Raised (lit ''ValidationError'')))"

section \<open>Scoring\<close>

definition question_terms :: "ustr list" where
  "question_terms = [[24590, 20040], [22914, 20309], [20026, 20160, 20040], [26377, 27809, 26377], [24590, 20040, 21150], [35841, 30693, 36947]]"

definition request_terms :: "ustr list" where
  "request_terms = [[24110, 24537], [27714, 21161], [24314, 35758], [30475, 30475], [33021, 19981, 33021]]"

definition question_mark :: "nat \<Rightarrow> bool" where
  "question_mark c \<longleftrightarrow> c = 63 \<or> c = 65311"

text \<open>\<open>re.search("[?\uFF1F](?:\s|$)", text)\<close>.\<close>

fun asks_question :: "ustr \<Rightarrow> bool" where
  "asks_question [] = False"
| "asks_question [c] = question_mark c"
| "asks_question (c # d # cs) = (question_mark c \<and> py_space d \<or> asks_question (d # cs))"

definition keyword_score :: "(ustr \<Rightarrow> ustr) \<Rightarrow> ustr \<Rightarrow> ustr list \<Rightarrow> real" where
  "keyword_score casefold text keywords = (if \<exists>k \<in> set keywords. has_sub (casefold k) (casefold text) then 1 else 0)"

definition question_score :: "ustr \<Rightarrow> real" where
  "question_score text = (if text = [] then 0
     else if \<exists>term \<in> set (question_terms @ request_terms). has_sub term text then 1
     else if asks_question text then 4 / 5 else 0)"

definition raw_score :: "willing_parts \<Rightarrow> real" where
  "raw_score c = 28 / 100 * wc_keyword c + 22 / 100 * wc_question c + 14 / 100 * wc_persona c
     + 22 / 100 * wc_memory c + 14 / 100 * wc_heat c - 30 / 100 * wc_presence c"

definition score_reasons :: "willing_parts \<Rightarrow> ustr list" where
  "score_reasons c = map fst (filter (\<lambda>(name, x). x \<ge> 1 / 2)
     [(lit ''keyword'', wc_keyword c), (lit ''question'', wc_question c), (lit ''persona'', wc_persona c),
      (lit ''memory'', wc_memory c), (lit ''heat'', wc_heat c)])"

definition score_reason :: "willing_parts \<Rightarrow> ustr" where
  "score_reason c = (if score_reasons c \<noteq> [] then py_join (lit '' + '') (score_reasons c) else lit ''weak group relevance'')"

record 'w willing_env =
  we_activity :: "ustr \<Rightarrow> real \<Rightarrow> ('w, nat \<times> nat) prog"
  we_semantic :: "envelope \<Rightarrow> ustr \<Rightarrow> ustr \<Rightarrow> ('w, real \<times> real) prog"
  we_audit :: "ustr \<Rightarrow> ustr option \<Rightarrow> ustr option \<Rightarrow> willing_score \<Rightarrow> ('w, unit) prog"
  we_now :: "('w, real) prog"
  we_window_minutes :: int
  we_casefold :: "ustr \<Rightarrow> ustr"

record willing_subject =
  wj_envelope :: envelope
  wj_conversation :: ustr
  wj_message :: "ustr option"
  wj_profile :: "ustr option"
  wj_persona :: ustr

definition scored :: "'w willing_env \<Rightarrow> willing_subject \<Rightarrow> exn + willing_score \<Rightarrow> ('w, willing_score) prog" where
  "scored env j r = (case r of Inl x \<Rightarrow> raisep x
     | Inr s \<Rightarrow> bindp (we_audit env (wj_conversation j) (wj_message j) (wj_profile j) s) (\<lambda>_. retp s))"

definition activity_parts :: "real \<Rightarrow> real \<Rightarrow> real \<times> real \<Rightarrow> nat \<times> nat \<Rightarrow> willing_parts" where
  "activity_parts keyword question relevance activity =
     (let (persona, memory) = relevance; (inbound, outbound) = activity in
      \<lparr>wc_keyword = keyword, wc_question = question, wc_persona = clamp persona, wc_memory = clamp memory,
       wc_heat = clamp (of_nat inbound / 20),
       wc_presence = (if inbound + outbound \<noteq> 0 then clamp (of_nat outbound / of_nat (inbound + outbound)) else 0)\<rparr>)"

definition final_score :: "real \<Rightarrow> willing_parts \<Rightarrow> exn + willing_score" where
  "final_score threshold c =
     (let final = round4 (clamp (raw_score c))
      in mk_score \<lparr>ws_score = final, ws_threshold = round4 threshold, ws_allowed = (final \<ge> threshold),
           ws_reason = score_reason c, ws_parts = c\<rparr>)"

definition willing_evaluate :: "'w willing_env \<Rightarrow> willing_subject \<Rightarrow> willingness_policy \<Rightarrow> ('w, willing_score) prog" where
  "willing_evaluate env j policy =
     (let threshold = clamp (wp_threshold policy / wp_sensitivity policy)
      in if \<not> wp_enabled policy
         then scored env j (mk_score \<lparr>ws_score = 0, ws_threshold = threshold, ws_allowed = False,
                ws_reason = lit ''profile willingness disabled'', ws_parts = no_parts\<rparr>)
         else let text = strip (envelope_text (wj_envelope j));
                  keyword = keyword_score (we_casefold env) text (wp_keywords policy);
                  question = question_score text
           in bindp (catchp (bindp (we_semantic env (wj_envelope j) text (wj_persona j)) (\<lambda>r. retp (Some r))) (\<lambda>_. retp None))
                (\<lambda>found. case found of
                   None \<Rightarrow> scored env j (mk_score \<lparr>ws_score = 0, ws_threshold = threshold, ws_allowed = False,
                     ws_reason = lit ''semantic relevance unavailable'',
                     ws_parts = no_parts\<lparr>wc_keyword := keyword, wc_question := question\<rparr>\<rparr>)
                 | Some relevance \<Rightarrow>
                     bindp (we_now env) (\<lambda>now.
                     bindp (we_activity env (wj_conversation j) (now - 60 * of_int (we_window_minutes env))) (\<lambda>activity.
                     scored env j (final_score threshold (activity_parts keyword question relevance activity))))))"

section \<open>Rounding\<close>

lemma half_even_bounds: "\<lfloor>x\<rfloor> \<le> half_even x" "half_even x \<le> \<lfloor>x\<rfloor> + 1"
  by (simp_all add: half_even_def Let_def)

lemma half_even_of_int [simp]: "half_even (of_int i) = i"
  by (simp add: half_even_def Let_def)

lemma half_even_mono:
  assumes "x \<le> y"
  shows "half_even x \<le> half_even y"
proof (cases "\<lfloor>x\<rfloor> = \<lfloor>y\<rfloor>")
  case True
  then have "x - of_int \<lfloor>x\<rfloor> \<le> y - of_int \<lfloor>y\<rfloor>" using assms by simp
  then show ?thesis using True by (auto simp: half_even_def Let_def)
next
  case False
  then have "\<lfloor>x\<rfloor> + 1 \<le> \<lfloor>y\<rfloor>" using floor_mono [OF assms] by linarith
  then show ?thesis using half_even_bounds [of x] half_even_bounds [of y] by linarith
qed

lemma round4_mono: "x \<le> y \<Longrightarrow> round4 x \<le> round4 y"
  using half_even_mono [of "x * 10000" "y * 10000"] by (simp add: round4_def)

lemma round4_idem [simp]: "round4 (round4 x) = round4 x"
  by (simp add: round4_def)

lemma round4_unit: "unit_real x \<Longrightarrow> unit_real (round4 x)"
proof -
  have "round4 0 = 0" "round4 1 = 1"
    using half_even_of_int [of 0] half_even_of_int [of 10000] by (simp_all add: round4_def)
  moreover assume "unit_real x"
  ultimately show ?thesis using round4_mono [of 0 x] round4_mono [of x 1] by (auto simp: unit_real_def)
qed

lemma clamp_unit [simp]: "unit_real (clamp x)"
  by (auto simp: clamp_def unit_real_def)

text \<open>Comparing a rounded score with a rounded threshold differs from comparing it with the
  threshold itself only when it equals the threshold rounded down.\<close>

lemma rounded_comparison:
  "(round4 x \<ge> t) \<noteq> (round4 x \<ge> round4 t) \<longleftrightarrow> round4 t < t \<and> round4 x = round4 t"
proof -
  have "round4 t \<le> round4 x" if "t \<le> round4 x" using round4_mono [OF that] by simp
  moreover have "round4 x \<le> round4 t" if "round4 x < t" using round4_mono [of "round4 x" t] that by simp
  ultimately show ?thesis by force
qed

lemma join_not_blank: "ps \<noteq> [] \<Longrightarrow> c \<in> set (hd ps) \<Longrightarrow> \<not> py_space c \<Longrightarrow> strip (py_join sep ps) \<noteq> []"
  by (cases ps rule: remdups_adj.cases) (auto simp: strip_eq_Nil_iff)

lemma score_reason_visible [simp]: "strip (score_reason c) \<noteq> []"
proof (cases "score_reasons c")
  case Nil
  then show ?thesis by (simp add: score_reason_def strip_eq_Nil_iff str_simps py_space_def)
next
  case (Cons r rs)
  then have "r \<in> set (score_reasons c)" by simp
  then have "\<exists>d \<in> set r. \<not> py_space d" by (auto simp: score_reasons_def str_simps py_space_def split: if_splits)
  then show ?thesis using Cons join_not_blank [of "score_reasons c"] by (auto simp: score_reason_def)
qed

lemma final_score_fault:
  assumes "valid_parts c" and "unit_real threshold"
  shows "final_score threshold c = Inl (Raised (lit ''ValidationError''))
    \<longleftrightarrow> round4 threshold < threshold \<and> round4 (clamp (raw_score c)) = round4 threshold"
proof -
  have "final_score threshold c = Inl (Raised (lit ''ValidationError'')) \<longleftrightarrow>
      (round4 (clamp (raw_score c)) \<ge> threshold) \<noteq> (round4 (clamp (raw_score c)) \<ge> round4 threshold)"
    using assms round4_unit by (simp add: final_score_def mk_score_def valid_score_def Let_def)
  then show ?thesis unfolding rounded_comparison .
qed

lemma mk_score_Inr: "mk_score s = Inr t \<Longrightarrow> valid_score s \<and> t = s\<lparr>ws_reason := strip (ws_reason s)\<rparr>"
  by (auto simp: mk_score_def split: if_splits)

lemma scored_Inr:
  assumes "scored env j r s = (Inr sc, s')"
  shows "r = Inr sc \<and> we_audit env (wj_conversation j) (wj_message j) (wj_profile j) sc s = (Inr (), s')"
  using assms by (cases r) (auto simp: scored_def elim!: bindp_cases)

lemma activity_parts_valid:
  "unit_real k \<Longrightarrow> unit_real q \<Longrightarrow> valid_parts (activity_parts k q r a)"
  by (auto simp: valid_parts_def activity_parts_def unit_real_def clamp_def split: prod.split)

lemma part_scores_unit [simp]: "unit_real (keyword_score f t ks)" "unit_real (question_score t)"
  by (auto simp: keyword_score_def question_score_def unit_real_def)

section \<open>Properties\<close>

text \<open>
  a participation decision that is returned was written to the audit as it is, lies in
  the unit interval, and allows a reply exactly when its score reaches its threshold; a
  reply is allowed only with the policy enabled and the exact, unrounded threshold reached.
\<close>

theorem willing_decision:
  assumes "willing_evaluate env j policy s = (Inr sc, s')"
  shows "(ws_allowed sc \<longleftrightarrow> ws_score sc \<ge> ws_threshold sc) \<and> unit_real (ws_score sc) \<and>
    (ws_allowed sc \<longrightarrow> wp_enabled policy \<and> ws_score sc \<ge> clamp (wp_threshold policy / wp_sensitivity policy)) \<and>
    (\<exists>s1. we_audit env (wj_conversation j) (wj_message j) (wj_profile j) sc s1 = (Inr (), s'))"
proof -
  let ?t = "clamp (wp_threshold policy / wp_sensitivity policy)"
  have use: ?thesis if "scored env j r s1 = (Inr sc, s')"
    and "\<And>x. r = Inr x \<Longrightarrow> valid_score x \<and> (ws_allowed x \<longrightarrow> wp_enabled policy \<and> ws_score x \<ge> ?t)" for r s1
    using scored_Inr [OF that(1)] that(2) by (auto simp: valid_score_def)
  have refused: "valid_score x \<and> (ws_allowed x \<longrightarrow> wp_enabled policy \<and> ws_score x \<ge> ?t)"
    if "mk_score y = Inr x" "\<not> ws_allowed y" for x y
    using mk_score_Inr [OF that(1)] that(2) by (auto simp: valid_score_def)
  show ?thesis
  proof (cases "wp_enabled policy")
    case False
    then have "scored env j (mk_score \<lparr>ws_score = 0, ws_threshold = ?t, ws_allowed = False,
        ws_reason = lit ''profile willingness disabled'', ws_parts = no_parts\<rparr>) s = (Inr sc, s')"
      using assms by (simp add: willing_evaluate_def Let_def)
    then show ?thesis by (rule use) (auto dest: refused)
  next
    case True
    have final: "valid_score x \<and> (ws_allowed x \<longrightarrow> wp_enabled policy \<and> ws_score x \<ge> ?t)"
      if "final_score ?t c = Inr x" for c x
      using mk_score_Inr [OF that [unfolded final_score_def Let_def]] True by (auto simp: valid_score_def)
    obtain found s1 where "(case found of
        None \<Rightarrow> scored env j (mk_score \<lparr>ws_score = 0, ws_threshold = ?t, ws_allowed = False,
          ws_reason = lit ''semantic relevance unavailable'',
          ws_parts = no_parts\<lparr>wc_keyword := keyword_score (we_casefold env) (strip (envelope_text (wj_envelope j))) (wp_keywords policy),
            wc_question := question_score (strip (envelope_text (wj_envelope j)))\<rparr>\<rparr>)
      | Some relevance \<Rightarrow> bindp (we_now env) (\<lambda>now.
          bindp (we_activity env (wj_conversation j) (now - 60 * of_int (we_window_minutes env))) (\<lambda>activity.
            scored env j (final_score ?t (activity_parts
              (keyword_score (we_casefold env) (strip (envelope_text (wj_envelope j))) (wp_keywords policy))
              (question_score (strip (envelope_text (wj_envelope j)))) relevance activity))))) s1 = (Inr sc, s')"
      using assms True unfolding willing_evaluate_def Let_def by (auto elim!: bindp_cases)
    then show ?thesis
    proof (cases found)
      case None
      with \<open>(case found of None \<Rightarrow> _ | Some r \<Rightarrow> _ r) s1 = _\<close> show ?thesis by simp (erule use, auto dest: refused)
    next
      case (Some relevance)
      with \<open>(case found of None \<Rightarrow> _ | Some r \<Rightarrow> _ r) s1 = _\<close>
      obtain parts s3 where "scored env j (final_score ?t parts) s3 = (Inr sc, s')"
        by (auto elim!: bindp_cases)
      then show ?thesis by (rule use) (auto dest: final)
    qed
  qed
qed

text \<open>
  an enabled evaluation with available services fails with a validation error exactly
  when the rounded score equals the threshold rounded down to four digits: the decision is
  taken against the exact threshold, the contract checks it against the rounded one.
\<close>

theorem willing_rounding_fault:
  assumes "wp_enabled policy"
    and "we_semantic env (wj_envelope j) (strip (envelope_text (wj_envelope j))) (wj_persona j) s = (Inr relevance, s1)"
    and "we_now env s1 = (Inr now, s2)"
    and "we_activity env (wj_conversation j) (now - 60 * of_int (we_window_minutes env)) s2 = (Inr activity, s3)"
    and "we_audit env (wj_conversation j) (wj_message j) (wj_profile j) = (\<lambda>sc. retp ())"
  defines "t \<equiv> clamp (wp_threshold policy / wp_sensitivity policy)"
    and "c \<equiv> activity_parts (keyword_score (we_casefold env) (strip (envelope_text (wj_envelope j))) (wp_keywords policy))
          (question_score (strip (envelope_text (wj_envelope j)))) relevance activity"
  shows "fst (willing_evaluate env j policy s) = Inl (Raised (lit ''ValidationError''))
    \<longleftrightarrow> round4 t < t \<and> round4 (clamp (raw_score c)) = round4 t"
proof -
  have "willing_evaluate env j policy s = scored env j (final_score t c) s3"
    using assms(1-4) by (simp add: willing_evaluate_def Let_def bindp_def catchp_def t_def c_def)
  then have "fst (willing_evaluate env j policy s) = final_score t c"
    by (cases "final_score t c") (simp_all add: scored_def assms(5))
  moreover have "valid_parts c" "unit_real t" unfolding c_def t_def by (auto intro: activity_parts_valid)
  ultimately show ?thesis using final_score_fault by simp
qed

text \<open>With the threshold 0 a disabled policy raises as well.\<close>

lemma disabled_zero_threshold_raises:
  "\<not> wp_enabled policy \<Longrightarrow> wp_threshold policy = 0 \<Longrightarrow>
     willing_evaluate env j policy s = (Inl (Raised (lit ''ValidationError'')), s)"
  by (simp add: willing_evaluate_def Let_def clamp_def mk_score_def valid_score_def scored_def)

text \<open>Services that always answer, for a message with one text.\<close>

definition willing_demo :: "real \<times> real \<Rightarrow> unit willing_env" where
  "willing_demo relevance = \<lparr>we_activity = (\<lambda>c since. retp (0, 0)), we_semantic = (\<lambda>e t p. retp relevance),
     we_audit = (\<lambda>c m p sc. retp ()), we_now = retp 0, we_window_minutes = 10, we_casefold = (\<lambda>t. t)\<rparr>"

definition willing_subject_demo :: willing_subject where
  "willing_subject_demo = \<lparr>wj_envelope = \<lparr>env_id = [1], env_connection_id = [99], env_platform = QQ, env_chat_kind = GROUP,
     env_chat_id = [53], env_thread_id = None, env_sender_identity_id = [53], env_occurred_at = 0,
     env_segments = [TextSegment [104]], env_reply_to_message_id = None, env_raw_ref = None, env_trace_id = [116],
     env_ephemeral = False\<rparr>, wj_conversation = [1], wj_message = None, wj_profile = None, wj_persona = []\<rparr>"

definition willing_policy_demo :: willingness_policy where
  "willing_policy_demo = \<lparr>wp_enabled = True, wp_threshold = 1 / 5, wp_sensitivity = 3 / 2, wp_keywords = []\<rparr>"

lemma willing_demo_text: "strip (envelope_text (wj_envelope willing_subject_demo)) = [104]"
  by (simp add: willing_subject_demo_def envelope_text_def strip_def lstrip_def rstrip_def py_space_def)

lemma question_demo: "question_score [104] = 0"
  by (simp add: question_score_def question_terms_def request_terms_def question_mark_def starts_with_def)

text \<open>The relevance 0 and 0.1333 / 0.22 gives the score 0.1333; the threshold is 0.2 / 1.5.\<close>

theorem willing_rounding_fault_witness:
  "fst (willing_evaluate (willing_demo (0, 1333 / 2200)) willing_subject_demo willing_policy_demo ())
     = Inl (Raised (lit ''ValidationError''))"
proof -
  let ?env = "willing_demo (0, 1333 / 2200)"
  have h: "half_even (4000 / 3) = 1333" by (simp add: half_even_def Let_def)
  have t: "clamp (wp_threshold willing_policy_demo / wp_sensitivity willing_policy_demo) = 2 / 15"
    by (simp add: clamp_def willing_policy_demo_def)
  have r: "round4 (2 / 15) = 1333 / 10000" using h by (simp add: round4_def)
  have c: "activity_parts (keyword_score (we_casefold ?env) [104] (wp_keywords willing_policy_demo)) 0 (0, 1333 / 2200) (0, 0)
      = no_parts\<lparr>wc_memory := 1333 / 2200\<rparr>"
    by (simp add: activity_parts_def keyword_score_def willing_policy_demo_def no_parts_def clamp_def)
  have s: "round4 (clamp (raw_score (no_parts\<lparr>wc_memory := 1333 / 2200\<rparr>))) = 1333 / 10000"
    using half_even_of_int [of 1333] by (simp add: raw_score_def no_parts_def clamp_def round4_def)
  have "fst (willing_evaluate ?env willing_subject_demo willing_policy_demo ()) = Inl (Raised (lit ''ValidationError''))
    \<longleftrightarrow> round4 (2 / 15) < 2 / 15 \<and> round4 (clamp (raw_score (no_parts\<lparr>wc_memory := 1333 / 2200\<rparr>))) = round4 (2 / 15)"
    using willing_rounding_fault [of willing_policy_demo ?env willing_subject_demo "()" "(0, 1333 / 2200)" "()" 0 "()" "(0, 0)" "()"]
    unfolding willing_demo_text question_demo t c by (simp add: willing_demo_def willing_policy_demo_def)
  then show ?thesis using r s by simp
qed

theorem willing_decision_witness:
  "\<exists>sc. willing_evaluate (willing_demo (0, 1)) willing_subject_demo willing_policy_demo () = (Inr sc, ()) \<and>
     ws_allowed sc \<and> ws_score sc \<ge> ws_threshold sc"
proof -
  have h: "half_even (4000 / 3) = 1333" by (simp add: half_even_def Let_def)
  have k: "keyword_score f t (wp_keywords willing_policy_demo) = 0" for f t
    by (simp add: keyword_score_def willing_policy_demo_def)
  have f: "\<exists>sc. final_score (2 / 15) (no_parts\<lparr>wc_memory := 1\<rparr>) = Inr sc \<and> ws_allowed sc"
    using half_even_of_int [of 2200] h
    by (simp add: final_score_def mk_score_def valid_score_def raw_score_def no_parts_def clamp_def round4_def unit_real_def
        valid_parts_def Let_def)
  have a: "activity_parts 0 0 (0, 1) (0, 0) = no_parts\<lparr>wc_memory := 1\<rparr>"
    by (simp add: activity_parts_def no_parts_def clamp_def)
  have e: "willing_evaluate (willing_demo (0, 1)) willing_subject_demo willing_policy_demo ()
      = scored (willing_demo (0, 1)) willing_subject_demo (final_score (2 / 15) (no_parts\<lparr>wc_memory := 1\<rparr>)) ()"
    unfolding willing_evaluate_def willing_demo_text question_demo k Let_def
    by (simp add: willing_demo_def willing_policy_demo_def bindp_def catchp_def a clamp_def)
  obtain sc where sc: "final_score (2 / 15) (no_parts\<lparr>wc_memory := 1\<rparr>) = Inr sc" "ws_allowed sc" using f by blast
  then have r: "willing_evaluate (willing_demo (0, 1)) willing_subject_demo willing_policy_demo () = (Inr sc, ())"
    unfolding e by (simp add: scored_def willing_demo_def)
  from willing_decision [OF r] r sc(2) show ?thesis by blast
qed

end
