(* ===== verification/MessageStore.thy ===== *)
theory MessageStore
  imports Payload
begin

text \<open>
  The tables of conversations and messages: \<open>repositories/conversations.py\<close>,
  \<open>repositories/messages.py\<close> and \<open>repositories/system_kv.py\<close>. A statement sequence of one
  method is one step on the tables; the unique keys and foreign keys of the schema fail an
  insertion as they do in PostgreSQL. Identifiers come from a supply (\<open>uuid4\<close>), instants
  are microseconds, and rows with the same instant keep their order of insertion. The main
  results: the tables keep their keys, a redelivered message is stored once, and different
  conversations never share a row.
\<close>

section \<open>Stored segments\<close>

definition opt_json :: "ustr option \<Rightarrow> json" where
  "opt_json x = (case x of None \<Rightarrow> JNull | Some s \<Rightarrow> JStr s)"

fun segment_json :: "segment \<Rightarrow> (ustr, json) dict" where
  "segment_json (TextSegment t) = [(lit ''type'', JStr (lit ''text'')), (lit ''text'', JStr t)]"
| "segment_json (ImageSegment u a) = [(lit ''type'', JStr (lit ''image'')), (lit ''url'', JStr u), (lit ''alt_text'', opt_json a)]"
| "segment_json (FileSegment n u m) = [(lit ''type'', JStr (lit ''file'')), (lit ''name'', JStr n), (lit ''url'', JStr u),
     (lit ''mime_type'', opt_json m)]"
| "segment_json (ReferenceSegment i l) = [(lit ''type'', JStr (lit ''reference'')), (lit ''message_id'', JStr i), (lit ''label'', opt_json l)]"
| "segment_json (AtSegment i n) = [(lit ''type'', JStr (lit ''at'')), (lit ''target_id'', JStr i), (lit ''display_name'', opt_json n)]"
| "segment_json (StickerSegment i n) = [(lit ''type'', JStr (lit ''sticker'')), (lit ''id'', JStr i), (lit ''name'', opt_json n)]"
| "segment_json (VoiceSegment u m d) = [(lit ''type'', JStr (lit ''voice'')), (lit ''url'', JStr u), (lit ''mime_type'', opt_json m),
     (lit ''duration_ms'', (case d of None \<Rightarrow> JNull | Some i \<Rightarrow> JInt i))]"

text \<open>\<open>name if isinstance(name, str) and name else label\<close>.\<close>

definition named :: "(ustr, json) dict \<Rightarrow> string \<Rightarrow> ustr \<Rightarrow> ustr" where
  "named seg key label = (case get_str seg (lit key) of Some (c # cs) \<Rightarrow> c # cs | _ \<Rightarrow> label)"

definition tagged :: "ustr \<Rightarrow> ustr \<Rightarrow> ustr" where
  "tagged label t = [91] @ label @ [58, 32] @ t @ [93]"

definition stored_text :: "json \<Rightarrow> ustr list" where
  "stored_text raw = (case raw of JObj seg \<Rightarrow>
       (let ty = get_str seg (lit ''type'') in
        if ty = Some (lit ''text'')
        then (case get_str seg (lit ''text'') of None \<Rightarrow> [] | Some t \<Rightarrow> if strip t \<noteq> [] then [strip t] else [])
        else if ty = Some (lit ''image'') then [tagged [22270, 29255] (named seg ''alt_text'' [22270, 29255])]
        else if ty = Some (lit ''sticker'') then [tagged [34920, 24773] (named seg ''name'' [34920, 24773])]
        else if ty = Some (lit ''voice'') then [[91, 35821, 38899, 28040, 24687, 93]]
        else if ty = Some (lit ''file'') then [tagged [25991, 20214] (named seg ''name'' [25991, 20214])]
        else [])
     | _ \<Rightarrow> [])"

definition text_from_segments :: "json \<Rightarrow> ustr" where
  "text_from_segments segments = (case segments of JArr raws \<Rightarrow> py_join [10] (concat (map stored_text raws)) | _ \<Rightarrow> [])"

section \<open>Tables\<close>

record conversation_row =
  cv_id :: ustr
  cv_stable_key :: ustr
  cv_connection_id :: ustr
  cv_platform :: ustr
  cv_chat_kind :: ustr
  cv_chat_id :: ustr
  cv_thread_id :: "ustr option"
  cv_ephemeral :: bool
  cv_last_message_at :: "int option"

record message_row =
  mr_id :: ustr
  mr_conversation :: ustr
  mr_direction :: ustr
  mr_platform_id :: "ustr option"
  mr_sender :: ustr
  mr_segments :: json
  mr_occurred_at :: int
  mr_raw :: "json option"
  mr_trace :: "ustr option"

record message_db =
  db_conversations :: "conversation_row list"
  db_messages :: "message_row list"
  db_uuid :: "nat \<Rightarrow> ustr"
  db_drawn :: nat

definition inbound_direction :: ustr where
  "inbound_direction = lit ''inbound''"

definition outbound_direction :: ustr where
  "outbound_direction = lit ''outbound''"

definition integrity_error :: exn where
  "integrity_error = Raised (lit ''IntegrityError'')"

definition draw_uuid :: "message_db \<Rightarrow> ustr \<times> message_db" where
  "draw_uuid db = (db_uuid db (db_drawn db), db\<lparr>db_drawn := Suc (db_drawn db)\<rparr>)"

subsection \<open>Conversations\<close>

definition get_or_create :: "conversation_key \<Rightarrow> platform \<Rightarrow> bool \<Rightarrow> (message_db, ustr \<times> ustr) prog" where
  "get_or_create key platform ephemeral db =
     (let (cid, db) = draw_uuid db; skey = stable_key key;
          rows = db_conversations db;
          new = \<lparr>cv_id = cid, cv_stable_key = skey, cv_connection_id = ck_connection_id key,
                 cv_platform = platform_value platform, cv_chat_kind = chat_kind_value (ck_chat_kind key),
                 cv_chat_id = ck_chat_id key, cv_thread_id = ck_thread_id key,
                 cv_ephemeral = (ephemeral \<or> platform = SANDBOX), cv_last_message_at = None\<rparr>;
          rows' = (if \<exists>r \<in> set rows. cv_stable_key r = skey then rows else rows @ [new])
      in if (\<forall>r \<in> set rows. cv_stable_key r \<noteq> skey) \<and> cid \<in> cv_id ` set rows then (Inl integrity_error, db)
         else (case find (\<lambda>r. cv_stable_key r = skey) rows' of
             None \<Rightarrow> (Inl (Raised (lit ''NoResultFound'')), db)
           | Some r \<Rightarrow> (Inr (cv_id r, cv_stable_key r), db\<lparr>db_conversations := rows'\<rparr>)))"

definition conversation_by_key :: "ustr \<Rightarrow> message_db \<Rightarrow> conversation_row option" where
  "conversation_by_key skey db = find (\<lambda>r. cv_stable_key r = skey) (db_conversations db)"

definition conversation_by_id :: "ustr \<Rightarrow> message_db \<Rightarrow> conversation_row option" where
  "conversation_by_id cid db = find (\<lambda>r. cv_id r = cid) (db_conversations db)"

subsection \<open>Messages\<close>

text \<open>\<open>envelope.id.rsplit(":", 1)[-1]\<close>.\<close>

definition platform_message_id :: "envelope \<Rightarrow> ustr" where
  "platform_message_id e = rev (takeWhile (\<lambda>c. c \<noteq> 58) (rev (env_id e)))"

definition same_slot :: "ustr \<Rightarrow> ustr \<Rightarrow> ustr \<Rightarrow> message_row \<Rightarrow> bool" where
  "same_slot cid direction pid r \<longleftrightarrow> mr_conversation r = cid \<and> mr_direction r = direction \<and> mr_platform_id r = Some pid"

definition record_inbound :: "ustr \<Rightarrow> envelope \<Rightarrow> (message_db, ustr \<times> bool) prog" where
  "record_inbound cid e db =
     (let (mid, db) = draw_uuid db; pid = platform_message_id e;
          row = \<lparr>mr_id = mid, mr_conversation = cid, mr_direction = inbound_direction, mr_platform_id = Some pid,
                 mr_sender = env_sender_identity_id e, mr_segments = JArr (map (JObj \<circ> segment_json) (env_segments e)),
                 mr_occurred_at = env_occurred_at e, mr_raw = map_option thaw_json (env_raw_ref e), mr_trace = Some (env_trace_id e)\<rparr>
      in case find (same_slot cid inbound_direction pid) (db_messages db) of
           Some existing \<Rightarrow> (Inr (mr_id existing, True), db)
         | None \<Rightarrow>
             if cid \<notin> cv_id ` set (db_conversations db) \<or> mid \<in> mr_id ` set (db_messages db) then (Inl integrity_error, db)
             else (Inr (mid, False), db\<lparr>db_messages := db_messages db @ [row],
               db_conversations := map (\<lambda>c. if cv_id c = cid then c\<lparr>cv_last_message_at := Some (env_occurred_at e)\<rparr> else c)
                 (db_conversations db)\<rparr>))"

definition plan_json :: "reply_plan \<Rightarrow> json" where
  "plan_json plan = JArr (map (\<lambda>t. JObj [(lit ''type'', JStr (lit ''text'')), (lit ''text'', JStr t)]) (rp_text_segments plan)
     @ map (JObj \<circ> segment_json) (rp_media_segments plan))"

definition record_outbound :: "ustr \<Rightarrow> reply_plan \<Rightarrow> int \<Rightarrow> ustr option \<Rightarrow> (message_db, ustr) prog" where
  "record_outbound cid plan now trace db =
     (let (mid, db) = draw_uuid db
      in if cid \<notin> cv_id ` set (db_conversations db) \<or> mid \<in> mr_id ` set (db_messages db) then (Inl integrity_error, db)
         else (Inr mid, db\<lparr>db_messages := db_messages db @ [\<lparr>mr_id = mid, mr_conversation = cid,
                mr_direction = outbound_direction, mr_platform_id = None, mr_sender = lit ''self'',
                mr_segments = plan_json plan, mr_occurred_at = now, mr_raw = None, mr_trace = trace\<rparr>]\<rparr>))"

definition mark_delivered :: "ustr \<Rightarrow> ustr \<Rightarrow> (message_db, unit) prog" where
  "mark_delivered mid pid db =
     (if \<exists>r \<in> set (db_messages db). mr_id r = mid \<and>
          (\<exists>q \<in> set (db_messages db). mr_id q \<noteq> mid \<and> same_slot (mr_conversation r) (mr_direction r) pid q)
      then (Inl integrity_error, db)
      else (Inr (), db\<lparr>db_messages := map (\<lambda>r. if mr_id r = mid then r\<lparr>mr_platform_id := Some pid\<rparr> else r) (db_messages db)\<rparr>))"

definition newest_first :: "message_row list \<Rightarrow> message_row list" where
  "newest_first rows = sort_key (\<lambda>r. - mr_occurred_at r) rows"

definition recent_activity :: "ustr \<Rightarrow> int \<Rightarrow> nat \<Rightarrow> message_db \<Rightarrow> nat \<times> nat" where
  "recent_activity cid since limit db =
     (let rows = take limit (newest_first (filter (\<lambda>r. mr_conversation r = cid \<and> since \<le> mr_occurred_at r) (db_messages db)))
      in (length (filter (\<lambda>r. mr_direction r = inbound_direction) rows),
          length (filter (\<lambda>r. mr_direction r = outbound_direction) rows)))"

definition recent_outbound_ids :: "ustr \<Rightarrow> nat \<Rightarrow> message_db \<Rightarrow> ustr list" where
  "recent_outbound_ids cid limit db =
     map (\<lambda>r. the (mr_platform_id r)) (take limit (newest_first (filter (\<lambda>r. mr_conversation r = cid \<and>
       mr_direction r = outbound_direction \<and> mr_platform_id r \<noteq> None) (db_messages db))))"

record message_text =
  mt_direction :: ustr
  mt_sender :: ustr
  mt_text :: ustr
  mt_id :: "ustr option"

definition row_text :: "message_row \<Rightarrow> message_text list" where
  "row_text r = (let text = text_from_segments (mr_segments r)
     in if text \<noteq> [] then [\<lparr>mt_direction = mr_direction r, mt_sender = mr_sender r, mt_text = text, mt_id = Some (mr_id r)\<rparr>] else [])"

definition recent_texts :: "ustr \<Rightarrow> nat \<Rightarrow> message_db \<Rightarrow> message_text list" where
  "recent_texts cid limit db =
     concat (map row_text (take limit (newest_first (filter (\<lambda>r. mr_conversation r = cid) (db_messages db)))))"

definition stored_segments :: "ustr \<Rightarrow> message_db \<Rightarrow> exn + json" where
  "stored_segments mid db = (case find (\<lambda>r. mr_id r = mid) (db_messages db) of
       None \<Rightarrow> Inl (Raised (lit ''NoResultFound'')) | Some r \<Rightarrow> Inr (mr_segments r))"

record learning_context =
  lc_conversation_id :: ustr
  lc_conversation :: conversation_key
  lc_source_ids :: "ustr list"
  lc_messages :: "message_text list"

definition learning_context_of :: "int \<Rightarrow> nat \<Rightarrow> message_db \<Rightarrow> conversation_row \<Rightarrow> learning_context list" where
  "learning_context_of since message_limit db c =
     (let rows = take message_limit (newest_first (filter (\<lambda>r. mr_conversation r = cv_id c \<and>
            mr_direction r = inbound_direction \<and> since \<le> mr_occurred_at r) (db_messages db)));
          extracted = concat (map row_text (rev rows))
      in if length extracted < 3 then []
         else [\<lparr>lc_conversation_id = cv_id c,
                lc_conversation = \<lparr>ck_connection_id = cv_connection_id c, ck_chat_kind = GROUP, ck_chat_id = cv_chat_id c,
                  ck_thread_id = cv_thread_id c\<rparr>,
                lc_source_ids = List.map_filter mt_id extracted, lc_messages = extracted\<rparr>])"

definition group_learning_contexts :: "int \<Rightarrow> nat \<Rightarrow> nat \<Rightarrow> message_db \<Rightarrow> learning_context list" where
  "group_learning_contexts since conversation_limit message_limit db =
     concat (map (learning_context_of since message_limit db)
       (take conversation_limit (sort_key (\<lambda>c. - the (cv_last_message_at c))
         (filter (\<lambda>c. cv_chat_kind c = chat_kind_value GROUP \<and> \<not> cv_ephemeral c \<and>
            (case cv_last_message_at c of None \<Rightarrow> False | Some t \<Rightarrow> since \<le> t)) (db_conversations db)))))"

subsection \<open>Configuration\<close>

type_synonym system_kv = "(ustr, json) dict"

definition kv_get :: "ustr \<Rightarrow> (system_kv, json option) prog" where
  "kv_get key kv = (Inr (map_of kv key), kv)"

definition kv_set :: "ustr \<Rightarrow> json \<Rightarrow> (system_kv, unit) prog" where
  "kv_set key v kv = (Inr (), AList.update key v kv)"

section \<open>Runs and their invariant\<close>

datatype store_op =
    Converse conversation_key platform bool
  | Receive ustr envelope
  | Answer ustr reply_plan int "ustr option"
  | Deliver ustr ustr

fun store_step :: "store_op \<Rightarrow> message_db \<Rightarrow> message_db" where
  "store_step (Converse key platform ephemeral) db = snd (get_or_create key platform ephemeral db)"
| "store_step (Receive cid e) db = snd (record_inbound cid e db)"
| "store_step (Answer cid plan now trace) db = snd (record_outbound cid plan now trace db)"
| "store_step (Deliver mid pid) db = snd (mark_delivered mid pid db)"

definition conv_keys :: "message_db \<Rightarrow> (ustr \<times> ustr) list" where
  "conv_keys db = map (\<lambda>r. (cv_stable_key r, cv_id r)) (db_conversations db)"

text \<open>At most one message per conversation, direction and platform id.\<close>

definition slots_unique :: "message_row list \<Rightarrow> bool" where
  "slots_unique rows \<longleftrightarrow> (\<forall>r \<in> set rows. \<forall>q \<in> set rows. \<forall>cid direction pid.
     same_slot cid direction pid r \<longrightarrow> same_slot cid direction pid q \<longrightarrow> r = q)"

definition message_inv :: "message_db \<Rightarrow> bool" where
  "message_inv db \<longleftrightarrow> distinct (map fst (conv_keys db)) \<and> distinct (map snd (conv_keys db)) \<and>
     distinct (map mr_id (db_messages db)) \<and> slots_unique (db_messages db) \<and>
     mr_conversation ` set (db_messages db) \<subseteq> snd ` set (conv_keys db)"

definition new_message_db :: "(nat \<Rightarrow> ustr) \<Rightarrow> message_db" where
  "new_message_db supply = \<lparr>db_conversations = [], db_messages = [], db_uuid = supply, db_drawn = 0\<rparr>"

lemma conv_ids: "snd ` set (conv_keys db) = cv_id ` set (db_conversations db)"
  "fst ` set (conv_keys db) = cv_stable_key ` set (db_conversations db)"
  by (auto simp: conv_keys_def image_image)

lemma draw_simps [simp]: "db_conversations (snd (draw_uuid db)) = db_conversations db"
  "db_messages (snd (draw_uuid db)) = db_messages db" "conv_keys (snd (draw_uuid db)) = conv_keys db"
  by (simp_all add: draw_uuid_def conv_keys_def)

lemma find_key: "map_option (\<lambda>r. (cv_id r, cv_stable_key r)) (find (\<lambda>r. cv_stable_key r = k) rows)
    = map_option (\<lambda>i. (i, k)) (map_of (map (\<lambda>r. (cv_stable_key r, cv_id r)) rows) k)"
  by (induction rows) auto

lemma get_or_create_cases:
  obtains (found) i where "map_of (conv_keys db) (stable_key key) = Some i"
      "get_or_create key platform ephemeral db = (Inr (i, stable_key key), snd (draw_uuid db))"
  | (clash) db' where "map_of (conv_keys db) (stable_key key) = None" "fst (draw_uuid db) \<in> snd ` set (conv_keys db)"
      "get_or_create key platform ephemeral db = (Inl integrity_error, db')" "db_messages db' = db_messages db" "conv_keys db' = conv_keys db"
  | (created) i db' where "map_of (conv_keys db) (stable_key key) = None" "i \<notin> snd ` set (conv_keys db)"
      "get_or_create key platform ephemeral db = (Inr (i, stable_key key), db')" "db_messages db' = db_messages db"
      "conv_keys db' = conv_keys db @ [(stable_key key, i)]"
proof -
  let ?i = "fst (draw_uuid db)" and ?db = "snd (draw_uuid db)"
  have d: "draw_uuid db = (?i, ?db)" by simp
  show thesis
  proof (cases "map_of (conv_keys db) (stable_key key)")
    case (Some i)
    then have "\<exists>r \<in> set (db_conversations db). cv_stable_key r = stable_key key"
      by (metis (mono_tags, lifting) conv_ids(2) fst_conv image_iff map_of_SomeD)
    moreover obtain r where "find (\<lambda>r. cv_stable_key r = stable_key key) (db_conversations db) = Some r"
      "cv_id r = i" "cv_stable_key r = stable_key key"
      using Some find_key [of "stable_key key" "db_conversations db"] by (auto simp: conv_keys_def)
    ultimately have "get_or_create key platform ephemeral db = (Inr (i, stable_key key), ?db)"
      unfolding get_or_create_def by (subst d) (simp add: Let_def split_beta)
    with Some found show thesis by blast
  next
    case None
    then have no: "\<forall>r \<in> set (db_conversations db). cv_stable_key r \<noteq> stable_key key"
      by (metis conv_ids(2) image_eqI map_of_eq_None_iff)
    have f: "find (\<lambda>r. cv_stable_key r = stable_key key) (db_conversations db @ [x]) = Some x" if "cv_stable_key x = stable_key key" for x
    proof -
      have "find p (rows @ [x]) = Some x" if "\<forall>r \<in> set rows. \<not> p r" "p x" for p rows
        using that by (induction rows) auto
      then show ?thesis using no that by simp
    qed
    show thesis
    proof (cases "?i \<in> cv_id ` set (db_conversations db)")
      case True
      then have "get_or_create key platform ephemeral db = (Inl integrity_error, ?db)"
        unfolding get_or_create_def by (subst d) (use no in \<open>simp add: Let_def split_beta\<close>)
      then show thesis using clash [of ?db] None True by (simp add: conv_ids)
    next
      case False
      let ?new = "\<lparr>cv_id = ?i, cv_stable_key = stable_key key, cv_connection_id = ck_connection_id key,
                 cv_platform = platform_value platform, cv_chat_kind = chat_kind_value (ck_chat_kind key),
                 cv_chat_id = ck_chat_id key, cv_thread_id = ck_thread_id key,
                 cv_ephemeral = (ephemeral \<or> platform = SANDBOX), cv_last_message_at = None\<rparr>"
      have "get_or_create key platform ephemeral db = (Inr (?i, stable_key key), ?db\<lparr>db_conversations := db_conversations db @ [?new]\<rparr>)"
        unfolding get_or_create_def by (subst d) (use no False f [of ?new] in \<open>auto simp: Let_def split_beta\<close>)
      moreover have "?i \<notin> snd ` set (conv_keys db)" using False by (simp add: conv_ids)
      ultimately show thesis using created None by (simp add: conv_keys_def)
    qed
  qed
qed

lemma record_inbound_cases:
  obtains (known) r where "r \<in> set (db_messages db)" "same_slot cid inbound_direction (platform_message_id e) r"
      "record_inbound cid e db = (Inr (mr_id r, True), snd (draw_uuid db))"
  | (failed) "record_inbound cid e db = (Inl integrity_error, snd (draw_uuid db))"
  | (stored) r db' where "\<forall>q \<in> set (db_messages db). \<not> same_slot cid inbound_direction (platform_message_id e) q"
      "same_slot cid inbound_direction (platform_message_id e) r" "mr_id r \<notin> mr_id ` set (db_messages db)"
      "cid \<in> snd ` set (conv_keys db)" "record_inbound cid e db = (Inr (mr_id r, False), db')"
      "db_messages db' = db_messages db @ [r]" "conv_keys db' = conv_keys db"
proof (cases "find (same_slot cid inbound_direction (platform_message_id e)) (db_messages db)")
  case (Some r)
  then have "r \<in> set (db_messages db)" "same_slot cid inbound_direction (platform_message_id e) r"
    by (metis find_Some_iff nth_mem)+
  then show thesis using known Some by (simp add: record_inbound_def split_beta Let_def)
next
  case None
  then have no: "\<forall>q \<in> set (db_messages db). \<not> same_slot cid inbound_direction (platform_message_id e) q"
    by (auto simp: find_None_iff)
  let ?i = "fst (draw_uuid db)"
  let ?row = "\<lparr>mr_id = ?i, mr_conversation = cid, mr_direction = inbound_direction, mr_platform_id = Some (platform_message_id e),
     mr_sender = env_sender_identity_id e, mr_segments = JArr (map (JObj \<circ> segment_json) (env_segments e)),
     mr_occurred_at = env_occurred_at e, mr_raw = map_option thaw_json (env_raw_ref e), mr_trace = Some (env_trace_id e)\<rparr>"
  show thesis
  proof (cases "cid \<notin> cv_id ` set (db_conversations db) \<or> ?i \<in> mr_id ` set (db_messages db)")
    case True
    then show thesis using failed None by (simp add: record_inbound_def split_beta Let_def)
  next
    case False
    let ?db = "(snd (draw_uuid db))\<lparr>db_messages := db_messages db @ [?row],
      db_conversations := map (\<lambda>c. if cv_id c = cid then c\<lparr>cv_last_message_at := Some (env_occurred_at e)\<rparr> else c) (db_conversations db)\<rparr>"
    have "record_inbound cid e db = (Inr (?i, False), ?db)"
      using None False by (simp add: record_inbound_def split_beta Let_def)
    moreover have "conv_keys ?db = conv_keys db" by (simp add: conv_keys_def)
    ultimately show thesis
      using stored [of ?row ?db] no False by (simp add: same_slot_def conv_ids)
  qed
qed

lemma record_outbound_cases:
  obtains (failed) "record_outbound cid plan now trace db = (Inl integrity_error, snd (draw_uuid db))"
  | (stored) r db' where "mr_platform_id r = None" "mr_id r \<notin> mr_id ` set (db_messages db)" "mr_conversation r = cid"
      "cid \<in> snd ` set (conv_keys db)" "record_outbound cid plan now trace db = (Inr (mr_id r), db')"
      "db_messages db' = db_messages db @ [r]" "conv_keys db' = conv_keys db"
proof (cases "cid \<notin> cv_id ` set (db_conversations db) \<or> fst (draw_uuid db) \<in> mr_id ` set (db_messages db)")
  case True
  then show thesis using failed by (simp add: record_outbound_def split_beta Let_def)
next
  case False
  let ?row = "\<lparr>mr_id = fst (draw_uuid db), mr_conversation = cid, mr_direction = outbound_direction, mr_platform_id = None,
    mr_sender = lit ''self'', mr_segments = plan_json plan, mr_occurred_at = now, mr_raw = None, mr_trace = trace\<rparr>"
  show thesis
    using stored [of ?row "(snd (draw_uuid db))\<lparr>db_messages := db_messages db @ [?row]\<rparr>"] False
    by (simp add: record_outbound_def split_beta Let_def conv_ids) (simp add: conv_keys_def)
qed

lemma slots_unique_append:
  assumes "slots_unique rows" and "\<And>cid direction pid. same_slot cid direction pid r \<Longrightarrow> \<forall>q \<in> set rows. \<not> same_slot cid direction pid q"
  shows "slots_unique (rows @ [r])"
  using assms unfolding slots_unique_def by (simp add: ball_Un) metis

lemma message_inv_append:
  assumes "message_inv db" and "db_messages db' = db_messages db @ [r]" and "conv_keys db' = conv_keys db"
    and "mr_id r \<notin> mr_id ` set (db_messages db)" and "mr_conversation r \<in> snd ` set (conv_keys db)"
    and "\<And>cid direction pid. same_slot cid direction pid r \<Longrightarrow> \<forall>q \<in> set (db_messages db). \<not> same_slot cid direction pid q"
  shows "message_inv db'"
  using assms slots_unique_append [of "db_messages db" r] by (auto simp: message_inv_def)

lemma message_inv_same: "message_inv db \<Longrightarrow> db_messages db' = db_messages db \<Longrightarrow> conv_keys db' = conv_keys db \<Longrightarrow> message_inv db'"
  by (simp add: message_inv_def)

lemma message_inv_deliver:
  assumes "message_inv db"
  shows "message_inv (snd (mark_delivered mid pid db))"
proof (cases "\<exists>r \<in> set (db_messages db). mr_id r = mid \<and>
    (\<exists>q \<in> set (db_messages db). mr_id q \<noteq> mid \<and> same_slot (mr_conversation r) (mr_direction r) pid q)")
  case True
  then show ?thesis using assms by (simp add: mark_delivered_def)
next
  case False
  let ?f = "\<lambda>r. if mr_id r = mid then r\<lparr>mr_platform_id := Some pid\<rparr> else r"
  have db': "db_messages (snd (mark_delivered mid pid db)) = map ?f (db_messages db)"
    "conv_keys (snd (mark_delivered mid pid db)) = conv_keys db"
    unfolding mark_delivered_def if_not_P [OF False] by (simp_all add: conv_keys_def)
  have same: "r = q" if "r \<in> set (db_messages db)" "q \<in> set (db_messages db)" "mr_id r = mr_id q" for r q
    using assms that by (auto simp: message_inv_def distinct_map inj_on_def)
  have "?f r = ?f q" if "r \<in> set (db_messages db)" "q \<in> set (db_messages db)"
    "same_slot cid direction p (?f r)" "same_slot cid direction p (?f q)" for r q cid direction p
  proof (cases "mr_id r = mid \<or> mr_id q = mid")
    case True
    have nf: "mr_id b = mid" if "a \<in> set (db_messages db)" "b \<in> set (db_messages db)" "mr_id a = mid"
      "same_slot (mr_conversation a) (mr_direction a) pid b" for a b
      using False that by blast
    have slot: "cid = mr_conversation x \<and> direction = mr_direction x \<and> p = pid" if "mr_id x = mid" "same_slot cid direction p (?f x)" for x
      using that by (auto simp: same_slot_def)
    have "mr_id r = mr_id q"
    proof (cases "mr_id r = mid")
      case True
      then show ?thesis using nf [OF that(1,2) True] slot [OF True that(3)] that(4) by (metis (full_types))
    next
      case r: False
      with True have "mr_id q = mid" by simp
      then show ?thesis using nf [OF that(2,1)] slot [of q] that(3,4) r by (metis (full_types))
    qed
    then show ?thesis using same that(1,2) by blast
  next
    case other: False
    then have "same_slot cid direction p r" "same_slot cid direction p q" using that(3,4) by simp_all
    then have "r = q" using assms that(1,2) unfolding message_inv_def slots_unique_def by blast
    then show ?thesis by simp
  qed
  then have "slots_unique (map ?f (db_messages db))" unfolding slots_unique_def set_map ball_simps by blast
  moreover have "map mr_id (map ?f (db_messages db)) = map mr_id (db_messages db)" by simp
  moreover have "map mr_conversation (map ?f (db_messages db)) = map mr_conversation (db_messages db)" by simp
  then have "mr_conversation ` set (map ?f (db_messages db)) = mr_conversation ` set (db_messages db)" by (metis set_map)
  ultimately show ?thesis using assms unfolding message_inv_def db' by metis
qed

lemma message_inv_step: "message_inv db \<Longrightarrow> message_inv (store_step op db)"
proof (cases op)
  case (Converse key platform ephemeral)
  assume inv: "message_inv db"
  have "message_inv (snd (get_or_create key platform ephemeral db))"
  proof (cases rule: get_or_create_cases [of db key platform ephemeral])
    case (created i db')
    then show ?thesis using inv by (auto simp: message_inv_def map_of_eq_None_iff)
  qed (use inv in \<open>auto intro: message_inv_same\<close>)
  then show ?thesis using Converse by simp
next
  case (Receive cid e)
  assume inv: "message_inv db"
  have "message_inv (snd (record_inbound cid e db))"
  proof (cases rule: record_inbound_cases [of db cid e])
    case (stored r db')
    have "message_inv db'"
      by (rule message_inv_append [OF inv stored(6,7,3)]) (use stored(1,2,4) in \<open>auto simp: same_slot_def\<close>)
    then show ?thesis using stored(5) by simp
  qed (use inv in \<open>auto intro: message_inv_same\<close>)
  then show ?thesis using Receive by simp
next
  case (Answer cid plan now trace)
  assume inv: "message_inv db"
  have "message_inv (snd (record_outbound cid plan now trace db))"
  proof (cases rule: record_outbound_cases [of cid plan now trace db])
    case (stored r db')
    have "message_inv db'"
      by (rule message_inv_append [OF inv stored(6,7,2)]) (use stored(1,3,4) in \<open>auto simp: same_slot_def\<close>)
    then show ?thesis using stored(5) by simp
  qed (use inv in \<open>auto intro: message_inv_same\<close>)
  then show ?thesis using Answer by simp
next
  case (Deliver mid pid)
  assume "message_inv db"
  then show ?thesis using Deliver message_inv_deliver by simp
qed

lemma message_inv_run: "message_inv db \<Longrightarrow> message_inv (fold store_step ops db)"
  by (induction ops arbitrary: db) (auto intro: message_inv_step)

lemma message_inv_new: "message_inv (new_message_db supply)"
  by (simp add: message_inv_def new_message_db_def conv_keys_def slots_unique_def)

text \<open>A conversation row keeps its key and identifier.\<close>

lemma conv_keys_grow: "map_of (conv_keys db) k = Some i \<Longrightarrow> map_of (conv_keys (store_step op db)) k = Some i"
proof (cases op)
  case (Converse key platform ephemeral)
  assume "map_of (conv_keys db) k = Some i"
  then show ?thesis using Converse
    by (cases rule: get_or_create_cases [of db key platform ephemeral]) (auto simp: map_add_def)
next
  case (Receive cid e)
  assume "map_of (conv_keys db) k = Some i"
  then show ?thesis using Receive by (cases rule: record_inbound_cases [of db cid e]) auto
next
  case (Answer cid plan now trace)
  assume "map_of (conv_keys db) k = Some i"
  then show ?thesis using Answer by (cases rule: record_outbound_cases [of cid plan now trace db]) auto
next
  case (Deliver mid pid)
  assume "map_of (conv_keys db) k = Some i"
  then show ?thesis using Deliver by (simp add: mark_delivered_def conv_keys_def)
qed

lemma conv_keys_grow_run: "map_of (conv_keys db) k = Some i \<Longrightarrow> map_of (conv_keys (fold store_step ops db)) k = Some i"
  by (induction ops arbitrary: db) (auto intro: conv_keys_grow)

section \<open>Properties\<close>

text \<open>
  the message tables keep their keys: after any sequence of operations identifiers and
  stable keys are unique, every message belongs to a stored conversation, and no
  conversation holds two messages of one direction with the same platform id.
\<close>

theorem message_tables_keep_keys:
  "message_inv (fold store_step ops (new_message_db supply))"
  by (rule message_inv_run [OF message_inv_new])

text \<open>
  a redelivered message is stored once: whenever an inbound message has been recorded,
  recording an envelope with the same platform id in that conversation again reports a
  duplicate with the identifier of the first and stores nothing.
\<close>

theorem redelivery_recorded_once:
  assumes "record_inbound cid e (fold store_step ops (new_message_db supply)) = (Inr (mid, dup), db)"
    and "platform_message_id e' = platform_message_id e"
  shows "fst (record_inbound cid e' db) = Inr (mid, True) \<and> db_messages (snd (record_inbound cid e' db)) = db_messages db"
proof -
  let ?db0 = "fold store_step ops (new_message_db supply)"
  have inv0: "message_inv ?db0" by (rule message_inv_run [OF message_inv_new])
  have "message_inv (store_step (Receive cid e) ?db0)" by (rule message_inv_step [OF inv0])
  then have inv: "message_inv db" using assms(1) by simp
  have slot: "\<exists>r \<in> set (db_messages db). mr_id r = mid \<and> same_slot cid inbound_direction (platform_message_id e) r"
    using assms(1) by (cases rule: record_inbound_cases [of ?db0 cid e]) auto
  then obtain r where r: "r \<in> set (db_messages db)" "mr_id r = mid" "same_slot cid inbound_direction (platform_message_id e') r"
    using assms(2) by auto
  show ?thesis
  proof (cases rule: record_inbound_cases [of db cid e'])
    case (known q)
    then have "q = r" using inv r unfolding message_inv_def slots_unique_def by blast
    then show ?thesis using known r by simp
  next
    case failed
    have "find (same_slot cid inbound_direction (platform_message_id e')) (db_messages db) \<noteq> None"
      using r by (auto simp: find_None_iff)
    then show ?thesis using failed by (auto simp: record_inbound_def split_beta Let_def split: option.splits)
  next
    case (stored q db')
    then show ?thesis using r by blast
  qed
qed

text \<open>
  conversations are isolated: whatever happens in between, two valid conversation keys
  are given the same conversation row exactly when they are the same key.
\<close>

theorem conversation_isolation:
  assumes "get_or_create k p a (fold store_step ops (new_message_db supply)) = (Inr (i, s), db)"
    and "get_or_create k' p' a' (fold store_step later db) = (Inr (i', s'), db')"
    and "valid_key k" and "valid_key k'"
  shows "i = i' \<longleftrightarrow> k = k'"
proof -
  let ?db0 = "fold store_step ops (new_message_db supply)"
  have got: "map_of (conv_keys db2) (stable_key key) = Some j" if "get_or_create key q b db1 = (Inr (j, t), db2)" for key q b db1 j t db2
    using that
    by (cases rule: get_or_create_cases [of db1 key q b]) (auto simp: map_add_def)
  have "message_inv (fold store_step (ops @ Converse k p a # later @ [Converse k' p' a']) (new_message_db supply))"
    by (rule message_inv_run [OF message_inv_new])
  then have inv: "message_inv db'" using assms(1,2) by simp
  have "map_of (conv_keys (fold store_step (later @ [Converse k' p' a']) db)) (stable_key k) = Some i"
    by (rule conv_keys_grow_run [OF got [OF assms(1)]])
  then have a: "map_of (conv_keys db') (stable_key k) = Some i" using assms(2) by simp
  have b: "map_of (conv_keys db') (stable_key k') = Some i'" by (rule got [OF assms(2)])
  have "stable_key k = stable_key k'" if "i = i'"
  proof -
    have "(stable_key k, i) \<in> set (conv_keys db')" "(stable_key k', i) \<in> set (conv_keys db')"
      using a b that by (auto dest: map_of_SomeD)
    then show ?thesis using inv unfolding message_inv_def by (metis eq_snd_iff prod.inject distinct_map inj_onD)
  qed
  then show ?thesis using a b assms(3,4) stable_key_unique by auto
qed

definition store_key :: "ustr \<Rightarrow> conversation_key" where
  "store_key chat = \<lparr>ck_connection_id = [99], ck_chat_kind = DIRECT, ck_chat_id = chat, ck_thread_id = None\<rparr>"

definition store_message :: envelope where
  "store_message = \<lparr>env_id = [113, 58, 99, 58, 51], env_connection_id = [99], env_platform = QQ, env_chat_kind = DIRECT,
     env_chat_id = [53], env_thread_id = None, env_sender_identity_id = [53], env_occurred_at = 0, env_segments = [TextSegment [104]],
     env_reply_to_message_id = None, env_raw_ref = None, env_trace_id = [116], env_ephemeral = False\<rparr>"

lemma store_key_valid: "valid_key (store_key [53])" "valid_key (store_key [54])"
  by (simp_all add: valid_key_def store_key_def valid_text_def)

theorem redelivery_recorded_once_witness:
  "\<exists>cid mid db. record_inbound cid store_message (fold store_step [Converse (store_key [53]) QQ False] (new_message_db (\<lambda>n. [n])))
      = (Inr (mid, False), db) \<and> fst (record_inbound cid store_message db) = Inr (mid, True)"
proof -
  let ?db = "fold store_step [Converse (store_key [53]) QQ False] (new_message_db (\<lambda>n. [n]))"
  have db: "conv_keys ?db = [(stable_key (store_key [53]), [0])]" "db_messages ?db = []" "db_uuid ?db (db_drawn ?db) = [1]"
    by (simp_all add: get_or_create_def draw_uuid_def new_message_db_def conv_keys_def Let_def)
  then have "[0] \<in> cv_id ` set (db_conversations ?db)" by (metis conv_ids(1) image_eqI list.set_intros(1) snd_conv)
  then obtain db1 where r: "record_inbound [0] store_message ?db = (Inr ([1], False), db1)"
    using db(2,3) unfolding record_inbound_def by (simp add: split_beta Let_def draw_uuid_def)
  from redelivery_recorded_once [OF r refl] r show ?thesis by blast
qed

theorem conversation_isolation_witness:
  "\<exists>i s db i' s' db'. get_or_create (store_key [53]) QQ False (fold store_step [] (new_message_db (\<lambda>n. [n]))) = (Inr (i, s), db) \<and>
     get_or_create (store_key [54]) QQ False (fold store_step [] db) = (Inr (i', s'), db') \<and> i \<noteq> i'"
proof -
  let ?db0 = "fold store_step [] (new_message_db (\<lambda>n. [n]))"
  have ne: "store_key [53] \<noteq> store_key [54]" by (simp add: store_key_def)
  then have keys: "stable_key (store_key [54]) \<noteq> stable_key (store_key [53])"
    using stable_key_unique store_key_valid by metis
  obtain db where a: "get_or_create (store_key [53]) QQ False ?db0 = (Inr ([0], stable_key (store_key [53])), db)"
    and db: "conv_keys db = [(stable_key (store_key [53]), [0])]" "db_uuid db (db_drawn db) = [1]"
    by (simp add: get_or_create_def draw_uuid_def new_message_db_def conv_keys_def Let_def)
  have "\<exists>r db'. get_or_create (store_key [54]) QQ False (fold store_step [] db) = (Inr r, db')"
  proof (cases rule: get_or_create_cases [of db "store_key [54]" QQ False])
    case (clash db')
    then show ?thesis using db by (simp add: draw_uuid_def)
  qed auto
  then obtain i' s' db' where b: "get_or_create (store_key [54]) QQ False (fold store_step [] db) = (Inr (i', s'), db')"
    by (metis surj_pair)
  from conversation_isolation [OF a b store_key_valid] a b ne show ?thesis by blast
qed

end
