(* ===== verification/Profiles.thy ===== *)
theory Profiles
  imports Willingness "HOL-Library.List_Lexorder"
begin

text \<open>
  Profiles and personas: the contracts of \<open>contracts/profiles.py\<close> and the tables of
  \<open>repositories/profiles.py\<close>. A transaction that violates a key of the schema raises
  \<open>IntegrityError\<close> and changes nothing but the supply of identifiers. The main results: the
  tables keep their keys and number the personas of a profile without gaps, a persona is never
  changed or dropped while its profile exists, and a rollback activates a copy of its target.
\<close>

section \<open>Contracts\<close>

record memory_policy =
  my_enabled :: bool
  my_retrieval_limit :: int
  my_expression_examples :: int
  my_relationship_enabled :: bool

record agent_profile =
  ap_id :: ustr
  ap_name :: ustr
  ap_description :: ustr
  ap_active_persona :: "ustr option"
  ap_model_tier :: ustr
  ap_tool_capabilities :: "ustr list"
  ap_memory :: memory_policy
  ap_willingness :: willingness_policy

record persona_version =
  pv_id :: ustr
  pv_profile_id :: ustr
  pv_version :: int
  pv_system_prompt :: ustr
  pv_parent :: "ustr option"
  pv_change_note :: ustr

record resolved_profile =
  rs_profile :: agent_profile
  rs_persona :: persona_version
  rs_created_at :: int
  rs_updated_at :: int

definition default_memory_policy :: memory_policy where
  "default_memory_policy = \<lparr>my_enabled = True, my_retrieval_limit = 5, my_expression_examples = 3, my_relationship_enabled = True\<rparr>"

definition default_willingness :: willingness_policy where
  "default_willingness = \<lparr>wp_enabled = False, wp_threshold = 78 / 100, wp_sensitivity = 1, wp_keywords = []\<rparr>"

definition valid_profile :: "agent_profile \<Rightarrow> bool" where
  "valid_profile p \<longleftrightarrow> strip (ap_name p) \<noteq> [] \<and> strip (ap_model_tier p) \<noteq> [] \<and>
     (\<forall>c \<in> set (ap_tool_capabilities p). strip c \<noteq> [])"

definition valid_persona :: "persona_version \<Rightarrow> bool" where
  "valid_persona v \<longleftrightarrow> 1 \<le> pv_version v \<and> strip (pv_system_prompt v) \<noteq> []"

section \<open>Tables\<close>

record profile_row =
  pw_id :: ustr
  pw_name :: ustr
  pw_description :: ustr
  pw_model_tier :: ustr
  pw_tool_capabilities :: "ustr list"
  pw_memory :: memory_policy
  pw_willingness :: willingness_policy
  pw_active :: "ustr option"
  pw_created_at :: int
  pw_updated_at :: int

text \<open>The rows of \<open>persona_versions\<close> are those of the contract; the conversations are the ids
  that the foreign key of the bindings finds.\<close>

record profile_db =
  pf_profiles :: "profile_row list"
  pf_personas :: "persona_version list"
  pf_bindings :: "(ustr, ustr) dict"
  pf_conversations :: "ustr list"
  pf_uuid :: "nat \<Rightarrow> ustr"
  pf_drawn :: nat
  pf_now :: int

definition default_profile_name :: ustr where
  "default_profile_name = [40664, 35748]"

definition default_description :: ustr where
  "default_description = [26410, 32465, 23450, 20250, 35805, 20351, 29992, 30340, 40664, 35748, 26723, 20301]"

definition profile_uuid :: "profile_db \<Rightarrow> ustr \<times> profile_db" where
  "profile_uuid db = (pf_uuid db (pf_drawn db), db\<lparr>pf_drawn := Suc (pf_drawn db)\<rparr>)"

definition profile_integrity :: exn where
  "profile_integrity = Raised (lit ''IntegrityError'')"

definition value_error :: exn where
  "value_error = Raised (lit ''ValueError'')"

definition find_profile :: "ustr \<Rightarrow> profile_db \<Rightarrow> profile_row option" where
  "find_profile pid db = find (\<lambda>r. pw_id r = pid) (pf_profiles db)"

definition find_persona :: "ustr \<Rightarrow> profile_db \<Rightarrow> persona_version option" where
  "find_persona vid db = find (\<lambda>v. pv_id v = vid) (pf_personas db)"

definition persona_history :: "ustr \<Rightarrow> profile_db \<Rightarrow> persona_version list" where
  "persona_history pid db = filter (\<lambda>v. pv_profile_id v = pid) (pf_personas db)"

subsection \<open>Reading\<close>

text \<open>\<open>_resolved\<close>: the contracts are checked again when the rows are read.\<close>

definition resolved_row :: "profile_row \<Rightarrow> persona_version \<Rightarrow> exn + resolved_profile" where
  "resolved_row r v =
     (let p = \<lparr>ap_id = pw_id r, ap_name = pw_name r, ap_description = pw_description r, ap_active_persona = pw_active r,
           ap_model_tier = pw_model_tier r, ap_tool_capabilities = pw_tool_capabilities r, ap_memory = pw_memory r,
           ap_willingness = pw_willingness r\<rparr>
      in if valid_profile p \<and> valid_persona v
         then Inr \<lparr>rs_profile = p, rs_persona = v, rs_created_at = pw_created_at r, rs_updated_at = pw_updated_at r\<rparr>
         else Inl (Raised (lit ''ValidationError'')))"

text \<open>The join of a profile with its active persona.\<close>

definition joined_persona :: "profile_db \<Rightarrow> profile_row \<Rightarrow> persona_version option" where
  "joined_persona db r = (case pw_active r of None \<Rightarrow> None | Some vid \<Rightarrow> find_persona vid db)"

definition profile_get :: "ustr \<Rightarrow> (profile_db, resolved_profile option) prog" where
  "profile_get pid db = (case find_profile pid db of
       None \<Rightarrow> (Inr None, db)
     | Some r \<Rightarrow> (case joined_persona db r of
           None \<Rightarrow> (Inr None, db)
         | Some v \<Rightarrow> (case resolved_row r v of Inl x \<Rightarrow> (Inl x, db) | Inr p \<Rightarrow> (Inr (Some p), db))))"

fun resolve_rows :: "profile_db \<Rightarrow> profile_row list \<Rightarrow> exn + resolved_profile list" where
  "resolve_rows db [] = Inr []"
| "resolve_rows db (r # rs) = (case joined_persona db r of
       None \<Rightarrow> resolve_rows db rs
     | Some v \<Rightarrow> bindr (resolved_row r v) (\<lambda>p. bindr (resolve_rows db rs) (\<lambda>ps. Inr (p # ps))))"

definition profile_list :: "(profile_db, resolved_profile list) prog" where
  "profile_list db = (resolve_rows db (sort_key pw_name (pf_profiles db)), db)"

text \<open>\<open>assert result is not None\<close> after a transaction.\<close>

definition got_profile :: "(profile_db, resolved_profile option) prog \<Rightarrow> (profile_db, resolved_profile) prog" where
  "got_profile m = bindp m (\<lambda>r. case r of None \<Rightarrow> raisep (Raised (lit ''AssertionError'')) | Some p \<Rightarrow> retp p)"

definition persona_versions :: "ustr \<Rightarrow> (profile_db, persona_version list) prog" where
  "persona_versions pid db = (let rows = sort_key (\<lambda>v. - pv_version v) (persona_history pid db) in
     (if \<forall>v \<in> set rows. valid_persona v then Inr rows else Inl (Raised (lit ''ValidationError'')), db))"

definition profile_bindings :: "(profile_db, (ustr \<times> ustr) list) prog" where
  "profile_bindings db = (Inr (sort_key fst (pf_bindings db)), db)"

subsection \<open>Writing\<close>

definition insert_profile :: "profile_row \<Rightarrow> (profile_db, unit) prog" where
  "insert_profile r db =
     (if pw_id r \<in> pw_id ` set (pf_profiles db) \<or> pw_name r \<in> pw_name ` set (pf_profiles db) then (Inl profile_integrity, db)
      else (Inr (), db\<lparr>pf_profiles := pf_profiles db @ [r]\<rparr>))"

definition insert_persona :: "persona_version \<Rightarrow> (profile_db, unit) prog" where
  "insert_persona v db =
     (if pv_id v \<in> pv_id ` set (pf_personas db) \<or> pv_profile_id v \<notin> pw_id ` set (pf_profiles db) \<or>
         (\<exists>q \<in> set (pf_personas db). pv_profile_id q = pv_profile_id v \<and> pv_version q = pv_version v) \<or>
         (case pv_parent v of None \<Rightarrow> False | Some parent \<Rightarrow> parent \<notin> pv_id ` set (pf_personas db))
      then (Inl profile_integrity, db) else (Inr (), db\<lparr>pf_personas := pf_personas db @ [v]\<rparr>))"

definition set_profile :: "ustr \<Rightarrow> (profile_row \<Rightarrow> profile_row) \<Rightarrow> profile_db \<Rightarrow> profile_db" where
  "set_profile pid f db = db\<lparr>pf_profiles := map (\<lambda>r. if pw_id r = pid then f r else r) (pf_profiles db)\<rparr>"

definition activate_persona :: "ustr \<Rightarrow> ustr \<Rightarrow> (profile_db, unit) prog" where
  "activate_persona pid vid db = (Inr (), set_profile pid (\<lambda>r. r\<lparr>pw_active := Some vid, pw_updated_at := pf_now db\<rparr>) db)"

text \<open>A transaction: what raises leaves the tables as they were.\<close>

definition transaction :: "(profile_db, 'a) prog \<Rightarrow> (profile_db, 'a) prog" where
  "transaction m db = (case m db of (Inl x, db') \<Rightarrow> (Inl x, db\<lparr>pf_drawn := pf_drawn db'\<rparr>) | (Inr y, db') \<Rightarrow> (Inr y, db'))"

definition effective_prompt :: "json option \<Rightarrow> ustr \<Rightarrow> ustr" where
  "effective_prompt legacy prompt = (case legacy of Some (JStr t) \<Rightarrow> if strip t \<noteq> [] then strip t else prompt | _ \<Rightarrow> prompt)"

definition default_row :: "ustr \<Rightarrow> ustr list \<Rightarrow> int \<Rightarrow> profile_row" where
  "default_row pid caps now = \<lparr>pw_id = pid, pw_name = default_profile_name, pw_description = default_description,
     pw_model_tier = lit ''default'', pw_tool_capabilities = caps, pw_memory = default_memory_policy,
     pw_willingness = default_willingness, pw_active = None, pw_created_at = now, pw_updated_at = now\<rparr>"

definition first_persona :: "ustr \<Rightarrow> ustr \<Rightarrow> ustr \<Rightarrow> ustr \<Rightarrow> persona_version" where
  "first_persona vid pid prompt note = \<lparr>pv_id = vid, pv_profile_id = pid, pv_version = 1, pv_system_prompt = prompt,
     pv_parent = None, pv_change_note = note\<rparr>"

definition ensure_default :: "json option \<Rightarrow> ustr \<Rightarrow> ustr list \<Rightarrow> (profile_db, resolved_profile) prog" where
  "ensure_default legacy prompt caps =
     bindp (transaction (bindp (liftp profile_uuid) (\<lambda>pid.
        bindp (\<lambda>db. if default_profile_name \<in> pw_name ` set (pf_profiles db) then (Inr (), db)
                    else insert_profile (default_row pid caps (pf_now db)) db) (\<lambda>_.
        bindp (getp (\<lambda>db. find (\<lambda>r. pw_name r = default_profile_name) (pf_profiles db))) (\<lambda>found. case found of
            None \<Rightarrow> raisep (Raised (lit ''NoResultFound''))
          | Some r \<Rightarrow> bindp (if pw_active r \<noteq> None then retp ()
              else bindp (liftp profile_uuid) (\<lambda>vid.
                 bindp (insert_persona (first_persona vid (pw_id r) (strip (effective_prompt legacy prompt)) (lit ''initial default persona'')))
                   (\<lambda>_. activate_persona (pw_id r) vid))) (\<lambda>_. retp (pw_id r)))))))
       (\<lambda>pid. got_profile (profile_get pid))"

definition profile_row_of :: "agent_profile \<Rightarrow> int \<Rightarrow> profile_row" where
  "profile_row_of p now = \<lparr>pw_id = ap_id p, pw_name = ap_name p, pw_description = ap_description p,
     pw_model_tier = ap_model_tier p, pw_tool_capabilities = ap_tool_capabilities p, pw_memory = ap_memory p,
     pw_willingness = ap_willingness p, pw_active = None, pw_created_at = now, pw_updated_at = now\<rparr>"

definition profile_create :: "agent_profile \<Rightarrow> ustr \<Rightarrow> ustr \<Rightarrow> (profile_db, resolved_profile) prog" where
  "profile_create p prompt note =
     (if strip prompt = [] then raisep value_error
      else bindp (transaction (bindp (liftp profile_uuid) (\<lambda>vid.
             bindp (\<lambda>db. insert_profile (profile_row_of p (pf_now db)) db) (\<lambda>_.
             bindp (insert_persona (first_persona vid (ap_id p) (strip prompt) note)) (\<lambda>_.
             activate_persona (ap_id p) vid)))))
           (\<lambda>_. got_profile (profile_get (ap_id p))))"

definition profile_resolve :: "json option \<Rightarrow> ustr \<Rightarrow> ustr list \<Rightarrow> ustr \<Rightarrow> (profile_db, resolved_profile) prog" where
  "profile_resolve legacy prompt caps cid =
     bindp (getp (\<lambda>db. map_of (pf_bindings db) cid)) (\<lambda>bound.
     bindp (case bound of None \<Rightarrow> retp None | Some pid \<Rightarrow> profile_get pid) (\<lambda>r. case r of
         Some p \<Rightarrow> retp p
       | None \<Rightarrow> ensure_default legacy prompt caps))"

definition profile_bind :: "ustr \<Rightarrow> ustr \<Rightarrow> (profile_db, unit) prog" where
  "profile_bind cid pid db =
     (if pid \<notin> pw_id ` set (pf_profiles db) \<or> cid \<notin> set (pf_conversations db) then (Inl profile_integrity, db)
      else (Inr (), db\<lparr>pf_bindings := AList.update cid pid (pf_bindings db)\<rparr>))"

definition profile_unbind :: "ustr \<Rightarrow> (profile_db, bool) prog" where
  "profile_unbind cid db = (Inr (map_of (pf_bindings db) cid \<noteq> None), db\<lparr>pf_bindings := AList.delete cid (pf_bindings db)\<rparr>)"

definition profile_update :: "agent_profile \<Rightarrow> (profile_db, resolved_profile) prog" where
  "profile_update p =
     bindp (\<lambda>db. if find_profile (ap_id p) db = None then (Inl value_error, db)
        else if \<exists>r \<in> set (pf_profiles db). pw_id r \<noteq> ap_id p \<and> pw_name r = ap_name p then (Inl profile_integrity, db)
        else (Inr (), set_profile (ap_id p) (\<lambda>r. r\<lparr>pw_name := ap_name p, pw_description := ap_description p,
           pw_model_tier := ap_model_tier p, pw_tool_capabilities := ap_tool_capabilities p, pw_memory := ap_memory p,
           pw_willingness := ap_willingness p, pw_updated_at := pf_now db\<rparr>) db))
       (\<lambda>_. got_profile (profile_get (ap_id p)))"

definition next_version :: "persona_version list \<Rightarrow> int" where
  "next_version vs = fold max (map pv_version vs) 0 + 1"

definition create_persona_version :: "ustr \<Rightarrow> ustr \<Rightarrow> ustr \<Rightarrow> ustr option \<Rightarrow> (profile_db, persona_version) prog" where
  "create_persona_version pid prompt note parent =
     (if strip prompt = [] then raisep value_error
      else transaction (bindp (liftp profile_uuid) (\<lambda>vid.
         bindp (getp (find_profile pid)) (\<lambda>found. case found of
             None \<Rightarrow> raisep value_error
           | Some r \<Rightarrow>
              bindp (getp (\<lambda>db. next_version (persona_history pid db))) (\<lambda>version.
              let v = \<lparr>pv_id = vid, pv_profile_id = pid, pv_version = version, pv_system_prompt = strip prompt,
                       pv_parent = (if parent \<noteq> None then parent else pw_active r), pv_change_note = note\<rparr>
              in bindp (insert_persona v) (\<lambda>_. bindp (activate_persona pid vid) (\<lambda>_. retp v)))))))"

definition rollback_persona :: "ustr \<Rightarrow> ustr \<Rightarrow> (profile_db, persona_version) prog" where
  "rollback_persona pid target =
     bindp (getp (\<lambda>db. find (\<lambda>v. pv_id v = target \<and> pv_profile_id v = pid) (pf_personas db))) (\<lambda>found. case found of
         None \<Rightarrow> raisep value_error
       | Some v \<Rightarrow> create_persona_version pid (pv_system_prompt v) (lit ''rollback to v'' @ dec_int (pv_version v)) (Some target))"

text \<open>The foreign keys of the schema: the personas of a deleted profile go with it, a parent
  among them becomes \<open>NULL\<close>.\<close>

definition drop_profile :: "ustr \<Rightarrow> profile_db \<Rightarrow> profile_db" where
  "drop_profile pid db =
     (let kept = filter (\<lambda>v. pv_profile_id v \<noteq> pid) (pf_personas db); ids = pv_id ` set kept
      in db\<lparr>pf_profiles := map (\<lambda>r. if pw_active r \<noteq> None \<and> the (pw_active r) \<notin> ids then r\<lparr>pw_active := None\<rparr> else r)
              (filter (\<lambda>r. pw_id r \<noteq> pid) (pf_profiles db)),
            pf_personas := map (\<lambda>v. if pv_parent v \<noteq> None \<and> the (pv_parent v) \<notin> ids then v\<lparr>pv_parent := None\<rparr> else v) kept\<rparr>)"

definition profile_delete :: "ustr \<Rightarrow> (profile_db, bool) prog" where
  "profile_delete pid db = (case find_profile pid db of
       None \<Rightarrow> (Inr False, db)
     | Some r \<Rightarrow>
         if pw_name r = default_profile_name then (Inl value_error, db)
         else if pid \<in> snd ` set (pf_bindings db) then (Inl value_error, db)
         else (Inr True, drop_profile pid db))"

section \<open>Runs and their invariant\<close>

datatype profile_op =
    Ensure "json option" ustr "ustr list"
  | Create agent_profile ustr ustr
  | Resolve "json option" ustr "ustr list" ustr
  | Bind ustr ustr
  | Unbind ustr
  | Update agent_profile
  | Revise ustr ustr ustr "ustr option"
  | Rollback ustr ustr
  | Drop ustr

fun profile_step :: "profile_op \<Rightarrow> profile_db \<Rightarrow> profile_db" where
  "profile_step (Ensure legacy prompt caps) db = snd (ensure_default legacy prompt caps db)"
| "profile_step (Create p prompt note) db = snd (profile_create p prompt note db)"
| "profile_step (Resolve legacy prompt caps cid) db = snd (profile_resolve legacy prompt caps cid db)"
| "profile_step (Bind cid pid) db = snd (profile_bind cid pid db)"
| "profile_step (Unbind cid) db = snd (profile_unbind cid db)"
| "profile_step (Update p) db = snd (profile_update p db)"
| "profile_step (Revise pid prompt note parent) db = snd (create_persona_version pid prompt note parent db)"
| "profile_step (Rollback pid target) db = snd (rollback_persona pid target db)"
| "profile_step (Drop pid) db = snd (profile_delete pid db)"

definition new_profile_db :: "ustr list \<Rightarrow> (nat \<Rightarrow> ustr) \<Rightarrow> int \<Rightarrow> profile_db" where
  "new_profile_db conversations supply now = \<lparr>pf_profiles = [], pf_personas = [], pf_bindings = [],
     pf_conversations = conversations, pf_uuid = supply, pf_drawn = 0, pf_now = now\<rparr>"

text \<open>
  The keys; the versions of a profile are 1, 2, 3 and so on in the order of their insertion;
  the active persona of a profile is one of its own.
\<close>

definition numbered :: "persona_version list \<Rightarrow> bool" where
  "numbered vs \<longleftrightarrow> map pv_version vs = map int [1..<Suc (length vs)]"

definition own_active :: "persona_version list \<Rightarrow> profile_row \<Rightarrow> bool" where
  "own_active vs r \<longleftrightarrow> (\<forall>vid. pw_active r = Some vid \<longrightarrow> (vid, pw_id r) \<in> (\<lambda>v. (pv_id v, pv_profile_id v)) ` set vs)"

definition profile_inv :: "profile_db \<Rightarrow> bool" where
  "profile_inv db \<longleftrightarrow> distinct (map pw_id (pf_profiles db)) \<and> distinct (map pw_name (pf_profiles db)) \<and>
     distinct (map pv_id (pf_personas db)) \<and> pv_profile_id ` set (pf_personas db) \<subseteq> pw_id ` set (pf_profiles db) \<and>
     (\<forall>r \<in> set (pf_profiles db). own_active (pf_personas db) r) \<and> (\<forall>pid. numbered (persona_history pid db)) \<and>
     snd ` set (pf_bindings db) \<subseteq> pw_id ` set (pf_profiles db)"

text \<open>\<open>safe P m Q\<close>: from \<open>P\<close> the program keeps the invariant, and what it returns satisfies \<open>Q\<close>.\<close>

definition safe :: "(profile_db \<Rightarrow> bool) \<Rightarrow> (profile_db, 'a) prog \<Rightarrow> ('a \<Rightarrow> profile_db \<Rightarrow> bool) \<Rightarrow> bool" where
  "safe P m Q \<longleftrightarrow> (\<forall>db r db'. P db \<longrightarrow> profile_inv db \<longrightarrow> m db = (r, db') \<longrightarrow> profile_inv db' \<and> (\<forall>x. r = Inr x \<longrightarrow> Q x db'))"

lemma safeD: "safe P m Q \<Longrightarrow> P db \<Longrightarrow> profile_inv db \<Longrightarrow> m db = (r, db') \<Longrightarrow> profile_inv db' \<and> (\<forall>x. r = Inr x \<longrightarrow> Q x db')"
  unfolding safe_def by blast

lemma safe_bind:
  assumes "safe P m Q" and "\<And>x. safe (Q x) (f x) R"
  shows "safe P (bindp m f) R"
  unfolding safe_def
proof (intro allI impI)
  fix db r db'
  assume p: "P db" "profile_inv db" and run: "bindp m f db = (r, db')"
  from run show "profile_inv db' \<and> (\<forall>x. r = Inr x \<longrightarrow> R x db')"
  proof (cases rule: bindp_cases)
    case (raises e)
    then show ?thesis using safeD [OF assms(1) p] by blast
  next
    case (returned x db1)
    then show ?thesis using safeD [OF assms(1) p returned(1)] safeD [OF assms(2) _ _ returned(2)] by blast
  qed
qed

lemma safe_pure [simp]: "safe P (raisep e) Q" "safe P (retp x) (\<lambda>_. P)" "safe P (retp x) (\<lambda>_ _. True)"
  "safe P (getp f) (\<lambda>x db. P db \<and> x = f db)"
  by (auto simp: safe_def getp_def)

lemma inv_drawn: "profile_inv (db\<lparr>pf_drawn := n\<rparr>) = profile_inv db"
  by (simp add: profile_inv_def persona_history_def)

lemma safe_transaction: "safe P m (\<lambda>_ _. True) \<Longrightarrow> safe P (transaction m) (\<lambda>_ _. True)"
  unfolding safe_def transaction_def by (auto simp: inv_drawn split: prod.splits sum.splits)

lemma safe_uuid: "safe (\<lambda>_. True) (liftp profile_uuid) (\<lambda>_ _. True)"
  by (simp add: safe_def liftp_def profile_uuid_def inv_drawn)

lemma profile_get_same: "profile_get pid db = (r, db') \<Longrightarrow> db' = db"
  by (auto simp: profile_get_def split: option.splits sum.splits)

lemma safe_got: "safe P (got_profile (profile_get pid)) (\<lambda>_ _. True)"
  unfolding got_profile_def safe_def
  by (auto elim!: bindp_cases split: option.splits dest: profile_get_same)

lemma safe_insert_profile: "pw_active r = None \<Longrightarrow> safe (\<lambda>_. True) (insert_profile r)
    (\<lambda>_ _. True)"
  by (auto simp: safe_def insert_profile_def profile_inv_def own_active_def persona_history_def split: if_splits)

lemma numbered_append: "numbered vs \<Longrightarrow> pv_version v = int (Suc (length vs)) \<Longrightarrow> numbered (vs @ [v])"
  by (simp add: numbered_def)

lemma next_version_numbered:
  assumes "numbered vs"
  shows "next_version vs = int (Suc (length vs))"
proof -
  have "fold max (map int [1..<Suc n]) 0 = int n" for n
    by (induction n) (auto simp: max_def)
  then show ?thesis using assms by (simp add: next_version_def numbered_def)
qed

text \<open>A first version is only inserted when the profile has no versions: version 1 would be taken.\<close>

lemma insert_persona_inv:
  assumes "profile_inv db" and "insert_persona v db = (Inr u, db')"
    and "pv_version v = 1 \<or> pv_version v = next_version (persona_history (pv_profile_id v) db)"
  shows "profile_inv db' \<and> v \<in> set (pf_personas db')"
proof -
  let ?h = "persona_history (pv_profile_id v) db"
  have db': "db' = db\<lparr>pf_personas := pf_personas db @ [v]\<rparr>" and new: "pv_id v \<notin> pv_id ` set (pf_personas db)"
    "pv_profile_id v \<in> pw_id ` set (pf_profiles db)" and free: "\<forall>q \<in> set ?h. pv_version q \<noteq> pv_version v"
    using assms(2) by (auto simp: insert_persona_def persona_history_def split: if_splits)
  have nums: "numbered (persona_history pid db)" for pid using assms(1) by (simp add: profile_inv_def)
  have version: "pv_version v = int (Suc (length ?h))"
  proof (cases "pv_version v = 1")
    case True
    have "?h = []"
    proof (rule ccontr)
      assume "?h \<noteq> []"
      then have "pv_version (hd ?h) = 1" using nums [of "pv_profile_id v"] by (cases ?h) (auto simp: numbered_def upt_rec)
      then show False using free True \<open>?h \<noteq> []\<close> by simp
    qed
    then show ?thesis using True by simp
  next
    case False
    then show ?thesis using assms(3) next_version_numbered [OF nums] by simp
  qed
  have "numbered (persona_history pid db')" for pid
    using nums [of pid] numbered_append [OF nums version] by (auto simp: db' persona_history_def)
  then show ?thesis using assms(1) new by (auto simp: db' profile_inv_def own_active_def)
qed

lemma set_profile_inv:
  assumes "profile_inv db" and "\<And>r. pw_id (f r) = pw_id r" and "distinct (map pw_name (pf_profiles (set_profile pid f db)))"
    and "\<And>r. own_active (pf_personas db) r \<Longrightarrow> pw_id r = pid \<Longrightarrow> own_active (pf_personas db) (f r)"
  shows "profile_inv (set_profile pid f db)"
proof -
  define rows where "rows = map (\<lambda>r. if pw_id r = pid then f r else r) (pf_profiles db)"
  have ids: "map pw_id rows = map pw_id (pf_profiles db)" using assms(2) by (simp add: rows_def)
  then have set_ids: "pw_id ` set rows = pw_id ` set (pf_profiles db)" by (metis set_map)
  have act: "\<forall>r \<in> set rows. own_active (pf_personas db) r"
    using assms(1,4) by (auto simp: rows_def profile_inv_def)
  have db: "set_profile pid f db = db\<lparr>pf_profiles := rows\<rparr>" by (simp add: set_profile_def rows_def)
  show ?thesis using assms(1,3) ids set_ids act unfolding db by (simp add: profile_inv_def persona_history_def)
qed

lemma activate_inv:
  assumes "profile_inv db" and "(vid, pid) \<in> (\<lambda>v. (pv_id v, pv_profile_id v)) ` set (pf_personas db)"
  shows "profile_inv (set_profile pid (\<lambda>r. r\<lparr>pw_active := Some vid, pw_updated_at := t\<rparr>) db)"
proof (rule set_profile_inv [OF assms(1)])
  have "map pw_name (pf_profiles (set_profile pid (\<lambda>r. r\<lparr>pw_active := Some vid, pw_updated_at := t\<rparr>) db)) = map pw_name (pf_profiles db)"
    by (simp add: set_profile_def)
  then show "distinct (map pw_name (pf_profiles (set_profile pid (\<lambda>r. r\<lparr>pw_active := Some vid, pw_updated_at := t\<rparr>) db)))"
    using assms(1) by (simp add: profile_inv_def)
qed (use assms(2) in \<open>auto simp: own_active_def\<close>)

lemma safe_install:
  assumes "\<And>db. P db \<Longrightarrow> profile_inv db \<Longrightarrow> pv_version v = 1 \<or> pv_version v = next_version (persona_history (pv_profile_id v) db)"
    and "pv_profile_id v = pid" and "pv_id v = vid"
  shows "safe P (bindp (insert_persona v) (\<lambda>_. activate_persona pid vid)) (\<lambda>_ _. True)"
  unfolding assms(2,3) [symmetric]
proof (rule safe_bind)
  show "safe P (insert_persona v) (\<lambda>_ db. (pv_id v, pv_profile_id v) \<in> (\<lambda>v. (pv_id v, pv_profile_id v)) ` set (pf_personas db))"
    unfolding safe_def
  proof (intro allI impI)
    fix db r db'
    assume p: "P db" "profile_inv db" and run: "insert_persona v db = (r, db')"
    show "profile_inv db' \<and> (\<forall>x. r = Inr x \<longrightarrow> (pv_id v, pv_profile_id v) \<in> (\<lambda>v. (pv_id v, pv_profile_id v)) ` set (pf_personas db'))"
    proof (cases r)
      case (Inl e)
      then have "db' = db" using run by (auto simp: insert_persona_def split: if_splits)
      then show ?thesis using p Inl by simp
    next
      case (Inr u)
      from insert_persona_inv [OF p(2) run [unfolded Inr] assms(1) [OF p]] show ?thesis by auto
    qed
  qed
  show "safe (\<lambda>db. (pv_id v, pv_profile_id v) \<in> (\<lambda>v. (pv_id v, pv_profile_id v)) ` set (pf_personas db))
      (activate_persona (pv_profile_id v) (pv_id v)) (\<lambda>_ _. True)" for x
    using activate_inv by (simp add: safe_def activate_persona_def)
qed

lemma safe_if: "(b \<Longrightarrow> safe P m Q) \<Longrightarrow> (\<not> b \<Longrightarrow> safe P n Q) \<Longrightarrow> safe P (if b then m else n) Q"
  by simp

lemma safe_weaken: "safe P m Q \<Longrightarrow> (\<And>db. P' db \<Longrightarrow> profile_inv db \<Longrightarrow> P db) \<Longrightarrow> (\<And>x db. Q x db \<Longrightarrow> Q' x db) \<Longrightarrow> safe P' m Q'"
  unfolding safe_def by blast

lemma safe_ensure: "safe (\<lambda>_. True) (ensure_default legacy prompt caps) (\<lambda>_ _. True)"
proof -
  have seed: "safe (\<lambda>_. True) (\<lambda>db. if default_profile_name \<in> pw_name ` set (pf_profiles db) then (Inr (), db)
      else insert_profile (default_row pid caps (pf_now db)) db) (\<lambda>_ _. True)" for pid
    using safe_insert_profile [of "default_row pid caps t" for t] unfolding safe_def default_row_def by (auto split: if_splits)
  have install: "safe (\<lambda>_. True) (bindp (insert_persona (first_persona vid pid p n)) (\<lambda>_. activate_persona pid vid)) (\<lambda>_ _. True)" for pid vid p n
    by (rule safe_install) (simp_all add: first_persona_def)
  have found: "safe (\<lambda>_. True) (case x of None \<Rightarrow> raisep (Raised (lit ''NoResultFound''))
          | Some r \<Rightarrow> bindp (if pw_active r \<noteq> None then retp ()
              else bindp (liftp profile_uuid) (\<lambda>vid.
                 bindp (insert_persona (first_persona vid (pw_id r) p n)) (\<lambda>_. activate_persona (pw_id r) vid))) (\<lambda>_. retp (pw_id r)))
      (\<lambda>_ _. True)" for x p n
  proof (cases x)
    case (Some r)
    then show ?thesis unfolding Some option.case
      by (intro safe_bind [where Q = "\<lambda>_ _. True"] safe_if safe_uuid install safe_pure)
  qed simp
  show ?thesis unfolding ensure_default_def
    by (intro safe_bind [where Q = "\<lambda>_ _. True"] safe_transaction safe_uuid seed safe_got
        safe_weaken [OF safe_pure(4)] found) simp_all
qed

lemma safe_create: "safe (\<lambda>_. True) (profile_create p prompt note) (\<lambda>_ _. True)"
proof -
  have add: "safe (\<lambda>_. True) (\<lambda>db. insert_profile (profile_row_of p (pf_now db)) db) (\<lambda>_ _. True)"
    using safe_insert_profile [of "profile_row_of p t" for t] unfolding safe_def profile_row_of_def by auto
  have install: "safe (\<lambda>_. True) (bindp (insert_persona (first_persona vid pid q n)) (\<lambda>_. activate_persona pid vid)) (\<lambda>_ _. True)" for pid vid q n
    by (rule safe_install) (simp_all add: first_persona_def)
  show ?thesis unfolding profile_create_def
    by (intro safe_if safe_pure safe_bind [where Q = "\<lambda>_ _. True"] safe_transaction safe_uuid add install safe_got)
qed

lemma safe_revise: "safe (\<lambda>_. True) (create_persona_version pid prompt note parent) (\<lambda>_ _. True)"
proof -
  have install: "safe (\<lambda>db. n = next_version (persona_history pid db)) (bindp (insert_persona v)
      (\<lambda>_. bindp (activate_persona pid vid) (\<lambda>_. retp v))) (\<lambda>_ _. True)"
    if "pv_version v = n" "pv_profile_id v = pid" "pv_id v = vid" for v n vid
  proof -
    have "bindp (insert_persona v) (\<lambda>_. bindp (activate_persona pid vid) (\<lambda>_. retp v))
        = bindp (bindp (insert_persona v) (\<lambda>_. activate_persona pid vid)) (\<lambda>_. retp v)"
      by (rule ext) (simp add: bindp_def split: prod.split sum.split)
    then show ?thesis using that by (auto intro!: safe_bind [OF safe_install])
  qed
  have found: "safe (\<lambda>_. True) (case x of None \<Rightarrow> raisep value_error
           | Some r \<Rightarrow>
              bindp (getp (\<lambda>db. next_version (persona_history pid db))) (\<lambda>version.
              let v = \<lparr>pv_id = vid, pv_profile_id = pid, pv_version = version, pv_system_prompt = strip prompt,
                       pv_parent = (if parent \<noteq> None then parent else pw_active r), pv_change_note = note\<rparr>
              in bindp (insert_persona v) (\<lambda>_. bindp (activate_persona pid vid) (\<lambda>_. retp v)))) (\<lambda>_ _. True)" for x vid
  proof (cases x)
    case (Some r)
    then show ?thesis unfolding Let_def Some option.case
      by (intro safe_bind [OF safe_pure(4)]) (rule safe_weaken [OF install], simp_all)
  qed simp
  show ?thesis unfolding create_persona_version_def
    by (intro safe_if safe_pure safe_transaction safe_bind [where Q = "\<lambda>_ _. True"] safe_uuid found
        safe_weaken [OF safe_pure(4)]) simp_all
qed

lemma safe_update: "safe (\<lambda>_. True) (profile_update p) (\<lambda>_ _. True)"
  unfolding profile_update_def
proof (rule safe_bind [OF _ safe_got], unfold safe_def, intro allI impI)
  let ?f = "\<lambda>t r. r\<lparr>pw_name := ap_name p, pw_description := ap_description p,
           pw_model_tier := ap_model_tier p, pw_tool_capabilities := ap_tool_capabilities p, pw_memory := ap_memory p,
           pw_willingness := ap_willingness p, pw_updated_at := t\<rparr>"
  fix db r db'
  assume inv: "profile_inv db"
    and run: "(if find_profile (ap_id p) db = None then (Inl value_error, db)
        else if \<exists>r \<in> set (pf_profiles db). pw_id r \<noteq> ap_id p \<and> pw_name r = ap_name p then (Inl profile_integrity, db)
        else (Inr (), set_profile (ap_id p) (?f (pf_now db)) db)) = (r, db')"
  show "profile_inv db' \<and> (\<forall>x. r = Inr x \<longrightarrow> True)"
  proof (cases "r = Inr ()")
    case False
    then have "db' = db" using run by (auto split: if_splits)
    then show ?thesis using inv by simp
  next
    case True
    then have db': "db' = set_profile (ap_id p) (?f (pf_now db)) db" and free: "\<forall>r \<in> set (pf_profiles db). pw_id r \<noteq> ap_id p \<longrightarrow> pw_name r \<noteq> ap_name p"
      using run by (auto split: if_splits)
    have names: "distinct (map pw_name (map (\<lambda>r. if pw_id r = i then ?f t r else r) rows))"
      if d: "distinct (map pw_id rows)" "distinct (map pw_name rows)" "\<forall>r \<in> set rows. pw_id r \<noteq> i \<longrightarrow> pw_name r \<noteq> ap_name p" for rows i t
    proof -
      have "inj_on pw_id (set rows)" "inj_on pw_name (set rows)" "distinct rows" using d(1,2) by (auto simp: distinct_map)
      then have "inj_on (\<lambda>r. if pw_id r = i then ap_name p else pw_name r) (set rows)"
        using d(3) by (intro inj_onI) (metis inj_onD)
      with \<open>distinct rows\<close> have "distinct (map (\<lambda>r. if pw_id r = i then ap_name p else pw_name r) rows)"
        by (simp add: distinct_map)
      moreover have "map pw_name (map (\<lambda>r. if pw_id r = i then ?f t r else r) rows) = map (\<lambda>r. if pw_id r = i then ap_name p else pw_name r) rows"
        by (induction rows) auto
      ultimately show ?thesis by metis
    qed
    have "profile_inv db'" unfolding db'
    proof (rule set_profile_inv [OF inv])
      show "distinct (map pw_name (pf_profiles (set_profile (ap_id p) (?f (pf_now db)) db)))"
        using names [of "pf_profiles db" "ap_id p" "pf_now db"] inv free by (simp add: profile_inv_def set_profile_def)
    qed (simp_all add: own_active_def)
    then show ?thesis by simp
  qed
qed

lemma numbered_Nil: "numbered []"
  by (simp add: numbered_def)

lemma map_filter_same:
  "(\<And>v. P (f v) = P v) \<Longrightarrow> (\<And>v. g (f v) = g v) \<Longrightarrow> map g (filter P (map f xs)) = map g (filter P xs)"
  by (induction xs) auto

lemma drop_inv:
  assumes inv: "profile_inv db" and free: "pid \<notin> snd ` set (pf_bindings db)"
  shows "profile_inv (drop_profile pid db)"
proof -
  define kept where "kept = filter (\<lambda>v. pv_profile_id v \<noteq> pid) (pf_personas db)"
  define cut where "cut = map (\<lambda>v. if pv_parent v \<noteq> None \<and> the (pv_parent v) \<notin> pv_id ` set kept then v\<lparr>pv_parent := None\<rparr> else v) kept"
  define rows where "rows = filter (\<lambda>r. pw_id r \<noteq> pid) (pf_profiles db)"
  have act: "own_active kept r" if "r \<in> set rows" for r
    using inv that by (fastforce simp: rows_def kept_def profile_inv_def own_active_def)
  have same: "map (\<lambda>r. if pw_active r \<noteq> None \<and> the (pw_active r) \<notin> pv_id ` set kept then r\<lparr>pw_active := None\<rparr> else r) rows = rows"
  proof (rule map_idI)
    fix r assume "r \<in> set rows"
    from act [OF this] show "(if pw_active r \<noteq> None \<and> the (pw_active r) \<notin> pv_id ` set kept then r\<lparr>pw_active := None\<rparr> else r) = r"
      by (auto simp: own_active_def image_iff)
  qed
  have drop: "drop_profile pid db = db\<lparr>pf_profiles := rows, pf_personas := cut\<rparr>"
    unfolding drop_profile_def Let_def using same by (simp add: kept_def cut_def rows_def)
  have proj: "map pv_id cut = map pv_id kept" "map pv_profile_id cut = map pv_profile_id kept"
    "map (\<lambda>v. (pv_id v, pv_profile_id v)) cut = map (\<lambda>v. (pv_id v, pv_profile_id v)) kept"
    by (simp_all add: cut_def)
  have hist: "numbered (filter (\<lambda>v. pv_profile_id v = q) cut)" for q
  proof -
    have "map pv_version (filter (\<lambda>v. pv_profile_id v = q) cut) = map pv_version (filter (\<lambda>v. pv_profile_id v = q) kept)"
      unfolding cut_def by (rule map_filter_same) simp_all
    moreover have "filter (\<lambda>v. pv_profile_id v = q) kept = (if q = pid then [] else persona_history q db)"
      by (auto simp: kept_def persona_history_def filter_empty_conv intro!: filter_cong)
    ultimately have "map pv_version (filter (\<lambda>v. pv_profile_id v = q) cut) = map pv_version (if q = pid then [] else persona_history q db)"
      by simp
    moreover from this have "length (filter (\<lambda>v. pv_profile_id v = q) cut) = length (if q = pid then [] else persona_history q db)"
      by (metis length_map)
    moreover have "numbered (if q = pid then [] else persona_history q db)"
      using inv by (cases "q = pid") (simp_all add: profile_inv_def numbered_Nil)
    ultimately show ?thesis unfolding numbered_def by metis
  qed
  have "own_active cut r" if "r \<in> set rows" for r
  proof -
    have "(\<lambda>v. (pv_id v, pv_profile_id v)) ` set cut = (\<lambda>v. (pv_id v, pv_profile_id v)) ` set kept"
      using arg_cong [OF proj(3), of set] by (simp only: set_map)
    then show ?thesis using act [OF that] by (simp only: own_active_def)
  qed
  moreover have "distinct (map pw_id rows)" "distinct (map pw_name rows)"
    using inv by (auto simp: rows_def profile_inv_def distinct_map_filter)
  moreover have "distinct (map pv_id cut)"
    unfolding proj(1) using inv by (auto simp: kept_def profile_inv_def distinct_map_filter)
  moreover have "pv_profile_id ` set cut \<subseteq> pw_id ` set rows"
  proof -
    have "pv_profile_id ` set cut = pv_profile_id ` set kept" using arg_cong [OF proj(2), of set] by (simp only: set_map)
    moreover have "pv_profile_id ` set kept \<subseteq> pw_id ` set rows"
    proof
      fix x assume "x \<in> pv_profile_id ` set kept"
      then have "x \<noteq> pid" "x \<in> pv_profile_id ` set (pf_personas db)" by (auto simp: kept_def)
      moreover from this(2) have "x \<in> pw_id ` set (pf_profiles db)" using inv by (auto simp: profile_inv_def)
      ultimately show "x \<in> pw_id ` set rows" by (auto simp: rows_def)
    qed
    ultimately show ?thesis by simp
  qed
  moreover have "snd ` set (pf_bindings db) \<subseteq> pw_id ` set rows"
  proof
    fix x assume x: "x \<in> snd ` set (pf_bindings db)"
    then have "x \<noteq> pid" using free by blast
    moreover have "x \<in> pw_id ` set (pf_profiles db)" using inv x by (auto simp: profile_inv_def)
    ultimately show "x \<in> pw_id ` set rows" by (auto simp: rows_def)
  qed
  ultimately show ?thesis using hist unfolding drop by (simp add: profile_inv_def persona_history_def)
qed

lemma profile_inv_step: "profile_inv db \<Longrightarrow> profile_inv (profile_step op db)"
proof -
  assume inv: "profile_inv db"
  have step: "profile_inv (snd (m db))" if "safe (\<lambda>_. True) m (\<lambda>_ _. True)" for m :: "(profile_db, 'b) prog"
    using safeD [OF that _ inv] by (metis prod.collapse)
  have same: "profile_inv db'" if "pf_profiles db' = pf_profiles db" "pf_personas db' = pf_personas db"
    "snd ` set (pf_bindings db') \<subseteq> pw_id ` set (pf_profiles db)" for db'
    using inv that by (simp add: profile_inv_def persona_history_def)
  have bound: "snd ` set (pf_bindings db) \<subseteq> pw_id ` set (pf_profiles db)" using inv by (simp add: profile_inv_def)
  show ?thesis
  proof (cases op)
    case (Ensure legacy prompt caps)
    then show ?thesis by (simp add: step safe_ensure)
  next
    case (Create p prompt remark)
    then show ?thesis by (simp add: step safe_create)
  next
    case (Resolve legacy prompt caps cid)
    have "safe (\<lambda>_. True) (case r of Some p \<Rightarrow> retp p | None \<Rightarrow> ensure_default legacy prompt caps) (\<lambda>_ _. True)" for r
      by (cases r) (simp_all only: option.case safe_ensure safe_pure)
    moreover have "safe (\<lambda>_. True) (case bound of None \<Rightarrow> retp None | Some pid \<Rightarrow> profile_get pid) (\<lambda>_ _. True)" for bound
      by (cases bound) (auto simp: safe_def dest: profile_get_same)
    ultimately have "safe (\<lambda>_. True) (profile_resolve legacy prompt caps cid) (\<lambda>_ _. True)"
      unfolding profile_resolve_def
      by (intro safe_bind [where Q = "\<lambda>_ _. True"] safe_weaken [OF safe_pure(4)]) simp_all
    then show ?thesis using Resolve by (simp add: step)
  next
    case (Bind cid pid)
    have "snd ` set (AList.update cid pid d) \<subseteq> insert pid (snd ` set d)" for d
      by (induction d) (auto split: if_splits)
    then have "pid \<in> pw_id ` set (pf_profiles db) \<Longrightarrow>
        snd ` set (AList.update cid pid (pf_bindings db)) \<subseteq> pw_id ` set (pf_profiles db)" using bound by blast
    then show ?thesis using Bind inv same by (simp add: profile_bind_def)
  next
    case (Unbind cid)
    have "snd ` set (AList.delete cid (pf_bindings db)) \<subseteq> snd ` set (pf_bindings db)"
      by (auto simp: AList.delete_eq)
    then have "snd ` set (AList.delete cid (pf_bindings db)) \<subseteq> pw_id ` set (pf_profiles db)" using bound by blast
    then show ?thesis using Unbind same by (simp add: profile_unbind_def)
  next
    case (Update p)
    then show ?thesis by (simp add: step safe_update)
  next
    case (Revise pid prompt remark parent)
    then show ?thesis by (simp add: step safe_revise)
  next
    case (Rollback pid target)
    have "safe (\<lambda>_. True) (case found of None \<Rightarrow> raisep value_error
       | Some v \<Rightarrow> create_persona_version pid (pv_system_prompt v) (lit ''rollback to v'' @ dec_int (pv_version v)) (Some target))
       (\<lambda>_ _. True)" for found
      by (cases found) (simp_all only: option.case safe_revise safe_pure)
    then have "safe (\<lambda>_. True) (rollback_persona pid target) (\<lambda>_ _. True)"
      unfolding rollback_persona_def
      by (intro safe_bind [where Q = "\<lambda>_ _. True"] safe_weaken [OF safe_pure(4)]) simp_all
    then show ?thesis using Rollback by (simp add: step)
  next
    case (Drop pid)
    then show ?thesis using inv drop_inv [OF inv, of pid] by (auto simp: profile_delete_def split: option.split)
  qed
qed

lemma profile_inv_run: "profile_inv db \<Longrightarrow> profile_inv (fold profile_step ops db)"
  by (induction ops arbitrary: db) (auto intro: profile_inv_step)

lemma profile_inv_new: "profile_inv (new_profile_db convs supply now)"
  by (simp add: profile_inv_def new_profile_db_def persona_history_def numbered_def)

subsection \<open>History\<close>

text \<open>Everything but a deletion only adds personas.\<close>

definition adds :: "profile_db \<Rightarrow> profile_db \<Rightarrow> bool" where
  "adds db db' \<longleftrightarrow> (\<exists>new. pf_personas db' = pf_personas db @ new)"

lemma adds_refl [simp]: "reflp adds" and adds_trans [simp]: "transp adds"
  by (auto simp: adds_def reflp_def transp_def)

lemma adds_transaction [moves_intro]: "moves adds m \<Longrightarrow> moves adds (transaction m)"
  by (rule movesI) (auto simp: transaction_def adds_def dest: movesD split: prod.splits sum.splits)

lemma adds_ops [moves_intro]:
  "moves adds (liftp profile_uuid)" "moves adds (insert_profile r)" "moves adds (insert_persona v)" "moves adds (activate_persona pid vid)"
  "moves adds (profile_get pid)"
  by (auto simp: moves_def adds_def liftp_def profile_uuid_def insert_profile_def insert_persona_def activate_persona_def
      set_profile_def profile_get_def split: option.split sum.split)

lemma adds_got [moves_intro]: "moves adds (got_profile (profile_get pid))"
  unfolding got_profile_def by (intro moves_intro) simp_all

lemma adds_ensure [moves_intro]: "moves adds (ensure_default legacy prompt caps)"
proof -
  have "moves adds (\<lambda>db. if default_profile_name \<in> pw_name ` set (pf_profiles db) then (Inr (), db)
      else insert_profile (default_row pid caps (pf_now db)) db)" for pid
    by (auto simp: moves_def adds_def insert_profile_def)
  then show ?thesis unfolding ensure_default_def by (intro moves_intro) simp_all
qed

lemma adds_create: "moves adds (profile_create p prompt remark)"
proof -
  have "moves adds (\<lambda>db. insert_profile (profile_row_of p (pf_now db)) db)"
    by (auto simp: moves_def adds_def insert_profile_def)
  then show ?thesis unfolding profile_create_def by (intro moves_intro) simp_all
qed

lemma adds_revise [moves_intro]: "moves adds (create_persona_version pid prompt remark parent)"
  unfolding create_persona_version_def Let_def by (intro moves_intro) simp_all

lemma adds_step:
  assumes "\<forall>pid. op \<noteq> Drop pid"
  shows "adds db (profile_step op db)"
proof -
  have resolve: "moves adds (profile_resolve legacy prompt caps cid)" for legacy prompt caps cid
    unfolding profile_resolve_def by (intro moves_intro) simp_all
  have update: "moves adds (profile_update p)" for p
  proof -
    have "moves adds (\<lambda>db. if find_profile (ap_id p) db = None then (Inl value_error, db)
        else if \<exists>r \<in> set (pf_profiles db). pw_id r \<noteq> ap_id p \<and> pw_name r = ap_name p then (Inl profile_integrity, db)
        else (Inr (), set_profile (ap_id p) (\<lambda>r. r\<lparr>pw_name := ap_name p, pw_description := ap_description p,
           pw_model_tier := ap_model_tier p, pw_tool_capabilities := ap_tool_capabilities p, pw_memory := ap_memory p,
           pw_willingness := ap_willingness p, pw_updated_at := pf_now db\<rparr>) db))"
      by (auto simp: moves_def adds_def set_profile_def)
    then show ?thesis unfolding profile_update_def by (intro moves_intro) simp_all
  qed
  have rollback: "moves adds (rollback_persona pid target)" for pid target
    unfolding rollback_persona_def by (intro moves_intro) simp_all
  show ?thesis
    using assms adds_ensure adds_create adds_revise resolve update rollback
    by (cases op) (simp_all add: moves_def profile_bind_def profile_unbind_def adds_def)
qed

section \<open>Properties\<close>

text \<open>
  the profile tables keep their keys: after any operations identifiers and names are
  unique, the versions of a profile are 1, 2, 3 and so on without a gap, the active persona
  of a profile is one of its own, and no conversation is bound to a profile that is gone.
\<close>

theorem profile_tables_keep_keys:
  "profile_inv (fold profile_step ops (new_profile_db convs supply now))"
  by (rule profile_inv_run [OF profile_inv_new])

text \<open>
  the personas of a profile are append-only: as long as nothing is deleted, the history
  of a profile only grows at its end, so that no prompt is ever changed or lost.
\<close>

theorem persona_history_append_only:
  assumes "\<forall>op \<in> set ops. \<forall>p. op \<noteq> Drop p"
  shows "\<exists>new. persona_history pid (fold profile_step ops db) = persona_history pid db @ new"
  using assms
proof (induction ops arbitrary: db)
  case Nil
  then show ?case by simp
next
  case (Cons op ops)
  then obtain new1 where "persona_history pid (profile_step op db) = persona_history pid db @ new1"
    using adds_step [of op db] by (auto simp: adds_def persona_history_def)
  moreover from Cons.IH [of "profile_step op db"] Cons.prems
  obtain new2 where "persona_history pid (fold profile_step ops (profile_step op db)) = persona_history pid (profile_step op db) @ new2" by auto
  ultimately show ?case by simp
qed

text \<open>
  a rollback activates a copy of its target: in any reachable tables a rollback that
  succeeds appends one persona, numbered next, with the target's prompt and the target as
  its parent, and makes it the active persona of the profile.
\<close>

theorem rollback_activates_copy:
  assumes "db = fold profile_step ops (new_profile_db convs supply now)"
    and "rollback_persona pid target db = (Inr v, db')"
  shows "persona_history pid db' = persona_history pid db @ [v] \<and> pv_version v = int (Suc (length (persona_history pid db))) \<and>
    pv_parent v = Some target \<and> map_option pw_active (find_profile pid db') = Some (Some (pv_id v)) \<and>
    (\<exists>t \<in> set (persona_history pid db). pv_id t = target \<and> pv_system_prompt v = strip (pv_system_prompt t))"
proof -
  have inv: "profile_inv db" unfolding assms(1) by (rule profile_inv_run [OF profile_inv_new])
  obtain t where t: "find (\<lambda>v. pv_id v = target \<and> pv_profile_id v = pid) (pf_personas db) = Some t"
    and run: "create_persona_version pid (pv_system_prompt t) (lit ''rollback to v'' @ dec_int (pv_version t)) (Some target) db = (Inr v, db')"
    using assms(2) unfolding rollback_persona_def by (auto simp: getp_def elim!: bindp_cases split: option.splits)
  have mem: "t \<in> set (persona_history pid db)" "pv_id t = target"
    using t by (auto simp: find_Some_iff persona_history_def)
  let ?db1 = "snd (profile_uuid db)"
  have db1: "find_profile pid ?db1 = find_profile pid db" "persona_history pid ?db1 = persona_history pid db"
    by (simp_all add: profile_uuid_def find_profile_def persona_history_def)
  obtain r where r: "find_profile pid db = Some r"
    using run unfolding create_persona_version_def transaction_def
    by (cases "find_profile pid db") (auto simp: getp_def liftp_def db1 bindp_def split: if_splits)
  define w where "w = \<lparr>pv_id = fst (profile_uuid db), pv_profile_id = pid, pv_version = next_version (persona_history pid db),
      pv_system_prompt = strip (pv_system_prompt t), pv_parent = Some target, pv_change_note = lit ''rollback to v'' @ dec_int (pv_version t)\<rparr>"
  have "transaction (\<lambda>_. bindp (insert_persona w) (\<lambda>_. bindp (activate_persona pid (fst (profile_uuid db))) (\<lambda>_. retp w)) ?db1) db = (Inr v, db')"
    using run unfolding create_persona_version_def transaction_def w_def
    by (simp add: getp_def liftp_def db1 bindp_def r Let_def split: if_splits)
  then obtain db2 where ins: "insert_persona w ?db1 = (Inr (), db2)" and v: "v = w"
    and act: "activate_persona pid (fst (profile_uuid db)) db2 = (Inr (), db')"
    unfolding transaction_def by (auto elim!: bindp_cases split: prod.splits sum.splits)
  have db2: "pf_personas db2 = pf_personas db @ [w]" "pf_profiles db2 = pf_profiles db"
    using ins by (auto simp: insert_persona_def profile_uuid_def split: if_splits)
  have hist: "persona_history pid db' = persona_history pid db @ [w]"
    using act db2 by (auto simp: activate_persona_def set_profile_def persona_history_def w_def)
  have find_set: "map_option pw_active (find (\<lambda>r. pw_id r = pid) (map (\<lambda>r. if pw_id r = pid then r\<lparr>pw_active := Some i, pw_updated_at := t\<rparr> else r) rows))
      = map_option (\<lambda>r. Some i) (find (\<lambda>r. pw_id r = pid) rows)" for i t rows
    by (induction rows) auto
  have "pf_profiles db' = map (\<lambda>r. if pw_id r = pid then r\<lparr>pw_active := Some (fst (profile_uuid db)), pw_updated_at := pf_now db2\<rparr> else r) (pf_profiles db)"
    using act db2(2) by (auto simp: activate_persona_def set_profile_def)
  then have active: "map_option pw_active (find_profile pid db') = Some (Some (fst (profile_uuid db)))"
    using r by (simp only: find_profile_def find_set option.map)
  have "pv_version w = int (Suc (length (persona_history pid db)))"
    using inv next_version_numbered by (simp add: w_def profile_inv_def)
  then show ?thesis using hist active mem v by (auto simp: w_def)
qed

text \<open>One profile, whose prompt is revised and rolled back.\<close>

definition demo_profile :: agent_profile where
  "demo_profile = \<lparr>ap_id = [112], ap_name = [110], ap_description = [], ap_active_persona = None, ap_model_tier = [100],
     ap_tool_capabilities = [], ap_memory = default_memory_policy, ap_willingness = default_willingness\<rparr>"

theorem persona_history_append_only_witness:
  "\<exists>new. persona_history [112] (fold profile_step [Create demo_profile [97] [], Revise [112] [98] [] None] (new_profile_db [] (\<lambda>n. [n]) 0))
     = persona_history [112] (new_profile_db [] (\<lambda>n. [n]) 0) @ new"
  by (rule persona_history_append_only) simp

definition demo_profile_db :: profile_db where
  "demo_profile_db = \<lparr>pf_profiles = [(profile_row_of demo_profile 0)\<lparr>pw_active := Some [0]\<rparr>], pf_personas = [first_persona [0] [112] [97] []],
     pf_bindings = [], pf_conversations = [], pf_uuid = (\<lambda>n. [n]), pf_drawn = 1, pf_now = 0\<rparr>"

lemma demo_profile_run: "fold profile_step [Create demo_profile [97] []] (new_profile_db [] (\<lambda>n. [n]) 0) = demo_profile_db"
  by (simp add: profile_create_def transaction_def bindp_def liftp_def profile_uuid_def insert_profile_def insert_persona_def
      activate_persona_def set_profile_def got_profile_def profile_get_def find_profile_def joined_persona_def find_persona_def
      resolved_row_def Let_def valid_profile_def valid_persona_def demo_profile_db_def new_profile_db_def profile_row_of_def
      first_persona_def demo_profile_def strip_def lstrip_def rstrip_def py_space_def)

theorem rollback_activates_copy_witness:
  "\<exists>v db'. rollback_persona [112] [0] demo_profile_db = (Inr v, db') \<and> pv_version v = 2 \<and>
     persona_history [112] db' = [first_persona [0] [112] [97] [], v]"
proof -
  have h: "persona_history [112] demo_profile_db = [first_persona [0] [112] [97] []]"
    by (simp add: persona_history_def demo_profile_db_def first_persona_def)
  have "\<exists>v db'. rollback_persona [112] [0] demo_profile_db = (Inr v, db')"
    by (simp add: rollback_persona_def create_persona_version_def transaction_def bindp_def liftp_def profile_uuid_def insert_persona_def
        activate_persona_def getp_def set_profile_def find_profile_def persona_history_def next_version_def Let_def demo_profile_db_def
        profile_row_of_def demo_profile_def first_persona_def strip_def lstrip_def rstrip_def py_space_def)
  then obtain v db' where r: "rollback_persona [112] [0] demo_profile_db = (Inr v, db')" by blast
  from rollback_activates_copy [OF demo_profile_run [symmetric] r] r h show ?thesis by auto
qed

end
