(* ===== verification/AgentWorker.thy ===== *)
theory AgentWorker
  imports AgentHost Pairing MessageStore Willingness Moderation ModelRouting Leases Adapters Profiles
begin

text \<open>
  The agent worker of \<open>services/agent_worker.py\<close>: what happens to one event of the ingest
  stream, from the access check to the published reply. The services the worker calls are the
  fields of \<open>worker\<close>, each a program on a state of its own; every \<open>try\<close> of the source is a
  \<open>catchp\<close>, every early return a branch. The locale \<open>worker_contract\<close> says what these services
  leave alone, and the interpretation runs the worker on the pairing tables, the message
  tables and an outbound stream, with the remaining services acting on a part of the world
  of their own. The main results: at most one reply per event and only to its chat, a denied
  sender reaches nothing, what is published was recorded first and passed the outbound
  moderation, and a duplicate or a shadow evaluation publishes nothing.
\<close>

section \<open>Messages to the gateway\<close>

record outbound_message =
  om_id :: ustr
  om_platform :: platform
  om_connection_id :: ustr
  om_chat_kind :: chat_kind
  om_chat_id :: ustr
  om_plan :: reply_plan
  om_reply_to :: "ustr option"
  om_trace_id :: ustr

definition mk_outbound :: "ustr \<Rightarrow> envelope \<Rightarrow> reply_plan \<Rightarrow> ustr option \<Rightarrow> exn + outbound_message" where
  "mk_outbound mid e plan reply_to =
     (if strip (env_connection_id e) \<noteq> [] \<and> strip (env_chat_id e) \<noteq> [] \<and> strip (env_trace_id e) \<noteq> [] \<and>
         (case reply_to of None \<Rightarrow> True | Some t \<Rightarrow> strip t \<noteq> [])
      then Inr \<lparr>om_id = mid, om_platform = env_platform e, om_connection_id = strip (env_connection_id e),
                om_chat_kind = env_chat_kind e, om_chat_id = strip (env_chat_id e), om_plan = plan,
                om_reply_to = map_option strip reply_to, om_trace_id = strip (env_trace_id e)\<rparr>
      else Inl validation_error)"

definition of_result :: "exn + 'a \<Rightarrow> ('s, 'a) prog" where
  "of_result r = (case r of Inl x \<Rightarrow> raisep x | Inr y \<Rightarrow> retp y)"

section \<open>The services of the worker\<close>

record annotation_match =
  am_annotation_id :: ustr
  am_answer :: ustr
  am_score :: real
  am_threshold :: real

record trace_entry =
  sp_trace_id :: ustr
  sp_stage :: ustr
  sp_status :: ustr
  sp_duration_ms :: int
  sp_conversation :: "ustr option"
  sp_message :: "ustr option"
  sp_attributes :: "(ustr, json) dict"

record shadow_report =
  sh_result_id :: ustr
  sh_conversation :: ustr
  sh_inbound_message :: ustr
  sh_response :: ustr
  sh_citations :: "ustr list"

record turn_request =
  tq_conversation :: ustr
  tq_stable_key :: ustr
  tq_envelope :: envelope
  tq_decision :: turn_decision
  tq_inbound_message :: "ustr option"
  tq_capabilities :: capabilities
  tq_runtime :: "agent_runtime option"

record 's worker =
  wk_access :: "(envelope \<Rightarrow> ('s, pairing_decision) prog) option"
  wk_moderate :: "(audit_context \<Rightarrow> moderation_request \<Rightarrow> ('s, moderation_decision) prog) option"
  wk_converse :: "conversation_key \<Rightarrow> platform \<Rightarrow> bool \<Rightarrow> ('s, ustr \<times> ustr) prog"
  wk_receive :: "ustr \<Rightarrow> envelope \<Rightarrow> ('s, ustr \<times> bool) prog"
  wk_answer :: "ustr \<Rightarrow> reply_plan \<Rightarrow> ustr option \<Rightarrow> ('s, ustr) prog"
  wk_own_ids :: "ustr \<Rightarrow> nat \<Rightarrow> ('s, ustr list) prog"
  wk_resolve :: "(ustr \<Rightarrow> ('s, resolved_profile) prog) option"
  wk_willing :: "(willing_subject \<Rightarrow> willingness_policy \<Rightarrow> ('s, willing_score) prog) option"
  wk_events :: "(envelope \<Rightarrow> turn_decision \<Rightarrow> ('s, unit) prog) option"
  wk_guards :: "(inbound_event \<Rightarrow> turn_decision \<Rightarrow> ustr \<Rightarrow> ustr \<Rightarrow> ('s, guard_verdict) prog) option"
  wk_annotate :: "(ustr \<Rightarrow> ustr \<Rightarrow> bool \<Rightarrow> ('s, annotation_match option) prog) option"
  wk_turn :: "call_context \<Rightarrow> turn_request \<Rightarrow> ('s, reply_plan) prog"
  wk_after :: "call_context \<Rightarrow> envelope \<Rightarrow> ustr \<Rightarrow> ustr \<Rightarrow> agent_runtime option \<Rightarrow> ('s, unit) prog"
  wk_forget :: "(ustr \<Rightarrow> ustr option \<Rightarrow> ('s, int) prog) option"
  wk_ready :: "('s, readiness) prog"
  wk_shadow :: "(shadow_report \<Rightarrow> ('s, unit) prog) option"
  wk_publish :: "outbound_message \<Rightarrow> ('s, unit) prog"
  wk_trace :: "(trace_entry \<Rightarrow> ('s, unit) prog) option"
  wk_attempt :: "'s \<Rightarrow> int"
  wk_new_id :: "('s, ustr) prog"
  wk_clock :: "'s \<Rightarrow> real"

text \<open>The configuration, and the parts of the Python library the worker relies on: lower-casing,
  JSON, \<open>UUID(text)\<close> and the format \<open>.4f\<close>.\<close>

record worker_config =
  wg_capabilities :: "platform \<Rightarrow> capabilities option"
  wg_notice :: ustr
  wg_lower :: "ustr \<Rightarrow> ustr"
  wg_loads :: "ustr \<Rightarrow> json option"
  wg_uuid :: "ustr \<Rightarrow> ustr option"
  wg_fixed4 :: "real \<Rightarrow> ustr"

definition moderation_notice :: ustr where
  "moderation_notice = [22238, 22797, 35302, 21457, 20102, 20869, 23481, 31574, 30053, 44, 32, 24050, 20572, 27490, 21457, 36865, 12290]"

definition no_capabilities :: capabilities where
  "no_capabilities = \<lparr>cap_editing = False, cap_replies = False, cap_typing = False, cap_proactive_messages = False,
     cap_combined_media_text = False, cap_threads = False, cap_reactions = False, cap_images = False,
     cap_mentions = False, cap_stickers = False, cap_voice_messages = False\<rparr>"

definition sandbox_capabilities :: capabilities where
  "sandbox_capabilities = \<lparr>cap_editing = False, cap_replies = True, cap_typing = False, cap_proactive_messages = False,
     cap_combined_media_text = True, cap_threads = False, cap_reactions = False, cap_images = True,
     cap_mentions = True, cap_stickers = True, cap_voice_messages = False\<rparr>"

fun default_capabilities :: "platform \<Rightarrow> capabilities option" where
  "default_capabilities QQ = Some qq_capabilities"
| "default_capabilities TELEGRAM = Some telegram_capabilities"
| "default_capabilities SANDBOX = Some sandbox_capabilities"

definition worker_trace ::
  "('s, 'z) worker_scheme \<Rightarrow> envelope \<Rightarrow> ustr \<Rightarrow> ustr \<Rightarrow> ustr \<Rightarrow> int \<Rightarrow> ustr option \<Rightarrow> (ustr, json) dict \<Rightarrow> ('s, unit) prog" where
  "worker_trace w e cid stage status dur mid attrs = (case wk_trace w of
       None \<Rightarrow> retp ()
     | Some put \<Rightarrow> catchp (put \<lparr>sp_trace_id = env_trace_id e, sp_stage = stage, sp_status = status, sp_duration_ms = dur,
           sp_conversation = Some cid, sp_message = mid, sp_attributes = attrs\<rparr>) (\<lambda>_. retp ()))"

definition worker_timed ::
  "('s, 'z) worker_scheme \<Rightarrow> envelope \<Rightarrow> ustr \<Rightarrow> ustr \<Rightarrow> ustr \<Rightarrow> real \<Rightarrow> ustr option \<Rightarrow> (ustr, json) dict \<Rightarrow> ('s, unit) prog" where
  "worker_timed w e cid stage status started mid attrs =
     bindp (getp (wk_clock w)) (\<lambda>now. worker_trace w e cid stage status (elapsed_ms started now) mid attrs)"

section \<open>Admission\<close>

definition publish_access_reply :: "('s, 'z) worker_scheme \<Rightarrow> envelope \<Rightarrow> ustr \<Rightarrow> ('s, unit) prog" where
  "publish_access_reply w e text =
     bindp (wk_new_id w) (\<lambda>mid.
     bindp (of_result (mk_reply_plan [text] [] [] None (typing_default False))) (\<lambda>plan.
     bindp (of_result (mk_outbound mid e plan (Some (platform_message_id e)))) (wk_publish w)))"

definition moderation_context :: "envelope \<Rightarrow> audit_context" where
  "moderation_context e = \<lparr>ax_stable_key = Some (stable_key (conversation_of e)), ax_message_id = None,
     ax_trace_id = Some (env_trace_id e)\<rparr>"

definition inbound_request :: "envelope \<Rightarrow> moderation_request" where
  "inbound_request e = \<lparr>mr_point = INBOUND, mr_params = [(lit ''text'', FStr (envelope_text e)),
     (lit ''sender_identity_id'', FStr (env_sender_identity_id e)), (lit ''platform'', FStr (platform_value (env_platform e)))]\<rparr>"

definition moderate_inbound :: "('s, 'z) worker_scheme \<Rightarrow> envelope \<Rightarrow> ('s, moderation_decision option) prog" where
  "moderate_inbound w e = (case wk_moderate w of
       None \<Rightarrow> retp None
     | Some review \<Rightarrow> bindp (catchp (bindp (review (moderation_context e) (inbound_request e)) (\<lambda>d. retp (Some d))) (\<lambda>_. retp None))
         (\<lambda>r. retp (case r of None \<Rightarrow> None | Some d \<Rightarrow> if md_flagged d then Some d else None)))"

definition is_text :: "segment \<Rightarrow> bool" where
  "is_text s = (case s of TextSegment t \<Rightarrow> True | _ \<Rightarrow> False)"

definition override_envelope_text :: "envelope \<Rightarrow> ustr \<Rightarrow> exn + envelope" where
  "override_envelope_text e text =
     (if strip text = [] then Inl validation_error
      else Inr (e\<lparr>env_segments := TextSegment (strip text) # filter (\<lambda>s. \<not> is_text s) (env_segments e)\<rparr>))"

definition replacement_text :: "worker_config \<Rightarrow> moderation_decision \<Rightarrow> ustr" where
  "replacement_text cfg d = (if md_preset d \<noteq> [] then md_preset d else wg_notice cfg)"

definition worker_access :: "('s, 'z) worker_scheme \<Rightarrow> envelope \<Rightarrow> ('s, bool) prog" where
  "worker_access w e = (case wk_access w of
       None \<Rightarrow> retp True
     | Some check \<Rightarrow> bindp (check e) (\<lambda>a.
         if pd_allowed a then retp True
         else bindp (case pd_reply_text a of
                 Some t \<Rightarrow> if t \<noteq> [] then publish_access_reply w e t else retp ()
               | None \<Rightarrow> retp ()) (\<lambda>_. retp False)))"

definition worker_screen :: "('s, 'z) worker_scheme \<Rightarrow> worker_config \<Rightarrow> inbound_event \<Rightarrow> ('s, inbound_event option) prog" where
  "worker_screen w cfg ev = bindp (moderate_inbound w (ie_envelope ev)) (\<lambda>flagged. case flagged of
       None \<Rightarrow> retp (Some ev)
     | Some d \<Rightarrow>
         if md_action d = DIRECT_OUTPUT
         then bindp (publish_access_reply w (ie_envelope ev) (replacement_text cfg d)) (\<lambda>_. retp None)
         else bindp (of_result (override_envelope_text (ie_envelope ev) (replacement_text cfg d)))
                (\<lambda>e. retp (Some (ev\<lparr>ie_envelope := e\<rparr>))))"

definition worker_admit :: "('s, 'z) worker_scheme \<Rightarrow> worker_config \<Rightarrow> inbound_event \<Rightarrow> ('s, inbound_event option) prog" where
  "worker_admit w cfg ev = bindp (worker_access w (ie_envelope ev)) (\<lambda>allowed.
     if \<not> allowed then retp None else worker_screen w cfg ev)"

section \<open>Persisting and deciding\<close>

definition worker_persist :: "('s, 'z) worker_scheme \<Rightarrow> envelope \<Rightarrow> ('s, (ustr \<times> ustr) option) prog" where
  "worker_persist w e =
     bindp (wk_converse w (conversation_of e) (env_platform e) (env_ephemeral e)) (\<lambda>(cid, skey).
     bindp (wk_receive w cid e) (\<lambda>(mid, duplicate).
     bindp (getp (wk_attempt w)) (\<lambda>attempt.
       if duplicate \<and> attempt \<le> 1 then retp None
       else bindp (worker_trace w e cid (lit ''ingest.persist'') (lit ''ok'') 0 (Some mid)
              [(lit ''platform'', JStr (platform_value (env_platform e))), (lit ''ephemeral'', JBool (env_ephemeral e)),
               (lit ''segments'', JInt (int (length (env_segments e))))]) (\<lambda>_. retp (Some (cid, mid))))))"

definition resolve_profile :: "('s, 'z) worker_scheme \<Rightarrow> ustr \<Rightarrow> ('s, resolved_profile option) prog" where
  "resolve_profile w cid = (case wk_resolve w of
       None \<Rightarrow> retp None
     | Some resolve \<Rightarrow> catchp (bindp (resolve cid) (\<lambda>p. retp (Some p))) (\<lambda>_. retp None))"

definition runtime_of :: "resolved_profile \<Rightarrow> agent_runtime" where
  "runtime_of p = (let mem = ap_memory (rs_profile p) in
     \<lparr>ar_system_prompt = Some (pv_system_prompt (rs_persona p)),
      ar_granted_capabilities = Some (ap_tool_capabilities (rs_profile p)), ar_memory_enabled = my_enabled mem,
      ar_memory_retrieval_limit = Some (my_retrieval_limit mem), ar_expression_examples = my_expression_examples mem,
      ar_relationship_enabled = my_relationship_enabled mem\<rparr>)"

definition mk_turn_decision :: "turn_action \<Rightarrow> ustr \<Rightarrow> real \<Rightarrow> turn_trigger \<Rightarrow> exn + turn_decision" where
  "mk_turn_decision action reason confidence trigger =
     (if strip reason \<noteq> [] \<and> unit_real confidence
      then Inr \<lparr>td_action = action, td_reason = strip reason, td_confidence = confidence, td_trigger = trigger\<rparr>
      else Inl validation_error)"

definition willing_turn :: "worker_config \<Rightarrow> willing_score \<Rightarrow> exn + turn_decision" where
  "willing_turn cfg s =
     (if \<not> ws_allowed s
      then mk_turn_decision IGNORE (lit ''willingness blocked: '' @ wg_fixed4 cfg (ws_score s) @ lit '' < ''
             @ wg_fixed4 cfg (ws_threshold s)) (1 - ws_score s) POLICY
      else mk_turn_decision AGENT (lit ''willingness allowed: '' @ ws_reason s @ lit '' ('' @ wg_fixed4 cfg (ws_score s)
             @ lit '')'') (ws_score s) POLICY)"

definition apply_willingness ::
  "('s, 'z) worker_scheme \<Rightarrow> worker_config \<Rightarrow> envelope \<Rightarrow> ustr \<Rightarrow> ustr \<Rightarrow> turn_decision \<Rightarrow> resolved_profile option
     \<Rightarrow> ('s, turn_decision) prog" where
  "apply_willingness w cfg e cid mid d profile = (case (profile, wk_willing w) of
       (Some p, Some evaluate) \<Rightarrow>
         if td_action d \<noteq> IGNORE \<or> env_chat_kind e = DIRECT \<or> env_ephemeral e \<or>
            \<not> wp_enabled (ap_willingness (rs_profile p)) then retp d
         else bindp (catchp (bindp (evaluate \<lparr>wj_envelope = e, wj_conversation = cid, wj_message = Some mid,
                  wj_profile = Some (ap_id (rs_profile p)), wj_persona = pv_system_prompt (rs_persona p)\<rparr>
                  (ap_willingness (rs_profile p))) (\<lambda>s. retp (Some s))) (\<lambda>_. retp None))
                (\<lambda>score. case score of None \<Rightarrow> retp d | Some s \<Rightarrow> of_result (willing_turn cfg s))
     | _ \<Rightarrow> retp d)"

definition worker_event :: "('s, 'z) worker_scheme \<Rightarrow> envelope \<Rightarrow> turn_decision \<Rightarrow> ('s, unit) prog" where
  "worker_event w e d = (case wk_events w of None \<Rightarrow> retp () | Some post \<Rightarrow> catchp (post e d) (\<lambda>_. retp ()))"

fun action_value :: "turn_action \<Rightarrow> ustr" where
  "action_value IGNORE = lit ''IGNORE''"
| "action_value DIRECT_REPLY = lit ''DIRECT_REPLY''"
| "action_value AGENT = lit ''AGENT''"

fun trigger_value :: "turn_trigger \<Rightarrow> ustr" where
  "trigger_value DIRECT_MESSAGE = lit ''DIRECT_MESSAGE''"
| "trigger_value MENTION = lit ''MENTION''"
| "trigger_value REPLY = lit ''REPLY''"
| "trigger_value COMMAND = lit ''COMMAND''"
| "trigger_value PROACTIVE = lit ''PROACTIVE''"
| "trigger_value POLICY = lit ''POLICY''"

definition worker_decide ::
  "('s, 'z) worker_scheme \<Rightarrow> worker_config \<Rightarrow> inbound_event \<Rightarrow> ustr \<Rightarrow> ustr \<Rightarrow> ('s, turn_decision \<times> resolved_profile option) prog" where
  "worker_decide w cfg ev cid mid = (let e = ie_envelope ev in
     bindp (wk_own_ids w cid 50) (\<lambda>own_ids.
     bindp (resolve_profile w cid) (\<lambda>profile.
     bindp (apply_willingness w cfg e cid mid
        (decide_turn (wg_lower cfg) e (ie_mentions_self ev) (ie_replies_to_self ev) own_ids) profile) (\<lambda>d.
     bindp (worker_trace w e cid (lit ''turn.decision'') (lit ''ok'') 0 None
        [(lit ''action'', JStr (action_value (td_action d))), (lit ''trigger'', JStr (trigger_value (td_trigger d))),
         (lit ''reason'', JStr (td_reason d))]) (\<lambda>_.
     bindp (worker_event w e d) (\<lambda>_. retp (d, profile)))))))"

definition guard_refusal ::
  "('s, 'z) worker_scheme \<Rightarrow> inbound_event \<Rightarrow> turn_decision \<Rightarrow> ustr \<Rightarrow> ('s, ustr option) prog" where
  "guard_refusal w ev d cid = (case wk_guards w of
       None \<Rightarrow> retp None
     | Some check \<Rightarrow> catchp (bindp (check ev d cid (stable_key (conversation_of (ie_envelope ev)))) (\<lambda>v.
         retp (case gv_kind v of V_allow \<Rightarrow> None | V_ignore \<Rightarrow> Some [] | V_refuse \<Rightarrow> Some (gv_refusal_text v)))) (\<lambda>_. retp None))"

section \<open>The plan\<close>

text \<open>\<open>set_model_conversation\<close> and \<open>set_model_profile\<close> around a call, as the context of the call.\<close>

definition model_context :: "ustr \<Rightarrow> resolved_profile option \<Rightarrow> call_context" where
  "model_context cid profile = (case profile of
       None \<Rightarrow> \<lparr>cx_conversation = Some cid, cx_tier = lit ''default'', cx_profile = None, cx_persona = None\<rparr>
     | Some p \<Rightarrow> \<lparr>cx_conversation = Some cid, cx_tier = ap_model_tier (rs_profile p), cx_profile = Some (ap_id (rs_profile p)),
         cx_persona = Some (pv_id (rs_persona p))\<rparr>)"

definition match_annotation ::
  "('s, 'z) worker_scheme \<Rightarrow> envelope \<Rightarrow> ustr \<Rightarrow> ('s, annotation_match option) prog" where
  "match_annotation w e cid = (case wk_annotate w of
       None \<Rightarrow> retp None
     | Some lookup \<Rightarrow> if envelope_text e \<noteq> [] then lookup (envelope_text e) cid (\<not> env_ephemeral e) else retp None)"

definition agent_plan ::
  "('s, 'z) worker_scheme \<Rightarrow> worker_config \<Rightarrow> envelope \<Rightarrow> turn_decision \<Rightarrow> ustr \<Rightarrow> ustr \<Rightarrow> resolved_profile option \<Rightarrow>
   capabilities \<Rightarrow> ('s, reply_plan \<times> bool) prog" where
  "agent_plan w cfg e d cid mid profile caps = bindp (match_annotation w e cid) (\<lambda>matched. case matched of
       Some a \<Rightarrow>
         bindp (of_result (shape_reply (wg_loads cfg) (am_answer a) caps [] empty_reply_fallback)) (\<lambda>plan.
         bindp (worker_trace w e cid (lit ''annotation.match'') (lit ''ok'') 0 None
            [(lit ''annotation_id'', JStr (am_annotation_id a)), (lit ''score'', JFloat (am_score a)),
             (lit ''threshold'', JFloat (am_threshold a))]) (\<lambda>_. retp (plan, True)))
     | None \<Rightarrow>
         bindp (worker_trace w e cid (lit ''annotation.match'') (lit ''skipped'') 0 None
            [(lit ''reason'', JStr (lit ''no_high_confidence_match''))]) (\<lambda>_.
         bindp (wk_turn w (model_context cid profile)
            \<lparr>tq_conversation = cid, tq_stable_key = stable_key (conversation_of e), tq_envelope = e, tq_decision = d,
             tq_inbound_message = Some mid, tq_capabilities = caps, tq_runtime = map_option runtime_of profile\<rparr>)
           (\<lambda>plan. retp (plan, False))))"

definition handle_forget :: "('s, 'z) worker_scheme \<Rightarrow> envelope \<Rightarrow> capabilities \<Rightarrow> ('s, reply_plan) prog" where
  "handle_forget w e caps = (case wk_forget w of
       None \<Rightarrow> of_result (forget_reply None caps)
     | Some forget \<Rightarrow> bindp (forget (env_sender_identity_id e)
         (if env_chat_kind e = DIRECT then Some (stable_key (conversation_of e)) else None))
         (\<lambda>revoked. of_result (forget_reply (Some revoked) caps)))"

definition readiness_report :: "('s, 'z) worker_scheme \<Rightarrow> ('s, readiness option) prog" where
  "readiness_report w = catchp (bindp (wk_ready w) (\<lambda>r. retp (Some r))) (\<lambda>_. retp None)"

definition command_plan :: "('s, 'z) worker_scheme \<Rightarrow> worker_config \<Rightarrow> envelope \<Rightarrow> capabilities \<Rightarrow> ('s, reply_plan) prog" where
  "command_plan w cfg e caps = (let command = extract_command (wg_lower cfg) e in
     if command = Some (lit ''forget'') then handle_forget w e caps
     else bindp (if command = Some (lit ''status'') then readiness_report w else retp None)
            (\<lambda>rd. of_result (build_direct_reply e command rd caps)))"

definition worker_plan ::
  "('s, 'z) worker_scheme \<Rightarrow> worker_config \<Rightarrow> envelope \<Rightarrow> turn_decision \<Rightarrow> ustr \<Rightarrow> ustr \<Rightarrow> resolved_profile option \<Rightarrow>
   capabilities \<Rightarrow> ustr option \<Rightarrow> ('s, reply_plan \<times> bool) prog" where
  "worker_plan w cfg e d cid mid profile caps refusal = (case refusal of
       Some t \<Rightarrow> bindp (of_result (mk_reply_plan [t] [] [] None (typing_default (cap_typing caps)))) (\<lambda>plan. retp (plan, False))
     | None \<Rightarrow> if td_action d = AGENT then agent_plan w cfg e d cid mid profile caps
         else bindp (command_plan w cfg e caps) (\<lambda>plan. retp (plan, False)))"

section \<open>Moderation, recording and publishing\<close>

definition plan_text :: "reply_plan \<Rightarrow> ustr" where
  "plan_text plan = py_join blank_line (rp_text_segments plan)"

fun moderation_action_value :: "moderation_action \<Rightarrow> ustr" where
  "moderation_action_value DIRECT_OUTPUT = lit ''direct_output''"
| "moderation_action_value OVERRIDDEN = lit ''overridden''"

definition outbound_request :: "reply_plan \<Rightarrow> moderation_request" where
  "outbound_request plan = \<lparr>mr_point = OUTBOUND, mr_params = [(lit ''text'', FStr (plan_text plan))]\<rparr>"

definition worker_moderated ::
  "('s, 'z) worker_scheme \<Rightarrow> worker_config \<Rightarrow> envelope \<Rightarrow> ustr \<Rightarrow> capabilities \<Rightarrow> reply_plan \<Rightarrow> ('s, reply_plan) prog" where
  "worker_moderated w cfg e cid caps plan = (let report = worker_timed w e cid (lit ''moderation.outbound'') in
     case wk_moderate w of
       None \<Rightarrow> bindp (worker_trace w e cid (lit ''moderation.outbound'') (lit ''skipped'') 0 None
                  [(lit ''reason'', JStr (lit ''disabled''))]) (\<lambda>_. retp plan)
     | Some review \<Rightarrow> bindp (getp (wk_clock w)) (\<lambda>started.
         bindp (catchp (bindp (review (moderation_context e) (outbound_request plan)) (\<lambda>d. retp (Some d)))
            (\<lambda>_. bindp (report (lit ''error'') started None [(lit ''error_code'', JStr (lit ''moderation_hook_failed''))])
                   (\<lambda>_. retp None))) (\<lambda>r. case r of
           None \<Rightarrow> retp plan
         | Some d \<Rightarrow>
             if \<not> md_flagged d
             then bindp (report (lit ''ok'') started None [(lit ''approved'', JBool True), (lit ''backend'', JStr (md_backend d))])
                    (\<lambda>_. retp plan)
             else bindp (report (lit ''error'') started None [(lit ''approved'', JBool False), (lit ''backend'', JStr (md_backend d)),
                      (lit ''action'', JStr (moderation_action_value (md_action d)))])
                    (\<lambda>_. of_result (mk_reply_plan [replacement_text cfg d] [] [] None (typing_default (cap_typing caps)))))))"

definition evaluation_result_id :: "worker_config \<Rightarrow> envelope \<Rightarrow> ustr option" where
  "evaluation_result_id cfg e = (case env_raw_ref e of
       Some (FObj d) \<Rightarrow> (case map_of d (lit ''evaluation_result_id'') of Some (FStr t) \<Rightarrow> wg_uuid cfg t | _ \<Rightarrow> None)
     | _ \<Rightarrow> None)"

definition after_hook ::
  "('s, 'z) worker_scheme \<Rightarrow> envelope \<Rightarrow> ustr \<Rightarrow> resolved_profile option \<Rightarrow> reply_plan \<Rightarrow> ('s, unit) prog" where
  "after_hook w e cid profile plan =
     catchp (wk_after w (model_context cid profile) e (stable_key (conversation_of e)) (plan_text plan)
        (map_option runtime_of profile)) (\<lambda>_. retp ())"

definition worker_publish ::
  "('s, 'z) worker_scheme \<Rightarrow> envelope \<Rightarrow> ustr \<Rightarrow> capabilities \<Rightarrow> reply_plan \<Rightarrow> ('s, unit) prog" where
  "worker_publish w e cid caps plan =
     bindp (wk_answer w cid plan (Some (env_trace_id e))) (\<lambda>oid.
     bindp (of_result (mk_outbound oid e plan (if cap_replies caps then Some (platform_message_id e) else None))) (\<lambda>m.
     bindp (getp (wk_clock w)) (\<lambda>started.
     bindp (wk_publish w m) (\<lambda>_.
       worker_timed w e cid (lit ''outbound.publish'') (lit ''ok'') started (Some oid)
         [(lit ''text_segments'', JInt (int (length (rp_text_segments plan)))),
          (lit ''media_segments'', JInt (int (length (rp_media_segments plan))))]))))"

definition worker_deliver ::
  "('s, 'z) worker_scheme \<Rightarrow> worker_config \<Rightarrow> envelope \<Rightarrow> ustr \<Rightarrow> ustr \<Rightarrow> resolved_profile option \<Rightarrow> capabilities \<Rightarrow> bool
     \<Rightarrow> reply_plan \<Rightarrow> ('s, unit) prog" where
  "worker_deliver w cfg e cid mid profile caps hook plan0 =
     bindp (worker_moderated w cfg e cid caps plan0) (\<lambda>plan.
     case (evaluation_result_id cfg e, wk_shadow w) of
       (Some rid, Some finish) \<Rightarrow>
         bindp (finish \<lparr>sh_result_id = rid, sh_conversation = cid, sh_inbound_message = mid,
            sh_response = plan_text plan, sh_citations = map cit_uri (rp_citations plan)\<rparr>) (\<lambda>_.
         worker_trace w e cid (lit ''evaluation.shadow'') (lit ''ok'') 0 (Some mid) [(lit ''result_id'', JStr rid)])
     | _ \<Rightarrow> bindp (worker_publish w e cid caps plan) (\<lambda>_. if hook then after_hook w e cid profile plan else retp ()))"

section \<open>The handler\<close>

definition worker_capabilities :: "worker_config \<Rightarrow> envelope \<Rightarrow> capabilities" where
  "worker_capabilities cfg e = (case wg_capabilities cfg (env_platform e) of None \<Rightarrow> no_capabilities | Some c \<Rightarrow> c)"

definition worker_turn ::
  "('s, 'z) worker_scheme \<Rightarrow> worker_config \<Rightarrow> inbound_event \<Rightarrow> ustr \<Rightarrow> ustr \<Rightarrow> ('s, unit) prog" where
  "worker_turn w cfg ev cid mid = (let e = ie_envelope ev; caps = worker_capabilities cfg e in
     bindp (worker_decide w cfg ev cid mid) (\<lambda>(d, profile).
       if td_action d = IGNORE then retp ()
       else bindp (guard_refusal w ev d cid) (\<lambda>refusal.
         if refusal = Some [] then retp ()
         else bindp (worker_plan w cfg e d cid mid profile caps refusal) (\<lambda>(plan, hit).
           worker_deliver w cfg e cid mid profile caps (td_action d = AGENT \<and> refusal = None \<and> \<not> hit) plan))))"

definition handle_serialized :: "('s, 'z) worker_scheme \<Rightarrow> worker_config \<Rightarrow> inbound_event \<Rightarrow> ('s, unit) prog" where
  "handle_serialized w cfg ev = bindp (worker_admit w cfg ev) (\<lambda>admitted. case admitted of
       None \<Rightarrow> retp ()
     | Some ev' \<Rightarrow> bindp (worker_persist w (ie_envelope ev')) (\<lambda>stored. case stored of
           None \<Rightarrow> retp ()
         | Some (cid, mid) \<Rightarrow> worker_turn w cfg ev' cid mid))"

text \<open>\<open>handle_payload\<close>: the handler runs under the lease of its conversation. The decoder
  (\<open>InboundEvent.model_validate_json\<close>) is a parameter.\<close>

definition handle_payload ::
  "('s, 'z) worker_scheme \<Rightarrow> worker_config \<Rightarrow> (ustr \<Rightarrow> exn + inbound_event) \<Rightarrow> 's lease_ops \<Rightarrow> (ustr \<Rightarrow> ustr) \<Rightarrow> int \<Rightarrow> real
     \<Rightarrow> ustr \<Rightarrow> nat \<Rightarrow> ustr \<Rightarrow> 's \<Rightarrow> ((exn + unit) \<times> 's) option" where
  "handle_payload w cfg decode ops key_of ttl wait token fuel payload s = (case decode payload of
       Inl x \<Rightarrow> Some (Inl x, s)
     | Inr ev \<Rightarrow> lease_run ops key_of ttl wait token (stable_key (conversation_of (ie_envelope ev)))
         (handle_serialized w cfg ev) fuel s)"

definition envelope_dedupe_key :: "(ustr \<Rightarrow> exn + inbound_event) \<Rightarrow> ustr \<Rightarrow> exn + ustr" where
  "envelope_dedupe_key decode payload = bindr (decode payload) (\<lambda>ev. Inr (env_id (ie_envelope ev)))"

section \<open>The contract of the services\<close>

text \<open>
  What a service may do to the outbound stream: nothing. \<open>recorded\<close> and \<open>conversing\<close> are what
  the message tables hold: an outbound row of a plan in a conversation, and the conversation
  of a stable key.
\<close>

definition holds_on :: "('s \<Rightarrow> ustr \<Rightarrow> ustr \<Rightarrow> reply_plan \<Rightarrow> bool) \<Rightarrow> ('s \<Rightarrow> ustr \<Rightarrow> ustr \<Rightarrow> bool) \<Rightarrow> 's \<Rightarrow> 's \<Rightarrow> bool" where
  "holds_on recorded conversing s s' \<longleftrightarrow> (\<forall>i c p. recorded s i c p \<longrightarrow> recorded s' i c p) \<and>
     (\<forall>k c. conversing s k c \<longrightarrow> conversing s' k c)"

definition unsent ::
  "('s \<Rightarrow> outbound_message list) \<Rightarrow> ('s \<Rightarrow> ustr \<Rightarrow> ustr \<Rightarrow> reply_plan \<Rightarrow> bool) \<Rightarrow> ('s \<Rightarrow> ustr \<Rightarrow> ustr \<Rightarrow> bool) \<Rightarrow> 's \<Rightarrow> 's \<Rightarrow> bool" where
  "unsent outbox recorded conversing s s' \<longleftrightarrow> outbox s' = outbox s \<and> holds_on recorded conversing s s'"

lemma holds_on_refl [simp]: "holds_on recorded conversing s s"
  by (simp add: holds_on_def)

lemma holds_on_trans: "holds_on rec conv s s' \<Longrightarrow> holds_on rec conv s' s'' \<Longrightarrow> holds_on rec conv s s''"
  by (auto simp: holds_on_def)

lemma unsent_refl [simp]: "reflp (unsent outbox recorded conversing)"
  by (simp add: reflp_def unsent_def)

lemma unsent_trans [simp]: "transp (unsent outbox recorded conversing)"
  by (auto simp: transp_def unsent_def intro: holds_on_trans)

text \<open>\<open>sends pre P m\<close>: from a state with \<open>pre\<close>, \<open>m\<close> publishes nothing, or one message with \<open>P\<close>.\<close>

definition sends ::
  "('s \<Rightarrow> outbound_message list) \<Rightarrow> ('s \<Rightarrow> 's \<Rightarrow> bool) \<Rightarrow> ('s \<Rightarrow> bool) \<Rightarrow> ('s \<Rightarrow> outbound_message \<Rightarrow> bool) \<Rightarrow> ('s, 'a) prog \<Rightarrow> bool" where
  "sends outbox keeps pre P m \<longleftrightarrow> (\<forall>s r s'. pre s \<longrightarrow> m s = (r, s') \<longrightarrow>
     keeps s s' \<and> (outbox s' = outbox s \<or> (\<exists>x. outbox s' = outbox s @ [x] \<and> P s' x)))"

lemma sendsD: "sends outbox keeps pre P m \<Longrightarrow> pre s \<Longrightarrow> m s = (r, s') \<Longrightarrow>
     keeps s s' \<and> (outbox s' = outbox s \<or> (\<exists>x. outbox s' = outbox s @ [x] \<and> P s' x))"
  by (simp add: sends_def)

lemma sends_silent: "moves (unsent outbox rec conv) m \<Longrightarrow> sends outbox (holds_on rec conv) pre P m"
  unfolding sends_def using movesD [of "unsent outbox rec conv" m] by (fastforce simp: unsent_def)

lemma sends_bind:
  assumes "moves (unsent outbox rec conv) m" and "\<And>s x s'. pre s \<Longrightarrow> m s = (Inr x, s') \<Longrightarrow> post x s'"
    and "\<And>x. sends outbox (holds_on rec conv) (post x) P (f x)"
  shows "sends outbox (holds_on rec conv) pre P (bindp m f)"
  unfolding sends_def
proof (intro allI impI)
  fix s r s'
  assume pre: "pre s" and run: "bindp m f s = (r, s')"
  from run show "holds_on rec conv s s' \<and> (outbox s' = outbox s \<or> (\<exists>x. outbox s' = outbox s @ [x] \<and> P s' x))"
  proof (cases rule: bindp_cases)
    case (raises e)
    then show ?thesis using movesD [OF assms(1)] by (auto simp: unsent_def)
  next
    case (returned x s1)
    have "unsent outbox rec conv s s1" using movesD [OF assms(1) returned(1)] .
    moreover have "holds_on rec conv s1 s' \<and> (outbox s' = outbox s1 \<or> (\<exists>x. outbox s' = outbox s1 @ [x] \<and> P s' x))"
      using sendsD [OF assms(3) assms(2) [OF pre returned(1)] returned(2)] .
    ultimately show ?thesis unfolding unsent_def using holds_on_trans [of rec conv s s1 s'] by auto
  qed
qed

lemma sends_after:
  assumes "moves (unsent outbox rec conv) m" and "\<And>s s'. pre s \<Longrightarrow> unsent outbox rec conv s s' \<Longrightarrow> pre s'"
    and "\<And>x. sends outbox (holds_on rec conv) pre P (f x)"
  shows "sends outbox (holds_on rec conv) pre P (bindp m f)"
proof (rule sends_bind [OF assms(1), where post = "\<lambda>_. pre"])
  show "pre s'" if "pre s" "m s = (Inr x, s')" for s x s'
    by (rule assms(2) [OF that(1) movesD [OF assms(1) that(2)]])
qed (rule assms(3))

lemma sends_if: "(b \<Longrightarrow> sends outbox K pre P m) \<Longrightarrow> (\<not> b \<Longrightarrow> sends outbox K pre P n) \<Longrightarrow> sends outbox K pre P (if b then m else n)"
  by simp

lemma sends_retp: "sends outbox (holds_on rec conv) pre P (retp x)"
  by (simp add: sends_silent moves_retp)

lemma sends_then:
  assumes "sends outbox (holds_on rec conv) pre P m" and "\<And>x. moves (unsent outbox rec conv) (f x)"
    and "\<And>s s' x. P s x \<Longrightarrow> holds_on rec conv s s' \<Longrightarrow> P s' x"
  shows "sends outbox (holds_on rec conv) pre P (bindp m f)"
  unfolding sends_def
proof (intro allI impI)
  fix s r s'
  assume pre: "pre s" and run: "bindp m f s = (r, s')"
  from run show "holds_on rec conv s s' \<and> (outbox s' = outbox s \<or> (\<exists>x. outbox s' = outbox s @ [x] \<and> P s' x))"
  proof (cases rule: bindp_cases)
    case (raises e)
    then show ?thesis using sendsD [OF assms(1) pre] by auto
  next
    case (returned x s1)
    have a: "holds_on rec conv s s1 \<and> (outbox s1 = outbox s \<or> (\<exists>x. outbox s1 = outbox s @ [x] \<and> P s1 x))"
      using sendsD [OF assms(1) pre returned(1)] .
    have b: "outbox s' = outbox s1" "holds_on rec conv s1 s'"
      using movesD [OF assms(2) returned(2)] by (auto simp: unsent_def)
    from a b show ?thesis using assms(3) [OF _ b(2)] holds_on_trans [of rec conv s s1 s'] by auto
  qed
qed

lemma moves_of_result [moves_intro]: "reflp R \<Longrightarrow> moves R (of_result r)"
  by (simp add: of_result_def moves_retp moves_raisep split: sum.split)

text \<open>
  The two notices of the worker itself: what the access check tells a sender it keeps out, and
  what the inbound moderation puts in the place of a flagged message. \<open>notice_text\<close> asks the
  services of the worker, in the states in which the handler asks them: with a notice the
  handler goes no further, without one it answers with a reply or not at all.
\<close>

definition inbound_notice :: "('s, 'z) worker_scheme \<Rightarrow> worker_config \<Rightarrow> envelope \<Rightarrow> 's \<Rightarrow> ustr option" where
  "inbound_notice w cfg e s = (case fst (moderate_inbound w e s) of
       Inr (Some d) \<Rightarrow> if md_action d = DIRECT_OUTPUT then Some (replacement_text cfg d) else None
     | _ \<Rightarrow> None)"

definition notice_text :: "('s, 'z) worker_scheme \<Rightarrow> worker_config \<Rightarrow> envelope \<Rightarrow> 's \<Rightarrow> ustr option" where
  "notice_text w cfg e s = (case wk_access w of
       None \<Rightarrow> inbound_notice w cfg e s
     | Some check \<Rightarrow> (case check e s of
           (Inl x, s1) \<Rightarrow> None
         | (Inr a, s1) \<Rightarrow>
             if pd_allowed a then inbound_notice w cfg e s1
             else (case pd_reply_text a of Some t \<Rightarrow> if t \<noteq> [] then Some t else None | None \<Rightarrow> None)))"

definition notice_plan :: "ustr option \<Rightarrow> reply_plan \<Rightarrow> bool" where
  "notice_plan note plan \<longleftrightarrow>
     (\<exists>t. note = Some t \<and> mk_reply_plan [t] [] [] None (typing_default False) = Inr plan)"

definition addressed_to :: "envelope \<Rightarrow> outbound_message \<Rightarrow> bool" where
  "addressed_to e m \<longleftrightarrow> om_platform m = env_platform e \<and> om_connection_id m = strip (env_connection_id e) \<and>
     om_chat_kind m = env_chat_kind e \<and> om_chat_id m = strip (env_chat_id e) \<and> om_trace_id m = strip (env_trace_id e)"

text \<open>
  The verdict of the outbound moderation on a drafted reply, in the state in which it is
  asked: the decision that flags it, or none (no moderation, a hook that fails, or approval);
  and the plan that goes out under it.
\<close>

definition outbound_verdict :: "('s, 'z) worker_scheme \<Rightarrow> envelope \<Rightarrow> reply_plan \<Rightarrow> 's \<Rightarrow> moderation_decision option" where
  "outbound_verdict w e plan s = (case wk_moderate w of
       None \<Rightarrow> None
     | Some review \<Rightarrow> (case fst (review (moderation_context e) (outbound_request plan) s) of
           Inr d \<Rightarrow> if md_flagged d then Some d else None
         | Inl x \<Rightarrow> None))"

definition under_verdict :: "worker_config \<Rightarrow> capabilities \<Rightarrow> moderation_decision option \<Rightarrow> reply_plan \<Rightarrow> reply_plan \<Rightarrow> bool" where
  "under_verdict cfg caps verdict drafted plan = (case verdict of
       None \<Rightarrow> plan = drafted
     | Some d \<Rightarrow> mk_reply_plan [replacement_text cfg d] [] [] None (typing_default (cap_typing caps)) = Inr plan)"

text \<open>
  The handler up to the moderation of its reply: the reply it has drafted, if it comes so far,
  with what the delivery needs (the envelope, the conversation, the message, the profile and
  whether the memory hook runs afterwards).
\<close>

type_synonym draft = "envelope \<times> ustr \<times> ustr \<times> resolved_profile option \<times> bool \<times> reply_plan"

definition draft_turn :: "('s, 'z) worker_scheme \<Rightarrow> worker_config \<Rightarrow> inbound_event \<Rightarrow> ustr \<Rightarrow> ustr \<Rightarrow> ('s, draft option) prog" where
  "draft_turn w cfg ev cid mid = (let e = ie_envelope ev; caps = worker_capabilities cfg e in
     bindp (worker_decide w cfg ev cid mid) (\<lambda>(d, profile).
       if td_action d = IGNORE then retp None
       else bindp (guard_refusal w ev d cid) (\<lambda>refusal.
         if refusal = Some [] then retp None
         else bindp (worker_plan w cfg e d cid mid profile caps refusal) (\<lambda>(plan, hit).
           retp (Some (e, cid, mid, profile, td_action d = AGENT \<and> refusal = None \<and> \<not> hit, plan))))))"

definition drafted :: "('s, 'z) worker_scheme \<Rightarrow> worker_config \<Rightarrow> inbound_event \<Rightarrow> ('s, draft option) prog" where
  "drafted w cfg ev = bindp (worker_admit w cfg ev) (\<lambda>admitted. case admitted of
       None \<Rightarrow> retp None
     | Some ev' \<Rightarrow> bindp (worker_persist w (ie_envelope ev')) (\<lambda>stored. case stored of
           None \<Rightarrow> retp None
         | Some (cid, mid) \<Rightarrow> draft_turn w cfg ev' cid mid))"

definition deliver_draft :: "('s, 'z) worker_scheme \<Rightarrow> worker_config \<Rightarrow> draft option \<Rightarrow> ('s, unit) prog" where
  "deliver_draft w cfg x = (case x of
       None \<Rightarrow> retp ()
     | Some (e, cid, mid, profile, hook, plan) \<Rightarrow>
         worker_deliver w cfg e cid mid profile (worker_capabilities cfg e) hook plan)"

lemma bindp_bindp: "bindp (bindp m f) g = bindp m (\<lambda>x. bindp (f x) g)"
  by (simp add: fun_eq_iff bindp_def split: prod.split sum.split)

lemma bindp_same: "(\<And>x. f x = g x) \<Longrightarrow> bindp m f = bindp m g"
  by (rule arg_cong [where f = "bindp m"], rule ext)

lemma bindp_if: "bindp (if b then m else n) g = (if b then bindp m g else bindp n g)"
  by simp

text \<open>The handler is the draft and its delivery.\<close>

lemma handle_drafted: "handle_serialized w cfg ev = bindp (drafted w cfg ev) (deliver_draft w cfg)"
proof -
  have plan: "bindp (worker_plan w cfg e d cid mid p caps refusal) (\<lambda>(plan, hit).
        worker_deliver w cfg e cid mid p (worker_capabilities cfg e) (td_action d = AGENT \<and> refusal = None \<and> \<not> hit) plan)
      = bindp (bindp (worker_plan w cfg e d cid mid p caps refusal) (\<lambda>(plan, hit).
          retp (Some (e, cid, mid, p, td_action d = AGENT \<and> refusal = None \<and> \<not> hit, plan)))) (deliver_draft w cfg)"
    for e d cid mid p caps refusal
    unfolding bindp_bindp by (rule bindp_same) (simp add: deliver_draft_def case_prod_unfold del: retp_apply)
  have stop: "bindp (retp None) (deliver_draft w cfg) = retp ()" by (simp add: deliver_draft_def del: retp_apply)
  have turn: "worker_turn w cfg ev' cid mid = bindp (draft_turn w cfg ev' cid mid) (deliver_draft w cfg)" for ev' cid mid
    unfolding worker_turn_def draft_turn_def Let_def bindp_bindp
    by (rule bindp_same) (simp only: case_prod_unfold bindp_if stop bindp_bindp plan [unfolded case_prod_unfold bindp_bindp])
  have rest: "bindp (case stored of None \<Rightarrow> retp None | Some (cid, mid) \<Rightarrow> draft_turn w cfg ev' cid mid) (deliver_draft w cfg)
      = (case stored of None \<Rightarrow> retp () | Some (cid, mid) \<Rightarrow> worker_turn w cfg ev' cid mid)" for ev' stored
    by (cases stored) (simp_all add: turn deliver_draft_def case_prod_unfold del: retp_apply)
  have adm: "bindp (case admitted of None \<Rightarrow> retp None
        | Some ev' \<Rightarrow> bindp (worker_persist w (ie_envelope ev')) (\<lambda>stored. case stored of
           None \<Rightarrow> retp None | Some (cid, mid) \<Rightarrow> draft_turn w cfg ev' cid mid)) (deliver_draft w cfg)
      = (case admitted of None \<Rightarrow> retp ()
        | Some ev' \<Rightarrow> bindp (worker_persist w (ie_envelope ev')) (\<lambda>stored. case stored of
           None \<Rightarrow> retp () | Some (cid, mid) \<Rightarrow> worker_turn w cfg ev' cid mid))" for admitted
    by (cases admitted) (simp_all add: bindp_bindp rest deliver_draft_def del: retp_apply)
  show ?thesis unfolding handle_serialized_def drafted_def bindp_bindp adm ..
qed

lemma mk_outbound_addressed: "mk_outbound mid e plan reply_to = Inr m \<Longrightarrow> addressed_to e m \<and> om_id m = mid \<and> om_plan m = plan"
  by (auto simp: mk_outbound_def addressed_to_def split: if_splits)

locale worker_contract =
  fixes w :: "'s worker" and outbox :: "'s \<Rightarrow> outbound_message list"
    and recorded :: "'s \<Rightarrow> ustr \<Rightarrow> ustr \<Rightarrow> reply_plan \<Rightarrow> bool" and conversing :: "'s \<Rightarrow> ustr \<Rightarrow> ustr \<Rightarrow> bool"
  assumes access_frame: "wk_access w = Some check \<Longrightarrow> moves (unsent outbox recorded conversing) (check e)"
    and moderate_frame: "wk_moderate w = Some review \<Longrightarrow> moves (unsent outbox recorded conversing) (review ctx req)"
    and converse_frame: "moves (unsent outbox recorded conversing) (wk_converse w key pl eph)"
    and converse_row: "wk_converse w key pl eph s = (Inr (cid, k), s') \<Longrightarrow> conversing s' (stable_key key) cid"
    and receive_frame: "moves (unsent outbox recorded conversing) (wk_receive w cid e)"
    and answer_frame: "moves (unsent outbox recorded conversing) (wk_answer w cid plan trace)"
    and answer_row: "wk_answer w cid plan trace s = (Inr i, s') \<Longrightarrow> recorded s' i cid plan"
    and own_ids_frame: "moves (unsent outbox recorded conversing) (wk_own_ids w cid n)"
    and resolve_frame: "wk_resolve w = Some resolve \<Longrightarrow> moves (unsent outbox recorded conversing) (resolve cid)"
    and willing_frame: "wk_willing w = Some evaluate \<Longrightarrow> moves (unsent outbox recorded conversing) (evaluate j pol)"
    and events_frame: "wk_events w = Some post \<Longrightarrow> moves (unsent outbox recorded conversing) (post e d)"
    and guards_frame: "wk_guards w = Some guard \<Longrightarrow> moves (unsent outbox recorded conversing) (guard ev d cid k)"
    and annotate_frame: "wk_annotate w = Some lookup \<Longrightarrow> moves (unsent outbox recorded conversing) (lookup t cid b)"
    and turn_frame: "moves (unsent outbox recorded conversing) (wk_turn w cx q)"
    and after_frame: "moves (unsent outbox recorded conversing) (wk_after w cx e k t rt)"
    and forget_frame: "wk_forget w = Some forget \<Longrightarrow> moves (unsent outbox recorded conversing) (forget sub scope)"
    and ready_frame: "moves (unsent outbox recorded conversing) (wk_ready w)"
    and shadow_frame: "wk_shadow w = Some put \<Longrightarrow> moves (unsent outbox recorded conversing) (put rep)"
    and trace_frame: "wk_trace w = Some sink \<Longrightarrow> moves (unsent outbox recorded conversing) (sink entry)"
    and new_id_frame: "moves (unsent outbox recorded conversing) (wk_new_id w)"
    and publish_holds: "moves (holds_on recorded conversing) (wk_publish w m)"
    and publish_adds: "wk_publish w m s = (Inr u, s') \<Longrightarrow> outbox s' = outbox s @ [m]"
    and publish_raises: "wk_publish w m s = (Inl x, s') \<Longrightarrow> outbox s' = outbox s"
begin

abbreviation silent :: "('s, 'a) prog \<Rightarrow> bool" where
  "silent \<equiv> moves (unsent outbox recorded conversing)"

abbreviation posts :: "('s \<Rightarrow> bool) \<Rightarrow> ('s \<Rightarrow> outbound_message \<Rightarrow> bool) \<Rightarrow> ('s, 'a) prog \<Rightarrow> bool" where
  "posts \<equiv> sends outbox (holds_on recorded conversing)"

lemma silent_trace [moves_intro]: "silent (worker_trace w e cid stage status dur mid attrs)"
  unfolding worker_trace_def by (intro moves_intro trace_frame) simp_all

lemma silent_timed [moves_intro]: "silent (worker_timed w e cid stage status started mid attrs)"
  unfolding worker_timed_def by (intro moves_intro) simp_all

lemma posts_publish:
  assumes "\<And>s. pre s \<Longrightarrow> (\<forall>s'. holds_on recorded conversing s s' \<longrightarrow> P s' m)"
  shows "posts pre P (wk_publish w m)"
  unfolding sends_def
proof (intro allI impI)
  fix s r s'
  assume "pre s" and run: "wk_publish w m s = (r, s')"
  moreover have "holds_on recorded conversing s s'" using movesD [OF publish_holds run] .
  ultimately show "holds_on recorded conversing s s' \<and> (outbox s' = outbox s \<or> (\<exists>x. outbox s' = outbox s @ [x] \<and> P s' x))"
    using assms publish_adds [of m s _ s'] publish_raises [of m s _ s'] by (cases r) auto
qed

text \<open>A program that publishes nothing, or the notice \<open>note\<close> to the chat of \<open>e\<close>.\<close>

abbreviation notifies :: "envelope \<Rightarrow> ustr option \<Rightarrow> 's \<Rightarrow> 's \<Rightarrow> bool" where
  "notifies e note s s' \<equiv> holds_on recorded conversing s s' \<and> (outbox s' = outbox s \<or>
     (\<exists>m. outbox s' = outbox s @ [m] \<and> addressed_to e m \<and> notice_plan note (om_plan m)))"

lemma unsent_notifies: "unsent outbox recorded conversing s s' \<Longrightarrow> notifies e note s s'"
  by (simp add: unsent_def)

lemma notifies_after: "unsent outbox recorded conversing s s1 \<Longrightarrow> notifies e note s1 s' \<Longrightarrow> notifies e note s s'"
  unfolding unsent_def using holds_on_trans [of recorded conversing s s1 s'] by auto

lemma access_reply_notifies:
  assumes "publish_access_reply w e text s = (r, s')"
  shows "notifies e (Some text) s s'"
proof -
  have pub: "posts (\<lambda>_. mk_outbound mid e plan reply_to = Inr m \<and> notice_plan (Some text) plan)
      (\<lambda>s m. addressed_to e m \<and> notice_plan (Some text) (om_plan m)) (wk_publish w m)"
    for mid plan reply_to m
    by (rule posts_publish) (auto dest!: mk_outbound_addressed)
  have "posts (\<lambda>_. True) (\<lambda>s m. addressed_to e m \<and> notice_plan (Some text) (om_plan m)) (publish_access_reply w e text)"
    unfolding publish_access_reply_def
    apply (rule sends_bind [where post = "\<lambda>_ _. True"], rule new_id_frame, simp)
    apply (rule sends_bind [where post = "\<lambda>plan _. notice_plan (Some text) plan"])
      apply (rule moves_of_result, simp)
     apply (auto simp: of_result_def notice_plan_def split: sum.splits)[1]
    subgoal for mid plan
      apply (rule sends_bind [where post = "\<lambda>m _. mk_outbound mid e plan (Some (platform_message_id e)) = Inr m \<and> notice_plan (Some text) plan"])
        apply (rule moves_of_result, simp)
       apply (auto simp: of_result_def split: sum.splits)[1]
      apply (rule pub)
      done
    done
  from sendsD [OF this, of s r s'] assms show ?thesis by blast
qed

lemma silent_screening [moves_intro]: "silent (moderate_inbound w e)"
  unfolding moderate_inbound_def by (intro moves_intro moderate_frame) simp_all

definition same_address :: "envelope \<Rightarrow> envelope \<Rightarrow> bool" where
  "same_address e e' \<longleftrightarrow> (\<exists>segs. e' = e\<lparr>env_segments := segs\<rparr>)"

lemma same_address_refl: "same_address e e"
  unfolding same_address_def by (rule exI [of _ "env_segments e"]) simp

text \<open>The screening of a message that was let in.\<close>

lemma screen_outcome:
  assumes "worker_screen w cfg ev s = (r, s')"
  shows "case r of
      Inr (Some ev') \<Rightarrow> unsent outbox recorded conversing s s' \<and> same_address (ie_envelope ev) (ie_envelope ev') \<and>
        inbound_notice w cfg (ie_envelope ev) s = None
    | _ \<Rightarrow> notifies (ie_envelope ev) (inbound_notice w cfg (ie_envelope ev) s) s s'"
  using assms unfolding worker_screen_def
proof (cases rule: bindp_cases)
  case (raises x)
  from unsent_notifies [OF movesD [OF silent_screening raises(1)]] raises(2) show ?thesis by simp
next
  case (returned flagged s1)
  have un: "unsent outbox recorded conversing s s1" by (rule movesD [OF silent_screening returned(1)])
  show ?thesis
  proof (cases flagged)
    case None
    then show ?thesis using returned un by (auto simp: inbound_notice_def same_address_refl)
  next
    case (Some d)
    show ?thesis
    proof (cases "md_action d = DIRECT_OUTPUT")
      case True
      have nt: "inbound_notice w cfg (ie_envelope ev) s = Some (replacement_text cfg d)"
        using returned(1) Some True by (simp add: inbound_notice_def)
      obtain q where "publish_access_reply w (ie_envelope ev) (replacement_text cfg d) s1 = (q, s')"
        and r: "\<forall>ev'. r \<noteq> Inr (Some ev')"
        using returned(2) Some True by (auto elim!: bindp_cases)
      from notifies_after [OF un access_reply_notifies [OF this(1)]] nt r
      show ?thesis by (auto split: sum.split option.split)
    next
      case False
      have nt: "inbound_notice w cfg (ie_envelope ev) s = None"
        using returned(1) Some False by (simp add: inbound_notice_def)
      have s': "s' = s1" "\<forall>ev'. r = Inr (Some ev') \<longrightarrow> same_address (ie_envelope ev) (ie_envelope ev')"
        using returned(2) Some False
        by (auto simp: of_result_def override_envelope_text_def same_address_def elim!: bindp_cases split: if_splits sum.splits)
      have "notifies (ie_envelope ev) None s s'" using unsent_notifies [OF un] s'(1) by blast
      then show ?thesis using un s' nt by (simp split: sum.split option.split)
    qed
  qed
qed

text \<open>
  Admission: a message that is let in has caused no notice and no message yet, and only its
  text may have been replaced; otherwise at most the notice is sent.
\<close>

lemma admit_outcome:
  assumes "worker_admit w cfg ev s = (r, s')"
  shows "case r of
      Inr (Some ev') \<Rightarrow> unsent outbox recorded conversing s s' \<and> same_address (ie_envelope ev) (ie_envelope ev') \<and>
        notice_text w cfg (ie_envelope ev) s = None
    | _ \<Rightarrow> notifies (ie_envelope ev) (notice_text w cfg (ie_envelope ev) s) s s'"
proof (cases "wk_access w")
  case None
  then have scr: "worker_screen w cfg ev s = (r, s')" using assms by (simp add: worker_admit_def worker_access_def)
  have nt: "notice_text w cfg (ie_envelope ev) s = inbound_notice w cfg (ie_envelope ev) s"
    using None by (simp add: notice_text_def)
  from screen_outcome [OF scr] show ?thesis unfolding nt .
next
  case (Some check)
  obtain a s1 where a: "check (ie_envelope ev) s = (a, s1)" by (meson surj_pair)
  have un: "unsent outbox recorded conversing s s1" by (rule movesD [OF access_frame [OF Some] a])
  show ?thesis
  proof (cases a)
    case (Inl x)
    then have "r = Inl x" "s' = s1" using assms Some a by (simp_all add: worker_admit_def worker_access_def bindp_def)
    then show ?thesis using unsent_notifies [OF un] by simp
  next
    case (Inr d)
    show ?thesis
    proof (cases "pd_allowed d")
      case True
      then have "worker_screen w cfg ev s1 = (r, s')"
        using assms Some a Inr by (simp add: worker_admit_def worker_access_def bindp_def)
      from screen_outcome [OF this] have "case r of
          Inr (Some ev') \<Rightarrow> unsent outbox recorded conversing s s' \<and> same_address (ie_envelope ev) (ie_envelope ev') \<and>
            inbound_notice w cfg (ie_envelope ev) s1 = None
        | _ \<Rightarrow> notifies (ie_envelope ev) (inbound_notice w cfg (ie_envelope ev) s1) s s'"
        using un notifies_after [OF un] transpD [OF unsent_trans un] by (auto split: sum.splits option.splits)
      moreover have nt: "notice_text w cfg (ie_envelope ev) s = inbound_notice w cfg (ie_envelope ev) s1"
        using Some a Inr True by (simp add: notice_text_def)
      ultimately show ?thesis unfolding nt by blast
    next
      case False
      let ?note = "case pd_reply_text d of Some t \<Rightarrow> if t \<noteq> [] then Some t else None | None \<Rightarrow> None"
      let ?reply = "case pd_reply_text d of Some t \<Rightarrow> if t \<noteq> [] then publish_access_reply w (ie_envelope ev) t else retp ()
        | None \<Rightarrow> retp ()"
      have nt: "notice_text w cfg (ie_envelope ev) s = ?note" using Some a Inr False by (simp add: notice_text_def)
      have r: "\<forall>ev'. r \<noteq> Inr (Some ev')" "\<exists>q. ?reply s1 = (q, s')"
        using assms Some a Inr False
        by (auto simp: worker_admit_def worker_access_def bindp_def [of "check (ie_envelope ev)"] elim!: bindp_cases split: if_splits)
      then obtain q where "?reply s1 = (q, s')" by blast
      then have "notifies (ie_envelope ev) ?note s1 s'"
        using access_reply_notifies unsent_notifies [OF reflpD [OF unsent_refl]]
        by (auto split: option.splits if_splits)
      from notifies_after [OF un this] nt r(1) show ?thesis by (auto split: sum.split option.split)
    qed
  qed
qed

lemma silent_persist [moves_intro]: "silent (worker_persist w e)"
  unfolding worker_persist_def by (intro moves_intro converse_frame receive_frame) (auto split: prod.split intro!: moves_intro receive_frame)

lemma silent_willing [moves_intro]: "silent (apply_willingness w cfg e cid mid d p)"
  unfolding apply_willingness_def by (auto split: option.split prod.split intro!: moves_intro willing_frame)

lemma silent_decide [moves_intro]: "silent (worker_decide w cfg ev cid mid)"
  unfolding worker_decide_def Let_def resolve_profile_def worker_event_def
  by (intro moves_intro own_ids_frame resolve_frame events_frame) simp_all

lemma silent_guards [moves_intro]: "silent (guard_refusal w ev d cid)"
  unfolding guard_refusal_def by (intro moves_intro guards_frame) simp_all

lemma silent_agent_plan [moves_intro]: "silent (agent_plan w cfg e d cid mid p caps)"
  unfolding agent_plan_def match_annotation_def by (intro moves_intro annotate_frame turn_frame) simp_all

lemma silent_command_plan [moves_intro]: "silent (command_plan w cfg e caps)"
  unfolding command_plan_def handle_forget_def readiness_report_def Let_def
  by (intro moves_intro forget_frame ready_frame) simp_all

lemma silent_plan [moves_intro]: "silent (worker_plan w cfg e d cid mid p caps refusal)"
  unfolding worker_plan_def by (intro moves_intro) simp_all

lemma silent_moderated [moves_intro]: "silent (worker_moderated w cfg e cid caps plan)"
  unfolding worker_moderated_def Let_def by (intro moves_intro moderate_frame) simp_all

lemma silent_after [moves_intro]: "silent (after_hook w e cid p plan)"
  unfolding after_hook_def by (intro moves_intro after_frame) simp_all

text \<open>What leaves the outbound moderation is what its verdict asks for.\<close>

lemma moderated_outcome:
  assumes "worker_moderated w cfg e cid caps plan s = (Inr plan', s')"
  shows "under_verdict cfg caps (outbound_verdict w e plan s) plan plan'"
proof (cases "wk_moderate w")
  case None
  then show ?thesis
    using assms by (auto simp: worker_moderated_def under_verdict_def outbound_verdict_def elim!: bindp_cases)
next
  case (Some review)
  let ?attempt = "catchp (bindp (review (moderation_context e) (outbound_request plan)) (\<lambda>d. retp (Some d)))
      (\<lambda>_. bindp (worker_timed w e cid (lit ''moderation.outbound'') (lit ''error'') (wk_clock w s) None
         [(lit ''error_code'', JStr (lit ''moderation_hook_failed''))]) (\<lambda>_. retp None)) s"
  from assms obtain r s1 where r: "?attempt = (Inr r, s1)" and run: "(case r of
           None \<Rightarrow> retp plan
         | Some d \<Rightarrow>
             if \<not> md_flagged d
             then bindp (worker_timed w e cid (lit ''moderation.outbound'') (lit ''ok'') (wk_clock w s) None
                    [(lit ''approved'', JBool True), (lit ''backend'', JStr (md_backend d))]) (\<lambda>_. retp plan)
             else bindp (worker_timed w e cid (lit ''moderation.outbound'') (lit ''error'') (wk_clock w s) None
                    [(lit ''approved'', JBool False), (lit ''backend'', JStr (md_backend d)),
                      (lit ''action'', JStr (moderation_action_value (md_action d)))])
                    (\<lambda>_. of_result (mk_reply_plan [replacement_text cfg d] [] [] None (typing_default (cap_typing caps))))) s1
        = (Inr plan', s')"
    unfolding worker_moderated_def Some Let_def option.case
    by (auto simp only: getp_def bindp_Inr elim: bindp_cases)
  obtain x s0 where x: "review (moderation_context e) (outbound_request plan) s = (x, s0)" by fastforce
  have "r = (case x of Inr d \<Rightarrow> Some d | Inl y \<Rightarrow> None)"
    using r x by (auto simp: catchp_def bindp_def split: sum.splits exn.splits prod.splits)
  moreover have "case r of None \<Rightarrow> plan' = plan
       | Some d \<Rightarrow> if \<not> md_flagged d then plan' = plan
           else mk_reply_plan [replacement_text cfg d] [] [] None (typing_default (cap_typing caps)) = Inr plan'"
    using run by (cases r) (auto simp: of_result_def split: if_splits sum.splits elim!: bindp_cases)
  ultimately show ?thesis
    using Some x by (cases x) (auto simp: under_verdict_def outbound_verdict_def split: if_splits)
qed

text \<open>A published reply: addressed to the chat, recorded before, and not of a shadow evaluation.\<close>

definition from_reply :: "worker_config \<Rightarrow> envelope \<Rightarrow> reply_plan \<Rightarrow> 's \<Rightarrow> outbound_message \<Rightarrow> bool" where
  "from_reply cfg e plan s m \<longleftrightarrow> addressed_to e m \<and> om_plan m = plan \<and>
     (\<exists>cid. conversing s (stable_key (conversation_of e)) cid \<and> recorded s (om_id m) cid plan) \<and>
     (evaluation_result_id cfg e = None \<or> wk_shadow w = None)"

lemma from_reply_mono: "from_reply cfg e plan s m \<Longrightarrow> holds_on recorded conversing s s' \<Longrightarrow> from_reply cfg e plan s' m"
  unfolding from_reply_def holds_on_def by metis

lemma posts_worker_publish:
  "posts (\<lambda>s. conversing s (stable_key (conversation_of e)) cid \<and> (evaluation_result_id cfg e = None \<or> wk_shadow w = None))
     (from_reply cfg e plan) (worker_publish w e cid caps plan)"
  (is "posts ?pre _ _")
proof -
  let ?reply = "if cap_replies caps then Some (platform_message_id e) else None"
  have pub: "posts (\<lambda>s. ?pre s \<and> recorded s mid cid plan \<and> mk_outbound mid e plan ?reply = Inr m) (from_reply cfg e plan) (wk_publish w m)" for m mid
  proof (rule posts_publish, intro allI impI, erule from_reply_mono [rotated])
    fix s assume "?pre s \<and> recorded s mid cid plan \<and> mk_outbound mid e plan ?reply = Inr m"
    moreover from this have "addressed_to e m \<and> om_id m = mid \<and> om_plan m = plan" by (blast dest: mk_outbound_addressed)
    ultimately show "from_reply cfg e plan s m" unfolding from_reply_def by auto
  qed
  have pre: "?pre s'" if "?pre s" "unsent outbox recorded conversing s s'" for s s'
    using that by (auto simp: unsent_def holds_on_def)
  show ?thesis unfolding worker_publish_def
  proof (rule sends_bind [OF answer_frame, where post = "\<lambda>mid s. ?pre s \<and> recorded s mid cid plan"], goal_cases)
    case (1 s x s')
    then show ?case using pre [OF 1(1) movesD [OF answer_frame 1(2)]] answer_row [OF 1(2)] by blast
  next
    case (2 mid)
    show ?case
    proof (rule sends_bind [where post = "\<lambda>m s. ?pre s \<and> recorded s mid cid plan \<and> mk_outbound mid e plan ?reply = Inr m"], goal_cases)
      case 1 show ?case by (simp add: moves_of_result)
    next
      case (2 s m s') then show ?case by (auto simp: of_result_def split: sum.splits)
    next
      case (3 m)
      show ?case
      proof (rule sends_after)
        show "silent (getp (wk_clock w))" by (simp add: moves_getp)
      next
        fix started
        show "posts (\<lambda>s. ?pre s \<and> recorded s mid cid plan \<and> mk_outbound mid e plan ?reply = Inr m) (from_reply cfg e plan)
            (bindp (wk_publish w m) (\<lambda>_. worker_timed w e cid (lit ''outbound.publish'') (lit ''ok'') started (Some mid)
               [(lit ''text_segments'', JInt (int (length (rp_text_segments plan)))),
                (lit ''media_segments'', JInt (int (length (rp_media_segments plan))))]))"
          by (rule sends_then [OF pub silent_timed from_reply_mono])
      qed (auto simp: unsent_def holds_on_def)
    qed
  qed
qed

text \<open>
  The delivery of a draft: nothing is published, or one reply, which is the draft under the
  verdict of the moderation on it.
\<close>

lemma deliver_outcome:
  assumes "conversing s (stable_key (conversation_of e)) cid"
    and "worker_deliver w cfg e cid mid p caps hook plan0 s = (r, s')"
  shows "outbox s' = outbox s \<or> (\<exists>m. outbox s' = outbox s @ [m] \<and> from_reply cfg e (om_plan m) s' m \<and>
    under_verdict cfg caps (outbound_verdict w e plan0 s) plan0 (om_plan m))"
  using assms(2) unfolding worker_deliver_def
proof (cases rule: bindp_cases)
  case (raises x)
  then show ?thesis using movesD [OF silent_moderated raises(1)] by (simp add: unsent_def)
next
  case (returned plan s1)
  have un: "unsent outbox recorded conversing s s1" by (rule movesD [OF silent_moderated returned(1)])
  then have conv: "conversing s1 (stable_key (conversation_of e)) cid" and out: "outbox s1 = outbox s"
    using assms(1) by (simp_all add: unsent_def holds_on_def)
  show ?thesis
  proof (cases "evaluation_result_id cfg e = None \<or> wk_shadow w = None")
    case True
    let ?send = "bindp (worker_publish w e cid caps plan) (\<lambda>_. if hook then after_hook w e cid p plan else retp ())"
    have "posts (\<lambda>s. conversing s (stable_key (conversation_of e)) cid \<and> (evaluation_result_id cfg e = None \<or> wk_shadow w = None))
        (from_reply cfg e plan) ?send"
      by (rule sends_then [OF posts_worker_publish _ from_reply_mono]) (intro moves_intro, simp_all)
    moreover have "?send s1 = (r, s')"
      using returned(2) True by (cases "evaluation_result_id cfg e"; cases "wk_shadow w") simp_all
    ultimately have "outbox s' = outbox s1 \<or> (\<exists>m. outbox s' = outbox s1 @ [m] \<and> from_reply cfg e plan s' m)"
      using sendsD [of outbox _ _ _ _ s1 r s'] conv True by blast
    then show ?thesis using moderated_outcome [OF returned(1)] out by (auto simp: from_reply_def)
  next
    case False
    then obtain rid put where sh: "evaluation_result_id cfg e = Some rid" "wk_shadow w = Some put" by auto
    let ?shadow = "bindp (put \<lparr>sh_result_id = rid, sh_conversation = cid, sh_inbound_message = mid,
            sh_response = plan_text plan, sh_citations = map cit_uri (rp_citations plan)\<rparr>) (\<lambda>_.
         worker_trace w e cid (lit ''evaluation.shadow'') (lit ''ok'') 0 (Some mid) [(lit ''result_id'', JStr rid)])"
    have "silent ?shadow" by (intro moves_intro shadow_frame [OF sh(2)]) simp_all
    moreover have "?shadow s1 = (r, s')" using returned(2) sh by simp
    ultimately have "unsent outbox recorded conversing s1 s'" by (rule movesD)
    then show ?thesis using out by (simp add: unsent_def)
  qed
qed

lemma persist_conversing:
  assumes "worker_persist w e s = (Inr (Some (cid, mid)), s')"
  shows "conversing s' (stable_key (conversation_of e)) cid"
proof -
  from assms obtain k s1 dup s2 where
    c: "wk_converse w (conversation_of e) (env_platform e) (env_ephemeral e) s = (Inr (cid, k), s1)"
    and v: "wk_receive w cid e s1 = (Inr (mid, dup), s2)"
    and t: "worker_trace w e cid (lit ''ingest.persist'') (lit ''ok'') 0 (Some mid)
              [(lit ''platform'', JStr (platform_value (env_platform e))), (lit ''ephemeral'', JBool (env_ephemeral e)),
               (lit ''segments'', JInt (int (length (env_segments e))))] s2 = (Inr (), s')"
    unfolding worker_persist_def
    by (auto simp: getp_def bindp_Inr elim!: bindp_cases split: prod.splits if_splits)
  have "unsent outbox recorded conversing s1 s'"
    using transpD [OF unsent_trans movesD [OF receive_frame v] movesD [OF silent_trace t]] .
  with converse_row [OF c] show ?thesis by (simp add: unsent_def holds_on_def)
qed

lemma silent_draft [moves_intro]: "silent (draft_turn w cfg ev cid mid)"
  unfolding draft_turn_def Let_def by (intro moves_intro) (auto intro!: moves_intro split: prod.split simp del: retp_apply)

lemma draft_turn_about:
  assumes "draft_turn w cfg ev cid mid s = (Inr (Some (e, c, i, p, hook, plan)), s')"
  shows "e = ie_envelope ev \<and> c = cid"
  using assms by (auto simp: draft_turn_def Let_def elim!: bindp_cases split: if_splits prod.splits)

text \<open>
  Up to the draft: a drafted reply has sent nothing and goes with no notice, its conversation
  is stored; without a draft at most the notice is sent.
\<close>

lemma drafted_outcome:
  assumes "drafted w cfg ev s = (r, s')"
  shows "case r of
      Inr (Some (e, cid, mid, p, hook, plan)) \<Rightarrow> unsent outbox recorded conversing s s' \<and> same_address (ie_envelope ev) e \<and>
        conversing s' (stable_key (conversation_of e)) cid \<and> notice_text w cfg (ie_envelope ev) s = None
    | _ \<Rightarrow> notifies (ie_envelope ev) (notice_text w cfg (ie_envelope ev) s) s s'"
  using assms unfolding drafted_def
proof (cases rule: bindp_cases)
  case (raises x)
  from admit_outcome [OF raises(1)] raises(2) show ?thesis by simp
next
  case (returned admitted s1)
  show ?thesis
  proof (cases admitted)
    case None
    then show ?thesis using admit_outcome [OF returned(1)] returned(2) by auto
  next
    case (Some ev')
    from admit_outcome [OF returned(1)] Some have
      adm: "unsent outbox recorded conversing s s1" "same_address (ie_envelope ev) (ie_envelope ev')"
        "notice_text w cfg (ie_envelope ev) s = None" by simp_all
    from returned(2) Some have "bindp (worker_persist w (ie_envelope ev')) (\<lambda>stored. case stored of
           None \<Rightarrow> retp None | Some (cid, mid) \<Rightarrow> draft_turn w cfg ev' cid mid) s1 = (r, s')" by simp
    then show ?thesis
    proof (cases rule: bindp_cases)
      case (raises x)
      have "unsent outbox recorded conversing s s'"
        using transpD [OF unsent_trans adm(1) movesD [OF silent_persist raises(1)]] .
      from unsent_notifies [OF this] raises(2) show ?thesis by simp
    next
      case st: (returned stored s2)
      have un: "unsent outbox recorded conversing s s2"
        using transpD [OF unsent_trans adm(1) movesD [OF silent_persist st(1)]] .
      show ?thesis
      proof (cases stored)
        case None
        then have "r = Inr None" "s' = s2" using st(2) by auto
        then show ?thesis using unsent_notifies [OF un] by simp
      next
        case (Some p)
        obtain cid mid where p: "p = (cid, mid)" by fastforce
        have run: "draft_turn w cfg ev' cid mid s2 = (r, s')" using st(2) Some p by simp
        have un2: "unsent outbox recorded conversing s2 s'" by (rule movesD [OF silent_draft run])
        have all: "unsent outbox recorded conversing s s'" using transpD [OF unsent_trans un un2] .
        have "conversing s2 (stable_key (conversation_of (ie_envelope ev'))) cid"
          using persist_conversing st(1) Some p by blast
        then have conv: "conversing s' (stable_key (conversation_of (ie_envelope ev'))) cid"
          using un2 by (simp add: unsent_def holds_on_def)
        show ?thesis
        proof (cases "\<exists>d. r = Inr (Some d)")
          case True
          then obtain e c i pr hook plan where r: "r = Inr (Some (e, c, i, pr, hook, plan))" by auto
          from draft_turn_about [OF run [unfolded r]] adm all conv show ?thesis unfolding r by simp
        next
          case False
          then show ?thesis using unsent_notifies [OF all] by (auto split: sum.split option.split)
        qed
      qed
    qed
  qed
qed

lemma address_same: "same_address e e' \<Longrightarrow> addressed_to e' m = addressed_to e m \<and>
    conversation_of e' = conversation_of e \<and> evaluation_result_id cfg e' = evaluation_result_id cfg e"
  by (auto simp: same_address_def addressed_to_def conversation_of_def evaluation_result_id_def)

text \<open>
  Everything the handler publishes: the notice, when there is one, and else the draft under the
  moderation's verdict, recorded before and not of a shadow evaluation.
\<close>

lemma handler_posts:
  assumes "handle_serialized w cfg ev s = (r, s')"
  shows "outbox s' = outbox s \<or> (\<exists>m. outbox s' = outbox s @ [m] \<and> addressed_to (ie_envelope ev) m \<and>
    (case notice_text w cfg (ie_envelope ev) s of
       Some t \<Rightarrow> notice_plan (Some t) (om_plan m)
     | None \<Rightarrow> from_reply cfg (ie_envelope ev) (om_plan m) s' m \<and>
         (\<exists>e cid mid p hook plan s1. drafted w cfg ev s = (Inr (Some (e, cid, mid, p, hook, plan)), s1) \<and>
            under_verdict cfg (worker_capabilities cfg e) (outbound_verdict w e plan s1) plan (om_plan m))))"
  using assms unfolding handle_drafted
proof (cases rule: bindp_cases)
  case (raises x)
  from drafted_outcome [OF raises(1)] show ?thesis by (auto simp: notice_plan_def split: option.split)
next
  case (returned d s1)
  show ?thesis
  proof (cases d)
    case None
    then have "s' = s1" using returned(2) by (simp add: deliver_draft_def)
    with drafted_outcome [OF returned(1)] None show ?thesis by (auto simp: notice_plan_def split: option.split)
  next
    case (Some x)
    obtain e cid mid p hook plan where x: "x = (e, cid, mid, p, hook, plan)" by (cases x) auto
    from drafted_outcome [OF returned(1)] Some x have
      dr: "unsent outbox recorded conversing s s1" "same_address (ie_envelope ev) e"
        "conversing s1 (stable_key (conversation_of e)) cid" "notice_text w cfg (ie_envelope ev) s = None" by simp_all
    from returned(2) Some x have "worker_deliver w cfg e cid mid p (worker_capabilities cfg e) hook plan s1 = (r, s')"
      by (simp add: deliver_draft_def)
    from deliver_outcome [OF dr(3) this] show ?thesis
    proof
      assume "outbox s' = outbox s1"
      then show ?thesis using dr(1) by (simp add: unsent_def)
    next
      assume "\<exists>m. outbox s' = outbox s1 @ [m] \<and> from_reply cfg e (om_plan m) s' m \<and>
        under_verdict cfg (worker_capabilities cfg e) (outbound_verdict w e plan s1) plan (om_plan m)"
      then obtain m where m: "outbox s' = outbox s @ [m]" "from_reply cfg e (om_plan m) s' m"
        "under_verdict cfg (worker_capabilities cfg e) (outbound_verdict w e plan s1) plan (om_plan m)"
        using dr(1) by (auto simp: unsent_def)
      have fr: "from_reply cfg (ie_envelope ev) (om_plan m) s' m" "addressed_to (ie_envelope ev) m"
        using m(2) address_same [OF dr(2), of m cfg] by (auto simp: from_reply_def)
      have "\<exists>e cid mid p hook plan s1. drafted w cfg ev s = (Inr (Some (e, cid, mid, p, hook, plan)), s1) \<and>
            under_verdict cfg (worker_capabilities cfg e) (outbound_verdict w e plan s1) plan (om_plan m)"
        using returned(1) m(3) unfolding Some x by blast
      then show ?thesis using m(1) fr dr(4) by (intro disjI2 exI [of _ m]) simp
    qed
  qed
qed

lemma admitted_silently:
  assumes "worker_admit w cfg ev s = (Inr (Some ev'), s')"
  shows "unsent outbox recorded conversing s s' \<and> same_address (ie_envelope ev) (ie_envelope ev')"
  using admit_outcome [OF assms] by simp

end

section \<open>A worker on the tables\<close>

text \<open>
  The world: the outbound stream, the message tables, the pairing tables, the clock and
  the delivery attempt of the current entry, and a part that belongs to the other services.
\<close>

record 'r worker_world =
  ww_outbox :: "outbound_message list"
  ww_db :: message_db
  ww_pairing :: pairing_db
  ww_now :: int
  ww_attempt :: int
  ww_rest :: 'r

definition on_rest :: "('r, 'a) prog \<Rightarrow> ('r worker_world, 'a) prog" where
  "on_rest m s = (case m (ww_rest s) of (r, x) \<Rightarrow> (r, s\<lparr>ww_rest := x\<rparr>))"

definition on_db :: "(message_db, 'a) prog \<Rightarrow> ('r worker_world, 'a) prog" where
  "on_db m s = (case m (ww_db s) of (r, x) \<Rightarrow> (r, s\<lparr>ww_db := x\<rparr>))"

definition on_pairing :: "(pairing_db, 'a) prog \<Rightarrow> ('r worker_world, 'a) prog" where
  "on_pairing m s = (case m (ww_pairing s) of (r, x) \<Rightarrow> (r, s\<lparr>ww_pairing := x\<rparr>))"

text \<open>A publication may fail in the transport (the program of \<open>svc\<close>) or reaches the stream.\<close>

definition host_publish :: "('r, unit) prog \<Rightarrow> outbound_message \<Rightarrow> ('r worker_world, unit) prog" where
  "host_publish transport m = bindp (on_rest transport) (\<lambda>_ s. (Inr (), s\<lparr>ww_outbox := ww_outbox s @ [m]\<rparr>))"

definition worker_host :: "pairing_config \<Rightarrow> 'r worker \<Rightarrow> 'r worker_world worker" where
  "worker_host pc svc = \<lparr>
     wk_access = Some (\<lambda>e. on_pairing (pairing_check (pairing_tables pc) e)),
     wk_moderate = map_option (\<lambda>f ctx req. on_rest (f ctx req)) (wk_moderate svc),
     wk_converse = (\<lambda>key pl eph. on_db (get_or_create key pl eph)),
     wk_receive = (\<lambda>cid e. on_db (record_inbound cid e)),
     wk_answer = (\<lambda>cid plan trace s. on_db (record_outbound cid plan (ww_now s) trace) s),
     wk_own_ids = (\<lambda>cid n. on_db (getp (recent_outbound_ids cid n))),
     wk_resolve = map_option (\<lambda>f cid. on_rest (f cid)) (wk_resolve svc),
     wk_willing = map_option (\<lambda>f j pol. on_rest (f j pol)) (wk_willing svc),
     wk_events = map_option (\<lambda>f e d. on_rest (f e d)) (wk_events svc),
     wk_guards = map_option (\<lambda>f ev d cid k. on_rest (f ev d cid k)) (wk_guards svc),
     wk_annotate = map_option (\<lambda>f t cid b. on_rest (f t cid b)) (wk_annotate svc),
     wk_turn = (\<lambda>cx q. on_rest (wk_turn svc cx q)),
     wk_after = (\<lambda>cx e k t rt. on_rest (wk_after svc cx e k t rt)),
     wk_forget = map_option (\<lambda>f sub scope. on_rest (f sub scope)) (wk_forget svc),
     wk_ready = on_rest (wk_ready svc),
     wk_shadow = map_option (\<lambda>f rep. on_rest (f rep)) (wk_shadow svc),
     wk_publish = (\<lambda>m. host_publish (wk_publish svc m) m),
     wk_trace = map_option (\<lambda>f x. on_rest (f x)) (wk_trace svc),
     wk_attempt = ww_attempt,
     wk_new_id = on_db (liftp draw_uuid),
     wk_clock = (\<lambda>s. wk_clock svc (ww_rest s))\<rparr>"

lemma host_fields:
  "wk_access (worker_host pc svc) = Some (\<lambda>e. on_pairing (pairing_check (pairing_tables pc) e))"
  "wk_moderate (worker_host pc svc) = map_option (\<lambda>f ctx req. on_rest (f ctx req)) (wk_moderate svc)"
  "wk_converse (worker_host pc svc) = (\<lambda>key pl eph. on_db (get_or_create key pl eph))"
  "wk_receive (worker_host pc svc) = (\<lambda>cid e. on_db (record_inbound cid e))"
  "wk_answer (worker_host pc svc) = (\<lambda>cid plan trace s. on_db (record_outbound cid plan (ww_now s) trace) s)"
  "wk_own_ids (worker_host pc svc) = (\<lambda>cid n. on_db (getp (recent_outbound_ids cid n)))"
  "wk_resolve (worker_host pc svc) = map_option (\<lambda>f cid. on_rest (f cid)) (wk_resolve svc)"
  "wk_willing (worker_host pc svc) = map_option (\<lambda>f j pol. on_rest (f j pol)) (wk_willing svc)"
  "wk_events (worker_host pc svc) = map_option (\<lambda>f e d. on_rest (f e d)) (wk_events svc)"
  "wk_guards (worker_host pc svc) = map_option (\<lambda>f ev d cid k. on_rest (f ev d cid k)) (wk_guards svc)"
  "wk_annotate (worker_host pc svc) = map_option (\<lambda>f t cid b. on_rest (f t cid b)) (wk_annotate svc)"
  "wk_turn (worker_host pc svc) = (\<lambda>cx q. on_rest (wk_turn svc cx q))"
  "wk_after (worker_host pc svc) = (\<lambda>cx e k t rt. on_rest (wk_after svc cx e k t rt))"
  "wk_forget (worker_host pc svc) = map_option (\<lambda>f sub scope. on_rest (f sub scope)) (wk_forget svc)"
  "wk_ready (worker_host pc svc) = on_rest (wk_ready svc)"
  "wk_shadow (worker_host pc svc) = map_option (\<lambda>f rep. on_rest (f rep)) (wk_shadow svc)"
  "wk_publish (worker_host pc svc) = (\<lambda>m. host_publish (wk_publish svc m) m)"
  "wk_trace (worker_host pc svc) = map_option (\<lambda>f x. on_rest (f x)) (wk_trace svc)"
  "wk_attempt (worker_host pc svc) = ww_attempt"
  "wk_new_id (worker_host pc svc) = on_db (liftp draw_uuid)"
  "wk_clock (worker_host pc svc) = (\<lambda>s. wk_clock svc (ww_rest s))"
  by (simp_all add: worker_host_def)

definition plan_recorded :: "'r worker_world \<Rightarrow> ustr \<Rightarrow> ustr \<Rightarrow> reply_plan \<Rightarrow> bool" where
  "plan_recorded s i cid plan \<longleftrightarrow> (\<exists>r \<in> set (db_messages (ww_db s)). mr_id r = i \<and> mr_conversation r = cid \<and>
     mr_direction r = outbound_direction \<and> mr_segments r = plan_json plan)"

definition converses :: "'r worker_world \<Rightarrow> ustr \<Rightarrow> ustr \<Rightarrow> bool" where
  "converses s k cid \<longleftrightarrow> map_of (conv_keys (ww_db s)) k = Some cid"

definition grows :: "message_db \<Rightarrow> message_db \<Rightarrow> bool" where
  "grows db db' \<longleftrightarrow> set (db_messages db) \<subseteq> set (db_messages db') \<and> map_of (conv_keys db) \<subseteq>\<^sub>m map_of (conv_keys db')"

lemma grows_refl [simp]: "grows db db"
  by (simp add: grows_def)

lemma same_grows: "db_messages db' = db_messages db \<Longrightarrow> conv_keys db' = conv_keys db \<Longrightarrow> grows db db'"
  by (simp add: grows_def)

lemma unsent_hostI: "ww_outbox s' = ww_outbox s \<Longrightarrow> grows (ww_db s) (ww_db s') \<Longrightarrow> unsent ww_outbox plan_recorded converses s s'"
  unfolding unsent_def holds_on_def plan_recorded_def converses_def grows_def by (auto simp: map_le_def dom_def)

lemma record_outbound_row:
  "record_outbound cid plan now trace db = (Inr i, db') \<Longrightarrow>
     \<exists>r \<in> set (db_messages db'). mr_id r = i \<and> mr_conversation r = cid \<and> mr_direction r = outbound_direction \<and> mr_segments r = plan_json plan"
  by (auto simp: record_outbound_def Let_def split_beta split: if_splits)

lemma get_or_create_grows: "grows db (snd (get_or_create key pl eph db))"
proof (cases rule: get_or_create_cases [of db key pl eph])
  case (created i db')
  then show ?thesis by (auto simp: grows_def map_le_def map_add_def dom_def split: option.split)
qed (simp_all add: same_grows)

lemma record_inbound_grows: "grows db (snd (record_inbound cid e db))"
  by (cases rule: record_inbound_cases [of db cid e]) (simp_all add: grows_def subset_insertI)

lemma record_outbound_grows: "grows db (snd (record_outbound cid plan now trace db))"
  by (cases rule: record_outbound_cases [of cid plan now trace db]) (simp_all add: grows_def subset_insertI)

lemma get_or_create_key: "get_or_create key pl eph db = (Inr (cid, k), db') \<Longrightarrow> map_of (conv_keys db') (stable_key key) = Some cid"
  by (cases rule: get_or_create_cases [of db key pl eph]) (auto simp: map_add_def)

lemma record_inbound_known:
  assumes "row \<in> set (db_messages db)" and "same_slot cid inbound_direction (platform_message_id e) row"
  shows "\<exists>mid db'. record_inbound cid e db = (Inr (mid, True), db') \<and> db_messages db' = db_messages db"
proof -
  obtain r where "find (same_slot cid inbound_direction (platform_message_id e)) (db_messages db) = Some r"
    using assms by (metis find_None_iff not_None_eq)
  then show ?thesis by (simp add: record_inbound_def Let_def split_beta)
qed

lemma host_rest [moves_intro]: "moves (unsent ww_outbox plan_recorded converses) (on_rest m)"
  by (rule movesI, rule unsent_hostI) (auto simp: on_rest_def split: prod.splits)

lemma host_pairing: "moves (unsent ww_outbox plan_recorded converses) (on_pairing m)"
  by (rule movesI, rule unsent_hostI) (auto simp: on_pairing_def split: prod.splits)

lemma host_db: "(\<And>db. grows db (snd (m db))) \<Longrightarrow> moves (unsent ww_outbox plan_recorded converses) (on_db m)"
  by (rule movesI, rule unsent_hostI) (auto simp: on_db_def split: prod.splits, metis snd_conv)

lemma host_publish_run: "host_publish tr m s = (r, s') \<Longrightarrow> ww_db s' = ww_db s \<and> (case r of
    Inl x \<Rightarrow> ww_outbox s' = ww_outbox s | Inr u \<Rightarrow> ww_outbox s' = ww_outbox s @ [m])"
  unfolding host_publish_def by (auto simp: on_rest_def elim!: bindp_cases split: prod.splits)

lemma draw_grows: "grows db (snd (draw_uuid db))"
  by (simp add: same_grows)

interpretation wk: worker_contract "worker_host pc svc" ww_outbox plan_recorded converses for pc svc
proof unfold_locales
  fix cid plan trace and s s' :: "'a worker_world" and i
  assume "wk_answer (worker_host pc svc) cid plan trace s = (Inr i, s')"
  then show "plan_recorded s' i cid plan"
    using record_outbound_row [of cid plan "ww_now s" trace "ww_db s" i]
    by (auto simp: worker_host_def on_db_def plan_recorded_def split: prod.splits)
next
  fix key pl eph and s s' :: "'a worker_world" and cid k
  assume "wk_converse (worker_host pc svc) key pl eph s = (Inr (cid, k), s')"
  then show "converses s' (stable_key key) cid"
    using get_or_create_key [of key pl eph "ww_db s" cid k]
    by (auto simp: worker_host_def on_db_def converses_def split: prod.splits)
next
  show "moves (unsent ww_outbox plan_recorded converses) (wk_answer (worker_host pc svc) cid plan trace)" for cid plan trace
    by (rule movesI, rule unsent_hostI)
      (auto simp: worker_host_def on_db_def split: prod.splits, metis record_outbound_grows snd_conv)
next
  show "moves (holds_on plan_recorded converses) (wk_publish (worker_host pc svc) m)" for m
    by (rule movesI) (auto simp: worker_host_def holds_on_def plan_recorded_def converses_def dest!: host_publish_run)
next
  show "ww_outbox s' = ww_outbox s @ [m]" if "wk_publish (worker_host pc svc) m s = (Inr u, s')" for m s u s'
    using host_publish_run [of "wk_publish svc m" m s "Inr u" s'] that by (simp add: worker_host_def)
  show "ww_outbox s' = ww_outbox s" if "wk_publish (worker_host pc svc) m s = (Inl x, s')" for m s x s'
    using host_publish_run [of "wk_publish svc m" m s "Inl x" s'] that by (simp add: worker_host_def)
qed (auto simp: worker_host_def host_rest host_pairing get_or_create_grows record_inbound_grows draw_grows liftp_def getp_def
      intro!: host_db)

section \<open>Properties\<close>

text \<open>Everything a handler may have published.\<close>

lemma handled:
  "ww_outbox (snd (handle_serialized (worker_host pc svc) cfg ev s)) = ww_outbox s \<or>
   (\<exists>m. ww_outbox (snd (handle_serialized (worker_host pc svc) cfg ev s)) = ww_outbox s @ [m] \<and>
      addressed_to (ie_envelope ev) m \<and>
      (case notice_text (worker_host pc svc) cfg (ie_envelope ev) s of
         Some t \<Rightarrow> notice_plan (Some t) (om_plan m)
       | None \<Rightarrow> wk.from_reply pc svc cfg (ie_envelope ev) (om_plan m) (snd (handle_serialized (worker_host pc svc) cfg ev s)) m \<and>
           (\<exists>e cid mid p hook plan s1. drafted (worker_host pc svc) cfg ev s = (Inr (Some (e, cid, mid, p, hook, plan)), s1) \<and>
              under_verdict cfg (worker_capabilities cfg e) (outbound_verdict (worker_host pc svc) e plan s1) plan (om_plan m))))"
  by (rule wk.handler_posts [OF surjective_pairing])

text \<open>
  C1: one event causes at most one reply, and only to the chat it came from: whatever the
  services answer or raise, the handler publishes nothing or one message, which carries the
  platform, connection, chat and trace of the event.
\<close>

theorem one_addressed_reply:
  "let s' = snd (handle_serialized (worker_host pc svc) cfg ev s)
   in ww_outbox s' = ww_outbox s \<or> (\<exists>m. ww_outbox s' = ww_outbox s @ [m] \<and> addressed_to (ie_envelope ev) m)"
  using handled [of pc svc cfg ev s] unfolding Let_def by blast

text \<open>
  C10: a reply is recorded before it is published. When the access check or the inbound
  moderation, asked about this event in this world, has a notice for its sender, the
  published message is that text; in every other case it carries the identifier of an
  outbound row with its plan, in the conversation of the event's own key.
\<close>

theorem replies_are_recorded:
  assumes "ww_outbox (snd (handle_serialized (worker_host pc svc) cfg ev s)) = ww_outbox s @ [m]"
  shows "case notice_text (worker_host pc svc) cfg (ie_envelope ev) s of
      Some t \<Rightarrow> mk_reply_plan [t] [] [] None (typing_default False) = Inr (om_plan m)
    | None \<Rightarrow> (\<exists>cid. map_of (conv_keys (ww_db (snd (handle_serialized (worker_host pc svc) cfg ev s))))
          (stable_key (conversation_of (ie_envelope ev))) = Some cid \<and>
        plan_recorded (snd (handle_serialized (worker_host pc svc) cfg ev s)) (om_id m) cid (om_plan m))"
proof -
  obtain m' where "ww_outbox (snd (handle_serialized (worker_host pc svc) cfg ev s)) = ww_outbox s @ [m']"
    and c: "case notice_text (worker_host pc svc) cfg (ie_envelope ev) s of
         Some t \<Rightarrow> notice_plan (Some t) (om_plan m')
       | None \<Rightarrow> wk.from_reply pc svc cfg (ie_envelope ev) (om_plan m') (snd (handle_serialized (worker_host pc svc) cfg ev s)) m' \<and>
           (\<exists>e cid mid p hook plan s1. drafted (worker_host pc svc) cfg ev s = (Inr (Some (e, cid, mid, p, hook, plan)), s1) \<and>
              under_verdict cfg (worker_capabilities cfg e) (outbound_verdict (worker_host pc svc) e plan s1) plan (om_plan m'))"
    using handled [of pc svc cfg ev s] assms by auto
  with assms have "m' = m" by simp
  with c show ?thesis
    by (auto simp: notice_plan_def wk.from_reply_def converses_def split: option.splits)
qed

text \<open>
  C15: the outbound moderation has the last word: the reply the handler has drafted for an
  event goes out as it is only when the moderation, asked about this very draft, does not
  flag it (or cannot be asked); for a flagged draft the replacement text of that decision
  goes out in its place, and nothing of the draft.
\<close>

theorem vetoed_replies_withheld:
  assumes "drafted (worker_host pc svc) cfg ev s = (Inr (Some (e, cid, mid, p, hook, draft)), s1)"
    and "ww_outbox (snd (handle_serialized (worker_host pc svc) cfg ev s)) = ww_outbox s @ [m]"
  shows "case outbound_verdict (worker_host pc svc) e draft s1 of
      None \<Rightarrow> om_plan m = draft
    | Some d \<Rightarrow> mk_reply_plan [replacement_text cfg d] [] [] None
        (typing_default (cap_typing (worker_capabilities cfg e))) = Inr (om_plan m)"
proof -
  have "notice_text (worker_host pc svc) cfg (ie_envelope ev) s = None"
    using wk.drafted_outcome [OF assms(1)] by simp
  then have "under_verdict cfg (worker_capabilities cfg e) (outbound_verdict (worker_host pc svc) e draft s1) draft (om_plan m)"
    using handled [of pc svc cfg ev s] assms by auto
  then show ?thesis by (simp add: under_verdict_def)
qed

text \<open>
  C27: a shadow evaluation is never sent to a chat: with an evaluation sink, an event that
  carries the identifier of an evaluation result publishes nothing, unless the access check
  or the inbound moderation stops it with a notice, and then that text only.
\<close>

theorem shadow_runs_stay_inside:
  assumes "evaluation_result_id cfg (ie_envelope ev) \<noteq> None" and "wk_shadow svc \<noteq> None"
    and "ww_outbox (snd (handle_serialized (worker_host pc svc) cfg ev s)) = ww_outbox s @ [m]"
  shows "\<exists>t. notice_text (worker_host pc svc) cfg (ie_envelope ev) s = Some t \<and>
    mk_reply_plan [t] [] [] None (typing_default False) = Inr (om_plan m)"
proof -
  have "wk_shadow (worker_host pc svc) \<noteq> None" using assms(2) by (simp add: worker_host_def)
  then show ?thesis
    using handled [of pc svc cfg ev s] assms(1,3)
    by (auto simp: notice_plan_def wk.from_reply_def split: option.splits)
qed

text \<open>What a notice of the worker changes: the outbound stream and the transport behind it.\<close>

definition notice_only :: "'r worker \<Rightarrow> ustr option \<Rightarrow> 'r worker_world \<Rightarrow> 'r worker_world \<Rightarrow> bool" where
  "notice_only svc note s s' \<longleftrightarrow> db_messages (ww_db s') = db_messages (ww_db s) \<and> db_conversations (ww_db s') = db_conversations (ww_db s) \<and>
    (ww_outbox s' = ww_outbox s \<or> (\<exists>m. ww_outbox s' = ww_outbox s @ [m] \<and> notice_plan note (om_plan m))) \<and>
    (ww_rest s' = ww_rest s \<or> (\<exists>m. ww_rest s' = snd (wk_publish svc m (ww_rest s))))"

lemma notice_only_reply:
  assumes "publish_access_reply (worker_host pc svc) e t s = (r, s')"
  shows "notice_only svc (Some t) s s'"
proof -
  let ?s1 = "snd (on_db (liftp draw_uuid) s)"
  have new: "wk_new_id (worker_host pc svc) s = (Inr (fst (draw_uuid (ww_db s))), ?s1)"
    by (simp add: worker_host_def on_db_def liftp_def split_beta)
  have s1: "db_messages (ww_db ?s1) = db_messages (ww_db s)" "db_conversations (ww_db ?s1) = db_conversations (ww_db s)"
    "ww_outbox ?s1 = ww_outbox s" "ww_rest ?s1 = ww_rest s"
    by (simp_all add: on_db_def liftp_def split_beta)
  from assms new have run: "bindp (of_result (mk_reply_plan [t] [] [] None (typing_default False))) (\<lambda>plan.
     bindp (of_result (mk_outbound (fst (draw_uuid (ww_db s))) e plan (Some (platform_message_id e))))
       (wk_publish (worker_host pc svc))) ?s1 = (r, s')"
    by (simp add: publish_access_reply_def bindp_Inr)
  show ?thesis
  proof (cases "\<exists>plan m. mk_reply_plan [t] [] [] None (typing_default False) = Inr plan \<and>
      mk_outbound (fst (draw_uuid (ww_db s))) e plan (Some (platform_message_id e)) = Inr m")
    case True
    then obtain plan m where m: "mk_reply_plan [t] [] [] None (typing_default False) = Inr plan"
      "mk_outbound (fst (draw_uuid (ww_db s))) e plan (Some (platform_message_id e)) = Inr m" by blast
    with run have pub: "host_publish (wk_publish svc m) m ?s1 = (r, s')" by (simp add: of_result_def worker_host_def)
    have "notice_plan (Some t) (om_plan m)" using m mk_outbound_addressed [OF m(2)] by (auto simp: notice_plan_def)
    moreover have "ww_rest s' = snd (wk_publish svc m (ww_rest ?s1))" "ww_db s' = ww_db ?s1"
      "ww_outbox s' = ww_outbox ?s1 \<or> ww_outbox s' = ww_outbox ?s1 @ [m]"
      using pub unfolding host_publish_def by (auto simp: on_rest_def elim!: bindp_cases split: prod.splits)
    ultimately show ?thesis using s1 unfolding notice_only_def by metis
  next
    case False
    then have "s' = ?s1" using run by (auto simp: of_result_def elim!: bindp_cases split: sum.splits)
    then show ?thesis using s1 by (simp add: notice_only_def)
  qed
qed

text \<open>What the access check decides about an event in a world.\<close>

definition denied :: "pairing_config \<Rightarrow> inbound_event \<Rightarrow> 'r worker_world \<Rightarrow> bool" where
  "denied pc ev s \<longleftrightarrow> (case fst (pairing_check (pairing_tables pc) (ie_envelope ev) (ww_pairing s)) of
     Inl x \<Rightarrow> True | Inr a \<Rightarrow> \<not> pd_allowed a)"

text \<open>
  C5: a sender the access check keeps out reaches nothing: no conversation or message is
  stored and the only services that see the event are the pairing tables and, for the text
  the check answers with, the outbound stream.
\<close>

theorem denied_sender_reaches_nothing:
  assumes "denied pc ev s"
  shows "notice_only svc (notice_text (worker_host pc svc) cfg (ie_envelope ev) s) s
    (snd (handle_serialized (worker_host pc svc) cfg ev s))"
proof -
  let ?e = "ie_envelope ev" and ?w = "worker_host pc svc"
  obtain r s' where run: "handle_serialized ?w cfg ev s = (r, s')" by fastforce
  obtain a p where check: "pairing_check (pairing_tables pc) ?e (ww_pairing s) = (a, p)" by fastforce
  then have on: "on_pairing (pairing_check (pairing_tables pc) ?e) s = (a, s\<lparr>ww_pairing := p\<rparr>)"
    by (simp add: on_pairing_def)
  let ?note = "notice_text ?w cfg ?e s"
  have same: "notice_only svc ?note s s'" if "notice_only svc ?note (s\<lparr>ww_pairing := p\<rparr>) s'" for s'
    using that by (simp add: notice_only_def)
  have refl: "notice_only svc n s s" for n s by (simp add: notice_only_def)
  have wa: "wk_access ?w = Some (\<lambda>e. on_pairing (pairing_check (pairing_tables pc) e))" by (simp add: worker_host_def)
  have acc: "worker_access ?w ?e = bindp (on_pairing (pairing_check (pairing_tables pc) ?e)) (\<lambda>a.
         if pd_allowed a then retp True
         else bindp (case pd_reply_text a of
                 Some t \<Rightarrow> if t \<noteq> [] then publish_access_reply ?w ?e t else retp ()
               | None \<Rightarrow> retp ()) (\<lambda>_. retp False))"
    by (simp add: worker_access_def wa)
  show ?thesis
  proof (cases a)
    case (Inl x)
    then have "worker_access ?w ?e s = (Inl x, s\<lparr>ww_pairing := p\<rparr>)" unfolding acc by (simp add: bindp_def on)
    then have "s' = s\<lparr>ww_pairing := p\<rparr>" using run by (simp add: handle_serialized_def worker_admit_def bindp_def)
    then show ?thesis using run same refl by simp
  next
    case (Inr d)
    let ?reply = "case pd_reply_text d of Some t \<Rightarrow> if t \<noteq> [] then publish_access_reply ?w ?e t else retp () | None \<Rightarrow> retp ()"
    have "\<not> pd_allowed d" using assms check Inr by (simp add: denied_def)
    obtain x s1 where x: "?reply (s\<lparr>ww_pairing := p\<rparr>) = (x, s1)" by fastforce
    have "worker_access ?w ?e s = (case x of Inl y \<Rightarrow> Inl y | Inr u \<Rightarrow> Inr False, s1)"
      unfolding acc using \<open>\<not> pd_allowed d\<close> x Inr by (simp add: bindp_def on split: sum.split)
    then have "s' = s1" using run by (auto simp: handle_serialized_def worker_admit_def bindp_def split: sum.splits)
    moreover have "?note = (case pd_reply_text d of Some t \<Rightarrow> if t \<noteq> [] then Some t else None | None \<Rightarrow> None)"
      using \<open>\<not> pd_allowed d\<close> Inr by (simp add: notice_text_def wa on)
    then have "notice_only svc ?note (s\<lparr>ww_pairing := p\<rparr>) s1"
      using x by (auto simp: refl split: option.splits if_splits dest: notice_only_reply)
    ultimately show ?thesis using run same by simp
  qed
qed

text \<open>
  a duplicate goes no further: when a message that was let in is already stored in its
  conversation and this is its first delivery, the handler returns at once, with nothing
  published and no other service called.
\<close>

theorem duplicates_stop_early:
  assumes "worker_admit (worker_host pc svc) cfg ev s = (Inr (Some ev'), s1)"
    and "map_of (conv_keys (ww_db s1)) (stable_key (conversation_of (ie_envelope ev'))) = Some cid"
    and "row \<in> set (db_messages (ww_db s1))" and "same_slot cid inbound_direction (platform_message_id (ie_envelope ev')) row"
    and "ww_attempt s1 \<le> 1"
  shows "fst (handle_serialized (worker_host pc svc) cfg ev s) = Inr () \<and>
    ww_outbox (snd (handle_serialized (worker_host pc svc) cfg ev s)) = ww_outbox s \<and>
    ww_rest (snd (handle_serialized (worker_host pc svc) cfg ev s)) = ww_rest s1 \<and>
    db_messages (ww_db (snd (handle_serialized (worker_host pc svc) cfg ev s))) = db_messages (ww_db s1)"
proof -
  let ?w = "worker_host pc svc" and ?e = "ie_envelope ev'"
  have conv: "get_or_create (conversation_of ?e) (env_platform ?e) (env_ephemeral ?e) (ww_db s1)
      = (Inr (cid, stable_key (conversation_of ?e)), snd (draw_uuid (ww_db s1)))"
    using assms(2) by (cases rule: get_or_create_cases [of "ww_db s1" "conversation_of ?e" "env_platform ?e" "env_ephemeral ?e"]) auto
  let ?s2 = "s1\<lparr>ww_db := snd (draw_uuid (ww_db s1))\<rparr>"
  have c: "wk_converse ?w (conversation_of ?e) (env_platform ?e) (env_ephemeral ?e) s1
      = (Inr (cid, stable_key (conversation_of ?e)), ?s2)"
    by (simp add: worker_host_def on_db_def conv)
  obtain mid db where rec: "record_inbound cid ?e (ww_db ?s2) = (Inr (mid, True), db)"
    and db: "db_messages db = db_messages (ww_db s1)"
    using record_inbound_known [of row "ww_db ?s2" cid ?e] assms(3,4) by auto
  have r: "wk_receive ?w cid ?e ?s2 = (Inr (mid, True), ?s2\<lparr>ww_db := db\<rparr>)"
    using rec by (simp add: worker_host_def on_db_def)
  have a: "wk_attempt ?w = ww_attempt" by (simp add: worker_host_def)
  have "worker_persist ?w ?e s1 = (Inr None, ?s2\<lparr>ww_db := db\<rparr>)"
    unfolding worker_persist_def using assms(5) by (simp add: bindp_def c r getp_def a)
  then have "handle_serialized ?w cfg ev s = (Inr (), ?s2\<lparr>ww_db := db\<rparr>)"
    by (simp add: handle_serialized_def bindp_def assms(1))
  moreover have "ww_outbox s1 = ww_outbox s" using wk.admitted_silently [OF assms(1)] by (simp add: unsent_def)
  ultimately show ?thesis using db by simp
qed

subsection \<open>A run\<close>

text \<open>
  A Telegram chat with the account open to everyone and an agent that answers in two parts.
  The outbound moderation can be made to flag everything.
\<close>

definition demo_worker_plan :: reply_plan where
  "demo_worker_plan = \<lparr>rp_text_segments = [[97], [98]], rp_media_segments = [], rp_citations = [], rp_meme_intent = None,
     rp_typing = typing_default True\<rparr>"

definition demo_review :: "bool \<Rightarrow> audit_context \<Rightarrow> moderation_request \<Rightarrow> (unit, moderation_decision) prog" where
  "demo_review strict ctx req = retp (mk_decision (strict \<and> mr_point req = OUTBOUND) DIRECT_OUTPUT [120] [108] [] [])"

definition demo_services :: "bool \<Rightarrow> unit worker" where
  "demo_services strict = \<lparr>wk_access = None, wk_moderate = Some (demo_review strict),
     wk_converse = (\<lambda>key pl eph. retp ([], [])), wk_receive = (\<lambda>cid e. retp ([], False)),
     wk_answer = (\<lambda>cid plan trace. retp []), wk_own_ids = (\<lambda>cid n. retp []), wk_resolve = None, wk_willing = None,
     wk_events = None, wk_guards = None, wk_annotate = None, wk_turn = (\<lambda>cx q. retp demo_worker_plan),
     wk_after = (\<lambda>cx e k t rt. retp ()), wk_forget = None, wk_ready = raisep Cancelled,
     wk_shadow = Some (\<lambda>rep. retp ()), wk_publish = (\<lambda>m. retp ()), wk_trace = None, wk_attempt = (\<lambda>s. 1),
     wk_new_id = retp [], wk_clock = (\<lambda>s. 0)\<rparr>"

lemma demo_fields:
  "wk_access (demo_services strict) = None"
  "wk_moderate (demo_services strict) = Some (demo_review strict)"
  "wk_converse (demo_services strict) = (\<lambda>key pl eph. retp ([], []))"
  "wk_receive (demo_services strict) = (\<lambda>cid e. retp ([], False))"
  "wk_answer (demo_services strict) = (\<lambda>cid plan trace. retp [])"
  "wk_own_ids (demo_services strict) = (\<lambda>cid n. retp [])"
  "wk_resolve (demo_services strict) = None"
  "wk_willing (demo_services strict) = None"
  "wk_events (demo_services strict) = None"
  "wk_guards (demo_services strict) = None"
  "wk_annotate (demo_services strict) = None"
  "wk_turn (demo_services strict) = (\<lambda>cx q. retp demo_worker_plan)"
  "wk_after (demo_services strict) = (\<lambda>cx e k t rt. retp ())"
  "wk_forget (demo_services strict) = None"
  "wk_ready (demo_services strict) = raisep Cancelled"
  "wk_shadow (demo_services strict) = Some (\<lambda>rep. retp ())"
  "wk_publish (demo_services strict) = (\<lambda>m. retp ())"
  "wk_trace (demo_services strict) = None"
  "wk_attempt (demo_services strict) = (\<lambda>s. 1)"
  "wk_new_id (demo_services strict) = retp []"
  "wk_clock (demo_services strict) = (\<lambda>s. 0)"
  by (simp_all add: demo_services_def)

definition demo_worker_config :: worker_config where
  "demo_worker_config = \<lparr>wg_capabilities = default_capabilities, wg_notice = moderation_notice, wg_lower = ascii_lower,
     wg_loads = (\<lambda>t. None), wg_uuid = Some, wg_fixed4 = (\<lambda>x. [])\<rparr>"

definition demo_worker_event :: "frozen option \<Rightarrow> inbound_event" where
  "demo_worker_event raw = \<lparr>ie_envelope = store_message\<lparr>env_platform := TELEGRAM, env_raw_ref := raw\<rparr>, ie_mentions_self = False,
     ie_replies_to_self = False, ie_sender_is_bot = False\<rparr>"

definition demo_worker_world :: "(ustr \<times> ustr, ustr \<times> ustr list) dict \<Rightarrow> unit worker_world" where
  "demo_worker_world policies = \<lparr>ww_outbox = [], ww_db = new_message_db (\<lambda>n. [n]),
     ww_pairing = \<lparr>db_policy = policies, db_requests = [], db_approvals = [], db_now = 0, db_draw = ([105], [99])\<rparr>,
     ww_now = 0, ww_attempt = 1, ww_rest = ()\<rparr>"

lemma demo_admitted_db:
  "worker_admit (worker_host default_pairing (demo_services b)) demo_worker_config (demo_worker_event raw) ((demo_worker_world [])\<lparr>ww_db := db\<rparr>)
     = (Inr (Some (demo_worker_event raw)), (demo_worker_world [])\<lparr>ww_db := db\<rparr>)"
  by (simp add: worker_admit_def worker_access_def worker_screen_def moderate_inbound_def worker_host_def demo_services_def
      on_pairing_def on_rest_def pairing_check_def pairing_tables_def pairing_policy_of_def demo_worker_world_def let_in_def
      demo_review_def mk_decision_def inbound_request_def bindp_def catchp_def Let_def)

lemma demo_admitted:
  "worker_admit (worker_host default_pairing (demo_services b)) demo_worker_config (demo_worker_event raw) (demo_worker_world [])
     = (Inr (Some (demo_worker_event raw)), demo_worker_world [])"
  using demo_admitted_db [of b raw "new_message_db (\<lambda>n. [n])"] by (simp add: demo_worker_world_def)

lemma demo_tables:
  assumes "e = ie_envelope (demo_worker_event raw)"
  obtains db1 db2 where "get_or_create (conversation_of e) (env_platform e) (env_ephemeral e) (new_message_db (\<lambda>n. [n]))
      = (Inr ([0], stable_key (conversation_of e)), db1)"
    "record_inbound [0] e db1 = (Inr ([1], False), db2)"
    "\<And>plan now tr. \<exists>db3. record_outbound [0] plan now tr db2 = (Inr [2], db3)"
proof -
  obtain db1 where a: "get_or_create (conversation_of e) (env_platform e) (env_ephemeral e) (new_message_db (\<lambda>n. [n]))
      = (Inr ([0], stable_key (conversation_of e)), db1)"
    and db1: "cv_id ` set (db_conversations db1) = {[0]}" "db_messages db1 = []" "db_uuid db1 = (\<lambda>n. [n])" "db_drawn db1 = 1"
    by (simp add: get_or_create_def draw_uuid_def new_message_db_def Let_def)
  then obtain db2 where b: "record_inbound [0] e db1 = (Inr ([1], False), db2)"
    and db2: "db_messages db2 \<noteq> []" "mr_id ` set (db_messages db2) = {[1]}" "conv_keys db2 = conv_keys db1" "db_uuid db2 = (\<lambda>n. [n])" "db_drawn db2 = 2"
    by (simp add: record_inbound_def draw_uuid_def Let_def conv_keys_def)
  have "cv_id ` set (db_conversations db2) = {[0]}" using db1(1) db2(3) by (metis conv_ids(1))
  then have "\<exists>db3. record_outbound [0] plan now tr db2 = (Inr [2], db3)" for plan now tr
    using db2 by (simp add: record_outbound_def draw_uuid_def Let_def)
  with a b show thesis by (rule that)
qed

lemma demo_handled:
  assumes "cfg = demo_worker_config" and "raw = None"
  shows "\<exists>m. ww_outbox (snd (handle_serialized (worker_host default_pairing (demo_services strict)) cfg (demo_worker_event raw)
       (demo_worker_world []))) = ww_outbox (demo_worker_world []) @ [m] \<and>
     om_plan m = (if strict then demo_worker_plan\<lparr>rp_text_segments := [[120]]\<rparr> else demo_worker_plan)"
proof -
  let ?w = "worker_host default_pairing (demo_services strict)" and ?ev = "demo_worker_event raw" and ?s = "demo_worker_world []"
  let ?e = "ie_envelope ?ev"
  obtain db1 db2 where db: "get_or_create (conversation_of ?e) (env_platform ?e) (env_ephemeral ?e) (new_message_db (\<lambda>n. [n]))
      = (Inr ([0], stable_key (conversation_of ?e)), db1)" "record_inbound [0] ?e db1 = (Inr ([1], False), db2)"
    and out: "\<And>plan now tr. \<exists>db3. record_outbound [0] plan now tr db2 = (Inr [2], db3)"
    by (rule demo_tables [OF refl, of raw]) (rule that)
  let ?s2 = "?s\<lparr>ww_db := db2\<rparr>"
  have tr: "worker_trace (worker_host default_pairing (demo_services b)) e cid stage status dur mid attrs = retp ()"
    for b e cid stage status dur mid attrs by (simp add: worker_trace_def host_fields demo_fields)
  have tm: "worker_timed (worker_host default_pairing (demo_services b)) e cid stage status started mid attrs s = (Inr (), s)"
    for b e cid stage status started mid attrs s by (simp add: worker_timed_def tr bindp_def getp_def)
  have rest: "s\<lparr>ww_rest := ()\<rparr> = s" for s :: "unit worker_world" by (cases s) simp
  have p: "worker_persist ?w ?e ?s = (Inr (Some ([0], [1])), ?s2)"
    using db by (simp add: worker_persist_def tr bindp_def getp_def host_fields on_db_def demo_worker_world_def)
  have d: "worker_decide ?w cfg ?ev [0] [1] ?s2 =
      (Inr (decision AGENT (lit ''direct chats are always answered by the agent'') DIRECT_MESSAGE, None), ?s2)"
    by (simp add: worker_decide_def tr Let_def bindp_def getp_def on_db_def host_fields resolve_profile_def demo_fields
        apply_willingness_def worker_event_def decide_turn_def extract_command_def demo_worker_event_def store_message_def
        starts_with_def str_simps strip_def lstrip_def rstrip_def py_space_def)
  have g: "guard_refusal ?w ev d cid = retp None" for ev d cid
    by (simp add: guard_refusal_def host_fields demo_fields)
  have pl: "worker_plan ?w cfg ?e dec [0] [1] None caps None ?s2 = (Inr (demo_worker_plan, False), ?s2)"
    if "td_action dec = AGENT" for dec caps
    using that by (simp add: worker_plan_def agent_plan_def match_annotation_def tr bindp_def host_fields demo_fields on_rest_def)
  let ?plan = "if strict then demo_worker_plan\<lparr>rp_text_segments := [[120]]\<rparr> else demo_worker_plan"
  have mo: "worker_moderated ?w cfg ?e [0] (worker_capabilities cfg ?e) demo_worker_plan ?s2 = (Inr ?plan, ?s2)"
    by (simp add: worker_moderated_def tm tr rest Let_def bindp_def catchp_def getp_def on_rest_def host_fields demo_fields
        demo_review_def mk_decision_def outbound_request_def of_result_def mk_reply_plan_def replacement_text_def
        worker_capabilities_def assms demo_worker_config_def demo_worker_event_def demo_worker_plan_def
        telegram_capabilities_def strip_def lstrip_def rstrip_def py_space_def)
  obtain db3 where o: "record_outbound [0] ?plan 0 (Some (env_trace_id ?e)) db2 = (Inr [2], db3)" using out by blast
  have a: "wk_answer ?w [0] ?plan (Some (env_trace_id ?e)) ?s2 = (Inr [2], ?s2\<lparr>ww_db := db3\<rparr>)"
    using o by (simp add: host_fields on_db_def demo_worker_world_def)
  obtain m where m: "mk_outbound [2] ?e ?plan (if cap_replies (worker_capabilities cfg ?e) then Some (platform_message_id ?e) else None) = Inr m"
  proof -
    have "strip (env_connection_id ?e) \<noteq> []" "strip (env_chat_id ?e) \<noteq> []" "strip (env_trace_id ?e) \<noteq> []"
      "strip (platform_message_id ?e) \<noteq> []"
      by (simp_all add: demo_worker_event_def store_message_def platform_message_id_def strip_def lstrip_def rstrip_def py_space_def)
    then have "\<exists>m. mk_outbound [2] ?e ?plan (if cap_replies (worker_capabilities cfg ?e) then Some (platform_message_id ?e) else None) = Inr m"
      unfolding mk_outbound_def by simp
    then show thesis using that by blast
  qed
  let ?s4 = "?s2\<lparr>ww_db := db3, ww_outbox := ww_outbox ?s2 @ [m]\<rparr>"
  have pub: "wk_publish ?w m (?s2\<lparr>ww_db := db3\<rparr>) = (Inr (), ?s4)"
    by (simp add: host_fields host_publish_def bindp_def on_rest_def demo_fields demo_worker_world_def)
  have aft: "after_hook ?w ?e [0] None ?plan ?s4 = (Inr (), ?s4)"
    by (simp add: after_hook_def host_fields on_rest_def catchp_def demo_fields)
  have ev: "evaluation_result_id cfg ?e = None"
    using assms(2) by (simp add: evaluation_result_id_def demo_worker_event_def store_message_def)
  have clk: "getp (wk_clock ?w) s = (Inr (wk_clock ?w s), s)" for s by (simp add: getp_def)
  have wp: "worker_publish ?w ?e [0] (worker_capabilities cfg ?e) ?plan ?s2 = (Inr (), ?s4)"
    unfolding worker_publish_def by (simp only: bindp_def a m of_result_def sum.case retp_apply clk pub tm prod.case)
  have dl: "worker_deliver ?w cfg ?e [0] [1] None (worker_capabilities cfg ?e) True demo_worker_plan ?s2 = (Inr (), ?s4)"
    unfolding worker_deliver_def ev by (simp only: bindp_def mo prod.case sum.case option.case wp if_True aft)
  have t: "worker_turn ?w cfg ?ev [0] [1] ?s2 = (Inr (), ?s4)"
    unfolding worker_turn_def Let_def g
    by (simp add: bindp_def d pl dl decision_def del: One_nat_def)
  have "handle_serialized ?w cfg ?ev ?s = (Inr (), ?s4)"
    unfolding handle_serialized_def
    by (simp only: bindp_def demo_admitted [of strict raw, folded assms(1)] p t prod.case sum.case option.case)
  moreover have "om_plan m = ?plan" using mk_outbound_addressed [OF m] by simp
  ultimately show ?thesis by (intro exI [of _ m]) (simp add: demo_worker_world_def)
qed

lemma demo_no_notice:
  "notice_text (worker_host default_pairing (demo_services b)) demo_worker_config (ie_envelope (demo_worker_event raw)) (demo_worker_world []) = None"
  using wk.admit_outcome [OF demo_admitted [of b raw]] by simp

theorem replies_are_recorded_witness:
  "\<exists>(m :: outbound_message) cid. om_plan m = demo_worker_plan \<and> plan_recorded (snd (handle_serialized (worker_host default_pairing (demo_services False))
     demo_worker_config (demo_worker_event None) (demo_worker_world []))) (om_id m) cid (om_plan m)"
proof -
  obtain m where m: "ww_outbox (snd (handle_serialized (worker_host default_pairing (demo_services False)) demo_worker_config
      (demo_worker_event None) (demo_worker_world []))) = ww_outbox (demo_worker_world []) @ [m]" "om_plan m = demo_worker_plan"
    using demo_handled [OF refl refl, of False] by auto
  have "\<exists>cid. plan_recorded (snd (handle_serialized (worker_host default_pairing (demo_services False))
     demo_worker_config (demo_worker_event None) (demo_worker_world []))) (om_id m) cid (om_plan m)"
    using replies_are_recorded [OF m(1)] unfolding demo_no_notice option.case by blast
  with m(2) show ?thesis by blast
qed

lemma demo_verdict:
  "outbound_verdict (worker_host default_pairing (demo_services True)) e plan s = Some (mk_decision True DIRECT_OUTPUT [120] [108] [] [])"
  by (simp add: outbound_verdict_def host_fields demo_fields on_rest_def demo_review_def outbound_request_def mk_decision_def)

lemma demo_drafted:
  "\<exists>e cid mid p hook draft s1. drafted (worker_host default_pairing (demo_services True)) demo_worker_config (demo_worker_event None)
     (demo_worker_world []) = (Inr (Some (e, cid, mid, p, hook, draft)), s1)"
proof -
  obtain m where "ww_outbox (snd (handle_serialized (worker_host default_pairing (demo_services True)) demo_worker_config
      (demo_worker_event None) (demo_worker_world []))) = ww_outbox (demo_worker_world []) @ [m]"
    using demo_handled [OF refl refl, of True] by auto
  with handled [of default_pairing "demo_services True" demo_worker_config "demo_worker_event None" "demo_worker_world []"]
  show ?thesis by (auto simp: demo_no_notice)
qed

theorem vetoed_replies_withheld_witness:
  "\<exists>m :: outbound_message. om_plan m = demo_worker_plan\<lparr>rp_text_segments := [[120]]\<rparr> \<and>
     (\<exists>caps. mk_reply_plan [[120]] [] [] None (typing_default caps) = Inr (om_plan m))"
proof -
  obtain m where m: "ww_outbox (snd (handle_serialized (worker_host default_pairing (demo_services True)) demo_worker_config
      (demo_worker_event None) (demo_worker_world []))) = ww_outbox (demo_worker_world []) @ [m]"
    "om_plan m = demo_worker_plan\<lparr>rp_text_segments := [[120]]\<rparr>"
    using demo_handled [OF refl refl, of True] by auto
  obtain e cid mid p hook draft s1 where d: "drafted (worker_host default_pairing (demo_services True)) demo_worker_config
      (demo_worker_event None) (demo_worker_world []) = (Inr (Some (e, cid, mid, p, hook, draft)), s1)"
    using demo_drafted by blast
  have "mk_reply_plan [replacement_text demo_worker_config (mk_decision True DIRECT_OUTPUT [120] [108] [] [])] [] [] None
      (typing_default (cap_typing (worker_capabilities demo_worker_config e))) = Inr (om_plan m)"
    using vetoed_replies_withheld [OF d m(1)] unfolding demo_verdict option.case .
  moreover have "replacement_text demo_worker_config (mk_decision True DIRECT_OUTPUT [120] [108] [] []) = [120]"
    by (simp add: replacement_text_def mk_decision_def strip_def lstrip_def rstrip_def py_space_def)
  ultimately show ?thesis using m(2) by (intro exI [of _ m]) auto
qed

text \<open>The same chat with pairing switched on: the sender is asked to pair.\<close>

definition demo_paired :: "unit worker_world" where
  "demo_paired = demo_worker_world [((lit ''TELEGRAM'', [99]), (lit ''paired'', []))]"

lemma demo_pairing_check: "\<exists>db. pairing_check (pairing_tables default_pairing) (ie_envelope (demo_worker_event raw)) (ww_pairing demo_paired)
    = (Inr \<lparr>pd_allowed = False, pd_reply_text = Some (pairing_prompt [99]), pd_reason = lit ''pairing_required''\<rparr>, db)"
  by (simp add: pairing_check_def pairing_tables_def pairing_policy_of_def pairing_approved_def pairing_request_def new_request_def
      ticket_of_def default_pairing_def demo_paired_def demo_worker_world_def demo_worker_event_def store_message_def bindp_def Let_def)

lemma demo_note:
  "notice_text (worker_host default_pairing (demo_services b)) cfg (ie_envelope (demo_worker_event raw)) demo_paired
     = Some (pairing_prompt [99])"
  using demo_pairing_check [of raw]
  by (auto simp: notice_text_def host_fields on_pairing_def pairing_prompt_def)

theorem denied_sender_reaches_nothing_witness:
  "notice_only (demo_services False) (Some (pairing_prompt [99])) demo_paired (snd (handle_serialized (worker_host default_pairing (demo_services False))
     demo_worker_config (demo_worker_event None) demo_paired))"
proof -
  have "denied default_pairing (demo_worker_event None) demo_paired"
    using demo_pairing_check [of None] by (auto simp: denied_def)
  from denied_sender_reaches_nothing [OF this, of "demo_services False" demo_worker_config]
  show ?thesis by (simp add: demo_note)
qed

lemma demo_prompted:
  "\<exists>m. ww_outbox (snd (handle_serialized (worker_host default_pairing (demo_services b)) demo_worker_config
     (demo_worker_event raw) demo_paired)) = ww_outbox demo_paired @ [m]"
proof -
  let ?w = "worker_host default_pairing (demo_services b)" and ?ev = "demo_worker_event raw"
  obtain db where "on_pairing (pairing_check (pairing_tables default_pairing) (ie_envelope ?ev)) demo_paired
      = (Inr \<lparr>pd_allowed = False, pd_reply_text = Some (pairing_prompt [99]), pd_reason = lit ''pairing_required''\<rparr>, demo_paired\<lparr>ww_pairing := db\<rparr>)"
    using demo_pairing_check [of raw] by (auto simp: on_pairing_def)
  then have acc: "worker_access ?w (ie_envelope ?ev) demo_paired =
      bindp (publish_access_reply ?w (ie_envelope ?ev) (pairing_prompt [99])) (\<lambda>_. retp False) (demo_paired\<lparr>ww_pairing := db\<rparr>)"
    by (simp add: worker_access_def host_fields bindp_def pairing_prompt_def)
  have plan: "\<exists>plan. mk_reply_plan [pairing_prompt [99]] [] [] None (typing_default False) = Inr plan"
    by (simp add: mk_reply_plan_def pairing_prompt_def strip_eq_Nil_iff py_space_def)
  have "strip (env_connection_id (ie_envelope ?ev)) \<noteq> []" "strip (env_chat_id (ie_envelope ?ev)) \<noteq> []"
    "strip (env_trace_id (ie_envelope ?ev)) \<noteq> []" "strip (platform_message_id (ie_envelope ?ev)) \<noteq> []"
    by (simp_all add: demo_worker_event_def store_message_def platform_message_id_def strip_def lstrip_def rstrip_def py_space_def)
  then have out: "\<exists>m. mk_outbound mid (ie_envelope ?ev) plan (Some (platform_message_id (ie_envelope ?ev))) = Inr m" for mid plan
    unfolding mk_outbound_def by simp
  obtain m s1 where "publish_access_reply ?w (ie_envelope ?ev) (pairing_prompt [99]) (demo_paired\<lparr>ww_pairing := db\<rparr>) = (Inr (), s1)"
    "ww_outbox s1 = ww_outbox demo_paired @ [m]"
  proof -
    obtain plan where p: "mk_reply_plan [pairing_prompt [99]] [] [] None (typing_default False) = Inr plan" using plan by blast
    obtain m where m: "mk_outbound (fst (draw_uuid (ww_db (demo_paired\<lparr>ww_pairing := db\<rparr>)))) (ie_envelope ?ev) plan
        (Some (platform_message_id (ie_envelope ?ev))) = Inr m" using out by blast
    show thesis
      using that m p by (simp add: publish_access_reply_def host_fields bindp_def on_db_def liftp_def split_beta of_result_def
          host_publish_def on_rest_def demo_fields)
  qed
  then have "handle_serialized ?w demo_worker_config ?ev demo_paired = (Inr (), s1)"
    by (simp add: handle_serialized_def worker_admit_def bindp_def acc)
  with \<open>ww_outbox s1 = ww_outbox demo_paired @ [m]\<close> show ?thesis by auto
qed

theorem shadow_runs_stay_inside_witness:
  "\<exists>m. ww_outbox (snd (handle_serialized (worker_host default_pairing (demo_services False)) demo_worker_config
     (demo_worker_event (Some (FObj [(lit ''evaluation_result_id'', FStr [101])]))) demo_paired)) = ww_outbox demo_paired @ [m] \<and>
     mk_reply_plan [pairing_prompt [99]] [] [] None (typing_default False) = Inr (om_plan m)"
proof -
  let ?ev = "demo_worker_event (Some (FObj [(lit ''evaluation_result_id'', FStr [101])]))"
  obtain m where m: "ww_outbox (snd (handle_serialized (worker_host default_pairing (demo_services False)) demo_worker_config
     ?ev demo_paired)) = ww_outbox demo_paired @ [m]" using demo_prompted by blast
  have "evaluation_result_id demo_worker_config (ie_envelope ?ev) \<noteq> None" "wk_shadow (demo_services False) \<noteq> None"
    by (simp_all add: evaluation_result_id_def demo_worker_event_def demo_worker_config_def demo_fields)
  from shadow_runs_stay_inside [OF this m] m show ?thesis by (auto simp: demo_note)
qed

theorem duplicates_stop_early_witness:
  "\<exists>db. ww_outbox (snd (handle_serialized (worker_host default_pairing (demo_services False)) demo_worker_config (demo_worker_event None)
     ((demo_worker_world [])\<lparr>ww_db := db\<rparr>))) = [] \<and> db_messages db \<noteq> []"
proof -
  let ?e = "ie_envelope (demo_worker_event None)"
  obtain db1 db2 where db: "get_or_create (conversation_of ?e) (env_platform ?e) (env_ephemeral ?e) (new_message_db (\<lambda>n. [n]))
      = (Inr ([0], stable_key (conversation_of ?e)), db1)" "record_inbound [0] ?e db1 = (Inr ([1], False), db2)"
    by (rule demo_tables [OF refl, of None]) (rule that)
  obtain row where row: "row \<in> set (db_messages db2)" "same_slot [0] inbound_direction (platform_message_id ?e) row" "conv_keys db2 = conv_keys db1"
    using db(2) by (cases rule: record_inbound_cases [of db1 "[0]" ?e]) auto
  have "map_of (conv_keys (ww_db ((demo_worker_world [])\<lparr>ww_db := db2\<rparr>))) (stable_key (conversation_of ?e)) = Some [0]"
    using get_or_create_key [OF db(1)] row(3) by simp
  from duplicates_stop_early [OF demo_admitted_db this, of row False] row(1,2)
  have "ww_outbox (snd (handle_serialized (worker_host default_pairing (demo_services False)) demo_worker_config (demo_worker_event None)
     ((demo_worker_world [])\<lparr>ww_db := db2\<rparr>))) = []" by (simp add: demo_worker_world_def)
  then show ?thesis using row(1) by (intro exI [of _ db2]) auto
qed

end
