(* ===== verification/CoreMemory.thy ===== *)
theory CoreMemory
  imports ToolExec Prompt
begin

text \<open>
  Core memory: the blocks of \<open>repositories/core_memory.py\<close> and the two tools of
  \<open>tools/memory.py\<close> that let the agent write them. A block belongs to the persona (of all) or
  to the profile of one person. The main results: a block never holds more than its budget,
  every owner has at most one block and every change is audited with the version it made, and
  a tool call can change nothing but the persona and the profile of the person it acts for.
\<close>

section \<open>Blocks\<close>

datatype core_label = Persona | User_profile

fun label_value :: "core_label \<Rightarrow> ustr" where
  "label_value Persona = lit ''persona''"
| "label_value User_profile = lit ''user_profile''"

record core_block =
  cb_id :: ustr
  cb_label :: core_label
  cb_subject :: "ustr option"
  cb_content :: ustr
  cb_budget :: int
  cb_version :: int

definition valid_owner :: "core_label \<Rightarrow> ustr option \<Rightarrow> bool" where
  "valid_owner label subject \<longleftrightarrow> (case subject of None \<Rightarrow> label = Persona | Some s \<Rightarrow> strip s \<noteq> [] \<and> label = User_profile)"

definition valid_block :: "core_block \<Rightarrow> bool" where
  "valid_block b \<longleftrightarrow> valid_owner (cb_label b) (cb_subject b) \<and> 50 \<le> cb_budget b \<and> cb_budget b \<le> 20000 \<and> 1 \<le> cb_version b"

record core_audit =
  ca_operation :: ustr
  ca_source :: ustr
  ca_block :: ustr
  ca_subject :: "ustr option"
  ca_label :: ustr
  ca_version :: int
  ca_budget :: int
  ca_used :: int
  ca_length :: int

record core_db =
  cd_blocks :: "core_block list"
  cd_audit :: "core_audit list"
  cd_uuid :: "nat \<Rightarrow> ustr"
  cd_drawn :: nat

text \<open>A write fails with the budget it would exceed, or with an exception of its own.\<close>

datatype core_error = Over_budget int int | Core_failed exn

definition invalid_core :: core_error where
  "invalid_core = Core_failed (Raised (lit ''ValidationError''))"

definition integrity_core :: core_error where
  "integrity_core = Core_failed (Raised (lit ''IntegrityError''))"

definition owned_by :: "core_label \<Rightarrow> ustr option \<Rightarrow> core_block \<Rightarrow> bool" where
  "owned_by label subject b \<longleftrightarrow> cb_label b = label \<and> cb_subject b = subject"

definition used_tokens :: "ustr \<Rightarrow> int" where
  "used_tokens t = (if t \<noteq> [] then estimate_tokens t else 0)"

definition core_uuid :: "core_db \<Rightarrow> ustr \<times> core_db" where
  "core_uuid db = (cd_uuid db (cd_drawn db), db\<lparr>cd_drawn := Suc (cd_drawn db)\<rparr>)"

definition audit_core :: "ustr \<Rightarrow> ustr \<Rightarrow> core_block \<Rightarrow> core_audit" where
  "audit_core operation source b = \<lparr>ca_operation = operation, ca_source = source, ca_block = cb_id b, ca_subject = cb_subject b,
     ca_label = label_value (cb_label b), ca_version = cb_version b, ca_budget = cb_budget b,
     ca_used = used_tokens (cb_content b), ca_length = int (length (cb_content b))\<rparr>"

definition core_write ::
  "core_label \<Rightarrow> ustr option \<Rightarrow> int \<Rightarrow> ustr \<Rightarrow> ustr \<Rightarrow> bool \<Rightarrow> (ustr \<Rightarrow> ustr) \<Rightarrow> (core_error, core_db, core_block) eprog" where
  "core_write label subject budget source operation replace_budget transform db =
     (if \<not> valid_owner label subject then (Inl invalid_core, db)
      else case find (owned_by label subject) (cd_blocks db) of
          None \<Rightarrow>
            (let content = transform []; (bid, db') = core_uuid db;
                 b = \<lparr>cb_id = bid, cb_label = label, cb_subject = subject, cb_content = content, cb_budget = budget, cb_version = 1\<rparr>
             in if used_tokens content > budget then (Inl (Over_budget (used_tokens content) budget), db)
                else if \<not> valid_block b then (Inl invalid_core, db')
                else if bid \<in> cb_id ` set (cd_blocks db) then (Inl integrity_core, db')
                else (Inr b, db'\<lparr>cd_blocks := cd_blocks db @ [b], cd_audit := cd_audit db @ [audit_core operation source b]\<rparr>))
        | Some row \<Rightarrow>
            (let resolved = (if replace_budget then budget else cb_budget row); content = transform (cb_content row);
                 b = row\<lparr>cb_content := content, cb_budget := resolved, cb_version := cb_version row + 1\<rparr>
             in if used_tokens content > resolved then (Inl (Over_budget (used_tokens content) resolved), db)
                else if \<not> valid_block b then (Inl integrity_core, db)
                else (Inr b, db\<lparr>cd_blocks := map (\<lambda>r. if cb_id r = cb_id row then b else r) (cd_blocks db),
                       cd_audit := cd_audit db @ [audit_core operation source b]\<rparr>)))"

definition core_append :: "core_label \<Rightarrow> ustr option \<Rightarrow> ustr \<Rightarrow> int \<Rightarrow> ustr \<Rightarrow> (core_error, core_db, core_block) eprog" where
  "core_append label subject content budget source =
     (if strip content = [] then raisep (Core_failed (Raised (lit ''ValueError'')))
      else core_write label subject budget source (lit ''CORE_APPEND'') False
             (\<lambda>current. py_join newline (filter (\<lambda>p. p \<noteq> []) [current, strip content])))"

definition core_replace :: "core_label \<Rightarrow> ustr option \<Rightarrow> ustr \<Rightarrow> int \<Rightarrow> ustr \<Rightarrow> (core_error, core_db, core_block) eprog" where
  "core_replace label subject content budget source =
     core_write label subject budget source (lit ''CORE_REPLACE'') True (\<lambda>_. strip content)"

definition core_visible :: "ustr \<Rightarrow> core_db \<Rightarrow> core_block list" where
  "core_visible subject db = filter (owned_by Persona None) (cd_blocks db)
     @ filter (owned_by User_profile (Some subject)) (cd_blocks db)"

section \<open>The tools\<close>

text \<open>The repository as the tools see it.\<close>

type_synonym 's core_writer = "core_label \<Rightarrow> ustr option \<Rightarrow> ustr \<Rightarrow> int \<Rightarrow> ustr \<Rightarrow> (core_error, 's, core_block) eprog"

record core_budgets =
  cg_persona :: int
  cg_user_profile :: int

definition memory_tool_spec :: "ustr \<Rightarrow> ustr \<Rightarrow> bool \<Rightarrow> tool_spec" where
  "memory_tool_spec tool_id description approval = \<lparr>ts_id = tool_id, ts_description = description,
     ts_input_schema = [(lit ''type'', FStr (lit ''object'')),
       (lit ''properties'', FObj [
          (lit ''label'', FObj [(lit ''type'', FStr (lit ''string'')), (lit ''enum'', FTuple [FStr (lit ''persona''), FStr (lit ''user_profile'')])]),
          (lit ''content'', FObj [(lit ''type'', FStr (lit ''string'')), (lit ''minLength'', FInt 1)])]),
       (lit ''required'', FTuple [FStr (lit ''label''), FStr (lit ''content'')]),
       (lit ''additionalProperties'', FBool False)],
     ts_read_only = False, ts_idempotent = (tool_id = lit ''memory_replace''), ts_risk = MEDIUM,
     ts_capabilities = [lit ''memory.write''], ts_approval_required = approval\<rparr>"

definition memory_failure :: "ustr \<Rightarrow> ustr \<Rightarrow> tool_result" where
  "memory_failure code message = mk_fail code message False"

text \<open>\<open>_arguments\<close>; \<open>text_of\<close> is \<open>str\<close> of a JSON value that is no string.\<close>

definition memory_arguments ::
  "(json \<Rightarrow> ustr) \<Rightarrow> core_budgets \<Rightarrow> tool_context \<Rightarrow> arguments \<Rightarrow> tool_result + core_label \<times> ustr option \<times> ustr \<times> int" where
  "memory_arguments text_of bud ctx args =
     (let raw = (case map_of args (lit ''label'') of None \<Rightarrow> lit ''None'' | Some (JStr t) \<Rightarrow> t | Some v \<Rightarrow> text_of v) in
      if raw \<noteq> lit ''persona'' \<and> raw \<noteq> lit ''user_profile''
      then Inl (memory_failure (lit ''invalid_arguments'') (lit ''label must be persona or user_profile''))
      else case map_of args (lit ''content'') of
          Some (JStr t) \<Rightarrow>
            if strip t = [] then Inl (memory_failure (lit ''invalid_arguments'') (lit ''content must be a non-empty string''))
            else if raw = lit ''user_profile''
            then Inr (User_profile, Some (tc_actor_identity_id ctx), strip t, cg_user_profile bud)
            else Inr (Persona, None, strip t, cg_persona bud)
        | _ \<Rightarrow> Inl (memory_failure (lit ''invalid_arguments'') (lit ''content must be a non-empty string'')))"

definition memory_success :: "core_block \<Rightarrow> tool_result" where
  "memory_success b = tool_success [(lit ''id'', JStr (cb_id b)), (lit ''label'', JStr (label_value (cb_label b))),
     (lit ''subject_identity_id'', (case cb_subject b of None \<Rightarrow> JNull | Some s \<Rightarrow> JStr s)),
     (lit ''version'', JInt (cb_version b)), (lit ''token_budget'', JInt (cb_budget b))]"

definition limit_message :: "int \<Rightarrow> int \<Rightarrow> ustr" where
  "limit_message used budget = lit ''core block uses '' @ dec_int used @ lit '' tokens; budget is '' @ dec_int budget"

definition run_memory_tool ::
  "(json \<Rightarrow> ustr) \<Rightarrow> core_budgets \<Rightarrow> 's core_writer \<Rightarrow> ustr \<Rightarrow> tool_context \<Rightarrow> arguments \<Rightarrow> ('s, tool_result) prog" where
  "run_memory_tool text_of bud write source ctx args s = (case memory_arguments text_of bud ctx args of
       Inl failure \<Rightarrow> (Inr failure, s)
     | Inr (label, subject, content, budget) \<Rightarrow> (case write label subject content budget source s of
           (Inl (Over_budget used limit), s') \<Rightarrow> (Inr (memory_failure (lit ''memory_budget_exceeded'') (limit_message used limit)), s')
         | (Inl (Core_failed x), s') \<Rightarrow> (Inl x, s')
         | (Inr b, s') \<Rightarrow> (Inr (memory_success b), s')))"

definition memory_append_tool :: "(json \<Rightarrow> ustr) \<Rightarrow> core_budgets \<Rightarrow> bool \<Rightarrow> core_db tool" where
  "memory_append_tool text_of bud approval = \<lparr>tool_spec_of = memory_tool_spec (lit ''memory_append'')
       (lit ''Append a durable note to the persona or current user's profile core memory.'') approval,
     tool_run = run_memory_tool text_of bud core_append (lit ''tool:memory_append'')\<rparr>"

definition memory_replace_tool :: "(json \<Rightarrow> ustr) \<Rightarrow> core_budgets \<Rightarrow> bool \<Rightarrow> core_db tool" where
  "memory_replace_tool text_of bud approval = \<lparr>tool_spec_of = memory_tool_spec (lit ''memory_replace'')
       (lit ''Replace the persona or current user's profile core memory with new content.'') approval,
     tool_run = run_memory_tool text_of bud core_replace (lit ''tool:memory_replace'')\<rparr>"

section \<open>Writes\<close>

text \<open>A write fails and leaves the blocks alone, adds the first block of its owner, or makes the next
  version of the owner's block.\<close>

lemma core_write_cases:
  obtains (failed) x db' where "core_write label subject budget source operation rb f db = (Inl x, db')"
      "cd_blocks db' = cd_blocks db" "cd_audit db' = cd_audit db"
  | (added) b db' where "core_write label subject budget source operation rb f db = (Inr b, db')"
      "\<forall>r \<in> set (cd_blocks db). \<not> owned_by label subject r" "valid_block b" "used_tokens (cb_content b) \<le> cb_budget b"
      "cb_id b \<notin> cb_id ` set (cd_blocks db)" "owned_by label subject b" "cb_version b = 1" "cb_content b = f []"
      "cd_blocks db' = cd_blocks db @ [b]" "cd_audit db' = cd_audit db @ [audit_core operation source b]"
  | (changed) row b db' where "core_write label subject budget source operation rb f db = (Inr b, db')"
      "row \<in> set (cd_blocks db)" "owned_by label subject row" "b = row\<lparr>cb_content := f (cb_content row), cb_budget := (if rb then budget else cb_budget row),
         cb_version := cb_version row + 1\<rparr>" "valid_block b" "used_tokens (cb_content b) \<le> cb_budget b"
      "cd_blocks db' = map (\<lambda>r. if cb_id r = cb_id row then b else r) (cd_blocks db)"
      "cd_audit db' = cd_audit db @ [audit_core operation source b]"
proof (cases "valid_owner label subject")
  case False
  then show thesis using failed by (simp add: core_write_def)
next
  case True
  show thesis
  proof (cases "find (owned_by label subject) (cd_blocks db)")
    case None
    then have none: "\<forall>r \<in> set (cd_blocks db). \<not> owned_by label subject r" by (simp add: find_None_iff)
    let ?b = "\<lparr>cb_id = fst (core_uuid db), cb_label = label, cb_subject = subject, cb_content = f [], cb_budget = budget, cb_version = 1\<rparr>"
    show thesis
    proof (cases "used_tokens (f []) > budget \<or> \<not> valid_block ?b \<or> fst (core_uuid db) \<in> cb_id ` set (cd_blocks db)")
      case bad: True
      then have "\<exists>x db'. core_write label subject budget source operation rb f db = (Inl x, db') \<and> cd_blocks db' = cd_blocks db \<and> cd_audit db' = cd_audit db"
        using None True by (auto simp: core_write_def Let_def split_beta core_uuid_def)
      then show thesis using failed by blast
    next
      case False
      let ?db = "(snd (core_uuid db))\<lparr>cd_blocks := cd_blocks db @ [?b], cd_audit := cd_audit db @ [audit_core operation source ?b]\<rparr>"
      have "core_write label subject budget source operation rb f db = (Inr ?b, ?db)"
        using False None True by (simp add: core_write_def Let_def split_beta)
      then show thesis using added [of ?b ?db] none False by (simp add: owned_by_def)
    qed
  next
    case (Some row)
    then have row: "row \<in> set (cd_blocks db)" "owned_by label subject row" by (auto simp: find_Some_iff)
    let ?b = "row\<lparr>cb_content := f (cb_content row), cb_budget := (if rb then budget else cb_budget row), cb_version := cb_version row + 1\<rparr>"
    show thesis
    proof (cases "used_tokens (cb_content ?b) > cb_budget ?b \<or> \<not> valid_block ?b")
      case bad: True
      then have "\<exists>x db'. core_write label subject budget source operation rb f db = (Inl x, db') \<and> cd_blocks db' = cd_blocks db \<and> cd_audit db' = cd_audit db"
        using Some True by (auto simp: core_write_def Let_def)
      then show thesis using failed by blast
    next
      case False
      let ?db = "db\<lparr>cd_blocks := map (\<lambda>r. if cb_id r = cb_id row then ?b else r) (cd_blocks db), cd_audit := cd_audit db @ [audit_core operation source ?b]\<rparr>"
      have "core_write label subject budget source operation rb f db = (Inr ?b, ?db)"
        using False Some True by (simp add: core_write_def Let_def)
      then show thesis using changed [of ?b ?db row] row False by simp
    qed
  qed
qed

section \<open>The invariant of the blocks\<close>

definition block_owner :: "core_block \<Rightarrow> core_label \<times> ustr option" where
  "block_owner b = (cb_label b, cb_subject b)"

text \<open>The audit rows of a block are its versions, from the first to the current.\<close>

definition audited :: "core_audit list \<Rightarrow> core_block \<Rightarrow> bool" where
  "audited rows b \<longleftrightarrow> map ca_version (filter (\<lambda>a. ca_block a = cb_id b) rows) = map int [1..<Suc (nat (cb_version b))]"

definition core_inv :: "core_db \<Rightarrow> bool" where
  "core_inv db \<longleftrightarrow> distinct (map cb_id (cd_blocks db)) \<and> distinct (map block_owner (cd_blocks db)) \<and>
     (\<forall>b \<in> set (cd_blocks db). valid_block b \<and> used_tokens (cb_content b) \<le> cb_budget b \<and> audited (cd_audit db) b) \<and>
     ca_block ` set (cd_audit db) \<subseteq> cb_id ` set (cd_blocks db)"

datatype core_op =
    Append_core core_label "ustr option" ustr int ustr
  | Replace_core core_label "ustr option" ustr int ustr

fun core_step :: "core_op \<Rightarrow> core_db \<Rightarrow> core_db" where
  "core_step (Append_core label subject content budget source) db = snd (core_append label subject content budget source db)"
| "core_step (Replace_core label subject content budget source) db = snd (core_replace label subject content budget source db)"

definition new_core_db :: "(nat \<Rightarrow> ustr) \<Rightarrow> core_db" where
  "new_core_db uuids = \<lparr>cd_blocks = [], cd_audit = [], cd_uuid = uuids, cd_drawn = 0\<rparr>"

lemma audit_core_simps [simp]: "ca_block (audit_core operation source b) = cb_id b" "ca_version (audit_core operation source b) = cb_version b"
  by (simp_all add: audit_core_def)

lemma no_audit: "core_inv db \<Longrightarrow> i \<notin> cb_id ` set (cd_blocks db) \<Longrightarrow> filter (\<lambda>a. ca_block a = i) (cd_audit db) = []"
  by (auto simp: core_inv_def filter_empty_conv)

lemma core_inv_write:
  assumes inv: "core_inv db"
  shows "core_inv (snd (core_write label subject budget source operation rb f db))"
proof (cases rule: core_write_cases [of label subject budget source operation rb f db])
  case (failed x db')
  then show ?thesis using inv by (simp add: core_inv_def)
next
  case (added b db')
  have "block_owner b \<notin> block_owner ` set (cd_blocks db)"
    using added(2,6) by (auto simp: block_owner_def owned_by_def)
  moreover have "audited (cd_audit db') b"
    using no_audit [OF inv added(5)] added(7,10) by (simp add: audited_def)
  moreover have "audited (cd_audit db') c" if "c \<in> set (cd_blocks db)" for c
  proof -
    have "cb_id c \<noteq> cb_id b" using added(5) that by (metis image_eqI)
    then show ?thesis using inv that added(10) by (auto simp: audited_def core_inv_def)
  qed
  ultimately show ?thesis using inv added by (auto simp: core_inv_def)
next
  case (changed row b db')
  have inj: "r = row" if "r \<in> set (cd_blocks db)" "cb_id r = cb_id row" for r
    using inv changed(2) that by (auto simp: core_inv_def distinct_map inj_on_def)
  have b: "cb_id b = cb_id row" "block_owner b = block_owner row" "cb_version b = cb_version row + 1"
    using changed(4) by (simp_all add: block_owner_def)
  have keep: "map g (cd_blocks db') = map g (cd_blocks db)" if "g b = g row" for g :: "core_block \<Rightarrow> 'b"
    unfolding changed(7) map_map using inj that by (intro map_cong) auto
  have ids: "map cb_id (cd_blocks db') = map cb_id (cd_blocks db)" and owners: "map block_owner (cd_blocks db') = map block_owner (cd_blocks db)"
    using keep b by blast+
  have "audited (cd_audit db') b"
  proof -
    have "audited (cd_audit db) row" "1 \<le> cb_version row" using inv changed(2) by (auto simp: core_inv_def valid_block_def)
    moreover from this(2) have "nat (cb_version row + 1) = Suc (nat (cb_version row))" by simp
    ultimately show ?thesis using b by (simp add: audited_def changed(8))
  qed
  moreover have "audited (cd_audit db') c" if "c \<in> set (cd_blocks db)" "cb_id c \<noteq> cb_id row" for c
    using inv that b(1) changed(8) by (auto simp: audited_def core_inv_def)
  moreover have "c = b \<or> c \<in> set (cd_blocks db) \<and> cb_id c \<noteq> cb_id row" if "c \<in> set (cd_blocks db')" for c
    using that unfolding changed(7) by (auto split: if_splits)
  ultimately have "\<forall>c \<in> set (cd_blocks db'). valid_block c \<and> used_tokens (cb_content c) \<le> cb_budget c \<and> audited (cd_audit db') c"
    using changed(5,6) inv unfolding core_inv_def by blast
  moreover have "ca_block ` set (cd_audit db') \<subseteq> cb_id ` set (cd_blocks db')"
  proof -
    have "cb_id ` set (cd_blocks db') = cb_id ` set (cd_blocks db)" using arg_cong [OF ids, of set] by (simp only: set_map)
    then show ?thesis using inv changed(2,8) b(1) by (auto simp: core_inv_def)
  qed
  ultimately show ?thesis using inv ids owners changed(1) by (simp add: core_inv_def)
qed

lemma core_inv_run: "core_inv db \<Longrightarrow> core_inv (fold core_step ops db)"
proof (induction ops arbitrary: db)
  case (Cons op ops)
  have "core_inv (core_step op db)"
    using core_inv_write [OF Cons.prems] Cons.prems by (cases op) (auto simp: core_append_def core_replace_def)
  then show ?case using Cons.IH by simp
qed simp

section \<open>Properties\<close>

text \<open>
  core memory stays within its budgets: after any writes every block is valid and holds
  at most as many tokens as its budget, an owner has at most one block, and the audit rows of a
  block are its versions 1, 2, 3 and so on up to the current one.
\<close>

theorem core_memory_bounded:
  "core_inv (fold core_step ops (new_core_db uuids))"
  by (rule core_inv_run) (simp add: core_inv_def new_core_db_def)

text \<open>What the two tools may change for a person: the persona and that person's profile.\<close>

definition foreign_block :: "ustr \<Rightarrow> core_block \<Rightarrow> bool" where
  "foreign_block person b \<longleftrightarrow> cb_label b = User_profile \<and> cb_subject b \<noteq> Some person"

lemma core_write_foreign:
  assumes "core_inv db" and "subject = None \<or> subject = Some person"
  shows "filter (foreign_block person) (cd_blocks (snd (core_write label subject budget source operation rb f db)))
     = filter (foreign_block person) (cd_blocks db)"
proof (cases rule: core_write_cases [of label subject budget source operation rb f db])
  case (failed x db')
  then show ?thesis by simp
next
  case (added b db')
  then have "\<not> foreign_block person b"
    using assms(2) by (auto simp: foreign_block_def owned_by_def valid_block_def valid_owner_def)
  then show ?thesis using added by simp
next
  case (changed row b db')
  have "\<not> foreign_block person row" "\<not> foreign_block person b"
    using changed(3,4,5) assms(2) by (auto simp: foreign_block_def owned_by_def valid_block_def valid_owner_def)
  moreover have "r = row" if "r \<in> set (cd_blocks db)" "cb_id r = cb_id row" for r
    using assms(1) changed(2) that by (auto simp: core_inv_def distinct_map inj_on_def)
  ultimately have "filter (foreign_block person) (map (\<lambda>r. if cb_id r = cb_id row then b else r) rows) = filter (foreign_block person) rows"
    if "set rows \<subseteq> set (cd_blocks db)" for rows
    using that by (induction rows) auto
  then show ?thesis using changed by simp
qed

text \<open>
  C19: a member cannot write the profile of another: in any reachable tables a run of either
  memory tool, whatever arguments the model gives it, leaves the profile block of every
  person other than the one it acts for exactly as it was.
\<close>

theorem memory_tools_isolated:
  assumes "db = fold core_step ops (new_core_db uuids)"
    and "tool \<in> {memory_append_tool text_of bud approval, memory_replace_tool text_of bud approval}"
  shows "filter (foreign_block (tc_actor_identity_id ctx)) (cd_blocks (snd (tool_run tool ctx args db)))
     = filter (foreign_block (tc_actor_identity_id ctx)) (cd_blocks db)"
proof -
  let ?me = "tc_actor_identity_id ctx"
  have inv: "core_inv db"
    unfolding assms(1) by (rule core_inv_run) (simp add: core_inv_def new_core_db_def)
  have args: "subject = None \<or> subject = Some ?me"
    if "memory_arguments text_of bud ctx args = Inr (label, subject, content, budget)" for label subject content budget
    using that by (auto simp: memory_arguments_def Let_def split: if_splits option.splits json.splits)
  have run: "filter (foreign_block ?me) (cd_blocks (snd (run_memory_tool text_of bud put source ctx args db)))
      = filter (foreign_block ?me) (cd_blocks db)"
    if w: "\<And>label subject content budget. subject = None \<or> subject = Some ?me \<Longrightarrow>
        filter (foreign_block ?me) (cd_blocks (snd (put label subject content budget source db))) = filter (foreign_block ?me) (cd_blocks db)"
    for put source
  proof (cases "memory_arguments text_of bud ctx args")
    case (Inl r)
    then show ?thesis by (simp add: run_memory_tool_def)
  next
    case (Inr p)
    obtain label subject content budget where p: "p = (label, subject, content, budget)" by (cases p)
    have "snd (run_memory_tool text_of bud put source ctx args db) = snd (put label subject content budget source db)"
      by (auto simp: run_memory_tool_def Inr p split: prod.split sum.split core_error.split)
    then show ?thesis using w [OF args] Inr p by simp
  qed
  have app: "filter (foreign_block ?me) (cd_blocks (snd (core_append label subject content budget source db))) = filter (foreign_block ?me) (cd_blocks db)"
    if "subject = None \<or> subject = Some ?me" for label subject content budget source
    using core_write_foreign [OF inv that] by (simp add: core_append_def)
  have rep: "filter (foreign_block ?me) (cd_blocks (snd (core_replace label subject content budget source db))) = filter (foreign_block ?me) (cd_blocks db)"
    if "subject = None \<or> subject = Some ?me" for label subject content budget source
    using core_write_foreign [OF inv that] by (simp add: core_replace_def)
  from assms(2) show ?thesis
    using run [of core_append, OF app] run [of core_replace, OF rep]
    by (auto simp: memory_append_tool_def memory_replace_tool_def)
qed

definition core_context :: tool_context where
  "core_context = \<lparr>tc_invocation_id = [105], tc_conversation = \<lparr>ck_connection_id = [99], ck_chat_kind = DIRECT, ck_chat_id = [53],
     ck_thread_id = None\<rparr>, tc_actor_identity_id = [53], tc_granted_capabilities = [], tc_correlation_id = [116]\<rparr>"

theorem memory_tools_isolated_witness:
  "let db = fold core_step [Replace_core User_profile (Some [54]) [97] 100 []] (new_core_db (\<lambda>n. [n]));
       db' = snd (tool_run (memory_replace_tool (\<lambda>_. []) \<lparr>cg_persona = 50, cg_user_profile = 50\<rparr> False) core_context
         [(lit ''label'', JStr (lit ''user_profile'')), (lit ''content'', JStr [98])] db)
   in filter (foreign_block [53]) (cd_blocks db') = cd_blocks db \<and> cd_blocks db \<noteq> []"
proof -
  let ?db = "fold core_step [Replace_core User_profile (Some [54]) [97] 100 []] (new_core_db (\<lambda>n. [n]))"
  have db: "filter (foreign_block [53]) (cd_blocks ?db) = cd_blocks ?db \<and> cd_blocks ?db \<noteq> []"
    by (simp add: core_replace_def core_write_def new_core_db_def valid_owner_def valid_block_def core_uuid_def Let_def used_tokens_def
        estimate_tokens_def count_chars.simps foreign_block_def strip_def lstrip_def rstrip_def py_space_def)
  have t: "memory_replace_tool (\<lambda>_. []) \<lparr>cg_persona = 50, cg_user_profile = 50\<rparr> False \<in>
      {memory_append_tool (\<lambda>_. []) \<lparr>cg_persona = 50, cg_user_profile = 50\<rparr> False, memory_replace_tool (\<lambda>_. []) \<lparr>cg_persona = 50, cg_user_profile = 50\<rparr> False}"
    by simp
  have me: "tc_actor_identity_id core_context = [53]" by (simp add: core_context_def)
  show ?thesis
    using memory_tools_isolated [OF refl t, where ctx = core_context and uuids = "\<lambda>n. [n]"
        and ops = "[Replace_core User_profile (Some [54]) [97] 100 []]"
        and args = "[(lit ''label'', JStr (lit ''user_profile'')), (lit ''content'', JStr [98])]", unfolded me] db
    unfolding Let_def by simp
qed

end
