(* ===== verification/WebTools.thy ===== *)
theory WebTools
  imports ToolExec Payload "HOL-Library.Word"
begin

text \<open>
  The built-in web tools and the plugin tools as the worker sees them: \<open>tools/fetch.py\<close>,
  \<open>tools/search.py\<close> and \<open>tools/plugins.py\<close>. Addresses are words of 32 and 128 bits with the
  networks of Python's \<open>ipaddress\<close> (3.12); the HTTP client, the name service, URL splitting,
  UTF-8 decoding and the HTML tokenizer are parameters. The main results: the first request is
  never made for a host with a non-public address among its resolved ones, while the hosts that
  redirects lead to are not checked; the networks are the intended ranges, the fetched text is
  bounded, and a plugin never takes the place of a built-in tool.
\<close>

section \<open>Addresses\<close>

datatype ip_address = IPv4 "32 word" | IPv6 "128 word"

text \<open>Membership in a network \<open>net/prefix\<close>: the first bits agree.\<close>

definition in_net :: "'a::len word \<Rightarrow> nat \<Rightarrow> 'a word \<Rightarrow> bool" where
  "in_net net prefix w \<longleftrightarrow> drop_bit (LENGTH('a) - prefix) w = drop_bit (LENGTH('a) - prefix) net"

definition in_nets :: "('a::len word \<times> nat) list \<Rightarrow> 'a word \<Rightarrow> bool" where
  "in_nets nets w \<longleftrightarrow> list_ex (\<lambda>(net, prefix). in_net net prefix w) nets"

definition private_v4 :: "(32 word \<times> nat) list" where
  "private_v4 = [(0, 8), (0x0A000000, 8), (0x7F000000, 8), (0xA9FE0000, 16), (0xAC100000, 12), (0xC0000000, 24),
     (0xC00000AA, 31), (0xC0000200, 24), (0xC0A80000, 16), (0xC6120000, 15), (0xC6336400, 24), (0xCB007100, 24),
     (0xF0000000, 4), (0xFFFFFFFF, 32)]"

definition private_v4_exceptions :: "(32 word \<times> nat) list" where
  "private_v4_exceptions = [(0xC0000009, 32), (0xC000000A, 32)]"

definition private_v6 :: "(128 word \<times> nat) list" where
  "private_v6 = [(1, 128), (0, 128), (0xFFFF00000000, 96), (0x0064FF9B000100000000000000000000, 48),
     (0x01000000000000000000000000000000, 64), (0x20010000000000000000000000000000, 23),
     (0x20010DB8000000000000000000000000, 32), (0x20020000000000000000000000000000, 16),
     (0xFC000000000000000000000000000000, 7), (0xFE800000000000000000000000000000, 10)]"

definition private_v6_exceptions :: "(128 word \<times> nat) list" where
  "private_v6_exceptions = [(0x20010001000000000000000000000001, 128), (0x20010001000000000000000000000002, 128),
     (0x20010003000000000000000000000000, 32), (0x20010004011200000000000000000000, 48),
     (0x20010020000000000000000000000000, 28), (0x20010030000000000000000000000000, 28)]"

definition reserved_v6 :: "(128 word \<times> nat) list" where
  "reserved_v6 = [(0, 8), (0x01000000000000000000000000000000, 8), (0x02000000000000000000000000000000, 7),
     (0x04000000000000000000000000000000, 6), (0x08000000000000000000000000000000, 5), (0x10000000000000000000000000000000, 4),
     (0x40000000000000000000000000000000, 3), (0x60000000000000000000000000000000, 3), (0x80000000000000000000000000000000, 3),
     (0xA0000000000000000000000000000000, 3), (0xC0000000000000000000000000000000, 3), (0xE0000000000000000000000000000000, 4),
     (0xF0000000000000000000000000000000, 5), (0xF8000000000000000000000000000000, 6), (0xFE000000000000000000000000000000, 9)]"

definition is_private_v4 :: "32 word \<Rightarrow> bool" where
  "is_private_v4 w \<longleftrightarrow> in_nets private_v4 w \<and> \<not> in_nets private_v4_exceptions w"

fun is_private :: "ip_address \<Rightarrow> bool" where
  "is_private (IPv4 w) = is_private_v4 w"
| "is_private (IPv6 w) =
     (if in_net 0xFFFF00000000 96 w then is_private_v4 (ucast w)
      else in_nets private_v6 w \<and> \<not> in_nets private_v6_exceptions w)"

text \<open>Loopback, link-local, reserved, multicast or unspecified.\<close>

fun is_special :: "ip_address \<Rightarrow> bool" where
  "is_special (IPv4 w) = (in_net 0x7F000000 8 w \<or> in_net 0xA9FE0000 16 w \<or> in_net 0xF0000000 4 w \<or> in_net 0xE0000000 4 w \<or> w = 0)"
| "is_special (IPv6 w) = (w = 1 \<or> in_net 0xFE800000000000000000000000000000 10 w \<or> in_nets reserved_v6 w \<or>
     in_net 0xFF000000000000000000000000000000 8 w \<or> w = 0)"

definition non_public :: "ip_address \<Rightarrow> bool" where
  "non_public a \<longleftrightarrow> is_private a \<or> is_special a"

section \<open>Fetching a page\<close>

datatype html_event = Start_tag ustr | End_tag ustr | Html_data ustr

record text_extractor =
  he_chunks :: "ustr list"
  he_skip :: nat
  he_in_title :: bool
  he_title :: "ustr option"

definition new_extractor :: text_extractor where
  "new_extractor = \<lparr>he_chunks = [], he_skip = 0, he_in_title = False, he_title = None\<rparr>"

definition skipped_tags :: "ustr list" where
  "skipped_tags = [lit ''script'', lit ''style'', lit ''noscript'']"

fun extract_event :: "html_event \<Rightarrow> text_extractor \<Rightarrow> text_extractor" where
  "extract_event (Start_tag tag) x =
     (if tag \<in> set skipped_tags then x\<lparr>he_skip := Suc (he_skip x)\<rparr>
      else if tag = lit ''title'' then x\<lparr>he_in_title := True\<rparr> else x)"
| "extract_event (End_tag tag) x =
     (if tag \<in> set skipped_tags \<and> 0 < he_skip x then x\<lparr>he_skip := he_skip x - 1\<rparr>
      else if tag = lit ''title'' then x\<lparr>he_in_title := False\<rparr> else x)"
| "extract_event (Html_data d) x =
     (let t = strip d
      in if t = [] then x
         else if he_in_title x then (if he_title x = None then x\<lparr>he_title := Some t\<rparr> else x)
         else if he_skip x = 0 then x\<lparr>he_chunks := he_chunks x @ [t]\<rparr> else x)"

definition extracted_text :: "text_extractor \<Rightarrow> ustr" where
  "extracted_text x = py_join [32] (he_chunks x)"

text \<open>What the HTTP client answers to a streamed request: an \<open>HTTPError\<close>, or a status and chunks
  after which another \<open>HTTPError\<close> may come.\<close>

datatype streamed = Stream_fault ustr | Streamed int "nat list list" "ustr option"

record 's fetch_env =
  fe_split :: "ustr \<Rightarrow> exn + ustr \<times> ustr option"
  fe_resolve :: "ustr \<Rightarrow> 's \<Rightarrow> ustr list option \<times> 's"
  fe_address :: "ustr \<Rightarrow> ip_address option"
  fe_stream :: "ustr \<Rightarrow> ('s, streamed) prog"
  fe_decode :: "nat list \<Rightarrow> ustr"
  fe_tokens :: "ustr \<Rightarrow> html_event list"
  fe_max_bytes :: int
  fe_max_text :: int

text \<open>The loop over the chunks; \<open>True\<close> when it stopped at the limit.\<close>

fun collect_chunks :: "int \<Rightarrow> nat list \<Rightarrow> nat list list \<Rightarrow> ustr option \<Rightarrow> ustr + nat list \<times> bool" where
  "collect_chunks limit acc [] fault = (case fault of Some e \<Rightarrow> Inl e | None \<Rightarrow> Inr (acc, False))"
| "collect_chunks limit acc (c # cs) fault =
     (if int (length (acc @ c)) \<ge> limit then Inr (acc @ c, True) else collect_chunks limit (acc @ c) cs fault)"

fun check_addresses :: "(ustr \<Rightarrow> ip_address option) \<Rightarrow> ustr \<Rightarrow> ustr list \<Rightarrow> ustr option" where
  "check_addresses parse host [] = None"
| "check_addresses parse host (a # rest) = (case parse a of
       None \<Rightarrow> Some (lit ''host '' @ host @ lit '' resolved to a non-IP address'')
     | Some ip \<Rightarrow> if non_public ip then Some (lit ''host '' @ host @ lit '' resolves to a non-public address'')
         else check_addresses parse host rest)"

definition ssrf_reason :: "('s, 'z) fetch_env_scheme \<Rightarrow> ustr \<Rightarrow> 's \<Rightarrow> ustr option \<times> 's" where
  "ssrf_reason env host s = (case fe_resolve env host s of
       (None, s') \<Rightarrow> (Some (lit ''could not resolve host '' @ host), s')
     | (Some [], s') \<Rightarrow> (Some (lit ''could not resolve host '' @ host), s')
     | (Some as, s') \<Rightarrow> (check_addresses (fe_address env) host as, s'))"

definition py_take :: "int \<Rightarrow> 'a list \<Rightarrow> 'a list" where
  "py_take n xs = (if n \<ge> 0 then take (nat n) xs else take (length xs - nat (- n)) xs)"

definition page_result :: "('s, 'z) fetch_env_scheme \<Rightarrow> ustr \<Rightarrow> nat list \<Rightarrow> bool \<Rightarrow> tool_result" where
  "page_result env url bytes stopped =
     (let x = fold extract_event (fe_tokens env (fe_decode env (py_take (fe_max_bytes env) bytes))) new_extractor;
          full = extracted_text x;
          long = (int (length full) > fe_max_text env);
          text = (if long then py_take (fe_max_text env - 1) full @ [8230] else full);
          title = (case he_title x of None \<Rightarrow> [] | Some t \<Rightarrow> t)
      in tool_success [(lit ''url'', JStr url), (lit ''title'', JStr title), (lit ''text'', JStr text),
           (lit ''truncated'', JBool (stopped \<or> long)),
           (lit ''sources'', JArr [JObj [(lit ''label'', JStr (if title \<noteq> [] then title else url)), (lit ''uri'', JStr url)]])])"

definition fetch_fault :: "ustr \<Rightarrow> tool_result" where
  "fetch_fault name = mk_fail (lit ''fetch_failed'') (lit ''fetch error: '' @ name) True"

definition fetch_page :: "('s, 'z) fetch_env_scheme \<Rightarrow> ustr \<Rightarrow> ('s, tool_result) prog" where
  "fetch_page env url = bindp (fe_stream env url) (\<lambda>answer. retp (case answer of
       Stream_fault e \<Rightarrow> fetch_fault e
     | Streamed status chunks fault \<Rightarrow>
         if status \<ge> 400 then mk_fail (lit ''fetch_failed'') (lit ''upstream returned HTTP '' @ dec_int status) (status \<ge> 500 \<or> status = 429)
         else (case collect_chunks (fe_max_bytes env) [] chunks fault of
             Inl e \<Rightarrow> fetch_fault e
           | Inr (bytes, stopped) \<Rightarrow> page_result env url bytes stopped)))"

definition fetch_run :: "('s, 'z) fetch_env_scheme \<Rightarrow> arguments \<Rightarrow> ('s, tool_result) prog" where
  "fetch_run env args = (case map_of args (lit ''url'') of
       Some (JStr url) \<Rightarrow>
         if strip url = [] then retp (mk_fail (lit ''invalid_arguments'') (lit ''the 'url' argument is required'') False)
         else (case fe_split env (strip url) of
             Inl x \<Rightarrow> raisep x
           | Inr (scheme, host) \<Rightarrow>
               (case host of
                  Some h \<Rightarrow> if scheme \<notin> {lit ''http'', lit ''https''} \<or> h = []
                      then retp (mk_fail (lit ''invalid_url'') (lit ''only absolute http(s) URLs are allowed'') False)
                      else bindp (liftp (ssrf_reason env h)) (\<lambda>blocked. case blocked of
                          Some reason \<Rightarrow> retp (mk_fail (lit ''ssrf_blocked'') reason False)
                        | None \<Rightarrow> fetch_page env url)
                | None \<Rightarrow> retp (mk_fail (lit ''invalid_url'') (lit ''only absolute http(s) URLs are allowed'') False)))
     | _ \<Rightarrow> retp (mk_fail (lit ''invalid_arguments'') (lit ''the 'url' argument is required'') False))"

text \<open>
  The tool as the worker assembles it (\<open>services/agent_worker.py\<close>): its client follows
  redirects. \<open>wc_request\<close> is one request of the client, \<open>wc_join\<close> its reading of a
  \<open>Location\<close> header; as httpx documents, the client reads the body of a redirect and goes on
  at the new URL, \<open>wc_max_redirects\<close> times at most. No address is checked on the way.
\<close>

datatype hop =
    Hop_fault ustr
  | Hop_redirect ustr "ustr option"
  | Hop_answer int "nat list list" "ustr option"

record 's web_client =
  wc_request :: "ustr \<Rightarrow> ('s, hop) prog"
  wc_join :: "ustr \<Rightarrow> ustr \<Rightarrow> ustr + ustr"
  wc_max_redirects :: nat

definition follow_hop :: "'s web_client \<Rightarrow> ustr \<Rightarrow> (ustr \<Rightarrow> ('s, streamed) prog) \<Rightarrow> hop \<Rightarrow> ('s, streamed) prog" where
  "follow_hop web url onward hop = (case hop of
       Hop_fault e \<Rightarrow> retp (Stream_fault e)
     | Hop_answer status chunks fault \<Rightarrow> retp (Streamed status chunks fault)
     | Hop_redirect location fault \<Rightarrow> (case fault of
           Some e \<Rightarrow> retp (Stream_fault e)
         | None \<Rightarrow> (case wc_join web url location of
               Inl e \<Rightarrow> retp (Stream_fault e)
             | Inr target \<Rightarrow> onward target)))"

primrec client_stream :: "'s web_client \<Rightarrow> nat \<Rightarrow> ustr \<Rightarrow> ('s, streamed) prog" where
  "client_stream web 0 url = bindp (wc_request web url)
     (follow_hop web url (\<lambda>_. retp (Stream_fault (lit ''TooManyRedirects''))))"
| "client_stream web (Suc n) url = bindp (wc_request web url) (follow_hop web url (client_stream web n))"

definition worker_fetch :: "'s web_client \<Rightarrow> ('s, 'z) fetch_env_scheme \<Rightarrow> ('s, 'z) fetch_env_scheme" where
  "worker_fetch web env = env\<lparr>fe_stream := client_stream web (wc_max_redirects web)\<rparr>"

definition one_string_schema :: "ustr \<Rightarrow> ustr \<Rightarrow> (ustr, frozen) dict" where
  "one_string_schema key description = [(lit ''type'', FStr (lit ''object'')),
     (lit ''properties'', FObj [(key, FObj [(lit ''type'', FStr (lit ''string'')), (lit ''description'', FStr description)])]),
     (lit ''required'', FTuple [FStr key]), (lit ''additionalProperties'', FBool False)]"

definition fetch_spec :: tool_spec where
  "fetch_spec = \<lparr>ts_id = lit ''fetch_url'', ts_description = lit ''Fetch a public web page by URL and return its readable text. '' @
       lit ''Private, loopback, and non-HTTP addresses are refused.'',
     ts_input_schema = one_string_schema (lit ''url'') (lit ''An absolute http(s) URL.''), ts_read_only = True, ts_idempotent = True,
     ts_risk = MEDIUM, ts_capabilities = [lit ''web.fetch''], ts_approval_required = False\<rparr>"

definition fetch_tool :: "('s, 'z) fetch_env_scheme \<Rightarrow> 's tool" where
  "fetch_tool env = \<lparr>tool_spec_of = fetch_spec, tool_run = (\<lambda>ctx. fetch_run env)\<rparr>"

section \<open>Searching\<close>

datatype web_answer = Web_fault ustr | Web_json json | Web_garbage

record 's search_env =
  se_get :: "ustr \<Rightarrow> ustr \<Rightarrow> ('s, web_answer) prog"
  se_url :: ustr
  se_max_results :: nat

definition strip_slashes :: "ustr \<Rightarrow> ustr" where
  "strip_slashes t = rev (dropWhile (\<lambda>c. c = 47) (rev t))"

definition search_entry :: "json \<Rightarrow> (ustr \<times> ustr \<times> ustr) list" where
  "search_entry raw = (case as_string_mapping raw of None \<Rightarrow> []
     | Some entry \<Rightarrow>
        (let pick = (\<lambda>key. case get_str entry key of None \<Rightarrow> [] | Some t \<Rightarrow> t);
             title = pick (lit ''title''); url = pick (lit ''url'')
         in if url = [] then [] else [(title, url, pick (lit ''content''))]))"

definition search_result :: "nat \<Rightarrow> ustr \<Rightarrow> json \<Rightarrow> tool_result" where
  "search_result limit query payload =
     (let body = (case as_string_mapping payload of None \<Rightarrow> [] | Some b \<Rightarrow> b);
          hits = concat (map search_entry (take limit (get_sequence body (lit ''results''))))
      in tool_success [(lit ''query'', JStr query),
           (lit ''results'', JArr (map (\<lambda>(t, u, sn). JObj [(lit ''title'', JStr t), (lit ''url'', JStr u), (lit ''snippet'', JStr sn)]) hits)),
           (lit ''sources'', JArr (map (\<lambda>(t, u, sn). JObj [(lit ''label'', JStr (if t \<noteq> [] then t else u)), (lit ''uri'', JStr u)]) hits))])"

definition search_run :: "'s search_env \<Rightarrow> arguments \<Rightarrow> ('s, tool_result) prog" where
  "search_run env args = (case map_of args (lit ''query'') of
       Some (JStr query) \<Rightarrow>
         if strip query = [] then retp (mk_fail (lit ''invalid_arguments'') (lit ''the 'query' argument is required'') False)
         else bindp (se_get env (strip_slashes (se_url env) @ lit ''/search'') query) (\<lambda>answer. case answer of
             Web_fault e \<Rightarrow> retp (mk_fail (lit ''search_failed'') (lit ''search backend error: '' @ e) True)
           | Web_garbage \<Rightarrow> raisep (Raised (lit ''JSONDecodeError''))
           | Web_json payload \<Rightarrow> retp (search_result (se_max_results env) query payload))
     | _ \<Rightarrow> retp (mk_fail (lit ''invalid_arguments'') (lit ''the 'query' argument is required'') False))"

definition search_spec :: tool_spec where
  "search_spec = \<lparr>ts_id = lit ''web_search'', ts_description = lit ''Search the web for current information. Returns a list of results '' @
       lit ''with titles, URLs, and short snippets.'',
     ts_input_schema = one_string_schema (lit ''query'') (lit ''The search query.''), ts_read_only = True, ts_idempotent = True,
     ts_risk = LOW, ts_capabilities = [lit ''web.search''], ts_approval_required = False\<rparr>"

section \<open>Plugin tools\<close>

record plugin_proxy =
  px_spec :: tool_spec
  px_plugin_id :: ustr

datatype broker_answer = Broker_fault ustr | Broker_answer int "json option"

record 's catalog_env =
  ct_static :: "'s registry"
  ct_get :: "('s, broker_answer) prog"
  ct_post :: "plugin_proxy \<Rightarrow> tool_context \<Rightarrow> arguments \<Rightarrow> ('s, broker_answer) prog"
  ct_clock :: "'s \<Rightarrow> real"
  ct_ttl :: real
  ct_spec :: "json option \<Rightarrow> tool_spec option"
  ct_result :: "json option \<Rightarrow> tool_result option"

record catalog_state =
  cs_tools :: "(ustr, plugin_proxy) dict"
  cs_fetched :: "real option"

definition decoded_mapping :: "json option \<Rightarrow> exn + (ustr, json) dict" where
  "decoded_mapping body = (case body of
       None \<Rightarrow> Inl (Raised (lit ''JSONDecodeError''))
     | Some v \<Rightarrow> Inr (case as_string_mapping v of None \<Rightarrow> [] | Some d \<Rightarrow> d))"

definition proxy_run :: "('s, 'z) catalog_env_scheme \<Rightarrow> plugin_proxy \<Rightarrow> tool_context \<Rightarrow> arguments \<Rightarrow> ('s, tool_result) prog" where
  "proxy_run env px ctx args = bindp (ct_post env px ctx args) (\<lambda>answer. case answer of
       Broker_fault e \<Rightarrow> retp (mk_fail (lit ''plugin_unreachable'') (lit ''broker call failed: '' @ e) True)
     | Broker_answer status body \<Rightarrow>
         if status = 404 then retp (mk_fail (lit ''unknown_tool'') (ts_id (px_spec px) @ lit '' is no longer registered'') False)
         else if status = 504 then retp (mk_fail (lit ''timeout'') (ts_id (px_spec px) @ lit '' timed out in the runner'') True)
         else if status \<ge> 400 then retp (mk_fail (lit ''plugin_error'') (lit ''broker returned HTTP '' @ dec_int status) False)
         else (case decoded_mapping body of
             Inl x \<Rightarrow> raisep x
           | Inr d \<Rightarrow> retp (case ct_result env (map_of d (lit ''result'')) of
                 Some r \<Rightarrow> r
               | None \<Rightarrow> mk_fail (lit ''invalid_result'') (px_plugin_id px @ lit '' returned a malformed result'') False)))"

definition proxy_tool :: "('s, 'z) catalog_env_scheme \<Rightarrow> plugin_proxy \<Rightarrow> 's tool" where
  "proxy_tool env px = \<lparr>tool_spec_of = px_spec px, tool_run = proxy_run env px\<rparr>"

definition catalog_entry :: "('s, 'z) catalog_env_scheme \<Rightarrow> json \<Rightarrow> (ustr, plugin_proxy) dict \<Rightarrow> (ustr, plugin_proxy) dict" where
  "catalog_entry env raw d = (case as_string_mapping raw of
       None \<Rightarrow> d
     | Some entry \<Rightarrow> (case ct_spec env (map_of entry (lit ''spec'')) of
           None \<Rightarrow> d
         | Some spec \<Rightarrow>
             if registry_get (ct_static env) (ts_id spec) \<noteq> None then d
             else AList.update (ts_id spec) \<lparr>px_spec = spec, px_plugin_id =
                (case get_str entry (lit ''plugin_id'') of Some (c # cs) \<Rightarrow> c # cs | _ \<Rightarrow> lit ''unknown'')\<rparr> d))"

definition catalog_proxies :: "('s, 'z) catalog_env_scheme \<Rightarrow> (ustr, json) dict \<Rightarrow> (ustr, plugin_proxy) dict" where
  "catalog_proxies env payload = (case map_of payload (lit ''tools'') of
       Some (JArr raws) \<Rightarrow> fold (catalog_entry env) raws []
     | _ \<Rightarrow> [])"

definition catalog_refresh :: "('s, 'z) catalog_env_scheme \<Rightarrow> ('s \<times> catalog_state, unit) prog" where
  "catalog_refresh env = (\<lambda>(s, c).
     let now = ct_clock env s
     in if (case cs_fetched c of None \<Rightarrow> False | Some t \<Rightarrow> now - t < ct_ttl env) then (Inr (), (s, c))
        else (case ct_get env s of
            (Inl x, s') \<Rightarrow> (Inl x, (s', c))
          | (Inr (Broker_fault e), s') \<Rightarrow> (Inr (), (s', c\<lparr>cs_fetched := Some now\<rparr>))
          | (Inr (Broker_answer status body), s') \<Rightarrow>
              if status < 200 \<or> 300 \<le> status then (Inr (), (s', c\<lparr>cs_fetched := Some now\<rparr>))
              else (case decoded_mapping body of
                  Inl x \<Rightarrow> (Inl x, (s', c))
                | Inr payload \<Rightarrow> (Inr (), (s', \<lparr>cs_tools = catalog_proxies env payload, cs_fetched = Some now\<rparr>)))))"

definition catalog_tool :: "('s, 'z) catalog_env_scheme \<Rightarrow> catalog_state \<Rightarrow> ustr \<Rightarrow> 's tool option" where
  "catalog_tool env c tool_id = (case registry_get (ct_static env) tool_id of
       Some t \<Rightarrow> Some t
     | None \<Rightarrow> map_option (proxy_tool env) (map_of (cs_tools c) tool_id))"

definition catalog_available :: "('s, 'z) catalog_env_scheme \<Rightarrow> catalog_state \<Rightarrow> ustr list \<Rightarrow> 's tool list" where
  "catalog_available env c granted = registry_available (ct_static env) granted
     @ map (proxy_tool env) (filter (\<lambda>px. set (ts_capabilities (px_spec px)) \<subseteq> set granted) (map snd (cs_tools c)))"

definition catalog_openai_tools :: "('s, 'z) catalog_env_scheme \<Rightarrow> catalog_state \<Rightarrow> ustr list \<Rightarrow> (ustr, json) dict list" where
  "catalog_openai_tools env c granted = map (\<lambda>t. to_openai_tool (tool_spec_of t)) (catalog_available env c granted)"

text \<open>\<open>BrokerEventSink.post_event\<close>: an \<open>HTTPError\<close> is logged and forgotten.\<close>

definition sink_event :: "(ustr \<Rightarrow> json \<Rightarrow> ('s, broker_answer) prog) \<Rightarrow> ustr \<Rightarrow> json \<Rightarrow> ('s, unit) prog" where
  "sink_event post kind payload = bindp (post kind payload) (\<lambda>_. retp ())"


section \<open>The networks are ranges\<close>

lemma in_net_range:
  fixes net w :: "'a::len word"
  assumes "prefix \<le> LENGTH('a)" and "2 ^ (LENGTH('a) - prefix) dvd uint net"
  shows "in_net net prefix w \<longleftrightarrow> uint net \<le> uint w \<and> uint w < uint net + 2 ^ (LENGTH('a) - prefix)"
proof -
  let ?k = "(2::int) ^ (LENGTH('a) - prefix)"
  obtain q where q: "uint net = ?k * q" using assms(2) by (rule dvdE)
  have k: "0 < ?k" by simp
  have d: "uint (drop_bit n v) = uint v div 2 ^ n" for n and v :: "'a word"
  proof -
    have "unat (drop_bit n v) = unat v div 2 ^ n" unfolding unat_drop_bit_eq by (simp only: drop_bit_eq_div)
    then have "int (unat (drop_bit n v)) = int (unat v) div 2 ^ n" by (simp only: zdiv_int of_nat_power of_nat_numeral)
    then show ?thesis by (simp only: uint_nat)
  qed
  have "in_net net prefix w \<longleftrightarrow> uint w div ?k = uint net div ?k"
    by (simp only: in_net_def word_uint_eq_iff d)
  also have "\<dots> \<longleftrightarrow> uint w div ?k = q" using k q by simp
  also have "\<dots> \<longleftrightarrow> ?k * q \<le> uint w \<and> uint w < ?k * q + ?k"
  proof
    assume *: "uint w div ?k = q"
    have "uint w = ?k * q + uint w mod ?k" using mult_div_mod_eq [of ?k "uint w"] * by simp
    then show "?k * q \<le> uint w \<and> uint w < ?k * q + ?k" using k by (metis add_le_same_cancel1 add_less_cancel_left le_add_same_cancel1 pos_mod_bound pos_mod_sign)
  next
    assume *: "?k * q \<le> uint w \<and> uint w < ?k * q + ?k"
    show "uint w div ?k = q"
      by (rule int_div_pos_eq [where r = "uint w - ?k * q"]) (use * in auto)
  qed
  finally show ?thesis by (simp only: q)
qed

definition range_of :: "'a::len word \<times> nat \<Rightarrow> int \<times> int" where
  "range_of n = (uint (fst n), uint (fst n) + 2 ^ (LENGTH('a) - snd n))"

definition aligned :: "'a::len word \<times> nat \<Rightarrow> bool" where
  "aligned n \<longleftrightarrow> snd n \<le> LENGTH('a) \<and> 2 ^ (LENGTH('a) - snd n) dvd uint (fst n)"

definition in_ranges :: "(int \<times> int) list \<Rightarrow> int \<Rightarrow> bool" where
  "in_ranges rs x \<longleftrightarrow> list_ex (\<lambda>(a, b). a \<le> x \<and> x < b) rs"

lemma in_nets_ranges: "list_all aligned nets \<Longrightarrow> in_nets nets w \<longleftrightarrow> in_ranges (map range_of nets) (uint w)"
  by (induction nets) (auto simp: in_nets_def in_ranges_def aligned_def range_of_def in_net_range)

lemma private_v4_ranges:
  "map range_of private_v4 = [(0, 0x1000000), (0x0A000000, 0x0B000000), (0x7F000000, 0x80000000), (0xA9FE0000, 0xA9FF0000),
     (0xAC100000, 0xAC200000), (0xC0000000, 0xC0000100), (0xC00000AA, 0xC00000AC), (0xC0000200, 0xC0000300),
     (0xC0A80000, 0xC0A90000), (0xC6120000, 0xC6140000), (0xC6336400, 0xC6336500), (0xCB007100, 0xCB007200),
     (0xF0000000, 0x100000000), (0xFFFFFFFF, 0x100000000)]"
  "list_all aligned private_v4"
  by (simp_all add: private_v4_def range_of_def aligned_def)

lemma private_v4_exception_ranges:
  "map range_of private_v4_exceptions = [(0xC0000009, 0xC000000A), (0xC000000A, 0xC000000B)]"
  "list_all aligned private_v4_exceptions"
  by (simp_all add: private_v4_exceptions_def range_of_def aligned_def)

text \<open>The addresses outside the public internet, as an ordered table of disjoint intervals.\<close>

definition blocked_v4 :: "(int \<times> int) list" where
  "blocked_v4 = [(0, 0x1000000), (0x0A000000, 0x0B000000), (0x7F000000, 0x80000000), (0xA9FE0000, 0xA9FF0000),
     (0xAC100000, 0xAC200000), (0xC0000000, 0xC0000009), (0xC000000B, 0xC0000100), (0xC0000200, 0xC0000300),
     (0xC0A80000, 0xC0A90000), (0xC6120000, 0xC6140000), (0xC6336400, 0xC6336500), (0xCB007100, 0xCB007200),
     (0xE0000000, 0x100000000)]"

lemma special_v4_ranges:
  "is_special (IPv4 w) \<longleftrightarrow>
     in_ranges [(0x7F000000, 0x80000000), (0xA9FE0000, 0xA9FF0000), (0xF0000000, 0x100000000), (0xE0000000, 0xF0000000), (0, 1)] (uint w)"
proof -
  have "w = 0 \<longleftrightarrow> 0 \<le> uint w \<and> uint w < 1"
    by (simp add: word_uint_eq_iff) (use uint_ge_0 [of w] in linarith)
  then show ?thesis by (simp add: in_net_range in_ranges_def)
qed

definition covered_by :: "(int \<times> int) list \<Rightarrow> (int \<times> int) list \<Rightarrow> bool" where
  "covered_by rs ts \<longleftrightarrow> list_all (\<lambda>(a, b). list_ex (\<lambda>(c, d). c \<le> a \<and> b \<le> d) ts) rs"

definition apart :: "(int \<times> int) list \<Rightarrow> (int \<times> int) list \<Rightarrow> bool" where
  "apart rs ts \<longleftrightarrow> list_all (\<lambda>(a, b). list_all (\<lambda>(c, d). d \<le> a \<or> b \<le> c) ts) rs"

lemma in_ranges_iff: "in_ranges rs x \<longleftrightarrow> (\<exists>(a, b) \<in> set rs. a \<le> x \<and> x < b)"
  by (simp add: in_ranges_def list_ex_iff)

lemma in_ranges_append: "in_ranges (rs @ ts) x \<longleftrightarrow> in_ranges rs x \<or> in_ranges ts x"
  by (simp add: in_ranges_def)

lemma covered_byD:
  assumes "covered_by rs ts" and "in_ranges rs x"
  shows "in_ranges ts x"
proof -
  obtain a b where ab: "(a, b) \<in> set rs" "a \<le> x" "x < b" using assms(2) by (auto simp: in_ranges_iff)
  then obtain c d where "(c, d) \<in> set ts" "c \<le> a" "b \<le> d"
    using assms(1) by (auto simp: covered_by_def list_all_iff list_ex_iff)
  with ab show ?thesis unfolding in_ranges_iff by (intro bexI [of _ "(c, d)"]) auto
qed

lemma apartD: "apart rs ts \<Longrightarrow> in_ranges rs x \<Longrightarrow> \<not> in_ranges ts x"
  by (fastforce simp: apart_def list_all_iff in_ranges_iff)

definition special_v4 :: "(int \<times> int) list" where
  "special_v4 = [(0x7F000000, 0x80000000), (0xA9FE0000, 0xA9FF0000), (0xF0000000, 0x100000000), (0xE0000000, 0xF0000000), (0, 1)]"

lemma blocked_v4_split:
  "in_ranges blocked_v4 x \<longleftrightarrow>
     in_ranges (map range_of private_v4) x \<and> \<not> in_ranges (map range_of private_v4_exceptions) x \<or> in_ranges special_v4 x"
    (is "?B \<longleftrightarrow> ?P \<and> \<not> ?E \<or> ?S")
proof -
  let ?rest = "removeAll (0xC0000000, 0xC0000100) (map range_of private_v4)"
  have e: "?E \<longleftrightarrow> x = 0xC0000009 \<or> x = 0xC000000A"
    unfolding private_v4_exception_ranges by (auto simp: in_ranges_def)
  have s: "covered_by special_v4 (blocked_v4 @ [(0xE0000000, 0x100000000)])"
    by (simp add: covered_by_def special_v4_def blocked_v4_def)
  have r: "covered_by ?rest blocked_v4"
    unfolding private_v4_ranges by (simp add: covered_by_def blocked_v4_def)
  have b: "covered_by blocked_v4 (map range_of private_v4 @ [(0xE0000000, 0x100000000)])"
    unfolding private_v4_ranges by (simp add: covered_by_def blocked_v4_def)
  have a: "apart blocked_v4 (map range_of private_v4_exceptions)"
    unfolding private_v4_exception_ranges by (simp add: apart_def blocked_v4_def)
  have u: "in_ranges [(0xE0000000, 0x100000000)] x \<longleftrightarrow> in_ranges [(0xF0000000, 0x100000000), (0xE0000000, 0xF0000000)] x"
    by (auto simp: in_ranges_def)
  have us: "in_ranges [(0xE0000000, 0x100000000)] x \<Longrightarrow> ?S"
    unfolding u by (rule covered_byD [of "[(0xF0000000, 0x100000000), (0xE0000000, 0xF0000000)]"])
      (simp_all add: covered_by_def special_v4_def)
  have ub: "in_ranges [(0xE0000000, 0x100000000)] x \<Longrightarrow> ?B"
    by (erule covered_byD [rotated]) (simp add: covered_by_def blocked_v4_def)
  have p: "?P \<Longrightarrow> \<not> ?E \<Longrightarrow> ?B"
  proof -
    assume P: ?P and E: "\<not> ?E"
    show ?B
    proof (cases "in_ranges ?rest x")
      case True
      then show ?thesis by (rule covered_byD [OF r])
    next
      case False
      from P obtain a b where ab: "(a, b) \<in> set (map range_of private_v4)" "a \<le> x \<and> x < b"
        unfolding in_ranges_iff by blast
      have "(a, b) = (0xC0000000, 0xC0000100)"
      proof (rule ccontr)
        assume "(a, b) \<noteq> (0xC0000000, 0xC0000100)"
        with ab(1) have "(a, b) \<in> set ?rest" unfolding set_removeAll by blast
        with ab(2) False show False unfolding in_ranges_iff by blast
      qed
      with ab(2) have "0xC0000000 \<le> x \<and> x < 0xC0000100" by simp
      with E have "in_ranges [(0xC0000000, 0xC0000009), (0xC000000B, 0xC0000100)] x"
        unfolding e by (auto simp: in_ranges_def)
      then show ?thesis by (rule covered_byD [rotated]) (simp add: covered_by_def blocked_v4_def)
    qed
  qed
  show ?thesis
    using p covered_byD [OF s] covered_byD [OF b] apartD [OF a, of x] us ub
    by (auto simp only: in_ranges_append)
qed

lemma nonpublic_v4_ranges: "non_public (IPv4 w) \<longleftrightarrow> in_ranges blocked_v4 (uint w)"
  unfolding blocked_v4_split special_v4_def
  by (simp only: non_public_def is_private.simps is_private_v4_def special_v4_ranges
      in_nets_ranges [OF private_v4_ranges(2)] in_nets_ranges [OF private_v4_exception_ranges(2)])


text \<open>
  C22: the SSRF guard refuses an IPv4 address exactly when it lies in the table of disjoint
  intervals \<open>blocked_v4\<close>: the prefix tests of \<open>ipaddress\<close> with their exceptions, the multicast
  and reserved classes included, are that set of integers and nothing more.
\<close>

theorem ssrf_table_exact: "non_public (IPv4 w) \<longleftrightarrow> list_ex (\<lambda>(a, b). a \<le> uint w \<and> uint w < b) blocked_v4"
  using nonpublic_v4_ranges [of w] unfolding in_ranges_def .

section \<open>No request without a check\<close>

lemma check_addresses_None:
  "check_addresses parse host as = None \<longleftrightarrow> (\<forall>a \<in> set as. \<exists>ip. parse a = Some ip \<and> \<not> non_public ip)"
  by (induction as) (auto split: option.splits)

lemma ssrf_reason_None:
  "ssrf_reason env host s = (None, t) \<longleftrightarrow>
     (\<exists>as. fe_resolve env host s = (Some as, t) \<and> as \<noteq> [] \<and>
        (\<forall>a \<in> set as. \<exists>ip. fe_address env a = Some ip \<and> \<not> non_public ip))"
  by (auto simp: ssrf_reason_def check_addresses_None split: prod.splits option.splits list.splits)

text \<open>Which URLs a redirect leads to.\<close>

definition redirects_to :: "'s web_client \<Rightarrow> ustr \<Rightarrow> ustr \<Rightarrow> bool" where
  "redirects_to web u v \<longleftrightarrow> (\<exists>location s s'. wc_request web u s = (Inr (Hop_redirect location None), s') \<and>
     wc_join web u location = Inr v)"

text \<open>A client with a record of the URLs it has requested, which resolving a name does not touch.\<close>

locale recorded_client =
  fixes web :: "'s web_client"
    and env :: "('s, 'z) fetch_env_scheme"
    and sent :: "'s \<Rightarrow> ustr list"
  assumes request_sends: "wc_request web u s = (r, s') \<Longrightarrow> sent s' = sent s @ [u]"
    and resolve_quiet: "fe_resolve env h s = (x, s') \<Longrightarrow> sent s' = sent s"
begin

lemma stream_requests:
  "client_stream web n url s = (r, s') \<Longrightarrow>
     \<exists>us. sent s' = sent s @ url # us \<and> successively (redirects_to web) (url # us) \<and> length us \<le> n"
proof (induction n arbitrary: url s)
  case 0
  from 0 have "bindp (wc_request web url) (follow_hop web url (\<lambda>_. retp (Stream_fault (lit ''TooManyRedirects'')))) s = (r, s')"
    by simp
  then show ?case
  proof (cases rule: bindp_cases)
    case (returned hop s1)
    have "s1 = s'" using returned(2) by (auto simp: follow_hop_def split: hop.splits option.splits sum.splits)
    then show ?thesis using request_sends [OF returned(1)] by simp
  qed (auto dest: request_sends)
next
  case (Suc n)
  from Suc.prems have "bindp (wc_request web url) (follow_hop web url (client_stream web n)) s = (r, s')" by simp
  then show ?case
  proof (cases rule: bindp_cases)
    case (returned hop s1)
    note one = request_sends [OF returned(1)]
    show ?thesis
    proof (cases "\<exists>location target. hop = Hop_redirect location None \<and> wc_join web url location = Inr target")
      case True
      then obtain location target where h: "hop = Hop_redirect location None" "wc_join web url location = Inr target" by blast
      then have "client_stream web n target s1 = (r, s')" using returned(2) by (simp add: follow_hop_def)
      from Suc.IH [OF this] obtain us where us: "sent s' = sent s1 @ target # us"
        "successively (redirects_to web) (target # us)" "length us \<le> n" by blast
      moreover have "redirects_to web url target" using returned(1) h unfolding redirects_to_def by blast
      ultimately show ?thesis using one by (intro exI [of _ "target # us"]) simp
    next
      case False
      then have "s1 = s'" using returned(2) by (auto simp: follow_hop_def split: hop.splits option.splits sum.splits)
      then show ?thesis using one by simp
    qed
  qed (auto dest: request_sends)
qed

lemma page_requests:
  assumes "fetch_page (worker_fetch web env) url s = (r, s')"
  shows "\<exists>us. sent s' = sent s @ url # us \<and> successively (redirects_to web) (url # us) \<and> length us \<le> wc_max_redirects web"
  using assms unfolding fetch_page_def
  by (cases rule: bindp_cases) (auto simp: worker_fetch_def dest: stream_requests)

lemma run_requests:
  assumes "fetch_run (worker_fetch web env) args s = (r, s')"
  shows "sent s' = sent s \<or>
    (\<exists>url scheme host as t us. map_of args (lit ''url'') = Some (JStr url) \<and>
       fe_split env (strip url) = Inr (scheme, Some host) \<and> scheme \<in> {lit ''http'', lit ''https''} \<and> host \<noteq> [] \<and>
       fe_resolve env host s = (Some as, t) \<and> as \<noteq> [] \<and>
       (\<forall>a \<in> set as. \<exists>ip. fe_address env a = Some ip \<and> \<not> non_public ip) \<and>
       sent s' = sent s @ url # us \<and> successively (redirects_to web) (url # us) \<and> length us \<le> wc_max_redirects web)"
    (is "?quiet \<or> ?asked")
proof -
  have split: "fe_split (worker_fetch web env) = fe_split env" and reason: "ssrf_reason (worker_fetch web env) = ssrf_reason env"
    by (simp_all add: worker_fetch_def ssrf_reason_def fun_eq_iff split: prod.splits option.splits list.splits)
  have still: "sent (snd (ssrf_reason env h s)) = sent s" for h
    by (auto simp: ssrf_reason_def dest: resolve_quiet split: prod.splits option.splits list.splits)
  show ?thesis
  proof (cases "\<exists>url scheme host. map_of args (lit ''url'') = Some (JStr url) \<and> strip url \<noteq> [] \<and>
      fe_split env (strip url) = Inr (scheme, Some host) \<and> scheme \<in> {lit ''http'', lit ''https''} \<and> host \<noteq> [] \<and>
      fst (ssrf_reason env host s) = None")
    case True
    then obtain url scheme host where c: "map_of args (lit ''url'') = Some (JStr url)" "strip url \<noteq> []"
        "fe_split env (strip url) = Inr (scheme, Some host)" "scheme \<in> {lit ''http'', lit ''https''}" "host \<noteq> []"
        "fst (ssrf_reason env host s) = None" by blast
    then obtain t where t: "ssrf_reason env host s = (None, t)" by (cases "ssrf_reason env host s") simp
    with c assms have page: "fetch_page (worker_fetch web env) url t = (r, s')"
      by (auto simp: fetch_run_def bindp_def liftp_def split reason)
    have "sent t = sent s" using still [of host] t by simp
    with page_requests [OF page] c t [unfolded ssrf_reason_None] show ?thesis by (intro disjI2) auto
  next
    case False
    then have "s' = s \<or> (\<exists>h. s' = snd (ssrf_reason env h s))" using assms
      by (auto simp: fetch_run_def split reason bindp_def liftp_def split: option.splits json.splits sum.splits prod.splits if_splits)
    then show ?thesis using still by auto
  qed
qed

end

text \<open>
  C21: the worker's \<open>fetch_url\<close> starts at a public host only. Whatever the arguments, a run
  sends no request at all, or the argument is an absolute http(s) URL whose host has resolved
  to at least one address, every one of them a public IP address; then the first URL requested
  is that argument, and each further one is where the answer before it redirected to, as many as
  the client allows. The addresses of those further URLs are not checked
  (\<open>redirects_are_not_checked\<close>).
\<close>

theorem fetch_starts_at_public_host:
  assumes "recorded_client web env sent" and "fetch_run (worker_fetch web env) args s = (r, s')"
  shows "sent s' = sent s \<or>
    (\<exists>url scheme host as t us. map_of args (lit ''url'') = Some (JStr url) \<and>
       fe_split env (strip url) = Inr (scheme, Some host) \<and> scheme \<in> {lit ''http'', lit ''https''} \<and> host \<noteq> [] \<and>
       fe_resolve env host s = (Some as, t) \<and> as \<noteq> [] \<and>
       (\<forall>a \<in> set as. \<exists>ip. fe_address env a = Some ip \<and> \<not> non_public ip) \<and>
       sent s' = sent s @ url # us \<and> successively (redirects_to web) (url # us) \<and> length us \<le> wc_max_redirects web)"
  using recorded_client.run_requests [OF assms] .

text \<open>A small web: a public page that redirects to an address of the worker's own network.\<close>

definition demo_fetch :: "ustr list fetch_env" where
  "demo_fetch = \<lparr>fe_split = (\<lambda>u. Inr (lit ''http'', Some u)),
     fe_resolve = (\<lambda>h s. (Some [if h = lit ''a'' then lit ''8.8.8.8'' else lit ''127.0.0.1''], s)),
     fe_address = (\<lambda>a. Some (IPv4 (if a = lit ''8.8.8.8'' then 0x08080808 else 0x7F000001))),
     fe_stream = (\<lambda>u. retp (Stream_fault [])), fe_decode = (\<lambda>b. b),
     fe_tokens = (\<lambda>h. [Html_data h]), fe_max_bytes = 3, fe_max_text = 2\<rparr>"

definition demo_web :: "ustr list web_client" where
  "demo_web = \<lparr>wc_request = (\<lambda>u log. (Inr (if u = lit ''a'' then Hop_redirect (lit ''b'') None else Hop_answer 200 [[115]] None),
       log @ [u])), wc_join = (\<lambda>u location. Inr location), wc_max_redirects = 20\<rparr>"

interpretation demo_client: recorded_client demo_web demo_fetch "\<lambda>log. log"
  by unfold_locales (auto simp: demo_web_def demo_fetch_def)

lemma public_8888: "\<not> non_public (IPv4 0x08080808)"
  by (simp add: nonpublic_v4_ranges in_ranges_def blocked_v4_def)

lemma private_loopback: "non_public (IPv4 0x7F000001)"
  by (simp add: nonpublic_v4_ranges in_ranges_def blocked_v4_def)

lemma demo_fetch_follows:
  "\<exists>r. fetch_run (worker_fetch demo_web demo_fetch) [(lit ''url'', JStr (lit ''a''))] [] = (Inr r, [lit ''a'', lit ''b''])"
proof -
  have st: "strip (lit ''a'') = lit ''a''" "lit ''a'' \<noteq> lit ''b''" "lit ''a'' \<noteq> []"
    by (simp_all add: strip_def lstrip_def rstrip_def py_space_def str_simps)
  have reason: "ssrf_reason (worker_fetch demo_web demo_fetch) (lit ''a'') [] = (None, [])"
    by (simp add: ssrf_reason_None worker_fetch_def demo_fetch_def public_8888)
  have split: "fe_split (worker_fetch demo_web demo_fetch) u = Inr (lit ''http'', Some u)" for u
    by (simp add: worker_fetch_def demo_fetch_def)
  have stream: "client_stream demo_web 20 (lit ''a'') [] = (Inr (Streamed 200 [[115]] None), [lit ''a'', lit ''b''])"
    using st(2) by (simp add: eval_nat_numeral demo_web_def bindp_def follow_hop_def)
  have "fetch_run (worker_fetch demo_web demo_fetch) [(lit ''url'', JStr (lit ''a''))] [] =
      fetch_page (worker_fetch demo_web demo_fetch) (lit ''a'') []"
    using st reason split by (simp add: fetch_run_def bindp_def liftp_def)
  moreover have "fe_stream (worker_fetch demo_web demo_fetch) = client_stream demo_web 20"
    by (simp add: worker_fetch_def demo_web_def)
  ultimately show ?thesis using stream by (auto simp: fetch_page_def bindp_def)
qed

theorem redirects_are_not_checked:
  "\<exists>r ip. fetch_run (worker_fetch demo_web demo_fetch) [(lit ''url'', JStr (lit ''a''))] [] = (Inr r, [lit ''a'', lit ''b'']) \<and>
     fe_resolve demo_fetch (lit ''b'') [] = (Some [lit ''127.0.0.1''], []) \<and>
     fe_address demo_fetch (lit ''127.0.0.1'') = Some ip \<and> non_public ip"
  using demo_fetch_follows by (auto simp: demo_fetch_def private_loopback str_simps)

theorem fetch_starts_at_public_host_witness:
  "\<exists>r host as t. fetch_run (worker_fetch demo_web demo_fetch) [(lit ''url'', JStr (lit ''a''))] [] = (Inr r, [lit ''a'', lit ''b'']) \<and>
     fe_resolve demo_fetch host [] = (Some as, t) \<and> as \<noteq> [] \<and>
     list_all (\<lambda>a. case fe_address demo_fetch a of Some ip \<Rightarrow> \<not> non_public ip | None \<Rightarrow> False) as"
proof -
  obtain r where run: "fetch_run (worker_fetch demo_web demo_fetch) [(lit ''url'', JStr (lit ''a''))] [] = (Inr r, [lit ''a'', lit ''b''])"
    using demo_fetch_follows by blast
  from fetch_starts_at_public_host [OF demo_client.recorded_client_axioms run]
  obtain host as t where "fe_resolve demo_fetch host [] = (Some as, t)" "as \<noteq> []"
      "\<forall>a \<in> set as. \<exists>ip. fe_address demo_fetch a = Some ip \<and> \<not> non_public ip"
    by auto
  then have "list_all (\<lambda>a. case fe_address demo_fetch a of Some ip \<Rightarrow> \<not> non_public ip | None \<Rightarrow> False) as"
    by (fastforce simp: list_all_iff)
  then show ?thesis using run \<open>fe_resolve demo_fetch host [] = (Some as, t)\<close> \<open>as \<noteq> []\<close> by blast
qed

section \<open>Bounds\<close>

lemma length_py_take: "n \<ge> 0 \<Longrightarrow> int (length (py_take n xs)) \<le> n"
  by (simp add: py_take_def)

lemma collect_chunks_whole:
  "collect_chunks limit acc cs fault = Inr (bytes, False) \<Longrightarrow> bytes = acc @ concat cs"
proof (induction cs arbitrary: acc)
  case (Cons c cs)
  then show ?case using Cons.IH [of "acc @ c"] by (auto split: if_splits)
qed (auto split: option.splits)

lemma collect_chunks_short:
  "collect_chunks limit acc cs fault = Inr (bytes, False) \<Longrightarrow> cs = [] \<or> \<not> limit \<le> int (length bytes)"
proof (induction cs arbitrary: acc)
  case (Cons c cs)
  show ?case
  proof (cases cs)
    case Nil
    with Cons.prems show ?thesis by (auto split: option.splits if_splits)
  next
    case (Cons d ds)
    with Cons.prems show ?thesis using Cons.IH [of "acc @ c"] by (auto split: if_splits)
  qed
qed simp

text \<open>
  with a positive text limit, the text of a fetched page is at most that long, and
  \<open>truncated\<close> is true whenever bytes of the body were left unread or characters were dropped:
  when it is false, the whole body was read and the text is all that was extracted from it.
\<close>

theorem fetched_text_bounded:
  assumes "0 < fe_max_text env"
    and "collect_chunks (fe_max_bytes env) [] chunks None = Inr (bytes, stopped)"
  shows "\<exists>page text truncated. page_result env url bytes stopped = tool_success page \<and>
     map_of page (lit ''text'') = Some (JStr text) \<and> map_of page (lit ''truncated'') = Some (JBool truncated) \<and>
     int (length text) \<le> fe_max_text env \<and>
     (\<not> truncated \<longrightarrow> bytes = concat chunks \<and>
        text = extracted_text (fold extract_event (fe_tokens env (fe_decode env (concat chunks))) new_extractor))"
proof -
  let ?x = "fold extract_event (fe_tokens env (fe_decode env (py_take (fe_max_bytes env) bytes))) new_extractor"
  let ?full = "extracted_text ?x"
  let ?long = "int (length ?full) > fe_max_text env"
  let ?text = "if ?long then py_take (fe_max_text env - 1) ?full @ [8230] else ?full"
  have whole: "bytes = concat chunks \<and> py_take (fe_max_bytes env) bytes = bytes" if "\<not> stopped"
  proof (cases chunks)
    case Nil
    with assms(2) show ?thesis by (auto simp: py_take_def)
  next
    case (Cons c cs)
    have "\<not> fe_max_bytes env \<le> int (length bytes)"
      using assms(2) that collect_chunks_short [of "fe_max_bytes env" "[]" chunks None bytes] Cons by auto
    moreover have "bytes = concat chunks" using collect_chunks_whole [of "fe_max_bytes env" "[]" chunks None bytes] assms(2) that by simp
    ultimately show ?thesis by (auto simp: py_take_def)
  qed
  have bound: "int (length ?text) \<le> fe_max_text env"
    using assms(1) by (simp add: py_take_def)
  show ?thesis
    unfolding page_result_def Let_def
    by (intro exI conjI, rule refl, simp, simp, rule bound) (use whole in auto)
qed

theorem fetched_text_bounded_witness:
  fixes env :: "unit fetch_env"
  defines "env \<equiv> \<lparr>fe_split = (\<lambda>u. Inr (lit ''http'', Some u)), fe_resolve = (\<lambda>h s. (None, s)), fe_address = (\<lambda>a. None),
     fe_stream = (\<lambda>u. retp (Stream_fault [])), fe_decode = (\<lambda>b. b), fe_tokens = (\<lambda>h. [Html_data h]),
     fe_max_bytes = 3, fe_max_text = 2\<rparr>"
  shows "\<exists>page text truncated. page_result env [117] [65, 66, 67, 68] True = tool_success page \<and>
     map_of page (lit ''text'') = Some (JStr text) \<and> map_of page (lit ''truncated'') = Some (JBool truncated) \<and> length text \<le> 2"
proof -
  have "collect_chunks (fe_max_bytes env) [] [[65, 66], [67, 68], [69]] None = Inr ([65, 66, 67, 68], True)"
    by (simp add: env_def)
  from fetched_text_bounded [OF _ this, of "[117]"] show ?thesis by (auto simp: env_def)
qed


section \<open>Plugins beside the built-in tools\<close>

definition new_catalog :: catalog_state where
  "new_catalog = \<lparr>cs_tools = [], cs_fetched = None\<rparr>"

text \<open>The states a catalog reaches by refreshing, whatever the broker answers and whenever.\<close>

inductive catalog_reached :: "('s, 'z) catalog_env_scheme \<Rightarrow> catalog_state \<Rightarrow> bool" for env where
  created: "catalog_reached env new_catalog"
| refreshed: "catalog_reached env c \<Longrightarrow> catalog_refresh env (s, c) = (r, (s', c')) \<Longrightarrow> catalog_reached env c'"

definition proxies_ok :: "('s, 'z) catalog_env_scheme \<Rightarrow> (ustr, plugin_proxy) dict \<Rightarrow> bool" where
  "proxies_ok env d \<longleftrightarrow> dict_wf d \<and> (\<forall>(k, px) \<in> set d. ts_id (px_spec px) = k \<and> registry_get (ct_static env) k = None)"

lemma proxies_ok_update:
  assumes "proxies_ok env d" and "ts_id (px_spec px) = k" and "registry_get (ct_static env) k = None"
  shows "proxies_ok env (AList.update k px d)"
proof -
  have "dict_wf (AList.update k px d)"
    using assms(1) by (simp add: proxies_ok_def dict_wf_def distinct_update)
  moreover have "set (AList.update k px d) \<subseteq> insert (k, px) (set d)"
    by (induction d) auto
  ultimately show ?thesis using assms unfolding proxies_ok_def by fastforce
qed

lemma catalog_entry_ok: "proxies_ok env d \<Longrightarrow> proxies_ok env (catalog_entry env raw d)"
  unfolding catalog_entry_def by (auto split: option.splits list.splits intro!: proxies_ok_update)

lemma catalog_entries_ok: "proxies_ok env d \<Longrightarrow> proxies_ok env (fold (catalog_entry env) raws d)"
  by (induction raws arbitrary: d) (simp_all add: catalog_entry_ok)

lemma proxies_ok_Nil: "proxies_ok env []"
  by (simp add: proxies_ok_def dict_wf_def)

lemma catalog_proxies_ok: "proxies_ok env (catalog_proxies env payload)"
  unfolding catalog_proxies_def by (auto split: option.splits json.splits intro: catalog_entries_ok proxies_ok_Nil)

lemma refresh_ok:
  assumes "proxies_ok env (cs_tools c)" and "catalog_refresh env (s, c) = (r, (s', c'))"
  shows "proxies_ok env (cs_tools c')"
  using assms unfolding catalog_refresh_def
  by (auto simp: Let_def catalog_proxies_ok split: if_splits prod.splits sum.splits broker_answer.splits)

lemma catalog_reached_ok: "catalog_reached env c \<Longrightarrow> proxies_ok env (cs_tools c)"
  by (induction rule: catalog_reached.induct) (auto simp: new_catalog_def proxies_ok_Nil intro: refresh_ok)

text \<open>
  C24: in every state the catalog can reach, whatever specifications the broker has sent, no
  plugin takes the name of a built-in tool: looking up a built-in tool gives that tool, the
  tools offered for a grant have distinct names, each of them is the one the lookup gives for
  its name, and each needs only granted capabilities.
\<close>

theorem plugins_never_shadow:
  assumes "catalog_reached env c" and "ct_static env = mk_registry tools"
  shows "(\<forall>k t. registry_get (mk_registry tools) k = Some t \<longrightarrow> catalog_tool env c k = Some t) \<and>
    distinct (map (\<lambda>t. ts_id (tool_spec_of t)) (catalog_available env c granted)) \<and>
    (\<forall>t \<in> set (catalog_available env c granted).
       catalog_tool env c (ts_id (tool_spec_of t)) = Some t \<and> set (ts_capabilities (tool_spec_of t)) \<subseteq> set granted)"
proof (intro conjI)
  let ?reg = "mk_registry tools" and ?d = "cs_tools c" and ?id = "\<lambda>t. ts_id (tool_spec_of t)"
  let ?all = "map snd ?reg @ map (proxy_tool env) (map snd ?d)"
  have ok: "proxies_ok env ?d" by (rule catalog_reached_ok [OF assms(1)])
  note keys = mk_registry_keys [of tools]
  have avail: "catalog_available env c granted = filter (\<lambda>t. set (ts_capabilities (tool_spec_of t)) \<subseteq> set granted) ?all"
    by (simp add: catalog_available_def registry_available_def assms(2) filter_map comp_def proxy_tool_def)
  have a: "map ?id (map snd ?reg) = map fst ?reg"
    using keys(1) by auto
  have b: "map ?id (map (proxy_tool env) (map snd ?d)) = map fst ?d"
    using ok by (auto simp: proxies_ok_def proxy_tool_def)
  have "k \<notin> set (map fst ?reg)" if "(k, px) \<in> set ?d" for k px
    using ok that by (auto simp: proxies_ok_def registry_get_def map_of_eq_None_iff assms(2))
  then have "set (map fst ?reg) \<inter> set (map fst ?d) = {}" by (fastforce simp del: set_map simp: set_map [where xs = ?d])
  then have "distinct (map fst ?reg @ map fst ?d)"
    using keys(2) ok by (auto simp: proxies_ok_def dict_wf_def)
  then have "distinct (map ?id ?all)" by (simp only: map_append a b)
  then show "distinct (map ?id (catalog_available env c granted))"
    unfolding avail by (rule distinct_map_filter)
  show "\<forall>k t. registry_get ?reg k = Some t \<longrightarrow> catalog_tool env c k = Some t"
    by (simp add: catalog_tool_def assms(2))
  show "\<forall>t \<in> set (catalog_available env c granted).
      catalog_tool env c (?id t) = Some t \<and> set (ts_capabilities (tool_spec_of t)) \<subseteq> set granted"
  proof
    fix t assume t: "t \<in> set (catalog_available env c granted)"
    then have grant: "set (ts_capabilities (tool_spec_of t)) \<subseteq> set granted" and "t \<in> set ?all"
      unfolding avail set_filter by blast+
    then consider k where "(k, t) \<in> set ?reg" | k px where "(k, px) \<in> set ?d" "t = proxy_tool env px" by auto
    then have "catalog_tool env c (?id t) = Some t"
    proof cases
      case 1
      then show ?thesis using keys by (auto simp: catalog_tool_def assms(2) registry_get_def dict_wf_def)
    next
      case 2
      then have "ts_id (px_spec px) = k" "registry_get ?reg k = None" "map_of ?d k = Some px"
        using ok assms(2) by (auto simp: proxies_ok_def dict_wf_def)
      with 2 show ?thesis by (simp add: catalog_tool_def assms(2) proxy_tool_def)
    qed
    with grant show "catalog_tool env c (?id t) = Some t \<and> set (ts_capabilities (tool_spec_of t)) \<subseteq> set granted" by blast
  qed
qed

text \<open>A broker that offers a tool under the name of a built-in one and a tool of its own.\<close>

definition shadowing_catalog :: "unit catalog_env" where
  "shadowing_catalog = \<lparr>ct_static = mk_registry [\<lparr>tool_spec_of = search_spec, tool_run = (\<lambda>ctx args. retp (tool_success []))\<rparr>],
     ct_get = retp (Broker_answer 200 (Some (JObj [(lit ''tools'', JArr [JObj [(lit ''spec'', JStr (lit ''a''))], JObj [(lit ''spec'', JStr (lit ''b''))]])]))),
     ct_post = (\<lambda>px ctx args. retp (Broker_fault [])), ct_clock = (\<lambda>s. 0), ct_ttl = 30,
     ct_spec = (\<lambda>v. if v = Some (JStr (lit ''a'')) then Some search_spec else if v = Some (JStr (lit ''b'')) then Some fetch_spec else None),
     ct_result = (\<lambda>v. None)\<rparr>"

lemma shadowing_fields:
  "ct_clock shadowing_catalog u = 0" "ct_static shadowing_catalog = mk_registry [\<lparr>tool_spec_of = search_spec, tool_run = (\<lambda>ctx args. retp (tool_success []))\<rparr>]"
  "ct_get shadowing_catalog u = (Inr (Broker_answer 200 (Some (JObj [(lit ''tools'', JArr [JObj [(lit ''spec'', JStr (lit ''a''))], JObj [(lit ''spec'', JStr (lit ''b''))]])]))), u)"
  by (simp_all add: shadowing_catalog_def)

lemma shadowing_specs:
  "ct_spec shadowing_catalog (Some (JStr (lit ''a''))) = Some search_spec"
  "ct_spec shadowing_catalog (Some (JStr (lit ''b''))) = Some fetch_spec"
  by (simp_all add: shadowing_catalog_def)

lemma web_tool_ids [simp]: "ts_id search_spec = lit ''web_search''" "ts_id fetch_spec = lit ''fetch_url''"
  by (simp_all add: search_spec_def fetch_spec_def)

theorem plugins_never_shadow_witness:
  "\<exists>c. catalog_reached shadowing_catalog c \<and> map fst (cs_tools c) = [lit ''fetch_url''] \<and>
     distinct (map (\<lambda>t. ts_id (tool_spec_of t)) (catalog_available shadowing_catalog c [lit ''web.search'', lit ''web.fetch'']))"
proof -
  let ?raws = "[JObj [(lit ''spec'', JStr (lit ''a''))], JObj [(lit ''spec'', JStr (lit ''b''))]]"
  let ?c = "\<lparr>cs_tools = catalog_proxies shadowing_catalog [(lit ''tools'', JArr ?raws)], cs_fetched = Some 0\<rparr>"
  have "catalog_refresh shadowing_catalog ((), new_catalog) = (Inr (), ((), ?c))"
    by (simp add: catalog_refresh_def new_catalog_def shadowing_fields decoded_mapping_def)
  then have r: "catalog_reached shadowing_catalog ?c" by (rule refreshed [OF created])
  have "map fst (cs_tools ?c) = [lit ''fetch_url'']"
    by (simp add: catalog_proxies_def catalog_entry_def shadowing_specs shadowing_fields registry_get_def mk_registry_def)
  with r plugins_never_shadow [OF r shadowing_fields(2), of "[lit ''web.search'', lit ''web.fetch'']", THEN conjunct2, THEN conjunct1]
  show ?thesis by (intro exI [of _ ?c] conjI)
qed

end
