(* ===== verification/Skills.thy ===== *)
theory Skills
  imports ReplyShaping ToolExec "HOL-Library.List_Lexorder"
begin

text \<open>
  File-backed skills: \<open>skills.py\<close> and the tool \<open>tools/skills.py\<close>. The skills root is a
  record: its directories with the \<open>SKILL.md\<close> each holds, and the JSON value of the state
  file. The directories are taken to be distinct (no link from one to another inside the root)
  and writes to succeed. The main results: the prompt catalog fits its budget and lists only
  enabled skills, no attribute of it can be broken out of, and what is saved, disabled or
  enabled is what is then loaded, up to the shadowing by an earlier directory that the code
  allows.
\<close>

section \<open>Documents\<close>

record skill_document =
  kd_name :: ustr
  kd_description :: ustr
  kd_trigger :: ustr
  kd_body :: ustr
  kd_content :: ustr
  kd_dir :: ustr
  kd_enabled :: bool

text \<open>The pattern \<open>[a-z0-9]+(?:[._-][a-z0-9]+)*\<close>; the flag tells whether the last character was
  a letter or digit.\<close>

fun name_run :: "bool \<Rightarrow> ustr \<Rightarrow> bool" where
  "name_run b [] = b"
| "name_run b (c # cs) =
     (if 97 \<le> c \<and> c \<le> 122 \<or> 48 \<le> c \<and> c \<le> 57 then name_run True cs
      else b \<and> c \<in> {46, 95, 45} \<and> name_run False cs)"

definition skill_name :: "ustr \<Rightarrow> bool" where
  "skill_name t = name_run False t"

fun crlf_to_lf :: "ustr \<Rightarrow> ustr" where
  "crlf_to_lf (c # d # cs) = (if c = 13 \<and> d = 10 then 10 # crlf_to_lf cs else c # crlf_to_lf (d # cs))"
| "crlf_to_lf cs = cs"

text \<open>Reading in text mode: every line ending becomes a line feed.\<close>

fun universal_newlines :: "ustr \<Rightarrow> ustr" where
  "universal_newlines [] = []"
| "universal_newlines [c] = [if c = 13 then 10 else c]"
| "universal_newlines (c # d # cs) =
     (if c = 13 \<and> d = 10 then 10 # universal_newlines cs
      else (if c = 13 then 10 else c) # universal_newlines (d # cs))"

fun find_sub :: "ustr \<Rightarrow> ustr \<Rightarrow> nat option" where
  "find_sub p [] = (if p = [] then Some 0 else None)"
| "find_sub p (c # cs) = (if starts_with p (c # cs) then Some 0 else map_option Suc (find_sub p cs))"

definition strip_quotes :: "ustr \<Rightarrow> ustr" where
  "strip_quotes t = rev (dropWhile (\<lambda>c. c \<in> {34, 39}) (rev (dropWhile (\<lambda>c. c \<in> {34, 39}) t)))"

text \<open>The lines of the front matter; \<open>None\<close> where one has no colon.\<close>

fun front_matter :: "ustr list \<Rightarrow> (ustr, ustr) dict \<Rightarrow> (ustr, ustr) dict option" where
  "front_matter [] d = Some d"
| "front_matter (raw # rest) d =
     (let line = strip raw
      in if line = [] \<or> hd line = 35 then front_matter rest d
         else if 58 \<notin> set line then None
         else front_matter rest (AList.update (strip (takeWhile (\<lambda>c. c \<noteq> 58) line))
                (strip_quotes (strip (tl (dropWhile (\<lambda>c. c \<noteq> 58) line)))) d))"

definition fence :: ustr where
  "fence = [10, 45, 45, 45, 10]"

text \<open>\<open>_parse_document\<close>; \<open>None\<close> for each \<open>ValueError\<close>.\<close>

definition parse_document :: "ustr \<Rightarrow> ((ustr, ustr) dict \<times> ustr) option" where
  "parse_document content =
     (let normalized = crlf_to_lf content
      in if \<not> starts_with [45, 45, 45, 10] normalized then None
         else (case find_sub fence (drop 4 normalized) of
             None \<Rightarrow> None
           | Some i \<Rightarrow> (case front_matter (splitlines (take i (drop 4 normalized))) [] of
                 None \<Rightarrow> None
               | Some d \<Rightarrow>
                   if list_ex (\<lambda>key. map_of d key = None \<or> map_of d key = Some []) [lit ''name'', lit ''description'', lit ''trigger''] then None
                   else if \<not> skill_name (the (map_of d (lit ''name''))) then None
                   else Some (d, dropWhile (\<lambda>c. c = 10) (drop (4 + i + 5) normalized)))))"

section \<open>The store\<close>

text \<open>A directory of the root: whether its \<open>SKILL.md\<close> is a link, whether it resolves inside the
  root, and the text of the file, \<open>None\<close> where it cannot be read.\<close>

record skill_file =
  kf_link :: bool
  kf_contained :: bool
  kf_text :: "ustr option"

record skill_root =
  kr_exists :: bool
  kr_dirs :: "(ustr, skill_file) dict"
  kr_state :: "json option"

definition enabled_state :: "skill_root \<Rightarrow> (ustr, bool) dict" where
  "enabled_state r = (case kr_state r of
       Some (JObj kvs) \<Rightarrow> concat (map (\<lambda>(k, v). case v of JBool b \<Rightarrow> [(k, b)] | _ \<Rightarrow> []) kvs)
     | _ \<Rightarrow> [])"

definition skill_of :: "(ustr, bool) dict \<Rightarrow> ustr \<Rightarrow> skill_file \<Rightarrow> skill_document option" where
  "skill_of enabled dir f =
     (if kf_link f \<or> \<not> kf_contained f then None
      else (case kf_text f of None \<Rightarrow> None
        | Some raw \<Rightarrow> (case parse_document (universal_newlines raw) of None \<Rightarrow> None
          | Some (meta, body) \<Rightarrow>
              (let name = the (map_of meta (lit ''name''))
               in Some \<lparr>kd_name = name, kd_description = the (map_of meta (lit ''description'')),
                    kd_trigger = the (map_of meta (lit ''trigger'')), kd_body = body, kd_content = universal_newlines raw,
                    kd_dir = dir, kd_enabled = (case map_of enabled name of None \<Rightarrow> True | Some b \<Rightarrow> b)\<rparr>))))"

definition add_found :: "(ustr, bool) dict \<Rightarrow> ustr \<times> skill_file \<Rightarrow> (ustr, skill_document) dict \<Rightarrow> (ustr, skill_document) dict" where
  "add_found enabled entry found = (case skill_of enabled (fst entry) (snd entry) of
       None \<Rightarrow> found
     | Some k \<Rightarrow> if map_of found (kd_name k) \<noteq> None then found else AList.update (kd_name k) k found)"

definition skill_list :: "skill_root \<Rightarrow> skill_document list" where
  "skill_list r =
     (if \<not> kr_exists r then []
      else (let found = fold (add_found (enabled_state r)) (sort_key fst (kr_dirs r)) []
        in map (\<lambda>name. the (map_of found name)) (sort (map fst found))))"

definition skill_get :: "skill_root \<Rightarrow> ustr \<Rightarrow> bool \<Rightarrow> skill_document option" where
  "skill_get r name include_disabled = List.find (\<lambda>k. kd_name k = name \<and> (include_disabled \<or> kd_enabled k)) (skill_list r)"

definition xml_char :: "nat \<Rightarrow> ustr" where
  "xml_char c = (if c = 38 then lit ''&amp;'' else if c = 34 then lit ''&quot;'' else if c = 60 then lit ''&lt;''
     else if c = 62 then lit ''&gt;'' else [c])"

text \<open>The four replacements of \<open>_xml\<close>, the ampersand first, act on each character once.\<close>

definition replace_char :: "nat \<Rightarrow> ustr \<Rightarrow> ustr \<Rightarrow> ustr" where
  "replace_char c by t = concat (map (\<lambda>d. if d = c then by else [d]) t)"

definition xml_escape :: "ustr \<Rightarrow> ustr" where
  "xml_escape t = replace_char 62 (lit ''&gt;'') (replace_char 60 (lit ''&lt;'')
     (replace_char 34 (lit ''&quot;'') (replace_char 38 (lit ''&amp;'') t)))"

definition catalog_prefix :: ustr where
  "catalog_prefix = lit ''Available skills. Use load_skill with a skill name only when its full '' @
     lit ''instructions are relevant:'' @ [10] @ lit ''<available_skills>'' @ [10]"

definition catalog_suffix :: ustr where
  "catalog_suffix = lit ''</available_skills>''"

definition quote_mark :: ustr where
  "quote_mark = [34]"

definition full_line :: "skill_document \<Rightarrow> ustr" where
  "full_line k = lit ''<skill name='' @ quote_mark @ xml_escape (kd_name k) @ quote_mark @ lit '' description='' @ quote_mark @
     xml_escape (kd_description k) @ quote_mark @ lit '' trigger='' @ quote_mark @ xml_escape (kd_trigger k) @ quote_mark @ lit '' />'' @ [10]"

definition short_line :: "skill_document \<Rightarrow> ustr" where
  "short_line k = lit ''<skill name='' @ quote_mark @ xml_escape (kd_name k) @ quote_mark @ lit '' />'' @ [10]"

fun catalog_lines :: "int \<Rightarrow> int \<Rightarrow> skill_document list \<Rightarrow> ustr list" where
  "catalog_lines limit used [] = []"
| "catalog_lines limit used (k # ks) =
     (if \<not> kd_enabled k then catalog_lines limit used ks
      else (let line = (if used + int (length (full_line k)) > limit then short_line k else full_line k)
        in if used + int (length line) > limit then []
           else line # catalog_lines limit (used + int (length line)) ks))"

definition prompt_catalog :: "skill_root \<Rightarrow> int \<Rightarrow> ustr" where
  "prompt_catalog r limit =
     (if limit \<le> 0 then []
      else if int (length catalog_prefix + length catalog_suffix) > limit
      then take (nat limit) (catalog_prefix @ catalog_suffix)
      else (let ls = catalog_lines limit (int (length catalog_prefix + length catalog_suffix)) (skill_list r)
        in if ls = [] then [] else catalog_prefix @ concat ls @ catalog_suffix))"

datatype skill_fault = Unknown_skill ustr | Bad_skill ustr

text \<open>\<open>json.dumps(..., sort_keys=True)\<close> of the flags, as the value the file then holds.\<close>

definition write_state :: "(ustr, bool) dict \<Rightarrow> skill_root \<Rightarrow> skill_root" where
  "write_state st r = r\<lparr>kr_exists := True, kr_state := Some (JObj (map (\<lambda>(k, b). (k, JBool b)) (sort_key fst st)))\<rparr>"

definition set_enabled :: "ustr \<Rightarrow> bool \<Rightarrow> (skill_fault, skill_root, skill_document) eprog" where
  "set_enabled name enabled r = (case skill_get r name True of
       None \<Rightarrow> (Inl (Unknown_skill name), r)
     | Some _ \<Rightarrow>
         (let r' = write_state (AList.update name enabled (enabled_state r)) r
          in (case skill_get r' name True of
              None \<Rightarrow> (Inl (Bad_skill (lit ''AssertionError'')), r')
            | Some k \<Rightarrow> (Inr k, r'))))"

definition skill_save :: "ustr \<Rightarrow> ustr \<Rightarrow> (skill_fault, skill_root, skill_document) eprog" where
  "skill_save name content r =
     (if \<not> skill_name name then (Inl (Bad_skill (lit ''skill name must be a stable identifier'')), r)
      else (case parse_document content of
          None \<Rightarrow> (Inl (Bad_skill (lit ''frontmatter'')), r)
        | Some (meta, body) \<Rightarrow>
            if map_of meta (lit ''name'') \<noteq> Some name
            then (Inl (Bad_skill (lit ''frontmatter name must match the skill directory'')), r)
            else if (case map_of (kr_dirs r) name of None \<Rightarrow> False | Some f \<Rightarrow> \<not> kf_contained f)
            then (Inl (Bad_skill (lit ''skill path escapes the skills root'')), r)
            else (let r' = r\<lparr>kr_exists := True,
                    kr_dirs := AList.update name \<lparr>kf_link = False, kf_contained = True, kf_text = Some content\<rparr> (kr_dirs r)\<rparr>
              in (case skill_get r' name True of
                  None \<Rightarrow> (Inl (Bad_skill (lit ''saved skill could not be loaded'')), r')
                | Some k \<Rightarrow> (Inr k, r')))))"

section \<open>The tool\<close>

definition load_skill_spec :: tool_spec where
  "load_skill_spec = \<lparr>ts_id = lit ''load_skill'',
     ts_description = lit ''Load the complete instructions for one enabled Markdown skill'',
     ts_input_schema = [(lit ''type'', FStr (lit ''object'')),
       (lit ''properties'', FObj [(lit ''name'', FObj [(lit ''type'', FStr (lit ''string''))])]),
       (lit ''required'', FTuple [FStr (lit ''name'')]), (lit ''additionalProperties'', FBool False)],
     ts_read_only = True, ts_idempotent = True, ts_risk = NONE, ts_capabilities = [], ts_approval_required = False\<rparr>"

definition load_skill :: "skill_root \<Rightarrow> arguments \<Rightarrow> tool_result" where
  "load_skill r args = (case (case map_of args (lit ''name'') of Some (JStr name) \<Rightarrow> skill_get r name False | _ \<Rightarrow> None) of
       None \<Rightarrow> mk_fail (lit ''skill_unavailable'') (lit ''the requested skill does not exist or is disabled'') False
     | Some k \<Rightarrow> tool_success [(lit ''name'', JStr (kd_name k)), (lit ''content'', JStr (kd_content k)),
         (lit ''estimated_tokens'', JInt (estimate_tokens (kd_content k)))])"

definition load_skill_tool :: "('s \<Rightarrow> skill_root) \<Rightarrow> 's tool" where
  "load_skill_tool store = \<lparr>tool_spec_of = load_skill_spec, tool_run = (\<lambda>ctx args s. (Inr (load_skill (store s) args), s))\<rparr>"

section \<open>The list of skills\<close>

definition good_found :: "(ustr, bool) dict \<Rightarrow> (ustr, skill_document) dict \<Rightarrow> bool" where
  "good_found enabled d \<longleftrightarrow> dict_wf d \<and> (\<forall>(n, k) \<in> set d. kd_name k = n \<and> skill_name n \<and>
     kd_enabled k = (case map_of enabled n of None \<Rightarrow> True | Some b \<Rightarrow> b))"

lemma found_update_subset: "set (AList.update k v d) \<subseteq> insert (k, v) (set d)"
  by (induction d) auto

lemma parse_document_name:
  "parse_document c = Some (meta, body) \<Longrightarrow> \<exists>n. map_of meta (lit ''name'') = Some n \<and> skill_name n"
  unfolding parse_document_def Let_def by (auto split: if_splits option.splits)

lemma skill_of_facts:
  assumes "skill_of enabled dir f = Some k"
  shows "skill_name (kd_name k)" and "kd_enabled k = (case map_of enabled (kd_name k) of None \<Rightarrow> True | Some b \<Rightarrow> b)"
  using assms by (auto simp: skill_of_def Let_def dest: parse_document_name split: if_splits option.splits)

lemma good_found_add: "good_found enabled d \<Longrightarrow> good_found enabled (add_found enabled entry d)"
proof (cases "skill_of enabled (fst entry) (snd entry)")
  case (Some k)
  assume g: "good_found enabled d"
  show ?thesis
  proof (cases "map_of d (kd_name k)")
    case None
    have "dict_wf (AList.update (kd_name k) k d)" using g by (simp add: good_found_def)
    moreover have "\<forall>(n, j) \<in> set (AList.update (kd_name k) k d). kd_name j = n \<and> skill_name n \<and>
        kd_enabled j = (case map_of enabled n of None \<Rightarrow> True | Some b \<Rightarrow> b)"
      using g found_update_subset [of "kd_name k" k d] skill_of_facts [OF Some] unfolding good_found_def by fastforce
    ultimately show ?thesis using Some None by (simp add: add_found_def good_found_def)
  qed (use Some g in \<open>simp add: add_found_def\<close>)
qed (simp add: add_found_def)

lemma good_found_fold: "good_found enabled d \<Longrightarrow> good_found enabled (fold (add_found enabled) entries d)"
  by (induction entries arbitrary: d) (simp_all add: good_found_add)


definition found_skills :: "skill_root \<Rightarrow> (ustr, skill_document) dict" where
  "found_skills r = fold (add_found (enabled_state r)) (sort_key fst (kr_dirs r)) []"

lemma found_good: "good_found (enabled_state r) (found_skills r)"
  unfolding found_skills_def by (rule good_found_fold) (simp add: good_found_def)

lemma skill_list_eq: "skill_list r = (if kr_exists r then map (\<lambda>n. the (map_of (found_skills r) n)) (sort (map fst (found_skills r))) else [])"
  by (simp add: skill_list_def found_skills_def Let_def)

lemma found_lookup:
  assumes "n \<in> set (map fst (found_skills r))"
  shows "\<exists>k. map_of (found_skills r) n = Some k \<and> kd_name k = n \<and> skill_name n"
proof -
  obtain k where "map_of (found_skills r) n = Some k" using assms by (auto simp: dest: weak_map_of_SomeI)
  moreover from map_of_SomeD [OF this] have "kd_name k = n \<and> skill_name n"
    using found_good [of r] by (auto simp: good_found_def)
  ultimately show ?thesis by blast
qed

lemma skill_names: "map kd_name (skill_list r) = (if kr_exists r then sort (map fst (found_skills r)) else [])"
proof -
  have "kd_name (the (map_of (found_skills r) n)) = n" if "n \<in> set (sort (map fst (found_skills r)))" for n
    using found_lookup [of n r] that by auto
  then have "map (\<lambda>n. kd_name (the (map_of (found_skills r) n))) (sort (map fst (found_skills r))) = sort (map fst (found_skills r))"
    by (rule map_idI)
  then show ?thesis unfolding skill_list_eq by (simp add: comp_def)
qed

lemma distinct_skill_names: "distinct (map kd_name (skill_list r))"
  using found_good [of r] by (simp add: skill_names good_found_def dict_wf_def)

lemma find_distinct:
  "distinct (map f xs) \<Longrightarrow> List.find (\<lambda>x. f x = n \<and> P x) xs = (case List.find (\<lambda>x. f x = n) xs of None \<Rightarrow> None | Some x \<Rightarrow> if P x then Some x else None)"
proof (induction xs)
  case (Cons x xs)
  show ?case
  proof (cases "f x = n")
    case True
    with Cons.prems have "\<not> (\<exists>y. y \<in> set xs \<and> f y = n)" by (metis distinct.simps(2) image_eqI list.map(2) list.set_map)
    then have "List.find (\<lambda>x. f x = n \<and> P x) xs = None" by (simp add: find_None_iff) blast
    with True show ?thesis by simp
  next
    case False
    then show ?thesis using Cons by simp
  qed
qed simp

lemma skill_get_disabled:
  "skill_get r name False = (case skill_get r name True of None \<Rightarrow> None | Some k \<Rightarrow> if kd_enabled k then Some k else None)"
  unfolding skill_get_def using find_distinct [OF distinct_skill_names, of name kd_enabled] by simp

lemma skill_get_SomeD: "skill_get r name b = Some k \<Longrightarrow> kd_name k = name \<and> k \<in> set (skill_list r) \<and> (b \<or> kd_enabled k)"
  unfolding skill_get_def by (auto simp: find_Some_iff)

lemma skill_get_found: "skill_get r name True = (if kr_exists r then map_of (found_skills r) name else None)"
proof (cases "kr_exists r")
  case True
  show ?thesis
  proof (cases "map_of (found_skills r) name")
    case None
    then have "name \<notin> set (map kd_name (skill_list r))" using True by (simp add: skill_names map_of_eq_None_iff)
    then have "skill_get r name True = None" unfolding skill_get_def by (auto simp: find_None_iff)
    with None show ?thesis by simp
  next
    case (Some k)
    then have "name \<in> set (map fst (found_skills r))" by (metis map_of_SomeD image_eqI list.set_map fst_conv)
    moreover from this have "kd_name k = name" using found_lookup [of name r] Some by auto
    ultimately have k: "k \<in> set (skill_list r)" "kd_name k = name" using True Some unfolding skill_list_eq by (auto simp: image_iff intro: rev_bexI)
    from k obtain j where j: "skill_get r name True = Some j" unfolding skill_get_def
      by (cases "List.find (\<lambda>k. kd_name k = name \<and> (True \<or> kd_enabled k)) (skill_list r)") (auto simp: find_None_iff)
    from skill_get_SomeD [OF this] have "j = k" using k distinct_skill_names [of r]
      by (metis (mono_tags, lifting) inj_onD distinct_map)
    with j Some True show ?thesis by simp
  qed
qed (simp add: skill_get_def skill_list_eq)

section \<open>The prompt catalog\<close>

lemma catalog_lines_length:
  "used \<le> limit \<Longrightarrow> used + int (length (concat (catalog_lines limit used ks))) \<le> limit"
proof (induction ks arbitrary: used)
  case (Cons k ks)
  define line where "line = (if used + int (length (full_line k)) > limit then short_line k else full_line k)"
  have eq: "catalog_lines limit used (k # ks) = (if \<not> kd_enabled k then catalog_lines limit used ks
      else if used + int (length line) > limit then [] else line # catalog_lines limit (used + int (length line)) ks)"
    by (simp add: line_def Let_def)
  show ?case
    unfolding eq using Cons.prems Cons.IH [of used] Cons.IH [of "used + int (length line)"]
    by (cases "used + int (length line) \<le> limit"; cases "kd_enabled k") simp_all
qed simp

text \<open>
  the catalog of skills put into a prompt is never longer than its budget, and is empty for
  a budget that is not positive.
\<close>

theorem prompt_catalog_bounded: "int (length (prompt_catalog r limit)) \<le> max 0 limit"
  using catalog_lines_length [of "int (length catalog_prefix + length catalog_suffix)" limit "skill_list r"]
  by (auto simp: prompt_catalog_def Let_def)

lemma xml_escape_eq: "xml_escape t = concat (map xml_char t)"
proof -
  have "xml_escape (c # cs) = xml_char c @ xml_escape cs" for c cs
    by (simp add: xml_escape_def replace_char_def xml_char_def lit_def)
  then show ?thesis by (induction t) (simp_all add: xml_escape_def replace_char_def)
qed

lemma xml_escape_safe: "34 \<notin> set (xml_escape t) \<and> 60 \<notin> set (xml_escape t) \<and> 62 \<notin> set (xml_escape t)"
  by (induction t) (auto simp: xml_escape_eq xml_char_def lit_def)

lemma catalog_lines_enabled:
  "list_all2 (\<lambda>l k. l = full_line k \<or> l = short_line k) (catalog_lines limit used ks)
     (take (length (catalog_lines limit used ks)) (filter kd_enabled ks))"
  by (induction limit used ks rule: catalog_lines.induct) (auto simp: Let_def)

text \<open>
  the lines of a catalog are, in order, those of the first enabled skills: a disabled skill
  is never disclosed; and no name, description or trigger can close its attribute or tag, as an
  escaped value has neither quotation marks nor angle brackets.
\<close>

theorem catalog_lists_enabled:
  assumes "int (length catalog_prefix + length catalog_suffix) \<le> limit"
  shows "\<exists>ls. prompt_catalog r limit = (if ls = [] then [] else catalog_prefix @ concat ls @ catalog_suffix) \<and>
     list_all2 (\<lambda>l k. l = full_line k \<or> l = short_line k) ls (take (length ls) (filter kd_enabled (skill_list r))) \<and>
     (\<forall>t. set (xml_escape t) \<inter> {34, 60, 62} = {})"
proof -
  let ?ls = "catalog_lines limit (int (length catalog_prefix + length catalog_suffix)) (skill_list r)"
  have "0 < length catalog_prefix" by (simp add: catalog_prefix_def)
  with assms have "0 < limit" by linarith
  then have "prompt_catalog r limit = (if ?ls = [] then [] else catalog_prefix @ concat ?ls @ catalog_suffix)"
    using assms by (simp add: prompt_catalog_def Let_def)
  then show ?thesis using catalog_lines_enabled xml_escape_safe by fastforce
qed

theorem catalog_lists_enabled_witness:
  "\<exists>ls. prompt_catalog \<lparr>kr_exists = False, kr_dirs = [], kr_state = None\<rparr> 1000 = (if ls = [] then [] else catalog_prefix @ concat ls @ catalog_suffix)"
  using catalog_lists_enabled [of 1000 "\<lparr>kr_exists = False, kr_dirs = [], kr_state = None\<rparr>"]
  by (auto simp: catalog_prefix_def catalog_suffix_def)

section \<open>Enabling and disabling\<close>

lemma map_of_sort_key:
  fixes xs :: "('k::linorder \<times> 'v) list"
  shows "map_of (sort_key fst xs) k = map_of xs k"
proof -
  have f: "map_of ys k = map_option snd (List.find (\<lambda>p. fst p = k) ys)" for ys :: "('k \<times> 'v) list"
    by (induction ys) auto
  have g: "List.find P ys = (case filter P ys of [] \<Rightarrow> None | p # _ \<Rightarrow> Some p)" for P and ys :: "('k \<times> 'v) list"
    by (induction ys) auto
  show ?thesis unfolding f g using sort_key_stable [of fst k xs] by simp
qed

definition flip_skill :: "ustr \<Rightarrow> bool \<Rightarrow> skill_document \<Rightarrow> skill_document" where
  "flip_skill name b k = (if kd_name k = name then k\<lparr>kd_enabled := b\<rparr> else k)"

lemma flip_name [simp]: "kd_name (flip_skill name b k) = kd_name k"
  by (simp add: flip_skill_def)

lemma enabled_state_written: "map_of (enabled_state (write_state st r)) n = map_of st n"
proof -
  have "concat (map (\<lambda>(k, v). case v of JBool b \<Rightarrow> [(k, b)] | _ \<Rightarrow> []) (map (\<lambda>(k, b). (k, JBool b)) xs)) = xs" for xs :: "(ustr, bool) dict"
    by (induction xs) auto
  then have "enabled_state (write_state st r) = sort_key fst st"
    by (simp add: enabled_state_def write_state_def)
  then show ?thesis by (simp add: map_of_sort_key)
qed

lemma skill_of_flip:
  assumes "\<And>n. map_of en' n = (if n = name then Some b else map_of en n)"
  shows "skill_of en' dir f = map_option (flip_skill name b) (skill_of en dir f)"
  by (auto simp: skill_of_def Let_def flip_skill_def assms split: option.splits)

lemma map_of_flip: "map_of (map (\<lambda>(n, k). (n, flip_skill name b k)) d) n = map_option (flip_skill name b) (map_of d n)"
  by (induction d) auto

lemma update_flip:
  "AList.update n (flip_skill name b k) (map (\<lambda>(n, k). (n, flip_skill name b k)) d) = map (\<lambda>(n, k). (n, flip_skill name b k)) (AList.update n k d)"
  by (induction d) auto

lemma add_found_flip:
  assumes "\<And>n. map_of en' n = (if n = name then Some b else map_of en n)"
  shows "add_found en' entry (map (\<lambda>(n, k). (n, flip_skill name b k)) d) = map (\<lambda>(n, k). (n, flip_skill name b k)) (add_found en entry d)"
  unfolding add_found_def skill_of_flip [OF assms] by (auto simp: map_of_flip update_flip split: option.splits)

lemma found_flip:
  assumes "\<And>n. map_of (enabled_state r') n = (if n = name then Some b else map_of (enabled_state r) n)" and "kr_dirs r' = kr_dirs r"
  shows "found_skills r' = map (\<lambda>(n, k). (n, flip_skill name b k)) (found_skills r)"
proof -
  have "fold (add_found (enabled_state r')) es (map (\<lambda>(n, k). (n, flip_skill name b k)) d) =
      map (\<lambda>(n, k). (n, flip_skill name b k)) (fold (add_found (enabled_state r)) es d)" for es d
    by (induction es arbitrary: d) (simp_all add: add_found_flip [OF assms(1)])
  from this [of "sort_key fst (kr_dirs r)" "[]"] show ?thesis by (simp add: found_skills_def assms(2))
qed

lemma skill_list_flip:
  assumes "found_skills r' = map (\<lambda>(n, k). (n, flip_skill name b k)) (found_skills r)" and "kr_exists r' = kr_exists r"
  shows "skill_list r' = map (flip_skill name b) (skill_list r)"
proof -
  have keys: "map fst (found_skills r') = map fst (found_skills r)"
    unfolding assms(1) by (simp add: case_prod_unfold)
  have "the (map_of (found_skills r') n) = flip_skill name b (the (map_of (found_skills r) n))"
    if "n \<in> set (sort (map fst (found_skills r)))" for n
    using found_lookup [of n r] that unfolding assms(1) map_of_flip by auto
  then show ?thesis unfolding skill_list_eq keys assms(2) by simp
qed

text \<open>
  switching a skill on or off does that and nothing else: for a name that is not found the
  call fails and changes nothing; for a found one it returns the skill with the new flag, and
  the list is as before but for that flag, so a skill that is switched off can be loaded by
  no call of the tool.
\<close>

theorem set_enabled_exact:
  "case skill_get r name True of
     None \<Rightarrow> set_enabled name b r = (Inl (Unknown_skill name), r)
   | Some k \<Rightarrow> \<exists>r'. set_enabled name b r = (Inr (k\<lparr>kd_enabled := b\<rparr>), r') \<and>
       skill_list r' = map (\<lambda>j. if kd_name j = name then j\<lparr>kd_enabled := b\<rparr> else j) (skill_list r) \<and>
       load_skill r' [(lit ''name'', JStr name)] =
         (if b then tool_success [(lit ''name'', JStr name), (lit ''content'', JStr (kd_content k)),
            (lit ''estimated_tokens'', JInt (estimate_tokens (kd_content k)))]
          else mk_fail (lit ''skill_unavailable'') (lit ''the requested skill does not exist or is disabled'') False)"
proof (cases "skill_get r name True")
  case None
  then show ?thesis by (simp add: set_enabled_def)
next
  case (Some k)
  let ?r = "write_state (AList.update name b (enabled_state r)) r"
  from skill_get_SomeD [OF Some] have k: "kd_name k = name" "k \<in> set (skill_list r)" by simp_all
  then have ex: "kr_exists r" by (auto simp: skill_list_eq split: if_splits)
  have found: "found_skills ?r = map (\<lambda>(n, k). (n, flip_skill name b k)) (found_skills r)"
  proof (rule found_flip)
    show "map_of (enabled_state ?r) n = (if n = name then Some b else map_of (enabled_state r) n)" for n
      by (simp only: enabled_state_written) (simp add: update_conv')
  qed (simp add: write_state_def)
  have list: "skill_list ?r = map (flip_skill name b) (skill_list r)"
    by (rule skill_list_flip [OF found]) (simp add: write_state_def ex)
  have get: "skill_get ?r name True = Some (flip_skill name b k)"
  proof -
    have "kr_exists ?r" by (simp add: write_state_def)
    then have "skill_get ?r name True = map_of (found_skills ?r) name" unfolding skill_get_found by simp
    also have "\<dots> = map_option (flip_skill name b) (map_of (found_skills r) name)" unfolding found by (rule map_of_flip)
    also have "map_of (found_skills r) name = Some k" using Some ex by (simp add: skill_get_found)
    finally show ?thesis by simp
  qed
  have "set_enabled name b r = (Inr (flip_skill name b k), ?r)"
    using Some get by (simp add: set_enabled_def Let_def)
  moreover have "load_skill ?r [(lit ''name'', JStr name)] =
         (if b then tool_success [(lit ''name'', JStr name), (lit ''content'', JStr (kd_content k)),
            (lit ''estimated_tokens'', JInt (estimate_tokens (kd_content k)))]
          else mk_fail (lit ''skill_unavailable'') (lit ''the requested skill does not exist or is disabled'') False)"
    using get k by (simp add: load_skill_def skill_get_disabled flip_skill_def)
  ultimately show ?thesis
    using Some k list by (simp add: flip_skill_def [abs_def])
qed

section \<open>Saving\<close>

lemma fold_found_lookup:
  "map_of (fold (add_found en) es d) n = (case map_of d n of Some k \<Rightarrow> Some k
     | None \<Rightarrow> List.find (\<lambda>k. kd_name k = n) (concat (map (\<lambda>e. case skill_of en (fst e) (snd e) of None \<Rightarrow> [] | Some k \<Rightarrow> [k]) es)))"
proof (induction es arbitrary: d)
  case (Cons e es)
  show ?case
    by (simp add: Cons.IH) (auto simp: add_found_def update_conv' split: option.splits)
qed (simp split: option.splits)


lemma first_skill:
  assumes "sorted (map fst es)" and "distinct (map fst es)" and "(dir, f) \<in> set es"
    and "skill_of en dir f = Some k" and "kd_name k = n"
  shows "\<exists>j. List.find (\<lambda>k. kd_name k = n) (concat (map (\<lambda>e. case skill_of en (fst e) (snd e) of None \<Rightarrow> [] | Some k \<Rightarrow> [k]) es)) = Some j \<and>
     kd_name j = n \<and> (j = k \<or> (\<exists>(d, g) \<in> set es. d < dir \<and> skill_of en d g = Some j))"
  using assms(1, 2, 3)
proof (induction es)
  case (Cons e es)
  show ?case
  proof (cases "e = (dir, f)")
    case True
    then show ?thesis using assms(4, 5) by simp
  next
    case False
    then have own: "(dir, f) \<in> set es" using Cons.prems(3) by auto
    then have less: "fst e < dir" proof -
      have "dir \<in> set (map fst es)" using own by (metis fst_conv image_eqI list.set_map)
      moreover have "\<forall>y \<in> set (map fst es). fst e \<le> y" "fst e \<notin> set (map fst es)"
        using Cons.prems(1, 2) by simp_all
      ultimately show ?thesis by (metis order_le_imp_less_or_eq)
    qed
    obtain j where j: "List.find (\<lambda>k. kd_name k = n) (concat (map (\<lambda>e. case skill_of en (fst e) (snd e) of None \<Rightarrow> [] | Some k \<Rightarrow> [k]) es)) = Some j"
        "kd_name j = n" "j = k \<or> (\<exists>(d, g) \<in> set es. d < dir \<and> skill_of en d g = Some j)"
      using Cons.IH [OF _ _ own] Cons.prems by auto
    show ?thesis
    proof (cases "skill_of en (fst e) (snd e)")
      case None
      then show ?thesis using j by auto
    next
      case (Some i)
      then show ?thesis using j less by (cases e) auto
    qed
  qed
qed simp

lemma no_cr: "13 \<notin> set t \<Longrightarrow> universal_newlines t = t"
  by (induction t rule: universal_newlines.induct) auto

text \<open>
  saving a valid skill (its front matter parses and names it, its directory is inside the
  root, its text has no carriage return) succeeds, and what the call returns, and every later
  lookup finds, is the saved text, unless a directory that sorts before declares the same name
  and shadows it: then the older skill is returned in its place.
\<close>

theorem saved_skill_loaded:
  assumes "skill_name name" and "parse_document content = Some (meta, body)" and "map_of meta (lit ''name'') = Some name"
    and "case map_of (kr_dirs r) name of None \<Rightarrow> True | Some f \<Rightarrow> kf_contained f"
    and "13 \<notin> set content" and "dict_wf (kr_dirs r)"
  shows "\<exists>k r'. skill_save name content r = (Inr k, r') \<and> skill_get r' name True = Some k \<and>
     (kd_dir k = name \<and> kd_content k = content \<and> kd_body k = body \<or>
      kd_dir k < name \<and> map_of (kr_dirs r) (kd_dir k) \<noteq> None)"
proof -
  let ?f = "\<lparr>kf_link = False, kf_contained = True, kf_text = Some content\<rparr>"
  let ?dirs = "AList.update name ?f (kr_dirs r)"
  let ?r = "r\<lparr>kr_exists := True, kr_dirs := ?dirs\<rparr>"
  let ?es = "sort_key fst ?dirs"
  have wf: "dict_wf ?dirs" using assms(6) by simp
  have sorted: "sorted (map fst ?es)" by simp
  have "distinct (map fst ?es)" using wf unfolding dict_wf_def
    by (metis distinct_map distinct_sort set_sort)
  moreover have "(name, ?f) \<in> set ?es"
  proof -
    have "map_of ?dirs name = Some ?f" by (simp add: update_conv')
    then show ?thesis by (simp add: map_of_SomeD)
  qed
  moreover obtain k0 where k0: "skill_of (enabled_state ?r) name ?f = Some k0" "kd_name k0 = name" "kd_dir k0 = name"
      "kd_content k0 = content" "kd_body k0 = body"
    using assms(2, 3) by (simp add: skill_of_def no_cr [OF assms(5)] Let_def)
  ultimately obtain j where j: "map_of (found_skills ?r) name = Some j"
      "j = k0 \<or> (\<exists>(d, g) \<in> set ?es. d < name \<and> skill_of (enabled_state ?r) d g = Some j)"
    using first_skill [OF sorted _ _ k0(1, 2)] by (auto simp: found_skills_def fold_found_lookup)
  have get: "skill_get ?r name True = Some j" using j(1) by (simp add: skill_get_found)
  have "skill_save name content r = (Inr j, ?r)"
    using assms(1-4) get by (auto simp: skill_save_def Let_def split: option.splits)
  moreover have "kd_dir j = name \<and> kd_content j = content \<and> kd_body j = body \<or> kd_dir j < name \<and> map_of (kr_dirs r) (kd_dir j) \<noteq> None"
    using j(2)
  proof
    assume "\<exists>(d, g) \<in> set ?es. d < name \<and> skill_of (enabled_state ?r) d g = Some j"
    then obtain d g where d: "(d, g) \<in> set ?dirs" "d < name" "skill_of (enabled_state ?r) d g = Some j" by auto
    from d(3) have "kd_dir j = d" by (auto simp: skill_of_def Let_def split: if_splits option.splits)
    moreover have "map_of ?dirs d \<noteq> None" using d(1) by (metis map_of_eq_None_iff image_eqI fst_conv)
    moreover have "d \<noteq> name" using d(2) by blast
    ultimately show ?thesis using d(2) by (simp add: update_conv')
  qed (use k0 in simp)
  ultimately show ?thesis using get by blast
qed

definition demo_skill :: ustr where
  "demo_skill = [45, 45, 45, 10] @ lit ''name:b'' @ [10] @ lit ''description:d'' @ [10] @ lit ''trigger:t'' @ fence @ lit ''do''"

lemma demo_skill_parses:
  "parse_document demo_skill = Some ([(lit ''name'', lit ''b''), (lit ''description'', lit ''d''), (lit ''trigger'', lit ''t'')], lit ''do'')"
  by (simp add: parse_document_def demo_skill_def fence_def str_simps starts_with_def splitlines_def line_break_def Let_def strip_def lstrip_def
      rstrip_def py_space_def strip_quotes_def skill_name_def del: One_nat_def)

theorem saved_skill_loaded_witness:
  "\<exists>k r'. skill_save (lit ''b'') demo_skill \<lparr>kr_exists = False, kr_dirs = [], kr_state = None\<rparr> = (Inr k, r') \<and> kd_content k = demo_skill"
proof -
  have "skill_name (lit ''b'')" by (simp add: skill_name_def str_simps)
  moreover have "13 \<notin> set demo_skill" by (simp add: demo_skill_def fence_def str_simps)
  ultimately show ?thesis
    using saved_skill_loaded [OF _ demo_skill_parses, of "lit ''b''" "\<lparr>kr_exists = False, kr_dirs = [], kr_state = None\<rparr>"] by auto
qed

end
