(* ===== verification/MemoryItems.thy ===== *)
theory MemoryItems
  imports MessageStore "HOL-Library.List_Lexorder"
begin

text \<open>
  Long-term memory: the contracts of \<open>contracts/memory.py\<close> and the tables of
  \<open>repositories/memory.py\<close>. Every method is one transaction on the tables; the keys and
  checks of the schema fail it as they do in PostgreSQL. The cosine distance and the trigram
  similarity of the database extensions and SHA-256 are parameters; instants are microseconds,
  identifiers come from a supply. The main results: a search returns only active memories its
  caller may see, a merge stays inside the boundary of its candidate and keeps the history,
  what a person has had revoked never comes back, and the ledger keeps its keys.
\<close>

section \<open>Contracts\<close>

datatype memory_scope = GLOBAL | SUBJECT | CONVERSATION
datatype memory_privacy = PRIVATE | SHARED | PUBLIC | SENSITIVE
datatype memory_operation = ADD | UPDATE | DELETE | NOOP

record memory_item =
  mi_id :: ustr
  mi_scope :: memory_scope
  mi_subject :: "ustr option"
  mi_conversation :: "conversation_key option"
  mi_kind :: ustr
  mi_content :: ustr
  mi_sources :: "ustr list"
  mi_confidence :: real
  mi_relationship_score :: "real option"
  mi_privacy :: memory_privacy
  mi_valid_from :: "int option"
  mi_valid_until :: "int option"
  mi_conflicts_with :: "ustr list"
  mi_supersedes :: "ustr list"
  mi_invalid_at :: "int option"
  mi_invalidated_by :: "ustr option"
  mi_revoked_at :: "int option"
  mi_revoked_reason :: "ustr option"

fun valid_scope :: "memory_scope \<Rightarrow> 'a option \<Rightarrow> 'b option \<Rightarrow> bool" where
  "valid_scope GLOBAL subject conversation = (subject = None \<and> conversation = None)"
| "valid_scope SUBJECT subject conversation = (subject \<noteq> None \<and> conversation = None)"
| "valid_scope CONVERSATION subject conversation = (subject = None \<and> conversation \<noteq> None)"

text \<open>The characters whose upper case is a single letter of \<open>RELATIONSHIP\<close> are the ASCII letters,
  the dotless i and the long s.\<close>

definition upper_char :: "nat \<Rightarrow> nat" where
  "upper_char c = (if 97 \<le> c \<and> c \<le> 122 then c - 32 else if c = 305 then 73 else if c = 383 then 83 else c)"

definition relationship_kind :: ustr where
  "relationship_kind = lit ''RELATIONSHIP''"

definition is_relationship :: "ustr \<Rightarrow> bool" where
  "is_relationship kind \<longleftrightarrow> map upper_char kind = relationship_kind"

definition valid_item :: "memory_item \<Rightarrow> bool" where
  "valid_item i \<longleftrightarrow> valid_opt (mi_subject i) \<and> nonempty_str (mi_kind i) \<and> nonempty_str (mi_content i) \<and>
     mi_sources i \<noteq> [] \<and> list_all nonempty_str (mi_sources i) \<and> 0 \<le> mi_confidence i \<and> mi_confidence i \<le> 1 \<and>
     (case mi_relationship_score i of None \<Rightarrow> True | Some x \<Rightarrow> 0 \<le> x \<and> x \<le> 100 \<and> mi_scope i = SUBJECT \<and> is_relationship (mi_kind i)) \<and>
     valid_scope (mi_scope i) (mi_subject i) (mi_conversation i) \<and>
     (case (mi_valid_from i, mi_valid_until i) of (Some a, Some b) \<Rightarrow> a < b | _ \<Rightarrow> True) \<and>
     (mi_revoked_at i = None \<longleftrightarrow> mi_revoked_reason i = None) \<and>
     (mi_invalidated_by i \<noteq> None \<longrightarrow> mi_invalid_at i \<noteq> None) \<and> mi_invalidated_by i \<noteq> Some (mi_id i) \<and>
     mi_id i \<notin> set (mi_conflicts_with i) \<and> mi_id i \<notin> set (mi_supersedes i)"

record merge_decision =
  mdn_operation :: memory_operation
  mdn_target :: "ustr option"
  mdn_content :: "ustr option"
  mdn_kind :: "ustr option"
  mdn_confidence :: "real option"

definition valid_decision :: "merge_decision \<Rightarrow> bool" where
  "valid_decision d \<longleftrightarrow> valid_opt (mdn_content d) \<and> valid_opt (mdn_kind d) \<and>
     (case mdn_confidence d of None \<Rightarrow> True | Some c \<Rightarrow> 0 \<le> c \<and> c \<le> 1) \<and>
     (case mdn_operation d of
        ADD \<Rightarrow> mdn_target d = None \<and> mdn_content d \<noteq> None
      | UPDATE \<Rightarrow> mdn_target d \<noteq> None \<and> mdn_content d \<noteq> None
      | DELETE \<Rightarrow> mdn_target d \<noteq> None \<and> mdn_content d = None
      | NOOP \<Rightarrow> mdn_content d = None)"

definition noop_decision :: merge_decision where
  "noop_decision = \<lparr>mdn_operation = NOOP, mdn_target = None, mdn_content = None, mdn_kind = None, mdn_confidence = None\<rparr>"

section \<open>Tables\<close>

record memory_row =
  mx_id :: ustr
  mx_scope :: memory_scope
  mx_subject :: "ustr option"
  mx_conversation :: "ustr option"
  mx_kind :: ustr
  mx_content :: ustr
  mx_sources :: "ustr list"
  mx_confidence :: real
  mx_relationship_score :: "real option"
  mx_privacy :: memory_privacy
  mx_valid_from :: "int option"
  mx_valid_until :: "int option"
  mx_conflicts_with :: "ustr list"
  mx_supersedes :: "ustr list"
  mx_invalid_at :: "int option"
  mx_invalidated_by :: "ustr option"
  mx_revoked_at :: "int option"
  mx_revoked_reason :: "ustr option"
  mx_embedding :: "real list option"
  mx_model :: "ustr option"
  mx_created_at :: int
  mx_accessed_at :: "int option"

record memory_audit =
  mau_id :: ustr
  mau_operation :: memory_operation
  mau_source :: ustr
  mau_memory :: "ustr option"
  mau_previous :: "ustr option"
  mau_conversation :: "ustr option"
  mau_subject :: "ustr option"
  mau_detail :: "(ustr, json) dict"

record recall_audit =
  mra_id :: ustr
  mra_hash :: ustr
  mra_subject :: ustr
  mra_conversation :: ustr
  mra_vector_ids :: "ustr list"
  mra_text_ids :: "ustr list"
  mra_selected_ids :: "ustr list"

record memory_db =
  ml_items :: "memory_row list"
  ml_audit :: "memory_audit list"
  ml_recalls :: "recall_audit list"
  ml_uuid :: "nat \<Rightarrow> ustr"
  ml_drawn :: nat
  ml_clock :: int

text \<open>What PostgreSQL and its extensions compute: the cosine distance of two vectors, \<open>None\<close> where
  their dimensions differ and the statement fails, and the trigram similarity.\<close>

record memory_sql =
  vo_distance :: "real list \<Rightarrow> real list \<Rightarrow> real option"
  vo_similarity :: "ustr \<Rightarrow> ustr \<Rightarrow> real"
  vo_sha256 :: "ustr \<Rightarrow> ustr"

definition memory_uuid :: "memory_db \<Rightarrow> ustr \<times> memory_db" where
  "memory_uuid db = (ml_uuid db (ml_drawn db), db\<lparr>ml_drawn := Suc (ml_drawn db)\<rparr>)"

text \<open>\<open>f"{value:.8f}"\<close> rounds half to even; \<open>NUMERIC(5, 2)\<close> rounds half up.\<close>

definition round_half_even :: "real \<Rightarrow> int" where
  "round_half_even x = (let f = \<lfloor>x\<rfloor>; d = x - of_int f
     in if d < 1 / 2 then f else if d > 1 / 2 then f + 1 else if even f then f else f + 1)"

definition vector_literal :: "real list \<Rightarrow> real list" where
  "vector_literal v = map (\<lambda>x. of_int (round_half_even (x * 10 ^ 8)) / 10 ^ 8) v"

definition numeric_5_2 :: "real \<Rightarrow> real" where
  "numeric_5_2 x = of_int \<lfloor>x * 100 + 1 / 2\<rfloor> / 100"

definition item_key :: "memory_item \<Rightarrow> ustr option" where
  "item_key i = map_option stable_key (mi_conversation i)"

definition row_of_item :: "memory_item \<Rightarrow> real list option \<Rightarrow> ustr option \<Rightarrow> int \<Rightarrow> memory_row" where
  "row_of_item i embedding model now = \<lparr>mx_id = mi_id i, mx_scope = mi_scope i, mx_subject = mi_subject i,
     mx_conversation = item_key i, mx_kind = mi_kind i, mx_content = mi_content i, mx_sources = mi_sources i,
     mx_confidence = mi_confidence i, mx_relationship_score = map_option numeric_5_2 (mi_relationship_score i),
     mx_privacy = mi_privacy i, mx_valid_from = mi_valid_from i, mx_valid_until = mi_valid_until i,
     mx_conflicts_with = mi_conflicts_with i, mx_supersedes = mi_supersedes i, mx_invalid_at = mi_invalid_at i,
     mx_invalidated_by = mi_invalidated_by i, mx_revoked_at = mi_revoked_at i, mx_revoked_reason = mi_revoked_reason i,
     mx_embedding = map_option vector_literal embedding, mx_model = model, mx_created_at = now, mx_accessed_at = None\<rparr>"

definition row_fits :: "memory_row \<Rightarrow> memory_row list \<Rightarrow> bool" where
  "row_fits r rows \<longleftrightarrow> mx_id r \<notin> mx_id ` set rows \<and>
     (case mx_invalidated_by r of None \<Rightarrow> True | Some j \<Rightarrow> mx_invalid_at r \<noteq> None \<and> (j = mx_id r \<or> j \<in> mx_id ` set rows)) \<and>
     (case mx_relationship_score r of None \<Rightarrow> True | Some x \<Rightarrow> 0 \<le> x \<and> x \<le> 100)"

definition insert_memory :: "memory_item \<Rightarrow> real list option \<Rightarrow> ustr option \<Rightarrow> memory_db \<Rightarrow> memory_db option" where
  "insert_memory i embedding model db =
     (let r = row_of_item i embedding model (ml_clock db)
      in if row_fits r (ml_items db) then Some (db\<lparr>ml_items := ml_items db @ [r]\<rparr>) else None)"

definition memory_store :: "memory_item \<Rightarrow> real list option \<Rightarrow> ustr option \<Rightarrow> (memory_db, ustr) prog" where
  "memory_store i embedding model db = (case insert_memory i embedding model db of
       None \<Rightarrow> (Inl integrity_error, db)
     | Some db' \<Rightarrow> (Inr (mi_id i), db'))"

section \<open>Reading\<close>

definition live_row :: "int \<Rightarrow> memory_row \<Rightarrow> bool" where
  "live_row now r \<longleftrightarrow> mx_revoked_at r = None \<and> (case mx_invalid_at r of None \<Rightarrow> True | Some t \<Rightarrow> t > now)"

definition active_row :: "int \<Rightarrow> memory_row \<Rightarrow> bool" where
  "active_row now r \<longleftrightarrow> live_row now r \<and> (case mx_valid_from r of None \<Rightarrow> True | Some t \<Rightarrow> t \<le> now) \<and>
     (case mx_valid_until r of None \<Rightarrow> True | Some t \<Rightarrow> t > now)"

definition in_reach :: "ustr \<Rightarrow> ustr \<Rightarrow> memory_row \<Rightarrow> bool" where
  "in_reach subject key r \<longleftrightarrow> (case mx_scope r of GLOBAL \<Rightarrow> True
     | SUBJECT \<Rightarrow> mx_subject r = Some subject
     | CONVERSATION \<Rightarrow> mx_conversation r = Some key)"

record memory_record =
  rec_id :: ustr
  rec_scope :: memory_scope
  rec_subject :: "ustr option"
  rec_conversation :: "ustr option"
  rec_privacy :: memory_privacy
  rec_kind :: ustr
  rec_content :: ustr
  rec_confidence :: real
  rec_sources :: "ustr list"
  rec_created_at :: int
  rec_relationship_score :: "real option"

definition record_of_row :: "memory_row \<Rightarrow> memory_record" where
  "record_of_row r = \<lparr>rec_id = mx_id r, rec_scope = mx_scope r, rec_subject = mx_subject r, rec_conversation = mx_conversation r,
     rec_privacy = mx_privacy r, rec_kind = mx_kind r, rec_content = mx_content r, rec_confidence = mx_confidence r,
     rec_sources = mx_sources r, rec_created_at = mx_created_at r, rec_relationship_score = mx_relationship_score r\<rparr>"

record scored_memory =
  sm_id :: ustr
  sm_scope :: memory_scope
  sm_privacy :: memory_privacy
  sm_kind :: ustr
  sm_content :: ustr
  sm_confidence :: real
  sm_created_at :: int
  sm_distance :: "real option"
  sm_supersedes :: "ustr list"
  sm_vector_rank :: "nat option"
  sm_text_rank :: "nat option"
  sm_rrf_score :: real
  sm_relationship_score :: "real option"

text \<open>\<open>ORDER BY key, created_at DESC, id\<close> is a stable sort by the key of rows in the other order.\<close>

definition newest_memory :: "memory_row list \<Rightarrow> memory_row list" where
  "newest_memory rows = sort_key (\<lambda>r. - mx_created_at r) (sort_key mx_id rows)"

definition rank_of :: "memory_row list \<Rightarrow> ustr \<Rightarrow> nat option" where
  "rank_of rows i = map_of (zip (map mx_id rows) [1..<Suc (length rows)]) i"

definition row_distance :: "memory_sql \<Rightarrow> real list \<Rightarrow> memory_row \<Rightarrow> real option" where
  "row_distance sql q r = (case mx_embedding r of None \<Rightarrow> None | Some e \<Rightarrow> vo_distance sql e (vector_literal q))"

definition eligible_memory :: "ustr \<Rightarrow> ustr \<Rightarrow> bool \<Rightarrow> int \<Rightarrow> memory_row \<Rightarrow> bool" where
  "eligible_memory subject key include_private now r \<longleftrightarrow> active_row now r \<and> in_reach subject key r \<and>
     (include_private \<or> mx_privacy r \<notin> {PRIVATE, SENSITIVE})"

definition vector_hits :: "memory_sql \<Rightarrow> real list \<Rightarrow> ustr \<Rightarrow> nat \<Rightarrow> memory_row list \<Rightarrow> memory_row list" where
  "vector_hits sql q model limit rows = take limit (sort_key (\<lambda>r. the (row_distance sql q r))
     (newest_memory (filter (\<lambda>r. mx_embedding r \<noteq> None \<and> mx_model r = Some model) rows)))"

definition text_hits :: "memory_sql \<Rightarrow> ustr \<Rightarrow> nat \<Rightarrow> memory_row list \<Rightarrow> memory_row list" where
  "text_hits sql text limit rows = take limit (sort_key (\<lambda>r. - vo_similarity sql (mx_content r) text)
     (newest_memory (filter (\<lambda>r. text \<noteq> [] \<and> 0 < vo_similarity sql (mx_content r) text) rows)))"

definition rrf_part :: "nat option \<Rightarrow> real" where
  "rrf_part k = (case k of None \<Rightarrow> 0 | Some n \<Rightarrow> 1 / (60 + real n))"

definition scored_row :: "memory_sql \<Rightarrow> real list \<Rightarrow> nat option \<Rightarrow> nat option \<Rightarrow> memory_row \<Rightarrow> scored_memory" where
  "scored_row sql q v t r = \<lparr>sm_id = mx_id r, sm_scope = mx_scope r, sm_privacy = mx_privacy r, sm_kind = mx_kind r,
     sm_content = mx_content r, sm_confidence = mx_confidence r, sm_created_at = mx_created_at r,
     sm_distance = (if v = None then None else row_distance sql q r), sm_supersedes = mx_supersedes r,
     sm_vector_rank = v, sm_text_rank = t, sm_rrf_score = rrf_part v + rrf_part t,
     sm_relationship_score = mx_relationship_score r\<rparr>"

definition rank_or_last :: "nat option \<Rightarrow> nat" where
  "rank_or_last k = (case k of None \<Rightarrow> 2147483647 | Some n \<Rightarrow> n)"

definition fused_order :: "scored_memory list \<Rightarrow> scored_memory list" where
  "fused_order ms = sort_key (\<lambda>m. - sm_rrf_score m) (sort_key (\<lambda>m. rank_or_last (sm_vector_rank m))
     (sort_key (\<lambda>m. rank_or_last (sm_text_rank m)) (sort_key (\<lambda>m. - sm_created_at m) (sort_key sm_id ms))))"

definition fused_memories :: "memory_sql \<Rightarrow> real list \<Rightarrow> ustr \<Rightarrow> ustr \<Rightarrow> nat \<Rightarrow> memory_row list \<Rightarrow> scored_memory list" where
  "fused_memories sql q text model limit rows =
     (let vs = vector_hits sql q model (max (limit * 4) limit) rows; ts = text_hits sql text (max (limit * 4) limit) rows
      in take limit (fused_order (map (\<lambda>r. scored_row sql q (rank_of vs (mx_id r)) (rank_of ts (mx_id r)) r)
           (filter (\<lambda>r. rank_of vs (mx_id r) \<noteq> None \<or> rank_of ts (mx_id r) \<noteq> None) rows))))"

definition ranked_ids :: "(scored_memory \<Rightarrow> nat option) \<Rightarrow> scored_memory list \<Rightarrow> ustr list" where
  "ranked_ids rank ms = map sm_id (sort_key (\<lambda>m. the (rank m)) (filter (\<lambda>m. rank m \<noteq> None) ms))"

definition touch_rows :: "int \<Rightarrow> ustr list \<Rightarrow> memory_row list \<Rightarrow> memory_row list" where
  "touch_rows now ids rows = map (\<lambda>r. if mx_id r \<in> set ids then r\<lparr>mx_accessed_at := Some now\<rparr> else r) rows"

definition memory_search :: "memory_sql \<Rightarrow> real list \<Rightarrow> ustr \<Rightarrow> ustr \<Rightarrow> ustr \<Rightarrow> ustr \<Rightarrow> bool \<Rightarrow> int \<Rightarrow> nat \<Rightarrow>
    (memory_db, scored_memory list) prog" where
  "memory_search sql q text model subject key include_private now limit db =
     (let rows = filter (eligible_memory subject key include_private now) (ml_items db)
      in if \<exists>r \<in> set rows. mx_embedding r \<noteq> None \<and> row_distance sql q r = None
         then (Inl (Raised (lit ''DBAPIError'')), db)
         else (let ms = fused_memories sql q (strip text) model limit rows; (aid, db') = memory_uuid db
           in (Inr ms, db'\<lparr>ml_items := touch_rows now (map sm_id ms) (ml_items db),
                 ml_recalls := ml_recalls db @ [\<lparr>mra_id = aid, mra_hash = vo_sha256 sql (strip text), mra_subject = subject,
                   mra_conversation = key, mra_vector_ids = ranked_ids sm_vector_rank ms, mra_text_ids = ranked_ids sm_text_rank ms,
                   mra_selected_ids = map sm_id ms\<rparr>]\<rparr>)))"

definition same_boundary :: "memory_item \<Rightarrow> memory_row \<Rightarrow> bool" where
  "same_boundary i r \<longleftrightarrow> mx_scope r = mi_scope i \<and> mx_privacy r = mi_privacy i \<and> mx_subject r = mi_subject i \<and>
     mx_conversation r = item_key i"

definition merge_score :: "memory_sql \<Rightarrow> real list \<Rightarrow> ustr \<Rightarrow> ustr \<Rightarrow> memory_row \<Rightarrow> real" where
  "merge_score sql q model text r =
     (if mx_embedding r \<noteq> None \<and> mx_model r = Some model then (1 - the (row_distance sql q r)) * (7 / 10) else 0)
     + vo_similarity sql (mx_content r) text * (3 / 10)"

definition similar_for_merge :: "memory_sql \<Rightarrow> memory_item \<Rightarrow> real list \<Rightarrow> ustr \<Rightarrow> int \<Rightarrow> nat \<Rightarrow> memory_db \<Rightarrow> exn + memory_record list" where
  "similar_for_merge sql i q model now limit db =
     (let rows = filter (\<lambda>r. active_row now r \<and> same_boundary i r \<and>
            (mx_embedding r \<noteq> None \<and> mx_model r = Some model \<or> 0 < vo_similarity sql (mx_content r) (mi_content i))) (ml_items db)
      in if \<exists>r \<in> set rows. mx_embedding r \<noteq> None \<and> mx_model r = Some model \<and> row_distance sql q r = None
         then Inl (Raised (lit ''DBAPIError''))
         else Inr (map record_of_row (take limit (sort_key (\<lambda>r. - merge_score sql q model (mi_content i) r) (newest_memory rows)))))"

definition by_confidence :: "memory_row list \<Rightarrow> memory_row list" where
  "by_confidence rows = sort_key (\<lambda>r. - mx_confidence r) (newest_memory rows)"

definition active_expressions :: "ustr \<Rightarrow> int \<Rightarrow> nat \<Rightarrow> memory_db \<Rightarrow> memory_record list" where
  "active_expressions key now limit db = map record_of_row (take limit (by_confidence (filter (\<lambda>r.
     mx_scope r = CONVERSATION \<and> mx_conversation r = Some key \<and> mx_privacy r = SHARED \<and> mx_kind r = lit ''EXPRESSION'' \<and>
     active_row now r) (ml_items db))))"

definition relationship_of :: "ustr \<Rightarrow> memory_row \<Rightarrow> bool" where
  "relationship_of subject r \<longleftrightarrow> mx_scope r = SUBJECT \<and> mx_subject r = Some subject \<and> mx_kind r = relationship_kind"

definition first_row :: "memory_row list \<Rightarrow> memory_row option" where
  "first_row rows = (case newest_memory rows of [] \<Rightarrow> None | r # _ \<Rightarrow> Some r)"

definition relationship_for :: "ustr \<Rightarrow> int \<Rightarrow> memory_db \<Rightarrow> memory_record option" where
  "relationship_for subject now db = map_option record_of_row
     (first_row (filter (\<lambda>r. relationship_of subject r \<and> active_row now r) (ml_items db)))"

section \<open>Writing\<close>

record merge_application =
  ma_operation :: memory_operation
  ma_memory :: "ustr option"
  ma_previous :: "ustr option"
  ma_applied :: bool

definition add_audit :: "memory_operation \<Rightarrow> ustr \<Rightarrow> memory_item \<Rightarrow> ustr option \<Rightarrow> ustr option \<Rightarrow> (ustr, json) dict \<Rightarrow> memory_db \<Rightarrow> memory_db" where
  "add_audit operation source i memory previous detail db =
     (let (aid, db) = memory_uuid db
      in db\<lparr>ml_audit := ml_audit db @ [\<lparr>mau_id = aid, mau_operation = operation, mau_source = source, mau_memory = memory,
           mau_previous = previous, mau_conversation = item_key i, mau_subject = mi_subject i, mau_detail = detail\<rparr>]\<rparr>)"

definition invalidate_memory :: "int \<Rightarrow> ustr option \<Rightarrow> ustr \<Rightarrow> memory_db \<Rightarrow> memory_db" where
  "invalidate_memory now successor i db = db\<lparr>ml_items := map (\<lambda>r. if mx_id r = i
     then r\<lparr>mx_invalid_at := Some now, mx_invalidated_by := successor\<rparr> else r) (ml_items db)\<rparr>"

text \<open>\<open>tuple(dict.fromkeys((*xs, x)))\<close>: the first occurrences, in order.\<close>

definition add_once :: "ustr list \<Rightarrow> ustr \<Rightarrow> ustr list" where
  "add_once xs x = (let ys = rev (remdups (rev xs)) in if x \<in> set ys then ys else ys @ [x])"

text \<open>The item a decision to add or update stores.\<close>

definition successor_item :: "memory_item \<Rightarrow> merge_decision \<Rightarrow> ustr \<Rightarrow> memory_item" where
  "successor_item i d new_id =
     (let i1 = i\<lparr>mi_content := (case mdn_content d of Some c \<Rightarrow> c | None \<Rightarrow> mi_content i)\<rparr>;
          i2 = (case mdn_kind d of None \<Rightarrow> i1 | Some k \<Rightarrow> i1\<lparr>mi_kind := k\<rparr>);
          i3 = (case mdn_confidence d of None \<Rightarrow> i2 | Some c \<Rightarrow> i2\<lparr>mi_confidence := c\<rparr>)
      in case mdn_target d of
           Some t \<Rightarrow> if mdn_operation d = UPDATE then i3\<lparr>mi_id := new_id, mi_supersedes := add_once (mi_supersedes i) t\<rparr> else i3
         | None \<Rightarrow> i3)"

definition merge_noop :: "ustr option \<Rightarrow> merge_application" where
  "merge_noop previous = \<lparr>ma_operation = NOOP, ma_memory = None, ma_previous = previous, ma_applied = False\<rparr>"

definition finish_merge :: "ustr \<Rightarrow> memory_item \<Rightarrow> merge_decision \<Rightarrow> ustr option \<Rightarrow> memory_db \<Rightarrow> (exn + merge_application) \<times> memory_db" where
  "finish_merge source i d memory db =
     (Inr \<lparr>ma_operation = mdn_operation d, ma_memory = memory, ma_previous = mdn_target d, ma_applied = (mdn_operation d \<noteq> NOOP)\<rparr>,
      add_audit (mdn_operation d) source i memory (mdn_target d) [(lit ''applied'', JBool (mdn_operation d \<noteq> NOOP))] db)"

definition apply_merge :: "memory_item \<Rightarrow> merge_decision \<Rightarrow> real list option \<Rightarrow> ustr option \<Rightarrow> ustr \<Rightarrow> int \<Rightarrow> (memory_db, merge_application) prog" where
  "apply_merge i d embedding model source now db =
     (if (case mdn_target d of None \<Rightarrow> False
          | Some t \<Rightarrow> (case find (\<lambda>r. mx_id r = t \<and> live_row now r) (ml_items db) of None \<Rightarrow> True | Some r \<Rightarrow> \<not> same_boundary i r))
      then (Inr (merge_noop (mdn_target d)),
            add_audit NOOP source i None (mdn_target d) [(lit ''reason'', JStr (lit ''target_not_active_or_out_of_scope''))] db)
      else if mdn_operation d \<in> {ADD, UPDATE}
      then (let (new_id, db1) = (if mdn_operation d = UPDATE \<and> mdn_target d \<noteq> None then memory_uuid db else ([], db));
                s = successor_item i d new_id
            in case insert_memory s embedding model db1 of
                 None \<Rightarrow> (Inl integrity_error, db1)
               | Some db2 \<Rightarrow> finish_merge source i d (Some (mi_id s))
                   (case mdn_target d of Some t \<Rightarrow> if mdn_operation d = UPDATE then invalidate_memory now (Some (mi_id s)) t db2 else db2
                    | None \<Rightarrow> db2))
      else finish_merge source i d None
        (case mdn_target d of Some t \<Rightarrow> if mdn_operation d = DELETE then invalidate_memory now None t db else db | None \<Rightarrow> db))"

definition revoked_by :: "ustr \<Rightarrow> ustr option \<Rightarrow> memory_row \<Rightarrow> bool" where
  "revoked_by subject key r \<longleftrightarrow> mx_revoked_at r = None \<and>
     (mx_scope r = SUBJECT \<and> mx_subject r = Some subject \<or> key \<noteq> None \<and> mx_scope r = CONVERSATION \<and> mx_conversation r = key)"

definition revoke_for :: "ustr \<Rightarrow> ustr option \<Rightarrow> int \<Rightarrow> ustr \<Rightarrow> memory_db \<Rightarrow> nat \<times> memory_db" where
  "revoke_for subject key now reason db =
     (length (filter (revoked_by subject key) (ml_items db)),
      db\<lparr>ml_items := map (\<lambda>r. if revoked_by subject key r then r\<lparr>mx_revoked_at := Some now, mx_revoked_reason := Some reason\<rparr> else r)
        (ml_items db)\<rparr>)"

definition previous_relationship :: "memory_item \<Rightarrow> int \<Rightarrow> memory_row list \<Rightarrow> ustr option" where
  "previous_relationship i now rows = map_option mx_id (first_row (filter (\<lambda>r. mx_scope r = SUBJECT \<and> mx_subject r = mi_subject i \<and>
     mi_subject i \<noteq> None \<and> mx_kind r = relationship_kind \<and> live_row now r) rows))"

definition upsert_relationship :: "memory_item \<Rightarrow> ustr \<Rightarrow> int \<Rightarrow> (memory_db, merge_application) prog" where
  "upsert_relationship i source now db =
     (if mi_scope i \<noteq> SUBJECT \<or> \<not> is_relationship (mi_kind i) \<or> mi_relationship_score i = None
      then (Inl (Raised (lit ''ValueError'')), db)
      else (let previous = previous_relationship i now (ml_items db);
                (s, db1) = (case previous of None \<Rightarrow> (i, db)
                  | Some p \<Rightarrow> (let (new_id, db1) = memory_uuid db
                      in (i\<lparr>mi_id := new_id, mi_supersedes := add_once (mi_supersedes i) p\<rparr>, db1)));
                operation = (if previous = None then ADD else UPDATE)
            in case insert_memory s None None db1 of
                 None \<Rightarrow> (Inl integrity_error, db1)
               | Some db2 \<Rightarrow>
                   (Inr \<lparr>ma_operation = operation, ma_memory = Some (mi_id s), ma_previous = previous, ma_applied = True\<rparr>,
                    add_audit operation source s (Some (mi_id s)) previous
                      [(lit ''relationship_score'', case mi_relationship_score s of None \<Rightarrow> JNull | Some x \<Rightarrow> JFloat x)]
                      (case previous of None \<Rightarrow> db2 | Some p \<Rightarrow> invalidate_memory now (Some (mi_id s)) p db2))))"

section \<open>The lifecycle\<close>

record lifecycle_report =
  lrp_expired :: nat
  lrp_decayed :: nat
  lrp_deleted :: nat

definition day :: int where
  "day = 86400 * 1000000"

definition stands :: "memory_row \<Rightarrow> bool" where
  "stands r \<longleftrightarrow> mx_revoked_at r = None \<and> mx_invalid_at r = None"

definition expires :: "int \<Rightarrow> memory_row \<Rightarrow> bool" where
  "expires now r \<longleftrightarrow> stands r \<and> (case mx_valid_until r of None \<Rightarrow> False | Some t \<Rightarrow> t \<le> now)"

definition expire_row :: "int \<Rightarrow> memory_row \<Rightarrow> memory_row" where
  "expire_row now r = (if expires now r then r\<lparr>mx_invalid_at := mx_valid_until r\<rparr> else r)"

definition decay_row :: "int \<Rightarrow> real \<Rightarrow> memory_row \<Rightarrow> memory_row" where
  "decay_row stale_before factor r =
     (if stands r \<and> (case mx_accessed_at r of Some t \<Rightarrow> t | None \<Rightarrow> mx_created_at r) \<le> stale_before
      then r\<lparr>mx_confidence := mx_confidence r * factor,
             mx_relationship_score := map_option (\<lambda>x. numeric_5_2 (max 0 (x * factor))) (mx_relationship_score r)\<rparr>
      else r)"

definition faded :: "real \<Rightarrow> memory_row \<Rightarrow> bool" where
  "faded bound r \<longleftrightarrow> stands r \<and> mx_confidence r < bound"

definition fade_row :: "int \<Rightarrow> real \<Rightarrow> memory_row \<Rightarrow> memory_row" where
  "fade_row now bound r = (if faded bound r then r\<lparr>mx_invalid_at := Some now\<rparr> else r)"

definition purged :: "int \<Rightarrow> memory_row \<Rightarrow> bool" where
  "purged purge_before r \<longleftrightarrow> (case mx_revoked_at r of None \<Rightarrow> False | Some t \<Rightarrow> t \<le> purge_before)"

text \<open>Deleting rows sets the references to them to null (\<open>ON DELETE SET NULL\<close>).\<close>

definition purge_rows :: "int \<Rightarrow> memory_row list \<Rightarrow> memory_row list" where
  "purge_rows purge_before rows =
     (let gone = mx_id ` set (filter (purged purge_before) rows)
      in map (\<lambda>r. case mx_invalidated_by r of None \<Rightarrow> r
           | Some j \<Rightarrow> if j \<in> gone then r\<lparr>mx_invalidated_by := None\<rparr> else r)
           (filter (\<lambda>r. \<not> purged purge_before r) rows))"

text \<open>The check of the score column fails the whole transaction.\<close>

definition run_lifecycle :: "int \<Rightarrow> int \<Rightarrow> real \<Rightarrow> real \<Rightarrow> int \<Rightarrow> (memory_db, lifecycle_report) prog" where
  "run_lifecycle now decay_days factor bound retention_days db =
     (let stale_before = now - decay_days * day; purge_before = now - retention_days * day;
          rows1 = map (expire_row now) (ml_items db);
          rows2 = map (decay_row stale_before factor) rows1;
          rows3 = map (fade_row now bound) rows2
      in if \<exists>r \<in> set rows2. case mx_relationship_score r of None \<Rightarrow> False | Some x \<Rightarrow> x > 100 then (Inl integrity_error, db)
         else (Inr \<lparr>lrp_expired = length (filter (expires now) (ml_items db)), lrp_decayed = length (filter (faded bound) rows2),
                 lrp_deleted = length (filter (purged purge_before) rows3)\<rparr>,
               db\<lparr>ml_items := purge_rows purge_before rows3\<rparr>))"

section \<open>Dialogue for consolidation\<close>

text \<open>This module's own text of stored segments: those of type text only.\<close>

definition plain_text :: "json \<Rightarrow> ustr list" where
  "plain_text raw = (case raw of JObj seg \<Rightarrow>
       if get_str seg (lit ''type'') \<noteq> Some (lit ''text'') then []
       else (case get_str seg (lit ''text'') of None \<Rightarrow> [] | Some t \<Rightarrow> if strip t \<noteq> [] then [strip t] else [])
     | _ \<Rightarrow> [])"

definition plain_text_of :: "json \<Rightarrow> ustr" where
  "plain_text_of segments = (case segments of JArr raws \<Rightarrow> py_join [10] (concat (map plain_text raws)) | _ \<Rightarrow> [])"

record consolidation_context =
  cxc_conversation :: conversation_key
  cxc_subject :: ustr
  cxc_source_ids :: "ustr list"
  cxc_transcript :: "ustr list"
  cxc_memories :: "memory_record list"

text \<open>\<open>DISTINCT ON\<close> keeps the newest inbound message of each conversation.\<close>

definition recent_conversations :: "int \<Rightarrow> nat \<Rightarrow> message_db \<Rightarrow> (conversation_row \<times> message_row) list" where
  "recent_conversations since limit mdb =
     take limit (sort_key (\<lambda>(c, m). - mr_occurred_at m) (concat (map (\<lambda>c. if cv_ephemeral c then []
       else (case newest_first (filter (\<lambda>m. mr_conversation m = cv_id c \<and> mr_direction m = inbound_direction \<and>
               since \<le> mr_occurred_at m) (db_messages mdb)) of [] \<Rightarrow> [] | m # _ \<Rightarrow> [(c, m)])) (db_conversations mdb))))"

definition chat_kind_of :: "ustr \<Rightarrow> chat_kind option" where
  "chat_kind_of t = List.find (\<lambda>k. chat_kind_value k = t) [DIRECT, GROUP, CHANNEL]"

definition context_privacy :: "chat_kind \<Rightarrow> memory_privacy \<Rightarrow> bool" where
  "context_privacy kind p \<longleftrightarrow> (if kind = DIRECT then p \<noteq> SENSITIVE else p \<notin> {PRIVATE, SENSITIVE})"

definition rendered_messages :: "message_row list \<Rightarrow> (ustr \<times> ustr) list" where
  "rendered_messages rows = concat (map (\<lambda>m. if plain_text_of (mr_segments m) = [] then []
     else [(mr_id m, mr_direction m @ [58] @ mr_sender m @ [58, 32] @ plain_text_of (mr_segments m))]) (rev rows))"

definition consolidation_of :: "int \<Rightarrow> int \<Rightarrow> nat \<Rightarrow> nat \<Rightarrow> message_db \<Rightarrow> memory_db \<Rightarrow> conversation_row \<times> message_row \<Rightarrow>
    exn + consolidation_context list" where
  "consolidation_of since now message_limit memory_limit mdb db cm =
     (case cm of (c, newest) \<Rightarrow> (case chat_kind_of (cv_chat_kind c) of
         None \<Rightarrow> Inl (Raised (lit ''ValueError''))
       | Some kind \<Rightarrow>
           (let rendered = rendered_messages (take message_limit (newest_first (filter (\<lambda>m. mr_conversation m = cv_id c \<and>
                  since \<le> mr_occurred_at m) (db_messages mdb))));
                memories = take memory_limit (sort_key (\<lambda>r. - mx_confidence r) (sort_key (\<lambda>r. - mx_created_at r) (filter (\<lambda>r.
                  active_row now r \<and> in_reach (mr_sender newest) (cv_stable_key c) r \<and> context_privacy kind (mx_privacy r)) (ml_items db))))
            in Inr (if rendered = [] then []
               else [\<lparr>cxc_conversation = \<lparr>ck_connection_id = cv_connection_id c, ck_chat_kind = kind, ck_chat_id = cv_chat_id c,
                       ck_thread_id = cv_thread_id c\<rparr>,
                     cxc_subject = mr_sender newest, cxc_source_ids = map fst rendered, cxc_transcript = map snd rendered,
                     cxc_memories = map record_of_row memories\<rparr>]))))"

fun collect_contexts :: "(conversation_row \<times> message_row \<Rightarrow> exn + consolidation_context list) \<Rightarrow> (conversation_row \<times> message_row) list \<Rightarrow>
    exn + consolidation_context list" where
  "collect_contexts f [] = Inr []"
| "collect_contexts f (c # cs) = (case f c of Inl x \<Rightarrow> Inl x | Inr xs \<Rightarrow>
     (case collect_contexts f cs of Inl x \<Rightarrow> Inl x | Inr ys \<Rightarrow> Inr (xs @ ys)))"

definition recent_consolidation_contexts :: "int \<Rightarrow> int \<Rightarrow> nat \<Rightarrow> nat \<Rightarrow> nat \<Rightarrow> message_db \<Rightarrow> memory_db \<Rightarrow> exn + consolidation_context list" where
  "recent_consolidation_contexts since now conversation_limit message_limit memory_limit mdb db =
     collect_contexts (consolidation_of since now message_limit memory_limit mdb db) (recent_conversations since conversation_limit mdb)"

section \<open>The ledger under any operations\<close>

datatype memory_op =
    Store_item memory_item "real list option" "ustr option"
  | Search_items "real list" ustr ustr ustr ustr bool int nat
  | Merge_item memory_item merge_decision "real list option" "ustr option" ustr int
  | Revoke_items ustr "ustr option" int ustr
  | Upsert_item memory_item ustr int
  | Age_items int int real real int
  | Memory_clock int

fun memory_step :: "memory_sql \<Rightarrow> memory_op \<Rightarrow> memory_db \<Rightarrow> memory_db" where
  "memory_step sql (Store_item i e m) db = snd (memory_store i e m db)"
| "memory_step sql (Search_items q t m s k p now limit) db = snd (memory_search sql q t m s k p now limit db)"
| "memory_step sql (Merge_item i d e m source now) db = snd (apply_merge i d e m source now db)"
| "memory_step sql (Revoke_items s k now reason) db = snd (revoke_for s k now reason db)"
| "memory_step sql (Upsert_item i source now) db = snd (upsert_relationship i source now db)"
| "memory_step sql (Age_items now days factor bound retention) db = snd (run_lifecycle now days factor bound retention db)"
| "memory_step sql (Memory_clock t) db = db\<lparr>ml_clock := t\<rparr>"

definition new_memory_db :: "(nat \<Rightarrow> ustr) \<Rightarrow> memory_db" where
  "new_memory_db supply = \<lparr>ml_items = [], ml_audit = [], ml_recalls = [], ml_uuid = supply, ml_drawn = 0, ml_clock = 0\<rparr>"


subsection \<open>What a row keeps\<close>

definition keeps :: "memory_row \<Rightarrow> memory_row \<Rightarrow> bool" where
  "keeps r r' \<longleftrightarrow> mx_id r' = mx_id r \<and> mx_scope r' = mx_scope r \<and> mx_subject r' = mx_subject r \<and>
     mx_conversation r' = mx_conversation r \<and> mx_privacy r' = mx_privacy r \<and> mx_kind r' = mx_kind r \<and>
     mx_content r' = mx_content r \<and> mx_sources r' = mx_sources r \<and> mx_supersedes r' = mx_supersedes r \<and>
     mx_created_at r' = mx_created_at r \<and> (mx_revoked_at r \<noteq> None \<longrightarrow> mx_revoked_at r' = mx_revoked_at r)"

lemma keeps_refl [simp]: "keeps r r"
  by (simp add: keeps_def)

lemma keeps_trans: "keeps r s \<Longrightarrow> keeps s t \<Longrightarrow> keeps r t"
  by (auto simp: keeps_def)

lemma keeps_id: "keeps r r' \<Longrightarrow> mx_id r' = mx_id r"
  by (simp add: keeps_def)

lemma keeps_updates:
  "keeps r (r\<lparr>mx_invalid_at := a\<rparr>)" "keeps r (r\<lparr>mx_invalid_at := a, mx_invalidated_by := b\<rparr>)"
  "keeps r (r\<lparr>mx_accessed_at := a\<rparr>)" "keeps r (r\<lparr>mx_invalidated_by := b\<rparr>)"
  "keeps r (r\<lparr>mx_confidence := c, mx_relationship_score := x\<rparr>)"
  by (simp_all add: keeps_def)

text \<open>One step on the rows: each is kept, or was revoked and is purged, and what is not kept from
  before is one new row.\<close>

definition rows_step :: "(memory_row \<Rightarrow> bool) \<Rightarrow> memory_row list \<Rightarrow> memory_row list \<Rightarrow> memory_row list \<Rightarrow> bool" where
  "rows_step gone new rows rows' \<longleftrightarrow> (\<exists>f. (\<forall>r. keeps r (f r)) \<and> rows' = map f (filter (\<lambda>r. \<not> gone r) rows) @ new)"

lemma rows_step_refl: "rows_step (\<lambda>r. False) [] rows rows"
  unfolding rows_step_def by (intro exI [of _ "\<lambda>r. r"]) simp

lemma rows_step_map: "(\<And>r. keeps r (f r)) \<Longrightarrow> rows_step (\<lambda>r. False) [] rows (map f rows)"
  unfolding rows_step_def by (intro exI [of _ f]) simp

lemma rows_step_append: "rows_step (\<lambda>r. False) [n] rows (rows @ [n])"
  unfolding rows_step_def by (intro exI [of _ "\<lambda>r. r"]) simp

lemma rows_step_append_map:
  assumes "\<And>r. keeps r (f r)"
  shows "rows_step (\<lambda>r. False) [f n] rows (map f (rows @ [n]))"
  unfolding rows_step_def using assms by (intro exI [of _ f]) simp

lemma rows_step_ids:
  assumes "rows_step gone new rows rows'"
  shows "map mx_id rows' = map mx_id (filter (\<lambda>r. \<not> gone r) rows) @ map mx_id new"
proof -
  obtain f where f: "\<forall>r. keeps r (f r)" "rows' = map f (filter (\<lambda>r. \<not> gone r) rows) @ new"
    using assms unfolding rows_step_def by blast
  then have "map mx_id (map f xs) = map mx_id xs" for xs by (simp add: keeps_def)
  with f(2) show ?thesis by (simp only: map_append)
qed

subsection \<open>The steps\<close>

lemma add_audit_items [simp]: "ml_items (add_audit op source i m p d db) = ml_items db"
  by (simp add: add_audit_def memory_uuid_def)

lemma memory_uuid_items [simp]: "ml_items (snd (memory_uuid db)) = ml_items db"
  by (simp add: memory_uuid_def)

lemma invalidate_memory_items: "ml_items (invalidate_memory now s t db) =
    map (\<lambda>r. if mx_id r = t then r\<lparr>mx_invalid_at := Some now, mx_invalidated_by := s\<rparr> else r) (ml_items db)"
  by (simp add: invalidate_memory_def)

lemma insert_memory_Some:
  assumes "insert_memory i e m db = Some db'"
  obtains r where "r = row_of_item i e m (ml_clock db)" "row_fits r (ml_items db)" "db' = db\<lparr>ml_items := ml_items db @ [r]\<rparr>"
  using assms unfolding insert_memory_def by (auto simp: Let_def split: if_splits)

lemma successor_boundary:
  "mi_scope (successor_item i d n) = mi_scope i" "mi_privacy (successor_item i d n) = mi_privacy i"
  "mi_subject (successor_item i d n) = mi_subject i" "mi_conversation (successor_item i d n) = mi_conversation i"
  "mi_invalid_at (successor_item i d n) = mi_invalid_at i" "mi_revoked_at (successor_item i d n) = mi_revoked_at i"
  by (auto simp: successor_item_def Let_def split: option.splits)

text \<open>The shapes of a merge: nothing but an audit entry, a failed insertion, a new row with its
  predecessor invalidated or not, or an invalidation.\<close>

lemma apply_merge_cases [case_names refused failed added updated removed idle]:
  obtains
    (refused) "apply_merge i d e m source now db = (Inr (merge_noop (mdn_target d)), add_audit NOOP source i None (mdn_target d)
        [(lit ''reason'', JStr (lit ''target_not_active_or_out_of_scope''))] db)"
  | (failed) db1 where "apply_merge i d e m source now db = (Inl integrity_error, db1)" "ml_items db1 = ml_items db"
  | (added) r db' where "apply_merge i d e m source now db = (Inr \<lparr>ma_operation = mdn_operation d, ma_memory = Some (mx_id r),
        ma_previous = mdn_target d, ma_applied = True\<rparr>, db')"
      "ml_items db' = ml_items db @ [r]" "mdn_operation d = ADD \<or> mdn_operation d = UPDATE \<and> mdn_target d = None"
      "\<exists>n now. r = row_of_item (successor_item i d n) e m now" "row_fits r (ml_items db)"
  | (updated) t q r db' where "apply_merge i d e m source now db = (Inr \<lparr>ma_operation = UPDATE, ma_memory = Some (mx_id r),
        ma_previous = Some t, ma_applied = True\<rparr>, db')"
      "ml_items db' = map (\<lambda>q. if mx_id q = t then q\<lparr>mx_invalid_at := Some now, mx_invalidated_by := Some (mx_id r)\<rparr> else q) (ml_items db @ [r])"
      "mdn_operation d = UPDATE" "mdn_target d = Some t"
      "find (\<lambda>r. mx_id r = t \<and> live_row now r) (ml_items db) = Some q" "same_boundary i q"
      "\<exists>n now. r = row_of_item (successor_item i d n) e m now" "row_fits r (ml_items db)"
  | (removed) t q db' where "apply_merge i d e m source now db = (Inr \<lparr>ma_operation = DELETE, ma_memory = None,
        ma_previous = Some t, ma_applied = True\<rparr>, db')"
      "ml_items db' = map (\<lambda>q. if mx_id q = t then q\<lparr>mx_invalid_at := Some now, mx_invalidated_by := None\<rparr> else q) (ml_items db)"
      "mdn_operation d = DELETE" "mdn_target d = Some t"
      "find (\<lambda>r. mx_id r = t \<and> live_row now r) (ml_items db) = Some q" "same_boundary i q"
  | (idle) a db' where "apply_merge i d e m source now db = (Inr a, db')" "ml_items db' = ml_items db"
      "ma_operation a = mdn_operation d" "ma_memory a = None" "ma_previous a = mdn_target d" 
      "mdn_operation d = NOOP \<or> mdn_operation d = DELETE \<and> mdn_target d = None"
proof -
  let ?bad = "case mdn_target d of None \<Rightarrow> False
      | Some t \<Rightarrow> (case find (\<lambda>r. mx_id r = t \<and> live_row now r) (ml_items db) of None \<Rightarrow> True | Some r \<Rightarrow> \<not> same_boundary i r)"
  show thesis
  proof (cases ?bad)
    case True
    then show thesis by (intro refused) (simp add: apply_merge_def)
  next
    case good: False
    have target: "\<exists>q. find (\<lambda>r. mx_id r = t \<and> live_row now r) (ml_items db) = Some q \<and> same_boundary i q" if "mdn_target d = Some t" for t
      using good that by (auto split: option.splits)
    show thesis
    proof (cases "mdn_operation d \<in> {ADD, UPDATE}")
      case True
      let ?w = "mdn_operation d = UPDATE \<and> mdn_target d \<noteq> None"
      define n where "n = (if ?w then fst (memory_uuid db) else [])"
      define db1 where "db1 = (if ?w then snd (memory_uuid db) else db)"
      have pair: "(if ?w then memory_uuid db else ([], db)) = (n, db1)" 
        unfolding n_def db1_def by (cases ?w) (simp_all only: if_True if_False prod.collapse simp_thms)
      have i1: "ml_items db1 = ml_items db" by (simp add: db1_def)
      let ?s = "successor_item i d n"
      have eq: "apply_merge i d e m source now db = (case insert_memory ?s e m db1 of None \<Rightarrow> (Inl integrity_error, db1)
          | Some db2 \<Rightarrow> finish_merge source i d (Some (mi_id ?s)) (case mdn_target d of
              Some t \<Rightarrow> if mdn_operation d = UPDATE then invalidate_memory now (Some (mi_id ?s)) t db2 else db2 | None \<Rightarrow> db2))"
        using good True pair by (simp add: apply_merge_def Let_def)
      show thesis
      proof (cases "insert_memory ?s e m db1")
        case None
        with eq i1 failed show thesis by simp
      next
        case (Some db2)
        then obtain r where r: "r = row_of_item ?s e m (ml_clock db1)" "row_fits r (ml_items db1)" "db2 = db1\<lparr>ml_items := ml_items db1 @ [r]\<rparr>"
          by (rule insert_memory_Some)
        have id: "mx_id r = mi_id ?s" by (simp add: r(1) row_of_item_def)
        show thesis
        proof (cases ?w)
          case w: True
          then obtain t where t: "mdn_target d = Some t" by auto
          with target obtain q where q: "find (\<lambda>r. mx_id r = t \<and> live_row now r) (ml_items db) = Some q" "same_boundary i q" by blast
          have res: "apply_merge i d e m source now db = finish_merge source i d (Some (mx_id r)) (invalidate_memory now (Some (mx_id r)) t db2)"
            using eq Some w t id by simp
          show thesis
            by (rule updated [OF _ _ _ t q]) (use res w t r i1 in \<open>auto simp: finish_merge_def invalidate_memory_items\<close>)
        next
          case False
          then have res: "apply_merge i d e m source now db = finish_merge source i d (Some (mx_id r)) db2"
            using eq Some id by (simp split: option.splits)
          show thesis
            by (rule added [of r "snd (finish_merge source i d (Some (mx_id r)) db2)"])
              (use res False True r i1 in \<open>auto simp: finish_merge_def\<close>)
        qed
      qed
    next
      case False
      then have eq: "apply_merge i d e m source now db = finish_merge source i d None
          (case mdn_target d of Some t \<Rightarrow> if mdn_operation d = DELETE then invalidate_memory now None t db else db | None \<Rightarrow> db)"
        using good by (simp add: apply_merge_def)
      show thesis
      proof (cases "mdn_operation d = DELETE \<and> mdn_target d \<noteq> None")
        case True
        then obtain t where t: "mdn_target d = Some t" by auto
        with target obtain q where q: "find (\<lambda>r. mx_id r = t \<and> live_row now r) (ml_items db) = Some q" "same_boundary i q" by blast
        show thesis
          by (rule removed [OF _ _ _ t q]) (use eq True t in \<open>auto simp: finish_merge_def invalidate_memory_items\<close>)
      next
        case idle': False
        then have "apply_merge i d e m source now db = finish_merge source i d None db"
          using eq by (simp split: option.splits)
        moreover have "mdn_operation d = NOOP \<or> mdn_operation d = DELETE \<and> mdn_target d = None"
          using False idle' by (cases "mdn_operation d") auto
        ultimately show thesis by (intro idle [of _ "snd (finish_merge source i d None db)"]) (auto simp: finish_merge_def)
      qed
    qed
  qed
qed


lemma store_rows: "\<exists>new. rows_step (\<lambda>r. False) new (ml_items db) (ml_items (snd (memory_store i e m db)))"
  unfolding memory_store_def
  by (auto simp: insert_memory_def Let_def intro: rows_step_refl rows_step_append split: option.splits)

lemma search_rows: "rows_step (\<lambda>r. False) [] (ml_items db) (ml_items (snd (memory_search sql q t m s k p now limit db)))"
  by (auto simp: memory_search_def Let_def touch_rows_def split_beta intro!: rows_step_refl rows_step_map keeps_updates)

lemma revoke_rows: "rows_step (\<lambda>r. False) [] (ml_items db) (ml_items (snd (revoke_for s k now reason db)))"
  by (auto simp: revoke_for_def revoked_by_def keeps_def intro!: rows_step_map)

lemma invalidated_rows:
  "\<exists>new. rows_step (\<lambda>r. False) new rows
     (map (\<lambda>q. if mx_id q = t then q\<lparr>mx_invalid_at := Some now, mx_invalidated_by := j\<rparr> else q) (rows @ [r]))"
  by (intro exI, rule rows_step_append_map) (simp add: keeps_updates)

lemma merge_rows: "\<exists>new. rows_step (\<lambda>r. False) new (ml_items db) (ml_items (snd (apply_merge i d e m source now db)))"
proof (cases rule: apply_merge_cases [of i d e m source now db])
  case (updated t q r db')
  show ?thesis unfolding updated(1) snd_conv updated(2) by (rule invalidated_rows)
next
  case (removed t q db')
  show ?thesis unfolding removed(1) snd_conv removed(2)
    by (intro exI [of _ "[]"] rows_step_map) (simp add: keeps_updates)
next
  case (failed db1)
  show ?thesis unfolding failed(1) snd_conv failed(2) by (intro exI [of _ "[]"] rows_step_refl)
next
  case refused
  show ?thesis unfolding refused snd_conv add_audit_items by (intro exI [of _ "[]"] rows_step_refl)
next
  case (added r db')
  show ?thesis unfolding added(1) snd_conv added(2) by (intro exI [of _ "[r]"] rows_step_append)
next
  case (idle a db')
  show ?thesis unfolding idle(1) snd_conv idle(2) by (intro exI [of _ "[]"] rows_step_refl)
qed

text \<open>The shapes of an upsert: nothing, or a new row and its predecessor, if any, invalidated.\<close>

lemma upsert_cases [case_names unchanged first later]:
  obtains
    (unchanged) x db1 where "upsert_relationship i source now db = (Inl x, db1)" "ml_items db1 = ml_items db"
  | (first) r db' where "upsert_relationship i source now db = (Inr \<lparr>ma_operation = ADD, ma_memory = Some (mx_id r),
        ma_previous = None, ma_applied = True\<rparr>, db')"
      "ml_items db' = ml_items db @ [r]" "previous_relationship i now (ml_items db) = None"
      "r = row_of_item i None None (ml_clock db)" "row_fits r (ml_items db)"
  | (later) p r db' n where "upsert_relationship i source now db = (Inr \<lparr>ma_operation = UPDATE, ma_memory = Some (mx_id r),
        ma_previous = Some p, ma_applied = True\<rparr>, db')"
      "ml_items db' = map (\<lambda>q. if mx_id q = p then q\<lparr>mx_invalid_at := Some now, mx_invalidated_by := Some (mx_id r)\<rparr> else q) (ml_items db @ [r])"
      "previous_relationship i now (ml_items db) = Some p"
      "r = row_of_item (i\<lparr>mi_id := n, mi_supersedes := add_once (mi_supersedes i) p\<rparr>) None None (ml_clock db)" "row_fits r (ml_items db)"
proof (cases "mi_scope i \<noteq> SUBJECT \<or> \<not> is_relationship (mi_kind i) \<or> mi_relationship_score i = None")
  case True
  then show thesis by (intro unchanged [of "Raised (lit ''ValueError'')" db]) (auto simp: upsert_relationship_def)
next
  case False
  let ?prev = "previous_relationship i now (ml_items db)"
  define s where "s = (case ?prev of None \<Rightarrow> i | Some p \<Rightarrow> i\<lparr>mi_id := fst (memory_uuid db), mi_supersedes := add_once (mi_supersedes i) p\<rparr>)"
  define db1 where "db1 = (case ?prev of None \<Rightarrow> db | Some p \<Rightarrow> snd (memory_uuid db))"
  have i1: "ml_items db1 = ml_items db" and c1: "ml_clock db1 = ml_clock db"
    by (simp_all add: db1_def memory_uuid_def split: option.splits)
  have pair: "(case ?prev of None \<Rightarrow> (i, db) | Some p \<Rightarrow> (let (new_id, db1) = memory_uuid db
      in (i\<lparr>mi_id := new_id, mi_supersedes := add_once (mi_supersedes i) p\<rparr>, db1))) = (s, db1)"
    by (simp add: s_def db1_def split_beta split: option.splits)
  have eq: "upsert_relationship i source now db = (case insert_memory s None None db1 of None \<Rightarrow> (Inl integrity_error, db1)
      | Some db2 \<Rightarrow> (Inr \<lparr>ma_operation = if ?prev = None then ADD else UPDATE, ma_memory = Some (mi_id s), ma_previous = ?prev, ma_applied = True\<rparr>,
          add_audit (if ?prev = None then ADD else UPDATE) source s (Some (mi_id s)) ?prev
            [(lit ''relationship_score'', case mi_relationship_score s of None \<Rightarrow> JNull | Some x \<Rightarrow> JFloat x)]
            (case ?prev of None \<Rightarrow> db2 | Some p \<Rightarrow> invalidate_memory now (Some (mi_id s)) p db2)))"
    unfolding upsert_relationship_def if_not_P [OF False] Let_def pair [unfolded Let_def] split_conv ..
  show thesis
  proof (cases "insert_memory s None None db1")
    case None
    with eq i1 unchanged show thesis by simp
  next
    case (Some db2)
    then obtain r where r: "r = row_of_item s None None (ml_clock db1)" "row_fits r (ml_items db1)" "db2 = db1\<lparr>ml_items := ml_items db1 @ [r]\<rparr>"
      by (rule insert_memory_Some)
    have id: "mx_id r = mi_id s" by (simp add: r(1) row_of_item_def)
    show thesis
    proof (cases ?prev)
      case None
      show thesis
        by (rule first) (use eq Some None r id i1 in \<open>auto simp: s_def db1_def\<close>)
    next
      case p: (Some p)
      show thesis
        by (rule later [OF _ _ p]) (use eq Some p r id i1 c1 in \<open>auto simp: s_def invalidate_memory_items\<close>)
    qed
  qed
qed

lemma upsert_rows: "\<exists>new. rows_step (\<lambda>r. False) new (ml_items db) (ml_items (snd (upsert_relationship i source now db)))"
proof (cases rule: upsert_cases [of i source now db])
  case (unchanged x db1)
  show ?thesis unfolding unchanged(1) snd_conv unchanged(2) by (intro exI [of _ "[]"] rows_step_refl)
next
  case (first r db')
  show ?thesis unfolding first(1) snd_conv first(2) by (intro exI [of _ "[r]"] rows_step_append)
next
  case (later p r db' n)
  show ?thesis unfolding later(1) snd_conv later(2) by (rule invalidated_rows)
qed

lemma aging_keeps: "keeps r (fade_row now b (decay_row t f (expire_row now r)))"
  and aging_revoked: "mx_revoked_at (fade_row now b (decay_row t f (expire_row now r))) = mx_revoked_at r"
  by (auto simp: fade_row_def decay_row_def expire_row_def keeps_def)

lemma lifecycle_rows:
  "\<exists>gone. rows_step gone [] (ml_items db) (ml_items (snd (run_lifecycle now days f b retention db))) \<and>
     (\<forall>r. gone r \<longrightarrow> purged (now - retention * day) r)"
proof -
  let ?g = "\<lambda>r. fade_row now b (decay_row (now - days * day) f (expire_row now r))"
  let ?p = "now - retention * day"
  let ?rows3 = "map (fade_row now b) (map (decay_row (now - days * day) f) (map (expire_row now) (ml_items db)))"
  let ?gone = "mx_id ` set (filter (purged ?p) ?rows3)"
  let ?h = "\<lambda>r. case mx_invalidated_by r of None \<Rightarrow> r | Some j \<Rightarrow> if j \<in> ?gone then r\<lparr>mx_invalidated_by := None\<rparr> else r"
  have k: "keeps r (?h (?g r))" for r
    by (rule keeps_trans [OF aging_keeps [of r now b "now - days * day" f]]) (auto simp: keeps_updates split: option.splits)
  have "purged ?p (?g r) = purged ?p r" for r by (simp add: purged_def aging_revoked)
  then have "map ?h (filter (\<lambda>r. \<not> purged ?p r) ?rows3) = map (\<lambda>r. ?h (?g r)) (filter (\<lambda>r. \<not> purged ?p r) (ml_items db))"
    by (simp add: filter_map comp_def)
  then have "rows_step (purged ?p) [] (ml_items db) (purge_rows ?p ?rows3)"
    unfolding rows_step_def purge_rows_def Let_def using k by (intro exI [of _ "\<lambda>r. ?h (?g r)"]) simp
  then show ?thesis unfolding run_lifecycle_def Let_def using rows_step_refl by auto
qed

definition purges :: "memory_op \<Rightarrow> memory_row \<Rightarrow> bool" where
  "purges op r \<longleftrightarrow> (\<exists>now days f b retention. op = Age_items now days f b retention \<and> purged (now - retention * day) r)"

lemma memory_step_rows:
  "\<exists>gone new. rows_step gone new (ml_items db) (ml_items (memory_step sql op db)) \<and> (\<forall>r. gone r \<longrightarrow> purges op r)"
proof (cases op)
  case (Age_items now days f b retention)
  then show ?thesis using lifecycle_rows [of db now days f b retention] by (force simp: purges_def)
next
  case (Memory_clock t)
  then show ?thesis by (auto intro: rows_step_refl)
next
  case Search_items then show ?thesis using search_rows by (metis memory_step.simps(2))
next
  case Revoke_items then show ?thesis using revoke_rows by (metis memory_step.simps(4))
next
  case Store_item then show ?thesis using store_rows by (metis memory_step.simps(1))
next
  case Merge_item then show ?thesis using merge_rows by (metis memory_step.simps(3))
next
  case Upsert_item then show ?thesis using upsert_rows by (metis memory_step.simps(5))
qed

text \<open>
  C28: memory is append-only but for purges: whatever operation runs, every row is still there
  afterwards with its content, kind, sources, scope, owner, privacy and revocation unchanged, or
  it had been revoked for longer than the retention period of the lifecycle run that removes it.
\<close>

theorem memory_history_kept:
  "\<forall>r \<in> set (ml_items db). (\<exists>r' \<in> set (ml_items (memory_step sql op db)). keeps r r') \<or> purges op r"
proof
  fix r assume r: "r \<in> set (ml_items db)"
  obtain gone new f where f: "\<forall>r. keeps r (f r)" "ml_items (memory_step sql op db) = map f (filter (\<lambda>r. \<not> gone r) (ml_items db)) @ new"
      and gone: "\<forall>r. gone r \<longrightarrow> purges op r"
    using memory_step_rows [of db sql op] unfolding rows_step_def by blast
  show "(\<exists>r' \<in> set (ml_items (memory_step sql op db)). keeps r r') \<or> purges op r"
  proof (cases "gone r")
    case True
    then show ?thesis using gone by blast
  next
    case False
    then have "f r \<in> set (ml_items (memory_step sql op db))" using r f(2) by simp
    then show ?thesis using f(1) by blast
  qed
qed


subsection \<open>The keys of the ledger\<close>

definition ref_ok :: "ustr set \<Rightarrow> memory_row \<Rightarrow> bool" where
  "ref_ok ids r \<longleftrightarrow> (case mx_invalidated_by r of None \<Rightarrow> True | Some j \<Rightarrow> mx_invalid_at r \<noteq> None \<and> j \<in> ids)"

definition score_ok :: "memory_row \<Rightarrow> bool" where
  "score_ok r \<longleftrightarrow> (case mx_relationship_score r of None \<Rightarrow> True | Some x \<Rightarrow> 0 \<le> x \<and> x \<le> 100)"

definition ledger_ok :: "memory_row list \<Rightarrow> bool" where
  "ledger_ok rows \<longleftrightarrow> distinct (map mx_id rows) \<and> (\<forall>r \<in> set rows. ref_ok (mx_id ` set rows) r \<and> score_ok r)"

lemma ledger_Nil [simp]: "ledger_ok []"
  by (simp add: ledger_ok_def)

lemma ref_ok_mono: "ref_ok A r \<Longrightarrow> A \<subseteq> B \<Longrightarrow> ref_ok B r"
  by (auto simp: ref_ok_def split: option.splits)

lemma ledger_append:
  assumes "ledger_ok rows" and "row_fits r rows"
  shows "ledger_ok (rows @ [r])"
proof -
  have "ref_ok (insert (mx_id r) (mx_id ` set rows)) r" "score_ok r" "mx_id r \<notin> mx_id ` set rows"
    using assms(2) by (auto simp: row_fits_def ref_ok_def score_ok_def split: option.splits)
  moreover have "\<forall>q \<in> set rows. ref_ok (insert (mx_id r) (mx_id ` set rows)) q \<and> score_ok q"
    using assms(1) by (auto simp: ledger_ok_def intro: ref_ok_mono)
  ultimately show ?thesis using assms(1) by (simp add: ledger_ok_def)
qed

lemma ledger_map:
  assumes "ledger_ok rows" and "\<And>r. mx_id (f r) = mx_id r"
    and "\<And>r. r \<in> set rows \<Longrightarrow> ref_ok (mx_id ` set rows) r \<Longrightarrow> ref_ok (mx_id ` set rows) (f r)"
    and "\<And>r. r \<in> set rows \<Longrightarrow> score_ok r \<Longrightarrow> score_ok (f r)"
  shows "ledger_ok (map f rows)"
proof -
  have ids: "map mx_id (map f rows) = map mx_id rows" using assms(2) by simp
  have "mx_id ` set (map f rows) = mx_id ` set rows" using assms(2) by (simp add: image_image)
  then show ?thesis
    using assms(1, 3, 4) unfolding ledger_ok_def ids by (auto simp only: set_map)
qed

lemma ledger_invalidate:
  assumes "ledger_ok rows" and "case j of None \<Rightarrow> True | Some k \<Rightarrow> k \<in> mx_id ` set rows"
  shows "ledger_ok (map (\<lambda>q. if mx_id q = t then q\<lparr>mx_invalid_at := Some now, mx_invalidated_by := j\<rparr> else q) rows)"
  using assms(2) by (intro ledger_map [OF assms(1)]) (auto simp: ref_ok_def score_ok_def split: option.splits)

lemma ledger_purge:
  assumes "ledger_ok rows"
  shows "ledger_ok (purge_rows t rows)"
proof -
  let ?kept = "filter (\<lambda>r. \<not> purged t r) rows" and ?gone = "mx_id ` set (filter (purged t) rows)"
  define h where "h = (\<lambda>r :: memory_row. case mx_invalidated_by r of None \<Rightarrow> r | Some j \<Rightarrow> if j \<in> ?gone then r\<lparr>mx_invalidated_by := None\<rparr> else r)"
  have id: "mx_id (h r) = mx_id r" for r by (auto simp: h_def split: option.splits)
  have eq: "purge_rows t rows = map h ?kept" unfolding purge_rows_def Let_def h_def ..
  have ids: "mx_id ` set (map h ?kept) = mx_id ` set ?kept" using id by (simp add: image_image)
  have "distinct (map mx_id ?kept)" using assms by (simp add: ledger_ok_def distinct_map_filter)
  then have "distinct (map mx_id (map h ?kept))" by (simp add: comp_def id)
  moreover have "ref_ok (mx_id ` set ?kept) (h r) \<and> score_ok (h r)" if r: "r \<in> set ?kept" for r
  proof -
    have ok: "ref_ok (mx_id ` set rows) r" "score_ok r" using assms r by (auto simp: ledger_ok_def)
    have "mx_id ` set rows \<subseteq> mx_id ` set ?kept \<union> ?gone" by auto
    then show ?thesis using ok by (auto simp: ref_ok_def score_ok_def h_def split: option.splits)
  qed
  ultimately show ?thesis unfolding eq ledger_ok_def ids by auto
qed

lemma numeric_nonneg: "0 \<le> x \<Longrightarrow> 0 \<le> numeric_5_2 x"
  by (simp add: numeric_5_2_def)

lemma ledger_lifecycle:
  assumes "ledger_ok (ml_items db)"
  shows "ledger_ok (ml_items (snd (run_lifecycle now days f b retention db)))"
proof -
  let ?rows2 = "map (decay_row (now - days * day) f) (map (expire_row now) (ml_items db))"
  show ?thesis
  proof (cases "\<exists>r \<in> set ?rows2. case mx_relationship_score r of None \<Rightarrow> False | Some x \<Rightarrow> x > 100")
    case True
    then show ?thesis using assms by (simp add: run_lifecycle_def Let_def)
  next
    case False
    have 1: "ledger_ok (map (expire_row now) (ml_items db))"
      by (rule ledger_map [OF assms])
        (auto simp: expire_row_def expires_def stands_def ref_ok_def score_ok_def split: option.splits)
    have 2: "ledger_ok ?rows2"
    proof (rule ledger_map [OF 1])
      fix r assume r: "r \<in> set (map (expire_row now) (ml_items db))" "score_ok r"
      then have "decay_row (now - days * day) f r \<in> set ?rows2"
        unfolding set_map [of "decay_row (now - days * day) f"] by (intro imageI)
      with False have "\<not> (case mx_relationship_score (decay_row (now - days * day) f r) of None \<Rightarrow> False | Some x \<Rightarrow> x > 100)"
        by blast
      then show "score_ok (decay_row (now - days * day) f r)"
        using r(2) by (auto simp: score_ok_def decay_row_def intro!: numeric_nonneg split: option.splits if_splits)
    qed (auto simp: decay_row_def ref_ok_def split: option.splits)
    have 3: "ledger_ok (map (fade_row now b) ?rows2)"
      by (rule ledger_map [OF 2]) (auto simp: fade_row_def ref_ok_def score_ok_def split: option.splits)
    show ?thesis using False ledger_purge [OF 3] by (simp add: run_lifecycle_def Let_def)
  qed
qed

lemma ledger_step:
  assumes "ledger_ok (ml_items db)"
  shows "ledger_ok (ml_items (memory_step sql op db))"
proof (cases op)
  case (Store_item i e m)
  then show ?thesis using assms
    by (auto simp: memory_store_def insert_memory_def Let_def intro: ledger_append split: option.splits)
next
  case (Search_items q t m s k p now limit)
  have "ledger_ok (touch_rows now ids (ml_items db))" for ids
    unfolding touch_rows_def
    by (rule ledger_map [OF assms]) (auto simp: ref_ok_def score_ok_def split: option.splits)
  then show ?thesis using assms Search_items by (simp add: memory_search_def Let_def split_beta)
next
  case (Merge_item i d e m source now)
  have "ledger_ok (ml_items (snd (apply_merge i d e m source now db)))"
  proof (cases rule: apply_merge_cases [of i d e m source now db])
    case (updated t q r db')
    show ?thesis unfolding updated(1) snd_conv updated(2)
      by (rule ledger_invalidate [OF ledger_append [OF assms updated(8)]]) simp
  next
    case (removed t q db')
    show ?thesis unfolding removed(1) snd_conv removed(2) by (rule ledger_invalidate [OF assms]) simp
  next
    case (added r db')
    show ?thesis unfolding added(1) snd_conv added(2) by (rule ledger_append [OF assms added(5)])
  qed (use assms in auto)
  then show ?thesis using Merge_item by simp
next
  case (Revoke_items s k now reason)
  have "ledger_ok (map (\<lambda>r. if revoked_by s k r then r\<lparr>mx_revoked_at := Some now, mx_revoked_reason := Some reason\<rparr> else r) (ml_items db))"
    by (rule ledger_map [OF assms]) (auto simp: ref_ok_def score_ok_def split: option.splits)
  then show ?thesis using Revoke_items by (simp add: revoke_for_def)
next
  case (Upsert_item i source now)
  have "ledger_ok (ml_items (snd (upsert_relationship i source now db)))"
  proof (cases rule: upsert_cases [of i source now db])
    case (later p r db' n)
    show ?thesis unfolding later(1) snd_conv later(2)
      by (rule ledger_invalidate [OF ledger_append [OF assms later(5)]]) simp
  next
    case (first r db')
    show ?thesis unfolding first(1) snd_conv first(2) by (rule ledger_append [OF assms first(5)])
  qed (use assms in auto)
  then show ?thesis using Upsert_item by simp
next
  case Age_items
  then show ?thesis using ledger_lifecycle [OF assms] by simp
next
  case Memory_clock
  then show ?thesis using assms by simp
qed

lemma ledger_runs: "ledger_ok (ml_items (fold (memory_step sql) ops (new_memory_db supply)))"
proof -
  have "ledger_ok (ml_items db) \<Longrightarrow> ledger_ok (ml_items (fold (memory_step sql) ops db))" for db
    by (induction ops arbitrary: db) (simp_all add: ledger_step)
  then show ?thesis by (simp add: new_memory_db_def)
qed

text \<open>
  C30: the memory table keeps its keys: after any operations, whatever items, decisions, clocks
  and identifiers they are given, identifiers are unique, a reference to a successor names an
  existing row of an invalidated one, and relationship scores lie between 0 and 100.
\<close>

theorem memory_ledger_keys: "ledger_ok (ml_items (fold (memory_step sql) ops (new_memory_db supply)))"
  by (rule ledger_runs)


section \<open>Recall\<close>

lemma distinct_map_sort: "distinct (map f (sort_key g xs)) = distinct (map f xs)"
  by (simp add: distinct_map)

lemma set_fused_order: "set (fused_order ms) = set ms"
  by (simp add: fused_order_def)

lemma distinct_fused_order: "distinct (map sm_id (fused_order ms)) = distinct (map sm_id ms)"
  unfolding fused_order_def distinct_map_sort ..

lemma fused_memories_from:
  "m \<in> set (fused_memories sql q t model limit rows) \<Longrightarrow> \<exists>r \<in> set rows. \<exists>v k. m = scored_row sql q v k r"
  unfolding fused_memories_def Let_def by (drule in_set_takeD) (auto simp only: set_fused_order set_map set_filter)

lemma fused_memories_distinct:
  assumes "distinct (map mx_id rows)"
  shows "distinct (map sm_id (fused_memories sql q t model limit rows))"
proof -
  have "map sm_id (map (\<lambda>r. scored_row sql q (v r) (k r) r) xs) = map mx_id xs" for v k xs
    by (simp add: scored_row_def)
  moreover have "distinct (map mx_id (filter P rows))" for P using assms by (simp add: distinct_map_filter)
  ultimately show ?thesis
    unfolding fused_memories_def Let_def take_map [symmetric] by (intro distinct_take) (simp only: distinct_fused_order)
qed

lemma memory_search_Inr:
  assumes "memory_search sql q text model subject key include_private now limit db = (Inr ms, db')"
  shows "ms = fused_memories sql q (strip text) model limit (filter (eligible_memory subject key include_private now) (ml_items db))"
  using assms by (auto simp: memory_search_def Let_def split_beta split: if_splits)

text \<open>
  C6: recall crosses no boundary: whatever happened before, every memory a search returns is a
  row that is neither revoked nor invalidated nor outside its validity, that is global or
  belongs to the very person or conversation asked for, and, unless private memories were
  asked for, is neither private nor sensitive; at most \<open>limit\<close> are returned, none twice.
\<close>

theorem memory_search_private:
  assumes "memory_search sql q text model subject key include_private now limit (fold (memory_step sql) ops (new_memory_db supply)) = (Inr ms, db')"
  shows "length ms \<le> limit \<and> distinct (map sm_id ms) \<and>
     (\<forall>m \<in> set ms. \<exists>r \<in> set (ml_items (fold (memory_step sql) ops (new_memory_db supply))).
        sm_id m = mx_id r \<and> sm_content m = mx_content r \<and> sm_privacy m = mx_privacy r \<and>
        active_row now r \<and> in_reach subject key r \<and> (include_private \<or> mx_privacy r \<notin> {PRIVATE, SENSITIVE}))"
proof -
  let ?rows = "ml_items (fold (memory_step sql) ops (new_memory_db supply))"
  let ?ok = "filter (eligible_memory subject key include_private now) ?rows"
  note ms = memory_search_Inr [OF assms]
  have "distinct (map mx_id ?ok)" using ledger_runs [of sql ops "supply"] by (simp add: ledger_ok_def distinct_map_filter)
  then have "distinct (map sm_id ms)" unfolding ms by (rule fused_memories_distinct)
  moreover have "length ms \<le> limit" unfolding ms fused_memories_def by (simp add: Let_def)
  moreover have "\<exists>r \<in> set ?rows. sm_id m = mx_id r \<and> sm_content m = mx_content r \<and> sm_privacy m = mx_privacy r \<and>
        active_row now r \<and> in_reach subject key r \<and> (include_private \<or> mx_privacy r \<notin> {PRIVATE, SENSITIVE})" if "m \<in> set ms" for m
  proof -
    from that obtain r v k where "r \<in> set ?ok" "m = scored_row sql q v k r"
      unfolding ms using fused_memories_from by blast
    then show ?thesis by (intro bexI [of _ r]) (auto simp: scored_row_def eligible_memory_def)
  qed
  ultimately show ?thesis by blast
qed

text \<open>
  the statement of a search compares the query with every eligible row and not only with
  those of the model in use: one eligible row embedded in another dimension makes every search
  of that person and conversation fail, and change nothing, whatever model the row is tagged with.
\<close>

theorem mixed_dimensions_fail:
  assumes "r \<in> set (ml_items db)" and "eligible_memory subject key include_private now r"
    and "mx_embedding r = Some v" and "vo_distance sql v (vector_literal q) = None"
  shows "memory_search sql q text model subject key include_private now limit db = (Inl (Raised (lit ''DBAPIError'')), db)"
proof -
  have "r \<in> set (filter (eligible_memory subject key include_private now) (ml_items db))" using assms(1, 2) by simp
  moreover have "mx_embedding r \<noteq> None \<and> row_distance sql q r = None" using assms(3, 4) by (simp add: row_distance_def)
  ultimately have "\<exists>r \<in> set (filter (eligible_memory subject key include_private now) (ml_items db)).
      mx_embedding r \<noteq> None \<and> row_distance sql q r = None" by (rule bexI [rotated])
  then show ?thesis unfolding memory_search_def Let_def by (rule if_P)
qed

section \<open>Forgetting\<close>

lemma kept_until_purged:
  assumes "q \<in> set (ml_items db)" and "keeps r q" and "mx_revoked_at r \<noteq> None" and "\<not> purges op r"
  shows "\<exists>q' \<in> set (ml_items (memory_step sql op db)). keeps r q'"
proof -
  obtain gone new f where f: "\<forall>r. keeps r (f r)" "ml_items (memory_step sql op db) = map f (filter (\<lambda>r. \<not> gone r) (ml_items db)) @ new"
      and gone: "\<forall>r. gone r \<longrightarrow> purges op r"
    using memory_step_rows [of db sql op] unfolding rows_step_def by blast
  have "mx_revoked_at q = mx_revoked_at r" using assms(2, 3) by (simp add: keeps_def)
  then have "\<not> purges op q" using assms(4) by (simp add: purges_def purged_def)
  then have "f q \<in> set (ml_items (memory_step sql op db))" using gone assms(1) f(2) by auto
  with f(1) assms(2) show ?thesis by (blast intro: keeps_trans)
qed

lemma kept_through_runs:
  assumes "q \<in> set (ml_items db)" and "keeps r q" and "mx_revoked_at r \<noteq> None" and "\<forall>op \<in> set ops. \<not> purges op r"
  shows "\<exists>q' \<in> set (ml_items (fold (memory_step sql) ops db)). keeps r q'"
  using assms
proof (induction ops arbitrary: db q)
  case (Cons op ops)
  then obtain q' where "q' \<in> set (ml_items (memory_step sql op db))" "keeps r q'"
    using kept_until_purged [of q db r op sql] by auto
  then show ?case using Cons.IH [of q' "memory_step sql op db"] Cons.prems by simp
qed auto

text \<open>
  C12: what a person has had forgotten stays forgotten: after a revocation, no search by anyone
  ever returns a memory of that person (or of the conversation that was revoked with it),
  whatever happens in between, as long as the row exists; a lifecycle run that purges it
  removes the row altogether.
\<close>

theorem forgotten_never_recalled:
  assumes "db = fold (memory_step sql) before (new_memory_db supply)"
    and "r \<in> set (ml_items db)" and "revoked_by subject key r"
    and "\<forall>op \<in> set after. \<not> purges op (r\<lparr>mx_revoked_at := Some now, mx_revoked_reason := Some reason\<rparr>)"
    and "memory_search sql q text model s k p t limit
      (fold (memory_step sql) after (memory_step sql (Revoke_items subject key now reason) db)) = (Inr ms, db')"
  shows "mx_id r \<notin> set (map sm_id ms)"
proof
  let ?r = "r\<lparr>mx_revoked_at := Some now, mx_revoked_reason := Some reason\<rparr>"
  let ?db = "fold (memory_step sql) after (memory_step sql (Revoke_items subject key now reason) db)"
  have "?r \<in> set (ml_items (memory_step sql (Revoke_items subject key now reason) db))"
    using assms(2, 3) by (auto simp: revoke_for_def intro: image_eqI [of _ _ r])
  then obtain q' where q': "q' \<in> set (ml_items ?db)" "keeps ?r q'"
    using kept_through_runs [OF _ keeps_refl _ assms(4)] by auto
  assume "mx_id r \<in> set (map sm_id ms)"
  then obtain m where m: "m \<in> set ms" "sm_id m = mx_id r" by auto
  then obtain x v j where x: "x \<in> set (filter (eligible_memory s k p t) (ml_items ?db))" "m = scored_row sql q v j x"
    unfolding memory_search_Inr [OF assms(5)] using fused_memories_from by blast
  have "?db = fold (memory_step sql) (before @ Revoke_items subject key now reason # after) (new_memory_db supply)"
    by (simp add: assms(1))
  then have "distinct (map mx_id (ml_items ?db))" using ledger_runs [of sql _ "supply"] by (metis ledger_ok_def)
  moreover have "mx_id x = mx_id q'" using m(2) x(2) q'(2) by (simp add: scored_row_def keeps_def)
  ultimately have "x = q'" using x(1) q'(1) by (auto simp: distinct_map dest: inj_onD)
  moreover have "mx_revoked_at x = None" using x(1) by (simp add: eligible_memory_def active_row_def live_row_def)
  ultimately show False using q'(2) by (simp add: keeps_def)
qed


section \<open>Merging as an operation on facts\<close>

text \<open>The abstract store: the facts that hold at an instant, each with its boundary.\<close>

type_synonym boundary = "memory_scope \<times> memory_privacy \<times> ustr option \<times> ustr option"

definition boundary_of :: "memory_row \<Rightarrow> boundary" where
  "boundary_of r = (mx_scope r, mx_privacy r, mx_subject r, mx_conversation r)"

definition fact_of :: "memory_row \<Rightarrow> ustr \<times> boundary \<times> ustr \<times> ustr" where
  "fact_of r = (mx_id r, boundary_of r, mx_kind r, mx_content r)"

definition facts :: "int \<Rightarrow> memory_db \<Rightarrow> (ustr \<times> boundary \<times> ustr \<times> ustr) set" where
  "facts now db = fact_of ` {r \<in> set (ml_items db). live_row now r}"

definition item_boundary :: "memory_item \<Rightarrow> boundary" where
  "item_boundary i = (mi_scope i, mi_privacy i, mi_subject i, item_key i)"

definition decided_fact :: "memory_item \<Rightarrow> merge_decision \<Rightarrow> ustr \<Rightarrow> ustr \<times> boundary \<times> ustr \<times> ustr" where
  "decided_fact i d k = (k, item_boundary i, (case mdn_kind d of None \<Rightarrow> mi_kind i | Some x \<Rightarrow> x),
     (case mdn_content d of None \<Rightarrow> mi_content i | Some x \<Rightarrow> x))"

lemma same_boundary_iff: "same_boundary i r \<longleftrightarrow> boundary_of r = item_boundary i"
  by (auto simp: same_boundary_def boundary_of_def item_boundary_def)

lemma fact_of_successor:
  "fact_of (row_of_item (successor_item i d n) e m t) = decided_fact i d (mi_id (successor_item i d n))"
  by (auto simp: fact_of_def boundary_of_def row_of_item_def decided_fact_def item_boundary_def item_key_def successor_boundary)
    (auto simp: successor_item_def Let_def split: option.splits)

lemma live_successor:
  "mi_invalid_at i = None \<Longrightarrow> mi_revoked_at i = None \<Longrightarrow> live_row now (row_of_item (successor_item i d n) e m t)"
  by (simp add: live_row_def row_of_item_def successor_boundary)

lemma facts_append: "live_row now r \<Longrightarrow> fact_of ` {q \<in> set (rows @ [r]). live_row now q} = insert (fact_of r) (fact_of ` {q \<in> set rows. live_row now q})"
  by auto

lemma facts_invalidate:
  assumes "now \<le> later"
  shows "fact_of ` {q \<in> set (map (\<lambda>q. if mx_id q = t then q\<lparr>mx_invalid_at := Some now, mx_invalidated_by := j\<rparr> else q) rows). live_row later q}
    = {f \<in> fact_of ` {q \<in> set rows. live_row later q}. fst f \<noteq> t}"
proof -
  let ?f = "\<lambda>q. if mx_id q = t then q\<lparr>mx_invalid_at := Some now, mx_invalidated_by := j\<rparr> else q"
  have dead: "\<not> live_row later (?f q)" if "mx_id q = t" for q using that assms by (simp add: live_row_def)
  have "{q \<in> set (map ?f rows). live_row later q} = {q \<in> set rows. live_row later q \<and> mx_id q \<noteq> t}"
  proof (rule set_eqI)
    fix x show "x \<in> {q \<in> set (map ?f rows). live_row later q} \<longleftrightarrow> x \<in> {q \<in> set rows. live_row later q \<and> mx_id q \<noteq> t}"
    proof
      assume "x \<in> {q \<in> set (map ?f rows). live_row later q}"
      then obtain q where q: "q \<in> set rows" "x = ?f q" "live_row later (?f q)" by auto
      with dead have "mx_id q \<noteq> t" by blast
      with q show "x \<in> {q \<in> set rows. live_row later q \<and> mx_id q \<noteq> t}" by simp
    next
      assume x: "x \<in> {q \<in> set rows. live_row later q \<and> mx_id q \<noteq> t}"
      then have "?f x = x" by simp
      moreover have "?f x \<in> set (map ?f rows)" unfolding set_map using x by (intro imageI) simp
      ultimately show "x \<in> {q \<in> set (map ?f rows). live_row later q}" using x by (simp only: mem_Collect_eq simp_thms)
    qed
  qed
  then show ?thesis by (auto simp: fact_of_def)
qed

text \<open>The target of a decision is one of the facts, in the candidate's own boundary.\<close>

definition reaches_target :: "memory_item \<Rightarrow> merge_decision \<Rightarrow> (ustr \<times> boundary \<times> ustr \<times> ustr) set \<Rightarrow> bool" where
  "reaches_target i d F \<longleftrightarrow> (case mdn_target d of None \<Rightarrow> True
     | Some t \<Rightarrow> \<exists>f \<in> F. fst f = t \<and> fst (snd f) = item_boundary i)"

text \<open>What each decision does to the facts: \<open>F\<close> before, \<open>G\<close> after, the fact stored under
  the id \<open>stored\<close>.\<close>

definition carries_out :: "memory_item \<Rightarrow> merge_decision \<Rightarrow> (ustr \<times> boundary \<times> ustr \<times> ustr) set \<Rightarrow>
    (ustr \<times> boundary \<times> ustr \<times> ustr) set \<Rightarrow> ustr option \<Rightarrow> bool" where
  "carries_out i d F G stored \<longleftrightarrow> (case mdn_operation d of
       ADD \<Rightarrow> \<exists>k. stored = Some k \<and> k \<notin> fst ` F \<and> G = insert (decided_fact i d k) F
     | UPDATE \<Rightarrow> \<exists>k. stored = Some k \<and> k \<notin> fst ` F \<and>
         G = insert (decided_fact i d k) {f \<in> F. Some (fst f) \<noteq> mdn_target d}
     | DELETE \<Rightarrow> stored = None \<and> G = {f \<in> F. Some (fst f) \<noteq> mdn_target d}
     | NOOP \<Rightarrow> stored = None \<and> G = F)"

lemma find_reaches:
  assumes "ledger_ok (ml_items db)"
  shows "reaches_target i d (facts now db) \<longleftrightarrow> (case mdn_target d of None \<Rightarrow> True | Some t \<Rightarrow>
    (case find (\<lambda>r. mx_id r = t \<and> live_row now r) (ml_items db) of None \<Rightarrow> False | Some r \<Rightarrow> same_boundary i r))"
proof (cases "mdn_target d")
  case (Some t)
  have inj: "r = q" if "r \<in> set (ml_items db)" "q \<in> set (ml_items db)" "mx_id r = mx_id q" for r q
    using assms that by (auto simp: ledger_ok_def distinct_map dest: inj_onD)
  show ?thesis
  proof (cases "find (\<lambda>r. mx_id r = t \<and> live_row now r) (ml_items db)")
    case None
    then have "\<not> live_row now r" if "r \<in> set (ml_items db)" "mx_id r = t" for r using that by (auto simp: find_None_iff)
    then show ?thesis using Some None by (auto simp: reaches_target_def facts_def fact_of_def)
  next
    case f: (Some q)
    then have q: "q \<in> set (ml_items db)" "mx_id q = t" "live_row now q" by (auto simp: find_Some_iff)
    then have "(\<exists>f \<in> facts now db. fst f = t \<and> fst (snd f) = item_boundary i) \<longleftrightarrow> boundary_of q = item_boundary i"
      using inj by (fastforce simp: facts_def fact_of_def)
    then show ?thesis using Some f by (simp add: reaches_target_def same_boundary_iff)
  qed
qed (simp add: reaches_target_def)

lemma merge_answer:
  assumes "ledger_ok (ml_items db)" and "apply_merge i d e m source now db = (Inr a, db')"
  shows "if reaches_target i d (facts now db)
    then ma_operation a = mdn_operation d \<and> ma_previous a = mdn_target d \<and> ma_applied a = (mdn_operation d \<noteq> NOOP)
    else a = merge_noop (mdn_target d) \<and> ml_items db' = ml_items db"
  using assms(2) unfolding find_reaches [OF assms(1)]
  by (auto simp: apply_merge_def finish_merge_def Let_def split: option.splits if_splits prod.splits)

lemma rows_fact_ids: "k \<notin> mx_id ` set (ml_items db) \<Longrightarrow> k \<notin> fst ` facts now db"
  by (auto simp: facts_def fact_of_def)

text \<open>A row that is invalidated in the candidate's boundary takes only facts of that boundary away.\<close>

lemma target_boundary:
  assumes "ledger_ok (ml_items db)" and "find (\<lambda>r. mx_id r = t \<and> live_row now r) (ml_items db) = Some q" and "same_boundary i q"
    and "f \<in> facts later db" and "fst f = t"
  shows "fst (snd f) = item_boundary i"
proof -
  have q: "q \<in> set (ml_items db)" "mx_id q = t" using assms(2) by (auto simp: find_Some_iff)
  then show ?thesis using assms(1,3-5) unfolding facts_def
    by (auto simp: fact_of_def same_boundary_iff ledger_ok_def distinct_map dest: inj_onD)
qed

lemma merge_carries_out:
  assumes "ledger_ok (ml_items db)" and "mi_invalid_at i = None" and "mi_revoked_at i = None"
    and "apply_merge i d e m source now db = (Inr a, db')" and "now \<le> later" and reach: "reaches_target i d (facts now db)"
  shows "carries_out i d (facts later db) (facts later db') (ma_memory a) \<and>
     (\<forall>f \<in> facts later db - facts later db'. fst (snd f) = item_boundary i)"
proof (cases rule: apply_merge_cases [of i d e m source now db])
  case refused
  then have "a = merge_noop (mdn_target d)" "facts later db' = facts later db" using assms(4) by (auto simp: facts_def)
  moreover have "mdn_operation d = NOOP"
    using merge_answer [OF assms(1,4)] reach calculation(1) by (simp add: merge_noop_def)
  ultimately show ?thesis by (simp add: merge_noop_def carries_out_def)
next
  case (failed db1)
  then show ?thesis using assms(4) by simp
next
  case (added r db2)
  then obtain n t where r: "r = row_of_item (successor_item i d n) e m t" by blast
  have eq: "ma_memory a = Some (mx_id r)" "db' = db2" using added(1) assms(4) by auto
  have fact: "fact_of r = decided_fact i d (mx_id r)" by (simp add: r fact_of_successor) (simp add: row_of_item_def)
  have "facts later db' = insert (decided_fact i d (mx_id r)) (facts later db)"
    unfolding facts_def eq(2) added(2) fact [symmetric] by (rule facts_append) (simp add: r live_successor assms(2, 3))
  moreover have "mx_id r \<notin> fst ` facts later db" using added(5) by (intro rows_fact_ids) (auto simp: row_fits_def)
  ultimately show ?thesis using added(3) eq(1) by (auto simp: carries_out_def)
next
  case (updated t q r db2)
  then obtain n u where r: "r = row_of_item (successor_item i d n) e m u" by blast
  have eq: "ma_memory a = Some (mx_id r)" "db' = db2" using updated(1) assms(4) by auto
  have fact: "fact_of r = decided_fact i d (mx_id r)" by (simp add: r fact_of_successor) (simp add: row_of_item_def)
  have q: "q \<in> set (ml_items db)" "mx_id q = t" using updated(5) by (auto simp: find_Some_iff)
  then have "mx_id r \<noteq> t" using updated(8) by (auto simp: row_fits_def)
  then have F: "facts later db' = insert (decided_fact i d (mx_id r)) {f \<in> facts later db. fst f \<noteq> t}"
    unfolding facts_def eq(2) updated(2) facts_invalidate [OF assms(5)] fact [symmetric]
    by (subst facts_append) (auto simp: r live_successor assms(2, 3) fact_of_def)
  moreover have "mx_id r \<notin> fst ` facts later db" using updated(8) by (intro rows_fact_ids) (auto simp: row_fits_def)
  ultimately have "carries_out i d (facts later db) (facts later db') (ma_memory a)"
    using updated(3,4) eq(1) by (simp add: carries_out_def)
  then show ?thesis using target_boundary [OF assms(1) updated(5,6)] F by auto
next
  case (removed t q db2)
  have eq: "ma_memory a = None" "db' = db2" using removed(1) assms(4) by auto
  have F: "facts later db' = {f \<in> facts later db. fst f \<noteq> t}"
    unfolding facts_def eq(2) removed(2) by (rule facts_invalidate [OF assms(5)])
  then have "carries_out i d (facts later db) (facts later db') (ma_memory a)"
    using removed(3,4) eq(1) by (simp add: carries_out_def)
  then show ?thesis using target_boundary [OF assms(1) removed(5,6)] F by auto
next
  case (idle a' db2)
  then have "a' = a" "db2 = db'" using assms(4) by simp_all
  with idle show ?thesis by (auto simp: facts_def carries_out_def)
qed

text \<open>
  C11: merging is the operation on facts that its decision names. When the decision has no
  target, or its target is a fact in the candidate's own boundary, the answer names the
  decision's operation and target, and the facts change as it says: ADD gives one new fact in
  the candidate's boundary under a fresh id, UPDATE puts such a fact in the place of the target,
  DELETE takes the target away and NOOP changes nothing; what goes away lay in the candidate's
  boundary. In any other case the merge answers that nothing was applied and no row changes, so
  no merge reaches the memories of another person, conversation or privacy level.
\<close>

theorem merge_refines_facts:
  assumes "ledger_ok (ml_items db)" and "mi_invalid_at i = None" and "mi_revoked_at i = None"
    and "apply_merge i d e m source now db = (Inr a, db')" and "now \<le> later"
  shows "if reaches_target i d (facts now db)
    then ma_operation a = mdn_operation d \<and> ma_previous a = mdn_target d \<and> ma_applied a = (mdn_operation d \<noteq> NOOP) \<and>
      carries_out i d (facts later db) (facts later db') (ma_memory a) \<and>
      (\<forall>f \<in> facts later db - facts later db'. fst (snd f) = item_boundary i)
    else a = merge_noop (mdn_target d) \<and> ml_items db' = ml_items db"
  using merge_answer [OF assms(1,4)] merge_carries_out [OF assms] by (cases "reaches_target i d (facts now db)") simp_all

section \<open>Runs on concrete memories\<close>

definition demo_sql :: memory_sql where
  "demo_sql = \<lparr>vo_distance = (\<lambda>u v. if length u = length v then Some 0 else None), vo_similarity = (\<lambda>a b. if a = b then 1 else 0), vo_sha256 = (\<lambda>t. t)\<rparr>"

definition demo_item :: memory_item where
  "demo_item = \<lparr>mi_id = [1], mi_scope = SUBJECT, mi_subject = Some (lit ''u''), mi_conversation = None, mi_kind = lit ''fact'',
     mi_content = lit ''tea'', mi_sources = [lit ''m''], mi_confidence = 1, mi_relationship_score = None, mi_privacy = PRIVATE,
     mi_valid_from = None, mi_valid_until = None, mi_conflicts_with = [], mi_supersedes = [], mi_invalid_at = None,
     mi_invalidated_by = None, mi_revoked_at = None, mi_revoked_reason = None\<rparr>"

definition demo_ledger :: memory_db where
  "demo_ledger = fold (memory_step demo_sql) [Store_item demo_item (Some [1]) (Some [109])] (new_memory_db (\<lambda>n. [n + 2]))"

definition demo_row :: memory_row where
  "demo_row = row_of_item demo_item (Some [1]) (Some [109]) 0"

lemma demo_ledger_items: "ml_items demo_ledger = [demo_row]" "ml_uuid demo_ledger = (\<lambda>n. [n + 2])" "ml_drawn demo_ledger = 0"
  by (simp_all add: demo_ledger_def new_memory_db_def memory_store_def insert_memory_def row_fits_def demo_row_def row_of_item_def demo_item_def)

lemma demo_row_fields:
  "mx_id demo_row = [1]" "mx_scope demo_row = SUBJECT" "mx_subject demo_row = Some (lit ''u'')" "mx_privacy demo_row = PRIVATE"
  "mx_revoked_at demo_row = None" "mx_invalid_at demo_row = None" "mx_valid_from demo_row = None" "mx_valid_until demo_row = None"
  "mx_embedding demo_row = Some (vector_literal [1])" "mx_content demo_row = lit ''tea''" "mx_conversation demo_row = None"
  by (simp_all add: demo_row_def row_of_item_def demo_item_def item_key_def)

lemma demo_eligible: "eligible_memory (lit ''u'') k True t demo_row"
  by (simp add: eligible_memory_def active_row_def live_row_def in_reach_def demo_row_fields)

theorem memory_history_kept_witness:
  "\<exists>r'. r' \<in> set (ml_items (memory_step demo_sql (Revoke_items (lit ''u'') None 4 []) demo_ledger)) \<and> keeps demo_row r'"
proof -
  have "demo_row \<in> set (ml_items demo_ledger)" by (simp add: demo_ledger_items)
  moreover have "\<not> purges (Revoke_items (lit ''u'') None 4 []) demo_row" by (simp add: purges_def)
  ultimately show ?thesis using memory_history_kept [of demo_ledger demo_sql "Revoke_items (lit ''u'') None 4 []"] by blast
qed

theorem mixed_dimensions_fail_witness:
  "memory_search demo_sql [1, 0] [] (lit ''other'') (lit ''u'') [] True 5 3 demo_ledger = (Inl (Raised (lit ''DBAPIError'')), demo_ledger)"
  by (rule mixed_dimensions_fail [of demo_row _ _ _ _ _ "vector_literal [1]"])
    (simp_all add: demo_ledger_items demo_eligible demo_row_fields demo_sql_def vector_literal_def)

theorem merge_refines_facts_witness:
  "\<exists>a db'. apply_merge (demo_item\<lparr>mi_id := [7]\<rparr>) \<lparr>mdn_operation = UPDATE, mdn_target = Some [1], mdn_content = Some (lit ''coffee''),
       mdn_kind = None, mdn_confidence = None\<rparr> None None [] 4 demo_ledger = (Inr a, db') \<and>
     facts 4 db' = {([2], (SUBJECT, PRIVATE, Some (lit ''u''), None), lit ''fact'', lit ''coffee'')}"
proof -
  let ?d = "\<lparr>mdn_operation = UPDATE, mdn_target = Some [1], mdn_content = Some (lit ''coffee''), mdn_kind = None, mdn_confidence = None\<rparr>"
  let ?i = "demo_item\<lparr>mi_id := [7]\<rparr>"
  have led: "ledger_ok (ml_items demo_ledger)" unfolding demo_ledger_def by (rule ledger_runs)
  have live: "live_row 4 demo_row" by (simp add: live_row_def demo_row_fields)
  have same: "same_boundary ?i demo_row" by (simp add: same_boundary_def demo_row_fields demo_item_def item_key_def)
  have uuid: "memory_uuid demo_ledger = ([2], demo_ledger\<lparr>ml_drawn := 1\<rparr>)" by (simp add: memory_uuid_def demo_ledger_items)
  have found: "find (\<lambda>r. mx_id r = [1] \<and> live_row 4 r) (ml_items demo_ledger) = Some demo_row"
    using live by (simp add: demo_ledger_items demo_row_fields)
  have s: "mi_id (successor_item ?i ?d [2]) = [2]" by (simp add: successor_item_def Let_def)
  obtain db2 where ins: "insert_memory (successor_item ?i ?d [2]) None None (demo_ledger\<lparr>ml_drawn := 1\<rparr>) = Some db2"
    by (simp add: insert_memory_def Let_def row_fits_def row_of_item_def s demo_ledger_items demo_row_fields
        successor_item_def demo_item_def)
  have "\<exists>a db'. apply_merge ?i ?d None None [] 4 demo_ledger = (Inr a, db') \<and> ma_operation a = UPDATE \<and> ma_applied a \<and>
      ma_previous a = Some [1] \<and> ma_memory a = Some [2]"
    using found same uuid ins s by (simp add: apply_merge_def finish_merge_def del: One_nat_def)
  then obtain a db' where run: "apply_merge ?i ?d None None [] 4 demo_ledger = (Inr a, db')" "ma_operation a = UPDATE" "ma_applied a"
      "ma_previous a = Some [1]" "ma_memory a = Some [2]" by blast
  have F: "facts 4 demo_ledger = {fact_of demo_row}" using live by (auto simp: facts_def demo_ledger_items)
  have reach: "reaches_target ?i ?d (facts 4 demo_ledger)"
    using same unfolding F by (simp add: reaches_target_def fact_of_def demo_row_fields same_boundary_iff)
  have none: "{f \<in> facts 4 demo_ledger. Some (fst f) \<noteq> Some [1]} = {}"
    unfolding F by (auto simp: fact_of_def demo_row_fields)
  have new: "decided_fact ?i ?d [2] = ([2], (SUBJECT, PRIVATE, Some (lit ''u''), None), lit ''fact'', lit ''coffee'')"
    by (simp add: decided_fact_def item_boundary_def item_key_def demo_item_def)
  have "carries_out ?i ?d (facts 4 demo_ledger) (facts 4 db') (ma_memory a)"
    using merge_refines_facts [OF led _ _ run(1), of 4] reach by (simp add: demo_item_def del: One_nat_def)
  then have "facts 4 db' = insert (decided_fact ?i ?d [2]) {f \<in> facts 4 demo_ledger. Some (fst f) \<noteq> Some [1]}"
    using run(5) by (simp add: carries_out_def del: One_nat_def)
  then have "facts 4 db' = {([2], (SUBJECT, PRIVATE, Some (lit ''u''), None), lit ''fact'', lit ''coffee'')}"
    unfolding none new by simp
  with run(1) show ?thesis by blast
qed

lemma demo_search_runs:
  "\<exists>ms db'. memory_search demo_sql [1] [] (lit ''m'') (lit ''u'') [] True 5 3 demo_ledger = (Inr ms, db')"
  by (simp add: memory_search_def Let_def demo_ledger_items demo_eligible row_distance_def demo_row_fields demo_sql_def
      vector_literal_def split_beta)

theorem memory_search_private_witness:
  "\<exists>ms db'. memory_search demo_sql [1] [] (lit ''m'') (lit ''u'') [] True 5 3 demo_ledger = (Inr ms, db') \<and> distinct (map sm_id ms)"
proof -
  obtain ms db' where run: "memory_search demo_sql [1] [] (lit ''m'') (lit ''u'') [] True 5 3 demo_ledger = (Inr ms, db')"
    using demo_search_runs by blast
  then show ?thesis using memory_search_private [OF run [unfolded demo_ledger_def]] by blast
qed

definition demo_forgotten :: memory_db where
  "demo_forgotten = memory_step demo_sql (Revoke_items (lit ''u'') None 4 []) demo_ledger"

theorem forgotten_never_recalled_witness:
  "\<exists>ms db'. memory_search demo_sql [1] [] (lit ''m'') (lit ''u'') [] True 5 3 demo_forgotten = (Inr ms, db') \<and> [1] \<notin> set (map sm_id ms)"
proof -
  have "\<exists>ms db'. memory_search demo_sql [1] [] (lit ''m'') (lit ''u'') [] True 5 3 demo_forgotten = (Inr ms, db')"
    by (simp add: demo_forgotten_def revoke_for_def demo_ledger_items revoked_by_def demo_row_fields memory_search_def Let_def
        eligible_memory_def active_row_def live_row_def split_beta)
  then obtain ms db' where run: "memory_search demo_sql [1] [] (lit ''m'') (lit ''u'') [] True 5 3 demo_forgotten = (Inr ms, db')" by blast
  have "mx_id demo_row \<notin> set (map sm_id ms)"
  proof (rule forgotten_never_recalled [OF demo_ledger_def])
    show "demo_row \<in> set (ml_items demo_ledger)" by (simp add: demo_ledger_items)
    show "revoked_by (lit ''u'') None demo_row" by (simp add: revoked_by_def demo_row_fields)
    show "memory_search demo_sql [1] [] (lit ''m'') (lit ''u'') [] True 5 3
        (fold (memory_step demo_sql) [] (memory_step demo_sql (Revoke_items (lit ''u'') None 4 []) demo_ledger)) = (Inr ms, db')"
      using run by (simp add: demo_forgotten_def)
  qed simp
  with run show ?thesis by (auto simp: demo_row_fields)
qed

end
