(* ===== verification/MemoryService.thy ===== *)
theory MemoryService
  imports MemoryItems Embeddings CoreMemory Adapters
begin

text \<open>
  Memory policy, \<open>engine/memory_service.py\<close>: what of the memory is put into a prompt, and what
  an exchange leaves behind. The store, the embeddings, the model, the clock, the identifiers
  and the JSON and UUID readers are the fields of a service record; formatting of numbers and
  dates as well. The main results: a group chat is shown no private memory of anyone, the block
  of a prompt fits its budget, an ephemeral exchange touches nothing, and what is extracted
  from an exchange lands only in the memory of its sender or of its conversation and is never
  sensitive.
\<close>

section \<open>Prompts\<close>

definition extraction_prompt :: ustr where
  "extraction_prompt = lit ''You extract long-term memories from one chat exchange. Return ONLY a JSON '' @
     lit ''array, no prose. Each element: {'' @ [34] @ lit ''content'' @ [34] @ lit '': string, '' @ [34] @ lit ''kind'' @ [34] @ lit '': string, '' @
     [34] @ lit ''scope'' @ [34] @ lit '': '' @ [34] @ lit ''subject'' @ [34] @ lit '' | '' @ [34] @ lit ''conversation'' @ [34] @ lit '', '' @
     [34] @ lit ''confidence'' @ [34] @ lit '': number between 0 and 1}. '' @
     lit ''Use scope '' @ [34] @ lit ''subject'' @ [34] @ lit '' for stable facts or preferences about the user '' @
     lit ''personally, and '' @ [34] @ lit ''conversation'' @ [34] @ lit '' for context that only matters in this '' @
     lit ''chat. Extract at most 3 items and return [] when nothing is worth '' @
     lit ''remembering. Never include secrets, credentials, or sensitive personal '' @
     lit ''data such as health, finances, or government identifiers.''"

definition merge_prompt :: ustr where
  "merge_prompt = lit ''You manage a versioned memory store. Compare one candidate fact with the '' @
     lit ''same-scope existing facts. Return one JSON object only with operation ADD, '' @
     lit ''UPDATE, DELETE, or NOOP. ADD requires content. UPDATE requires target_id and '' @
     lit ''content. DELETE requires target_id. NOOP changes nothing. target_id must be one '' @
     lit ''of the supplied ids. Prefer NOOP for equivalent wording, UPDATE for a richer or '' @
     lit ''newer version of the same fact, and DELETE only for an explicit contradiction.''"

definition flush_prompt :: ustr where
  "flush_prompt = extraction_prompt @ lit '' The supplied transcript is about to leave the prompt window. Extract only '' @
     lit ''facts that remain useful after the immediate exchange; avoid transient assistant text.''"

section \<open>The service and what it uses\<close>

record 's memory_service =
  msv_embed :: "ustr list \<Rightarrow> (embed_exn, 's, ustr \<times> real list list) eprog"
  msv_search :: "real list \<Rightarrow> ustr \<Rightarrow> ustr \<Rightarrow> ustr \<Rightarrow> ustr \<Rightarrow> bool \<Rightarrow> int \<Rightarrow> int \<Rightarrow> ('s, scored_memory list) prog"
  msv_similar :: "memory_item \<Rightarrow> real list \<Rightarrow> ustr \<Rightarrow> int \<Rightarrow> ('s, memory_record list) prog"
  msv_merge :: "memory_item \<Rightarrow> merge_decision \<Rightarrow> real list option \<Rightarrow> ustr option \<Rightarrow> ustr \<Rightarrow> int \<Rightarrow> ('s, merge_application) prog"
  msv_revoke :: "ustr \<Rightarrow> ustr option \<Rightarrow> int \<Rightarrow> ('s, nat) prog"
  msv_expressions :: "ustr \<Rightarrow> int \<Rightarrow> int \<Rightarrow> ('s, memory_record list) prog"
  msv_relationship :: "ustr \<Rightarrow> int \<Rightarrow> ('s, memory_record option) prog"
  msv_llm :: "(ustr \<Rightarrow> ustr \<Rightarrow> (llm_exn, 's, llm_reply) eprog) option"
  msv_core :: "(ustr \<Rightarrow> ('s, core_block list) prog) option"
  msv_once :: "(ustr \<Rightarrow> int \<Rightarrow> ('s, bool) prog) option"
  msv_now :: "'s \<Rightarrow> int"
  msv_uuid :: "'s \<Rightarrow> ustr \<times> 's"
  msv_loads :: "ustr \<Rightarrow> json option"
  msv_dumps :: "json \<Rightarrow> ustr"
  msv_str :: "json \<Rightarrow> ustr"
  msv_parse_uuid :: "ustr \<Rightarrow> ustr option"
  msv_sha256 :: "ustr \<Rightarrow> ustr"
  msv_date :: "int \<Rightarrow> ustr"
  msv_one_decimal :: "real \<Rightarrow> ustr"
  msv_flush_enabled :: bool
  msv_flush_ttl :: int
  msv_flush_messages :: int
  msv_flush_budget :: int
  msv_min_confidence :: real
  msv_retrieval_limit :: int
  msv_budget :: int

record extraction_outcome =
  eo_stored :: int
  eo_prompt_tokens :: int
  eo_completion_tokens :: int

definition no_outcome :: extraction_outcome where
  "no_outcome = \<lparr>eo_stored = 0, eo_prompt_tokens = 0, eo_completion_tokens = 0\<rparr>"

text \<open>A block of the model's or the embeddings' errors: the class the code catches, or the rest.\<close>

definition catch_llm :: "(llm_exn, 's, 'a) eprog \<Rightarrow> ('a \<Rightarrow> ('s, 'b) prog) \<Rightarrow> ('s, 'b) prog \<Rightarrow> ('s, 'b) prog" where
  "catch_llm m f h s = (case m s of
       (Inl (LlmError msg retryable), s') \<Rightarrow> h s'
     | (Inl (LlmOther x), s') \<Rightarrow> (Inl x, s')
     | (Inr x, s') \<Rightarrow> f x s')"

definition catch_embed :: "(embed_exn, 's, 'a) eprog \<Rightarrow> ('a \<Rightarrow> ('s, 'b) prog) \<Rightarrow> ('s, 'b) prog \<Rightarrow> ('s, 'b) prog" where
  "catch_embed m f h s = (case m s of
       (Inl (EmbeddingError msg retryable), s') \<Rightarrow> h s'
     | (Inl (EmbeddingOther x), s') \<Rightarrow> (Inl x, s')
     | (Inr x, s') \<Rightarrow> f x s')"

text \<open>An embedding error that is not caught goes on to the caller.\<close>

definition embed_raises :: "(embed_exn, 's, 'a) eprog \<Rightarrow> ('a \<Rightarrow> ('s, 'b) prog) \<Rightarrow> ('s, 'b) prog" where
  "embed_raises m f = catch_embed m f (raisep (Raised (lit ''EmbeddingError'')))"

definition liftr :: "exn + 'a \<Rightarrow> ('s, 'a) prog" where
  "liftr r s = (r, s)"

text \<open>\<open>batch.vectors[k]\<close>.\<close>

definition vector_at :: "real list list \<Rightarrow> nat \<Rightarrow> exn + real list" where
  "vector_at vs k = (if k < length vs then Inr (vs ! k) else Inl (Raised (lit ''IndexError'')))"

definition cosine_similarity :: "real list \<Rightarrow> real list \<Rightarrow> real" where
  "cosine_similarity u v =
     (if length u \<noteq> length v \<or> u = [] then 0
      else (let d = sum_list (map2 (\<lambda>a b. a * b) u v); nu = sqrt (sum_list (map (\<lambda>x. x * x) u)); nv = sqrt (sum_list (map (\<lambda>x. x * x) v))
        in if nu = 0 \<or> nv = 0 then 0 else d / (nu * nv)))"

definition clamp_score :: "real \<Rightarrow> real" where
  "clamp_score x = max 0 (min 1 x)"

section \<open>Reading JSON of the model\<close>

definition char_find :: "nat \<Rightarrow> ustr \<Rightarrow> int" where
  "char_find c t = (if c \<in> set t then int (length (takeWhile (\<lambda>d. d \<noteq> c) t)) else -1)"

definition char_rfind :: "nat \<Rightarrow> ustr \<Rightarrow> int" where
  "char_rfind c t = (if c \<in> set t then int (length t) - 1 - int (length (takeWhile (\<lambda>d. d \<noteq> c) (rev t))) else -1)"

text \<open>The chunks tried are the text and its slice from the first opening to the last closing bracket.\<close>

definition json_chunks :: "nat \<Rightarrow> nat \<Rightarrow> ustr \<Rightarrow> ustr list" where
  "json_chunks opening closing text = filter (\<lambda>c. c \<noteq> []) [text, py_slice (char_find opening text) (char_rfind closing text + 1) text]"

definition decode_json_array :: "(ustr \<Rightarrow> json option) \<Rightarrow> ustr \<Rightarrow> json list" where
  "decode_json_array loads text = (case List.map_filter (\<lambda>c. case loads c of Some (JArr vs) \<Rightarrow> Some vs | _ \<Rightarrow> None) (json_chunks 91 93 text) of
       [] \<Rightarrow> [] | vs # _ \<Rightarrow> vs)"

definition decode_json_object :: "(ustr \<Rightarrow> json option) \<Rightarrow> ustr \<Rightarrow> (ustr, json) dict" where
  "decode_json_object loads text = (case List.map_filter (\<lambda>c. case loads c of Some (JObj d) \<Rightarrow> Some d | _ \<Rightarrow> None) (json_chunks 123 125 text) of
       [] \<Rightarrow> [] | d # _ \<Rightarrow> d)"

text \<open>\<open>float(n)\<close> of an integer: past the largest float it raises \<open>OverflowError\<close>.\<close>

definition py_float :: "json \<Rightarrow> (exn + real) option" where
  "py_float v = (case v of
       JInt i \<Rightarrow> Some (if \<bar>i\<bar> < 2 ^ 1024 - 2 ^ 970 then Inr (of_int i) else Inl (Raised (lit ''OverflowError'')))
     | JFloat r \<Rightarrow> Some (Inr r)
     | _ \<Rightarrow> None)"

definition stripped_or :: "json option \<Rightarrow> ustr \<Rightarrow> ustr" where
  "stripped_or v d = (case v of Some (JStr t) \<Rightarrow> if strip t \<noteq> [] then strip t else d | _ \<Rightarrow> d)"

record memory_candidate =
  mcd_content :: ustr
  mcd_kind :: ustr
  mcd_scope :: memory_scope
  mcd_confidence :: real

definition parse_candidate :: "json \<Rightarrow> exn + memory_candidate list" where
  "parse_candidate raw = (case raw of
       JObj entry \<Rightarrow> (case map_of entry (lit ''content'') of
           Some (JStr content) \<Rightarrow>
             if strip content = [] then Inr []
             else (case map_of entry (lit ''confidence'') of None \<Rightarrow> Inr []
               | Some c \<Rightarrow> (case py_float c of None \<Rightarrow> Inr []
                   | Some (Inl x) \<Rightarrow> Inl x
                   | Some (Inr r) \<Rightarrow> Inr [\<lparr>mcd_content = strip content,
                       mcd_kind = stripped_or (map_of entry (lit ''kind'')) (lit ''fact''),
                       mcd_scope = (if map_of entry (lit ''scope'') = Some (JStr (lit ''subject'')) then SUBJECT else CONVERSATION),
                       mcd_confidence = max 0 (min 1 r)\<rparr>]))
         | _ \<Rightarrow> Inr [])
     | _ \<Rightarrow> Inr [])"

fun parse_all :: "(json \<Rightarrow> exn + 'a list) \<Rightarrow> json list \<Rightarrow> exn + 'a list" where
  "parse_all f [] = Inr []"
| "parse_all f (v # vs) = (case f v of Inl x \<Rightarrow> Inl x | Inr xs \<Rightarrow> (case parse_all f vs of Inl x \<Rightarrow> Inl x | Inr ys \<Rightarrow> Inr (xs @ ys)))"

definition parse_candidates :: "(ustr \<Rightarrow> json option) \<Rightarrow> ustr \<Rightarrow> exn + memory_candidate list" where
  "parse_candidates loads text = parse_all parse_candidate (decode_json_array loads text)"

definition operation_named :: "ustr \<Rightarrow> memory_operation option" where
  "operation_named t = map_of [(lit ''ADD'', ADD), (lit ''UPDATE'', UPDATE), (lit ''DELETE'', DELETE), (lit ''NOOP'', NOOP), (lit ''NONE'', NOOP)] t"

text \<open>\<open>d.get(a, d.get(b))\<close>.\<close>

definition get_either :: "(ustr, json) dict \<Rightarrow> ustr \<Rightarrow> ustr \<Rightarrow> json option" where
  "get_either d a b = (case map_of d a of Some v \<Rightarrow> Some v | None \<Rightarrow> map_of d b)"

text \<open>The merge decision of a reply: what cannot be understood, or names a memory that was not
  offered, is to do nothing.\<close>

definition checked_decision :: "merge_decision \<Rightarrow> merge_decision" where
  "checked_decision d = (if valid_decision d then d else noop_decision)"

text \<open>The target: \<open>None\<close> where it is no identifier or not an offered one, else the target, if any.\<close>

definition decided_target :: "(json \<Rightarrow> ustr) \<Rightarrow> (ustr \<Rightarrow> ustr option) \<Rightarrow> ustr list \<Rightarrow> (ustr, json) dict \<Rightarrow> ustr option option" where
  "decided_target str uuid allowed d = (case get_either d (lit ''target_id'') (lit ''id'') of
       None \<Rightarrow> Some None
     | Some v \<Rightarrow> if v = JNull then Some None
         else (case uuid (str v) of None \<Rightarrow> None | Some t \<Rightarrow> if t \<in> set allowed then Some (Some t) else None))"

definition decided_confidence :: "(ustr, json) dict \<Rightarrow> real \<Rightarrow> exn + real" where
  "decided_confidence d c = (case map_of d (lit ''confidence'') of None \<Rightarrow> Inr c
     | Some v \<Rightarrow> (case py_float v of None \<Rightarrow> Inr c | Some r \<Rightarrow> r))"

definition shaped_decision :: "memory_operation \<Rightarrow> ustr option \<Rightarrow> ustr option \<Rightarrow> ustr \<Rightarrow> real \<Rightarrow> memory_item \<Rightarrow> merge_decision" where
  "shaped_decision operation target content kind confidence i =
     (let words = (case content of Some c \<Rightarrow> c | None \<Rightarrow> mi_content i)
      in case operation of
           ADD \<Rightarrow> \<lparr>mdn_operation = ADD, mdn_target = None, mdn_content = Some words, mdn_kind = Some kind, mdn_confidence = Some confidence\<rparr>
         | UPDATE \<Rightarrow> \<lparr>mdn_operation = UPDATE, mdn_target = target, mdn_content = Some words, mdn_kind = Some kind, mdn_confidence = Some confidence\<rparr>
         | _ \<Rightarrow> \<lparr>mdn_operation = operation, mdn_target = target, mdn_content = None, mdn_kind = None, mdn_confidence = None\<rparr>)"

definition parse_merge_decision :: "(ustr \<Rightarrow> json option) \<Rightarrow> (json \<Rightarrow> ustr) \<Rightarrow> (ustr \<Rightarrow> ustr option) \<Rightarrow> ustr \<Rightarrow> ustr list \<Rightarrow> memory_item \<Rightarrow>
    exn + merge_decision" where
  "parse_merge_decision loads str uuid reply allowed i =
     (let d = decode_json_object loads reply;
          name = (case get_either d (lit ''operation'') (lit ''event'') of None \<Rightarrow> lit ''NOOP'' | Some v \<Rightarrow> map upper_char (str v));
          content = (case get_either d (lit ''content'') (lit ''text'') of
            Some (JStr t) \<Rightarrow> if strip t \<noteq> [] then Some (strip t) else None | _ \<Rightarrow> None)
      in case operation_named name of
           None \<Rightarrow> Inr noop_decision
         | Some operation \<Rightarrow> (case decided_target str uuid allowed d of
             None \<Rightarrow> Inr noop_decision
           | Some target \<Rightarrow> (case decided_confidence d (mi_confidence i) of
               Inl x \<Rightarrow> Inl x
             | Inr confidence \<Rightarrow> Inr (checked_decision
                 (shaped_decision operation target content (stripped_or (map_of d (lit ''kind'')) (mi_kind i)) confidence i)))))"

section \<open>Blocks of a prompt\<close>

definition conversation_stable_key :: "envelope \<Rightarrow> ustr" where
  "conversation_stable_key e = stable_key (conversation_of e)"

definition core_section :: "envelope \<Rightarrow> core_block \<Rightarrow> ustr list" where
  "core_section e b = (if strip (cb_content b) \<noteq> [] \<and> (env_chat_kind e = DIRECT \<or> label_value (cb_label b) \<noteq> lit ''user_profile'')
     then [[91] @ label_value (cb_label b) @ [93, 10] @ strip (cb_content b)] else [])"

definition render_core_block :: "('s, 'z) memory_service_scheme \<Rightarrow> envelope \<Rightarrow> ('s, ustr option) prog" where
  "render_core_block sv e = (case msv_core sv of
       None \<Rightarrow> retp None
     | Some look \<Rightarrow> if env_ephemeral e then retp None
         else bindp (look (env_sender_identity_id e)) (\<lambda>blocks.
           let sections = concat (map (core_section e) blocks)
           in retp (if sections = [] then None
             else Some (lit ''Core memory (durable, operator-visible context):'' @ [10, 10] @ py_join [10, 10] sections))))"

definition memory_relevance :: "scored_memory \<Rightarrow> real" where
  "memory_relevance m = (case sm_distance m of Some d \<Rightarrow> 1 - d | None \<Rightarrow> min 1 (sm_rrf_score m * 30))"

definition max_relevance :: "scored_memory list \<Rightarrow> real" where
  "max_relevance ms = (case ms of [] \<Rightarrow> 0 | m # rest \<Rightarrow> fold max (map memory_relevance rest) (memory_relevance m))"

definition participation_relevance :: "('s, 'z) memory_service_scheme \<Rightarrow> envelope \<Rightarrow> ustr \<Rightarrow> ustr \<Rightarrow> ('s, real \<times> real) prog" where
  "participation_relevance sv e text persona =
     embed_raises (msv_embed sv [text, persona]) (\<lambda>(model, vs).
       bindp (liftr (vector_at vs 0)) (\<lambda>u. bindp (liftr (vector_at vs 1)) (\<lambda>v.
       bindp (getp (msv_now sv)) (\<lambda>now.
       bindp (msv_search sv u text model (env_sender_identity_id e) (conversation_stable_key e) (env_chat_kind e = DIRECT) now
         (min 3 (msv_retrieval_limit sv))) (\<lambda>ms.
       retp (clamp_score (cosine_similarity u v), clamp_score (max_relevance ms)))))))"

definition relationship_section :: "('s, 'z) memory_service_scheme \<Rightarrow> envelope \<Rightarrow> memory_record option \<Rightarrow> ustr list" where
  "relationship_section sv e r = (case r of
       None \<Rightarrow> []
     | Some m \<Rightarrow> (let score = msv_one_decimal sv (case rec_relationship_score m of None \<Rightarrow> 0 | Some x \<Rightarrow> x)
         in if env_chat_kind e = DIRECT
            then [lit ''Your relationship with the current sender (familiarity '' @ score @ lit ''/100): '' @ rec_content m @
              lit '' Let this affect warmth and form of address, but never reveal the stored note.'']
            else [lit ''Familiarity with the current sender is '' @ score @ lit ''/100. Use only this numeric signal to tune warmth; '' @
              lit ''do not infer or reveal any private relationship notes.'']))"

definition expression_section :: "memory_record list \<Rightarrow> ustr list" where
  "expression_section xs = (if xs = [] then []
     else [lit ''Local expression examples from this conversation only. '' @
       lit ''Borrow the rhythm lightly; do not quote or impersonate anyone:'' @ [10] @ py_join [10] (map (\<lambda>m. lit ''- '' @ rec_content m) xs)])"

definition personality_block :: "('s, 'z) memory_service_scheme \<Rightarrow> envelope \<Rightarrow> int \<Rightarrow> bool \<Rightarrow> ('s, ustr option) prog" where
  "personality_block sv e examples relationship_enabled =
     (if env_ephemeral e then retp None
      else bindp (getp (msv_now sv)) (\<lambda>now.
        bindp (if relationship_enabled then msv_relationship sv (env_sender_identity_id e) now else retp None) (\<lambda>r.
        bindp (if env_chat_kind e = GROUP \<and> examples > 0 then msv_expressions sv (conversation_stable_key e) now examples else retp []) (\<lambda>xs.
        let sections = relationship_section sv e r @ expression_section xs
        in retp (if sections = [] then None else Some (py_join [10, 10] sections))))))"

definition recall_header :: ustr where
  "recall_header = lit ''Relevant remembered facts (use them naturally when helpful; never claim to know things you do not):''"

fun scope_value :: "memory_scope \<Rightarrow> ustr" where
  "scope_value GLOBAL = lit ''GLOBAL''"
| "scope_value SUBJECT = lit ''SUBJECT''"
| "scope_value CONVERSATION = lit ''CONVERSATION''"

definition recall_line :: "('s, 'z) memory_service_scheme \<Rightarrow> scored_memory \<Rightarrow> ustr" where
  "recall_line sv m = lit ''- ['' @ ascii_lower (scope_value (sm_scope m)) @ [124] @ msv_date sv (sm_created_at m) @ lit ''] '' @ sm_content m"

fun recall_lines :: "('s, 'z) memory_service_scheme \<Rightarrow> int \<Rightarrow> scored_memory list \<Rightarrow> ustr list" where
  "recall_lines sv used [] = []"
| "recall_lines sv used (m # ms) =
     (let line = recall_line sv m; cost = estimate_tokens line
      in if used + cost > msv_budget sv then [] else line # recall_lines sv (used + cost) ms)"

definition recall_text :: "('s, 'z) memory_service_scheme \<Rightarrow> scored_memory list \<Rightarrow> ustr option" where
  "recall_text sv ms = (if ms = [] then None
     else (let ls = recall_lines sv (estimate_tokens recall_header) ms
       in if ls = [] then None else Some (py_join [10] (recall_header # ls))))"

definition or_limit :: "int option \<Rightarrow> int \<Rightarrow> int" where
  "or_limit x d = (case x of None \<Rightarrow> d | Some n \<Rightarrow> if n = 0 then d else n)"

definition retrieval_block :: "('s, 'z) memory_service_scheme \<Rightarrow> envelope \<Rightarrow> ustr \<Rightarrow> int option \<Rightarrow> ('s, ustr option) prog" where
  "retrieval_block sv e text limit =
     (if env_ephemeral e then retp None
      else catch_embed (msv_embed sv [text]) (\<lambda>(model, vs).
        bindp (liftr (vector_at vs 0)) (\<lambda>v. bindp (getp (msv_now sv)) (\<lambda>now.
        bindp (msv_search sv v text model (env_sender_identity_id e) (conversation_stable_key e) (env_chat_kind e = DIRECT) now
          (or_limit limit (msv_retrieval_limit sv))) (\<lambda>ms. retp (recall_text sv ms)))))
        (retp None))"

section \<open>Writing\<close>

definition item_of_candidate :: "ustr \<Rightarrow> memory_candidate \<Rightarrow> envelope \<Rightarrow> ustr list \<Rightarrow> memory_item" where
  "item_of_candidate new_id c e sources =
     \<lparr>mi_id = new_id, mi_scope = (if mcd_scope c = SUBJECT then SUBJECT else CONVERSATION),
      mi_subject = (if mcd_scope c = SUBJECT then Some (env_sender_identity_id e) else None),
      mi_conversation = (if mcd_scope c = SUBJECT then None else Some (conversation_of e)),
      mi_kind = mcd_kind c, mi_content = mcd_content c, mi_sources = sources, mi_confidence = mcd_confidence c,
      mi_relationship_score = None, mi_privacy = (if mcd_scope c = SUBJECT then PRIVATE else SHARED),
      mi_valid_from = None, mi_valid_until = None, mi_conflicts_with = [], mi_supersedes = [], mi_invalid_at = None,
      mi_invalidated_by = None, mi_revoked_at = None, mi_revoked_reason = None\<rparr>"

definition candidate_json :: "memory_item \<Rightarrow> memory_record list \<Rightarrow> json" where
  "candidate_json i similar = JObj [(lit ''candidate'', JObj [(lit ''content'', JStr (mi_content i)), (lit ''kind'', JStr (mi_kind i)),
       (lit ''confidence'', JFloat (mi_confidence i))]),
     (lit ''existing'', JArr (map (\<lambda>m. JObj [(lit ''id'', JStr (rec_id m)), (lit ''content'', JStr (rec_content m)),
        (lit ''kind'', JStr (rec_kind m)), (lit ''confidence'', JFloat (rec_confidence m))]) similar))]"

definition add_decision :: "memory_item \<Rightarrow> merge_decision" where
  "add_decision i = \<lparr>mdn_operation = ADD, mdn_target = None, mdn_content = Some (mi_content i), mdn_kind = Some (mi_kind i),
     mdn_confidence = Some (mi_confidence i)\<rparr>"

definition decide_merge :: "('s, 'z) memory_service_scheme \<Rightarrow> memory_item \<Rightarrow> memory_record list \<Rightarrow> ('s, merge_decision \<times> int \<times> int) prog" where
  "decide_merge sv i similar = (case msv_llm sv of
       None \<Rightarrow> retp (add_decision i, 0, 0)
     | Some llm \<Rightarrow> if similar = [] then retp (add_decision i, 0, 0)
         else catch_llm (llm merge_prompt (msv_dumps sv (candidate_json i similar)))
           (\<lambda>reply. bindp (liftr (parse_merge_decision (msv_loads sv) (msv_str sv) (msv_parse_uuid sv) (lr_text reply) (map rec_id similar) i))
             (\<lambda>d. retp (d, lr_prompt_tokens reply, lr_completion_tokens reply)))
           (retp (noop_decision, 0, 0)))"

definition merge_one :: "('s, 'z) memory_service_scheme \<Rightarrow> memory_item \<Rightarrow> ustr \<Rightarrow> ('s, merge_application \<times> int \<times> int) prog" where
  "merge_one sv i source =
     catch_embed (msv_embed sv [mi_content i]) (\<lambda>(model, vs).
       bindp (liftr (vector_at vs 0)) (\<lambda>v. bindp (getp (msv_now sv)) (\<lambda>now.
       bindp (msv_similar sv i v model now) (\<lambda>similar.
       bindp (decide_merge sv i similar) (\<lambda>(d, usage). bindp (getp (msv_now sv)) (\<lambda>now'.
       bindp (msv_merge sv i d (Some v) (Some model) source now') (\<lambda>a. retp (a, usage))))))))
       (retp (merge_noop None, 0, 0))"

definition counts_as_stored :: "merge_application \<Rightarrow> bool" where
  "counts_as_stored a \<longleftrightarrow> ma_operation a \<in> {ADD, UPDATE} \<and> ma_applied a"

fun store_candidates :: "('s, 'z) memory_service_scheme \<Rightarrow> envelope \<Rightarrow> ustr list \<Rightarrow> ustr \<Rightarrow> memory_candidate list \<Rightarrow> extraction_outcome \<Rightarrow>
    ('s, extraction_outcome) prog" where
  "store_candidates sv e sources source [] out = retp out"
| "store_candidates sv e sources source (c # cs) out =
     (if mcd_confidence c < msv_min_confidence sv then store_candidates sv e sources source cs out
      else bindp (liftp (msv_uuid sv)) (\<lambda>new_id. bindp (merge_one sv (item_of_candidate new_id c e sources) source) (\<lambda>(a, p, k).
        store_candidates sv e sources source cs \<lparr>eo_stored = eo_stored out + (if counts_as_stored a then 1 else 0),
          eo_prompt_tokens = eo_prompt_tokens out + p, eo_completion_tokens = eo_completion_tokens out + k\<rparr>)))"

definition max_candidates :: nat where
  "max_candidates = 3"

definition ask_and_store :: "('s, 'z) memory_service_scheme \<Rightarrow> (ustr \<Rightarrow> ustr \<Rightarrow> (llm_exn, 's, llm_reply) eprog) \<Rightarrow> ustr \<Rightarrow> ustr \<Rightarrow>
    envelope \<Rightarrow> ustr list \<Rightarrow> ustr \<Rightarrow> ('s, extraction_outcome) prog" where
  "ask_and_store sv llm system user e sources source =
     catch_llm (llm system user) (\<lambda>reply.
       bindp (liftr (parse_candidates (msv_loads sv) (lr_text reply))) (\<lambda>cs.
       store_candidates sv e sources source (take max_candidates cs)
         \<lparr>eo_stored = 0, eo_prompt_tokens = lr_prompt_tokens reply, eo_completion_tokens = lr_completion_tokens reply\<rparr>))
       (retp no_outcome)"

definition exchange_text :: "envelope \<Rightarrow> ustr \<Rightarrow> ustr" where
  "exchange_text e reply = lit ''User ('' @ env_sender_identity_id e @ lit ''): '' @ ep_summary (mk_envelope_prompt e False) @
     [10] @ lit ''Assistant: '' @ reply"

definition extract_and_store :: "('s, 'z) memory_service_scheme \<Rightarrow> envelope \<Rightarrow> ustr \<Rightarrow> ('s, extraction_outcome) prog" where
  "extract_and_store sv e reply = (case msv_llm sv of
       None \<Rightarrow> retp no_outcome
     | Some llm \<Rightarrow> if env_ephemeral e then retp no_outcome
         else ask_and_store sv llm extraction_prompt (exchange_text e reply) e [env_id e] (lit ''post_turn''))"

definition transcript_line :: "history_entry \<Rightarrow> ustr" where
  "transcript_line h = he_direction h @ [58] @ he_sender h @ lit '': '' @ he_text h"

fun flush_select :: "int \<Rightarrow> int \<Rightarrow> history_entry list \<Rightarrow> history_entry list" where
  "flush_select budget used [] = []"
| "flush_select budget used (h # hs) =
     (let cost = estimate_tokens (transcript_line h)
      in if used + cost > budget then [] else h # flush_select budget (used + cost) hs)"

definition flush_history :: "('s, 'z) memory_service_scheme \<Rightarrow> envelope \<Rightarrow> history_entry list \<Rightarrow> ('s, extraction_outcome) prog" where
  "flush_history sv e history = (case msv_llm sv of
       None \<Rightarrow> retp no_outcome
     | Some llm \<Rightarrow> if \<not> msv_flush_enabled sv \<or> env_ephemeral e \<or> history = [] then retp no_outcome
         else bindp (case msv_once sv of None \<Rightarrow> retp True
             | Some once \<Rightarrow> once (lit ''mybot:memory-flush:'' @ msv_sha256 sv (conversation_stable_key e)) (msv_flush_ttl sv)) (\<lambda>acquired.
           let selected = flush_select (msv_flush_budget sv) 0 (py_slice 0 (msv_flush_messages sv) history);
               ids = List.map_filter (\<lambda>h. case he_source_id h of Some i \<Rightarrow> if i \<noteq> [] then Some i else None | None \<Rightarrow> None) selected
           in if \<not> acquired \<or> selected = [] then retp no_outcome
              else ask_and_store sv llm flush_prompt (py_join [10] (map transcript_line (rev selected))) e
                (if ids = [] then [env_id e] else ids) (lit ''pre_truncation_flush'')))"

definition forget_memories :: "('s, 'z) memory_service_scheme \<Rightarrow> ustr \<Rightarrow> ustr option \<Rightarrow> ('s, nat) prog" where
  "forget_memories sv subject key = bindp (getp (msv_now sv)) (msv_revoke sv subject key)"


section \<open>The store behind the service\<close>

text \<open>The service on the tables of \<open>repositories/memory.py\<close>: the state is the ledger and the rest of
  the world, in which the model, the embeddings and the clock live.\<close>

definition over_world :: "('e, 'w, 'a) eprog \<Rightarrow> ('e, memory_db \<times> 'w, 'a) eprog" where
  "over_world m s = (case m (snd s) of (r, w) \<Rightarrow> (r, (fst s, w)))"

definition over_ledger :: "('e, memory_db, 'a) eprog \<Rightarrow> ('e, memory_db \<times> 'w, 'a) eprog" where
  "over_ledger m s = (case m (fst s) of (r, db) \<Rightarrow> (r, (db, snd s)))"

definition merge_limit :: nat where
  "merge_limit = 5"

definition ledger_service :: "memory_sql \<Rightarrow> 'w memory_service \<Rightarrow> (memory_db \<times> 'w) memory_service" where
  "ledger_service sql out = \<lparr>msv_embed = (\<lambda>ts. over_world (msv_embed out ts)),
     msv_search = (\<lambda>q t m subject key priv now limit. if limit < 0 then raisep (Raised (lit ''DBAPIError''))
       else over_ledger (memory_search sql q t m subject key priv now (nat limit))),
     msv_similar = (\<lambda>i q m now. over_ledger (\<lambda>db. (similar_for_merge sql i q m now merge_limit db, db))),
     msv_merge = (\<lambda>i d v m source now. over_ledger (apply_merge i d v m source now)),
     msv_revoke = (\<lambda>subject key now. over_ledger (liftp (revoke_for subject key now (lit ''user_forget'')))),
     msv_expressions = (\<lambda>key now limit. over_ledger (\<lambda>db. (Inr (active_expressions key now (nat limit) db), db))),
     msv_relationship = (\<lambda>subject now. over_ledger (\<lambda>db. (Inr (relationship_for subject now db), db))),
     msv_llm = map_option (\<lambda>llm system user. over_world (llm system user)) (msv_llm out),
     msv_core = map_option (\<lambda>look subject. over_world (look subject)) (msv_core out),
     msv_once = map_option (\<lambda>once key ttl. over_world (once key ttl)) (msv_once out),
     msv_now = (\<lambda>s. msv_now out (snd s)), msv_uuid = (\<lambda>s. case memory_uuid (fst s) of (u, db) \<Rightarrow> (u, (db, snd s))),
     msv_loads = msv_loads out, msv_dumps = msv_dumps out, msv_str = msv_str out, msv_parse_uuid = msv_parse_uuid out,
     msv_sha256 = msv_sha256 out, msv_date = msv_date out, msv_one_decimal = msv_one_decimal out,
     msv_flush_enabled = msv_flush_enabled out, msv_flush_ttl = msv_flush_ttl out, msv_flush_messages = msv_flush_messages out,
     msv_flush_budget = msv_flush_budget out, msv_min_confidence = msv_min_confidence out,
     msv_retrieval_limit = msv_retrieval_limit out, msv_budget = msv_budget out\<rparr>"

section \<open>What the policy needs of a store\<close>

definition own_boundaries :: "envelope \<Rightarrow> boundary set" where
  "own_boundaries e = {(SUBJECT, PRIVATE, Some (env_sender_identity_id e), None), (CONVERSATION, SHARED, None, Some (conversation_stable_key e))}"

text \<open>The rows outside a set of boundaries, and a change that leaves them alone.\<close>

definition rows_outside :: "boundary set \<Rightarrow> memory_db \<Rightarrow> memory_row list" where
  "rows_outside B db = filter (\<lambda>r. boundary_of r \<notin> B) (ml_items db)"

definition leaves_outside :: "boundary set \<Rightarrow> memory_db \<Rightarrow> memory_db \<Rightarrow> bool" where
  "leaves_outside B db db' \<longleftrightarrow>
     (ledger_ok (ml_items db) \<longrightarrow> ledger_ok (ml_items db') \<and> rows_outside B db' = rows_outside B db)"

definition others :: "envelope \<Rightarrow> memory_db \<Rightarrow> memory_row list" where
  "others e = rows_outside (own_boundaries e)"

lemma leaves_refl: "leaves_outside B db db"
  by (simp add: leaves_outside_def)

lemma leaves_trans: "leaves_outside B a b \<Longrightarrow> leaves_outside B b c \<Longrightarrow> leaves_outside B a c"
  by (auto simp: leaves_outside_def)

lemma rows_outside_mono: "B \<subseteq> B' \<Longrightarrow> rows_outside B db' = rows_outside B db \<Longrightarrow> rows_outside B' db' = rows_outside B' db"
proof -
  assume "B \<subseteq> B'"
  then have "rows_outside B' x = filter (\<lambda>r. boundary_of r \<notin> B') (rows_outside B x)" for x
    by (auto simp: rows_outside_def intro: filter_cong)
  then show "rows_outside B db' = rows_outside B db \<Longrightarrow> rows_outside B' db' = rows_outside B' db" by simp
qed

lemma leaves_mono: "B \<subseteq> B' \<Longrightarrow> leaves_outside B db db' \<Longrightarrow> leaves_outside B' db db'"
  unfolding leaves_outside_def using rows_outside_mono by metis

text \<open>The same of programs on a state that has a ledger.\<close>

definition stays :: "('s \<Rightarrow> memory_db) \<Rightarrow> boundary set \<Rightarrow> 's \<Rightarrow> 's \<Rightarrow> bool" where
  "stays ledger B s s' \<longleftrightarrow> leaves_outside B (ledger s) (ledger s')"

lemma stays_refl: "reflp (stays ledger B)"
  by (simp add: reflp_def stays_def leaves_refl)

lemma stays_trans: "transp (stays ledger B)"
  by (auto simp: transp_def stays_def intro: leaves_trans)

lemma frame_stays: "moves (same_view ledger) m \<Longrightarrow> moves (stays ledger B) m"
  by (auto simp: moves_def same_view_def stays_def leaves_refl)

lemma moves_liftr: "reflp R \<Longrightarrow> moves R (liftr r)"
  by (simp add: moves_def liftr_def reflpD)

lemma moves_Pair: "reflp R \<Longrightarrow> moves R (Pair r)"
  by (simp add: moves_def reflpD)

lemma moves_catch_llm:
  assumes "transp R" and "moves R m" and "\<And>x. moves R (f x)" and "moves R h"
  shows "moves R (catch_llm m f h)"
  by (rule movesI) (use assms in \<open>auto simp: catch_llm_def split: prod.splits sum.splits llm_exn.splits
    dest!: movesD dest: transpD [OF assms(1)]\<close>)

lemma moves_catch_embed:
  assumes "transp R" and "moves R m" and "\<And>x. moves R (f x)" and "moves R h"
  shows "moves R (catch_embed m f h)"
  by (rule movesI) (use assms in \<open>auto simp: catch_embed_def split: prod.splits sum.splits embed_exn.splits
    dest!: movesD dest: transpD [OF assms(1)]\<close>)

lemmas stays_intro = moves_bindp [OF stays_trans] moves_retp [OF stays_refl] moves_getp [OF stays_refl] moves_liftr [OF stays_refl]
  moves_Pair [OF stays_refl] moves_catch_llm [OF stays_trans] moves_catch_embed [OF stays_trans]

text \<open>A memory store: a search shows active rows within reach and privacy, a merge leaves alone
  what is outside the boundary of its item, and nothing else changes the ledger.\<close>

locale memory_boundary =
  fixes sv :: "'s memory_service" and ledger :: "'s \<Rightarrow> memory_db"
  assumes embed_frame: "moves (same_view ledger) (msv_embed sv texts)"
    and llm_frame: "msv_llm sv = Some llm \<Longrightarrow> moves (same_view ledger) (llm system user)"
    and once_frame: "msv_once sv = Some once \<Longrightarrow> moves (same_view ledger) (once key ttl)"
    and similar_frame: "moves (same_view ledger) (msv_similar sv i q model now)"
    and uuid_items: "ml_items (ledger (snd (msv_uuid sv s))) = ml_items (ledger s)"
    and search_reach: "msv_search sv q text model subject key priv now limit s = (Inr ms, s') \<Longrightarrow> m \<in> set ms \<Longrightarrow>
      \<exists>r \<in> set (ml_items (ledger s)). \<exists>v k sql. m = scored_row sql q v k r \<and> active_row now r \<and> in_reach subject key r \<and>
        (priv \<or> mx_privacy r \<notin> {PRIVATE, SENSITIVE})"
    and merge_inside: "item_boundary i \<in> B \<Longrightarrow> msv_merge sv i d embedding tag source now s = (res, s') \<Longrightarrow>
      stays ledger B s s'"
begin

lemma decide_stays: "moves (stays ledger B) (decide_merge sv i similar)"
proof (cases "msv_llm sv")
  case None
  then show ?thesis by (simp add: decide_merge_def moves_retp [OF stays_refl])
next
  case (Some llm)
  then show ?thesis
    by (auto simp: decide_merge_def intro!: stays_intro frame_stays [OF llm_frame])
qed

lemma merge_stays: "item_boundary i \<in> B \<Longrightarrow> moves (stays ledger B) (merge_one sv i source)"
  unfolding merge_one_def
  by (auto intro!: stays_intro decide_stays frame_stays [OF embed_frame] frame_stays [OF similar_frame] simp: split_beta)
    (auto intro!: movesI dest: merge_inside)

lemma candidate_boundary: "item_boundary (item_of_candidate u c e sources) \<in> own_boundaries e"
  by (auto simp: item_boundary_def item_of_candidate_def own_boundaries_def item_key_def conversation_stable_key_def)

lemma uuid_stays: "moves (stays ledger B) (liftp (msv_uuid sv))"
  by (rule moves_liftp) (simp add: stays_def leaves_outside_def rows_outside_def uuid_items)

lemma store_stays: "moves (stays ledger (own_boundaries e)) (store_candidates sv e sources source cs out)"
proof (induction cs arbitrary: out)
  case (Cons c cs)
  then show ?case
    by (auto intro!: stays_intro uuid_stays merge_stays [OF candidate_boundary] simp: split_beta)
qed (auto intro!: stays_intro)

lemma ask_stays: "msv_llm sv = Some llm \<Longrightarrow> moves (stays ledger (own_boundaries e)) (ask_and_store sv llm system user e sources source)"
  unfolding ask_and_store_def by (auto intro!: stays_intro frame_stays [OF llm_frame] store_stays)

lemma extraction_stays: "moves (stays ledger (own_boundaries e)) (extract_and_store sv e reply)"
  unfolding extract_and_store_def by (auto intro!: stays_intro ask_stays split: option.splits)

lemma flush_stays: "moves (stays ledger (own_boundaries e)) (flush_history sv e history)"
  unfolding flush_history_def Let_def
  by (auto intro!: stays_intro ask_stays frame_stays [OF once_frame] split: option.splits)

text \<open>What a block of recalled memories shows.\<close>

lemma recall_lines_from: "set (recall_lines sv used ms) \<subseteq> recall_line sv ` set ms"
  by (induction ms arbitrary: used) (auto simp: Let_def)

lemma recall_shows_reachable:
  assumes "retrieval_block sv e text limit s = (Inr (Some block), s')"
  shows "\<exists>ls now. block = py_join [10] (recall_header # ls) \<and> (\<forall>l \<in> set ls. \<exists>m. l = recall_line sv m \<and>
     (\<exists>r \<in> set (ml_items (ledger s)). (\<exists>q v k sql. m = scored_row sql q v k r) \<and> active_row now r \<and>
        in_reach (env_sender_identity_id e) (conversation_stable_key e) r \<and>
        (env_chat_kind e = DIRECT \<or> mx_privacy r \<notin> {PRIVATE, SENSITIVE})))"
proof -
  obtain model vs s1 where emb: "msv_embed sv [text] s = (Inr (model, vs), s1)" and e: "\<not> env_ephemeral e"
    and run: "bindp (liftr (vector_at vs 0)) (\<lambda>v. bindp (getp (msv_now sv)) (\<lambda>now.
        bindp (msv_search sv v text model (env_sender_identity_id e) (conversation_stable_key e) (env_chat_kind e = DIRECT) now
          (or_limit limit (msv_retrieval_limit sv))) (\<lambda>ms. retp (recall_text sv ms)))) s1 = (Inr (Some block), s')"
    using assms by (auto simp: retrieval_block_def catch_embed_def split: if_splits prod.splits sum.splits embed_exn.splits)
  then obtain v ms s2 where search: "msv_search sv v text model (env_sender_identity_id e) (conversation_stable_key e)
        (env_chat_kind e = DIRECT) (msv_now sv s1) (or_limit limit (msv_retrieval_limit sv)) s1 = (Inr ms, s2)"
      and shown: "recall_text sv ms = Some block"
    by (auto simp: liftr_def getp_def elim!: bindp_cases)
  have same: "ledger s1 = ledger s" using movesD [OF embed_frame emb] by (simp add: same_view_def)
  let ?ls = "recall_lines sv (estimate_tokens recall_header) ms"
  have "block = py_join [10] (recall_header # ?ls)"
    using shown by (auto simp: recall_text_def Let_def split: if_splits)
  moreover have "\<exists>m. l = recall_line sv m \<and> (\<exists>r \<in> set (ml_items (ledger s)). (\<exists>q v k sql. m = scored_row sql q v k r) \<and>
        active_row (msv_now sv s1) r \<and> in_reach (env_sender_identity_id e) (conversation_stable_key e) r \<and>
        (env_chat_kind e = DIRECT \<or> mx_privacy r \<notin> {PRIVATE, SENSITIVE}))" if "l \<in> set ?ls" for l
  proof -
    from that obtain m where m: "m \<in> set ms" "l = recall_line sv m" using recall_lines_from by blast
    from search_reach [OF search m(1)] m(2) show ?thesis unfolding same by blast
  qed
  ultimately show ?thesis by blast
qed

end

text \<open>The tables are such a store.\<close>

lemma ledger_service_fields:
  "msv_embed (ledger_service sql out) ts = over_world (msv_embed out ts)"
  "msv_llm (ledger_service sql out) = map_option (\<lambda>llm system user. over_world (llm system user)) (msv_llm out)"
  "msv_once (ledger_service sql out) = map_option (\<lambda>once key ttl. over_world (once key ttl)) (msv_once out)"
  "msv_similar (ledger_service sql out) i q m now = over_ledger (\<lambda>db. (similar_for_merge sql i q m now merge_limit db, db))"
  "msv_search (ledger_service sql out) q t m subject key priv now limit = (if limit < 0 then raisep (Raised (lit ''DBAPIError''))
     else over_ledger (memory_search sql q t m subject key priv now (nat limit)))"
  "msv_merge (ledger_service sql out) i d u tag source now = over_ledger (apply_merge i d u tag source now)"
  "msv_uuid (ledger_service sql out) s = (case memory_uuid (fst s) of (u, db) \<Rightarrow> (u, (db, snd s)))"
  by (simp_all add: ledger_service_def)

lemma world_frame: "moves (same_view fst) (over_world m)"
  by (simp add: moves_def same_view_def over_world_def split: prod.splits)

lemma search_shows:
  assumes "memory_search sql q text model subject key priv now limit db = (Inr ms, db')" and "m \<in> set ms"
  shows "\<exists>r \<in> set (ml_items db). \<exists>v k sql. m = scored_row sql q v k r \<and> active_row now r \<and> in_reach subject key r \<and>
     (priv \<or> mx_privacy r \<notin> {PRIVATE, SENSITIVE})"
proof -
  from assms(2) obtain r v k where "r \<in> set (ml_items db)" "eligible_memory subject key priv now r" "m = scored_row sql q v k r"
    unfolding memory_search_Inr [OF assms(1)] using fused_memories_from by fastforce
  then show ?thesis by (auto simp: eligible_memory_def)
qed

lemma filter_map_same:
  assumes "\<And>x. x \<in> set xs \<Longrightarrow> P (f x) = P x" and "\<And>x. x \<in> set xs \<Longrightarrow> P x \<Longrightarrow> f x = x"
  shows "filter P (map f xs) = filter P xs"
  using assms by (induction xs) auto

lemma invalidate_others:
  assumes "distinct (map mx_id rows)" and "q \<in> set rows" and "mx_id q = t" and "boundary_of q \<in> B"
  shows "filter (\<lambda>r. boundary_of r \<notin> B) (map (\<lambda>q. if mx_id q = t then q\<lparr>mx_invalid_at := a, mx_invalidated_by := j\<rparr> else q) rows)
     = filter (\<lambda>r. boundary_of r \<notin> B) rows"
proof (rule filter_map_same)
  fix x assume x: "x \<in> set rows"
  show "(boundary_of (if mx_id x = t then x\<lparr>mx_invalid_at := a, mx_invalidated_by := j\<rparr> else x) \<notin> B) = (boundary_of x \<notin> B)"
    by (simp add: boundary_of_def)
  assume "boundary_of x \<notin> B"
  then have "x \<noteq> q" using assms(4) by blast
  then have "mx_id x \<noteq> t" using assms(1-3) x by (auto simp: distinct_map dest: inj_onD)
  then show "(if mx_id x = t then x\<lparr>mx_invalid_at := a, mx_invalidated_by := j\<rparr> else x) = x" by simp
qed

lemma successor_row_boundary: "boundary_of (row_of_item (successor_item i d n) m k t) = item_boundary i"
  by (simp add: boundary_of_def row_of_item_def item_boundary_def item_key_def successor_boundary)

lemma merge_leaves_outside:
  assumes "item_boundary i \<in> B"
  shows "leaves_outside B db (snd (apply_merge i d v model source now db))"
  unfolding leaves_outside_def
proof (intro impI conjI)
  assume ok: "ledger_ok (ml_items db)"
  then show "ledger_ok (ml_items (snd (apply_merge i d v model source now db)))"
    using ledger_step [of db undefined "Merge_item i d v model source now"] by simp
  show "rows_outside B (snd (apply_merge i d v model source now db)) = rows_outside B db"
  proof (cases rule: apply_merge_cases [of i d v model source now db])
    case (added r db')
    then have "boundary_of r \<in> B" using assms by (auto simp: successor_row_boundary)
    then show ?thesis unfolding added(1) snd_conv rows_outside_def added(2) by simp
  next
    case (updated t q r db')
    then have own: "boundary_of r \<in> B" using assms by (auto simp: successor_row_boundary)
    have q: "q \<in> set (ml_items db @ [r])" "mx_id q = t" "boundary_of q \<in> B"
      using updated(5, 6) assms by (auto simp: find_Some_iff same_boundary_iff)
    have "distinct (map mx_id (ml_items db @ [r]))" using ledger_append [OF ok updated(8)] unfolding ledger_ok_def by blast
    then show ?thesis unfolding updated(1) snd_conv rows_outside_def updated(2)
      by (subst invalidate_others [OF _ q]) (use own in simp_all)
  next
    case (removed t q db')
    have q: "q \<in> set (ml_items db)" "mx_id q = t" "boundary_of q \<in> B"
      using removed(5, 6) assms by (auto simp: find_Some_iff same_boundary_iff)
    show ?thesis unfolding removed(1) snd_conv rows_outside_def removed(2)
      by (rule invalidate_others [OF _ q]) (use ok in \<open>simp add: ledger_ok_def\<close>)
  qed (auto simp: rows_outside_def)
qed

interpretation lg: memory_boundary "ledger_service sql out" fst for sql and out :: "'w memory_service"
proof
  show "moves (same_view fst) (msv_embed (ledger_service sql out) texts)" for texts
    unfolding ledger_service_fields by (rule world_frame)
  show "moves (same_view fst) (llm system user)" if "msv_llm (ledger_service sql out) = Some llm" for llm system user
    using that unfolding ledger_service_fields by (auto intro: world_frame)
  show "moves (same_view fst) (once key ttl)" if "msv_once (ledger_service sql out) = Some once" for once key ttl
    using that unfolding ledger_service_fields by (auto intro: world_frame)
  show "moves (same_view fst) (msv_similar (ledger_service sql out) i q model now)" for i q model now
    by (simp add: ledger_service_fields moves_def same_view_def over_ledger_def)
  show "ml_items (fst (snd (msv_uuid (ledger_service sql out) s))) = ml_items (fst s)" for s
    by (simp add: ledger_service_fields memory_uuid_def)
  show "\<exists>r \<in> set (ml_items (fst s)). \<exists>v k sql. m = scored_row sql q v k r \<and> active_row now r \<and> in_reach subject key r \<and>
        (priv \<or> mx_privacy r \<notin> {PRIVATE, SENSITIVE})"
    if "msv_search (ledger_service sql out) q words model subject key priv now limit s = (Inr ms, s')" "m \<in> set ms"
    for q words model subject key priv now limit s ms s' m
    using that search_shows [of sql q words model subject key priv now "nat limit" "fst s" ms _ m]
    by (auto simp: ledger_service_fields over_ledger_def split: if_splits prod.splits)
  show "stays fst B s s'"
    if "item_boundary i \<in> B" "msv_merge (ledger_service sql out) i d embedding tag source now s = (res, s')"
    for i B d embedding tag source now s res s'
    using that merge_leaves_outside [OF that(1), of "fst s" d embedding tag source now]
    by (auto simp: stays_def ledger_service_fields over_ledger_def split: prod.splits)
qed


section \<open>Privacy, bounds and frames\<close>

text \<open>
  C7: what a prompt is shown of the memory respects privacy: the block is a header and lines,
  each line renders a row of the ledger that is active, global or about the sender or of this
  very conversation, and, unless the chat is a direct one, neither private nor sensitive.
\<close>

theorem group_recall_private:
  assumes "retrieval_block (ledger_service sql out) e text limit (db, w) = (Inr (Some block), s')"
  shows "\<exists>ls now. block = py_join [10] (recall_header # ls) \<and> (\<forall>l \<in> set ls. \<exists>m. l = recall_line (ledger_service sql out) m \<and>
     (\<exists>r \<in> set (ml_items db). sm_content m = mx_content r \<and> active_row now r \<and>
        in_reach (env_sender_identity_id e) (conversation_stable_key e) r \<and>
        (env_chat_kind e = DIRECT \<or> mx_privacy r \<notin> {PRIVATE, SENSITIVE})))"
proof -
  from lg.recall_shows_reachable [OF assms] obtain ls now where b: "block = py_join [10] (recall_header # ls)"
    and l: "\<forall>l \<in> set ls. \<exists>m. l = recall_line (ledger_service sql out) m \<and>
     (\<exists>r \<in> set (ml_items (fst (db, w))). (\<exists>q v k sql. m = scored_row sql q v k r) \<and> active_row now r \<and>
        in_reach (env_sender_identity_id e) (conversation_stable_key e) r \<and>
        (env_chat_kind e = DIRECT \<or> mx_privacy r \<notin> {PRIVATE, SENSITIVE}))" by blast
  have "\<exists>m. x = recall_line (ledger_service sql out) m \<and> (\<exists>r \<in> set (ml_items db). sm_content m = mx_content r \<and> active_row now r \<and>
        in_reach (env_sender_identity_id e) (conversation_stable_key e) r \<and>
        (env_chat_kind e = DIRECT \<or> mx_privacy r \<notin> {PRIVATE, SENSITIVE}))" if "x \<in> set ls" for x
  proof -
    from l that obtain m r q v k sq where "x = recall_line (ledger_service sql out) m" "r \<in> set (ml_items db)" "m = scored_row sq q v k r"
        "active_row now r" "in_reach (env_sender_identity_id e) (conversation_stable_key e) r"
        "env_chat_kind e = DIRECT \<or> mx_privacy r \<notin> {PRIVATE, SENSITIVE}" by auto
    then show ?thesis by (intro exI [of _ m] conjI bexI [of _ r]) (simp_all add: scored_row_def)
  qed
  with b show ?thesis by blast
qed

lemma recall_lines_budget:
  "used \<le> msv_budget sv \<Longrightarrow> used + sum_list (map estimate_tokens (recall_lines sv used ms)) \<le> msv_budget sv"
proof (induction ms arbitrary: used)
  case (Cons m ms)
  show ?case using Cons.IH [of "used + estimate_tokens (recall_line sv m)"] Cons.prems
    by (cases "used + estimate_tokens (recall_line sv m) \<le> msv_budget sv") (simp_all add: Let_def)
qed simp

text \<open>
  the recalled lines fit the budget: with one that has room for the header, the estimated
  tokens of header and lines together are within it, and a text is returned only when at least
  one line fits.
\<close>

theorem recall_within_budget:
  assumes "estimate_tokens recall_header \<le> msv_budget sv" and "recall_text sv ms = Some block"
  shows "\<exists>ls. ls \<noteq> [] \<and> block = py_join [10] (recall_header # ls) \<and> length ls \<le> length ms \<and>
     sum_list (map estimate_tokens (recall_header # ls)) \<le> msv_budget sv"
proof -
  let ?ls = "recall_lines sv (estimate_tokens recall_header) ms"
  have "length (recall_lines sv used ms) \<le> length ms" for used
    by (induction ms arbitrary: used) (auto simp: Let_def)
  moreover have "?ls \<noteq> [] \<and> block = py_join [10] (recall_header # ?ls)"
    using assms(2) by (auto simp: recall_text_def Let_def split: if_splits)
  moreover have "sum_list (map estimate_tokens (recall_header # ?ls)) \<le> msv_budget sv"
    using recall_lines_budget [OF assms(1), of ms] by simp
  ultimately show ?thesis by blast
qed

text \<open>
  C8: an exchange leaves traces only where it may: extracting from it, or flushing its history,
  whatever the model answers and however it ends, changes no row outside the private memory of
  its sender and the shared memory of its conversation, and adds none there; so nothing global
  or sensitive, and nothing about anyone else, is ever written.
\<close>

theorem extraction_stays_inside:
  assumes "ledger_ok (ml_items db)"
  shows "others e (fst (snd (extract_and_store (ledger_service sql out) e reply (db, w)))) = others e db \<and>
     others e (fst (snd (flush_history (ledger_service sql out) e history (db, w)))) = others e db"
proof
  have "stays fst (own_boundaries e) (db, w) (snd (extract_and_store (ledger_service sql out) e reply (db, w)))"
    using lg.extraction_stays unfolding moves_def by blast
  then show "others e (fst (snd (extract_and_store (ledger_service sql out) e reply (db, w)))) = others e db"
    using assms by (simp add: stays_def leaves_outside_def others_def)
  have "stays fst (own_boundaries e) (db, w) (snd (flush_history (ledger_service sql out) e history (db, w)))"
    using lg.flush_stays unfolding moves_def by blast
  then show "others e (fst (snd (flush_history (ledger_service sql out) e history (db, w)))) = others e db"
    using assms by (simp add: stays_def leaves_outside_def others_def)
qed

text \<open>
  an ephemeral exchange neither reads nor writes memory: no block is rendered for it and
  nothing is extracted or flushed, and the state of the store and the world is untouched.
\<close>

theorem ephemeral_touches_nothing:
  assumes "env_ephemeral e"
  shows "render_core_block sv e s = (Inr None, s) \<and> personality_block sv e n b s = (Inr None, s) \<and>
     retrieval_block sv e text limit s = (Inr None, s) \<and> extract_and_store sv e reply s = (Inr no_outcome, s) \<and>
     flush_history sv e history s = (Inr no_outcome, s)"
  using assms
  by (simp add: render_core_block_def personality_block_def retrieval_block_def extract_and_store_def flush_history_def split: option.split)

lemma valid_noop [simp]: "valid_decision noop_decision"
  by (simp add: valid_decision_def noop_decision_def valid_opt_def)

lemma checked_valid: "valid_decision (checked_decision d)"
  by (simp add: checked_decision_def)

lemma checked_target: "mdn_target (checked_decision d) = Some t \<Longrightarrow> mdn_target d = Some t"
  by (auto simp: checked_decision_def noop_decision_def split: if_splits)

text \<open>
  C29: whatever the model replies, the decision read from it is well-formed (an addition has
  content and no target, an update has both, a deletion a target and no content, and the
  confidence is between 0 and 1) and can only name a memory that was offered to the model.
\<close>

theorem merge_decisions_checked:
  assumes "parse_merge_decision loads str uuid reply allowed i = Inr d"
  shows "valid_decision d \<and> (\<forall>t. mdn_target d = Some t \<longrightarrow> t \<in> set allowed)"
proof -
  have noop: "valid_decision noop_decision \<and> (\<forall>t. mdn_target noop_decision = Some t \<longrightarrow> t \<in> set allowed)"
    by (simp add: noop_decision_def [THEN arg_cong [of _ _ mdn_target]])
  have offered: "t \<in> set allowed" if "decided_target str uuid allowed o' = Some (Some t)" for o' t
    using that by (auto simp: decided_target_def split: option.splits if_splits)
  have shaped: "mdn_target (shaped_decision operation target content kind c i) = Some t \<Longrightarrow> target = Some t" for operation target content kind c t
    by (auto simp: shaped_decision_def Let_def split: memory_operation.splits)
  let ?o = "decode_json_object loads reply"
  from assms consider "d = noop_decision"
    | operation target content kind c where "d = checked_decision (shaped_decision operation target content kind c i)"
        "decided_target str uuid allowed ?o = Some target"
    unfolding parse_merge_decision_def Let_def by (simp split: option.splits sum.splits) blast+
  then show ?thesis
  proof cases
    case 1
    then show ?thesis using noop by simp
  next
    case 2
    then show ?thesis using offered shaped checked_target checked_valid by metis
  qed
qed


section \<open>A run\<close>

definition quiet_service :: "nat memory_service" where
  "quiet_service = \<lparr>msv_embed = (\<lambda>ts. retp (lit ''m'', map (\<lambda>t. [1]) ts)), msv_search = (\<lambda>q t m s k p n l. retp []),
     msv_similar = (\<lambda>i q m n. retp []), msv_merge = (\<lambda>i d v m s n. retp (merge_noop None)), msv_revoke = (\<lambda>s k n. retp 0),
     msv_expressions = (\<lambda>k n l. retp []), msv_relationship = (\<lambda>s n. retp None), msv_llm = None, msv_core = None, msv_once = None,
     msv_now = (\<lambda>w. 5), msv_uuid = (\<lambda>w. ([w], w)), msv_loads = (\<lambda>t. None), msv_dumps = (\<lambda>v. []), msv_str = (\<lambda>v. []),
     msv_parse_uuid = Some, msv_sha256 = (\<lambda>t. t), msv_date = (\<lambda>d. []), msv_one_decimal = (\<lambda>x. []), msv_flush_enabled = True,
     msv_flush_ttl = 60, msv_flush_messages = 24, msv_flush_budget = 2000, msv_min_confidence = 0, msv_retrieval_limit = 5, msv_budget = 1200\<rparr>"

lemma quiet_fields:
  "msv_embed quiet_service ts = retp (lit ''m'', map (\<lambda>t. [1]) ts)" "msv_now quiet_service w = 5" "msv_retrieval_limit quiet_service = 5"
  "msv_budget quiet_service = 1200" "msv_date quiet_service d = []" "msv_llm quiet_service = None"
  by (simp_all add: quiet_service_def)

text \<open>A direct chat with the person the private memory of the demonstration ledger is about.\<close>

definition demo_direct :: envelope where
  "demo_direct = store_message\<lparr>env_chat_kind := DIRECT, env_sender_identity_id := lit ''u'', env_ephemeral := False\<rparr>"

lemma demo_direct_fields: "env_chat_kind demo_direct = DIRECT" "env_sender_identity_id demo_direct = lit ''u''" "\<not> env_ephemeral demo_direct"
  by (simp_all add: demo_direct_def)

theorem extraction_stays_inside_witness:
  "others demo_direct (fst (snd (extract_and_store (ledger_service demo_sql quiet_service) demo_direct [] (demo_ledger, 0)))) = others demo_direct demo_ledger"
  using extraction_stays_inside [of demo_ledger demo_direct demo_sql quiet_service "[]" 0 "[]"] ledger_runs
  unfolding demo_ledger_def by blast

theorem merge_decisions_checked_witness:
  "\<exists>d. parse_merge_decision (\<lambda>t. Some (JObj [(lit ''operation'', JStr (lit ''delete'')), (lit ''target_id'', JStr (lit ''x''))]))
     (\<lambda>v. case v of JStr t \<Rightarrow> t | _ \<Rightarrow> []) Some (lit ''a'') [lit ''x''] demo_item = Inr d \<and> mdn_operation d = DELETE \<and> valid_decision d"
proof -
  let ?l = "\<lambda>t. Some (JObj [(lit ''operation'', JStr (lit ''delete'')), (lit ''target_id'', JStr (lit ''x''))])"
  have up: "map upper_char (lit ''delete'') = lit ''DELETE''" by (simp add: upper_char_def str_simps)
  have obj: "decode_json_object ?l (lit ''a'') = [(lit ''operation'', JStr (lit ''delete'')), (lit ''target_id'', JStr (lit ''x''))]"
    by (simp add: decode_json_object_def json_chunks_def List.map_filter_def)
  have "\<exists>d. parse_merge_decision ?l (\<lambda>v. case v of JStr t \<Rightarrow> t | _ \<Rightarrow> []) Some (lit ''a'') [lit ''x''] demo_item = Inr d \<and> mdn_operation d = DELETE"
    by (simp add: parse_merge_decision_def obj up get_either_def operation_named_def decided_target_def decided_confidence_def
        shaped_decision_def checked_decision_def valid_decision_def valid_opt_def)
  then obtain d where d: "parse_merge_decision ?l (\<lambda>v. case v of JStr t \<Rightarrow> t | _ \<Rightarrow> []) Some (lit ''a'') [lit ''x''] demo_item = Inr d"
      "mdn_operation d = DELETE" by blast
  from merge_decisions_checked [OF d(1)] d show ?thesis by blast
qed

theorem ephemeral_touches_nothing_witness:
  "retrieval_block quiet_service (demo_direct\<lparr>env_ephemeral := True\<rparr>) [] None 3 = (Inr None, 3)"
  using ephemeral_touches_nothing [of "demo_direct\<lparr>env_ephemeral := True\<rparr>" quiet_service 3 0 True "[]" None] by simp

definition demo_scored :: scored_memory where
  "demo_scored = scored_row demo_sql [1] (Some 1) None demo_row"

definition recall_service :: "nat memory_service" where
  "recall_service = quiet_service\<lparr>msv_budget := estimate_tokens recall_header + estimate_tokens (recall_line quiet_service demo_scored)\<rparr>"

lemma demo_recall_text: "recall_text recall_service [demo_scored] = Some (py_join [10] [recall_header, recall_line quiet_service demo_scored])"
proof -
  have "recall_line recall_service demo_scored = recall_line quiet_service demo_scored"
    by (simp add: recall_line_def recall_service_def)
  then show ?thesis by (simp add: recall_text_def recall_service_def Let_def)
qed

theorem recall_within_budget_witness:
  "\<exists>ls. ls \<noteq> [] \<and> sum_list (map estimate_tokens (recall_header # ls)) \<le> msv_budget recall_service"
proof -
  have "0 \<le> estimate_tokens t" for t by (simp add: estimate_tokens_def le_max_iff_disj split: prod.splits)
  then have "estimate_tokens recall_header \<le> msv_budget recall_service" by (simp add: recall_service_def)
  from recall_within_budget [OF this demo_recall_text] show ?thesis by blast
qed

lemma demo_search: "memory_search demo_sql [1] [] (lit ''m'') (lit ''u'') k True 5 5 demo_ledger
    = (Inr [demo_scored], snd (memory_search demo_sql [1] [] (lit ''m'') (lit ''u'') k True 5 5 demo_ledger))"
proof -
  have m: "mx_model demo_row = Some (lit ''m'')" "mx_embedding demo_row \<noteq> None"
    by (simp_all add: demo_row_def row_of_item_def str_simps)
  have "fused_memories demo_sql [1] (strip []) (lit ''m'') 5 [demo_row] = [demo_scored]"
    by (simp add: fused_memories_def vector_hits_def text_hits_def m newest_memory_def rank_of_def fused_order_def demo_scored_def
        strip_def lstrip_def rstrip_def)
  moreover have "row_distance demo_sql [1] demo_row \<noteq> None"
    by (simp add: row_distance_def demo_row_fields demo_sql_def vector_literal_def)
  ultimately show ?thesis
    by (simp add: memory_search_def Let_def demo_ledger_items demo_eligible split_beta)
qed

theorem group_recall_private_witness:
  "\<exists>block s'. retrieval_block (ledger_service demo_sql recall_service) demo_direct [] None (demo_ledger, 0) = (Inr (Some block), s') \<and>
     (\<exists>ls. block = py_join [10] (recall_header # ls))"
proof -
  have "recall_text (ledger_service demo_sql recall_service) ms = recall_text recall_service ms" for ms
  proof -
    have "recall_lines (ledger_service demo_sql recall_service) u ms = recall_lines recall_service u ms" for u ms
      by (induction ms arbitrary: u) (simp_all add: recall_line_def ledger_service_def Let_def)
    then show ?thesis by (simp add: recall_text_def)
  qed
  then have "\<exists>block s'. retrieval_block (ledger_service demo_sql recall_service) demo_direct [] None (demo_ledger, 0) = (Inr (Some block), s')"
    using demo_search [of "conversation_stable_key demo_direct"]
    by (auto simp: retrieval_block_def demo_direct_fields catch_embed_def ledger_service_fields over_world_def recall_service_def quiet_fields
        bindp_def liftr_def vector_at_def getp_def or_limit_def over_ledger_def ledger_service_def demo_recall_text [unfolded recall_service_def]
        split: prod.splits)
  then obtain block s' where run: "retrieval_block (ledger_service demo_sql recall_service) demo_direct [] None (demo_ledger, 0) = (Inr (Some block), s')"
    by blast
  from group_recall_private [OF run] have "\<exists>ls. block = py_join [10] (recall_header # ls)" by blast
  with run show ?thesis by blast
qed

end
