(* ===== verification/Gateway.thy ===== *)
theory Gateway
  imports AgentWorker StreamConsumer
begin

text \<open>
  Delivery of replies, \<open>services/gateway.py\<close>: one message of the outbound stream is sent by
  the adapter of its platform and then marked as delivered. The adapters, the message table,
  the trace sink and the clock are fields of \<open>gateway\<close>. The locale \<open>delivery_ports\<close> says what
  these do to the log of accepted messages and to the delivery marks; it is interpreted on the
  message tables with the sandbox sender. The main results: a delivery that returns has sent
  its message once and stored the platform's id of it, nothing else is ever sent, simulated
  typing never exceeds eight seconds, and an entry of the outbound stream is settled only by
  such a delivery, by an earlier one, or on the dead-letter stream.
\<close>

section \<open>Typing\<close>

definition max_typing_delay_seconds :: real where
  "max_typing_delay_seconds = 8"

definition typing_delay_seconds :: "reply_plan \<Rightarrow> real" where
  "typing_delay_seconds plan =
     (if \<not> tp_enabled (rp_typing plan) then 0
      else let total_characters = sum_list (map length (rp_text_segments plan));
               delay = real_of_int (tp_initial_delay_ms (rp_typing plan)) / 1000
                         + real total_characters / tp_chars_per_second (rp_typing plan)
           in min delay max_typing_delay_seconds)"

section \<open>The service\<close>

record 's platform_sender =
  gs_send_reply :: "outbound_message \<Rightarrow> ('s, ustr) prog"
  gs_send_typing :: "ustr \<Rightarrow> ('s, unit) prog"

definition sandbox_message_id :: "outbound_message \<Rightarrow> ustr" where
  "sandbox_message_id m = lit ''sandbox:'' @ om_id m"

text \<open>What the trace sink is asked to record of a delivery.\<close>

record delivery_trace =
  dt_trace_id :: ustr
  dt_stage :: ustr
  dt_status :: ustr
  dt_duration_ms :: int
  dt_message_id :: ustr
  dt_attributes :: "(ustr, json) dict option"

record 's gateway =
  gw_qq :: "'s platform_sender option"
  gw_telegram :: "'s platform_sender option"
  gw_sandbox :: "'s platform_sender option"
  gw_mark_delivered :: "ustr \<Rightarrow> ustr \<Rightarrow> ('s, unit) prog"
  gw_traces :: "(delivery_trace \<Rightarrow> ('s, unit) prog) option"
  gw_monotonic :: "'s \<Rightarrow> real"
  gw_sleep :: "real \<Rightarrow> ('s, unit) prog"

text \<open>The names of the tasks that \<open>run\<close> starts, in order.\<close>

definition gateway_tasks :: "'s gateway \<Rightarrow> ustr list" where
  "gateway_tasks g =
     concat (map (\<lambda>(platform, adapter). case adapter of None \<Rightarrow> [] | Some a \<Rightarrow> [lit ''gateway-'' @ platform])
       [(lit ''qq'', gw_qq g), (lit ''telegram'', gw_telegram g), (lit ''sandbox'', gw_sandbox g)])
     @ [lit ''gateway-outbound'']"

definition gateway_adapter :: "'s gateway \<Rightarrow> platform \<Rightarrow> 's platform_sender option" where
  "gateway_adapter g p =
     (if p = QQ then gw_qq g else if p = TELEGRAM then gw_telegram g else gw_sandbox g)"

text \<open>\<open>_trace\<close>: a fault of the sink is logged and swallowed.\<close>

definition gateway_trace ::
  "'s gateway \<Rightarrow> outbound_message \<Rightarrow> string \<Rightarrow> int \<Rightarrow> (ustr, json) dict option \<Rightarrow> ('s, unit) prog" where
  "gateway_trace g m status duration attributes = (case gw_traces g of
       None \<Rightarrow> retp ()
     | Some sink \<Rightarrow> catchp (sink \<lparr>dt_trace_id = om_trace_id m, dt_stage = lit ''outbound.delivery'',
           dt_status = lit status, dt_duration_ms = duration, dt_message_id = om_id m,
           dt_attributes = attributes\<rparr>) (\<lambda>_. retp ()))"

text \<open>A trace whose duration runs from \<open>started\<close> to now.\<close>

definition trace_since ::
  "'s gateway \<Rightarrow> outbound_message \<Rightarrow> string \<Rightarrow> real \<Rightarrow> (ustr, json) dict option \<Rightarrow> ('s, unit) prog" where
  "trace_since g m status started attributes =
     bindp (getp (gw_monotonic g)) (\<lambda>now. gateway_trace g m status (elapsed_ms started now) attributes)"

definition complete_delivery :: "'s gateway \<Rightarrow> outbound_message \<Rightarrow> ustr \<Rightarrow> real \<Rightarrow> ('s, unit) prog" where
  "complete_delivery g m pid started =
     bindp (trace_since g m ''ok'' started
              (Some [(lit ''platform'', JStr (platform_value (om_platform m)))]))
       (\<lambda>_. gw_mark_delivered g (om_id m) pid)"

text \<open>Typing and the pause before the reply.\<close>

definition simulate_typing :: "'s gateway \<Rightarrow> 's platform_sender \<Rightarrow> outbound_message \<Rightarrow> ('s, unit) prog" where
  "simulate_typing g adapter m =
     (let delay = typing_delay_seconds (om_plan m)
      in if 0 < delay then bindp (gs_send_typing adapter (om_chat_id m)) (\<lambda>_. gw_sleep g delay) else retp ())"

text \<open>The send, with the trace of a fault before it is raised again.\<close>

definition traced_send :: "'s gateway \<Rightarrow> 's platform_sender \<Rightarrow> outbound_message \<Rightarrow> real \<Rightarrow> ('s, ustr) prog" where
  "traced_send g adapter m started =
     catchp (gs_send_reply adapter m)
       (\<lambda>err. bindp (trace_since g m ''error'' started (Some [(lit ''error_code'', JStr err)]))
          (\<lambda>_. raisep (Raised err)))"

text \<open>
  \<open>_deliver\<close>. The completion runs in a task of its own behind a shield and is awaited again
  when the handler is cancelled meanwhile, so it always runs to its own end: it is called
  directly.
\<close>

definition deliver_message :: "'s gateway \<Rightarrow> outbound_message \<Rightarrow> ('s, unit) prog" where
  "deliver_message g m =
     bindp (getp (gw_monotonic g)) (\<lambda>started.
       (case gateway_adapter g (om_platform m) of
          None \<Rightarrow> bindp (trace_since g m ''error'' started
                          (Some [(lit ''error_code'', JStr (lit ''adapter_missing''))]))
                   (\<lambda>_. raisep (Raised (lit ''RuntimeError'')))
        | Some adapter \<Rightarrow>
            bindp (simulate_typing g adapter m) (\<lambda>_.
            bindp (traced_send g adapter m started) (\<lambda>pid.
              complete_delivery g m pid started))))"

text \<open>The decoder \<open>OutboundMessage.model_validate_json\<close> is a parameter.\<close>

definition deliver_payload ::
  "'s gateway \<Rightarrow> (ustr \<Rightarrow> exn + outbound_message) \<Rightarrow> ustr \<Rightarrow> ('s, unit) prog" where
  "deliver_payload g decode payload = (case decode payload of
       Inl e \<Rightarrow> raisep e
     | Inr m \<Rightarrow> deliver_message g m)"

text \<open>Every relation that the ports keep is kept by a delivery.\<close>

lemma deliver_moves:
  assumes R: "reflp R" "transp R"
    and send: "\<And>p a m. gateway_adapter g p = Some a \<Longrightarrow> moves R (gs_send_reply a m)"
    and typing: "\<And>p a chat. gateway_adapter g p = Some a \<Longrightarrow> moves R (gs_send_typing a chat)"
    and sleep: "\<And>d. moves R (gw_sleep g d)"
    and sink: "\<And>f t. gw_traces g = Some f \<Longrightarrow> moves R (f t)"
    and mark: "\<And>mid pid. moves R (gw_mark_delivered g mid pid)"
  shows "moves R (deliver_payload g decode payload)"
proof (cases "decode payload")
  case (Inl e)
  then show ?thesis using R by (simp add: deliver_payload_def moves_raisep)
next
  case (Inr m)
  have trace: "moves R (trace_since g m status started attrs)" for status started attrs
    unfolding trace_since_def gateway_trace_def by (intro moves_intro R sink)
  have type: "moves R (simulate_typing g a m)" if "gateway_adapter g p = Some a" for a p
    unfolding simulate_typing_def Let_def by (intro moves_intro R sleep typing [OF that])
  have tsend: "moves R (traced_send g a m started)" if "gateway_adapter g p = Some a" for a p started
    unfolding traced_send_def by (intro moves_intro R trace send [OF that])
  have fin: "moves R (complete_delivery g m pid started)" for pid started
    unfolding complete_delivery_def by (intro moves_intro R trace mark)
  have "moves R (deliver_message g m)"
    unfolding deliver_message_def by (intro moves_intro R trace fin) (auto intro: type tsend)
  then show ?thesis using Inr by (simp add: deliver_payload_def)
qed

section \<open>The contract of the ports\<close>

text \<open>
  \<open>accepted\<close> are the messages the platforms took, each with the id they gave it; \<open>marks\<close> the
  delivery marks of the message table. A platform that raises has not taken the message.
  Traces, typing and pauses touch neither.
\<close>

locale delivery_ports =
  fixes g :: "'s gateway"
    and accepted :: "'s \<Rightarrow> (outbound_message \<times> ustr) list"
    and marks :: "'s \<Rightarrow> ustr \<Rightarrow> ustr option option"
  assumes send_accepts: "gateway_adapter g p = Some a \<Longrightarrow> gs_send_reply a m s = (Inr pid, s') \<Longrightarrow>
      accepted s' = accepted s @ [(m, pid)]"
    and send_refuses: "gateway_adapter g p = Some a \<Longrightarrow> gs_send_reply a m s = (Inl e, s') \<Longrightarrow>
      accepted s' = accepted s"
    and send_marks: "gateway_adapter g p = Some a \<Longrightarrow> moves (same_view marks) (gs_send_reply a m)"
    and typing_frame: "gateway_adapter g p = Some a \<Longrightarrow>
      moves (same_view (\<lambda>s. (accepted s, marks s))) (gs_send_typing a chat)"
    and sleep_frame: "moves (same_view (\<lambda>s. (accepted s, marks s))) (gw_sleep g d)"
    and trace_frame: "gw_traces g = Some sink \<Longrightarrow> moves (same_view (\<lambda>s. (accepted s, marks s))) (sink t)"
    and mark_frame: "moves (same_view accepted) (gw_mark_delivered g mid pid)"
    and mark_sets: "gw_mark_delivered g mid pid s = (Inr (), s') \<Longrightarrow>
      marks s' mid = map_option (\<lambda>_. Some pid) (marks s mid)"
    and mark_others: "gw_mark_delivered g mid pid s = (r, s') \<Longrightarrow> i \<noteq> mid \<Longrightarrow> marks s' i = marks s i"
    and mark_fails: "gw_mark_delivered g mid pid s = (Inl e, s') \<Longrightarrow> marks s' = marks s"
begin

abbreviation ledger :: "'s \<Rightarrow> (outbound_message \<times> ustr) list \<times> (ustr \<Rightarrow> ustr option option)" where
  "ledger s \<equiv> (accepted s, marks s)"

lemma trace_since_frame: "moves (same_view ledger) (trace_since g m status started attrs)"
  unfolding trace_since_def gateway_trace_def
  by (intro moves_intro same_view_refl same_view_trans) (auto intro: trace_frame)

lemma simulate_typing_frame:
  "gateway_adapter g p = Some a \<Longrightarrow> moves (same_view ledger) (simulate_typing g a m)"
  unfolding simulate_typing_def Let_def
  by (intro moves_intro same_view_refl same_view_trans) (auto intro: typing_frame sleep_frame)

lemma ledger_frame:
  assumes "moves (same_view ledger) p" and "p s = (r, s')"
  shows "accepted s' = accepted s \<and> marks s' = marks s"
  using movesD [OF assms] by (simp add: same_view_def)

text \<open>What a delivery adds to the log: nothing, or the message it is for, once.\<close>

definition delivered :: "'s \<Rightarrow> outbound_message \<Rightarrow> ustr \<Rightarrow> 's \<Rightarrow> bool" where
  "delivered s m pid s' \<longleftrightarrow> accepted s' = accepted s @ [(m, pid)] \<and>
     (\<exists>a s1 s2. gateway_adapter g (om_platform m) = Some a \<and> gs_send_reply a m s1 = (Inr pid, s2)) \<and>
     marks s' = (\<lambda>i. if i = om_id m then map_option (\<lambda>_. Some pid) (marks s i) else marks s i)"

lemma complete_outcome:
  assumes "complete_delivery g m pid started s = (r, s')"
  shows "accepted s' = accepted s \<and>
    (case r of Inl e \<Rightarrow> marks s' = marks s
     | Inr u \<Rightarrow> marks s' = (\<lambda>i. if i = om_id m then map_option (\<lambda>_. Some pid) (marks s i) else marks s i))"
  using assms unfolding complete_delivery_def
proof (cases rule: bindp_cases)
  case (raises e)
  then show ?thesis using ledger_frame [OF trace_since_frame raises(1)] by simp
next
  case (returned u s1)
  have f: "accepted s1 = accepted s" "marks s1 = marks s"
    using ledger_frame [OF trace_since_frame returned(1)] by simp_all
  have a: "accepted s' = accepted s1"
    using movesD [OF mark_frame returned(2)] by (simp add: same_view_def)
  show ?thesis
  proof (cases r)
    case (Inl e)
    then show ?thesis using mark_fails returned(2) f a by auto
  next
    case (Inr v)
    then have "marks s' (om_id m) = map_option (\<lambda>_. Some pid) (marks s1 (om_id m))"
      using mark_sets returned(2) by simp
    moreover have "\<And>i. i \<noteq> om_id m \<Longrightarrow> marks s' i = marks s1 i" using mark_others returned(2) by blast
    ultimately show ?thesis using f a Inr by (auto simp: fun_eq_iff)
  qed
qed

lemma traced_send_outcome:
  assumes "gateway_adapter g p = Some a" and "traced_send g a m started s = (r, s')"
  shows "marks s' = marks s \<and>
    (case r of Inl e \<Rightarrow> accepted s' = accepted s
     | Inr pid \<Rightarrow> accepted s' = accepted s @ [(m, pid)] \<and> (\<exists>s2. gs_send_reply a m s = (Inr pid, s2)))"
proof -
  obtain q s1 where q: "gs_send_reply a m s = (q, s1)" by fastforce
  have mk: "marks s1 = marks s"
    using movesD [OF send_marks [OF assms(1)] q] by (simp add: same_view_def)
  show ?thesis
  proof (cases q)
    case (Inr pid)
    then show ?thesis using assms q mk send_accepts [OF assms(1)] by (auto simp: traced_send_def catchp_def)
  next
    case (Inl e)
    then have acc: "accepted s1 = accepted s" using send_refuses [OF assms(1)] q by blast
    show ?thesis
    proof (cases e)
      case Cancelled
      then show ?thesis using assms q mk acc Inl by (auto simp: traced_send_def catchp_def)
    next
      case (Raised n)
      let ?h = "bindp (trace_since g m ''error'' started (Some [(lit ''error_code'', JStr n)]))
        (\<lambda>_. raisep (Raised n)) :: ('s, ustr) prog"
      have "?h s1 = (r, s')" using assms(2) q Inl Raised by (simp add: traced_send_def catchp_def)
      then have "accepted s' = accepted s1 \<and> marks s' = marks s1 \<and> (\<exists>x. r = Inl x)"
        by (cases rule: bindp_cases) (use ledger_frame [OF trace_since_frame] in auto)
      then show ?thesis using acc mk by auto
    qed
  qed
qed

lemma deliver_outcome:
  assumes run: "deliver_message g m s = (r, s')"
  shows "(\<exists>e. r = Inl e \<and> accepted s' = accepted s \<and> marks s' = marks s) \<or>
    (\<exists>pid e. r = Inl e \<and> accepted s' = accepted s @ [(m, pid)] \<and> marks s' = marks s) \<or>
    (\<exists>pid. r = Inr () \<and> delivered s m pid s')"
proof -
  let ?t = "gw_monotonic g s"
  show ?thesis
  proof (cases "gateway_adapter g (om_platform m)")
    case None
    let ?p = "bindp (trace_since g m ''error'' ?t (Some [(lit ''error_code'', JStr (lit ''adapter_missing''))]))
      (\<lambda>_. raisep (Raised (lit ''RuntimeError''))) :: ('s, unit) prog"
    have "?p s = (r, s')" using run None by (simp add: deliver_message_def bindp_def getp_def)
    then show ?thesis
      by (cases rule: bindp_cases) (use ledger_frame [OF trace_since_frame] in auto)
  next
    case (Some a)
    let ?p = "bindp (simulate_typing g a m) (\<lambda>_. bindp (traced_send g a m ?t)
      (\<lambda>pid. complete_delivery g m pid ?t))"
    have "?p s = (r, s')" using run Some by (simp add: deliver_message_def bindp_def getp_def)
    then show ?thesis
    proof (cases rule: bindp_cases)
      case (raises e)
      then show ?thesis using ledger_frame [OF simulate_typing_frame [OF Some]] by auto
    next
      case ty: (returned u s1)
      have f: "accepted s1 = accepted s" "marks s1 = marks s"
        using ledger_frame [OF simulate_typing_frame [OF Some] ty(1)] by simp_all
      from ty(2) show ?thesis
      proof (cases rule: bindp_cases)
        case (raises e)
        then show ?thesis using traced_send_outcome [OF Some raises(1)] f by auto
      next
        case snt: (returned pid s2)
        have g: "accepted s2 = accepted s @ [(m, pid)]" "marks s2 = marks s" "\<exists>s3. gs_send_reply a m s1 = (Inr pid, s3)"
          using traced_send_outcome [OF Some snt(1)] f by auto
        show ?thesis using complete_outcome [OF snt(2)] g Some
          by (cases r) (auto simp: delivered_def)
      qed
    qed
  qed
qed

lemma deliver_payload_outcome:
  assumes "deliver_payload g decode payload s = (r, s')"
  shows "accepted s' = accepted s \<or>
    (\<exists>m pid. decode payload = Inr m \<and> accepted s' = accepted s @ [(m, pid)])"
    and "r = Inr () \<Longrightarrow> \<exists>m pid. decode payload = Inr m \<and> delivered s m pid s'"
  using assms by (auto simp: deliver_payload_def delivered_def dest!: deliver_outcome split: sum.splits)

end

section \<open>The gateway over the message tables\<close>

text \<open>
  The world of a gateway: the transport of the outbound stream, extended with the message
  tables, the log of what the sandbox platform took, the trace rows and a clock. The real
  platforms' adapters are arguments where a result is about them.
\<close>

record gateway_world = mem_backend +
  ga_db :: message_db
  ga_accepted :: "(outbound_message \<times> ustr) list"
  ga_traces :: "delivery_trace list"

definition sandbox_sender :: "gateway_world platform_sender" where
  "sandbox_sender = \<lparr>gs_send_reply = (\<lambda>m s. (Inr (sandbox_message_id m),
       s\<lparr>ga_accepted := ga_accepted s @ [(m, sandbox_message_id m)]\<rparr>)),
     gs_send_typing = (\<lambda>chat. retp ())\<rparr>"

definition table_mark :: "ustr \<Rightarrow> ustr \<Rightarrow> (gateway_world, unit) prog" where
  "table_mark mid pid s = (let (r, db) = mark_delivered mid pid (ga_db s) in (r, s\<lparr>ga_db := db\<rparr>))"

definition stored_mark :: "gateway_world \<Rightarrow> ustr \<Rightarrow> ustr option option" where
  "stored_mark s i = map_option mr_platform_id (find (\<lambda>r. mr_id r = i) (db_messages (ga_db s)))"

definition sandbox_gateway :: "gateway_world gateway" where
  "sandbox_gateway = \<lparr>gw_qq = None, gw_telegram = None, gw_sandbox = Some sandbox_sender,
     gw_mark_delivered = table_mark,
     gw_traces = Some (\<lambda>t s. (Inr (), s\<lparr>ga_traces := ga_traces s @ [t]\<rparr>)),
     gw_monotonic = mb_now, gw_sleep = (\<lambda>d s. (Inr (), s\<lparr>mb_now := mb_now s + d\<rparr>))\<rparr>"

lemma find_marked:
  "find (\<lambda>r. mr_id r = i) (map (\<lambda>r. if mr_id r = mid then r\<lparr>mr_platform_id := Some pid\<rparr> else r) rows)
   = map_option (\<lambda>r. if mr_id r = mid then r\<lparr>mr_platform_id := Some pid\<rparr> else r) (find (\<lambda>r. mr_id r = i) rows)"
  by (induction rows) auto

lemma find_id: "find (\<lambda>r. mr_id r = i) rows = Some r \<Longrightarrow> mr_id r = i"
  by (induction rows) (auto split: if_splits)

lemma table_mark_ok:
  assumes "table_mark mid pid s = (Inr (), s')"
  shows "stored_mark s' i = (if i = mid then map_option (\<lambda>_. Some pid) (stored_mark s i) else stored_mark s i)"
proof -
  have db: "db_messages (ga_db s') = map (\<lambda>r. if mr_id r = mid then r\<lparr>mr_platform_id := Some pid\<rparr> else r) (db_messages (ga_db s))"
    using assms by (auto simp: table_mark_def mark_delivered_def split: if_splits)
  show ?thesis
  proof (cases "find (\<lambda>r. mr_id r = i) (db_messages (ga_db s))")
    case None
    then show ?thesis by (auto simp: stored_mark_def db find_marked)
  next
    case (Some r)
    then show ?thesis using find_id [OF Some] by (auto simp: stored_mark_def db find_marked)
  qed
qed

lemma table_mark_fault: "table_mark mid pid s = (Inl e, s') \<Longrightarrow> s' = s"
  by (auto simp: table_mark_def mark_delivered_def split: if_splits)

lemma sandbox_gateway_simps [simp]:
  "gateway_adapter sandbox_gateway p = Some a \<longleftrightarrow> p = SANDBOX \<and> a = sandbox_sender"
  "gw_mark_delivered sandbox_gateway = table_mark"
  "gw_sleep sandbox_gateway = (\<lambda>d s. (Inr (), s\<lparr>mb_now := mb_now s + d\<rparr>))"
  "gw_traces sandbox_gateway = Some (\<lambda>t s. (Inr (), s\<lparr>ga_traces := ga_traces s @ [t]\<rparr>))"
  by (cases p; auto simp: gateway_adapter_def sandbox_gateway_def)
     (simp_all add: sandbox_gateway_def)

interpretation sandbox: delivery_ports sandbox_gateway ga_accepted stored_mark
proof
  show "ga_accepted s' = ga_accepted s @ [(m, pid)]"
    if "gateway_adapter sandbox_gateway p = Some a" "gs_send_reply a m s = (Inr pid, s')" for p a m s pid s'
    using that by (auto simp: sandbox_sender_def)
  show "ga_accepted s' = ga_accepted s"
    if "gateway_adapter sandbox_gateway p = Some a" "gs_send_reply a m s = (Inl e, s')" for p a m s e s'
    using that by (auto simp: sandbox_sender_def)
  show "moves (same_view stored_mark) (gs_send_reply a m)"
    if "gateway_adapter sandbox_gateway p = Some a" for p a m
    using that by (auto simp: sandbox_sender_def moves_def same_view_def stored_mark_def fun_eq_iff)
  show "moves (same_view (\<lambda>s. (ga_accepted s, stored_mark s))) (gs_send_typing a chat)"
    if "gateway_adapter sandbox_gateway p = Some a" for p a chat
    using that by (auto simp: sandbox_sender_def moves_def same_view_def)
  show "moves (same_view (\<lambda>s. (ga_accepted s, stored_mark s))) (gw_sleep sandbox_gateway d)" for d
    by (auto simp: moves_def same_view_def stored_mark_def fun_eq_iff)
  show "moves (same_view (\<lambda>s. (ga_accepted s, stored_mark s))) (sink t)"
    if "gw_traces sandbox_gateway = Some sink" for sink t
  proof -
    have "sink = (\<lambda>t s. (Inr (), s\<lparr>ga_traces := ga_traces s @ [t]\<rparr>))" using that by simp
    then show ?thesis by (simp add: moves_def same_view_def stored_mark_def fun_eq_iff)
  qed
  show "moves (same_view ga_accepted) (gw_mark_delivered sandbox_gateway mid pid)" for mid pid
    by (auto simp: moves_def same_view_def table_mark_def split: prod.split)
  show "stored_mark s' mid = map_option (\<lambda>_. Some pid) (stored_mark s mid)"
    if "gw_mark_delivered sandbox_gateway mid pid s = (Inr (), s')" for mid pid s s'
    using table_mark_ok [of mid pid s s' mid] that by simp
  show "stored_mark s' i = stored_mark s i"
    if "gw_mark_delivered sandbox_gateway mid pid s = (r, s')" "i \<noteq> mid" for mid pid s r s' i
    using that table_mark_ok [of mid pid s s' i] table_mark_fault [of mid pid s _ s'] by (cases r) auto
  show "stored_mark s' = stored_mark s"
    if "gw_mark_delivered sandbox_gateway mid pid s = (Inl e, s')" for mid pid s e s'
    using table_mark_fault [of mid pid s e s'] that by simp
qed

lemma sandbox_keeps_owed:
  "keeps_owed (\<lambda>s. mem_pend s st grp) (\<lambda>a p. deliver_payload sandbox_gateway decode p)"
proof -
  let ?R = "same_view (\<lambda>s :: gateway_world. mem_pend s st grp)"
  have pend: "mem_pend (s\<lparr>ga_db := d\<rparr>) = mem_pend s" "mem_pend (s\<lparr>ga_accepted := a\<rparr>) = mem_pend s"
    "mem_pend (s\<lparr>ga_traces := t\<rparr>) = mem_pend s" "mem_pend (s\<lparr>mb_now := n\<rparr>) = mem_pend s"
    for s :: gateway_world and d a t n by (simp_all add: mem_pend_def fun_eq_iff)
  have "moves ?R (deliver_payload sandbox_gateway decode p)" for p
  proof (rule deliver_moves)
    show "moves ?R (gs_send_reply a m)" if "gateway_adapter sandbox_gateway q = Some a" for q a m
      using that by (simp add: moves_def same_view_def sandbox_sender_def pend)
    show "moves ?R (gs_send_typing a chat)" if "gateway_adapter sandbox_gateway q = Some a" for q a chat
      using that by (simp add: moves_def same_view_def sandbox_sender_def)
    show "moves ?R (gw_sleep sandbox_gateway d)" for d by (simp add: moves_def same_view_def pend)
    show "moves ?R (gw_mark_delivered sandbox_gateway mid pid)" for mid pid
      by (simp add: moves_def same_view_def table_mark_def pend split: prod.split)
    show "moves ?R (f t)" if "gw_traces sandbox_gateway = Some f" for f t
    proof -
      have "f = (\<lambda>t s. (Inr (), s\<lparr>ga_traces := ga_traces s @ [t]\<rparr>))" using that by simp
      then show ?thesis by (simp add: moves_def same_view_def pend)
    qed
  qed simp_all
  then show ?thesis by (simp add: keeps_owed_def moves_def same_view_def)
qed

text \<open>The transport leaves the log and the tables alone, and the log only grows in a pass.\<close>

lemma gateway_transport_frame:
  "transport_keeps (same_view (\<lambda>s :: gateway_world. (ga_accepted s, ga_db s))) mem_ops"
  by (auto simp: transport_keeps_def moves_def same_view_def mem_ops_def liftp_def mem_add_def mem_ensure_group_def
      mem_read_new_def mem_claim_stale_def mem_delivery_count_def mem_ack_def mem_acquire_once_def put_group_def Let_def
      split: prod.split option.split)

definition takes_more :: "gateway_world \<Rightarrow> gateway_world \<Rightarrow> bool" where
  "takes_more s s' \<longleftrightarrow> (\<exists>more. ga_accepted s' = ga_accepted s @ more)"

lemma takes_more_order: "reflp takes_more" "transp takes_more"
  by (auto simp: takes_more_def reflp_def transp_def)

lemma takes_more_transport: "transport_keeps takes_more mem_ops"
proof -
  have weaken: "moves takes_more m" if "moves (same_view (\<lambda>s :: gateway_world. (ga_accepted s, ga_db s))) m" for m :: "(gateway_world, 'a) prog"
    using that by (auto simp: moves_def same_view_def takes_more_def)
  show ?thesis
    using transport_keepsD [OF gateway_transport_frame]
    by (auto simp: transport_keeps_def takes_more_order intro!: weaken)
qed

lemma takes_more_deliver: "moves takes_more (deliver_payload sandbox_gateway decode p)"
  by (rule movesI) (auto simp: takes_more_def dest!: sandbox.deliver_payload_outcome(1))

text \<open>What a visit that settles its entry did to the log and the delivery marks.\<close>

definition entry_settled ::
  "consumer_config \<Rightarrow> (ustr \<Rightarrow> exn + outbound_message) \<Rightarrow> dedupe_key option \<Rightarrow> gateway_world visit \<Rightarrow> bool" where
  "entry_settled cfg decode dedupe v = (case v of (i, payload, a, s, s') \<Rightarrow>
     (\<exists>m. decode payload = Inr m \<and> ga_accepted s' = ga_accepted s @ [(m, sandbox_message_id m)] \<and>
        stored_mark s' (om_id m) = map_option (\<lambda>_. Some (sandbox_message_id m)) (stored_mark s (om_id m))) \<or>
     (\<exists>key. visit_key dedupe payload = Inr (Some key) \<and> completed_key cfg key \<in> mem_finished s \<and>
        ga_accepted s' = ga_accepted s) \<or>
     ((cc_max_attempts cfg < a \<or> (\<exists>e. visit_key dedupe payload = Inl (Raised e))) \<and>
        payload \<in> mem_stored s' (cc_dead_letter_stream cfg) \<and> ga_accepted s' = ga_accepted s))"

lemma settles_entry:
  assumes "settles mem_finished mem_stored cfg mem_ops (\<lambda>a p. deliver_payload sandbox_gateway decode p) dedupe (i, payload, a, s, s')"
  shows "entry_settled cfg decode dedupe (i, payload, a, s, s')"
proof -
  note frame = transport_keepsD [OF gateway_transport_frame, unfolded moves_def same_view_def, rule_format]
  have ack: "ga_accepted s' = ga_accepted t \<and> ga_db s' = ga_db t"
    if "so_ack mem_ops (cc_stream cfg) (cc_group cfg) i t = (r, s')" for t r
    using frame(8) [of "cc_stream cfg" "cc_group cfg" i t] that by simp
  from assms consider (handled) key h s1 where "deliver_payload sandbox_gateway decode payload s = (Inr (), h)"
      "case key of None \<Rightarrow> s1 = h | Some k \<Rightarrow> completed_key cfg k \<notin> mem_finished s \<and>
         (\<exists>v. so_acquire_once mem_ops (completed_key cfg k) (cc_dedupe_ttl_seconds cfg) h = (Inr v, s1))"
      "so_ack mem_ops (cc_stream cfg) (cc_group cfg) i s1 = (Inr (), s')"
    | (skipped) k where "visit_key dedupe payload = Inr (Some k)" "completed_key cfg k \<in> mem_finished s"
      "so_ack mem_ops (cc_stream cfg) (cc_group cfg) i s = (Inr (), s')"
    | (dead) x s1 where "cc_max_attempts cfg < a \<or> (\<exists>e. visit_key dedupe payload = Inl (Raised e))"
      "so_add mem_ops (cc_dead_letter_stream cfg) payload (cc_dead_letter_maxlen cfg) s = (Inr x, s1)"
      "so_ack mem_ops (cc_stream cfg) (cc_group cfg) i s1 = (Inr (), s')" "payload \<in> mem_stored s' (cc_dead_letter_stream cfg)"
    unfolding settles_def prod.case by blast
  then show ?thesis
  proof cases
    case handled
    have "ga_accepted s1 = ga_accepted h \<and> ga_db s1 = ga_db h"
    proof (cases key)
      case (Some k)
      then obtain v where "so_acquire_once mem_ops (completed_key cfg k) (cc_dedupe_ttl_seconds cfg) h = (Inr v, s1)"
        using handled(2) by auto
      then show ?thesis using frame(9) [of "completed_key cfg k" "cc_dedupe_ttl_seconds cfg" h] by simp
    qed (use handled(2) in simp)
    then have same: "ga_accepted s' = ga_accepted h" "stored_mark s' = stored_mark h"
      using ack [OF handled(3)] by (simp_all add: stored_mark_def fun_eq_iff)
    from sandbox.deliver_payload_outcome(2) [OF handled(1)] obtain m pid where m: "decode payload = Inr m"
      "sandbox.delivered s m pid h" by blast
    have "pid = sandbox_message_id m" using m(2) by (auto simp: sandbox.delivered_def sandbox_sender_def)
    then show ?thesis using m same by (auto simp: entry_settled_def sandbox.delivered_def)
  next
    case skipped
    then show ?thesis using ack [OF skipped(3)] by (auto simp: entry_settled_def)
  next
    case dead
    have "ga_accepted s1 = ga_accepted s"
      using frame(3) [of "cc_dead_letter_stream cfg" payload "cc_dead_letter_maxlen cfg" s] dead(2) by simp
    then show ?thesis using ack [OF dead(3)] dead(1,4) by (auto simp: entry_settled_def)
  qed
qed

lemma bind_raise: "(\<And>x s. \<exists>e. fst (f x s) = Inl e) \<Longrightarrow> \<exists>e. fst (bindp p f s) = Inl (e :: exn)"
  by (auto simp: bindp_def split: prod.split sum.split)

section \<open>Properties\<close>

text \<open>
  C3: an entry of the outbound stream is never dropped undelivered: an entry that was pending
  and still in the stream before a pass of the gateway's consumer, and is settled by it, was
  visited in the pass. From the state before that visit to the state after it, its message
  was taken by the platform exactly once and the platform's id of it stored in its row; or
  its completed key was in force and nothing was sent; or its payload was put on the
  dead-letter stream and nothing was sent, for an entry past its last attempt or one whose
  dedupe key cannot be computed. What was taken in the visit is in the log at the end.
\<close>

theorem outbound_entries_delivered:
  assumes "0 < cc_dead_letter_maxlen cfg"
    and "process_available cfg mem_ops (\<lambda>a p. deliver_payload sandbox_gateway decode p) dedupe rs = (r, rs')"
    and "i \<in> mem_pend (snd rs) (cc_stream cfg) (cc_group cfg)"
    and "i \<notin> mem_pend (snd rs') (cc_stream cfg) (cc_group cfg)"
    and "i \<in> mem_held (snd rs) (cc_stream cfg)"
  shows "\<exists>payload a s s'. (i, payload, a, s, s') \<in>
        set (pass_visits cfg mem_ops (\<lambda>a p. deliver_payload sandbox_gateway decode p) dedupe rs) \<and>
      entry_settled cfg decode dedupe (i, payload, a, s, s') \<and>
      takes_more (snd rs) s \<and> takes_more s' (snd rs')"
proof -
  let ?h = "\<lambda>a p. deliver_payload sandbox_gateway decode p"
  obtain v where v: "v \<in> set (pass_visits cfg mem_ops ?h dedupe rs)" "fst v = i"
    "settles mem_finished mem_stored cfg mem_ops ?h dedupe v"
    using mem.process_available_settles [OF sandbox_keeps_owed assms] by blast
  obtain payload a s s' where e: "v = (i, payload, a, s, s')" using v(2) by (cases v) auto
  have between: "takes_more (snd rs) s" "takes_more s' (snd rs')"
    using pass_visits_between [OF takes_more_transport takes_more_deliver assms(2)] v(1) unfolding e by blast+
  from settles_entry [OF v(3) [unfolded e]] v(1) between show ?thesis unfolding e by blast
qed

definition demo_delivery_message :: outbound_message where
  "demo_delivery_message = \<lparr>om_id = [109], om_platform = SANDBOX, om_connection_id = [99], om_chat_kind = DIRECT,
     om_chat_id = [100], om_plan = \<lparr>rp_text_segments = [[104, 105]], rp_media_segments = [], rp_citations = [],
       rp_meme_intent = None, rp_typing = \<lparr>tp_enabled = True, tp_initial_delay_ms = 500, tp_chars_per_second = 2\<rparr>\<rparr>,
     om_reply_to = None, om_trace_id = [116]\<rparr>"

text \<open>One pending entry on the outbound stream, the row of its message in the table.\<close>

definition demo_gateway_world :: gateway_world where
  "demo_gateway_world = \<lparr>mb_streams = [(lit ''s'', [(1, [112])])], mb_sequence = [(lit ''s'', 1)],
      mb_groups = [((lit ''s'', lit ''g''),
        \<lparr>next_index = 1, pending = [(entry_id 1, \<lparr>pe_consumer = lit ''c'', pe_count = 1, pe_since = 0\<rparr>)]\<rparr>)],
      mb_once = [], mb_counters = [], mb_now = 1,
      ga_db = \<lparr>db_conversations = [], db_messages = [\<lparr>mr_id = [109], mr_conversation = [1], mr_direction = [2],
         mr_platform_id = None, mr_sender = [3], mr_segments = JNull, mr_occurred_at = 0, mr_raw = None, mr_trace = None\<rparr>],
         db_uuid = (\<lambda>n. [n]), db_drawn = 0\<rparr>,
      ga_accepted = [], ga_traces = []\<rparr>"

definition demo_outbound_decode :: "ustr \<Rightarrow> exn + outbound_message" where
  "demo_outbound_decode p = (if p = [112] then Inr demo_delivery_message else Inl validation_error)"

lemmas delivery_defs = deliver_payload_def deliver_message_def simulate_typing_def traced_send_def
  complete_delivery_def trace_since_def gateway_trace_def typing_delay_seconds_def
  max_typing_delay_seconds_def getp_def

lemma demo_delivery:
  "mem_pend (snd (snd (process_available StreamConsumer.demo_config mem_ops
     (\<lambda>a p. deliver_payload sandbox_gateway demo_outbound_decode p) None (True, demo_gateway_world)))) (lit ''s'') (lit ''g'') = {}"
  by (simp add: pass_defs demo_config_def demo_gateway_world_def demo_outbound_decode_def demo_delivery_message_def delivery_defs
      sandbox_gateway_def gateway_adapter_def sandbox_sender_def table_mark_def mark_delivered_def mem_pend_def)

theorem outbound_entries_delivered_witness:
  "\<exists>payload a s s' r rs'. process_available StreamConsumer.demo_config mem_ops
        (\<lambda>a p. deliver_payload sandbox_gateway demo_outbound_decode p) None (True, demo_gateway_world) = (r, rs') \<and>
      (entry_id 1, payload, a, s, s') \<in> set (pass_visits StreamConsumer.demo_config mem_ops
        (\<lambda>a p. deliver_payload sandbox_gateway demo_outbound_decode p) None (True, demo_gateway_world)) \<and>
      entry_settled StreamConsumer.demo_config demo_outbound_decode None (entry_id 1, payload, a, s, s') \<and>
      takes_more demo_gateway_world s \<and> takes_more s' (snd rs')"
proof -
  obtain r rs' where run: "process_available StreamConsumer.demo_config mem_ops
      (\<lambda>a p. deliver_payload sandbox_gateway demo_outbound_decode p) None (True, demo_gateway_world) = (r, rs')" by (meson surj_pair)
  have out: "entry_id 1 \<notin> mem_pend (snd rs') (cc_stream StreamConsumer.demo_config) (cc_group StreamConsumer.demo_config)"
  proof -
    have "mem_pend (snd rs') (lit ''s'') (lit ''g'') = {}" using demo_delivery unfolding run by simp
    then show ?thesis by (simp add: demo_config_def)
  qed
  have pend: "entry_id 1 \<in> mem_pend (snd (True, demo_gateway_world)) (cc_stream StreamConsumer.demo_config) (cc_group StreamConsumer.demo_config)"
    and held: "entry_id 1 \<in> mem_held (snd (True, demo_gateway_world)) (cc_stream StreamConsumer.demo_config)"
    and len: "0 < cc_dead_letter_maxlen StreamConsumer.demo_config"
    by (simp_all add: demo_config_def demo_gateway_world_def mem_pend_def mem_held_def dict_get_def)
  from outbound_entries_delivered [OF len run pend out held] run show ?thesis by auto
qed

text \<open>
  whatever the adapters do, a delivery that is rejected by the platform, or has no
  adapter, raises, so that its entry stays pending.
\<close>

theorem undelivered_raises:
  fixes g :: "'s gateway"
  assumes "\<And>a m s. gateway_adapter g (om_platform m) = Some a \<Longrightarrow> \<exists>e s'. gs_send_reply a m s = (Inl e, s')"
  shows "\<exists>e. fst (deliver_payload g decode payload s) = Inl e"
proof -
  have send: "\<exists>e. fst (bindp (traced_send g a m started) f s) = Inl e"
    if ad: "gateway_adapter g (om_platform m) = Some a" for a m started s and f :: "ustr \<Rightarrow> ('s, unit) prog"
  proof -
    obtain e s1 where e: "gs_send_reply a m s = (Inl e, s1)" using assms [OF ad] by blast
    then show ?thesis
      by (cases e) (auto simp: traced_send_def catchp_def bindp_def split: prod.split sum.split)
  qed
  have "\<exists>e. fst (deliver_message g m s) = Inl e" for m s
    unfolding deliver_message_def
    by (intro bind_raise) (auto split: option.split intro!: bind_raise send)
  then show ?thesis by (cases "decode payload") (auto simp: deliver_payload_def)
qed

definition refusing_gateway :: "gateway_world gateway" where
  "refusing_gateway = sandbox_gateway\<lparr>gw_qq := Some \<lparr>gs_send_reply = (\<lambda>m. raisep (Raised (lit ''DeliveryError''))),
     gs_send_typing = (\<lambda>chat. retp ())\<rparr>, gw_sandbox := None\<rparr>"

theorem undelivered_raises_witness:
  "\<exists>e. fst (deliver_payload refusing_gateway (\<lambda>p. Inr (demo_delivery_message\<lparr>om_platform := QQ\<rparr>)) [112] demo_gateway_world) = Inl e"
proof (rule undelivered_raises)
  show "\<exists>e s'. gs_send_reply a m s = (Inl e, s')" if "gateway_adapter refusing_gateway (om_platform m) = Some a" for a m s
    using that by (cases "om_platform m") (auto simp: gateway_adapter_def refusing_gateway_def sandbox_gateway_def)
qed

text \<open>
  simulated typing never holds a reply back for more than eight seconds, and never for a
  negative time, for every plan the contracts admit.
\<close>

theorem typing_delay_bounded:
  assumes "0 \<le> tp_initial_delay_ms (rp_typing plan)" and "0 < tp_chars_per_second (rp_typing plan)"
  shows "0 \<le> typing_delay_seconds plan \<and> typing_delay_seconds plan \<le> 8"
  using assms by (simp add: typing_delay_seconds_def max_typing_delay_seconds_def Let_def)

theorem typing_delay_bounded_witness: "0 \<le> typing_delay_seconds (om_plan demo_delivery_message) \<and> typing_delay_seconds (om_plan demo_delivery_message) \<le> 8"
  by (rule typing_delay_bounded) (simp_all add: demo_delivery_message_def)

end
