(* ===== verification/TelegramBot.thy ===== *)
theory TelegramBot
  imports AgentWorker
begin

text \<open>
  The Telegram transport, \<open>adapters/telegram/transport.py\<close>: the long poll for updates, their
  publication on the ingest stream, and the calls that send a reply. HTTP, the stream and the
  clock are fields of \<open>telegram_bot\<close>. The locale \<open>update_service\<close> states what the Bot API
  documents of \<open>getUpdates\<close>: it answers with the oldest updates it holds and forgets only those
  below the offset. The main result: along the endless poll loop no update is lost, neither one
  that was waiting nor one that arrives meanwhile, also when requests, publications or pauses
  fail and when the loop ends with an exception.
\<close>

section \<open>Requests\<close>

record http_reply =
  hy_status :: int
  hy_body :: "json option"

record 's telegram_bot =
  tb_token :: ustr
  tb_connection_id :: ustr
  tb_meme_intents :: "(ustr, ustr) dict"
  tb_api_base_url :: ustr
  tb_poll_timeout :: real
  tb_reconnect_initial :: real
  tb_reconnect_max :: real
  tb_get :: "ustr \<Rightarrow> (ustr, json) dict \<Rightarrow> real \<Rightarrow> ('s, http_reply) prog"
  tb_post :: "ustr \<Rightarrow> (ustr, json) dict \<Rightarrow> real \<Rightarrow> ('s, http_reply) prog"
  tb_publish :: "inbound_event \<Rightarrow> ('s, unit) prog"
  tb_sleep :: "real \<Rightarrow> ('s, unit) prog"
  tb_uuid :: "('s, ustr) prog"
  tb_timestamp_fault :: "int \<Rightarrow> ustr"
  tb_casefold :: "ustr \<Rightarrow> ustr"

definition delivery_error :: exn where
  "delivery_error = Raised (lit ''DeliveryError'')"

definition method_url :: "'s telegram_bot \<Rightarrow> ustr \<Rightarrow> ustr" where
  "method_url t method = tb_api_base_url t @ lit ''/bot'' @ tb_token t @ lit ''/'' @ method"

text \<open>\<open>raise_for_status\<close>, the decoding of the body and the check of its \<open>ok\<close>.\<close>

definition checked_body :: "http_reply \<Rightarrow> exn + (ustr, json) dict" where
  "checked_body r =
     (if \<not> (200 \<le> hy_status r \<and> hy_status r < 300) then Inl (Raised (lit ''HTTPStatusError''))
      else (case hy_body r of None \<Rightarrow> Inl (Raised (lit ''JSONDecodeError''))
        | Some body \<Rightarrow> let payload = dict_or (as_string_mapping body)
            in if payload_get payload (lit ''ok'') \<noteq> JBool True then Inl delivery_error else Inr payload))"

definition telegram_request :: "'s telegram_bot \<Rightarrow> ustr \<Rightarrow> (ustr, json) dict \<Rightarrow> ('s, json list) prog" where
  "telegram_request t method params =
     bindp (tb_get t (method_url t method) params (tb_poll_timeout t + 10)) (\<lambda>r.
       of_result (bindr (checked_body r) (\<lambda>body. Inr (get_sequence body (lit ''result'')))))"

definition telegram_post :: "'s telegram_bot \<Rightarrow> ustr \<Rightarrow> (ustr, json) dict \<Rightarrow> ('s, json) prog" where
  "telegram_post t method body =
     bindp (tb_post t (method_url t method) body 30) (\<lambda>r.
       of_result (bindr (checked_body r) (\<lambda>payload. Inr (payload_get payload (lit ''result'')))))"

section \<open>Sending\<close>

definition action_method :: "json \<Rightarrow> ustr" where
  "action_method a = or_empty (get_str (dict_or (as_string_mapping a)) (lit ''method''))"

definition action_body :: "json \<Rightarrow> (ustr, json) dict" where
  "action_body a = dict_or (get_mapping (dict_or (as_string_mapping a)) (lit ''body''))"

fun send_actions :: "'s telegram_bot \<Rightarrow> ustr \<Rightarrow> json list \<Rightarrow> ustr \<Rightarrow> ('s, ustr) prog" where
  "send_actions t chat [] last_message_id = retp last_message_id"
| "send_actions t chat (a # actions) last_message_id =
     bindp (telegram_post t (action_method a) (AList.update (lit ''chat_id'') (JStr chat) (action_body a))) (\<lambda>sent.
       case get_id (dict_or (as_string_mapping sent)) (lit ''message_id'') of
         None \<Rightarrow> raisep delivery_error
       | Some i \<Rightarrow> send_actions t chat actions i)"

definition telegram_send_reply :: "'s telegram_bot \<Rightarrow> outbound_message \<Rightarrow> ('s, ustr) prog" where
  "telegram_send_reply t m = send_actions t (om_chat_id m)
     (encode_telegram_reply (om_plan m) telegram_capabilities (om_reply_to m) (Some (tb_meme_intents t))) []"

definition telegram_send_typing :: "'s telegram_bot \<Rightarrow> ustr \<Rightarrow> ('s, unit) prog" where
  "telegram_send_typing t chat =
     catchp (bindp (telegram_post t (lit ''sendChatAction'')
               [(lit ''chat_id'', JStr chat), (lit ''action'', JStr (lit ''typing''))]) (\<lambda>_. retp ()))
       (\<lambda>_. retp ())"

section \<open>Who the bot is\<close>

text \<open>\<open>_bot_id\<close> and \<open>_bot_username\<close>.\<close>

type_synonym bot_identity = "int \<times> ustr"

definition read_identity :: "'s telegram_bot \<Rightarrow> ('s, bot_identity) prog" where
  "read_identity t = bindp (telegram_post t (lit ''getMe'') []) (\<lambda>result.
     let me = dict_or (as_string_mapping result)
     in case (get_int me (lit ''id''), get_str me (lit ''username'')) of
          (Some i, Some name) \<Rightarrow> retp (i, name)
        | _ \<Rightarrow> raisep delivery_error)"

definition next_backoff :: "'s telegram_bot \<Rightarrow> real \<Rightarrow> real" where
  "next_backoff t backoff = min (backoff * 2) (tb_reconnect_max t)"

text \<open>The first \<open>n\<close> attempts of \<open>_discover_identity\<close>: the identity, or the backoff of the
  next attempt.\<close>

fun discover_identity :: "nat \<Rightarrow> 's telegram_bot \<Rightarrow> real \<Rightarrow> ('s, bot_identity + real) prog" where
  "discover_identity 0 t backoff = retp (Inr backoff)"
| "discover_identity (Suc n) t backoff =
     bindp (catchp (bindp (read_identity t) (\<lambda>i. retp (Some i))) (\<lambda>_. bindp (tb_sleep t backoff) (\<lambda>_. retp None)))
       (\<lambda>found. case found of Some i \<Rightarrow> retp (Inl i) | None \<Rightarrow> discover_identity n t (next_backoff t backoff))"

section \<open>Polling\<close>

definition publish_update :: "'s telegram_bot \<Rightarrow> bot_identity \<Rightarrow> (ustr, json) dict \<Rightarrow> ('s, unit) prog" where
  "publish_update t who update = bindp (tb_uuid t) (\<lambda>trace.
     case translate_telegram_update (tb_timestamp_fault t) trace (tb_casefold t) update (tb_connection_id t) (fst who) (snd who) of
       Inl Cancelled \<Rightarrow> raisep Cancelled
     | Inl (Raised _) \<Rightarrow> retp ()
     | Inr None \<Rightarrow> retp ()
     | Inr (Some ev) \<Rightarrow> tb_publish t ev)"

definition offset_after :: "(ustr, json) dict \<Rightarrow> int option \<Rightarrow> int option" where
  "offset_after update offset = (case get_int update (lit ''update_id'') of None \<Rightarrow> offset | Some i \<Rightarrow> Some (i + 1))"

fun take_updates :: "'s telegram_bot \<Rightarrow> bot_identity \<Rightarrow> json list \<Rightarrow> int option \<Rightarrow> ('s, int option) prog" where
  "take_updates t who [] offset = retp offset"
| "take_updates t who (raw # raws) offset = (case as_string_mapping raw of
       None \<Rightarrow> take_updates t who raws offset
     | Some update \<Rightarrow> bindp (publish_update t who update) (\<lambda>_. take_updates t who raws (offset_after update offset)))"

definition poll_params :: "'s telegram_bot \<Rightarrow> int option \<Rightarrow> (ustr, json) dict" where
  "poll_params t offset =
     [(lit ''timeout'', JInt \<lfloor>tb_poll_timeout t\<rfloor>), (lit ''allowed_updates'', JStr (lit ''['' @ [34] @ lit ''message'' @ [34] @ lit '']''))]
     @ (case offset of None \<Rightarrow> [] | Some i \<Rightarrow> [(lit ''offset'', JInt i)])"

text \<open>
  One round of \<open>run\<close>, on its variables \<open>offset\<close> and \<open>backoff\<close>. Only the request is inside
  the \<open>try\<close>; the round of a failed request ends with the pause.
\<close>

definition poll_round :: "'s telegram_bot \<Rightarrow> bot_identity \<Rightarrow> int option \<times> real \<Rightarrow> ('s, int option \<times> real) prog" where
  "poll_round t who st =
     bindp (catchp (bindp (telegram_request t (lit ''getUpdates'') (poll_params t (fst st))) (\<lambda>p. retp (Some p)))
              (\<lambda>_. bindp (tb_sleep t (snd st)) (\<lambda>_. retp None)))
       (\<lambda>answer. case answer of
          None \<Rightarrow> retp (fst st, next_backoff t (snd st))
        | Some payload \<Rightarrow> bindp (take_updates t who payload (fst st))
            (\<lambda>offset. bindp (tb_sleep t 0) (\<lambda>_. retp (offset, tb_reconnect_initial t))))"

text \<open>The first \<open>n\<close> rounds of the endless loop; a result means that it goes on.\<close>

fun poll_rounds :: "nat \<Rightarrow> 's telegram_bot \<Rightarrow> bot_identity \<Rightarrow> int option \<times> real \<Rightarrow> ('s, int option \<times> real) prog" where
  "poll_rounds 0 t who st = retp st"
| "poll_rounds (Suc n) t who st = bindp (poll_round t who st) (poll_rounds n t who)"

text \<open>\<open>run\<close>: up to \<open>k\<close> attempts to learn the identity, then \<open>n\<close> rounds.\<close>

definition telegram_run :: "nat \<Rightarrow> nat \<Rightarrow> 's telegram_bot \<Rightarrow> ('s, (int option \<times> real) option) prog" where
  "telegram_run k n t = bindp (discover_identity k t (tb_reconnect_initial t)) (\<lambda>found. case found of
       Inr _ \<Rightarrow> retp None
     | Inl who \<Rightarrow> bindp (poll_rounds n t who (None, tb_reconnect_initial t)) (\<lambda>st. retp (Some st)))"

section \<open>What the Bot API promises\<close>

definition update_id :: "(ustr, json) dict \<Rightarrow> int" where
  "update_id u = (case get_int u (lit ''update_id'') of None \<Rightarrow> 0 | Some i \<Rightarrow> i)"

definition confirmed :: "int option \<Rightarrow> (ustr, json) dict \<Rightarrow> bool" where
  "confirmed offset u \<longleftrightarrow> (case offset of None \<Rightarrow> False | Some i \<Rightarrow> update_id u < i)"

text \<open>An update is handled when its event is in the log, or when it is none of the adapter's
  business: no event comes out of it, or its translation failed.\<close>

definition handled :: "'s telegram_bot \<Rightarrow> bot_identity \<Rightarrow> (ustr, json) dict \<Rightarrow> inbound_event list \<Rightarrow> bool" where
  "handled t who u events \<longleftrightarrow> (\<exists>trace. nonempty_str trace \<and>
     (case translate_telegram_update (tb_timestamp_fault t) trace (tb_casefold t) u (tb_connection_id t) (fst who) (snd who) of
        Inr (Some ev) \<Rightarrow> ev \<in> set events | _ \<Rightarrow> True))"

text \<open>
  \<open>held\<close> are the updates the service keeps for the bot, \<open>arrived\<close> all that ever reached
  it, \<open>upto\<close> a bound on the ids given so far, \<open>log\<close> the events on the ingest stream.
  \<open>getUpdates\<close> forgets only updates below its offset; when it answers it has forgotten all
  of those, and the answer are the oldest of the rest, in order. Ids are given in increasing
  order. A publication that fails may have reached the stream or not.
\<close>

locale update_service =
  fixes t :: "'s telegram_bot"
    and held :: "'s \<Rightarrow> (ustr, json) dict list"
    and log :: "'s \<Rightarrow> inbound_event list"
    and arrived :: "'s \<Rightarrow> (ustr, json) dict list"
    and upto :: "'s \<Rightarrow> int"
  assumes held_numbered: "u \<in> set (held s) \<Longrightarrow> get_int u (lit ''update_id'') \<noteq> None"
    and held_below: "u \<in> set (held s) \<Longrightarrow> update_id u < upto s"
    and poll_arrives: "tb_get t url (poll_params t offset) secs s = (x, s') \<Longrightarrow> upto s \<le> upto s' \<and>
      (\<exists>us. arrived s' = arrived s @ us \<and>
         (\<forall>u \<in> set us. upto s \<le> update_id u \<and> (u \<in> set (held s') \<or> confirmed offset u)))"
    and poll_forgets: "tb_get t url (poll_params t offset) secs s = (x, s') \<Longrightarrow>
      u \<in> set (held s) \<Longrightarrow> u \<in> set (held s') \<or> confirmed offset u"
    and poll_confirms: "tb_get t url (poll_params t offset) secs s = (Inr r, s') \<Longrightarrow> checked_body r = Inr d \<Longrightarrow>
      u \<in> set (held s') \<Longrightarrow> \<not> confirmed offset u"
    and poll_answers: "tb_get t url (poll_params t offset) secs s = (Inr r, s') \<Longrightarrow> checked_body r = Inr d \<Longrightarrow>
      \<exists>us. get_sequence d (lit ''result'') = map JObj us \<and> set us \<subseteq> set (held s') \<and> sorted (map update_id us) \<and>
        (\<forall>u \<in> set (held s'). \<forall>w \<in> set us. update_id u \<le> update_id w \<longrightarrow> u \<in> set us)"
    and poll_fails: "tb_get t url (poll_params t offset) secs s = (x, s') \<Longrightarrow>
      (\<And>r d. x = Inr r \<Longrightarrow> checked_body r \<noteq> Inr d) \<Longrightarrow> u \<in> set (held s') \<Longrightarrow>
      u \<in> set (held s) \<or> \<not> confirmed offset u"
    and poll_log: "moves (same_view log) (tb_get t url params secs)"
    and publish_logs: "tb_publish t ev s = (Inr (), s') \<Longrightarrow> log s' = log s @ [ev]"
    and publish_fails: "tb_publish t ev s = (Inl e, s') \<Longrightarrow> log s' = log s \<or> log s' = log s @ [ev]"
    and publish_held: "moves (same_view (\<lambda>s. (held s, arrived s, upto s))) (tb_publish t ev)"
    and uuid_valid: "tb_uuid t s = (Inr trace, s') \<Longrightarrow> nonempty_str trace"
    and uuid_frame: "moves (same_view (\<lambda>s. (held s, log s, arrived s, upto s))) (tb_uuid t)"
    and sleep_frame: "moves (same_view (\<lambda>s. (held s, log s, arrived s, upto s))) (tb_sleep t secs)"
    and post_frame: "moves (same_view (\<lambda>s. (held s, log s, arrived s, upto s))) (tb_post t url params secs)"
begin

definition log_grows :: "'s \<Rightarrow> 's \<Rightarrow> bool" where
  "log_grows s s' \<longleftrightarrow> held s' = held s \<and> arrived s' = arrived s \<and> upto s' = upto s \<and> (\<exists>evs. log s' = log s @ evs)"

lemma log_grows_refl [simp]: "reflp log_grows"
  by (simp add: reflp_def log_grows_def)

lemma log_grows_trans [simp]: "transp log_grows"
  by (auto simp: transp_def log_grows_def)

lemma frame_grows: "moves (same_view (\<lambda>s. (held s, log s, arrived s, upto s))) p \<Longrightarrow> moves log_grows p"
  by (simp add: moves_def same_view_def log_grows_def)

lemma handled_grows: "handled t who u (log s) \<Longrightarrow> log_grows s s' \<Longrightarrow> handled t who u (log s')"
  unfolding handled_def log_grows_def by (fastforce split: sum.splits option.splits)

lemma publish_grows: "moves log_grows (tb_publish t ev)"
proof (rule movesI)
  fix s r s'
  assume p: "tb_publish t ev s = (r, s')"
  have "held s' = held s \<and> arrived s' = arrived s \<and> upto s' = upto s"
    using movesD [OF publish_held p] by (simp add: same_view_def)
  moreover have "\<exists>evs. log s' = log s @ evs" proof (cases r)
    case (Inl e)
    then show ?thesis using publish_fails p by (metis append_Nil2)
  next
    case (Inr x)
    then show ?thesis using publish_logs p by simp
  qed
  ultimately show "log_grows s s'" by (simp add: log_grows_def)
qed

lemma publish_update_grows: "moves log_grows (publish_update t who u)"
  unfolding publish_update_def
proof (intro moves_bindp log_grows_trans frame_grows [OF uuid_frame])
  show "moves log_grows (case translate_telegram_update (tb_timestamp_fault t) trace (tb_casefold t) u (tb_connection_id t)
      (fst who) (snd who) of Inl Cancelled \<Rightarrow> raisep Cancelled | Inl (Raised e) \<Rightarrow> retp () | Inr None \<Rightarrow> retp ()
      | Inr (Some ev) \<Rightarrow> tb_publish t ev)" for trace
    by (auto split: sum.split exn.split option.split intro: moves_retp moves_raisep publish_grows)
qed

lemma publish_update_handles:
  assumes "publish_update t who u s = (Inr (), s')"
  shows "handled t who u (log s')"
  using assms unfolding publish_update_def
proof (cases rule: bindp_cases)
  case (returned trace s1)
  have "nonempty_str trace" using uuid_valid [OF returned(1)] .
  then show ?thesis unfolding handled_def
    using returned(2) publish_logs by (intro exI [of _ trace]) (auto split: sum.splits exn.splits option.splits)
qed simp

lemma take_updates_handle:
  assumes "take_updates t who (map JObj us) offset s = (r, s')"
  shows "log_grows s s' \<and> (\<forall>o'. r = Inr o' \<longrightarrow> o' = fold offset_after us offset \<and> (\<forall>u \<in> set us. handled t who u (log s')))"
  using assms
proof (induction us arbitrary: offset s)
  case Nil
  then show ?case using reflpD [OF log_grows_refl] by auto
next
  case (Cons u us)
  from Cons.prems have "bindp (publish_update t who u) (\<lambda>_. take_updates t who (map JObj us) (offset_after u offset)) s = (r, s')"
    by simp
  then show ?case
  proof (cases rule: bindp_cases)
    case (raises e)
    then show ?thesis using movesD [OF publish_update_grows raises(1)] by simp
  next
    case (returned x s1)
    have g1: "log_grows s s1" using movesD [OF publish_update_grows returned(1)] .
    have g2: "log_grows s1 s'" and rest: "\<And>o'. r = Inr o' \<Longrightarrow> o' = fold offset_after us (offset_after u offset) \<and>
        (\<forall>u \<in> set us. handled t who u (log s'))"
      using Cons.IH [OF returned(2)] by auto
    have "handled t who u (log s')"
      using publish_update_handles returned(1) handled_grows [OF _ g2] by simp
    then show ?thesis using rest transpD [OF log_grows_trans g1 g2] by simp
  qed
qed

end

lemma fold_offset:
  assumes "\<forall>u \<in> set us. get_int u (lit ''update_id'') \<noteq> None" and "us \<noteq> []"
  shows "fold offset_after us offset = Some (update_id (last us) + 1)"
  using assms
proof (induction us arbitrary: offset)
  case (Cons u us)
  then show ?case
    by (cases "us = []") (auto simp: offset_after_def update_id_def)
qed simp

context update_service
begin

text \<open>Between two rounds every update below the offset has been handled, and the offset is at
  most one above the ids given.\<close>

definition poll_inv :: "bot_identity \<Rightarrow> int option \<Rightarrow> 's \<Rightarrow> bool" where
  "poll_inv who offset s \<longleftrightarrow> (\<forall>i. offset = Some i \<longrightarrow> i \<le> upto s) \<and>
     (\<forall>u \<in> set (held s). confirmed offset u \<longrightarrow> handled t who u (log s))"

definition kept_or_handled :: "bot_identity \<Rightarrow> 's \<Rightarrow> 's \<Rightarrow> bool" where
  "kept_or_handled who s s' \<longleftrightarrow> (\<exists>evs. log s' = log s @ evs) \<and>
     (\<exists>us. arrived s' = arrived s @ us \<and>
        (\<forall>u \<in> set (held s) \<union> set us. u \<in> set (held s') \<or> handled t who u (log s')))"

lemma kept_grows: "log_grows s s' \<Longrightarrow> kept_or_handled who s s'"
  by (auto simp: log_grows_def kept_or_handled_def)

lemma handled_more: "handled t who u events \<Longrightarrow> handled t who u (events @ evs)"
  unfolding handled_def by (fastforce split: sum.splits option.splits)

lemma kept_trans:
  assumes "kept_or_handled who s s'" and "kept_or_handled who s' s''"
  shows "kept_or_handled who s s''"
proof -
  obtain evs evs' us us' where e: "log s' = log s @ evs" "log s'' = log s' @ evs'"
    and a: "arrived s' = arrived s @ us" "arrived s'' = arrived s' @ us'"
    and k: "\<forall>u \<in> set (held s) \<union> set us. u \<in> set (held s') \<or> handled t who u (log s')"
      "\<forall>u \<in> set (held s') \<union> set us'. u \<in> set (held s'') \<or> handled t who u (log s'')"
    using assms unfolding kept_or_handled_def by blast
  have l: "log s'' = log s @ (evs @ evs')" and b: "arrived s'' = arrived s @ (us @ us')" using e a by simp_all
  have "u \<in> set (held s'') \<or> handled t who u (log s'')" if "u \<in> set (held s) \<union> set (us @ us')" for u
    using k that handled_more [of who u "log s'" evs'] e(2) by (metis Un_iff set_append)
  then show ?thesis using l b unfolding kept_or_handled_def by blast
qed

lemma request_keeps:
  assumes run: "telegram_request t (lit ''getUpdates'') (poll_params t offset) s = (r, s')" and inv: "poll_inv who offset s"
  shows "kept_or_handled who s s' \<and> log s' = log s \<and>
    (case r of Inl e \<Rightarrow> poll_inv who offset s'
     | Inr p \<Rightarrow> (\<forall>i. offset = Some i \<longrightarrow> i \<le> upto s') \<and> (\<exists>us. p = map JObj us \<and> set us \<subseteq> set (held s') \<and> sorted (map update_id us) \<and>
         (\<forall>u \<in> set (held s'). \<not> confirmed offset u \<and> (\<forall>w \<in> set us. update_id u \<le> update_id w \<longrightarrow> u \<in> set us))))"
proof -
  have get: "kept_or_handled who s s1 \<and> log s1 = log s" and known: "\<forall>i. offset = Some i \<longrightarrow> i \<le> upto s1"
    and fails: "(\<And>y d. x = Inr y \<Longrightarrow> checked_body y \<noteq> Inr d) \<Longrightarrow> poll_inv who offset s1"
    if g: "tb_get t url (poll_params t offset) secs s = (x, s1)" for url secs x s1
  proof -
    have l: "log s1 = log s" using movesD [OF poll_log g] by (simp add: same_view_def)
    obtain us where us: "upto s \<le> upto s1" "arrived s1 = arrived s @ us"
      "\<forall>u \<in> set us. upto s \<le> update_id u \<and> (u \<in> set (held s1) \<or> confirmed offset u)"
      using poll_arrives [OF g] by blast
    have old: "u \<in> set (held s1) \<or> handled t who u (log s1)" if "u \<in> set (held s)" for u
      using poll_forgets [OF g that] inv that l unfolding poll_inv_def by auto
    have new: "u \<in> set (held s1)" if u: "u \<in> set us" for u
      using bspec [OF us(3) u] inv unfolding poll_inv_def by (auto simp: confirmed_def split: option.splits)
    show "\<forall>i. offset = Some i \<longrightarrow> i \<le> upto s1" using inv us(1) unfolding poll_inv_def by fastforce
    show "kept_or_handled who s s1 \<and> log s1 = log s" using l us(2) old new unfolding kept_or_handled_def by (metis Un_iff append_Nil2)
    show "poll_inv who offset s1" if f: "\<And>y d. x = Inr y \<Longrightarrow> checked_body y \<noteq> Inr d"
      using poll_fails [OF g f] inv l us(1) unfolding poll_inv_def by fastforce
  qed
  from run show ?thesis unfolding telegram_request_def
  proof (cases rule: bindp_cases)
    case (raises e)
    then show ?thesis using get [OF raises(1)] fails [OF raises(1)] by simp
  next
    case (returned y s1)
    have s1: "s1 = s'" using returned(2) by (cases "checked_body y") (simp_all add: of_result_def)
    show ?thesis
    proof (cases "checked_body y")
      case (Inl e)
      have "poll_inv who offset s1" using Inl by (intro fails [OF returned(1)]) simp
      moreover have "r = Inl e" using Inl returned(2) by (simp add: of_result_def)
      ultimately show ?thesis using get [OF returned(1)] s1 by simp
    next
      case (Inr d)
      have "r = Inr (get_sequence d (lit ''result''))" using returned(2) Inr by (simp add: of_result_def)
      then show ?thesis
        using get [OF returned(1)] known [OF returned(1)] poll_answers [OF returned(1) Inr] poll_confirms [OF returned(1) Inr] s1 by auto
    qed
  qed
qed

text \<open>Pausing neither loses an update nor breaks the invariant.\<close>

lemma sleep_keeps:
  assumes "tb_sleep t secs s = (r, s')"
  shows "kept_or_handled who s s'" and "poll_inv who offset s' = poll_inv who offset s"
  using movesD [OF sleep_frame assms] by (auto simp: same_view_def kept_or_handled_def poll_inv_def)

lemma batch_keeps:
  assumes take: "take_updates t who (map JObj us) offset s = (r, s')"
    and known: "\<forall>i. offset = Some i \<longrightarrow> i \<le> upto s" and sub: "set us \<subseteq> set (held s)" and srt: "sorted (map update_id us)"
    and old: "\<forall>u \<in> set (held s). \<not> confirmed offset u \<and> (\<forall>w \<in> set us. update_id u \<le> update_id w \<longrightarrow> u \<in> set us)"
  shows "kept_or_handled who s s' \<and> (\<forall>o'. r = Inr o' \<longrightarrow> poll_inv who o' s')"
proof -
  have g: "log_grows s s'" and h: "\<And>o'. r = Inr o' \<Longrightarrow> o' = fold offset_after us offset \<and> (\<forall>u \<in> set us. handled t who u (log s'))"
    using take_updates_handle [OF take] by auto
  have last_id: "o' = Some (update_id (last us) + 1)" if "r = Inr o'" "us \<noteq> []" for o'
    using fold_offset [OF _ that(2), of offset] h [OF that(1)] sub held_numbered by auto
  have "poll_inv who o' s'" if "r = Inr o'" for o'
    unfolding poll_inv_def
  proof (intro conjI ballI impI allI)
    fix i assume i: "o' = Some i"
    show "i \<le> upto s'"
    proof (cases "us = []")
      case True
      then show ?thesis using h [OF that] i known g by (simp add: log_grows_def)
    next
      case False
      have "update_id (last us) < upto s" using held_below sub last_in_set [OF False] by blast
      then show ?thesis using last_id [OF that False] i g by (simp add: log_grows_def)
    qed
  next
    fix u assume u: "u \<in> set (held s')" "confirmed o' u"
    have hs: "u \<in> set (held s)" using u(1) g by (simp add: log_grows_def)
    show "handled t who u (log s')"
    proof (cases "us = []")
      case True
      then show ?thesis using h [OF that] u(2) hs old by simp
    next
      case False
      have "update_id u \<le> update_id (last us)" using last_id [OF that False] u(2) by (simp add: confirmed_def)
      then have "u \<in> set us" using bspec [OF old hs] last_in_set [OF False] by auto
      then show ?thesis using h [OF that] by blast
    qed
  qed
  then show ?thesis using kept_grows [OF g] by blast
qed

lemma round_keeps:
  assumes run: "poll_round t who (offset, backoff) s = (r, s')" and inv: "poll_inv who offset s"
  shows "kept_or_handled who s s' \<and> (\<forall>st. r = Inr st \<longrightarrow> poll_inv who (fst st) s')"
proof -
  obtain q s1 where q: "telegram_request t (lit ''getUpdates'') (poll_params t offset) s = (q, s1)" by fastforce
  have kept: "kept_or_handled who s s1" using request_keeps [OF q inv] by blast
  show ?thesis
  proof (cases q)
    case (Inl e)
    have inv1: "poll_inv who offset s1" using request_keeps [OF q inv] Inl by simp
    show ?thesis
    proof (cases e)
      case Cancelled
      then show ?thesis using run q Inl kept by (auto simp: poll_round_def bindp_def catchp_def)
    next
      case (Raised n)
      obtain y s2 where y: "tb_sleep t backoff s1 = (y, s2)" by fastforce
      have "s' = s2 \<and> (\<forall>st. r = Inr st \<longrightarrow> fst st = offset)"
        using run q Inl Raised y by (cases y) (auto simp: poll_round_def bindp_def catchp_def)
      then show ?thesis
        using kept_trans [OF kept sleep_keeps(1) [OF y]] sleep_keeps(2) [OF y] inv1 by metis
    qed
  next
    case (Inr p)
    then obtain us where us: "p = map JObj us" "\<forall>i. offset = Some i \<longrightarrow> i \<le> upto s1" "set us \<subseteq> set (held s1)" "sorted (map update_id us)"
      "\<forall>u \<in> set (held s1). \<not> confirmed offset u \<and> (\<forall>w \<in> set us. update_id u \<le> update_id w \<longrightarrow> u \<in> set us)"
      using request_keeps [OF q inv] by auto
    obtain y s2 where y: "take_updates t who p offset s1 = (y, s2)" by fastforce
    have b: "kept_or_handled who s1 s2" "\<And>o'. y = Inr o' \<Longrightarrow> poll_inv who o' s2"
      using batch_keeps [OF y [unfolded us(1)] us(2-5)] by auto
    show ?thesis
    proof (cases y)
      case (Inl e)
      then have "s' = s2 \<and> r = Inl e"
        using run q Inr y by (auto simp: poll_round_def bindp_def catchp_def)
      then show ?thesis using kept_trans [OF kept b(1)] by simp
    next
      case o': (Inr o')
      obtain z s3 where z: "tb_sleep t 0 s2 = (z, s3)" by fastforce
      have "s' = s3 \<and> (\<forall>st. r = Inr st \<longrightarrow> fst st = o')"
        using run q Inr y o' z by (cases z) (auto simp: poll_round_def bindp_def catchp_def)
      then show ?thesis
        using kept_trans [OF kept_trans [OF kept b(1)] sleep_keeps(1) [OF z]] sleep_keeps(2) [OF z] b(2) [OF o'] by metis
    qed
  qed
qed

lemma rounds_keep:
  "poll_rounds n t who (offset, backoff) s = (r, s') \<Longrightarrow> poll_inv who offset s \<Longrightarrow> kept_or_handled who s s'"
proof (induction n arbitrary: offset backoff s)
  case 0
  then show ?case by (simp add: kept_or_handled_def)
next
  case (Suc n)
  from Suc.prems(1) have "bindp (poll_round t who (offset, backoff)) (poll_rounds n t who) s = (r, s')" by simp
  then show ?case
  proof (cases rule: bindp_cases)
    case (raises e)
    then show ?thesis using round_keeps [OF raises(1) Suc.prems(2)] by blast
  next
    case (returned st s1)
    obtain o1 b1 where st: "st = (o1, b1)" by fastforce
    have "kept_or_handled who s s1" "poll_inv who o1 s1"
      using round_keeps [OF returned(1) Suc.prems(2)] st by auto
    then show ?thesis using Suc.IH returned(2) st kept_trans by blast
  qed
qed

lemma rounds_lose_nothing:
  "poll_rounds n t who (None, backoff) s = (r, s') \<Longrightarrow> kept_or_handled who s s'"
  by (rule rounds_keep) (auto simp: poll_inv_def confirmed_def)

end

section \<open>A Bot API service and the in-memory stream\<close>

text \<open>
  The service as documented, with the ingest stream of the in-memory transport: updates are
  numbered consecutively from \<open>bw_first\<close>, a request that is processed first takes in what has
  arrived, then forgets what its offset confirms and answers with at most 100 updates; its
  answer may get lost on the way. \<open>bw_polls\<close> scripts the requests, the end a timeout;
  \<open>bw_received\<close> records what arrived. \<open>bw_faults\<close> scripts the other calls: each may raise,
  before or after its effect.
\<close>

datatype poll_outcome =
    Answered "(ustr, json) dict list"
  | AnswerLost exn "(ustr, json) dict list"
  | BadGateway
  | Unreached exn

datatype call_fault = Passes | FailsBefore exn | FailsAfter exn

record bot_world = mem_backend +
  bw_first :: int
  bw_updates :: "(ustr, json) dict list"
  bw_polls :: "poll_outcome list"
  bw_received :: "(ustr, json) dict list"
  bw_faults :: "call_fault list"
  bw_log :: "inbound_event list"
  bw_drawn :: nat

definition faulty :: "(bot_world, 'a) prog \<Rightarrow> (bot_world, 'a) prog" where
  "faulty p s = (case bw_faults s of
       [] \<Rightarrow> p s
     | f # rest \<Rightarrow> let s1 = s\<lparr>bw_faults := rest\<rparr>
         in (case f of Passes \<Rightarrow> p s1 | FailsBefore e \<Rightarrow> (Inl e, s1) | FailsAfter e \<Rightarrow> (Inl e, snd (p s1))))"

definition with_ids :: "int \<Rightarrow> (ustr, json) dict list \<Rightarrow> (ustr, json) dict list" where
  "with_ids first us = map (\<lambda>(k, u). AList.update (lit ''update_id'') (JInt (first + int k)) u) (enumerate 0 us)"

abbreviation bw_held :: "bot_world \<Rightarrow> (ustr, json) dict list" where
  "bw_held s \<equiv> with_ids (bw_first s) (bw_updates s)"

definition forget_confirmed :: "int option \<Rightarrow> bot_world \<Rightarrow> bot_world" where
  "forget_confirmed offset s = (case offset of None \<Rightarrow> s
     | Some i \<Rightarrow> let k = nat (i - bw_first s)
         in s\<lparr>bw_first := bw_first s + int (min k (length (bw_updates s))), bw_updates := drop k (bw_updates s)\<rparr>)"

definition ok_body :: "json \<Rightarrow> http_reply" where
  "ok_body result = \<lparr>hy_status = 200, hy_body = Some (JObj [(lit ''ok'', JBool True), (lit ''result'', result)])\<rparr>"

definition next_id :: "bot_world \<Rightarrow> int" where
  "next_id s = bw_first s + int (length (bw_updates s))"

definition take_in :: "(ustr, json) dict list \<Rightarrow> int option \<Rightarrow> bot_world \<Rightarrow> bot_world" where
  "take_in us offset s = forget_confirmed offset
     (s\<lparr>bw_updates := bw_updates s @ us, bw_received := bw_received s @ with_ids (next_id s) us\<rparr>)"

definition service_get :: "ustr \<Rightarrow> (ustr, json) dict \<Rightarrow> real \<Rightarrow> (bot_world, http_reply) prog" where
  "service_get url params secs s = (case bw_polls s of
       [] \<Rightarrow> (Inl (Raised (lit ''ReadTimeout'')), s)
     | outcome # rest \<Rightarrow> let s1 = s\<lparr>bw_polls := rest\<rparr>
         in (case outcome of
               Answered us \<Rightarrow> let s2 = take_in us (get_int params (lit ''offset'')) s1
                 in (Inr (ok_body (JArr (map JObj (take 100 (bw_held s2))))), s2)
             | AnswerLost e us \<Rightarrow> (Inl e, take_in us (get_int params (lit ''offset'')) s1)
             | BadGateway \<Rightarrow> (Inr \<lparr>hy_status = 502, hy_body = None\<rparr>, s1)
             | Unreached e \<Rightarrow> (Inl e, s1)))"

definition service_post :: "ustr \<Rightarrow> (ustr, json) dict \<Rightarrow> real \<Rightarrow> (bot_world, http_reply) prog" where
  "service_post url body secs = faulty (retp (ok_body (JObj [(lit ''id'', JInt 7), (lit ''username'', JStr (lit ''mybot'')),
     (lit ''message_id'', JInt 1)])))"

text \<open>\<open>StreamPublisher.publish\<close> of the serialised event.\<close>

definition publish_ingest :: "(inbound_event \<Rightarrow> ustr) \<Rightarrow> ustr \<Rightarrow> nat \<Rightarrow> inbound_event \<Rightarrow> (bot_world, unit) prog" where
  "publish_ingest encode stream maxlen ev =
     faulty (bindp (so_add mem_ops stream (encode ev) maxlen) (\<lambda>_ s. (Inr (), s\<lparr>bw_log := bw_log s @ [ev]\<rparr>)))"

definition service_bot :: "(inbound_event \<Rightarrow> ustr) \<Rightarrow> ustr \<Rightarrow> nat \<Rightarrow> bot_world telegram_bot" where
  "service_bot encode stream maxlen = \<lparr>tb_token = lit ''t'', tb_connection_id = lit ''telegram-main'', tb_meme_intents = [],
     tb_api_base_url = lit ''https://api.telegram.org'', tb_poll_timeout = 50, tb_reconnect_initial = 1,
     tb_reconnect_max = 30, tb_get = service_get, tb_post = service_post,
     tb_publish = publish_ingest encode stream maxlen, tb_sleep = (\<lambda>secs. faulty (\<lambda>s. (Inr (), s\<lparr>mb_now := mb_now s + secs\<rparr>))),
     tb_uuid = faulty (\<lambda>s. (Inr (dec_int (int (bw_drawn s))), s\<lparr>bw_drawn := Suc (bw_drawn s)\<rparr>)),
     tb_timestamp_fault = (\<lambda>_. lit ''OverflowError''), tb_casefold = ascii_lower\<rparr>"

lemma length_numbered [simp]: "length (with_ids first us) = length us"
  by (simp add: with_ids_def)

lemma with_ids_nth: "k < length us \<Longrightarrow>
  with_ids first us ! k = AList.update (lit ''update_id'') (JInt (first + int k)) (us ! k)"
  by (simp add: with_ids_def nth_enumerate_eq)

lemma get_int_update [simp]: "get_int (AList.update k (JInt i) d) k = Some i"
  by (simp add: get_int_def payload_get_def dict_get_def map_of_update)

lemma with_ids_id: "k < length us \<Longrightarrow> get_int (with_ids first us ! k) (lit ''update_id'') = Some (first + int k)"
  by (simp add: with_ids_nth)

lemma with_ids_append: "with_ids first (us @ vs) = with_ids first us @ with_ids (first + int (length us)) vs"
  by (rule nth_equalityI) (auto simp: with_ids_nth nth_append)

lemma with_ids_drop:
  assumes "u \<in> set (with_ids first us)"
  shows "u \<in> set (with_ids (first + int (min k (length us))) (drop k us)) \<or> update_id u < first + int k"
proof -
  obtain j where j: "j < length us" "u = with_ids first us ! j" using assms by (metis in_set_conv_nth length_numbered)
  show ?thesis
  proof (cases "j < k")
    case True
    then show ?thesis using j with_ids_id [of j us first] by (simp add: update_id_def)
  next
    case False
    then have "with_ids (first + int (min k (length us))) (drop k us) ! (j - k) = u"
      using j by (simp add: with_ids_nth)
    moreover have "j - k < length (drop k us)" using False j by simp
    ultimately show ?thesis by (metis length_numbered nth_mem)
  qed
qed

lemma with_ids_bounds: "u \<in> set (with_ids first us) \<Longrightarrow> first \<le> update_id u \<and> update_id u < first + int (length us)"
  by (auto simp: in_set_conv_nth update_id_def with_ids_id)

lemma get_offset: "get_int (poll_params t offset) (lit ''offset'') = offset"
  by (cases offset) (simp_all add: poll_params_def get_int_def payload_get_def dict_get_def str_simps)

lemma forget_held:
  "u \<in> set (bw_held s) \<Longrightarrow> u \<in> set (bw_held (forget_confirmed offset s)) \<or> confirmed offset u"
proof (cases offset)
  case (Some i)
  assume u: "u \<in> set (bw_held s)"
  show ?thesis
  proof (cases "bw_first s \<le> i")
    case True
    then show ?thesis using with_ids_drop [OF u, of "nat (i - bw_first s)"] Some
      by (auto simp: forget_confirmed_def confirmed_def Let_def)
  next
    case False
    then show ?thesis using u Some by (simp add: forget_confirmed_def Let_def)
  qed
qed (simp add: forget_confirmed_def)

lemma forget_confirms:
  assumes "u \<in> set (bw_held (forget_confirmed offset s))"
  shows "\<not> confirmed offset u"
proof (cases offset)
  case (Some i)
  have "drop (nat (i - bw_first s)) (bw_updates s) \<noteq> []"
    using assms Some by (auto simp: forget_confirmed_def Let_def with_ids_def)
  then show ?thesis using with_ids_bounds [OF assms] Some
    by (auto simp: forget_confirmed_def confirmed_def Let_def split: if_splits)
qed (simp add: confirmed_def)

lemma take_numbered:
  "sorted (map update_id (take n (with_ids first us)))"
  "u \<in> set (with_ids first us) \<Longrightarrow> w \<in> set (take n (with_ids first us)) \<Longrightarrow> update_id u \<le> update_id w \<Longrightarrow>
     u \<in> set (take n (with_ids first us))"
proof -
  have i: "update_id (with_ids first us ! k) = first + int k" if "k < length us" for k
    using with_ids_id [OF that] by (simp add: update_id_def)
  show "sorted (map update_id (take n (with_ids first us)))"
    by (simp add: sorted_iff_nth_mono i)
  assume u: "u \<in> set (with_ids first us)" and w: "w \<in> set (take n (with_ids first us))" and le: "update_id u \<le> update_id w"
  obtain j where j: "j < length us" "u = with_ids first us ! j" using u by (metis in_set_conv_nth length_numbered)
  obtain k where k: "k < n" "k < length us" "w = with_ids first us ! k" using w by (auto simp: in_set_conv_nth)
  have "j \<le> k" using le j k i by simp
  then show "u \<in> set (take n (with_ids first us))" using j k by (auto simp: in_set_conv_nth intro!: exI [of _ j])
qed

lemma forget_frame [simp]:
  "bw_log (forget_confirmed offset s) = bw_log s" "bw_received (forget_confirmed offset s) = bw_received s"
  "next_id (forget_confirmed offset s) = next_id s"
  by (auto simp: forget_confirmed_def next_id_def Let_def split: option.split)

lemma held_below_next: "u \<in> set (bw_held s) \<Longrightarrow> update_id u < next_id s"
  using with_ids_bounds [of u "bw_first s" "bw_updates s"] by (simp add: next_id_def)

text \<open>A request that is processed: what it takes in, forgets and keeps.\<close>

lemma take_in_frame [simp]:
  "bw_log (take_in us offset s) = bw_log s"
  "bw_received (take_in us offset s) = bw_received s @ with_ids (next_id s) us"
  "next_id (take_in us offset s) = next_id s + int (length us)"
  by (simp_all add: take_in_def) (simp add: next_id_def)

lemma take_in_held:
  assumes "u \<in> set (bw_held s) \<union> set (with_ids (next_id s) us)"
  shows "u \<in> set (bw_held (take_in us offset s)) \<or> confirmed offset u"
  unfolding take_in_def by (rule forget_held) (use assms in \<open>simp add: with_ids_append next_id_def\<close>)

lemma take_in_forgets: "u \<in> set (bw_held (take_in us offset s)) \<Longrightarrow> \<not> confirmed offset u"
  unfolding take_in_def by (rule forget_confirms)

text \<open>The ways a request can go.\<close>

lemma service_get_cases:
  assumes "service_get url params secs s = (x, s')"
  obtains (processed) us rest where "s' = take_in us (get_int params (lit ''offset'')) (s\<lparr>bw_polls := rest\<rparr>)"
      "(\<exists>e. x = Inl e) \<or> x = Inr (ok_body (JArr (map JObj (take 100 (bw_held s')))))"
  | (failed) rest where "s' = s\<lparr>bw_polls := rest\<rparr>" "\<And>r d. x = Inr r \<Longrightarrow> checked_body r \<noteq> Inr d"
proof (cases "bw_polls s")
  case Nil
  then show ?thesis using assms failed [of "[]"] by (auto simp: service_get_def)
next
  case (Cons outcome rest)
  show ?thesis
  proof (cases outcome)
    case (Answered us)
    then show ?thesis using assms Cons processed [of us rest] by (auto simp: service_get_def Let_def)
  next
    case (AnswerLost e us)
    then show ?thesis using assms Cons processed [of us rest] by (auto simp: service_get_def Let_def)
  next
    case BadGateway
    then have "x = Inr \<lparr>hy_status = 502, hy_body = None\<rparr>" "s' = s\<lparr>bw_polls := rest\<rparr>"
      using assms Cons by (simp_all add: service_get_def Let_def)
    then show ?thesis by (intro failed [of rest]) (auto simp: checked_body_def)
  next
    case (Unreached e)
    then show ?thesis using assms Cons failed [of rest] by (auto simp: service_get_def Let_def)
  qed
qed

lemma service_get_log: "moves (same_view bw_log) (service_get url params secs)"
  by (rule movesI) (auto simp: same_view_def elim!: service_get_cases)

text \<open>A call that may fail keeps what the call and the script keep.\<close>

lemma faulty_cases:
  assumes "faulty p s = (x, s')"
  obtains (calls) rest where "p (s\<lparr>bw_faults := rest\<rparr>) = (x, s')"
  | (before) e rest where "x = Inl e" "s' = s\<lparr>bw_faults := rest\<rparr>"
  | (after) e y rest where "x = Inl e" "p (s\<lparr>bw_faults := rest\<rparr>) = (y, s')"
proof (cases "bw_faults s")
  case Nil
  have same: "s\<lparr>bw_faults := []\<rparr> = s" using Nil by simp
  have "p s = (x, s')" using assms Nil by (simp add: faulty_def)
  then show ?thesis by (intro calls [of "[]"]) (simp only: same)
next
  case (Cons f rest)
  obtain y s1 where y: "p (s\<lparr>bw_faults := rest\<rparr>) = (y, s1)" by (meson surj_pair)
  show ?thesis using assms Cons y calls [of rest] before [of _ rest] after [of _ rest y]
    by (cases f) (auto simp: faulty_def Let_def)
qed

lemma faulty_frame:
  assumes "moves (same_view f) p" and "\<And>s rest. f (s\<lparr>bw_faults := rest\<rparr>) = f s"
  shows "moves (same_view f) (faulty p)"
proof (rule movesI)
  fix s r s'
  assume "faulty p s = (r, s')"
  moreover have "f s' = f t" if "p t = (y, s')" for t y using movesD [OF assms(1) that] by (simp add: same_view_def)
  ultimately show "same_view f s s'" using assms(2) by (cases rule: faulty_cases) (simp_all add: same_view_def)
qed

interpretation service: update_service "service_bot encode stream maxlen" bw_held bw_log bw_received next_id
  for encode stream maxlen
proof
  have adds: "bw_first (snd (mem_add st p k s)) = bw_first s" "bw_updates (snd (mem_add st p k s)) = bw_updates s"
    "bw_log (snd (mem_add st p k s)) = bw_log s" "bw_received (snd (mem_add st p k s)) = bw_received s"
    for st p k and s :: bot_world
    by (simp_all add: mem_add_def Let_def)
  let ?t = "service_bot encode stream maxlen"
  have get: "tb_get ?t = service_get" by (simp add: service_bot_def)
  have frame: "moves (same_view (\<lambda>s. (bw_held s, bw_log s, bw_received s, next_id s))) (faulty p)"
    if "moves (same_view (\<lambda>s. (bw_held s, bw_log s, bw_received s, next_id s))) p" for p :: "(bot_world, 'a) prog"
    by (rule faulty_frame [OF that]) (simp add: next_id_def)
  let ?add = "\<lambda>ev. bindp (so_add mem_ops stream (encode ev) maxlen) (\<lambda>_ s. (Inr (), s\<lparr>bw_log := bw_log s @ [ev]\<rparr>)) :: (bot_world, unit) prog"
  have publish: "tb_publish ?t ev = faulty (?add ev)" for ev by (simp add: service_bot_def publish_ingest_def)
  have add: "y = Inr () \<and> bw_log s' = bw_log s @ [ev]" if "?add ev s = (y, s')" for ev s y s'
    using that by (auto simp: bindp_def mem_ops_def liftp_def adds)
  show "get_int u (lit ''update_id'') \<noteq> None" if "u \<in> set (bw_held s)" for u s
    using that by (auto simp: in_set_conv_nth with_ids_id)
  show "update_id u < next_id s" if "u \<in> set (bw_held s)" for u s
    using held_below_next [OF that] .
  show "next_id s \<le> next_id s' \<and> (\<exists>us. bw_received s' = bw_received s @ us \<and>
      (\<forall>u \<in> set us. next_id s \<le> update_id u \<and> (u \<in> set (bw_held s') \<or> confirmed offset u)))"
    if g: "tb_get ?t url (poll_params ?t offset) secs s = (x, s')" for url offset secs s x s'
    using g unfolding get
  proof (cases rule: service_get_cases)
    case (processed us rest)
    have n: "next_id (s\<lparr>bw_polls := rest\<rparr>) = next_id s" by (simp add: next_id_def)
    have "u \<in> set (bw_held s') \<or> confirmed offset u" if "u \<in> set (with_ids (next_id s) us)" for u
      using take_in_held [of u "s\<lparr>bw_polls := rest\<rparr>" us offset] that processed(1) n by (auto simp: get_offset)
    then show ?thesis using processed(1) n with_ids_bounds [of _ "next_id s" us] by auto
  qed (auto simp: next_id_def)
  show "u \<in> set (bw_held s') \<or> confirmed offset u"
    if g: "tb_get ?t url (poll_params ?t offset) secs s = (x, s')" and u: "u \<in> set (bw_held s)" for url offset secs s x s' u
    using g unfolding get
  proof (cases rule: service_get_cases)
    case (processed us rest)
    then show ?thesis using take_in_held [of u "s\<lparr>bw_polls := rest\<rparr>" us offset] u by (auto simp: get_offset)
  qed (use u in auto)
  show "\<not> confirmed offset u"
    if g: "tb_get ?t url (poll_params ?t offset) secs s = (Inr r, s')" and d: "checked_body r = Inr d"
      and u: "u \<in> set (bw_held s')" for url offset secs s r s' d u
    using g unfolding get
  proof (cases rule: service_get_cases)
    case (processed us rest)
    then show ?thesis using take_in_forgets u by (auto simp: get_offset)
  qed (use d in auto)
  show "\<exists>us. get_sequence d (lit ''result'') = map JObj us \<and> set us \<subseteq> set (bw_held s') \<and> sorted (map update_id us) \<and>
      (\<forall>u \<in> set (bw_held s'). \<forall>w \<in> set us. update_id u \<le> update_id w \<longrightarrow> u \<in> set us)"
    if g: "tb_get ?t url (poll_params ?t offset) secs s = (Inr r, s')" and d: "checked_body r = Inr d" for url offset secs s r s' d
    using g unfolding get
  proof (cases rule: service_get_cases)
    case (processed us rest)
    have "get_sequence d (lit ''result'') = map JObj (take 100 (bw_held s'))"
      using processed(2) d by (auto simp: checked_body_def ok_body_def dict_or_def
          get_sequence_def payload_get_def dict_get_def str_simps)
    then show ?thesis
      using take_numbered(1) take_numbered(2)
      by (intro exI [of _ "take 100 (bw_held s')"]) (auto dest: in_set_takeD)
  qed (use d in auto)
  show "u \<in> set (bw_held s) \<or> \<not> confirmed offset u"
    if g: "tb_get ?t url (poll_params ?t offset) secs s = (x, s')" and f: "\<And>r d. x = Inr r \<Longrightarrow> checked_body r \<noteq> Inr d"
      and u: "u \<in> set (bw_held s')" for url offset secs s x s' u
    using g unfolding get
  proof (cases rule: service_get_cases)
    case (processed us rest)
    then show ?thesis using take_in_forgets u by (auto simp: get_offset)
  qed (use u in auto)
  show "moves (same_view bw_log) (tb_get ?t url params secs)" for url params secs
    unfolding get by (rule service_get_log)
  show "bw_log s' = bw_log s @ [ev]" if "tb_publish ?t ev s = (Inr (), s')" for ev s s'
    using that unfolding publish by (cases rule: faulty_cases) (auto dest!: add)
  show "bw_log s' = bw_log s \<or> bw_log s' = bw_log s @ [ev]" if "tb_publish ?t ev s = (Inl e, s')" for ev s e s'
    using that unfolding publish by (cases rule: faulty_cases) (auto dest!: add)
  show "moves (same_view (\<lambda>s. (bw_held s, bw_received s, next_id s))) (tb_publish ?t ev)" for ev
    unfolding publish
    by (rule faulty_frame) (auto simp: bindp_def mem_ops_def liftp_def adds moves_def same_view_def next_id_def)
  show "nonempty_str trace" if "tb_uuid ?t s = (Inr trace, s')" for s trace s'
    using that by (auto simp: service_bot_def nonempty_str_iff elim!: faulty_cases)
  show "moves (same_view (\<lambda>s. (bw_held s, bw_log s, bw_received s, next_id s))) (tb_uuid ?t)"
    unfolding service_bot_def telegram_bot.simps by (rule frame) (simp add: moves_def same_view_def next_id_def)
  show "moves (same_view (\<lambda>s. (bw_held s, bw_log s, bw_received s, next_id s))) (tb_sleep ?t secs)" for secs
    unfolding service_bot_def telegram_bot.simps by (rule frame) (simp add: moves_def same_view_def next_id_def)
  show "moves (same_view (\<lambda>s. (bw_held s, bw_log s, bw_received s, next_id s))) (tb_post ?t url params secs)" for url params secs
    unfolding service_bot_def telegram_bot.simps service_post_def by (rule frame) (simp add: moves_def same_view_def)
qed

section \<open>Properties\<close>

text \<open>
  C4: no Telegram update is lost. However many rounds the poll loop has made since its start,
  whichever requests, publications or pauses failed, whether before or after their effect, and
  also when the loop has ended with an exception: every update the service held at the start
  and every update that reached it since is still held there, or it has been handled, its
  event in the log of the ingest stream.
\<close>

theorem updates_not_lost:
  assumes "poll_rounds n (service_bot encode stream maxlen) who (None, backoff) s = (r, s')"
    and "u \<in> set (with_ids (bw_first s) (bw_updates s)) \<union> set (drop (length (bw_received s)) (bw_received s'))"
  shows "u \<in> set (with_ids (bw_first s') (bw_updates s')) \<or>
    handled (service_bot encode stream maxlen) who u (bw_log s')"
  using service.rounds_lose_nothing [OF assms(1)] assms(2) by (auto simp: service.kept_or_handled_def)

definition demo_tg_update :: "ustr \<Rightarrow> (ustr, json) dict" where
  "demo_tg_update text = [(lit ''message'', JObj [(lit ''message_id'', JInt 5), (lit ''date'', JInt 1000),
     (lit ''chat'', JObj [(lit ''id'', JInt 9), (lit ''type'', JStr (lit ''private''))]),
     (lit ''from'', JObj [(lit ''id'', JInt 8)]), (lit ''text'', JStr text)])]"

definition demo_bot_world :: bot_world where
  "demo_bot_world = \<lparr>mb_streams = [], mb_sequence = [], mb_groups = [], mb_once = [], mb_counters = [], mb_now = 0,
     bw_first = 3, bw_updates = [demo_tg_update [104], demo_tg_update [105]],
     bw_polls = [BadGateway, Answered [demo_tg_update [106]], Answered []], bw_received = [], bw_faults = [],
     bw_log = [], bw_drawn = 0\<rparr>"

definition demo_down_world :: bot_world where
  "demo_down_world = demo_bot_world\<lparr>bw_faults := [Passes, Passes, Passes, Passes, FailsBefore (Raised (lit ''ConnectionError''))]\<rparr>"

theorem updates_not_lost_witness:
  "\<exists>r s'. poll_rounds 3 (service_bot (\<lambda>ev. env_id (ie_envelope ev)) (lit ''ingest'') 10) (7, lit ''mybot'') (None, 1) demo_down_world = (r, s') \<and>
     (AList.update (lit ''update_id'') (JInt 4) (demo_tg_update [105]) \<in> set (with_ids (bw_first s') (bw_updates s')) \<or>
      handled (service_bot (\<lambda>ev. env_id (ie_envelope ev)) (lit ''ingest'') 10) (7, lit ''mybot'')
        (AList.update (lit ''update_id'') (JInt 4) (demo_tg_update [105])) (bw_log s'))"
proof -
  let ?t = "service_bot (\<lambda>ev. env_id (ie_envelope ev)) (lit ''ingest'') 10"
  obtain r s' where run: "poll_rounds 3 ?t (7, lit ''mybot'') (None, 1) demo_down_world = (r, s')" by (meson surj_pair)
  have "AList.update (lit ''update_id'') (JInt 4) (demo_tg_update [105]) \<in>
      set (with_ids (bw_first demo_down_world) (bw_updates demo_down_world))"
    by (simp add: demo_down_world_def demo_bot_world_def with_ids_def)
  then have "AList.update (lit ''update_id'') (JInt 4) (demo_tg_update [105]) \<in>
      set (with_ids (bw_first demo_down_world) (bw_updates demo_down_world)) \<union>
      set (drop (length (bw_received demo_down_world)) (bw_received s'))" by blast
  from updates_not_lost [OF run this] run show ?thesis by blast
qed

text \<open>The calls for a list of actions, all of which were answered, with the answers.\<close>

fun posts_chain :: "'s telegram_bot \<Rightarrow> ustr \<Rightarrow> json list \<Rightarrow> 's \<Rightarrow> json list \<Rightarrow> 's \<Rightarrow> bool" where
  "posts_chain t chat [] s [] s' = (s' = s)"
| "posts_chain t chat (a # as) s (r # rs) s' =
     (\<exists>s1. telegram_post t (action_method a) (AList.update (lit ''chat_id'') (JStr chat) (action_body a)) s = (Inr r, s1) \<and>
        posts_chain t chat as s1 rs s')"
| "posts_chain t chat _ s _ s' = False"

definition answered_id :: "json \<Rightarrow> ustr option" where
  "answered_id r = get_id (dict_or (as_string_mapping r)) (lit ''message_id'')"

lemma send_actions_chain:
  "send_actions t chat actions prior s = (Inr i, s') \<Longrightarrow>
     \<exists>rs. posts_chain t chat actions s rs s' \<and> (\<forall>r \<in> set rs. answered_id r \<noteq> None) \<and>
       Some i = (if rs = [] then Some prior else answered_id (last rs))"
proof (induction actions arbitrary: prior s)
  case Nil
  then show ?case by (intro exI [of _ "[]"]) auto
next
  case (Cons a actions)
  from Cons.prems obtain r s1 where r: "telegram_post t (action_method a)
      (AList.update (lit ''chat_id'') (JStr chat) (action_body a)) s = (Inr r, s1)"
    and rest: "(case get_id (dict_or (as_string_mapping r)) (lit ''message_id'') of None \<Rightarrow> raisep delivery_error
       | Some i \<Rightarrow> send_actions t chat actions i) s1 = (Inr i, s')"
    by (auto simp: bindp_def split: prod.splits sum.splits)
  from rest obtain j where j: "answered_id r = Some j" and go: "send_actions t chat actions j s1 = (Inr i, s')"
    by (auto simp: answered_id_def split: option.splits)
  from Cons.IH [OF go] obtain rs where "posts_chain t chat actions s1 rs s'" "\<forall>r \<in> set rs. answered_id r \<noteq> None"
    "Some i = (if rs = [] then Some j else answered_id (last rs))" by blast
  then show ?case using r j by (intro exI [of _ "r # rs"]) auto
qed

lemma posts_chain_length: "posts_chain t chat actions s rs s' \<Longrightarrow> length rs = length actions"
  by (induction t chat actions s rs s' rule: posts_chain.induct) auto

text \<open>
  a reply counts as sent only when every part of it was: when \<open>send_reply\<close> returns, each
  action of the encoded plan was posted to the chat in order and answered with a message id,
  and the id returned is that of the last part.
\<close>

theorem reply_sent_in_full:
  assumes "telegram_send_reply t m s = (Inr i, s')" and "rp_text_segments (om_plan m) \<noteq> []"
  shows "\<exists>rs. posts_chain t (om_chat_id m) (encode_telegram_reply (om_plan m) telegram_capabilities (om_reply_to m)
        (Some (tb_meme_intents t))) s rs s' \<and> rs \<noteq> [] \<and> (\<forall>r \<in> set rs. answered_id r \<noteq> None) \<and>
      answered_id (last rs) = Some i"
proof -
  obtain rs where rs: "posts_chain t (om_chat_id m) (encode_telegram_reply (om_plan m) telegram_capabilities (om_reply_to m)
        (Some (tb_meme_intents t))) s rs s'" "\<forall>r \<in> set rs. answered_id r \<noteq> None"
    "Some i = (if rs = [] then Some [] else answered_id (last rs))"
    using send_actions_chain [OF assms(1) [unfolded telegram_send_reply_def]] by blast
  have "encode_telegram_reply (om_plan m) telegram_capabilities (om_reply_to m) (Some (tb_meme_intents t)) \<noteq> []"
    using assms(2) by (cases "rp_text_segments (om_plan m)") (simp_all add: encode_telegram_reply_def)
  then have "rs \<noteq> []" using posts_chain_length [OF rs(1)] by auto
  then show ?thesis using rs by auto
qed

definition demo_reply :: outbound_message where
  "demo_reply = \<lparr>om_id = [109], om_platform = TELEGRAM, om_connection_id = [99], om_chat_kind = DIRECT, om_chat_id = [57],
     om_plan = \<lparr>rp_text_segments = [[104], [105]], rp_media_segments = [], rp_citations = [],
       rp_meme_intent = None, rp_typing = typing_default False\<rparr>, om_reply_to = None, om_trace_id = [116]\<rparr>"

theorem reply_sent_in_full_witness:
  "\<exists>i rs s'. posts_chain (service_bot (\<lambda>ev. []) [] 10) [57] (encode_telegram_reply (om_plan demo_reply) telegram_capabilities None
        (Some [])) demo_bot_world rs s' \<and> rs \<noteq> [] \<and> (\<forall>r \<in> set rs. answered_id r \<noteq> None) \<and> answered_id (last rs) = Some i"
proof -
  let ?t = "service_bot (\<lambda>ev. []) [] 10"
  let ?result = "JObj [(lit ''id'', JInt 7), (lit ''username'', JStr (lit ''mybot'')), (lit ''message_id'', JInt 1)]"
  have post: "telegram_post ?t meth args demo_bot_world = (Inr ?result, demo_bot_world)" for meth args
    by (simp add: demo_bot_world_def faulty_def telegram_post_def service_bot_def service_post_def ok_body_def checked_body_def dict_or_def payload_get_def
        dict_get_def of_result_def bindp_def str_simps)
  have "get_id (dict_or (as_string_mapping ?result)) (lit ''message_id'') = Some (dec_int 1)"
    by (simp add: get_id_def dict_or_def payload_get_def dict_get_def str_simps)
  then have "send_actions ?t chat actions i demo_bot_world = (Inr (if actions = [] then i else dec_int 1), demo_bot_world)"
    for chat actions i
    by (induction actions arbitrary: i) (simp_all add: bindp_def post)
  then have "telegram_send_reply ?t demo_reply demo_bot_world = (Inr (dec_int 1), demo_bot_world)"
    by (simp add: telegram_send_reply_def demo_reply_def encode_telegram_reply_def del: send_actions.simps)
  from reply_sent_in_full [OF this] show ?thesis by (auto simp: demo_reply_def service_bot_def)
qed

text \<open>
  the pause between failed requests doubles up to its ceiling: along every run of the loop
  it stays positive and at most \<open>reconnect_max_seconds\<close>.
\<close>

theorem backoff_bounded:
  assumes "poll_rounds n t who (offset, backoff) s = (Inr (offset', backoff'), s')"
    and "0 < backoff" and "backoff \<le> tb_reconnect_max t"
    and "0 < tb_reconnect_initial t" and "tb_reconnect_initial t \<le> tb_reconnect_max t"
  shows "0 < backoff' \<and> backoff' \<le> tb_reconnect_max t"
  using assms(1-3)
proof (induction n arbitrary: offset backoff s)
  case (Suc n)
  from Suc.prems(1) obtain st s1 where st: "poll_round t who (offset, backoff) s = (Inr st, s1)"
    and rest: "poll_rounds n t who st s1 = (Inr (offset', backoff'), s')"
    by (auto simp: bindp_def split: prod.splits sum.splits)
  have "snd st = next_backoff t backoff \<or> snd st = tb_reconnect_initial t"
    using st by (auto simp: poll_round_def bindp_def catchp_def split: prod.splits sum.splits exn.splits option.splits)
  then have "0 < snd st \<and> snd st \<le> tb_reconnect_max t" using Suc.prems assms(4,5) by (auto simp: next_backoff_def)
  moreover obtain o1 b1 where "st = (o1, b1)" by fastforce
  ultimately show ?case using Suc.IH rest by auto
qed simp

theorem backoff_bounded_witness:
  "\<exists>offset b s'. poll_rounds 1 (service_bot (\<lambda>ev. []) [] 10) (7, []) (None, 1) demo_bot_world = (Inr (offset, b), s') \<and> 0 < b \<and> b \<le> 30"
proof -
  obtain offset b s' where run: "poll_rounds 1 (service_bot (\<lambda>ev. []) [] 10) (7, []) (None, 1) demo_bot_world = (Inr (offset, b), s')"
    by (simp add: poll_round_def telegram_request_def service_bot_def service_get_def demo_bot_world_def bindp_def
        catchp_def checked_body_def of_result_def faulty_def)
  from backoff_bounded [OF this] run show ?thesis by (auto simp: service_bot_def)
qed

end
