(* ===== verification/QqLink.thy ===== *)
theory QqLink
  imports TelegramBot
begin

text \<open>
  The QQ transport, \<open>adapters/qq/transport.py\<close>: one WebSocket to the OneBot server carries
  events in and actions out; the answer to an action is the frame with its echo. The
  connection and the calls that wait on it are a state machine: a call starts, a frame
  arrives, the connection opens or is lost, a call goes on with its answer or times out, in
  any order. The main results: a call is only ever answered by a frame with its own echo that
  came after it started, no call is left waiting on a lost connection, and the table of
  waiting calls is empty whenever nothing is connected.
\<close>

section \<open>Calls and their answers\<close>

datatype future = Waiting | Resolved "(ustr, json) dict" | Failed exn

text \<open>\<open>_connection\<close> (open or not), the keys of \<open>_pending\<close>, and the future each unfinished call
  holds.\<close>

record qq_link =
  ql_connected :: bool
  ql_pending :: "ustr list"
  ql_futures :: "(ustr, future) dict"

definition link_init :: qq_link where
  "link_init = \<lparr>ql_connected = False, ql_pending = [], ql_futures = []\<rparr>"

text \<open>The first half of \<open>_call\<close>: up to the point where it waits.\<close>

definition begin_call :: "ustr \<Rightarrow> qq_link \<Rightarrow> exn + qq_link" where
  "begin_call echo l =
     (if \<not> ql_connected l then Inl delivery_error
      else Inr (l\<lparr>ql_pending := ql_pending l @ [echo], ql_futures := AList.update echo Waiting (ql_futures l)\<rparr>))"

text \<open>What a frame with an echo does in \<open>_dispatch\<close>.\<close>

definition resolve_call :: "ustr \<Rightarrow> (ustr, json) dict \<Rightarrow> qq_link \<Rightarrow> qq_link" where
  "resolve_call echo frame l =
     (if echo \<in> set (ql_pending l) \<and> map_of (ql_futures l) echo = Some Waiting
      then l\<lparr>ql_futures := AList.update echo (Resolved frame) (ql_futures l)\<rparr> else l)"

text \<open>\<open>_fail_pending\<close> and the end of a connection.\<close>

definition fail_future :: "ustr list \<Rightarrow> ustr \<times> future \<Rightarrow> ustr \<times> future" where
  "fail_future keys ef = (if fst ef \<in> set keys \<and> snd ef = Waiting then (fst ef, Failed delivery_error) else ef)"

definition fail_pending :: "qq_link \<Rightarrow> qq_link" where
  "fail_pending l = l\<lparr>ql_futures := map (fail_future (ql_pending l)) (ql_futures l), ql_pending := []\<rparr>"

definition lose_connection :: "qq_link \<Rightarrow> qq_link" where
  "lose_connection l = fail_pending (l\<lparr>ql_connected := False\<rparr>)"

text \<open>The second half of \<open>_call\<close>: the \<open>finally\<close>, and the check of the response.\<close>

definition end_call :: "ustr \<Rightarrow> qq_link \<Rightarrow> qq_link" where
  "end_call echo l = l\<lparr>ql_pending := removeAll echo (ql_pending l), ql_futures := AList.delete echo (ql_futures l)\<rparr>"

definition checked_response :: "(ustr, json) dict \<Rightarrow> exn + (ustr, json) dict" where
  "checked_response response =
     (let status = get_str response (lit ''status''); retcode = get_int response (lit ''retcode'')
      in if status \<notin> {Some (lit ''ok''), Some (lit ''async'')} \<or> retcode \<notin> {Some 0, Some 1, None}
         then Inl delivery_error else Inr (dict_or (get_mapping response (lit ''data''))))"

definition call_result :: "future \<Rightarrow> (exn + (ustr, json) dict) option" where
  "call_result f = (case f of Waiting \<Rightarrow> None | Resolved response \<Rightarrow> Some (checked_response response) | Failed e \<Rightarrow> Some (Inl e))"

text \<open>The request a call sends.\<close>

definition call_frame :: "ustr \<Rightarrow> (ustr, json) dict \<Rightarrow> ustr \<Rightarrow> json" where
  "call_frame action params echo = JObj [(lit ''action'', JStr action), (lit ''params'', JObj params), (lit ''echo'', JStr echo)]"

section \<open>Sending a reply\<close>

text \<open>\<open>int(text)\<close> on ASCII digits: surrounding white space, a sign, digits with single underscores.\<close>

definition digit_groups :: "ustr \<Rightarrow> bool" where
  "digit_groups s \<longleftrightarrow> (\<forall>part \<in> set (py_split [95] s). part \<noteq> [] \<and> list_all py_digit part)"

definition py_int :: "ustr \<Rightarrow> int option" where
  "py_int text = (let s = strip text; (neg, digits) = (case s of [] \<Rightarrow> (False, [])
         | c # cs \<Rightarrow> if c = 45 then (True, cs) else if c = 43 then (False, cs) else (False, s))
     in if digit_groups digits
        then Some (let n = int (undec (filter (\<lambda>c. c \<noteq> 95) digits)) in if neg then - n else n) else None)"

definition as_onebot_id :: "ustr \<Rightarrow> json" where
  "as_onebot_id chat = (case py_int chat of Some i \<Rightarrow> JInt i | None \<Rightarrow> JStr chat)"

definition send_params :: "outbound_message \<Rightarrow> json list \<Rightarrow> (ustr, json) dict" where
  "send_params m segments = (lit ''message'', JArr segments) #
     (if om_chat_kind m = DIRECT
      then [(lit ''message_type'', JStr (lit ''private'')), (lit ''user_id'', as_onebot_id (om_chat_id m))]
      else [(lit ''message_type'', JStr (lit ''group'')), (lit ''group_id'', as_onebot_id (om_chat_id m))])"

text \<open>The loop of \<open>send_reply\<close> over the encoded messages; \<open>call\<close> is \<open>_call\<close>.\<close>

fun send_messages ::
  "(ustr \<Rightarrow> (ustr, json) dict \<Rightarrow> ('s, (ustr, json) dict) prog) \<Rightarrow> outbound_message \<Rightarrow> json list list \<Rightarrow> ustr \<Rightarrow> ('s, ustr) prog" where
  "send_messages call m [] last_message_id = retp last_message_id"
| "send_messages call m (segments # rest) last_message_id =
     bindp (call (lit ''send_msg'') (send_params m segments)) (\<lambda>data.
       case get_int data (lit ''message_id'') of
         None \<Rightarrow> raisep delivery_error
       | Some i \<Rightarrow> send_messages call m rest (dec_int i))"

definition qq_send_reply ::
  "(ustr \<Rightarrow> (ustr, json) dict \<Rightarrow> ('s, (ustr, json) dict) prog) \<Rightarrow> (ustr, ustr) dict \<Rightarrow> outbound_message \<Rightarrow> ('s, ustr) prog" where
  "qq_send_reply call meme_intents m =
     bindp (of_result (encode_qq_reply (om_plan m) qq_capabilities (om_reply_to m) (Some meme_intents)))
       (\<lambda>messages. send_messages call m messages [])"

section \<open>Incoming frames\<close>

record 's qq_port =
  qp_connection_id :: ustr
  qp_loads :: "ustr \<Rightarrow> json option"
  qp_uuid :: "('s, ustr) prog"
  qp_timestamp_fault :: "int \<Rightarrow> ustr"
  qp_publish :: "inbound_event \<Rightarrow> ('s, unit) prog"
  qp_resolve :: "ustr \<Rightarrow> (ustr, json) dict \<Rightarrow> 's \<Rightarrow> 's"

definition qq_dispatch :: "'s qq_port \<Rightarrow> ustr \<Rightarrow> ('s, unit) prog" where
  "qq_dispatch q raw = (case qp_loads q raw of
       None \<Rightarrow> retp ()
     | Some decoded \<Rightarrow> (case as_string_mapping decoded of
         None \<Rightarrow> retp ()
       | Some frame \<Rightarrow> (case get_str frame (lit ''echo'') of
           Some echo \<Rightarrow> liftp (\<lambda>s. ((), qp_resolve q echo frame s))
         | None \<Rightarrow> bindp (qp_uuid q) (\<lambda>trace.
             case translate_qq_event (qp_timestamp_fault q) trace frame (qp_connection_id q)
                    (int_or (get_int frame (lit ''self_id'')) 0) of
               Inl Cancelled \<Rightarrow> raisep Cancelled
             | Inl (Raised _) \<Rightarrow> retp ()
             | Inr None \<Rightarrow> retp ()
             | Inr (Some ev) \<Rightarrow> qp_publish q ev))))"

text \<open>The headers of the connection: a token only when one is set.\<close>

definition connect_headers :: "ustr option \<Rightarrow> (ustr, ustr) dict" where
  "connect_headers access_token = (case access_token of
       Some (c # cs) \<Rightarrow> [(lit ''Authorization'', lit ''Bearer '' @ c # cs)]
     | _ \<Rightarrow> [])"

text \<open>One connection of \<open>run\<close>: the frames it brings, dispatched in order.\<close>

fun dispatch_frames :: "'s qq_port \<Rightarrow> ustr list \<Rightarrow> ('s, unit) prog" where
  "dispatch_frames q [] = retp ()"
| "dispatch_frames q (raw # raws) = bindp (qq_dispatch q raw) (\<lambda>_. dispatch_frames q raws)"

text \<open>The pause before the next connection, with \<open>random.random()\<close> as an argument, and the
  backoff after it.\<close>

definition reconnect_delay :: "real \<Rightarrow> real \<Rightarrow> real" where
  "reconnect_delay backoff random = backoff * (0.8 + 0.4 * random)"

definition reconnect_backoff :: "real \<Rightarrow> real \<Rightarrow> real" where
  "reconnect_backoff maximum backoff = min (backoff * 2) maximum"

section \<open>The connection as a state machine\<close>

text \<open>
  The atomic steps between two suspensions of the transport's tasks. Echoes are fresh UUIDs.
  A call may also end unanswered: by its timeout, a failed send or its own cancellation.
\<close>

datatype link_event =
    Opened
  | Begun ustr
  | Frame "(ustr, json) dict"
  | Lost
  | Ended ustr "exn + (ustr, json) dict"
  | Dropped ustr

inductive link_step :: "qq_link \<Rightarrow> link_event \<Rightarrow> qq_link \<Rightarrow> bool" where
  opened: "\<not> ql_connected l \<Longrightarrow> link_step l Opened (l\<lparr>ql_connected := True\<rparr>)"
| begun: "begin_call echo l = Inr l' \<Longrightarrow> echo \<notin> fst ` set (ql_futures l) \<Longrightarrow> link_step l (Begun echo) l'"
| frame: "ql_connected l \<Longrightarrow> get_str f (lit ''echo'') = Some echo \<Longrightarrow> link_step l (Frame f) (resolve_call echo f l)"
| lost: "ql_connected l \<Longrightarrow> link_step l Lost (lose_connection l)"
| ended: "map_of (ql_futures l) echo = Some f \<Longrightarrow> call_result f = Some r \<Longrightarrow> link_step l (Ended echo r) (end_call echo l)"
| dropped: "map_of (ql_futures l) echo \<noteq> None \<Longrightarrow> link_step l (Dropped echo) (end_call echo l)"

inductive_cases link_stepE: "link_step l ev l'"

text \<open>The histories of a connection, the newest event first.\<close>

inductive link_runs :: "link_event list \<Rightarrow> qq_link \<Rightarrow> bool" where
  start: "link_runs [] link_init"
| step: "link_runs h l \<Longrightarrow> link_step l ev l' \<Longrightarrow> link_runs (ev # h) l'"

section \<open>The invariant\<close>

text \<open>What a future tells of the history: a waiting call started and the connection was not lost
  since; an answered one got a frame with its echo before that.\<close>

fun fits :: "link_event list \<Rightarrow> ustr \<Rightarrow> future \<Rightarrow> bool" where
  "fits h e Waiting = (\<exists>h1 h2. h = h1 @ Begun e # h2 \<and> Lost \<notin> set h1)"
| "fits h e (Resolved f) = (\<exists>h1 h2 h3. h = h1 @ Frame f # h2 @ Begun e # h3 \<and> Lost \<notin> set h2 \<and>
     get_str f (lit ''echo'') = Some e)"
| "fits h e (Failed x) = (x = delivery_error)"

definition link_inv :: "link_event list \<Rightarrow> qq_link \<Rightarrow> bool" where
  "link_inv h l \<longleftrightarrow> dict_wf (ql_futures l) \<and> (\<not> ql_connected l \<longrightarrow> ql_pending l = []) \<and>
     (\<forall>e f. map_of (ql_futures l) e = Some f \<longrightarrow> fits h e f \<and> (f = Waiting \<longrightarrow> e \<in> set (ql_pending l)))"

lemma fits_more:
  assumes "fits h e f" and "ev = Lost \<longrightarrow> f \<noteq> Waiting"
  shows "fits (ev # h) e f"
proof (cases f)
  case Waiting
  then obtain h1 h2 where "h = h1 @ Begun e # h2" "Lost \<notin> set h1" using assms(1) by auto
  then have "ev # h = (ev # h1) @ Begun e # h2 \<and> Lost \<notin> set (ev # h1)" using assms(2) Waiting by auto
  then show ?thesis unfolding Waiting fits.simps by blast
next
  case (Resolved g)
  then obtain h1 h2 h3 where "h = h1 @ Frame g # h2 @ Begun e # h3" "Lost \<notin> set h2" "get_str g (lit ''echo'') = Some e"
    using assms(1) by auto
  then have "ev # h = (ev # h1) @ Frame g # h2 @ Begun e # h3 \<and> Lost \<notin> set h2 \<and> get_str g (lit ''echo'') = Some e" by simp
  then show ?thesis unfolding Resolved fits.simps by blast
qed (use assms in simp)

lemma map_of_fail: "map_of (map (fail_future keys) d) e =
  map_option (\<lambda>f. if e \<in> set keys \<and> f = Waiting then Failed delivery_error else f) (map_of d e)"
  by (induction d) (auto simp: fail_future_def)

lemma link_inv_more:
  assumes "link_inv h l" and "dict_wf (ql_futures l')" and "\<not> ql_connected l' \<Longrightarrow> ql_pending l' = []"
    and "\<And>e f. map_of (ql_futures l') e = Some f \<Longrightarrow>
      (map_of (ql_futures l) e = Some f \<and> (ev = Lost \<longrightarrow> f \<noteq> Waiting) \<or> fits (ev # h) e f) \<and>
      (f = Waiting \<longrightarrow> e \<in> set (ql_pending l'))"
  shows "link_inv (ev # h) l'"
  using assms fits_more unfolding link_inv_def by metis

lemma inv_futures: "link_inv h l \<Longrightarrow> map_of (ql_futures l) e = Some f \<Longrightarrow> fits h e f \<and> (f = Waiting \<longrightarrow> e \<in> set (ql_pending l))"
  by (simp add: link_inv_def)

lemma link_inv_step:
  assumes inv: "link_inv h l" and "link_step l ev l'"
  shows "link_inv (ev # h) l'"
  using assms(2)
proof (cases rule: link_step.cases)
  case opened
  show ?thesis
    by (rule link_inv_more [OF inv]) (use inv inv_futures [OF inv] opened in \<open>simp_all add: link_inv_def del: fits.simps\<close>)
next
  case (begun echo)
  then have l': "l' = l\<lparr>ql_pending := ql_pending l @ [echo], ql_futures := AList.update echo Waiting (ql_futures l)\<rparr>"
    and c: "ql_connected l" by (auto simp: begin_call_def split: if_splits)
  have "ev # h = [] @ Begun echo # h \<and> Lost \<notin> set []" using begun by simp
  then have fit: "fits (ev # h) echo Waiting" unfolding fits.simps by blast
  show ?thesis
  proof (rule link_inv_more [OF inv])
    show "(map_of (ql_futures l) e = Some f \<and> (ev = Lost \<longrightarrow> f \<noteq> Waiting) \<or> fits (ev # h) e f) \<and>
        (f = Waiting \<longrightarrow> e \<in> set (ql_pending l'))" if "map_of (ql_futures l') e = Some f" for e f
      using that fit begun(1) inv_futures [OF inv, of e f] by (cases "e = echo") (auto simp: l' map_of_update simp del: fits.simps)
  qed (use inv c in \<open>simp_all add: link_inv_def l'\<close>)
next
  case (frame f echo)
  show ?thesis
  proof (cases "echo \<in> set (ql_pending l) \<and> map_of (ql_futures l) echo = Some Waiting")
    case True
    then have l': "l' = l\<lparr>ql_futures := AList.update echo (Resolved f) (ql_futures l)\<rparr>"
      using frame by (simp add: resolve_call_def)
    obtain h1 h2 where h: "h = h1 @ Begun echo # h2" "Lost \<notin> set h1"
      using inv_futures [OF inv, of echo Waiting] True by auto
    then have "ev # h = [] @ Frame f # h1 @ Begun echo # h2 \<and> Lost \<notin> set h1 \<and> get_str f (lit ''echo'') = Some echo"
      using frame by simp
    then have fit: "fits (ev # h) echo (Resolved f)" unfolding fits.simps by blast
    show ?thesis
    proof (rule link_inv_more [OF inv])
      show "(map_of (ql_futures l) e = Some g \<and> (ev = Lost \<longrightarrow> g \<noteq> Waiting) \<or> fits (ev # h) e g) \<and>
          (g = Waiting \<longrightarrow> e \<in> set (ql_pending l'))" if "map_of (ql_futures l') e = Some g" for e g
        using that fit frame(1) inv_futures [OF inv, of e g] by (cases "e = echo") (auto simp: l' map_of_update simp del: fits.simps)
    qed (use inv in \<open>simp_all add: link_inv_def l'\<close>)
  next
    case False
    then have l': "l' = l" using frame by (auto simp: resolve_call_def)
    show ?thesis
      by (rule link_inv_more [OF inv]) (use inv inv_futures [OF inv] frame in \<open>simp_all add: link_inv_def l' del: fits.simps\<close>)
  qed
next
  case lost
  have fut: "ql_futures l' = map (fail_future (ql_pending l)) (ql_futures l)" "ql_pending l' = []"
    using lost by (simp_all add: lose_connection_def fail_pending_def)
  have keys: "map fst (map (fail_future keys) d) = map fst d" for keys d
    by (induction d) (auto simp: fail_future_def)
  show ?thesis
  proof (rule link_inv_more [OF inv])
    show "dict_wf (ql_futures l')" using inv unfolding fut dict_wf_def keys by (simp add: link_inv_def dict_wf_def)
    show "(map_of (ql_futures l) e = Some f \<and> (ev = Lost \<longrightarrow> f \<noteq> Waiting) \<or> fits (ev # h) e f) \<and>
        (f = Waiting \<longrightarrow> e \<in> set (ql_pending l'))" if m: "map_of (ql_futures l') e = Some f" for e f
    proof -
      obtain g where g: "map_of (ql_futures l) e = Some g"
        "f = (if e \<in> set (ql_pending l) \<and> g = Waiting then Failed delivery_error else g)"
        using m by (auto simp: fut map_of_fail)
      show ?thesis
      proof (cases "g = Waiting")
        case True
        then show ?thesis using g inv_futures [OF inv g(1)] by auto
      next
        case False
        then show ?thesis using g by simp
      qed
    qed
  qed (simp add: fut)
next
  case (ended echo f r)
  show ?thesis
    by (rule link_inv_more [OF inv])
      (use inv inv_futures [OF inv] ended in \<open>auto simp: link_inv_def end_call_def map_of_delete simp del: fits.simps split: if_splits\<close>)
next
  case (dropped echo)
  show ?thesis
    by (rule link_inv_more [OF inv])
      (use inv inv_futures [OF inv] dropped in \<open>auto simp: link_inv_def end_call_def map_of_delete simp del: fits.simps split: if_splits\<close>)
qed

lemma link_runs_inv: "link_runs h l \<Longrightarrow> link_inv h l"
proof (induction rule: link_runs.induct)
  case start
  then show ?case by (simp add: link_inv_def link_init_def)
next
  case (step h l ev l')
  then show ?case using link_inv_step by blast
qed

inductive_cases link_runsE: "link_runs (ev # h) l"

section \<open>Properties\<close>

text \<open>
  a QQ call never takes another call's answer: when it ends with data, a frame with its
  own echo, whose status the check admits, had come in after the call started, on the
  connection it was sent on.
\<close>

theorem answered_by_own_frame:
  assumes "link_runs (Ended e (Inr d) # h) l"
  shows "\<exists>f h1 h2 h3. h = h1 @ Frame f # h2 @ Begun e # h3 \<and> Lost \<notin> set h2 \<and>
    get_str f (lit ''echo'') = Some e \<and> checked_response f = Inr d"
  using assms
proof (cases rule: link_runs.cases)
  case (step l0)
  from step(2) obtain f where f: "map_of (ql_futures l0) e = Some f" "call_result f = Some (Inr d)"
    by (auto elim: link_stepE)
  then obtain g where g: "f = Resolved g" "checked_response g = Inr d"
    by (auto simp: call_result_def split: future.splits)
  have "fits h e f" using link_runs_inv [OF step(1)] f(1) by (simp add: link_inv_def)
  then show ?thesis using g by auto
qed

text \<open>
  no call waits on a connection that is gone: whenever the transport is not connected, the
  table of waiting calls is empty and every call that has not ended has failed or has its answer.
\<close>

theorem no_call_waits_offline:
  assumes "link_runs h l" and "\<not> ql_connected l"
  shows "ql_pending l = [] \<and> Waiting \<notin> snd ` set (ql_futures l)"
proof -
  have inv: "link_inv h l" using link_runs_inv [OF assms(1)] .
  then have "ql_pending l = []" using assms(2) by (simp add: link_inv_def)
  moreover have "f \<noteq> Waiting" if "(e, f) \<in> set (ql_futures l)" for e f
    using inv calculation that by (auto simp: link_inv_def dict_wf_def)
  ultimately show ?thesis by fastforce
qed

definition demo_answer :: "(ustr, json) dict" where
  "demo_answer = [(lit ''echo'', JStr [49]), (lit ''status'', JStr (lit ''ok'')), (lit ''data'', JObj [(lit ''message_id'', JInt 3)])]"

lemma demo_link:
  "link_runs [Ended [49] (Inr [(lit ''message_id'', JInt 3)]), Lost, Frame demo_answer, Begun [50], Begun [49], Opened]
     \<lparr>ql_connected = False, ql_pending = [], ql_futures = [([50], Failed delivery_error)]\<rparr>"
proof -
  let ?l1 = "\<lparr>ql_connected = True, ql_pending = [], ql_futures = []\<rparr>"
  let ?l2 = "\<lparr>ql_connected = True, ql_pending = [[49]], ql_futures = [([49], Waiting)]\<rparr>"
  let ?l3 = "\<lparr>ql_connected = True, ql_pending = [[49], [50]], ql_futures = [([49], Waiting), ([50], Waiting)]\<rparr>"
  let ?l4 = "\<lparr>ql_connected = True, ql_pending = [[49], [50]], ql_futures = [([49], Resolved demo_answer), ([50], Waiting)]\<rparr>"
  let ?l5 = "\<lparr>ql_connected = False, ql_pending = [], ql_futures = [([49], Resolved demo_answer), ([50], Failed delivery_error)]\<rparr>"
  have "link_runs [Opened] ?l1"
    using link_runs.step [OF link_runs.start link_step.opened] by (simp add: link_init_def)
  from link_runs.step [OF this link_step.begun [of "[49]" _ ?l2]] have "link_runs [Begun [49], Opened] ?l2"
    by (simp add: begin_call_def)
  from link_runs.step [OF this link_step.begun [of "[50]" _ ?l3]] have "link_runs [Begun [50], Begun [49], Opened] ?l3"
    by (simp add: begin_call_def)
  from link_runs.step [OF this link_step.frame [of _ demo_answer "[49]"]]
  have "link_runs [Frame demo_answer, Begun [50], Begun [49], Opened] ?l4"
    by (simp add: resolve_call_def get_str_def payload_get_def dict_get_def demo_answer_def)
  from link_runs.step [OF this link_step.lost]
  have "link_runs [Lost, Frame demo_answer, Begun [50], Begun [49], Opened] ?l5"
    by (simp add: lose_connection_def fail_pending_def fail_future_def)
  from link_runs.step [OF this link_step.ended [of _ "[49]" "Resolved demo_answer" "Inr [(lit ''message_id'', JInt 3)]"]]
  show ?thesis
    by (simp add: call_result_def checked_response_def demo_answer_def get_str_def get_int_def get_mapping_def payload_get_def
        dict_get_def dict_or_def end_call_def str_simps)
qed

theorem answered_by_own_frame_witness:
  "\<exists>f h1 h2 h3. [Lost, Frame demo_answer, Begun [50], Begun [49], Opened] = h1 @ Frame f # h2 @ Begun [49] # h3 \<and> Lost \<notin> set h2 \<and>
    get_str f (lit ''echo'') = Some [49] \<and> checked_response f = Inr [(lit ''message_id'', JInt 3)]"
  by (rule answered_by_own_frame [OF demo_link])

theorem no_call_waits_offline_witness:
  "Waiting \<notin> snd ` set (ql_futures \<lparr>ql_connected = False, ql_pending = [], ql_futures = [([50], Failed delivery_error)]\<rparr>)"
  using no_call_waits_offline [OF demo_link] by simp

end
