(* ===== verification/Proactive.thy ===== *)
theory Proactive
  imports MemoryService Gateway
begin

text \<open>
  Scheduled check-ins, \<open>services/proactive.py\<close>: one pass goes through the conversations that
  opted in, and sends to each at most one message a model found worth sending. The services
  are the fields of \<open>proactive\<close>. The locale \<open>heartbeat_ports\<close> says which of them touch the
  outbound stream and the once-keys; it is interpreted on the in-memory transport with the
  message tables. The main results: nothing is sent in quiet hours or while the feature is
  off, a message goes only to an opted-in conversation that is not ephemeral, and over two
  passes less than the interval apart no conversation gets a second one.
\<close>

section \<open>The prompt\<close>

definition heartbeat_ok :: ustr where
  "heartbeat_ok = lit ''HEARTBEAT_OK''"

definition optin_key :: ustr where
  "optin_key = lit ''proactive.enabled_conversations''"

definition heartbeat_system_prompt :: ustr where
  "heartbeat_system_prompt = lit (''This is a scheduled heartbeat, not a user request. Decide whether a short message would '' @
     ''be genuinely useful or caring based only on the supplied recent conversation and durable '' @
     ''core memory. If there is no concrete reason to interrupt, return exactly HEARTBEAT_OK. '' @
     ''Otherwise return one brief natural message in the conversation language, referencing a '' @
     ''real recent topic when appropriate. Do not invent events, urgency, or obligations.'')"

definition in_quiet_hours :: "int \<Rightarrow> int \<Rightarrow> int \<Rightarrow> bool" where
  "in_quiet_hours hour start stop =
     (if start = stop then False
      else if start < stop then start \<le> hour \<and> hour < stop
      else start \<le> hour \<or> hour < stop)"

text \<open>\<open>datetime.hour\<close> of a UTC instant in microseconds, and \<open>int(timestamp())\<close>.\<close>

definition hour_of :: "int \<Rightarrow> int" where
  "hour_of t = t div 3600000000 mod 24"

definition timestamp_of :: "int \<Rightarrow> int" where
  "timestamp_of t = t div 1000000"

text \<open>\<open>Platform(value)\<close> and \<open>ChatKind(value)\<close>.\<close>

definition platform_named :: "ustr \<Rightarrow> exn + platform" where
  "platform_named v = (case find (\<lambda>p. platform_value p = v) [QQ, TELEGRAM, SANDBOX] of
       Some p \<Rightarrow> Inr p | None \<Rightarrow> Inl (Raised (lit ''ValueError'')))"

definition chat_kind_named :: "ustr \<Rightarrow> exn + chat_kind" where
  "chat_kind_named v = (case find (\<lambda>k. chat_kind_value k = v) [DIRECT, GROUP, CHANNEL] of
       Some k \<Rightarrow> Inr k | None \<Rightarrow> Inl (Raised (lit ''ValueError'')))"

definition heartbeat_envelope :: "conversation_row \<Rightarrow> message_text list \<Rightarrow> int \<Rightarrow> ustr \<Rightarrow> exn + envelope" where
  "heartbeat_envelope detail recent now trace =
     (let latest = find (\<lambda>m. mt_direction m = inbound_direction) recent;
          sender = (case latest of Some m \<Rightarrow> mt_sender m | None \<Rightarrow> cv_platform detail @ lit '':unknown'');
          topic = (case latest of Some m \<Rightarrow> mt_text m | None \<Rightarrow> lit ''scheduled heartbeat'')
      in bindr (platform_named (cv_platform detail)) (\<lambda>p.
         bindr (chat_kind_named (cv_chat_kind detail)) (\<lambda>k.
         bindr (build_segment (TextSegment topic)) (\<lambda>seg.
         build_envelope \<lparr>env_id = lit ''heartbeat:'' @ cv_id detail @ lit '':'' @ dec_int (timestamp_of now),
           env_connection_id = cv_connection_id detail, env_platform = p, env_chat_kind = k,
           env_chat_id = cv_chat_id detail, env_thread_id = None, env_sender_identity_id = sender,
           env_occurred_at = now, env_segments = [seg], env_reply_to_message_id = None, env_raw_ref = None,
           env_trace_id = trace, env_ephemeral = False\<rparr>))))"

definition recent_context :: "conversation_row \<Rightarrow> message_text list \<Rightarrow> ustr" where
  "recent_context detail recent = py_join newline
     ([lit ''Conversation: '' @ cv_stable_key detail, lit ''Recent messages, oldest first:'']
      @ map (\<lambda>m. mt_direction m @ lit '':'' @ mt_sender m @ lit '': '' @ mt_text m) (rev recent)
      @ (if recent = [] then [lit ''(no recent text available)''] else []))"

section \<open>The pass\<close>

record proactive_audit =
  pq_conversation :: ustr
  pq_profile :: "ustr option"
  pq_persona :: "ustr option"
  pq_outcome :: ustr
  pq_response :: "ustr option"
  pq_model :: "ustr option"
  pq_prompt_tokens :: int
  pq_completion_tokens :: int
  pq_error :: "ustr option"

record 's proactive =
  pz_config :: "ustr \<Rightarrow> ('s, json option) prog"
  pz_lookup :: "ustr \<Rightarrow> ('s, conversation_row option) prog"
  pz_record :: "ustr \<Rightarrow> reply_plan \<Rightarrow> ustr \<Rightarrow> ('s, ustr) prog"
  pz_turn :: "turn_row \<Rightarrow> ('s, ustr) prog"
  pz_publish :: "outbound_message \<Rightarrow> ('s, unit) prog"
  pz_once :: "ustr \<Rightarrow> int \<Rightarrow> ('s, bool) prog"
  pz_history :: "(ustr \<Rightarrow> nat \<Rightarrow> ('s, message_text list) prog) option"
  pz_llm :: "(call_context \<Rightarrow> chat_message list \<Rightarrow> (llm_exn, 's, llm_reply) eprog) option"
  pz_profiles :: "(ustr \<Rightarrow> ('s, resolved_profile) prog) option"
  pz_core :: "(envelope \<Rightarrow> ('s, ustr option) prog) option"
  pz_audit :: "(proactive_audit \<Rightarrow> ('s, unit) prog) option"
  pz_now :: "'s \<Rightarrow> int"
  pz_uuid :: "('s, ustr) prog"
  pz_str :: "json \<Rightarrow> ustr"
  pz_upper :: "ustr \<Rightarrow> ustr"
  pz_enabled :: bool
  pz_message :: ustr
  pz_system_prompt :: ustr
  pz_context_messages :: nat
  pz_min_interval_hours :: real
  pz_quiet_start :: int
  pz_quiet_end :: int
  pz_key_prefix :: ustr

definition heartbeat_audit ::
  "('s, 'z) proactive_scheme \<Rightarrow> conversation_row \<Rightarrow> resolved_profile option \<Rightarrow> string \<Rightarrow> ustr option \<Rightarrow> llm_reply option
     \<Rightarrow> ustr option \<Rightarrow> ('s, unit) prog" where
  "heartbeat_audit p detail profile outcome response reply error_code = (case pz_audit p of
       None \<Rightarrow> retp ()
     | Some put \<Rightarrow> catchp (put \<lparr>pq_conversation = cv_id detail,
           pq_profile = map_option (\<lambda>r. ap_id (rs_profile r)) profile,
           pq_persona = map_option (\<lambda>r. pv_id (rs_persona r)) profile, pq_outcome = lit outcome,
           pq_response = response, pq_model = map_option lr_model reply,
           pq_prompt_tokens = (case reply of None \<Rightarrow> 0 | Some r \<Rightarrow> lr_prompt_tokens r),
           pq_completion_tokens = (case reply of None \<Rightarrow> 0 | Some r \<Rightarrow> lr_completion_tokens r),
           pq_error = error_code\<rparr>) (\<lambda>_. retp ()))"

text \<open>The message of a plan for a conversation; the table holds validated values.\<close>

definition heartbeat_message :: "ustr \<Rightarrow> conversation_row \<Rightarrow> reply_plan \<Rightarrow> ustr \<Rightarrow> exn + outbound_message" where
  "heartbeat_message mid detail plan trace =
     bindr (platform_named (cv_platform detail)) (\<lambda>pl.
     bindr (chat_kind_named (cv_chat_kind detail)) (\<lambda>k.
       if strip (cv_connection_id detail) \<noteq> [] \<and> strip (cv_chat_id detail) \<noteq> [] \<and> strip trace \<noteq> []
       then Inr \<lparr>om_id = mid, om_platform = pl, om_connection_id = strip (cv_connection_id detail), om_chat_kind = k,
              om_chat_id = strip (cv_chat_id detail), om_plan = plan, om_reply_to = None, om_trace_id = strip trace\<rparr>
       else Inl validation_error))"

definition heartbeat_decision :: turn_decision where
  "heartbeat_decision = \<lparr>td_action = DIRECT_REPLY, td_reason = lit ''scheduled profile-aware heartbeat'',
     td_confidence = 1, td_trigger = PROACTIVE\<rparr>"

definition heartbeat_turn :: "conversation_row \<Rightarrow> llm_reply option \<Rightarrow> turn_row" where
  "heartbeat_turn detail reply = \<lparr>tw_conversation_id = cv_id detail, tw_decision = heartbeat_decision,
     tw_outcome = lit ''replied'', tw_inbound_message_id = None, tw_model = map_option lr_model reply,
     tw_prompt_tokens = (case reply of None \<Rightarrow> 0 | Some r \<Rightarrow> lr_prompt_tokens r),
     tw_completion_tokens = (case reply of None \<Rightarrow> 0 | Some r \<Rightarrow> lr_completion_tokens r),
     tw_latency_ms = 0, tw_error = None\<rparr>"

definition heartbeat_send ::
  "('s, 'z) proactive_scheme \<Rightarrow> conversation_row \<Rightarrow> ustr \<Rightarrow> resolved_profile option \<Rightarrow> llm_reply option \<Rightarrow> ('s, unit) prog" where
  "heartbeat_send p detail text profile reply =
     bindp (of_result (mk_reply_plan [text] [] [] None (typing_default False))) (\<lambda>plan.
     bindp (pz_uuid p) (\<lambda>trace.
     bindp (pz_record p (cv_id detail) plan trace) (\<lambda>mid.
     bindp (of_result (heartbeat_message mid detail plan trace)) (\<lambda>m.
     bindp (pz_publish p m) (\<lambda>_.
     bindp (pz_turn p (heartbeat_turn detail reply)) (\<lambda>_.
       heartbeat_audit p detail profile ''sent'' (Some text) reply None))))))"

definition opt_call :: "'f option \<Rightarrow> ('f \<Rightarrow> ('s, 'a) prog) \<Rightarrow> ('s, 'a option) prog" where
  "opt_call hook f = (case hook of None \<Rightarrow> retp None | Some h \<Rightarrow> bindp (f h) (\<lambda>x. retp (Some x)))"

definition heartbeat_prompt ::
  "('s, 'z) proactive_scheme \<Rightarrow> conversation_row \<Rightarrow> resolved_profile option \<Rightarrow> message_text list \<Rightarrow> ustr option \<Rightarrow> chat_message list" where
  "heartbeat_prompt p detail profile recent core =
     [plain_message (lit ''system'') (ContentText (case profile of Some r \<Rightarrow> pv_system_prompt (rs_persona r) | None \<Rightarrow> pz_system_prompt p)),
      plain_message (lit ''system'') (ContentText heartbeat_system_prompt)]
     @ (case core of Some (c # cs) \<Rightarrow> [plain_message (lit ''system'') (ContentText (c # cs))] | _ \<Rightarrow> [])
     @ [plain_message (lit ''user'') (ContentText (recent_context detail recent))]"

text \<open>What is made of the model's reply.\<close>

definition heartbeat_reply ::
  "('s, 'z) proactive_scheme \<Rightarrow> conversation_row \<Rightarrow> resolved_profile option \<Rightarrow> llm_reply \<Rightarrow> ('s, bool) prog" where
  "heartbeat_reply p detail profile reply =
     (let text = strip (lr_text reply)
      in if text = [] \<or> pz_upper p text = heartbeat_ok
         then bindp (heartbeat_audit p detail profile ''suppressed'' (if text = [] then None else Some text) (Some reply) None)
                (\<lambda>_. retp False)
         else bindp (heartbeat_send p detail text profile (Some reply)) (\<lambda>_. retp True))"

definition generate_and_send :: "('s, 'z) proactive_scheme \<Rightarrow> conversation_row \<Rightarrow> ('s, bool) prog" where
  "generate_and_send p detail =
     bindp (opt_call (pz_profiles p) (\<lambda>f. f (cv_id detail))) (\<lambda>profile.
     bindp (opt_call (pz_history p) (\<lambda>f. f (cv_id detail) (pz_context_messages p))) (\<lambda>history.
     let recent = (case history of None \<Rightarrow> [] | Some ms \<Rightarrow> ms) in
     case pz_llm p of
       None \<Rightarrow> bindp (heartbeat_send p detail (pz_message p) profile None) (\<lambda>_. retp True)
     | Some llm \<Rightarrow>
         bindp (getp (pz_now p)) (\<lambda>now.
         bindp (pz_uuid p) (\<lambda>trace.
         bindp (of_result (heartbeat_envelope detail recent now trace)) (\<lambda>e.
         bindp (opt_call (pz_core p) (\<lambda>f. f e)) (\<lambda>core.
           catch_llm (llm (model_context (cv_id detail) profile)
                        (heartbeat_prompt p detail profile recent (case core of None \<Rightarrow> None | Some c \<Rightarrow> c)))
             (heartbeat_reply p detail profile)
             (bindp (heartbeat_audit p detail profile ''error'' None None (Some (lit ''heartbeat_llm_failed'')))
                (\<lambda>_. retp False))))))))"

definition interval_seconds :: "('s, 'z) proactive_scheme \<Rightarrow> int" where
  "interval_seconds p = max 60 \<lfloor>pz_min_interval_hours p * 3600\<rfloor>"

definition guarded_send :: "('s, 'z) proactive_scheme \<Rightarrow> conversation_row \<Rightarrow> ('s, int) prog" where
  "guarded_send p detail =
     catchp (bindp (generate_and_send p detail) (\<lambda>b. retp (if b then 1 else 0)))
       (\<lambda>_. bindp (heartbeat_audit p detail None ''error'' None None (Some (lit ''heartbeat_generation_failed''))) (\<lambda>_. retp 0))"

definition once_key :: "('s, 'z) proactive_scheme \<Rightarrow> ustr \<Rightarrow> ustr" where
  "once_key p k = pz_key_prefix p @ lit '':'' @ k"

definition visit_conversation :: "('s, 'z) proactive_scheme \<Rightarrow> ustr \<Rightarrow> ('s, int) prog" where
  "visit_conversation p k =
     (if k = [] then retp 0
      else bindp (pz_lookup p k) (\<lambda>found. case found of
             None \<Rightarrow> retp 0
           | Some detail \<Rightarrow>
               if cv_ephemeral detail then retp 0
               else bindp (pz_once p (once_key p k) (interval_seconds p))
                      (\<lambda>due. if \<not> due then retp 0 else guarded_send p detail)))"

fun sweep_conversations :: "('s, 'z) proactive_scheme \<Rightarrow> json list \<Rightarrow> int \<Rightarrow> ('s, int) prog" where
  "sweep_conversations p [] sent = retp sent"
| "sweep_conversations p (entry # rest) sent =
     bindp (visit_conversation p (strip (pz_str p entry))) (\<lambda>n. sweep_conversations p rest (sent + n))"

definition proactive_pass :: "('s, 'z) proactive_scheme \<Rightarrow> ('s, int) prog" where
  "proactive_pass p =
     (if \<not> pz_enabled p then retp 0
      else bindp (getp (pz_now p)) (\<lambda>now.
        if in_quiet_hours (hour_of now) (pz_quiet_start p) (pz_quiet_end p) then retp 0
        else bindp (pz_config p optin_key) (\<lambda>raw. case raw of
               Some (JArr entries) \<Rightarrow> sweep_conversations p entries 0
             | _ \<Rightarrow> retp 0)))"

section \<open>The contract of the ports\<close>

definition for_row :: "conversation_row \<Rightarrow> outbound_message \<Rightarrow> bool" where
  "for_row detail m \<longleftrightarrow> platform_value (om_platform m) = cv_platform detail \<and> chat_kind_value (om_chat_kind m) = cv_chat_kind detail \<and>
     om_connection_id m = strip (cv_connection_id detail) \<and> om_chat_id m = strip (cv_chat_id detail)"

text \<open>The stable keys that opted in, as a configured value names them.\<close>

definition opted_in :: "('s, 'z) proactive_scheme \<Rightarrow> json option \<Rightarrow> ustr set" where
  "opted_in p raw = (case raw of Some (JArr entries) \<Rightarrow> (\<lambda>e. strip (pz_str p e)) ` set entries | _ \<Rightarrow> {})"

text \<open>
  \<open>outbox\<close> is the outbound stream, \<open>held s k\<close> says that the once-key \<open>k\<close> is in force. Only
  \<open>publish\<close> and \<open>acquire_once\<close> touch them.
\<close>

locale heartbeat_ports =
  fixes p :: "'s proactive"
    and outbox :: "'s \<Rightarrow> outbound_message list"
    and held :: "'s \<Rightarrow> ustr \<Rightarrow> bool"
  assumes config_frame: "moves (same_view (\<lambda>s. (outbox s, held s))) (pz_config p key)"
    and lookup_frame: "moves (same_view (\<lambda>s. (outbox s, held s))) (pz_lookup p k)"
    and lookup_key: "pz_lookup p k s = (Inr (Some detail), s') \<Longrightarrow> cv_stable_key detail = k"
    and record_frame: "moves (same_view (\<lambda>s. (outbox s, held s))) (pz_record p cid plan trace)"
    and turn_frame: "moves (same_view (\<lambda>s. (outbox s, held s))) (pz_turn p turn)"
    and uuid_frame: "moves (same_view (\<lambda>s. (outbox s, held s))) (pz_uuid p)"
    and history_frame: "pz_history p = Some h \<Longrightarrow> moves (same_view (\<lambda>s. (outbox s, held s))) (h cid n)"
    and llm_frame: "pz_llm p = Some f \<Longrightarrow> moves (same_view (\<lambda>s. (outbox s, held s))) (f ctx ms)"
    and profiles_frame: "pz_profiles p = Some g \<Longrightarrow> moves (same_view (\<lambda>s. (outbox s, held s))) (g cid)"
    and core_frame: "pz_core p = Some c \<Longrightarrow> moves (same_view (\<lambda>s. (outbox s, held s))) (c e)"
    and audit_frame: "pz_audit p = Some a \<Longrightarrow> moves (same_view (\<lambda>s. (outbox s, held s))) (a entry)"
    and publish_held: "moves (same_view held) (pz_publish p m)"
    and publish_sends: "pz_publish p m s = (Inr u, s') \<Longrightarrow> outbox s' = outbox s @ [m]"
    and publish_fails: "pz_publish p m s = (Inl x, s') \<Longrightarrow> outbox s' = outbox s"
    and once_frame: "moves (same_view outbox) (pz_once p key ttl)"
    and once_takes: "pz_once p key (interval_seconds p) s = (Inr due, s') \<Longrightarrow>
      (due \<longrightarrow> \<not> held s key) \<and> held s' = (if due then (held s)(key := True) else held s)"
    and once_fails: "pz_once p key (interval_seconds p) s = (Inl x, s') \<Longrightarrow> held s' = held s"
begin

abbreviation ports :: "'s \<Rightarrow> outbound_message list \<times> (ustr \<Rightarrow> bool)" where
  "ports s \<equiv> (outbox s, held s)"

text \<open>A program that sends at most one message, and that to the conversation \<open>detail\<close>.\<close>

definition one_post :: "conversation_row \<Rightarrow> ('s, 'a) prog \<Rightarrow> bool" where
  "one_post detail prg \<longleftrightarrow> moves (\<lambda>s s'. held s' = held s \<and>
     (outbox s' = outbox s \<or> (\<exists>m. outbox s' = outbox s @ [m] \<and> for_row detail m))) prg"

lemma quiet_one_post: "moves (same_view ports) prg \<Longrightarrow> one_post detail prg"
  by (simp add: one_post_def moves_def same_view_def)

lemma one_post_after:
  assumes "moves (same_view ports) prg" and "\<And>x. one_post detail (f x)"
  shows "one_post detail (bindp prg f)"
  unfolding one_post_def
proof (rule movesI)
  fix s r s'
  assume "bindp prg f s = (r, s')"
  then show "held s' = held s \<and> (outbox s' = outbox s \<or> (\<exists>m. outbox s' = outbox s @ [m] \<and> for_row detail m))"
  proof (cases rule: bindp_cases)
    case (raises e)
    then show ?thesis using movesD [OF assms(1) raises(1)] by (simp add: same_view_def)
  next
    case (returned x s1)
    then show ?thesis using movesD [OF assms(1) returned(1)] movesD [OF assms(2) [unfolded one_post_def] returned(2)]
      by (simp add: same_view_def)
  qed
qed

lemma one_post_then:
  assumes "one_post detail prg" and "\<And>x. moves (same_view ports) (f x)"
  shows "one_post detail (bindp prg f)"
  unfolding one_post_def
proof (rule movesI)
  fix s r s'
  assume "bindp prg f s = (r, s')"
  then show "held s' = held s \<and> (outbox s' = outbox s \<or> (\<exists>m. outbox s' = outbox s @ [m] \<and> for_row detail m))"
  proof (cases rule: bindp_cases)
    case (raises e)
    then show ?thesis using movesD [OF assms(1) [unfolded one_post_def] raises(1)] by simp
  next
    case (returned x s1)
    then show ?thesis using movesD [OF assms(1) [unfolded one_post_def] returned(1)] movesD [OF assms(2) returned(2)]
      by (simp add: same_view_def)
  qed
qed

lemma one_post_catch:
  assumes "one_post detail prg" and "\<And>n. moves (same_view ports) (h n)"
  shows "one_post detail (catchp prg h)"
  unfolding one_post_def
proof (rule movesI)
  fix s r s'
  assume c: "catchp prg h s = (r, s')"
  obtain q s1 where q: "prg s = (q, s1)" by fastforce
  have "moves (same_view ports) (\<lambda>s2. case q of Inl (Raised n) \<Rightarrow> h n s2 | _ \<Rightarrow> (r, s2))"
    using assms(2) by (auto simp: moves_def same_view_def split: sum.split exn.split)
  then have "ports s' = ports s1"
    using c q by (auto simp: catchp_def moves_def same_view_def split: sum.splits exn.splits dest: spec [of _ s1])
  then show "held s' = held s \<and> (outbox s' = outbox s \<or> (\<exists>m. outbox s' = outbox s @ [m] \<and> for_row detail m))"
    using movesD [OF assms(1) [unfolded one_post_def] q] by simp
qed

lemma one_post_llm:
  assumes "moves (same_view ports) prg" and "\<And>x. one_post detail (f x)" and "one_post detail h"
  shows "one_post detail (catch_llm prg f h)"
  unfolding one_post_def
proof (rule movesI)
  fix s r s'
  assume c: "catch_llm prg f h s = (r, s')"
  obtain q s1 where q: "prg s = (q, s1)" by fastforce
  have k: "ports s1 = ports s" using movesD [OF assms(1) q] by (simp add: same_view_def)
  show "held s' = held s \<and> (outbox s' = outbox s \<or> (\<exists>m. outbox s' = outbox s @ [m] \<and> for_row detail m))"
  proof (cases q)
    case (Inr x)
    then have "f x s1 = (r, s')" using c q by (simp add: catch_llm_def)
    then show ?thesis using movesD [OF assms(2) [unfolded one_post_def]] k by fastforce
  next
    case (Inl e)
    show ?thesis
    proof (cases e)
      case (LlmError msg retryable)
      then have "h s1 = (r, s')" using c q Inl by (simp add: catch_llm_def)
      then show ?thesis using movesD [OF assms(3) [unfolded one_post_def]] k by fastforce
    next
      case (LlmOther x)
      then show ?thesis using c q Inl k by (simp add: catch_llm_def)
    qed
  qed
qed

lemma quiet_audit: "moves (same_view ports) (heartbeat_audit p detail profile outcome response reply err)"
  unfolding heartbeat_audit_def by (intro moves_intro same_view_refl same_view_trans audit_frame)

lemma quiet_call: "(\<And>h. hook = Some h \<Longrightarrow> moves (same_view ports) (f h)) \<Longrightarrow> moves (same_view ports) (opt_call hook f)"
  unfolding opt_call_def by (intro moves_intro same_view_refl same_view_trans) simp_all

lemma message_for_row: "heartbeat_message mid detail plan trace = Inr m \<Longrightarrow> for_row detail m"
  by (auto simp: heartbeat_message_def for_row_def platform_named_def chat_kind_named_def bindr_eq_Inr
      split: option.splits if_splits)

lemma one_post_publish: "for_row detail m \<Longrightarrow> one_post detail (pz_publish p m)"
  unfolding one_post_def
proof (rule movesI)
  fix s r s'
  assume row: "for_row detail m" and run: "pz_publish p m s = (r, s')"
  have "held s' = held s" using movesD [OF publish_held run] by (simp add: same_view_def)
  then show "held s' = held s \<and> (outbox s' = outbox s \<or> (\<exists>m. outbox s' = outbox s @ [m] \<and> for_row detail m))"
    using run row publish_sends publish_fails by (cases r) auto
qed

lemma one_post_send: "one_post detail (heartbeat_send p detail text profile reply)"
proof -
  have tail: "one_post detail (bindp (of_result (heartbeat_message mid detail plan trace)) (\<lambda>m.
      bindp (pz_publish p m) (\<lambda>_. bindp (pz_turn p row) (\<lambda>_. heartbeat_audit p detail profile result resp reply err))))"
    for mid plan trace row result resp err
  proof (cases "heartbeat_message mid detail plan trace")
    case (Inl e)
    then show ?thesis by (simp add: of_result_def bindp_def quiet_one_post moves_def same_view_def)
  next
    case (Inr m)
    have "one_post detail (bindp (pz_publish p m) (\<lambda>_. bindp (pz_turn p row) (\<lambda>_. heartbeat_audit p detail profile result resp reply err)))"
      by (intro one_post_then one_post_publish message_for_row [OF Inr] moves_intro same_view_trans turn_frame quiet_audit)
    then show ?thesis using Inr by (simp add: of_result_def)
  qed
  show ?thesis unfolding heartbeat_send_def
    by (intro one_post_after [OF moves_of_result [OF same_view_refl]] one_post_after [OF uuid_frame] one_post_after [OF record_frame] tail)
qed

lemma quiet_retp: "moves (same_view ports) (retp x)"
  by (simp add: moves_retp)

lemma one_post_generate: "one_post detail (generate_and_send p detail)"
proof -
  have reply: "one_post detail (heartbeat_reply p detail profile reply)" for profile reply
  proof -
    have "one_post detail (bindp (heartbeat_send p detail t profile (Some reply)) (\<lambda>_. retp True))" for t
      by (intro one_post_then one_post_send quiet_retp)
    moreover have "one_post detail (bindp (heartbeat_audit p detail profile o' r' (Some reply) e') (\<lambda>_. retp False))" for o' r' e'
      by (intro one_post_after quiet_audit quiet_one_post quiet_retp)
    ultimately show ?thesis unfolding heartbeat_reply_def Let_def by simp
  qed
  have fail: "one_post detail (bindp (heartbeat_audit p detail profile o' r' u' e') (\<lambda>_. retp False))" for profile o' r' u' e'
    by (intro one_post_after quiet_audit quiet_one_post quiet_retp)
  have model: "one_post detail (bindp (getp (pz_now p)) (\<lambda>now. bindp (pz_uuid p) (\<lambda>trace.
      bindp (of_result (heartbeat_envelope detail recent now trace)) (\<lambda>e. bindp (opt_call (pz_core p) (\<lambda>f. f e)) (\<lambda>core.
        catch_llm (llm (model_context (cv_id detail) profile)
          (heartbeat_prompt p detail profile recent (case core of None \<Rightarrow> None | Some c \<Rightarrow> c)))
          (heartbeat_reply p detail profile)
          (bindp (heartbeat_audit p detail profile ''error'' None None (Some (lit ''heartbeat_llm_failed''))) (\<lambda>_. retp False)))))))"
    if "pz_llm p = Some llm" for llm profile recent
    by (intro one_post_after [OF moves_getp [OF same_view_refl]] one_post_after [OF uuid_frame]
        one_post_after [OF moves_of_result [OF same_view_refl]] one_post_after [OF quiet_call [OF core_frame]]
        one_post_llm llm_frame [OF that] reply fail)
  have rest: "one_post detail (let recent = (case history of None \<Rightarrow> [] | Some ms \<Rightarrow> ms) in
     case pz_llm p of
       None \<Rightarrow> bindp (heartbeat_send p detail (pz_message p) profile None) (\<lambda>_. retp True)
     | Some llm \<Rightarrow> bindp (getp (pz_now p)) (\<lambda>now. bindp (pz_uuid p) (\<lambda>trace.
         bindp (of_result (heartbeat_envelope detail recent now trace)) (\<lambda>e. bindp (opt_call (pz_core p) (\<lambda>f. f e)) (\<lambda>core.
           catch_llm (llm (model_context (cv_id detail) profile)
             (heartbeat_prompt p detail profile recent (case core of None \<Rightarrow> None | Some c \<Rightarrow> c)))
             (heartbeat_reply p detail profile)
             (bindp (heartbeat_audit p detail profile ''error'' None None (Some (lit ''heartbeat_llm_failed''))) (\<lambda>_. retp False)))))))"
    for history profile
    unfolding Let_def
    by (cases "pz_llm p") (simp_all add: model one_post_then one_post_send quiet_retp)
  show ?thesis unfolding generate_and_send_def
    by (intro one_post_after [OF quiet_call [OF profiles_frame]] one_post_after [OF quiet_call [OF history_frame]] rest)
qed

lemma one_post_guarded: "one_post detail (guarded_send p detail)"
  unfolding guarded_send_def
  by (intro one_post_catch one_post_then one_post_generate quiet_retp moves_intro same_view_trans quiet_audit)

text \<open>The messages of a visit and of a sweep, each with the stable key it was sent for.\<close>

definition justified :: "'s \<Rightarrow> 's \<Rightarrow> ustr \<Rightarrow> outbound_message \<Rightarrow> bool" where
  "justified s s' k m \<longleftrightarrow> k \<noteq> [] \<and> \<not> held s (once_key p k) \<and> held s' (once_key p k) \<and>
     (\<exists>detail. cv_stable_key detail = k \<and> \<not> cv_ephemeral detail \<and> for_row detail m)"

lemma visit_posts:
  assumes "visit_conversation p k s = (r, s')"
  shows "(\<forall>x. held s x \<longrightarrow> held s' x) \<and>
    (outbox s' = outbox s \<or> (\<exists>m. outbox s' = outbox s @ [m] \<and> justified s s' k m))"
proof (cases "k = []")
  case True
  then show ?thesis using assms by (simp add: visit_conversation_def)
next
  case False
  from assms False have "bindp (pz_lookup p k) (\<lambda>found. case found of None \<Rightarrow> retp 0
      | Some detail \<Rightarrow> if cv_ephemeral detail then retp 0
          else bindp (pz_once p (once_key p k) (interval_seconds p)) (\<lambda>due. if \<not> due then retp 0 else guarded_send p detail)) s = (r, s')"
    by (simp add: visit_conversation_def)
  then show ?thesis
  proof (cases rule: bindp_cases)
    case (raises e)
    then show ?thesis using movesD [OF lookup_frame raises(1)] by (simp add: same_view_def)
  next
    case (returned found s1)
    have q: "outbox s1 = outbox s" "held s1 = held s"
      using movesD [OF lookup_frame returned(1)] by (simp_all add: same_view_def)
    show ?thesis
    proof (cases "\<exists>detail. found = Some detail \<and> \<not> cv_ephemeral detail")
      case False
      then have "s' = s1" using returned(2) by (cases found) auto
      then show ?thesis using q by simp
    next
      case True
      then obtain detail where d: "found = Some detail" "\<not> cv_ephemeral detail" by blast
      have key: "cv_stable_key detail = k" using lookup_key returned(1) d(1) by blast
      from returned(2) d have "bindp (pz_once p (once_key p k) (interval_seconds p))
          (\<lambda>due. if \<not> due then retp 0 else guarded_send p detail) s1 = (r, s')" by simp
      then show ?thesis
      proof (cases rule: bindp_cases)
        case (raises e)
        then show ?thesis using movesD [OF once_frame raises(1)] once_fails [OF raises(1)] q by (simp add: same_view_def)
      next
        case once: (returned due s2)
        have o2: "outbox s2 = outbox s" using movesD [OF once_frame once(1)] q by (simp add: same_view_def)
        have h2: "(due \<longrightarrow> \<not> held s1 (once_key p k)) \<and> held s2 = (if due then (held s1)(once_key p k := True) else held s1)"
          using once_takes [OF once(1)] .
        show ?thesis
        proof (cases due)
          case False
          then show ?thesis using once(2) o2 h2 q by simp
        next
          case due: True
          then have "guarded_send p detail s2 = (r, s')" using once(2) by simp
          then have post: "held s' = held s2 \<and> (outbox s' = outbox s2 \<or> (\<exists>m. outbox s' = outbox s2 @ [m] \<and> for_row detail m))"
            using movesD [OF one_post_guarded [unfolded one_post_def]] by blast
          have "justified s s' k m" if "for_row detail m" for m
            using that post h2 due q False key d(2) \<open>k \<noteq> []\<close> unfolding justified_def by auto
          then show ?thesis using post o2 h2 q due by auto
        qed
      qed
    qed
  qed
qed

definition sends_for :: "ustr set \<Rightarrow> 's \<Rightarrow> 's \<Rightarrow> bool" where
  "sends_for keys s s' \<longleftrightarrow> (\<forall>x. held s x \<longrightarrow> held s' x) \<and>
     (\<exists>kms. outbox s' = outbox s @ map snd kms \<and> distinct (map fst kms) \<and>
        (\<forall>(k, m) \<in> set kms. k \<in> keys \<and> justified s s' k m))"

lemma sends_for_none: "outbox s' = outbox s \<Longrightarrow> held s' = held s \<Longrightarrow> sends_for keys s s'"
  unfolding sends_for_def by (intro conjI exI [of _ "[]"]) auto

lemma sweep_posts:
  "sweep_conversations p entries sent s = (r, s') \<Longrightarrow> sends_for ((\<lambda>e. strip (pz_str p e)) ` set entries) s s'"
proof (induction entries arbitrary: sent s)
  case Nil
  then show ?case by (simp add: sends_for_none)
next
  case (Cons e entries)
  let ?k = "strip (pz_str p e)"
  from Cons.prems have "bindp (visit_conversation p ?k) (\<lambda>n. sweep_conversations p entries (sent + n)) s = (r, s')" by simp
  then show ?case
  proof (cases rule: bindp_cases)
    case (raises x)
    from visit_posts [OF raises(1)] show ?thesis
    proof (elim conjE disjE exE)
      assume m: "\<forall>x. held s x \<longrightarrow> held s' x" "outbox s' = outbox s"
      then show ?thesis unfolding sends_for_def by (intro conjI exI [of _ "[]"]) auto
    next
      fix m assume m: "\<forall>x. held s x \<longrightarrow> held s' x" "outbox s' = outbox s @ [m]" "justified s s' ?k m"
      then show ?thesis unfolding sends_for_def by (intro conjI exI [of _ "[(?k, m)]"]) auto
    qed
  next
    case (returned n s1)
    have v: "\<forall>x. held s x \<longrightarrow> held s1 x" "outbox s1 = outbox s \<or> (\<exists>m. outbox s1 = outbox s @ [m] \<and> justified s s1 ?k m)"
      using visit_posts [OF returned(1)] by auto
    obtain kms where mono: "\<forall>x. held s1 x \<longrightarrow> held s' x" and out: "outbox s' = outbox s1 @ map snd kms"
      and dist: "distinct (map fst kms)"
      and just: "\<forall>(k, m) \<in> set kms. k \<in> (\<lambda>e. strip (pz_str p e)) ` set entries \<and> justified s1 s' k m"
      using Cons.IH [OF returned(2)] unfolding sends_for_def by blast
    have lift: "justified s s' k m" if "justified s1 s' k m" for k m
      using that v(1) unfolding justified_def by blast
    have all: "\<forall>(k, m) \<in> set kms. k \<in> (\<lambda>e. strip (pz_str p e)) ` set (e # entries) \<and> justified s s' k m"
      using just lift by auto
    have held: "\<forall>x. held s x \<longrightarrow> held s' x" using v(1) mono by blast
    from v(2) show ?thesis
    proof (elim disjE exE conjE)
      assume "outbox s1 = outbox s"
      then show ?thesis unfolding sends_for_def using held out dist all by (intro conjI exI [of _ kms]) auto
    next
      fix m assume m: "outbox s1 = outbox s @ [m]" "justified s s1 ?k m"
      have "?k \<notin> fst ` set kms"
      proof
        assume "?k \<in> fst ` set kms"
        then obtain m' where "justified s1 s' ?k m'" using just by auto
        then show False using m(2) unfolding justified_def by blast
      qed
      moreover have "justified s s' ?k m" using m(2) mono unfolding justified_def by blast
      ultimately show ?thesis unfolding sends_for_def
        using held out dist all m(1) by (intro conjI exI [of _ "(?k, m) # kms"]) auto
    qed
  qed
qed

lemma pass_off:
  "\<not> pz_enabled p \<or> in_quiet_hours (hour_of (pz_now p s)) (pz_quiet_start p) (pz_quiet_end p) \<Longrightarrow> proactive_pass p s = (Inr 0, s)"
  by (cases "pz_enabled p") (simp_all add: proactive_pass_def bindp_def getp_def)

lemma pass_posts:
  assumes "proactive_pass p s = (r, s')"
  shows "sends_for (case fst (pz_config p optin_key s) of Inr raw \<Rightarrow> opted_in p raw | Inl x \<Rightarrow> {}) s s'"
    and "\<not> pz_enabled p \<or> in_quiet_hours (hour_of (pz_now p s)) (pz_quiet_start p) (pz_quiet_end p) \<Longrightarrow> s' = s"
proof -
  show "s' = s" if "\<not> pz_enabled p \<or> in_quiet_hours (hour_of (pz_now p s)) (pz_quiet_start p) (pz_quiet_end p)"
    using assms pass_off [OF that] by simp
  show "sends_for (case fst (pz_config p optin_key s) of Inr raw \<Rightarrow> opted_in p raw | Inl x \<Rightarrow> {}) s s'"
  proof (cases "\<not> pz_enabled p \<or> in_quiet_hours (hour_of (pz_now p s)) (pz_quiet_start p) (pz_quiet_end p)")
    case True
    then have "s' = s" using assms pass_off by simp
    then show ?thesis by (simp add: sends_for_none)
  next
    case False
    then have "bindp (pz_config p optin_key) (\<lambda>raw. case raw of Some (JArr entries) \<Rightarrow> sweep_conversations p entries 0 | _ \<Rightarrow> retp 0) s = (r, s')"
      using assms by (simp add: proactive_pass_def bindp_def getp_def)
    then show ?thesis
    proof (cases rule: bindp_cases)
      case (raises x)
      then show ?thesis using movesD [OF config_frame raises(1)] by (simp add: same_view_def sends_for_none)
    next
      case (returned raw s1)
      have q: "outbox s1 = outbox s" "held s1 = held s" using movesD [OF config_frame returned(1)] by (simp_all add: same_view_def)
      have move: "sends_for keys s1 s' = sends_for keys s s'" for keys
        by (simp add: sends_for_def justified_def q)
      have "sends_for (opted_in p raw) s1 s'"
      proof (cases "\<exists>entries. raw = Some (JArr entries)")
        case True
        then obtain entries where e: "raw = Some (JArr entries)" by blast
        then show ?thesis using sweep_posts returned(2) by (simp add: opted_in_def)
      next
        case False
        then have "s' = s1" using returned(2) by (auto split: option.splits json.splits)
        then show ?thesis by (simp add: sends_for_none)
      qed
      then show ?thesis using returned(1) move by simp
    qed
  qed
qed

lemma pass_messages:
  assumes "proactive_pass p s = (r, s')"
  shows "\<exists>kms. outbox s' = outbox s @ map snd kms \<and> distinct (map fst kms) \<and>
    (\<forall>(k, m) \<in> set kms. k \<in> (case fst (pz_config p optin_key s) of Inr raw \<Rightarrow> opted_in p raw | Inl x \<Rightarrow> {}) \<and>
       \<not> held s (once_key p k) \<and> held s' (once_key p k) \<and>
       (\<exists>detail. cv_stable_key detail = k \<and> \<not> cv_ephemeral detail \<and> for_row detail m))"
  using pass_posts(1) [OF assms] unfolding sends_for_def justified_def by fast

end

section \<open>Check-ins on the tables\<close>

text \<open>
  The world: the in-memory transport, whose clock also gives the date, the message tables, the
  key-value table, the turn rows and the audit. The model's answer is a function of its prompt.
\<close>

record heartbeat_world = mem_backend +
  hb_db :: message_db
  hb_config :: system_kv
  hb_outbox :: "outbound_message list"
  hb_turns :: "turn_row list"
  hb_audits :: "proactive_audit list"
  hb_drawn :: nat

definition on_hb_db :: "(message_db, 'a) prog \<Rightarrow> (heartbeat_world, 'a) prog" where
  "on_hb_db m s = (case m (hb_db s) of (r, db) \<Rightarrow> (r, s\<lparr>hb_db := db\<rparr>))"

definition publish_outbound :: "(outbound_message \<Rightarrow> ustr) \<Rightarrow> ustr \<Rightarrow> nat \<Rightarrow> outbound_message \<Rightarrow> (heartbeat_world, unit) prog" where
  "publish_outbound encode stream maxlen m =
     bindp (so_add mem_ops stream (encode m) maxlen) (\<lambda>_ s. (Inr (), s\<lparr>hb_outbox := hb_outbox s @ [m]\<rparr>))"

text \<open>The settings of \<open>base\<close> over the tables and the transport.\<close>

definition table_proactive ::
  "(outbound_message \<Rightarrow> ustr) \<Rightarrow> (chat_message list \<Rightarrow> llm_exn + llm_reply) \<Rightarrow> heartbeat_world proactive \<Rightarrow> heartbeat_world proactive" where
  "table_proactive encode answer base = base\<lparr>
     pz_config := (\<lambda>key s. (Inr (map_of (hb_config s) key), s)),
     pz_lookup := (\<lambda>k s. (Inr (conversation_by_key k (hb_db s)), s)),
     pz_record := (\<lambda>cid plan trace s. on_hb_db (record_outbound cid plan \<lfloor>mb_now s * 1000000\<rfloor> (Some trace)) s),
     pz_turn := (\<lambda>row s. (Inr [], s\<lparr>hb_turns := hb_turns s @ [row]\<rparr>)),
     pz_publish := publish_outbound encode (lit ''outbound'') 1000,
     pz_once := so_acquire_once mem_ops,
     pz_history := Some (\<lambda>cid n s. (Inr (recent_texts cid n (hb_db s)), s)),
     pz_llm := Some (\<lambda>ctx ms s. (answer ms, s)),
     pz_profiles := None, pz_core := None,
     pz_audit := Some (\<lambda>row s. (Inr (), s\<lparr>hb_audits := hb_audits s @ [row]\<rparr>)),
     pz_now := (\<lambda>s. \<lfloor>mb_now s * 1000000\<rfloor>),
     pz_uuid := (\<lambda>s. (Inr (dec_int (int (hb_drawn s))), s\<lparr>hb_drawn := Suc (hb_drawn s)\<rparr>))\<rparr>"

text \<open>The once-key is in force now and will be in \<open>d\<close> seconds.\<close>

definition held_for :: "real \<Rightarrow> heartbeat_world \<Rightarrow> ustr \<Rightarrow> bool" where
  "held_for d s k = (case map_of (mb_once s) k of None \<Rightarrow> False | Some expiry \<Rightarrow> mb_now s + d < expiry)"

lemma held_frames [simp]:
  "held_for d (s\<lparr>hb_db := x1\<rparr>) = held_for d s" "held_for d (s\<lparr>hb_outbox := x2\<rparr>) = held_for d s"
  "held_for d (s\<lparr>hb_turns := x3\<rparr>) = held_for d s" "held_for d (s\<lparr>hb_audits := x4\<rparr>) = held_for d s"
  "held_for d (s\<lparr>hb_drawn := x5\<rparr>) = held_for d s" "held_for d (snd (mem_add st pl n s)) = held_for d s"
  by (simp_all add: held_for_def fun_eq_iff mem_add_def Let_def split: option.split)

lemma world_frames [simp]:
  "hb_outbox (snd (mem_add st pl n s)) = hb_outbox s" "hb_outbox (snd (mem_acquire_once k ttl s)) = hb_outbox s"
  by (auto simp: mem_add_def mem_acquire_once_def Let_def split: option.split)

lemma acquire_held:
  assumes "0 \<le> d" and "d < of_int ttl"
  shows "let (due, s') = mem_acquire_once k ttl s in (due \<longrightarrow> \<not> held_for d s k) \<and>
    held_for d s' = (if due then (held_for d s)(k := True) else held_for d s)"
  using assms
  by (auto simp: mem_acquire_once_def held_for_def fun_eq_iff map_of_update split: option.splits)

lemma table_proactive_ports:
  assumes "0 \<le> d" and "d < of_int (interval_seconds base)"
  shows "heartbeat_ports (table_proactive encode answer base) hb_outbox (held_for d)"
proof
  let ?p = "table_proactive encode answer base"
  have once: "pz_once ?p = so_acquire_once mem_ops" by (simp add: table_proactive_def)
  have int: "interval_seconds ?p = interval_seconds base" by (simp add: table_proactive_def interval_seconds_def)
  show "cv_stable_key detail = k" if "pz_lookup ?p k s = (Inr (Some detail), s')" for k s detail s'
    using that by (auto simp: table_proactive_def conversation_by_key_def simp: find_Some_iff)
  show "(due \<longrightarrow> \<not> held_for d s key) \<and> held_for d s' = (if due then (held_for d s)(key := True) else held_for d s)"
    if "pz_once ?p key (interval_seconds ?p) s = (Inr due, s')" for key s due s'
    using that acquire_held [OF assms, of key s] unfolding once int
    by (cases "mem_acquire_once key (interval_seconds base) s") (simp add: mem_ops_def liftp_def)
  show "held_for d s' = held_for d s" if "pz_once ?p key (interval_seconds ?p) s = (Inl x, s')" for key s x s'
    using that unfolding once by (simp add: mem_ops_def liftp_def)
  show "moves (same_view hb_outbox) (pz_once ?p key ttl)" for key ttl
    unfolding once by (simp add: mem_ops_def liftp_def moves_def same_view_def)
  show "moves (same_view (\<lambda>s. (hb_outbox s, held_for d s))) (pz_record ?p cid plan trace)" for cid plan trace
    by (simp add: table_proactive_def on_hb_db_def moves_def same_view_def split: prod.split)
  show "hb_outbox s' = hb_outbox s @ [m]" if "pz_publish ?p m s = (Inr u, s')" for m s u s'
    using that by (auto simp: table_proactive_def publish_outbound_def bindp_def mem_ops_def liftp_def)
  show "hb_outbox s' = hb_outbox s" if "pz_publish ?p m s = (Inl x, s')" for m s x s'
    using that by (auto simp: table_proactive_def publish_outbound_def bindp_def mem_ops_def liftp_def)
  show "moves (same_view (held_for d)) (pz_publish ?p m)" for m
    by (simp add: table_proactive_def publish_outbound_def bindp_def mem_ops_def liftp_def moves_def same_view_def)
qed (auto simp: table_proactive_def moves_def same_view_def)

interpretation checkins: heartbeat_ports "table_proactive encode answer base" hb_outbox "held_for 0" for encode answer base
  by (rule table_proactive_ports) (simp_all add: interval_seconds_def)

section \<open>Properties\<close>

text \<open>
  two passes less than the minimum interval apart never send a conversation a second
  check-in, and what they send goes only to conversations that opted in and are not
  ephemeral: the messages on the outbound stream after both passes belong to pairwise
  different stable keys of the configured list, each addressed as the row of its key says.
\<close>

theorem checkins_once_per_interval:
  assumes "proactive_pass (table_proactive encode answer base) s = (r, s1)"
    and "0 \<le> d" and "d < of_int (interval_seconds base)"
    and "proactive_pass (table_proactive encode answer base) (mem_tick d s1) = (r', s2)"
  shows "\<exists>kms. hb_outbox s2 = hb_outbox s @ map snd kms \<and> distinct (map fst kms) \<and>
    (\<forall>(k, m) \<in> set kms. k \<in> opted_in base (map_of (hb_config s) optin_key) \<union>
         opted_in base (map_of (hb_config s1) optin_key) \<and>
       (\<exists>detail. cv_stable_key detail = k \<and> \<not> cv_ephemeral detail \<and> for_row detail m))"
proof -
  let ?p = "table_proactive encode answer base"
  let ?key = "once_key ?p"
  have cfg: "fst (pz_config ?p optin_key s) = Inr (map_of (hb_config s) optin_key)" for s by (simp add: table_proactive_def)
  have "pz_str ?p = pz_str base" by (simp add: table_proactive_def)
  then have str: "opted_in ?p raw = opted_in base raw" for raw unfolding opted_in_def by (rule arg_cong)
  have inj: "?key k = ?key k' \<longleftrightarrow> k = k'" for k k' by (simp add: once_key_def)
  have held: "held_for 0 (mem_tick d s1) k" if "held_for d s1 k" for k
    using that by (auto simp: held_for_def mem_tick_def split: option.splits)
  have out: "hb_outbox (mem_tick d s1) = hb_outbox s1" "hb_config (mem_tick d s1) = hb_config s1" by (simp_all add: mem_tick_def)
  let ?ok = "\<lambda>m k. \<exists>detail. cv_stable_key detail = k \<and> \<not> cv_ephemeral detail \<and> for_row detail m"
  obtain kms1 where k1: "hb_outbox s1 = hb_outbox s @ map snd kms1" "distinct (map fst kms1)"
    "\<forall>(k, m) \<in> set kms1. k \<in> opted_in base (map_of (hb_config s) optin_key) \<and> held_for d s1 (?key k) \<and> ?ok m k"
    using heartbeat_ports.pass_messages [OF table_proactive_ports [OF assms(2,3)] assms(1)] unfolding cfg str sum.case by fast
  obtain kms2 where k2: "hb_outbox s2 = hb_outbox s1 @ map snd kms2" "distinct (map fst kms2)"
    "\<forall>(k, m) \<in> set kms2. k \<in> opted_in base (map_of (hb_config s1) optin_key) \<and> \<not> held_for 0 (mem_tick d s1) (?key k) \<and> ?ok m k"
    using checkins.pass_messages [OF assms(4)] unfolding cfg str sum.case out by fast
  have "fst ` set kms1 \<inter> fst ` set kms2 = {}" using k1(3) k2(3) held by fastforce
  then have "distinct (map fst (kms1 @ kms2))" using k1(2) k2(2) by simp
  moreover have "\<forall>(k, m) \<in> set (kms1 @ kms2). k \<in> opted_in base (map_of (hb_config s) optin_key) \<union>
      opted_in base (map_of (hb_config s1) optin_key) \<and> ?ok m k"
    using k1(3) k2(3) by auto
  ultimately show ?thesis using k1(1) k2(1) by (intro exI [of _ "kms1 @ kms2"]) simp
qed

definition demo_checkin :: "heartbeat_world proactive" where
  "demo_checkin = \<lparr>pz_config = (\<lambda>key. retp None), pz_lookup = (\<lambda>k. retp None), pz_record = (\<lambda>cid plan trace. retp []),
     pz_turn = (\<lambda>row. retp []), pz_publish = (\<lambda>m. retp ()), pz_once = (\<lambda>k ttl. retp False), pz_history = None,
     pz_llm = None, pz_profiles = None, pz_core = None, pz_audit = None, pz_now = (\<lambda>s. 0), pz_uuid = retp [],
     pz_str = (\<lambda>v. case v of JStr t \<Rightarrow> t | _ \<Rightarrow> []), pz_upper = (\<lambda>t. t), pz_enabled = True, pz_message = [104, 105],
     pz_system_prompt = [115], pz_context_messages = 12, pz_min_interval_hours = 24, pz_quiet_start = 22, pz_quiet_end = 8,
     pz_key_prefix = lit ''mybot:proactive''\<rparr>"

definition demo_checkin_world :: heartbeat_world where
  "demo_checkin_world = \<lparr>mb_streams = [], mb_sequence = [], mb_groups = [], mb_once = [], mb_counters = [], mb_now = 36000,
     hb_db = \<lparr>db_conversations = [\<lparr>cv_id = [99], cv_stable_key = [107], cv_connection_id = [116], cv_platform = lit ''TELEGRAM'',
       cv_chat_kind = lit ''DIRECT'', cv_chat_id = [57], cv_thread_id = None, cv_ephemeral = False, cv_last_message_at = None\<rparr>],
       db_messages = [], db_uuid = (\<lambda>n. dec_int (int n)), db_drawn = 0\<rparr>,
     hb_config = [(optin_key, JArr [JStr [107]])], hb_outbox = [], hb_turns = [], hb_audits = [], hb_drawn = 0\<rparr>"

definition demo_answer_hi :: "chat_message list \<Rightarrow> llm_exn + llm_reply" where
  "demo_answer_hi ms = Inr \<lparr>lr_text = [104, 105], lr_model = [109], lr_prompt_tokens = 1, lr_completion_tokens = 1, lr_tool_calls = [], lr_finish_reason = []\<rparr>"

theorem checkins_once_per_interval_witness:
  "\<exists>r s1 r' s2 (kms :: (ustr \<times> outbound_message) list). proactive_pass (table_proactive om_id demo_answer_hi demo_checkin) demo_checkin_world = (r, s1) \<and>
    proactive_pass (table_proactive om_id demo_answer_hi demo_checkin) (mem_tick 3600 s1) = (r', s2) \<and>
    hb_outbox s2 = hb_outbox demo_checkin_world @ map snd kms \<and> distinct (map fst kms)"
proof -
  let ?p = "table_proactive om_id demo_answer_hi demo_checkin"
  obtain r s1 where a: "proactive_pass ?p demo_checkin_world = (r, s1)" by (meson surj_pair)
  obtain r' s2 where b: "proactive_pass ?p (mem_tick 3600 s1) = (r', s2)" by (meson surj_pair)
  have d: "(3600 :: real) < of_int (interval_seconds demo_checkin)" by (simp add: interval_seconds_def demo_checkin_def)
  have z: "(0 :: real) \<le> 3600" by simp
  from checkins_once_per_interval [OF a z d b] obtain kms :: "(ustr \<times> outbound_message) list"
    where "hb_outbox s2 = hb_outbox demo_checkin_world @ map snd kms" "distinct (map fst kms)" by blast
  then show ?thesis using a b by blast
qed

end
