(* ===== verification/Maintenance.thy ===== *)
theory Maintenance
  imports Proactive TelegramBot BrokerRuns
begin

text \<open>
  The maintenance worker, \<open>services/maintenance.py\<close>: the periodic pass over the background
  jobs, and the scheduler that dispatches the tasks of plugins when they are due. The jobs,
  HTTP and the clock are fields of the records. The main results: every configured job runs in
  every pass whatever the earlier ones raised, and a task that was dispatched is not
  dispatched again before its interval has passed, as long as the catalog lists it.
\<close>

section \<open>The pass over the jobs\<close>

record 's maintenance =
  mn_lifecycle :: "int \<Rightarrow> ('s, unit) prog"
  mn_consolidation :: "('s, int) prog option"
  mn_personality :: "('s, int) prog option"
  mn_proactive :: "('s, int) prog option"
  mn_now :: "'s \<Rightarrow> int"
  mn_wait :: "real \<Rightarrow> ('s, unit) prog"
  mn_stopped :: "'s \<Rightarrow> bool"
  mn_interval_seconds :: real

text \<open>\<open>try: await job() except CancelledError: raise except Exception: log\<close>.\<close>

definition safe_job :: "('s, 'a) prog \<Rightarrow> ('s, unit) prog" where
  "safe_job job = catchp (bindp job (\<lambda>_. retp ())) (\<lambda>_. retp ())"

definition optional_job :: "('s, int) prog option \<Rightarrow> ('s, unit) prog" where
  "optional_job job = (case job of None \<Rightarrow> retp () | Some run \<Rightarrow> safe_job run)"

definition maintenance_pass :: "('s, 'z) maintenance_scheme \<Rightarrow> ('s, unit) prog" where
  "maintenance_pass m =
     bindp (safe_job (\<lambda>s. mn_lifecycle m (mn_now m s) s)) (\<lambda>_.
     bindp (optional_job (mn_consolidation m)) (\<lambda>_.
     bindp (optional_job (mn_personality m)) (\<lambda>_.
     optional_job (mn_proactive m))))"

text \<open>At most \<open>n\<close> rounds of \<open>run\<close>: a pass and the wait for the stop event or the interval.
  The result says whether it stopped.\<close>

fun maintenance_run :: "nat \<Rightarrow> ('s, 'z) maintenance_scheme \<Rightarrow> ('s, bool) prog" where
  "maintenance_run 0 m = getp (mn_stopped m)"
| "maintenance_run (Suc n) m =
     bindp (getp (mn_stopped m)) (\<lambda>stop. if stop then retp True
       else bindp (maintenance_pass m) (\<lambda>_. bindp (mn_wait m (mn_interval_seconds m)) (\<lambda>_. maintenance_run n m)))"

section \<open>Tasks of plugins\<close>

type_synonym task_key = "ustr \<times> ustr"

text \<open>The catalog and the dispatch endpoint of the broker, and the table \<open>_next_due\<close>, which
  changes in place; \<open>sd_http_error\<close> tells the exceptions
  that are an \<open>httpx.HTTPError\<close>.\<close>

record 's task_scheduler =
  sd_catalog :: "('s, http_reply) prog"
  sd_dispatch :: "task_key \<Rightarrow> ('s, http_reply) prog"
  sd_clock :: "'s \<Rightarrow> real"
  sd_next_due :: "'s \<Rightarrow> (task_key, real) dict"
  sd_set_due :: "(task_key, real) dict \<Rightarrow> 's \<Rightarrow> 's"
  sd_http_error :: "ustr \<Rightarrow> bool"

definition raise_status :: "http_reply \<Rightarrow> exn + unit" where
  "raise_status r = (if 200 \<le> hy_status r \<and> hy_status r < 300 then Inr () else Inl (Raised (lit ''HTTPStatusError'')))"

text \<open>The listed tasks; \<open>None\<close> where the pass ends with 0.\<close>

definition read_catalog :: "('s, 'z) task_scheduler_scheme \<Rightarrow> ('s, json list option) prog" where
  "read_catalog d s = (case bindp (sd_catalog d) (\<lambda>r. bindp (of_result (raise_status r)) (\<lambda>_.
        case hy_body r of None \<Rightarrow> raisep (Raised (lit ''ValueError''))
        | Some body \<Rightarrow> retp (dict_get (dict_or (as_string_mapping body)) (lit ''tasks'') (JArr [])))) s of
       (Inl (Raised n), s') \<Rightarrow>
         if sd_http_error d n \<or> n = lit ''HTTPStatusError'' \<or> n = lit ''ValueError'' \<or> n = lit ''AttributeError''
         then (Inr None, s') else (Inl (Raised n), s')
     | (Inl Cancelled, s') \<Rightarrow> (Inl Cancelled, s')
     | (Inr v, s') \<Rightarrow> (Inr (case v of JArr tasks \<Rightarrow> Some tasks | _ \<Rightarrow> None), s'))"

text \<open>A well-formed entry of the catalog. A Python \<open>bool\<close> is an \<open>int\<close>.\<close>

definition task_of :: "json \<Rightarrow> (task_key \<times> int) option" where
  "task_of raw = (case as_string_mapping raw of None \<Rightarrow> None
     | Some d \<Rightarrow> (case (payload_get d (lit ''plugin_id''), payload_get d (lit ''task_id''), payload_get d (lit ''interval_seconds'')) of
           (JStr plugin, JStr task, JInt i) \<Rightarrow> if i < 1 then None else Some ((plugin, task), i)
         | (JStr plugin, JStr task, JBool b) \<Rightarrow> if b then Some ((plugin, task), 1) else None
         | _ \<Rightarrow> None))"

definition set_due :: "('s, 'z) task_scheduler_scheme \<Rightarrow> task_key \<Rightarrow> real \<Rightarrow> 's \<Rightarrow> 's" where
  "set_due d key due s = sd_set_due d (AList.update key due (sd_next_due d s)) s"

text \<open>One due task; the result says whether it was dispatched.\<close>

definition send_task :: "('s, 'z) task_scheduler_scheme \<Rightarrow> real \<Rightarrow> task_key \<Rightarrow> int \<Rightarrow> ('s, bool) prog" where
  "send_task d now key interval s =
     (case bindp (sd_dispatch d key) (\<lambda>r. of_result (raise_status r)) s of
        (Inl Cancelled, s') \<Rightarrow> (Inl Cancelled, s')
      | (Inl (Raised n), s') \<Rightarrow>
          if sd_http_error d n \<or> n = lit ''HTTPStatusError''
          then (Inr False, set_due d key (now + of_int (min interval 30)) s')
          else (Inl (Raised n), s')
      | (Inr _, s') \<Rightarrow> (Inr True, set_due d key (now + of_int interval) s'))"

definition visit_task :: "('s, 'z) task_scheduler_scheme \<Rightarrow> real \<Rightarrow> task_key \<Rightarrow> int \<Rightarrow> ('s, bool) prog" where
  "visit_task d now key interval =
     bindp (getp (\<lambda>s. dict_get (sd_next_due d s) key 0)) (\<lambda>due.
       if now < due then retp False else send_task d now key interval)"

text \<open>The loop, with its locals \<open>active\<close> and \<open>dispatched\<close>.\<close>

fun visit_tasks :: "('s, 'z) task_scheduler_scheme \<Rightarrow> real \<Rightarrow> json list \<Rightarrow> task_key list \<Rightarrow> int \<Rightarrow> ('s, task_key list \<times> int) prog" where
  "visit_tasks d now [] active n = retp (active, n)"
| "visit_tasks d now (raw # raws) active n = (case task_of raw of
       None \<Rightarrow> visit_tasks d now raws active n
     | Some (key, interval) \<Rightarrow> bindp (visit_task d now key interval) (\<lambda>done'.
         visit_tasks d now raws (key # active) (if done' then n + 1 else n)))"

definition forget_inactive :: "('s, 'z) task_scheduler_scheme \<Rightarrow> task_key list \<Rightarrow> 's \<Rightarrow> 's" where
  "forget_inactive d active s = sd_set_due d (filter (\<lambda>(key, _). key \<in> set active) (sd_next_due d s)) s"

definition task_pass :: "('s, 'z) task_scheduler_scheme \<Rightarrow> ('s, int) prog" where
  "task_pass d = bindp (read_catalog d) (\<lambda>found. case found of
       None \<Rightarrow> retp 0
     | Some tasks \<Rightarrow> bindp (getp (sd_clock d)) (\<lambda>now.
         bindp (visit_tasks d now tasks [] 0) (\<lambda>(active, n). liftp (\<lambda>s. (n, forget_inactive d active s)))))"

section \<open>What the scheduler relies on\<close>

text \<open>\<open>log\<close> are the dispatch requests made so far. Only the scheduler itself changes its
  table.\<close>

locale task_ports =
  fixes d :: "'s task_scheduler"
    and log :: "'s \<Rightarrow> task_key list"
  assumes due_set: "sd_next_due d (sd_set_due d table s) = table"
    and due_log: "log (sd_set_due d table s) = log s"
    and catalog_frame: "moves (same_view (\<lambda>s. (sd_next_due d s, log s, sd_clock d s))) (sd_catalog d)"
    and dispatch_frame: "moves (same_view (sd_next_due d)) (sd_dispatch d key)"
    and dispatch_log: "sd_dispatch d key s = (r, s') \<Longrightarrow> log s' = log s @ [key]"
begin

abbreviation due_of :: "'s \<Rightarrow> task_key \<Rightarrow> real" where
  "due_of s key \<equiv> dict_get (sd_next_due d s) key 0"

lemma read_frame:
  assumes "read_catalog d s = (r, s')"
  shows "sd_next_due d s' = sd_next_due d s \<and> log s' = log s \<and> sd_clock d s' = sd_clock d s"
proof -
  let ?p = "bindp (sd_catalog d) (\<lambda>r. bindp (of_result (raise_status r)) (\<lambda>_.
        case hy_body r of None \<Rightarrow> raisep (Raised (lit ''ValueError''))
        | Some body \<Rightarrow> retp (dict_get (dict_or (as_string_mapping body)) (lit ''tasks'') (JArr []))))"
  have "moves (same_view (\<lambda>s. (sd_next_due d s, log s, sd_clock d s))) ?p"
    by (intro moves_intro same_view_refl same_view_trans catalog_frame)
  moreover have "snd (?p s) = s'"
    using assms by (auto simp: read_catalog_def split: prod.splits sum.splits exn.splits if_splits)
  ultimately show ?thesis by (auto simp: moves_def same_view_def)
qed

text \<open>A dispatch sets the task's due time after \<open>now\<close> and touches no other, unless the pass ends.\<close>

lemma send_outcome:
  assumes "send_task d now key interval s = (r, s')" and "1 \<le> interval"
  shows "log s' = log s @ [key] \<and> (\<forall>k. k \<noteq> key \<longrightarrow> due_of s' k = due_of s k) \<and>
    (\<forall>b. r = Inr b \<longrightarrow> due_of s' key = now + (if b then of_int interval else of_int (min interval 30)))"
proof -
  let ?p = "bindp (sd_dispatch d key) (\<lambda>r. of_result (raise_status r))"
  obtain q s1 where q: "?p s = (q, s1)" by fastforce
  then have "snd (sd_dispatch d key s) = s1"
    by (auto simp: bindp_def of_result_def split: prod.splits sum.splits)
  then obtain x where x: "sd_dispatch d key s = (x, s1)" by (metis prod.collapse)
  have f: "log s1 = log s @ [key]" "sd_next_due d s1 = sd_next_due d s"
    using dispatch_log [OF x] movesD [OF dispatch_frame x] by (simp_all add: same_view_def)
  show ?thesis
  proof (cases q)
    case (Inr u)
    then have "r = Inr True \<and> s' = set_due d key (now + of_int interval) s1" using assms q by (simp add: send_task_def)
    then show ?thesis using f by (auto simp: set_due_def due_set due_log dict_get_update)
  next
    case (Inl e)
    show ?thesis
    proof (cases e)
      case Cancelled
      then have "r = Inl Cancelled \<and> s' = s1" using assms q Inl by (simp add: send_task_def)
      then show ?thesis using f by simp
    next
      case (Raised n)
      show ?thesis
      proof (cases "sd_http_error d n \<or> n = lit ''HTTPStatusError''")
        case True
        then have "r = Inr False \<and> s' = set_due d key (now + of_int (min interval 30)) s1"
          using assms q Inl Raised by (auto simp: send_task_def)
        then show ?thesis using f by (auto simp: set_due_def due_set due_log dict_get_update)
      next
        case False
        then have "r = Inl (Raised n) \<and> s' = s1" using assms q Inl Raised by (auto simp: send_task_def)
        then show ?thesis using f by simp
      qed
    qed
  qed
qed

definition paced :: "real \<Rightarrow> 's \<Rightarrow> 's \<Rightarrow> task_key list \<Rightarrow> bool" where
  "paced now s s' keys \<longleftrightarrow> log s' = log s @ keys \<and> distinct keys \<and>
     (\<forall>k \<in> set keys. due_of s k \<le> now) \<and> (\<forall>k. now < due_of s k \<longrightarrow> due_of s' k = due_of s k)"

lemma paced_keeps: "paced now s s' keys \<Longrightarrow> now < due_of s k \<Longrightarrow> k \<notin> set keys \<and> due_of s' k = due_of s k"
  by (cases k) (auto simp: paced_def)

lemma task_interval: "task_of raw = Some (key, i) \<Longrightarrow> 1 \<le> i"
  by (auto simp: task_of_def split: option.splits json.splits if_splits)

lemma visit_paced:
  assumes "visit_tasks d now raws active n s = (r, s')"
  shows "\<exists>keys. paced now s s' keys \<and> (\<forall>x. r = Inr x \<longrightarrow> set active \<subseteq> set (fst x) \<and> set keys \<subseteq> set (fst x) \<and>
      (\<forall>raw \<in> set raws. \<forall>key i. task_of raw = Some (key, i) \<longrightarrow> key \<in> set (fst x)) \<and> (\<forall>k \<in> set keys. now < due_of s' k))"
  using assms
proof (induction raws arbitrary: active n s)
  case Nil
  then show ?case by (intro exI [of _ "[]"]) (auto simp: paced_def)
next
  case (Cons raw raws)
  show ?case
  proof (cases "task_of raw")
    case None
    then show ?thesis using Cons by simp
  next
    case (Some t)
    obtain key i where t: "t = (key, i)" by fastforce
    have i: "1 \<le> i" using task_interval Some t by blast
    from Cons.prems Some t have "bindp (visit_task d now key i) (\<lambda>done'. visit_tasks d now raws (key # active)
        (if done' then n + 1 else n)) s = (r, s')" by simp
    then show ?thesis
    proof (cases rule: bindp_cases)
      case (raises e)
      then have sent: "send_task d now key i s = (Inl e, s')" and due: "due_of s key \<le> now"
        by (auto simp: visit_task_def bindp_def getp_def split: if_splits)
      have o: "log s' = log s @ [key]" "\<forall>k. k \<noteq> key \<longrightarrow> due_of s' k = due_of s k" using send_outcome [OF sent i] by simp_all
      have "due_of s' k = due_of s k" if "now < due_of s k" for k using o(2) that due by (metis linorder_not_less)
      then have "paced now s s' [key]" using o(1) due by (auto simp: paced_def)
      then show ?thesis using raises(2) by auto
    next
      case (returned done' s1)
      have rest: "\<exists>keys. paced now s1 s' keys \<and> (\<forall>x. r = Inr x \<longrightarrow> set (key # active) \<subseteq> set (fst x) \<and> set keys \<subseteq> set (fst x) \<and>
          (\<forall>raw \<in> set raws. \<forall>key i. task_of raw = Some (key, i) \<longrightarrow> key \<in> set (fst x)) \<and> (\<forall>k \<in> set keys. now < due_of s' k))"
        using Cons.IH [OF returned(2)] .
      then obtain keys where k: "paced now s1 s' keys" and out: "\<forall>x. r = Inr x \<longrightarrow> set (key # active) \<subseteq> set (fst x) \<and>
          set keys \<subseteq> set (fst x) \<and> (\<forall>raw \<in> set raws. \<forall>key i. task_of raw = Some (key, i) \<longrightarrow> key \<in> set (fst x)) \<and>
          (\<forall>k \<in> set keys. now < due_of s' k)" by blast
      show ?thesis
      proof (cases "now < due_of s key")
        case True
        then have "s1 = s" using returned(1) by (simp add: visit_task_def bindp_def getp_def)
        then show ?thesis using k out Some t by (intro exI [of _ keys]) auto
      next
        case False
        then have sent: "send_task d now key i s = (Inr done', s1)" using returned(1) by (simp add: visit_task_def bindp_def getp_def)
        have o: "log s1 = log s @ [key]" "\<forall>k. k \<noteq> key \<longrightarrow> due_of s1 k = due_of s k" "now < due_of s1 key"
          using send_outcome [OF sent i] i by auto
        have new: "key \<notin> set keys" "due_of s' key = due_of s1 key" using paced_keeps [OF k o(3)] by simp_all
        have other: "due_of s1 k = due_of s k" if "k \<noteq> key" for k using o(2) that by blast
        have "due_of s' k = due_of s k" if "now < due_of s k" for k
        proof -
          have "due_of s1 k = due_of s k" using other that False by (cases "k = key") auto
          then show ?thesis using paced_keeps [OF k] that by simp
        qed
        moreover have "due_of s k \<le> now" if "k \<in> set keys" for k
          using k that new(1) other [of k] by (cases "k = key") (auto simp: paced_def)
        ultimately have "paced now s s' (key # keys)"
          using k o(1) new(1) False by (simp add: paced_def)
        then show ?thesis using out new o(3) Some t by (intro exI [of _ "key # keys"]) auto
      qed
    qed
  qed
qed

lemma due_filter: "k \<in> K \<Longrightarrow> dict_get (filter (\<lambda>(key, _). key \<in> K) t) k 0 = dict_get t k (0 :: real)"
  for t :: "(task_key, real) dict"
  by (induction t) (auto simp: dict_get_def)

text \<open>
  A pass: the requests it makes are for tasks that were due, one each; and a task that is not
  due yet keeps its time, as long as the catalog still lists it.
\<close>

lemma pass_paced:
  assumes run: "task_pass d s = (r, s')"
  shows "\<exists>keys. log s' = log s @ keys \<and> distinct keys \<and> (\<forall>k \<in> set keys. due_of s k \<le> sd_clock d s) \<and>
    (\<forall>x k. r = Inr x \<longrightarrow> k \<in> set keys \<longrightarrow> sd_clock d s < due_of s' k)"
  using run unfolding task_pass_def
proof (cases rule: bindp_cases)
  case (raises e)
  then show ?thesis using read_frame [OF raises(1)] by auto
next
  case (returned found s1)
  have f: "sd_next_due d s1 = sd_next_due d s" "log s1 = log s" "sd_clock d s1 = sd_clock d s"
    using read_frame [OF returned(1)] by auto
  show ?thesis
  proof (cases found)
    case None
    then show ?thesis using returned(2) f by auto
  next
    case (Some tasks)
    from returned(2) Some have "bindp (visit_tasks d (sd_clock d s1) tasks [] 0)
        (\<lambda>(active, n). liftp (\<lambda>s. (n, forget_inactive d active s))) s1 = (r, s')"
      by (simp add: bindp_def getp_def)
    then show ?thesis
    proof (cases rule: bindp_cases)
      case (raises e)
      then show ?thesis using visit_paced [OF raises(1)] f by (auto simp: paced_def)
    next
      case v: (returned x s2)
      obtain keys where k: "paced (sd_clock d s1) s1 s2 keys" "set keys \<subseteq> set (fst x)" "\<forall>k \<in> set keys. sd_clock d s1 < due_of s2 k"
        using visit_paced [OF v(1)] by auto
      have s': "s' = forget_inactive d (fst x) s2" using v(2) by (cases x) (simp add: liftp_def)
      have "due_of s' k = due_of s2 k" if "k \<in> set (fst x)" for k
        unfolding s' forget_inactive_def due_set using that by (rule due_filter)
      then show ?thesis using k f s' by (intro exI [of _ keys]) (auto simp: paced_def forget_inactive_def due_log)
    qed
  qed
qed

end

section \<open>The scheduler and the broker\<close>

text \<open>The world: the plugin broker behind its two routes, the scheduler's table and the clock.\<close>

record task_world =
  tkw_broker :: broker
  tkw_due :: "(task_key, real) dict"
  tkw_log :: "task_key list"
  tkw_now :: real

definition catalog_body :: "broker \<Rightarrow> json" where
  "catalog_body b = JObj [(lit ''tasks'', JArr (map (\<lambda>(plugin, task, i). JObj [(lit ''plugin_id'', JStr plugin),
     (lit ''task_id'', JStr task), (lit ''interval_seconds'', JInt i)]) (task_catalog b)))]"

definition broker_dispatch :: "broker_env \<Rightarrow> task_key \<Rightarrow> (task_world, http_reply) prog" where
  "broker_dispatch env key s = (case Broker.dispatch_task env (fst key) (snd key) (tkw_broker s) of
       (Inl fault, b) \<Rightarrow> (Inr \<lparr>hy_status = (case fault of Http code msg \<Rightarrow> code | _ \<Rightarrow> 500), hy_body = None\<rparr>,
          s\<lparr>tkw_broker := b, tkw_log := tkw_log s @ [key]\<rparr>)
     | (Inr n, b) \<Rightarrow> (Inr \<lparr>hy_status = 200, hy_body = Some (JObj [(lit ''delivered'', JInt (int n))])\<rparr>,
          s\<lparr>tkw_broker := b, tkw_log := tkw_log s @ [key]\<rparr>))"

definition broker_scheduler :: "broker_env \<Rightarrow> task_world task_scheduler" where
  "broker_scheduler env = \<lparr>sd_catalog = (\<lambda>s. (Inr \<lparr>hy_status = 200, hy_body = Some (catalog_body (tkw_broker s))\<rparr>, s)),
     sd_dispatch = broker_dispatch env, sd_clock = tkw_now, sd_next_due = tkw_due,
     sd_set_due = (\<lambda>table s. s\<lparr>tkw_due := table\<rparr>), sd_http_error = (\<lambda>n. False)\<rparr>"

interpretation broker_tasks: task_ports "broker_scheduler env" tkw_log for env
proof
  show "tkw_log s' = tkw_log s @ [key]" if "sd_dispatch (broker_scheduler env) key s = (r, s')" for key s r s'
    using that by (auto simp: broker_scheduler_def broker_dispatch_def split: prod.splits sum.splits)
  show "moves (same_view (sd_next_due (broker_scheduler env))) (sd_dispatch (broker_scheduler env) key)" for key
    by (auto simp: broker_scheduler_def broker_dispatch_def moves_def same_view_def split: prod.split sum.split)
qed (simp_all add: broker_scheduler_def moves_def same_view_def)

section \<open>Properties\<close>

text \<open>
  a plugin's task is never dispatched early or twice in a pass: the requests a pass of the
  scheduler makes to the broker are for pairwise different tasks whose due time had come, and
  a pass that returns leaves each of them with a due time in the future.
\<close>

theorem tasks_dispatched_when_due:
  assumes "task_pass (broker_scheduler env) s = (r, s')"
  shows "\<exists>keys. tkw_log s' = tkw_log s @ keys \<and> distinct keys \<and>
    (\<forall>k \<in> set keys. dict_get (tkw_due s) k 0 \<le> tkw_now s) \<and>
    (\<forall>x k. r = Inr x \<longrightarrow> k \<in> set keys \<longrightarrow> tkw_now s < dict_get (tkw_due s') k 0)"
  using broker_tasks.pass_paced [OF assms] by (simp add: broker_scheduler_def)

definition demo_tasks :: task_world where
  "demo_tasks = \<lparr>tkw_broker = new_broker [], tkw_due = [(([112], [116]), 9)], tkw_log = [], tkw_now = 5\<rparr>"

theorem tasks_dispatched_when_due_witness:
  "\<exists>r s' keys. task_pass (broker_scheduler \<lparr>be_grants = [], be_quota = 1, be_validate = (\<lambda>j. Inl 0), be_list_str = concat,
      be_str = (\<lambda>j. [])\<rparr>) demo_tasks = (r, s') \<and> tkw_log s' = tkw_log demo_tasks @ keys \<and> distinct keys"
proof -
  obtain r s' where run: "task_pass (broker_scheduler \<lparr>be_grants = [], be_quota = 1, be_validate = (\<lambda>j. Inl 0),
      be_list_str = concat, be_str = (\<lambda>j. [])\<rparr>) demo_tasks = (r, s')" by (meson surj_pair)
  from tasks_dispatched_when_due [OF run] run show ?thesis by blast
qed

section \<open>Every job runs\<close>

lemma safe_job_outcome: "safe_job job s = (r, s') \<Longrightarrow> s' = snd (job s) \<and> (r = Inr () \<or> fst (job s) = Inl Cancelled \<and> r = Inl Cancelled)"
  by (auto simp: safe_job_def catchp_def bindp_def split: prod.splits sum.splits exn.splits)

definition job_effect :: "('s, int) prog option \<Rightarrow> 's \<Rightarrow> 's" where
  "job_effect job s = (case job of None \<Rightarrow> s | Some run \<Rightarrow> snd (run s))"

lemma optional_job_outcome: "optional_job job s = (r, s') \<Longrightarrow> s' = job_effect job s \<and> (r = Inr () \<or> r = Inl Cancelled)"
proof (cases job)
  case (Some run)
  assume "optional_job job s = (r, s')"
  then have "safe_job run s = (r, s')" using Some by (simp add: optional_job_def)
  from safe_job_outcome [OF this] show ?thesis using Some by (auto simp: job_effect_def)
qed (simp add: optional_job_def job_effect_def)

text \<open>
  the jobs of a maintenance pass are isolated from each other: the pass never raises
  anything but a cancellation, and when it is not cancelled each configured job has run once
  from the state the one before it left, whatever those raised.
\<close>

theorem maintenance_jobs_isolated:
  assumes "maintenance_pass m s = (r, s')"
  shows "r = Inl Cancelled \<or> r = Inr () \<and> s' = job_effect (mn_proactive m) (job_effect (mn_personality m)
      (job_effect (mn_consolidation m) (snd (mn_lifecycle m (mn_now m s) s))))"
  using assms unfolding maintenance_pass_def
proof (cases rule: bindp_cases)
  case (raises x)
  then show ?thesis using safe_job_outcome [OF raises(1)] by auto
next
  case a: (returned u s1)
  have s1: "s1 = snd (mn_lifecycle m (mn_now m s) s)" using safe_job_outcome [OF a(1)] by simp
  from a(2) show ?thesis
  proof (cases rule: bindp_cases)
    case (raises x)
    then show ?thesis using optional_job_outcome [OF raises(1)] by auto
  next
    case b: (returned v s2)
    from b(2) show ?thesis
    proof (cases rule: bindp_cases)
      case (raises x)
      then show ?thesis using optional_job_outcome [OF raises(1)] by auto
    next
      case c: (returned w s3)
      then show ?thesis using optional_job_outcome [OF b(1)] optional_job_outcome [OF c(1)] optional_job_outcome [OF c(2)] s1 by auto
    qed
  qed
qed

definition demo_maintenance :: "nat list maintenance" where
  "demo_maintenance = \<lparr>mn_lifecycle = (\<lambda>now s. (Inl (Raised []), s @ [1])), mn_consolidation = Some (\<lambda>s. (Inl (Raised []), s @ [2])),
     mn_personality = None, mn_proactive = Some (\<lambda>s. (Inr 0, s @ [4])), mn_now = (\<lambda>s. 0), mn_wait = (\<lambda>d. retp ()),
     mn_stopped = (\<lambda>s. False), mn_interval_seconds = 60\<rparr>"

theorem maintenance_jobs_isolated_witness:
  "snd (maintenance_pass demo_maintenance []) = [1, 2, 4]"
proof -
  obtain r s' where run: "maintenance_pass demo_maintenance [] = (r, s')" by fastforce
  have "r \<noteq> Inl Cancelled"
    using run by (auto simp: maintenance_pass_def demo_maintenance_def safe_job_def optional_job_def catchp_def bindp_def)
  with maintenance_jobs_isolated [OF run] run show ?thesis
    by (simp add: demo_maintenance_def job_effect_def)
qed

end
