(* ===== verification/Reflection.thy ===== *)
theory Reflection
  imports MemoryService
begin

text \<open>
  The two background jobs that write to long-term memory: \<open>engine/memory_consolidation.py\<close>
  (insights from recent dialogue and memories) and \<open>engine/personality_learning.py\<close> (expressions
  of a group and impressions of its members). Their sources, the model, the once-keys, the
  identifiers and the JSON functions are fields of the jobs. The locales state what the jobs
  rely on, extending \<open>memory_writer\<close>, and are interpreted on the ledger. The main results: a
  consolidation pass writes only global public insights, private insights about the last sender
  and shared ones about the conversation of a context it was given; a learning pass writes only
  shared expressions of a group and private relationships of its members, with a familiarity
  between 0 and 100; and sensitive memory is never written by either.
\<close>

section \<open>Consolidation\<close>

definition insight_prompt :: ustr where
  "insight_prompt = lit (''Review bounded recent dialogue and active memories. Return ONLY a JSON array '' @
     ''with at most 5 durable candidate objects: content, kind, scope '' @
     ''(conversation|subject|global), confidence. Produce richer rewrites, promotions, '' @
     ''or durable insights; omit duplicates and transient details. GLOBAL is allowed '' @
     ''only for non-personal, non-sensitive facts safe in every chat. Never include '' @
     ''credentials, health, finance, government identifiers, or private third-party data.'')"

record insight =
  isg_content :: ustr
  isg_kind :: ustr
  isg_scope :: memory_scope
  isg_confidence :: real

record 's consolidation_job =
  cj_source :: "int \<Rightarrow> int \<Rightarrow> int \<Rightarrow> int \<Rightarrow> int \<Rightarrow> ('s, consolidation_context list) prog"
  cj_merge :: "memory_item \<Rightarrow> ustr \<Rightarrow> ('s, merge_application \<times> int \<times> int) prog"
  cj_llm :: "(ustr \<Rightarrow> ustr \<Rightarrow> (llm_exn, 's, llm_reply) eprog) option"
  cj_once :: "(ustr \<Rightarrow> int \<Rightarrow> ('s, bool) prog) option"
  cj_now :: "'s \<Rightarrow> int"
  cj_uuid :: "'s \<Rightarrow> ustr \<times> 's"
  cj_loads :: "ustr \<Rightarrow> json option"
  cj_dumps :: "json \<Rightarrow> ustr"
  cj_interval_seconds :: int
  cj_lookback_hours :: int
  cj_conversation_limit :: int
  cj_message_limit :: int
  cj_memory_limit :: int
  cj_budget :: int
  cj_min_confidence :: real
  cj_enabled :: bool

text \<open>The first of the list while they fit, and what is then used.\<close>

fun while_fits :: "('a \<Rightarrow> int) \<Rightarrow> int \<Rightarrow> int \<Rightarrow> 'a list \<Rightarrow> 'a list \<times> int" where
  "while_fits cost budget used [] = ([], used)"
| "while_fits cost budget used (x # xs) =
     (if used + cost x > budget then ([], used)
      else (case while_fits cost budget (used + cost x) xs of (ys, used') \<Rightarrow> (x # ys, used')))"

definition memory_json :: "memory_record \<Rightarrow> json" where
  "memory_json m = JObj [(lit ''id'', JStr (rec_id m)), (lit ''scope'', JStr (scope_value (rec_scope m))),
     (lit ''kind'', JStr (rec_kind m)), (lit ''content'', JStr (rec_content m))]"

definition context_json :: "consolidation_context \<Rightarrow> ustr list \<Rightarrow> memory_record list \<Rightarrow> json" where
  "context_json c messages memories = JObj [(lit ''conversation'', JStr (stable_key (cxc_conversation c))),
     (lit ''subject'', JStr (cxc_subject c)), (lit ''messages'', JArr (map JStr messages)),
     (lit ''active_memories'', JArr (map memory_json memories))]"

definition bounded_payload :: "(json \<Rightarrow> ustr) \<Rightarrow> consolidation_context \<Rightarrow> int \<Rightarrow> ustr option" where
  "bounded_payload dumps c budget =
     (let used = estimate_tokens (dumps (context_json c [] []));
          (newest, used1) = while_fits estimate_tokens budget used (rev (cxc_transcript c));
          (memories, used2) = while_fits (\<lambda>m. estimate_tokens (dumps (memory_json m))) budget used1 (cxc_memories c)
      in if newest = [] then None else Some (dumps (context_json c (rev newest) memories)))"

text \<open>\<open>MemoryScope(str(item.get("scope", "conversation")).upper())\<close>: only a string can name a scope,
  and only these characters have an upper case among its letters.\<close>

definition scope_named :: "json option \<Rightarrow> memory_scope option" where
  "scope_named v = (case v of
       None \<Rightarrow> Some CONVERSATION
     | Some (JStr t) \<Rightarrow> find (\<lambda>sc. scope_value sc = map upper_char t) [GLOBAL, SUBJECT, CONVERSATION]
     | Some _ \<Rightarrow> None)"

definition parse_insight :: "json \<Rightarrow> exn + insight list" where
  "parse_insight raw = (case raw of
       JObj entry \<Rightarrow> (case map_of entry (lit ''content'') of
           Some (JStr content) \<Rightarrow>
             if strip content = [] then Inr []
             else (case map_of entry (lit ''confidence'') of None \<Rightarrow> Inr []
               | Some c \<Rightarrow> (case py_float c of None \<Rightarrow> Inr []
                   | Some r \<Rightarrow> (case scope_named (map_of entry (lit ''scope'')) of None \<Rightarrow> Inr []
                       | Some sc \<Rightarrow> bindr r (\<lambda>x. Inr [\<lparr>isg_content = strip content,
                           isg_kind = stripped_or (map_of entry (lit ''kind'')) (lit ''insight''),
                           isg_scope = sc, isg_confidence = max 0 (min 1 x)\<rparr>]))))
         | _ \<Rightarrow> Inr [])
     | _ \<Rightarrow> Inr [])"

definition parse_insights :: "(ustr \<Rightarrow> json option) \<Rightarrow> ustr \<Rightarrow> exn + insight list" where
  "parse_insights loads t = parse_all parse_insight (decode_json_array loads t)"

text \<open>A memory item as the model builds it: strings stripped, then validated.\<close>

definition strip_item :: "memory_item \<Rightarrow> memory_item" where
  "strip_item i = i\<lparr>mi_subject := map_option strip (mi_subject i), mi_kind := strip (mi_kind i),
     mi_content := strip (mi_content i), mi_sources := map strip (mi_sources i)\<rparr>"

definition build_item :: "memory_item \<Rightarrow> exn + memory_item" where
  "build_item i = (if valid_item (strip_item i) then Inr (strip_item i) else Inl validation_error)"

definition plain_item :: "ustr \<Rightarrow> ustr \<Rightarrow> ustr \<Rightarrow> ustr list \<Rightarrow> real \<Rightarrow> memory_item" where
  "plain_item new_id kind content sources confidence =
     \<lparr>mi_id = new_id, mi_scope = GLOBAL, mi_subject = None, mi_conversation = None, mi_kind = kind, mi_content = content,
      mi_sources = sources, mi_confidence = confidence, mi_relationship_score = None, mi_privacy = PUBLIC,
      mi_valid_from = None, mi_valid_until = None, mi_conflicts_with = [], mi_supersedes = [], mi_invalid_at = None,
      mi_invalidated_by = None, mi_revoked_at = None, mi_revoked_reason = None\<rparr>"

definition insight_item :: "ustr \<Rightarrow> insight \<Rightarrow> consolidation_context \<Rightarrow> memory_item" where
  "insight_item new_id g c =
     (let i = plain_item new_id (isg_kind g) (isg_content g) (cxc_source_ids c) (isg_confidence g)
      in case isg_scope g of
           GLOBAL \<Rightarrow> i
         | SUBJECT \<Rightarrow> i\<lparr>mi_scope := SUBJECT, mi_subject := Some (cxc_subject c), mi_privacy := PRIVATE\<rparr>
         | CONVERSATION \<Rightarrow> i\<lparr>mi_scope := CONVERSATION, mi_conversation := Some (cxc_conversation c), mi_privacy := SHARED\<rparr>)"

definition merge_insight :: "('s, 'z) consolidation_job_scheme \<Rightarrow> consolidation_context \<Rightarrow> insight \<Rightarrow> ('s, int) prog" where
  "merge_insight j c g =
     (if isg_confidence g < cj_min_confidence j then retp 0
      else bindp (liftp (cj_uuid j)) (\<lambda>new_id. bindp (liftr (build_item (insight_item new_id g c))) (\<lambda>i.
           bindp (cj_merge j i (lit ''sleep_consolidation'')) (\<lambda>(a, usage). retp (if ma_applied a then 1 else 0)))))"

text \<open>The sum of what a program returns over a list, in its order.\<close>

fun sum_over :: "('a \<Rightarrow> ('s, int) prog) \<Rightarrow> 'a list \<Rightarrow> int \<Rightarrow> ('s, int) prog" where
  "sum_over f [] n = retp n"
| "sum_over f (x # xs) n = bindp (f x) (\<lambda>k. sum_over f xs (n + k))"

definition consolidate :: "('s, 'z) consolidation_job_scheme \<Rightarrow> consolidation_context \<Rightarrow> ('s, int) prog" where
  "consolidate j c = (case bounded_payload (cj_dumps j) c (cj_budget j) of
       None \<Rightarrow> retp 0
     | Some payload \<Rightarrow> (case cj_llm j of
         None \<Rightarrow> retp 0
       | Some llm \<Rightarrow> catch_llm (llm insight_prompt payload) (\<lambda>reply.
           bindp (liftr (parse_insights (cj_loads j) (lr_text reply))) (\<lambda>gs. sum_over (merge_insight j c) (take 5 gs) 0))
           (retp 0)))"

text \<open>\<open>int(now.timestamp()) // interval\<close> for an instant in microseconds.\<close>

definition pass_bucket :: "int \<Rightarrow> int \<Rightarrow> exn + int" where
  "pass_bucket now interval = (if interval = 0 then Inl (Raised (lit ''ZeroDivisionError'')) else Inr (now div 1000000 div interval))"

definition hours :: "int \<Rightarrow> int" where
  "hours n = n * 3600000000"

definition consolidation_pass :: "('s, 'z) consolidation_job_scheme \<Rightarrow> ('s, int) prog" where
  "consolidation_pass j =
     (if \<not> cj_enabled j \<or> cj_llm j = None then retp 0
      else bindp (getp (cj_now j)) (\<lambda>now.
        bindp (case cj_once j of None \<Rightarrow> retp True
          | Some once \<Rightarrow> bindp (liftr (pass_bucket now (cj_interval_seconds j))) (\<lambda>bucket.
              once (lit ''mybot:memory-consolidation:'' @ dec_int bucket) (cj_interval_seconds j))) (\<lambda>acquired.
        if \<not> acquired then retp 0
        else bindp (cj_source j (now - hours (cj_lookback_hours j)) now (cj_conversation_limit j) (cj_message_limit j) (cj_memory_limit j))
          (\<lambda>cs. sum_over (consolidate j) cs 0))))"

section \<open>Learning from groups\<close>

definition learning_prompt :: ustr where
  "learning_prompt = lit ''Analyze group dialogue for two safe, bounded outputs. Return one JSON object only: '' @
     lit ''{'' @ [34] @ lit ''expressions'' @ [34] @ lit '':[{'' @ [34] @ lit ''content'' @ [34] @ lit '':string,'' @ [34] @ lit ''confidence'' @ [34] @ lit '':0..1}],'' @
     [34] @ lit ''relationships'' @ [34] @ lit '':[{'' @ [34] @ lit ''subject_identity_id'' @ [34] @ lit '':string,'' @ [34] @ lit ''impression'' @ [34] @ lit '':string,'' @
     [34] @ lit ''familiarity_delta'' @ [34] @ lit '':0..5}]}. Expressions are short reusable rhythm or tone patterns, '' @
     lit ''not personal facts and not verbatim private quotes. Relationships are neutral, '' @
     lit ''non-sensitive interaction impressions for supplied sender ids only. Never infer health, '' @
     lit ''finance, identity documents, secrets, protected traits, or off-chat facts. Return empty '' @
     lit ''arrays when evidence is weak. At most 3 expressions and 5 relationships.''"

record 's learning_job =
  lj_source :: "int \<Rightarrow> int \<Rightarrow> int \<Rightarrow> ('s, learning_context list) prog"
  lj_merge :: "memory_item \<Rightarrow> ustr \<Rightarrow> ('s, merge_application \<times> int \<times> int) prog"
  lj_relationship :: "ustr \<Rightarrow> int \<Rightarrow> ('s, memory_record option) prog"
  lj_upsert :: "memory_item \<Rightarrow> ustr \<Rightarrow> int \<Rightarrow> ('s, merge_application) prog"
  lj_llm :: "ustr \<Rightarrow> ustr \<Rightarrow> (llm_exn, 's, llm_reply) eprog"
  lj_once :: "ustr \<Rightarrow> int \<Rightarrow> ('s, bool) prog"
  lj_now :: "'s \<Rightarrow> int"
  lj_uuid :: "'s \<Rightarrow> ustr \<times> 's"
  lj_loads :: "ustr \<Rightarrow> json option"
  lj_dumps :: "json \<Rightarrow> ustr"
  lj_sha256 :: "ustr \<Rightarrow> ustr"
  lj_enabled :: bool
  lj_lookback_hours :: int
  lj_conversation_limit :: int
  lj_message_limit :: int
  lj_budget :: int
  lj_min_confidence :: real
  lj_dedupe_ttl :: int

text \<open>What fits of the list, skipping what does not.\<close>

fun all_fitting :: "('a \<Rightarrow> int) \<Rightarrow> int \<Rightarrow> int \<Rightarrow> 'a list \<Rightarrow> 'a list" where
  "all_fitting cost budget used [] = []"
| "all_fitting cost budget used (x # xs) =
     (if used + cost x > budget then all_fitting cost budget used xs
      else x # all_fitting cost budget (used + cost x) xs)"

definition bounded_transcript :: "learning_context \<Rightarrow> int \<Rightarrow> message_text list" where
  "bounded_transcript c budget = rev (all_fitting (\<lambda>m. estimate_tokens (mt_sender m @ lit '': '' @ mt_text m)) budget
     (estimate_tokens learning_prompt) (rev (lc_messages c)))"

text \<open>\<open>cleaned.split("\n", 1)[-1]\<close> and \<open>cleaned.rsplit("```", 1)[0]\<close>.\<close>

definition after_first_line :: "ustr \<Rightarrow> ustr" where
  "after_first_line t = (if 10 \<in> set t then tl (dropWhile (\<lambda>c. c \<noteq> 10) t) else t)"

definition code_fence :: ustr where
  "code_fence = [96, 96, 96]"

fun before_last :: "ustr \<Rightarrow> ustr \<Rightarrow> ustr" where
  "before_last p [] = []"
| "before_last p (c # cs) = (if has_sub p cs then c # before_last p cs
     else if starts_with p (c # cs) then [] else c # cs)"

definition unfenced :: "ustr \<Rightarrow> ustr" where
  "unfenced t = (let cleaned = strip t
     in if starts_with code_fence cleaned then before_last code_fence (after_first_line cleaned) else cleaned)"

definition decode_learning :: "(ustr \<Rightarrow> json option) \<Rightarrow> ustr \<Rightarrow> (ustr, json) dict" where
  "decode_learning loads t = (case loads (unfenced t) of Some (JObj d) \<Rightarrow> d | _ \<Rightarrow> [])"

definition object_list :: "json option \<Rightarrow> (ustr, json) dict list" where
  "object_list v = (case v of Some (JArr vs) \<Rightarrow> List.map_filter (\<lambda>x. case x of JObj d \<Rightarrow> Some d | _ \<Rightarrow> None) vs | _ \<Rightarrow> [])"

definition short_text :: "json option \<Rightarrow> nat \<Rightarrow> ustr" where
  "short_text v limit = (case v of Some (JStr t) \<Rightarrow> take limit (strip t) | _ \<Rightarrow> [])"

definition bounded_number :: "json option \<Rightarrow> real \<Rightarrow> real \<Rightarrow> exn + real" where
  "bounded_number v low high = (case v of None \<Rightarrow> Inr 0
     | Some c \<Rightarrow> (case py_float c of None \<Rightarrow> Inr 0 | Some r \<Rightarrow> bindr r (\<lambda>x. Inr (min high (max low x)))))"

definition applied_count :: "merge_application \<Rightarrow> int" where
  "applied_count a = (if ma_applied a then 1 else 0)"

definition expression_item :: "ustr \<Rightarrow> ustr \<Rightarrow> real \<Rightarrow> learning_context \<Rightarrow> memory_item" where
  "expression_item new_id content confidence c = (plain_item new_id (lit ''EXPRESSION'') content (lc_source_ids c) confidence)
     \<lparr>mi_scope := CONVERSATION, mi_conversation := Some (lc_conversation c), mi_privacy := SHARED\<rparr>"

definition learn_expression :: "('s, 'z) learning_job_scheme \<Rightarrow> learning_context \<Rightarrow> (ustr, json) dict \<Rightarrow> ('s, int) prog" where
  "learn_expression j c d =
     (let content = short_text (map_of d (lit ''content'')) 200
      in bindp (liftr (bounded_number (map_of d (lit ''confidence'')) 0 1)) (\<lambda>confidence.
         if content = [] \<or> confidence < lj_min_confidence j then retp 0
         else bindp (liftp (lj_uuid j)) (\<lambda>new_id. bindp (liftr (build_item (expression_item new_id content confidence c))) (\<lambda>i.
              bindp (lj_merge j i (lit ''expression_learning'')) (\<lambda>(a, usage). retp (applied_count a))))))"

definition relationship_item :: "ustr \<Rightarrow> ustr \<Rightarrow> ustr \<Rightarrow> ustr list \<Rightarrow> real \<Rightarrow> memory_item" where
  "relationship_item new_id subject impression sources familiarity =
     (plain_item new_id relationship_kind impression sources (85 / 100))
     \<lparr>mi_scope := SUBJECT, mi_subject := Some subject, mi_relationship_score := Some familiarity, mi_privacy := PRIVATE\<rparr>"

text \<open>The messages of a sender, or all sources of the context.\<close>

definition sender_sources :: "learning_context \<Rightarrow> message_text list \<Rightarrow> ustr \<Rightarrow> ustr list" where
  "sender_sources c transcript subject =
     (let own = List.map_filter mt_id (filter (\<lambda>m. mt_sender m = subject) transcript)
      in if own = [] then lc_source_ids c else own)"

definition grown_familiarity :: "memory_record option \<Rightarrow> real \<Rightarrow> real" where
  "grown_familiarity previous delta =
     min 100 (max 0 ((case previous of None \<Rightarrow> 0 | Some r \<Rightarrow> (case rec_relationship_score r of None \<Rightarrow> 0 | Some x \<Rightarrow> x)) + delta))"

definition learn_relationship ::
  "('s, 'z) learning_job_scheme \<Rightarrow> learning_context \<Rightarrow> int \<Rightarrow> message_text list \<Rightarrow> (ustr, json) dict \<Rightarrow> ('s, int) prog" where
  "learn_relationship j c now transcript d =
     (let subject = short_text (map_of d (lit ''subject_identity_id'')) 300;
          impression = short_text (map_of d (lit ''impression'')) 500
      in bindp (liftr (bounded_number (map_of d (lit ''familiarity_delta'')) 0 5)) (\<lambda>delta.
         if subject = [] \<or> subject \<notin> mt_sender ` set transcript \<or> impression = [] then retp 0
         else bindp (lj_relationship j subject now) (\<lambda>previous.
              bindp (liftp (lj_uuid j)) (\<lambda>new_id.
              bindp (liftr (build_item (relationship_item new_id subject impression (sender_sources c transcript subject)
                (grown_familiarity previous delta)))) (\<lambda>i.
              bindp (lj_upsert j i (lit ''relationship_learning'') now) (\<lambda>a. retp (applied_count a)))))))"

definition transcript_json :: "learning_context \<Rightarrow> message_text list \<Rightarrow> json" where
  "transcript_json c transcript = JObj [(lit ''conversation'', JStr (stable_key (lc_conversation c))),
     (lit ''messages'', JArr (map (\<lambda>m. JObj [(lit ''sender'', JStr (mt_sender m)), (lit ''text'', JStr (mt_text m))]) transcript))]"

definition learn_context :: "('s, 'z) learning_job_scheme \<Rightarrow> learning_context \<Rightarrow> int \<Rightarrow> ('s, int) prog" where
  "learn_context j c now =
     (let transcript = bounded_transcript c (lj_budget j)
      in if length transcript < 3 then retp 0
         else catch_llm (lj_llm j learning_prompt (lj_dumps j (transcript_json c transcript))) (\<lambda>reply.
           let parsed = decode_learning (lj_loads j) (lr_text reply) in
           bindp (sum_over (learn_expression j c) (take 3 (object_list (map_of parsed (lit ''expressions'')))) 0) (\<lambda>n.
             sum_over (learn_relationship j c now transcript) (take 5 (object_list (map_of parsed (lit ''relationships'')))) n))
           (retp 0))"

definition learning_key :: "('s, 'z) learning_job_scheme \<Rightarrow> learning_context \<Rightarrow> ustr" where
  "learning_key j c = lit ''mybot:personality-learning:'' @ stable_key (lc_conversation c) @ [58] @
     lj_sha256 j (py_join [0] (lc_source_ids c))"

definition learn_one :: "('s, 'z) learning_job_scheme \<Rightarrow> int \<Rightarrow> learning_context \<Rightarrow> ('s, int) prog" where
  "learn_one j now c =
     (if lc_source_ids c = [] then retp 0
      else bindp (lj_once j (learning_key j c) (lj_dedupe_ttl j)) (\<lambda>acquired.
        if \<not> acquired then retp 0 else catchp (learn_context j c now) (\<lambda>_. retp 0)))"

definition learning_pass :: "('s, 'z) learning_job_scheme \<Rightarrow> ('s, int) prog" where
  "learning_pass j =
     (if \<not> lj_enabled j then retp 0
      else bindp (getp (lj_now j)) (\<lambda>now.
        bindp (lj_source j (now - hours (lj_lookback_hours j)) (lj_conversation_limit j) (lj_message_limit j)) (\<lambda>cs.
          sum_over (learn_one j now) cs 0)))"

section \<open>What a job may write\<close>

text \<open>A way to merge an item that changes nothing outside the boundary of the item.\<close>

locale memory_writer =
  fixes ledger :: "'s \<Rightarrow> memory_db" and merge :: "memory_item \<Rightarrow> ustr \<Rightarrow> ('s, merge_application \<times> int \<times> int) prog"
  assumes write_inside: "item_boundary i \<in> B \<Longrightarrow> moves (stays ledger B) (merge i source)"

text \<open>The memory policy merges in such a way.\<close>

sublocale memory_boundary < writer: memory_writer ledger "merge_one sv"
  by unfold_locales (rule merge_stays)

text \<open>What can be written for a context: global and public, private about its subject, shared in its conversation.\<close>

definition context_boundaries :: "consolidation_context \<Rightarrow> boundary set" where
  "context_boundaries c = {(GLOBAL, PUBLIC, None, None), (SUBJECT, PRIVATE, Some (strip (cxc_subject c)), None),
     (CONVERSATION, SHARED, None, Some (stable_key (cxc_conversation c)))}"

definition learning_boundaries :: "learning_context \<Rightarrow> boundary set" where
  "learning_boundaries c = insert (CONVERSATION, SHARED, None, Some (stable_key (lc_conversation c)))
     ((\<lambda>m. (SUBJECT, PRIVATE, Some (strip (mt_sender m)), None)) ` set (lc_messages c))"

text \<open>A relationship supersedes an older one of the same person, whatever its privacy.\<close>

definition member_rows :: "learning_context \<Rightarrow> boundary set" where
  "member_rows c = {(sc, p, x, k). sc = SUBJECT \<and> x \<in> (\<lambda>m. Some (strip (mt_sender m))) ` set (lc_messages c)}"

text \<open>Rows outside \<open>C\<close> are left alone, and new rows are inside \<open>B\<close>.\<close>

definition tagged_rows :: "memory_db \<Rightarrow> (ustr \<times> boundary) set" where
  "tagged_rows db = (\<lambda>r. (mx_id r, boundary_of r)) ` set (ml_items db)"

definition writes :: "('s \<Rightarrow> memory_db) \<Rightarrow> boundary set \<Rightarrow> boundary set \<Rightarrow> 's \<Rightarrow> 's \<Rightarrow> bool" where
  "writes ledger B C s s' \<longleftrightarrow> stays ledger C s s' \<and>
     (ledger_ok (ml_items (ledger s)) \<longrightarrow> tagged_rows (ledger s') \<subseteq> tagged_rows (ledger s) \<union> UNIV \<times> B)"

lemma writes_refl: "reflp (writes ledger B C)"
  by (simp add: reflp_def writes_def stays_def leaves_refl)

lemma writes_trans: "transp (writes ledger B C)"
proof (rule transpI)
  fix a b c
  assume ab: "writes ledger B C a b" and bc: "writes ledger B C b c"
  have ok: "ledger_ok (ml_items (ledger b))" if "ledger_ok (ml_items (ledger a))"
    using ab that by (simp add: writes_def stays_def leaves_outside_def)
  show "writes ledger B C a c"
    unfolding writes_def
  proof (intro conjI impI)
    show "stays ledger C a c" using ab bc by (auto simp: writes_def intro: transpD [OF stays_trans])
    assume a: "ledger_ok (ml_items (ledger a))"
    have "tagged_rows (ledger c) \<subseteq> tagged_rows (ledger b) \<union> UNIV \<times> B" using bc ok [OF a] by (simp add: writes_def)
    moreover have "tagged_rows (ledger b) \<subseteq> tagged_rows (ledger a) \<union> UNIV \<times> B" using ab a by (simp add: writes_def)
    ultimately show "tagged_rows (ledger c) \<subseteq> tagged_rows (ledger a) \<union> UNIV \<times> B" by (meson Un_upper2 le_sup_iff order_trans)
  qed
qed

lemma writes_same: "ledger s' = ledger s \<Longrightarrow> writes ledger B C s s'"
  by (simp add: writes_def stays_def leaves_refl)

lemma stays_writes:
  assumes "stays ledger B s s'" and "B \<subseteq> C"
  shows "writes ledger B C s s'"
  unfolding writes_def
proof (intro conjI impI)
  show "stays ledger C s s'" using assms leaves_mono by (auto simp: stays_def)
  assume "ledger_ok (ml_items (ledger s))"
  then have same: "rows_outside B (ledger s') = rows_outside B (ledger s)" using assms(1) by (simp add: stays_def leaves_outside_def)
  show "tagged_rows (ledger s') \<subseteq> tagged_rows (ledger s) \<union> UNIV \<times> B"
  proof
    fix x assume "x \<in> tagged_rows (ledger s')"
    then obtain r where r: "r \<in> set (ml_items (ledger s'))" "x = (mx_id r, boundary_of r)" by (auto simp: tagged_rows_def)
    have "r \<in> set (ml_items (ledger s))" if "boundary_of r \<notin> B"
    proof -
      have "r \<in> set (rows_outside B (ledger s'))" using r(1) that by (simp add: rows_outside_def)
      then show ?thesis unfolding same by (simp add: rows_outside_def)
    qed
    then show "x \<in> tagged_rows (ledger s) \<union> UNIV \<times> B" using r(2) by (auto simp: tagged_rows_def)
  qed
qed

lemma moves_bind_liftr:
  assumes "reflp R" and "\<And>x. r = Inr x \<Longrightarrow> moves R (f x)"
  shows "moves R (bindp (liftr r) f)"
  using assms by (cases r) (auto simp: moves_def bindp_def liftr_def reflpD)

lemma bindp_getp: "bindp (getp f) g s = g (f s) s"
  by (simp add: bindp_def getp_def)

lemma moves_sum_over:
  assumes "reflp R" and "transp R" and "\<And>x. x \<in> set xs \<Longrightarrow> moves R (f x)"
  shows "moves R (sum_over f xs n)"
  using assms(3)
proof (induction xs arbitrary: n)
  case Nil
  show ?case unfolding sum_over.simps by (rule moves_retp [OF assms(1)])
next
  case (Cons x xs)
  then show ?case unfolding sum_over.simps by (intro moves_bindp [OF assms(2)]) auto
qed

lemma insight_boundary: "build_item (insight_item u g c) = Inr i \<Longrightarrow> item_boundary i \<in> context_boundaries c"
  by (auto simp: build_item_def strip_item_def insight_item_def plain_item_def item_boundary_def item_key_def
    context_boundaries_def Let_def split: if_splits memory_scope.splits)

lemma expression_boundary: "build_item (expression_item u t x c) = Inr i \<Longrightarrow> item_boundary i \<in> learning_boundaries c"
  by (auto simp: build_item_def strip_item_def expression_item_def plain_item_def item_boundary_def item_key_def
    learning_boundaries_def split: if_splits)

lemma relationship_boundary:
  assumes "build_item (relationship_item u x t sources score) = Inr i"
  shows "item_boundary i = (SUBJECT, PRIVATE, Some (strip x), None)"
  using assms by (auto simp: build_item_def strip_item_def relationship_item_def plain_item_def item_boundary_def item_key_def split: if_splits)

lemma all_fitting_subset: "set (all_fitting cost budget used xs) \<subseteq> set xs"
  by (induction xs arbitrary: used) auto

lemma transcript_subset: "set (bounded_transcript c budget) \<subseteq> set (lc_messages c)"
  unfolding bounded_transcript_def using all_fitting_subset [of _ _ _ "rev (lc_messages c)"] by fastforce

text \<open>The consolidation job: its source gives contexts whose boundaries \<open>reach\<close> allows.\<close>

locale consolidation_ports = memory_writer ledger "cj_merge j"
  for ledger :: "'s \<Rightarrow> memory_db" and j :: "'s consolidation_job" +
  fixes reach :: "'s \<Rightarrow> boundary set"
  assumes source_frame: "moves (same_view ledger) (cj_source j since now n1 n2 n3)"
    and source_reach: "cj_source j since now n1 n2 n3 s = (Inr cs, s') \<Longrightarrow> c \<in> set cs \<Longrightarrow> context_boundaries c \<subseteq> reach s"
    and llm_frame: "cj_llm j = Some llm \<Longrightarrow> moves (same_view ledger) (llm system user)"
    and once_frame: "cj_once j = Some once \<Longrightarrow> moves (same_view (\<lambda>s. (ledger s, reach s))) (once key ttl)"
    and uuid_items: "ml_items (ledger (snd (cj_uuid j s))) = ml_items (ledger s)"
begin

lemma uuid_stays: "moves (stays ledger B) (liftp (cj_uuid j))"
  by (rule moves_liftp) (simp add: stays_def leaves_outside_def rows_outside_def uuid_items)

lemma insight_stays: "context_boundaries c \<subseteq> B \<Longrightarrow> moves (stays ledger B) (merge_insight j c g)"
  unfolding merge_insight_def
  by (auto intro!: moves_if moves_retp moves_bindp moves_bind_liftr stays_refl stays_trans uuid_stays write_inside
    dest: insight_boundary split: prod.split)

lemma consolidate_stays: "context_boundaries c \<subseteq> B \<Longrightarrow> moves (stays ledger B) (consolidate j c)"
  unfolding consolidate_def
  by (auto intro!: moves_retp moves_catch_llm moves_bind_liftr moves_sum_over stays_refl stays_trans insight_stays
    frame_stays [OF llm_frame] split: option.split)

lemma pass_stays:
  assumes "consolidation_pass j s = (r, s')"
  shows "stays ledger (reach s) s s'"
proof (cases "\<not> cj_enabled j \<or> cj_llm j = None")
  case True
  then show ?thesis using assms by (auto simp: consolidation_pass_def stays_def leaves_refl)
next
  case False
  let ?now = "cj_now j s"
  let ?gate = "case cj_once j of None \<Rightarrow> retp True
     | Some once \<Rightarrow> bindp (liftr (pass_bucket ?now (cj_interval_seconds j))) (\<lambda>bucket.
         once (lit ''mybot:memory-consolidation:'' @ dec_int bucket) (cj_interval_seconds j))"
  let ?source = "cj_source j (?now - hours (cj_lookback_hours j)) ?now (cj_conversation_limit j) (cj_message_limit j) (cj_memory_limit j)"
  have gate: "moves (same_view (\<lambda>s. (ledger s, reach s))) ?gate"
  proof (cases "cj_once j")
    case None
    show ?thesis unfolding None option.case by (intro moves_retp same_view_refl)
  next
    case (Some once)
    show ?thesis unfolding Some option.case
      by (intro moves_bind_liftr same_view_refl) (rule once_frame [OF Some])
  qed
  from assms False have "bindp ?gate (\<lambda>acquired. if \<not> acquired then retp 0
      else bindp ?source (\<lambda>cs. sum_over (consolidate j) cs 0)) s = (r, s')"
    by (simp only: consolidation_pass_def bindp_getp if_False)
  then show ?thesis
  proof (cases rule: bindp_cases)
    case (raises e)
    then show ?thesis using movesD [OF gate raises(1)] by (simp add: same_view_def stays_def leaves_refl)
  next
    case (returned acquired s1)
    have same: "ledger s1 = ledger s" "reach s1 = reach s"
      using movesD [OF gate returned(1)] by (simp_all add: same_view_def)
    show ?thesis
    proof (cases acquired)
      case False
      then show ?thesis using returned(2) same by (simp add: stays_def leaves_refl)
    next
      case True
      with returned(2) have "bindp ?source (\<lambda>cs. sum_over (consolidate j) cs 0) s1 = (r, s')" by simp
      then show ?thesis
      proof (cases rule: bindp_cases)
        case (raises e)
        then show ?thesis using movesD [OF source_frame raises(1)] same by (simp add: same_view_def stays_def leaves_refl)
      next
        case (returned cs s2)
        have "moves (stays ledger (reach s)) (sum_over (consolidate j) cs 0)"
          using source_reach [OF returned(1)] same
          by (intro moves_sum_over stays_refl stays_trans consolidate_stays) simp
        then have "stays ledger (reach s) s2 s'" using returned(2) movesD by fast
        then show ?thesis using movesD [OF source_frame returned(1)] same by (simp add: same_view_def stays_def)
      qed
    qed
  qed
qed

end

text \<open>The learning job.\<close>

locale learning_ports = memory_writer ledger "lj_merge j"
  for ledger :: "'s \<Rightarrow> memory_db" and j :: "'s learning_job" +
  fixes contexts :: "'s \<Rightarrow> learning_context set"
  assumes source_frame: "moves (same_view ledger) (lj_source j since n1 n2)"
    and source_contexts: "lj_source j since n1 n2 s = (Inr cs, s') \<Longrightarrow> c \<in> set cs \<Longrightarrow> c \<in> contexts s"
    and llm_frame: "moves (same_view ledger) (lj_llm j system user)"
    and once_frame: "moves (same_view ledger) (lj_once j key ttl)"
    and relationship_frame: "moves (same_view ledger) (lj_relationship j subject now)"
    and uuid_items: "ml_items (ledger (snd (lj_uuid j s))) = ml_items (ledger s)"
    and upsert_inside: "item_boundary i \<in> B \<Longrightarrow> {(SUBJECT, p, mi_subject i, k) |p k. True} \<subseteq> C \<Longrightarrow> B \<subseteq> C \<Longrightarrow>
      moves (writes ledger B C) (lj_upsert j i source now)"
begin

lemma frame_writes: "moves (same_view ledger) m \<Longrightarrow> moves (writes ledger B C) m"
  by (rule movesI) (drule (1) movesD, simp add: same_view_def writes_same)

lemma uuid_writes: "moves (writes ledger B C) (liftp (lj_uuid j))"
  by (rule moves_liftp) (simp add: writes_def stays_def leaves_outside_def rows_outside_def tagged_rows_def uuid_items)

lemma merge_writes: "item_boundary i \<in> B \<Longrightarrow> B \<subseteq> C \<Longrightarrow> moves (writes ledger B C) (lj_merge j i source)"
  by (rule movesI, rule stays_writes) (auto dest: movesD [OF write_inside])

lemma expression_writes:
  assumes "learning_boundaries c \<subseteq> B" and "B \<subseteq> C"
  shows "moves (writes ledger B C) (learn_expression j c d)"
  unfolding learn_expression_def Let_def
  using assms by (auto intro!: moves_if moves_retp moves_bindp moves_bind_liftr writes_refl writes_trans uuid_writes merge_writes
    dest: expression_boundary split: prod.split)

lemma relationship_writes:
  assumes "learning_boundaries c \<union> member_rows c \<subseteq> C" and "learning_boundaries c \<subseteq> B" and "B \<subseteq> C"
    and "set transcript \<subseteq> set (lc_messages c)"
  shows "moves (writes ledger B C) (learn_relationship j c now transcript d)"
proof -
  have upsert: "moves (writes ledger B C) (lj_upsert j i source now)"
    if built: "build_item (relationship_item u x t sources score) = Inr i" and sender: "x \<in> mt_sender ` set transcript" for i source u x t sources score
  proof (rule upsert_inside)
    have b: "item_boundary i = (SUBJECT, PRIVATE, Some (strip x), None)" by (rule relationship_boundary [OF built])
    obtain m where m: "m \<in> set (lc_messages c)" "x = mt_sender m" using sender assms(4) by blast
    then have "(SUBJECT, PRIVATE, Some (strip x), None) \<in> learning_boundaries c" by (auto simp: learning_boundaries_def)
    then show "item_boundary i \<in> B" using b assms(2) by auto
    have "mi_subject i = Some (strip x)" using b by (simp add: item_boundary_def)
    then show "{(SUBJECT, p, mi_subject i, k) |p k. True} \<subseteq> C" using m assms(1) by (auto simp: member_rows_def)
    show "B \<subseteq> C" by (rule assms(3))
  qed
  show ?thesis
    unfolding learn_relationship_def Let_def
    by (intro moves_bind_liftr moves_if moves_bindp writes_refl writes_trans moves_retp uuid_writes
      frame_writes [OF relationship_frame] upsert) auto
qed

lemma learn_writes:
  assumes "learning_boundaries c \<union> member_rows c \<subseteq> C" and "learning_boundaries c \<subseteq> B" and "B \<subseteq> C"
  shows "moves (writes ledger B C) (learn_one j now c)"
  unfolding learn_one_def learn_context_def Let_def
  by (intro moves_if moves_bindp moves_catchp moves_catch_llm moves_sum_over moves_retp writes_refl writes_trans
    frame_writes [OF once_frame] frame_writes [OF llm_frame] expression_writes relationship_writes assms
    transcript_subset)

lemma learning_pass_writes:
  assumes "learning_pass j s = (r, s')"
  shows "writes ledger (\<Union>c \<in> contexts s. learning_boundaries c) (\<Union>c \<in> contexts s. learning_boundaries c \<union> member_rows c) s s'"
    (is "writes ledger ?B ?C s s'")
proof (cases "lj_enabled j")
  case False
  then show ?thesis using assms by (simp add: learning_pass_def writes_def stays_def leaves_refl)
next
  case True
  with assms have "bindp (lj_source j (lj_now j s - hours (lj_lookback_hours j)) (lj_conversation_limit j) (lj_message_limit j))
      (\<lambda>cs. sum_over (learn_one j (lj_now j s)) cs 0) s = (r, s')"
    by (simp only: learning_pass_def bindp_getp if_False not_True_eq_False simp_thms if_True)
  then show ?thesis
  proof (cases rule: bindp_cases)
    case (raises e)
    then show ?thesis using movesD [OF frame_writes [OF source_frame] raises(1)] by simp
  next
    case (returned cs s1)
    have "moves (writes ledger ?B ?C) (sum_over (learn_one j (lj_now j s)) cs 0)"
    proof (intro moves_sum_over writes_refl writes_trans learn_writes)
      fix c assume "c \<in> set cs"
      then have "c \<in> contexts s" using source_contexts [OF returned(1)] by simp
      then show "learning_boundaries c \<union> member_rows c \<subseteq> ?C" "learning_boundaries c \<subseteq> ?B" by auto
    qed auto
    then have "writes ledger ?B ?C s1 s'" using returned(2) movesD by fast
    then show ?thesis using movesD [OF frame_writes [OF source_frame] returned(1)] transpD [OF writes_trans] by fast
  qed
qed

end

section \<open>The jobs on the tables\<close>

text \<open>The state: the ledger, the message tables, and the rest of the world.\<close>

definition beyond_tables :: "('e, 'w, 'a) eprog \<Rightarrow> ('e, memory_db \<times> message_db \<times> 'w, 'a) eprog" where
  "beyond_tables m s = (case s of (db, mdb, w) \<Rightarrow> (case m w of (r, w') \<Rightarrow> (r, (db, mdb, w'))))"

definition draw_item_id :: "memory_db \<times> 'w \<Rightarrow> ustr \<times> (memory_db \<times> 'w)" where
  "draw_item_id s = (case memory_uuid (fst s) of (u, db) \<Rightarrow> (u, (db, snd s)))"

definition table_consolidation ::
  "memory_sql \<Rightarrow> (message_db \<times> 'w) memory_service \<Rightarrow> 'w consolidation_job \<Rightarrow> (memory_db \<times> message_db \<times> 'w) consolidation_job" where
  "table_consolidation sql sv out = \<lparr>
     cj_source = (\<lambda>since now n1 n2 n3 s. if n1 < 0 \<or> n2 < 0 \<or> n3 < 0 then raisep (Raised (lit ''DBAPIError'')) s
       else (recent_consolidation_contexts since now (nat n1) (nat n2) (nat n3) (fst (snd s)) (fst s), s)),
     cj_merge = merge_one (ledger_service sql sv),
     cj_llm = map_option (\<lambda>f system user. beyond_tables (f system user)) (cj_llm out),
     cj_once = map_option (\<lambda>f key ttl. beyond_tables (f key ttl)) (cj_once out),
     cj_now = (\<lambda>s. cj_now out (snd (snd s))), cj_uuid = draw_item_id, cj_loads = cj_loads out, cj_dumps = cj_dumps out,
     cj_interval_seconds = cj_interval_seconds out, cj_lookback_hours = cj_lookback_hours out,
     cj_conversation_limit = cj_conversation_limit out, cj_message_limit = cj_message_limit out, cj_memory_limit = cj_memory_limit out,
     cj_budget = cj_budget out, cj_min_confidence = cj_min_confidence out, cj_enabled = cj_enabled out\<rparr>"

definition table_learning ::
  "memory_sql \<Rightarrow> (message_db \<times> 'w) memory_service \<Rightarrow> 'w learning_job \<Rightarrow> (memory_db \<times> message_db \<times> 'w) learning_job" where
  "table_learning sql sv out = \<lparr>
     lj_source = (\<lambda>since n1 n2 s. if n1 < 0 \<or> n2 < 0 then raisep (Raised (lit ''DBAPIError'')) s
       else (Inr (group_learning_contexts since (nat n1) (nat n2) (fst (snd s))), s)),
     lj_merge = merge_one (ledger_service sql sv),
     lj_relationship = (\<lambda>subject now s. (Inr (relationship_for subject now (fst s)), s)),
     lj_upsert = (\<lambda>i source now. over_ledger (upsert_relationship i source now)),
     lj_llm = (\<lambda>system user. beyond_tables (lj_llm out system user)),
     lj_once = (\<lambda>key ttl. beyond_tables (lj_once out key ttl)),
     lj_now = (\<lambda>s. lj_now out (snd (snd s))), lj_uuid = draw_item_id, lj_loads = lj_loads out, lj_dumps = lj_dumps out,
     lj_sha256 = lj_sha256 out, lj_enabled = lj_enabled out, lj_lookback_hours = lj_lookback_hours out,
     lj_conversation_limit = lj_conversation_limit out, lj_message_limit = lj_message_limit out, lj_budget = lj_budget out,
     lj_min_confidence = lj_min_confidence out, lj_dedupe_ttl = lj_dedupe_ttl out\<rparr>"

text \<open>Who spoke in a conversation, and the boundaries of its dialogue.\<close>

definition speakers :: "message_db \<Rightarrow> conversation_row \<Rightarrow> ustr set" where
  "speakers mdb c = mr_sender ` {m \<in> set (db_messages mdb). mr_conversation m = cv_id c \<and> mr_direction m = inbound_direction}"

definition row_key :: "conversation_row \<Rightarrow> chat_kind \<Rightarrow> conversation_key" where
  "row_key c k = \<lparr>ck_connection_id = cv_connection_id c, ck_chat_kind = k, ck_chat_id = cv_chat_id c, ck_thread_id = cv_thread_id c\<rparr>"

definition dialogue_boundaries :: "message_db \<Rightarrow> boundary set" where
  "dialogue_boundaries mdb = insert (GLOBAL, PUBLIC, None, None)
     (\<Union>c \<in> {c \<in> set (db_conversations mdb). \<not> cv_ephemeral c}.
        {(CONVERSATION, SHARED, None, Some (stable_key (row_key c k))) |k. chat_kind_of (cv_chat_kind c) = Some k} \<union>
        (\<lambda>x. (SUBJECT, PRIVATE, Some (strip x), None)) ` speakers mdb c)"

definition learnable :: "message_db \<Rightarrow> conversation_row set" where
  "learnable mdb = {c \<in> set (db_conversations mdb). \<not> cv_ephemeral c \<and> cv_chat_kind c = chat_kind_value GROUP}"

definition group_boundaries :: "message_db \<Rightarrow> boundary set" where
  "group_boundaries mdb = (\<Union>c \<in> learnable mdb. insert (CONVERSATION, SHARED, None, Some (stable_key (row_key c GROUP)))
     ((\<lambda>x. (SUBJECT, PRIVATE, Some (strip x), None)) ` speakers mdb c))"

definition group_member_rows :: "message_db \<Rightarrow> boundary set" where
  "group_member_rows mdb = {(sc, p, x, k). sc = SUBJECT \<and> (\<exists>c \<in> learnable mdb. x \<in> (\<lambda>y. Some (strip y)) ` speakers mdb c)}"

lemma collect_contexts_in:
  assumes "collect_contexts f cs = Inr xs" and "x \<in> set xs"
  shows "\<exists>c \<in> set cs. \<exists>ys. f c = Inr ys \<and> x \<in> set ys"
  using assms
proof (induction cs arbitrary: xs)
  case (Cons c cs)
  from Cons.prems(1) obtain ys zs where "f c = Inr ys" "collect_contexts f cs = Inr zs" "xs = ys @ zs"
    by (auto split: sum.splits)
  then show ?case using Cons.IH [of zs] Cons.prems(2) by auto
qed simp

lemma newest_first_set: "set (newest_first rows) = set rows"
  by (simp add: newest_first_def)

lemma recent_conversations_in:
  assumes "(c, m) \<in> set (recent_conversations since limit mdb)"
  shows "c \<in> set (db_conversations mdb) \<and> \<not> cv_ephemeral c \<and> mr_sender m \<in> speakers mdb c"
proof -
  define rows where "rows = (\<lambda>c :: conversation_row. newest_first (filter (\<lambda>m. mr_conversation m = cv_id c \<and> mr_direction m = inbound_direction \<and>
               since \<le> mr_occurred_at m) (db_messages mdb)))"
  define pick where "pick = (\<lambda>c :: conversation_row. if cv_ephemeral c then [] else (case rows c of [] \<Rightarrow> [] | m # _ \<Rightarrow> [(c, m)]))"
  have "recent_conversations since limit mdb = take limit (sort_key (\<lambda>(c, m). - mr_occurred_at m) (concat (map pick (db_conversations mdb))))"
    unfolding recent_conversations_def pick_def rows_def ..
  then have "(c, m) \<in> set (concat (map pick (db_conversations mdb)))" using assms by (auto dest!: in_set_takeD)
  then obtain c' where c': "c' \<in> set (db_conversations mdb)" "(c, m) \<in> set (pick c')" by auto
  then have m: "\<not> cv_ephemeral c'" "c' = c" "m \<in> set (rows c')"
    by (cases "rows c'"; simp add: pick_def split: if_splits)+
  then show ?thesis using c' by (simp add: rows_def newest_first_set speakers_def)
qed

lemma consolidation_reach:
  assumes "recent_consolidation_contexts since now n1 n2 n3 mdb db = Inr cs" and "c \<in> set cs"
  shows "context_boundaries c \<subseteq> dialogue_boundaries mdb"
proof -
  from assms obtain row m ys where "(row, m) \<in> set (recent_conversations since n1 mdb)"
      and ys: "consolidation_of since now n2 n3 mdb db (row, m) = Inr ys" "c \<in> set ys"
    unfolding recent_consolidation_contexts_def by (fastforce dest: collect_contexts_in)
  note row = recent_conversations_in [OF this(1)]
  from ys obtain k where "chat_kind_of (cv_chat_kind row) = Some k" "cxc_conversation c = row_key row k" "cxc_subject c = mr_sender m"
    by (auto simp: consolidation_of_def Let_def row_key_def split: option.splits if_splits)
  then show ?thesis using row unfolding context_boundaries_def dialogue_boundaries_def by auto
qed

lemma row_text_sender: "x \<in> set (row_text m) \<Longrightarrow> mt_sender x = mr_sender m"
  by (auto simp: row_text_def Let_def split: if_splits)

lemma learning_context_from:
  assumes "c \<in> set (group_learning_contexts since n1 n2 mdb)"
  shows "\<exists>row \<in> learnable mdb. lc_conversation c = row_key row GROUP \<and> mt_sender ` set (lc_messages c) \<subseteq> speakers mdb row"
proof -
  from assms obtain row where row: "row \<in> learnable mdb" and c: "c \<in> set (learning_context_of since n2 mdb row)"
    unfolding group_learning_contexts_def learnable_def by (auto dest!: in_set_takeD split: option.splits)
  from c have key: "lc_conversation c = row_key row GROUP"
    and ms: "lc_messages c = concat (map row_text (rev (take n2 (newest_first (filter (\<lambda>r. mr_conversation r = cv_id row \<and>
            mr_direction r = inbound_direction \<and> since \<le> mr_occurred_at r) (db_messages mdb))))))"
    by (auto simp: learning_context_of_def Let_def row_key_def split: if_splits)
  have "mt_sender ` set (lc_messages c) \<subseteq> speakers mdb row"
    unfolding ms speakers_def by (auto simp: newest_first_set row_text_sender dest!: in_set_takeD)
  with row key show ?thesis by blast
qed

lemma draw_item_id_items: "ml_items (fst (snd (draw_item_id s))) = ml_items (fst s)"
  by (simp add: draw_item_id_def memory_uuid_def)

lemma beyond_frame: "moves (same_view (\<lambda>s. (fst s, fst (snd s)))) (beyond_tables m)"
  by (auto simp: moves_def same_view_def beyond_tables_def split: prod.splits)

lemma beyond_ledger: "moves (same_view fst) (beyond_tables m)"
  by (auto simp: moves_def same_view_def beyond_tables_def split: prod.splits)

text \<open>A relationship touches only rows about its subject, and what it adds has its own boundary.\<close>

lemma previous_relationship_row:
  assumes "previous_relationship i now rows = Some p"
  obtains q where "q \<in> set rows" "mx_id q = p" "mx_scope q = SUBJECT" "mx_subject q = mi_subject i"
proof -
  from assms obtain q where q: "first_row (filter (\<lambda>r. mx_scope r = SUBJECT \<and> mx_subject r = mi_subject i \<and>
     mi_subject i \<noteq> None \<and> mx_kind r = relationship_kind \<and> live_row now r) rows) = Some q" "mx_id q = p"
    by (auto simp: previous_relationship_def)
  then have "q \<in> set (newest_memory (filter (\<lambda>r. mx_scope r = SUBJECT \<and> mx_subject r = mi_subject i \<and>
     mi_subject i \<noteq> None \<and> mx_kind r = relationship_kind \<and> live_row now r) rows))"
    by (auto simp: first_row_def split: list.splits)
  then have "q \<in> set rows \<and> mx_scope q = SUBJECT \<and> mx_subject q = mi_subject i" by (simp add: newest_memory_def)
  with q(2) that show thesis by blast
qed

lemma new_row_boundary: "boundary_of (row_of_item i m k t) = item_boundary i"
  by (simp add: boundary_of_def row_of_item_def item_boundary_def item_key_def)

lemma new_row_boundary_update: "boundary_of (row_of_item (i\<lparr>mi_id := n, mi_supersedes := x\<rparr>) m k t) = item_boundary i"
  by (simp add: boundary_of_def row_of_item_def item_boundary_def item_key_def)

lemma upsert_writes:
  assumes "item_boundary i \<in> B" and subject: "{(SUBJECT, p, mi_subject i, k) |p k. True} \<subseteq> C" and "B \<subseteq> C"
  shows "writes fst B C (db, w) (snd (upsert_relationship i source now db), w)"
  unfolding writes_def stays_def leaves_outside_def fst_conv
proof (intro conjI impI)
  let ?db' = "snd (upsert_relationship i source now db)"
  assume ok: "ledger_ok (ml_items db)"
  then show "ledger_ok (ml_items ?db')" using ledger_step [of db undefined "Upsert_item i source now"] by simp
  have "rows_outside C ?db' = rows_outside C db \<and> tagged_rows ?db' \<subseteq> tagged_rows db \<union> UNIV \<times> B"
  proof (cases rule: upsert_cases [of i source now db])
    case (unchanged x db1)
    then show ?thesis by (simp add: rows_outside_def tagged_rows_def)
  next
    case (first r db')
    have "boundary_of r \<in> B" unfolding first(4) new_row_boundary by (rule assms(1))
    then show ?thesis unfolding first(1) snd_conv rows_outside_def tagged_rows_def first(2) using assms(3) by auto
  next
    case (later p r db' n)
    have r: "boundary_of r \<in> B" unfolding later(4) new_row_boundary_update by (rule assms(1))
    obtain q where q: "q \<in> set (ml_items db)" "mx_id q = p" "mx_scope q = SUBJECT" "mx_subject q = mi_subject i"
      by (rule previous_relationship_row [OF later(3)])
    have "boundary_of q \<in> C" using subject q(3,4) by (auto simp: boundary_of_def)
    moreover have "distinct (map mx_id (ml_items db @ [r]))" using ledger_append [OF ok later(5)] unfolding ledger_ok_def by blast
    ultimately have "rows_outside C db' = rows_outside C db"
      unfolding rows_outside_def later(2) using q(1) r assms(3) by (subst invalidate_others [OF _ _ q(2)]) auto
    moreover have "tagged_rows db' \<subseteq> tagged_rows db \<union> UNIV \<times> B"
    proof -
      have "boundary_of (if mx_id x = p then x\<lparr>mx_invalid_at := Some now, mx_invalidated_by := Some (mx_id r)\<rparr> else x) = boundary_of x"
        "mx_id (if mx_id x = p then x\<lparr>mx_invalid_at := Some now, mx_invalidated_by := Some (mx_id r)\<rparr> else x) = mx_id x" for x
        by (simp_all add: boundary_of_def)
      then have "tagged_rows db' = (\<lambda>x. (mx_id x, boundary_of x)) ` set (ml_items db @ [r])"
        unfolding tagged_rows_def later(2) set_map image_image by (simp only:)
      then show ?thesis using r by (auto simp: tagged_rows_def)
    qed
    ultimately show ?thesis unfolding later(1) by simp
  qed
  then show "rows_outside C ?db' = rows_outside C db" "tagged_rows ?db' \<subseteq> tagged_rows db \<union> UNIV \<times> B" by simp_all
qed

interpretation consolidating: consolidation_ports fst "table_consolidation sql sv out" "\<lambda>s. dialogue_boundaries (fst (snd s))"
  for sql and sv :: "(message_db \<times> 'w) memory_service" and out
proof
  let ?j = "table_consolidation sql sv out"
  show "moves (stays fst B) (cj_merge ?j i source)" if "item_boundary i \<in> B" for i B source
    using lg.merge_stays [OF that] by (simp add: table_consolidation_def)
  show "moves (same_view fst) (cj_source ?j since now n1 n2 n3)" for since now n1 n2 n3
    by (simp add: table_consolidation_def moves_def same_view_def)
  show "context_boundaries c \<subseteq> dialogue_boundaries (fst (snd s))"
    if "cj_source ?j since now n1 n2 n3 s = (Inr cs, s')" "c \<in> set cs" for since now n1 n2 n3 s cs s' c
    using that by (auto simp: table_consolidation_def split: if_splits dest: consolidation_reach)
  show "moves (same_view fst) (llm system user)" if "cj_llm ?j = Some llm" for llm system user
    using that by (auto simp: table_consolidation_def beyond_ledger)
  show "moves (same_view (\<lambda>s. (fst s, dialogue_boundaries (fst (snd s))))) (once key ttl)" if hook: "cj_once ?j = Some once" for once key ttl
  proof -
    obtain m where "once key ttl = beyond_tables m" using hook by (auto simp: table_consolidation_def)
    then show ?thesis using beyond_frame [of m] by (auto simp: moves_def same_view_def)
  qed
  show "ml_items (fst (snd (cj_uuid ?j s))) = ml_items (fst s)" for s
    by (simp add: table_consolidation_def draw_item_id_items)
qed

interpretation learning: learning_ports fst "table_learning sql sv out"
    "\<lambda>s. {c. \<exists>since n1 n2. c \<in> set (group_learning_contexts since n1 n2 (fst (snd s)))}"
  for sql and sv :: "(message_db \<times> 'w) memory_service" and out
proof
  let ?j = "table_learning sql sv out"
  show "moves (stays fst B) (lj_merge ?j i source)" if "item_boundary i \<in> B" for i B source
    using lg.merge_stays [OF that] by (simp add: table_learning_def)
  show "moves (same_view fst) (lj_source ?j since n1 n2)" for since n1 n2
    by (simp add: table_learning_def moves_def same_view_def)
  show "c \<in> {c. \<exists>since n1 n2. c \<in> set (group_learning_contexts since n1 n2 (fst (snd s)))}"
    if "lj_source ?j since n1 n2 s = (Inr cs, s')" "c \<in> set cs" for since n1 n2 s cs s' c
    using that by (auto simp: table_learning_def split: if_splits)
  show "moves (same_view fst) (lj_llm ?j system user)" for system user
    by (simp add: table_learning_def beyond_ledger)
  show "moves (same_view fst) (lj_once ?j key ttl)" for key ttl
    by (simp add: table_learning_def beyond_ledger)
  show "moves (same_view fst) (lj_relationship ?j subject now)" for subject now
    by (simp add: table_learning_def moves_def same_view_def)
  show "ml_items (fst (snd (lj_uuid ?j s))) = ml_items (fst s)" for s
    by (simp add: table_learning_def draw_item_id_items)
  show "moves (writes fst B C) (lj_upsert ?j i source now)"
    if "item_boundary i \<in> B" "{(SUBJECT, p, mi_subject i, k) |p k. True} \<subseteq> C" "B \<subseteq> C" for i B C source now
  proof (rule movesI)
    fix s r s'
    assume "lj_upsert ?j i source now s = (r, s')"
    then have "s' = (snd (upsert_relationship i source now (fst s)), snd s)"
      by (auto simp: table_learning_def over_ledger_def split: prod.splits)
    then show "writes fst B C s s'" using upsert_writes [OF that, of "fst s" "snd s"] by simp
  qed
qed

section \<open>Properties\<close>

text \<open>
  C31: a consolidation pass, whatever the model answers and however it ends, changes and adds only
  memories that are global and public, private about a person who spoke in a conversation that
  is not ephemeral, or shared in such a conversation: nothing sensitive, nothing of an ephemeral
  conversation, and nothing about anyone who did not speak.
\<close>

theorem consolidation_stays_inside:
  assumes "ledger_ok (ml_items db)"
    and "consolidation_pass (table_consolidation sql sv out) (db, mdb, w) = (r, (db', rest))"
  shows "rows_outside (dialogue_boundaries mdb) db' = rows_outside (dialogue_boundaries mdb) db \<and> ledger_ok (ml_items db')"
  using consolidating.pass_stays [OF assms(2)] assms(1) by (simp add: stays_def leaves_outside_def)

text \<open>
  C33: a learning pass adds only shared memories of groups that are not ephemeral and private
  memories about people who spoke there, whatever the model answers and however the pass ends;
  what else it changes is about those people (an older relationship is superseded), and the
  familiarity of every relationship stays between 0 and 100.
\<close>

theorem learning_stays_inside:
  assumes "ledger_ok (ml_items db)"
    and "learning_pass (table_learning sql sv out) (db, mdb, w) = (r, (db', rest))"
  shows "tagged_rows db' \<subseteq> tagged_rows db \<union> UNIV \<times> group_boundaries mdb \<and>
    rows_outside (group_boundaries mdb \<union> group_member_rows mdb) db' = rows_outside (group_boundaries mdb \<union> group_member_rows mdb) db \<and>
    (\<forall>row \<in> set (ml_items db'). \<forall>x. mx_relationship_score row = Some x \<longrightarrow> 0 \<le> x \<and> x \<le> 100)"
proof -
  let ?cs = "{c. \<exists>since n1 n2. c \<in> set (group_learning_contexts since n1 n2 mdb)}"
  let ?B = "\<Union>c \<in> ?cs. learning_boundaries c" and ?C = "\<Union>c \<in> ?cs. learning_boundaries c \<union> member_rows c"
  have w: "writes fst ?B ?C (db, mdb, w) (db', rest)" using learning.learning_pass_writes [OF assms(2)] by simp
  have sub: "learning_boundaries c \<subseteq> group_boundaries mdb \<and> member_rows c \<subseteq> group_member_rows mdb" if "c \<in> ?cs" for c
  proof -
    from that obtain row where row: "row \<in> learnable mdb" "lc_conversation c = row_key row GROUP"
        "mt_sender ` set (lc_messages c) \<subseteq> speakers mdb row"
      using learning_context_from by blast
    then show ?thesis unfolding learning_boundaries_def group_boundaries_def member_rows_def group_member_rows_def by fastforce
  qed
  then have B: "?B \<subseteq> group_boundaries mdb" and C: "?C \<subseteq> group_boundaries mdb \<union> group_member_rows mdb" by blast+
  from w assms(1) have "ledger_ok (ml_items db')" "rows_outside ?C db' = rows_outside ?C db" "tagged_rows db' \<subseteq> tagged_rows db \<union> UNIV \<times> ?B"
    by (simp_all add: writes_def stays_def leaves_outside_def)
  moreover have "tagged_rows db' \<subseteq> tagged_rows db \<union> UNIV \<times> group_boundaries mdb" using calculation(3) B by blast
  moreover have "\<forall>row \<in> set (ml_items db'). \<forall>x. mx_relationship_score row = Some x \<longrightarrow> 0 \<le> x \<and> x \<le> 100"
    using calculation(1) by (auto simp: ledger_ok_def score_ok_def)
  ultimately show ?thesis using rows_outside_mono [OF C] by blast
qed

text \<open>Jobs that ask a silent model, over the ledger of \<open>MemoryItems\<close> and empty message tables.\<close>

definition still_service :: "'w memory_service" where
  "still_service = \<lparr>msv_embed = (\<lambda>ts. retp (lit ''m'', map (\<lambda>t. [1]) ts)), msv_search = (\<lambda>q t m s k p n l. retp []),
     msv_similar = (\<lambda>i q m n. retp []), msv_merge = (\<lambda>i d v m s n. retp (merge_noop None)), msv_revoke = (\<lambda>s k n. retp 0),
     msv_expressions = (\<lambda>k n l. retp []), msv_relationship = (\<lambda>s n. retp None), msv_llm = None, msv_core = None, msv_once = None,
     msv_now = (\<lambda>w. 5), msv_uuid = (\<lambda>w. ([], w)), msv_loads = (\<lambda>t. None), msv_dumps = (\<lambda>v. []), msv_str = (\<lambda>v. []),
     msv_parse_uuid = Some, msv_sha256 = (\<lambda>t. t), msv_date = (\<lambda>d. []), msv_one_decimal = (\<lambda>x. []), msv_flush_enabled = True,
     msv_flush_ttl = 60, msv_flush_messages = 24, msv_flush_budget = 2000, msv_min_confidence = 0, msv_retrieval_limit = 5, msv_budget = 1200\<rparr>"

definition silent_reply :: llm_reply where
  "silent_reply = \<lparr>lr_text = [], lr_model = [], lr_prompt_tokens = 0, lr_completion_tokens = 0, lr_tool_calls = [], lr_finish_reason = []\<rparr>"

definition demo_consolidation :: "nat consolidation_job" where
  "demo_consolidation = \<lparr>cj_source = (\<lambda>a b c d e. retp []), cj_merge = (\<lambda>i t. retp (merge_noop None, 0, 0)),
     cj_llm = Some (\<lambda>a b. retp silent_reply), cj_once = None, cj_now = (\<lambda>w. int w), cj_uuid = (\<lambda>w. ([], w)), cj_loads = (\<lambda>t. None),
     cj_dumps = (\<lambda>v. []), cj_interval_seconds = 86400, cj_lookback_hours = 48, cj_conversation_limit = 20, cj_message_limit = 40,
     cj_memory_limit = 20, cj_budget = 4000, cj_min_confidence = 0, cj_enabled = True\<rparr>"

definition demo_learning :: "nat learning_job" where
  "demo_learning = \<lparr>lj_source = (\<lambda>a b c. retp []), lj_merge = (\<lambda>i t. retp (merge_noop None, 0, 0)),
     lj_relationship = (\<lambda>x n. retp None), lj_upsert = (\<lambda>i t n. retp (merge_noop None)), lj_llm = (\<lambda>a b. retp silent_reply),
     lj_once = (\<lambda>k t. retp True), lj_now = (\<lambda>w. int w), lj_uuid = (\<lambda>w. ([], w)), lj_loads = (\<lambda>t. None), lj_dumps = (\<lambda>v. []),
     lj_sha256 = (\<lambda>t. t), lj_enabled = True, lj_lookback_hours = 24, lj_conversation_limit = 10, lj_message_limit = 80,
     lj_budget = 3000, lj_min_confidence = 0, lj_dedupe_ttl = 86400\<rparr>"

lemma demo_ledger_ok: "ledger_ok (ml_items demo_ledger)"
  using ledger_runs unfolding demo_ledger_def by blast

theorem consolidation_stays_inside_witness:
  "\<exists>r db' rest. consolidation_pass (table_consolidation demo_sql still_service demo_consolidation) (demo_ledger, new_message_db (\<lambda>n. [n]), 7) = (r, (db', rest)) \<and>
     rows_outside (dialogue_boundaries (new_message_db (\<lambda>n. [n]))) db' = rows_outside (dialogue_boundaries (new_message_db (\<lambda>n. [n]))) demo_ledger"
proof -
  obtain r db' rest where run: "consolidation_pass (table_consolidation demo_sql still_service demo_consolidation)
      (demo_ledger, new_message_db (\<lambda>n. [n]), 7) = (r, (db', rest))"
    by (metis surj_pair)
  from consolidation_stays_inside [OF demo_ledger_ok run] run show ?thesis by blast
qed

theorem learning_stays_inside_witness:
  "\<exists>r db' rest. learning_pass (table_learning demo_sql still_service demo_learning) (demo_ledger, new_message_db (\<lambda>n. [n]), 7) = (r, (db', rest)) \<and>
     tagged_rows db' \<subseteq> tagged_rows demo_ledger \<union> UNIV \<times> group_boundaries (new_message_db (\<lambda>n. [n]))"
proof -
  obtain r db' rest where run: "learning_pass (table_learning demo_sql still_service demo_learning)
      (demo_ledger, new_message_db (\<lambda>n. [n]), 7) = (r, (db', rest))"
    by (metis surj_pair)
  from learning_stays_inside [OF demo_ledger_ok run] run show ?thesis by blast
qed

end
