(* ===== verification/Chunks.thy ===== *)
theory Chunks
  imports Prelude
begin

text \<open>
  Cutting a document into parents and children, the text half of \<open>engine/knowledge.py\<close>:
  paragraphs are collected into parents of bounded size, and every parent is cut into
  overlapping children. Lengths are Python's, in code points; a whitespace character is one
  that \<open>str.isspace\<close> and the \<open>\s\<close> of \<open>re\<close> accept. The main results: nothing visible of a
  document is lost or reordered, every visible character of a parent is in one of its
  children, and no piece is longer than its limit.
\<close>

section \<open>Hard splits\<close>

text \<open>\<open>text.rfind(c, start, end)\<close> for one character.\<close>

definition rfind_between :: "nat \<Rightarrow> ustr \<Rightarrow> nat \<Rightarrow> nat \<Rightarrow> int" where
  "rfind_between c t a b =
     (let seg = drop a (take b t)
      in if c \<in> set seg then int a + int (length (dropWhile (\<lambda>d. d \<noteq> c) (rev seg))) - 1 else -1)"

definition ideographic_stop :: nat where
  "ideographic_stop = 12290"

definition cut_end :: "ustr \<Rightarrow> nat \<Rightarrow> nat \<Rightarrow> nat" where
  "cut_end t n a =
     (let b = min (a + n) (length t)
      in if b < length t
         then (let boundary = max (rfind_between 10 t a b) (rfind_between ideographic_stop t a b)
               in if boundary > int (a + n div 2) then nat boundary + 1 else b)
         else b)"

definition piece_of :: "ustr \<Rightarrow> nat \<Rightarrow> nat \<Rightarrow> ustr list" where
  "piece_of t a b = (let v = strip (drop a (take b t)) in if v = [] then [] else [v])"

function split_from :: "ustr \<Rightarrow> nat \<Rightarrow> nat \<Rightarrow> nat \<Rightarrow> ustr list" where
  "split_from t n overlap a =
     (if a < length t
      then (let b = cut_end t n a
            in piece_of t a b @ (if b \<ge> length t then [] else split_from t n overlap (max (a + 1) (b - overlap))))
      else [])"
  by pat_completeness auto
termination
  by (relation "measure (\<lambda>(t, n, overlap, a). length t - a)") auto

declare split_from.simps [simp del]

definition hard_split :: "ustr \<Rightarrow> int \<Rightarrow> int \<Rightarrow> exn + ustr list" where
  "hard_split t n overlap =
     (if n \<le> 0 \<or> overlap < 0 \<or> overlap \<ge> n then Inl (Raised (lit ''ValueError''))
      else if int (length t) \<le> n then Inr [strip t]
      else Inr (split_from t (nat n) (nat overlap) 0))"

section \<open>Paragraphs and parents\<close>

text \<open>\<open>re.sub(r"\r\n?", "\n", text)\<close>.\<close>

fun unix_lines :: "ustr \<Rightarrow> ustr" where
  "unix_lines [] = []"
| "unix_lines (c # cs) =
     (if c = 13 then 10 # (case cs of [] \<Rightarrow> [] | d # ds \<Rightarrow> if d = 10 then unix_lines ds else unix_lines cs)
      else c # unix_lines cs)"

text \<open>A match of \<open>\n\s*\n\<close> at the head of a text, and its length.\<close>

definition blank_break :: "ustr \<Rightarrow> nat option" where
  "blank_break t = (case t of [] \<Rightarrow> None
     | c # cs \<Rightarrow> if c = 10 \<and> 10 \<in> set (takeWhile py_space cs)
         then Some (Suc (length (dropWhile (\<lambda>d. d \<noteq> 10) (rev (takeWhile py_space cs))))) else None)"

text \<open>\<open>re.split\<close>: \<open>acc\<close> is the part read so far, backwards.\<close>

function split_blank :: "ustr \<Rightarrow> ustr \<Rightarrow> ustr list" where
  "split_blank acc [] = [rev acc]"
| "split_blank acc (c # cs) = (case blank_break (c # cs) of
       None \<Rightarrow> split_blank (c # acc) cs
     | Some n \<Rightarrow> rev acc # split_blank [] (drop n (c # cs)))"
  by pat_completeness auto
termination
  by (relation "measure (\<lambda>(acc, t). length t)") (auto simp: blank_break_def split: if_splits)

definition paragraphs :: "ustr \<Rightarrow> ustr list" where
  "paragraphs t = filter (\<lambda>p. p \<noteq> []) (map strip (split_blank [] t))"

text \<open>Collecting paragraphs: the texts of the parents, given the current one.\<close>

fun parent_texts :: "int \<Rightarrow> ustr \<Rightarrow> ustr list \<Rightarrow> exn + ustr list" where
  "parent_texts n current [] = (if current = [] then Inr [] else hard_split current n 0)"
| "parent_texts n current (p # ps) =
     (let candidate = (if current = [] then p else current @ [10, 10] @ p)
      in if current \<noteq> [] \<and> int (length candidate) > n
         then bindr (hard_split current n 0) (\<lambda>xs. bindr (parent_texts n p ps) (\<lambda>ys. Inr (xs @ ys)))
         else parent_texts n candidate ps)"

record prepared_child =
  pch_index :: nat
  pch_content :: ustr
  pch_tokens :: int

record prepared_parent =
  ppr_index :: nat
  ppr_content :: ustr
  ppr_tokens :: int
  ppr_children :: "prepared_child list"

text \<open>\<open>max(1, ceil(len(text) / 4))\<close>.\<close>

definition chunk_tokens :: "ustr \<Rightarrow> int" where
  "chunk_tokens t = max 1 ((int (length t) + 3) div 4)"

definition prepared_children :: "ustr list \<Rightarrow> prepared_child list" where
  "prepared_children texts = concat (map (\<lambda>(i, v). if strip v = [] then []
     else [\<lparr>pch_index = i, pch_content = v, pch_tokens = chunk_tokens v\<rparr>]) (enumerate 0 texts))"

fun prepare_parents :: "int \<Rightarrow> int \<Rightarrow> (nat \<times> ustr) list \<Rightarrow> exn + prepared_parent list" where
  "prepare_parents n overlap [] = Inr []"
| "prepare_parents n overlap ((i, t) # rest) =
     bindr (hard_split t n overlap) (\<lambda>texts. bindr (prepare_parents n overlap rest) (\<lambda>ps.
       let children = prepared_children texts
       in Inr (if children = [] then ps
               else \<lparr>ppr_index = i, ppr_content = t, ppr_tokens = chunk_tokens t, ppr_children = children\<rparr> # ps)))"

definition hierarchical_chunks :: "ustr \<Rightarrow> int \<Rightarrow> int \<Rightarrow> int \<Rightarrow> exn + prepared_parent list" where
  "hierarchical_chunks text parent_chars child_chars child_overlap =
     (let cleaned = strip (unix_lines text)
      in if cleaned = [] then Inr []
         else bindr (parent_texts parent_chars [] (paragraphs cleaned))
                (\<lambda>texts. prepare_parents child_chars child_overlap (enumerate 0 texts)))"

section \<open>Nothing visible is lost\<close>

definition visible_chars :: "ustr \<Rightarrow> ustr" where
  "visible_chars t = filter (\<lambda>c. \<not> py_space c) t"

lemma visible_simps [simp]: "visible_chars [] = []" "visible_chars (a @ b) = visible_chars a @ visible_chars b"
  by (simp_all add: visible_chars_def)

lemma visible_strip [simp]: "visible_chars (strip t) = visible_chars t"
proof -
  have l: "visible_chars (dropWhile py_space x) = visible_chars x" for x
    by (induction x) (auto simp: visible_chars_def)
  have "visible_chars (rev x) = rev (visible_chars x)" for x by (simp add: visible_chars_def rev_filter)
  then show ?thesis by (simp add: strip_def lstrip_def rstrip_def l)
qed

lemma visible_Nil_iff: "visible_chars t = [] \<longleftrightarrow> strip t = []"
  by (auto simp: visible_chars_def strip_eq_Nil_iff filter_empty_conv)

lemma dropWhile_le_last:
  assumes "c \<in> set xs"
  shows "0 < length (dropWhile (\<lambda>d. d \<noteq> c) xs)" "length (dropWhile (\<lambda>d. d \<noteq> c) xs) \<le> length xs"
  using assms by (auto simp: length_dropWhile_le)

lemma rfind_between_bound: "rfind_between c t a b < int (max a (min b (length t))) \<or> rfind_between c t a b = -1"
proof (cases "c \<in> set (drop a (take b t))")
  case True
  then have "a < min b (length t)" by (cases "a < min b (length t)") auto
  moreover have "length (dropWhile (\<lambda>d. d \<noteq> c) (rev (drop a (take b t)))) \<le> length (drop a (take b t))"
    using length_dropWhile_le [of _ "rev (drop a (take b t))"] by simp
  ultimately show ?thesis using True by (auto simp: rfind_between_def Let_def)
qed (simp add: rfind_between_def Let_def)

lemma cut_end_bounds:
  assumes "a < length t" and "0 < n"
  shows "a < cut_end t n a" "cut_end t n a \<le> a + n" "cut_end t n a \<le> length t"
proof -
  let ?b = "min (a + n) (length t)"
  have ab: "a < ?b" using assms by simp
  have r: "rfind_between c t a ?b < int ?b \<or> rfind_between c t a ?b = -1" for c
    using rfind_between_bound [of c t a ?b] ab by (auto simp: max_def)
  let ?m = "max (rfind_between 10 t a ?b) (rfind_between ideographic_stop t a ?b)"
  have m: "?m < int ?b" using r [of 10] r [of ideographic_stop] ab by (auto simp: max_def)
  have "cut_end t n a = ?b \<or> cut_end t n a = nat ?m + 1 \<and> int (a + n div 2) < ?m"
    by (simp only: cut_end_def Let_def split: if_split) blast
  then consider "cut_end t n a = ?b" | k where "cut_end t n a = Suc k" "a < Suc k" "k < ?b"
  proof
    assume c: "cut_end t n a = nat ?m + 1 \<and> int (a + n div 2) < ?m"
    define k where "k = nat ?m"
    have "a \<le> k" "k < ?b" using c m unfolding k_def by linarith+
    then show thesis using that(2) [of k] c by (simp add: k_def)
  qed (rule that(1))
  then show "a < cut_end t n a" "cut_end t n a \<le> a + n" "cut_end t n a \<le> length t"
    using ab by (cases; linarith)+
qed

lemma slice_append: "a \<le> b \<Longrightarrow> drop a (take b t) @ drop b t = drop a t"
  by (metis append_take_drop_id drop_append drop_take le_add_diff_inverse2 drop_drop take_drop)

lemma concat_piece: "concat (map visible_chars (piece_of t a b)) = visible_chars (drop a (take b t))"
  using visible_Nil_iff [of "drop a (take b t)"] by (auto simp: piece_of_def Let_def)

lemma split_from_visible: "0 < n \<Longrightarrow> concat (map visible_chars (split_from t n 0 a)) = visible_chars (drop a t)"
proof (induction "length t - a" arbitrary: a rule: less_induct)
  case less
  show ?case
  proof (cases "a < length t")
    case False
    then show ?thesis by (simp add: split_from.simps)
  next
    case True
    let ?b = "cut_end t n a"
    note b = cut_end_bounds [OF True less.prems]
    have next': "max (Suc a) ?b = ?b" using b(1) by simp
    have "visible_chars (drop a (take ?b t)) @ visible_chars (drop ?b t) = visible_chars (drop a t)"
      using slice_append [of a ?b t] b(1) by (metis less_imp_le visible_simps(2))
    moreover have "?b < length t \<Longrightarrow> concat (map visible_chars (split_from t n 0 ?b)) = visible_chars (drop ?b t)"
      using less.hyps [of ?b] b less.prems True by simp
    ultimately show ?thesis
      using True by (subst split_from.simps) (auto simp: Let_def concat_piece next')
  qed
qed

lemma hard_split_visible: "hard_split t n 0 = Inr xs \<Longrightarrow> concat (map visible_chars xs) = visible_chars t"
  using split_from_visible [of "nat n" t 0] by (auto simp: hard_split_def split: if_splits)

lemma split_from_sizes: "0 < n \<Longrightarrow> v \<in> set (split_from t n overlap a) \<Longrightarrow> length v \<le> n \<and> v \<noteq> [] \<and> strip v = v"
proof (induction t n overlap a rule: split_from.induct)
  case (1 t n overlap a)
  show ?case
  proof (cases "a < length t")
    case False
    with "1.prems" show ?thesis by (simp add: split_from.simps)
  next
    case True
    let ?b = "cut_end t n a"
    have "length (drop a (take ?b t)) \<le> n" using cut_end_bounds [OF True "1.prems"(1)] by simp
    then have "length (strip (drop a (take ?b t))) \<le> n" using length_strip_le le_trans by blast
    then have "v \<in> set (piece_of t a ?b) \<Longrightarrow> length v \<le> n \<and> v \<noteq> [] \<and> strip v = v"
      by (auto simp: piece_of_def Let_def split: if_splits)
    moreover have "v \<in> set (piece_of t a ?b) \<or> \<not> ?b \<ge> length t \<and> v \<in> set (split_from t n overlap (max (a + 1) (?b - overlap)))"
      using "1.prems"(2) True by (subst (asm) split_from.simps) (auto simp: Let_def split: if_splits)
    ultimately show ?thesis using "1.IH" [OF True refl] "1.prems"(1) by blast
  qed
qed

lemma hard_split_sizes: "hard_split t n overlap = Inr xs \<Longrightarrow> v \<in> set xs \<Longrightarrow> int (length v) \<le> n \<and> strip v = v"
  using split_from_sizes [of "nat n" v t "nat overlap" 0] length_strip_le [of t]
  by (auto simp: hard_split_def split: if_splits)

text \<open>Every visible place of a text is in a piece of it.\<close>

definition covered :: "ustr \<Rightarrow> ustr list \<Rightarrow> nat \<Rightarrow> bool" where
  "covered t vs i \<longleftrightarrow> (\<exists>a b. a \<le> i \<and> i < b \<and> b \<le> length t \<and> strip (drop a (take b t)) \<in> set vs)"

lemma covered_mono: "covered t vs i \<Longrightarrow> set vs \<subseteq> set ws \<Longrightarrow> covered t ws i"
  unfolding covered_def by blast

lemma slice_member:
  assumes "a \<le> i" and "i < b" and "b \<le> length t"
  shows "t ! i \<in> set (drop a (take b t))"
proof -
  have "drop a (take b t) ! (i - a) = t ! i" using assms by simp
  moreover have "i - a < length (drop a (take b t))" using assms by simp
  ultimately show ?thesis by (metis nth_mem)
qed

lemma split_from_covers:
  "0 < n \<Longrightarrow> a \<le> i \<Longrightarrow> i < length t \<Longrightarrow> \<not> py_space (t ! i) \<Longrightarrow> covered t (split_from t n overlap a) i"
proof (induction t n overlap a rule: split_from.induct)
  case (1 t n overlap a)
  then have True: "a < length t" by simp
  let ?b = "cut_end t n a"
  note b = cut_end_bounds [OF True "1.prems"(1)]
  have step: "split_from t n overlap a = piece_of t a ?b @ (if ?b \<ge> length t then [] else split_from t n overlap (max (a + 1) (?b - overlap)))"
    using True by (subst split_from.simps) (simp add: Let_def)
  show ?case
  proof (cases "i < ?b")
    case True
    have "t ! i \<in> set (drop a (take ?b t))" by (rule slice_member) (use True "1.prems"(2) b(3) in simp_all)
    then have "strip (drop a (take ?b t)) \<noteq> []" using "1.prems"(4) by (auto simp: strip_eq_Nil_iff)
    then have "strip (drop a (take ?b t)) \<in> set (split_from t n overlap a)"
      unfolding step by (simp add: piece_of_def Let_def)
    then show ?thesis unfolding covered_def using "1.prems"(2) True b(3) by blast
  next
    case False
    then have nb: "\<not> ?b \<ge> length t" using "1.prems"(3) b(3) by linarith
    have "max (a + 1) (?b - overlap) \<le> i" using False b(1) by linarith
    from "1.IH" [OF True refl nb "1.prems"(1) this "1.prems"(3,4)] show ?thesis
      by (rule covered_mono) (simp add: step nb)
  qed
qed

lemma slice_whole: "i < length t \<Longrightarrow> covered t [strip t] i"
  unfolding covered_def by (intro exI [of _ 0] exI [of _ "length t"]) simp

lemma hard_split_covers:
  assumes "hard_split t n overlap = Inr xs" and "i < length t" and "\<not> py_space (t ! i)"
  shows "covered t xs i"
proof (cases "int (length t) \<le> n")
  case True
  then have "xs = [strip t]" using assms(1) by (auto simp: hard_split_def split: if_splits)
  then show ?thesis using slice_whole assms(2) by blast
next
  case False
  then have "xs = split_from t (nat n) (nat overlap) 0" "0 < nat n" using assms(1) by (auto simp: hard_split_def split: if_splits)
  then show ?thesis using split_from_covers assms(2,3) by simp
qed

section \<open>Paragraphs keep the text\<close>

lemma visible_Cons: "visible_chars (c # t) = (if py_space c then visible_chars t else c # visible_chars t)"
  by (simp add: visible_chars_def)

lemma line_ends_space [simp]: "py_space 10" "py_space 13"
  by (simp_all add: py_space_def)

lemma visible_unix_lines [simp]: "visible_chars (unix_lines t) = visible_chars t"
  by (induction t rule: unix_lines.induct) (auto simp: visible_Cons split: list.splits)

lemma blank_break_skips: "blank_break (c # cs) = Some n \<Longrightarrow> visible_chars (drop n (c # cs)) = visible_chars (c # cs)"
proof -
  assume bl: "blank_break (c # cs) = Some n"
  let ?run = "takeWhile py_space cs"
  from bl have c: "c = 10" and n: "n = Suc (length (dropWhile (\<lambda>d. d \<noteq> 10) (rev ?run)))"
    by (auto simp: blank_break_def split: if_splits)
  have "length (dropWhile (\<lambda>d. d \<noteq> 10) (rev ?run)) \<le> length ?run" using length_dropWhile_le [of _ "rev ?run"] by simp
  then have "take (n - 1) cs = take (n - 1) ?run" unfolding n by (metis diff_Suc_1 take_append takeWhile_dropWhile_id append_Nil2 diff_is_0_eq' take0)
  moreover have "\<forall>x \<in> set (take (n - 1) ?run). py_space x" by (auto dest!: in_set_takeD set_takeWhileD)
  ultimately have "visible_chars (take (n - 1) cs) = []" by (simp add: visible_chars_def)
  moreover have "cs = take (n - 1) cs @ drop (n - 1) cs" by simp
  ultimately have "visible_chars cs = visible_chars (drop (n - 1) cs)" by (metis visible_simps(2) append_Nil)
  then show ?thesis by (simp add: c n visible_Cons)
qed

lemma visible_rev: "visible_chars (rev t) = rev (visible_chars t)"
  by (simp add: visible_chars_def rev_filter)

lemma split_blank_visible: "concat (map visible_chars (split_blank acc t)) = visible_chars (rev acc) @ visible_chars t"
proof (induction acc t rule: split_blank.induct)
  case (2 acc c cs)
  then show ?case
    using blank_break_skips [of c cs] by (auto simp: visible_Cons visible_rev split: option.splits)
qed (simp add: visible_rev)

lemma concat_filter_Nil: "concat (map f (filter (\<lambda>x. x \<noteq> []) xs)) = concat (map f xs)" if "f [] = []" for f :: "'a list \<Rightarrow> 'b list"
  using that by (induction xs) auto

lemma paragraphs_visible: "concat (map visible_chars (paragraphs t)) = visible_chars t"
  unfolding paragraphs_def by (subst concat_filter_Nil) (simp_all add: comp_def split_blank_visible)

lemma paragraphs_nonempty: "p \<in> set (paragraphs t) \<Longrightarrow> strip p \<noteq> []"
  by (auto simp: paragraphs_def)

lemma parent_texts_visible:
  "parent_texts n current ps = Inr xs \<Longrightarrow> concat (map visible_chars xs) = visible_chars current @ concat (map visible_chars ps)"
proof (induction n current ps arbitrary: xs rule: parent_texts.induct)
  case (1 n current)
  then show ?case by (auto dest: hard_split_visible split: if_splits)
next
  case (2 n current p ps)
  let ?c = "if current = [] then p else current @ [10, 10] @ p"
  show ?case
  proof (cases "current \<noteq> [] \<and> int (length ?c) > n")
    case True
    then obtain a b where "hard_split current n 0 = Inr a" "parent_texts n p ps = Inr b" "xs = a @ b"
      using "2.prems" by (auto simp: Let_def bindr_eq_Inr)
    then show ?thesis using "2.IH"(1) [OF refl True] hard_split_visible by fastforce
  next
    case False
    then have "parent_texts n ?c ps = Inr xs" using "2.prems" by (simp only: parent_texts.simps Let_def False if_False)
    from "2.IH"(2) [OF refl False this] show ?thesis by (simp add: visible_Cons)
  qed
qed

lemma parent_texts_sizes:
  "parent_texts n current ps = Inr xs \<Longrightarrow> v \<in> set xs \<Longrightarrow> int (length v) \<le> n \<and> strip v = v"
proof (induction n current ps arbitrary: xs rule: parent_texts.induct)
  case (1 n current)
  then show ?case by (auto dest: hard_split_sizes split: if_splits)
next
  case (2 n current p ps)
  let ?c = "if current = [] then p else current @ [10, 10] @ p"
  show ?case
  proof (cases "current \<noteq> [] \<and> int (length ?c) > n")
    case True
    then obtain a b where "hard_split current n 0 = Inr a" "parent_texts n p ps = Inr b" "xs = a @ b"
      using "2.prems"(1) by (auto simp: Let_def bindr_eq_Inr)
    then show ?thesis using "2.IH"(1) [OF refl True] hard_split_sizes "2.prems"(2) by fastforce
  next
    case False
    then have "parent_texts n ?c ps = Inr xs" using "2.prems"(1) by (simp only: parent_texts.simps Let_def False if_False)
    from "2.IH"(2) [OF refl False this "2.prems"(2)] show ?thesis .
  qed
qed

text \<open>The children of a parent: the stripped pieces of it, none blank.\<close>

lemma prepared_contents: "map pch_content (prepared_children texts) = filter (\<lambda>v. strip v \<noteq> []) texts"
proof -
  have "map pch_content (concat (map (\<lambda>(i, v). if strip v = [] then []
     else [\<lparr>pch_index = i, pch_content = v, pch_tokens = chunk_tokens v\<rparr>]) (enumerate k texts))) = filter (\<lambda>v. strip v \<noteq> []) texts" for k
    by (induction texts arbitrary: k) auto
  then show ?thesis unfolding prepared_children_def .
qed

lemma visible_place: "visible_chars t \<noteq> [] \<Longrightarrow> \<exists>i < length t. \<not> py_space (t ! i)"
  by (auto simp: visible_chars_def filter_empty_conv in_set_conv_nth)

lemma covering_children:
  assumes "hard_split t n overlap = Inr xs" and "i < length t" and "\<not> py_space (t ! i)"
  shows "covered t (map pch_content (prepared_children xs)) i"
proof -
  obtain a b where ab: "a \<le> i" "i < b" "b \<le> length t" "strip (drop a (take b t)) \<in> set xs"
    using hard_split_covers [OF assms] unfolding covered_def by blast
  have "t ! i \<in> set (drop a (take b t))" by (rule slice_member [OF ab(1-3)])
  then have "strip (strip (drop a (take b t))) \<noteq> []" using assms(3) by (auto simp: strip_eq_Nil_iff)
  then have "strip (drop a (take b t)) \<in> set (map pch_content (prepared_children xs))"
    unfolding prepared_contents using ab(4) by simp
  then show ?thesis unfolding covered_def using ab(1-3) by blast
qed

definition good_parent :: "int \<Rightarrow> prepared_parent \<Rightarrow> bool" where
  "good_parent n p \<longleftrightarrow> ppr_children p \<noteq> [] \<and>
     (\<forall>c \<in> set (ppr_children p). pch_content c \<noteq> [] \<and> int (length (pch_content c)) \<le> n) \<and>
     (\<forall>i < length (ppr_content p). \<not> py_space (ppr_content p ! i) \<longrightarrow> covered (ppr_content p) (map pch_content (ppr_children p)) i)"

lemma prepare_parents_good:
  assumes "prepare_parents n overlap its = Inr ps"
  shows "(\<forall>p \<in> set ps. good_parent n p \<and> (\<exists>i. (i, ppr_content p) \<in> set its)) \<and>
    concat (map (\<lambda>p. visible_chars (ppr_content p)) ps) = concat (map (visible_chars \<circ> snd) its)"
  using assms
proof (induction n overlap its arbitrary: ps rule: prepare_parents.induct)
  case (2 n overlap i t rest)
  from "2.prems" obtain xs qs where xs: "hard_split t n overlap = Inr xs" and qs: "prepare_parents n overlap rest = Inr qs"
    and ps: "ps = (if prepared_children xs = [] then qs
      else \<lparr>ppr_index = i, ppr_content = t, ppr_tokens = chunk_tokens t, ppr_children = prepared_children xs\<rparr> # qs)"
    by (auto simp: bindr_eq_Inr Let_def)
  note IH = "2.IH" [OF qs]
  have blank: "visible_chars t = []" if "prepared_children xs = []"
    using visible_place [of t] covering_children [OF xs] that by (auto simp: covered_def)
  have "\<forall>c \<in> set (prepared_children xs). pch_content c \<noteq> [] \<and> int (length (pch_content c)) \<le> n"
  proof
    fix c assume "c \<in> set (prepared_children xs)"
    then have "pch_content c \<in> set (map pch_content (prepared_children xs))" by simp
    then have "pch_content c \<in> set xs" "strip (pch_content c) \<noteq> []" unfolding prepared_contents by simp_all
    then show "pch_content c \<noteq> [] \<and> int (length (pch_content c)) \<le> n" using hard_split_sizes [OF xs] by auto
  qed
  then show ?case using IH blank covering_children [OF xs] unfolding ps by (auto simp: good_parent_def)
qed simp

lemma enumerate_snd: "concat (map (f \<circ> snd) (enumerate k xs)) = concat (map f xs)"
  by (induction xs arbitrary: k) auto

text \<open>
  a document is cut without loss: the visible characters of the parents, one after the
  other, are those of the document; every visible character of a parent is in a child of it; and
  neither parents nor children exceed their limits, nor are they blank.
\<close>

theorem chunks_keep_text:
  assumes "hierarchical_chunks text parent_chars child_chars child_overlap = Inr parents"
  shows "concat (map (\<lambda>p. visible_chars (ppr_content p)) parents) = visible_chars text \<and>
    (\<forall>p \<in> set parents. int (length (ppr_content p)) \<le> parent_chars \<and> good_parent child_chars p)"
proof (cases "strip (unix_lines text) = []")
  case True
  then have "visible_chars text = []" using visible_Nil_iff [of "unix_lines text"] by simp
  then show ?thesis using True assms by (simp add: hierarchical_chunks_def)
next
  case False
  then obtain texts where texts: "parent_texts parent_chars [] (paragraphs (strip (unix_lines text))) = Inr texts"
    and ps: "prepare_parents child_chars child_overlap (enumerate 0 texts) = Inr parents"
    using assms by (auto simp: hierarchical_chunks_def bindr_eq_Inr)
  have "concat (map (visible_chars \<circ> snd) (enumerate 0 texts)) = visible_chars text"
    unfolding enumerate_snd parent_texts_visible [OF texts] paragraphs_visible by simp
  moreover have "int (length t) \<le> parent_chars" if "(i, t) \<in> set (enumerate 0 texts)" for i t
  proof -
    have "t \<in> set texts" using that by (metis enumerate_eq_zip set_zip_rightD)
    then show ?thesis using parent_texts_sizes [OF texts] by blast
  qed
  ultimately show ?thesis using prepare_parents_good [OF ps] by fastforce
qed

text \<open>Two paragraphs, the second longer than a parent.\<close>

definition demo_text :: ustr where
  "demo_text = [97, 98, 13, 10, 32, 10, 99, 100, 101]"

lemma demo_chunks: "\<exists>parents. hierarchical_chunks demo_text 2 2 1 = Inr parents \<and> length parents = 3"
  by (simp add: hierarchical_chunks_def demo_text_def paragraphs_def blank_break_def hard_split_def split_from.simps cut_end_def
    piece_of_def prepared_children_def strip_def lstrip_def rstrip_def py_space_def rfind_between_def ideographic_stop_def Let_def)

theorem chunks_keep_text_witness:
  "\<exists>parents. hierarchical_chunks demo_text 2 2 1 = Inr parents \<and> length parents = 3 \<and>
     concat (map (\<lambda>p. visible_chars (ppr_content p)) parents) = [97, 98, 99, 100, 101]"
proof -
  obtain parents where run: "hierarchical_chunks demo_text 2 2 1 = Inr parents" "length parents = 3"
    using demo_chunks by blast
  then show ?thesis using chunks_keep_text [OF run(1)] by (simp add: demo_text_def visible_chars_def py_space_def)
qed

end
