(* ===== verification/KnowledgeBase.thy ===== *)
theory KnowledgeBase
  imports MessageStore Chunks "HOL-Library.List_Lexorder"
begin

text \<open>
  The tables of the knowledge base: the contracts of \<open>contracts/knowledge.py\<close> and
  \<open>repositories/knowledge.py\<close>. Every method is one transaction: what raises leaves the rows as
  they were, and the keys, foreign keys and checks of the schema fail it as they do in
  PostgreSQL. The cosine distance of the database extension is a parameter; instants are
  microseconds, identifiers come from a supply. The main results: the tables keep their keys and
  the chunks of a ready document are those of its generation, a queued document is always in the
  outbox, a claimed document is claimed by nobody else while the lease lasts, and a search shows
  only ready documents that are global or of the conversation it is for.
\<close>

section \<open>Rows\<close>

datatype knowledge_scope = KB_GLOBAL | KB_CONVERSATION

datatype knowledge_source_type = KB_MARKDOWN | KB_TEXT | KB_PDF

datatype knowledge_status = KB_QUEUED | KB_PROCESSING | KB_READY | KB_FAILED

datatype chunk_level = KB_PARENT | KB_CHILD

fun knowledge_scope_value :: "knowledge_scope \<Rightarrow> ustr" where
  "knowledge_scope_value KB_GLOBAL = lit ''GLOBAL''"
| "knowledge_scope_value KB_CONVERSATION = lit ''CONVERSATION''"

fun source_type_value :: "knowledge_source_type \<Rightarrow> ustr" where
  "source_type_value KB_MARKDOWN = lit ''md''"
| "source_type_value KB_TEXT = lit ''txt''"
| "source_type_value KB_PDF = lit ''pdf''"

fun knowledge_status_value :: "knowledge_status \<Rightarrow> ustr" where
  "knowledge_status_value KB_QUEUED = lit ''QUEUED''"
| "knowledge_status_value KB_PROCESSING = lit ''PROCESSING''"
| "knowledge_status_value KB_READY = lit ''READY''"
| "knowledge_status_value KB_FAILED = lit ''FAILED''"

record knowledge_document =
  kdc_id :: ustr
  kdc_title :: ustr
  kdc_type :: knowledge_source_type
  kdc_scope :: knowledge_scope
  kdc_conversation :: "ustr option"
  kdc_filename :: ustr
  kdc_hash :: ustr
  kdc_generation :: int
  kdc_status :: knowledge_status

text \<open>The validator of documents and of annotations.\<close>

fun valid_scope_owner :: "knowledge_scope \<Rightarrow> 'a option \<Rightarrow> bool" where
  "valid_scope_owner KB_GLOBAL conversation = (conversation = None)"
| "valid_scope_owner KB_CONVERSATION conversation = (conversation \<noteq> None)"

definition valid_document :: "('z) knowledge_document_scheme \<Rightarrow> bool" where
  "valid_document d \<longleftrightarrow> nonempty_str (kdc_title d) \<and> nonempty_str (kdc_filename d) \<and> nonempty_str (kdc_hash d) \<and>
     1 \<le> kdc_generation d \<and> valid_scope_owner (kdc_scope d) (kdc_conversation d)"

record document_row = knowledge_document +
  kdr_content :: "nat list"
  kdr_raw_text :: "ustr option"
  kdr_model :: "ustr option"
  kdr_error :: "ustr option"
  kdr_created :: int
  kdr_updated :: int

record chunk_row =
  kch_id :: ustr
  kch_document :: ustr
  kch_parent :: "ustr option"
  kch_index :: nat
  kch_level :: chunk_level
  kch_content :: ustr
  kch_tokens :: int
  kch_embedding :: "real list option"
  kch_model :: "ustr option"
  kch_metadata :: "(ustr \<times> int) list"

record outbox_row =
  kob_document :: ustr
  kob_generation :: int
  kob_attempts :: nat
  kob_error :: "ustr option"
  kob_published :: "int option"
  kob_created :: int

record annotation_reply =
  kan_id :: ustr
  kan_scope :: knowledge_scope
  kan_conversation :: "ustr option"
  kan_question :: ustr
  kan_answer :: ustr
  kan_threshold :: real
  kan_enabled :: bool
  kan_source :: "ustr option"

definition valid_annotation :: "('z) annotation_reply_scheme \<Rightarrow> bool" where
  "valid_annotation a \<longleftrightarrow> nonempty_str (kan_question a) \<and> nonempty_str (kan_answer a) \<and>
     0 \<le> kan_threshold a \<and> kan_threshold a \<le> 1 \<and> valid_scope_owner (kan_scope a) (kan_conversation a)"

record annotation_row = annotation_reply +
  kar_embedding :: "real list option"
  kar_model :: "ustr option"
  kar_hits :: nat
  kar_last_hit :: "int option"
  kar_created :: int
  kar_updated :: int

record match_audit =
  kau_id :: ustr
  kau_conversation :: ustr
  kau_annotation :: "ustr option"
  kau_hash :: ustr
  kau_score :: "real option"
  kau_threshold :: "real option"
  kau_outcome :: ustr
  kau_error :: "ustr option"
  kau_created :: int

record knowledge_db =
  kn_documents :: "document_row list"
  kn_chunks :: "chunk_row list"
  kn_outbox :: "outbox_row list"
  kn_annotations :: "annotation_row list"
  kn_audits :: "match_audit list"
  kn_messages :: message_db
  kn_uuid :: "nat \<Rightarrow> ustr"
  kn_drawn :: nat
  kn_clock :: int

definition kb_uuid :: "knowledge_db \<Rightarrow> ustr \<times> knowledge_db" where
  "kb_uuid db = (kn_uuid db (kn_drawn db), db\<lparr>kn_drawn := Suc (kn_drawn db)\<rparr>)"

definition kb_transaction :: "(knowledge_db, 'a) prog \<Rightarrow> (knowledge_db, 'a) prog" where
  "kb_transaction m db = (case m db of (Inl x, db') \<Rightarrow> (Inl x, db\<lparr>kn_drawn := kn_drawn db'\<rparr>) | (Inr y, db') \<Rightarrow> (Inr y, db'))"

definition known_conversation :: "knowledge_db \<Rightarrow> ustr option \<Rightarrow> bool" where
  "known_conversation db c \<longleftrightarrow> (case c of None \<Rightarrow> True | Some i \<Rightarrow> i \<in> cv_id ` set (db_conversations (kn_messages db)))"

section \<open>Documents and the outbox\<close>

definition same_content :: "('z) knowledge_document_scheme \<Rightarrow> document_row \<Rightarrow> bool" where
  "same_content d r \<longleftrightarrow> kdc_hash r = kdc_hash d \<and> kdc_scope r = kdc_scope d \<and> kdc_conversation r = kdc_conversation d"

definition row_of_document :: "knowledge_document \<Rightarrow> nat list \<Rightarrow> int \<Rightarrow> document_row" where
  "row_of_document d content now = \<lparr>kdc_id = kdc_id d, kdc_title = kdc_title d, kdc_type = kdc_type d, kdc_scope = kdc_scope d,
     kdc_conversation = kdc_conversation d, kdc_filename = kdc_filename d, kdc_hash = kdc_hash d, kdc_generation = kdc_generation d,
     kdc_status = kdc_status d, kdr_content = content, kdr_raw_text = None, kdr_model = None, kdr_error = None,
     kdr_created = now, kdr_updated = now\<rparr>"

definition is_task :: "ustr \<Rightarrow> int \<Rightarrow> outbox_row \<Rightarrow> bool" where
  "is_task i g t \<longleftrightarrow> kob_document t = i \<and> kob_generation t = g"

definition new_task :: "ustr \<Rightarrow> int \<Rightarrow> int \<Rightarrow> outbox_row" where
  "new_task i g now = \<lparr>kob_document = i, kob_generation = g, kob_attempts = 0, kob_error = None, kob_published = None, kob_created = now\<rparr>"

definition upsert_task :: "ustr \<Rightarrow> int \<Rightarrow> bool \<Rightarrow> knowledge_db \<Rightarrow> knowledge_db" where
  "upsert_task i g reset db = db\<lparr>kn_outbox :=
     (if \<exists>t \<in> set (kn_outbox db). is_task i g t
      then map (\<lambda>t. if is_task i g t \<and> reset then t\<lparr>kob_published := None, kob_error := None\<rparr> else t) (kn_outbox db)
      else kn_outbox db @ [new_task i g (kn_clock db)])\<rparr>"

definition create_document :: "knowledge_document \<Rightarrow> nat list \<Rightarrow> (knowledge_db, knowledge_document \<times> bool) prog" where
  "create_document d content db =
     (case find (same_content d) (kn_documents db) of
        Some r \<Rightarrow>
          (Inr (knowledge_document.truncate r, False),
           if kdc_status r \<in> {KB_QUEUED, KB_FAILED} then upsert_task (kdc_id r) (kdc_generation r) (kdc_status r = KB_FAILED) db else db)
      | None \<Rightarrow>
          if kdc_id d \<in> kdc_id ` set (kn_documents db) \<or> \<not> known_conversation db (kdc_conversation d) \<or>
             \<not> valid_scope_owner (kdc_scope d) (kdc_conversation d) \<or> kdc_generation d < 1
          then (Inl integrity_error, db)
          else (Inr (d, True), upsert_task (kdc_id d) (kdc_generation d) (kdc_status d = KB_FAILED)
                 (db\<lparr>kn_documents := kn_documents db @ [row_of_document d content (kn_clock db)]\<rparr>)))"

text \<open>Rows with the same instant keep their order of insertion.\<close>

definition pending_ingest_tasks :: "int \<Rightarrow> ustr option \<Rightarrow> knowledge_db \<Rightarrow> (ustr \<times> int) list" where
  "pending_ingest_tasks limit document db = map (\<lambda>t. (kob_document t, kob_generation t))
     (take (nat (max 1 (min limit 500))) (sort_key kob_created
       (filter (\<lambda>t. kob_published t = None \<and> (case document of None \<Rightarrow> True | Some i \<Rightarrow> kob_document t = i)) (kn_outbox db))))"

definition mark_task_published :: "ustr \<Rightarrow> int \<Rightarrow> knowledge_db \<Rightarrow> knowledge_db" where
  "mark_task_published i g db = db\<lparr>kn_outbox := map (\<lambda>t. if is_task i g t
     then t\<lparr>kob_published := Some (kn_clock db), kob_attempts := Suc (kob_attempts t), kob_error := None\<rparr> else t) (kn_outbox db)\<rparr>"

definition mark_task_failed :: "ustr \<Rightarrow> int \<Rightarrow> ustr \<Rightarrow> knowledge_db \<Rightarrow> knowledge_db" where
  "mark_task_failed i g code db = db\<lparr>kn_outbox := map (\<lambda>t. if is_task i g t \<and> kob_published t = None
     then t\<lparr>kob_attempts := Suc (kob_attempts t), kob_error := Some (take 200 code)\<rparr> else t) (kn_outbox db)\<rparr>"

text \<open>Deleting a document deletes its chunks and tasks (\<open>ON DELETE CASCADE\<close>).\<close>

definition delete_document :: "ustr \<Rightarrow> knowledge_db \<Rightarrow> bool \<times> knowledge_db" where
  "delete_document i db = (i \<in> kdc_id ` set (kn_documents db),
     db\<lparr>kn_documents := filter (\<lambda>d. kdc_id d \<noteq> i) (kn_documents db), kn_chunks := filter (\<lambda>c. kch_document c \<noteq> i) (kn_chunks db),
        kn_outbox := filter (\<lambda>t. kob_document t \<noteq> i) (kn_outbox db)\<rparr>)"

definition put_document :: "ustr \<Rightarrow> (document_row \<Rightarrow> document_row) \<Rightarrow> knowledge_db \<Rightarrow> knowledge_db" where
  "put_document i f db = db\<lparr>kn_documents := map (\<lambda>d. if kdc_id d = i then f d else d) (kn_documents db)\<rparr>"

definition find_document :: "ustr \<Rightarrow> knowledge_db \<Rightarrow> document_row option" where
  "find_document i db = find (\<lambda>d. kdc_id d = i) (kn_documents db)"

definition requeue_document :: "ustr \<Rightarrow> knowledge_db \<Rightarrow> knowledge_document option \<times> knowledge_db" where
  "requeue_document i db = (case find_document i db of
       None \<Rightarrow> (None, db)
     | Some d \<Rightarrow>
         (let r = d\<lparr>kdc_generation := kdc_generation d + 1, kdc_status := KB_QUEUED, kdr_error := None, kdr_updated := kn_clock db\<rparr>
          in (Some (knowledge_document.truncate r), upsert_task i (kdc_generation r) False (put_document i (\<lambda>_. r) db))))"

section \<open>Ingestion\<close>

datatype claim_status = CLAIM_ACQUIRED | CLAIM_BUSY | CLAIM_TERMINAL

record ingest_source =
  kis_document :: ustr
  kis_generation :: int
  kis_type :: knowledge_source_type
  kis_content :: "nat list"

record ingest_claim =
  kic_status :: claim_status
  kic_source :: "ingest_source option"

definition claimable :: "int \<Rightarrow> int \<Rightarrow> document_row \<Rightarrow> bool" where
  "claimable lease now d \<longleftrightarrow> kdc_status d \<in> {KB_QUEUED, KB_FAILED} \<or>
     kdc_status d = KB_PROCESSING \<and> kdr_updated d < now - lease * 1000000"

definition claim_ingestion :: "int \<Rightarrow> ustr \<Rightarrow> int \<Rightarrow> knowledge_db \<Rightarrow> ingest_claim \<times> knowledge_db" where
  "claim_ingestion lease i g db = (case find_document i db of
       None \<Rightarrow> (\<lparr>kic_status = CLAIM_TERMINAL, kic_source = None\<rparr>, db)
     | Some d \<Rightarrow>
         if kdc_generation d = g \<and> claimable lease (kn_clock db) d
         then (\<lparr>kic_status = CLAIM_ACQUIRED, kic_source = Some \<lparr>kis_document = i, kis_generation = g, kis_type = kdc_type d,
                 kis_content = kdr_content d\<rparr>\<rparr>,
               put_document i (\<lambda>d. d\<lparr>kdc_status := KB_PROCESSING, kdr_error := None, kdr_updated := kn_clock db\<rparr>) db)
         else if kdc_generation d = g \<and> kdc_status d = KB_PROCESSING then (\<lparr>kic_status = CLAIM_BUSY, kic_source = None\<rparr>, db)
         else (\<lparr>kic_status = CLAIM_TERMINAL, kic_source = None\<rparr>, db))"

definition insert_chunk :: "chunk_row \<Rightarrow> (knowledge_db, unit) prog" where
  "insert_chunk c db =
     (if kch_id c \<in> kch_id ` set (kn_chunks db) \<or> kch_document c \<notin> kdc_id ` set (kn_documents db) \<or>
         (\<exists>q \<in> set (kn_chunks db). kch_document q = kch_document c \<and> kch_level q = kch_level c \<and> kch_index q = kch_index c) \<or>
         (case kch_parent c of None \<Rightarrow> False | Some p \<Rightarrow> p \<notin> kch_id ` set (kn_chunks db))
      then (Inl integrity_error, db) else (Inr (), db\<lparr>kn_chunks := kn_chunks db @ [c]\<rparr>))"

definition parent_row :: "ustr \<Rightarrow> ingest_source \<Rightarrow> prepared_parent \<Rightarrow> chunk_row" where
  "parent_row pid src p = \<lparr>kch_id = pid, kch_document = kis_document src, kch_parent = None, kch_index = ppr_index p,
     kch_level = KB_PARENT, kch_content = ppr_content p, kch_tokens = ppr_tokens p, kch_embedding = None, kch_model = None,
     kch_metadata = [(lit ''generation'', kis_generation src)]\<rparr>"

definition child_row :: "ustr \<Rightarrow> ustr \<Rightarrow> ingest_source \<Rightarrow> prepared_parent \<Rightarrow> prepared_child \<Rightarrow> real list \<Rightarrow> ustr \<Rightarrow> chunk_row" where
  "child_row cid pid src p c v model = \<lparr>kch_id = cid, kch_document = kis_document src, kch_parent = Some pid,
     kch_index = ppr_index p * 100000 + pch_index c, kch_level = KB_CHILD, kch_content = pch_content c, kch_tokens = pch_tokens c,
     kch_embedding = Some v, kch_model = Some model,
     kch_metadata = [(lit ''generation'', kis_generation src), (lit ''parent_index'', int (ppr_index p)), (lit ''child_index'', int (pch_index c))]\<rparr>"

text \<open>The vectors are used up one per child; running out of them is \<open>child_embeddings[i]\<close> past the end.\<close>

fun insert_children :: "ingest_source \<Rightarrow> ustr \<Rightarrow> ustr \<Rightarrow> prepared_parent \<Rightarrow> prepared_child list \<Rightarrow> real list list \<Rightarrow>
    (knowledge_db, real list list) prog" where
  "insert_children src model pid p [] vs = retp vs"
| "insert_children src model pid p (c # cs) vs = (case vs of
       [] \<Rightarrow> raisep (Raised (lit ''IndexError''))
     | v # vs' \<Rightarrow> bindp (liftp kb_uuid) (\<lambda>cid. bindp (insert_chunk (child_row cid pid src p c v model)) (\<lambda>_.
         insert_children src model pid p cs vs')))"

fun insert_parents :: "ingest_source \<Rightarrow> ustr \<Rightarrow> prepared_parent list \<Rightarrow> real list list \<Rightarrow> (knowledge_db, unit) prog" where
  "insert_parents src model [] vs = retp ()"
| "insert_parents src model (p # ps) vs =
     bindp (liftp kb_uuid) (\<lambda>pid. bindp (insert_chunk (parent_row pid src p)) (\<lambda>_.
     bindp (insert_children src model pid p (ppr_children p) vs) (\<lambda>vs'. insert_parents src model ps vs')))"

definition drop_chunks :: "ustr \<Rightarrow> (knowledge_db, unit) prog" where
  "drop_chunks i db = (Inr (), db\<lparr>kn_chunks := filter (\<lambda>c. kch_document c \<noteq> i) (kn_chunks db)\<rparr>)"

definition set_ready :: "ingest_source \<Rightarrow> ustr \<Rightarrow> ustr \<Rightarrow> (knowledge_db, unit) prog" where
  "set_ready src raw_text model db = (Inr (), put_document (kis_document src) (\<lambda>d. if kdc_generation d = kis_generation src
     then d\<lparr>kdc_status := KB_READY, kdr_raw_text := Some raw_text, kdr_model := Some model, kdr_error := None, kdr_updated := kn_clock db\<rparr>
     else d) db)"

definition complete_ingestion ::
  "ingest_source \<Rightarrow> ustr \<Rightarrow> prepared_parent list \<Rightarrow> real list list \<Rightarrow> ustr \<Rightarrow> (knowledge_db, bool) prog" where
  "complete_ingestion src raw_text parents vectors model db = (case find_document (kis_document src) db of
       None \<Rightarrow> (Inr False, db)
     | Some d \<Rightarrow>
         if kdc_generation d \<noteq> kis_generation src \<or> kdc_status d \<noteq> KB_PROCESSING then (Inr False, db)
         else kb_transaction (bindp (drop_chunks (kis_document src)) (\<lambda>_. bindp (insert_parents src model parents vectors) (\<lambda>_.
                bindp (set_ready src raw_text model) (\<lambda>_. retp True)))) db)"

definition fail_ingestion :: "ustr \<Rightarrow> int \<Rightarrow> ustr \<Rightarrow> knowledge_db \<Rightarrow> knowledge_db" where
  "fail_ingestion i g code db = put_document i (\<lambda>d. if kdc_generation d = g
     then d\<lparr>kdc_status := KB_FAILED, kdr_error := Some (take 200 code), kdr_updated := kn_clock db\<rparr> else d) db"

section \<open>Search\<close>

type_synonym vector_distance = "real list \<Rightarrow> real list \<Rightarrow> real option"

record search_hit =
  khh_child :: ustr
  khh_parent :: ustr
  khh_document :: ustr
  khh_title :: ustr
  khh_child_content :: ustr
  khh_parent_content :: ustr
  khh_score :: real
  khh_scope :: knowledge_scope

definition in_knowledge_scope :: "knowledge_db \<Rightarrow> ustr option \<Rightarrow> bool \<Rightarrow> bool \<Rightarrow> document_row \<Rightarrow> bool" where
  "in_knowledge_scope db key include_global allow_conversation d \<longleftrightarrow>
     include_global \<and> kdc_scope d = KB_GLOBAL \<or>
     allow_conversation \<and> kdc_scope d = KB_CONVERSATION \<and>
       (\<exists>c \<in> set (db_conversations (kn_messages db)). Some (cv_stable_key c) = key \<and> kdc_conversation d = Some (cv_id c))"

text \<open>The joined rows that pass the filters but the threshold.\<close>

definition search_rows :: "ustr \<Rightarrow> ustr option \<Rightarrow> bool \<Rightarrow> bool \<Rightarrow> knowledge_db \<Rightarrow> (chunk_row \<times> chunk_row \<times> document_row) list" where
  "search_rows model key include_global allow_conversation db =
     filter (\<lambda>(c, p, d). kch_level c = KB_CHILD \<and> kch_parent c = Some (kch_id p) \<and> kdc_id d = kch_document c \<and>
         kdc_status d = KB_READY \<and> kch_embedding c \<noteq> None \<and> kch_model c = Some model \<and>
         in_knowledge_scope db key include_global allow_conversation d)
       (List.product (kn_chunks db) (List.product (kn_chunks db) (kn_documents db)))"

definition row_hit :: "real \<Rightarrow> chunk_row \<times> chunk_row \<times> document_row \<Rightarrow> search_hit" where
  "row_hit distance row = (case row of (c, p, d) \<Rightarrow> \<lparr>khh_child = kch_id c, khh_parent = kch_id p, khh_document = kdc_id d,
     khh_title = kdc_title d, khh_child_content = kch_content c, khh_parent_content = kch_content p,
     khh_score = max 0 (min 1 (1 - distance)), khh_scope = kdc_scope d\<rparr>)"

definition valid_hit :: "search_hit \<Rightarrow> bool" where
  "valid_hit h \<longleftrightarrow> strip (khh_title h) \<noteq> [] \<and> strip (khh_child_content h) \<noteq> [] \<and> strip (khh_parent_content h) \<noteq> []"

text \<open>Vectors of different dimensions fail the statement.\<close>

definition knowledge_search ::
  "vector_distance \<Rightarrow> real list \<Rightarrow> ustr \<Rightarrow> ustr option \<Rightarrow> bool \<Rightarrow> bool \<Rightarrow> nat \<Rightarrow> real \<Rightarrow> knowledge_db \<Rightarrow> exn + search_hit list" where
  "knowledge_search cosine q model key include_global allow_conversation top_k threshold db =
     (let rows = search_rows model key include_global allow_conversation db;
          far = (\<lambda>(c, p, d). cosine (the (kch_embedding c)) q)
      in if \<exists>r \<in> set rows. far r = None then Inl (Raised (lit ''DBAPIError''))
         else (let hits = map (\<lambda>r. row_hit (the (far r)) r) (take top_k
                 (sort_key (\<lambda>r. the (far r)) (sort_key (\<lambda>(c, p, d). kch_id c) (filter (\<lambda>r. 1 - the (far r) \<ge> threshold) rows))))
               in if \<forall>h \<in> set hits. valid_hit h then Inr hits else Inl (Raised (lit ''ValidationError''))))"

section \<open>Annotations\<close>

definition row_of_annotation :: "annotation_reply \<Rightarrow> real list \<Rightarrow> ustr \<Rightarrow> int \<Rightarrow> annotation_row" where
  "row_of_annotation a v model now = \<lparr>kan_id = kan_id a, kan_scope = kan_scope a, kan_conversation = kan_conversation a,
     kan_question = kan_question a, kan_answer = kan_answer a, kan_threshold = kan_threshold a, kan_enabled = kan_enabled a,
     kan_source = kan_source a, kar_embedding = Some v, kar_model = Some model, kar_hits = 0, kar_last_hit = None,
     kar_created = now, kar_updated = now\<rparr>"

definition create_annotation :: "annotation_reply \<Rightarrow> real list \<Rightarrow> ustr \<Rightarrow> (knowledge_db, annotation_reply) prog" where
  "create_annotation a v model db =
     (if kan_id a \<in> kan_id ` set (kn_annotations db) \<or> \<not> known_conversation db (kan_conversation a) \<or>
         \<not> valid_scope_owner (kan_scope a) (kan_conversation a) \<or> kan_threshold a < 0 \<or> kan_threshold a > 1 \<or>
         (case kan_source a of None \<Rightarrow> False | Some m \<Rightarrow> m \<notin> mr_id ` set (db_messages (kn_messages db)))
      then (Inl integrity_error, db)
      else (Inr a, db\<lparr>kn_annotations := kn_annotations db @ [row_of_annotation a v model (kn_clock db)]\<rparr>))"

text \<open>\<open>string_agg\<close> over the text parts of stored segments; \<open>None\<close> where there is none.\<close>

definition text_parts :: "json \<Rightarrow> ustr option" where
  "text_parts segments = (case segments of
       JArr raws \<Rightarrow>
         (let ts = List.map_filter (\<lambda>raw. case raw of JObj d \<Rightarrow>
               (if map_of d (lit ''type'') = Some (JStr (lit ''text'')) then (case map_of d (lit ''text'') of Some (JStr t) \<Rightarrow> Some t | _ \<Rightarrow> None)
                else None) | _ \<Rightarrow> None) raws
          in if ts = [] then None else Some (py_join [10] ts))
     | _ \<Rightarrow> None)"

definition message_annotation_pair :: "ustr \<Rightarrow> ustr \<Rightarrow> knowledge_db \<Rightarrow> (ustr \<times> ustr) option" where
  "message_annotation_pair cid mid db =
     (let ms = db_messages (kn_messages db) in
      case find (\<lambda>m. mr_id m = mid \<and> mr_conversation m = cid \<and> mr_direction m = outbound_direction) ms of
        None \<Rightarrow> None
      | Some target \<Rightarrow>
          (case newest_first (filter (\<lambda>m. mr_conversation m = cid \<and> mr_direction m = inbound_direction \<and>
                   mr_occurred_at m \<le> mr_occurred_at target) ms) of
             [] \<Rightarrow> None
           | previous # _ \<Rightarrow>
               (case (text_parts (mr_segments target), text_parts (mr_segments previous)) of
                  (Some (a # answer), Some (c # question)) \<Rightarrow> Some (strip (c # question), strip (a # answer))
                | _ \<Rightarrow> None)))"

definition or_text :: "ustr option \<Rightarrow> ustr \<Rightarrow> ustr" where
  "or_text x d = (case x of None \<Rightarrow> d | Some t \<Rightarrow> if t = [] then d else t)"

definition annotation_from_message ::
  "ustr \<Rightarrow> ustr \<Rightarrow> ustr option \<Rightarrow> real \<Rightarrow> real list \<Rightarrow> ustr \<Rightarrow> ustr option \<Rightarrow> (knowledge_db, annotation_reply option) prog" where
  "annotation_from_message cid mid question threshold v model answer db = (case message_annotation_pair cid mid db of
       None \<Rightarrow> (Inr None, db)
     | Some (previous, stored) \<Rightarrow>
         (let q = strip (or_text question previous); a = strip (or_text answer stored)
          in if q = [] \<or> a = [] then (Inr None, db)
             else if threshold < 0 \<or> threshold > 1 then (Inl (Raised (lit ''ValidationError'')), db)
             else bindp (liftp kb_uuid) (\<lambda>new_id. bindp (create_annotation \<lparr>kan_id = new_id, kan_scope = KB_CONVERSATION,
                    kan_conversation = Some cid, kan_question = q, kan_answer = a, kan_threshold = threshold, kan_enabled = True,
                    kan_source = Some mid\<rparr> v model) (\<lambda>r. retp (Some r))) db))"

text \<open>The audits keep their rows without the reference (\<open>ON DELETE SET NULL\<close>).\<close>

definition delete_annotation :: "ustr \<Rightarrow> knowledge_db \<Rightarrow> bool \<times> knowledge_db" where
  "delete_annotation i db = (i \<in> kan_id ` set (kn_annotations db),
     db\<lparr>kn_annotations := filter (\<lambda>a. kan_id a \<noteq> i) (kn_annotations db),
        kn_audits := map (\<lambda>r. if kau_annotation r = Some i then r\<lparr>kau_annotation := None\<rparr> else r) (kn_audits db)\<rparr>)"

definition in_annotation_scope :: "ustr \<Rightarrow> bool \<Rightarrow> annotation_row \<Rightarrow> bool" where
  "in_annotation_scope cid allow_conversation a \<longleftrightarrow> kan_scope a = KB_GLOBAL \<or>
     allow_conversation \<and> kan_scope a = KB_CONVERSATION \<and> kan_conversation a = Some cid"

definition annotation_candidates ::
  "vector_distance \<Rightarrow> real list \<Rightarrow> ustr \<Rightarrow> ustr \<Rightarrow> bool \<Rightarrow> nat \<Rightarrow> knowledge_db \<Rightarrow> exn + (ustr \<times> ustr \<times> real \<times> real) list" where
  "annotation_candidates cosine q model cid allow_conversation limit db =
     (let rows = filter (\<lambda>a. kan_enabled a \<and> kar_embedding a \<noteq> None \<and> kar_model a = Some model \<and>
            in_annotation_scope cid allow_conversation a) (kn_annotations db);
          far = (\<lambda>a. cosine (the (kar_embedding a)) q)
      in if \<exists>a \<in> set rows. far a = None then Inl (Raised (lit ''DBAPIError''))
         else Inr (map (\<lambda>a. (kan_id a, kan_answer a, max 0 (min 1 (1 - the (far a))), kan_threshold a))
           (take limit (sort_key (\<lambda>a. the (far a)) (sort_key kan_id rows)))))"

definition mark_annotation_hit :: "ustr \<Rightarrow> knowledge_db \<Rightarrow> knowledge_db" where
  "mark_annotation_hit i db = db\<lparr>kn_annotations := map (\<lambda>a. if kan_id a = i
     then a\<lparr>kar_hits := Suc (kar_hits a), kar_last_hit := Some (kn_clock db), kar_updated := kn_clock db\<rparr> else a) (kn_annotations db)\<rparr>"

definition record_annotation_match ::
  "ustr \<Rightarrow> ustr \<Rightarrow> ustr option \<Rightarrow> real option \<Rightarrow> real option \<Rightarrow> ustr \<Rightarrow> ustr option \<Rightarrow> (knowledge_db, unit) prog" where
  "record_annotation_match cid hash annotation score threshold outcome code db =
     (let (new_id, db1) = kb_uuid db in
      if new_id \<in> kau_id ` set (kn_audits db) \<or> \<not> known_conversation db (Some cid) \<or>
         (case annotation of None \<Rightarrow> False | Some a \<Rightarrow> a \<notin> kan_id ` set (kn_annotations db)) \<or>
         outcome \<notin> {lit ''HIT'', lit ''MISS'', lit ''ERROR''}
      then (Inl integrity_error, db1)
      else (Inr (), db1\<lparr>kn_audits := kn_audits db @ [\<lparr>kau_id = new_id, kau_conversation = cid, kau_annotation = annotation,
             kau_hash = hash, kau_score = score, kau_threshold = threshold, kau_outcome = outcome, kau_error = code, kau_created = kn_clock db\<rparr>]\<rparr>))"

record annotation_metrics =
  kam_hit :: nat
  kam_miss :: nat
  kam_error :: nat
  kam_total :: nat
  kam_hit_rate :: real

definition annotation_metrics_of :: "int \<Rightarrow> knowledge_db \<Rightarrow> annotation_metrics" where
  "annotation_metrics_of hours db =
     (let rows = filter (\<lambda>r. kau_created r \<ge> kn_clock db - max 1 (min hours (24 * 90)) * 3600000000) (kn_audits db);
          count = (\<lambda>outcome. length (filter (\<lambda>r. kau_outcome r = outcome) rows));
          hits = count (lit ''HIT'')
      in \<lparr>kam_hit = hits, kam_miss = count (lit ''MISS''), kam_error = count (lit ''ERROR''), kam_total = length rows,
           kam_hit_rate = (if length rows = 0 then 0 else real hits / real (length rows))\<rparr>)"

section \<open>Listings\<close>

definition nullable_json :: "ustr option \<Rightarrow> json" where
  "nullable_json x = (case x of None \<Rightarrow> JNull | Some t \<Rightarrow> JStr t)"

definition stable_key_of :: "knowledge_db \<Rightarrow> ustr option \<Rightarrow> ustr option" where
  "stable_key_of db c = (case c of None \<Rightarrow> None
     | Some i \<Rightarrow> map_option cv_stable_key (find (\<lambda>r. cv_id r = i) (db_conversations (kn_messages db))))"

definition listing_limit :: "int \<Rightarrow> nat" where
  "listing_limit n = nat (max 1 (min n 500))"

definition document_json :: "(int \<Rightarrow> ustr) \<Rightarrow> knowledge_db \<Rightarrow> document_row \<Rightarrow> (ustr, json) dict" where
  "document_json isoformat db d = [(lit ''id'', JStr (kdc_id d)), (lit ''title'', JStr (kdc_title d)),
     (lit ''source_type'', JStr (source_type_value (kdc_type d))), (lit ''scope'', JStr (knowledge_scope_value (kdc_scope d))),
     (lit ''conversation_id'', nullable_json (kdc_conversation d)), (lit ''conversation_stable_key'', nullable_json (stable_key_of db (kdc_conversation d))),
     (lit ''status'', JStr (knowledge_status_value (kdc_status d))), (lit ''content_hash'', JStr (kdc_hash d)),
     (lit ''original_filename'', JStr (kdc_filename d)), (lit ''generation'', JInt (kdc_generation d)),
     (lit ''embedding_model'', nullable_json (kdr_model d)), (lit ''error_code'', nullable_json (kdr_error d)),
     (lit ''child_count'', JInt (int (length (filter (\<lambda>c. kch_document c = kdc_id d \<and> kch_level c = KB_CHILD) (kn_chunks db))))),
     (lit ''created_at'', JStr (isoformat (kdr_created d))), (lit ''updated_at'', JStr (isoformat (kdr_updated d)))]"

definition list_documents :: "(int \<Rightarrow> ustr) \<Rightarrow> int \<Rightarrow> knowledge_db \<Rightarrow> (ustr, json) dict list" where
  "list_documents isoformat limit db = map (document_json isoformat db) (take (listing_limit limit) (sort_key (\<lambda>d. - kdr_updated d) (kn_documents db)))"

definition annotation_json :: "(int \<Rightarrow> ustr) \<Rightarrow> knowledge_db \<Rightarrow> annotation_row \<Rightarrow> (ustr, json) dict" where
  "annotation_json isoformat db a = [(lit ''id'', JStr (kan_id a)), (lit ''scope'', JStr (knowledge_scope_value (kan_scope a))),
     (lit ''conversation_id'', nullable_json (kan_conversation a)), (lit ''conversation_stable_key'', nullable_json (stable_key_of db (kan_conversation a))),
     (lit ''question'', JStr (kan_question a)), (lit ''answer'', JStr (kan_answer a)), (lit ''embedding_model'', nullable_json (kar_model a)),
     (lit ''threshold'', JFloat (kan_threshold a)), (lit ''enabled'', JBool (kan_enabled a)), (lit ''source_message_id'', nullable_json (kan_source a)),
     (lit ''hit_count'', JInt (int (kar_hits a))), (lit ''last_hit_at'', nullable_json (map_option isoformat (kar_last_hit a))),
     (lit ''created_at'', JStr (isoformat (kar_created a))), (lit ''updated_at'', JStr (isoformat (kar_updated a)))]"

definition list_annotations :: "(int \<Rightarrow> ustr) \<Rightarrow> int \<Rightarrow> knowledge_db \<Rightarrow> (ustr, json) dict list" where
  "list_annotations isoformat limit db = map (annotation_json isoformat db) (take (listing_limit limit) (sort_key (\<lambda>a. - kar_updated a) (kn_annotations db)))"

section \<open>Any sequence of operations\<close>

datatype knowledge_op =
    Create_document knowledge_document "nat list"
  | Task_published ustr int
  | Task_failed ustr int ustr
  | Delete_document ustr
  | Requeue_document ustr
  | Claim_ingestion ustr int
  | Complete_ingestion ingest_source ustr "prepared_parent list" "real list list" ustr
  | Fail_ingestion ustr int ustr
  | Create_annotation annotation_reply "real list" ustr
  | Delete_annotation ustr
  | Annotation_hit ustr
  | Annotation_audit ustr ustr "ustr option" "real option" "real option" ustr "ustr option"
  | Time_passes nat

fun knowledge_step :: "int \<Rightarrow> knowledge_op \<Rightarrow> knowledge_db \<Rightarrow> knowledge_db" where
  "knowledge_step lease (Create_document d content) db = snd (create_document d content db)"
| "knowledge_step lease (Task_published i g) db = mark_task_published i g db"
| "knowledge_step lease (Task_failed i g code) db = mark_task_failed i g code db"
| "knowledge_step lease (Delete_document i) db = snd (delete_document i db)"
| "knowledge_step lease (Requeue_document i) db = snd (requeue_document i db)"
| "knowledge_step lease (Claim_ingestion i g) db = snd (claim_ingestion lease i g db)"
| "knowledge_step lease (Complete_ingestion src t ps vs m) db = snd (complete_ingestion src t ps vs m db)"
| "knowledge_step lease (Fail_ingestion i g code) db = fail_ingestion i g code db"
| "knowledge_step lease (Create_annotation a v m) db = snd (create_annotation a v m db)"
| "knowledge_step lease (Delete_annotation i) db = snd (delete_annotation i db)"
| "knowledge_step lease (Annotation_hit i) db = mark_annotation_hit i db"
| "knowledge_step lease (Annotation_audit c h a x y out code) db = snd (record_annotation_match c h a x y out code db)"
| "knowledge_step lease (Time_passes n) db = db\<lparr>kn_clock := kn_clock db + int n\<rparr>"

definition new_knowledge_db :: "message_db \<Rightarrow> (nat \<Rightarrow> ustr) \<Rightarrow> knowledge_db" where
  "new_knowledge_db mdb supply = \<lparr>kn_documents = [], kn_chunks = [], kn_outbox = [], kn_annotations = [], kn_audits = [],
     kn_messages = mdb, kn_uuid = supply, kn_drawn = 0, kn_clock = 0\<rparr>"

section \<open>The invariant\<close>

definition chunk_generation :: "chunk_row \<Rightarrow> int option" where
  "chunk_generation c = map_of (kch_metadata c) (lit ''generation'')"

text \<open>A chunk belongs to a document, to its current generation where the document is ready, and a
  child to a parent of the same document.\<close>

definition chunk_ok :: "document_row list \<Rightarrow> chunk_row list \<Rightarrow> chunk_row \<Rightarrow> bool" where
  "chunk_ok docs chunks c \<longleftrightarrow>
     (\<exists>d \<in> set docs. kdc_id d = kch_document c \<and> (kdc_status d = KB_READY \<longrightarrow> chunk_generation c = Some (kdc_generation d))) \<and>
     (case kch_parent c of None \<Rightarrow> kch_level c = KB_PARENT
        | Some p \<Rightarrow> kch_level c = KB_CHILD \<and> (\<exists>q \<in> set chunks. kch_id q = p \<and> kch_document q = kch_document c \<and> kch_level q = KB_PARENT))"

definition documents_ok :: "document_row list \<Rightarrow> bool" where
  "documents_ok docs \<longleftrightarrow> distinct (map kdc_id docs) \<and>
     distinct (map (\<lambda>d. (kdc_hash d, kdc_scope d, kdc_conversation d)) docs) \<and>
     (\<forall>d \<in> set docs. 1 \<le> kdc_generation d \<and> valid_scope_owner (kdc_scope d) (kdc_conversation d))"

definition chunks_ok :: "document_row list \<Rightarrow> chunk_row list \<Rightarrow> bool" where
  "chunks_ok docs chunks \<longleftrightarrow> distinct (map kch_id chunks) \<and>
     distinct (map (\<lambda>c. (kch_document c, kch_level c, kch_index c)) chunks) \<and> (\<forall>c \<in> set chunks. chunk_ok docs chunks c)"

text \<open>Every queued document has its task in the outbox.\<close>

definition outbox_ok :: "document_row list \<Rightarrow> outbox_row list \<Rightarrow> bool" where
  "outbox_ok docs tasks \<longleftrightarrow> distinct (map (\<lambda>t. (kob_document t, kob_generation t)) tasks) \<and>
     (\<forall>d \<in> set docs. kdc_status d = KB_QUEUED \<longrightarrow> (\<exists>t \<in> set tasks. is_task (kdc_id d) (kdc_generation d) t))"

definition annotations_ok :: "annotation_row list \<Rightarrow> match_audit list \<Rightarrow> bool" where
  "annotations_ok rows audits \<longleftrightarrow> distinct (map kan_id rows) \<and> (\<forall>a \<in> set rows. valid_scope_owner (kan_scope a) (kan_conversation a)) \<and>
     distinct (map kau_id audits) \<and>
     (\<forall>r \<in> set audits. case kau_annotation r of None \<Rightarrow> True | Some a \<Rightarrow> a \<in> kan_id ` set rows)"

definition knowledge_inv :: "knowledge_db \<Rightarrow> bool" where
  "knowledge_inv db \<longleftrightarrow> documents_ok (kn_documents db) \<and> chunks_ok (kn_documents db) (kn_chunks db) \<and>
     outbox_ok (kn_documents db) (kn_outbox db) \<and> annotations_ok (kn_annotations db) (kn_audits db)"

lemma find_document_Some:
  assumes "find_document i db = Some d"
  shows "d \<in> set (kn_documents db) \<and> kdc_id d = i"
  using assms by (auto simp: find_document_def find_Some_iff)

text \<open>Changing the rows of one document, keeping its keys.\<close>

definition same_keys :: "document_row \<Rightarrow> document_row \<Rightarrow> bool" where
  "same_keys d d' \<longleftrightarrow> kdc_id d' = kdc_id d \<and> kdc_hash d' = kdc_hash d \<and> kdc_scope d' = kdc_scope d \<and>
     kdc_conversation d' = kdc_conversation d \<and> kdc_generation d \<le> kdc_generation d'"

lemma documents_put:
  assumes "documents_ok docs" and "\<And>d. same_keys d (f d)"
  shows "documents_ok (map (\<lambda>d. if kdc_id d = i then f d else d) docs)"
proof -
  let ?g = "\<lambda>d. if kdc_id d = i then f d else d"
  have keys: "kdc_id (?g d) = kdc_id d" "kdc_hash (?g d) = kdc_hash d" "kdc_scope (?g d) = kdc_scope d"
    "kdc_conversation (?g d) = kdc_conversation d" "kdc_generation d \<le> kdc_generation (?g d)" for d
    using assms(2) [of d] by (auto simp: same_keys_def)
  have "map kdc_id (map ?g docs) = map kdc_id docs"
    "map (\<lambda>d. (kdc_hash d, kdc_scope d, kdc_conversation d)) (map ?g docs) = map (\<lambda>d. (kdc_hash d, kdc_scope d, kdc_conversation d)) docs"
    unfolding map_map by (rule map_cong [OF refl], simp only: comp_def keys)+
  moreover have "1 \<le> kdc_generation (?g d) \<and> valid_scope_owner (kdc_scope (?g d)) (kdc_conversation (?g d))" if "d \<in> set docs" for d
    using assms(1) that order_trans [OF _ keys(5) [of d]] unfolding documents_ok_def keys(3,4) by blast
  then have "\<forall>d \<in> set (map ?g docs). 1 \<le> kdc_generation d \<and> valid_scope_owner (kdc_scope d) (kdc_conversation d)"
    unfolding set_map by blast
  ultimately show ?thesis using assms(1) unfolding documents_ok_def by argo
qed

lemma chunks_put:
  assumes "chunks_ok docs chunks" and "\<And>d. same_keys d (f d)" and "\<And>d. kdc_status (f d) = KB_READY \<Longrightarrow> f d = d"
  shows "chunks_ok (map (\<lambda>d. if kdc_id d = i then f d else d) docs) chunks"
proof -
  let ?g = "\<lambda>d. if kdc_id d = i then f d else d"
  have "chunk_ok (map ?g docs) chunks c" if ok: "chunk_ok docs chunks c" for c
  proof -
    from ok obtain d where d: "d \<in> set docs" "kdc_id d = kch_document c" "kdc_status d = KB_READY \<longrightarrow> chunk_generation c = Some (kdc_generation d)"
      unfolding chunk_ok_def by blast
    have "?g d \<in> set (map ?g docs)" using d(1) by simp
    moreover have "kdc_id (?g d) = kch_document c" using assms(2) [of d] d(2) by (simp add: same_keys_def)
    moreover have "kdc_status (?g d) = KB_READY \<longrightarrow> chunk_generation c = Some (kdc_generation (?g d))"
      using assms(3) [of d] d(3) by (cases "kdc_id d = i") auto
    ultimately show ?thesis using ok unfolding chunk_ok_def by blast
  qed
  then show ?thesis using assms(1) unfolding chunks_ok_def by blast
qed

lemma outbox_put:
  assumes "outbox_ok docs tasks" and "\<And>d. same_keys d (f d)" and "\<And>d. kdc_status (f d) = KB_QUEUED \<Longrightarrow> f d = d"
  shows "outbox_ok (map (\<lambda>d. if kdc_id d = i then f d else d) docs) tasks"
proof -
  let ?g = "\<lambda>d. if kdc_id d = i then f d else d"
  have same: "?g d = d" if "kdc_status (?g d) = KB_QUEUED" for d using that assms(3) by (cases "kdc_id d = i") auto
  have "d \<in> set docs" if d: "d \<in> set (map ?g docs)" "kdc_status d = KB_QUEUED" for d
  proof -
    obtain d0 where d0: "d0 \<in> set docs" "d = ?g d0" using d(1) unfolding set_map by blast
    then show ?thesis using same [of d0] d(2) by metis
  qed
  then show ?thesis using assms(1) unfolding outbox_ok_def by blast
qed

lemma put_inv:
  assumes "knowledge_inv db" and "\<And>d. same_keys d (f d)"
    and "\<And>d. kdc_status (f d) = KB_READY \<Longrightarrow> f d = d" and "\<And>d. kdc_status (f d) = KB_QUEUED \<Longrightarrow> f d = d"
  shows "knowledge_inv (put_document i f db)"
  using assms(1) documents_put [OF _ assms(2), of "kn_documents db"] chunks_put [OF _ assms(2,3), of "kn_documents db"]
    outbox_put [OF _ assms(2,4), of "kn_documents db"]
  unfolding knowledge_inv_def put_document_def by simp

lemma drawn_inv [simp]: "knowledge_inv (db\<lparr>kn_drawn := n\<rparr>) = knowledge_inv db"
  by (simp add: knowledge_inv_def)

lemma claim_inv: "knowledge_inv db \<Longrightarrow> knowledge_inv (snd (claim_ingestion lease i g db))"
  unfolding claim_ingestion_def
  by (auto split: option.splits intro!: put_inv simp: same_keys_def)

lemma fail_inv: "knowledge_inv db \<Longrightarrow> knowledge_inv (fail_ingestion i g code db)"
  unfolding fail_ingestion_def
  by (rule put_inv) (auto simp: same_keys_def split: if_splits)

lemma upsert_outbox:
  assumes "distinct (map (\<lambda>t. (kob_document t, kob_generation t)) (kn_outbox db))"
  shows "distinct (map (\<lambda>t. (kob_document t, kob_generation t)) (kn_outbox (upsert_task i g reset db)))"
    and "\<exists>t \<in> set (kn_outbox (upsert_task i g reset db)). is_task i g t"
    and "\<exists>t \<in> set (kn_outbox db). is_task j h t \<Longrightarrow> \<exists>t \<in> set (kn_outbox (upsert_task i g reset db)). is_task j h t"
proof -
  let ?f = "\<lambda>t. if is_task i g t \<and> reset then t\<lparr>kob_published := None, kob_error := None\<rparr> else t"
  have f: "kob_document (?f t) = kob_document t" "kob_generation (?f t) = kob_generation t" for t by simp_all
  have eq: "kn_outbox (upsert_task i g reset db) = (if \<exists>t \<in> set (kn_outbox db). is_task i g t then map ?f (kn_outbox db)
     else kn_outbox db @ [new_task i g (kn_clock db)])" by (simp add: upsert_task_def)
  have "map (\<lambda>t. (kob_document t, kob_generation t)) (map ?f (kn_outbox db)) = map (\<lambda>t. (kob_document t, kob_generation t)) (kn_outbox db)"
    unfolding map_map comp_def f ..
  then show "distinct (map (\<lambda>t. (kob_document t, kob_generation t)) (kn_outbox (upsert_task i g reset db)))"
    using assms unfolding eq by (auto simp: is_task_def new_task_def simp del: map_map)
  have keep: "is_task j h (?f t) = is_task j h t" for j h t by (simp add: is_task_def)
  have kept: "\<exists>t \<in> set (map ?f xs). is_task j h t" if tasks: "\<exists>t \<in> set xs. is_task j h t" for j h xs
  proof -
    obtain t where "t \<in> set xs" "is_task j h t" using tasks by blast
    then have "?f t \<in> set (map ?f xs)" "is_task j h (?f t)" by (simp, simp only: keep)
    then show ?thesis by blast
  qed
  show "\<exists>t \<in> set (kn_outbox (upsert_task i g reset db)). is_task i g t"
  proof (cases "\<exists>t \<in> set (kn_outbox db). is_task i g t")
    case True
    show ?thesis unfolding eq if_P [OF True] by (rule kept [OF True])
  next
    case False
    show ?thesis unfolding eq if_not_P [OF False] by (simp add: is_task_def new_task_def)
  qed
  show "\<exists>t \<in> set (kn_outbox (upsert_task i g reset db)). is_task j h t" if old: "\<exists>t \<in> set (kn_outbox db). is_task j h t"
  proof (cases "\<exists>t \<in> set (kn_outbox db). is_task i g t")
    case True
    show ?thesis unfolding eq if_P [OF True] by (rule kept [OF old])
  next
    case False
    show ?thesis unfolding eq if_not_P [OF False] using old by auto
  qed
qed

lemma upsert_fields [simp]:
  "kn_documents (upsert_task i g reset db) = kn_documents db" "kn_chunks (upsert_task i g reset db) = kn_chunks db"
  "kn_annotations (upsert_task i g reset db) = kn_annotations db" "kn_audits (upsert_task i g reset db) = kn_audits db"
  by (simp_all add: upsert_task_def)

lemma upsert_inv: "knowledge_inv db \<Longrightarrow> knowledge_inv (upsert_task i g reset db)"
  unfolding knowledge_inv_def outbox_ok_def using upsert_outbox [of db] by auto

lemma create_inv:
  assumes "knowledge_inv db"
  shows "knowledge_inv (snd (create_document d content db))"
proof (cases "find (same_content d) (kn_documents db)")
  case (Some r)
  then show ?thesis using assms by (simp add: create_document_def upsert_inv)
next
  case None
  let ?r = "row_of_document d content (kn_clock db)" and ?db = "db\<lparr>kn_documents := kn_documents db @ [row_of_document d content (kn_clock db)]\<rparr>"
  let ?bad = "kdc_id d \<in> kdc_id ` set (kn_documents db) \<or> \<not> known_conversation db (kdc_conversation d) \<or>
             \<not> valid_scope_owner (kdc_scope d) (kdc_conversation d) \<or> kdc_generation d < 1"
  show ?thesis
  proof (cases ?bad)
    case True
    then show ?thesis using assms None by (simp add: create_document_def)
  next
    case False
    have r: "kdc_id ?r = kdc_id d" "kdc_hash ?r = kdc_hash d" "kdc_scope ?r = kdc_scope d" "kdc_conversation ?r = kdc_conversation d"
      "kdc_generation ?r = kdc_generation d" "kdc_status ?r = kdc_status d" by (simp_all add: row_of_document_def)
    have "documents_ok (kn_documents ?db)"
      using assms None False unfolding knowledge_inv_def documents_ok_def
      by (auto simp: r find_None_iff same_content_def image_iff)
    moreover have "chunks_ok (kn_documents ?db) (kn_chunks db)"
      using assms unfolding knowledge_inv_def chunks_ok_def chunk_ok_def by (auto split: option.splits)
    moreover have "outbox_ok (kn_documents ?db) (kn_outbox (upsert_task (kdc_id d) (kdc_generation d) (kdc_status d = KB_FAILED) ?db))"
      using assms upsert_outbox [of ?db] unfolding knowledge_inv_def outbox_ok_def by (auto simp: r)
    moreover have "snd (create_document d content db) = upsert_task (kdc_id d) (kdc_generation d) (kdc_status d = KB_FAILED) ?db"
      using None False by (simp add: create_document_def)
    ultimately show ?thesis using assms unfolding knowledge_inv_def by simp
  qed
qed

lemma delete_inv:
  assumes "knowledge_inv db"
  shows "knowledge_inv (snd (delete_document i db))"
proof -
  have "documents_ok (filter (\<lambda>d. kdc_id d \<noteq> i) (kn_documents db))"
    using assms unfolding knowledge_inv_def documents_ok_def by (auto simp: distinct_map_filter)
  moreover have "chunks_ok (filter (\<lambda>d. kdc_id d \<noteq> i) (kn_documents db)) (filter (\<lambda>c. kch_document c \<noteq> i) (kn_chunks db))"
    using assms unfolding knowledge_inv_def chunks_ok_def chunk_ok_def by (fastforce simp: distinct_map_filter split: option.splits)
  moreover have "outbox_ok (filter (\<lambda>d. kdc_id d \<noteq> i) (kn_documents db)) (filter (\<lambda>t. kob_document t \<noteq> i) (kn_outbox db))"
    using assms unfolding knowledge_inv_def outbox_ok_def by (auto simp: distinct_map_filter is_task_def) metis
  ultimately show ?thesis using assms unfolding knowledge_inv_def by (simp add: delete_document_def)
qed

lemma requeue_inv:
  assumes "knowledge_inv db"
  shows "knowledge_inv (snd (requeue_document i db))"
proof (cases "find_document i db")
  case None
  then show ?thesis using assms by (simp add: requeue_document_def)
next
  case (Some d)
  let ?r = "d\<lparr>kdc_generation := kdc_generation d + 1, kdc_status := KB_QUEUED, kdr_error := None, kdr_updated := kn_clock db\<rparr>"
  let ?f = "\<lambda>q. q\<lparr>kdc_generation := kdc_generation q + 1, kdc_status := KB_QUEUED, kdr_error := None, kdr_updated := kn_clock db\<rparr>"
  note d = find_document_Some [OF Some]
  have uniq: "q = d" if "q \<in> set (kn_documents db)" "kdc_id q = i" for q
    using that d assms unfolding knowledge_inv_def documents_ok_def by (auto simp: distinct_map dest: inj_onD)
  have put: "put_document i (\<lambda>_. ?r) db = put_document i ?f db"
    unfolding put_document_def using uniq by (auto intro!: map_cong)
  let ?db = "put_document i ?f db"
  have docs: "documents_ok (kn_documents ?db)"
    using documents_put [of "kn_documents db" ?f i] assms unfolding knowledge_inv_def put_document_def by (simp add: same_keys_def)
  have chunks: "chunks_ok (kn_documents ?db) (kn_chunks db)"
    using chunks_put [of "kn_documents db" "kn_chunks db" ?f i] assms unfolding knowledge_inv_def put_document_def by (simp add: same_keys_def)
  have fields: "kn_outbox ?db = kn_outbox db" "kn_chunks ?db = kn_chunks db" "kn_annotations ?db = kn_annotations db" "kn_audits ?db = kn_audits db"
    by (simp_all add: put_document_def)
  let ?t = "upsert_task i (kdc_generation d + 1) False ?db"
  have tasks: "distinct (map (\<lambda>t. (kob_document t, kob_generation t)) (kn_outbox ?db))"
    using assms unfolding knowledge_inv_def outbox_ok_def fields by blast
  have "\<exists>t \<in> set (kn_outbox ?t). is_task (kdc_id q) (kdc_generation q) t" if q: "q \<in> set (kn_documents ?db)" "kdc_status q = KB_QUEUED" for q
  proof (cases "kdc_id q = i")
    case True
    from q(1) obtain q0 where q0: "q0 \<in> set (kn_documents db)" "q = (if kdc_id q0 = i then ?f q0 else q0)"
      by (auto simp: put_document_def)
    then have "q0 = d" using uniq True by (auto split: if_splits)
    then have "kdc_generation q = kdc_generation d + 1" using q0 d by simp
    then show ?thesis using upsert_outbox(2) [OF tasks] True by simp
  next
    case False
    then have "q \<in> set (kn_documents db)" using q(1) by (auto simp: put_document_def split: if_splits)
    then have "\<exists>t \<in> set (kn_outbox ?db). is_task (kdc_id q) (kdc_generation q) t"
      using assms q(2) unfolding knowledge_inv_def outbox_ok_def fields by blast
    then show ?thesis by (rule upsert_outbox(3) [OF tasks])
  qed
  then have "outbox_ok (kn_documents ?db) (kn_outbox ?t)" unfolding outbox_ok_def using upsert_outbox(1) [OF tasks] by blast
  then show ?thesis using assms docs chunks put Some unfolding knowledge_inv_def by (simp add: requeue_document_def fields)
qed

text \<open>While the chunks of a claimed document are written.\<close>

definition being_written :: "ingest_source \<Rightarrow> knowledge_db \<Rightarrow> bool" where
  "being_written src db \<longleftrightarrow> knowledge_inv db \<and>
     (\<exists>d \<in> set (kn_documents db). kdc_id d = kis_document src \<and> kdc_generation d = kis_generation src \<and> kdc_status d = KB_PROCESSING) \<and>
     (\<forall>c \<in> set (kn_chunks db). kch_document c = kis_document src \<longrightarrow> chunk_generation c = Some (kis_generation src))"

definition has_parent :: "ustr \<Rightarrow> ustr \<Rightarrow> knowledge_db \<Rightarrow> bool" where
  "has_parent pid i db \<longleftrightarrow> (\<exists>q \<in> set (kn_chunks db). kch_id q = pid \<and> kch_document q = i \<and> kch_level q = KB_PARENT)"

lemma chunk_ok_more: "chunk_ok docs chunks c \<Longrightarrow> chunk_ok docs (chunks @ added) c"
  unfolding chunk_ok_def by (auto split: option.splits)

lemma insert_chunk_written:
  assumes "being_written src db" and "insert_chunk c db = (r, db')"
    and "kch_document c = kis_document src" and "chunk_generation c = Some (kis_generation src)"
    and "case kch_parent c of None \<Rightarrow> kch_level c = KB_PARENT | Some p \<Rightarrow> kch_level c = KB_CHILD \<and> has_parent p (kis_document src) db"
  shows "being_written src db'" and "r = Inr u \<Longrightarrow> c \<in> set (kn_chunks db')" and "has_parent p i db \<Longrightarrow> has_parent p i db'"
proof -
  consider "db' = db" "\<exists>x. r = Inl x" | "db' = db\<lparr>kn_chunks := kn_chunks db @ [c]\<rparr>" "kch_id c \<notin> kch_id ` set (kn_chunks db)"
      "\<not> (\<exists>q \<in> set (kn_chunks db). kch_document q = kch_document c \<and> kch_level q = kch_level c \<and> kch_index q = kch_index c)"
    using assms(2) by (auto simp: insert_chunk_def split: if_splits)
  then show "being_written src db'" "r = Inr u \<Longrightarrow> c \<in> set (kn_chunks db')" "has_parent p i db \<Longrightarrow> has_parent p i db'"
  proof (atomize (full), cases)
    case 1
    then show "being_written src db' \<and> (r = Inr u \<longrightarrow> c \<in> set (kn_chunks db')) \<and> (has_parent p i db \<longrightarrow> has_parent p i db')"
      using assms(1) by auto
  next
    case 2
    obtain d where d: "d \<in> set (kn_documents db)" "kdc_id d = kis_document src" "kdc_status d = KB_PROCESSING"
      using assms(1) unfolding being_written_def by blast
    have "chunk_ok (kn_documents db) (kn_chunks db @ [c]) c"
      unfolding chunk_ok_def using d assms(3,5) by (auto simp: has_parent_def split: option.splits)
    moreover have "chunks_ok (kn_documents db) (kn_chunks db)" using assms(1) by (simp add: being_written_def knowledge_inv_def)
    ultimately have "chunks_ok (kn_documents db) (kn_chunks db @ [c])"
      using 2(2,3) chunk_ok_more unfolding chunks_ok_def by (auto simp: image_iff)
    then have "being_written src db'" using assms(1,3,4) unfolding 2(1) being_written_def knowledge_inv_def by auto
    then show "being_written src db' \<and> (r = Inr u \<longrightarrow> c \<in> set (kn_chunks db')) \<and> (has_parent p i db \<longrightarrow> has_parent p i db')"
      unfolding 2(1) has_parent_def by auto
  qed
qed

lemma uuid_written: "being_written src (snd (kb_uuid db)) = being_written src db" "has_parent p i (snd (kb_uuid db)) = has_parent p i db"
  by (simp_all add: being_written_def has_parent_def kb_uuid_def knowledge_inv_def)

lemma insert_children_written:
  "being_written src db \<Longrightarrow> has_parent pid (kis_document src) db \<Longrightarrow> insert_children src model pid p cs vs db = (r, db') \<Longrightarrow> being_written src db'"
proof (induction src model pid p cs vs arbitrary: db rule: insert_children.induct)
  case (2 src model pid p c cs vs)
  show ?case
  proof (cases vs)
    case Nil
    then show ?thesis using 2 by simp
  next
    case (Cons v vs')
    let ?c = "child_row (kn_uuid db (kn_drawn db)) pid src p c v model" and ?db = "snd (kb_uuid db)"
    have run: "bindp (insert_chunk ?c) (\<lambda>_. insert_children src model pid p cs vs') ?db = (r, db')"
      using "2.prems"(3) Cons by (simp add: bindp_def liftp_def kb_uuid_def)
    have c: "kch_document ?c = kis_document src" "chunk_generation ?c = Some (kis_generation src)"
      "case kch_parent ?c of None \<Rightarrow> kch_level ?c = KB_PARENT | Some q \<Rightarrow> kch_level ?c = KB_CHILD \<and> has_parent q (kis_document src) ?db"
      using "2.prems"(2) by (simp_all add: child_row_def chunk_generation_def uuid_written)
    have w: "being_written src ?db" using "2.prems"(1) by (simp add: uuid_written)
    from run show ?thesis
    proof (cases rule: bindp_cases)
      case (raises e)
      then show ?thesis using insert_chunk_written(1) [OF w raises(1) c] by simp
    next
      case (returned u db1)
      show ?thesis
      proof (rule "2.IH" [OF Cons _ _ returned(2)])
        show "being_written src db1" by (rule insert_chunk_written(1) [OF w returned(1) c])
        show "has_parent pid (kis_document src) db1"
          using insert_chunk_written(3) [OF w returned(1) c] "2.prems"(2) by (simp add: uuid_written)
      qed
    qed
  qed
qed simp

lemma insert_parents_written:
  "being_written src db \<Longrightarrow> insert_parents src model ps vs db = (r, db') \<Longrightarrow> being_written src db'"
proof (induction src model ps vs arbitrary: db rule: insert_parents.induct)
  case (2 src model p ps vs)
  let ?c = "parent_row (kn_uuid db (kn_drawn db)) src p" and ?db = "snd (kb_uuid db)" and ?pid = "kn_uuid db (kn_drawn db)"
  have run: "bindp (insert_chunk ?c) (\<lambda>_. bindp (insert_children src model ?pid p (ppr_children p) vs)
      (\<lambda>vs'. insert_parents src model ps vs')) ?db = (r, db')"
    using "2.prems"(2) by (simp add: bindp_def liftp_def kb_uuid_def)
  have c: "kch_document ?c = kis_document src" "chunk_generation ?c = Some (kis_generation src)"
    "case kch_parent ?c of None \<Rightarrow> kch_level ?c = KB_PARENT | Some q \<Rightarrow> kch_level ?c = KB_CHILD \<and> has_parent q (kis_document src) ?db"
    by (simp_all add: parent_row_def chunk_generation_def)
  have w: "being_written src ?db" using "2.prems"(1) by (simp add: uuid_written)
  from run show ?case
  proof (cases rule: bindp_cases)
    case (raises e)
    then show ?thesis using insert_chunk_written(1) [OF w raises(1) c] by simp
  next
    case (returned u db1)
    have w1: "being_written src db1" by (rule insert_chunk_written(1) [OF w returned(1) c])
    have "?c \<in> set (kn_chunks db1)" by (rule insert_chunk_written(2) [OF w returned(1) c refl])
    then have p1: "has_parent ?pid (kis_document src) db1" unfolding has_parent_def by (intro bexI [of _ ?c]) (simp_all add: parent_row_def)
    from returned(2) show ?thesis
    proof (cases rule: bindp_cases)
      case (raises e)
      then show ?thesis using insert_children_written [OF w1 p1 raises(1)] by simp
    next
      case (returned vs' db2)
      then show ?thesis using "2.IH" [OF insert_children_written [OF w1 p1 returned(1)] returned(2)] by simp
    qed
  qed
qed simp

lemma ready_inv:
  assumes "being_written src db"
  shows "knowledge_inv (snd (set_ready src t m db))"
proof -
  let ?f = "\<lambda>d. if kdc_generation d = kis_generation src
     then d\<lparr>kdc_status := KB_READY, kdr_raw_text := Some t, kdr_model := Some m, kdr_error := None, kdr_updated := kn_clock db\<rparr> else d"
  let ?docs = "map (\<lambda>d. if kdc_id d = kis_document src then ?f d else d) (kn_documents db)"
  from assms have inv: "knowledge_inv db" and gen: "\<forall>c \<in> set (kn_chunks db). kch_document c = kis_document src \<longrightarrow> chunk_generation c = Some (kis_generation src)"
    by (simp_all add: being_written_def)
  have keys: "same_keys d (?f d)" for d by (simp add: same_keys_def)
  have docs: "documents_ok ?docs" by (rule documents_put [OF _ keys]) (use inv in \<open>simp add: knowledge_inv_def\<close>)
  have queued: "outbox_ok ?docs (kn_outbox db)"
    by (rule outbox_put [OF _ keys]) (use inv in \<open>simp_all add: knowledge_inv_def split: if_splits\<close>)
  have "chunk_ok ?docs (kn_chunks db) c" if c: "c \<in> set (kn_chunks db)" for c
  proof -
    have ok: "chunk_ok (kn_documents db) (kn_chunks db) c" using inv c by (auto simp: knowledge_inv_def chunks_ok_def)
    then obtain d where d: "d \<in> set (kn_documents db)" "kdc_id d = kch_document c" "kdc_status d = KB_READY \<longrightarrow> chunk_generation c = Some (kdc_generation d)"
      unfolding chunk_ok_def by blast
    let ?d = "if kdc_id d = kis_document src then ?f d else d"
    have "?d \<in> set ?docs" using d(1) by simp
    moreover have "kdc_id ?d = kch_document c" using d(2) by simp
    moreover have "kdc_status ?d = KB_READY \<longrightarrow> chunk_generation c = Some (kdc_generation ?d)"
      using d(2,3) gen c by (cases "kdc_id d = kis_document src"; cases "kdc_generation d = kis_generation src") simp_all
    ultimately show ?thesis using ok unfolding chunk_ok_def by blast
  qed
  then have "chunks_ok ?docs (kn_chunks db)" using inv unfolding knowledge_inv_def chunks_ok_def by blast
  then show ?thesis using docs queued inv unfolding knowledge_inv_def by (simp add: set_ready_def put_document_def)
qed

lemma complete_inv:
  assumes "knowledge_inv db"
  shows "knowledge_inv (snd (complete_ingestion src t ps vs m db))"
proof -
  let ?body = "bindp (drop_chunks (kis_document src)) (\<lambda>_. bindp (insert_parents src m ps vs) (\<lambda>_. bindp (set_ready src t m) (\<lambda>_. retp True)))"
  consider "snd (complete_ingestion src t ps vs m db) = db"
    | d where "d \<in> set (kn_documents db)" "kdc_id d = kis_document src" "kdc_generation d = kis_generation src" "kdc_status d = KB_PROCESSING"
        "complete_ingestion src t ps vs m db = kb_transaction ?body db"
    using find_document_Some by (fastforce simp: complete_ingestion_def split: option.splits if_splits)
  then show ?thesis
  proof cases
    case 1
    then show ?thesis using assms by simp
  next
    case (2 d)
    let ?db = "db\<lparr>kn_chunks := filter (\<lambda>c. kch_document c \<noteq> kis_document src) (kn_chunks db)\<rparr>"
    have "chunks_ok (kn_documents db) (filter (\<lambda>c. kch_document c \<noteq> kis_document src) (kn_chunks db))"
      using assms unfolding knowledge_inv_def chunks_ok_def chunk_ok_def by (fastforce simp: distinct_map_filter split: option.splits)
    then have w: "being_written src ?db" using assms 2(1-4) unfolding being_written_def knowledge_inv_def by auto
    obtain r db1 where ins: "insert_parents src m ps vs ?db = (r, db1)" by fastforce
    have w1: "being_written src db1" by (rule insert_parents_written [OF w ins])
    show ?thesis
    proof (cases r)
      case (Inl x)
      then have "?body db = (Inl x, db1)" by (simp add: bindp_def drop_chunks_def ins)
      then show ?thesis unfolding 2(5) kb_transaction_def using assms by simp
    next
      case (Inr u)
      then have "?body db = (Inr True, snd (set_ready src t m db1))" by (simp add: bindp_def drop_chunks_def ins set_ready_def)
      then show ?thesis unfolding 2(5) kb_transaction_def using ready_inv [OF w1] by simp
    qed
  qed
qed

lemma tasks_inv:
  assumes "knowledge_inv db" and "\<And>t. kob_document (f t) = kob_document t \<and> kob_generation (f t) = kob_generation t"
  shows "knowledge_inv (db\<lparr>kn_outbox := map f (kn_outbox db)\<rparr>)"
proof -
  have "map (\<lambda>t. (kob_document t, kob_generation t)) (map f (kn_outbox db)) = map (\<lambda>t. (kob_document t, kob_generation t)) (kn_outbox db)"
    using assms(2) by simp
  then show ?thesis using assms unfolding knowledge_inv_def outbox_ok_def is_task_def by (simp del: map_map)
qed

lemma annotations_inv:
  "knowledge_inv db \<Longrightarrow> knowledge_inv (snd (create_annotation a v m db))"
  "knowledge_inv db \<Longrightarrow> knowledge_inv (snd (delete_annotation i db))"
  "knowledge_inv db \<Longrightarrow> knowledge_inv (mark_annotation_hit i db)"
  "knowledge_inv db \<Longrightarrow> knowledge_inv (snd (record_annotation_match c h an x y out code db))"
proof -
  assume inv: "knowledge_inv db"
  then have ok: "annotations_ok (kn_annotations db) (kn_audits db)" by (simp add: knowledge_inv_def)
  show "knowledge_inv (snd (create_annotation a v m db))"
  proof (cases "fst (create_annotation a v m db)")
    case (Inl x)
    then show ?thesis using inv by (auto simp: create_annotation_def split: if_splits)
  next
    case (Inr b)
    then have new: "kan_id a \<notin> kan_id ` set (kn_annotations db)" "valid_scope_owner (kan_scope a) (kan_conversation a)"
      and db: "snd (create_annotation a v m db) = db\<lparr>kn_annotations := kn_annotations db @ [row_of_annotation a v m (kn_clock db)]\<rparr>"
      by (auto simp: create_annotation_def split: if_splits)
    have "annotations_ok (kn_annotations db @ [row_of_annotation a v m (kn_clock db)]) (kn_audits db)"
      using ok new unfolding annotations_ok_def by (auto simp: row_of_annotation_def split: option.splits)
    then show ?thesis using inv unfolding db knowledge_inv_def by simp
  qed
  have "annotations_ok (filter (\<lambda>a. kan_id a \<noteq> i) (kn_annotations db))
      (map (\<lambda>r. if kau_annotation r = Some i then r\<lparr>kau_annotation := None\<rparr> else r) (kn_audits db))"
  proof -
    have "map kau_id (map (\<lambda>r. if kau_annotation r = Some i then r\<lparr>kau_annotation := None\<rparr> else r) (kn_audits db)) = map kau_id (kn_audits db)"
      by simp
    moreover have "kan_id ` set (filter (\<lambda>a. kan_id a \<noteq> i) (kn_annotations db)) = kan_id ` set (kn_annotations db) - {i}" by auto
    ultimately show ?thesis using ok unfolding annotations_ok_def
      by (auto simp: distinct_map_filter simp del: map_map split: option.splits)
  qed
  then show "knowledge_inv (snd (delete_annotation i db))" using inv unfolding knowledge_inv_def by (simp add: delete_annotation_def)
  let ?f = "\<lambda>a. if kan_id a = i then a\<lparr>kar_hits := Suc (kar_hits a), kar_last_hit := Some (kn_clock db), kar_updated := kn_clock db\<rparr> else a"
  have ids: "map kan_id (map ?f (kn_annotations db)) = map kan_id (kn_annotations db)" by simp
  have image: "kan_id ` set (map ?f (kn_annotations db)) = kan_id ` set (kn_annotations db)" by (metis ids list.set_map)
  have "valid_scope_owner (kan_scope (?f a)) (kan_conversation (?f a)) = valid_scope_owner (kan_scope a) (kan_conversation a)" for a by simp
  then have "\<forall>a \<in> set (map ?f (kn_annotations db)). valid_scope_owner (kan_scope a) (kan_conversation a)"
    using ok unfolding annotations_ok_def set_map by blast
  then have "annotations_ok (map ?f (kn_annotations db)) (kn_audits db)"
    using ok unfolding annotations_ok_def ids image by blast
  then show "knowledge_inv (mark_annotation_hit i db)" using inv unfolding knowledge_inv_def by (simp add: mark_annotation_hit_def)
  show "knowledge_inv (snd (record_annotation_match c h an x y out code db))"
  proof (cases "fst (record_annotation_match c h an x y out code db)")
    case (Inl e)
    then show ?thesis using inv by (auto simp: record_annotation_match_def kb_uuid_def split: if_splits)
  next
    case (Inr u)
    let ?row = "\<lparr>kau_id = kn_uuid db (kn_drawn db), kau_conversation = c, kau_annotation = an, kau_hash = h, kau_score = x,
      kau_threshold = y, kau_outcome = out, kau_error = code, kau_created = kn_clock db\<rparr>"
    from Inr have new: "kn_uuid db (kn_drawn db) \<notin> kau_id ` set (kn_audits db)"
        "case an of None \<Rightarrow> True | Some a \<Rightarrow> a \<in> kan_id ` set (kn_annotations db)"
      and db: "snd (record_annotation_match c h an x y out code db) = db\<lparr>kn_drawn := Suc (kn_drawn db), kn_audits := kn_audits db @ [?row]\<rparr>"
      by (auto simp: record_annotation_match_def kb_uuid_def split: if_splits option.splits)
    have "annotations_ok (kn_annotations db) (kn_audits db @ [?row])"
      using ok new unfolding annotations_ok_def by auto
    then show ?thesis using inv unfolding db knowledge_inv_def by simp
  qed
qed

lemma knowledge_step_inv: "knowledge_inv db \<Longrightarrow> knowledge_inv (knowledge_step lease e db)"
proof (cases e)
  case (Task_published i g)
  then show "knowledge_inv db \<Longrightarrow> ?thesis" by (simp add: mark_task_published_def tasks_inv)
next
  case (Task_failed i g code)
  then show "knowledge_inv db \<Longrightarrow> ?thesis" by (simp add: mark_task_failed_def tasks_inv)
next
  case (Time_passes n)
  then show "knowledge_inv db \<Longrightarrow> ?thesis" by (simp add: knowledge_inv_def)
qed (simp_all add: create_inv delete_inv requeue_inv claim_inv complete_inv fail_inv annotations_inv)

lemma new_knowledge_inv: "knowledge_inv (new_knowledge_db mdb supply)"
  by (simp add: knowledge_inv_def new_knowledge_db_def documents_ok_def chunks_ok_def outbox_ok_def annotations_ok_def)

lemma knowledge_run_inv: "knowledge_inv db \<Longrightarrow> knowledge_inv (fold (knowledge_step lease) ops db)"
  by (induction ops arbitrary: db) (simp_all add: knowledge_step_inv)

section \<open>Properties\<close>

text \<open>
  the tables of the knowledge base keep their keys over any sequence of operations, in any
  order and with any arguments: documents have distinct ids and contents, every chunk belongs to
  a document and every child to a parent of the same document, the chunks of a ready document
  are those of its current generation, every queued document has its task in the outbox, and an
  audit row refers to no annotation that is gone.
\<close>

theorem knowledge_tables_keep_keys:
  "knowledge_inv (fold (knowledge_step lease) ops (new_knowledge_db mdb supply))"
  by (rule knowledge_run_inv [OF new_knowledge_inv])

lemma search_Inr:
  assumes "knowledge_search cosine q model key include_global allow_conversation top_k threshold db = Inr hits" and "h \<in> set hits"
  obtains c p d x where "c \<in> set (kn_chunks db)" "p \<in> set (kn_chunks db)" "d \<in> set (kn_documents db)"
    "(c, p, d) \<in> set (search_rows model key include_global allow_conversation db)"
    "cosine (the (kch_embedding c)) q = Some x" "threshold \<le> 1 - x" "h = row_hit x (c, p, d)"
proof -
  let ?rows = "search_rows model key include_global allow_conversation db"
  let ?far = "\<lambda>(c, p, d). cosine (the (kch_embedding c)) q"
  from assms(1) have far: "\<forall>r \<in> set ?rows. ?far r \<noteq> None"
    and hits: "hits = map (\<lambda>r. row_hit (the (?far r)) r) (take top_k
      (sort_key (\<lambda>r. the (?far r)) (sort_key (\<lambda>(c, p, d). kch_id c) (filter (\<lambda>r. 1 - the (?far r) \<ge> threshold) ?rows))))"
    unfolding knowledge_search_def Let_def by (simp_all split: if_splits)
  from assms(2) obtain r where r: "r \<in> set (take top_k
      (sort_key (\<lambda>r. the (?far r)) (sort_key (\<lambda>(c, p, d). kch_id c) (filter (\<lambda>r. 1 - the (?far r) \<ge> threshold) ?rows))))"
      and h: "h = row_hit (the (?far r)) r"
    unfolding hits set_map by blast
  from in_set_takeD [OF r] have "r \<in> set ?rows" "threshold \<le> 1 - the (?far r)" by simp_all
  moreover obtain c p d where cpd: "r = (c, p, d)" by (cases r)
  ultimately obtain x where "cosine (the (kch_embedding c)) q = Some x" using far by fastforce
  moreover have "c \<in> set (kn_chunks db)" "p \<in> set (kn_chunks db)" "d \<in> set (kn_documents db)"
    using \<open>r \<in> set ?rows\<close> unfolding cpd by (auto simp: search_rows_def)
  ultimately show thesis
    using that [of c p d x] h \<open>r \<in> set ?rows\<close> \<open>threshold \<le> 1 - the (?far r)\<close> unfolding cpd by simp
qed

text \<open>
  a search shows only what it may: every hit is a child of a ready document that is global
  (when asked for) or belongs to the conversation of the stable key (when allowed), with the
  parent it was cut from, both of the current generation of the document, and its score reaches
  the threshold; and there are at most as many hits as asked for.
\<close>

theorem knowledge_search_scoped:
  assumes "knowledge_inv db"
    and "knowledge_search cosine q model key include_global allow_conversation top_k threshold db = Inr hits"
    and "threshold \<le> 1"
  shows "length hits \<le> top_k \<and> (\<forall>h \<in> set hits. threshold \<le> khh_score h \<and>
    (\<exists>d \<in> set (kn_documents db). \<exists>c \<in> set (kn_chunks db). \<exists>p \<in> set (kn_chunks db).
       khh_document h = kdc_id d \<and> kdc_status d = KB_READY \<and> in_knowledge_scope db key include_global allow_conversation d \<and>
       khh_child h = kch_id c \<and> khh_parent h = kch_id p \<and> kch_document c = kdc_id d \<and> kch_document p = kdc_id d \<and>
       kch_parent c = Some (kch_id p) \<and> kch_level p = KB_PARENT \<and>
       chunk_generation c = Some (kdc_generation d) \<and> chunk_generation p = Some (kdc_generation d)))"
proof (intro conjI ballI)
  show "length hits \<le> top_k"
    using assms(2) unfolding knowledge_search_def Let_def by (auto split: if_splits)
  fix h assume "h \<in> set hits"
  from search_Inr [OF assms(2) this] obtain c p d x where
    rows: "c \<in> set (kn_chunks db)" "p \<in> set (kn_chunks db)" "d \<in> set (kn_documents db)"
    and found: "(c, p, d) \<in> set (search_rows model key include_global allow_conversation db)"
    and x: "threshold \<le> 1 - x" and h: "h = row_hit x (c, p, d)" by metis
  from found have f: "kch_level c = KB_CHILD" "kch_parent c = Some (kch_id p)" "kdc_id d = kch_document c" "kdc_status d = KB_READY"
    "in_knowledge_scope db key include_global allow_conversation d"
    by (auto simp: search_rows_def)
  show "threshold \<le> khh_score h" using x assms(3) by (simp add: h row_hit_def)
  have docs: "documents_ok (kn_documents db)" and chunks: "chunks_ok (kn_documents db) (kn_chunks db)"
    using assms(1) by (simp_all add: knowledge_inv_def)
  have doc: "e = d" if "e \<in> set (kn_documents db)" "kdc_id e = kdc_id d" for e
    using that rows(3) docs by (auto simp: documents_ok_def distinct_map dest: inj_onD)
  have gen: "chunk_generation y = Some (kdc_generation d)" if "y \<in> set (kn_chunks db)" "kch_document y = kdc_id d" for y
  proof -
    have "chunk_ok (kn_documents db) (kn_chunks db) y" using chunks that(1) by (simp add: chunks_ok_def)
    then obtain e where "e \<in> set (kn_documents db)" "kdc_id e = kch_document y" "kdc_status e = KB_READY \<longrightarrow> chunk_generation y = Some (kdc_generation e)"
      unfolding chunk_ok_def by blast
    then show ?thesis using doc [of e] that(2) f(4) by simp
  qed
  have "chunk_ok (kn_documents db) (kn_chunks db) c" using chunks rows(1) by (simp add: chunks_ok_def)
  then obtain q where q: "q \<in> set (kn_chunks db)" "kch_id q = kch_id p" "kch_document q = kch_document c" "kch_level q = KB_PARENT"
    using f(2) by (auto simp: chunk_ok_def)
  then have "q = p" using rows(2) chunks by (auto simp: chunks_ok_def distinct_map dest: inj_onD)
  then show "\<exists>d \<in> set (kn_documents db). \<exists>c \<in> set (kn_chunks db). \<exists>p \<in> set (kn_chunks db).
       khh_document h = kdc_id d \<and> kdc_status d = KB_READY \<and> in_knowledge_scope db key include_global allow_conversation d \<and>
       khh_child h = kch_id c \<and> khh_parent h = kch_id p \<and> kch_document c = kdc_id d \<and> kch_document p = kdc_id d \<and>
       kch_parent c = Some (kch_id p) \<and> kch_level p = KB_PARENT \<and>
       chunk_generation c = Some (kdc_generation d) \<and> chunk_generation p = Some (kdc_generation d)"
    using rows f q gen by (intro bexI [of _ d] bexI [of _ c] bexI [of _ p]) (simp_all add: h row_hit_def)
qed

text \<open>A document that is being worked on since \<open>t\<close>, or done.\<close>

definition claimed_since :: "ustr \<Rightarrow> int \<Rightarrow> int \<Rightarrow> knowledge_db \<Rightarrow> bool" where
  "claimed_since i g t db \<longleftrightarrow> (\<forall>d \<in> set (kn_documents db). kdc_id d = i \<longrightarrow> kdc_generation d = g \<and>
     (kdc_status d = KB_PROCESSING \<and> kdr_updated d = t \<or> kdc_status d = KB_READY)) \<and> i \<in> kdc_id ` set (kn_documents db)"

text \<open>The operations that take the document from whoever holds it.\<close>

fun ends_claim :: "ustr \<Rightarrow> knowledge_op \<Rightarrow> bool" where
  "ends_claim i (Fail_ingestion j g code) \<longleftrightarrow> j = i"
| "ends_claim i (Requeue_document j) \<longleftrightarrow> j = i"
| "ends_claim i (Delete_document j) \<longleftrightarrow> j = i"
| "ends_claim i _ \<longleftrightarrow> False"

lemma uuid_documents: "kn_documents (snd (kb_uuid db)) = kn_documents db" "kn_clock (snd (kb_uuid db)) = kn_clock db"
  by (simp_all add: kb_uuid_def)

definition same_documents :: "knowledge_db \<Rightarrow> knowledge_db \<Rightarrow> bool" where
  "same_documents = same_view (\<lambda>db. (kn_documents db, kn_clock db))"

lemma chunk_same: "moves same_documents (insert_chunk c)"
  by (auto simp: moves_def same_documents_def same_view_def insert_chunk_def)

lemma uuid_same: "moves same_documents (liftp kb_uuid)"
  by (rule moves_liftp) (simp add: same_documents_def same_view_def uuid_documents)

lemma same_documents_rel [simp]: "reflp same_documents" "transp same_documents"
  by (simp_all add: same_documents_def)

lemma children_same: "moves same_documents (insert_children src model pid p cs vs)"
  by (induction src model pid p cs vs rule: insert_children.induct)
    (auto intro!: moves_retp moves_raisep moves_bindp uuid_same chunk_same simp del: retp_apply raisep_apply split: list.split)

lemma parents_same: "moves same_documents (insert_parents src model ps vs)"
  by (induction src model ps vs rule: insert_parents.induct)
    (auto intro!: moves_retp moves_bindp uuid_same chunk_same children_same simp del: retp_apply)

lemma complete_documents:
  obtains (same) "kn_documents (snd (complete_ingestion src t ps vs m db)) = kn_documents db"
      "kn_clock (snd (complete_ingestion src t ps vs m db)) = kn_clock db"
  | (ready) f where "kn_documents (snd (complete_ingestion src t ps vs m db)) = map (\<lambda>d. if kdc_id d = kis_document src then f d else d) (kn_documents db)"
      "\<And>d. kdc_id (f d) = kdc_id d \<and> kdc_generation (f d) = kdc_generation d \<and> (f d = d \<or> kdc_status (f d) = KB_READY)"
      "kn_clock (snd (complete_ingestion src t ps vs m db)) = kn_clock db"
proof -
  let ?db = "db\<lparr>kn_chunks := filter (\<lambda>c. kch_document c \<noteq> kis_document src) (kn_chunks db)\<rparr>"
  let ?body = "bindp (drop_chunks (kis_document src)) (\<lambda>_. bindp (insert_parents src m ps vs) (\<lambda>_. bindp (set_ready src t m) (\<lambda>_. retp True)))"
  obtain r db1 where ins: "insert_parents src m ps vs ?db = (r, db1)" by fastforce
  have same1: "kn_documents db1 = kn_documents db" "kn_clock db1 = kn_clock db"
    using movesD [OF parents_same ins] by (simp_all add: same_documents_def same_view_def)
  consider "snd (complete_ingestion src t ps vs m db) = db" | "complete_ingestion src t ps vs m db = kb_transaction ?body db"
    by (fastforce simp: complete_ingestion_def split: option.splits if_splits)
  then show thesis
  proof cases
    case 1
    then show thesis by (intro same) simp_all
  next
    case 2
    show thesis
    proof (cases r)
      case (Inl x)
      then have "?body db = (Inl x, db1)" by (simp add: bindp_def drop_chunks_def ins)
      then show thesis by (intro same) (simp_all add: 2 kb_transaction_def)
    next
      case (Inr u)
      then have "?body db = (Inr True, snd (set_ready src t m db1))" by (simp add: bindp_def drop_chunks_def ins set_ready_def)
      then have "snd (complete_ingestion src t ps vs m db) = snd (set_ready src t m db1)" by (simp add: 2 kb_transaction_def)
      then show thesis
        by (intro ready [of "\<lambda>d. if kdc_generation d = kis_generation src then d\<lparr>kdc_status := KB_READY, kdr_raw_text := Some t,
            kdr_model := Some m, kdr_error := None, kdr_updated := kn_clock db1\<rparr> else d"])
          (simp_all add: set_ready_def put_document_def same1)
    qed
  qed
qed

lemma claimed_mapI:
  assumes docs: "kn_documents db' = map f docs" and ids: "\<And>d. kdc_id (f d) = kdc_id d" and "i \<in> kdc_id ` set docs"
    and good: "\<And>d. d \<in> set docs \<Longrightarrow> kdc_id d = i \<Longrightarrow> kdc_generation (f d) = g \<and>
      (kdc_status (f d) = KB_PROCESSING \<and> kdr_updated (f d) = t \<or> kdc_status (f d) = KB_READY)"
  shows "claimed_since i g t db'"
  unfolding claimed_since_def
proof (intro conjI ballI impI)
  fix d' assume "d' \<in> set (kn_documents db')" and i: "kdc_id d' = i"
  then obtain d where d: "d \<in> set docs" "d' = f d" unfolding docs set_map by blast
  from good [OF d(1)] i show "kdc_generation d' = g" "kdc_status d' = KB_PROCESSING \<and> kdr_updated d' = t \<or> kdc_status d' = KB_READY"
    unfolding d(2) ids by blast+
next
  have "kdc_id ` set (map f docs) = kdc_id ` set docs" unfolding set_map image_image ids ..
  then show "i \<in> kdc_id ` set (kn_documents db')" unfolding docs using assms(3) by blast
qed

lemma claimed_put:
  assumes "claimed_since i g t db" and "kn_documents db' = map (\<lambda>d. if kdc_id d = j then f d else d) (kn_documents db)"
    and "\<And>d. kdc_id (f d) = kdc_id d"
    and "\<And>d. d \<in> set (kn_documents db) \<Longrightarrow> kdc_id d = i \<Longrightarrow> j = i \<Longrightarrow> f d = d \<or> kdc_generation (f d) = kdc_generation d \<and> kdc_status (f d) = KB_READY"
  shows "claimed_since i g t db'"
proof (rule claimed_mapI [OF assms(2)])
  show "kdc_id (if kdc_id d = j then f d else d) = kdc_id d" for d using assms(3) by simp
  show "i \<in> kdc_id ` set (kn_documents db)" using assms(1) by (simp add: claimed_since_def)
  fix d assume d: "d \<in> set (kn_documents db)" "kdc_id d = i"
  then have "kdc_generation d = g \<and> (kdc_status d = KB_PROCESSING \<and> kdr_updated d = t \<or> kdc_status d = KB_READY)"
    using assms(1) unfolding claimed_since_def by blast
  then show "kdc_generation (if kdc_id d = j then f d else d) = g \<and>
      (kdc_status (if kdc_id d = j then f d else d) = KB_PROCESSING \<and> kdr_updated (if kdc_id d = j then f d else d) = t \<or>
       kdc_status (if kdc_id d = j then f d else d) = KB_READY)"
    using assms(4) [OF d] d(2) by (cases "j = i") auto
qed

lemma claimed_same: "claimed_since i g t db \<Longrightarrow> kn_documents db' = kn_documents db \<Longrightarrow> claimed_since i g t db'"
  by (simp add: claimed_since_def)

lemma claimed_not_claimable:
  assumes "claimed_since i g t db" and "kn_clock db \<le> t + lease * 1000000"
  shows "kic_status (fst (claim_ingestion lease i h db)) \<noteq> CLAIM_ACQUIRED \<and> snd (claim_ingestion lease i h db) = db"
proof (cases "find_document i db")
  case None
  then show ?thesis by (simp add: claim_ingestion_def)
next
  case (Some d)
  then have "kdc_status d = KB_PROCESSING \<and> kdr_updated d = t \<or> kdc_status d = KB_READY"
    using assms(1) find_document_Some [OF Some] by (auto simp: claimed_since_def)
  then have "\<not> claimable lease (kn_clock db) d" using assms(2) by (auto simp: claimable_def)
  then show ?thesis using Some by (simp add: claim_ingestion_def)
qed

lemma step_clock: "kn_clock db \<le> kn_clock (knowledge_step lease e db)"
proof (cases e)
  case (Complete_ingestion src t ps vs m)
  show ?thesis unfolding Complete_ingestion knowledge_step.simps
    by (rule complete_documents [of src t ps vs m db]) simp_all
qed (auto simp: create_document_def mark_task_published_def mark_task_failed_def delete_document_def requeue_document_def
    claim_ingestion_def fail_ingestion_def create_annotation_def delete_annotation_def mark_annotation_hit_def
    record_annotation_match_def kb_uuid_def put_document_def upsert_task_def Let_def split: option.split prod.split)

lemma run_clock: "kn_clock db \<le> kn_clock (fold (knowledge_step lease) ops db)"
proof (induction ops arbitrary: db)
  case (Cons e ops)
  show ?case using Cons.IH [of "knowledge_step lease e db"] step_clock [of db lease e] by simp
qed simp

lemma claimed_step:
  assumes "claimed_since i g t db" and "\<not> ends_claim i e" and "kn_clock db \<le> t + lease * 1000000"
  shows "claimed_since i g t (knowledge_step lease e db)"
proof (cases e)
  case (Create_document d content)
  then show ?thesis using assms(1)
    by (auto simp: create_document_def claimed_since_def row_of_document_def split: option.split)
next
  case (Delete_document j)
  then show ?thesis using assms(1,2) by (auto simp: delete_document_def claimed_since_def)
next
  case (Requeue_document j)
  show ?thesis
  proof (cases "find_document j db")
    case None
    then show ?thesis using Requeue_document assms(1) by (simp add: requeue_document_def)
  next
    case (Some d)
    show ?thesis
      by (rule claimed_put [OF assms(1), where j = j and f = "\<lambda>q. if kdc_id q = j then d\<lparr>kdc_generation := kdc_generation d + 1,
          kdc_status := KB_QUEUED, kdr_error := None, kdr_updated := kn_clock db\<rparr> else q"])
        (use Requeue_document Some assms(2) find_document_Some [OF Some] in \<open>auto simp: requeue_document_def put_document_def Let_def intro!: map_cong\<close>)
  qed
next
  case (Claim_ingestion j h)
  show ?thesis
  proof (cases "j = i")
    case True
    then show ?thesis using claimed_not_claimable [OF assms(1,3), of h] assms(1) Claim_ingestion by simp
  next
    case False
    show ?thesis
    proof (cases "kn_documents (snd (claim_ingestion lease j h db)) = kn_documents db")
      case True
      then show ?thesis using Claim_ingestion claimed_same [OF assms(1)] by simp
    next
      case changed: False
      show ?thesis
        by (rule claimed_put [OF assms(1), where j = j and f = "\<lambda>d. d\<lparr>kdc_status := KB_PROCESSING, kdr_error := None, kdr_updated := kn_clock db\<rparr>"])
          (use Claim_ingestion changed False in \<open>auto simp: claim_ingestion_def put_document_def split: option.splits if_splits\<close>)
    qed
  qed
next
  case (Complete_ingestion src raw ps vs m)
  show ?thesis
  proof (cases rule: complete_documents [of src raw ps vs m db])
    case same
    then show ?thesis using Complete_ingestion claimed_same [OF assms(1)] by simp
  next
    case (ready f)
    have ids: "kdc_id (f d) = kdc_id d" and out: "f d = d \<or> kdc_generation (f d) = kdc_generation d \<and> kdc_status (f d) = KB_READY" for d
      using ready(2) [of d] by blast+
    show ?thesis unfolding Complete_ingestion knowledge_step.simps
      by (rule claimed_put [OF assms(1) ready(1) ids out])
  qed
next
  case (Fail_ingestion j h code)
  then have "j \<noteq> i" using assms(2) by simp
  show ?thesis
    by (rule claimed_put [OF assms(1), where j = j and f = "\<lambda>d. if kdc_generation d = h
        then d\<lparr>kdc_status := KB_FAILED, kdr_error := Some (take 200 code), kdr_updated := kn_clock db\<rparr> else d"])
      (use Fail_ingestion \<open>j \<noteq> i\<close> in \<open>simp_all add: fail_ingestion_def put_document_def\<close>)
qed (use assms(1) in \<open>auto simp: claimed_since_def mark_task_published_def mark_task_failed_def create_annotation_def
    delete_annotation_def mark_annotation_hit_def record_annotation_match_def kb_uuid_def Let_def\<close>)

lemma claimed_run:
  "claimed_since i g t db \<Longrightarrow> \<forall>e \<in> set ops. \<not> ends_claim i e \<Longrightarrow> kn_clock (fold (knowledge_step lease) ops db) \<le> t + lease * 1000000 \<Longrightarrow>
     claimed_since i g t (fold (knowledge_step lease) ops db)"
proof (induction ops arbitrary: db)
  case (Cons e ops)
  have "kn_clock db \<le> t + lease * 1000000" using Cons.prems(3) run_clock [of db lease "e # ops"] by simp
  then have "claimed_since i g t (knowledge_step lease e db)" using claimed_step Cons.prems(1,2) by simp
  then show ?case using Cons.IH Cons.prems(2,3) by simp
qed simp

lemma claim_claims:
  assumes "claim_ingestion lease i g db = (claim, db1)" and "kic_status claim = CLAIM_ACQUIRED" and "knowledge_inv db"
  shows "claimed_since i g (kn_clock db) db1" "kn_clock db1 = kn_clock db"
proof -
  from assms(1,2) obtain d where d: "find_document i db = Some d" "kdc_generation d = g"
      and db1: "db1 = put_document i (\<lambda>d. d\<lparr>kdc_status := KB_PROCESSING, kdr_error := None, kdr_updated := kn_clock db\<rparr>) db"
    by (auto simp: claim_ingestion_def split: option.splits if_splits)
  note f = find_document_Some [OF d(1)]
  have uniq: "q = d" if "q \<in> set (kn_documents db)" "kdc_id q = i" for q
    using that f assms(3) unfolding knowledge_inv_def documents_ok_def by (auto simp: distinct_map dest: inj_onD)
  show "claimed_since i g (kn_clock db) db1"
  proof (rule claimed_mapI)
    show "kn_documents db1 = map (\<lambda>d. if kdc_id d = i then d\<lparr>kdc_status := KB_PROCESSING, kdr_error := None, kdr_updated := kn_clock db\<rparr> else d)
        (kn_documents db)" by (simp add: db1 put_document_def)
    show "i \<in> kdc_id ` set (kn_documents db)" using f by blast
  qed (use uniq d(2) in auto)
  show "kn_clock db1 = kn_clock db" by (simp add: db1 put_document_def)
qed

text \<open>
  a claimed document belongs to one worker: after a claim that acquired a document, and as
  long as its ingestion is not reported as failed, it is neither queued anew nor deleted, and the
  lease has not run out, no other claim acquires it, whatever else happens in between.
\<close>

theorem ingestion_claim_exclusive:
  assumes "knowledge_inv db"
    and "claim_ingestion lease i g db = (claim, db1)" and "kic_status claim = CLAIM_ACQUIRED"
    and "\<forall>e \<in> set ops. \<not> ends_claim i e"
    and "db2 = fold (knowledge_step lease) ops db1" and "kn_clock db2 \<le> kn_clock db + lease * 1000000"
  shows "kic_status (fst (claim_ingestion lease i h db2)) \<noteq> CLAIM_ACQUIRED"
  using claimed_not_claimable [OF claimed_run [OF claim_claims(1) [OF assms(2,3,1)] assms(4)]] assms(5,6) by simp

text \<open>A report of a failure does not look at the status: one that comes late, from a worker whose
  lease had run out, takes a document that another worker made ready out of the search.\<close>

lemma late_failure_undoes_ready:
  assumes "d \<in> set (kn_documents db)" and "kdc_id d = i" and "kdc_generation d = g" and "kdc_status d = KB_READY"
  shows "\<exists>d' \<in> set (kn_documents (fail_ingestion i g code db)). kdc_id d' = i \<and> kdc_generation d' = g \<and> kdc_status d' = KB_FAILED"
proof -
  let ?d = "d\<lparr>kdc_status := KB_FAILED, kdr_error := Some (take 200 code), kdr_updated := kn_clock db\<rparr>"
  have "?d \<in> set (kn_documents (fail_ingestion i g code db))"
    unfolding fail_ingestion_def put_document_def using assms(2,3) by (auto intro!: image_eqI [of _ _ d] assms(1))
  then show ?thesis using assms by (intro bexI [of _ ?d]) simp_all
qed

section \<open>Witnesses\<close>

definition demo_document :: knowledge_document where
  "demo_document = \<lparr>kdc_id = [7], kdc_title = [116], kdc_type = KB_TEXT, kdc_scope = KB_GLOBAL, kdc_conversation = None,
     kdc_filename = [102], kdc_hash = [104], kdc_generation = 1, kdc_status = KB_QUEUED\<rparr>"

definition demo_source :: ingest_source where
  "demo_source = \<lparr>kis_document = [7], kis_generation = 1, kis_type = KB_TEXT, kis_content = [104, 105]\<rparr>"

definition demo_parent :: prepared_parent where
  "demo_parent = \<lparr>ppr_index = 0, ppr_content = [104, 105], ppr_tokens = 1,
     ppr_children = [\<lparr>pch_index = 0, pch_content = [104, 105], pch_tokens = 1\<rparr>]\<rparr>"

definition demo_created :: knowledge_db where
  "demo_created = knowledge_step 300 (Create_document demo_document [104, 105]) (new_knowledge_db (new_message_db (\<lambda>n. [n])) (\<lambda>n. [n]))"

definition demo_ready :: knowledge_db where
  "demo_ready = fold (knowledge_step 300) [Claim_ingestion [7] 1, Complete_ingestion demo_source [104, 105] [demo_parent] [[1]] [109]] demo_created"

lemma demo_created_inv: "knowledge_inv demo_created"
  unfolding demo_created_def by (rule knowledge_step_inv [OF new_knowledge_inv])

lemma demo_ready_inv: "knowledge_inv demo_ready"
  unfolding demo_ready_def by (rule knowledge_run_inv [OF demo_created_inv])

lemmas demo_kb_defs = demo_ready_def demo_created_def demo_document_def demo_source_def demo_parent_def new_knowledge_db_def
  create_document_def row_of_document_def known_conversation_def upsert_task_def new_task_def claim_ingestion_def find_document_def
  claimable_def put_document_def complete_ingestion_def kb_transaction_def drop_chunks_def bindp_def liftp_def kb_uuid_def insert_chunk_def
  parent_row_def child_row_def set_ready_def

lemma demo_search_hits: "\<exists>h. knowledge_search (\<lambda>u v. Some 0) [1] [109] None True False 5 (1 / 2) demo_ready = Inr [h] \<and> khh_document h = [7]"
  by (simp add: demo_kb_defs knowledge_search_def search_rows_def in_knowledge_scope_def row_hit_def valid_hit_def strip_def lstrip_def
    rstrip_def py_space_def Let_def)

theorem knowledge_search_scoped_witness:
  "\<exists>h. knowledge_search (\<lambda>u v. Some 0) [1] [109] None True False 5 (1 / 2) demo_ready = Inr [h] \<and> 1 / 2 \<le> khh_score h"
proof -
  obtain h where h: "knowledge_search (\<lambda>u v. Some 0) [1] [109] None True False 5 (1 / 2) demo_ready = Inr [h]"
    using demo_search_hits by blast
  from knowledge_search_scoped [OF demo_ready_inv h] h show ?thesis by simp
qed

lemma demo_claim: "\<exists>claim db1. claim_ingestion 300 [7] 1 demo_created = (claim, db1) \<and> kic_status claim = CLAIM_ACQUIRED"
  by (simp add: demo_kb_defs)

theorem ingestion_claim_exclusive_witness:
  "\<exists>claim db1. claim_ingestion 300 [7] 1 demo_created = (claim, db1) \<and> kic_status claim = CLAIM_ACQUIRED \<and>
     kic_status (fst (claim_ingestion 300 [7] 1 (knowledge_step 300 (Time_passes 1000000) db1))) \<noteq> CLAIM_ACQUIRED"
proof -
  obtain claim db1 where c: "claim_ingestion 300 [7] 1 demo_created = (claim, db1)" "kic_status claim = CLAIM_ACQUIRED"
    using demo_claim by blast
  have "kn_clock db1 = kn_clock demo_created" by (rule claim_claims(2) [OF c demo_created_inv])
  then have "kn_clock (fold (knowledge_step 300) [Time_passes 1000000] db1) \<le> kn_clock demo_created + 300 * 1000000" by simp
  from ingestion_claim_exclusive [OF demo_created_inv c _ refl this, of 1] c show ?thesis by simp
qed

end
