(* ===== verification/KnowledgeServices.thy ===== *)
theory KnowledgeServices
  imports KnowledgeBase AgentWorker StreamConsumer
begin

text \<open>
  What works on the knowledge tables: the second half of \<open>engine/knowledge.py\<close> (ingestion, search,
  matching of annotations), the tool of \<open>tools/knowledge.py\<close> and the worker of
  \<open>services/knowledge.py\<close> (the dispatcher of the outbox and the handler of ingestion tasks). The
  embedding client is a port: while it is awaited the tables may change. The locales say what each
  service needs of the store, and are interpreted on the tables. The main results: an ingestion
  that reports success has stored the document whole, one that fails has said so in the document;
  no queued document is lost between the tables and the stream; an annotation answers only when it
  is a clear winner, and each question leaves one audit row; the search tool shows a sandbox only
  global documents.
\<close>

section \<open>The text of a document\<close>

text \<open>\<open>bytes.decode("utf-8", errors="replace")\<close>: a maximal prefix of a character that is cut short
  becomes one replacement character.\<close>

definition cont_byte :: "nat \<Rightarrow> bool" where
  "cont_byte b \<longleftrightarrow> 128 \<le> b \<and> b < 192"

definition utf8_width :: "nat \<Rightarrow> nat" where
  "utf8_width b = (if b < 128 then 1 else if 194 \<le> b \<and> b < 224 then 2 else if 224 \<le> b \<and> b < 240 then 3
     else if 240 \<le> b \<and> b < 245 then 4 else 0)"

definition second_byte :: "nat \<Rightarrow> nat \<Rightarrow> bool" where
  "second_byte lead b \<longleftrightarrow> cont_byte b \<and> (lead = 224 \<longrightarrow> 160 \<le> b) \<and> (lead = 237 \<longrightarrow> b < 160) \<and>
     (lead = 240 \<longrightarrow> 144 \<le> b) \<and> (lead = 244 \<longrightarrow> b < 144)"

fun utf8_rest :: "nat \<Rightarrow> nat list \<Rightarrow> nat list" where
  "utf8_rest lead [] = []"
| "utf8_rest lead (c # cs) =
     (if 1 < utf8_width lead \<and> second_byte lead c then c # takeWhile cont_byte (take (utf8_width lead - 2) cs) else [])"

function utf8_replace :: "nat list \<Rightarrow> ustr" where
  "utf8_replace [] = []"
| "utf8_replace (b # bs) =
     (if utf8_width b = Suc (length (utf8_rest b bs)) then undo_utf8 (b # utf8_rest b bs) else 65533) #
       utf8_replace (drop (length (utf8_rest b bs)) bs)"
  by pat_completeness auto
termination by (relation "measure length") auto

definition byte_order_mark :: "nat list" where
  "byte_order_mark = [239, 187, 191]"

definition extract_text :: "(nat list \<Rightarrow> exn + ustr option list) \<Rightarrow> knowledge_source_type \<Rightarrow> nat list \<Rightarrow> exn + ustr" where
  "extract_text pdf source_type content = (case source_type of
       KB_PDF \<Rightarrow> bindr (pdf content) (\<lambda>pages. Inr (strip (py_join [10, 10] (map (\<lambda>p. strip (case p of None \<Rightarrow> [] | Some t \<Rightarrow> t)) pages))))
     | _ \<Rightarrow> Inr (strip (utf8_replace (if starts_with byte_order_mark content then drop 3 content else content))))"

section \<open>Ingestion\<close>

type_synonym ('s) embedder = "ustr list \<Rightarrow> ('s, real list list \<times> ustr) prog"

record 's ingestor =
  kp_claim :: "ustr \<Rightarrow> int \<Rightarrow> ('s, ingest_claim) prog"
  kp_complete :: "ingest_source \<Rightarrow> ustr \<Rightarrow> prepared_parent list \<Rightarrow> real list list \<Rightarrow> ustr \<Rightarrow> ('s, bool) prog"
  kp_fail :: "ustr \<Rightarrow> int \<Rightarrow> ustr \<Rightarrow> ('s, unit) prog"
  kp_embed :: "'s embedder"
  kp_pdf :: "nat list \<Rightarrow> exn + ustr option list"
  kp_parent_chars :: int
  kp_child_chars :: int
  kp_child_overlap :: int

definition child_texts :: "prepared_parent list \<Rightarrow> ustr list" where
  "child_texts ps = concat (map (\<lambda>p. map pch_content (ppr_children p)) ps)"

definition ingest_source_text :: "('s, 'z) ingestor_scheme \<Rightarrow> ingest_source \<Rightarrow> exn + ustr \<times> prepared_parent list" where
  "ingest_source_text P src = bindr (extract_text (kp_pdf P) (kis_type src) (kis_content src)) (\<lambda>t.
     bindr (hierarchical_chunks t (kp_parent_chars P) (kp_child_chars P) (kp_child_overlap P)) (\<lambda>ps.
       if ps = [] then Inl (Raised (lit ''ValueError'')) else Inr (t, ps)))"

definition ingest_claimed :: "('s, 'z) ingestor_scheme \<Rightarrow> ingest_source \<Rightarrow> ('s, claim_status) prog" where
  "ingest_claimed P src = bindp (of_result (ingest_source_text P src)) (\<lambda>(t, ps).
     bindp (kp_embed P (child_texts ps)) (\<lambda>(vectors, model).
       if length vectors \<noteq> length (child_texts ps) then raisep (Raised (lit ''ValueError''))
       else bindp (kp_complete P src t ps vectors model) (\<lambda>completed.
         retp (if completed then CLAIM_ACQUIRED else CLAIM_TERMINAL))))"

definition ingest :: "('s, 'z) ingestor_scheme \<Rightarrow> ustr \<Rightarrow> int \<Rightarrow> ('s, claim_status) prog" where
  "ingest P i g = bindp (kp_claim P i g) (\<lambda>claim.
     if kic_status claim \<noteq> CLAIM_ACQUIRED then retp (kic_status claim)
     else (case kic_source claim of None \<Rightarrow> raisep (Raised (lit ''AssertionError''))
       | Some src \<Rightarrow> catchp (ingest_claimed P src) (\<lambda>n. bindp (kp_fail P i g n) (\<lambda>_. raisep (Raised n)))))"

section \<open>Search\<close>

record 's knowledge_finder =
  ks_embed :: "'s embedder"
  ks_search :: "real list \<Rightarrow> ustr \<Rightarrow> ustr option \<Rightarrow> bool \<Rightarrow> bool \<Rightarrow> nat \<Rightarrow> real \<Rightarrow> ('s, search_hit list) prog"
  ks_sandbox :: ustr

definition find_knowledge ::
  "('s, 'z) knowledge_finder_scheme \<Rightarrow> ustr \<Rightarrow> ustr option \<Rightarrow> bool \<Rightarrow> bool \<Rightarrow> int \<Rightarrow> real \<Rightarrow> ('s, search_hit list) prog" where
  "find_knowledge P query key allow_conversation include_global top_k threshold =
     bindp (ks_embed P [query]) (\<lambda>(vectors, model). case vectors of
         [] \<Rightarrow> retp []
       | v # _ \<Rightarrow> ks_search P v model key include_global allow_conversation (nat (max 1 (min top_k 20))) (max 0 (min threshold 1)))"

definition kb_search_spec :: tool_spec where
  "kb_search_spec = \<lparr>ts_id = lit ''kb_search'',
     ts_description = lit ''Search operator-provided documents. Matching uses child chunks and '' @ lit ''returns their parent context plus citation sources.'',
     ts_input_schema = [(lit ''type'', FStr (lit ''object'')),
       (lit ''properties'', FObj [
         (lit ''query'', FObj [(lit ''type'', FStr (lit ''string'')), (lit ''minLength'', FInt 1)]),
         (lit ''top_k'', FObj [(lit ''type'', FStr (lit ''integer'')), (lit ''minimum'', FInt 1), (lit ''maximum'', FInt 10)]),
         (lit ''threshold'', FObj [(lit ''type'', FStr (lit ''number'')), (lit ''minimum'', FInt 0), (lit ''maximum'', FInt 1)])]),
       (lit ''required'', FTuple [FStr (lit ''query'')]), (lit ''additionalProperties'', FBool False)],
     ts_read_only = True, ts_idempotent = True, ts_risk = LOW, ts_capabilities = [lit ''knowledge.read''], ts_approval_required = False\<rparr>"

definition hit_uri :: "search_hit \<Rightarrow> ustr" where
  "hit_uri h = lit ''kb://'' @ khh_document h @ lit ''/'' @ khh_parent h"

definition hit_json :: "search_hit \<Rightarrow> json" where
  "hit_json h = JObj [(lit ''document_id'', JStr (khh_document h)), (lit ''document_title'', JStr (khh_title h)),
     (lit ''child_id'', JStr (khh_child h)), (lit ''parent_id'', JStr (khh_parent h)), (lit ''matched_chunk'', JStr (khh_child_content h)),
     (lit ''context'', JStr (khh_parent_content h)), (lit ''score'', JFloat (khh_score h)),
     (lit ''scope'', JStr (knowledge_scope_value (khh_scope h))), (lit ''uri'', JStr (hit_uri h))]"

definition kb_answer :: "ustr \<Rightarrow> search_hit list \<Rightarrow> tool_result" where
  "kb_answer query found = tool_success [(lit ''query'', JStr query), (lit ''results'', JArr (map hit_json found)),
     (lit ''sources'', JArr (map (\<lambda>h. JObj [(lit ''label'', JStr (khh_title h)), (lit ''uri'', JStr (hit_uri h))]) found))]"

text \<open>\<open>float\<close> of an integer argument overflows where it fuel to \<open>2 ^ 1024\<close>.\<close>

fun number_argument :: "json \<Rightarrow> (exn + real) option" where
  "number_argument (JInt n) = Some (if \<bar>n\<bar> \<ge> 2 ^ 1024 - 2 ^ 970 then Inl (Raised (lit ''OverflowError'')) else Inr (of_int n))"
| "number_argument (JFloat x) = Some (Inr x)"
| "number_argument _ = None"

definition kb_search_run :: "('s, 'z) knowledge_finder_scheme \<Rightarrow> tool_context \<Rightarrow> arguments \<Rightarrow> ('s, tool_result) prog" where
  "kb_search_run P ctx args = (case map_of args (lit ''query'') of
       Some (JStr query) \<Rightarrow>
         if strip query = [] then retp (mk_fail (lit ''invalid_arguments'') (lit ''query is required'') False)
         else (case dict_get args (lit ''top_k'') (JInt 5) of
             JInt top_k \<Rightarrow>
               (case number_argument (dict_get args (lit ''threshold'') (JFloat 0.35)) of
                  None \<Rightarrow> retp (mk_fail (lit ''invalid_arguments'') (lit ''threshold must be a number'') False)
                | Some number \<Rightarrow> bindp (of_result number) (\<lambda>threshold.
                    bindp (find_knowledge P (strip query) (Some (stable_key (tc_conversation ctx)))
                      (ck_connection_id (tc_conversation ctx) \<noteq> ks_sandbox P) True top_k threshold)
                      (\<lambda>found. retp (kb_answer (strip query) found))))
           | _ \<Rightarrow> retp (mk_fail (lit ''invalid_arguments'') (lit ''top_k must be an integer'') False))
     | _ \<Rightarrow> retp (mk_fail (lit ''invalid_arguments'') (lit ''query is required'') False))"

definition kb_search_tool :: "('s, 'z) knowledge_finder_scheme \<Rightarrow> 's tool" where
  "kb_search_tool P = \<lparr>tool_spec_of = kb_search_spec, tool_run = kb_search_run P\<rparr>"

section \<open>Annotations\<close>

record 's matcher =
  kx_embed :: "'s embedder"
  kx_candidates :: "real list \<Rightarrow> ustr \<Rightarrow> ustr \<Rightarrow> bool \<Rightarrow> nat \<Rightarrow> ('s, (ustr \<times> ustr \<times> real \<times> real) list) prog"
  kx_record :: "ustr \<Rightarrow> ustr \<Rightarrow> ustr option \<Rightarrow> real option \<Rightarrow> real option \<Rightarrow> ustr \<Rightarrow> ustr option \<Rightarrow> ('s, unit) prog"
  kx_hit :: "ustr \<Rightarrow> ('s, unit) prog"
  kx_digest :: "ustr \<Rightarrow> ustr"
  kx_margin :: real

definition mk_match :: "ustr \<Rightarrow> ustr \<Rightarrow> real \<Rightarrow> real \<Rightarrow> exn + annotation_match" where
  "mk_match i answer score threshold =
     (if strip answer \<noteq> [] \<and> 0 \<le> score \<and> score \<le> 1 \<and> 0 \<le> threshold \<and> threshold \<le> 1
      then Inr \<lparr>am_annotation_id = i, am_answer = strip answer, am_score = score, am_threshold = threshold\<rparr>
      else Inl (Raised (lit ''ValidationError'')))"

definition second_score :: "(ustr \<times> ustr \<times> real \<times> real) list \<Rightarrow> real" where
  "second_score rest = (case rest of [] \<Rightarrow> 0 | (_, _, score, _) # _ \<Rightarrow> score)"

definition judge_candidates ::
  "('s, 'z) matcher_scheme \<Rightarrow> ustr \<Rightarrow> ustr \<Rightarrow> (ustr \<times> ustr \<times> real \<times> real) list \<Rightarrow> ('s, annotation_match option) prog" where
  "judge_candidates P cid hash found = (case found of
       [] \<Rightarrow> bindp (kx_record P cid hash None None None (lit ''MISS'') None) (\<lambda>_. retp None)
     | (i, answer, score, threshold) # rest \<Rightarrow>
         if score < threshold \<or> score - second_score rest < kx_margin P
         then bindp (kx_record P cid hash (Some i) (Some score) (Some threshold) (lit ''MISS'') None) (\<lambda>_. retp None)
         else bindp (kx_hit P i) (\<lambda>_.
              bindp (kx_record P cid hash (Some i) (Some score) (Some threshold) (lit ''HIT'') None) (\<lambda>_.
              bindp (of_result (mk_match i answer score threshold)) (\<lambda>m. retp (Some m)))))"

definition match_body :: "('s, 'z) matcher_scheme \<Rightarrow> ustr \<Rightarrow> ustr \<Rightarrow> ustr \<Rightarrow> bool \<Rightarrow> ('s, annotation_match option) prog" where
  "match_body P hash query cid allow_conversation = bindp (kx_embed P [query]) (\<lambda>(vectors, model). case vectors of
       [] \<Rightarrow> raisep (Raised (lit ''IndexError''))
     | v # _ \<Rightarrow> bindp (kx_candidates P v model cid allow_conversation 2) (judge_candidates P cid hash))"

text \<open>A lone surrogate cannot be encoded, and the hash is computed outside the \<open>try\<close>.\<close>

definition surrogate :: "nat \<Rightarrow> bool" where
  "surrogate c \<longleftrightarrow> 55296 \<le> c \<and> c < 57344"

definition match_query :: "('s, 'z) matcher_scheme \<Rightarrow> ustr \<Rightarrow> ustr \<Rightarrow> bool \<Rightarrow> ('s, annotation_match option) prog" where
  "match_query P query cid allow_conversation =
     (if \<exists>c \<in> set (strip query). surrogate c then raisep (Raised (lit ''UnicodeEncodeError''))
      else catchp (match_body P (kx_digest P (strip query)) query cid allow_conversation)
        (\<lambda>n. bindp (kx_record P cid (kx_digest P (strip query)) None None None (lit ''ERROR'') (Some n)) (\<lambda>_. retp None)))"

section \<open>The worker\<close>

text \<open>The JSON of a task, as \<open>model_dump_json\<close> writes it.\<close>

definition task_payload :: "ustr \<Rightarrow> int \<Rightarrow> ustr" where
  "task_payload i g = lit ''{'' @ [34] @ lit ''document_id'' @ [34] @ lit '':'' @ [34] @ i @ [34] @ lit '','' @
     [34] @ lit ''generation'' @ [34] @ lit '':'' @ dec_int g @ lit ''}''"

record 's dispatcher =
  kf_tasks :: "('s, (ustr \<times> int) list) prog"
  kf_publish :: "ustr \<Rightarrow> ('s, unit) prog"
  kf_failed :: "ustr \<Rightarrow> int \<Rightarrow> ustr \<Rightarrow> ('s, unit) prog"
  kf_published :: "ustr \<Rightarrow> int \<Rightarrow> ('s, unit) prog"

text \<open>The task is validated when it is built, inside the \<open>try\<close>.\<close>

definition publish_task :: "('s, 'z) dispatcher_scheme \<Rightarrow> ustr \<Rightarrow> int \<Rightarrow> ('s, unit) prog" where
  "publish_task P i g = (if g < 1 then raisep (Raised (lit ''ValidationError'')) else kf_publish P (task_payload i g))"

fun flush_tasks :: "('s, 'z) dispatcher_scheme \<Rightarrow> (ustr \<times> int) list \<Rightarrow> nat \<Rightarrow> ('s, nat) prog" where
  "flush_tasks P [] n = retp n"
| "flush_tasks P ((i, g) # rest) n =
     bindp (catchp (bindp (publish_task P i g) (\<lambda>_. retp True)) (\<lambda>e. bindp (kf_failed P i g e) (\<lambda>_. retp False))) (\<lambda>ok.
       if ok then bindp (kf_published P i g) (\<lambda>_. flush_tasks P rest (Suc n)) else flush_tasks P rest n)"

definition flush_once :: "('s, 'z) dispatcher_scheme \<Rightarrow> ('s, nat) prog" where
  "flush_once P = bindp (kf_tasks P) (\<lambda>tasks. flush_tasks P tasks 0)"

text \<open>The operator API's own dispatcher, \<open>_flush_knowledge_outbox\<close> in \<open>operator/api.py\<close>: the same
  loop over the tasks of one document (\<open>tasks\<close> lists them), when a publisher is configured; it
  answers whether anything was published.\<close>

definition flush_document :: "bool \<Rightarrow> ('s, 'z) dispatcher_scheme \<Rightarrow> ('s, (ustr \<times> int) list) prog \<Rightarrow> ('s, bool) prog" where
  "flush_document configured P tasks = (if \<not> configured then retp False
     else bindp tasks (\<lambda>ts. bindp (flush_tasks P ts 0) (\<lambda>n. retp (n \<noteq> 0))))"

text \<open>\<open>KnowledgeOutboxDispatcher.run\<close>; \<open>env\<close> is what happens while it waits, and \<open>None\<close> is a
  loop that is still running.\<close>

fun outbox_run :: "nat \<Rightarrow> ('s, 'z) dispatcher_scheme \<Rightarrow> ('s \<Rightarrow> bool) \<Rightarrow> ('s \<Rightarrow> 's) \<Rightarrow> 's \<Rightarrow> ((exn + unit) \<times> 's) option" where
  "outbox_run 0 P stop env s = None"
| "outbox_run (Suc fuel) P stop env s =
     (if stop s then Some (Inr (), s)
      else (case flush_once P s of
          (Inl Cancelled, s') \<Rightarrow> Some (Inl Cancelled, s')
        | (_, s') \<Rightarrow> outbox_run fuel P stop env (env s')))"

text \<open>\<open>handle_payload\<close>, as the handler of the consumer of the knowledge stream.\<close>

definition handle_ingest_task :: "('s, 'z) ingestor_scheme \<Rightarrow> (ustr \<Rightarrow> exn + ustr \<times> int) \<Rightarrow> 's handler" where
  "handle_ingest_task P decode attempts payload = bindp (of_result (decode payload)) (\<lambda>(i, g).
     bindp (ingest P i g) (\<lambda>outcome.
       if outcome = CLAIM_BUSY then raisep (Raised (lit ''KnowledgeLeaseBusy'')) else retp ()))"

definition knowledge_consumer :: "ustr \<Rightarrow> ustr \<Rightarrow> ustr \<Rightarrow> int \<Rightarrow> int \<Rightarrow> int \<Rightarrow> int \<Rightarrow> nat \<Rightarrow> nat \<Rightarrow> consumer_config" where
  "knowledge_consumer stream grp worker max_attempts dedupe_ttl idle_ms lease read_count dead_maxlen =
     \<lparr>cc_stream = stream, cc_group = grp, cc_consumer = lit ''knowledge-worker-'' @ worker,
      cc_dead_letter_stream = stream @ lit '':dead'', cc_max_attempts = max_attempts, cc_dedupe_ttl_seconds = dedupe_ttl,
      cc_dedupe_prefix = lit ''mybot:seen:knowledge'', cc_claim_min_idle_ms = of_int (max idle_ms (lease * 1000 + 1000)),
      cc_read_count = read_count, cc_dead_letter_maxlen = dead_maxlen\<rparr>"

section \<open>Reading back encoded text\<close>

definition scalar_value :: "nat \<Rightarrow> bool" where
  "scalar_value c \<longleftrightarrow> c < 1114112 \<and> \<not> surrogate c"

lemma cont_mod [simp]: "cont_byte (128 + n mod 64)"
  by (simp add: cont_byte_def)

lemma mod_block:
  fixes x :: nat
  assumes "n * 64 \<le> x" and "x < n * 64 + m" and "m \<le> 64"
  shows "x mod 64 < m"
proof -
  from assms(1) obtain k where k: "x = k + n * 64" by (metis add.commute le_Suc_ex)
  then have "k < m" using assms(2) by simp
  then show ?thesis using assms(3) by (simp add: k)
qed

lemma div_block:
  fixes c :: nat
  assumes "c div n = k" and "0 < n"
  shows "k * n \<le> c" and "c < k * n + n"
  using assms div_mult_mod_eq [of c n] mod_less_divisor [of n c] by (metis le_add1, metis add_less_cancel_left)

lemma utf8_read: "scalar_value c \<Longrightarrow> utf8_replace (utf8 c @ bs) = c # utf8_replace bs"
proof -
  assume c: "scalar_value c"
  have code: "undo_utf8 (utf8 c) = c" by (rule undo_utf8)
  consider "c < 128" | "128 \<le> c" "c < 2048" | "2048 \<le> c" "c < 65536" | "65536 \<le> c" by linarith
  then show ?thesis
  proof cases
    case 1
    then have "utf8_rest c bs = []" by (cases bs) (simp_all add: utf8_width_def)
    then show ?thesis using 1 by (simp add: utf8_def utf8_width_def)
  next
    case 2
    then have "194 \<le> 192 + c div 64" "192 + c div 64 < 224" by linarith+
    then have w: "utf8_width (192 + c div 64) = 2" "192 + c div 64 \<noteq> 224" "192 + c div 64 \<noteq> 237" "192 + c div 64 \<noteq> 240" "192 + c div 64 \<noteq> 244"
      by (simp_all add: utf8_width_def)
    moreover have "second_byte (192 + c div 64) (128 + c mod 64)" using w by (simp add: second_byte_def)
    ultimately show ?thesis using 2 code by (simp add: utf8_def)
  next
    case 3
    then have lead: "224 \<le> 224 + c div 4096" "224 + c div 4096 < 240" by linarith+
    then have w: "utf8_width (224 + c div 4096) = 3" by (simp add: utf8_width_def)
    have "32 \<le> c div 64 mod 64" if "c div 4096 = 0"
    proof -
      have "32 \<le> c div 64" "c div 64 < 64" using that 3 by (simp_all add: div_eq_0_iff div_less_iff_less_mult less_eq_div_iff_mult_less_eq)
      then show ?thesis by simp
    qed
    moreover have "c div 64 mod 64 < 32" if thirteen: "c div 4096 = 13"
    proof -
      have "53248 \<le> c" "c < 57344" using div_block [OF thirteen] by simp_all
      then have "832 \<le> c div 64" "c div 64 < 864"
        using c by (simp_all add: scalar_value_def surrogate_def div_less_iff_less_mult less_eq_div_iff_mult_less_eq)
      then show ?thesis using mod_block [of 13 "c div 64" 32] by simp
    qed
    ultimately have "second_byte (224 + c div 4096) (128 + c div 64 mod 64)" using lead by (simp add: second_byte_def)
    then show ?thesis using 3 code w by (simp add: utf8_def)
  next
    case 4
    have "c < 1114112" using c by (simp add: scalar_value_def)
    then have lead: "240 \<le> 240 + c div 262144" "240 + c div 262144 < 245" by linarith+
    then have w: "utf8_width (240 + c div 262144) = 4" by (simp add: utf8_width_def)
    have "16 \<le> c div 4096 mod 64" if "c div 262144 = 0"
    proof -
      have "16 \<le> c div 4096" "c div 4096 < 64" using that 4 by (simp_all add: div_eq_0_iff div_less_iff_less_mult less_eq_div_iff_mult_less_eq)
      then show ?thesis by simp
    qed
    moreover have "c div 4096 mod 64 < 16" if four: "c div 262144 = 4"
    proof -
      have "256 \<le> c div 4096" "c div 4096 < 272"
        using div_block [OF four] \<open>c < 1114112\<close> by (simp_all add: div_less_iff_less_mult less_eq_div_iff_mult_less_eq)
      then show ?thesis using mod_block [of 4 "c div 4096" 16] by simp
    qed
    ultimately have "second_byte (240 + c div 262144) (128 + c div 4096 mod 64)" using lead by (simp add: second_byte_def)
    then show ?thesis using 4 code w by (simp add: utf8_def)
  qed
qed

lemma utf8_read_all: "\<forall>c \<in> set t. scalar_value c \<Longrightarrow> utf8_replace (concat (map utf8 t)) = t"
  by (induction t) (simp_all add: utf8_read)

text \<open>
  a document uploaded as UTF-8 text is read as it was written, but for white space at its ends,
  with or without a byte order mark in front.
\<close>

theorem encoded_document_read:
  assumes "\<forall>c \<in> set t. scalar_value c" and "source_type \<noteq> KB_PDF" and "\<not> starts_with byte_order_mark (concat (map utf8 t))"
  shows "extract_text pdf source_type (concat (map utf8 t)) = Inr (strip t) \<and>
    extract_text pdf source_type (byte_order_mark @ concat (map utf8 t)) = Inr (strip t)"
proof -
  have "drop 3 (byte_order_mark @ bs) = bs" for bs by (simp add: byte_order_mark_def)
  then show ?thesis
    using assms utf8_read_all [of t] by (cases source_type) (simp_all add: extract_text_def)
qed

theorem encoded_document_read_witness:
  "extract_text (\<lambda>c. Inr []) KB_TEXT (concat (map utf8 [104, 233, 9731, 128512])) = Inr (strip [104, 233, 9731, 128512]) \<and>
   extract_text (\<lambda>c. Inr []) KB_TEXT (byte_order_mark @ concat (map utf8 [104, 233, 9731, 128512])) = Inr (strip [104, 233, 9731, 128512])"
  by (rule encoded_document_read) (simp_all add: scalar_value_def surrogate_def starts_with_def byte_order_mark_def utf8_def)

section \<open>What an ingestion leaves\<close>

text \<open>The rows of a document: each parent with its children behind it, each child with its vector.\<close>

fun child_rows ::
  "(nat \<Rightarrow> ustr) \<Rightarrow> nat \<Rightarrow> ustr \<Rightarrow> ingest_source \<Rightarrow> ustr \<Rightarrow> prepared_parent \<Rightarrow> prepared_child list \<Rightarrow> real list list \<Rightarrow> chunk_row list" where
  "child_rows u n pid src m p (c # cs) (v # vs) = child_row (u n) pid src p c v m # child_rows u (Suc n) pid src m p cs vs"
| "child_rows u n pid src m p _ _ = []"

fun tree_rows ::
  "(nat \<Rightarrow> ustr) \<Rightarrow> nat \<Rightarrow> ingest_source \<Rightarrow> ustr \<Rightarrow> prepared_parent list \<Rightarrow> real list list \<Rightarrow> chunk_row list" where
  "tree_rows u n src m [] vs = []"
| "tree_rows u n src m (p # ps) vs = parent_row (u n) src p # child_rows u (Suc n) (u n) src m p (ppr_children p) vs @
     tree_rows u (Suc n + length (ppr_children p)) src m ps (drop (length (ppr_children p)) vs)"

definition stored_whole :: "ingest_source \<Rightarrow> ustr \<Rightarrow> prepared_parent list \<Rightarrow> real list list \<Rightarrow> ustr \<Rightarrow> knowledge_db \<Rightarrow> bool" where
  "stored_whole src t ps vs m db \<longleftrightarrow>
     (\<exists>d. find_document (kis_document src) db = Some d \<and> kdc_generation d = kis_generation src \<and> kdc_status d = KB_READY \<and>
        kdr_raw_text d = Some t \<and> kdr_model d = Some m) \<and>
     (\<exists>u n. filter (\<lambda>c. kch_document c = kis_document src) (kn_chunks db) = tree_rows u n src m ps vs)"

definition marked_failed :: "ustr \<Rightarrow> int \<Rightarrow> ustr \<Rightarrow> knowledge_db \<Rightarrow> bool" where
  "marked_failed i g code db \<longleftrightarrow> (\<forall>d \<in> set (kn_documents db). kdc_id d = i \<and> kdc_generation d = g \<longrightarrow>
     kdc_status d = KB_FAILED \<and> kdr_error d = Some (take 200 code))"

definition claimed_source :: "ustr \<Rightarrow> int \<Rightarrow> ingest_source \<Rightarrow> knowledge_db \<Rightarrow> bool" where
  "claimed_source i g src db \<longleftrightarrow> kis_document src = i \<and> kis_generation src = g \<and>
     (\<exists>d. find_document i db = Some d \<and> kdc_generation d = g \<and> kis_type src = kdc_type d \<and> kis_content src = kdr_content d)"

text \<open>What the ingestor needs of its store.\<close>

locale ingest_store =
  fixes P :: "('s, 'z) ingestor_scheme" and kb :: "'s \<Rightarrow> knowledge_db" and unreachable :: "'s \<Rightarrow> bool"
  assumes claim_acquired: "kp_claim P i g s = (Inr c, s') \<Longrightarrow> kic_status c = CLAIM_ACQUIRED \<Longrightarrow>
      \<exists>src. kic_source c = Some src \<and> claimed_source i g src (kb s)"
    and claim_raises: "kp_claim P i g s = (Inl (Raised n), s') \<Longrightarrow> unreachable s'"
    and complete_stored: "kp_complete P src t ps vs m s = (Inr True, s') \<Longrightarrow> stored_whole src t ps vs m (kb s')"
    and fail_marked: "kp_fail P i g n s = (r, s') \<Longrightarrow> r = Inl Cancelled \<or> r = Inr () \<and> marked_failed i g n (kb s') \<or> unreachable s'"
begin

lemma ingest_acquired:
  assumes "ingest P i g s = (Inr CLAIM_ACQUIRED, s')"
  obtains src t ps vs m where "claimed_source i g src (kb s)" "ingest_source_text P src = Inr (t, ps)"
    "\<exists>s1 s2. kp_embed P (child_texts ps) s1 = (Inr (vs, m), s2)" "length vs = length (child_texts ps)" "stored_whole src t ps vs m (kb s')"
proof -
  from assms obtain c s1 where c: "kp_claim P i g s = (Inr c, s1)" and acq: "kic_status c = CLAIM_ACQUIRED"
    unfolding ingest_def by (elim bindp_cases) (auto split: if_splits)
  from claim_acquired [OF c acq] obtain src where src: "kic_source c = Some src" "claimed_source i g src (kb s)" by blast
  have "ingest_claimed P src s1 = (Inr CLAIM_ACQUIRED, s')"
    using assms c acq src(1) unfolding ingest_def
    by (auto simp: bindp_def catchp_def split: prod.splits sum.splits exn.splits)
  then show thesis
    unfolding ingest_claimed_def
    by (elim bindp_cases)
      (auto simp: of_result_def split: sum.splits if_splits prod.splits elim!: bindp_cases intro!: that src(2) complete_stored)
qed

lemma ingest_raised:
  assumes "ingest P i g s = (Inl (Raised n), s')" and up: "\<not> unreachable s'"
  shows "marked_failed i g n (kb s')"
proof -
  from assms obtain c s1 where c: "kp_claim P i g s = (Inr c, s1)" and acq: "kic_status c = CLAIM_ACQUIRED"
    unfolding ingest_def using claim_raises [of i g s n s'] by (elim bindp_cases) (auto split: if_splits)
  from claim_acquired [OF c acq] obtain src where src: "kic_source c = Some src" by blast
  have "catchp (ingest_claimed P src) (\<lambda>n. bindp (kp_fail P i g n) (\<lambda>_. raisep (Raised n))) s1 = (Inl (Raised n), s')"
    using assms(1) c acq src unfolding ingest_def by (simp add: bindp_def)
  then obtain k s2 where failed: "bindp (kp_fail P i g k) (\<lambda>_. raisep (Raised k)) s2 = (Inl (Raised n) :: exn + claim_status, s')"
    by (auto simp: catchp_def split: prod.splits sum.splits exn.splits)
  then show ?thesis
  proof (cases rule: bindp_cases)
    case (raises e)
    then show ?thesis using fail_marked [OF raises(1)] up by simp
  next
    case (returned u s3)
    then show ?thesis using fail_marked [OF returned(1)] up by simp
  qed
qed

lemma ingest_claim_only:
  assumes "kp_claim P i g s = (Inr c, s')" and "kic_status c \<noteq> CLAIM_ACQUIRED"
  shows "ingest P i g s = (Inr (kic_status c), s')"
  using assms by (simp add: ingest_def bindp_def)

end

section \<open>The services on the tables\<close>

text \<open>The state: the tables and the rest of the world. The client for embeddings is a program on
  both: whatever happens to the tables while it is awaited is part of it.\<close>

definition on_tables :: "('e, knowledge_db, 'a) eprog \<Rightarrow> ('e, knowledge_db \<times> 'w, 'a) eprog" where
  "on_tables m s = (case m (fst s) of (r, db) \<Rightarrow> (r, (db, snd s)))"

definition reads :: "(knowledge_db \<Rightarrow> exn + 'a) \<Rightarrow> (knowledge_db \<times> 'w, 'a) prog" where
  "reads f s = (f (fst s), s)"

text \<open>\<open>down\<close> says when the database cannot be reached: an operation is then refused and changes nothing.\<close>

definition refusing :: "('w \<Rightarrow> bool) \<Rightarrow> (knowledge_db \<times> 'w, 'a) prog \<Rightarrow> (knowledge_db \<times> 'w, 'a) prog" where
  "refusing down m s = (if down (snd s) then (Inl (Raised (lit ''OperationalError'')), s) else m s)"

definition table_ingestor ::
  "int \<Rightarrow> (nat list \<Rightarrow> exn + ustr option list) \<Rightarrow> int \<Rightarrow> int \<Rightarrow> int \<Rightarrow> (knowledge_db \<times> 'w) embedder \<Rightarrow> ('w \<Rightarrow> bool) \<Rightarrow>
   (knowledge_db \<times> 'w) ingestor" where
  "table_ingestor lease pdf parent_chars child_chars overlap emb down = \<lparr>
     kp_claim = (\<lambda>i g. refusing down (on_tables (liftp (claim_ingestion lease i g)))),
     kp_complete = (\<lambda>src t ps vs m. refusing down (on_tables (complete_ingestion src t ps vs m))),
     kp_fail = (\<lambda>i g code. refusing down (on_tables (liftp (\<lambda>db. ((), fail_ingestion i g code db))))),
     kp_embed = emb, kp_pdf = pdf, kp_parent_chars = parent_chars, kp_child_chars = child_chars, kp_child_overlap = overlap\<rparr>"

lemma on_tables_eq: "on_tables m s = (r, s') \<longleftrightarrow> m (fst s) = (r, fst s') \<and> snd s' = snd s"
  by (cases "m (fst s)"; cases s') (auto simp: on_tables_def)

lemma insert_chunk_Inr: "insert_chunk c db = (Inr u, db') \<Longrightarrow> db' = db\<lparr>kn_chunks := kn_chunks db @ [c]\<rparr>"
  by (simp add: insert_chunk_def split: if_splits)

lemma insert_children_rows:
  "insert_children src m pid p cs vs db = (Inr vs', db') \<Longrightarrow> vs' = drop (length cs) vs \<and> length cs \<le> length vs \<and>
     kn_chunks db' = kn_chunks db @ child_rows (kn_uuid db) (kn_drawn db) pid src m p cs vs \<and>
     kn_uuid db' = kn_uuid db \<and> kn_drawn db' = kn_drawn db + length cs"
proof (induction src m pid p cs vs arbitrary: db rule: insert_children.induct)
  case (2 src m pid p c cs vs)
  then obtain v vs1 where vs: "vs = v # vs1" by (cases vs) auto
  from "2.prems" obtain db1 where "insert_chunk (child_row (kn_uuid db (kn_drawn db)) pid src p c v m) (snd (kb_uuid db)) = (Inr (), db1)"
    and rest: "insert_children src m pid p cs vs1 db1 = (Inr vs', db')"
    by (auto simp: vs bindp_def liftp_def kb_uuid_def split: prod.splits sum.splits)
  from insert_chunk_Inr [OF this(1)] "2.IH" [OF vs rest] show ?case by (simp add: vs kb_uuid_def)
qed simp

lemma insert_parents_rows:
  "insert_parents src m ps vs db = (Inr u, db') \<Longrightarrow> kn_chunks db' = kn_chunks db @ tree_rows (kn_uuid db) (kn_drawn db) src m ps vs"
proof (induction src m ps vs arbitrary: db rule: insert_parents.induct)
  case (2 src m p ps vs)
  then obtain db1 vs1 db2 where "insert_chunk (parent_row (kn_uuid db (kn_drawn db)) src p) (snd (kb_uuid db)) = (Inr (), db1)"
    and children: "insert_children src m (kn_uuid db (kn_drawn db)) p (ppr_children p) vs db1 = (Inr vs1, db2)"
    and rest: "insert_parents src m ps vs1 db2 = (Inr u, db')"
    by (auto simp: bindp_def liftp_def kb_uuid_def split: prod.splits sum.splits)
  from insert_chunk_Inr [OF this(1)] insert_children_rows [OF children] "2.IH" [OF rest] show ?case
    by (simp add: kb_uuid_def)
qed simp

lemma tree_rows_document: "c \<in> set (tree_rows u n src m ps vs) \<Longrightarrow> kch_document c = kis_document src"
proof (induction u n src m ps vs rule: tree_rows.induct)
  case (2 u n src m p ps vs)
  have "kch_document c = kis_document src" if "c \<in> set (child_rows u k pid src m p cs ws)" for k pid cs ws
    using that by (induction u k pid src m p cs ws rule: child_rows.induct) (auto simp: child_row_def)
  then show ?case using 2 by (auto simp: parent_row_def)
qed simp

lemma complete_whole:
  assumes "complete_ingestion src t ps vs m db = (Inr True, db')"
  shows "stored_whole src t ps vs m db'"
proof -
  let ?db = "db\<lparr>kn_chunks := filter (\<lambda>c. kch_document c \<noteq> kis_document src) (kn_chunks db)\<rparr>"
  from assms obtain d where d: "find_document (kis_document src) db = Some d" "kdc_generation d = kis_generation src"
    by (auto simp: complete_ingestion_def split: option.splits if_splits)
  from assms obtain u db1 where ins: "insert_parents src m ps vs ?db = (Inr u, db1)" and db': "db' = snd (set_ready src t m db1)"
    by (auto simp: complete_ingestion_def kb_transaction_def bindp_def drop_chunks_def set_ready_def split: option.splits if_splits prod.splits sum.splits)
  have docs: "kn_documents db1 = kn_documents db"
    using movesD [OF parents_same ins] by (simp add: same_documents_def same_view_def)
  have rows: "kn_chunks db1 = kn_chunks ?db @ tree_rows (kn_uuid ?db) (kn_drawn ?db) src m ps vs"
    by (rule insert_parents_rows [OF ins])
  have "filter (\<lambda>c. kch_document c = kis_document src) (kn_chunks db') = tree_rows (kn_uuid ?db) (kn_drawn ?db) src m ps vs"
    using tree_rows_document by (auto simp: db' set_ready_def put_document_def rows filter_empty_conv intro!: filter_True)
  moreover have "find_document (kis_document src) db' = map_option (\<lambda>d. if kdc_generation d = kis_generation src
     then d\<lparr>kdc_status := KB_READY, kdr_raw_text := Some t, kdr_model := Some m, kdr_error := None, kdr_updated := kn_clock db1\<rparr> else d)
     (find_document (kis_document src) db)"
  proof -
    let ?f = "\<lambda>d. if kdc_generation d = kis_generation src
      then d\<lparr>kdc_status := KB_READY, kdr_raw_text := Some t, kdr_model := Some m, kdr_error := None, kdr_updated := kn_clock db1\<rparr> else d"
    have "find (\<lambda>d. kdc_id d = i) (map (\<lambda>d. if kdc_id d = i then ?f d else d) ds) = map_option ?f (find (\<lambda>d. kdc_id d = i) ds)" for i ds
      by (induction ds) auto
    then show ?thesis by (simp add: db' set_ready_def put_document_def find_document_def docs)
  qed
  ultimately show ?thesis using d unfolding stored_whole_def by auto
qed

lemma fail_marks: "marked_failed i g n (fail_ingestion i g n db)"
proof -
  let ?f = "\<lambda>d. if kdc_generation d = g
    then d\<lparr>kdc_status := KB_FAILED, kdr_error := Some (take 200 n), kdr_updated := kn_clock db\<rparr> else d"
  let ?g = "\<lambda>d. if kdc_id d = i then ?f d else d"
  have one: "kdc_id (?g d) = i \<and> kdc_generation (?g d) = g \<longrightarrow> kdc_status (?g d) = KB_FAILED \<and> kdr_error (?g d) = Some (take 200 n)" for d
    by simp
  have "kn_documents (fail_ingestion i g n db) = map ?g (kn_documents db)"
    by (simp add: fail_ingestion_def put_document_def)
  then have rows: "set (kn_documents (fail_ingestion i g n db)) = ?g ` set (kn_documents db)" by (simp only: set_map)
  show ?thesis unfolding marked_failed_def rows
  proof (intro ballI impI)
    fix d assume d: "d \<in> ?g ` set (kn_documents db)" "kdc_id d = i \<and> kdc_generation d = g"
    from d(1) obtain d0 where "d = ?g d0" by (rule imageE)
    then show "kdc_status d = KB_FAILED \<and> kdr_error d = Some (take 200 n)" using one [of d0] d(2) by argo
  qed
qed

lemma refusing_Inr: "refusing down m s = (Inr x, s') \<longleftrightarrow> \<not> down (snd s) \<and> m s = (Inr x, s')"
  by (auto simp: refusing_def)

interpretation tables: ingest_store "table_ingestor lease pdf pc cc ov emb down" fst "\<lambda>s. down (snd s)"
proof
  fix i g s c s' n src t ps vs m and r :: "exn + unit" and q :: "exn + ingest_claim"
  let ?P = "table_ingestor lease pdf pc cc ov emb down"
  show "\<exists>src. kic_source c = Some src \<and> claimed_source i g src (fst s)" if "kp_claim ?P i g s = (Inr c, s')" "kic_status c = CLAIM_ACQUIRED"
    using that by (auto simp: table_ingestor_def refusing_Inr on_tables_eq liftp_def claim_ingestion_def claimed_source_def
      split: option.splits if_splits prod.splits)
  show "down (snd s')" if "kp_claim ?P i g s = (Inl (Raised n), s')"
    using that by (auto simp: table_ingestor_def refusing_def on_tables_eq liftp_def split: if_splits)
  show "stored_whole src t ps vs m (fst s')" if "kp_complete ?P src t ps vs m s = (Inr True, s')"
  proof (rule complete_whole)
    show "complete_ingestion src t ps vs m (fst s) = (Inr True, fst s')"
      using that by (simp add: table_ingestor_def refusing_Inr on_tables_eq)
  qed
  show "r = Inl Cancelled \<or> r = Inr () \<and> marked_failed i g n (fst s') \<or> down (snd s')" if "kp_fail ?P i g n s = (r, s')"
    using that fail_marks by (auto simp: table_ingestor_def refusing_def on_tables_eq liftp_def split: if_splits) metis
qed

text \<open>
  C34: an ingestion that reports success has stored the document whole: it is ready at the generation
  that was claimed, with the text extracted from the content it had then, and its chunks are
  exactly the parents and children the text was cut into, in order, each child under its parent
  and with the vector the embedding model gave for its text.
\<close>

theorem ingested_document_whole:
  assumes "ingest (table_ingestor lease pdf pc cc ov emb down) i g s = (Inr CLAIM_ACQUIRED, s')"
  shows "\<exists>src t ps vs m. claimed_source i g src (fst s) \<and>
    extract_text pdf (kis_type src) (kis_content src) = Inr t \<and> hierarchical_chunks t pc cc ov = Inr ps \<and> ps \<noteq> [] \<and>
    (\<exists>s1 s2. emb (child_texts ps) s1 = (Inr (vs, m), s2)) \<and> length vs = length (child_texts ps) \<and>
    stored_whole src t ps vs m (fst s')"
proof (rule tables.ingest_acquired [OF assms])
  fix src t ps vs m
  assume run: "claimed_source i g src (fst s)" "\<exists>s1 s2. kp_embed (table_ingestor lease pdf pc cc ov emb down) (child_texts ps) s1 = (Inr (vs, m), s2)"
    "length vs = length (child_texts ps)" "stored_whole src t ps vs m (fst s')"
  assume "ingest_source_text (table_ingestor lease pdf pc cc ov emb down) src = Inr (t, ps)"
  then have "extract_text pdf (kis_type src) (kis_content src) = Inr t" "hierarchical_chunks t pc cc ov = Inr ps" "ps \<noteq> []"
    by (auto simp: ingest_source_text_def table_ingestor_def bindr_eq_Inr split: if_splits)
  moreover have "\<exists>s1 s2. emb (child_texts ps) s1 = (Inr (vs, m), s2)" using run(2) by (simp add: table_ingestor_def)
  ultimately show ?thesis using run(1,3,4) by blast
qed

text \<open>
  C38: an ingestion that raises has said so in the document, as long as the database can be reached
  when it ends: unless it was requeued or deleted meanwhile, the document is failed, with the
  name of the exception as its error; it does not stay in processing. An outage during the
  work does not change that.
\<close>

theorem failed_ingestion_recorded:
  assumes "ingest (table_ingestor lease pdf pc cc ov emb down) i g s = (Inl (Raised n), s')"
    and "\<not> down (snd s')"
  shows "marked_failed i g n (fst s')"
  by (rule tables.ingest_raised [where down = down, OF assms])

text \<open>
  a task whose document another worker still holds changes nothing and is not acknowledged: the
  handler raises, and the entry stays pending for a later delivery.
\<close>

theorem busy_task_stays_pending:
  assumes "decode payload = Inr (i, g)" and "find_document i (fst s) = Some d" and "kdc_generation d = g"
    and "kdc_status d = KB_PROCESSING" and "\<not> claimable lease (kn_clock (fst s)) d" and "\<not> down (snd s)"
  shows "run_handler cfg B eid payload (handle_ingest_task (table_ingestor lease pdf pc cc ov emb down) decode) key attempts s = (Inr 0, s)"
proof -
  have "kp_claim (table_ingestor lease pdf pc cc ov emb down) i g s = (Inr \<lparr>kic_status = CLAIM_BUSY, kic_source = None\<rparr>, s)"
    using assms(2-6) by (simp add: table_ingestor_def refusing_def on_tables_def liftp_def claim_ingestion_def)
  then have "ingest (table_ingestor lease pdf pc cc ov emb down) i g s = (Inr CLAIM_BUSY, s)"
    using tables.ingest_claim_only by fastforce
  then show ?thesis
    by (simp add: run_handler_def handle_ingest_task_def of_result_def assms(1) bindp_def catchp_def)
qed

section \<open>The outbox\<close>

definition published_tasks :: "knowledge_db \<Rightarrow> (ustr \<times> int) set" where
  "published_tasks db = (\<lambda>t. (kob_document t, kob_generation t)) ` {t \<in> set (kn_outbox db). kob_published t \<noteq> None}"

text \<open>What is marked as published has been accepted by the stream.\<close>

definition outbox_safe :: "knowledge_db \<Rightarrow> ustr set \<Rightarrow> bool" where
  "outbox_safe db accepted \<longleftrightarrow> knowledge_inv db \<and> (\<forall>(i, g) \<in> published_tasks db. task_payload i g \<in> accepted)"

fun quiet_op :: "knowledge_op \<Rightarrow> bool" where
  "quiet_op (Task_published i g) = False"
| "quiet_op _ = True"

lemma published_subset:
  assumes "\<And>t. t \<in> set (kn_outbox db') \<Longrightarrow> kob_published t \<noteq> None \<Longrightarrow>
    \<exists>u \<in> set (kn_outbox db). kob_published u \<noteq> None \<and> kob_document u = kob_document t \<and> kob_generation u = kob_generation t"
  shows "published_tasks db' \<subseteq> published_tasks db"
proof
  fix x assume "x \<in> published_tasks db'"
  then obtain t where "t \<in> set (kn_outbox db')" "kob_published t \<noteq> None" "x = (kob_document t, kob_generation t)"
    by (auto simp: published_tasks_def)
  with assms [of t] obtain u where "u \<in> set (kn_outbox db)" "kob_published u \<noteq> None" "x = (kob_document u, kob_generation u)" by force
  then show "x \<in> published_tasks db" unfolding published_tasks_def by blast
qed

lemma upsert_published: "published_tasks (upsert_task i g reset db) \<subseteq> published_tasks db"
  by (rule published_subset) (auto simp: upsert_task_def new_task_def split: if_splits)

lemma published_documents [simp]: "published_tasks (put_document i f db) = published_tasks db"
  "published_tasks (db\<lparr>kn_documents := ds\<rparr>) = published_tasks db" "published_tasks (db\<lparr>kn_clock := n\<rparr>) = published_tasks db"
  "published_tasks (mark_annotation_hit a db) = published_tasks db" "published_tasks (fail_ingestion i g code db) = published_tasks db"
  by (simp_all add: published_tasks_def put_document_def mark_annotation_hit_def fail_ingestion_def)

lemma failed_published: "published_tasks (mark_task_failed i g code db) = published_tasks db"
  by (force simp: published_tasks_def mark_task_failed_def)

lemma marked_published: "published_tasks (mark_task_published i g db) \<subseteq> insert (i, g) (published_tasks db)"
  by (auto simp: published_tasks_def mark_task_published_def is_task_def)

lemma chunk_outbox: "moves (same_view kn_outbox) (insert_chunk c)" "moves (same_view kn_outbox) (liftp kb_uuid)"
  by (auto simp: moves_def same_view_def insert_chunk_def kb_uuid_def liftp_def)

lemma children_outbox: "moves (same_view kn_outbox) (insert_children src model pid p cs vs)"
  by (induction src model pid p cs vs rule: insert_children.induct)
    (auto intro!: moves_retp moves_raisep moves_bindp chunk_outbox simp del: retp_apply raisep_apply split: list.split)

lemma parents_outbox: "moves (same_view kn_outbox) (insert_parents src model ps vs)"
  by (induction src model ps vs rule: insert_parents.induct)
    (auto intro!: moves_retp moves_bindp chunk_outbox children_outbox simp del: retp_apply)

lemma complete_outbox: "kn_outbox (snd (complete_ingestion src t ps vs m db)) = kn_outbox db"
proof -
  have drop: "moves (same_view kn_outbox) (drop_chunks i)" for i by (simp add: moves_def same_view_def drop_chunks_def)
  have ready: "moves (same_view kn_outbox) (set_ready src t m)" by (simp add: moves_def same_view_def set_ready_def put_document_def)
  let ?body = "bindp (drop_chunks (kis_document src)) (\<lambda>_. bindp (insert_parents src m ps vs) (\<lambda>_. bindp (set_ready src t m) (\<lambda>_. retp True)))"
  obtain r db1 where body: "?body db = (r, db1)" by (metis surj_pair)
  have "moves (same_view kn_outbox) ?body"
    by (intro moves_bindp moves_retp drop ready parents_outbox) simp_all
  from movesD [OF this body] have "kn_outbox (snd (kb_transaction ?body db)) = kn_outbox db"
    by (cases r) (simp_all add: kb_transaction_def body same_view_def)
  then show ?thesis by (auto simp: complete_ingestion_def split: option.splits)
qed

lemma quiet_published: "quiet_op e \<Longrightarrow> published_tasks (knowledge_step lease e db) \<subseteq> published_tasks db"
proof (cases e)
  case (Create_document d content)
  have "published_tasks (upsert_task i g reset (db\<lparr>kn_documents := ds\<rparr>)) \<subseteq> published_tasks db" for i g reset ds
    using upsert_published [of i g reset "db\<lparr>kn_documents := ds\<rparr>"] by simp
  then show ?thesis using upsert_published [of _ _ _ db] unfolding Create_document knowledge_step.simps create_document_def
    by (auto split: option.splits if_splits)
next
  case (Requeue_document i)
  show ?thesis unfolding Requeue_document knowledge_step.simps requeue_document_def
    by (cases "find_document i db") (simp_all add: Let_def order_trans [OF upsert_published])
next
  case (Delete_document i)
  then show ?thesis by (auto simp: delete_document_def published_tasks_def)
next
  case (Claim_ingestion i g)
  then show ?thesis by (auto simp: claim_ingestion_def split: option.splits)
next
  case (Complete_ingestion src t ps vs m)
  then show ?thesis by (simp add: published_tasks_def complete_outbox)
next
  case (Create_annotation a v m)
  then show ?thesis by (auto simp: create_annotation_def published_tasks_def)
next
  case (Delete_annotation i)
  then show ?thesis by (auto simp: delete_annotation_def published_tasks_def)
next
  case (Annotation_audit c h a x y out code)
  then show ?thesis by (auto simp: record_annotation_match_def kb_uuid_def published_tasks_def split: if_splits)
qed (auto simp: failed_published)

lemma quiet_safe:
  assumes "outbox_safe db L" and "list_all quiet_op ops"
  shows "outbox_safe (fold (knowledge_step lease) ops db) L"
  using assms
proof (induction ops arbitrary: db)
  case (Cons e ops)
  then have "outbox_safe (knowledge_step lease e db) L"
    using quiet_published [of e lease db] knowledge_step_inv [of db lease e] by (auto simp: outbox_safe_def)
  then show ?case using Cons by simp
qed simp

lemma published_safe:
  assumes "outbox_safe db L" and "task_payload i g \<in> L"
  shows "outbox_safe (mark_task_published i g db) L"
  using assms marked_published [of i g db] knowledge_step_inv [of db 0 "Task_published i g"]
  by (auto simp: outbox_safe_def)

lemma failed_safe: "outbox_safe db L \<Longrightarrow> outbox_safe (mark_task_failed i g code db) L"
  using quiet_safe [of db L "[Task_failed i g code]" 0] by simp

text \<open>What the dispatcher needs: publishing may let others work, but on success the payload is accepted.\<close>

locale outbox_ports =
  fixes P :: "('s, 'z) dispatcher_scheme" and kb :: "'s \<Rightarrow> knowledge_db" and accepted :: "'s \<Rightarrow> ustr set"
  assumes tasks_frame: "kf_tasks P s = (r, s') \<Longrightarrow> kb s' = kb s \<and> accepted s' = accepted s"
    and publish_safe: "kf_publish P p s = (u, s') \<Longrightarrow> outbox_safe (kb s) (accepted s) \<Longrightarrow> outbox_safe (kb s') (accepted s')"
    and publish_accepted: "kf_publish P p s = (Inr (), s') \<Longrightarrow> p \<in> accepted s'"
    and failed_marks: "kf_failed P i g n s = (u, s') \<Longrightarrow> accepted s' = accepted s \<and> kb s' \<in> {kb s, mark_task_failed i g n (kb s)}"
    and published_marks: "kf_published P i g s = (u, s') \<Longrightarrow> accepted s' = accepted s \<and> kb s' \<in> {kb s, mark_task_published i g (kb s)}"
begin

abbreviation all_accepted :: "'s \<Rightarrow> bool" where
  "all_accepted s \<equiv> outbox_safe (kb s) (accepted s)"

lemma attempt_safe:
  assumes "catchp (bindp (publish_task P i g) (\<lambda>_. retp True)) (\<lambda>e. bindp (kf_failed P i g e) (\<lambda>_. retp False)) s = (r, s')" and "all_accepted s"
  shows "all_accepted s' \<and> (r = Inr True \<longrightarrow> task_payload i g \<in> accepted s')"
proof -
  obtain q s1 where q: "publish_task P i g s = (q, s1)" by (metis surj_pair)
  have s1: "all_accepted s1" "q = Inr () \<Longrightarrow> task_payload i g \<in> accepted s1"
    using q assms(2) publish_safe publish_accepted by (auto simp: publish_task_def split: if_splits)
  obtain f s2 where f: "kf_failed P i g (case q of Inl (Raised n) \<Rightarrow> n | _ \<Rightarrow> []) s1 = (f, s2)" by (metis surj_pair)
  have "all_accepted s2" using failed_marks [OF f] s1(1) failed_safe by auto
  then show ?thesis using assms(1) q f s1
    by (cases q; cases f) (auto simp: catchp_def bindp_def split: exn.splits)
qed

lemma flush_tasks_safe: "flush_tasks P ts n s = (r, s') \<Longrightarrow> all_accepted s \<Longrightarrow> all_accepted s'"
proof (induction ts arbitrary: s n)
  case (Cons x ts)
  obtain i g where x: "x = (i, g)" by (cases x)
  let ?attempt = "catchp (bindp (publish_task P i g) (\<lambda>_. retp True)) (\<lambda>e. bindp (kf_failed P i g e) (\<lambda>_. retp False))"
  obtain q s1 where tried: "?attempt s = (q, s1)" by (metis surj_pair)
  note s1 = attempt_safe [OF tried Cons.prems(2)]
  show ?case
  proof (cases "q = Inr True")
    case True
    obtain u s2 where mark: "kf_published P i g s1 = (u, s2)" by (metis surj_pair)
    have "all_accepted s2" using published_marks [OF mark] s1 True published_safe by auto
    then show ?thesis using Cons.prems(1) Cons.IH tried mark True
      by (cases u) (auto simp: x bindp_def)
  next
    case False
    then show ?thesis using Cons.prems(1) Cons.IH tried s1
      by (cases q) (auto simp: x bindp_def)
  qed
qed simp

lemma flush_safe: "flush_once P s = (r, s') \<Longrightarrow> all_accepted s \<Longrightarrow> all_accepted s'"
  unfolding flush_once_def by (elim bindp_cases) (metis tasks_frame, metis tasks_frame flush_tasks_safe)

lemma flush_document_safe:
  assumes "flush_document configured P tasks s = (r, s')" and "moves (same_view (\<lambda>s. (kb s, accepted s))) tasks" and "all_accepted s"
  shows "all_accepted s'"
proof (cases configured)
  case True
  with assms(1) have "bindp tasks (\<lambda>ts. bindp (flush_tasks P ts 0) (\<lambda>n. retp (n \<noteq> 0))) s = (r, s')"
    by (simp add: flush_document_def)
  then show ?thesis
  proof (cases rule: bindp_cases)
    case (raises e)
    then show ?thesis using movesD [OF assms(2) raises(1)] assms(3) by (simp add: same_view_def)
  next
    case (returned ts s1)
    have "all_accepted s1" using movesD [OF assms(2) returned(1)] assms(3) by (simp add: same_view_def)
    with returned(2) show ?thesis by (elim bindp_cases) (auto dest: flush_tasks_safe)
  qed
qed (use assms in \<open>simp add: flush_document_def\<close>)

end

text \<open>The dispatcher on the tables and the stream. \<open>down\<close> says when the stream cannot be reached, and
  \<open>others\<close> what other workers do to the tables while a task is published; the last component of
  the state lists the payloads the stream accepted.\<close>

definition table_dispatcher ::
  "int \<Rightarrow> ustr \<Rightarrow> nat \<Rightarrow> (mem_backend \<Rightarrow> bool) \<Rightarrow> (mem_backend \<Rightarrow> knowledge_op list) \<Rightarrow>
   (knowledge_db \<times> mem_backend \<times> ustr list) dispatcher" where
  "table_dispatcher lease stream maxlen down others = \<lparr>
     kf_tasks = on_tables (\<lambda>db. (Inr (pending_ingest_tasks 50 None db), db)),
     kf_publish = (\<lambda>p (db, b, acc). (let db' = fold (knowledge_step lease) (filter quiet_op (others b)) db in
        if down b then (Inl (Raised (lit ''ConnectionError'')), (db', b, acc))
        else (Inr (), (db', snd (mem_add stream p maxlen b), p # acc)))),
     kf_failed = (\<lambda>i g code. on_tables (liftp (\<lambda>db. ((), mark_task_failed i g code db)))),
     kf_published = (\<lambda>i g. on_tables (liftp (\<lambda>db. ((), mark_task_published i g db))))\<rparr>"

interpretation dispatching: outbox_ports "table_dispatcher lease stream maxlen down others" fst "\<lambda>s. set (snd (snd s))"
proof
  let ?P = "table_dispatcher lease stream maxlen down others"
  fix s s' :: "knowledge_db \<times> mem_backend \<times> ustr list" and p i n :: ustr and g :: int and u :: "exn + unit" and r :: "exn + (ustr \<times> int) list"
  show "fst s' = fst s \<and> set (snd (snd s')) = set (snd (snd s))" if "kf_tasks ?P s = (r, s')"
    using that by (simp add: table_dispatcher_def on_tables_eq)
  have quiet: "list_all quiet_op (filter quiet_op ops)" for ops by (simp add: list_all_iff)
  show "outbox_safe (fst s') (set (snd (snd s')))" if pub: "kf_publish ?P p s = (u, s')" "outbox_safe (fst s) (set (snd (snd s)))"
  proof -
    have more: "outbox_safe db (insert p L)" if "outbox_safe db L" for db L using that by (auto simp: outbox_safe_def)
    show ?thesis using pub quiet_safe [OF pub(2) quiet] by (auto simp: table_dispatcher_def Let_def split: prod.splits if_splits intro!: more)
  qed
  show "p \<in> set (snd (snd s'))" if "kf_publish ?P p s = (Inr (), s')"
    using that by (auto simp: table_dispatcher_def Let_def split: prod.splits if_splits)
  show "set (snd (snd s')) = set (snd (snd s)) \<and> fst s' \<in> {fst s, mark_task_failed i g n (fst s)}" if "kf_failed ?P i g n s = (u, s')"
    using that by (simp add: table_dispatcher_def on_tables_eq liftp_def)
  show "set (snd (snd s')) = set (snd (snd s)) \<and> fst s' \<in> {fst s, mark_task_published i g (fst s)}" if "kf_published ?P i g s = (u, s')"
    using that by (simp add: table_dispatcher_def on_tables_eq liftp_def)
qed

text \<open>The tasks the operator API lists: those of one document.\<close>

definition document_tasks :: "ustr \<Rightarrow> (knowledge_db \<times> 'w, (ustr \<times> int) list) prog" where
  "document_tasks i = on_tables (\<lambda>db. (Inr (pending_ingest_tasks 50 (Some i) db), db))"

text \<open>Runs of the tables and their dispatchers, the worker's and the operator API's, from an
  empty base.\<close>

inductive outbox_reach :: "int \<Rightarrow> ustr \<Rightarrow> nat \<Rightarrow> knowledge_db \<times> mem_backend \<times> ustr list \<Rightarrow> bool" for lease stream maxlen where
  start: "outbox_reach lease stream maxlen (new_knowledge_db mdb supply, b, [])"
| operate: "outbox_reach lease stream maxlen (db, b, acc) \<Longrightarrow> quiet_op e \<Longrightarrow>
    outbox_reach lease stream maxlen (knowledge_step lease e db, b, acc)"
| flush: "outbox_reach lease stream maxlen s \<Longrightarrow> flush_once (table_dispatcher lease stream maxlen down others) s = (r, s') \<Longrightarrow>
    outbox_reach lease stream maxlen s'"
| operator_flush: "outbox_reach lease stream maxlen s \<Longrightarrow>
    flush_document configured (table_dispatcher lease stream maxlen down others) (document_tasks i) s = (r, s') \<Longrightarrow>
    outbox_reach lease stream maxlen s'"
| elsewhere: "outbox_reach lease stream maxlen (db, b, acc) \<Longrightarrow> outbox_reach lease stream maxlen (db, b', acc)"

lemma outbox_reach_safe: "outbox_reach lease stream maxlen s \<Longrightarrow> outbox_safe (fst s) (set (snd (snd s)))"
proof (induction rule: outbox_reach.induct)
  case (start mdb ids b)
  then show ?case using new_knowledge_inv by (simp add: outbox_safe_def published_tasks_def new_knowledge_db_def)
next
  case (operate db b acc e)
  then show ?case using quiet_safe [of db "set acc" "[e]" lease] by simp
next
  case (flush s down others r t)
  then show ?case using dispatching.flush_safe by blast
next
  case (operator_flush s configured down others i r t)
  have "moves (same_view (\<lambda>s. (fst s, set (snd (snd s))))) (document_tasks i :: (knowledge_db \<times> mem_backend \<times> ustr list, _) prog)"
    by (simp add: moves_def same_view_def document_tasks_def on_tables_def)
  from dispatching.flush_document_safe [OF operator_flush(2) this operator_flush(3)] show ?case .
qed simp

text \<open>
  C32: no queued document is lost between the tables and the stream: whatever operations, uploads,
  failures and dispatchers have run, and at whatever point of them, the task of a queued document
  is either in the outbox and not yet published, or was accepted by the stream.
\<close>

theorem queued_document_not_lost:
  assumes "outbox_reach lease stream maxlen (db, b, acc)" and "d \<in> set (kn_documents db)" and "kdc_status d = KB_QUEUED"
  shows "(\<exists>t \<in> set (kn_outbox db). is_task (kdc_id d) (kdc_generation d) t \<and> kob_published t = None) \<or>
    task_payload (kdc_id d) (kdc_generation d) \<in> set acc"
proof -
  have safe: "outbox_safe db (set acc)" using outbox_reach_safe [OF assms(1)] by simp
  then obtain t where t: "t \<in> set (kn_outbox db)" "is_task (kdc_id d) (kdc_generation d) t"
    using assms(2,3) unfolding outbox_safe_def knowledge_inv_def outbox_ok_def by blast
  show ?thesis
  proof (cases "kob_published t")
    case (Some x)
    then have "(kdc_id d, kdc_generation d) \<in> published_tasks db" using t by (force simp: published_tasks_def is_task_def)
    then show ?thesis using safe unfolding outbox_safe_def by fast
  qed (use t in blast)
qed

text \<open>A flush that reaches the stream.\<close>

definition mark_all :: "(ustr \<times> int) list \<Rightarrow> knowledge_db \<Rightarrow> knowledge_db" where
  "mark_all ts db = fold (\<lambda>(i, g). mark_task_published i g) ts db"

lemma flush_tasks_up:
  assumes "\<forall>(i, g) \<in> set ts. 1 \<le> g"
  shows "\<exists>b'. flush_tasks (table_dispatcher lease stream maxlen (\<lambda>b. False) (\<lambda>b. [])) ts n (db, b, acc) =
    (Inr (n + length ts), (mark_all ts db, b', rev (map (\<lambda>(i, g). task_payload i g) ts) @ acc))"
  using assms
proof (induction ts arbitrary: n db b acc)
  case (Cons x ts)
  obtain i g where x: "x = (i, g)" by (cases x)
  from Cons.prems have "\<not> g < 1" "\<forall>(i, g) \<in> set ts. 1 \<le> g" by (auto simp: x)
  moreover note Cons.IH [OF this(2), of "Suc n" "mark_task_published i g db" "snd (mem_add stream (task_payload i g) maxlen b)" "task_payload i g # acc"]
  ultimately show ?case
    by (simp add: x bindp_def catchp_def publish_task_def table_dispatcher_def on_tables_def liftp_def mark_all_def)
qed (simp add: mark_all_def)

lemma mark_all_tasks:
  "kn_outbox (mark_all ts db) = us \<Longrightarrow> t \<in> set us \<Longrightarrow> kob_published t = None \<Longrightarrow>
     (kob_document t, kob_generation t) \<notin> set ts \<and> t \<in> set (kn_outbox db)"
proof (induction ts arbitrary: db us)
  case (Cons x ts)
  obtain i g where x: "x = (i, g)" by (cases x)
  have "(kob_document t, kob_generation t) \<notin> set ts \<and> t \<in> set (kn_outbox (mark_task_published i g db))"
    using Cons.IH [of "mark_task_published i g db" us] Cons.prems by (simp add: mark_all_def x)
  then show ?case using Cons.prems(3) by (auto simp: x mark_task_published_def is_task_def)
qed (simp add: mark_all_def)

text \<open>
  when the stream can be reached, one pass of the dispatcher publishes every task it listed (the
  fifty oldest at most): each is accepted by the stream, none of them is pending afterwards, and
  no other task has become pending.
\<close>

theorem flush_publishes_tasks:
  assumes "\<forall>(i, g) \<in> set (pending_ingest_tasks 50 None db). 1 \<le> g"
  shows "\<exists>db' b'. flush_once (table_dispatcher lease stream maxlen (\<lambda>b. False) (\<lambda>b. [])) (db, b, acc) =
      (Inr (length (pending_ingest_tasks 50 None db)),
       (db', b', rev (map (\<lambda>(i, g). task_payload i g) (pending_ingest_tasks 50 None db)) @ acc)) \<and>
    (\<forall>t \<in> set (kn_outbox db'). kob_published t = None \<longrightarrow>
       (kob_document t, kob_generation t) \<notin> set (pending_ingest_tasks 50 None db) \<and> t \<in> set (kn_outbox db))"
proof -
  let ?P = "table_dispatcher lease stream maxlen (\<lambda>b. False) (\<lambda>b. [])" and ?ts = "pending_ingest_tasks 50 None db"
  from flush_tasks_up [OF assms] obtain b' where
    "flush_tasks ?P ?ts 0 (db, b, acc) = (Inr (length ?ts), (mark_all ?ts db, b', rev (map (\<lambda>(i, g). task_payload i g) ?ts) @ acc))"
    by (metis add_0)
  moreover have "flush_once ?P (db, b, acc) = flush_tasks ?P ?ts 0 (db, b, acc)"
    unfolding flush_once_def by (rule bindp_Inr) (simp add: table_dispatcher_def on_tables_def)
  ultimately show ?thesis using mark_all_tasks [OF refl] by metis
qed

section \<open>Annotations answer when they clearly match\<close>

definition candidate_rows :: "ustr \<Rightarrow> ustr \<Rightarrow> bool \<Rightarrow> knowledge_db \<Rightarrow> annotation_row set" where
  "candidate_rows m cid allow db = {w \<in> set (kn_annotations db). kan_enabled w \<and> kar_embedding w \<noteq> None \<and> kar_model w = Some m \<and>
     in_annotation_scope cid allow w}"

definition match_score :: "vector_distance \<Rightarrow> real list \<Rightarrow> annotation_row \<Rightarrow> real" where
  "match_score cosd v w = max 0 (min 1 (1 - the (cosd (the (kar_embedding w)) v)))"

definition clear_winner ::
  "vector_distance \<Rightarrow> real list \<Rightarrow> ustr \<Rightarrow> ustr \<Rightarrow> bool \<Rightarrow> real \<Rightarrow> knowledge_db \<Rightarrow> annotation_match \<Rightarrow> bool" where
  "clear_winner cosd v m cid allow margin db a \<longleftrightarrow> (\<exists>w \<in> candidate_rows m cid allow db.
     a = \<lparr>am_annotation_id = kan_id w, am_answer = strip (kan_answer w), am_score = match_score cosd v w, am_threshold = kan_threshold w\<rparr> \<and>
     kan_threshold w \<le> match_score cosd v w \<and>
     (\<forall>w' \<in> candidate_rows m cid allow db. kan_id w' \<noteq> kan_id w \<longrightarrow> margin \<le> match_score cosd v w - match_score cosd v w'))"

lemma sorted_second: "sorted (map f (x # y # ys)) \<Longrightarrow> z \<in> set (x # y # ys) \<Longrightarrow> z \<noteq> x \<Longrightarrow> f y \<le> f z"
  by auto

lemma candidates_best:
  assumes "annotation_candidates cosd v m cid allow 2 db = Inr ((i, answer, score, threshold) # rest)"
  obtains w where "w \<in> candidate_rows m cid allow db" "i = kan_id w" "answer = kan_answer w" "score = match_score cosd v w"
    "threshold = kan_threshold w"
    "\<And>w'. w' \<in> candidate_rows m cid allow db \<Longrightarrow> kan_id w' \<noteq> i \<Longrightarrow> match_score cosd v w' \<le> second_score rest"
proof -
  let ?rows = "filter (\<lambda>a. kan_enabled a \<and> kar_embedding a \<noteq> None \<and> kar_model a = Some m \<and> in_annotation_scope cid allow a) (kn_annotations db)"
  let ?far = "\<lambda>a. the (cosd (the (kar_embedding a)) v)"
  let ?row = "\<lambda>a. (kan_id a, kan_answer a, match_score cosd v a, kan_threshold a)"
  define ys where "ys = sort_key ?far (sort_key kan_id ?rows)"
  have rows: "set ys = candidate_rows m cid allow db" by (auto simp: ys_def candidate_rows_def)
  have "map ?row (take 2 ys) = (i, answer, score, threshold) # rest"
    using assms unfolding annotation_candidates_def Let_def ys_def match_score_def by (simp split: if_splits)
  then obtain w ys' where ys: "ys = w # ys'" and w: "i = kan_id w" "answer = kan_answer w" "score = match_score cosd v w" "threshold = kan_threshold w"
    and rest: "rest = map ?row (take 1 ys')" by (cases ys) auto
  have sorted: "sorted (map ?far ys)" by (simp add: ys_def)
  have "match_score cosd v w' \<le> second_score rest" if w': "w' \<in> set ys" "kan_id w' \<noteq> i" for w'
  proof (cases ys')
    case Nil
    then show ?thesis using w' w ys by simp
  next
    case (Cons w2 ys2)
    then have "?far w2 \<le> ?far w'" using sorted_second [of ?far w w2 ys2 w'] sorted w' w(1) ys by auto
    then show ?thesis by (simp add: rest Cons second_score_def match_score_def)
  qed
  then show thesis using that [of w] w rows ys by auto
qed

locale annotation_store =
  fixes P :: "('s, 'z) matcher_scheme" and kb :: "'s \<Rightarrow> knowledge_db" and cosd :: vector_distance
  assumes candidates_read: "kx_candidates P v m cid allow k s = (q, s') \<Longrightarrow>
      kb s' = kb s \<and> (\<forall>cs. q = Inr cs \<longrightarrow> annotation_candidates cosd v m cid allow k (kb s) = Inr cs)"
    and record_appends: "kx_record P cid h a x y out code s = (Inr (), s') \<Longrightarrow>
      \<exists>row. kn_audits (kb s') = kn_audits (kb s) @ [row] \<and> kau_conversation row = cid \<and> kau_hash row = h \<and>
        kau_annotation row = a \<and> kau_outcome row = out"
    and record_raises: "kx_record P cid h a x y out code s = (Inl e, s') \<Longrightarrow> kn_audits (kb s') = kn_audits (kb s)"
    and hit_keeps: "kx_hit P i s = (u, s') \<Longrightarrow> kn_audits (kb s') = kn_audits (kb s)"
begin

text \<open>The audit row of a question: from the state after the embedding to the end.\<close>

definition one_audit :: "ustr \<Rightarrow> ustr \<Rightarrow> annotation_match option \<Rightarrow> 's \<Rightarrow> 's \<Rightarrow> bool" where
  "one_audit cid h r s s' \<longleftrightarrow> (\<exists>row. kn_audits (kb s') = kn_audits (kb s) @ [row] \<and> kau_conversation row = cid \<and> kau_hash row = h \<and>
     (case r of None \<Rightarrow> kau_outcome row \<noteq> lit ''HIT''
        | Some a \<Rightarrow> kau_outcome row = lit ''HIT'' \<and> kau_annotation row = Some (am_annotation_id a)))"

lemma record_one:
  assumes "kx_record P cid h a x y out code s = (Inr (), s')" and "out \<noteq> lit ''HIT''"
  shows "one_audit cid h None s s'"
  using record_appends [OF assms(1)] assms(2) unfolding one_audit_def by auto

lemma miss_outcome:
  assumes "bindp (kx_record P cid h a x y (lit ''MISS'') c) (\<lambda>_. retp None) s = (b, s')"
  shows "(\<forall>e. b = Inl e \<longrightarrow> kn_audits (kb s') = kn_audits (kb s)) \<and> (\<forall>r. b = Inr r \<longrightarrow> r = None \<and> one_audit cid h r s s')"
  using assms by (cases rule: bindp_cases) (auto dest: record_raises intro: record_one)

lemma judge_outcome:
  assumes "judge_candidates P cid h cs s = (b, s')" and "\<forall>(i, answer, score, threshold) \<in> set cs. \<exists>a. mk_match i answer score threshold = Inr a"
  shows "(\<forall>e. b = Inl e \<longrightarrow> kn_audits (kb s') = kn_audits (kb s)) \<and> (\<forall>r. b = Inr r \<longrightarrow> one_audit cid h r s s') \<and>
    (\<forall>a. b = Inr (Some a) \<longrightarrow> (\<exists>i answer score threshold rest. cs = (i, answer, score, threshold) # rest \<and>
       mk_match i answer score threshold = Inr a \<and> threshold \<le> score \<and> kx_margin P \<le> score - second_score rest))"
proof (cases cs)
  case Nil
  then have "bindp (kx_record P cid h None None None (lit ''MISS'') None) (\<lambda>_. retp None) s = (b, s')"
    using assms(1) by (simp add: judge_candidates_def)
  from miss_outcome [OF this] show ?thesis by blast
next
  case (Cons c rest)
  obtain i answer score threshold where c: "c = (i, answer, score, threshold)" by (cases c)
  show ?thesis
  proof (cases "score < threshold \<or> score - second_score rest < kx_margin P")
    case True
    then have "bindp (kx_record P cid h (Some i) (Some score) (Some threshold) (lit ''MISS'') None) (\<lambda>_. retp None) s = (b, s')"
      using assms(1) by (simp add: Cons c judge_candidates_def)
    from miss_outcome [OF this] show ?thesis by blast
  next
    case False
    from assms(2) obtain a where a: "mk_match i answer score threshold = Inr a" by (auto simp: Cons c)
    have "bindp (kx_hit P i) (\<lambda>_. bindp (kx_record P cid h (Some i) (Some score) (Some threshold) (lit ''HIT'') None)
        (\<lambda>_. bindp (of_result (mk_match i answer score threshold)) (\<lambda>m. retp (Some m)))) s = (b, s')"
      using assms(1) False by (simp add: Cons c judge_candidates_def)
    then have run: "bindp (kx_hit P i) (\<lambda>_. bindp (kx_record P cid h (Some i) (Some score) (Some threshold) (lit ''HIT'') None)
        (\<lambda>_. retp (Some a))) s = (b, s')" unfolding a of_result_def sum.case bindp_retp .
    have id: "am_annotation_id a = i" using a by (auto simp: mk_match_def split: if_splits)
    from run show ?thesis
    proof (cases rule: bindp_cases)
      case (raises e)
      then show ?thesis by (auto dest: hit_keeps)
    next
      case (returned u s1)
      note s1 = hit_keeps [OF returned(1)]
      from returned(2) show ?thesis
      proof (cases rule: bindp_cases)
        case (raises e)
        then show ?thesis using s1 by (auto dest: record_raises)
      next
        case (returned u2 s2)
        then have end_state: "s2 = s'" "b = Inr (Some a)" by simp_all
        have "kx_record P cid h (Some i) (Some score) (Some threshold) (lit ''HIT'') None s1 = (Inr (), s')"
          using returned(1) end_state by simp
        from record_appends [OF this] have "one_audit cid h (Some a) s s'" unfolding one_audit_def s1 id option.case by blast
        then show ?thesis using end_state a False by (auto simp: Cons c)
      qed
    qed
  qed
qed

lemma match_outcome:
  assumes "match_query P query cid allow s = (Inr r, s')" and emb: "kx_embed P [query] s = (q, s1)"
    and valid: "\<forall>w \<in> set (kn_annotations (kb s1)). strip (kan_answer w) \<noteq> [] \<and> 0 \<le> kan_threshold w \<and> kan_threshold w \<le> 1"
  shows "one_audit cid (kx_digest P (strip query)) r s1 s'"
    and "\<And>a. r = Some a \<Longrightarrow> \<exists>v vs m. q = Inr (v # vs, m) \<and> clear_winner cosd v m cid allow (kx_margin P) (kb s1) a"
proof -
  let ?h = "kx_digest P (strip query)"
  obtain b s2 where body: "match_body P ?h query cid allow s = (b, s2)" by (metis surj_pair)
  have body_case: "(\<forall>e. b = Inl e \<longrightarrow> kn_audits (kb s2) = kn_audits (kb s1)) \<and> (\<forall>r. b = Inr r \<longrightarrow> one_audit cid ?h r s1 s2) \<and>
    (\<forall>a. b = Inr (Some a) \<longrightarrow> (\<exists>v vs m. q = Inr (v # vs, m) \<and> clear_winner cosd v m cid allow (kx_margin P) (kb s1) a))"
  proof (cases "\<exists>v vs m. q = Inr (v # vs, m)")
    case False
    then have "b = Inl (case q of Inl e \<Rightarrow> e | _ \<Rightarrow> Raised (lit ''IndexError'')) \<and> s2 = s1"
      using body emb by (auto simp: match_body_def bindp_def split: sum.splits prod.splits list.splits)
    then show ?thesis by simp
  next
    case True
    then obtain v vs m where q: "q = Inr (v # vs, m)" by blast
    obtain cq s3 where cq: "kx_candidates P v m cid allow 2 s1 = (cq, s3)" by (metis surj_pair)
    note read = candidates_read [OF cq]
    show ?thesis
    proof (cases cq)
      case (Inl e)
      then have "b = Inl e \<and> s2 = s3" using body emb cq q by (simp add: match_body_def bindp_def)
      then show ?thesis using read by simp
    next
      case (Inr cs)
      then have judge: "judge_candidates P cid ?h cs s3 = (b, s2)" using body emb cq q by (simp add: match_body_def bindp_def)
      have cs: "annotation_candidates cosd v m cid allow 2 (kb s1) = Inr cs" using read Inr by blast
      have "\<forall>(i, answer, score, threshold) \<in> set cs. \<exists>a. mk_match i answer score threshold = Inr a"
        using cs valid unfolding annotation_candidates_def Let_def mk_match_def
        by (auto split: if_splits dest!: in_set_takeD)
      note judged = judge_outcome [OF judge this]
      have one: "one_audit cid ?h r s1 s2 = one_audit cid ?h r s3 s2" for r using read unfolding one_audit_def by simp
      have "clear_winner cosd v m cid allow (kx_margin P) (kb s1) a" if a: "b = Inr (Some a)" for a
      proof -
        obtain i answer score threshold rest where best: "cs = (i, answer, score, threshold) # rest" "mk_match i answer score threshold = Inr a"
          "threshold \<le> score" "kx_margin P \<le> score - second_score rest" using judged a by blast
        from cs obtain w where w: "w \<in> candidate_rows m cid allow (kb s1)" "i = kan_id w" "answer = kan_answer w"
          "score = match_score cosd v w" "threshold = kan_threshold w"
          and others: "\<And>w'. w' \<in> candidate_rows m cid allow (kb s1) \<Longrightarrow> kan_id w' \<noteq> i \<Longrightarrow> match_score cosd v w' \<le> second_score rest"
          unfolding best(1) using candidates_best by blast
        have "a = \<lparr>am_annotation_id = kan_id w, am_answer = strip (kan_answer w), am_score = match_score cosd v w, am_threshold = kan_threshold w\<rparr>"
          using best(2) w by (simp add: mk_match_def split: if_splits)
        then show ?thesis unfolding clear_winner_def using w others best(3,4) by fastforce
      qed
      then show ?thesis using judged one read q by auto
    qed
  qed
  have run: "catchp (match_body P ?h query cid allow) (\<lambda>n. bindp (kx_record P cid ?h None None None (lit ''ERROR'') (Some n)) (\<lambda>_. retp None)) s = (Inr r, s')"
    using assms(1) unfolding match_query_def by (simp split: if_splits)
  show "one_audit cid ?h r s1 s'" and "\<And>a. r = Some a \<Longrightarrow> \<exists>v vs m. q = Inr (v # vs, m) \<and> clear_winner cosd v m cid allow (kx_margin P) (kb s1) a"
  proof (atomize (full), cases b)
    case (Inr x)
    then show "one_audit cid ?h r s1 s' \<and> (\<forall>a. r = Some a \<longrightarrow> (\<exists>v vs m. q = Inr (v # vs, m) \<and> clear_winner cosd v m cid allow (kx_margin P) (kb s1) a))"
      using run body body_case by (simp add: catchp_def)
  next
    case (Inl e)
    then obtain n where "e = Raised n" using run body by (cases e) (auto simp: catchp_def)
    then have "bindp (kx_record P cid ?h None None None (lit ''ERROR'') (Some n)) (\<lambda>_. retp None) s2 = (Inr r, s')"
      using run body Inl by (simp add: catchp_def)
    then have r: "r = None" and rec: "kx_record P cid ?h None None None (lit ''ERROR'') (Some n) s2 = (Inr (), s')"
      by (auto elim!: bindp_cases)
    have "one_audit cid ?h None s2 s'" by (rule record_one [OF rec]) simp
    then show "one_audit cid ?h r s1 s' \<and> (\<forall>a. r = Some a \<longrightarrow> (\<exists>v vs m. q = Inr (v # vs, m) \<and> clear_winner cosd v m cid allow (kx_margin P) (kb s1) a))"
      using r body_case Inl unfolding one_audit_def by simp
  qed
qed

end

definition table_matcher ::
  "vector_distance \<Rightarrow> (ustr \<Rightarrow> ustr) \<Rightarrow> real \<Rightarrow> (knowledge_db \<times> 'w) embedder \<Rightarrow> (knowledge_db \<times> 'w) matcher" where
  "table_matcher cosd digest margin emb = \<lparr>
     kx_embed = emb,
     kx_candidates = (\<lambda>v m cid allow k. reads (annotation_candidates cosd v m cid allow k)),
     kx_record = (\<lambda>cid h a x y out code. on_tables (record_annotation_match cid h a x y out code)),
     kx_hit = (\<lambda>i. on_tables (liftp (\<lambda>db. ((), mark_annotation_hit i db)))),
     kx_digest = digest, kx_margin = margin\<rparr>"

lemma record_row:
  assumes "record_annotation_match cid h a x y out code db = (r, db')"
  shows "r = Inr () \<Longrightarrow> kn_audits db' = kn_audits db @ [\<lparr>kau_id = kn_uuid db (kn_drawn db), kau_conversation = cid, kau_annotation = a,
      kau_hash = h, kau_score = x, kau_threshold = y, kau_outcome = out, kau_error = code, kau_created = kn_clock db\<rparr>]"
    and "r = Inl e \<Longrightarrow> kn_audits db' = kn_audits db"
  using assms unfolding record_annotation_match_def kb_uuid_def Let_def prod.case
  by (clarsimp split: if_splits; force)+

interpretation matching: annotation_store "table_matcher cosd digest margin emb" fst cosd
proof
  let ?P = "table_matcher cosd digest margin emb"
  fix v m cid allow k s q s' h a x y out code e i u
  show "fst s' = fst s \<and> (\<forall>cs. q = Inr cs \<longrightarrow> annotation_candidates cosd v m cid allow k (fst s) = Inr cs)"
    if "kx_candidates ?P v m cid allow k s = (q, s')"
    using that by (auto simp: table_matcher_def reads_def)
  show "\<exists>row. kn_audits (fst s') = kn_audits (fst s) @ [row] \<and> kau_conversation row = cid \<and> kau_hash row = h \<and>
      kau_annotation row = a \<and> kau_outcome row = out" if "kx_record ?P cid h a x y out code s = (Inr (), s')"
    using record_row [of cid h a x y out code "fst s" _ "fst s'"] that by (auto simp: table_matcher_def on_tables_eq)
  show "kn_audits (fst s') = kn_audits (fst s)" if "kx_record ?P cid h a x y out code s = (Inl e, s')"
    using record_row [of cid h a x y out code "fst s" _ "fst s'"] that by (auto simp: table_matcher_def on_tables_eq)
  show "kn_audits (fst s') = kn_audits (fst s)" if "kx_hit ?P i s = (u, s')"
  proof -
    have "mark_annotation_hit i (fst s) = fst s'" using that by (simp add: table_matcher_def on_tables_eq liftp_def)
    moreover have "kn_audits (mark_annotation_hit i db) = kn_audits db" for db by (simp add: mark_annotation_hit_def)
    ultimately show ?thesis by metis
  qed
qed

text \<open>
  C35: a stored answer is given only when it clearly matches: the annotation is enabled, in scope and
  of the model of the embedding, its score reaches its own threshold and is ahead of every other
  candidate by the margin. Each question that returns leaves exactly one audit row, a hit exactly
  when it is answered.
\<close>

theorem annotation_answers_clearly:
  assumes "match_query (table_matcher cosd digest margin emb) query cid allow s = (Inr r, s')" and "emb [query] s = (q, s1)"
    and "\<forall>w \<in> set (kn_annotations (fst s1)). strip (kan_answer w) \<noteq> [] \<and> 0 \<le> kan_threshold w \<and> kan_threshold w \<le> 1"
  shows "(\<exists>row. kn_audits (fst s') = kn_audits (fst s1) @ [row] \<and> kau_conversation row = cid \<and> kau_hash row = digest (strip query) \<and>
      (case r of None \<Rightarrow> kau_outcome row \<noteq> lit ''HIT''
         | Some a \<Rightarrow> kau_outcome row = lit ''HIT'' \<and> kau_annotation row = Some (am_annotation_id a))) \<and>
    (\<forall>a. r = Some a \<longrightarrow> (\<exists>v vs m. q = Inr (v # vs, m) \<and> clear_winner cosd v m cid allow margin (fst s1) a))"
proof -
  have emb: "kx_embed (table_matcher cosd digest margin emb) [query] s = (q, s1)" using assms(2) by (simp add: table_matcher_def)
  have fields: "kx_digest (table_matcher cosd digest margin emb) = digest" "kx_margin (table_matcher cosd digest margin emb) = margin"
    by (simp_all add: table_matcher_def)
  show ?thesis
    using matching.match_outcome [OF assms(1) emb assms(3)] unfolding matching.one_audit_def fields by blast
qed

section \<open>What the search tool shows\<close>

definition allowed_hit :: "knowledge_db \<Rightarrow> ustr option \<Rightarrow> bool \<Rightarrow> bool \<Rightarrow> search_hit \<Rightarrow> bool" where
  "allowed_hit db key include_global allow h \<longleftrightarrow> (\<exists>d \<in> set (kn_documents db). khh_document h = kdc_id d \<and> khh_scope h = kdc_scope d \<and>
     kdc_status d = KB_READY \<and> in_knowledge_scope db key include_global allow d)"

locale search_store =
  fixes P :: "('s, 'z) knowledge_finder_scheme" and kb :: "'s \<Rightarrow> knowledge_db"
  assumes search_allowed: "ks_search P v m key include_global allow k th s = (Inr found, s') \<Longrightarrow>
      kb s' = kb s \<and> length found \<le> k \<and> (\<forall>h \<in> set found. allowed_hit (kb s') key include_global allow h)"
begin

lemma find_allowed:
  assumes "find_knowledge P query key allow include_global top_k th s = (Inr found, s')"
  shows "length found \<le> 20 \<and> (\<forall>h \<in> set found. allowed_hit (kb s') key include_global allow h)"
proof -
  from assms obtain vs m s1 where "(case vs of [] \<Rightarrow> retp [] | v # _ \<Rightarrow>
      ks_search P v m key include_global allow (nat (max 1 (min top_k 20))) (max 0 (min th 1))) s1 = (Inr found, s')"
    unfolding find_knowledge_def by (elim bindp_cases) (auto split: prod.splits)
  then show ?thesis
    by (cases vs) (auto dest!: search_allowed)
qed

lemma kb_search_allowed:
  assumes "kb_search_run P ctx args s = (Inr res, s')" and "tr_ok res"
  obtains query found where "res = kb_answer query found" "length found \<le> 20"
    "\<forall>h \<in> set found. allowed_hit (kb s') (Some (stable_key (tc_conversation ctx))) True (ck_connection_id (tc_conversation ctx) \<noteq> ks_sandbox P) h"
proof -
  have no: "\<not> tr_ok (mk_fail c t b)" for c t b by (simp add: mk_fail_def tool_failure_def)
  from assms no obtain query top_k th s1 found where "find_knowledge P query (Some (stable_key (tc_conversation ctx)))
      (ck_connection_id (tc_conversation ctx) \<noteq> ks_sandbox P) True top_k th s1 = (Inr found, s')" "res = kb_answer query found"
    unfolding kb_search_run_def by (auto split: option.splits json.splits if_splits elim!: bindp_cases)
  then show thesis using find_allowed that by blast
qed

end

definition table_finder :: "vector_distance \<Rightarrow> (knowledge_db \<times> 'w) embedder \<Rightarrow> ustr \<Rightarrow> (knowledge_db \<times> 'w) knowledge_finder" where
  "table_finder cosd emb sandbox = \<lparr>ks_embed = emb,
     ks_search = (\<lambda>v m key include_global allow k th. reads (knowledge_search cosd v m key include_global allow k th)), ks_sandbox = sandbox\<rparr>"

interpretation finding: search_store "table_finder cosd emb sandbox" fst
proof
  fix v m key include_global allow k th s found s'
  assume "ks_search (table_finder cosd emb sandbox) v m key include_global allow k th s = (Inr found, s')"
  then have run: "knowledge_search cosd v m key include_global allow k th (fst s) = Inr found" and same: "s' = s"
    by (auto simp: table_finder_def reads_def)
  have "length found \<le> k" using run unfolding knowledge_search_def Let_def by (auto split: if_splits)
  moreover have "allowed_hit (fst s) key include_global allow h" if "h \<in> set found" for h
  proof (rule search_Inr [OF run that])
    fix c p d x
    assume d: "d \<in> set (kn_documents (fst s))" and "h = row_hit x (c, p, d)" "(c, p, d) \<in> set (search_rows m key include_global allow (fst s))"
    then have "khh_document h = kdc_id d \<and> khh_scope h = kdc_scope d \<and> kdc_status d = KB_READY \<and>
        in_knowledge_scope (fst s) key include_global allow d" by (simp add: search_rows_def row_hit_def)
    then show ?thesis using d unfolding allowed_hit_def by blast
  qed
  ultimately show "fst s' = fst s \<and> length found \<le> k \<and> (\<forall>h \<in> set found. allowed_hit (fst s') key include_global allow h)"
    using same by simp
qed

text \<open>
  the search tool shows at most twenty passages, all of ready documents that are global or belong
  to the conversation the tool is called in; called from the sandbox, only of global ones.
\<close>

theorem kb_search_respects_scope:
  assumes "kb_search_run (table_finder cosd emb sandbox) ctx args s = (Inr res, s')" and "tr_ok res"
  shows "\<exists>query found. res = kb_answer query found \<and> length found \<le> 20 \<and>
    (\<forall>h \<in> set found. \<exists>d \<in> set (kn_documents (fst s')). khh_document h = kdc_id d \<and> kdc_status d = KB_READY \<and>
       (kdc_scope d = KB_GLOBAL \<or> ck_connection_id (tc_conversation ctx) \<noteq> sandbox \<and>
          (\<exists>c \<in> set (db_conversations (kn_messages (fst s'))). cv_stable_key c = stable_key (tc_conversation ctx) \<and>
             kdc_conversation d = Some (cv_id c))))"
proof -
  have sandbox: "ks_sandbox (table_finder cosd emb sandbox) = sandbox" by (simp add: table_finder_def)
  show ?thesis
    by (rule finding.kb_search_allowed [OF assms]) (unfold sandbox allowed_hit_def in_knowledge_scope_def, blast)
qed

section \<open>Witnesses\<close>

definition demo_embedder :: "(knowledge_db \<times> 'w) embedder" where
  "demo_embedder texts s = (Inr (map (\<lambda>_. [1]) texts, [109]), s)"

definition broken_embedder :: "(knowledge_db \<times> 'w) embedder" where
  "broken_embedder texts s = (Inl (Raised [98]), s)"

abbreviation demo_ingestor :: "(knowledge_db \<times> unit) embedder \<Rightarrow> (knowledge_db \<times> unit) ingestor" where
  "demo_ingestor emb \<equiv> table_ingestor 300 (\<lambda>c. Inr []) 2400 700 100 emb (\<lambda>w. False)"

lemma demo_extract: "extract_text pdf KB_TEXT [104, 105] = Inr [104, 105]"
  by (simp add: extract_text_def starts_with_def byte_order_mark_def utf8_width_def strip_def lstrip_def rstrip_def py_space_def)

lemma demo_one_parent: "hierarchical_chunks [104, 105] 2400 700 100 = Inr [demo_parent]"
  by (simp add: hierarchical_chunks_def paragraphs_def blank_break_def hard_split_def split_from.simps cut_end_def piece_of_def
    unix_lines.simps prepared_children_def demo_parent_def chunk_tokens_def bindr_def
    strip_def lstrip_def rstrip_def py_space_def Let_def)

lemma demo_claimed: "claim_ingestion 300 [7] 1 demo_created =
   (\<lparr>kic_status = CLAIM_ACQUIRED, kic_source = Some demo_source\<rparr>, knowledge_step 300 (Claim_ingestion [7] 1) demo_created)"
  by (simp add: demo_kb_defs)

lemma demo_completed: "complete_ingestion demo_source [104, 105] [demo_parent] [[1]] [109] (knowledge_step 300 (Claim_ingestion [7] 1) demo_created) =
   (Inr True, demo_ready)"
  by (simp add: demo_kb_defs)

lemma demo_source_text: "ingest_source_text (demo_ingestor emb) demo_source = Inr ([104, 105], [demo_parent])"
  by (simp add: ingest_source_text_def table_ingestor_def demo_source_def demo_extract demo_one_parent)

lemma demo_ingest: "ingest (demo_ingestor demo_embedder) [7] 1 (demo_created, ()) = (Inr CLAIM_ACQUIRED, (demo_ready, ()))"
proof -
  let ?P = "demo_ingestor demo_embedder"
  have "child_texts [demo_parent] = [[104, 105]]" by (simp add: child_texts_def demo_parent_def)
  then have "ingest_claimed ?P demo_source (knowledge_step 300 (Claim_ingestion [7] 1) demo_created, ()) = (Inr CLAIM_ACQUIRED, (demo_ready, ()))"
    unfolding ingest_claimed_def demo_source_text of_result_def sum.case bindp_retp prod.case
    by (simp add: table_ingestor_def demo_embedder_def bindp_def on_tables_def refusing_def demo_completed del: knowledge_step.simps)
  then show ?thesis
    by (simp add: ingest_def bindp_def table_ingestor_def on_tables_def refusing_def liftp_def demo_claimed catchp_def del: knowledge_step.simps)
qed

theorem ingested_document_whole_witness:
  "\<exists>src t ps vs m. claimed_source [7] 1 src demo_created \<and> hierarchical_chunks t 2400 700 100 = Inr ps \<and> ps \<noteq> [] \<and>
     stored_whole src t ps vs m demo_ready"
  using ingested_document_whole [OF demo_ingest] unfolding fst_conv by blast

lemma broken_ingest: "\<exists>s'. ingest (demo_ingestor broken_embedder) [7] 1 (demo_created, ()) = (Inl (Raised [98]), s')"
proof -
  let ?P = "demo_ingestor broken_embedder"
  have "ingest_claimed ?P demo_source s = (Inl (Raised [98]), s)" for s
    unfolding ingest_claimed_def demo_source_text of_result_def sum.case bindp_retp prod.case
    by (simp add: table_ingestor_def broken_embedder_def bindp_def)
  then show ?thesis
    by (simp add: ingest_def bindp_def table_ingestor_def on_tables_def refusing_def liftp_def demo_claimed catchp_def del: knowledge_step.simps)
qed

theorem failed_ingestion_recorded_witness:
  "\<exists>s'. ingest (demo_ingestor broken_embedder) [7] 1 (demo_created, ()) = (Inl (Raised [98]), s') \<and> marked_failed [7] 1 [98] (fst s')"
  using broken_ingest failed_ingestion_recorded [of 300 _ _ _ _ _ "\<lambda>w. False"] by blast

definition demo_held :: "knowledge_db" where
  "demo_held = knowledge_step 300 (Claim_ingestion [7] 1) demo_created"

lemma demo_held_busy: "\<exists>d. find_document [7] demo_held = Some d \<and> kdc_generation d = 1 \<and> kdc_status d = KB_PROCESSING \<and>
    \<not> claimable 300 (kn_clock demo_held) d"
  by (simp add: demo_held_def demo_kb_defs)

theorem busy_task_stays_pending_witness:
  "\<forall>cfg B eid. run_handler cfg B eid [1] (handle_ingest_task (demo_ingestor demo_embedder) (\<lambda>p. Inr ([7], 1))) None 1 (demo_held, ()) =
     (Inr 0, (demo_held, ()))"
proof -
  obtain d where d: "find_document [7] demo_held = Some d" "kdc_generation d = 1" "kdc_status d = KB_PROCESSING"
    "\<not> claimable 300 (kn_clock demo_held) d" using demo_held_busy by blast
  show ?thesis
    using busy_task_stays_pending [of "\<lambda>p. Inr ([7], 1)" "[1]" "[7]" 1 "(demo_held, ())" d 300 "\<lambda>w. False"] d by simp
qed

lemma demo_created_reached: "outbox_reach 300 [115] 10 (demo_created, mem_init, [])"
  unfolding demo_created_def by (rule outbox_reach.operate) (rule outbox_reach.start, simp)

theorem queued_document_not_lost_witness:
  "\<exists>d \<in> set (kn_documents demo_created). kdc_status d = KB_QUEUED \<and>
     ((\<exists>t \<in> set (kn_outbox demo_created). is_task (kdc_id d) (kdc_generation d) t \<and> kob_published t = None) \<or>
      task_payload (kdc_id d) (kdc_generation d) \<in> set [])"
proof -
  have "\<exists>d \<in> set (kn_documents demo_created). kdc_status d = KB_QUEUED" by (simp add: demo_kb_defs)
  then show ?thesis using queued_document_not_lost [OF demo_created_reached] by blast
qed

lemma demo_pending: "pending_ingest_tasks 50 None demo_created = [([7], 1)]"
  by (simp add: pending_ingest_tasks_def demo_kb_defs)

theorem flush_publishes_tasks_witness:
  "\<exists>db' b'. flush_once (table_dispatcher 300 [115] 10 (\<lambda>b. False) (\<lambda>b. [])) (demo_created, mem_init, []) =
     (Inr 1, (db', b', [task_payload [7] 1]))"
  using flush_publishes_tasks [of demo_created 300 "[115]" 10 mem_init "[]"] unfolding demo_pending by auto

definition demo_annotation :: annotation_reply where
  "demo_annotation = \<lparr>kan_id = [5], kan_scope = KB_GLOBAL, kan_conversation = None, kan_question = [113], kan_answer = [97],
     kan_threshold = 1 / 2, kan_enabled = True, kan_source = None\<rparr>"

definition demo_annotated :: knowledge_db where
  "demo_annotated = (new_knowledge_db (new_message_db (\<lambda>n. [n])) (\<lambda>n. [n]))
     \<lparr>kn_messages := (new_message_db (\<lambda>n. [n]))\<lparr>db_conversations := [\<lparr>cv_id = [3], cv_stable_key = [4], cv_connection_id = [4], cv_platform = [4],
        cv_chat_kind = [4], cv_chat_id = [4], cv_thread_id = None, cv_ephemeral = False, cv_last_message_at = None\<rparr>]\<rparr>,
      kn_annotations := [row_of_annotation demo_annotation [1] [109] 0]\<rparr>"

lemma demo_match: "\<exists>s'. match_query (table_matcher (\<lambda>u v. Some 0) id (3 / 100) demo_embedder) [113] [3] True (demo_annotated, ()) =
    (Inr (Some \<lparr>am_annotation_id = [5], am_answer = [97], am_score = 1, am_threshold = 1 / 2\<rparr>), s')"
  by (simp add: match_query_def match_body_def judge_candidates_def table_matcher_def demo_embedder_def bindp_def catchp_def reads_def
    on_tables_def refusing_def liftp_def annotation_candidates_def demo_annotated_def demo_annotation_def row_of_annotation_def in_annotation_scope_def
    second_score_def mk_match_def of_result_def record_annotation_match_def mark_annotation_hit_def known_conversation_def kb_uuid_def
    new_knowledge_db_def surrogate_def strip_def lstrip_def rstrip_def py_space_def Let_def)

theorem annotation_answers_clearly_witness:
  "\<exists>a s' row. match_query (table_matcher (\<lambda>u v. Some 0) id (3 / 100) demo_embedder) [113] [3] True (demo_annotated, ()) = (Inr (Some a), s') \<and>
     kn_audits (fst s') = [row] \<and> kau_outcome row = lit ''HIT''"
proof -
  obtain a s' where run: "match_query (table_matcher (\<lambda>u v. Some 0) id (3 / 100) demo_embedder) [113] [3] True (demo_annotated, ()) = (Inr (Some a), s')"
    using demo_match by blast
  have "\<forall>w \<in> set (kn_annotations (fst (demo_annotated, ()))). strip (kan_answer w) \<noteq> [] \<and> 0 \<le> kan_threshold w \<and> kan_threshold w \<le> 1"
    by (simp add: demo_annotated_def demo_annotation_def row_of_annotation_def strip_def lstrip_def rstrip_def py_space_def)
  from annotation_answers_clearly [OF run demo_embedder_def this] run show ?thesis
    by (auto simp: demo_annotated_def new_knowledge_db_def)
qed

definition demo_tool_context :: "ustr \<Rightarrow> tool_context" where
  "demo_tool_context connection = \<lparr>tc_invocation_id = [1], tc_conversation = \<lparr>ck_connection_id = connection, ck_chat_kind = DIRECT,
     ck_chat_id = [1], ck_thread_id = None\<rparr>, tc_actor_identity_id = [1], tc_granted_capabilities = [], tc_correlation_id = [1]\<rparr>"

lemma demo_kb_search: "\<exists>h. kb_search_run (table_finder (\<lambda>u v. Some 0) demo_embedder [115]) (demo_tool_context [115]) [(lit ''query'', JStr [104])] (demo_ready, ()) =
    (Inr (kb_answer [104] [h]), (demo_ready, ()))"
proof -
  have "\<exists>h. knowledge_search (\<lambda>u v. Some 0) [1] [109] (Some (stable_key (tc_conversation (demo_tool_context [115])))) True False 5 (7 / 20)
      demo_ready = Inr [h]"
    by (simp add: demo_kb_defs knowledge_search_def search_rows_def in_knowledge_scope_def row_hit_def valid_hit_def strip_def lstrip_def
      rstrip_def py_space_def Let_def)
  then obtain h where "knowledge_search (\<lambda>u v. Some 0) [1] [109] (Some (stable_key (tc_conversation (demo_tool_context [115])))) True False 5 (7 / 20)
      demo_ready = Inr [h]" by blast
  moreover have "ck_connection_id (tc_conversation (demo_tool_context [115])) = [115]" by (simp add: demo_tool_context_def)
  ultimately show ?thesis
    by (simp add: kb_search_run_def find_knowledge_def table_finder_def demo_embedder_def reads_def bindp_def
      of_result_def dict_get_def strip_def lstrip_def rstrip_def py_space_def) blast
qed

theorem kb_search_respects_scope_witness:
  "\<exists>h d. kb_search_run (table_finder (\<lambda>u v. Some 0) demo_embedder [115]) (demo_tool_context [115]) [(lit ''query'', JStr [104])] (demo_ready, ()) =
     (Inr (kb_answer [104] [h]), (demo_ready, ())) \<and> d \<in> set (kn_documents demo_ready) \<and> kdc_scope d = KB_GLOBAL"
proof -
  obtain h where run: "kb_search_run (table_finder (\<lambda>u v. Some 0) demo_embedder [115]) (demo_tool_context [115]) [(lit ''query'', JStr [104])] (demo_ready, ()) =
    (Inr (kb_answer [104] [h]), (demo_ready, ()))" using demo_kb_search by blast
  have ok: "tr_ok (kb_answer [104] [h])" by (simp add: kb_answer_def tool_success_def)
  have sandbox: "ck_connection_id (tc_conversation (demo_tool_context [115])) = [115]" by (simp add: demo_tool_context_def)
  from kb_search_respects_scope [OF run ok] obtain query found where f: "kb_answer [104] [h] = kb_answer query found"
    "\<forall>h \<in> set found. \<exists>d \<in> set (kn_documents demo_ready). kdc_scope d = KB_GLOBAL" unfolding sandbox fst_conv by blast
  have "found \<noteq> []" using f(1) by (auto simp: kb_answer_def tool_success_def freeze_json_object_def)
  then obtain h' where "h' \<in> set found" by (cases found) auto
  with f(2) obtain d where "d \<in> set (kn_documents demo_ready)" "kdc_scope d = KB_GLOBAL" by blast
  then show ?thesis using run by blast
qed

end
