(* ===== verification/Spec2Isabelle.thy ===== *)
theory Spec2Isabelle
  imports StreamConsumer Guards AgentHost Leases Moderation ModelRouting BrokerRuns Adapters Pairing OperatorAuth Willingness MessageStore AgentWorker CoreMemory WebTools Skills MemoryService Gateway QqLink Maintenance Reflection KnowledgeServices
begin

text \<open>
  A verification development for mybot, a self-hosted QQ and Telegram agent bot written in
  Python. File names below are relative to \<open>src/mybot\<close>.

  The program. Platform adapters turn platform events into inbound events and publish them on
  the ingest stream (\<open>adapters\<close>, \<open>infrastructure/streams.py\<close>). The agent worker
  (\<open>services/agent_worker.py\<close>) consumes that stream under a lease per conversation: access gate,
  inbound moderation, routing, guards and budget, one agent turn with memory and tools, outbound
  moderation, recording, publication on the outbound stream. The gateway
  (\<open>services/gateway.py\<close>) consumes the outbound stream and delivers each reply through the
  adapter of its platform. Plugins run in processes of their own and talk to the broker
  (\<open>plugins/broker.py\<close>). The maintenance worker (\<open>services/maintenance.py\<close>) runs the periodic jobs:
  check-ins, consolidation of memory, learning, tasks of plugins.

  How code becomes definitions. A frozen pydantic model or dataclass is a record, an enum or a
  union a datatype, and the predicate \<open>valid_x\<close> says what a validated value of model \<open>x\<close>
  satisfies. A Python \<open>str\<close> is the list of its code points (\<open>ustr\<close>), a \<open>dict\<close> an association list in
  insertion order (\<open>dict\<close>) or a function where order cannot matter. An exception is the left side
  of a sum. An operation with effects is a program \<open>'s \<Rightarrow> (exn + 'a) \<times> 's\<close> over a state of its own;
  \<open>bindp\<close> sequences two programs and \<open>catchp\<close> is a \<open>try\<close>, and every \<open>except\<close>, every early return
  is a branch of the definition. An \<open>await\<close> lets other tasks run: where that matters (leases, the
  plugin broker, the QQ connection, the message and pairing tables) the operations are the steps
  of a relation, and the statements are about all its runs. A method of a repository is one
  transaction: one step on tables written as lists of rows, with the unique and foreign keys of
  the schema failing an insertion as the database does. Time is a clock in the state (seconds as
  reals, or microseconds as integers); identifiers come from a supply in the state.

  Parameters. Everything that is not code of this repository is an argument: HTTP, models,
  \<open>str.casefold\<close> and \<open>str.lower\<close>, hashes, the JSON decoder, regular expressions that a definition
  does not spell out, pgvector distances and trigram similarity, float formatting. Where a
  property relies on the behaviour of such an argument, this is a named hypothesis or an
  assumption of a locale, and the locale is interpreted on concrete definitions.

  The theories, bottom up:

  \<^item> \<open>Prelude\<close>: strings, dictionaries, results, programs and their frame rules. \<open>moves R p\<close> says
    that every run of \<open>p\<close> relates its states by \<open>R\<close>; the collections \<open>moves_intro\<close> and the
    elimination rule \<open>bindp_cases\<close> carry the frame proofs of all components.
  \<^item> \<open>Contracts\<close> (\<open>contracts\<close>) and \<open>Payload\<close> (\<open>adapters/payload.py\<close>, \<open>adapters/identity.py\<close>): the
    shared data, freezing and thawing of JSON, stable keys of conversations.
  \<^item> \<open>StreamApi\<close>, \<open>StreamBackend\<close>, \<open>StreamConsumer\<close> (\<open>infrastructure/streams.py\<close>): the backend protocol
    as a locale, the in-memory backend that interprets it, and the consumer loop proved from the
    locale. A pass is described by its visits, each with the state before and after it: no entry
    leaves the group unless its visit handled it, skipped it as a duplicate or dead-lettered it,
    and no fresh entry is handed out twice. A completed key keeps a redelivery from the handler
    for its whole lifetime, over any run of backend operations.
  \<^item> \<open>Budget\<close>, \<open>Guards\<close>, \<open>TurnPolicy\<close>, \<open>Willingness\<close> (\<open>infrastructure/budget.py\<close>, \<open>engine/guards.py\<close>,
    \<open>engine/turn_policy.py\<close>, \<open>engine/willingness.py\<close>): the decision whether a message gets a turn.
    The budget works on counters that may be down (locale \<open>counting_port\<close>); its ceilings are
    bounded over any interleaving of the checks and charges of the turns in flight.
  \<^item> \<open>Llm\<close>, \<open>Embeddings\<close>, \<open>ModelRouting\<close> (\<open>infrastructure/llm.py\<close>, \<open>infrastructure/embeddings.py\<close>,
    \<open>infrastructure/model_routing.py\<close>): clients with their retries, channels with failover,
    cooldowns, rotation and cost.
  \<^item> \<open>Prompt\<close>, \<open>ReplyShaping\<close>, \<open>ToolExec\<close>, \<open>AgentTurns\<close>, \<open>AgentHost\<close> (\<open>engine/prompt.py\<close>,
    \<open>engine/reply_shaping.py\<close>, \<open>engine/direct_replies.py\<close>, \<open>tools/__init__.py\<close>,
    \<open>tools/approvals.py\<close>, \<open>engine/agent_turns.py\<close>): one agent turn. The bound on tool runs and the
    audit row of each turn are proved from the locale \<open>agent_host\<close>, whose host may have no model,
    reach its deadline, lose its counters or have its row refused.
  \<^item> \<open>KeywordMatcher\<close>, \<open>Moderation\<close> (\<open>security/moderation.py\<close>): the keyword automaton, equivalent to
    looking for every term, and the chain of moderation backends with its audit trail.
  \<^item> \<open>Leases\<close> (\<open>infrastructure/leases.py\<close>), \<open>Pairing\<close> (\<open>security/pairing.py\<close>, \<open>repositories/pairing.py\<close>),
    \<open>OperatorAuth\<close> (\<open>operator/auth.py\<close>): exclusion, access to direct messages as a refinement of an
    access list, authentication of the console.
  \<^item> \<open>MessageStore\<close> (\<open>repositories/conversations.py\<close>, \<open>repositories/messages.py\<close>,
    \<open>repositories/system_kv.py\<close>), \<open>Profiles\<close> (\<open>repositories/profiles.py\<close>), \<open>CoreMemory\<close>
    (\<open>repositories/core_memory.py\<close>, \<open>tools/memory.py\<close>), \<open>MemoryItems\<close> (\<open>repositories/memory.py\<close>),
    \<open>MemoryService\<close> (\<open>engine/memory_service.py\<close>): tables with their keys, and the privacy of memory:
    what is recalled where, and where an extracted memory may go.
  \<^item> \<open>Reflection\<close> (\<open>engine/memory_consolidation.py\<close>, \<open>engine/personality_learning.py\<close>): what the periodic
    jobs write to memory, proved from locales over the memory service to stay inside the
    boundaries of the one conversation they read.
  \<^item> \<open>Chunks\<close>, \<open>KnowledgeBase\<close>, \<open>KnowledgeServices\<close> (\<open>engine/knowledge.py\<close>, \<open>contracts/knowledge.py\<close>,
    \<open>repositories/knowledge.py\<close>, \<open>tools/knowledge.py\<close>, \<open>services/knowledge.py\<close>): splitting documents,
    which loses no visible character, the knowledge tables with their scopes, leases on ingestion
    and outbox, and the services over them: no queued document is lost between the
    tables and the two dispatchers of the outbox (the worker's and the operator API's), an
    ingested one is stored whole, and an annotation answers only as a clear winner.
  \<^item> \<open>WebTools\<close>, \<open>Skills\<close> (\<open>tools/fetch.py\<close>, \<open>tools/search.py\<close>, \<open>tools/plugins.py\<close>, \<open>skills.py\<close>,
    \<open>tools/skills.py\<close>): built-in tools, with the guard against requests to private networks:
    it holds for the first request of a fetch, not for those that follow a redirect.
  \<^item> \<open>PluginConfig\<close>, \<open>Broker\<close>, \<open>BrokerRuns\<close> (\<open>plugins/config.py\<close>, \<open>plugins/broker.py\<close>): configuration
    schemas, and the broker as a step relation with its catalog invariant, at-most-once handover
    of invocations and quotas.
  \<^item> \<open>Adapters\<close>, \<open>TelegramBot\<close>, \<open>QqLink\<close> (\<open>adapters/qq\<close>, \<open>adapters/telegram\<close>): translation both ways,
    the long poll that loses no update under scripted failures of requests, publications and
    pauses, the WebSocket with its waiting calls.
  \<^item> \<open>AgentWorker\<close>, \<open>Gateway\<close>, \<open>Proactive\<close>, \<open>Maintenance\<close> (\<open>services\<close>): the workers composed of the above.
    Each states what it relies on as a locale and is interpreted on the tables and streams of
    the other theories: at most one reply per event, to its own chat, recorded and moderated
    before it is published, delivered before its entry is settled. \<open>AgentWorker\<close> splits the handler
    at the drafted reply: a published message is the notice of the access check or the inbound
    moderation for this event, or the draft under the verdict of the outbound moderation.

  Bounds and fuel. Keyword matching, whose loops have no evident bound, is a \<open>partial_function\<close>
  into \<open>option\<close>, and that it returns is proved. \<open>tool_loop\<close> (and \<open>run_turn\<close>) takes fuel: one unit per
  request to the model, and \<open>ac_max_tool_calls + 1\<close> units are proved enough for a model that calls
  no tool when none is offered; for another the loop of the code has no bound but its deadline,
  and \<open>None\<close> is a loop that is still running. \<open>lease_wait\<close> takes one unit per attempt, and enough of
  it to cover the waiting time is proved to suffice (the deadline divided by the polling
  interval). \<open>consumer_run\<close>, \<open>poll_rounds\<close>, \<open>discover_identity\<close> and \<open>maintenance_run\<close> model loops that
  the code runs forever: the number is how many rounds have run, and the statements hold for
  every number.

  The groups of lemmas. In each theory the definitions come first, then the helper lemmas, the
  locale (where the component relies on another), its interpretation, and the numbered
  properties, each with a witness on a concrete input where it has hypotheses. The properties
  say what the component guarantees to the rest of the program; facts marked in the manifest as
  findings are behaviours of the code that its comments do not promise.

  Not modelled: the Redis stream backend (Lua scripts on a server; the in-memory backend implements the same
  protocol), image files and vision, the tables of safety rules and of traces, the processes of plugins, evaluation, settings,
  snapshots, and the HTTP handlers of the operator console (but for the flush of the knowledge
  outbox).
  Logging, tracing spans and metrics are left out everywhere (they change no modelled state),
  except where a trace row is a write that can fail. Floats are real numbers, without rounding,
  unless the code rounds explicitly.
\<close>

end
